(* ===== verification/Rts_Prelude.thy ===== *)
theory Rts_Prelude
  imports Main "HOL-Library.Word" "HOL-Library.Monad_Syntax"
begin

unbundle bit_operations_syntax

text \<open>
  Prelude of the development: the machine types of the runtime system, the word-addressed
  memory all heap code works on, and the lemmas about word addresses that the collectors share.

  \<^item> \<open>Word_t\<close>, \<open>Addr_t\<close> and \<open>Value_t\<close> are the 64-bit words of \<^verbatim>\<open>manticore-rt.h\<close>; C's
    \<^verbatim>\<open>int\<close> is \<open>int\<close> where the code stays in range, with the conversion written out
    (\<open>c_int\<close>) where a wider value is narrowed to it.
  \<^item> \<open>mem\<close> is the memory, a function from byte addresses of aligned words to words; a
    C store \<^verbatim>\<open>*p = v\<close> is \<open>m(p := v)\<close>, a word pointer \<^verbatim>\<open>p+i\<close> is \<open>p + 8 * i\<close>.
  \<^item> a call that does not return (\<^verbatim>\<open>Die\<close>, \<^verbatim>\<open>exit\<close>, a loop without end) is \<open>None\<close>.
\<close>

named_theorems rts_simps \<open>characteristic equations of the runtime's small operations\<close>

type_synonym Word_t = "64 word"
type_synonym Addr_t = "64 word"
type_synonym Value_t = "64 word"
type_synonym mem = "64 word \<Rightarrow> 64 word"

abbreviation (input) WORD_SZB :: "64 word" where "WORD_SZB \<equiv> 8"

abbreviation (input) ONE_K :: "64 word" where "ONE_K \<equiv> 1024"

abbreviation (input) ONE_MEG :: "64 word" where "ONE_MEG \<equiv> 1024 * 1024"

text \<open>The conversion of a 64-bit word to C's 32-bit \<^verbatim>\<open>int\<close>.\<close>

definition c_int :: "64 word \<Rightarrow> int" where
  "c_int w = sint (ucast w :: 32 word)"

lemma c_int_of_int [simp]:
  assumes "0 \<le> n" and "n < 2 ^ 31"
  shows "c_int (word_of_int n) = n"
proof -
  have eq: "(ucast (word_of_int n :: 64 word) :: 32 word) = word_of_int n"
    by (rule bit_word_eqI) (simp add: bit_simps)
  have "sint (word_of_int n :: 32 word) = n"
    using assms by (simp add: signed_of_int signed_take_bit_int_eq_self)
  with eq show ?thesis by (simp add: c_int_def)
qed

lemma c_int_of_nat [simp]: "n < 2 ^ 31 \<Longrightarrow> c_int (word_of_nat n) = int n"
  using c_int_of_int [of "int n"] by (simp del: c_int_of_int)

subsection \<open>Word addresses\<close>

text \<open>
  \<open>wadr n\<close> is the byte address of the \<open>n\<close>-th aligned word. Proofs about heap code name
  addresses this way: word-pointer arithmetic becomes arithmetic on \<open>n\<close>, and below \<open>2 ^ 61\<close>
  (the heap lives in the first \<open>2 ^ 48\<close> bytes) comparisons of addresses are comparisons of
  indices.
\<close>

definition wadr :: "nat \<Rightarrow> 64 word" where
  "wadr n = word_of_nat (8 * n)"

lemma wadr_add: "wadr n + 8 * word_of_nat i = wadr (n + i)"
  by (simp add: wadr_def algebra_simps)

lemma wadr_Suc: "wadr n + 8 = wadr (Suc n)"
  by (simp add: wadr_def algebra_simps)

lemma wadr_pred: "0 < n \<Longrightarrow> wadr n - 8 = wadr (n - 1)"
  by (cases n) (simp_all add: wadr_def algebra_simps)

lemma wadr_Suc_pred [simp]: "wadr (Suc n) - 8 = wadr n"
  by (simp add: wadr_def algebra_simps)

lemma wadr_diff: "k \<le> n \<Longrightarrow> wadr n - wadr k = wadr (n - k)"
  by (simp add: wadr_def of_nat_diff right_diff_distrib')

lemma unat_wadr: "n < 2 ^ 61 \<Longrightarrow> unat (wadr n) = 8 * n"
  unfolding wadr_def unat_of_nat by (rule mod_less) simp

lemma wadr_eq_iff [simp]: "n < 2 ^ 61 \<Longrightarrow> m < 2 ^ 61 \<Longrightarrow> wadr n = wadr m \<longleftrightarrow> n = m"
  using unat_wadr by (metis mult_cancel1 zero_neq_numeral)

lemma wadr_less_iff [simp]: "n < 2 ^ 61 \<Longrightarrow> m < 2 ^ 61 \<Longrightarrow> wadr n < wadr m \<longleftrightarrow> n < m"
  by (simp add: word_less_nat_alt unat_wadr)

lemma wadr_le_iff [simp]: "n < 2 ^ 61 \<Longrightarrow> m < 2 ^ 61 \<Longrightarrow> wadr n \<le> wadr m \<longleftrightarrow> n \<le> m"
  by (simp add: word_le_nat_alt unat_wadr)

subsection \<open>Bits of small numbers\<close>

lemma bit_small_int: "0 \<le> (i::int) \<Longrightarrow> i < 2 ^ n \<Longrightarrow> bit i k \<Longrightarrow> k < n"
  by (metis bit_take_bit_iff take_bit_int_eq_self)

lemma bit_small_word: "(p::64 word) < 2 ^ n \<Longrightarrow> n < 64 \<Longrightarrow> bit p k \<Longrightarrow> k < n"
  by (metis bit_take_bit_iff less_mask_eq take_bit_eq_mask)

lemma and_7_take_bit: "(w::64 word) AND 7 = take_bit 3 w"
  by (simp add: take_bit_eq_mask mask_eq_exp_minus_1)

lemma and_3_take_bit: "(w::64 word) AND 3 = take_bit 2 w"
  by (simp add: take_bit_eq_mask mask_eq_exp_minus_1)

lemma and_7FFF_take_bit: "(w::64 word) AND 0x7FFF = take_bit 15 w"
  by (simp add: take_bit_eq_mask mask_eq_exp_minus_1)

lemma and_1_odd: "(w::64 word) AND 1 = 1 \<longleftrightarrow> odd w"
  by (simp add: and_one_eq odd_iff_mod_2_eq_one)

lemma unat_drop_bit64: "unat (drop_bit n (w :: 64 word)) = unat w div 2 ^ n"
proof -
  have "unat (drop_bit n w) = drop_bit n (take_bit LENGTH(64) (unat w))"
    by (rule unsigned_drop_bit_eq)
  also have "take_bit LENGTH(64) (unat w) = unat w"
    by (rule take_bit_nat_eq_self) (rule unsigned_less)
  finally show ?thesis by (simp only: drop_bit_eq_div)
qed

lemma and_not_mask_unat: "unat ((a :: 64 word) AND NOT (mask n)) = unat a div 2 ^ n * 2 ^ n"
proof -
  have e: "a AND NOT (mask n) = push_bit n (drop_bit n a)"
    by (rule bit_word_eqI) (auto simp: bit_simps)
  have "unat (a AND NOT (mask n)) = unat (push_bit n (drop_bit n a))" by (simp only: e)
  also have "\<dots> = take_bit 64 (push_bit n (unat (drop_bit n a)))"
    by (simp add: unsigned_push_bit_eq)
  also have "unat (drop_bit n a) = unat a div 2 ^ n" by (rule unat_drop_bit64)
  also have "take_bit 64 (push_bit n (unat a div 2 ^ n)) = push_bit n (unat a div 2 ^ n)"
  proof (rule take_bit_nat_eq_self)
    have "unat a div 2 ^ n * 2 ^ n \<le> unat a" by (rule div_times_less_eq_dividend)
    also have "unat a < 2 ^ 64" using unsigned_less [of a] by simp
    finally show "push_bit n (unat a div 2 ^ n) < 2 ^ 64" by (simp only: push_bit_eq_mult)
  qed
  finally show ?thesis by (simp only: push_bit_eq_mult)
qed

lemma align_up_unat:
  fixes a :: "64 word"
  assumes "unat a + 2 ^ k < 2 ^ 64" and k: "k < 64"
  shows "unat ((a AND NOT (mask k)) + 2 ^ k) = (unat a div 2 ^ k + 1) * 2 ^ k"
proof -
  have u: "unat (2 ^ k :: 64 word) = 2 ^ k" 
  proof -
    have "(2::nat) ^ k < 2 ^ 64" by (rule power_strict_increasing [OF k]) simp
    then show ?thesis using unat_of_nat [where 'a = 64, of "2 ^ k"] by simp
  qed
  have "unat a div 2 ^ k * 2 ^ k \<le> unat a" by (rule div_times_less_eq_dividend)
  with assms(1) have "unat a div 2 ^ k * 2 ^ k + 2 ^ k < (2::nat) ^ 64" by linarith
  then have "unat (a AND NOT (mask k)) + unat (2 ^ k :: 64 word) < 2 ^ LENGTH(64)"
    unfolding and_not_mask_unat u by simp
  then have "unat ((a AND NOT (mask k)) + 2 ^ k) = unat (a AND NOT (mask k)) + unat (2 ^ k :: 64 word)"
    by (simp only: unat_add_lem)
  then show ?thesis unfolding and_not_mask_unat u by simp
qed

subsection \<open>The interface of an encoding\<close>

text \<open>
  Headers, forwarding pointers, tagged words and hardware locations are all packed into one
  machine word and unpacked elsewhere. The contract of such a pair: unpacking undoes packing
  on the values that fit. What a client needs follows once for all of them: packed values
  are equal only if the values are.
\<close>

locale word_codec =
  fixes enc :: "'a \<Rightarrow> 'w" and dec :: "'w \<Rightarrow> 'a" and fits :: "'a \<Rightarrow> bool"
  assumes dec_enc: "fits x \<Longrightarrow> dec (enc x) = x"
begin

lemma enc_inj: "inj_on enc {x. fits x}"
  by (rule inj_on_inverseI [where g = dec]) (simp add: dec_enc)

lemma enc_eq_iff: "fits x \<Longrightarrow> fits y \<Longrightarrow> enc x = enc y \<longleftrightarrow> x = y"
  using dec_enc by metis

lemma dec_onto: "fits x \<Longrightarrow> \<exists>w. dec w = x"
  using dec_enc by blast

end

end
