(* ===== verification/Header_Words.thy ===== *)
theory Header_Words
  imports Rts_Prelude
begin

text \<open>
  Tagged values and object headers: the conversions of \<^verbatim>\<open>manticore-rt.h\<close> and \<^verbatim>\<open>value.h\<close>,
  the header formats of \<^verbatim>\<open>header-bits.h\<close> and the inline tests on headers, pointers and
  address ranges of \<^verbatim>\<open>gc-inline.h\<close> and \<^verbatim>\<open>heap.h\<close>.
  The lemmas show that the formats round-trip, that the three object formats and the
  forwarding pointer exclude each other, and what the unsigned range tests accept.
\<close>

subsection \<open>Tagged values\<close>

definition M_FALSE :: Value_t where "M_FALSE = 1"
definition M_TRUE :: Value_t where "M_TRUE = 3"
definition M_UNIT :: Value_t where "M_UNIT = 1"
definition M_NIL :: Value_t where "M_NIL = 1"
definition M_NONE :: Value_t where "M_NONE = 1"

definition ManticoreBool :: "bool \<Rightarrow> Value_t" where
  "ManticoreBool b = (if b then M_TRUE else M_FALSE)"

definition ValueIsBoxed :: "Value_t \<Rightarrow> bool" where
  "ValueIsBoxed v \<longleftrightarrow> v AND 3 = 0"

definition ValueToWord :: "Value_t \<Rightarrow> Word_t" where
  "ValueToWord v = drop_bit 1 v"

definition WordToValue :: "Word_t \<Rightarrow> Value_t" where
  "WordToValue w = push_bit 1 w + 1"

definition BYTES_TO_WORDS :: "int \<Rightarrow> int" where
  "BYTES_TO_WORDS n = drop_bit 3 (n + 7)"

definition ROUNDUP :: "64 word \<Rightarrow> 64 word \<Rightarrow> 64 word" where
  "ROUNDUP n p = (n + (p - 1)) AND NOT (p - 1)"

definition ROUNDDOWN :: "64 word \<Rightarrow> 64 word \<Rightarrow> 64 word" where
  "ROUNDDOWN n p = n AND NOT (p - 1)"

subsection \<open>Object headers\<close>

definition FWDPTR_TAG_BITS :: nat where "FWDPTR_TAG_BITS = 3"
definition FWDPTR_TAG :: Word_t where "FWDPTR_TAG = 0"
definition FWDPTR_TAG_MASK :: Word_t where "FWDPTR_TAG_MASK = 7"
definition TABLE_TAG_BITS :: nat where "TABLE_TAG_BITS = 1"
definition TABLE_TAG :: Word_t where "TABLE_TAG = 1"
definition TABLE_LEN_ID :: nat where "TABLE_LEN_ID = 15"
definition VEC_TAG_BITS :: int where "VEC_TAG_BITS = 1"
definition RAW_TAG_BITS :: int where "RAW_TAG_BITS = 0"

lemmas header_consts = FWDPTR_TAG_BITS_def FWDPTR_TAG_def FWDPTR_TAG_MASK_def TABLE_TAG_BITS_def
  TABLE_TAG_def TABLE_LEN_ID_def VEC_TAG_BITS_def RAW_TAG_BITS_def

definition MIXED_HDR :: "int \<Rightarrow> int \<Rightarrow> Word_t" where
  "MIXED_HDR i len = push_bit (TABLE_LEN_ID + TABLE_TAG_BITS) (word_of_int len)
     OR push_bit TABLE_TAG_BITS (word_of_int i) OR TABLE_TAG"

definition VEC_HDR :: "int \<Rightarrow> Word_t" where
  "VEC_HDR len = push_bit (TABLE_LEN_ID + TABLE_TAG_BITS) (word_of_int len)
     OR push_bit TABLE_TAG_BITS (word_of_int VEC_TAG_BITS) OR TABLE_TAG"

definition RAW_HDR :: "int \<Rightarrow> Word_t" where
  "RAW_HDR len = push_bit (TABLE_LEN_ID + TABLE_TAG_BITS) (word_of_int len)
     OR push_bit TABLE_TAG_BITS (word_of_int RAW_TAG_BITS) OR TABLE_TAG"

definition getID :: "Word_t \<Rightarrow> int" where
  "getID hdr = c_int (drop_bit TABLE_TAG_BITS hdr AND 0x7FFF)"

definition isForwardPtr :: "Word_t \<Rightarrow> bool" where
  "isForwardPtr hdr \<longleftrightarrow> hdr AND FWDPTR_TAG_MASK = FWDPTR_TAG"

definition GetForwardPtr :: "Word_t \<Rightarrow> Addr_t" where
  "GetForwardPtr hdr = drop_bit FWDPTR_TAG_BITS hdr"

definition MakeForwardPtr :: "Word_t \<Rightarrow> Addr_t \<Rightarrow> Word_t" where
  "MakeForwardPtr hdr fp = push_bit FWDPTR_TAG_BITS fp"

definition isPtr :: "Value_t \<Rightarrow> bool" where
  "isPtr v \<longleftrightarrow> v AND 0x3 = 0"

definition isNoPtr :: "Word_t \<Rightarrow> bool" where
  "isNoPtr hdr \<longleftrightarrow> hdr AND 0x1 = TABLE_TAG"

definition ADDR_BITS :: nat where "ADDR_BITS = 48"

definition isHeapPtr :: "Value_t \<Rightarrow> bool" where
  "isHeapPtr v \<longleftrightarrow> isPtr v \<and> v < push_bit ADDR_BITS 1"

definition isMixedHdr :: "Word_t \<Rightarrow> bool" where
  "isMixedHdr hdr \<longleftrightarrow> getID hdr > VEC_TAG_BITS \<and> isNoPtr hdr"

definition isVectorHdr :: "Word_t \<Rightarrow> bool" where
  "isVectorHdr hdr \<longleftrightarrow> getID hdr = VEC_TAG_BITS \<and> isNoPtr hdr"

definition isRawHdr :: "Word_t \<Rightarrow> bool" where
  "isRawHdr hdr \<longleftrightarrow> getID hdr = RAW_TAG_BITS \<and> isNoPtr hdr"

definition GetLength :: "Word_t \<Rightarrow> int" where
  "GetLength hdr = c_int (drop_bit (TABLE_LEN_ID + TABLE_TAG_BITS) hdr)"

subsection \<open>Address ranges\<close>

definition inAddrRange :: "Addr_t \<Rightarrow> Addr_t \<Rightarrow> Addr_t \<Rightarrow> bool" where
  "inAddrRange base szB p \<longleftrightarrow> p - base \<le> szB"

definition VP_HEAP_SZB :: Addr_t where "VP_HEAP_SZB = ONE_MEG"

definition VP_HEAP_MASK :: Addr_t where "VP_HEAP_MASK = VP_HEAP_SZB - 1"

definition ALLOC_BUF_SZB :: Addr_t where "ALLOC_BUF_SZB = 4 * ONE_K"

definition MIN_NURSERY_SZB :: Addr_t where "MIN_NURSERY_SZB = 16 * ONE_K"

definition HEAP_CHUNK_SZB :: Addr_t where "HEAP_CHUNK_SZB = 4 * ONE_MEG"

definition inVPHeap :: "Addr_t \<Rightarrow> Addr_t \<Rightarrow> bool" where
  "inVPHeap heapBase p \<longleftrightarrow> heapBase = p AND NOT VP_HEAP_MASK"

lemma ROUNDDOWN_le: "ROUNDDOWN n p \<le> n"
  unfolding ROUNDDOWN_def by (rule word_and_le2)

subsection \<open>The formats round-trip\<close>

lemma VEC_HDR_mixed: "VEC_HDR n = MIXED_HDR 1 n"
  by (simp only: VEC_HDR_def MIXED_HDR_def VEC_TAG_BITS_def)

lemma RAW_HDR_mixed: "RAW_HDR n = MIXED_HDR 0 n"
  by (simp only: RAW_HDR_def MIXED_HDR_def RAW_TAG_BITS_def)

lemma bit_MIXED_HDR: "bit (MIXED_HDR i n) k \<longleftrightarrow> k < 64 \<and>
    (k = 0 \<or> 16 \<le> k \<and> bit n (k - 16) \<or> 1 \<le> k \<and> bit i (k - 1))"
  unfolding MIXED_HDR_def TABLE_TAG_def
  by (auto simp add: bit_simps TABLE_LEN_ID_def TABLE_TAG_BITS_def
    simp del: push_bit_numeral push_bit_Suc One_nat_def)

lemma odd_MIXED_HDR [simp]: "odd (MIXED_HDR i n)"
  using bit_MIXED_HDR [of i n 0] by (simp add: bit_0)

lemma odd_VEC_HDR [simp]: "odd (VEC_HDR n)" and odd_RAW_HDR [simp]: "odd (RAW_HDR n)"
  by (simp_all add: VEC_HDR_mixed RAW_HDR_mixed)

lemma isNoPtr_odd [rts_simps]: "isNoPtr hdr \<longleftrightarrow> odd hdr"
  by (simp add: isNoPtr_def TABLE_TAG_def and_1_odd)

lemma isForwardPtr_even: "isForwardPtr hdr \<Longrightarrow> even hdr"
  by (metis FWDPTR_TAG_MASK_def FWDPTR_TAG_def even_and_iff even_zero isForwardPtr_def odd_numeral)

lemma isForwardPtr_Make [simp]: "isForwardPtr (MakeForwardPtr h p)"
proof -
  have "take_bit 3 (push_bit 3 p) = (0 :: 64 word)"
    by (rule bit_word_eqI) (simp add: bit_simps)
  then show ?thesis
    by (simp only: isForwardPtr_def MakeForwardPtr_def header_consts and_7_take_bit)
qed

lemma GetForwardPtr_Make:
  assumes "p < 2 ^ 61"
  shows "GetForwardPtr (MakeForwardPtr h p) = p"
proof -
  have "k < 61" if "bit p k" for k
    by (rule bit_small_word [OF assms]) (use that in auto)
  then show ?thesis
    unfolding GetForwardPtr_def MakeForwardPtr_def header_consts
    by (intro bit_word_eqI) (auto simp add: bit_simps)
qed

lemma getID_uint: "getID hdr = uint (take_bit 15 (drop_bit 1 hdr))"
proof -
  let ?w = "take_bit 15 (drop_bit 1 hdr)"
  have "uint ?w < 2 ^ 15"
    using take_bit_int_less_exp [of 15 "uint (drop_bit 1 hdr)"] by (simp add: unsigned_take_bit_eq)
  then have "c_int (word_of_int (uint ?w)) = uint ?w"
    by (intro c_int_of_int) auto
  then show ?thesis
    by (simp only: getID_def header_consts and_7FFF_take_bit word_of_int_uint)
qed

lemma getID_nonneg [simp]: "0 \<le> getID hdr"
  by (simp add: getID_uint)

lemma getID_less: "getID hdr < 2 ^ 15"
  using take_bit_int_less_exp [of 15 "uint (drop_bit 1 hdr)"]
  by (simp add: getID_uint unsigned_take_bit_eq)

lemma getID_MIXED_HDR [simp]:
  assumes "0 \<le> i" and "i < 2 ^ 15"
  shows "getID (MIXED_HDR i n) = i"
proof (rule bit_eqI)
  fix k
  show "bit (getID (MIXED_HDR i n)) k \<longleftrightarrow> bit i k"
    using bit_small_int [OF assms, of k]
    by (auto simp add: getID_uint bit_simps bit_MIXED_HDR)
qed

lemma GetLength_MIXED_HDR:
  assumes "0 \<le> i" and "i < 2 ^ 15" and "0 \<le> n" and "n < 2 ^ 31"
  shows "GetLength (MIXED_HDR i n) = n"
proof -
  have "(ucast (drop_bit 16 (MIXED_HDR i n)) :: 32 word) = ucast (word_of_int n :: 64 word)"
    using bit_small_int [OF assms(1,2)]
    by (intro bit_word_eqI) (fastforce simp add: bit_simps bit_MIXED_HDR)
  then show ?thesis
    using c_int_of_int [OF assms(3,4)] by (simp add: GetLength_def c_int_def header_consts)
qed

lemma getID_VEC_HDR [simp]: "getID (VEC_HDR n) = 1" and getID_RAW_HDR [simp]: "getID (RAW_HDR n) = 0"
  by (simp_all add: VEC_HDR_mixed RAW_HDR_mixed)

lemma GetLength_VEC_HDR [simp]: "0 \<le> n \<Longrightarrow> n < 2 ^ 31 \<Longrightarrow> GetLength (VEC_HDR n) = n"
  and GetLength_RAW_HDR [simp]: "0 \<le> n \<Longrightarrow> n < 2 ^ 31 \<Longrightarrow> GetLength (RAW_HDR n) = n"
  by (simp_all add: VEC_HDR_mixed RAW_HDR_mixed GetLength_MIXED_HDR)

lemma isVectorHdr_VEC_HDR [simp]: "isVectorHdr (VEC_HDR n)"
  by (simp add: isVectorHdr_def VEC_TAG_BITS_def isNoPtr_odd)

lemma isRawHdr_RAW_HDR [simp]: "isRawHdr (RAW_HDR n)"
  by (simp add: isRawHdr_def RAW_TAG_BITS_def isNoPtr_odd)

lemma isMixedHdr_MIXED_HDR [simp]: "1 < i \<Longrightarrow> i < 2 ^ 15 \<Longrightarrow> isMixedHdr (MIXED_HDR i n)"
  by (simp add: isMixedHdr_def VEC_TAG_BITS_def isNoPtr_odd)

lemma raw_not_vector: "isRawHdr h \<Longrightarrow> \<not> isVectorHdr h"
  by (simp add: isRawHdr_def isVectorHdr_def header_consts)

interpretation mixed_codec: word_codec "\<lambda>(i, n). MIXED_HDR i n" "\<lambda>h. (getID h, GetLength h)"
    "\<lambda>(i, n). 0 \<le> i \<and> i < 2 ^ 15 \<and> 0 \<le> n \<and> n < 2 ^ 31"
  by unfold_locales (auto simp: GetLength_MIXED_HDR)

interpretation fwd_codec: word_codec "MakeForwardPtr h" GetForwardPtr "\<lambda>p. p < 2 ^ 61" for h
  by unfold_locales (simp only: GetForwardPtr_Make)

subsection \<open>Tagged words and ranges\<close>

lemma ValueToWord_WordToValue:
  assumes "w < 2 ^ 63"
  shows "ValueToWord (WordToValue w) = w"
proof -
  have bits: "k < 63" if "bit w k" for k
    by (rule bit_small_word [OF assms]) (use that in auto)
  have or: "push_bit 1 w + 1 = push_bit 1 w OR 1"
    by (simp add: or_one_eq)
  have "drop_bit 1 (push_bit 1 w OR 1) = w"
    using bits by (intro bit_word_eqI) (auto simp add: bit_simps simp del: One_nat_def)
  with or show ?thesis by (simp only: ValueToWord_def WordToValue_def)
qed

interpretation tag_codec: word_codec WordToValue ValueToWord "\<lambda>w. w < 2 ^ 63"
  by unfold_locales (rule ValueToWord_WordToValue)

lemma isPtr_wadr [simp]: "isPtr (wadr n)"
proof -
  have "wadr n = push_bit 3 (word_of_nat n)"
    by (simp add: wadr_def push_bit_eq_mult)
  then have "take_bit 2 (wadr n) = 0"
    by (simp only:) (rule bit_word_eqI, auto simp add: bit_simps)
  then show ?thesis by (simp only: isPtr_def and_3_take_bit)
qed

lemma isPtr_even: "isPtr v \<Longrightarrow> even v"
  by (metis even_and_iff even_zero isPtr_def odd_numeral)

lemma WordToValue_not_ptr: "\<not> isPtr (WordToValue w)"
  using isPtr_even [of "WordToValue w"] by (auto simp: WordToValue_def)

text \<open>
  The range test is one unsigned comparison: an address below the base wraps around and
  fails, and the address one past the end (\<open>base + szB\<close>) is accepted.
\<close>

lemma inAddrRange_iff:
  assumes "unat base + unat szB < 2 ^ 64"
  shows "inAddrRange base szB p \<longleftrightarrow> unat base \<le> unat p \<and> unat p \<le> unat base + unat szB"
  using assms unsigned_less [of p]
  by (auto simp: inAddrRange_def word_le_nat_alt unat_sub_if')

end
