(* ===== verification/C_Strings.thy ===== *)
theory C_Strings
  imports Rts_Prelude
begin

text \<open>
  The part of the C string library the runtime uses. A C string is the list of its characters
  before the terminating NUL; a pointer into a string is the suffix it points to.
  \<open>strtol\<close> returns the value (clamped to the range of \<^verbatim>\<open>long\<close>, as the library documents)
  and the unconsumed suffix that \<^verbatim>\<open>endp\<close> is set to; \<open>show_int\<close> is the conversion
  \<^verbatim>\<open>%d\<close>. Printing then parsing gives the number back.
\<close>

definition isspace :: "char \<Rightarrow> bool" where
  "isspace c \<longleftrightarrow> of_char c = (32::nat) \<or> (9 \<le> (of_char c :: nat) \<and> of_char c \<le> (13::nat))"

definition digit_val :: "char \<Rightarrow> nat option" where
  "digit_val c = (let n = of_char c :: nat in
     if 48 \<le> n \<and> n \<le> 57 then Some (n - 48)
     else if 97 \<le> n \<and> n \<le> 122 then Some (n - 87)
     else if 65 \<le> n \<and> n \<le> 90 then Some (n - 55)
     else None)"

definition is_digit :: "nat \<Rightarrow> char \<Rightarrow> bool" where
  "is_digit base c \<longleftrightarrow> (case digit_val c of None \<Rightarrow> False | Some d \<Rightarrow> d < base)"

fun digits_val :: "nat \<Rightarrow> nat \<Rightarrow> string \<Rightarrow> nat" where
  "digits_val base acc [] = acc"
| "digits_val base acc (c # cs) =
     digits_val base (base * acc + (case digit_val c of None \<Rightarrow> 0 | Some d \<Rightarrow> d)) cs"

definition clamp_long :: "int \<Rightarrow> int" where
  "clamp_long n = max (- (2 ^ 63)) (min (2 ^ 63 - 1) n)"

fun skip_sign :: "string \<Rightarrow> bool \<times> string" where
  "skip_sign (CHR ''-'' # cs) = (True, cs)"
| "skip_sign (CHR ''+'' # cs) = (False, cs)"
| "skip_sign cs = (False, cs)"

text \<open>The base prefix: base 0 selects 16 after \<^verbatim>\<open>0x\<close>, 8 after \<^verbatim>\<open>0\<close>, and 10 otherwise.\<close>

definition strip_base :: "nat \<Rightarrow> string \<Rightarrow> nat \<times> string" where
  "strip_base base s =
     (let hex = (case s of a # x # d # _ \<Rightarrow> a = CHR ''0'' \<and> (x = CHR ''x'' \<or> x = CHR ''X'') \<and> is_digit 16 d
                         | _ \<Rightarrow> False)
      in if (base = 0 \<or> base = 16) \<and> hex then (16, drop 2 s)
         else if base = 0 then ((if s \<noteq> [] \<and> hd s = CHR ''0'' then 8 else 10), s)
         else (base, s))"

definition strtol :: "string \<Rightarrow> nat \<Rightarrow> int \<times> string" where
  "strtol s base =
     (let (neg, s1) = skip_sign (dropWhile isspace s);
          (b, s2) = strip_base base s1;
          ds = takeWhile (is_digit b) s2;
          v = int (digits_val b 0 ds)
      in if ds = [] then (0, s)
         else (clamp_long (if neg then - v else v), drop (length ds) s2))"

fun strcmp_eq :: "string \<Rightarrow> string \<Rightarrow> bool" where
  "strcmp_eq s t \<longleftrightarrow> s = t"

text \<open>\<^verbatim>\<open>strncmp(s, t, n) == 0\<close>: the first \<open>n\<close> characters agree, up to the terminating NUL.\<close>

definition strncmp_eq :: "string \<Rightarrow> string \<Rightarrow> nat \<Rightarrow> bool" where
  "strncmp_eq s t n \<longleftrightarrow> take n s = take n t"

fun strstr :: "string \<Rightarrow> string \<Rightarrow> bool" where
  "strstr [] pat \<longleftrightarrow> pat = []"
| "strstr (c # cs) pat \<longleftrightarrow> take (length pat) (c # cs) = pat \<or> strstr cs pat"

text \<open>\<^verbatim>\<open>strsep (&p, ",")\<close> on a non-null pointer: the token, and the new pointer (\<open>None\<close> at the end).\<close>

definition strsep :: "char \<Rightarrow> string \<Rightarrow> string \<times> string option" where
  "strsep d s = (let t = takeWhile (\<lambda>c. c \<noteq> d) s; r = dropWhile (\<lambda>c. c \<noteq> d) s
     in (t, if r = [] then None else Some (tl r)))"

definition tolower :: "char \<Rightarrow> char" where
  "tolower c = (if 65 \<le> (of_char c :: nat) \<and> (of_char c :: nat) \<le> 90
     then char_of ((of_char c :: nat) + 32) else c)"

definition strcasecmp_eq :: "string \<Rightarrow> string \<Rightarrow> bool" where
  "strcasecmp_eq s t \<longleftrightarrow> map tolower s = map tolower t"

subsection \<open>Decimal output\<close>

definition digit_char :: "nat \<Rightarrow> char" where
  "digit_char d = char_of (48 + d)"

fun show_nat :: "nat \<Rightarrow> string" where
  "show_nat n = (if n < 10 then [digit_char n] else show_nat (n div 10) @ [digit_char (n mod 10)])"

declare show_nat.simps [simp del]

definition show_int :: "int \<Rightarrow> string" where
  "show_int i = (if i < 0 then CHR ''-'' # show_nat (nat (- i)) else show_nat (nat i))"

lemma digit_val_digit_char [simp]: "d < 10 \<Longrightarrow> digit_val (digit_char d) = Some d"
  by (simp add: digit_val_def digit_char_def Let_def)

lemma is_digit_digit_char [simp]: "d < 10 \<Longrightarrow> is_digit 10 (digit_char d)"
  by (simp add: is_digit_def)

lemma digit_char_not_space [simp]: "d < 10 \<Longrightarrow> \<not> isspace (digit_char d)"
  by (simp add: isspace_def digit_char_def)

lemma digit_char_no_sign: "d < 10 \<Longrightarrow> digit_char d \<noteq> CHR ''-'' \<and> digit_char d \<noteq> CHR ''+''"
proof -
  assume "d < 10"
  then have "(of_char (digit_char d) :: nat) = 48 + d"
    by (simp add: digit_char_def)
  then show ?thesis by auto
qed

lemma digits_val_append: "digits_val b acc (xs @ ys) = digits_val b (digits_val b acc xs) ys"
  by (induction b acc xs rule: digits_val.induct) auto

lemma show_nat_digits: "\<forall>c \<in> set (show_nat n). \<exists>d < 10. c = digit_char d"
proof (induction n rule: show_nat.induct)
  case (1 n)
  show ?case
  proof (cases "n < 10")
    case True
    then show ?thesis by (subst show_nat.simps) auto
  next
    case False
    with 1 have "\<forall>c \<in> set (show_nat (n div 10)). \<exists>d < 10. c = digit_char d" by simp
    moreover have "\<exists>d<10. digit_char (n mod 10) = digit_char d"
      by (rule exI [of _ "n mod 10"]) simp
    ultimately show ?thesis using False by (subst show_nat.simps) auto
  qed
qed

lemma show_nat_nonempty [simp]: "show_nat n \<noteq> []"
  by (subst show_nat.simps) simp

lemma digits_val_show_nat: "digits_val 10 0 (show_nat n) = n"
proof (induction n rule: show_nat.induct)
  case (1 n)
  show ?case
  proof (cases "n < 10")
    case True
    then show ?thesis by (subst show_nat.simps) simp
  next
    case False
    with 1 show ?thesis by (subst show_nat.simps) (simp add: digits_val_append)
  qed
qed

lemma takeWhile_show_nat: "takeWhile (is_digit 10) (show_nat n) = show_nat n"
  using show_nat_digits [of n] by (auto simp: takeWhile_eq_all_conv)

lemma show_nat_hd: "\<exists>d cs. d < 10 \<and> show_nat n = digit_char d # cs"
  using show_nat_digits [of n] by (cases "show_nat n") auto

lemma skip_sign_plain: "c \<noteq> CHR ''-'' \<Longrightarrow> c \<noteq> CHR ''+'' \<Longrightarrow> skip_sign (c # cs) = (False, c # cs)"
  by (cases "(c # cs)" rule: skip_sign.cases) auto

lemma strtol_show_nat: "strtol (show_nat n) 10 = (clamp_long (int n), [])"
proof -
  obtain d cs where d: "d < 10" "show_nat n = digit_char d # cs"
    using show_nat_hd by blast
  then have "dropWhile isspace (show_nat n) = show_nat n" by simp
  moreover have "skip_sign (show_nat n) = (False, show_nat n)"
    using d digit_char_no_sign by (simp add: skip_sign_plain)
  ultimately show ?thesis
    by (simp add: strtol_def strip_base_def Let_def takeWhile_show_nat digits_val_show_nat)
qed

lemma strtol_show_int: "strtol (show_int i) 10 = (clamp_long i, [])"
proof (cases "i < 0")
  case True
  then show ?thesis
    by (simp add: show_int_def strtol_def strip_base_def Let_def takeWhile_show_nat
        digits_val_show_nat isspace_def)
next
  case False
  then show ?thesis by (simp add: show_int_def strtol_show_nat)
qed

lemma clamp_long_id: "- (2 ^ 63) \<le> n \<Longrightarrow> n < 2 ^ 63 \<Longrightarrow> clamp_long n = n"
  by (simp add: clamp_long_def)

lemma digit_char_zero: "digit_char 0 = CHR ''0''"
  by code_simp

lemma digit_char_0: "d < 10 \<Longrightarrow> digit_char d = CHR ''0'' \<longleftrightarrow> d = 0"
proof -
  assume "d < 10"
  then have "(of_char (digit_char d) :: nat) = 48 + d" by (simp add: digit_char_def)
  then show ?thesis by (auto simp: digit_char_zero)
qed

lemma show_nat_lead: "n \<noteq> 0 \<Longrightarrow> hd (show_nat n) \<noteq> CHR ''0''"
proof (induction n rule: show_nat.induct)
  case (1 n)
  then show ?case by (subst show_nat.simps) (auto simp: digit_char_0 hd_append)
qed

text \<open>A decimal without leading zeros is read the same whether the base is given or detected.\<close>

lemma strip_base_detects:
  assumes "n \<noteq> 0"
  shows "strip_base 0 (show_nat n) = (10, show_nat n)"
proof -
  have h: "hd (show_nat n) \<noteq> CHR ''0''" by (rule show_nat_lead [OF assms])
  then show ?thesis by (cases "show_nat n") (auto simp: strip_base_def Let_def split: list.split)
qed

lemma show_nat_0: "show_nat 0 = ''0''"
  by (simp add: show_nat.simps digit_char_zero)

lemma strtol_show_nat_detect: "strtol (show_nat n) 0 = (clamp_long (int n), [])"
proof (cases "n = 0")
  case True
  have "strtol ''0'' 0 = (clamp_long 0, [])" by code_simp
  then show ?thesis by (simp add: True show_nat_0)
next
  case False
  obtain d cs where d: "d < 10" "show_nat n = digit_char d # cs" using show_nat_hd by blast
  then have "dropWhile isspace (show_nat n) = show_nat n" by simp
  moreover have "skip_sign (show_nat n) = (False, show_nat n)" using d digit_char_no_sign by (simp add: skip_sign_plain)
  ultimately show ?thesis
    by (simp add: strtol_def strip_base_detects [OF False] takeWhile_show_nat digits_val_show_nat)
qed

lemma strtol_show_int_detect: "strtol (show_int i) 0 = (clamp_long i, [])"
proof (cases "i < 0")
  case True
  then show ?thesis
    by (simp add: show_int_def strtol_def strip_base_detects Let_def takeWhile_show_nat digits_val_show_nat isspace_def)
next
  case False
  then show ?thesis by (simp add: show_int_def strtol_show_nat_detect)
qed

end
