(* ===== verification/Hw_Topology.thy ===== *)
theory Hw_Topology
  imports C_Strings
begin

text \<open>
  Hardware locations: \<^verbatim>\<open>include/topology.h\<close> and \<^verbatim>\<open>cpu/topology.c\<close>. A location packs a
  node, a core and a hardware thread into one 32-bit word; the topology is read from
  \<^verbatim>\<open>/proc/cpuinfo\<close> (Linux, without libnuma) and the table of locations is indexed by
  logical processor. The lemmas give the packing's round trip, the meaning of the logical
  identifier and the order of the location table.
\<close>

type_synonym Location_t = "32 word"

definition LOC_THREAD_BITS :: nat where "LOC_THREAD_BITS = 8"
definition LOC_CORE_BITS :: nat where "LOC_CORE_BITS = 8"
definition LOC_NODE_BITS :: nat where "LOC_NODE_BITS = 10"

lemmas loc_bits = LOC_THREAD_BITS_def LOC_CORE_BITS_def LOC_NODE_BITS_def

record topology =
  NumHWNodes :: int
  NumHWCores :: int
  NumHWThreads :: int
  NumCoresPerNode :: int
  NumThdsPerCore :: int

definition Location :: "int \<Rightarrow> int \<Rightarrow> int \<Rightarrow> Location_t" where
  "Location nd core thd = word_of_int
     (push_bit (LOC_THREAD_BITS + LOC_CORE_BITS) nd OR push_bit LOC_THREAD_BITS core OR thd)"

definition LocationNode :: "Location_t \<Rightarrow> int" where
  "LocationNode loc = uint (drop_bit (LOC_THREAD_BITS + LOC_CORE_BITS) loc)"

text \<open>
  The first \<^verbatim>\<open>&\<close> binds weaker than \<^verbatim>\<open>+\<close>: the mask is applied to the whole sum.
\<close>

definition LogicalId :: "topology \<Rightarrow> Location_t \<Rightarrow> int" where
  "LogicalId t loc =
     (let i0 = LocationNode loc;
          i1 = sint (((word_of_int (i0 * NumCoresPerNode t) :: 32 word) + drop_bit LOC_THREAD_BITS loc)
                 AND word_of_int (2 ^ LOC_CORE_BITS - 1));
          i2 = sint ((word_of_int (i1 * NumThdsPerCore t) :: 32 word)
                 + (loc AND word_of_int (2 ^ LOC_THREAD_BITS - 1)))
      in i2)"

definition SameNodeLocation :: "Location_t \<Rightarrow> Location_t \<Rightarrow> bool" where
  "SameNodeLocation loc1 loc2 \<longleftrightarrow> LocationNode loc1 = LocationNode loc2"

text \<open>The second operand is a comparison (\<^verbatim>\<open>loc2 > LOC_THREAD_BITS\<close>), not a shift.\<close>

definition SameCoreLocation :: "Location_t \<Rightarrow> Location_t \<Rightarrow> bool" where
  "SameCoreLocation loc1 loc2 \<longleftrightarrow>
     drop_bit LOC_THREAD_BITS loc1 = (if loc2 > word_of_nat LOC_THREAD_BITS then 1 else 0)"

text \<open>\<^verbatim>\<open>snprintf\<close>: at most \<open>bufSz - 1\<close> characters are stored; the full length is returned.\<close>

definition LocationString :: "topology \<Rightarrow> nat \<Rightarrow> Location_t \<Rightarrow> int \<times> string" where
  "LocationString t bufSz loc =
     (let nd = LocationNode loc;
          core = sint (drop_bit LOC_THREAD_BITS loc AND word_of_int (2 ^ LOC_CORE_BITS - 1));
          thd = sint (loc AND word_of_int (2 ^ LOC_THREAD_BITS - 1));
          s = (if NumThdsPerCore t = 1 then show_int nd @ '':'' @ show_int core
               else show_int nd @ '':'' @ show_int core @ '':'' @ show_int thd)
      in (int (length s), take (bufSz - 1) s))"

subsection \<open>Reading /proc/cpuinfo\<close>

text \<open>
  \<^verbatim>\<open>sscanf (buf, "name : %d", &tmp)\<close>: white space in the format matches any amount of white
  space, other characters must agree; \<open>None\<close> when the conversion does not happen.
\<close>

fun scan_lit :: "string \<Rightarrow> string \<Rightarrow> string option" where
  "scan_lit [] s = Some s"
| "scan_lit (f # fs) s =
     (if isspace f then scan_lit fs (dropWhile isspace s)
      else case s of [] \<Rightarrow> None | c # cs \<Rightarrow> if c = f then scan_lit fs cs else None)"

definition sscanf_int :: "string \<Rightarrow> string \<Rightarrow> int option" where
  "sscanf_int fmt s = (case scan_lit fmt s of None \<Rightarrow> None
     | Some r \<Rightarrow> let (v, e) = strtol r 10 in if length e = length r then None
                 else Some (sint (word_of_int v :: 32 word)))"

record cpu_scan =
  maxProcId :: int
  maxNodeId :: int
  maxCoreId :: int
  nCores :: int

definition cpuinfo_line :: "cpu_scan \<Rightarrow> string \<Rightarrow> cpu_scan" where
  "cpuinfo_line st buf =
     (case sscanf_int ''processor : '' buf of
        Some tmp \<Rightarrow> st\<lparr>maxProcId := (if tmp > maxProcId st then tmp else maxProcId st)\<rparr>
      | None \<Rightarrow> (case sscanf_int ''physical id : '' buf of
        Some tmp \<Rightarrow> st\<lparr>maxNodeId := (if tmp > maxNodeId st then tmp else maxNodeId st)\<rparr>
      | None \<Rightarrow> (case sscanf_int ''core id : '' buf of
        Some tmp \<Rightarrow> st\<lparr>maxCoreId := (if tmp > maxCoreId st then tmp else maxCoreId st)\<rparr>
      | None \<Rightarrow> (case sscanf_int ''cpu cores : '' buf of
        Some tmp \<Rightarrow> st\<lparr>nCores := (if tmp > nCores st then tmp else nCores st)\<rparr>
      | None \<Rightarrow> st))))"

text \<open>
  \<open>None\<close>: \<^verbatim>\<open>/proc/cpuinfo\<close> cannot be opened. C's division truncates and traps on zero;
  a file without a \<^verbatim>\<open>cpu cores\<close> line leaves \<open>NumHWCores = 0\<close> and the division
  \<^verbatim>\<open>NumHWThreads / NumHWCores\<close> does not return.
\<close>

definition GetNumCPUs :: "string list option \<Rightarrow> topology option" where
  "GetNumCPUs cpuinfo = (case cpuinfo of None \<Rightarrow> None
     | Some ls \<Rightarrow>
        (let st = fold (\<lambda>l st. cpuinfo_line st l) ls
                    \<lparr>maxProcId = 0, maxNodeId = 0, maxCoreId = 0, nCores = 0\<rparr>;
             nodes = maxNodeId st + 1; cores = nodes * nCores st; threads = maxProcId st + 1
         in if cores = 0 then None
            else Some \<lparr>NumHWNodes = nodes, NumHWCores = cores, NumHWThreads = threads,
                   NumCoresPerNode = nCores st, NumThdsPerCore = threads div cores\<rparr>))"

text \<open>The loop nest of \<^verbatim>\<open>DiscoverTopology\<close>: nodes, then cores, then threads.\<close>

definition Locations :: "topology \<Rightarrow> Location_t list" where
  "Locations t = concat (map (\<lambda>nd. concat (map (\<lambda>core. map (\<lambda>thd. Location nd core thd)
     [0 .. NumThdsPerCore t - 1]) [0 .. NumCoresPerNode t - 1])) [0 .. NumHWNodes t - 1])"

text \<open>The whole of \<^verbatim>\<open>DiscoverTopology\<close>; \<open>None\<close>: it dies because the processors cannot be counted.\<close>

definition DiscoverTopology :: "string list option \<Rightarrow> (topology \<times> Location_t list) option" where
  "DiscoverTopology cpuinfo = map_option (\<lambda>t. (t, Locations t)) (GetNumCPUs cpuinfo)"

subsection \<open>Facts about locations\<close>

lemma uint_small: "0 \<le> n \<Longrightarrow> n < 2 ^ 32 \<Longrightarrow> uint (word_of_int n :: 32 word) = n"
  by (simp add: unsigned_of_int take_bit_int_eq_self)

lemma uint_drop_bit: "uint (drop_bit n (w :: 32 word)) = uint w div 2 ^ n"
proof -
  have "uint (drop_bit n w) = drop_bit n (take_bit LENGTH(32) (uint w))"
    by (rule unsigned_drop_bit_eq)
  also have "take_bit LENGTH(32) (uint w) = uint w"
    by (rule take_bit_int_eq_self) (simp, rule unsigned_less)
  finally show ?thesis by (simp only: drop_bit_eq_div)
qed

lemma Location_uint:
  assumes "0 \<le> nd" "nd < 2 ^ 10" "0 \<le> core" "core < 2 ^ 8" "0 \<le> thd" "thd < 2 ^ 8"
  shows "uint (Location nd core thd) = nd * 2 ^ 16 + core * 2 ^ 8 + thd"
proof -
  have t: "\<not> bit thd k" and c: "\<not> bit core k" if "8 \<le> k" for k
    using that bit_small_int [OF assms(5,6)] bit_small_int [OF assms(3,4)] by (meson not_less)+
  have 1: "push_bit 8 core OR thd = push_bit 8 core + thd"
    by (rule disjunctive_add_eq_or [symmetric]) (auto intro!: bit_eqI simp: bit_simps t)
  have 2: "push_bit 16 nd OR (push_bit 8 core + thd) = push_bit 16 nd + (push_bit 8 core + thd)"
    unfolding 1 [symmetric]
    by (rule disjunctive_add_eq_or [symmetric]) (auto intro!: bit_eqI simp: bit_simps t c)
  have "push_bit 16 nd OR push_bit 8 core OR thd = nd * 2 ^ 16 + core * 2 ^ 8 + thd"
    using 1 2 by (simp add: push_bit_eq_mult)
  then show ?thesis
    unfolding Location_def loc_bits
    by (simp only: numeral_plus_numeral add_num_simps) (rule uint_small, use assms in auto)
qed

lemma LocationNode_Location:
  assumes "0 \<le> nd" "nd < 2 ^ 10" "0 \<le> core" "core < 2 ^ 8" "0 \<le> thd" "thd < 2 ^ 8"
  shows "LocationNode (Location nd core thd) = nd"
proof -
  have "(nd * 2 ^ 16 + core * 2 ^ 8 + thd) div 2 ^ 16 = nd" using assms by simp
  then show ?thesis
    unfolding LocationNode_def uint_drop_bit Location_uint [OF assms] by (simp add: loc_bits)
qed

lemma sint_small: "0 \<le> n \<Longrightarrow> n < 2 ^ 31 \<Longrightarrow> sint (word_of_int n :: 32 word) = n"
  by (simp add: signed_of_int signed_take_bit_int_eq_self)

lemma and_255: "(w :: 32 word) AND 255 = word_of_int (uint w mod 256)"
proof -
  have "w AND 255 = take_bit 8 w" by (simp add: take_bit_eq_mask mask_eq_exp_minus_1)
  also have "\<dots> = word_of_int (take_bit 8 (uint w))"
    by (metis unsigned_take_bit_eq word_of_int_uint)
  finally show ?thesis by (simp add: take_bit_eq_mod)
qed

lemma LogicalId_Location:
  assumes "0 \<le> nd" "nd < 2 ^ 10" "0 \<le> core" "core < 2 ^ 8" "0 \<le> thd" "thd < 2 ^ 8"
    and n: "0 \<le> NumCoresPerNode t" "nd * NumCoresPerNode t + core < 2 ^ 8"
    and th: "0 \<le> NumThdsPerCore t" "NumThdsPerCore t < 2 ^ 8"
  shows "LogicalId t (Location nd core thd) =
    (nd * NumCoresPerNode t + core) * NumThdsPerCore t + thd"
proof -
  let ?loc = "Location nd core thd" and ?N = "NumCoresPerNode t" and ?T = "NumThdsPerCore t"
  have u: "uint (drop_bit 8 ?loc) = nd * 256 + core"
    unfolding uint_drop_bit Location_uint [OF assms(1-6)] using assms by simp
  then have d: "drop_bit 8 ?loc = word_of_int (nd * 256 + core)" by (metis word_of_int_uint)
  have "(word_of_int (nd * ?N) :: 32 word) + drop_bit 8 ?loc
      = word_of_int (nd * ?N + (nd * 256 + core))"
    by (simp only: d of_int_add)
  then have "uint ((word_of_int (nd * ?N) :: 32 word) + drop_bit 8 ?loc) mod 256
      = (nd * ?N + (nd * 256 + core)) mod 256"
    by (simp only: uint_word_of_int) (simp add: mod_mod_cancel)
  also have "\<dots> = (nd * ?N + core + nd * 256) mod 256" by (simp add: ac_simps)
  also have "\<dots> = nd * ?N + core"
    using assms by simp
  finally have i1: "((word_of_int (nd * ?N) :: 32 word) + drop_bit 8 ?loc) AND 255
      = word_of_int (nd * ?N + core)"
    by (simp only: and_255)
  have i2: "?loc AND 255 = word_of_int thd"
  proof -
    have "nd * 2 ^ 16 + core * 2 ^ 8 + thd = thd + (nd * 256 + core) * 256"
      by (simp add: algebra_simps)
    then have "(nd * 2 ^ 16 + core * 2 ^ 8 + thd) mod 256 = thd"
      using assms(5,6) by (simp only: mod_mult_self1) simp
    then show ?thesis by (simp only: and_255 Location_uint [OF assms(1-6)])
  qed
  have nn: "0 \<le> nd * ?N + core" using assms by simp
  have le: "(nd * ?N + core) * ?T \<le> 256 * 256"
    by (rule mult_mono) (use assms nn in auto)
  have "0 \<le> (nd * ?N + core) * ?T" using nn th by simp
  then have "sint ((word_of_int ((nd * ?N + core) * ?T) :: 32 word) + word_of_int thd)
      = (nd * ?N + core) * ?T + thd"
    using le assms(5,6) by (simp only: of_int_add [symmetric]) (rule sint_small, auto)
  moreover have "sint (word_of_int (nd * ?N + core) :: 32 word) = nd * ?N + core"
    using n(2) nn by (intro sint_small) auto
  moreover have "(word_of_int (2 ^ 8 - 1) :: 32 word) = 255" by simp
  ultimately show ?thesis
    by (simp only: LogicalId_def loc_bits LocationNode_Location [OF assms(1-6)] i1 i2 Let_def)
qed


lemma concat_rows:
  "concat (map (\<lambda>i. map (\<lambda>j. i * int n + j) [0 .. int n - 1]) [0 .. int k - 1]) = [0 .. int k * int n - 1]"
proof (induction k)
  case (Suc k)
  have row: "map (\<lambda>j. a + j) [0 .. int m - 1] = [a .. a + int m - 1]" for a m
  proof (induction m)
    case (Suc m)
    have "[0 .. int (Suc m) - 1] = [0 .. int m - 1] @ [int m]"
      and "[a .. a + int (Suc m) - 1] = [a .. a + int m - 1] @ [a + int m]"
      by (simp_all add: upto_rec2 add.commute)
    with Suc show ?case by simp
  qed simp
  have "[0 .. int (Suc k) - 1] = [0 .. int k - 1] @ [int k]"
    by (simp add: upto_rec2)
  moreover have "[0 .. int k * int n - 1] @ [int k * int n .. int k * int n + int n - 1]
      = [0 .. int k * int n + int n - 1]"
    by (cases "n = 0") (simp, rule upto_split1 [symmetric], auto)
  ultimately show ?case using Suc row [of "int k * int n" n] by (simp add: algebra_simps)
qed simp

lemma concat_map_concat_map:
  "concat (map (\<lambda>x. concat (map g (h x))) xs) = concat (map g (concat (map h xs)))"
  by (induction xs) simp_all

lemma map_LogicalId_Locations:
  assumes N: "0 \<le> NumCoresPerNode t" and T: "0 \<le> NumThdsPerCore t" "NumThdsPerCore t < 2 ^ 8"
    and M: "0 \<le> NumHWNodes t" "NumHWNodes t < 2 ^ 10"
    and NM: "NumHWNodes t * NumCoresPerNode t < 2 ^ 8"
  shows "map (LogicalId t) (Locations t)
    = [0 .. NumHWNodes t * NumCoresPerNode t * NumThdsPerCore t - 1]"
proof -
  let ?M = "NumHWNodes t" and ?N = "NumCoresPerNode t" and ?T = "NumThdsPerCore t"
  have id: "LogicalId t (Location nd core thd) = (nd * ?N + core) * ?T + thd"
    if "nd \<in> {0 .. ?M - 1}" "core \<in> {0 .. ?N - 1}" "thd \<in> {0 .. ?T - 1}" for nd core thd
  proof -
    have "(nd + 1) * ?N \<le> ?M * ?N" by (rule mult_right_mono) (use that N in auto)
    then have le: "nd * ?N + ?N \<le> ?M * ?N" by (simp add: algebra_simps)
    moreover have "0 \<le> nd * ?N" using that N by simp
    ultimately have "?N < 2 ^ 8" and "nd * ?N + core < 2 ^ 8"
      using NM that by (simp_all only: atLeastAtMost_iff) linarith+
    then show ?thesis
      using that T M N by (intro LogicalId_Location) auto
  qed
  have "map (LogicalId t) (Locations t) = concat (map (\<lambda>nd. concat (map (\<lambda>core.
      map (\<lambda>thd. (nd * ?N + core) * ?T + thd) [0 .. ?T - 1]) [0 .. ?N - 1])) [0 .. ?M - 1])"
    by (auto simp: Locations_def map_concat intro!: arg_cong [where f = concat] id)
  also have "\<dots> = concat (map (\<lambda>c. map (\<lambda>thd. c * ?T + thd) [0 .. ?T - 1])
      (concat (map (\<lambda>nd. map (\<lambda>core. nd * ?N + core) [0 .. ?N - 1]) [0 .. ?M - 1])))"
    by (simp add: comp_def flip: concat_map_concat_map)
  also have "\<dots> = [0 .. ?M * ?N * ?T - 1]"
    using concat_rows [of "nat ?N" "nat ?M"] concat_rows [of "nat ?T" "nat (?M * ?N)"] N T M
    by simp
  finally show ?thesis .
qed

interpretation loc_codec: word_codec "\<lambda>(nd, core, thd). Location nd core thd"
    "\<lambda>l. (LocationNode l, uint (drop_bit 8 l) mod 256, uint l mod 256)"
    "\<lambda>(nd, core, thd). 0 \<le> nd \<and> nd < 2 ^ 10 \<and> 0 \<le> core \<and> core < 2 ^ 8 \<and> 0 \<le> thd \<and> thd < 2 ^ 8"
proof
  fix x :: "int \<times> int \<times> int"
  obtain nd core thd where x: "x = (nd, core, thd)" by (cases x)
  assume "case x of (nd, core, thd) \<Rightarrow>
    0 \<le> nd \<and> nd < 2 ^ 10 \<and> 0 \<le> core \<and> core < 2 ^ 8 \<and> 0 \<le> thd \<and> thd < 2 ^ 8"
  with x have a: "0 \<le> nd" "nd < 2 ^ 10" "0 \<le> core" "core < 2 ^ 8" "0 \<le> thd" "thd < 2 ^ 8"
    by auto
  have "uint (drop_bit 8 (Location nd core thd)) mod 256 = core"
  proof -
    have "(nd * 2 ^ 16 + core * 2 ^ 8 + thd) div 2 ^ 8 = core + nd * 256" using a by simp
    then show ?thesis
      unfolding uint_drop_bit Location_uint [OF a] using a(3,4) by simp
  qed
  moreover have "uint (Location nd core thd) mod 256 = thd"
    unfolding Location_uint [OF a] using a(5,6)
      mod_mult_self1 [of thd "nd * 256 + core" 256] by (simp add: algebra_simps)
  ultimately show "(LocationNode (case x of (nd, core, thd) \<Rightarrow> Location nd core thd),
      uint (drop_bit 8 (case x of (nd, core, thd) \<Rightarrow> Location nd core thd)) mod 256,
      uint (case x of (nd, core, thd) \<Rightarrow> Location nd core thd) mod 256) = x"
    unfolding x prod.case using LocationNode_Location [OF a] by (simp only:)
qed

text \<open>Locations are faithful: on a machine within the documented field widths, two locations are
  the same word only if node, core and thread agree, and the node is read back.\<close>

theorem Location_faithful:
  assumes "0 \<le> nd" "nd < 2 ^ 10" "0 \<le> core" "core < 2 ^ 8" "0 \<le> thd" "thd < 2 ^ 8"
    and "0 \<le> nd'" "nd' < 2 ^ 10" "0 \<le> core'" "core' < 2 ^ 8" "0 \<le> thd'" "thd' < 2 ^ 8"
  shows "LocationNode (Location nd core thd) = nd \<and>
    (Location nd core thd = Location nd' core' thd' \<longleftrightarrow> nd = nd' \<and> core = core' \<and> thd = thd')"
  using LocationNode_Location [OF assms(1-6)] loc_codec.enc_eq_iff [of "(nd, core, thd)" "(nd', core', thd')"]
    assms by simp

lemma Location_faithful_witness:
  "LocationNode (Location 3 7 1) = 3 \<and> (Location 3 7 1 = Location 3 1 7 \<longleftrightarrow> (3::int) = 3 \<and> (7::int) = 1 \<and> (1::int) = 7)"
  by (rule Location_faithful) simp_all

text \<open>The location table built by \<open>DiscoverTopology\<close> is indexed by logical processor: on a machine
  with fewer than 256 cores in total, the \<open>i\<close>-th entry's logical identifier is \<open>i\<close>, for all
  entries. The bound matters, since \<open>LogicalId\<close> masks the whole core number to eight bits.\<close>

theorem Locations_indexed_by_LogicalId:
  assumes "0 \<le> NumCoresPerNode t" and "0 \<le> NumThdsPerCore t" and "NumThdsPerCore t < 2 ^ 8"
    and "0 \<le> NumHWNodes t" and "NumHWNodes t < 2 ^ 10"
    and "NumHWNodes t * NumCoresPerNode t < 2 ^ 8"
  shows "map (LogicalId t) (Locations t)
    = [0 .. NumHWNodes t * NumCoresPerNode t * NumThdsPerCore t - 1]"
  by (rule map_LogicalId_Locations [OF assms])

lemma Locations_indexed_by_LogicalId_witness:
  "map (LogicalId \<lparr>NumHWNodes = 2, NumHWCores = 4, NumHWThreads = 8, NumCoresPerNode = 2, NumThdsPerCore = 2\<rparr>)
     (Locations \<lparr>NumHWNodes = 2, NumHWCores = 4, NumHWThreads = 8, NumCoresPerNode = 2, NumThdsPerCore = 2\<rparr>)
   = [0, 1, 2, 3, 4, 5, 6, 7]"
proof -
  have "[0 .. (7::int)] = [0, 1, 2, 3, 4, 5, 6, 7]" by code_simp
  then show ?thesis
    using Locations_indexed_by_LogicalId [of "\<lparr>NumHWNodes = 2, NumHWCores = 4, NumHWThreads = 8,
      NumCoresPerNode = 2, NumThdsPerCore = 2\<rparr>"] by simp
qed

text \<open>\<open>SameCoreLocation\<close> does not test what its comment says: a location on any core but the
  first two of node 0 is reported not to share its core with itself.\<close>

theorem SameCoreLocation_irreflexive:
  assumes "1 < drop_bit LOC_THREAD_BITS loc"
  shows "\<not> SameCoreLocation loc loc"
  using assms by (auto simp: SameCoreLocation_def split: if_splits)

lemma SameCoreLocation_irreflexive_witness: "\<not> SameCoreLocation (Location 0 2 0) (Location 0 2 0)"
  by (rule SameCoreLocation_irreflexive) (simp add: Location_def loc_bits)

end
