(* ===== verification/Heap_Chunks.thy ===== *)
theory Heap_Chunks
  imports Header_Words Hw_Topology
begin

text \<open>
  The data of the memory system and the chunk level of it: \<^verbatim>\<open>internal-heap.h\<close>, \<^verbatim>\<open>vproc.h\<close>
  (the fields the memory system uses), \<^verbatim>\<open>bibop.h\<close>, \<^verbatim>\<open>heap.h\<close>, the allocation parts of
  \<^verbatim>\<open>heap.c\<close>, \<^verbatim>\<open>unix-memory.c\<close> and the chunk-list operation of \<^verbatim>\<open>major-gc.c\<close>.

  Chunk descriptors live in a store indexed by \<open>nat\<close> (a C pointer to a descriptor is its index,
  \<^verbatim>\<open>NULL\<close> is \<open>None\<close>); lists of chunks are linked by the \<open>nxt\<close> field as in the code. A freshly
  malloc'ed descriptor has unspecified contents: it keeps whatever the store held at that index.
  The operating system is part of the state: \<open>mmapAns k szB\<close> is the answer to the \<open>k\<close>-th
  \<^verbatim>\<open>mmap\<close>, \<open>mallocOK k\<close> says whether the \<open>k\<close>-th descriptor could be allocated. The model is the
  release build (\<^verbatim>\<open>NDEBUG\<close>, no logging); a region between lock and unlock is one step.
\<close>

subsection \<open>Chunk descriptors and node heaps\<close>

type_synonym Status_t = "32 word"

definition FREE_CHUNK :: Status_t where "FREE_CHUNK = 0"
definition TO_SP_CHUNK :: Status_t where "TO_SP_CHUNK = 1"
definition FROM_SP_CHUNK :: Status_t where "FROM_SP_CHUNK = 2"
definition VPROC_CHUNK_TAG :: Status_t where "VPROC_CHUNK_TAG = 3"
definition UNMAPPED_CHUNK :: Status_t where "UNMAPPED_CHUNK = 4"

lemmas status_defs = FREE_CHUNK_def TO_SP_CHUNK_def FROM_SP_CHUNK_def VPROC_CHUNK_TAG_def
  UNMAPPED_CHUNK_def

definition VPROC_CHUNK :: "int \<Rightarrow> Status_t" where
  "VPROC_CHUNK vid = push_bit 4 (word_of_int vid) OR VPROC_CHUNK_TAG"

definition IS_VPROC_CHUNK :: "Status_t \<Rightarrow> bool" where
  "IS_VPROC_CHUNK s \<longleftrightarrow> s AND 0xF = VPROC_CHUNK_TAG"

record MemChunk =
  allocBase :: Addr_t
  baseAddr :: Addr_t
  szB :: Addr_t
  usedTop :: Addr_t
  nxt :: "nat option"
  sts :: Status_t
  whr :: int
  scanProgress :: Addr_t

record NodeHeap =
  numWaiting :: int
  completed :: bool
  scannedTo :: "nat option"
  unscannedTo :: "nat option"
  fromSpace :: "nat option"
  freeChunks :: "nat option"

subsection \<open>Virtual processors\<close>

text \<open>The \<open>Value_t\<close> fields of \<^verbatim>\<open>struct struct_vproc\<close>, in the order of the declaration.\<close>

datatype vpReg = Atomic | SigPending | Sleeping | CurrentFLS | ActionStk | SchedCont | DummyK
  | WakeupCont | ShutdownCont | ShutdownPending | RdyQHd | RdyQTl | SndQHd | SndQTl
  | StdArg | StdEnvPtr | StdCont | StdExnCont | LandingPad

record GCCntrs =
  nBytesAlloc :: "64 word"
  nBytesCollected :: "64 word"
  nBytesCopied :: "64 word"

record VProc =
  vpid :: int
  location :: Location_t
  regs :: "vpReg \<Rightarrow> Value_t"
  allocPtr :: Addr_t
  limitPtr :: Addr_t
  heapBase :: Addr_t
  nurseryBase :: Addr_t
  oldTop :: Addr_t
  globAllocChunk :: "nat option"
  globNextW :: Addr_t
  globLimit :: Addr_t
  globalGCPending :: bool
  nPromotes :: "32 word"
  nMinorGCs :: "32 word"
  nMajorGCs :: "32 word"
  minorStats :: GCCntrs
  majorStats :: GCCntrs
  globalStats :: GCCntrs
  nBytesPromoted :: "64 word"

subsection \<open>The heap\<close>

datatype MmapResult = Mapped Addr_t | MapFailed bool \<comment> \<open>is \<^verbatim>\<open>errno\<close> equal to \<^verbatim>\<open>ENOMEM\<close>?\<close>

record Heap =
  mem :: mem
  chunks :: "nat \<Rightarrow> MemChunk"
  nChunks :: nat
  mallocOK :: "nat \<Rightarrow> bool"
  mmapAns :: "nat \<Rightarrow> Addr_t \<Rightarrow> MmapResult"
  nMmaps :: nat
  L1Tbl :: "nat \<Rightarrow> nat"
  L2Tbls :: "nat \<Rightarrow> nat \<Rightarrow> nat option"
  nL2Tbls :: nat
  NodeHeaps :: "int \<Rightarrow> NodeHeap"
  ToSpaceSz :: Addr_t
  ToSpaceLimit :: Addr_t
  TotalVM :: Addr_t
  MaxNurserySzB :: Addr_t
  MajorGCThreshold :: Addr_t

definition upd_chunk :: "nat \<Rightarrow> (MemChunk \<Rightarrow> MemChunk) \<Rightarrow> Heap \<Rightarrow> Heap" where
  "upd_chunk c f h = h\<lparr>chunks := (chunks h)(c := f (chunks h c))\<rparr>"

definition upd_node :: "int \<Rightarrow> (NodeHeap \<Rightarrow> NodeHeap) \<Rightarrow> Heap \<Rightarrow> Heap" where
  "upd_node n f h = h\<lparr>NodeHeaps := (NodeHeaps h)(n := f (NodeHeaps h n))\<rparr>"

subsection \<open>The nursery\<close>

definition SetAllocPtr :: "Addr_t \<Rightarrow> VProc \<Rightarrow> VProc" where
  "SetAllocPtr maxNursery vp =
     (let hi = heapBase vp + VP_HEAP_SZB;
          sz0 = ROUNDDOWN ((hi - oldTop vp) div 2) WORD_SZB;
          sz = (if sz0 > maxNursery then maxNursery else sz0);
          nb = hi - sz
      in vp\<lparr>nurseryBase := nb, allocPtr := nb + WORD_SZB\<rparr>)"

definition LimitPtr :: "VProc \<Rightarrow> Addr_t" where
  "LimitPtr vp = heapBase vp + VP_HEAP_SZB - ALLOC_BUF_SZB"

definition SetLimitPtr :: "VProc \<Rightarrow> Addr_t \<Rightarrow> Addr_t \<times> VProc" where
  "SetLimitPtr vp new = (limitPtr vp, vp\<lparr>limitPtr := new\<rparr>)"

subsection \<open>Memory from the operating system\<close>

text \<open>
  \<open>AllocMemory\<close> returns the aligned base (0 on failure), the new value of \<^verbatim>\<open>*nBlocks\<close>, and the
  unaligned base (unspecified on failure: 0 here). The retry loop asks for one block less after each \<^verbatim>\<open>ENOMEM\<close>.
\<close>

function map_loop :: "(nat \<Rightarrow> Addr_t \<Rightarrow> MmapResult) \<Rightarrow> nat \<Rightarrow> int \<Rightarrow> int \<Rightarrow> int
    \<Rightarrow> nat \<times> Addr_t option" where
  "map_loop ans k n blkSzB minNumBlocks =
     (case ans k (word_of_int (n * blkSzB)) of
        Mapped a \<Rightarrow> (Suc k, Some a)
      | MapFailed enomem \<Rightarrow>
          if enomem \<and> n > minNumBlocks + 1 then map_loop ans (Suc k) (n - 1) blkSzB minNumBlocks
          else (Suc k, None))"
  by pat_completeness auto
termination
  by (relation "measure (\<lambda>(ans, k, n, blkSzB, m). nat (n - m))") auto

declare map_loop.simps [simp del]

definition AllocMemory :: "int \<Rightarrow> int \<Rightarrow> int \<Rightarrow> Heap \<Rightarrow> (Addr_t \<times> int \<times> Addr_t) \<times> Heap" where
  "AllocMemory nBlocks blkSzB minNumBlocks h =
     (case map_loop (mmapAns h) (nMmaps h) (nBlocks + 1) blkSzB minNumBlocks of
        (k, None) \<Rightarrow> ((0, 0, 0), h\<lparr>nMmaps := k\<rparr>)
      | (k, Some memObj) \<Rightarrow>
          (((memObj AND NOT (word_of_int (blkSzB - 1))) + word_of_int blkSzB, nBlocks, memObj),
            h\<lparr>nMmaps := k\<rparr>))"

definition FreeMemory :: "Addr_t \<Rightarrow> int \<Rightarrow> Heap \<Rightarrow> Heap" where
  "FreeMemory base sz h = h\<lparr>TotalVM := TotalVM h - word_of_int sz\<rparr>"

subsection \<open>The BIBOP\<close>

text \<open>
  The big bag of pages is a two-level table from the page of an address to its chunk. All unused
  entries of the first level share one second-level table (\<^verbatim>\<open>FreeL2Tbl\<close>, index 0), whose
  entries are the unmapped chunk (\<open>None\<close>); the first chunk in a range gets a table of its own.
\<close>

definition PAGE_BITS :: nat where "PAGE_BITS = 20"
definition BIBOP_PAGE_SZB :: int where "BIBOP_PAGE_SZB = 2 ^ PAGE_BITS"
definition L1_BITS :: nat where "L1_BITS = 14"
definition L2_BITS :: nat where "L2_BITS = ADDR_BITS - (L1_BITS + PAGE_BITS)"
definition L1_SHIFT :: nat where "L1_SHIFT = ADDR_BITS - L1_BITS"
definition L2_SHIFT :: nat where "L2_SHIFT = PAGE_BITS"
definition L2_MASK :: Addr_t where "L2_MASK = push_bit L2_BITS 1 - 1"

lemmas bibop_consts = PAGE_BITS_def BIBOP_PAGE_SZB_def L1_BITS_def L2_BITS_def L1_SHIFT_def
  L2_SHIFT_def L2_MASK_def ADDR_BITS_def

definition l1_index :: "Addr_t \<Rightarrow> nat" where
  "l1_index addr = unat (drop_bit L1_SHIFT addr)"

definition l2_index :: "Addr_t \<Rightarrow> nat" where
  "l2_index addr = unat (drop_bit L2_SHIFT addr AND L2_MASK)"

definition AddrToChunk :: "Heap \<Rightarrow> Addr_t \<Rightarrow> nat option" where
  "AddrToChunk h addr = L2Tbls h (L1Tbl h (l1_index addr)) (l2_index addr)"

definition chunk_sts :: "Heap \<Rightarrow> nat option \<Rightarrow> Status_t" where
  "chunk_sts h c = (case c of None \<Rightarrow> UNMAPPED_CHUNK | Some i \<Rightarrow> sts (chunks h i))"

definition isFromSpacePtr :: "Heap \<Rightarrow> Value_t \<Rightarrow> bool" where
  "isFromSpacePtr h p \<longleftrightarrow> isPtr p \<and> chunk_sts h (AddrToChunk h p) = FROM_SP_CHUNK"

text \<open>One iteration of the loop of \<^verbatim>\<open>UpdateBIBOP\<close>: the page of \<open>addr\<close>.\<close>

definition bibop_page :: "nat \<Rightarrow> Addr_t \<Rightarrow> Heap \<Rightarrow> Heap" where
  "bibop_page chunk addr h =
     (let i = l1_index addr;
          h1 = (if L1Tbl h i = 0
                then h\<lparr>L2Tbls := (L2Tbls h)(nL2Tbls h := (\<lambda>_. None)),
                       L1Tbl := (L1Tbl h)(i := nL2Tbls h), nL2Tbls := nL2Tbls h + 1\<rparr>
                else h);
          l2 = L1Tbl h1 i
      in h1\<lparr>L2Tbls := (L2Tbls h1)(l2 := (L2Tbls h1 l2)(l2_index addr := Some chunk))\<rparr>)"

partial_function (option) bibop_loop :: "nat \<Rightarrow> Addr_t \<Rightarrow> Addr_t \<Rightarrow> Heap \<Rightarrow> Heap option" where
  "bibop_loop chunk addr hi h =
     (if addr < hi
      then bibop_loop chunk (addr + word_of_int BIBOP_PAGE_SZB) hi (bibop_page chunk addr h)
      else Some h)"

definition UpdateBIBOP :: "nat \<Rightarrow> Heap \<Rightarrow> Heap option" where
  "UpdateBIBOP chunk h =
     (let addr = baseAddr (chunks h chunk) in bibop_loop chunk addr (addr + szB (chunks h chunk)) h)"

subsection \<open>Chunk allocation\<close>

text \<open>The walk to the tail of the vproc's chunk list.\<close>

partial_function (option) last_chunk :: "(nat \<Rightarrow> MemChunk) \<Rightarrow> nat \<Rightarrow> nat option" where
  "last_chunk cs c = (case nxt (cs c) of None \<Rightarrow> Some c | Some d \<Rightarrow> last_chunk cs d)"

definition new_chunk :: "int \<Rightarrow> Heap \<Rightarrow> (nat \<times> Heap) option" where
  "new_chunk node h =
     (let nPages = uint (drop_bit PAGE_BITS HEAP_CHUNK_SZB);
          ((memObj, nPages', allocB), h1) = AllocMemory nPages BIBOP_PAGE_SZB nPages h;
          c = nChunks h1
      in if memObj = 0 \<or> \<not> mallocOK h1 c then None
         else let h2 = upd_chunk c (\<lambda>ch. ch\<lparr>allocBase := allocB, baseAddr := memObj,
                       szB := word_of_int (nPages' * BIBOP_PAGE_SZB), whr := node\<rparr>)
                     (h1\<lparr>nChunks := Suc c\<rparr>)
                in map_option (Pair c) (UpdateBIBOP c h2))"

definition AllocToSpaceChunk :: "VProc \<Rightarrow> Heap \<Rightarrow> (VProc \<times> Heap) option" where
  "AllocToSpaceChunk vp h = do {
     let node = LocationNode (location vp);
     (chunk, h1) \<leftarrow> (case freeChunks (NodeHeaps h node) of
         None \<Rightarrow> new_chunk node h
       | Some c \<Rightarrow> Some (c, upd_node node (\<lambda>nh. nh\<lparr>freeChunks := nxt (chunks h c)\<rparr>) h));
     let h2 = upd_chunk chunk (\<lambda>ch. ch\<lparr>sts := TO_SP_CHUNK\<rparr>) h1;
     let h3 = h2\<lparr>ToSpaceSz := ToSpaceSz h2 + HEAP_CHUNK_SZB\<rparr>;
     let h4 = upd_chunk chunk (\<lambda>ch. ch\<lparr>scanProgress := 0\<rparr>) h3;
     let h5 = upd_chunk chunk (\<lambda>ch. ch\<lparr>nxt := None\<rparr>) h4;
     h6 \<leftarrow> (case globAllocChunk vp of
         None \<Rightarrow> Some h5
       | Some g \<Rightarrow> do {
           let h' = upd_chunk g (\<lambda>ch. ch\<lparr>usedTop := globNextW vp - WORD_SZB\<rparr>) h5;
           tmp \<leftarrow> last_chunk (chunks h') g;
           Some (upd_chunk tmp (\<lambda>ch. ch\<lparr>nxt := Some chunk\<rparr>) h') });
     let ch = chunks h6 chunk;
     Some (vp\<lparr>globAllocChunk := Some chunk, globNextW := baseAddr ch + WORD_SZB,
              globLimit := baseAddr ch + szB ch\<rparr>, h6) }"

definition InitVProcHeap :: "VProc \<Rightarrow> Heap \<Rightarrow> (VProc \<times> Heap) option" where
  "InitVProcHeap vp h = AllocToSpaceChunk (vp\<lparr>globAllocChunk := None, globalGCPending := False\<rparr>) h"

text \<open>The vproc's local heap; the result is its base address, 0 when memory is exhausted.\<close>

definition AllocVProcMemory :: "int \<Rightarrow> Location_t \<Rightarrow> Heap \<Rightarrow> (Addr_t \<times> Heap) option" where
  "AllocVProcMemory vid loc h =
     (let nPages = uint VP_HEAP_SZB div BIBOP_PAGE_SZB;
          ((vpHeap, nPages', allocB), h1) = AllocMemory nPages BIBOP_PAGE_SZB nPages h;
          c = nChunks h1
      in if vpHeap = 0 \<or> \<not> mallocOK h1 c then Some (0, h1)
         else let h2 = upd_chunk c (\<lambda>ch. ch\<lparr>allocBase := allocB, baseAddr := vpHeap,
                       szB := VP_HEAP_SZB, sts := VPROC_CHUNK vid, whr := LocationNode loc\<rparr>)
                     (h1\<lparr>nChunks := Suc c\<rparr>)
                in map_option (Pair vpHeap) (UpdateBIBOP c h2))"

subsection \<open>Handing chunks to the scan list\<close>

text \<open>
  All chunks of the vproc's list but the last are moved to its node's list of unscanned to-space;
  the last one, where the vproc still allocates, is returned.
\<close>

partial_function (option) push_loop :: "int \<Rightarrow> nat \<Rightarrow> Heap \<Rightarrow> (nat \<times> Heap) option" where
  "push_loop node scanChunk h =
     (case nxt (chunks h scanChunk) of None \<Rightarrow> Some (scanChunk, h)
      | Some d \<Rightarrow>
          push_loop node d
            (upd_node node (\<lambda>nh. nh\<lparr>unscannedTo := Some scanChunk\<rparr>)
              (upd_chunk scanChunk (\<lambda>ch. ch\<lparr>nxt := unscannedTo (NodeHeaps h node)\<rparr>) h)))"

definition PushToSpaceChunks :: "VProc \<Rightarrow> nat \<Rightarrow> bool \<Rightarrow> Heap \<Rightarrow> (nat \<times> Heap) option" where
  "PushToSpaceChunks vp scanChunk inGlobal h =
     (if nxt (chunks h scanChunk) \<noteq> None
      then push_loop (LocationNode (location vp)) scanChunk h
      else Some (scanChunk, h))"

definition UsedTopOfChunk :: "VProc \<Rightarrow> Heap \<Rightarrow> nat \<Rightarrow> Addr_t" where
  "UsedTopOfChunk vp h cp =
     (if globAllocChunk vp = Some cp then globNextW vp - WORD_SZB else usedTop (chunks h cp))"

definition isLimitPtr :: "Value_t \<Rightarrow> MemChunk \<Rightarrow> bool" where
  "isLimitPtr v cp \<longleftrightarrow> v = baseAddr cp + VP_HEAP_SZB - ALLOC_BUF_SZB"

subsection \<open>Chunk lists\<close>

text \<open>
  \<open>chain cs p xs\<close>: following \<open>nxt\<close> from \<open>p\<close> visits exactly the chunks \<open>xs\<close> and ends in \<^verbatim>\<open>NULL\<close>.
\<close>

fun chain :: "(nat \<Rightarrow> MemChunk) \<Rightarrow> nat option \<Rightarrow> nat list \<Rightarrow> bool" where
  "chain cs p [] \<longleftrightarrow> p = None"
| "chain cs p (x # xs) \<longleftrightarrow> p = Some x \<and> chain cs (nxt (cs x)) xs"

lemma chain_upd_other: "x \<notin> set xs \<Longrightarrow> chain (cs(x := c)) p xs = chain cs p xs"
  by (induction xs arbitrary: p) auto

lemma chain_cong: "(\<And>x. x \<in> set xs \<Longrightarrow> nxt (cs x) = nxt (cs' x)) \<Longrightarrow> chain cs p xs = chain cs' p xs"
  by (induction xs arbitrary: p) auto

lemma chunks_upd_chunk [simp]: "chunks (upd_chunk c f h) = (chunks h)(c := f (chunks h c))"
  and NodeHeaps_upd_chunk [simp]: "NodeHeaps (upd_chunk c f h) = NodeHeaps h"
  and mem_upd_chunk [simp]: "mem (upd_chunk c f h) = mem h"
  and L1_upd_chunk [simp]: "L1Tbl (upd_chunk c f h) = L1Tbl h"
  and L2_upd_chunk [simp]: "L2Tbls (upd_chunk c f h) = L2Tbls h"
  by (simp_all add: upd_chunk_def)

lemma NodeHeaps_upd_node [simp]: "NodeHeaps (upd_node n f h) = (NodeHeaps h)(n := f (NodeHeaps h n))"
  and chunks_upd_node [simp]: "chunks (upd_node n f h) = chunks h"
  and mem_upd_node [simp]: "mem (upd_node n f h) = mem h"
  and L1_upd_node [simp]: "L1Tbl (upd_node c f h) = L1Tbl h"
  and L2_upd_node [simp]: "L2Tbls (upd_node c f h) = L2Tbls h"
  by (simp_all add: upd_node_def)

lemma last_chunk_chain:
  "chain cs (Some c) (xs @ [l]) \<Longrightarrow> last_chunk cs c = Some l"
proof (induction xs arbitrary: c)
  case Nil
  then show ?case by (subst last_chunk.simps) simp
next
  case (Cons x xs)
  then show ?case by (subst last_chunk.simps) (cases xs; auto)
qed

lemma push_loop_chain:
  assumes "chain (chunks h) (Some c) (xs @ [l])" and "distinct (xs @ [l] @ us)"
    and "chain (chunks h) (unscannedTo (NodeHeaps h n)) us"
  shows "\<exists>h'. push_loop n c h = Some (l, h') \<and> chain (chunks h') (unscannedTo (NodeHeaps h' n)) (rev xs @ us)
    \<and> nxt (chunks h' l) = None \<and> (\<forall>d. d \<notin> set xs \<longrightarrow> chunks h' d = chunks h d)
    \<and> (\<forall>d. (chunks h' d)\<lparr>nxt := None\<rparr> = (chunks h d)\<lparr>nxt := None\<rparr>)
    \<and> mem h' = mem h \<and> ToSpaceSz h' = ToSpaceSz h
    \<and> (\<forall>m. NodeHeaps h' m = (NodeHeaps h m)\<lparr>unscannedTo := unscannedTo (NodeHeaps h' m)\<rparr>)
    \<and> (\<forall>m. m \<noteq> n \<longrightarrow> NodeHeaps h' m = NodeHeaps h m)"
  using assms
proof (induction xs arbitrary: c us h)
  case Nil
  then show ?case by (subst push_loop.simps) auto
next
  case (Cons x xs)
  let ?h = "upd_node n (\<lambda>nh. nh\<lparr>unscannedTo := Some c\<rparr>)
              (upd_chunk c (\<lambda>ch. ch\<lparr>nxt := unscannedTo (NodeHeaps h n)\<rparr>) h)"
  from Cons.prems have c: "c = x" and d: "distinct (xs @ [l] @ x # us)" by auto
  then have x: "x \<notin> set (xs @ [l])" "x \<notin> set us" by auto
  obtain y where y: "nxt (chunks h x) = Some y" and ch: "chain (chunks h) (Some y) (xs @ [l])"
    using Cons.prems(1) by (cases xs) auto
  have 1: "chain (chunks ?h) (Some y) (xs @ [l])"
    using ch x by (simp add: c chain_upd_other)
  have 2: "chain (chunks ?h) (unscannedTo (NodeHeaps ?h n)) (x # us)"
    using Cons.prems(3) x by (simp add: c chain_upd_other)
  obtain h' where IH: "push_loop n y ?h = Some (l, h')"
     "chain (chunks h') (unscannedTo (NodeHeaps h' n)) (rev xs @ x # us)"
     "nxt (chunks h' l) = None" "\<forall>d. d \<notin> set xs \<longrightarrow> chunks h' d = chunks ?h d"
     "\<forall>d. (chunks h' d)\<lparr>nxt := None\<rparr> = (chunks ?h d)\<lparr>nxt := None\<rparr>"
     "mem h' = mem ?h \<and> ToSpaceSz h' = ToSpaceSz ?h"
     "\<forall>m. NodeHeaps h' m = (NodeHeaps ?h m)\<lparr>unscannedTo := unscannedTo (NodeHeaps h' m)\<rparr>"
     "\<forall>m. m \<noteq> n \<longrightarrow> NodeHeaps h' m = NodeHeaps ?h m"
    using Cons.IH [OF 1 d 2] by blast
  have "push_loop n c h = Some (l, h')"
    by (subst push_loop.simps) (simp add: c y IH(1)[unfolded c])
  then show ?case using IH(2-) c by (auto simp: upd_chunk_def upd_node_def split: if_splits)
qed

subsection \<open>The BIBOP is a map from pages to chunks\<close>

definition page_of :: "Addr_t \<Rightarrow> nat" where
  "page_of a = unat a div 2 ^ 20"

definition bibop_wf :: "Heap \<Rightarrow> bool" where
  "bibop_wf h \<longleftrightarrow> L2Tbls h 0 = (\<lambda>_. None) \<and> 0 < nL2Tbls h \<and> (\<forall>i. L1Tbl h i < nL2Tbls h)
     \<and> (\<forall>i j. L1Tbl h i = L1Tbl h j \<longrightarrow> L1Tbl h i \<noteq> 0 \<longrightarrow> i = j)"

lemma l1_index_page: "l1_index a = page_of a div 2 ^ 14"
proof -
  have "2 ^ L1_SHIFT = (2 ^ 20 * 2 ^ 14 :: nat)" by (simp add: bibop_consts)
  then show ?thesis
    unfolding l1_index_def page_of_def unat_drop_bit64 by (simp only: div_mult2_eq)
qed

lemma l2_index_page: "l2_index a = page_of a mod 2 ^ 14"
proof -
  have m: "L2_MASK = mask 14"
    by (simp add: bibop_consts mask_eq_exp_minus_1)
  have "l2_index a = unat (take_bit 14 (drop_bit L2_SHIFT a))"
    unfolding l2_index_def m take_bit_eq_mask ..
  also have "\<dots> = take_bit 14 (unat (drop_bit L2_SHIFT a))"
    by (rule unsigned_take_bit_eq)
  finally show ?thesis
    unfolding unat_drop_bit64 take_bit_eq_mod page_of_def L2_SHIFT_def PAGE_BITS_def .
qed

lemma same_page: "l1_index a = l1_index b \<and> l2_index a = l2_index b \<longleftrightarrow> page_of a = page_of b"
  unfolding l1_index_page l2_index_page by (metis div_mult_mod_eq)

lemma bibop_page_wf: "bibop_wf h \<Longrightarrow> bibop_wf (bibop_page c a h)"
proof (cases "L1Tbl h (l1_index a) = 0")
  case True
  assume wf: "bibop_wf h"
  let ?L1 = "(L1Tbl h)(l1_index a := nL2Tbls h)"
  have pos: "0 < nL2Tbls h" using wf by (simp add: bibop_wf_def)
  have lt: "L1Tbl h i < nL2Tbls h" and ne: "L1Tbl h i \<noteq> nL2Tbls h" for i
    using wf by (simp_all add: bibop_wf_def less_imp_neq)
  have inj: "i = j" if "?L1 i = ?L1 j" and "?L1 i \<noteq> 0" for i j
  proof (cases "i = l1_index a \<or> j = l1_index a")
    case True
    with that(1) ne [of i] ne [of j] show ?thesis by (auto split: if_splits)
  next
    case False
    with that wf show ?thesis by (auto simp: bibop_wf_def)
  qed
  have L1: "L1Tbl (bibop_page c a h) = ?L1"
    unfolding bibop_page_def using True by (simp add: Let_def)
  have n: "nL2Tbls (bibop_page c a h) = Suc (nL2Tbls h)"
    unfolding bibop_page_def using True by (simp add: Let_def)
  have "L2Tbls (bibop_page c a h) 0 = L2Tbls h 0"
    unfolding bibop_page_def using True pos by (simp add: Let_def)
  also have "\<dots> = (\<lambda>_. None)" using wf unfolding bibop_wf_def by (elim conjE)
  finally have z: "L2Tbls (bibop_page c a h) 0 = (\<lambda>_. None)" .
  have "\<forall>i. ?L1 i < Suc (nL2Tbls h)"
    using lt by (simp add: less_Suc_eq)
  moreover have "\<forall>i j. ?L1 i = ?L1 j \<longrightarrow> ?L1 i \<noteq> 0 \<longrightarrow> i = j"
    using inj by blast
  ultimately show ?thesis unfolding bibop_wf_def L1 n
    by (intro conjI z zero_less_Suc)
next
  case False
  assume "bibop_wf h"
  with False show ?thesis by (simp add: bibop_wf_def bibop_page_def Let_def)
qed

lemma AddrToChunk_bibop_page:
  assumes "bibop_wf h"
  shows "AddrToChunk (bibop_page c a h) b = (if page_of b = page_of a then Some c else AddrToChunk h b)"
proof (cases "L1Tbl h (l1_index a) = 0")
  case True
  have "L1Tbl h i \<noteq> nL2Tbls h" for i
    using assms by (simp add: bibop_wf_def less_imp_neq)
  moreover have "L2Tbls h 0 = (\<lambda>_. None)" and "0 < nL2Tbls h"
    using assms by (simp_all add: bibop_wf_def)
  ultimately show ?thesis using True
    unfolding same_page [symmetric]
    by (auto simp: bibop_page_def Let_def AddrToChunk_def)
next
  case False
  then have "L1Tbl h (l1_index b) = L1Tbl h (l1_index a) \<longleftrightarrow> l1_index b = l1_index a"
    using assms unfolding bibop_wf_def by metis
  with False show ?thesis
    unfolding same_page [symmetric]
    by (auto simp: bibop_page_def Let_def AddrToChunk_def)
qed

lemma chunks_bibop_page [simp]: "chunks (bibop_page c a h) = chunks h"
  and mem_bibop_page [simp]: "mem (bibop_page c a h) = mem h"
  and NodeHeaps_bibop_page [simp]: "NodeHeaps (bibop_page c a h) = NodeHeaps h"
  and ToSpaceSz_bibop_page [simp]: "ToSpaceSz (bibop_page c a h) = ToSpaceSz h"
  by (simp_all add: bibop_page_def Let_def)

lemma bibop_loop_pages:
  assumes "bibop_wf h" and "(b + n) * 2 ^ 20 < 2 ^ 64"
  shows "\<exists>h'. bibop_loop c (word_of_nat (b * 2 ^ 20)) (word_of_nat ((b + n) * 2 ^ 20)) h = Some h'
    \<and> bibop_wf h' \<and> chunks h' = chunks h \<and> mem h' = mem h \<and> NodeHeaps h' = NodeHeaps h
    \<and> ToSpaceSz h' = ToSpaceSz h
    \<and> (\<forall>a. AddrToChunk h' a = (if b \<le> page_of a \<and> page_of a < b + n then Some c else AddrToChunk h a))"
  using assms
proof (induction n arbitrary: b h)
  case 0
  then show ?case by (subst bibop_loop.simps) (auto simp del: of_nat_mult)
next
  case (Suc n)
  let ?a = "word_of_nat (b * 2 ^ 20) :: Addr_t"
  let ?hi = "word_of_nat ((b + Suc n) * 2 ^ 20) :: Addr_t"
  have u: "unat (word_of_nat k :: Addr_t) = k" if "k < 2 ^ 64" for k
    using that by (simp add: unat_of_nat)
  have lt: "b * 2 ^ 20 < (b + Suc n) * 2 ^ 20" by simp
  have "unat ?a = b * 2 ^ 20" and "unat ?hi = (b + Suc n) * 2 ^ 20"
    using Suc.prems(2) lt by (intro u; linarith)+
  then have "?a < ?hi" and pa: "page_of ?a = b"
    using lt by (simp_all only: word_less_nat_alt page_of_def) simp
  then have "bibop_loop c ?a ?hi h
      = bibop_loop c (?a + word_of_int BIBOP_PAGE_SZB) ?hi (bibop_page c ?a h)"
    by (subst bibop_loop.simps) simp
  also have "?a + word_of_int BIBOP_PAGE_SZB = word_of_nat (Suc b * 2 ^ 20)"
    by (simp add: bibop_consts algebra_simps)
  also have "b + Suc n = Suc b + n" by simp
  finally have step: "bibop_loop c ?a ?hi h
    = bibop_loop c (word_of_nat (Suc b * 2 ^ 20)) (word_of_nat ((Suc b + n) * 2 ^ 20)) (bibop_page c ?a h)" by simp
  have "(Suc b + n) * 2 ^ 20 < 2 ^ 64" using Suc.prems(2) by simp
  from Suc.IH [OF bibop_page_wf [OF Suc.prems(1)] this, of c ?a]
  obtain h' where h': "bibop_loop c ?a ?hi h = Some h'" "bibop_wf h'" "chunks h' = chunks h"
      "mem h' = mem h" "NodeHeaps h' = NodeHeaps h" "ToSpaceSz h' = ToSpaceSz h"
    and a: "\<And>x. AddrToChunk h' x = (if Suc b \<le> page_of x \<and> page_of x < Suc b + n then Some c
        else AddrToChunk (bibop_page c ?a h) x)"
    unfolding step by (auto simp del: of_nat_mult of_nat_add of_nat_Suc)
  have "AddrToChunk h' x = (if b \<le> page_of x \<and> page_of x < b + Suc n then Some c else AddrToChunk h x)" for x
    unfolding a AddrToChunk_bibop_page [OF Suc.prems(1)] pa by auto
  with h' show ?case by blast
qed

lemma in_pages_iff:
  assumes "(b + n) * 2 ^ 20 < 2 ^ 64"
  shows "b \<le> page_of a \<and> page_of a < b + n \<longleftrightarrow>
    word_of_nat (b * 2 ^ 20) \<le> a \<and> a < word_of_nat (b * 2 ^ 20) + word_of_nat (n * 2 ^ 20)"
proof -
  have u: "unat (word_of_nat k :: Addr_t) = k" if "k < 2 ^ 64" for k
    using that by (simp add: unat_of_nat)
  have 1: "unat (word_of_nat (b * 2 ^ 20) :: Addr_t) = b * 2 ^ 20"
    using assms by (intro u) (simp add: algebra_simps)
  have 2: "unat (word_of_nat (b * 2 ^ 20) + word_of_nat (n * 2 ^ 20) :: Addr_t) = (b + n) * 2 ^ 20"
    unfolding of_nat_add [symmetric] add_mult_distrib [symmetric] by (rule u [OF assms])
  show ?thesis
    unfolding word_le_nat_alt word_less_nat_alt 1 2 page_of_def
    by (simp add: div_less_iff_less_mult less_eq_div_iff_mult_less_eq)
qed

subsection \<open>The properties\<close>

lemma SetAllocPtr_bounds:
  fixes vp :: VProc and maxNursery :: Addr_t
  defines "vp' \<equiv> SetAllocPtr maxNursery vp" and "hi \<equiv> heapBase vp + VP_HEAP_SZB"
  assumes "unat (heapBase vp) + unat VP_HEAP_SZB < 2 ^ 64"
    and "heapBase vp \<le> oldTop vp" and "oldTop vp \<le> hi"
  shows "oldTop vp' \<le> nurseryBase vp'" and "nurseryBase vp' \<le> hi"
    and "hi - nurseryBase vp' \<le> nurseryBase vp' - oldTop vp'"
    and "hi - nurseryBase vp' \<le> maxNursery"
    and "allocPtr vp' = nurseryBase vp' + WORD_SZB"
proof -
  define d where "d = hi - oldTop vp"
  define sz0 where "sz0 = ROUNDDOWN (d div 2) WORD_SZB"
  define sz where "sz = (if sz0 > maxNursery then maxNursery else sz0)"
  have nb: "nurseryBase vp' = hi - sz" "oldTop vp' = oldTop vp" "allocPtr vp' = nurseryBase vp' + WORD_SZB"
    by (simp_all add: vp'_def SetAllocPtr_def Let_def sz_def sz0_def d_def hi_def)
  have "sz \<le> sz0" and m: "sz \<le> maxNursery" by (auto simp: sz_def)
  moreover have "sz0 \<le> d div 2" unfolding sz0_def by (rule ROUNDDOWN_le)
  ultimately have "unat sz \<le> unat d div 2"
    by (simp add: word_le_nat_alt unat_div)
  moreover have d: "unat d = unat hi - unat (oldTop vp)"
    unfolding d_def by (rule unat_sub) (rule assms(5))
  ultimately have le: "2 * unat sz \<le> unat hi - unat (oldTop vp)" by linarith
  then have s: "sz \<le> hi" by (simp add: word_le_nat_alt)
  have n: "unat (nurseryBase vp') = unat hi - unat sz"
    unfolding nb by (rule unat_sub [OF s])
  show 1: "oldTop vp' \<le> nurseryBase vp'" and "nurseryBase vp' \<le> hi"
    using le n assms(5) by (simp_all add: nb(2) word_le_nat_alt)
  show "hi - nurseryBase vp' \<le> maxNursery" using m by (simp add: nb)
  have "unat (nurseryBase vp' - oldTop vp') = unat (nurseryBase vp') - unat (oldTop vp')"
    by (rule unat_sub [OF 1])
  then show "hi - nurseryBase vp' \<le> nurseryBase vp' - oldTop vp'"
    using le n by (simp add: nb word_le_nat_alt)
  show "allocPtr vp' = nurseryBase vp' + WORD_SZB" by (fact nb(3))
qed

lemma map_loop_once: "map_loop ans k (n + 1) b n = (Suc k,
    case ans k (word_of_int ((n + 1) * b)) of Mapped a \<Rightarrow> Some a | MapFailed _ \<Rightarrow> None)"
  by (subst map_loop.simps) (simp split: MmapResult.split)

text \<open>The memory-system state as the end of \<^verbatim>\<open>HeapInit\<close> leaves it; the OS is an argument.\<close>

definition InitHeapState :: "mem \<Rightarrow> (nat \<Rightarrow> MemChunk) \<Rightarrow> (nat \<Rightarrow> bool) \<Rightarrow> (nat \<Rightarrow> Addr_t \<Rightarrow> MmapResult)
    \<Rightarrow> (int \<Rightarrow> bool) \<Rightarrow> Addr_t \<Rightarrow> Addr_t \<Rightarrow> Addr_t \<Rightarrow> Heap" where
  "InitHeapState m junk mOK ans cmpl maxNursery majorThreshold baseHeap =
     \<lparr>mem = m, chunks = junk, nChunks = 0, mallocOK = mOK, mmapAns = ans, nMmaps = 0,
      L1Tbl = (\<lambda>_. 0), L2Tbls = (\<lambda>_ _. None), nL2Tbls = 1,
      NodeHeaps = (\<lambda>i. \<lparr>numWaiting = 0, completed = cmpl i, scannedTo = None, unscannedTo = None,
                         fromSpace = None, freeChunks = None\<rparr>),
      ToSpaceSz = 0, ToSpaceLimit = baseHeap, TotalVM = 0,
      MaxNurserySzB = maxNursery, MajorGCThreshold = majorThreshold\<rparr>"

lemma bibop_wf_InitHeapState [simp]: "bibop_wf (InitHeapState m junk mOK ans cmpl mn mj bh)"
  by (simp add: bibop_wf_def InitHeapState_def)

definition ex_chunk :: "nat \<Rightarrow> MemChunk" where
  "ex_chunk i = \<lparr>allocBase = word_of_nat (i * 2 ^ 22), baseAddr = word_of_nat ((i + 1) * 2 ^ 22),
     szB = 2 ^ 22, usedTop = 0, nxt = (if i = 2 \<or> i = 4 then Some (i + 1) else None), sts = 0, whr = 0, scanProgress = 0\<rparr>"

definition ex_heap :: Heap where
  "ex_heap = InitHeapState (\<lambda>_. 0) ex_chunk (\<lambda>_. True) (\<lambda>k sz. Mapped (5000 + word_of_nat k * 2 ^ 24))
     (\<lambda>_. False) 65536 65536 (2 ^ 26)"

definition ex_vproc :: VProc where
  "ex_vproc = \<lparr>vpid = 0, location = 0, regs = (\<lambda>_. 1), allocPtr = 0x180008, limitPtr = 0x1FF000, heapBase = 0x100000,
     nurseryBase = 0x180000, oldTop = 0x100000, globAllocChunk = Some 2, globNextW = 0xC00008, globLimit = 0x1000000, globalGCPending = False,
     nPromotes = 0, nMinorGCs = 0, nMajorGCs = 0, minorStats = \<lparr>nBytesAlloc = 0, nBytesCollected = 0, nBytesCopied = 0\<rparr>,
     majorStats = \<lparr>nBytesAlloc = 0, nBytesCollected = 0, nBytesCopied = 0\<rparr>,
     globalStats = \<lparr>nBytesAlloc = 0, nBytesCollected = 0, nBytesCopied = 0\<rparr>, nBytesPromoted = 0\<rparr>"

lemma chain_snoc:
  "chain cs p (xs @ [l]) \<Longrightarrow> c \<notin> set (xs @ [l]) \<Longrightarrow> l \<notin> set xs \<Longrightarrow> nxt (cs c) = None
   \<Longrightarrow> chain (cs(l := (cs l)\<lparr>nxt := Some c\<rparr>)) p (xs @ [l, c])"
  by (induction xs arbitrary: p) auto

text \<open>Setting the allocation pointer (\<^verbatim>\<open>SetAllocPtr\<close>) makes a nursery that is at most half of the
  space above the old region, at most the configured maximum, and disjoint from the old region: a minor
  collection, which copies the live part of the nursery to \<open>oldTop\<close>, can never run into the nursery.\<close>

lemma SetAllocPtr_half:
  fixes vp :: VProc and maxNursery :: Addr_t
  defines "vp' \<equiv> SetAllocPtr maxNursery vp" and "hi \<equiv> heapBase vp + VP_HEAP_SZB"
  assumes "unat (heapBase vp) + unat VP_HEAP_SZB < 2 ^ 64"
    and "heapBase vp \<le> oldTop vp" and "oldTop vp \<le> hi"
  shows "oldTop vp' \<le> nurseryBase vp' \<and> nurseryBase vp' \<le> hi
    \<and> hi - nurseryBase vp' \<le> nurseryBase vp' - oldTop vp' \<and> hi - nurseryBase vp' \<le> maxNursery
    \<and> allocPtr vp' = nurseryBase vp' + WORD_SZB"
  unfolding vp'_def hi_def
  by (intro conjI SetAllocPtr_bounds) (use assms in auto)

lemma SetAllocPtr_half_witness:
  "nurseryBase (SetAllocPtr 0x40000 ex_vproc) = 0x1C0000 \<and> 0x100000 \<le> nurseryBase (SetAllocPtr 0x40000 ex_vproc)
    \<and> 0x40000 \<le> nurseryBase (SetAllocPtr 0x40000 ex_vproc) - 0x100000"
  using SetAllocPtr_half [where vp = ex_vproc and maxNursery = "0x40000"]
  by (simp add: ex_vproc_def VP_HEAP_SZB_def SetAllocPtr_def Let_def ROUNDDOWN_def)

text \<open>When the system maps the requested blocks, \<^verbatim>\<open>AllocMemory\<close> (asked for \<open>n\<close> blocks and no fewer, as all callers
  do) returns a base that is a multiple of the block size and all \<open>n\<close> blocks from it lie inside the mapping.\<close>

lemma AllocMemory_block:
  fixes n :: nat and h :: Heap
  assumes "mmapAns h (nMmaps h) (word_of_int ((int n + 1) * 2 ^ k)) = Mapped a"
    and "unat a + (n + 1) * 2 ^ k < 2 ^ 64" and "k < 63"
  shows "\<exists>base. AllocMemory (int n) (2 ^ k) (int n) h = ((base, int n, a), h\<lparr>nMmaps := Suc (nMmaps h)\<rparr>)
    \<and> 2 ^ k dvd unat base \<and> unat a < unat base \<and> unat base + n * 2 ^ k \<le> unat a + (n + 1) * 2 ^ k"
proof -
  let ?base = "(a AND NOT (mask k)) + 2 ^ k :: Addr_t"
  have m: "(word_of_int (2 ^ k - 1) :: 64 word) = mask k"
    by (simp add: mask_eq_exp_minus_1)
  have eq: "AllocMemory (int n) (2 ^ k) (int n) h = ((?base, int n, a), h\<lparr>nMmaps := Suc (nMmaps h)\<rparr>)"
    unfolding AllocMemory_def map_loop_once m using assms(1) by simp
  have b: "unat ?base = (unat a div 2 ^ k + 1) * 2 ^ k"
    using assms(2,3) by (intro align_up_unat) (auto simp: algebra_simps)
  have "unat a < unat ?base"
    unfolding b by (metis Suc_eq_plus1 dividend_less_times_div mult.commute mult_Suc_right add.commute zero_less_numeral zero_less_power)
  moreover have "unat ?base \<le> unat a + 2 ^ k"
    unfolding b using div_times_less_eq_dividend [of "unat a" "2 ^ k"] by simp
  ultimately show ?thesis
    using b by (intro exI [of _ ?base] conjI eq) (auto simp: algebra_simps)
qed

lemma AllocMemory_block_witness:
  "\<exists>base. AllocMemory 4 1048576 4 ex_heap = ((base, 4, 5000), ex_heap\<lparr>nMmaps := 1\<rparr>)
    \<and> 1048576 dvd unat base \<and> unat base + 4 * 1048576 \<le> 5000 + 5 * 1048576"
  using AllocMemory_block [where h = ex_heap and n = 4 and k = 20 and a = 5000]
  by (auto simp: ex_heap_def InitHeapState_def)

lemma UpdateBIBOP_maps:
  fixes h :: Heap and b n c :: nat
  assumes "bibop_wf h" and "baseAddr (chunks h c) = word_of_nat (b * 2 ^ 20)"
    and "szB (chunks h c) = word_of_nat (n * 2 ^ 20)" and "(b + n) * 2 ^ 20 < 2 ^ 64"
  shows "\<exists>h'. UpdateBIBOP c h = Some h' \<and> bibop_wf h' \<and> chunks h' = chunks h \<and> mem h' = mem h
    \<and> NodeHeaps h' = NodeHeaps h \<and> ToSpaceSz h' = ToSpaceSz h
    \<and> (\<forall>a. AddrToChunk h' a =
          (if baseAddr (chunks h c) \<le> a \<and> a < baseAddr (chunks h c) + szB (chunks h c)
           then Some c else AddrToChunk h a))"
proof -
  have e: "word_of_nat (b * 2 ^ 20) + word_of_nat (n * 2 ^ 20) = (word_of_nat ((b + n) * 2 ^ 20) :: Addr_t)"
    by (simp only: add_mult_distrib of_nat_add)
  show ?thesis
    using bibop_loop_pages [OF assms(1,4), of c]
    unfolding UpdateBIBOP_def Let_def assms(2,3) in_pages_iff [OF assms(4)] e by blast
qed



lemma PushToSpaceChunks_chain:
  fixes h :: Heap and vp :: VProc and c l :: nat and xs us :: "nat list" and inGlobal :: bool
  defines "n \<equiv> LocationNode (location vp)"
  assumes "chain (chunks h) (Some c) (xs @ [l])" and "distinct (xs @ [l] @ us)"
    and "chain (chunks h) (unscannedTo (NodeHeaps h n)) us"
  shows "\<exists>h'. PushToSpaceChunks vp c inGlobal h = Some (l, h')
    \<and> chain (chunks h') (unscannedTo (NodeHeaps h' n)) (rev xs @ us) \<and> nxt (chunks h' l) = None
    \<and> mem h' = mem h \<and> (\<forall>d. (chunks h' d)\<lparr>nxt := None\<rparr> = (chunks h d)\<lparr>nxt := None\<rparr>)
    \<and> (\<forall>m. m \<noteq> n \<longrightarrow> NodeHeaps h' m = NodeHeaps h m)"
proof (cases xs)
  case Nil
  then show ?thesis using assms by (simp add: PushToSpaceChunks_def)
next
  case (Cons x ys)
  then have "nxt (chunks h c) \<noteq> None" using assms(2) by (cases ys) auto
  then show ?thesis
    using push_loop_chain [OF assms(2,3), of n] assms(4) unfolding PushToSpaceChunks_def n_def by auto
qed

text \<open>\<^verbatim>\<open>PushToSpaceChunks\<close> returns the last chunk of the vproc's list and moves all chunks before it,
  in reverse order, in front of the node's list of unscanned to-space; no other field changes.\<close>

lemma PushToSpaceChunks_moves:
  fixes h :: Heap and vp :: VProc and c l :: nat and xs us :: "nat list" and inGlobal :: bool
  defines "n \<equiv> LocationNode (location vp)"
  assumes "chain (chunks h) (Some c) (xs @ [l])" and "distinct (xs @ [l] @ us)"
    and "chain (chunks h) (unscannedTo (NodeHeaps h n)) us"
  shows "\<exists>h'. PushToSpaceChunks vp c inGlobal h = Some (l, h')
    \<and> chain (chunks h') (unscannedTo (NodeHeaps h' n)) (rev xs @ us) \<and> nxt (chunks h' l) = None
    \<and> mem h' = mem h \<and> (\<forall>d. (chunks h' d)\<lparr>nxt := None\<rparr> = (chunks h d)\<lparr>nxt := None\<rparr>)
    \<and> (\<forall>m. m \<noteq> n \<longrightarrow> NodeHeaps h' m = NodeHeaps h m)"
  using PushToSpaceChunks_chain [OF assms(2,3) assms(4) [unfolded n_def]] unfolding n_def by blast

lemma PushToSpaceChunks_moves_witness:
  "\<exists>h'. PushToSpaceChunks ex_vproc 4 False ex_heap = Some (5, h') \<and> chain (chunks h') (unscannedTo (NodeHeaps h' 0)) [4]"
  using PushToSpaceChunks_moves [where h = ex_heap and c = 4 and xs = "[4]" and l = 5 and vp = ex_vproc and us = "[]" and inGlobal = False]
  by (auto simp: ex_heap_def InitHeapState_def ex_chunk_def ex_vproc_def LocationNode_def)

lemma AllocToSpaceChunk_free:
  fixes h :: Heap and vp :: VProc and c g l :: nat and xs fs :: "nat list"
  defines "n \<equiv> LocationNode (location vp)"
  assumes "chain (chunks h) (freeChunks (NodeHeaps h n)) (c # fs)"
    and "globAllocChunk vp = Some g" and "chain (chunks h) (Some g) (xs @ [l])"
    and "distinct (c # fs @ xs @ [l])"
  shows "\<exists>h'. AllocToSpaceChunk vp h = Some (vp\<lparr>globAllocChunk := Some c,
        globNextW := baseAddr (chunks h c) + WORD_SZB,
        globLimit := baseAddr (chunks h c) + szB (chunks h c)\<rparr>, h')
    \<and> chain (chunks h') (freeChunks (NodeHeaps h' n)) fs
    \<and> chain (chunks h') (Some g) (xs @ [l, c])
    \<and> sts (chunks h' c) = TO_SP_CHUNK \<and> usedTop (chunks h' g) = globNextW vp - WORD_SZB
    \<and> ToSpaceSz h' = ToSpaceSz h + HEAP_CHUNK_SZB \<and> mem h' = mem h
    \<and> (\<forall>a. AddrToChunk h' a = AddrToChunk h a)
    \<and> NodeHeaps h' = (NodeHeaps h)(n := (NodeHeaps h n)\<lparr>freeChunks := nxt (chunks h c)\<rparr>)
    \<and> (\<forall>d. d \<notin> {c, g, l} \<longrightarrow> chunks h' d = chunks h d)
    \<and> (\<forall>d. baseAddr (chunks h' d) = baseAddr (chunks h d) \<and> szB (chunks h' d) = szB (chunks h d))"
proof -
  have f: "freeChunks (NodeHeaps h n) = Some c" "chain (chunks h) (nxt (chunks h c)) fs"
    using assms(2) by auto
  define h5 where "h5 = upd_chunk c (\<lambda>ch. ch\<lparr>nxt := None\<rparr>) (upd_chunk c (\<lambda>ch. ch\<lparr>scanProgress := 0\<rparr>)
     ((upd_chunk c (\<lambda>ch. ch\<lparr>sts := TO_SP_CHUNK\<rparr>)
        (upd_node n (\<lambda>nh. nh\<lparr>freeChunks := nxt (chunks h c)\<rparr>) h))\<lparr>ToSpaceSz := ToSpaceSz h + HEAP_CHUNK_SZB\<rparr>))"
  define h6 where "h6 = upd_chunk g (\<lambda>ch. ch\<lparr>usedTop := globNextW vp - WORD_SZB\<rparr>) h5"
  have ng: "g \<in> set (xs @ [l])" using assms(4) by (cases xs) auto
  have 6: "chain (chunks h6) (Some g) (xs @ [l])"
  proof (subst chain_cong)
    fix x assume "x \<in> set (xs @ [l])"
    then show "nxt (chunks h6 x) = nxt (chunks h x)"
      using assms(5) by (auto simp: h6_def h5_def)
  qed (rule assms(4))
  have last: "last_chunk (chunks h6) g = Some l" by (rule last_chunk_chain [OF 6])
  define h7 where "h7 = upd_chunk l (\<lambda>ch. ch\<lparr>nxt := Some c\<rparr>) h6"
  have n6: "nxt (chunks h6 c) = None" using ng assms(5) by (auto simp: h6_def h5_def)
  have ch: "chain (chunks h7) (Some g) (xs @ [l, c])"
    unfolding h7_def chunks_upd_chunk by (rule chain_snoc) (use 6 n6 assms(5) in auto)
  have fr: "chain (chunks h7) (freeChunks (NodeHeaps h7 n)) fs"
  proof -
    have "freeChunks (NodeHeaps h7 n) = nxt (chunks h c)" by (simp add: h7_def h6_def h5_def)
    moreover have "chain (chunks h7) (nxt (chunks h c)) fs = chain (chunks h) (nxt (chunks h c)) fs"
      using ng assms(5) by (intro chain_cong) (auto simp: h7_def h6_def h5_def)
    ultimately show ?thesis using f by simp
  qed
  have nc: "g \<noteq> c" "l \<noteq> c" using ng assms(5) by auto
  have run: "AllocToSpaceChunk vp h = Some (vp\<lparr>globAllocChunk := Some c,
        globNextW := baseAddr (chunks h7 c) + WORD_SZB,
        globLimit := baseAddr (chunks h7 c) + szB (chunks h7 c)\<rparr>, h7)"
    using last nc nc [symmetric] unfolding AllocToSpaceChunk_def Let_def n_def [symmetric] f(1) assms(3) option.case
    by (simp add: h7_def h6_def h5_def upd_chunk_def upd_node_def)
  have "baseAddr (chunks h7 c) = baseAddr (chunks h c)" "szB (chunks h7 c) = szB (chunks h c)"
    "sts (chunks h7 c) = TO_SP_CHUNK" "usedTop (chunks h7 g) = globNextW vp - WORD_SZB"
    "ToSpaceSz h7 = ToSpaceSz h + HEAP_CHUNK_SZB" "mem h7 = mem h"
    "\<forall>a. AddrToChunk h7 a = AddrToChunk h a"
    "NodeHeaps h7 = (NodeHeaps h)(n := (NodeHeaps h n)\<lparr>freeChunks := nxt (chunks h c)\<rparr>)"
    "\<forall>d. d \<notin> {c, g, l} \<longrightarrow> chunks h7 d = chunks h d"
    "\<forall>d. baseAddr (chunks h7 d) = baseAddr (chunks h d) \<and> szB (chunks h7 d) = szB (chunks h d)"
    using nc by (auto simp: h7_def h6_def h5_def upd_chunk_def upd_node_def AddrToChunk_def)
  with run ch fr show ?thesis by auto
qed

text \<open>When the node has a free chunk, \<^verbatim>\<open>AllocToSpaceChunk\<close> takes the first one off the free list, marks it as
  to-space, records the used part of the current chunk, links the new chunk at the tail of the vproc's chunk
  list and points the allocation registers into it.\<close>

lemma AllocToSpaceChunk_recycles:
  fixes h :: Heap and vp :: VProc and c g l :: nat and xs fs :: "nat list"
  defines "n \<equiv> LocationNode (location vp)"
  assumes "chain (chunks h) (freeChunks (NodeHeaps h n)) (c # fs)"
    and "globAllocChunk vp = Some g" and "chain (chunks h) (Some g) (xs @ [l])"
    and "distinct (c # fs @ xs @ [l])"
  shows "\<exists>h'. AllocToSpaceChunk vp h = Some (vp\<lparr>globAllocChunk := Some c,
        globNextW := baseAddr (chunks h c) + WORD_SZB,
        globLimit := baseAddr (chunks h c) + szB (chunks h c)\<rparr>, h')
    \<and> chain (chunks h') (freeChunks (NodeHeaps h' n)) fs
    \<and> chain (chunks h') (Some g) (xs @ [l, c])
    \<and> sts (chunks h' c) = TO_SP_CHUNK \<and> usedTop (chunks h' g) = globNextW vp - WORD_SZB
    \<and> ToSpaceSz h' = ToSpaceSz h + HEAP_CHUNK_SZB \<and> mem h' = mem h
    \<and> (\<forall>a. AddrToChunk h' a = AddrToChunk h a)"
  using AllocToSpaceChunk_free [OF assms(2) [unfolded n_def] assms(3-5)] unfolding n_def by blast

lemma AllocToSpaceChunk_recycles_witness:
  "\<exists>h'. AllocToSpaceChunk ex_vproc (upd_node 0 (\<lambda>nh. nh\<lparr>freeChunks := Some 4\<rparr>) ex_heap)
        = Some (ex_vproc\<lparr>globAllocChunk := Some 4, globNextW := 0x1400008, globLimit := 0x1800000\<rparr>, h')
      \<and> chain (chunks h') (Some 2) [2, 3, 4] \<and> usedTop (chunks h' 2) = 0xC00000"
  using AllocToSpaceChunk_recycles [where h = "upd_node 0 (\<lambda>nh. nh\<lparr>freeChunks := Some 4\<rparr>) ex_heap" and vp = ex_vproc and c = 4 and fs = "[5]" and g = 2 and xs = "[2]" and l = 3]
  by (auto simp: ex_heap_def InitHeapState_def ex_chunk_def ex_vproc_def LocationNode_def)

end
