(* ===== verification/Alloc_Objects.thy ===== *)
theory Alloc_Objects
  imports Heap_Chunks
begin

text \<open>
  Object allocation by the runtime system: \<^verbatim>\<open>gc/alloc.c\<close> and the inline constructors of
  \<^verbatim>\<open>value.h\<close>. An operation works on the vproc and the heap and returns the new object with
  both. Variadic arguments are a list (\<open>nElems\<close> is its length, as the callers pass it); for the
  non-uniform tuples each argument comes with its field tag. \<open>None\<close> is an allocation that does not
  return (\<^verbatim>\<open>exit\<close>, \<^verbatim>\<open>Die\<close>). Memory is modelled by aligned words; \<^verbatim>\<open>memcpy\<close> of a C string
  goes through the bytes of its words (little endian).
\<close>

type_synonym alloc_res = "Value_t \<times> VProc \<times> Heap"

subsection \<open>Memory helpers\<close>

primrec store_words :: "mem \<Rightarrow> Addr_t \<Rightarrow> Value_t list \<Rightarrow> mem" where
  "store_words m a [] = m"
| "store_words m a (v # vs) = store_words (m(a := v)) (a + WORD_SZB) vs"

definition get_byte :: "64 word \<Rightarrow> nat \<Rightarrow> 64 word" where
  "get_byte w k = drop_bit (8 * k) w AND 0xFF"

definition put_byte :: "64 word \<Rightarrow> nat \<Rightarrow> 64 word \<Rightarrow> 64 word" where
  "put_byte w k b = (w AND NOT (push_bit (8 * k) 0xFF)) OR push_bit (8 * k) (b AND 0xFF)"

definition store_byte :: "mem \<Rightarrow> Addr_t \<Rightarrow> nat \<Rightarrow> 64 word \<Rightarrow> mem" where
  "store_byte m a i b =
     (let w = a + word_of_nat (8 * (i div 8)) in m(w := put_byte (m w) (i mod 8) b))"

definition load_byte :: "mem \<Rightarrow> Addr_t \<Rightarrow> nat \<Rightarrow> 64 word" where
  "load_byte m a i = get_byte (m (a + word_of_nat (8 * (i div 8)))) (i mod 8)"

primrec memcpy_from :: "mem \<Rightarrow> Addr_t \<Rightarrow> nat \<Rightarrow> 64 word list \<Rightarrow> mem" where
  "memcpy_from m a i [] = m"
| "memcpy_from m a i (b # bs) = memcpy_from (store_byte m a i b) a (Suc i) bs"

definition set_mem :: "Heap \<Rightarrow> mem \<Rightarrow> Heap" where
  "set_mem h m = h\<lparr>mem := m\<rparr>"

subsection \<open>Space checks\<close>

definition predefined :: int where "predefined = 3"

definition EnsureGlobalSpace :: "VProc \<Rightarrow> Heap \<Rightarrow> int \<Rightarrow> (VProc \<times> Heap) option" where
  "EnsureGlobalSpace vp h nElems =
     (if globNextW vp + WORD_SZB * word_of_int (nElems + 1) \<ge> globLimit vp
      then do {
        let oldGlobalChunk = globAllocChunk vp;
        (vp1, h1) \<leftarrow> AllocToSpaceChunk vp h;
        prev \<leftarrow> oldGlobalChunk;
        (last, h2) \<leftarrow> PushToSpaceChunks vp1 prev False h1;
        Some (vp1, h2) }
      else Some (vp, h))"

text \<open>The condition \<^verbatim>\<open>EnsureNurserySpace\<close> asserts; the function does nothing else.\<close>

definition EnsureNurserySpace :: "VProc \<Rightarrow> int \<Rightarrow> bool" where
  "EnsureNurserySpace vp nElems \<longleftrightarrow>
     allocPtr vp + WORD_SZB * word_of_int (nElems + 1) < limitPtr vp + 4096 \<or> limitPtr vp = 0"

subsection \<open>Nursery objects\<close>

definition AllocUniform :: "VProc \<Rightarrow> Heap \<Rightarrow> Value_t list \<Rightarrow> alloc_res" where
  "AllocUniform vp h args =
     (let obj = allocPtr vp; nElems = int (length args);
          m = store_words ((mem h)(obj - WORD_SZB := VEC_HDR nElems)) obj args
      in (obj, vp\<lparr>allocPtr := allocPtr vp + WORD_SZB * word_of_int (nElems + 1)\<rparr>, set_mem h m))"

definition PTR_FIELD :: int where "PTR_FIELD = 1"
definition RAW_FIELD :: int where "RAW_FIELD = 0"

definition PTR_arg :: "Value_t \<Rightarrow> int \<times> Value_t" where "PTR_arg p = (PTR_FIELD, p)"
definition INT_arg :: "int \<Rightarrow> int \<times> Value_t" where "INT_arg i = (RAW_FIELD, word_of_int i)"

text \<open>The tag bits of the arguments, argument \<open>i\<close> at bit \<open>i\<close> of a C \<^verbatim>\<open>int\<close>.\<close>

primrec tag_bits :: "nat \<Rightarrow> (int \<times> Value_t) list \<Rightarrow> 32 word" where
  "tag_bits i [] = 0"
| "tag_bits i (a # as) = (if fst a = PTR_FIELD then push_bit i 1 else 0) OR tag_bits (Suc i) as"

definition nonuniform_hdr :: "int \<Rightarrow> 32 word \<Rightarrow> Word_t option" where
  "nonuniform_hdr nElems bits =
     (if nElems = 1 \<and> bits = 0x0 then Some (MIXED_HDR predefined nElems)
      else if nElems = 2 \<and> bits = 0x1 then Some (MIXED_HDR (predefined + 1) nElems)
      else if nElems = 1 \<and> bits = 0x1 then Some (MIXED_HDR (predefined + 2) nElems)
      else if nElems = 5 \<and> bits = 0x1A then Some (MIXED_HDR (predefined + 3) nElems)
      else if nElems = 3 \<and> bits = 0x4 then Some (MIXED_HDR (predefined + 4) nElems)
      else None)"

definition AllocNonUniform :: "VProc \<Rightarrow> Heap \<Rightarrow> (int \<times> Value_t) list \<Rightarrow> alloc_res option" where
  "AllocNonUniform vp h args =
     (let obj = allocPtr vp; nElems = int (length args);
          m = store_words (mem h) obj (map snd args)
      in case nonuniform_hdr nElems (tag_bits 0 args) of
           None \<Rightarrow> None
         | Some hdr \<Rightarrow> Some (obj, vp\<lparr>allocPtr := allocPtr vp + WORD_SZB * word_of_int (nElems + 1)\<rparr>,
               set_mem h (m(obj - WORD_SZB := hdr))))"

definition AllocRaw :: "VProc \<Rightarrow> Heap \<Rightarrow> 32 word \<Rightarrow> alloc_res" where
  "AllocRaw vp h len =
     (let obj = allocPtr vp; nWords = BYTES_TO_WORDS (uint len)
      in (obj, vp\<lparr>allocPtr := allocPtr vp + WORD_SZB * word_of_int (nWords + 1)\<rparr>,
          set_mem h ((mem h)(obj - WORD_SZB := RAW_HDR nWords))))"

definition AllocRawArray :: "VProc \<Rightarrow> Heap \<Rightarrow> int \<Rightarrow> int \<Rightarrow> alloc_res option" where
  "AllocRawArray vp h nElems szBOfElt =
     (let (data, vp1, h1) = AllocRaw vp h (word_of_int (nElems * szBOfElt))
      in AllocNonUniform vp1 h1 [PTR_arg data, INT_arg nElems])"

text \<open>The list walks; \<open>None\<close>: the list does not end.\<close>

partial_function (option) vector_loop :: "mem \<Rightarrow> Addr_t \<Rightarrow> int \<Rightarrow> Value_t \<Rightarrow> (int \<times> mem) option" where
  "vector_loop m obj i values =
     (if values \<noteq> M_NIL
      then let m1 = m(obj + WORD_SZB * word_of_int i := m values)
           in vector_loop m1 obj (i + 1) (m1 (values + WORD_SZB))
      else Some (i, m))"

definition AllocVector :: "VProc \<Rightarrow> Heap \<Rightarrow> Value_t \<Rightarrow> alloc_res option" where
  "AllocVector vp h values = do {
     let obj = allocPtr vp;
     (i, m) \<leftarrow> vector_loop (mem h) obj 0 values;
     AllocNonUniform (vp\<lparr>allocPtr := allocPtr vp + WORD_SZB * word_of_int (i + 1)\<rparr>)
       (set_mem h (m(obj - WORD_SZB := VEC_HDR i))) [PTR_arg obj, INT_arg i] }"

partial_function (option) vector_rev_loop :: "mem \<Rightarrow> Addr_t \<Rightarrow> int \<Rightarrow> int \<Rightarrow> Value_t \<Rightarrow> (int \<times> mem) option" where
  "vector_rev_loop m obj len i values =
     (if values \<noteq> M_NIL
      then let m1 = m(obj + WORD_SZB * word_of_int (len - i - 1) := m values)
           in vector_rev_loop m1 obj len (i + 1) (m1 (values + WORD_SZB))
      else Some (i, m))"

definition AllocVectorRev :: "VProc \<Rightarrow> Heap \<Rightarrow> int \<Rightarrow> Value_t \<Rightarrow> alloc_res option" where
  "AllocVectorRev vp h len values = do {
     let obj = allocPtr vp;
     (i, m) \<leftarrow> vector_rev_loop (mem h) obj len 0 values;
     AllocNonUniform (vp\<lparr>allocPtr := allocPtr vp + WORD_SZB * word_of_int (i + 1)\<rparr>)
       (set_mem h (m(obj - WORD_SZB := VEC_HDR i))) [PTR_arg obj, INT_arg i] }"

definition WrapWord :: "VProc \<Rightarrow> Heap \<Rightarrow> Word_t \<Rightarrow> alloc_res" where
  "WrapWord vp h i =
     (let obj = allocPtr vp
      in (obj, vp\<lparr>allocPtr := allocPtr vp + WORD_SZB * 2\<rparr>,
          set_mem h ((mem h)(obj - WORD_SZB := RAW_HDR 1, obj := i))))"

text \<open>The C string \<open>s\<close> without its terminating zero, which is copied too.\<close>

definition AllocString :: "VProc \<Rightarrow> Heap \<Rightarrow> string \<Rightarrow> alloc_res option" where
  "AllocString vp h s =
     (let len = int (length s) + 1; nWords = BYTES_TO_WORDS len; obj = allocPtr vp;
          m = memcpy_from ((mem h)(obj - WORD_SZB := RAW_HDR nWords)) obj 0 (map of_char s @ [0])
      in AllocNonUniform (vp\<lparr>allocPtr := allocPtr vp + WORD_SZB * word_of_int (nWords + 1)\<rparr>)
           (set_mem h m) [PTR_arg obj, INT_arg (len - 1)])"

definition Cons_cell :: "VProc \<Rightarrow> Heap \<Rightarrow> Value_t \<Rightarrow> Value_t \<Rightarrow> alloc_res" where
  "Cons_cell vp h a b = AllocUniform vp h [a, b]"

definition Some_cell :: "VProc \<Rightarrow> Heap \<Rightarrow> Value_t \<Rightarrow> alloc_res" where
  "Some_cell vp h a = AllocUniform vp h [a]"

definition AllocIntArray :: "VProc \<Rightarrow> Heap \<Rightarrow> int \<Rightarrow> alloc_res option" where
  "AllocIntArray vp h n = AllocRawArray vp h n 4"

definition AllocLongArray :: "VProc \<Rightarrow> Heap \<Rightarrow> int \<Rightarrow> alloc_res option" where
  "AllocLongArray vp h n = AllocRawArray vp h n 8"

definition AllocFloatArray :: "VProc \<Rightarrow> Heap \<Rightarrow> int \<Rightarrow> alloc_res option" where
  "AllocFloatArray vp h n = AllocRawArray vp h n 4"

definition AllocDoubleArray :: "VProc \<Rightarrow> Heap \<Rightarrow> int \<Rightarrow> alloc_res option" where
  "AllocDoubleArray vp h n = AllocRawArray vp h n 8"

subsection \<open>Global-heap objects\<close>

definition bump_global :: "VProc \<Rightarrow> Addr_t \<Rightarrow> VProc" where
  "bump_global vp n = vp\<lparr>globNextW := globNextW vp + n,
     globalStats := (globalStats vp)\<lparr>nBytesAlloc := nBytesAlloc (globalStats vp) + n\<rparr>\<rparr>"

text \<open>
  \<open>nObjBytes\<close> is not rounded to words and the space check is in elements, not words: the code is
  translated as it is.
\<close>

definition GlobalAllocRawArray :: "VProc \<Rightarrow> Heap \<Rightarrow> int \<Rightarrow> int \<Rightarrow> alloc_res option" where
  "GlobalAllocRawArray vp h nElems szBOfElt = do {
     let nArrayBytes = nElems * szBOfElt;
     let nObjBytes = 8 + nArrayBytes;
     (vp1, h1) \<leftarrow> EnsureGlobalSpace vp h nElems;
     let obj = globNextW vp1;
     Some (obj, bump_global vp1 (word_of_int nObjBytes),
       set_mem h1 ((mem h1)(obj - WORD_SZB := RAW_HDR (BYTES_TO_WORDS nArrayBytes)))) }"

definition GlobalAllocUniform :: "VProc \<Rightarrow> Heap \<Rightarrow> Value_t list \<Rightarrow> alloc_res option" where
  "GlobalAllocUniform vp h elems = do {
     let nElems = int (length elems);
     (vp1, h1) \<leftarrow> EnsureGlobalSpace vp h nElems;
     let obj = globNextW vp1;
     Some (obj, bump_global vp1 (WORD_SZB * word_of_int (nElems + 1)),
       set_mem h1 (store_words ((mem h1)(obj - WORD_SZB := VEC_HDR nElems)) obj elems)) }"

text \<open>The object address is taken before the space check, which may switch chunks.\<close>

definition GlobalAllocNonUniform :: "VProc \<Rightarrow> Heap \<Rightarrow> (int \<times> Value_t) list \<Rightarrow> alloc_res option" where
  "GlobalAllocNonUniform vp h args = do {
     let obj = globNextW vp;
     let nElems = int (length args);
     (vp1, h1) \<leftarrow> EnsureGlobalSpace vp h nElems;
     let m = store_words (mem h1) obj (map snd args);
     hdr \<leftarrow> nonuniform_hdr nElems (tag_bits 0 args);
     Some (obj, bump_global vp1 (WORD_SZB * word_of_int (nElems + 1)),
       set_mem h1 (m(obj - WORD_SZB := hdr))) }"

definition GlobalAllocVector :: "VProc \<Rightarrow> Heap \<Rightarrow> int \<Rightarrow> Value_t \<Rightarrow> alloc_res option" where
  "GlobalAllocVector vp h len values = do {
     (vp1, h1) \<leftarrow> EnsureGlobalSpace vp h len;
     let obj = globNextW vp1;
     (i, m) \<leftarrow> vector_loop ((mem h1)(obj - WORD_SZB := VEC_HDR len)) obj 0 values;
     AllocNonUniform (vp1\<lparr>globNextW := globNextW vp1 + WORD_SZB * word_of_int (len + 1)\<rparr>)
       (set_mem h1 m) [PTR_arg obj, INT_arg len] }"

definition GlobalAllocPolyArray :: "VProc \<Rightarrow> Heap \<Rightarrow> int \<Rightarrow> Value_t \<Rightarrow> alloc_res option" where
  "GlobalAllocPolyArray vp h nElems init = do {
     (vp1, h1) \<leftarrow> EnsureGlobalSpace vp h nElems;
     let obj = globNextW vp1;
     Some (obj, bump_global vp1 (WORD_SZB * word_of_int (nElems + 1)),
       set_mem h1 (store_words ((mem h1)(obj - WORD_SZB := VEC_HDR nElems)) obj
         (replicate (nat nElems) init))) }"

text \<open>Too large an array: a message, and 0 in the release build.\<close>

definition AllocBigPolyArray :: "VProc \<Rightarrow> Heap \<Rightarrow> int \<Rightarrow> Value_t \<Rightarrow> alloc_res option" where
  "AllocBigPolyArray vp h nElems init =
     (if word_of_int ((nElems + 1) * 8) < HEAP_CHUNK_SZB then GlobalAllocPolyArray vp h nElems init
      else Some (0, vp, h))"

text \<open>The sizes the big raw arrays ask \<^verbatim>\<open>valloc\<close> for (\<open>valloc\<close> is the C library's).\<close>

definition AllocBigIntArray :: "(Word_t \<Rightarrow> Addr_t) \<Rightarrow> int \<Rightarrow> Value_t" where
  "AllocBigIntArray valloc nElems = valloc (word_of_int nElems * 4)"

definition AllocBigLongArray :: "(Word_t \<Rightarrow> Addr_t) \<Rightarrow> int \<Rightarrow> Value_t" where
  "AllocBigLongArray valloc nElems = valloc (word_of_int nElems * 4)"

definition AllocBigFloatArray :: "(Word_t \<Rightarrow> Addr_t) \<Rightarrow> int \<Rightarrow> Value_t" where
  "AllocBigFloatArray valloc nElems = valloc (word_of_int nElems * 4)"

definition AllocBigDoubleArray :: "(Word_t \<Rightarrow> Addr_t) \<Rightarrow> int \<Rightarrow> Value_t" where
  "AllocBigDoubleArray valloc nElems = valloc (word_of_int nElems * 8)"

definition GlobalCons :: "VProc \<Rightarrow> Heap \<Rightarrow> Value_t \<Rightarrow> Value_t \<Rightarrow> alloc_res option" where
  "GlobalCons vp h a b = GlobalAllocUniform vp h [a, b]"

definition GlobalSome :: "VProc \<Rightarrow> Heap \<Rightarrow> Value_t \<Rightarrow> alloc_res option" where
  "GlobalSome vp h a = GlobalAllocUniform vp h [a]"

subsection \<open>Objects in memory\<close>

lemma store_words_outside:
  "n + length vs < 2 ^ 61 \<Longrightarrow> k < 2 ^ 61 \<Longrightarrow> k < n \<or> n + length vs \<le> k
   \<Longrightarrow> store_words m (wadr n) vs (wadr k) = m (wadr k)"
proof (induction vs arbitrary: m n)
  case (Cons v vs)
  have "store_words (m(wadr n := v)) (wadr (Suc n)) vs (wadr k) = (m(wadr n := v)) (wadr k)"
    by (rule Cons.IH) (use Cons.prems in auto)
  then show ?case using Cons.prems by (auto simp: wadr_Suc)
qed simp

lemma store_words_nth:
  "n + length vs < 2 ^ 61 \<Longrightarrow> i < length vs \<Longrightarrow> store_words m (wadr n) vs (wadr (n + i)) = vs ! i"
proof (induction vs arbitrary: m n i)
  case (Cons v vs)
  show ?case
  proof (cases i)
    case 0
    have "store_words (m(wadr n := v)) (wadr (Suc n)) vs (wadr n) = (m(wadr n := v)) (wadr n)"
      by (rule store_words_outside) (use Cons.prems in auto)
    with 0 show ?thesis by (simp add: wadr_Suc)
  next
    case (Suc j)
    with Cons.IH [of "Suc n" j] Cons.prems show ?thesis by (simp add: wadr_Suc)
  qed
qed simp

lemma store_words_below: "n + length vs < 2 ^ 61 \<Longrightarrow> k < n \<Longrightarrow> store_words m (wadr n) vs (wadr k) = m (wadr k)"
  and store_words_above: "k < 2 ^ 61 \<Longrightarrow> n + length vs \<le> k \<Longrightarrow> store_words m (wadr n) vs (wadr k) = m (wadr k)"
  by (rule store_words_outside; simp)+

text \<open>An object: its header, and its fields in order.\<close>

definition object_at :: "mem \<Rightarrow> nat \<Rightarrow> Word_t \<Rightarrow> Value_t list \<Rightarrow> bool" where
  "object_at m n hdr fs \<longleftrightarrow> m (wadr (n - 1)) = hdr \<and> (\<forall>i<length fs. m (wadr (n + i)) = fs ! i)"

definition same_outside :: "mem \<Rightarrow> mem \<Rightarrow> nat \<Rightarrow> nat \<Rightarrow> bool" where
  "same_outside m m' a b \<longleftrightarrow> (\<forall>k<2^61. k < a \<or> b \<le> k \<longrightarrow> m' (wadr k) = m (wadr k))"

lemma wadr_pred1: "0 < n \<Longrightarrow> wadr n - 8 = wadr (n - Suc 0)"
  by (simp add: wadr_pred)

lemma wadr_plus_len: "wadr n + WORD_SZB * word_of_int (int l + 1) = wadr (n + l + 1)"
  using wadr_add [of n "l + 1"] by (simp add: algebra_simps)

lemma wadr_plus_len_simp: "wadr n + (8 * word_of_nat l + 8) = wadr (Suc (n + l))"
  using wadr_plus_len [of n l] by (simp add: algebra_simps)

lemma object_at_new:
  assumes "0 < n" and "n + length fs < 2 ^ 61"
  shows "object_at (store_words (m(wadr n - WORD_SZB := hdr)) (wadr n) fs) n hdr fs"
    and "same_outside m (store_words (m(wadr n - WORD_SZB := hdr)) (wadr n) fs) (n - 1) (n + length fs)"
    and "object_at ((store_words m (wadr n) fs)(wadr n - WORD_SZB := hdr)) n hdr fs"
    and "same_outside m ((store_words m (wadr n) fs)(wadr n - WORD_SZB := hdr)) (n - 1) (n + length fs)"
  using assms
  by (auto simp: object_at_def same_outside_def wadr_pred1 store_words_below store_words_above store_words_nth)

lemma AllocUniform_object:
  fixes vp :: VProc and h :: Heap and args :: "Value_t list" and n :: nat
  assumes "allocPtr vp = wadr n" and "0 < n" and "n + length args + 1 < 2 ^ 61" and "length args < 2 ^ 31"
  shows "\<exists>vp' h'. AllocUniform vp h args = (wadr n, vp', h')
    \<and> object_at (mem h') n (VEC_HDR (int (length args))) args
    \<and> GetLength (mem h' (wadr n - WORD_SZB)) = int (length args) \<and> isVectorHdr (mem h' (wadr n - WORD_SZB))
    \<and> same_outside (mem h) (mem h') (n - 1) (n + length args)
    \<and> vp' = vp\<lparr>allocPtr := wadr (n + length args + 1)\<rparr> \<and> h' = h\<lparr>mem := mem h'\<rparr>"
proof -
  let ?m = "store_words ((mem h)(wadr n - WORD_SZB := VEC_HDR (int (length args)))) (wadr n) args"
  have o: "object_at ?m n (VEC_HDR (int (length args))) args" 
    "same_outside (mem h) ?m (n - 1) (n + length args)"
    by (rule object_at_new; use assms in simp)+
  then have "?m (wadr n - WORD_SZB) = VEC_HDR (int (length args))"
    using assms(2) by (simp add: object_at_def wadr_pred)
  with o show ?thesis using assms
    by (auto simp: AllocUniform_def Let_def set_mem_def wadr_plus_len_simp)
qed


fun shape_hdr :: "bool list \<Rightarrow> Word_t option" where
  "shape_hdr [False] = Some (MIXED_HDR 3 1)"
| "shape_hdr [True, False] = Some (MIXED_HDR 4 2)"
| "shape_hdr [True] = Some (MIXED_HDR 5 1)"
| "shape_hdr [False, True, False, True, True] = Some (MIXED_HDR 6 5)"
| "shape_hdr [False, False, True] = Some (MIXED_HDR 7 3)"
| "shape_hdr _ = None"

lemma shape_hdr_long: "5 < length ts \<Longrightarrow> shape_hdr ts = None"
  by (cases ts rule: shape_hdr.cases) auto

lemma nonuniform_hdr_shapes:
  shows "nonuniform_hdr (int (length args)) (tag_bits 0 args) = shape_hdr (map (\<lambda>a. fst a = PTR_FIELD) args)"
proof (cases "length args \<le> 5")
  case True
  then consider "args = []" | a where "args = [a]" | a b where "args = [a, b]" | a b c where "args = [a, b, c]"
    | a b c d where "args = [a, b, c, d]" | a b c d e where "args = [a, b, c, d, e]"
    by (auto simp: numeral_eq_Suc le_Suc_eq length_Suc_conv)
  then show ?thesis
  proof cases
    case 1 then show ?thesis by (simp add: nonuniform_hdr_def)
  next
    case 2 then show ?thesis
      by (auto simp: nonuniform_hdr_def predefined_def PTR_FIELD_def)
  next
    case 3 then show ?thesis
      by (auto simp: nonuniform_hdr_def predefined_def PTR_FIELD_def)
  next
    case 4 then show ?thesis
      by (auto simp: nonuniform_hdr_def predefined_def PTR_FIELD_def)
  next
    case 5 then show ?thesis
      by (auto simp: nonuniform_hdr_def predefined_def PTR_FIELD_def)
  next
    case 6 then show ?thesis
      by (auto simp: nonuniform_hdr_def predefined_def PTR_FIELD_def)
  qed
next
  case False
  then show ?thesis by (simp add: nonuniform_hdr_def shape_hdr_long)
qed

lemma AllocNonUniform_object:
  fixes vp :: VProc and h :: Heap and args :: "(int \<times> Value_t) list" and n :: nat
  assumes "allocPtr vp = wadr n" and "0 < n" and "n + length args + 1 < 2 ^ 61"
  shows "case shape_hdr (map (\<lambda>a. fst a = PTR_FIELD) args) of
      None \<Rightarrow> AllocNonUniform vp h args = None
    | Some hdr \<Rightarrow> \<exists>vp' h'. AllocNonUniform vp h args = Some (wadr n, vp', h')
        \<and> object_at (mem h') n hdr (map snd args)
        \<and> same_outside (mem h) (mem h') (n - 1) (n + length args)
        \<and> vp' = vp\<lparr>allocPtr := wadr (n + length args + 1)\<rparr> \<and> h' = h\<lparr>mem := mem h'\<rparr>"
proof (cases "shape_hdr (map (\<lambda>a. fst a = PTR_FIELD) args)")
  case None
  then show ?thesis by (simp add: AllocNonUniform_def Let_def nonuniform_hdr_shapes)
next
  case (Some hdr)
  let ?m = "(store_words (mem h) (wadr n) (map snd args))(wadr n - WORD_SZB := hdr)"
  have "object_at ?m n hdr (map snd args)" "same_outside (mem h) ?m (n - 1) (n + length (map snd args))"
    by (rule object_at_new; use assms in simp)+
  with Some assms show ?thesis
    by (auto simp: AllocNonUniform_def Let_def nonuniform_hdr_shapes set_mem_def wadr_plus_len_simp)
qed

lemma AllocNonUniform_seq:
  assumes "allocPtr vp = wadr n" and "0 < n" and "n + 3 < 2 ^ 61"
  shows "\<exists>h'. AllocNonUniform vp h [PTR_arg p, INT_arg i] = Some (wadr n, vp\<lparr>allocPtr := wadr (n + 3)\<rparr>, h')
    \<and> object_at (mem h') n (MIXED_HDR 4 2) [p, word_of_int i] \<and> same_outside (mem h) (mem h') (n - 1) (n + 2)
    \<and> h' = h\<lparr>mem := mem h'\<rparr>"
proof -
  have "shape_hdr (map (\<lambda>a. fst a = PTR_FIELD) [PTR_arg p, INT_arg i]) = Some (MIXED_HDR 4 2)"
    by (simp add: PTR_arg_def INT_arg_def PTR_FIELD_def RAW_FIELD_def)
  moreover have "length [PTR_arg p, INT_arg i] = 2" and "n + 2 + 1 = n + 3"
    and "map snd [PTR_arg p, INT_arg i] = [p, word_of_int i]"
    by (simp_all add: PTR_arg_def INT_arg_def)
  moreover have "n + length [PTR_arg p, INT_arg i] + 1 < 2 ^ 61" using assms(3) by simp
  ultimately show ?thesis
    using AllocNonUniform_object [OF assms(1,2), of "[PTR_arg p, INT_arg i]" h]
    by (simp only: option.case) blast
qed

fun list_at :: "mem \<Rightarrow> nat \<Rightarrow> Value_t \<Rightarrow> Value_t list \<Rightarrow> bool" where
  "list_at m b v [] \<longleftrightarrow> v = M_NIL"
| "list_at m b v (x # xs) \<longleftrightarrow> (\<exists>k. v = wadr k \<and> 0 < k \<and> k + 1 < b \<and> m v = x \<and> list_at m b (m (v + WORD_SZB)) xs)"

lemma list_at_upd:
  "b \<le> j \<Longrightarrow> j < 2 ^ 61 \<Longrightarrow> list_at m b v xs \<Longrightarrow> list_at (m(wadr j := w)) b v xs"
  by (induction xs arbitrary: v) (fastforce simp: wadr_Suc)+

lemma wadr_not_NIL: "k < 2 ^ 61 \<Longrightarrow> wadr k \<noteq> M_NIL"
proof
  assume "k < 2 ^ 61" "wadr k = M_NIL"
  then have "8 * k = 1" using unat_wadr [of k] by (simp add: M_NIL_def)
  then show False by presburger
qed

lemma vector_loop_list:
  "list_at m b v xs \<Longrightarrow> b \<le> n \<Longrightarrow> n + i + length xs < 2 ^ 61
   \<Longrightarrow> vector_loop m (wadr n) (int i) v = Some (int (i + length xs), store_words m (wadr (n + i)) xs)"
proof (induction xs arbitrary: m v i)
  case Nil
  then show ?case by (subst vector_loop.simps) simp
next
  case (Cons x xs)
  then obtain k where k: "v = wadr k" "k + 1 < b" "m v = x" "list_at m b (m (v + WORD_SZB)) xs" by auto
  have v: "v \<noteq> M_NIL" using k Cons.prems by (simp add: wadr_not_NIL)
  let ?m = "m(wadr (n + i) := x)"
  have a: "wadr n + WORD_SZB * word_of_int (int i) = wadr (n + i)" using wadr_add [of n i] by simp
  have "?m (v + WORD_SZB) = m (v + WORD_SZB)" using k Cons.prems by (simp add: wadr_Suc)
  then have "list_at ?m b (?m (v + WORD_SZB)) xs"
    using k(4) Cons.prems by (simp add: list_at_upd)
  then have IH: "vector_loop ?m (wadr n) (int (Suc i)) (?m (v + WORD_SZB))
      = Some (int (Suc i + length xs), store_words ?m (wadr (n + Suc i)) xs)"
    by (rule Cons.IH) (use Cons.prems in auto)
  have "vector_loop m (wadr n) (int i) v = vector_loop ?m (wadr n) (int i + 1) (?m (v + WORD_SZB))"
    unfolding k(3) [symmetric] by (subst vector_loop.simps) (simp only: v a Let_def if_True not_False_eq_True)
  also have "int i + 1 = int (Suc i)" by simp
  finally have "vector_loop m (wadr n) (int i) v
      = Some (int (Suc i + length xs), store_words ?m (wadr (n + Suc i)) xs)"
    unfolding IH .
  then show ?case by (simp add: wadr_Suc)
qed

text \<open>\<^verbatim>\<open>AllocVector\<close> terminates on every list in memory and builds the vector of its elements in order,
  followed by the data/length pair, and touches no word outside the two new objects.\<close>

lemma AllocVector_copies_list:
  fixes vp :: VProc and h :: Heap and n :: nat and v :: Value_t and xs :: "Value_t list"
  assumes "allocPtr vp = wadr n" and "0 < n" and "list_at (mem h) (n - 1) v xs"
    and "n + length xs + 4 < 2 ^ 61"
  shows "\<exists>h'. AllocVector vp h v
      = Some (wadr (n + length xs + 1), vp\<lparr>allocPtr := wadr (n + length xs + 4)\<rparr>, h')
    \<and> object_at (mem h') n (VEC_HDR (int (length xs))) xs
    \<and> object_at (mem h') (n + length xs + 1) (MIXED_HDR 4 2) [wadr n, word_of_int (int (length xs))]
    \<and> same_outside (mem h) (mem h') (n - 1) (n + length xs + 3)"
proof -
  let ?l = "length xs"
  let ?m = "(store_words (mem h) (wadr n) xs)(wadr n - WORD_SZB := VEC_HDR (int ?l))"
  let ?vp = "vp\<lparr>allocPtr := wadr (n + ?l + 1)\<rparr>"
  have o: "object_at ?m n (VEC_HDR (int ?l)) xs" "same_outside (mem h) ?m (n - 1) (n + ?l)"
    by (rule object_at_new; use assms in simp)+
  have "vector_loop (mem h) (wadr n) (int 0) v = Some (int (0 + ?l), store_words (mem h) (wadr (n + 0)) xs)"
    by (rule vector_loop_list [OF assms(3)]) (use assms in auto)
  then have run: "AllocVector vp h v = AllocNonUniform ?vp (set_mem h ?m) [PTR_arg (wadr n), INT_arg (int ?l)]"
    using assms(1) by (simp add: AllocVector_def Let_def wadr_plus_len_simp)
  obtain h' where h': "AllocNonUniform ?vp (set_mem h ?m) [PTR_arg (wadr n), INT_arg (int ?l)]
      = Some (wadr (n + ?l + 1), vp\<lparr>allocPtr := wadr (n + ?l + 4)\<rparr>, h')"
    "object_at (mem h') (n + ?l + 1) (MIXED_HDR 4 2) [wadr n, word_of_int (int ?l)]"
    "same_outside ?m (mem h') (n + ?l) (n + ?l + 3)"
    using AllocNonUniform_seq [of ?vp "n + ?l + 1" "set_mem h ?m" "wadr n" "int ?l"] assms(4)
    by (auto simp: set_mem_def numeral_3_eq_3)
  have "object_at (mem h') n (VEC_HDR (int ?l)) xs"
    using o(1) h'(3) assms unfolding object_at_def same_outside_def by auto
  moreover have "same_outside (mem h) (mem h') (n - 1) (n + ?l + 3)"
    using o(2) h'(3) unfolding same_outside_def by auto
  ultimately show ?thesis using run h' by auto
qed

lemma mask_255: "(0xFF :: 64 word) = mask 8"
  by (simp add: mask_eq_exp_minus_1)

lemma bit_get_byte: "bit (get_byte w j) t \<longleftrightarrow> t < 8 \<and> bit w (8 * j + t)"
  unfolding get_byte_def mask_255 by (auto simp: bit_simps ac_simps)

lemma bit_put_byte: "k < 8 \<Longrightarrow> bit (put_byte w k b) t \<longleftrightarrow>
    (if 8 * k \<le> t \<and> t < 8 * k + 8 then bit b (t - 8 * k) else bit w t)"
  unfolding put_byte_def mask_255 by (auto simp: bit_simps dest: bit_imp_le_length)

lemma get_put_byte:
  assumes "j < 8" "k < 8"
  shows "get_byte (put_byte w k b) j = (if j = k then b AND 0xFF else get_byte w j)"
proof (rule bit_word_eqI)
  fix t
  show "bit (get_byte (put_byte w k b) j) t
      \<longleftrightarrow> bit (if j = k then b AND 0xFF else get_byte w j) t"
    using assms unfolding mask_255 by (auto simp: bit_get_byte bit_put_byte bit_simps)
qed

lemma load_store_byte:
  assumes "n + i div 8 < 2 ^ 61" "n + k div 8 < 2 ^ 61"
  shows "load_byte (store_byte m (wadr n) i b) (wadr n) k = (if k = i then b AND 0xFF else load_byte m (wadr n) k)"
proof -
  have a: "wadr n + word_of_nat (8 * (j div 8)) = wadr (n + j div 8)" for j
    using wadr_add [of n "j div 8"] by simp
  have "k div 8 = i div 8 \<and> k mod 8 = i mod 8 \<longleftrightarrow> k = i" by (metis div_mult_mod_eq)
  then show ?thesis
    using assms by (auto simp: load_byte_def store_byte_def Let_def a get_put_byte simp del: of_nat_mult)
qed

lemma load_memcpy:
  "n + (i + length bs) div 8 < 2 ^ 61 \<Longrightarrow> n + k div 8 < 2 ^ 61 \<Longrightarrow>
   load_byte (memcpy_from m (wadr n) i bs) (wadr n) k
     = (if i \<le> k \<and> k < i + length bs then bs ! (k - i) AND 0xFF else load_byte m (wadr n) k)"
proof (induction bs arbitrary: m i)
  case (Cons b bs)
  have "i div 8 \<le> (i + length (b # bs)) div 8" by (rule div_le_mono) simp
  then have i: "n + i div 8 < 2 ^ 61" using Cons.prems(1) by linarith
  have "load_byte (memcpy_from (store_byte m (wadr n) i b) (wadr n) (Suc i) bs) (wadr n) k
     = (if Suc i \<le> k \<and> k < Suc i + length bs then bs ! (k - Suc i) AND 0xFF
        else load_byte (store_byte m (wadr n) i b) (wadr n) k)"
    by (rule Cons.IH) (use Cons.prems in simp_all)
  then show ?case using load_store_byte [OF i Cons.prems(2)] by (auto simp: nth_Cons')
qed auto

lemma memcpy_outside:
  "(\<And>j. i \<le> j \<Longrightarrow> j < i + length bs \<Longrightarrow> x \<noteq> wadr (n + j div 8)) \<Longrightarrow> memcpy_from m (wadr n) i bs x = m x"
proof (induction bs arbitrary: m i)
  case (Cons b bs)
  have "memcpy_from (store_byte m (wadr n) i b) (wadr n) (Suc i) bs x = store_byte m (wadr n) i b x"
    by (rule Cons.IH) (use Cons.prems in auto)
  moreover have "x \<noteq> wadr (n + i div 8)" by (rule Cons.prems) auto
  moreover have "wadr n + word_of_nat (8 * (i div 8)) = wadr (n + i div 8)"
    using wadr_add [of n "i div 8"] by simp
  ultimately show ?case by (simp add: store_byte_def Let_def del: of_nat_mult)
qed simp

lemma BYTES_TO_WORDS_nat: "BYTES_TO_WORDS (int n) = int ((n + 7) div 8)"
  by (simp add: BYTES_TO_WORDS_def drop_bit_eq_div zdiv_int)

lemma of_char_word_255: "(of_char c :: 64 word) AND 0xFF = of_char c"
proof -
  have "(of_char c :: 64 word) = of_nat (of_char c)" by (simp only: of_nat_of_char)
  moreover have "(of_char c :: nat) < 2 ^ 8" using nat_of_char_less_256 [of c] by simp
  then have "take_bit 8 (of_char c :: nat) = of_char c" by (rule take_bit_nat_eq_self)
  then have "take_bit 8 (of_nat (of_char c) :: 64 word) = of_nat (of_char c)"
    by (metis of_nat_take_bit)
  ultimately show ?thesis unfolding mask_255 take_bit_eq_mask [symmetric] by simp
qed

lemma AllocString_stores:
  fixes vp :: VProc and h :: Heap and s :: string and n :: nat
  defines "w \<equiv> (length s + 8) div 8"
  assumes "allocPtr vp = wadr n" and "0 < n" and "n + w + 4 < 2 ^ 61" and "length s < 2 ^ 31 - 1"
  shows "\<exists>h'. AllocString vp h s
      = Some (wadr (n + w + 1), vp\<lparr>allocPtr := wadr (n + w + 4)\<rparr>, h')
    \<and> mem h' (wadr n - WORD_SZB) = RAW_HDR (int w)
    \<and> (\<forall>k\<le>length s. load_byte (mem h') (wadr n) k = (if k < length s then of_char (s ! k) else 0))
    \<and> object_at (mem h') (n + w + 1) (MIXED_HDR 4 2) [wadr n, word_of_int (int (length s))]
    \<and> same_outside (mem h) (mem h') (n - 1) (n + w + 3)"
proof -
  let ?bs = "map of_char s @ [0] :: 64 word list"
  let ?m1 = "(mem h)(wadr n - WORD_SZB := RAW_HDR (int w))"
  let ?m = "memcpy_from ?m1 (wadr n) 0 ?bs"
  let ?vp = "vp\<lparr>allocPtr := wadr (n + w + 1)\<rparr>"
  have w: "BYTES_TO_WORDS (int (length s) + 1) = int w"
    using BYTES_TO_WORDS_nat [of "length s + 1"] by (simp add: w_def add.commute)
  have in_w: "k div 8 < w" if "k \<le> length s" for k
  proof -
    have "k div 8 \<le> length s div 8" using that by (rule div_le_mono)
    then show ?thesis by (simp add: w_def)
  qed
  have run: "AllocString vp h s = AllocNonUniform ?vp (set_mem h ?m) [PTR_arg (wadr n), INT_arg (int (length s))]"
    using assms(2) by (simp add: AllocString_def Let_def w wadr_plus_len_simp)
  have out: "?m (wadr k) = ?m1 (wadr k)" if "k < 2 ^ 61" "k < n \<or> n + w \<le> k" for k
  proof (rule memcpy_outside)
    fix j assume "j < 0 + length ?bs"
    then have "j div 8 < w" by (intro in_w) simp
    then show "wadr k \<noteq> wadr (n + j div 8)" using that assms(4) by auto
  qed
  obtain h' where h': "AllocNonUniform ?vp (set_mem h ?m) [PTR_arg (wadr n), INT_arg (int (length s))]
      = Some (wadr (n + w + 1), vp\<lparr>allocPtr := wadr (n + w + 4)\<rparr>, h')"
    "object_at (mem h') (n + w + 1) (MIXED_HDR 4 2) [wadr n, word_of_int (int (length s))]"
    "same_outside ?m (mem h') (n + w) (n + w + 3)"
    using AllocNonUniform_seq [of ?vp "n + w + 1" "set_mem h ?m" "wadr n" "int (length s)"] assms(4)
    by (auto simp: set_mem_def numeral_3_eq_3)
  have lb: "load_byte (mem h') (wadr n) k = (if k < length s then of_char (s ! k) else 0)" if "k \<le> length s" for k
  proof -
    have "wadr n + word_of_nat (8 * (k div 8)) = wadr (n + k div 8)" using wadr_add [of n "k div 8"] by simp
    then have "load_byte (mem h') (wadr n) k = load_byte ?m (wadr n) k"
      using h'(3) in_w [OF that] assms(4) by (simp add: load_byte_def same_outside_def del: of_nat_mult)
    also have "\<dots> = ?bs ! k AND 0xFF"
      using load_memcpy [of n 0 ?bs k ?m1] in_w [OF that] that assms(4) by (simp add: w_def)
    finally show ?thesis using that by (auto simp: nth_append of_char_word_255)
  qed
  have "mem h' (wadr n - WORD_SZB) = RAW_HDR (int w)"
    using h'(3) out [of "n - 1"] assms(3,4) by (simp add: same_outside_def wadr_pred)
  moreover have "same_outside (mem h) (mem h') (n - 1) (n + w + 3)"
  proof -
    have "mem h' (wadr k) = mem h (wadr k)" if "k < 2 ^ 61" "k < n - 1 \<or> n + w + 3 \<le> k" for k
    proof -
      have "mem h' (wadr k) = ?m (wadr k)" using h'(3) that unfolding same_outside_def by auto
      also have "\<dots> = ?m1 (wadr k)" by (rule out) (use that in auto)
      finally show ?thesis using that assms(3,4) by (auto simp: wadr_pred)
    qed
    then show ?thesis by (simp add: same_outside_def)
  qed
  ultimately show ?thesis using run h' lb by auto
qed

text \<open>\<^verbatim>\<open>AllocString\<close> stores the bytes of the C string with its terminating zero, rounded up to words, under a raw
  header of that many words; reading the bytes back gives the string, and the pair object holds its length.\<close>

lemma AllocString_bytes:
  fixes vp :: VProc and h :: Heap and s :: string and n :: nat
  defines "w \<equiv> (length s + 8) div 8"
  assumes "allocPtr vp = wadr n" and "0 < n" and "n + w + 4 < 2 ^ 61" and "length s < 2 ^ 31 - 1"
  shows "\<exists>h'. AllocString vp h s
      = Some (wadr (n + w + 1), vp\<lparr>allocPtr := wadr (n + w + 4)\<rparr>, h')
    \<and> mem h' (wadr n - WORD_SZB) = RAW_HDR (int w)
    \<and> (\<forall>k\<le>length s. load_byte (mem h') (wadr n) k = (if k < length s then of_char (s ! k) else 0))
    \<and> object_at (mem h') (n + w + 1) (MIXED_HDR 4 2) [wadr n, word_of_int (int (length s))]
    \<and> same_outside (mem h) (mem h') (n - 1) (n + w + 3)"
  unfolding w_def by (rule AllocString_stores) (use assms in \<open>simp_all add: w_def\<close>)

lemma wadr_sum: "wadr n + WORD_SZB * word_of_int (int k) = wadr (n + k)"
  using wadr_add [of n k] by simp

lemma EnsureGlobalSpace_stay:
  "globNextW vp + WORD_SZB * word_of_int (n + 1) < globLimit vp \<Longrightarrow> EnsureGlobalSpace vp h n = Some (vp, h)"
  by (simp add: EnsureGlobalSpace_def not_le [symmetric])

lemma EnsureGlobalSpace_switch:
  fixes h :: Heap and vp :: VProc and c g :: nat and fs us :: "nat list" and n :: int
  defines "nd \<equiv> LocationNode (location vp)"
  assumes full: "globLimit vp \<le> globNextW vp + WORD_SZB * word_of_int (n + 1)"
    and free: "chain (chunks h) (freeChunks (NodeHeaps h nd)) (c # fs)"
    and g: "globAllocChunk vp = Some g" "nxt (chunks h g) = None"
    and us: "chain (chunks h) (unscannedTo (NodeHeaps h nd)) us" and d: "distinct (c # fs @ [g] @ us)"
  shows "\<exists>h'. EnsureGlobalSpace vp h n = Some (vp\<lparr>globAllocChunk := Some c,
        globNextW := baseAddr (chunks h c) + WORD_SZB,
        globLimit := baseAddr (chunks h c) + szB (chunks h c)\<rparr>, h')
    \<and> chain (chunks h') (unscannedTo (NodeHeaps h' nd)) (g # us) \<and> nxt (chunks h' c) = None
    \<and> usedTop (chunks h' g) = globNextW vp - WORD_SZB \<and> sts (chunks h' c) = TO_SP_CHUNK
    \<and> mem h' = mem h"
proof -
  let ?vp = "vp\<lparr>globAllocChunk := Some c, globNextW := baseAddr (chunks h c) + WORD_SZB,
        globLimit := baseAddr (chunks h c) + szB (chunks h c)\<rparr>"
  have gc: "chain (chunks h) (Some g) ([] @ [g])" using g(2) by simp
  have dd: "distinct (c # fs @ [] @ [g])" using d by auto
  obtain h1 where h1: "AllocToSpaceChunk vp h = Some (?vp, h1)" "chain (chunks h1) (Some g) ([g] @ [c])"
    "sts (chunks h1 c) = TO_SP_CHUNK" "usedTop (chunks h1 g) = globNextW vp - WORD_SZB" "mem h1 = mem h"
    "NodeHeaps h1 = (NodeHeaps h)(nd := (NodeHeaps h nd)\<lparr>freeChunks := nxt (chunks h c)\<rparr>)"
    "\<forall>d. d \<notin> {c, g, g} \<longrightarrow> chunks h1 d = chunks h d"
    using AllocToSpaceChunk_free [OF free [unfolded nd_def] g(1) gc dd] unfolding nd_def by auto
  have us1: "chain (chunks h1) (unscannedTo (NodeHeaps h1 nd)) us"
  proof -
    have "chain (chunks h1) (unscannedTo (NodeHeaps h nd)) us"
      by (subst chain_cong [where cs' = "chunks h"]) (use h1(7) d us in auto)
    then show ?thesis using h1(6) by simp
  qed
  have nd: "LocationNode (location ?vp) = nd" by (simp add: nd_def)
  obtain h2 where h2: "PushToSpaceChunks ?vp g False h1 = Some (c, h2)"
    "chain (chunks h2) (unscannedTo (NodeHeaps h2 nd)) (rev [g] @ us)" "nxt (chunks h2 c) = None"
    "mem h2 = mem h1" "\<forall>d. (chunks h2 d)\<lparr>nxt := None\<rparr> = (chunks h1 d)\<lparr>nxt := None\<rparr>"
    using PushToSpaceChunks_chain [OF h1(2), of us ?vp False] us1 d unfolding nd by auto
  have "usedTop (chunks h2 d) = usedTop (chunks h1 d)" "sts (chunks h2 d) = sts (chunks h1 d)" for d
    using h2(5) [rule_format, of d] by (metis MemChunk.select_convs(4,6) MemChunk.surjective MemChunk.update_convs(5))+
  then show ?thesis using h1 h2 full g(1)
    by (auto simp: EnsureGlobalSpace_def Let_def)
qed

lemma GlobalAllocUniform_fits:
  fixes vp :: VProc and h :: Heap and args :: "Value_t list" and n b k :: nat
  assumes "globNextW vp = wadr n" and "0 < n" and "globLimit vp = wadr k" and "n + length args + 1 < k" and "k < 2 ^ 61"
    and "length args < 2 ^ 31"
  shows "\<exists>vp' h'. GlobalAllocUniform vp h args = Some (wadr n, vp', h')
    \<and> object_at (mem h') n (VEC_HDR (int (length args))) args
    \<and> same_outside (mem h) (mem h') (n - 1) (n + length args)
    \<and> globNextW vp' = wadr (n + length args + 1) \<and> globNextW vp' < globLimit vp'
    \<and> globAllocChunk vp' = globAllocChunk vp
    \<and> nBytesAlloc (globalStats vp') = nBytesAlloc (globalStats vp) + WORD_SZB * word_of_nat (length args + 1)
    \<and> h' = h\<lparr>mem := mem h'\<rparr>"
proof -
  let ?m = "store_words ((mem h)(wadr n - WORD_SZB := VEC_HDR (int (length args)))) (wadr n) args"
  have "EnsureGlobalSpace vp h (int (length args)) = Some (vp, h)"
    by (rule EnsureGlobalSpace_stay) (use assms wadr_plus_len [of n "length args"] in simp)
  moreover have "object_at ?m n (VEC_HDR (int (length args))) args" "same_outside (mem h) ?m (n - 1) (n + length args)"
    by (rule object_at_new; use assms in simp)+
  ultimately show ?thesis
    using assms by (auto simp: GlobalAllocUniform_def Let_def bump_global_def set_mem_def wadr_plus_len_simp)
qed

text \<open>\<^verbatim>\<open>GlobalAllocNonUniform\<close> takes the object address before it makes sure there is space: when the chunk is full
  it returns an object at the end of the old chunk, although the new chunk is charged for it.\<close>

lemma GlobalAllocNonUniform_stale:
  fixes h :: Heap and vp :: VProc and c g :: nat and fs us :: "nat list" and args :: "(int \<times> Value_t) list"
  defines "nd \<equiv> LocationNode (location vp)"
  assumes full: "globLimit vp \<le> globNextW vp + WORD_SZB * word_of_int (int (length args) + 1)"
    and free: "chain (chunks h) (freeChunks (NodeHeaps h nd)) (c # fs)"
    and g: "globAllocChunk vp = Some g" "nxt (chunks h g) = None"
    and us: "chain (chunks h) (unscannedTo (NodeHeaps h nd)) us" and d: "distinct (c # fs @ [g] @ us)"
    and shape: "shape_hdr (map (\<lambda>a. fst a = PTR_FIELD) args) = Some hdr"
  shows "\<exists>vp' h'. GlobalAllocNonUniform vp h args = Some (globNextW vp, vp', h')
    \<and> globAllocChunk vp' = Some c
    \<and> globNextW vp' = baseAddr (chunks h c) + WORD_SZB + WORD_SZB * word_of_int (int (length args) + 1)"
proof -
  obtain h1 where "EnsureGlobalSpace vp h (int (length args)) = Some (vp\<lparr>globAllocChunk := Some c,
        globNextW := baseAddr (chunks h c) + WORD_SZB,
        globLimit := baseAddr (chunks h c) + szB (chunks h c)\<rparr>, h1)"
    using EnsureGlobalSpace_switch [OF full free [unfolded nd_def] g us [unfolded nd_def] d] by blast
  then show ?thesis
    using shape by (simp add: GlobalAllocNonUniform_def nonuniform_hdr_shapes bump_global_def Let_def)
qed

text \<open>\<^verbatim>\<open>GlobalAllocRawArray\<close> does not round the size to words: for a number of bytes that is not a multiple of 8
  the allocation pointer is no longer aligned and the next object's header lies inside the object its own header
  describes.\<close>

lemma GlobalAllocRawArray_overlap:
  fixes vp :: VProc and h :: Heap and n k bytes :: nat
  assumes "globNextW vp = wadr n" and "globLimit vp = wadr k" and "n + bytes + 1 < k" and "k < 2 ^ 60"
    and "bytes mod 8 \<noteq> 0"
  shows "\<exists>vp' h'. GlobalAllocRawArray vp h (int bytes) 1 = Some (wadr n, vp', h')
    \<and> mem h' (wadr n - WORD_SZB) = RAW_HDR (int ((bytes + 7) div 8))
    \<and> globNextW vp' - WORD_SZB < wadr (n + (bytes + 7) div 8) \<and> unat (globNextW vp') mod 8 \<noteq> 0"
proof -
  have e: "EnsureGlobalSpace vp h (int bytes) = Some (vp, h)"
    by (rule EnsureGlobalSpace_stay) (use assms wadr_plus_len [of n "bytes"] in simp)
  let ?nw = "wadr n + word_of_int (8 + int bytes)"
  have "8 * n + bytes + 8 < 2 ^ 64" using assms by simp
  have nw: "?nw = word_of_nat (8 * n + bytes + 8)" by (simp add: wadr_def algebra_simps)
  have u: "unat (word_of_nat j :: 64 word) = j" if "j < 2 ^ 64" for j using that by (simp add: unat_of_nat)
  have 1: "unat ?nw = 8 * n + bytes + 8" unfolding nw by (rule u) fact
  have "?nw - WORD_SZB = word_of_nat (8 * n + bytes)" by (simp add: wadr_def algebra_simps)
  then have 2: "unat (?nw - WORD_SZB) = 8 * n + bytes" by (simp only:) (rule u, use assms in simp)
  have "bytes < 8 * ((bytes + 7) div 8)" using assms(5) by presburger
  moreover have "unat (wadr (n + (bytes + 7) div 8)) = 8 * (n + (bytes + 7) div 8)"
    by (rule unat_wadr) (use assms in simp)
  ultimately have "?nw - WORD_SZB < wadr (n + (bytes + 7) div 8)" by (simp only: word_less_nat_alt 2) simp
  moreover have "unat ?nw mod 8 \<noteq> 0" unfolding 1 using assms(5) by presburger
  ultimately show ?thesis
    using BYTES_TO_WORDS_nat [of bytes] assms(1)
    by (simp add: GlobalAllocRawArray_def e bump_global_def set_mem_def Let_def add.assoc)
qed

text \<open>When the current chunk is full and the node has a free chunk that is large enough, \<^verbatim>\<open>GlobalAllocUniform\<close>
  puts the object at the start of that chunk, makes it the allocation chunk, queues the old chunk for scanning,
  and leaves room below the limit.\<close>

lemma GlobalAllocUniform_switches:
  fixes h :: Heap and vp :: VProc and c g b k :: nat and fs us :: "nat list" and args :: "Value_t list"
  defines "nd \<equiv> LocationNode (location vp)"
  assumes full: "globLimit vp \<le> globNextW vp + WORD_SZB * word_of_int (int (length args) + 1)"
    and free: "chain (chunks h) (freeChunks (NodeHeaps h nd)) (c # fs)"
    and g: "globAllocChunk vp = Some g" "nxt (chunks h g) = None"
    and us: "chain (chunks h) (unscannedTo (NodeHeaps h nd)) us" and d: "distinct (c # fs @ [g] @ us)"
    and c: "baseAddr (chunks h c) = wadr b" "baseAddr (chunks h c) + szB (chunks h c) = wadr (b + k)"
    and fits: "length args + 2 < k" "b + k < 2 ^ 61" "length args < 2 ^ 31"
  shows "\<exists>vp' h'. GlobalAllocUniform vp h args = Some (wadr (b + 1), vp', h')
    \<and> object_at (mem h') (b + 1) (VEC_HDR (int (length args))) args
    \<and> same_outside (mem h) (mem h') b (b + 1 + length args)
    \<and> globAllocChunk vp' = Some c \<and> globNextW vp' = wadr (b + length args + 2) \<and> globNextW vp' < globLimit vp'
    \<and> chain (chunks h') (unscannedTo (NodeHeaps h' nd)) (g # us)"
proof -
  let ?vp = "vp\<lparr>globAllocChunk := Some c, globNextW := wadr (b + 1), globLimit := wadr (b + k)\<rparr>"
  obtain h1 where h1: "EnsureGlobalSpace vp h (int (length args)) = Some (?vp, h1)"
    "chain (chunks h1) (unscannedTo (NodeHeaps h1 nd)) (g # us)" "mem h1 = mem h"
    using EnsureGlobalSpace_switch [OF full free [unfolded nd_def] g us [unfolded nd_def] d]
    unfolding c(2) unfolding c(1) nd_def by (auto simp: wadr_Suc)
  have "EnsureGlobalSpace ?vp h1 (int (length args)) = Some (?vp, h1)"
    by (rule EnsureGlobalSpace_stay) (use fits wadr_plus_len [of "b + 1" "length args"] in simp)
  then have eq: "GlobalAllocUniform vp h args = GlobalAllocUniform ?vp h1 args"
    using h1(1) by (simp add: GlobalAllocUniform_def)
  obtain vp' h' where r: "GlobalAllocUniform ?vp h1 args = Some (wadr (b + 1), vp', h')"
    "object_at (mem h') (b + 1) (VEC_HDR (int (length args))) args"
    "same_outside (mem h1) (mem h') b (b + 1 + length args)"
    "globNextW vp' = wadr (b + 1 + length args + 1)" "globNextW vp' < globLimit vp'" "globAllocChunk vp' = Some c"
    "h' = h1\<lparr>mem := mem h'\<rparr>"
    using GlobalAllocUniform_fits [of ?vp "b + 1" "b + k" args h1] fits by auto
  from r(7) have "chain (chunks h') (unscannedTo (NodeHeaps h' nd)) (g # us)"
    using h1(2) by (metis Heap.select_convs(2,10) Heap.surjective Heap.update_convs(1))
  then show ?thesis using r eq h1(3) by (auto simp: numeral_2_eq_2)
qed

lemma GlobalAllocUniform_switches_witness:
  "\<exists>vp' h'. GlobalAllocUniform (ex_vproc\<lparr>globAllocChunk := Some 3, globNextW := 0x13FFFF8, globLimit := 0x1400000\<rparr>)
        (upd_node 0 (\<lambda>nh. nh\<lparr>freeChunks := Some 4\<rparr>) ex_heap) [3, 5] = Some (0x1400008, vp', h')
      \<and> mem h' 0x1400000 = VEC_HDR 2 \<and> globNextW vp' = 0x1400020"
  using GlobalAllocUniform_switches [where h = "upd_node 0 (\<lambda>nh. nh\<lparr>freeChunks := Some 4\<rparr>) ex_heap"
    and vp = "ex_vproc\<lparr>globAllocChunk := Some 3, globNextW := 0x13FFFF8, globLimit := 0x1400000\<rparr>"
    and c = 4 and g = 3 and fs = "[5]" and us = "[]" and args = "[3, 5]" and b = "0x280000" and k = "0x80000"]
  by (auto simp: ex_heap_def InitHeapState_def ex_chunk_def ex_vproc_def LocationNode_def wadr_def object_at_def)

lemma GlobalAllocNonUniform_stale_witness:
  "\<exists>vp' h'. GlobalAllocNonUniform (ex_vproc\<lparr>globAllocChunk := Some 3, globNextW := 0x13FFFF8, globLimit := 0x1400000\<rparr>)
        (upd_node 0 (\<lambda>nh. nh\<lparr>freeChunks := Some 4\<rparr>) ex_heap) [(1, 8), (0, 5)] = Some (0x13FFFF8, vp', h')
      \<and> globAllocChunk vp' = Some 4 \<and> globNextW vp' = 0x1400020"
  using GlobalAllocNonUniform_stale [where h = "upd_node 0 (\<lambda>nh. nh\<lparr>freeChunks := Some 4\<rparr>) ex_heap"
    and vp = "ex_vproc\<lparr>globAllocChunk := Some 3, globNextW := 0x13FFFF8, globLimit := 0x1400000\<rparr>"
    and c = 4 and g = 3 and fs = "[5]" and us = "[]" and args = "[(1, 8), (0, 5)]" and hdr = "MIXED_HDR 4 2"]
  by (auto simp: ex_heap_def InitHeapState_def ex_chunk_def ex_vproc_def LocationNode_def PTR_FIELD_def)

lemma GlobalAllocRawArray_overlap_witness:
  "\<exists>vp' h'. GlobalAllocRawArray (ex_vproc\<lparr>globNextW := 0x1000008, globLimit := 0x1400000\<rparr>) ex_heap 3 1 = Some (0x1000008, vp', h')
     \<and> globNextW vp' - 8 < 0x1000010 \<and> unat (globNextW vp') mod 8 \<noteq> 0"
  using GlobalAllocRawArray_overlap [where vp = "ex_vproc\<lparr>globNextW := 0x1000008, globLimit := 0x1400000\<rparr>" and h = ex_heap
    and n = "0x200001" and k = "0x280000" and bytes = 3]
  by (auto simp: wadr_def)

lemma AllocString_bytes_witness:
  "\<exists>h'. AllocString ex_vproc ex_heap ''PML'' = Some (0x180018, ex_vproc\<lparr>allocPtr := 0x180030\<rparr>, h')
    \<and> load_byte (mem h') 0x180008 1 = of_char (CHR ''M'') \<and> load_byte (mem h') 0x180008 3 = 0"
proof -
  have "allocPtr ex_vproc = wadr 0x30001" by (simp add: ex_vproc_def wadr_def)
  from AllocString_bytes [where vp = ex_vproc and h = ex_heap and s = "''PML''", OF this]
  obtain h' where h': "AllocString ex_vproc ex_heap ''PML'' = Some (wadr (0x30001 + (length ''PML'' + 8) div 8 + 1),
       ex_vproc\<lparr>allocPtr := wadr (0x30001 + (length ''PML'' + 8) div 8 + 4)\<rparr>, h')"
    and l: "\<And>k. k \<le> length ''PML'' \<Longrightarrow> load_byte (mem h') (wadr 0x30001) k
       = (if k < length ''PML'' then of_char (''PML'' ! k) else 0)" by auto
  from l [of 1] l [of 3] h' show ?thesis by (simp add: wadr_def)
qed

definition ex_list_heap :: Heap where
  "ex_list_heap = ex_heap\<lparr>mem := (\<lambda>_. 0)(0x1000 := 7, 0x1008 := 0x2000, 0x2000 := 9, 0x2008 := 1)\<rparr>"

lemma AllocVector_copies_list_witness:
  "\<exists>h'. AllocVector ex_vproc ex_list_heap 0x1000 = Some (0x180020, ex_vproc\<lparr>allocPtr := 0x180038\<rparr>, h')
    \<and> mem h' 0x180008 = 7 \<and> mem h' 0x180010 = 9"
proof -
  have "allocPtr ex_vproc = wadr 0x30001" by (simp add: ex_vproc_def wadr_def)
  moreover have "list_at (mem ex_list_heap) (0x30001 - 1) 0x1000 [7, 9]"
    by (simp add: ex_list_heap_def M_NIL_def) (intro conjI exI [of _ "0x200"] exI [of _ "0x400"]; simp add: wadr_def)
  ultimately obtain h' where h': "AllocVector ex_vproc ex_list_heap 0x1000
      = Some (wadr (0x30001 + length [7, 9::Value_t] + 1), ex_vproc\<lparr>allocPtr := wadr (0x30001 + length [7, 9::Value_t] + 4)\<rparr>, h')"
    and o: "object_at (mem h') 0x30001 (VEC_HDR (int (length [7, 9::Value_t]))) [7, 9]"
    using AllocVector_copies_list [where vp = ex_vproc and h = ex_list_heap and v = "0x1000" and xs = "[7, 9]" and n = "0x30001"] by auto
  from o have "mem h' (wadr 0x30001) = 7" and "mem h' (wadr (0x30001 + 1)) = 9"
    unfolding object_at_def by (force simp: numeral_2_eq_2)+
  with h' show ?thesis by (simp add: wadr_def)
qed

text \<open>\<^verbatim>\<open>AllocNonUniform\<close> succeeds exactly on the five field layouts that have a predefined table entry; then
  the object has the header of that layout, its fields are the arguments in order, the allocation pointer moves
  past it and no other word changes. Any other layout ends the program.\<close>

lemma AllocNonUniform_shapes:
  fixes vp :: VProc and h :: Heap and args :: "(int \<times> Value_t) list" and n :: nat
  assumes "allocPtr vp = wadr n" and "0 < n" and "n + length args + 1 < 2 ^ 61"
  shows "case shape_hdr (map (\<lambda>a. fst a = PTR_FIELD) args) of
      None \<Rightarrow> AllocNonUniform vp h args = None
    | Some hdr \<Rightarrow> \<exists>vp' h'. AllocNonUniform vp h args = Some (wadr n, vp', h')
        \<and> object_at (mem h') n hdr (map snd args)
        \<and> same_outside (mem h) (mem h') (n - 1) (n + length args)
        \<and> vp' = vp\<lparr>allocPtr := wadr (n + length args + 1)\<rparr> \<and> h' = h\<lparr>mem := mem h'\<rparr>"
  by (rule AllocNonUniform_object [OF assms])

lemma AllocNonUniform_shapes_witness:
  "AllocNonUniform ex_vproc ex_heap [(1, 8), (1, 16)] = None \<and>
   (\<exists>vp' h'. AllocNonUniform ex_vproc ex_heap [(1, 8), (0, 5)] = Some (0x180008, vp', h') \<and> mem h' 0x180000 = MIXED_HDR 4 2)"
proof
  have a: "allocPtr ex_vproc = wadr 0x30001" by (simp add: ex_vproc_def wadr_def)
  show "AllocNonUniform ex_vproc ex_heap [(1, 8), (1, 16)] = None"
    using AllocNonUniform_shapes [OF a, where args = "[(1, 8), (1, 16)]" and h = ex_heap] by (simp add: PTR_FIELD_def)
  show "\<exists>vp' h'. AllocNonUniform ex_vproc ex_heap [(1, 8), (0, 5)] = Some (0x180008, vp', h') \<and> mem h' 0x180000 = MIXED_HDR 4 2"
    using AllocNonUniform_shapes [OF a, where args = "[(1, 8), (0, 5)]" and h = ex_heap]
    by (auto simp: PTR_FIELD_def object_at_def wadr_def)
qed

end
