(* ===== verification/Deque_Roots.thy ===== *)
theory Deque_Roots
  imports Alloc_Objects
begin

text \<open>
  The work-stealing deques as the memory manager sees them: \<^verbatim>\<open>gc/work-stealing-deque.c\<close> (with
  \<^verbatim>\<open>ROOT_SET_OPTIMIZATION\<close> 0, as it is set there). Deques live in the C heap, addressed by
  pointers; the linked lists of work groups and of resume deques are lists, their heads first. The
  C allocator is part of the state: \<open>dqMem k align sz\<close> answers the \<open>k\<close>-th aligned allocation. A root is the
  location of a value: a register of the vproc or an element of a deque.
\<close>

subsection \<open>Deques and work groups\<close>

record Deque =
  old :: int
  new :: int
  maxSz :: int
  nClaimed :: int
  elts :: "Value_t list"

record WorkGroup =
  workGroupId :: "64 word"
  primaryDeque :: Value_t
  secondaryDeque :: Value_t
  resumeDeques :: "Value_t list"

record DequeState =
  dqStore :: "Value_t \<Rightarrow> Deque option"
  dqMem :: "nat \<Rightarrow> 32 word \<Rightarrow> 32 word \<Rightarrow> Addr_t"
  nDqAllocs :: nat
  PerVProcLists :: "int \<Rightarrow> WorkGroup list"

datatype RootLoc = VPReg vpReg | DequeElt Value_t int

definition M_InitWorkGroupList :: "DequeState \<Rightarrow> DequeState" where
  "M_InitWorkGroupList ds = ds\<lparr>PerVProcLists := (\<lambda>_. [])\<rparr>"

definition upd_list :: "int \<Rightarrow> (WorkGroup list \<Rightarrow> WorkGroup list) \<Rightarrow> DequeState \<Rightarrow> DequeState" where
  "upd_list v f ds = ds\<lparr>PerVProcLists := (PerVProcLists ds)(v := f (PerVProcLists ds v))\<rparr>"

fun find_group :: "64 word \<Rightarrow> WorkGroup list \<Rightarrow> WorkGroup option" where
  "find_group k [] = None"
| "find_group k (wg # wgs) = (if workGroupId wg = k then Some wg else find_group k wgs)"

definition FindWorkGroup :: "int \<Rightarrow> 64 word \<Rightarrow> DequeState \<Rightarrow> WorkGroup \<times> DequeState" where
  "FindWorkGroup self k ds = (case find_group k (PerVProcLists ds self) of
       Some wg \<Rightarrow> (wg, ds)
     | None \<Rightarrow> let wg = \<lparr>workGroupId = k, primaryDeque = M_NIL, secondaryDeque = M_NIL, resumeDeques = []\<rparr>
               in (wg, upd_list self (Cons wg) ds))"

text \<open>An assignment through the pointer \<open>FindWorkGroup\<close> returned: the first entry with that id changes.\<close>

fun upd_group :: "64 word \<Rightarrow> (WorkGroup \<Rightarrow> WorkGroup) \<Rightarrow> WorkGroup list \<Rightarrow> WorkGroup list" where
  "upd_group k f [] = []"
| "upd_group k f (wg # wgs) = (if workGroupId wg = k then f wg # wgs else wg # upd_group k f wgs)"

subsection \<open>Allocation\<close>

definition FloorLg :: "32 word \<Rightarrow> 32 word" where
  "FloorLg n0 =
     (let (n1, p1) = (if n0 \<ge> 2 ^ 16 then (drop_bit 16 n0, 16) else (n0, 0));
          (n2, p2) = (if n1 \<ge> 2 ^ 8 then (drop_bit 8 n1, p1 + 8) else (n1, p1));
          (n3, p3) = (if n2 \<ge> 2 ^ 4 then (drop_bit 4 n2, p2 + 4) else (n2, p2));
          (n4, p4) = (if n3 \<ge> 2 ^ 2 then (drop_bit 2 n3, p3 + 2) else (n3, p3));
          p5 = (if n4 \<ge> 2 ^ 1 then p4 + 1 else p4)
      in if n4 = 0 then - 1 else p5)"

definition CeilingLg :: "32 word \<Rightarrow> 32 word" where
  "CeilingLg v = (let lg = FloorLg v in lg + (if v - push_bit (unat lg) 1 > 0 then 1 else 0))"

definition DequeAlloc :: "int \<Rightarrow> DequeState \<Rightarrow> Value_t \<times> DequeState" where
  "DequeAlloc sz ds =
     (let dequeSzB = 24 + 8 * (word_of_int sz - 1);
          dequeAlignSzB = push_bit (unat (CeilingLg dequeSzB)) 1;
          deque = dqMem ds (nDqAllocs ds) dequeAlignSzB dequeSzB
      in (deque, ds\<lparr>nDqAllocs := nDqAllocs ds + 1, dqStore := (dqStore ds)(deque \<mapsto>
           \<lparr>old = 0, new = 0, maxSz = sz, nClaimed = 1, elts = replicate (nat sz) M_NIL\<rparr>)\<rparr>))"

definition M_PrimaryDequeAlloc :: "int \<Rightarrow> 64 word \<Rightarrow> int \<Rightarrow> DequeState \<Rightarrow> Value_t \<times> DequeState" where
  "M_PrimaryDequeAlloc self k sz ds =
     (let (deque, ds1) = DequeAlloc sz ds; (wg, ds2) = FindWorkGroup self k ds1
      in (deque, upd_list self (upd_group k (\<lambda>wg. wg\<lparr>primaryDeque := deque\<rparr>)) ds2))"

definition M_SecondaryDequeAlloc :: "int \<Rightarrow> 64 word \<Rightarrow> int \<Rightarrow> DequeState \<Rightarrow> Value_t \<times> DequeState" where
  "M_SecondaryDequeAlloc self k sz ds =
     (let (deque, ds1) = DequeAlloc sz ds; (wg, ds2) = FindWorkGroup self k ds1
      in (deque, upd_list self (upd_group k (\<lambda>wg. wg\<lparr>secondaryDeque := deque\<rparr>)) ds2))"

definition M_ResumeDequeAlloc :: "int \<Rightarrow> 64 word \<Rightarrow> int \<Rightarrow> DequeState \<Rightarrow> Value_t \<times> DequeState" where
  "M_ResumeDequeAlloc self k sz ds =
     (let (deque, ds1) = DequeAlloc sz ds; (wg, ds2) = FindWorkGroup self k ds1
      in (deque, upd_list self (upd_group k (\<lambda>wg. wg\<lparr>resumeDeques := deque # resumeDeques wg\<rparr>)) ds2))"

subsection \<open>Counting, pruning and the root set\<close>

definition DequeNumElts :: "Deque \<Rightarrow> int" where
  "DequeNumElts dq = (if old dq \<le> new dq then new dq - old dq else maxSz dq - old dq + new dq)"

definition the_deque :: "DequeState \<Rightarrow> Value_t \<Rightarrow> Deque" where
  "the_deque ds d = the (dqStore ds d)"

text \<open>The new list is consed while the old one is read: it comes out reversed.\<close>

fun PruneDequeList :: "Value_t list \<Rightarrow> Value_t list \<Rightarrow> DequeState \<Rightarrow> Value_t list \<times> DequeState" where
  "PruneDequeList acc [] ds = (acc, ds)"
| "PruneDequeList acc (d # rest) ds =
     (if DequeNumElts (the_deque ds d) = 0 \<and> nClaimed (the_deque ds d) = 0
      then PruneDequeList acc rest (ds\<lparr>dqStore := (dqStore ds)(d := None)\<rparr>)
      else PruneDequeList (d # acc) rest ds)"

fun prune_groups :: "WorkGroup list \<Rightarrow> DequeState \<Rightarrow> WorkGroup list \<times> DequeState" where
  "prune_groups [] ds = ([], ds)"
| "prune_groups (wg # wgs) ds =
     (let (rs, ds1) = PruneDequeList [] (resumeDeques wg) ds; (wgs', ds2) = prune_groups wgs ds1
      in (wg\<lparr>resumeDeques := rs\<rparr> # wgs', ds2))"

definition Prune :: "int \<Rightarrow> DequeState \<Rightarrow> DequeState" where
  "Prune self ds = (let (wgs, ds1) = prune_groups (PerVProcLists ds self) ds in upd_list self (\<lambda>_. wgs) ds1)"

text \<open>The deques of a work group in the order both loops visit them; the null pointer value is skipped.\<close>

definition group_deques :: "WorkGroup \<Rightarrow> Value_t list" where
  "group_deques wg = filter (\<lambda>d. d \<noteq> M_NIL) (primaryDeque wg # secondaryDeque wg # resumeDeques wg)"

definition M_NumDequeRoots :: "int \<Rightarrow> DequeState \<Rightarrow> int \<times> DequeState" where
  "M_NumDequeRoots self ds0 =
     (let ds = Prune self ds0
      in (fold (\<lambda>wg n. fold (\<lambda>d n. n + DequeNumElts (the_deque ds d)) (group_deques wg) n)
            (PerVProcLists ds self) 0, ds))"

definition MoveLeft :: "int \<Rightarrow> int \<Rightarrow> int" where
  "MoveLeft i sz = (if i \<le> 0 then sz - 1 else i - 1)"

partial_function (option) deque_loop :: "Deque \<Rightarrow> Value_t \<Rightarrow> int \<Rightarrow> RootLoc list \<Rightarrow> RootLoc list option" where
  "deque_loop dq d i roots =
     (if i \<noteq> old dq
      then let j = MoveLeft i (maxSz dq)
           in deque_loop dq d j (if elts dq ! nat j \<noteq> M_NIL then roots @ [DequeElt d j] else roots)
      else Some roots)"

definition AddDequeElts :: "DequeState \<Rightarrow> Value_t \<Rightarrow> RootLoc list \<Rightarrow> RootLoc list option" where
  "AddDequeElts ds d roots = deque_loop (the_deque ds d) d (new (the_deque ds d)) roots"

fun add_deques :: "DequeState \<Rightarrow> Value_t list \<Rightarrow> RootLoc list \<Rightarrow> RootLoc list option" where
  "add_deques ds [] roots = Some roots"
| "add_deques ds (d # rest) roots = Option.bind (AddDequeElts ds d roots) (add_deques ds rest)"

fun add_groups :: "DequeState \<Rightarrow> WorkGroup list \<Rightarrow> RootLoc list \<Rightarrow> RootLoc list option" where
  "add_groups ds [] roots = Some roots"
| "add_groups ds (wg # wgs) roots =
     Option.bind (add_deques ds (filter (\<lambda>d. d \<noteq> M_NIL) [primaryDeque wg, secondaryDeque wg]
        @ filter (\<lambda>d. d \<noteq> 0) (resumeDeques wg)) roots) (add_groups ds wgs)"

definition M_AddDequeEltsToLocalRoots :: "int \<Rightarrow> DequeState \<Rightarrow> RootLoc list \<Rightarrow> RootLoc list option" where
  "M_AddDequeEltsToLocalRoots self ds roots = add_groups ds (PerVProcLists ds self) roots"

text \<open>Without the optimisation there is nothing left for a global collection to add.\<close>

definition M_AddDequeEltsToGlobalRoots :: "int \<Rightarrow> DequeState \<Rightarrow> RootLoc list \<Rightarrow> RootLoc list" where
  "M_AddDequeEltsToGlobalRoots self ds roots = roots"

subsection \<open>Queries of the scheduler\<close>

definition M_PrimaryDeque :: "int \<Rightarrow> 64 word \<Rightarrow> DequeState \<Rightarrow> Value_t \<times> DequeState" where
  "M_PrimaryDeque self k ds = (let (wg, ds1) = FindWorkGroup self k ds in (primaryDeque wg, ds1))"

definition M_SecondaryDeque :: "int \<Rightarrow> 64 word \<Rightarrow> DequeState \<Rightarrow> Value_t \<times> DequeState" where
  "M_SecondaryDeque self k ds = (let (wg, ds1) = FindWorkGroup self k ds in (secondaryDeque wg, ds1))"

fun resume_loop :: "Value_t list \<Rightarrow> Value_t \<Rightarrow> VProc \<Rightarrow> Heap \<Rightarrow> DequeState \<Rightarrow> Value_t \<times> VProc \<times> Heap \<times> DequeState" where
  "resume_loop [] l vp h ds = (l, vp, h, ds)"
| "resume_loop (d # rest) l vp h ds =
     (if DequeNumElts (the_deque ds d) > 0
      then let ds1 = ds\<lparr>dqStore := (dqStore ds)(d \<mapsto>
                 (the_deque ds d)\<lparr>nClaimed := nClaimed (the_deque ds d) + 1\<rparr>)\<rparr>;
               (deque, vp1, h1) = AllocUniform vp h [d];
               (l1, vp2, h2) = Cons_cell vp1 h1 deque l
           in resume_loop rest l1 vp2 h2 ds1
      else resume_loop rest l vp h ds)"

definition M_ResumeDeques :: "VProc \<Rightarrow> 64 word \<Rightarrow> Heap \<Rightarrow> DequeState \<Rightarrow> Value_t \<times> VProc \<times> Heap \<times> DequeState" where
  "M_ResumeDeques vp k h ds =
     (let (wg, ds1) = FindWorkGroup (vpid vp) k ds in resume_loop (resumeDeques wg) M_NIL vp h ds1)"

subsection \<open>The root set\<close>

definition deque_wf :: "Deque \<Rightarrow> bool" where
  "deque_wf dq \<longleftrightarrow> 0 \<le> old dq \<and> old dq < maxSz dq \<and> 0 \<le> new dq \<and> new dq < maxSz dq
     \<and> length (elts dq) = nat (maxSz dq)"

text \<open>The occupied slots, oldest first, and the roots a deque contributes, newest first.\<close>

definition deque_slots :: "Deque \<Rightarrow> int list" where
  "deque_slots dq = map (\<lambda>k. (old dq + int k) mod maxSz dq) [0..<nat (DequeNumElts dq)]"

definition deque_root_locs :: "DequeState \<Rightarrow> Value_t \<Rightarrow> RootLoc list" where
  "deque_root_locs ds d = map (DequeElt d)
     (filter (\<lambda>j. elts (the_deque ds d) ! nat j \<noteq> M_NIL) (rev (deque_slots (the_deque ds d))))"

lemma DequeNumElts_bounds: "deque_wf dq \<Longrightarrow> 0 \<le> DequeNumElts dq \<and> DequeNumElts dq < maxSz dq"
  by (auto simp: deque_wf_def DequeNumElts_def)

lemma new_as_mod: "deque_wf dq \<Longrightarrow> new dq = (old dq + DequeNumElts dq) mod maxSz dq"
  by (auto simp: deque_wf_def DequeNumElts_def)

lemma MoveLeft_mod:
  assumes "0 < m"
  shows "MoveLeft ((a + 1) mod m) m = a mod (m :: int)"
proof (cases "(a + 1) mod m = 0")
  case True
  then have "a mod m = m - 1"
    using assms by (metis add_diff_cancel_right' diff_0 mod_diff_left_eq zmod_minus1)
  with True show ?thesis by (simp add: MoveLeft_def)
next
  case False
  have "0 \<le> (a + 1) mod m" using assms by simp
  with False have p: "0 < (a + 1) mod m" by linarith
  have "a mod m = ((a + 1) mod m - 1) mod m" by (simp add: mod_diff_left_eq)
  also have "\<dots> = (a + 1) mod m - 1"
    using p pos_mod_bound [OF assms, of "a + 1"] by (intro mod_pos_pos_trivial) auto
  finally show ?thesis using p by (simp add: MoveLeft_def)
qed

lemma deque_loop_slots:
  assumes "deque_wf dq"
  shows "int k < maxSz dq \<Longrightarrow> deque_loop dq d ((old dq + int k) mod maxSz dq) roots
    = Some (roots @ map (DequeElt d) (filter (\<lambda>j. elts dq ! nat j \<noteq> M_NIL)
        (rev (map (\<lambda>k. (old dq + int k) mod maxSz dq) [0..<k]))))"
proof (induction k arbitrary: roots)
  case 0
  have "old dq mod maxSz dq = old dq" using assms by (simp add: deque_wf_def)
  then show ?case by (subst deque_loop.simps) simp
next
  case (Suc k)
  let ?m = "maxSz dq" and ?i = "(old dq + int (Suc k)) mod maxSz dq"
  have m: "0 < ?m" "0 \<le> old dq" "old dq < ?m" using assms by (auto simp: deque_wf_def)
  have "?i \<noteq> old dq"
  proof
    assume "?i = old dq"
    then have "?i = old dq mod ?m" using m by simp
    then have "?m dvd int (Suc k)" by (simp add: mod_eq_dvd_iff)
    then have "?m \<le> int (Suc k)" by (rule zdvd_imp_le) simp
    then show False using Suc.prems by simp
  qed
  moreover have "MoveLeft ?i ?m = (old dq + int k) mod ?m"
    using MoveLeft_mod [OF m(1), of "old dq + int k"] by (simp add: ac_simps)
  ultimately show ?case
    using Suc.IH Suc.prems by (subst deque_loop.simps) (simp add: Let_def)
qed

lemma AddDequeElts_locs:
  assumes "deque_wf (the_deque ds d)"
  shows "AddDequeElts ds d roots = Some (roots @ deque_root_locs ds d)"
proof -
  let ?dq = "the_deque ds d"
  note b = DequeNumElts_bounds [OF assms]
  have "AddDequeElts ds d roots = deque_loop ?dq d ((old ?dq + int (nat (DequeNumElts ?dq))) mod maxSz ?dq) roots"
    unfolding AddDequeElts_def using new_as_mod [OF assms] b by simp
  also have "\<dots> = Some (roots @ deque_root_locs ds d)"
    unfolding deque_root_locs_def deque_slots_def by (rule deque_loop_slots [OF assms]) (use b in simp)
  finally show ?thesis .
qed

lemma length_deque_root_locs:
  assumes "deque_wf (the_deque ds d)"
  shows "int (length (deque_root_locs ds d)) \<le> DequeNumElts (the_deque ds d)"
proof -
  have "length (deque_root_locs ds d) \<le> length (rev (deque_slots (the_deque ds d)))"
    unfolding deque_root_locs_def length_map by (rule length_filter_le)
  then show ?thesis using DequeNumElts_bounds [OF assms] by (simp add: deque_slots_def le_nat_iff)
qed

text \<open>The lists of a vproc: real pointers, no deque in two places, every deque allocated and sound.\<close>

definition groups_wf :: "DequeState \<Rightarrow> int \<Rightarrow> bool" where
  "groups_wf ds self \<longleftrightarrow>
     distinct (concat (map group_deques (PerVProcLists ds self)))
     \<and> (\<forall>wg\<in>set (PerVProcLists ds self). M_NIL \<notin> set (resumeDeques wg) \<and> 0 \<notin> set (resumeDeques wg)
          \<and> (\<forall>d\<in>set (group_deques wg). dqStore ds d \<noteq> None \<and> deque_wf (the_deque ds d)))"

definition prunable :: "DequeState \<Rightarrow> Value_t \<Rightarrow> bool" where
  "prunable ds d \<longleftrightarrow> DequeNumElts (the_deque ds d) = 0 \<and> nClaimed (the_deque ds d) = 0"

lemma PruneDequeList_keeps:
  "distinct ds' \<Longrightarrow> PruneDequeList acc ds' ds =
     (rev (filter (\<lambda>d. \<not> prunable ds d) ds') @ acc,
      ds\<lparr>dqStore := (\<lambda>d. if d \<in> set ds' \<and> prunable ds d then None else dqStore ds d)\<rparr>)"
proof (induction ds' arbitrary: acc ds)
  case (Cons d rest)
  have same: "prunable (ds\<lparr>dqStore := (dqStore ds)(d := None)\<rparr>) e = prunable ds e" if "e \<in> set rest" for e
    using Cons.prems that by (auto simp: prunable_def the_deque_def)
  show ?case
  proof (cases "prunable ds d")
    case True
    then have "PruneDequeList acc (d # rest) ds = PruneDequeList acc rest (ds\<lparr>dqStore := (dqStore ds)(d := None)\<rparr>)"
      by (simp add: prunable_def)
    moreover have "filter (\<lambda>d'. \<not> prunable (ds\<lparr>dqStore := (dqStore ds)(d := None)\<rparr>) d') rest
        = filter (\<lambda>d'. \<not> prunable ds d') rest"
      by (rule filter_cong) (auto simp: same)
    moreover have "(\<lambda>da. if da \<in> set rest \<and> prunable (ds\<lparr>dqStore := (dqStore ds)(d := None)\<rparr>) da then None
        else dqStore (ds\<lparr>dqStore := (dqStore ds)(d := None)\<rparr>) da)
      = (\<lambda>da. if da \<in> set (d # rest) \<and> prunable ds da then None else dqStore ds da)"
      using True same by (auto simp: fun_eq_iff)
    ultimately show ?thesis using Cons True by simp
  next
    case False
    then have "PruneDequeList acc (d # rest) ds = PruneDequeList (d # acc) rest ds"
      by (auto simp: prunable_def)
    then show ?thesis using Cons False by (auto simp: fun_eq_iff)
  qed
qed simp

lemma prune_groups_keeps:
  "distinct (concat (map resumeDeques wgs)) \<Longrightarrow> prune_groups wgs ds =
     (map (\<lambda>wg. wg\<lparr>resumeDeques := rev (filter (\<lambda>d. \<not> prunable ds d) (resumeDeques wg))\<rparr>) wgs,
      ds\<lparr>dqStore := (\<lambda>d. if d \<in> set (concat (map resumeDeques wgs)) \<and> prunable ds d then None else dqStore ds d)\<rparr>)"
proof (induction wgs arbitrary: ds)
  case (Cons wg wgs)
  let ?ds1 = "ds\<lparr>dqStore := (\<lambda>d. if d \<in> set (resumeDeques wg) \<and> prunable ds d then None else dqStore ds d)\<rparr>"
  have 1: "PruneDequeList [] (resumeDeques wg) ds
      = (rev (filter (\<lambda>d. \<not> prunable ds d) (resumeDeques wg)), ?ds1)"
    using Cons.prems by (subst PruneDequeList_keeps) auto
  have same: "prunable ?ds1 e = prunable ds e" if "e \<in> set (concat (map resumeDeques wgs))" for e
    using Cons.prems that by (auto simp: prunable_def the_deque_def)
  have 2: "prune_groups wgs ?ds1 =
     (map (\<lambda>wg. wg\<lparr>resumeDeques := rev (filter (\<lambda>d. \<not> prunable ?ds1 d) (resumeDeques wg))\<rparr>) wgs,
      ?ds1\<lparr>dqStore := (\<lambda>d. if d \<in> set (concat (map resumeDeques wgs)) \<and> prunable ?ds1 d then None else dqStore ?ds1 d)\<rparr>)"
    using Cons.IH [of ?ds1] Cons.prems by simp
  have 3: "map (\<lambda>wg. wg\<lparr>resumeDeques := rev (filter (\<lambda>d. \<not> prunable ?ds1 d) (resumeDeques wg))\<rparr>) wgs
     = map (\<lambda>wg. wg\<lparr>resumeDeques := rev (filter (\<lambda>d. \<not> prunable ds d) (resumeDeques wg))\<rparr>) wgs"
  proof (rule map_cong [OF refl])
    fix w assume "w \<in> set wgs"
    then have "filter (\<lambda>d. \<not> prunable ?ds1 d) (resumeDeques w) = filter (\<lambda>d. \<not> prunable ds d) (resumeDeques w)"
      by (intro filter_cong refl arg_cong [where f = Not] same) auto
    then show "w\<lparr>resumeDeques := rev (filter (\<lambda>d. \<not> prunable ?ds1 d) (resumeDeques w))\<rparr>
        = w\<lparr>resumeDeques := rev (filter (\<lambda>d. \<not> prunable ds d) (resumeDeques w))\<rparr>" by simp
  qed
  have 4: "(\<lambda>d. if d \<in> set (concat (map resumeDeques wgs)) \<and> prunable ?ds1 d then None else dqStore ?ds1 d)
     = (\<lambda>d. if d \<in> set (concat (map resumeDeques (wg # wgs))) \<and> prunable ds d then None else dqStore ds d)"
    using same by (auto simp: fun_eq_iff)
  show ?case unfolding prune_groups.simps 1 Let_def prod.case 2 3 4 by simp
qed simp

lemma add_deques_locs:
  "(\<And>d. d \<in> set dl \<Longrightarrow> deque_wf (the_deque ds d)) \<Longrightarrow>
   add_deques ds dl roots = Some (roots @ concat (map (deque_root_locs ds) dl))"
  by (induction dl arbitrary: roots) (auto simp: AddDequeElts_locs)

lemma add_groups_locs:
  assumes "\<And>wg d. wg \<in> set wgs \<Longrightarrow> d \<in> set (group_deques wg) \<Longrightarrow> deque_wf (the_deque ds d)"
    and "\<And>wg. wg \<in> set wgs \<Longrightarrow> M_NIL \<notin> set (resumeDeques wg) \<and> 0 \<notin> set (resumeDeques wg)"
  shows "add_groups ds wgs roots = Some (roots @ concat (map (deque_root_locs ds) (concat (map group_deques wgs))))"
  using assms
proof (induction wgs arbitrary: roots)
  case (Cons wg wgs)
  have "filter (\<lambda>d. d \<noteq> M_NIL) (resumeDeques wg) = resumeDeques wg" "filter (\<lambda>d. d \<noteq> 0) (resumeDeques wg) = resumeDeques wg"
    by (intro filter_True ballI; use Cons.prems(2) [of wg] in auto)+
  then have g: "filter (\<lambda>d. d \<noteq> M_NIL) [primaryDeque wg, secondaryDeque wg] @ filter (\<lambda>d. d \<noteq> 0) (resumeDeques wg)
      = group_deques wg" by (auto simp: group_deques_def)
  have "add_deques ds (group_deques wg) roots = Some (roots @ concat (map (deque_root_locs ds) (group_deques wg)))"
    by (rule add_deques_locs) (use Cons.prems(1) in auto)
  moreover have "add_groups ds wgs r = Some (r @ concat (map (deque_root_locs ds) (concat (map group_deques wgs))))" for r
    by (rule Cons.IH) (use Cons.prems in auto)
  ultimately show ?case by (simp only: add_groups.simps g) simp
qed simp

lemma fold_count: "fold (\<lambda>d n. n + f d) xs (a :: int) = a + sum_list (map f xs)"
  by (induction xs arbitrary: a) auto

lemma fold_count2: "fold (\<lambda>wg n. fold (\<lambda>d n. n + f d) (g wg) n) wgs (a :: int) = a + sum_list (map f (concat (map g wgs)))"
  by (induction wgs arbitrary: a) (auto simp: fold_count)

abbreviation (input) listed :: "DequeState \<Rightarrow> int \<Rightarrow> Value_t list" where
  "listed ds self \<equiv> concat (map group_deques (PerVProcLists ds self))"

definition resume_pruned :: "DequeState \<Rightarrow> WorkGroup \<Rightarrow> WorkGroup" where
  "resume_pruned ds wg = wg\<lparr>resumeDeques := rev (filter (\<lambda>d. \<not> prunable ds d) (resumeDeques wg))\<rparr>"

lemma group_deques_no_nil: "M_NIL \<notin> set (resumeDeques wg) \<Longrightarrow>
   group_deques wg = filter (\<lambda>d. d \<noteq> M_NIL) [primaryDeque wg, secondaryDeque wg] @ resumeDeques wg"
proof -
  assume "M_NIL \<notin> set (resumeDeques wg)"
  then have "filter (\<lambda>d. d \<noteq> M_NIL) (resumeDeques wg) = resumeDeques wg" by (intro filter_True) auto
  then show ?thesis by (simp add: group_deques_def)
qed

lemma Prune_lists:
  assumes "groups_wf ds self"
  shows "PerVProcLists (Prune self ds) self = map (resume_pruned ds) (PerVProcLists ds self)"
    and "dqStore (Prune self ds) = (\<lambda>d. if d \<in> set (concat (map resumeDeques (PerVProcLists ds self)))
           \<and> prunable ds d then None else dqStore ds d)"
proof -
  let ?wgs = "PerVProcLists ds self"
  have sub: "map group_deques ?wgs
      = map (\<lambda>wg. filter (\<lambda>d. d \<noteq> M_NIL) [primaryDeque wg, secondaryDeque wg] @ resumeDeques wg) ?wgs"
    using assms by (intro map_cong refl group_deques_no_nil) (auto simp: groups_wf_def)
  have "distinct (concat (map resumeDeques ws))"
    if "distinct (concat (map (\<lambda>wg. filter (\<lambda>d. d \<noteq> M_NIL) [primaryDeque wg, secondaryDeque wg] @ resumeDeques wg) ws))" for ws
    using that by (induction ws) auto
  then have "distinct (concat (map resumeDeques ?wgs))"
    using assms unfolding groups_wf_def sub by blast
  note p = prune_groups_keeps [OF this, of ds]
  show "PerVProcLists (Prune self ds) self = map (resume_pruned ds) ?wgs"
    by (simp add: Prune_def p upd_list_def resume_pruned_def)
  show "dqStore (Prune self ds) = (\<lambda>d. if d \<in> set (concat (map resumeDeques ?wgs)) \<and> prunable ds d then None else dqStore ds d)"
    by (simp add: Prune_def p upd_list_def)
qed

lemma group_deques_pruned:
  assumes "M_NIL \<notin> set (resumeDeques wg)"
  shows "set (group_deques (resume_pruned ds wg)) = set (group_deques wg) - {d \<in> set (resumeDeques wg). prunable ds d}
    \<union> ({primaryDeque wg, secondaryDeque wg} - {M_NIL})"
  using assms by (auto simp: group_deques_def resume_pruned_def)

lemma Prune_listed:
  fixes ds :: DequeState and self :: int
  assumes "groups_wf ds self"
  shows "groups_wf (Prune self ds) self
    \<and> (\<forall>d \<in> set (listed (Prune self ds) self). the_deque (Prune self ds) d = the_deque ds d)
    \<and> set (listed (Prune self ds) self)
        = {d \<in> set (listed ds self). \<not> (prunable ds d \<and> d \<in> set (concat (map resumeDeques (PerVProcLists ds self))))}"
proof -
  let ?wgs = "PerVProcLists ds self" and ?ds = "Prune self ds"
  let ?res = "set (concat (map resumeDeques ?wgs))"
  have nil: "M_NIL \<notin> set (resumeDeques wg)" "0 \<notin> set (resumeDeques wg)" if "wg \<in> set ?wgs" for wg
    using assms that by (auto simp: groups_wf_def)
  have dist: "distinct (concat (map group_deques ?wgs))" using assms by (simp add: groups_wf_def)
  have g: "group_deques (resume_pruned ds wg) = filter (\<lambda>d. d \<noteq> M_NIL) [primaryDeque wg, secondaryDeque wg]
      @ rev (filter (\<lambda>d. \<not> prunable ds d) (resumeDeques wg))" if "wg \<in> set ?wgs" for wg
    using group_deques_no_nil [of "resume_pruned ds wg"] nil [OF that] by (simp add: resume_pruned_def)
  have g0: "group_deques wg = filter (\<lambda>d. d \<noteq> M_NIL) [primaryDeque wg, secondaryDeque wg] @ resumeDeques wg"
    if "wg \<in> set ?wgs" for wg
    by (rule group_deques_no_nil) (use nil [OF that] in auto)
  have ps: "d \<notin> ?res" if t1: "wg \<in> set ?wgs" and t2: "d \<in> set (filter (\<lambda>d. d \<noteq> M_NIL) [primaryDeque wg, secondaryDeque wg])" for wg d
  proof
    assume "d \<in> ?res"
    then obtain wg' where w: "wg' \<in> set ?wgs" "d \<in> set (resumeDeques wg')" by auto
    obtain xs ys where split: "?wgs = xs @ wg # ys" using split_list [OF t1] by blast
    from dist show False
    proof (cases "wg' = wg")
      case True
      then show False using dist t2 w(2) unfolding split by (simp add: g0 [OF t1]) (use w in auto)
    next
      case False
      then have "wg' \<in> set xs \<union> set ys" using w(1) split by auto
      moreover have "d \<in> set (group_deques wg)" "d \<in> set (group_deques wg')"
        using g0 [OF t1] g0 [OF w(1)] t2 w(2) by auto
      ultimately show False using dist unfolding split by auto
    qed
  qed
  have one: "d \<in> set (group_deques (resume_pruned ds wg))
      \<longleftrightarrow> d \<in> set (group_deques wg) \<and> \<not> (prunable ds d \<and> d \<in> ?res)" if w: "wg \<in> set ?wgs" for wg d
  proof (cases "d \<in> set (filter (\<lambda>d. d \<noteq> M_NIL) [primaryDeque wg, secondaryDeque wg])")
    case True
    with ps [OF w True] show ?thesis unfolding g [OF w] g0 [OF w] by auto
  next
    case False
    have "d \<in> set (resumeDeques wg) \<Longrightarrow> d \<in> ?res" using w by auto
    with False show ?thesis unfolding g [OF w] g0 [OF w] set_append by auto
  qed
  have setl: "set (listed ?ds self) = {d \<in> set (listed ds self). \<not> (prunable ds d \<and> d \<in> ?res)}"
  proof (rule set_eqI)
    fix d
    have "d \<in> set (listed ?ds self) \<longleftrightarrow> (\<exists>wg \<in> set ?wgs. d \<in> set (group_deques (resume_pruned ds wg)))"
      by (simp add: Prune_lists [OF assms])
    also have "\<dots> \<longleftrightarrow> (\<exists>wg \<in> set ?wgs. d \<in> set (group_deques wg)) \<and> \<not> (prunable ds d \<and> d \<in> ?res)"
      using one by blast
    finally show "d \<in> set (listed ?ds self) \<longleftrightarrow> d \<in> {d \<in> set (listed ds self). \<not> (prunable ds d \<and> d \<in> ?res)}"
      by simp
  qed
  have keep: "dqStore ?ds d = dqStore ds d" if "d \<in> set (listed ?ds self)" for d
    using that unfolding setl by (auto simp: Prune_lists(2) [OF assms])
  then have same: "the_deque ?ds d = the_deque ds d" if "d \<in> set (listed ?ds self)" for d
    using that by (simp add: the_deque_def)
  have dist': "distinct (concat (map group_deques (map (resume_pruned ds) ws)))"
    if "distinct (concat (map group_deques ws))" "set ws \<subseteq> set ?wgs" for ws
    using that
  proof (induction ws)
    case (Cons w ws)
    have sub: "set (group_deques (resume_pruned ds v)) \<subseteq> set (group_deques v)" if "v \<in> set (w # ws)" for v
      using one [of v] Cons.prems(2) that by auto
    have "distinct (group_deques (resume_pruned ds w))"
      using Cons.prems g0 [of w] g [of w] by auto
    moreover have "distinct (concat (map group_deques (map (resume_pruned ds) ws)))"
      using Cons by simp
    moreover have "set (group_deques (resume_pruned ds w)) \<inter> set (concat (map group_deques (map (resume_pruned ds) ws))) = {}"
    proof -
      have "set (concat (map group_deques (map (resume_pruned ds) ws))) \<subseteq> set (concat (map group_deques ws))"
        using sub by fastforce
      moreover have "set (group_deques w) \<inter> set (concat (map group_deques ws)) = {}" using Cons.prems(1) by simp
      ultimately show ?thesis using sub [of w] by auto
    qed
    ultimately show ?case by simp
  qed simp
  have "groups_wf ?ds self"
    unfolding groups_wf_def
  proof (intro conjI ballI)
    show "distinct (listed ?ds self)" using dist' [OF dist] by (simp add: Prune_lists [OF assms])
    fix wg assume wg: "wg \<in> set (PerVProcLists ?ds self)"
    then obtain wg0 where wg0: "wg0 \<in> set ?wgs" "wg = resume_pruned ds wg0" by (auto simp: Prune_lists [OF assms])
    then show "M_NIL \<notin> set (resumeDeques wg)" "0 \<notin> set (resumeDeques wg)"
      using nil [OF wg0(1)] by (auto simp: resume_pruned_def)
    fix d assume d: "d \<in> set (group_deques wg)"
    then have l: "d \<in> set (listed ?ds self)" using wg by auto
    then have "d \<in> set (listed ds self)" unfolding setl by simp
    then show "dqStore ?ds d \<noteq> None" "deque_wf (the_deque ?ds d)"
      using keep [OF l] same [OF l] assms by (auto simp: groups_wf_def)
  qed
  then show ?thesis using same setl by blast
qed

lemma deque_root_locs_empty: "DequeNumElts (the_deque ds d) = 0 \<Longrightarrow> deque_root_locs ds d = []"
  by (simp add: deque_root_locs_def deque_slots_def)

lemma deque_root_locs_same: "the_deque ds d = the_deque ds' d \<Longrightarrow> deque_root_locs ds d = deque_root_locs ds' d"
  by (simp add: deque_root_locs_def)

lemma UN_set_drop: "A \<subseteq> B \<Longrightarrow> (\<And>d. d \<in> B \<Longrightarrow> d \<notin> A \<Longrightarrow> f d = [])
   \<Longrightarrow> (\<Union>d\<in>A. set (f d)) = (\<Union>d\<in>B. set (f d))"
  by fastforce

lemma deque_roots_count:
  assumes "\<And>d. d \<in> set dl \<Longrightarrow> deque_wf (the_deque ds d)"
  shows "int (length (concat (map (deque_root_locs ds) dl))) \<le> sum_list (map (\<lambda>d. DequeNumElts (the_deque ds d)) dl)"
  using assms
proof (induction dl)
  case (Cons d dl)
  then show ?case using length_deque_root_locs [of ds d] by simp
qed simp

text \<open>Pruning loses no root: the deques it drops are empty.\<close>

lemma Prune_root_locs:
  assumes "groups_wf ds self"
  shows "set (concat (map (deque_root_locs (Prune self ds)) (listed (Prune self ds) self))) = (\<Union>d \<in> set (listed ds self). set (deque_root_locs ds d))"
proof -
  let ?ds = "Prune self ds"
  note safe = Prune_listed [OF assms]
  have "deque_root_locs ?ds d = deque_root_locs ds d" if "d \<in> set (listed ?ds self)" for d
    using safe that by (intro deque_root_locs_same) blast
  then have "(\<Union>d \<in> set (listed ?ds self). set (deque_root_locs ?ds d)) = (\<Union>d \<in> set (listed ?ds self). set (deque_root_locs ds d))"
    by simp
  moreover have "set (concat (map (deque_root_locs ?ds) (listed ?ds self))) = (\<Union>d \<in> set (listed ?ds self). set (deque_root_locs ?ds d))"
    unfolding set_concat [of "map _ _"] set_map image_image ..
  moreover have "(\<Union>d \<in> set (listed ?ds self). set (deque_root_locs ds d)) = (\<Union>d \<in> set (listed ds self). set (deque_root_locs ds d))"
  proof -
    have "deque_root_locs ds d = []" if "d \<in> set (listed ds self)" "d \<notin> set (listed ?ds self)" for d
      using that safe by (intro deque_root_locs_empty) (auto simp: prunable_def)
    moreover have "set (listed ?ds self) \<subseteq> set (listed ds self)" using safe by auto
    ultimately show ?thesis by (intro UN_set_drop) auto
  qed
  ultimately show ?thesis by simp
qed

text \<open>C33: The number of deque roots \<^verbatim>\<open>M_NumDequeRoots\<close> announces suffices for what
  \<^verbatim>\<open>M_AddDequeEltsToLocalRoots\<close> then adds to the root array (which is sized by it on the stack), the loops over
  the circular buffers end, and the roots added are exactly the occupied non-nil slots of the vproc's deques.\<close>

lemma M_NumDequeRoots_enough:
  fixes ds :: DequeState and self n :: int and roots :: "RootLoc list"
  assumes wf: "groups_wf ds self" and num: "M_NumDequeRoots self ds = (n, ds1)"
  shows "\<exists>rs. M_AddDequeEltsToLocalRoots self ds1 roots = Some (roots @ rs) \<and> int (length rs) \<le> n
    \<and> set rs = (\<Union>d \<in> set (listed ds self). set (deque_root_locs ds d))"
proof -
  let ?ds = "Prune self ds"
  have ds1: "ds1 = ?ds" and n: "n = sum_list (map (\<lambda>d. DequeNumElts (the_deque ?ds d)) (listed ?ds self))"
    using num fold_count2 [of "\<lambda>d. DequeNumElts (the_deque ?ds d)" group_deques "PerVProcLists ?ds self" 0]
    by (auto simp: M_NumDequeRoots_def Let_def)
  note safe = Prune_listed [OF wf]
  have wf1: "groups_wf ?ds self" using safe by blast
  have dwf: "deque_wf (the_deque ?ds d)" if "d \<in> set (listed ?ds self)" for d
    using wf1 that by (auto simp: groups_wf_def)
  let ?rs = "concat (map (deque_root_locs ?ds) (listed ?ds self))"
  have "M_AddDequeEltsToLocalRoots self ds1 roots = Some (roots @ ?rs)"
    unfolding ds1 M_AddDequeEltsToLocalRoots_def by (rule add_groups_locs) (use wf1 in \<open>auto simp: groups_wf_def\<close>)
  moreover have "int (length ?rs) \<le> n" unfolding n using dwf by (rule deque_roots_count)
  moreover have "set ?rs = (\<Union>d \<in> set (listed ds self). set (deque_root_locs ds d))" by (rule Prune_root_locs [OF wf])
  ultimately show ?thesis by blast
qed

definition ex_deques :: DequeState where
  "ex_deques = \<lparr>dqStore = (\<lambda>_. None)(0x4000 \<mapsto> \<lparr>old = 2, new = 1, maxSz = 3, nClaimed = 1, elts = [8, 1, 16]\<rparr>,
     0x5000 \<mapsto> \<lparr>old = 0, new = 0, maxSz = 2, nClaimed = 0, elts = [1, 1]\<rparr>), dqMem = (\<lambda>k a s. 0x6000), nDqAllocs = 2,
     PerVProcLists = (\<lambda>_. [\<lparr>workGroupId = 7, primaryDeque = 0x4000, secondaryDeque = M_NIL, resumeDeques = [0x5000]\<rparr>])\<rparr>"

lemma ex_deques_wf: "groups_wf ex_deques 0"
  by (simp add: groups_wf_def ex_deques_def group_deques_def M_NIL_def deque_wf_def the_deque_def)

lemma M_NumDequeRoots_enough_witness:
  "fst (M_NumDequeRoots 0 ex_deques) = 2 \<and>
   M_AddDequeEltsToLocalRoots 0 (snd (M_NumDequeRoots 0 ex_deques)) [] \<noteq> None"
proof -
  obtain n ds1 where e: "M_NumDequeRoots 0 ex_deques = (n, ds1)" by fastforce
  have "n = 2"
    using e by (simp add: M_NumDequeRoots_def Prune_def upd_list_def ex_deques_def group_deques_def M_NIL_def
      the_deque_def DequeNumElts_def Let_def split: prod.splits)
  with M_NumDequeRoots_enough [OF ex_deques_wf e, of "[]"] e show ?thesis by auto
qed

lemma unat_drop32: "unat (drop_bit n (w :: 32 word)) = unat w div 2 ^ n"
proof -
  have "unat (drop_bit n w) = drop_bit n (take_bit LENGTH(32) (unat w))"
    by (rule unsigned_drop_bit_eq)
  also have "take_bit LENGTH(32) (unat w) = unat w"
    by (rule take_bit_nat_eq_self) (rule unsigned_less)
  finally show ?thesis by (simp only: drop_bit_eq_div)
qed

text \<open>One step of the binary search: the invariant is that \<open>n\<close> is \<open>n0\<close> shifted by the position found so far.\<close>

definition lg_inv :: "nat \<Rightarrow> nat \<Rightarrow> nat \<Rightarrow> nat \<Rightarrow> bool" where
  "lg_inv n0 n p k \<longleftrightarrow> 0 < n \<and> n < 2 ^ k \<and> n * 2 ^ p \<le> n0 \<and> n0 < (n + 1) * 2 ^ p"

lemma lg_inv_step:
  assumes "lg_inv n0 n p (2 * k)"
  shows "2 ^ k \<le> n \<Longrightarrow> lg_inv n0 (n div 2 ^ k) (p + k) k" and "\<not> 2 ^ k \<le> n \<Longrightarrow> lg_inv n0 n p k"
proof -
  assume ge: "2 ^ k \<le> n"
  have "n < 2 ^ k * 2 ^ k" using assms by (simp add: lg_inv_def mult_2 power_add)
  then have "n div 2 ^ k < 2 ^ k" by (simp add: less_mult_imp_div_less)
  moreover have "0 < n div 2 ^ k" using ge by (simp add: div_greater_zero_iff)
  moreover have "n div 2 ^ k * 2 ^ k * 2 ^ p \<le> n0"
  proof -
    have "n div 2 ^ k * 2 ^ k * 2 ^ p \<le> n * 2 ^ p" by (intro mult_le_mono1 div_times_less_eq_dividend)
    then show ?thesis using assms unfolding lg_inv_def by linarith
  qed
  moreover have "n0 < (n div 2 ^ k + 1) * 2 ^ k * 2 ^ p"
  proof -
    have "n < (n div 2 ^ k + 1) * 2 ^ k" by (metis Suc_eq_plus1 dividend_less_div_times add.commute mult.commute mult_Suc zero_less_power zero_less_numeral add_mult_distrib nat_mult_1)
    then have "(n + 1) * 2 ^ p \<le> (n div 2 ^ k + 1) * 2 ^ k * 2 ^ p" by (intro mult_le_mono1) simp
    then show ?thesis using assms by (simp add: lg_inv_def)
  qed
  ultimately show "lg_inv n0 (n div 2 ^ k) (p + k) k"
    unfolding lg_inv_def power_add by (simp add: algebra_simps)
qed (use assms in \<open>simp add: lg_inv_def\<close>)

definition lg_step :: "nat \<Rightarrow> 32 word \<Rightarrow> 32 word \<times> 32 word \<Rightarrow> 32 word \<times> 32 word" where
  "lg_step k kw = (\<lambda>(n, p). if n \<ge> 2 ^ k then (drop_bit k n, p + kw) else (n, p))"

lemma lg_step_inv:
  assumes "lg_inv n0 (unat n) (unat p) (2 * k)" "k \<le> 16" "unat p + k < 2 ^ 32"
  shows "lg_inv n0 (unat (fst (lg_step k (word_of_nat k) (n, p)))) (unat (snd (lg_step k (word_of_nat k) (n, p)))) k \<and> unat (snd (lg_step k (word_of_nat k) (n, p))) \<le> unat p + k"
proof -
  have u: "unat (2 ^ k :: 32 word) = 2 ^ k"
  proof -
    have "(2::nat) ^ k \<le> 2 ^ 16" using assms(2) by (intro power_increasing) auto
    then show ?thesis using unat_of_nat [where 'a = 32, of "2 ^ k"] by simp
  qed
  have p: "unat (p + word_of_nat k) = unat p + k"
    using assms(2,3) by (simp add: unat_word_ariths unat_of_nat)
  show ?thesis
    using lg_inv_step [OF assms(1)] by (auto simp: lg_step_def word_le_nat_alt u p unat_drop32)
qed
lemma FloorLg_step: "FloorLg n = (let (n4, p4) = lg_step 2 2 (lg_step 4 4 (lg_step 8 8 (lg_step 16 16 (n, 0))))
    in if n4 = 0 then - 1 else if n4 \<ge> 2 ^ 1 then p4 + 1 else p4)"
  by (simp only: FloorLg_def lg_step_def Let_def split_def fst_conv snd_conv add_0)

lemma FloorLg_bounds:
  assumes "n \<noteq> 0"
  shows "2 ^ unat (FloorLg n) \<le> unat n \<and> unat n < 2 ^ (unat (FloorLg n) + 1) \<and> unat (FloorLg n) < 32"
proof -
  let ?N = "unat n"
  obtain n1 p1 where 1: "lg_step 16 16 (n, 0) = (n1, p1)" by fastforce
  obtain n2 p2 where 2: "lg_step 8 8 (n1, p1) = (n2, p2)" by fastforce
  obtain n3 p3 where 3: "lg_step 4 4 (n2, p2) = (n3, p3)" by fastforce
  obtain n4 p4 where 4: "lg_step 2 2 (n3, p3) = (n4, p4)" by fastforce
  have "lg_inv ?N (unat n) (unat (0 :: 32 word)) (2 * 16)"
    using assms unsigned_less [of n] by (simp add: lg_inv_def unat_gt_0)
  from lg_step_inv [OF this] have i1: "lg_inv ?N (unat n1) (unat p1) (2 * 8)" "unat p1 \<le> 16" by (simp_all add: 1)
  from lg_step_inv [OF i1(1)] i1(2) have i2: "lg_inv ?N (unat n2) (unat p2) (2 * 4)" "unat p2 \<le> 24" by (simp_all add: 2)
  from lg_step_inv [OF i2(1)] i2(2) have i3: "lg_inv ?N (unat n3) (unat p3) (2 * 2)" "unat p3 \<le> 28" by (simp_all add: 3)
  from lg_step_inv [OF i3(1)] i3(2) have i4: "lg_inv ?N (unat n4) (unat p4) 2" "unat p4 \<le> 30" by (simp_all add: 4)
  have nz: "n4 \<noteq> 0" using i4(1) by (auto simp: lg_inv_def)
  have p: "unat (p4 + 1) = unat p4 + 1" using i4(2) by (simp add: unat_word_ariths)
  have f: "FloorLg n = (if n4 \<ge> 2 then p4 + 1 else p4)"
    using nz by (simp add: FloorLg_step 1 2 3 4)
  show ?thesis
  proof (cases "n4 \<ge> 2")
    case True
    then have "2 \<le> unat n4" "unat n4 < 4" using i4(1) by (auto simp: word_le_nat_alt lg_inv_def)
    then consider "unat n4 = 2" | "unat n4 = 3" by linarith
    moreover have "unat (FloorLg n) = unat p4 + 1" using True f p by simp
    moreover have "unat n4 * 2 ^ unat p4 \<le> ?N" "?N < (unat n4 + 1) * 2 ^ unat p4"
      using i4(1) by (auto simp: lg_inv_def)
    ultimately show ?thesis using i4(2) by cases simp_all
  next
    case False
    then have "unat n4 = 1" using i4(1) by (auto simp: word_le_nat_alt lg_inv_def)
    with i4 False f show ?thesis by (auto simp: lg_inv_def)
  qed
qed

text \<open>\<^verbatim>\<open>CeilingLg\<close> is the least exponent whose power of two is at least its argument (the alignment of a deque).\<close>

lemma CeilingLg_least:
  fixes v :: "32 word"
  assumes "v \<noteq> 0"
  shows "unat v \<le> 2 ^ unat (CeilingLg v) \<and> (\<forall>k. unat v \<le> 2 ^ k \<longrightarrow> unat (CeilingLg v) \<le> k)"
proof -
  let ?lg = "FloorLg v"
  note b = FloorLg_bounds [OF assms]
  have "(2::nat) ^ unat ?lg < 2 ^ 32" using b by (intro power_strict_increasing) auto
  then have u: "unat (push_bit (unat ?lg) 1 :: 32 word) = 2 ^ unat ?lg"
    using unat_of_nat [where 'a = 32, of "2 ^ unat ?lg"] by (simp add: push_bit_eq_mult)
  have p: "unat (?lg + 1) = unat ?lg + 1" using b by (simp add: unat_word_ariths)
  have z: "v - push_bit (unat ?lg) 1 > 0 \<longleftrightarrow> unat v \<noteq> 2 ^ unat ?lg"
    using u by (metis right_minus_eq word_greater_zero_iff word_unat_eq_iff)
  have "unat ?lg \<le> k" if "unat v \<le> 2 ^ k" for k
    using b that by (metis le_trans power_le_imp_le_exp one_less_numeral_iff semiring_norm(76))
  moreover have "unat ?lg + 1 \<le> k" if "unat v \<le> 2 ^ k" "unat v \<noteq> 2 ^ unat ?lg" for k
  proof -
    have "2 ^ unat ?lg < (2::nat) ^ k" using b that by linarith
    then have "unat ?lg < k" by (simp add: power_strict_increasing_iff)
    then show ?thesis by simp
  qed
  ultimately show ?thesis using b z p by (auto simp: CeilingLg_def Let_def)
qed

lemma CeilingLg_least_witness: "(100 :: nat) \<le> 2 ^ unat (CeilingLg 100) \<and> unat (CeilingLg 100) \<le> 7"
  using CeilingLg_least [of 100] by simp

text \<open>Pruning frees exactly the resume deques that are empty and unclaimed: the lists stay well formed (every deque
  still listed is allocated, none appears twice), the listed deques are unchanged and only pruned ones are gone.\<close>

lemma Prune_safe:
  fixes ds :: DequeState and self :: int
  assumes "groups_wf ds self"
  shows "groups_wf (Prune self ds) self
    \<and> (\<forall>d \<in> set (listed (Prune self ds) self). the_deque (Prune self ds) d = the_deque ds d)
    \<and> set (listed (Prune self ds) self)
        = {d \<in> set (listed ds self). \<not> (prunable ds d \<and> d \<in> set (concat (map resumeDeques (PerVProcLists ds self))))}"
  by (rule Prune_listed [OF assms])

lemma Prune_safe_witness:
  "groups_wf (Prune 0 ex_deques) 0 \<and> 0x5000 \<notin> set (listed (Prune 0 ex_deques) 0)"
  using Prune_safe [OF ex_deques_wf]
  by (auto simp: ex_deques_def prunable_def the_deque_def DequeNumElts_def)

end
