(* ===== verification/Object_Scan.thy ===== *)
theory Object_Scan
  imports Heap_Chunks
begin

text \<open>
  What the three collectors have in common: copying the words of an object, and the loop that
  walks over a region of objects and visits the fields of each by its header (vector, raw, or mixed with
  a table entry). In the code this loop is written out five times (minor collection; young objects and
  to-space of a major collection; local heap and to-space of a global collection), with a different
  treatment of the single field; here it is written once, the treatment is an argument.
  The locale \<open>object_scan\<close> is the contract between a collector's treatment of a field and the loop: a
  frontier invariant that visiting a traced word, and passing any other word, moves on by one word.
\<close>

subsection \<open>Copying\<close>

primrec copy_words :: "nat \<Rightarrow> Addr_t \<Rightarrow> Addr_t \<Rightarrow> mem \<Rightarrow> mem" where
  "copy_words 0 dst src m = m"
| "copy_words (Suc n) dst src m = copy_words n (dst + WORD_SZB) (src + WORD_SZB) (m(dst := m src))"

lemma copy_words_other:
  "d + n < 2 ^ 61 \<Longrightarrow> x < 2 ^ 61 \<Longrightarrow> x < d \<or> d + n \<le> x \<Longrightarrow> copy_words n (wadr d) src m (wadr x) = m (wadr x)"
proof (induction n arbitrary: d src m)
  case (Suc n)
  have "copy_words n (wadr (Suc d)) (src + 8) (m(wadr d := m src)) (wadr x) = (m(wadr d := m src)) (wadr x)"
    by (rule Suc.IH) (use Suc.prems in auto)
  then show ?case using Suc.prems by (auto simp: wadr_Suc)
qed simp

lemma copy_words_copied:
  "d + n < 2 ^ 61 \<Longrightarrow> s + n < 2 ^ 61 \<Longrightarrow> d + n \<le> s \<or> s + n \<le> d \<Longrightarrow> i < n
   \<Longrightarrow> copy_words n (wadr d) (wadr s) m (wadr (d + i)) = m (wadr (s + i))"
proof (induction n arbitrary: d s m i)
  case (Suc n)
  let ?m = "m(wadr d := m (wadr s))"
  show ?case
  proof (cases i)
    case 0
    have "copy_words n (wadr (Suc d)) (wadr (Suc s)) ?m (wadr d) = ?m (wadr d)"
      by (rule copy_words_other) (use Suc.prems in auto)
    with 0 show ?thesis by (simp add: wadr_Suc)
  next
    case (Suc j)
    have "copy_words n (wadr (Suc d)) (wadr (Suc s)) ?m (wadr (Suc d + j)) = ?m (wadr (Suc s + j))"
      by (rule Suc.IH) (use Suc.prems Suc in auto)
    moreover have "Suc s + j \<noteq> d" using Suc.prems Suc by auto
    ultimately show ?thesis using Suc Suc.prems by (simp add: wadr_Suc)
  qed
qed simp

subsection \<open>The walk over the objects of a region\<close>

primrec scan_fields :: "(Addr_t \<Rightarrow> 'st \<Rightarrow> 'st) \<Rightarrow> nat \<Rightarrow> Addr_t \<Rightarrow> 'st \<Rightarrow> 'st" where
  "scan_fields slot 0 p st = st"
| "scan_fields slot (Suc n) p st = scan_fields slot n (p + WORD_SZB) (slot p st)"

text \<open>What the generator emits for a mixed object with pointers at the positions \<open>ps\<close>.\<close>

definition scan_positions :: "(Addr_t \<Rightarrow> 'st \<Rightarrow> 'st) \<Rightarrow> nat list \<Rightarrow> Addr_t \<Rightarrow> 'st \<Rightarrow> 'st" where
  "scan_positions slot ps p st = fold (\<lambda>pos. slot (p + WORD_SZB * word_of_nat pos)) ps st"

type_synonym 'st scan_table = "int \<Rightarrow> Addr_t \<Rightarrow> 'st \<Rightarrow> Addr_t \<times> 'st"

definition scan_object :: "('st \<Rightarrow> Addr_t \<Rightarrow> Word_t) \<Rightarrow> (Addr_t \<Rightarrow> 'st \<Rightarrow> 'st) \<Rightarrow> 'st scan_table
    \<Rightarrow> Addr_t \<Rightarrow> 'st \<Rightarrow> Addr_t \<times> 'st" where
  "scan_object rd slot table scan st =
     (let hdr = rd st scan; p = scan + WORD_SZB; len = GetLength hdr
      in if isVectorHdr hdr then (p + WORD_SZB * word_of_nat (nat len), scan_fields slot (nat len) p st)
         else if isRawHdr hdr then (p + WORD_SZB * word_of_int len, st)
         else table (getID hdr) p st)"

partial_function (option) scan_while :: "('st \<Rightarrow> Addr_t) \<Rightarrow> (Addr_t \<Rightarrow> 'st \<Rightarrow> Addr_t \<times> 'st) \<Rightarrow> Addr_t \<Rightarrow> 'st
    \<Rightarrow> (Addr_t \<times> 'st) option" where
  "scan_while hi step scan st =
     (if scan < hi st then (case step scan st of (scan', st') \<Rightarrow> scan_while hi step scan' st')
      else Some (scan, st))"

subsection \<open>The contract of a field visit\<close>

locale object_scan =
  fixes slot :: "bool \<Rightarrow> Addr_t \<Rightarrow> 'st \<Rightarrow> 'st"
    and Inv :: "nat \<Rightarrow> 'st \<Rightarrow> bool"
    and traced :: "bool \<Rightarrow> nat \<Rightarrow> bool"
  assumes visit: "Inv x st \<Longrightarrow> traced t x \<Longrightarrow> Inv (Suc x) (slot t (wadr x) st)"
    and pass: "Inv x st \<Longrightarrow> \<not> traced True x \<Longrightarrow> \<not> traced False x \<Longrightarrow> Inv (Suc x) st"
begin

lemma pass_many:
  "Inv x st \<Longrightarrow> (\<And>i t. i < n \<Longrightarrow> \<not> traced t (x + i)) \<Longrightarrow> Inv (x + n) st"
proof (induction n)
  case (Suc n)
  then have "Inv (x + n) st" by simp
  then show ?case using Suc.prems(2) [of n] pass [of "x + n"] by simp
qed simp

lemma fields:
  "Inv x st \<Longrightarrow> (\<And>i. i < n \<Longrightarrow> traced True (x + i)) \<Longrightarrow> Inv (x + n) (scan_fields (slot True) n (wadr x) st)"
proof (induction n arbitrary: x st)
  case (Suc n)
  have "Inv (Suc x) (slot True (wadr x) st)" using Suc.prems(2) [of 0] by (intro visit Suc.prems) simp
  then have "Inv (Suc x + n) (scan_fields (slot True) n (wadr (Suc x)) (slot True (wadr x) st))"
    by (rule Suc.IH) (use Suc.prems(2) [of "Suc i" for i] in simp)
  then show ?case by (simp add: wadr_Suc)
qed simp

lemma positions_from:
  "Inv (x + k) st \<Longrightarrow> k \<le> n \<Longrightarrow> sorted_wrt (<) ps \<Longrightarrow> (\<And>p. p \<in> set ps \<Longrightarrow> k \<le> p \<and> p < n)
   \<Longrightarrow> (\<And>p. k \<le> p \<Longrightarrow> p < n \<Longrightarrow> traced False (x + p) \<longleftrightarrow> p \<in> set ps)
   \<Longrightarrow> (\<And>p. k \<le> p \<Longrightarrow> p < n \<Longrightarrow> \<not> traced True (x + p))
   \<Longrightarrow> Inv (x + n) (scan_positions (slot False) ps (wadr x) st)"
proof (induction ps arbitrary: k st)
  case Nil
  have "Inv (x + k + (n - k)) st"
  proof (rule pass_many [OF Nil.prems(1)])
    fix i t assume "i < n - k"
    then show "\<not> traced t (x + k + i)"
      using Nil.prems(5,6) [of "k + i"] by (cases t) (auto simp: add.assoc)
  qed
  then show ?case using Nil.prems(2) by (simp add: scan_positions_def)
next
  case (Cons p ps)
  have p: "k \<le> p" "p < n" using Cons.prems(4) by auto
  have "Inv (x + k + (p - k)) st"
  proof (rule pass_many [OF Cons.prems(1)])
    fix i t assume i: "i < p - k"
    then have "k + i \<notin> set (p # ps)" using Cons.prems(3) by auto
    then show "\<not> traced t (x + k + i)"
      using Cons.prems(5,6) [of "k + i"] i p by (cases t) (auto simp: add.assoc)
  qed
  moreover have "traced False (x + p)" using Cons.prems(5) p by simp
  ultimately have "Inv (Suc (x + p)) (slot False (wadr (x + p)) st)"
    using visit [of "x + p" st False] p by simp
  then have "Inv (x + Suc p) (slot False (wadr (x + p)) st)" by simp
  then have "Inv (x + n) (scan_positions (slot False) ps (wadr x) (slot False (wadr (x + p)) st))"
  proof (rule Cons.IH)
    show "sorted_wrt (<) ps" "Suc p \<le> n" using Cons.prems(3) p by auto
    show "\<And>q. q \<in> set ps \<Longrightarrow> Suc p \<le> q \<and> q < n" using Cons.prems(3,4) by (auto simp: Suc_le_eq)
    show "\<And>q. Suc p \<le> q \<Longrightarrow> q < n \<Longrightarrow> traced False (x + q) \<longleftrightarrow> q \<in> set ps" using Cons.prems(5) p by auto
    show "\<And>q. Suc p \<le> q \<Longrightarrow> q < n \<Longrightarrow> \<not> traced True (x + q)" using Cons.prems(6) p by auto
  qed
  then show ?case using wadr_add [of x p] by (simp add: scan_positions_def)
qed

text \<open>One object, by its header: afterwards the frontier is behind it.\<close>

lemma one_object:
  assumes inv: "Inv x st" and hdr: "rd st (wadr x) = hdr" and len: "GetLength hdr = int len"
    and own: "\<And>t. \<not> traced t x"
    and vec: "\<And>i. isVectorHdr hdr \<Longrightarrow> i < len \<Longrightarrow> traced True (x + 1 + i)"
    and raw: "\<And>i t. isRawHdr hdr \<Longrightarrow> i < len \<Longrightarrow> \<not> traced t (x + 1 + i)"
    and tab: "\<not> isVectorHdr hdr \<Longrightarrow> \<not> isRawHdr hdr \<Longrightarrow> \<exists>ps. sorted_wrt (<) ps
        \<and> (\<forall>p\<in>set ps. p < len) \<and> (\<forall>i<len. (traced False (x + 1 + i) \<longleftrightarrow> i \<in> set ps) \<and> \<not> traced True (x + 1 + i))
        \<and> table (getID hdr) = (\<lambda>p st. (p + WORD_SZB * word_of_nat len, scan_positions (slot False) ps p st))"
  shows "\<exists>st'. scan_object rd (slot True) table (wadr x) st = (wadr (x + 1 + len), st') \<and> Inv (x + 1 + len) st'"
proof -
  have i1: "Inv (x + 1) st" using pass [OF inv] own by simp
  have a: "wadr (Suc x) + WORD_SZB * word_of_nat len = wadr (x + 1 + len)"
    using wadr_add [of "Suc x" len] by simp
  consider "isVectorHdr hdr" | "\<not> isVectorHdr hdr" "isRawHdr hdr" | "\<not> isVectorHdr hdr" "\<not> isRawHdr hdr" by blast
  then show ?thesis
  proof cases
    case 1
    then have "Inv (x + 1 + len) (scan_fields (slot True) len (wadr (x + 1)) st)"
      by (intro fields i1 vec)
    then show ?thesis using 1 hdr len a by (simp add: scan_object_def wadr_Suc)
  next
    case 2
    then have "Inv (x + 1 + len) st" by (intro pass_many [OF i1] raw)
    then show ?thesis using 2 hdr len a by (simp add: scan_object_def wadr_Suc)
  next
    case 3
    then obtain ps where ps: "sorted_wrt (<) ps" "\<forall>p\<in>set ps. p < len"
      "\<forall>i<len. (traced False (x + 1 + i) \<longleftrightarrow> i \<in> set ps) \<and> \<not> traced True (x + 1 + i)"
      "table (getID hdr) = (\<lambda>p st. (p + WORD_SZB * word_of_nat len, scan_positions (slot False) ps p st))"
      using tab by blast
    have "Inv (x + 1 + len) (scan_positions (slot False) ps (wadr (x + 1)) st)"
      by (rule positions_from [where k = 0]) (use i1 ps in auto)
    then show ?thesis using 3 hdr a ps(4) by (simp add: scan_object_def wadr_Suc Let_def)
  qed
qed

end

end
