(* ===== verification/Minor_GC.thy ===== *)
theory Minor_GC
  imports Deque_Roots Object_Scan
begin

text \<open>
  The minor collector, \<^verbatim>\<open>gc/minor-gc.c\<close>: the live objects of a vproc's nursery are copied behind
  its old region (Cheney scan). The scan functions of mixed objects (\<^verbatim>\<open>table[id].minorGCscanfunction\<close>)
  are generated when a program is compiled and are a parameter; \<open>gen_minor_scan\<close> is what the generator
  emits for an object of a given size with pointers at given positions. The major collection that
  may follow is a parameter here (it is defined in the next theory, which uses the roots of this one).
  Timers and logging are left out, the byte counters are kept.
\<close>

subsection \<open>The state of a collection\<close>

record Rts =
  rt_vp :: VProc
  rt_heap :: Heap
  rt_dqs :: DequeState

primrec read_root :: "Rts \<Rightarrow> RootLoc \<Rightarrow> Value_t" where
  "read_root rt (VPReg r) = regs (rt_vp rt) r"
| "read_root rt (DequeElt d j) = elts (the_deque (rt_dqs rt) d) ! nat j"

primrec write_root :: "RootLoc \<Rightarrow> Value_t \<Rightarrow> Rts \<Rightarrow> Rts" where
  "write_root (VPReg r) v rt = rt\<lparr>rt_vp := (rt_vp rt)\<lparr>regs := (regs (rt_vp rt))(r := v)\<rparr>\<rparr>"
| "write_root (DequeElt d j) v rt = rt\<lparr>rt_dqs := (rt_dqs rt)\<lparr>dqStore := (dqStore (rt_dqs rt))(d \<mapsto>
     (the_deque (rt_dqs rt) d)\<lparr>elts := (elts (the_deque (rt_dqs rt) d))[nat j := v]\<rparr>)\<rparr>\<rparr>"

definition upd_mem :: "mem \<Rightarrow> Rts \<Rightarrow> Rts" where
  "upd_mem m rt = rt\<lparr>rt_heap := (rt_heap rt)\<lparr>mem := m\<rparr>\<rparr>"

text \<open>The vproc fields that are roots, in the order \<^verbatim>\<open>MinorGC\<close> collects them.\<close>

definition local_root_regs :: "vpReg list" where
  "local_root_regs = [CurrentFLS, ActionStk, SchedCont, DummyK, WakeupCont, ShutdownCont,
     RdyQHd, RdyQTl, SndQHd, SndQTl, LandingPad, StdEnvPtr]"

subsection \<open>Copying one object\<close>

definition ForwardObjMinor :: "Value_t \<Rightarrow> mem \<times> Addr_t \<Rightarrow> Value_t \<times> mem \<times> Addr_t" where
  "ForwardObjMinor v st = (case st of (m, nextW) \<Rightarrow>
     let p = v; hdr = m (p - WORD_SZB)
     in if isForwardPtr hdr then (GetForwardPtr hdr, m, nextW)
        else let len = GetLength hdr; newObj = nextW;
                 m1 = m(newObj - WORD_SZB := hdr);
                 m2 = copy_words (nat len) newObj p m1;
                 nextW' = newObj + WORD_SZB * word_of_int (len + 1)
             in (newObj, m2(p - WORD_SZB := MakeForwardPtr hdr newObj), nextW'))"

subsection \<open>Scanning\<close>

definition minor_slot :: "Addr_t \<Rightarrow> Addr_t \<Rightarrow> bool \<Rightarrow> Addr_t \<Rightarrow> mem \<times> Addr_t \<Rightarrow> mem \<times> Addr_t" where
  "minor_slot base asz test scanP st =
     (let v = fst st scanP
      in if (test \<longrightarrow> isPtr v) \<and> inAddrRange base asz v
         then let (v', m', nextW') = ForwardObjMinor v st in (m'(scanP := v'), nextW')
         else st)"

type_synonym minor_table = "Addr_t \<Rightarrow> Addr_t \<Rightarrow> (mem \<times> Addr_t) scan_table"

text \<open>The generated scan function: it tests the range only.\<close>

definition gen_minor_scan :: "nat list \<Rightarrow> nat \<Rightarrow> Addr_t \<Rightarrow> Addr_t \<Rightarrow> Addr_t \<Rightarrow> mem \<times> Addr_t \<Rightarrow> Addr_t \<times> mem \<times> Addr_t" where
  "gen_minor_scan ps len base asz =
     (\<lambda>p st. (p + WORD_SZB * word_of_nat len, scan_positions (minor_slot base asz False) ps p st))"

definition minor_scan :: "minor_table \<Rightarrow> Addr_t \<Rightarrow> Addr_t \<Rightarrow> Addr_t \<Rightarrow> mem \<times> Addr_t
    \<Rightarrow> (Addr_t \<times> mem \<times> Addr_t) option" where
  "minor_scan table base asz =
     scan_while (\<lambda>st. snd st - WORD_SZB) (scan_object fst (minor_slot base asz True) (table base asz))"

subsection \<open>The collection\<close>

definition minor_root :: "Addr_t \<Rightarrow> Addr_t \<Rightarrow> RootLoc \<Rightarrow> Rts \<times> Addr_t \<Rightarrow> Rts \<times> Addr_t" where
  "minor_root base asz loc st = (case st of (rt, nextW) \<Rightarrow>
     let p = read_root rt loc
     in if isPtr p \<and> inAddrRange base asz p
        then let (v', m', nextW') = ForwardObjMinor p (mem (rt_heap rt), nextW)
             in (write_root loc v' (upd_mem m' rt), nextW')
        else (rt, nextW))"

definition minor_stats :: "Addr_t \<Rightarrow> VProc \<Rightarrow> VProc" where
  "minor_stats nextScan vp =
     (let alloc = nBytesAlloc (minorStats vp) + (allocPtr vp - nurseryBase vp - WORD_SZB)
      in vp\<lparr>nMinorGCs := nMinorGCs vp + 1,
            minorStats := \<lparr>nBytesAlloc = alloc, nBytesCollected = alloc,
              nBytesCopied = nBytesCopied (minorStats vp) + (nextScan - oldTop vp)\<rparr>,
            majorStats := (majorStats vp)\<lparr>nBytesAlloc := nBytesAlloc (majorStats vp) + (nextScan - oldTop vp)\<rparr>\<rparr>)"

definition minor_roots :: "Rts \<Rightarrow> (RootLoc list \<times> Rts) option" where
  "minor_roots rt =
     (let (nWorkStealingRoots, ds) = M_NumDequeRoots (vpid (rt_vp rt)) (rt_dqs rt)
      in map_option (\<lambda>roots. (roots, rt\<lparr>rt_dqs := ds\<rparr>))
           (M_AddDequeEltsToLocalRoots (vpid (rt_vp rt)) ds (map VPReg local_root_regs)))"

definition minor_copy :: "minor_table \<Rightarrow> RootLoc list \<Rightarrow> Rts \<Rightarrow> (Addr_t \<times> Rts) option" where
  "minor_copy table roots rt =
     (let vp = rt_vp rt; base = nurseryBase vp; asz = allocPtr vp - base - WORD_SZB;
          nextScan = oldTop vp; nextW = nextScan + WORD_SZB;
          (rt1, nextW1) = fold (minor_root base asz) roots (rt, nextW)
      in map_option (\<lambda>(nextScan', m, nextW'). (nextScan', upd_mem m rt1))
           (minor_scan table base asz nextScan (mem (rt_heap rt1), nextW1)))"

definition MinorGC :: "(RootLoc list \<Rightarrow> Addr_t \<Rightarrow> Rts \<Rightarrow> Rts option) \<Rightarrow> minor_table \<Rightarrow> Rts \<Rightarrow> Rts option" where
  "MinorGC majorGC table rt0 = do {
     (roots, rt1) \<leftarrow> minor_roots rt0;
     (nextScan, rt2) \<leftarrow> minor_copy table roots rt1;
     let avail = VP_HEAP_SZB - (nextScan - heapBase (rt_vp rt2));
     let rt3 = rt2\<lparr>rt_vp := minor_stats nextScan (rt_vp rt2)\<rparr>;
     rt4 \<leftarrow> (if avail < MajorGCThreshold (rt_heap rt3) \<or> globalGCPending (rt_vp rt3)
             then majorGC roots nextScan rt3
             else Some (rt3\<lparr>rt_vp := (rt_vp rt3)\<lparr>oldTop := nextScan\<rparr>\<rparr>));
     Some (rt4\<lparr>rt_vp := SetAllocPtr (MaxNurserySzB (rt_heap rt4)) (rt_vp rt4)\<rparr>) }"

end
