(* ===== verification/Minor_Correct.thy ===== *)
theory Minor_Correct
  imports Minor_GC
begin

text \<open>
  Correctness of the minor collector: the setting and invariant of a collection in word indices, the
  lemma for one forwarded object, the interpretation of the scanning interface, the root and scan loops,
  and the result of a whole collection: exactly the live objects are copied, with their shape.
\<close>

subsection \<open>The setting\<close>

text \<open>
  The setting of a collection, in word indices: the initial memory, the nursery
  \<open>[c_nb, c_nb + c_sz)\<close>, the top of the old region, a set of nursery objects that is closed under
  the pointers the collector follows, and the pointer positions of the mixed objects by table id.
\<close>

record MinorCtx =
  c_mem :: mem
  c_nb :: nat
  c_sz :: nat
  c_ot :: nat
  c_objs :: "nat set"
  c_ps :: "int \<Rightarrow> nat list"

definition c_hdr :: "MinorCtx \<Rightarrow> nat \<Rightarrow> Word_t" where "c_hdr C p = c_mem C (wadr (p - 1))"
definition c_len :: "MinorCtx \<Rightarrow> nat \<Rightarrow> nat" where "c_len C p = nat (GetLength (c_hdr C p))"

definition in_nursery :: "MinorCtx \<Rightarrow> Value_t \<Rightarrow> bool" where
  "in_nursery C v \<longleftrightarrow> inAddrRange (wadr (c_nb C)) (wadr (c_sz C)) v"

text \<open>Is field \<open>i\<close> of an object with this header visited, as a vector element or as a mixed pointer field?\<close>

definition visited :: "MinorCtx \<Rightarrow> Word_t \<Rightarrow> bool \<Rightarrow> nat \<Rightarrow> bool" where
  "visited C hdr t i \<longleftrightarrow> (if t then isVectorHdr hdr
     else \<not> isVectorHdr hdr \<and> \<not> isRawHdr hdr \<and> i \<in> set (c_ps C (getID hdr)))"

definition hit :: "MinorCtx \<Rightarrow> Word_t \<Rightarrow> nat \<Rightarrow> Value_t \<Rightarrow> bool" where
  "hit C hdr i v \<longleftrightarrow> in_nursery C v \<and> (visited C hdr True i \<and> isPtr v \<or> visited C hdr False i)"

definition target_ok :: "MinorCtx \<Rightarrow> Value_t \<Rightarrow> bool" where
  "target_ok C v \<longleftrightarrow> (\<exists>q. v = wadr q \<and> c_nb C < q \<and> q \<le> c_nb C + c_sz C
     \<and> (q \<in> c_objs C \<or> isForwardPtr (c_hdr C q) \<and> \<not> in_nursery C (GetForwardPtr (c_hdr C q))))"

definition ctx_ok :: "MinorCtx \<Rightarrow> bool" where
  "ctx_ok C \<longleftrightarrow> c_ot C + c_sz C < c_nb C \<and> c_nb C + c_sz C < 2 ^ 45
     \<and> (\<forall>p\<in>c_objs C. c_nb C < p \<and> odd (c_hdr C p) \<and> 0 \<le> GetLength (c_hdr C p) \<and> p + c_len C p \<le> c_nb C + c_sz C)
     \<and> (\<forall>p\<in>c_objs C. \<forall>q\<in>c_objs C. p < q \<longrightarrow> p + c_len C p < q)
     \<and> (\<forall>p\<in>c_objs C. \<forall>i<c_len C p. hit C (c_hdr C p) i (c_mem C (wadr (p + i))) \<longrightarrow> target_ok C (c_mem C (wadr (p + i))))
     \<and> (\<forall>p\<in>c_objs C. \<not> isVectorHdr (c_hdr C p) \<longrightarrow> \<not> isRawHdr (c_hdr C p) \<longrightarrow>
          sorted_wrt (<) (c_ps C (getID (c_hdr C p))) \<and> (\<forall>i\<in>set (c_ps C (getID (c_hdr C p))). i < c_len C p))"

definition top_of :: "MinorCtx \<Rightarrow> nat list \<Rightarrow> nat" where
  "top_of C ss = c_ot C + sum_list (map (\<lambda>p. c_len C p + 1) ss)"

definition dst_of :: "MinorCtx \<Rightarrow> nat list \<Rightarrow> nat \<Rightarrow> nat" where
  "dst_of C ss k = top_of C (take k ss) + 1"

definition newv :: "MinorCtx \<Rightarrow> mem \<Rightarrow> Word_t \<Rightarrow> nat \<Rightarrow> Value_t \<Rightarrow> Value_t" where
  "newv C m hdr i v = (if hit C hdr i v then GetForwardPtr (m (v - 8)) else v)"

text \<open>
  The collector's invariant: \<open>ss\<close> are the objects copied so far, in order; the words of to-space below
  \<open>s\<close> have been scanned.
\<close>

definition gc_inv :: "MinorCtx \<Rightarrow> nat list \<Rightarrow> nat \<Rightarrow> mem \<Rightarrow> bool" where
  "gc_inv C ss s m \<longleftrightarrow> distinct ss \<and> set ss \<subseteq> c_objs C
     \<and> (\<forall>k<length ss. m (wadr (ss ! k - 1)) = MakeForwardPtr (c_hdr C (ss ! k)) (wadr (dst_of C ss k))
          \<and> m (wadr (dst_of C ss k - 1)) = c_hdr C (ss ! k)
          \<and> (\<forall>i<c_len C (ss ! k). let v = c_mem C (wadr (ss ! k + i)); x = dst_of C ss k + i
               in m (wadr x) = (if x < s then newv C m (c_hdr C (ss ! k)) i v else v)
                \<and> (x < s \<longrightarrow> hit C (c_hdr C (ss ! k)) i v \<longrightarrow> isForwardPtr (m (v - 8)))))
     \<and> (\<forall>x<2^61. \<not> (c_ot C \<le> x \<and> x < top_of C ss) \<longrightarrow> (\<forall>p\<in>set ss. x \<noteq> p - 1) \<longrightarrow> m (wadr x) = c_mem C (wadr x))"

lemma top_of_snoc: "top_of C (ss @ [p]) = top_of C ss + c_len C p + 1"
  by (simp add: top_of_def)

lemma top_of_mono: "k \<le> length ss \<Longrightarrow> top_of C (take k ss) \<le> top_of C ss"
proof -
  have "top_of C (take k ss @ drop k ss) = top_of C (take k ss) + sum_list (map (\<lambda>p. c_len C p + 1) (drop k ss))"
    unfolding top_of_def map_append sum_list_append by simp
  then show ?thesis by simp
qed

lemma top_of_take_Suc: "k < length ss \<Longrightarrow> top_of C (take (Suc k) ss) = dst_of C ss k + c_len C (ss ! k)"
  by (simp add: take_Suc_conv_app_nth top_of_snoc dst_of_def)

lemma dst_of_append: "k < length ss \<Longrightarrow> dst_of C (ss @ zs) k = dst_of C ss k"
  by (simp add: dst_of_def)

lemma dst_of_lt: "j < k \<Longrightarrow> k < length ss \<Longrightarrow> dst_of C ss j + c_len C (ss ! j) < dst_of C ss k"
proof -
  assume a: "j < k" "k < length ss"
  have "dst_of C ss j + c_len C (ss ! j) = top_of C (take (Suc j) ss)" using a by (simp add: top_of_take_Suc)
  also have "take (Suc j) ss = take (Suc j) (take k ss)" using a by (simp add: min_absorb1)
  also have "top_of C \<dots> \<le> top_of C (take k ss)" by (rule top_of_mono) (use a in simp)
  finally show ?thesis by (simp add: dst_of_def)
qed

lemma dst_of_bound: "k < length ss \<Longrightarrow> c_ot C < dst_of C ss k \<and> dst_of C ss k + c_len C (ss ! k) \<le> top_of C ss"
  using top_of_mono [of "Suc k" ss C] by (simp add: top_of_take_Suc) (simp add: dst_of_def top_of_def)

text \<open>Disjoint objects of the nursery fit into to-space.\<close>

lemma top_of_bound:
  assumes ok: "ctx_ok C" and ss: "distinct ss" "set ss \<subseteq> c_objs C"
  shows "top_of C ss \<le> c_ot C + c_sz C"
proof -
  let ?I = "\<lambda>p. {p - 1..<p + c_len C p}"
  have obj: "c_nb C < p" "p + c_len C p \<le> c_nb C + c_sz C" if "p \<in> set ss" for p
    using ok ss that by (auto simp: ctx_ok_def)
  have "sum_list (map (\<lambda>p. c_len C p + 1) ss) = (\<Sum>p\<in>set ss. c_len C p + 1)"
    by (rule sum_list_distinct_conv_sum_set [OF ss(1)])
  also have "\<dots> = (\<Sum>p\<in>set ss. card (?I p))"
  proof (rule sum.cong [OF refl])
    fix p assume "p \<in> set ss"
    then show "c_len C p + 1 = card (?I p)" using obj(1) [of p] by auto
  qed
  also have "\<dots> = card (\<Union>p\<in>set ss. ?I p)"
  proof (rule card_UN_disjoint [symmetric])
    show "\<forall>p\<in>set ss. \<forall>q\<in>set ss. p \<noteq> q \<longrightarrow> ?I p \<inter> ?I q = {}"
    proof (intro ballI impI)
      fix p q assume pq: "p \<in> set ss" "q \<in> set ss" "p \<noteq> q"
      then have "p + c_len C p < q \<or> q + c_len C q < p"
        using ok ss(2) unfolding ctx_ok_def by (meson linorder_neqE_nat subsetD)
      then show "?I p \<inter> ?I q = {}" by auto
    qed
  qed auto
  also have "\<dots> \<le> card {c_nb C..<c_nb C + c_sz C}"
    by (rule card_mono) (use obj in fastforce)+
  finally show ?thesis by (simp add: top_of_def)
qed

lemma wadr_61: "n < 2 ^ 45 \<Longrightarrow> wadr n < 2 ^ 61"
  by (simp add: word_less_nat_alt unat_wadr)

lemma in_nursery_iff:
  assumes "ctx_ok C" "q < 2 ^ 61"
  shows "in_nursery C (wadr q) \<longleftrightarrow> c_nb C \<le> q \<and> q \<le> c_nb C + c_sz C"
proof -
  have b: "c_nb C + c_sz C < 2 ^ 45" using assms by (simp add: ctx_ok_def)
  then have "unat (wadr (c_nb C)) + unat (wadr (c_sz C)) < 2 ^ 64" by (simp add: unat_wadr)
  then show ?thesis using b assms(2)
    unfolding in_nursery_def by (subst inAddrRange_iff) (simp_all add: unat_wadr, arith)
qed

lemma ForwardObjMinor_fwd:
  "isForwardPtr (m (v - 8)) \<Longrightarrow> ForwardObjMinor v (m, nw) = (GetForwardPtr (m (v - 8)), m, nw)"
  by (simp add: ForwardObjMinor_def Let_def)

lemma ForwardObjMinor_copy:
  fixes d p n :: nat and m :: mem
  assumes hdr: "odd (m (wadr (p - 1)))" "GetLength (m (wadr (p - 1))) = int n"
    and a: "0 < d" "0 < p" "d + n < p \<or> p + n < d" "p + n < 2 ^ 60" "d + n < 2 ^ 60"
  shows "\<exists>m'. ForwardObjMinor (wadr p) (m, wadr d) = (wadr d, m', wadr (d + n + 1))
    \<and> m' (wadr (d - 1)) = m (wadr (p - 1)) \<and> m' (wadr (p - 1)) = MakeForwardPtr (m (wadr (p - 1))) (wadr d)
    \<and> (\<forall>i<n. m' (wadr (d + i)) = m (wadr (p + i)))
    \<and> (\<forall>x<2^61. x \<noteq> p - 1 \<longrightarrow> \<not> (d - 1 \<le> x \<and> x < d + n) \<longrightarrow> m' (wadr x) = m (wadr x))"
proof -
  let ?hdr = "m (wadr (p - 1))"
  let ?m1 = "m(wadr (d - 1) := ?hdr)"
  let ?m2 = "copy_words n (wadr d) (wadr p) ?m1"
  let ?m' = "?m2(wadr (p - 1) := MakeForwardPtr ?hdr (wadr d))"
  have nf: "\<not> isForwardPtr ?hdr" using hdr(1) isForwardPtr_even by blast
  have "ForwardObjMinor (wadr p) (m, wadr d) = (wadr d, ?m', wadr (d + n + 1))"
    using a nf hdr(2) wadr_plus_len [of d n]
    by (simp add: ForwardObjMinor_def Let_def wadr_pred algebra_simps)
  moreover have "?m2 (wadr (d - 1)) = ?hdr"
    using a by (subst copy_words_other) auto
  then have "?m' (wadr (d - 1)) = ?hdr" using a by auto
  moreover have "?m' (wadr (d + i)) = m (wadr (p + i))" if "i < n" for i
  proof -
    have "?m2 (wadr (d + i)) = ?m1 (wadr (p + i))" using a that by (intro copy_words_copied) auto
    then show ?thesis using a that by auto
  qed
  moreover have "?m' (wadr x) = m (wadr x)" if "x < 2 ^ 61" "x \<noteq> p - 1" "\<not> (d - 1 \<le> x \<and> x < d + n)" for x
  proof -
    have "?m2 (wadr x) = ?m1 (wadr x)" using a that by (intro copy_words_other) auto
    then show ?thesis using a that by auto
  qed
  ultimately show ?thesis by auto
qed

lemma gc_inv_hdr:
  assumes ok: "ctx_ok C" and inv: "gc_inv C ss s m" and q: "c_nb C < q" "q < 2 ^ 60"
  shows "q \<notin> set ss \<Longrightarrow> m (wadr (q - 1)) = c_hdr C q"
    and "k < length ss \<Longrightarrow> q = ss ! k \<Longrightarrow> m (wadr (q - 1)) = MakeForwardPtr (c_hdr C q) (wadr (dst_of C ss k))"
proof -
  have "top_of C ss \<le> c_ot C + c_sz C" using inv by (intro top_of_bound [OF ok]) (auto simp: gc_inv_def)
  then have t: "top_of C ss < c_nb C" using ok by (simp add: ctx_ok_def)
  assume n: "q \<notin> set ss"
  have "q - 1 \<noteq> p - 1" if "p \<in> set ss" for p
  proof -
    have "c_nb C < p" "p \<noteq> q" using ok inv n that by (auto simp: ctx_ok_def gc_inv_def)
    then show ?thesis using q by arith
  qed
  moreover have "\<not> (c_ot C \<le> q - 1 \<and> q - 1 < top_of C ss)" using t q by arith
  ultimately show "m (wadr (q - 1)) = c_hdr C q"
    using inv q unfolding gc_inv_def c_hdr_def by auto
next
  assume "k < length ss" "q = ss ! k"
  then show "m (wadr (q - 1)) = MakeForwardPtr (c_hdr C q) (wadr (dst_of C ss k))"
    using inv by (simp add: gc_inv_def)
qed

lemma obj_bounds: "ctx_ok C \<Longrightarrow> p \<in> c_objs C \<Longrightarrow>
   c_nb C < p \<and> p + c_len C p \<le> c_nb C + c_sz C \<and> odd (c_hdr C p) \<and> GetLength (c_hdr C p) = int (c_len C p)
   \<and> c_nb C + c_sz C < 2 ^ 45 \<and> c_ot C + c_sz C < c_nb C"
  by (auto simp: ctx_ok_def c_len_def)

lemma inv_top: "ctx_ok C \<Longrightarrow> gc_inv C ss s m \<Longrightarrow> top_of C ss \<le> c_ot C + c_sz C"
  by (rule top_of_bound) (auto simp: gc_inv_def)

lemma fwd_target:
  assumes ok: "ctx_ok C" and inv: "gc_inv C ss s m" and t: "target_ok C v" and f: "isForwardPtr (m (v - 8))"
  shows "\<not> in_nursery C (GetForwardPtr (m (v - 8)))"
proof -
  obtain q where q: "v = wadr q" "c_nb C < q" "q \<le> c_nb C + c_sz C"
    "q \<in> c_objs C \<or> isForwardPtr (c_hdr C q) \<and> \<not> in_nursery C (GetForwardPtr (c_hdr C q))"
    using t by (auto simp: target_ok_def)
  have q60: "q < 2 ^ 60" using q ok by (simp add: ctx_ok_def)
  have v8: "v - 8 = wadr (q - 1)" using q by (simp add: wadr_pred)
  show ?thesis
  proof (cases "q \<in> set ss")
    case True
    then obtain k where k: "k < length ss" "q = ss ! k" by (auto simp: in_set_conv_nth)
    have "dst_of C ss k \<le> top_of C ss" using dst_of_bound [OF k(1), of C] by simp
    then have d: "dst_of C ss k < c_nb C" using inv_top [OF ok inv] ok by (simp add: ctx_ok_def)
    then have "dst_of C ss k < 2 ^ 45" using ok by (simp add: ctx_ok_def)
    then have "GetForwardPtr (m (v - 8)) = wadr (dst_of C ss k)"
      unfolding v8 gc_inv_hdr(2) [OF ok inv q(2) q60 k] by (intro GetForwardPtr_Make wadr_61)
    then show ?thesis using d ok by (subst \<open>GetForwardPtr (m (v - 8)) = _\<close>, subst in_nursery_iff) (auto simp: ctx_ok_def)
  next
    case False
    then have h: "m (v - 8) = c_hdr C q" unfolding v8 by (rule gc_inv_hdr(1) [OF ok inv q(2) q60])
    then have "q \<notin> c_objs C" using f isForwardPtr_even obj_bounds [OF ok, of q] by auto
    then show ?thesis using q(4) h by simp
  qed
qed

lemma forward_new:
  assumes ok: "ctx_ok C" and inv: "gc_inv C ss s m" and s: "s \<le> top_of C ss"
    and p: "p \<in> c_objs C" "p \<notin> set ss"
  shows "\<exists>m'. ForwardObjMinor (wadr p) (m, wadr (top_of C ss + 1)) = (wadr (top_of C ss + 1), m', wadr (top_of C (ss @ [p]) + 1))
    \<and> gc_inv C (ss @ [p]) s m' \<and> m' (wadr (p - 1)) = MakeForwardPtr (c_hdr C p) (wadr (top_of C ss + 1))
    \<and> (\<forall>x<2^61. x \<noteq> p - 1 \<longrightarrow> \<not> (top_of C ss \<le> x \<and> x < top_of C (ss @ [p])) \<longrightarrow> m' (wadr x) = m (wadr x))"
proof -
  note b = obj_bounds [OF ok p(1)]
  let ?n = "c_len C p" and ?d = "top_of C ss + 1"
  have t: "top_of C (ss @ [p]) \<le> c_ot C + c_sz C"
    using inv p by (intro top_of_bound [OF ok]) (auto simp: gc_inv_def)
  then have t': "?d + ?n \<le> c_ot C + c_sz C" by (simp add: top_of_snoc)
  have hdr: "m (wadr (p - 1)) = c_hdr C p" by (rule gc_inv_hdr(1) [OF ok inv]) (use b p in auto)
  have "odd (m (wadr (p - 1)))" "GetLength (m (wadr (p - 1))) = int ?n" "0 < ?d" "0 < p" "?d + ?n < p \<or> p + ?n < ?d"
      "p + ?n < 2 ^ 60" "?d + ?n < 2 ^ 60"
    using b hdr t' by auto
  from ForwardObjMinor_copy [where m = m and p = p and n = ?n and d = ?d, OF this]
  obtain m' where run: "ForwardObjMinor (wadr p) (m, wadr ?d) = (wadr ?d, m', wadr (?d + ?n + 1))"
    and h': "m' (wadr (?d - 1)) = c_hdr C p" and f': "m' (wadr (p - 1)) = MakeForwardPtr (c_hdr C p) (wadr ?d)"
    and c': "\<And>i. i < ?n \<Longrightarrow> m' (wadr (?d + i)) = m (wadr (p + i))"
    and o': "\<And>x. x < 2 ^ 61 \<Longrightarrow> x \<noteq> p - 1 \<Longrightarrow> \<not> (?d - 1 \<le> x \<and> x < ?d + ?n) \<Longrightarrow> m' (wadr x) = m (wadr x)"
    unfolding hdr by auto
  have field: "m (wadr (p + i)) = c_mem C (wadr (p + i))" if "i < ?n" for i
  proof -
    have "p + i \<noteq> q - 1" if "q \<in> set ss" for q
    proof -
      have q: "q \<in> c_objs C" "q \<noteq> p" using inv p(2) that by (auto simp: gc_inv_def)
      then have "p + ?n < q \<or> q + c_len C q < p" using ok p(1) unfolding ctx_ok_def by (meson linorder_neqE_nat)
      then show ?thesis using \<open>i < ?n\<close> by auto
    qed
    moreover have "\<not> (c_ot C \<le> p + i \<and> p + i < top_of C ss)" using b t' by simp
    moreover have "p + i < 2 ^ 61" using b that by simp
    ultimately show ?thesis using inv unfolding gc_inv_def by blast
  qed
  have keep: "m' (v - 8) = m (v - 8)" if "target_ok C v" "isForwardPtr (m (v - 8))" for v
  proof -
    obtain q where q: "v = wadr q" "c_nb C < q" "q \<le> c_nb C + c_sz C" using \<open>target_ok C v\<close> by (auto simp: target_ok_def)
    have v8: "v - 8 = wadr (q - 1)" using q by (simp add: wadr_pred)
    have "q - 1 \<noteq> p - 1" using that(2) hdr b isForwardPtr_even v8 by auto
    then show ?thesis unfolding v8 using q b t' by (intro o') auto
  qed
  have "gc_inv C (ss @ [p]) s m'"
    unfolding gc_inv_def
  proof (intro conjI allI impI)
    show "distinct (ss @ [p])" "set (ss @ [p]) \<subseteq> c_objs C" using inv p by (auto simp: gc_inv_def)
  next
    fix k assume k: "k < length (ss @ [p])"
    show "m' (wadr ((ss @ [p]) ! k - 1)) = MakeForwardPtr (c_hdr C ((ss @ [p]) ! k)) (wadr (dst_of C (ss @ [p]) k))"
    proof (cases "k < length ss")
      case True
      then have q: "ss ! k \<in> c_objs C" "ss ! k \<noteq> p" using inv p(2) nth_mem [OF True] by (auto simp: gc_inv_def)
      then have "m' (wadr (ss ! k - 1)) = m (wadr (ss ! k - 1))"
        using b t' obj_bounds [OF ok q(1)] by (intro o') auto
      then show ?thesis using inv True by (simp add: gc_inv_def nth_append dst_of_append)
    next
      case False
      then have "k = length ss" using k by simp
      then show ?thesis using f' by (simp add: dst_of_def)
    qed
  next
    fix k assume k: "k < length (ss @ [p])"
    show "m' (wadr (dst_of C (ss @ [p]) k - 1)) = c_hdr C ((ss @ [p]) ! k)"
    proof (cases "k < length ss")
      case True
      have "m' (wadr (dst_of C ss k - 1)) = m (wadr (dst_of C ss k - 1))"
        using b t' dst_of_bound [OF True, of C] by (intro o') auto
      then show ?thesis using inv True by (simp add: gc_inv_def nth_append dst_of_append)
    next
      case False
      then have "k = length ss" using k by simp
      then show ?thesis using h' by (simp add: dst_of_def)
    qed
  next
    fix k i assume k: "k < length (ss @ [p])" and i: "i < c_len C ((ss @ [p]) ! k)"
    show "let v = c_mem C (wadr ((ss @ [p]) ! k + i)); x = dst_of C (ss @ [p]) k + i
        in m' (wadr x) = (if x < s then newv C m' (c_hdr C ((ss @ [p]) ! k)) i v else v)
          \<and> (x < s \<longrightarrow> hit C (c_hdr C ((ss @ [p]) ! k)) i v \<longrightarrow> isForwardPtr (m' (v - 8)))"
    proof (cases "k < length ss")
      case True
      let ?q = "ss ! k" and ?x = "dst_of C ss k + i"
      let ?v = "c_mem C (wadr (?q + i))"
      have i': "i < c_len C ?q" using i True by (simp add: nth_append)
      have q: "?q \<in> c_objs C" using inv nth_mem [OF True] by (auto simp: gc_inv_def)
      have old: "m (wadr ?x) = (if ?x < s then newv C m (c_hdr C ?q) i ?v else ?v)"
        "?x < s \<Longrightarrow> hit C (c_hdr C ?q) i ?v \<Longrightarrow> isForwardPtr (m (?v - 8))"
        using inv True i' unfolding gc_inv_def Let_def by blast+
      have "m' (wadr ?x) = m (wadr ?x)"
        using b t' i' dst_of_bound [OF True, of C] by (intro o') auto
      moreover have "hit C (c_hdr C ?q) i ?v \<Longrightarrow> target_ok C ?v" using ok q i' by (simp add: ctx_ok_def)
      then have "m' (?v - 8) = m (?v - 8)" if "?x < s" "hit C (c_hdr C ?q) i ?v"
        using keep old(2) that by blast
      ultimately show ?thesis
        using old True by (auto simp: Let_def newv_def nth_append dst_of_append)
    next
      case False
      then have kk: "k = length ss" using k by simp
      then have "i < ?n" using i by simp
      with c' field have "m' (wadr (?d + i)) = c_mem C (wadr (p + i))" by simp
      then show ?thesis using kk s by (simp add: Let_def dst_of_def)
    qed
  next
    fix x :: nat assume x: "x < 2 ^ 61" "\<not> (c_ot C \<le> x \<and> x < top_of C (ss @ [p]))" "\<forall>q\<in>set (ss @ [p]). x \<noteq> q - 1"
    then have "m' (wadr x) = m (wadr x)" by (intro o') (auto simp: top_of_snoc top_of_def)
    also have "\<dots> = c_mem C (wadr x)" using inv x unfolding gc_inv_def by (auto simp: top_of_snoc)
    finally show "m' (wadr x) = c_mem C (wadr x)" .
  qed
  then show ?thesis using run f' o' by (auto simp: top_of_snoc)
qed

lemma forward_any:
  assumes ok: "ctx_ok C" and inv: "gc_inv C ss s m" and s: "s \<le> top_of C ss" and t: "target_ok C v"
  shows "\<exists>zs v' m'. ForwardObjMinor v (m, wadr (top_of C ss + 1)) = (v', m', wadr (top_of C (ss @ zs) + 1))
    \<and> gc_inv C (ss @ zs) s m' \<and> isForwardPtr (m' (v - 8)) \<and> v' = GetForwardPtr (m' (v - 8))
    \<and> (\<forall>u. target_ok C u \<longrightarrow> isForwardPtr (m (u - 8)) \<longrightarrow> m' (u - 8) = m (u - 8))"
proof -
  obtain q where q: "v = wadr q" "c_nb C < q" "q \<le> c_nb C + c_sz C"
    "q \<in> c_objs C \<or> isForwardPtr (c_hdr C q)"
    using t by (auto simp: target_ok_def)
  have q60: "q < 2 ^ 60" using q ok by (simp add: ctx_ok_def)
  have v8: "v - 8 = wadr (q - 1)" using q by (simp add: wadr_pred)
  show ?thesis
  proof (cases "isForwardPtr (m (v - 8))")
    case True
    then show ?thesis using inv by (intro exI [of _ "[]"]) (auto simp: ForwardObjMinor_fwd)
  next
    case False
    have "q \<notin> set ss"
    proof
      assume "q \<in> set ss"
      then obtain k where "k < length ss" "q = ss ! k" by (auto simp: in_set_conv_nth)
      from gc_inv_hdr(2) [OF ok inv q(2) q60 this] show False using False v8 by simp
    qed
    then have h: "m (v - 8) = c_hdr C q" unfolding v8 by (rule gc_inv_hdr(1) [OF ok inv q(2) q60])
    then have "q \<in> c_objs C" using q(4) False by auto
    from forward_new [OF ok inv s this \<open>q \<notin> set ss\<close>] obtain m' where
      m': "ForwardObjMinor v (m, wadr (top_of C ss + 1)) = (wadr (top_of C ss + 1), m', wadr (top_of C (ss @ [q]) + 1))"
        "gc_inv C (ss @ [q]) s m'" "m' (wadr (q - 1)) = MakeForwardPtr (c_hdr C q) (wadr (top_of C ss + 1))"
      and o: "\<And>x. x < 2 ^ 61 \<Longrightarrow> x \<noteq> q - 1 \<Longrightarrow> \<not> (top_of C ss \<le> x \<and> x < top_of C (ss @ [q])) \<Longrightarrow> m' (wadr x) = m (wadr x)"
      using q(1) by blast
    have tb: "top_of C (ss @ [q]) \<le> c_ot C + c_sz C" by (rule inv_top [OF ok m'(2)])
    then have "top_of C ss + 1 < 2 ^ 45" using ok by (simp add: top_of_snoc ctx_ok_def)
    then have g: "GetForwardPtr (MakeForwardPtr (c_hdr C q) (wadr (top_of C ss + 1))) = wadr (top_of C ss + 1)"
      by (intro GetForwardPtr_Make wadr_61)
    have "m' (u - 8) = m (u - 8)" if u: "target_ok C u" "isForwardPtr (m (u - 8))" for u
    proof -
      obtain r where r: "u = wadr r" "c_nb C < r" "r \<le> c_nb C + c_sz C" using u(1) by (auto simp: target_ok_def)
      have u8: "u - 8 = wadr (r - 1)" using r by (simp add: wadr_pred)
      have "r - 1 \<noteq> q - 1" using u(2) False u8 v8 by auto
      then show ?thesis unfolding u8 using r ok tb by (intro o) (auto simp: ctx_ok_def)
    qed
    then show ?thesis using m' g v8 by (intro exI [of _ "[q]"] exI [of _ "wadr (top_of C ss + 1)"] exI [of _ m']) auto
  qed
qed

lemma slot_unique:
  assumes "k < length ss" "k' < length ss" "i < c_len C (ss ! k)" "i' < c_len C (ss ! k')"
    and "dst_of C ss k + i = dst_of C ss k' + i'"
  shows "k = k' \<and> i = i'"
  using dst_of_lt [of k k' ss C] dst_of_lt [of k' k ss C] assms by (cases k k' rule: linorder_cases) auto

lemma slot_not_hdr:
  assumes "k < length ss" "k' < length ss" "i < c_len C (ss ! k)"
  shows "dst_of C ss k + i \<noteq> dst_of C ss k' - 1"
proof -
  have "0 < dst_of C ss k'" by (simp add: dst_of_def)
  then show ?thesis
    using dst_of_lt [of k k' ss C] dst_of_lt [of k' k ss C] assms by (cases k k' rule: linorder_cases) auto
qed

lemma inv_pass:
  assumes inv: "gc_inv C ss s m"
    and no: "\<And>k i. k < length ss \<Longrightarrow> i < c_len C (ss ! k) \<Longrightarrow> dst_of C ss k + i = s
        \<Longrightarrow> \<not> hit C (c_hdr C (ss ! k)) i (c_mem C (wadr (ss ! k + i)))"
  shows "gc_inv C ss (Suc s) m"
  unfolding gc_inv_def
proof (intro conjI allI impI)
  fix k i assume k: "k < length ss" and i: "i < c_len C (ss ! k)"
  let ?v = "c_mem C (wadr (ss ! k + i))" and ?x = "dst_of C ss k + i"
  have old: "m (wadr ?x) = (if ?x < s then newv C m (c_hdr C (ss ! k)) i ?v else ?v)"
    "?x < s \<Longrightarrow> hit C (c_hdr C (ss ! k)) i ?v \<Longrightarrow> isForwardPtr (m (?v - 8))"
    using inv k i unfolding gc_inv_def Let_def by blast+
  show "let v = ?v; x = ?x in m (wadr x) = (if x < Suc s then newv C m (c_hdr C (ss ! k)) i v else v)
      \<and> (x < Suc s \<longrightarrow> hit C (c_hdr C (ss ! k)) i v \<longrightarrow> isForwardPtr (m (v - 8)))"
    unfolding Let_def using old no [OF k i] by (cases "?x = s") (auto simp: newv_def less_Suc_eq)
qed (use inv in \<open>auto simp: gc_inv_def\<close>)

lemma inv_write:
  assumes ok: "ctx_ok C" and inv: "gc_inv C ss x m" and k: "k < length ss" "i < c_len C (ss ! k)" "x = dst_of C ss k + i"
    and v: "v = c_mem C (wadr (ss ! k + i))" and h: "hit C (c_hdr C (ss ! k)) i v"
    and f: "isForwardPtr (m (v - 8))"
  shows "gc_inv C ss (Suc x) (m(wadr x := GetForwardPtr (m (v - 8))))"
proof -
  let ?m = "m(wadr x := GetForwardPtr (m (v - 8)))"
  have xt: "c_ot C \<le> x" "x < top_of C ss" using dst_of_bound [OF k(1), of C] k by auto
  have top: "top_of C ss < c_nb C" "c_nb C + c_sz C < 2 ^ 45" using inv_top [OF ok inv] ok by (auto simp: ctx_ok_def)
  have m: "?m (wadr y) = m (wadr y)" if "y < 2 ^ 60" "y \<noteq> x" for y using that xt top by simp
  have tgt: "?m (u - 8) = m (u - 8)" if u: "target_ok C u" for u
  proof -
    obtain r where r: "u = wadr r" "c_nb C < r" "r \<le> c_nb C + c_sz C" using u by (auto simp: target_ok_def)
    have u8: "u - 8 = wadr (r - 1)" using r by (simp add: wadr_pred)
    show ?thesis unfolding u8 using r xt top by (intro m) auto
  qed
  have hit_tgt: "target_ok C (c_mem C (wadr (ss ! j + l)))"
    if "j < length ss" "l < c_len C (ss ! j)" "hit C (c_hdr C (ss ! j)) l (c_mem C (wadr (ss ! j + l)))" for j l
    using ok inv that nth_mem [OF that(1)] unfolding ctx_ok_def gc_inv_def by blast
  show ?thesis
    unfolding gc_inv_def
  proof (intro conjI allI impI)
    fix j assume j: "j < length ss"
    have q: "ss ! j \<in> c_objs C" using inv nth_mem [OF j] by (auto simp: gc_inv_def)
    have "?m (wadr (ss ! j - 1)) = m (wadr (ss ! j - 1))"
      using obj_bounds [OF ok q] xt top by (intro m) auto
    then show "?m (wadr (ss ! j - 1)) = MakeForwardPtr (c_hdr C (ss ! j)) (wadr (dst_of C ss j))"
      using inv j by (simp add: gc_inv_def)
    have "?m (wadr (dst_of C ss j - 1)) = m (wadr (dst_of C ss j - 1))"
      using dst_of_bound [OF j, of C] top slot_not_hdr [OF k(1) j k(2)] k(3) by (intro m) auto
    then show "?m (wadr (dst_of C ss j - 1)) = c_hdr C (ss ! j)"
      using inv j by (simp add: gc_inv_def)
    fix l assume l: "l < c_len C (ss ! j)"
    let ?u = "c_mem C (wadr (ss ! j + l))" and ?y = "dst_of C ss j + l"
    have old: "m (wadr ?y) = (if ?y < x then newv C m (c_hdr C (ss ! j)) l ?u else ?u)"
      "?y < x \<Longrightarrow> hit C (c_hdr C (ss ! j)) l ?u \<Longrightarrow> isForwardPtr (m (?u - 8))"
      using inv j l unfolding gc_inv_def Let_def by blast+
    have t: "hit C (c_hdr C (ss ! j)) l ?u \<Longrightarrow> ?m (?u - 8) = m (?u - 8)" using hit_tgt [OF j l] tgt by blast
    show "let v = ?u; y = ?y in ?m (wadr y) = (if y < Suc x then newv C ?m (c_hdr C (ss ! j)) l v else v)
        \<and> (y < Suc x \<longrightarrow> hit C (c_hdr C (ss ! j)) l v \<longrightarrow> isForwardPtr (?m (v - 8)))"
    proof (cases "?y = x")
      case True
      then have jl: "j = k" "l = i" using slot_unique [OF j k(1) l k(2)] k(3) by auto
      show ?thesis unfolding Let_def using True jl t h f v by (auto simp: newv_def)
    next
      case False
      have "?m (wadr ?y) = m (wadr ?y)"
        using False dst_of_bound [OF j, of C] l top by (intro m) auto
      then show ?thesis unfolding Let_def using False old t by (auto simp: newv_def less_Suc_eq)
    qed
  next
    fix y :: nat assume y: "y < 2 ^ 61" "\<not> (c_ot C \<le> y \<and> y < top_of C ss)" "\<forall>p\<in>set ss. y \<noteq> p - 1"
    then have "m (wadr y) = c_mem C (wadr y)" using inv unfolding gc_inv_def by blast
    then show "?m (wadr y) = c_mem C (wadr y)" using y xt top by auto
  qed (use inv in \<open>auto simp: gc_inv_def\<close>)
qed

text \<open>The invariant as the contract of \<open>object_scan\<close>: the objects \<open>ss\<close> were there when the visit of an object began.\<close>

definition minor_inv :: "MinorCtx \<Rightarrow> nat list \<Rightarrow> nat \<Rightarrow> mem \<times> Addr_t \<Rightarrow> bool" where
  "minor_inv C ss x st \<longleftrightarrow> ctx_ok C
     \<and> (\<exists>zs. gc_inv C (ss @ zs) (min x (top_of C ss)) (fst st) \<and> snd st = wadr (top_of C (ss @ zs) + 1))"

definition minor_traced :: "MinorCtx \<Rightarrow> nat list \<Rightarrow> bool \<Rightarrow> nat \<Rightarrow> bool" where
  "minor_traced C ss t x \<longleftrightarrow> (\<exists>k<length ss. \<exists>i<c_len C (ss ! k). x = dst_of C ss k + i \<and> visited C (c_hdr C (ss ! k)) t i)"

lemma minor_traced_bound: "minor_traced C ss t x \<Longrightarrow> x < top_of C ss"
  using dst_of_bound [of _ ss C] unfolding minor_traced_def by (meson nat_add_left_cancel_less order_less_le_trans)

lemma top_of_append: "top_of C ss \<le> top_of C (ss @ zs)"
  by (simp add: top_of_def)

interpretation minor_objects: object_scan "minor_slot (wadr (c_nb C)) (wadr (c_sz C))" "minor_inv C ss" "minor_traced C ss"
  for C ss
proof
  fix x :: nat and st :: "mem \<times> Addr_t" and t
  assume inv: "minor_inv C ss x st" and tr: "minor_traced C ss t x"
  obtain m nw where st: "st = (m, nw)" by fastforce
  have xt: "x < top_of C ss" by (rule minor_traced_bound [OF tr])
  obtain zs where ok: "ctx_ok C" and gi: "gc_inv C (ss @ zs) x m" and nw: "nw = wadr (top_of C (ss @ zs) + 1)"
    using inv xt by (auto simp: minor_inv_def st min_def)
  obtain k i where k: "k < length ss" "i < c_len C (ss ! k)" "x = dst_of C ss k + i" and vis: "visited C (c_hdr C (ss ! k)) t i"
    using tr by (auto simp: minor_traced_def)
  let ?p = "ss ! k" and ?ss = "ss @ zs"
  let ?v = "c_mem C (wadr (?p + i))"
  have k': "k < length ?ss" "?ss ! k = ?p" "dst_of C ?ss k = dst_of C ss k" using k by (auto simp: nth_append dst_of_append)
  have p: "?p \<in> c_objs C" using gi nth_mem [OF k'(1)] k' by (auto simp: gc_inv_def)
  have "m (wadr x) = (if x < x then newv C m (c_hdr C ?p) i ?v else ?v)"
    using gi k k' unfolding gc_inv_def Let_def by metis
  then have v: "fst st (wadr x) = ?v" by (simp add: st)
  have h: "hit C (c_hdr C ?p) i ?v \<longleftrightarrow> (t \<longrightarrow> isPtr ?v) \<and> inAddrRange (wadr (c_nb C)) (wadr (c_sz C)) ?v"
    using vis by (cases t) (auto simp: hit_def in_nursery_def visited_def)
  show "minor_inv C ss (Suc x) (minor_slot (wadr (c_nb C)) (wadr (c_sz C)) t (wadr x) st)"
  proof (cases "hit C (c_hdr C ?p) i ?v")
    case False
    have "gc_inv C ?ss (Suc x) m"
    proof (rule inv_pass [OF gi])
      fix j l assume "j < length ?ss" "l < c_len C (?ss ! j)" "dst_of C ?ss j + l = x"
      then have "j = k \<and> l = i" using slot_unique [of j ?ss k l C i] k k' by auto
      with False k' show "\<not> hit C (c_hdr C (?ss ! j)) l (c_mem C (wadr (?ss ! j + l)))" by simp
    qed
    moreover have "minor_slot (wadr (c_nb C)) (wadr (c_sz C)) t (wadr x) st = st"
      using False h v by (auto simp: minor_slot_def)
    ultimately show ?thesis using ok nw xt by (auto simp: minor_inv_def st min_def)
  next
    case True
    then have tgt: "target_ok C ?v" using ok p k(2) by (simp add: ctx_ok_def)
    have "x \<le> top_of C ?ss" using xt top_of_append [of C ss zs] by linarith
    from forward_any [OF ok gi this tgt] obtain ys v' m' where
      f: "ForwardObjMinor ?v (m, wadr (top_of C ?ss + 1)) = (v', m', wadr (top_of C (?ss @ ys) + 1))"
        "gc_inv C (?ss @ ys) x m'" "isForwardPtr (m' (?v - 8))" "v' = GetForwardPtr (m' (?v - 8))" by blast
    have "gc_inv C (?ss @ ys) (Suc x) (m'(wadr x := v'))"
      unfolding f(4) by (rule inv_write [OF ok f(2), where k = k and i = i]) (use k True f(3) in \<open>auto simp: nth_append dst_of_append\<close>)
    moreover have "minor_slot (wadr (c_nb C)) (wadr (c_sz C)) t (wadr x) st = (m'(wadr x := v'), wadr (top_of C (?ss @ ys) + 1))"
      using True h v f(1) nw by (auto simp: minor_slot_def st)
    ultimately show ?thesis using ok xt by (auto simp: minor_inv_def min_def)
  qed
next
  fix x :: nat and st :: "mem \<times> Addr_t"
  assume inv: "minor_inv C ss x st" and no: "\<not> minor_traced C ss True x" "\<not> minor_traced C ss False x"
  show "minor_inv C ss (Suc x) st"
  proof (cases "x < top_of C ss")
    case True
    then obtain zs where ok: "ctx_ok C" and gi: "gc_inv C (ss @ zs) x (fst st)" and nw: "snd st = wadr (top_of C (ss @ zs) + 1)"
      using inv by (auto simp: minor_inv_def min_def)
    have "gc_inv C (ss @ zs) (Suc x) (fst st)"
    proof (rule inv_pass [OF gi])
      fix k i assume k: "k < length (ss @ zs)" "i < c_len C ((ss @ zs) ! k)" "dst_of C (ss @ zs) k + i = x"
      have kk: "k < length ss"
      proof (rule ccontr)
        assume "\<not> k < length ss"
        then have "take k (ss @ zs) = ss @ take (k - length ss) zs" by simp
        then have "top_of C ss < dst_of C (ss @ zs) k" using top_of_append [of C ss "take (k - length ss) zs"] by (simp add: dst_of_def)
        with k(3) True show False by simp
      qed
      with k no have "\<not> visited C (c_hdr C (ss ! k)) True i \<and> \<not> visited C (c_hdr C (ss ! k)) False i"
        by (auto simp: minor_traced_def nth_append dst_of_append)
      with kk show "\<not> hit C (c_hdr C ((ss @ zs) ! k)) i (c_mem C (wadr ((ss @ zs) ! k + i)))"
        by (simp add: hit_def nth_append)
    qed
    with ok nw True show ?thesis by (auto simp: minor_inv_def min_def)
  next
    case False
    then have "min x (top_of C ss) = top_of C ss" "min (Suc x) (top_of C ss) = top_of C ss" by auto
    then show ?thesis using inv by (simp add: minor_inv_def)
  qed
qed

text \<open>The table has what the generator emits for the layouts of the context.\<close>

definition minor_table_ok :: "MinorCtx \<Rightarrow> minor_table \<Rightarrow> bool" where
  "minor_table_ok C table \<longleftrightarrow> (\<forall>p\<in>c_objs C. \<not> isVectorHdr (c_hdr C p) \<longrightarrow> \<not> isRawHdr (c_hdr C p) \<longrightarrow>
     table (wadr (c_nb C)) (wadr (c_sz C)) (getID (c_hdr C p))
       = gen_minor_scan (c_ps C (getID (c_hdr C p))) (c_len C p) (wadr (c_nb C)) (wadr (c_sz C)))"

lemma minor_scan_object:
  assumes ok: "ctx_ok C" and tab: "minor_table_ok C table" and inv: "gc_inv C ss (top_of C (take k ss)) m" and k: "k < length ss"
  shows "\<exists>zs m'. scan_object fst (minor_slot (wadr (c_nb C)) (wadr (c_sz C)) True) (table (wadr (c_nb C)) (wadr (c_sz C)))
      (wadr (top_of C (take k ss))) (m, wadr (top_of C ss + 1))
    = (wadr (top_of C (take (Suc k) ss)), m', wadr (top_of C (ss @ zs) + 1))
    \<and> gc_inv C (ss @ zs) (top_of C (take (Suc k) ss)) m'"
proof -
  let ?x = "top_of C (take k ss)" and ?p = "ss ! k" and ?hdr = "c_hdr C (ss ! k)"
  let ?len = "c_len C ?p"
  have p: "?p \<in> c_objs C" using inv nth_mem [OF k] by (auto simp: gc_inv_def)
  have d: "dst_of C ss k = ?x + 1" by (simp add: dst_of_def)
  have x1: "?x + 1 + ?len = top_of C (take (Suc k) ss)" using k by (simp add: top_of_take_Suc d)
  have le: "top_of C (take (Suc k) ss) \<le> top_of C ss" using k by (intro top_of_mono) simp
  have hdr: "m (wadr ?x) = ?hdr" using inv k d by (auto simp: gc_inv_def)
  have field: "minor_traced C ss t (?x + 1 + i) \<longleftrightarrow> visited C ?hdr t i" if "i < ?len" for i t
  proof
    assume "minor_traced C ss t (?x + 1 + i)"
    then obtain j l where j: "j < length ss" "l < c_len C (ss ! j)" "dst_of C ss k + i = dst_of C ss j + l" "visited C (c_hdr C (ss ! j)) t l"
      by (auto simp: minor_traced_def d)
    with slot_unique [OF k j(1) that j(2,3)] show "visited C ?hdr t i" by simp
  next
    assume "visited C ?hdr t i"
    then show "minor_traced C ss t (?x + 1 + i)"
      unfolding minor_traced_def d [symmetric] using k that by blast
  qed
  have "\<exists>st'. scan_object fst (minor_slot (wadr (c_nb C)) (wadr (c_sz C)) True) (table (wadr (c_nb C)) (wadr (c_sz C)))
      (wadr ?x) (m, wadr (top_of C ss + 1)) = (wadr (?x + 1 + ?len), st') \<and> minor_inv C ss (?x + 1 + ?len) st'"
  proof (rule minor_objects.one_object)
    show "minor_inv C ss ?x (m, wadr (top_of C ss + 1))"
      using ok inv le x1 by (auto simp: minor_inv_def min_def intro!: exI [of _ "[]"])
    show "fst (m, wadr (top_of C ss + 1)) (wadr ?x) = ?hdr" using hdr by simp
    show "GetLength ?hdr = int ?len" using obj_bounds [OF ok p] by simp
    show "\<not> minor_traced C ss t ?x" for t
      using slot_not_hdr [OF _ k] d by (fastforce simp: minor_traced_def)
    show "isVectorHdr ?hdr \<Longrightarrow> i < ?len \<Longrightarrow> minor_traced C ss True (?x + 1 + i)" for i
      using field [of i True] by (simp add: visited_def)
    show "isRawHdr ?hdr \<Longrightarrow> i < ?len \<Longrightarrow> \<not> minor_traced C ss t (?x + 1 + i)" for i t
      using field [of i t] raw_not_vector [of ?hdr] by (auto simp: visited_def)
    assume mixed: "\<not> isVectorHdr ?hdr" "\<not> isRawHdr ?hdr"
    show "\<exists>ps. sorted_wrt (<) ps \<and> (\<forall>p\<in>set ps. p < ?len)
        \<and> (\<forall>i<?len. (minor_traced C ss False (?x + 1 + i) \<longleftrightarrow> i \<in> set ps) \<and> \<not> minor_traced C ss True (?x + 1 + i))
        \<and> table (wadr (c_nb C)) (wadr (c_sz C)) (getID ?hdr)
            = (\<lambda>p st. (p + WORD_SZB * word_of_nat ?len, scan_positions (minor_slot (wadr (c_nb C)) (wadr (c_sz C)) False) ps p st))"
    proof (intro exI [of _ "c_ps C (getID ?hdr)"] conjI allI impI)
      show "sorted_wrt (<) (c_ps C (getID ?hdr))" "\<forall>i\<in>set (c_ps C (getID ?hdr)). i < ?len"
        using ok p mixed unfolding ctx_ok_def by blast+
      show "minor_traced C ss False (?x + 1 + i) \<longleftrightarrow> i \<in> set (c_ps C (getID ?hdr))" if "i < ?len" for i
        using field [OF that, of False] mixed by (simp add: visited_def)
      show "\<not> minor_traced C ss True (?x + 1 + i)" if "i < ?len" for i
        using field [OF that, of True] mixed by (simp add: visited_def)
      show "table (wadr (c_nb C)) (wadr (c_sz C)) (getID ?hdr)
            = (\<lambda>p st. (p + WORD_SZB * word_of_nat ?len, scan_positions (minor_slot (wadr (c_nb C)) (wadr (c_sz C)) False) (c_ps C (getID ?hdr)) p st))"
        using tab p mixed by (simp add: minor_table_ok_def gen_minor_scan_def)
    qed
  qed
  then show ?thesis using le unfolding x1 by (auto simp: minor_inv_def min_def split: if_splits)
qed

lemma finite_objs: "ctx_ok C \<Longrightarrow> finite (c_objs C)"
  by (rule finite_subset [of _ "{..c_nb C + c_sz C}"]) (auto simp: ctx_ok_def)

lemma minor_scan_loop:
  assumes ok: "ctx_ok C" and tab: "minor_table_ok C table"
  shows "gc_inv C ss (top_of C (take k ss)) m \<Longrightarrow> k \<le> length ss \<Longrightarrow>
    \<exists>zs m'. minor_scan table (wadr (c_nb C)) (wadr (c_sz C)) (wadr (top_of C (take k ss))) (m, wadr (top_of C ss + 1))
      = Some (wadr (top_of C (ss @ zs)), m', wadr (top_of C (ss @ zs) + 1))
    \<and> gc_inv C (ss @ zs) (top_of C (ss @ zs)) m'"
proof (induction "card (c_objs C) - k" arbitrary: k ss m rule: less_induct)
  case less
  have tb: "top_of C ss < 2 ^ 45" using inv_top [OF ok less.prems(1)] ok by (auto simp: ctx_ok_def)
  have tk: "top_of C (take k ss) \<le> top_of C ss" by (rule top_of_mono) fact
  show ?case
  proof (cases "k < length ss")
    case False
    then have "take k ss = ss" using less.prems(2) by simp
    then show ?thesis using less.prems(1)
      unfolding minor_scan_def by (subst scan_while.simps) (auto intro!: exI [of _ "[]"])
  next
    case True
    obtain zs m' where so: "scan_object fst (minor_slot (wadr (c_nb C)) (wadr (c_sz C)) True) (table (wadr (c_nb C)) (wadr (c_sz C)))
        (wadr (top_of C (take k ss))) (m, wadr (top_of C ss + 1))
      = (wadr (top_of C (take (Suc k) ss)), m', wadr (top_of C (ss @ zs) + 1))"
      "gc_inv C (ss @ zs) (top_of C (take (Suc k) ss)) m'"
      using minor_scan_object [OF ok tab less.prems(1) True] by blast
    have "take (Suc k) ss = take (Suc k) (ss @ zs)" using True by simp
    note so' = so [unfolded this]
    have "length ss = card (set ss)" using less.prems(1) by (simp add: gc_inv_def distinct_card)
    also have "\<dots> \<le> card (c_objs C)" using less.prems(1) by (intro card_mono finite_objs ok) (auto simp: gc_inv_def)
    finally have "card (c_objs C) - Suc k < card (c_objs C) - k" using True by simp
    from less.hyps [OF this so'(2)] True obtain ys m'' where
      IH: "minor_scan table (wadr (c_nb C)) (wadr (c_sz C)) (wadr (top_of C (take (Suc k) (ss @ zs)))) (m', wadr (top_of C (ss @ zs) + 1))
      = Some (wadr (top_of C ((ss @ zs) @ ys)), m'', wadr (top_of C ((ss @ zs) @ ys) + 1))"
      "gc_inv C ((ss @ zs) @ ys) (top_of C ((ss @ zs) @ ys)) m''" by auto
    have "top_of C (take k ss) < top_of C ss"
      using top_of_mono [of "Suc k" ss C] True top_of_take_Suc [OF True, of C] by (simp add: dst_of_def)
    then have "wadr (top_of C (take k ss)) < wadr (top_of C ss + 1) - 8" using tb by simp
    then have "minor_scan table (wadr (c_nb C)) (wadr (c_sz C)) (wadr (top_of C (take k ss))) (m, wadr (top_of C ss + 1))
      = minor_scan table (wadr (c_nb C)) (wadr (c_sz C)) (wadr (top_of C (take (Suc k) (ss @ zs)))) (m', wadr (top_of C (ss @ zs) + 1))"
      unfolding minor_scan_def by (subst scan_while.simps) (simp only: snd_conv if_True so'(1) prod.case)
    with IH show ?thesis by (intro exI [of _ "zs @ ys"]) auto
  qed
qed

lemma fwd_stable:
  assumes ok: "ctx_ok C" and i1: "gc_inv C ss s m" and i2: "gc_inv C (ss @ zs) s' m'"
    and t: "target_ok C v" and f: "isForwardPtr (m (v - 8))"
  shows "m' (v - 8) = m (v - 8)"
proof -
  obtain q where q: "v = wadr q" "c_nb C < q" "q \<le> c_nb C + c_sz C" using t by (auto simp: target_ok_def)
  have q60: "q < 2 ^ 60" using q ok by (simp add: ctx_ok_def)
  have v8: "v - 8 = wadr (q - 1)" using q by (simp add: wadr_pred)
  show ?thesis
  proof (cases "q \<in> set ss")
    case True
    then obtain k where k: "k < length ss" "q = ss ! k" by (auto simp: in_set_conv_nth)
    then have k': "k < length (ss @ zs)" "q = (ss @ zs) ! k" by (auto simp: nth_append)
    show ?thesis unfolding v8 gc_inv_hdr(2) [OF ok i1 q(2) q60 k] gc_inv_hdr(2) [OF ok i2 q(2) q60 k']
      using k(1) by (simp add: dst_of_append)
  next
    case False
    then have h: "m (v - 8) = c_hdr C q" unfolding v8 by (rule gc_inv_hdr(1) [OF ok i1 q(2) q60])
    then have "q \<notin> c_objs C" using f isForwardPtr_even obj_bounds [OF ok, of q] by auto
    then have "q \<notin> set (ss @ zs)" using i2 by (auto simp: gc_inv_def)
    then show ?thesis unfolding h unfolding v8 by (rule gc_inv_hdr(1) [OF ok i2 q(2) q60])
  qed
qed

text \<open>Roots that can be read and written.\<close>

primrec root_valid :: "Rts \<Rightarrow> RootLoc \<Rightarrow> bool" where
  "root_valid rt (VPReg r) \<longleftrightarrow> True"
| "root_valid rt (DequeElt d j) \<longleftrightarrow> dqStore (rt_dqs rt) d \<noteq> None \<and> 0 \<le> j \<and> nat j < length (elts (the_deque (rt_dqs rt) d))"

lemma read_write_root:
  "root_valid rt loc \<Longrightarrow> root_valid rt loc' \<Longrightarrow> read_root (write_root loc v rt) loc' = (if loc' = loc then v else read_root rt loc')"
  by (cases loc; cases loc') (auto simp: the_deque_def nth_list_update eq_nat_nat_iff)

lemma root_valid_write [simp]: "root_valid rt loc \<Longrightarrow> root_valid (write_root loc v rt) loc' = root_valid rt loc'"
  by (cases loc; cases loc') (auto simp: the_deque_def)

lemma upd_mem_simps [simp]:
  "read_root (upd_mem m rt) loc = read_root rt loc" "root_valid (upd_mem m rt) loc = root_valid rt loc"
  "mem (rt_heap (upd_mem m rt)) = m" "rt_vp (upd_mem m rt) = rt_vp rt" "rt_dqs (upd_mem m rt) = rt_dqs rt"
  by (cases loc; simp add: upd_mem_def)+

lemma write_root_heap [simp]: "rt_heap (write_root loc v rt) = rt_heap rt"
  by (cases loc) simp_all

definition root_hit :: "MinorCtx \<Rightarrow> Value_t \<Rightarrow> bool" where
  "root_hit C v \<longleftrightarrow> isPtr v \<and> in_nursery C v"

definition root_new :: "MinorCtx \<Rightarrow> mem \<Rightarrow> Value_t \<Rightarrow> Value_t" where
  "root_new C m v = (if root_hit C v then GetForwardPtr (m (v - 8)) else v)"

text \<open>What holds of the roots while they are processed: \<open>D\<close> are done, the others untouched.\<close>

definition roots_inv :: "MinorCtx \<Rightarrow> RootLoc set \<Rightarrow> RootLoc set \<Rightarrow> Rts \<Rightarrow> mem \<Rightarrow> Rts \<Rightarrow> bool" where
  "roots_inv C all D rt0 m rt \<longleftrightarrow> (\<forall>loc\<in>all. root_valid rt loc
      \<and> (root_hit C (read_root rt0 loc) \<longrightarrow> target_ok C (read_root rt0 loc))
      \<and> read_root rt loc = (if loc \<in> D then root_new C m (read_root rt0 loc) else read_root rt0 loc)
      \<and> (loc \<in> D \<longrightarrow> root_hit C (read_root rt0 loc) \<longrightarrow> isForwardPtr (m (read_root rt0 loc - 8))))"

text \<open>Processing roots changes the memory, registers and deques only.\<close>

definition same_frame :: "Rts \<Rightarrow> Rts \<Rightarrow> bool" where
  "same_frame rt rt' \<longleftrightarrow> (\<exists>m r. rt_heap rt' = (rt_heap rt)\<lparr>mem := m\<rparr> \<and> rt_vp rt' = (rt_vp rt)\<lparr>regs := r\<rparr>)"

lemma same_frame_refl: "same_frame rt rt"
  unfolding same_frame_def by (intro exI [of _ "mem (rt_heap rt)"] exI [of _ "regs (rt_vp rt)"]) simp

lemma same_frame_trans: "same_frame a b \<Longrightarrow> same_frame b c \<Longrightarrow> same_frame a c"
  by (auto simp: same_frame_def)

lemma same_frame_write: "same_frame rt (write_root loc v (upd_mem m rt))"
  unfolding same_frame_def
  by (cases loc) (auto simp: upd_mem_def intro: exI [of _ "regs (rt_vp rt)"])

lemma minor_root_step:
  assumes ok: "ctx_ok C" and gi: "gc_inv C ss (c_ot C) (mem (rt_heap rt))" and nw: "nw = wadr (top_of C ss + 1)"
    and ri: "roots_inv C all D rt0 (mem (rt_heap rt)) rt" and loc: "loc \<in> all"
  shows "\<exists>zs rt' nw'. minor_root (wadr (c_nb C)) (wadr (c_sz C)) loc (rt, nw) = (rt', nw')
     \<and> gc_inv C (ss @ zs) (c_ot C) (mem (rt_heap rt')) \<and> nw' = wadr (top_of C (ss @ zs) + 1)
     \<and> roots_inv C all (insert loc D) rt0 (mem (rt_heap rt')) rt'
     \<and> same_frame rt rt'"
proof (cases "root_hit C (read_root rt loc)")
  case False
  have "minor_root (wadr (c_nb C)) (wadr (c_sz C)) loc (rt, nw) = (rt, nw)"
    using False by (auto simp: minor_root_def root_hit_def in_nursery_def Let_def)
  moreover have "roots_inv C all (insert loc D) rt0 (mem (rt_heap rt)) rt"
    using ri loc False unfolding roots_inv_def by (auto simp: root_new_def)
  ultimately show ?thesis using gi nw by (intro exI [of _ "[]"] exI [of _ rt] exI [of _ nw]) (auto simp: same_frame_refl)
next
  case True
  let ?v = "read_root rt0 loc" and ?m = "mem (rt_heap rt)"
  have "loc \<notin> D"
  proof
    assume "loc \<in> D"
    then have "read_root rt loc = root_new C ?m ?v" "root_hit C ?v \<Longrightarrow> target_ok C ?v \<and> isForwardPtr (?m (?v - 8))"
      using ri loc unfolding roots_inv_def by auto
    then show False using True fwd_target [OF ok gi, of ?v] by (auto simp: root_new_def root_hit_def split: if_splits)
  qed
  then have v: "read_root rt loc = ?v" and valid: "root_valid rt loc" using ri loc unfolding roots_inv_def by auto
  then have t: "target_ok C ?v" using ri loc True unfolding roots_inv_def by auto
  have "c_ot C \<le> top_of C ss" by (simp add: top_of_def)
  from forward_any [OF ok gi this t] obtain zs v' m' where
    f: "ForwardObjMinor ?v (?m, wadr (top_of C ss + 1)) = (v', m', wadr (top_of C (ss @ zs) + 1))"
      "gc_inv C (ss @ zs) (c_ot C) m'" "isForwardPtr (m' (?v - 8))" "v' = GetForwardPtr (m' (?v - 8))"
    and keep: "\<And>u. target_ok C u \<Longrightarrow> isForwardPtr (?m (u - 8)) \<Longrightarrow> m' (u - 8) = ?m (u - 8)" by blast
  let ?rt' = "write_root loc v' (upd_mem m' rt)"
  have run: "minor_root (wadr (c_nb C)) (wadr (c_sz C)) loc (rt, nw) = (?rt', wadr (top_of C (ss @ zs) + 1))"
    using True f(1) v nw by (simp add: minor_root_def root_hit_def in_nursery_def)
  have "roots_inv C all (insert loc D) rt0 m' ?rt'"
    unfolding roots_inv_def
  proof (intro ballI conjI)
    fix l assume l: "l \<in> all"
    have o: "root_valid rt l" "root_hit C (read_root rt0 l) \<longrightarrow> target_ok C (read_root rt0 l)"
      "read_root rt l = (if l \<in> D then root_new C ?m (read_root rt0 l) else read_root rt0 l)"
      "l \<in> D \<longrightarrow> root_hit C (read_root rt0 l) \<longrightarrow> isForwardPtr (?m (read_root rt0 l - 8))"
      using ri l unfolding roots_inv_def by blast+
    show "root_valid ?rt' l" using o valid by simp
    show "root_hit C (read_root rt0 l) \<longrightarrow> target_ok C (read_root rt0 l)" by fact
    show "read_root ?rt' l = (if l \<in> insert loc D then root_new C m' (read_root rt0 l) else read_root rt0 l)"
    proof (cases "l = loc")
      case True
      then show ?thesis using valid f(4) \<open>root_hit C (read_root rt loc)\<close> v by (simp add: read_write_root root_new_def)
    next
      case False
      then have "read_root ?rt' l = read_root rt l" using o(1) valid by (simp add: read_write_root)
      then show ?thesis using o False keep [of "read_root rt0 l"] by (auto simp: root_new_def)
    qed
    show "l \<in> insert loc D \<longrightarrow> root_hit C (read_root rt0 l) \<longrightarrow> isForwardPtr (m' (read_root rt0 l - 8))"
      using f(3) o(2,4) keep [of "read_root rt0 l"] by auto
  qed
  then show ?thesis using run f(2)
    by (intro exI [of _ zs] exI [of _ ?rt'] exI [of _ "wadr (top_of C (ss @ zs) + 1)"])
      (auto simp: same_frame_write)
qed

lemma minor_roots_fold:
  assumes ok: "ctx_ok C"
  shows "gc_inv C ss (c_ot C) (mem (rt_heap rt)) \<Longrightarrow> nw = wadr (top_of C ss + 1) \<Longrightarrow>
     roots_inv C all D rt0 (mem (rt_heap rt)) rt \<Longrightarrow> set roots \<subseteq> all \<Longrightarrow>
     \<exists>zs rt' nw'. fold (minor_root (wadr (c_nb C)) (wadr (c_sz C))) roots (rt, nw) = (rt', nw')
     \<and> gc_inv C (ss @ zs) (c_ot C) (mem (rt_heap rt')) \<and> nw' = wadr (top_of C (ss @ zs) + 1)
     \<and> roots_inv C all (set roots \<union> D) rt0 (mem (rt_heap rt')) rt'
     \<and> same_frame rt rt'"
proof (induction roots arbitrary: ss rt nw D)
  case Nil
  then show ?case by (intro exI [of _ "[]"] exI [of _ rt] exI [of _ nw]) (auto simp: same_frame_refl)
next
  case (Cons loc roots)
  then obtain zs rt1 nw1 where 1: "minor_root (wadr (c_nb C)) (wadr (c_sz C)) loc (rt, nw) = (rt1, nw1)"
     "gc_inv C (ss @ zs) (c_ot C) (mem (rt_heap rt1))" "nw1 = wadr (top_of C (ss @ zs) + 1)"
     "roots_inv C all (insert loc D) rt0 (mem (rt_heap rt1)) rt1"
     "same_frame rt rt1"
    using minor_root_step [OF ok Cons.prems(1,2,3), of loc] by auto
  from Cons.IH [OF 1(2,3,4)] Cons.prems(4) obtain ys rt2 nw2 where
    2: "fold (minor_root (wadr (c_nb C)) (wadr (c_sz C))) roots (rt1, nw1) = (rt2, nw2)"
     "gc_inv C ((ss @ zs) @ ys) (c_ot C) (mem (rt_heap rt2))" "nw2 = wadr (top_of C ((ss @ zs) @ ys) + 1)"
     "roots_inv C all (set roots \<union> insert loc D) rt0 (mem (rt_heap rt2)) rt2"
     "same_frame rt1 rt2" by auto
  have "set (loc # roots) \<union> D = set roots \<union> insert loc D" by auto
  then show ?case using 1 2 same_frame_trans [OF 1(5) 2(5)]
    by (intro exI [of _ "zs @ ys"] exI [of _ rt2] exI [of _ nw2]) auto
qed

text \<open>
  Where a nursery pointer leads after the collection: the copy of its object, or the target of a forwarding
  pointer that was there before (a promotion had left it).
\<close>

definition reloc :: "MinorCtx \<Rightarrow> nat list \<Rightarrow> Value_t \<Rightarrow> Value_t" where
  "reloc C ss v = (case find (\<lambda>k. v = wadr (ss ! k)) [0..<length ss] of
     Some k \<Rightarrow> wadr (dst_of C ss k) | None \<Rightarrow> GetForwardPtr (c_mem C (v - 8)))"

definition forwarded :: "MinorCtx \<Rightarrow> nat list \<Rightarrow> Value_t \<Rightarrow> bool" where
  "forwarded C ss v \<longleftrightarrow> v \<in> wadr ` set ss \<or> isForwardPtr (c_mem C (v - 8))"

text \<open>
  The collection's result: the objects \<open>ss\<close> were copied in that order from \<open>c_ot\<close> on; header and fields of
  every copy are those of the original with the visited nursery pointers relocated, so are the roots;
  nothing visited leads into the nursery any more; all other words are as before.
\<close>

definition minor_result :: "MinorCtx \<Rightarrow> nat list \<Rightarrow> RootLoc list \<Rightarrow> Rts \<Rightarrow> Rts \<Rightarrow> bool" where
  "minor_result C ss roots rt rt' \<longleftrightarrow> (let m' = mem (rt_heap rt') in
     distinct ss \<and> set ss \<subseteq> c_objs C \<and> top_of C ss \<le> c_ot C + c_sz C \<and> same_frame rt rt'
     \<and> (\<forall>loc\<in>set roots. let v = read_root rt loc in
          read_root rt' loc = (if root_hit C v then reloc C ss v else v) \<and> \<not> root_hit C (read_root rt' loc)
          \<and> (root_hit C v \<longrightarrow> forwarded C ss v))
     \<and> (\<forall>k<length ss. let hdr = c_hdr C (ss ! k); d = dst_of C ss k in
          m' (wadr (d - 1)) = hdr \<and> (\<forall>i<c_len C (ss ! k). let v = c_mem C (wadr (ss ! k + i)) in
             m' (wadr (d + i)) = (if hit C hdr i v then reloc C ss v else v) \<and> \<not> hit C hdr i (m' (wadr (d + i)))
             \<and> (hit C hdr i v \<longrightarrow> forwarded C ss v)))
     \<and> (\<forall>x<2^61. \<not> (c_ot C \<le> x \<and> x < top_of C ss) \<longrightarrow> (\<forall>p\<in>set ss. x \<noteq> p - 1) \<longrightarrow> m' (wadr x) = c_mem C (wadr x)))"

definition ctx_of :: "MinorCtx \<Rightarrow> Rts \<Rightarrow> bool" where
  "ctx_of C rt \<longleftrightarrow> c_mem C = mem (rt_heap rt) \<and> nurseryBase (rt_vp rt) = wadr (c_nb C)
     \<and> allocPtr (rt_vp rt) = wadr (c_nb C + c_sz C + 1) \<and> oldTop (rt_vp rt) = wadr (c_ot C)"

definition roots_ok :: "MinorCtx \<Rightarrow> RootLoc list \<Rightarrow> Rts \<Rightarrow> bool" where
  "roots_ok C roots rt \<longleftrightarrow> (\<forall>loc\<in>set roots. root_valid rt loc
     \<and> (root_hit C (read_root rt loc) \<longrightarrow> target_ok C (read_root rt loc)))"

lemma fwd_reloc:
  assumes ok: "ctx_ok C" and inv: "gc_inv C ss s m" and t: "target_ok C v" and f: "isForwardPtr (m (v - 8))"
  shows "GetForwardPtr (m (v - 8)) = reloc C ss v \<and> forwarded C ss v"
proof -
  obtain q where q: "v = wadr q" "c_nb C < q" "q \<le> c_nb C + c_sz C" using t by (auto simp: target_ok_def)
  have q60: "q < 2 ^ 60" using q ok by (simp add: ctx_ok_def)
  have v8: "v - 8 = wadr (q - 1)" using q by (simp add: wadr_pred)
  have eq: "v = wadr (ss ! k) \<longleftrightarrow> ss ! k = q" if "k < length ss" for k
  proof -
    have "ss ! k \<in> c_objs C" using inv nth_mem [OF that] by (auto simp: gc_inv_def)
    then have "ss ! k < 2 ^ 61" using obj_bounds [OF ok] by fastforce
    then show ?thesis using q(1) q60 by auto
  qed
  show ?thesis
  proof (cases "q \<in> set ss")
    case True
    then obtain k where k: "k < length ss" "q = ss ! k" by (auto simp: in_set_conv_nth)
    have "dst_of C ss k \<le> c_ot C + c_sz C" using dst_of_bound [OF k(1), of C] inv_top [OF ok inv] by simp
    then have d: "dst_of C ss k < 2 ^ 45" using ok by (simp add: ctx_ok_def)
    have 1: "GetForwardPtr (m (v - 8)) = wadr (dst_of C ss k)"
      unfolding v8 gc_inv_hdr(2) [OF ok inv q(2) q60 k] by (intro GetForwardPtr_Make wadr_61 d)
    have "find (\<lambda>k. v = wadr (ss ! k)) [0..<length ss] = Some k"
    proof -
      have "\<exists>i<length [0..<length ss]. v = wadr (ss ! ([0..<length ss] ! i)) \<and> k = [0..<length ss] ! i
          \<and> (\<forall>j<i. \<not> v = wadr (ss ! ([0..<length ss] ! j)))"
      proof (intro exI [of _ k] conjI allI impI)
        fix j assume j: "j < k"
        have "distinct ss" using inv by (simp add: gc_inv_def)
        then have "ss ! j \<noteq> ss ! k" using j k(1) nth_eq_iff_index_eq [of ss j k] by auto
        then show "\<not> v = wadr (ss ! ([0..<length ss] ! j))" using j k eq [of j] by simp
      qed (use k q in auto)
      then show ?thesis by (simp only: find_Some_iff)
    qed
    then show ?thesis using 1 True q(1) by (simp add: reloc_def forwarded_def)
  next
    case False
    then have "find (\<lambda>k. v = wadr (ss ! k)) [0..<length ss] = None"
      using eq by (auto simp: find_None_iff in_set_conv_nth)
    moreover have "m (v - 8) = c_hdr C q" unfolding v8 by (rule gc_inv_hdr(1) [OF ok inv q(2) q60 False])
    ultimately show ?thesis using f v8 by (simp add: reloc_def forwarded_def c_hdr_def)
  qed
qed

lemma minor_copy_core:
  assumes ok: "ctx_ok C" and tab: "minor_table_ok C table" and C: "ctx_of C rt" and ro: "roots_ok C roots rt"
  shows "\<exists>ss rt'. minor_copy table roots rt = Some (wadr (top_of C ss), rt') \<and> minor_result C ss roots rt rt'"
proof -
  have asz: "allocPtr (rt_vp rt) - nurseryBase (rt_vp rt) - 8 = wadr (c_sz C)"
    using C wadr_diff [of "c_nb C" "c_nb C + c_sz C + 1"] by (simp add: ctx_of_def)
  have gi0: "gc_inv C [] (c_ot C) (mem (rt_heap rt))" using C by (simp add: gc_inv_def ctx_of_def)
  have ri0: "roots_inv C (set roots) {} rt (mem (rt_heap rt)) rt" using ro by (auto simp: roots_inv_def roots_ok_def)
  obtain ss1 rt1 nw1 where 1: "fold (minor_root (wadr (c_nb C)) (wadr (c_sz C))) roots (rt, wadr (c_ot C + 1)) = (rt1, nw1)"
     "gc_inv C ss1 (c_ot C) (mem (rt_heap rt1))" "nw1 = wadr (top_of C ss1 + 1)"
     "roots_inv C (set roots) (set roots) rt (mem (rt_heap rt1)) rt1" "same_frame rt rt1"
    using minor_roots_fold [OF ok gi0 _ ri0 subset_refl, of "wadr (c_ot C + 1)"] by (auto simp: top_of_def)
  have t0: "top_of C (take 0 ss1) = c_ot C" by (simp add: top_of_def)
  obtain zs m' where 2: "minor_scan table (wadr (c_nb C)) (wadr (c_sz C)) (wadr (c_ot C)) (mem (rt_heap rt1), nw1)
      = Some (wadr (top_of C (ss1 @ zs)), m', wadr (top_of C (ss1 @ zs) + 1))"
    "gc_inv C (ss1 @ zs) (top_of C (ss1 @ zs)) m'"
    using minor_scan_loop [OF ok tab, of ss1 0 "mem (rt_heap rt1)"] 1(2,3) unfolding t0 by auto
  let ?ss = "ss1 @ zs" and ?rt' = "upd_mem m' rt1"
  have run: "minor_copy table roots rt = Some (wadr (top_of C ?ss), ?rt')"
    using C 1(1) 2(1) asz by (simp add: minor_copy_def Let_def ctx_of_def wadr_Suc)
  have root: "read_root ?rt' loc = (if root_hit C v then reloc C ?ss v else v) \<and> \<not> root_hit C (read_root ?rt' loc)
          \<and> (root_hit C v \<longrightarrow> forwarded C ?ss v)"
    if loc: "loc \<in> set roots" and v: "v = read_root rt loc" for loc v
  proof (cases "root_hit C v")
    case True
    then have t: "target_ok C v" and f1: "isForwardPtr (mem (rt_heap rt1) (v - 8))"
      and r: "read_root rt1 loc = GetForwardPtr (mem (rt_heap rt1) (v - 8))"
      using 1(4) loc v unfolding roots_inv_def root_new_def by auto
    have st: "m' (v - 8) = mem (rt_heap rt1) (v - 8)" by (rule fwd_stable [OF ok 1(2) 2(2) t f1])
    then have f: "isForwardPtr (m' (v - 8))" using f1 by simp
    have "read_root ?rt' loc = GetForwardPtr (m' (v - 8))" using r st by simp
    moreover note fwd_reloc [OF ok 2(2) t f] fwd_target [OF ok 2(2) t f]
    ultimately show ?thesis using True by (simp add: root_hit_def)
  next
    case False
    then have "read_root rt1 loc = v" using 1(4) loc v unfolding roots_inv_def root_new_def by auto
    then show ?thesis using False by simp
  qed
  have copy: "m' (wadr (dst_of C ?ss k - 1)) = c_hdr C (?ss ! k) \<and> (\<forall>i<c_len C (?ss ! k). let v = c_mem C (wadr (?ss ! k + i)) in
       m' (wadr (dst_of C ?ss k + i)) = (if hit C (c_hdr C (?ss ! k)) i v then reloc C ?ss v else v)
       \<and> \<not> hit C (c_hdr C (?ss ! k)) i (m' (wadr (dst_of C ?ss k + i))) \<and> (hit C (c_hdr C (?ss ! k)) i v \<longrightarrow> forwarded C ?ss v))"
    if k: "k < length ?ss" for k
  proof (intro conjI allI impI)
    show "m' (wadr (dst_of C ?ss k - 1)) = c_hdr C (?ss ! k)" using 2(2) k by (simp add: gc_inv_def)
    fix i assume i: "i < c_len C (?ss ! k)"
    let ?v = "c_mem C (wadr (?ss ! k + i))" and ?x = "dst_of C ?ss k + i" and ?h = "c_hdr C (?ss ! k)"
    have "?x < top_of C ?ss" using dst_of_bound [OF k, of C] i by simp
    then have w: "m' (wadr ?x) = newv C m' ?h i ?v" and f: "hit C ?h i ?v \<Longrightarrow> isForwardPtr (m' (?v - 8))"
      using 2(2) k i unfolding gc_inv_def Let_def by (metis (no_types, lifting))+
    have "hit C ?h i ?v \<Longrightarrow> target_ok C ?v"
      using ok 2(2) k i nth_mem [OF k] unfolding ctx_ok_def gc_inv_def by blast
    then show "let v = ?v in m' (wadr ?x) = (if hit C ?h i v then reloc C ?ss v else v) \<and> \<not> hit C ?h i (m' (wadr ?x))
        \<and> (hit C ?h i v \<longrightarrow> forwarded C ?ss v)"
      using w f fwd_reloc [OF ok 2(2), of ?v] fwd_target [OF ok 2(2), of ?v]
      by (auto simp: Let_def newv_def) (simp add: hit_def)
  qed
  have "same_frame rt ?rt'"
    using 1(5) by (auto simp: same_frame_def upd_mem_def)
  moreover have "distinct ?ss" "set ?ss \<subseteq> c_objs C" "top_of C ?ss \<le> c_ot C + c_sz C"
    using 2(2) inv_top [OF ok 2(2)] by (auto simp: gc_inv_def)
  moreover have "\<forall>x<2^61. \<not> (c_ot C \<le> x \<and> x < top_of C ?ss) \<longrightarrow> (\<forall>p\<in>set ?ss. x \<noteq> p - 1) \<longrightarrow> m' (wadr x) = c_mem C (wadr x)"
    using 2(2) unfolding gc_inv_def by blast
  ultimately have "minor_result C ?ss roots rt ?rt'"
    using root copy unfolding minor_result_def Let_def upd_mem_simps(3) by blast
  with run show ?thesis by blast
qed

text \<open>The live objects: reached from the roots through the fields the collector follows.\<close>

inductive_set live :: "MinorCtx \<Rightarrow> Value_t set \<Rightarrow> nat set" for C V where
  live_root: "v \<in> V \<Longrightarrow> root_hit C v \<Longrightarrow> v = wadr p \<Longrightarrow> p \<in> c_objs C \<Longrightarrow> p \<in> live C V"
| live_field: "p \<in> live C V \<Longrightarrow> i < c_len C p \<Longrightarrow> hit C (c_hdr C p) i v \<Longrightarrow> v = c_mem C (wadr (p + i))
    \<Longrightarrow> v = wadr q \<Longrightarrow> q \<in> c_objs C \<Longrightarrow> q \<in> live C V"

lemma live_objs: "live C V \<subseteq> c_objs C"
  by (auto elim: live.cases)

lemma ctx_upd_simps [simp]:
  "c_hdr (C\<lparr>c_objs := X\<rparr>) = c_hdr C" "c_len (C\<lparr>c_objs := X\<rparr>) = c_len C"
  "in_nursery (C\<lparr>c_objs := X\<rparr>) = in_nursery C" "visited (C\<lparr>c_objs := X\<rparr>) = visited C"
  "hit (C\<lparr>c_objs := X\<rparr>) = hit C" "root_hit (C\<lparr>c_objs := X\<rparr>) = root_hit C"
  "top_of (C\<lparr>c_objs := X\<rparr>) = top_of C" "dst_of (C\<lparr>c_objs := X\<rparr>) = dst_of C"
  "forwarded (C\<lparr>c_objs := X\<rparr>) = forwarded C"
  by (simp_all add: fun_eq_iff c_hdr_def c_len_def in_nursery_def visited_def hit_def root_hit_def top_of_def
    dst_of_def forwarded_def)

lemma ctx_upd_fields:
  "c_objs (C\<lparr>c_objs := X\<rparr>) = X" "c_mem (C\<lparr>c_objs := X\<rparr>) = c_mem C" "c_nb (C\<lparr>c_objs := X\<rparr>) = c_nb C"
  "c_sz (C\<lparr>c_objs := X\<rparr>) = c_sz C" "c_ot (C\<lparr>c_objs := X\<rparr>) = c_ot C"
  by simp_all

lemma reloc_upd [simp]: "reloc (C\<lparr>c_objs := X\<rparr>) = reloc C"
  by (simp add: fun_eq_iff reloc_def split: option.split)

lemma forwarded_obj: "ctx_ok C \<Longrightarrow> set ss \<subseteq> c_objs C \<Longrightarrow> forwarded C ss (wadr p) \<Longrightarrow> p \<in> c_objs C \<Longrightarrow> p \<in> set ss"
proof -
  assume ok: "ctx_ok C" and ss: "set ss \<subseteq> c_objs C" and f: "forwarded C ss (wadr p)" and p: "p \<in> c_objs C"
  have "\<not> isForwardPtr (c_mem C (wadr p - 8))"
    using obj_bounds [OF ok p] isForwardPtr_even by (auto simp: c_hdr_def wadr_pred)
  then obtain q where q: "q \<in> set ss" "wadr p = wadr q" using f by (auto simp: forwarded_def)
  have "p < 2 ^ 61" "q < 2 ^ 61" using obj_bounds [OF ok p] obj_bounds [OF ok, of q] q ss by auto
  then show "p \<in> set ss" using q by auto
qed

lemma minor_result_field:
  assumes "minor_result C ss roots rt rt'" "p \<in> set ss" "i < c_len C p" "hit C (c_hdr C p) i (c_mem C (wadr (p + i)))"
  shows "forwarded C ss (c_mem C (wadr (p + i)))"
proof -
  obtain k where k: "k < length ss" "ss ! k = p" using assms(2) by (auto simp: in_set_conv_nth)
  have "\<forall>k<length ss. \<forall>i<c_len C (ss ! k). hit C (c_hdr C (ss ! k)) i (c_mem C (wadr (ss ! k + i)))
      \<longrightarrow> forwarded C ss (c_mem C (wadr (ss ! k + i)))"
    using assms(1) unfolding minor_result_def Let_def by blast
  then show ?thesis using k assms(3,4) by blast
qed

lemma minor_result_root:
  assumes "minor_result C ss roots rt rt'" "loc \<in> set roots" "root_hit C (read_root rt loc)"
  shows "forwarded C ss (read_root rt loc)"
proof -
  have "\<forall>loc\<in>set roots. root_hit C (read_root rt loc) \<longrightarrow> forwarded C ss (read_root rt loc)"
    using assms(1) unfolding minor_result_def Let_def by blast
  then show ?thesis using assms(2,3) by blast
qed

lemma minor_result_upd:
  assumes "minor_result (C\<lparr>c_objs := X\<rparr>) ss roots rt rt'" "X \<subseteq> c_objs C"
  shows "minor_result C ss roots rt rt'"
proof -
  have "minor_result (C\<lparr>c_objs := X\<rparr>) ss roots rt rt' \<longleftrightarrow> minor_result (C\<lparr>c_objs := X \<union> c_objs C\<rparr>) ss roots rt rt' \<and> set ss \<subseteq> X"
    unfolding minor_result_def Let_def by (simp only: ctx_upd_simps reloc_upd ctx_upd_fields cong: if_cong) blast
  moreover have "X \<union> c_objs C = c_objs C" using assms(2) by blast
  ultimately show ?thesis using assms(1) by simp
qed

lemma minor_result_live:
  assumes ok: "ctx_ok C" and res: "minor_result C ss roots rt rt'"
  shows "live C (read_root rt ` set roots) \<subseteq> set ss"
proof
  have ss: "set ss \<subseteq> c_objs C" using res by (simp add: minor_result_def Let_def)
  fix p assume "p \<in> live C (read_root rt ` set roots)"
  then show "p \<in> set ss"
  proof induction
    case (live_root v p)
    then have "forwarded C ss v" using minor_result_root [OF res] by auto
    then have "forwarded C ss (wadr p)" using live_root by simp
    then show ?case using live_root by (intro forwarded_obj [OF ok ss]) auto
  next
    case (live_field p i v q)
    then have "forwarded C ss (wadr q)" using minor_result_field [OF res, of p i] by simp
    then show ?case using live_field by (intro forwarded_obj [OF ok ss]) auto
  qed
qed

lemma minor_copy_live:
  assumes ok: "ctx_ok C" and tab: "minor_table_ok C table" and C: "ctx_of C rt" and ro: "roots_ok C roots rt"
  shows "\<exists>ss rt'. minor_copy table roots rt = Some (wadr (top_of C ss), rt') \<and> minor_result C ss roots rt rt'
    \<and> set ss = live C (read_root rt ` set roots)"
proof -
  let ?L = "live C (read_root rt ` set roots)"
  let ?C = "C\<lparr>c_objs := ?L\<rparr>"
  note sub = live_objs [of C "read_root rt ` set roots"]
  have tgt: "target_ok ?C v" if "target_ok C v" "\<And>p. v = wadr p \<Longrightarrow> p \<in> c_objs C \<Longrightarrow> p \<in> ?L" for v
    using that unfolding target_ok_def by auto
  have ok': "ctx_ok ?C"
  proof -
    have "target_ok ?C (c_mem C (wadr (p + i)))"
      if "p \<in> ?L" "i < c_len C p" "hit C (c_hdr C p) i (c_mem C (wadr (p + i)))" for p i
    proof (rule tgt)
      show "target_ok C (c_mem C (wadr (p + i)))" using ok that sub unfolding ctx_ok_def by blast
      show "q \<in> ?L" if "c_mem C (wadr (p + i)) = wadr q" "q \<in> c_objs C" for q
        by (rule live.live_field [OF \<open>p \<in> ?L\<close> \<open>i < c_len C p\<close> \<open>hit C _ i _\<close> refl that])
    qed
    then show ?thesis using ok sub unfolding ctx_ok_def by (auto simp: subset_iff)
  qed
  have tab': "minor_table_ok ?C table" using tab sub by (auto simp: minor_table_ok_def subset_iff)
  have C': "ctx_of ?C rt" using C by (simp add: ctx_of_def)
  have ro': "roots_ok ?C roots rt"
    unfolding roots_ok_def
  proof (intro ballI conjI impI)
    fix loc assume loc: "loc \<in> set roots"
    show "root_valid rt loc" using ro loc by (simp add: roots_ok_def)
    assume h: "root_hit ?C (read_root rt loc)"
    show "target_ok ?C (read_root rt loc)"
    proof (rule tgt)
      show "target_ok C (read_root rt loc)" using ro loc h by (simp add: roots_ok_def)
      show "p \<in> ?L" if "read_root rt loc = wadr p" "p \<in> c_objs C" for p
        using h by (intro live.live_root [OF _ _ that]) (use loc in auto)
    qed
  qed
  obtain ss rt' where r: "minor_copy table roots rt = Some (wadr (top_of C ss), rt')" "minor_result ?C ss roots rt rt'"
    using minor_copy_core [OF ok' tab' C' ro'] by auto
  then have "set ss \<subseteq> ?L" by (simp add: minor_result_def Let_def)
  moreover have res: "minor_result C ss roots rt rt'"
    by (rule minor_result_upd [OF r(2) sub])
  ultimately show ?thesis using r(1) minor_result_live [OF ok res] by blast
qed

text \<open>
  The whole minor collection when no major one follows: the old top moves behind the copies, the nursery is set up
  anew above it, the counters advance.
\<close>

definition minor_done :: "MinorCtx \<Rightarrow> nat list \<Rightarrow> Rts \<Rightarrow> Rts \<Rightarrow> Rts \<Rightarrow> bool" where
  "minor_done C ss rt1 rt2 rt' \<longleftrightarrow> (let vp = rt_vp rt'; vp1 = rt_vp rt1 in
     rt_heap rt' = rt_heap rt2 \<and> (\<forall>loc. read_root rt' loc = read_root rt2 loc)
     \<and> oldTop vp = wadr (top_of C ss) \<and> oldTop vp \<le> nurseryBase vp \<and> nurseryBase vp \<le> heapBase vp1 + VP_HEAP_SZB
     \<and> allocPtr vp = nurseryBase vp + WORD_SZB \<and> heapBase vp = heapBase vp1 \<and> nMinorGCs vp = nMinorGCs vp1 + 1
     \<and> nBytesCopied (minorStats vp) = nBytesCopied (minorStats vp1) + wadr (top_of C ss - c_ot C)
     \<and> nBytesAlloc (minorStats vp) = nBytesAlloc (minorStats vp1) + wadr (c_sz C))"

text \<open>Room: the nursery lies inside the vproc heap, and even if everything survives, no major collection is due.\<close>

definition minor_room :: "MinorCtx \<Rightarrow> nat \<Rightarrow> Rts \<Rightarrow> bool" where
  "minor_room C hb rt \<longleftrightarrow> heapBase (rt_vp rt) = wadr hb \<and> hb \<le> c_ot C \<and> c_nb C + c_sz C < hb + 131072
     \<and> unat (MajorGCThreshold (rt_heap rt)) \<le> 8 * (hb + 131072 - (c_ot C + c_sz C)) \<and> \<not> globalGCPending (rt_vp rt)"

lemma VP_HEAP_SZB_wadr: "VP_HEAP_SZB = wadr 131072"
  by (simp add: VP_HEAP_SZB_def wadr_def)

lemma wadr_plus: "wadr a + wadr b = wadr (a + b)"
  by (simp add: wadr_def algebra_simps)

lemma minor_no_major:
  assumes ok: "ctx_ok C" and room: "minor_room C hb rt" and t: "c_ot C \<le> t" "t \<le> c_ot C + c_sz C"
  shows "MajorGCThreshold (rt_heap rt) \<le> VP_HEAP_SZB - (wadr t - wadr hb)"
proof -
  have b: "hb \<le> t" "t < hb + 131072" "hb + 131072 < 2 ^ 61"
    using ok room t by (auto simp: minor_room_def ctx_ok_def)
  have "VP_HEAP_SZB - (wadr t - wadr hb) = wadr (131072 - (t - hb))"
    using b by (simp add: VP_HEAP_SZB_wadr wadr_diff)
  moreover have "unat (wadr (131072 - (t - hb))) = 8 * (131072 - (t - hb))" using b by (intro unat_wadr) simp
  moreover have "hb + 131072 - (c_ot C + c_sz C) \<le> 131072 - (t - hb)" using b t by linarith
  moreover have "unat (MajorGCThreshold (rt_heap rt)) \<le> 8 * (hb + 131072 - (c_ot C + c_sz C))"
    using room by (simp add: minor_room_def)
  ultimately show ?thesis unfolding word_le_nat_alt by simp
qed

lemma read_root_vp: "regs vp = regs (rt_vp rt) \<Longrightarrow> read_root (rt\<lparr>rt_vp := vp\<rparr>) loc = read_root rt loc"
  by (cases loc) simp_all

lemma SetAllocPtr_regs [simp]: "regs (SetAllocPtr mx vp) = regs vp" "heapBase (SetAllocPtr mx vp) = heapBase vp"
  "oldTop (SetAllocPtr mx vp) = oldTop vp" "nMinorGCs (SetAllocPtr mx vp) = nMinorGCs vp"
  "minorStats (SetAllocPtr mx vp) = minorStats vp" "majorStats (SetAllocPtr mx vp) = majorStats vp"
  by (simp_all add: SetAllocPtr_def Let_def)

lemma minor_stats_simps [simp]: "regs (minor_stats n vp) = regs vp" "heapBase (minor_stats n vp) = heapBase vp"
  "oldTop (minor_stats n vp) = oldTop vp" "nMinorGCs (minor_stats n vp) = nMinorGCs vp + 1"
  "globalGCPending (minor_stats n vp) = globalGCPending vp"
  "nBytesCopied (minorStats (minor_stats n vp)) = nBytesCopied (minorStats vp) + (n - oldTop vp)"
  "nBytesAlloc (minorStats (minor_stats n vp)) = nBytesAlloc (minorStats vp) + (allocPtr vp - nurseryBase vp - WORD_SZB)"
  by (simp_all add: minor_stats_def Let_def)

text \<open>C1: \<^verbatim>\<open>MinorGC\<close> without a following major collection ends and copies exactly the objects that are
  reachable from the roots through the fields the collector visits: every visited nursery pointer is redirected to the
  copy (or along a forwarding pointer that was there), copies keep header and raw fields, nothing visited leads into
  the nursery afterwards, other memory is unchanged, the old region ends behind the copies and the nursery is set up
  above it.\<close>

lemma MinorGC_copies_live:
  assumes mr: "minor_roots rt = Some (roots, rt1)" and ok: "ctx_ok C" and tab: "minor_table_ok C table"
    and C: "ctx_of C rt1" and ro: "roots_ok C roots rt1" and room: "minor_room C hb rt1"
  shows "\<exists>ss rt2 rt'. MinorGC majorGC table rt = Some rt' \<and> minor_result C ss roots rt1 rt2
    \<and> set ss = live C (read_root rt1 ` set roots) \<and> minor_done C ss rt1 rt2 rt'"
proof -
  obtain ss rt2 where r: "minor_copy table roots rt1 = Some (wadr (top_of C ss), rt2)" "minor_result C ss roots rt1 rt2"
    "set ss = live C (read_root rt1 ` set roots)"
    using minor_copy_live [OF ok tab C ro] by blast
  obtain m r' where fr: "rt_heap rt2 = (rt_heap rt1)\<lparr>mem := m\<rparr>" "rt_vp rt2 = (rt_vp rt1)\<lparr>regs := r'\<rparr>"
    using r(2) by (auto simp: minor_result_def Let_def same_frame_def)
  let ?t = "top_of C ss"
  have t: "c_ot C \<le> ?t" "?t \<le> c_ot C + c_sz C"
    using r(2) by (auto simp: minor_result_def Let_def top_of_def)
  have vp: "heapBase (rt_vp rt1) = wadr hb" "oldTop (rt_vp rt1) = wadr (c_ot C)" "\<not> globalGCPending (rt_vp rt1)"
    "nurseryBase (rt_vp rt1) = wadr (c_nb C)" "allocPtr (rt_vp rt1) = wadr (c_nb C + c_sz C + 1)"
    using C room by (auto simp: ctx_of_def minor_room_def)
  have no: "\<not> VP_HEAP_SZB - (wadr ?t - wadr hb) < MajorGCThreshold (rt_heap rt1)"
    using minor_no_major [OF ok room t] by simp
  let ?rt3 = "rt2\<lparr>rt_vp := (minor_stats (wadr ?t) (rt_vp rt2))\<lparr>oldTop := wadr ?t\<rparr>\<rparr>"
  let ?rt' = "?rt3\<lparr>rt_vp := SetAllocPtr (MaxNurserySzB (rt_heap ?rt3)) (rt_vp ?rt3)\<rparr>"
  have run: "MinorGC majorGC table rt = Some ?rt'"
    using no vp by (simp add: MinorGC_def mr r(1) Let_def fr)
  have b: "hb \<le> ?t" "?t < hb + 131072" "hb + 131072 < 2 ^ 61"
    using ok room t by (auto simp: minor_room_def ctx_ok_def)
  have hb: "unat (heapBase (rt_vp ?rt3)) + unat VP_HEAP_SZB < 2 ^ 64"
    using b vp by (simp add: VP_HEAP_SZB_wadr unat_wadr fr)
  have o: "heapBase (rt_vp ?rt3) \<le> oldTop (rt_vp ?rt3)" "oldTop (rt_vp ?rt3) \<le> heapBase (rt_vp ?rt3) + VP_HEAP_SZB"
    using b vp by (simp_all add: VP_HEAP_SZB_wadr wadr_plus fr)
  have roots: "read_root ?rt' loc = read_root rt2 loc" for loc
    by (cases loc) simp_all
  have asz: "allocPtr (rt_vp rt1) - nurseryBase (rt_vp rt1) - WORD_SZB = wadr (c_sz C)"
    unfolding vp using wadr_diff [of "c_nb C" "c_nb C + c_sz C + 1"] by simp
  have "minor_done C ss rt1 rt2 ?rt'"
    using SetAllocPtr_bounds [OF hb o, of "MaxNurserySzB (rt_heap ?rt3)"] roots vp t asz
    by (simp add: minor_done_def Let_def fr wadr_diff)
  with run r(2,3) show ?thesis by blast
qed

text \<open>A vproc heap at word 1000 with a two-word mixed object that holds a raw object and an integer, and garbage.\<close>

definition ex_minor_mem :: mem where
  "ex_minor_mem = (\<lambda>_. 0)(wadr 2000 := MIXED_HDR 3 2, wadr 2001 := wadr 2006, wadr 2002 := 77,
     wadr 2003 := RAW_HDR 1, wadr 2004 := 5, wadr 2005 := RAW_HDR 1, wadr 2006 := 9)"

definition ex_minor_ctx :: MinorCtx where
  "ex_minor_ctx = \<lparr>c_mem = ex_minor_mem, c_nb = 2000, c_sz = 7, c_ot = 1000, c_objs = {2001, 2004, 2006}, c_ps = (\<lambda>_. [0])\<rparr>"

definition ex_minor_rts :: Rts where
  "ex_minor_rts = \<lparr>rt_vp = ex_vproc\<lparr>regs := (\<lambda>_. 1)(StdEnvPtr := wadr 2001), heapBase := wadr 1000, nurseryBase := wadr 2000,
       allocPtr := wadr 2008, oldTop := wadr 1000\<rparr>, rt_heap = ex_heap\<lparr>mem := ex_minor_mem\<rparr>,
     rt_dqs = ex_deques\<lparr>PerVProcLists := (\<lambda>_. [])\<rparr>\<rparr>"

lemma ex_minor_roots: "minor_roots ex_minor_rts = Some (map VPReg local_root_regs, ex_minor_rts)"
  by (simp add: minor_roots_def ex_minor_rts_def M_NumDequeRoots_def Prune_def M_AddDequeEltsToLocalRoots_def Let_def
    upd_list_def fun_upd_idem)

lemma ex_minor_fields [simp]: "c_mem ex_minor_ctx = ex_minor_mem" "c_nb ex_minor_ctx = 2000" "c_sz ex_minor_ctx = 7"
  "c_ot ex_minor_ctx = 1000" "c_objs ex_minor_ctx = {2001, 2004, 2006}" "c_ps ex_minor_ctx k = [0]"
  by (simp_all add: ex_minor_ctx_def)

lemma ex_minor_hdr: "c_hdr ex_minor_ctx 2001 = MIXED_HDR 3 2" "c_hdr ex_minor_ctx 2004 = RAW_HDR 1"
    "c_hdr ex_minor_ctx 2006 = RAW_HDR 1"
  by (simp_all add: c_hdr_def ex_minor_mem_def)

lemma ex_minor_len: "c_len ex_minor_ctx 2001 = 2" "c_len ex_minor_ctx 2004 = 1" "c_len ex_minor_ctx 2006 = 1"
  by (simp_all add: c_len_def ex_minor_hdr GetLength_MIXED_HDR)

lemma ex_minor_ok: "ctx_ok ex_minor_ctx"
proof -
  have objs: "c_objs ex_minor_ctx = {2001, 2004, 2006}" by simp
  have n: "\<not> isVectorHdr (MIXED_HDR 3 2)" "\<not> isRawHdr (MIXED_HDR 3 2)" "\<not> isVectorHdr (RAW_HDR 1)"
    by (simp_all add: isVectorHdr_def isRawHdr_def VEC_TAG_BITS_def RAW_TAG_BITS_def)
  have t: "target_ok ex_minor_ctx (wadr 2006)"
    unfolding target_ok_def by (rule exI [of _ 2006]) simp
  have nh: "\<not> hit ex_minor_ctx (RAW_HDR 1) i v" "hit ex_minor_ctx (MIXED_HDR 3 2) i v \<Longrightarrow> i = 0" for i v
    by (auto simp: hit_def visited_def n)
  have m: "c_mem ex_minor_ctx (wadr 2001) = wadr 2006" by (simp add: ex_minor_mem_def)
  show ?thesis
    unfolding ctx_ok_def objs using nh t m n
    by (auto simp: ex_minor_hdr ex_minor_len GetLength_MIXED_HDR less_Suc_eq dest!: nh(2))
qed

lemma MinorGC_copies_live_witness:
  "\<exists>ss rt2 rt'. MinorGC (\<lambda>_ _ _. None) (\<lambda>b a i. gen_minor_scan [0] 2 b a) ex_minor_rts = Some rt'
     \<and> minor_result ex_minor_ctx ss (map VPReg local_root_regs) ex_minor_rts rt2
     \<and> 2001 \<in> set ss \<and> 2006 \<in> set ss \<and> minor_done ex_minor_ctx ss ex_minor_rts rt2 rt'"
proof -
  have tab: "minor_table_ok ex_minor_ctx (\<lambda>b a i. gen_minor_scan [0] 2 b a)"
  proof -
    have "isRawHdr (RAW_HDR 1)" by simp
    then show ?thesis
      by (auto simp: minor_table_ok_def ex_minor_hdr ex_minor_len)
  qed
  have C: "ctx_of ex_minor_ctx ex_minor_rts"
    by (simp add: ctx_of_def ex_minor_rts_def)
  have rd: "read_root ex_minor_rts (VPReg r) = (if r = StdEnvPtr then wadr 2001 else 1)" for r
    by (simp add: ex_minor_rts_def ex_vproc_def)
  have t: "target_ok ex_minor_ctx (wadr 2001)"
    unfolding target_ok_def by (rule exI [of _ 2001]) simp
  have h: "\<not> root_hit ex_minor_ctx 1" by (simp add: root_hit_def isPtr_def)
  have ro: "roots_ok ex_minor_ctx (map VPReg local_root_regs) ex_minor_rts"
    unfolding roots_ok_def
  proof
    fix loc assume "loc \<in> set (map VPReg local_root_regs)"
    then obtain r where "loc = VPReg r" by auto
    then show "root_valid ex_minor_rts loc \<and> (root_hit ex_minor_ctx (read_root ex_minor_rts loc)
        \<longrightarrow> target_ok ex_minor_ctx (read_root ex_minor_rts loc))"
      using t h rd [of r] by (simp del: read_root.simps)
  qed
  have room: "minor_room ex_minor_ctx 1000 ex_minor_rts"
    by (simp add: minor_room_def ex_minor_rts_def ex_heap_def InitHeapState_def ex_vproc_def)
  let ?V = "read_root ex_minor_rts ` set (map VPReg local_root_regs)"
  have n: "in_nursery ex_minor_ctx (wadr 2001)" "in_nursery ex_minor_ctx (wadr 2006)"
    using in_nursery_iff [OF ex_minor_ok, of 2001] in_nursery_iff [OF ex_minor_ok, of 2006] ex_minor_ok by simp_all
  have l1: "2001 \<in> live ex_minor_ctx ?V"
  proof (rule live_root [of "wadr 2001"])
    show "wadr 2001 \<in> ?V" using rd [of StdEnvPtr] by (force simp: local_root_regs_def)
  qed (use n in \<open>simp_all add: root_hit_def\<close>)
  have "2006 \<in> live ex_minor_ctx ?V"
  proof (rule live_field [OF l1, of 0 "wadr 2006"])
    show "hit ex_minor_ctx (c_hdr ex_minor_ctx 2001) 0 (wadr 2006)"
      using n by (simp add: hit_def visited_def ex_minor_hdr isVectorHdr_def isRawHdr_def VEC_TAG_BITS_def RAW_TAG_BITS_def)
  qed (simp_all add: ex_minor_len, simp_all add: ex_minor_mem_def)
  then show ?thesis
    using l1 MinorGC_copies_live [OF ex_minor_roots ex_minor_ok tab C ro room, of "\<lambda>_ _ _. None"] by metis
qed

end
