(* ===== verification/Major_GC.thy ===== *)
theory Major_GC
  imports Minor_GC
begin

text \<open>
  The major collector and promotion, \<^verbatim>\<open>gc/major-gc.c\<close>: objects of the old region of a vproc heap are copied
  into the vproc's global allocation chunk (switching chunks when it is full), the young objects are
  slid to the base of the heap. The global collection that may follow and the generated scan functions
  are parameters. A state of \<open>None\<close> inside a scan stands for the end of the process (\<^verbatim>\<open>Die\<close>
  when memory is exhausted); it is sticky and makes the operation return \<open>None\<close>.
\<close>

subsection \<open>Forwarding into the global heap\<close>

definition ForwardObjMajor :: "Value_t \<Rightarrow> VProc \<times> Heap \<Rightarrow> (Value_t \<times> VProc \<times> Heap) option" where
  "ForwardObjMajor v st = (case st of (vp, h) \<Rightarrow>
     let p = v; hdr = mem h (p - WORD_SZB)
     in if isForwardPtr hdr then Some (GetForwardPtr hdr, vp, h)
        else do {
          let len = GetLength hdr;
          (vp1, h1) \<leftarrow> (if globNextW vp + WORD_SZB * word_of_int len \<ge> globLimit vp
                        then AllocToSpaceChunk vp h else Some (vp, h));
          let newObj = globNextW vp1;
          let m1 = (mem h1)(newObj - WORD_SZB := hdr);
          let m2 = copy_words (nat len) newObj p m1;
          Some (newObj, vp1\<lparr>globNextW := newObj + WORD_SZB * word_of_int (len + 1)\<rparr>,
            h1\<lparr>mem := m2(p - WORD_SZB := MakeForwardPtr hdr newObj)\<rparr>) })"

definition set_word :: "Addr_t \<Rightarrow> Word_t \<Rightarrow> Heap \<Rightarrow> Heap" where
  "set_word a v h = h\<lparr>mem := (mem h)(a := v)\<rparr>"

type_synonym gstate = "(VProc \<times> Heap) option"

definition gmem :: "gstate \<Rightarrow> mem" where
  "gmem st = (case st of None \<Rightarrow> (\<lambda>_. 0) | Some (vp, h) \<Rightarrow> mem h)"

definition forward_slot :: "Addr_t \<Rightarrow> VProc \<times> Heap \<Rightarrow> gstate" where
  "forward_slot scanP s =
     map_option (\<lambda>(v', vp', h'). (vp', set_word scanP v' h')) (ForwardObjMajor (mem (snd s) scanP) s)"

text \<open>A field of a young object: forwarded when it leads into the old region, adjusted when it leads to a young object.\<close>

definition major_slot :: "Addr_t \<Rightarrow> Addr_t \<Rightarrow> bool \<Rightarrow> Addr_t \<Rightarrow> gstate \<Rightarrow> gstate" where
  "major_slot hb oldSzB test scanP st = Option.bind st (\<lambda>(vp, h).
     let v = mem h scanP
     in if test \<longrightarrow> isPtr v
        then if inAddrRange hb oldSzB v then forward_slot scanP (vp, h)
             else if inVPHeap hb v then Some (vp, set_word scanP (v - oldSzB) h)
             else Some (vp, h)
        else Some (vp, h))"

text \<open>A field of an object in the global heap: forwarded when it leads into the vproc heap.\<close>

definition promote_slot :: "Addr_t \<Rightarrow> bool \<Rightarrow> Addr_t \<Rightarrow> gstate \<Rightarrow> gstate" where
  "promote_slot hb test scanP st = Option.bind st (\<lambda>(vp, h).
     let v = mem h scanP
     in if (test \<longrightarrow> isPtr v) \<and> inVPHeap hb v then forward_slot scanP (vp, h) else Some (vp, h))"

type_synonym major_table = "Addr_t \<Rightarrow> Addr_t \<Rightarrow> gstate scan_table"
type_synonym promote_table = "Addr_t \<Rightarrow> gstate scan_table"

text \<open>The generated scan function of the major collector for an object of \<open>len\<close> words with pointers at \<open>ps\<close>.\<close>

definition gen_major_scan :: "nat list \<Rightarrow> nat \<Rightarrow> Addr_t \<Rightarrow> Addr_t \<Rightarrow> Addr_t \<Rightarrow> gstate \<Rightarrow> Addr_t \<times> gstate" where
  "gen_major_scan ps len hb oldSzB =
     (\<lambda>p st. (p + WORD_SZB * word_of_nat len, scan_positions (major_slot hb oldSzB False) ps p st))"

definition gen_promote_scan :: "nat list \<Rightarrow> nat \<Rightarrow> Addr_t \<Rightarrow> Addr_t \<Rightarrow> gstate \<Rightarrow> Addr_t \<times> gstate" where
  "gen_promote_scan ps len hb =
     (\<lambda>p st. (p + WORD_SZB * word_of_nat len, scan_positions (promote_slot hb False) ps p st))"

subsection \<open>Scanning to-space\<close>

definition promote_object :: "promote_table \<Rightarrow> Addr_t \<Rightarrow> Addr_t \<Rightarrow> gstate \<Rightarrow> Addr_t \<times> gstate" where
  "promote_object table hb = scan_object gmem (promote_slot hb True) (table hb)"

text \<open>The inner loop, for any treatment \<open>obj\<close> of one object: scan a chunk, again and again while objects are allocated in it.\<close>

partial_function (option) scan_chunk :: "(Addr_t \<Rightarrow> gstate \<Rightarrow> Addr_t \<times> gstate) \<Rightarrow> bool \<Rightarrow> nat \<Rightarrow> Addr_t \<Rightarrow> Addr_t \<Rightarrow> VProc \<times> Heap
    \<Rightarrow> (Addr_t \<times> Addr_t \<times> VProc \<times> Heap) option" where
  "scan_chunk obj handlingAlloc c scanPtr scanTop s =
     Option.bind (scan_while (\<lambda>st. if st = None then 0 else scanTop) obj scanPtr (Some s))
       (\<lambda>(p, st). Option.bind st (\<lambda>(vp, h).
         let h' = (if globAllocChunk vp = Some c then upd_chunk c (\<lambda>ch. ch\<lparr>scanProgress := p\<rparr>) h else h);
             top' = (if globAllocChunk vp = Some c then globNextW vp - WORD_SZB
                     else if handlingAlloc then UsedTopOfChunk vp h' c else scanTop)
         in if p < top' then scan_chunk obj handlingAlloc c p top' (vp, h')
            else Some (p, top', vp, h')))"

text \<open>The outer loop: go on to the next chunk of the list.\<close>

partial_function (option) scan_chunks :: "promote_table \<Rightarrow> Addr_t \<Rightarrow> nat \<Rightarrow> Addr_t \<Rightarrow> Addr_t \<Rightarrow> VProc \<times> Heap
    \<Rightarrow> (VProc \<times> Heap) option" where
  "scan_chunks table hb c scanPtr scanTop s =
     Option.bind (scan_chunk (promote_object table hb) (globAllocChunk (fst s) = Some c) c scanPtr scanTop s)
       (\<lambda>(p, top', vp, h).
         case nxt (chunks h c) of
           None \<Rightarrow> if p < top' then scan_chunks table hb c p top' (vp, h) else Some (vp, h)
         | Some d \<Rightarrow>
             let p' = baseAddr (chunks h d);
                 top'' = (if nxt (chunks h d) = None then globNextW vp - WORD_SZB else usedTop (chunks h d))
             in if p' < top'' then scan_chunks table hb d p' top'' (vp, h) else Some (vp, h))"

definition ScanGlobalToSpace :: "promote_table \<Rightarrow> Addr_t \<Rightarrow> nat \<Rightarrow> Addr_t \<Rightarrow> VProc \<times> Heap \<Rightarrow> (VProc \<times> Heap) option" where
  "ScanGlobalToSpace table hb scanChunk scanPtr s =
     scan_chunks table hb scanChunk scanPtr (UsedTopOfChunk (fst s) (snd s) scanChunk) s"

text \<open>The byte count of the chunks from \<open>c\<close> on; \<open>first\<close> is where the first one is counted from.\<close>

partial_function (option) copied_loop :: "VProc \<Rightarrow> Heap \<Rightarrow> Addr_t \<Rightarrow> nat \<Rightarrow> Addr_t \<Rightarrow> Addr_t option" where
  "copied_loop vp h base c n =
     (let tp = (if nxt (chunks h c) = None then globNextW vp else usedTop (chunks h c));
          n' = n + (tp - base)
      in case nxt (chunks h c) of None \<Rightarrow> Some n'
         | Some d \<Rightarrow> copied_loop vp h (baseAddr (chunks h d)) d n')"

definition copied_bytes :: "VProc \<Rightarrow> Heap \<Rightarrow> nat \<Rightarrow> Addr_t \<Rightarrow> Addr_t option" where
  "copied_bytes vp h scanChunk scanPtr = copied_loop vp h (scanPtr - WORD_SZB) scanChunk 0"

subsection \<open>A major collection\<close>

definition major_root :: "Addr_t \<Rightarrow> Addr_t \<Rightarrow> RootLoc \<Rightarrow> Rts option \<Rightarrow> Rts option" where
  "major_root hb oldSzB loc st = Option.bind st (\<lambda>rt.
     let p = read_root rt loc
     in if isPtr p
        then if inAddrRange hb oldSzB p
             then map_option (\<lambda>(v', vp', h'). write_root loc v' (rt\<lparr>rt_vp := vp', rt_heap := h'\<rparr>))
                    (ForwardObjMajor p (rt_vp rt, rt_heap rt))
             else if inVPHeap hb p then Some (write_root loc (p - oldSzB) rt)
             else Some rt
        else Some rt)"

definition memmove_words :: "Addr_t \<Rightarrow> Addr_t \<Rightarrow> Addr_t \<Rightarrow> mem \<Rightarrow> mem" where
  "memmove_words dst src n m = (\<lambda>a. if a - dst < n then m (src + (a - dst)) else m a)"

definition scan_young :: "major_table \<Rightarrow> Addr_t \<Rightarrow> Addr_t \<Rightarrow> Addr_t \<Rightarrow> VProc \<times> Heap \<Rightarrow> (VProc \<times> Heap) option" where
  "scan_young table hb oldSzB hi s =
     Option.bind (scan_while (\<lambda>st. if st = None then 0 else hi)
         (scan_object gmem (major_slot hb oldSzB True) (table hb oldSzB)) (oldTop (fst s)) (Some s)) snd"

definition major_stats :: "Addr_t \<Rightarrow> Addr_t \<Rightarrow> VProc \<Rightarrow> VProc" where
  "major_stats hi hb vp = vp\<lparr>nMajorGCs := nMajorGCs vp + 1,
     majorStats := (majorStats vp)\<lparr>nBytesCollected := nBytesCollected (majorStats vp) + (hi - hb)\<rparr>\<rparr>"

definition MajorGC :: "(RootLoc list \<Rightarrow> Rts \<Rightarrow> Rts option) \<Rightarrow> major_table \<Rightarrow> promote_table
    \<Rightarrow> RootLoc list \<Rightarrow> Addr_t \<Rightarrow> Rts \<Rightarrow> Rts option" where
  "MajorGC startGlobalGC mtable ptable roots hi rt0 = do {
     let vp0 = rt_vp rt0;
     let hb = heapBase vp0;
     let oldSzB = oldTop vp0 - hb;
     let globScan = globNextW vp0 - WORD_SZB;
     scanChunk \<leftarrow> globAllocChunk vp0;
     rt1 \<leftarrow> fold (major_root hb oldSzB) roots (Some (rt0\<lparr>rt_vp := major_stats hi hb vp0\<rparr>));
     s2 \<leftarrow> scan_young mtable hb oldSzB hi (rt_vp rt1, rt_heap rt1);
     (vp3, h3) \<leftarrow> ScanGlobalToSpace ptable hb scanChunk globScan s2;
     let youngSzB = hi - oldTop vp3;
     let h4 = h3\<lparr>mem := memmove_words hb (oldTop vp3) youngSzB (mem h3)\<rparr>;
     let vp4 = vp3\<lparr>oldTop := heapBase vp3 + youngSzB\<rparr>;
     nb \<leftarrow> copied_bytes vp4 h4 scanChunk globScan;
     let nBytes = (ucast (ucast nb :: 32 word) :: 64 word);
     let vp5 = vp4\<lparr>majorStats := (majorStats vp4)\<lparr>nBytesCopied := nBytesCopied (majorStats vp4) + (nBytes + youngSzB)\<rparr>,
                   globalStats := (globalStats vp4)\<lparr>nBytesAlloc := nBytesAlloc (globalStats vp4) + nBytes\<rparr>\<rparr>;
     (_, h5) \<leftarrow> PushToSpaceChunks vp5 scanChunk False h4;
     let rt5 = rt1\<lparr>rt_vp := vp5, rt_heap := h5\<rparr>;
     (if globalGCPending vp5 \<or> ToSpaceLimit h5 \<le> ToSpaceSz h5 then startGlobalGC roots rt5 else Some rt5) }"

subsection \<open>Promotion\<close>

definition PromoteObj :: "promote_table \<Rightarrow> VProc \<Rightarrow> Heap \<Rightarrow> Value_t \<Rightarrow> (Value_t \<times> VProc \<times> Heap) option" where
  "PromoteObj table vp0 h0 root =
     (let hb = heapBase vp0; vp1 = vp0\<lparr>nPromotes := nPromotes vp0 + 1\<rparr>
      in if isPtr root \<and> inVPHeap hb root
         then do {
           scanChunk \<leftarrow> globAllocChunk vp1;
           let scanPtr = globNextW vp1 - WORD_SZB;
           (root', s2) \<leftarrow> ForwardObjMajor root (vp1, h0);
           (vp3, h3) \<leftarrow> ScanGlobalToSpace table hb scanChunk scanPtr s2;
           nb \<leftarrow> copied_bytes vp3 h3 scanChunk scanPtr;
           let vp4 = vp3\<lparr>nBytesPromoted := nBytesPromoted vp3 + nb\<rparr>;
           (_, h4) \<leftarrow> PushToSpaceChunks vp4 scanChunk False h3;
           Some (root', vp4, h4) }
         else Some (root, vp1, h0))"

end
