(* ===== verification/Major_Correct.thy ===== *)
theory Major_Correct
  imports Minor_Correct Major_GC
begin

text \<open>
  Correctness of the major collector and of promotion: what forwarding one object into the global heap
  does, with and without a change of chunk; the promotion of an object that holds no local pointers; a
  major collection that slides the young objects to the base of the heap.
\<close>

subsection \<open>One object\<close>

lemma ForwardObjMajor_fwd:
  "isForwardPtr (mem h (v - 8)) \<Longrightarrow> ForwardObjMajor v (vp, h) = Some (GetForwardPtr (mem h (v - 8)), vp, h)"
  by (simp add: ForwardObjMajor_def Let_def)

text \<open>Once room is made, an object is forwarded as by the minor collector.\<close>

lemma ForwardObjMajor_step:
  assumes nf: "\<not> isForwardPtr (mem h (v - 8))"
    and room: "(if globNextW vp + 8 * word_of_int (GetLength (mem h (v - 8))) \<ge> globLimit vp
        then AllocToSpaceChunk vp h else Some (vp, h)) = Some (vp1, h1)" and mem: "mem h1 = mem h"
  shows "ForwardObjMajor v (vp, h) = (case ForwardObjMinor v (mem h1, globNextW vp1) of
     (v', m', nw') \<Rightarrow> Some (v', vp1\<lparr>globNextW := nw'\<rparr>, h1\<lparr>mem := m'\<rparr>))"
  using nf mem by (simp add: ForwardObjMajor_def ForwardObjMinor_def Let_def room)

definition forwarded_to :: "mem \<Rightarrow> nat \<Rightarrow> nat \<Rightarrow> nat \<Rightarrow> mem \<Rightarrow> bool" where
  "forwarded_to m p n d m' \<longleftrightarrow> m' (wadr (d - 1)) = m (wadr (p - 1)) \<and> m' (wadr (p - 1)) = MakeForwardPtr (m (wadr (p - 1))) (wadr d)
    \<and> (\<forall>i<n. m' (wadr (d + i)) = m (wadr (p + i)))
    \<and> (\<forall>x<2^61. x \<noteq> p - 1 \<longrightarrow> \<not> (d - 1 \<le> x \<and> x < d + n) \<longrightarrow> m' (wadr x) = m (wadr x))"

lemma ForwardObjMajor_copy:
  assumes hdr: "odd (mem h (wadr (p - 1)))" "GetLength (mem h (wadr (p - 1))) = int n"
    and a: "0 < d" "0 < p" "d + n < p \<or> p + n < d" "p + n < 2 ^ 60" "d + n < 2 ^ 60"
    and room: "(if globNextW vp + 8 * word_of_int (int n) \<ge> globLimit vp
        then AllocToSpaceChunk vp h else Some (vp, h)) = Some (vp1, h1)" and mem: "mem h1 = mem h"
    and d: "globNextW vp1 = wadr d"
  shows "\<exists>m'. ForwardObjMajor (wadr p) (vp, h) = Some (wadr d, vp1\<lparr>globNextW := wadr (d + n + 1)\<rparr>, h1\<lparr>mem := m'\<rparr>)
    \<and> forwarded_to (mem h) p n d m'"
proof -
  have p8: "wadr p - 8 = wadr (p - 1)" using a(2) by (simp add: wadr_pred)
  have nf: "\<not> isForwardPtr (mem h (wadr p - 8))" unfolding p8 using hdr(1) isForwardPtr_even by blast
  note step = ForwardObjMajor_step [of h "wadr p" vp vp1 h1, OF nf _ mem, unfolded p8 hdr(2), OF room]
  show ?thesis
    using ForwardObjMinor_copy [of "mem h" p n d, OF hdr a] unfolding step mem d forwarded_to_def by auto
qed

lemma room_in_chunk:
  "globNextW vp = wadr d \<Longrightarrow> globLimit vp = wadr l \<Longrightarrow> d + n < l \<Longrightarrow> l < 2 ^ 61
   \<Longrightarrow> (if globNextW vp + 8 * word_of_int (int n) \<ge> globLimit vp then AllocToSpaceChunk vp h else Some (vp, h)) = Some (vp, h)"
  using wadr_add [of d n] by (simp add: linorder_not_le)

lemma inVPHeap_wadr:
  assumes "131072 dvd hb" "hb < 2 ^ 44" "q < 2 ^ 61"
  shows "inVPHeap (wadr hb) (wadr q) \<longleftrightarrow> hb \<le> q \<and> q < hb + 131072"
proof -
  have eq: "wadr q AND NOT VP_HEAP_MASK = wadr (q div 131072 * 131072)"
  proof -
    have msk: "VP_HEAP_MASK = mask 20" by (simp add: VP_HEAP_MASK_def VP_HEAP_SZB_def mask_eq_exp_minus_1)
    have "wadr q AND NOT VP_HEAP_MASK = push_bit 20 (drop_bit 20 (wadr q))"
      unfolding msk by (rule bit_word_eqI) (auto simp: bit_simps)
    also have "drop_bit 20 (wadr q) = word_of_nat (q div 131072)"
    proof (rule word_unat_eq_iff [THEN iffD2])
      have "unat (drop_bit 20 (wadr q)) = drop_bit 20 (unat (wadr q))"
        using assms(3) by (simp add: unat_wadr unsigned_drop_bit_eq take_bit_nat_eq_self)
      also have "\<dots> = q div 131072" using assms(3) by (simp add: unat_wadr drop_bit_eq_div div_mult2_eq [symmetric, of _ 8])
      finally show "unat (drop_bit 20 (wadr q)) = unat (word_of_nat (q div 131072) :: 64 word)"
        using assms(3) by (simp add: unat_of_nat)
    qed
    finally show ?thesis by (simp add: push_bit_eq_mult wadr_def algebra_simps)
  qed
  moreover have "q div 131072 * 131072 < 2 ^ 61" using assms(3) by (auto intro: le_less_trans [of _ q])
  ultimately show ?thesis using assms unfolding inVPHeap_def eq by auto
qed

subsection \<open>Promotion of an object without local pointers\<close>

definition stays :: "Addr_t \<Rightarrow> bool \<Rightarrow> Value_t \<Rightarrow> bool" where
  "stays hb t v \<longleftrightarrow> \<not> ((t \<longrightarrow> isPtr v) \<and> inVPHeap hb v)"

lemma promote_slot_stays: "stays hb t (mem h p) \<Longrightarrow> promote_slot hb t p (Some (vp, h)) = Some (vp, h)"
  by (auto simp: promote_slot_def stays_def Let_def)

interpretation quiet_objects: object_scan "promote_slot hb" "\<lambda>x st. st = Some s"
  "\<lambda>t x. tr t x \<and> stays hb t (mem (snd s) (wadr x))" for hb s tr
  by unfold_locales (cases s, auto simp: promote_slot_stays)

text \<open>Field \<open>i\<close> of an object at \<open>p\<close> is visited when it is a vector element or at a pointer position of a mixed object.\<close>

definition field_visited :: "(int \<Rightarrow> nat list) \<Rightarrow> Word_t \<Rightarrow> bool \<Rightarrow> nat \<Rightarrow> bool" where
  "field_visited ps hdr t i \<longleftrightarrow> (if t then isVectorHdr hdr
     else \<not> isVectorHdr hdr \<and> \<not> isRawHdr hdr \<and> i \<in> set (ps (getID hdr)))"

lemma promote_quiet_object:
  assumes hdr: "mem h (wadr x) = hdr" and len: "GetLength hdr = int n"
    and quiet: "\<And>t i. i < n \<Longrightarrow> field_visited ps hdr t i \<Longrightarrow> stays hb t (mem h (wadr (x + 1 + i)))"
    and tab: "\<not> isVectorHdr hdr \<Longrightarrow> \<not> isRawHdr hdr \<Longrightarrow> table hb (getID hdr) = gen_promote_scan (ps (getID hdr)) n hb
      \<and> sorted_wrt (<) (ps (getID hdr)) \<and> (\<forall>p\<in>set (ps (getID hdr)). p < n)"
  shows "promote_object table hb (wadr x) (Some (vp, h)) = (wadr (x + 1 + n), Some (vp, h))"
proof -
  let ?tr = "\<lambda>t y. \<exists>i<n. y = x + 1 + i \<and> field_visited ps hdr t i"
  have tr: "?tr t (x + 1 + i) \<longleftrightarrow> i < n \<and> field_visited ps hdr t i" for t i by auto
  have stay: "stays hb t (mem h (wadr (x + 1 + i)))" if "i < n" "field_visited ps hdr t i" for t i
    using quiet that by blast
  have "\<exists>st'. scan_object gmem (promote_slot hb True) (table hb) (wadr x) (Some (vp, h)) = (wadr (x + 1 + n), st') \<and> st' = Some (vp, h)"
  proof (rule quiet_objects.one_object [where tr = ?tr and s = "(vp, h)" and hb = hb and hdr = hdr, OF refl])
    show "gmem (Some (vp, h)) (wadr x) = hdr" using hdr by (simp add: gmem_def)
    show "GetLength hdr = int n" by (rule len)
    show "\<not> (?tr t x \<and> stays hb t (mem (snd (vp, h)) (wadr x)))" for t by auto
    show "?tr True (x + 1 + i) \<and> stays hb True (mem (snd (vp, h)) (wadr (x + 1 + i)))" if "isVectorHdr hdr" "i < n" for i
      using that stay [of i True] by (auto simp: field_visited_def)
    show "\<not> (?tr t (x + 1 + i) \<and> stays hb t (mem (snd (vp, h)) (wadr (x + 1 + i))))" if "isRawHdr hdr" "i < n" for i t
      using that by (auto simp: field_visited_def isVectorHdr_def isRawHdr_def VEC_TAG_BITS_def RAW_TAG_BITS_def)
    show "\<exists>qs. sorted_wrt (<) qs \<and> (\<forall>p\<in>set qs. p < n)
      \<and> (\<forall>i<n. (?tr False (x + 1 + i) \<and> stays hb False (mem (snd (vp, h)) (wadr (x + 1 + i))) \<longleftrightarrow> i \<in> set qs)
          \<and> \<not> (?tr True (x + 1 + i) \<and> stays hb True (mem (snd (vp, h)) (wadr (x + 1 + i)))))
      \<and> table hb (getID hdr) = (\<lambda>p st. (p + WORD_SZB * word_of_nat n, scan_positions (promote_slot hb False) qs p st))"
      if nv: "\<not> isVectorHdr hdr" "\<not> isRawHdr hdr"
      using tab [OF nv] nv stay [where t = False]
      by (intro exI [of _ "ps (getID hdr)"]) (auto simp: field_visited_def gen_promote_scan_def)
  qed
  then show ?thesis by (simp add: promote_object_def)
qed

lemma scan_while_stop: "\<not> p < hi st \<Longrightarrow> scan_while hi step p st = Some (p, st)"
  by (subst scan_while.simps) simp

text \<open>Scanning the allocation chunk when the only unscanned object holds no local pointers.\<close>

lemma ScanGlobalToSpace_quiet:
  assumes c: "globAllocChunk vp = Some c" "nxt (chunks h c) = None" and nw: "globNextW vp = wadr (x + n + 2)"
    and x: "x + n + 1 < 2 ^ 61"
    and obj: "promote_object table hb (wadr x) (Some (vp, h)) = (wadr (x + 1 + n), Some (vp, h))"
  shows "ScanGlobalToSpace table hb c (wadr x) (vp, h) = Some (vp, upd_chunk c (\<lambda>ch. ch\<lparr>scanProgress := wadr (x + 1 + n)\<rparr>) h)"
proof -
  have top: "UsedTopOfChunk vp h' c = wadr (x + 1 + n)" for h' using c(1) nw by (simp add: UsedTopOfChunk_def)
  let ?hi = "\<lambda>st :: gstate. if st = None then 0 else wadr (x + 1 + n)"
  have "scan_while ?hi (promote_object table hb) (wadr x) (Some (vp, h)) = Some (wadr (x + 1 + n), Some (vp, h))"
    using x by (subst scan_while.simps) (simp add: obj scan_while_stop)
  then have chunk: "scan_chunk (promote_object table hb) True c (wadr x) (wadr (x + 1 + n)) (vp, h)
      = Some (wadr (x + 1 + n), wadr (x + 1 + n), vp, upd_chunk c (\<lambda>ch. ch\<lparr>scanProgress := wadr (x + 1 + n)\<rparr>) h)"
    using c(1) nw by (subst scan_chunk.simps) (simp add: Let_def)
  show ?thesis
    unfolding ScanGlobalToSpace_def fst_conv snd_conv top
    using c chunk by (subst scan_chunks.simps) simp
qed

lemma PushToSpaceChunks_alone: "nxt (chunks h c) = None \<Longrightarrow> PushToSpaceChunks vp c False h = Some (c, h)"
  by (simp add: PushToSpaceChunks_def)

text \<open>The bytes that were copied, when the last scan began at the last object and the chunk is the last.\<close>

lemma copied_bytes_last:
  assumes "nxt (chunks h c) = None" and "globNextW vp = wadr (d + n + 1)" and "1 < d"
  shows "copied_bytes vp h c (wadr (d - 1)) = Some (wadr (n + 1) + 16)"
proof -
  have "wadr (d - 1) - 8 = wadr (d - 1 - 1)" using assms(3) by (intro wadr_pred) simp
  moreover have "wadr (d + n + 1) - wadr (d - 1 - 1) = wadr (n + 3)"
    using assms(3) by (subst wadr_diff) (auto intro: arg_cong [of _ _ wadr])
  moreover have "wadr (n + 3) = wadr (n + 1) + 16" by (simp add: wadr_def algebra_simps)
  ultimately show ?thesis using assms(1,2) by (simp add: copied_bytes_def) (subst copied_loop.simps, simp add: Let_def)
qed


subsection \<open>Sliding the young objects\<close>

text \<open>\<open>region m x ns\<close>: the memory from word \<open>x\<close> on holds objects of \<open>ns\<close> words each, headers included in front.\<close>

fun region :: "mem \<Rightarrow> nat \<Rightarrow> nat list \<Rightarrow> bool" where
  "region m x [] \<longleftrightarrow> True"
| "region m x (n # ns) \<longleftrightarrow> GetLength (m (wadr x)) = int n \<and> region m (x + 1 + n) ns"

fun region_end :: "nat \<Rightarrow> nat list \<Rightarrow> nat" where
  "region_end x [] = x"
| "region_end x (n # ns) = region_end (x + 1 + n) ns"

text \<open>Word \<open>y\<close> is a visited field of an object of the region.\<close>

fun region_field :: "(int \<Rightarrow> nat list) \<Rightarrow> mem \<Rightarrow> nat \<Rightarrow> nat list \<Rightarrow> bool \<Rightarrow> nat \<Rightarrow> bool" where
  "region_field ps m x [] t y \<longleftrightarrow> False"
| "region_field ps m x (n # ns) t y \<longleftrightarrow>
     (\<exists>i<n. y = x + 1 + i \<and> field_visited ps (m (wadr x)) t i) \<or> region_field ps m (x + 1 + n) ns t y"

fun region_table :: "major_table \<Rightarrow> (int \<Rightarrow> nat list) \<Rightarrow> Addr_t \<Rightarrow> Addr_t \<Rightarrow> mem \<Rightarrow> nat \<Rightarrow> nat list \<Rightarrow> bool" where
  "region_table table ps hb osz m x [] \<longleftrightarrow> True"
| "region_table table ps hb osz m x (n # ns) \<longleftrightarrow> (let hdr = m (wadr x) in
     (\<not> isVectorHdr hdr \<longrightarrow> \<not> isRawHdr hdr \<longrightarrow> table hb osz (getID hdr) = gen_major_scan (ps (getID hdr)) n hb osz
      \<and> sorted_wrt (<) (ps (getID hdr)) \<and> (\<forall>p\<in>set (ps (getID hdr)). p < n))
     \<and> region_table table ps hb osz m (x + 1 + n) ns)"

lemma region_end_le: "x \<le> region_end x ns"
proof (induction ns arbitrary: x)
  case (Cons n ns)
  show ?case using Cons.IH [of "x + 1 + n"] by simp
qed simp

lemma region_field_bounds: "region_field ps m x ns t y \<Longrightarrow> x < y \<and> y < region_end x ns"
proof (induction ns arbitrary: x)
  case (Cons n ns)
  then show ?case using region_end_le [of "x + 1 + n" ns] by (auto dest!: Cons.IH)
qed simp

lemma field_visited_fun: "field_visited ps hdr t i \<Longrightarrow> field_visited ps hdr t' i \<Longrightarrow> t = t'"
  by (cases t; cases t') (auto simp: field_visited_def)

lemma region_field_fun: "region_field ps m x ns t y \<Longrightarrow> region_field ps m x ns t' y \<Longrightarrow> t = t'"
proof (induction ns arbitrary: x)
  case (Cons n ns)
  then show ?case by (auto dest: field_visited_fun region_field_bounds)
qed simp

text \<open>Memory in which the visited words of \<open>tr\<close> below \<open>y\<close> that lead into the vproc heap are moved by \<open>osz\<close>.\<close>

definition slid_mem :: "Addr_t \<Rightarrow> Addr_t \<Rightarrow> (bool \<Rightarrow> nat \<Rightarrow> bool) \<Rightarrow> nat \<Rightarrow> mem \<Rightarrow> mem" where
  "slid_mem hb osz tr y m = (\<lambda>a. if \<exists>z<y. a = wadr z \<and> (\<exists>t. tr t z \<and> \<not> stays hb t (m a)) then m a - osz else m a)"

definition young_inv :: "Addr_t \<Rightarrow> Addr_t \<Rightarrow> (bool \<Rightarrow> nat \<Rightarrow> bool) \<Rightarrow> VProc \<times> Heap \<Rightarrow> nat \<Rightarrow> gstate \<Rightarrow> bool" where
  "young_inv hb osz tr s x st \<longleftrightarrow> st = Some (fst s, (snd s)\<lparr>mem := slid_mem hb osz tr x (mem (snd s))\<rparr>)"

text \<open>The words that are traced: at most in one way, inside memory, and not leading into the old region.\<close>

definition tame :: "Addr_t \<Rightarrow> Addr_t \<Rightarrow> (bool \<Rightarrow> nat \<Rightarrow> bool) \<Rightarrow> mem \<Rightarrow> bool" where
  "tame hb osz tr m \<longleftrightarrow> (\<forall>t x. tr t x \<longrightarrow> x < 2 ^ 61 \<and> (\<forall>t'. tr t' x \<longrightarrow> t' = t)
     \<and> ((t \<longrightarrow> isPtr (m (wadr x))) \<longrightarrow> \<not> inAddrRange hb osz (m (wadr x))))"

lemma slid_mem_at: "x < 2 ^ 61 \<Longrightarrow> y \<le> x \<Longrightarrow> slid_mem hb osz tr y m (wadr x) = m (wadr x)"
  by (auto simp: slid_mem_def)

lemma slid_mem_pass: "(\<And>t. \<not> tr t x) \<Longrightarrow> slid_mem hb osz tr (Suc x) m = slid_mem hb osz tr x m"
  by (auto simp: slid_mem_def less_Suc_eq fun_eq_iff)

lemma slid_mem_visit:
  assumes "tame hb osz tr m" "tr t x"
  shows "slid_mem hb osz tr (Suc x) m = (if stays hb t (m (wadr x)) then slid_mem hb osz tr x m
     else (slid_mem hb osz tr x m)(wadr x := m (wadr x) - osz))"
proof -
  have x: "\<And>t'. tr t' x \<longleftrightarrow> t' = t" using assms unfolding tame_def by blast
  have "(\<exists>z<Suc x. a = wadr z \<and> (\<exists>t. tr t z \<and> \<not> stays hb t (m a)))
     \<longleftrightarrow> (\<exists>z<x. a = wadr z \<and> (\<exists>t. tr t z \<and> \<not> stays hb t (m a))) \<or> a = wadr x \<and> \<not> stays hb t (m a)" for a
    by (simp only: less_Suc_eq conj_disj_distribR ex_disj_distrib x simp_thms conj_assoc)
  then show ?thesis by (auto simp: slid_mem_def fun_eq_iff)
qed

interpretation young_objects: object_scan "major_slot hb osz" "\<lambda>x st. tame hb osz tr (mem (snd s)) \<and> young_inv hb osz tr s x st" tr
  for hb osz tr s
proof (unfold_locales, goal_cases)
  case (1 x st t)
  let ?m = "mem (snd s)"
  let ?v = "?m (wadr x)"
  have st: "st = Some (fst s, (snd s)\<lparr>mem := slid_mem hb osz tr x ?m\<rparr>)" using 1 by (simp add: young_inv_def)
  have x: "x < 2 ^ 61" "(t \<longrightarrow> isPtr ?v) \<Longrightarrow> \<not> inAddrRange hb osz ?v" using 1 by (auto simp: tame_def)
  have v: "slid_mem hb osz tr x ?m (wadr x) = ?v" by (rule slid_mem_at [OF x(1)]) simp
  have vis: "slid_mem hb osz tr (Suc x) ?m = (if stays hb t ?v then slid_mem hb osz tr x ?m
     else (slid_mem hb osz tr x ?m)(wadr x := ?v - osz))"
    using 1 by (intro slid_mem_visit) auto
  have "major_slot hb osz t (wadr x) st = Some (fst s, (snd s)\<lparr>mem := slid_mem hb osz tr (Suc x) ?m\<rparr>)"
    using x(2) unfolding st vis by (auto simp: major_slot_def Let_def v stays_def set_word_def)
  then show ?case using 1 by (simp add: young_inv_def)
next
  case (2 x st)
  then have "\<And>t. \<not> tr t x" by (metis (full_types))
  then show ?case using 2 by (simp add: young_inv_def slid_mem_pass)
qed

lemma scan_while_step: "p < hi st \<Longrightarrow> step p st = (p', st') \<Longrightarrow> scan_while hi step p st = scan_while hi step p' st'"
  by (subst scan_while.simps) simp

lemma region_table_one:
  assumes "region m x (n # ns)" "region_table table ps hb osz m x (n # ns)" "x < 2 ^ 61"
    and ti: "tame hb osz tr m" and inv: "young_inv hb osz tr (vp, h) x st" and m: "m = mem h"
    and tr: "\<And>t y. x \<le> y \<Longrightarrow> y < x + 1 + n \<Longrightarrow> tr t y \<longleftrightarrow> (\<exists>i<n. y = x + 1 + i \<and> field_visited ps (m (wadr x)) t i)"
  shows "\<exists>st'. scan_object gmem (major_slot hb osz True) (table hb osz) (wadr x) st = (wadr (x + 1 + n), st')
    \<and> young_inv hb osz tr (vp, h) (x + 1 + n) st'"
proof -
  let ?hdr = "m (wadr x)"
  have tr': "tr t (x + 1 + i) \<longleftrightarrow> field_visited ps ?hdr t i" if "i < n" for t i using tr [of "x + 1 + i" t] that by auto
  have "\<exists>st'. scan_object gmem (major_slot hb osz True) (table hb osz) (wadr x) st = (wadr (x + 1 + n), st')
    \<and> tame hb osz tr (mem (snd (vp, h))) \<and> young_inv hb osz tr (vp, h) (x + 1 + n) st'"
  proof (rule young_objects.one_object [where hdr = ?hdr])
    show "tame hb osz tr (mem (snd (vp, h))) \<and> young_inv hb osz tr (vp, h) x st" using ti inv m by simp
    show "gmem st (wadr x) = ?hdr" using inv assms(3) m by (simp add: young_inv_def gmem_def slid_mem_at)
    show "GetLength ?hdr = int n" using assms(1) by simp
    show "\<not> tr t x" for t using tr [of x t] by auto
    show "tr True (x + 1 + i)" if "isVectorHdr ?hdr" "i < n" for i
      using that tr' by (simp add: field_visited_def)
    show "\<not> tr t (x + 1 + i)" if "isRawHdr ?hdr" "i < n" for i t
      using that tr' by (auto simp: field_visited_def isVectorHdr_def isRawHdr_def VEC_TAG_BITS_def RAW_TAG_BITS_def)
    show "\<exists>qs. sorted_wrt (<) qs \<and> (\<forall>p\<in>set qs. p < n)
      \<and> (\<forall>i<n. (tr False (x + 1 + i) \<longleftrightarrow> i \<in> set qs) \<and> \<not> tr True (x + 1 + i))
      \<and> table hb osz (getID ?hdr) = (\<lambda>p st. (p + WORD_SZB * word_of_nat n, scan_positions (major_slot hb osz False) qs p st))"
      if nv: "\<not> isVectorHdr ?hdr" "\<not> isRawHdr ?hdr"
      using assms(2) nv tr' by (intro exI [of _ "ps (getID ?hdr)"]) (auto simp: Let_def field_visited_def gen_major_scan_def)
  qed
  then show ?thesis by auto
qed

lemma scan_young_loop:
  "region (mem h) x ns \<Longrightarrow> region_table table ps hb osz (mem h) x ns \<Longrightarrow> region_end x ns < 2 ^ 61
   \<Longrightarrow> tame hb osz tr (mem h) \<Longrightarrow> young_inv hb osz tr (vp, h) x st
   \<Longrightarrow> (\<And>t y. x \<le> y \<Longrightarrow> y < region_end x ns \<Longrightarrow> tr t y \<longleftrightarrow> region_field ps (mem h) x ns t y)
   \<Longrightarrow> \<exists>st'. scan_while (\<lambda>st. if st = None then 0 else wadr (region_end x ns))
        (scan_object gmem (major_slot hb osz True) (table hb osz)) (wadr x) st = Some (wadr (region_end x ns), st')
      \<and> young_inv hb osz tr (vp, h) (region_end x ns) st'"
proof (induction ns arbitrary: x st)
  case Nil
  then show ?case by (simp add: scan_while_stop young_inv_def)
next
  case (Cons n ns)
  let ?x = "x + 1 + n" and ?e = "region_end x (n # ns)"
  have le: "?x \<le> ?e" using region_end_le [of ?x ns] by simp
  have b: "x < 2 ^ 61" using le Cons.prems(3) by simp
  have "\<exists>st1. scan_object gmem (major_slot hb osz True) (table hb osz) (wadr x) st = (wadr ?x, st1)
      \<and> young_inv hb osz tr (vp, h) ?x st1"
  proof (rule region_table_one [OF Cons.prems(1,2) b Cons.prems(4,5) refl])
    fix t y assume y: "x \<le> y" "y < x + 1 + n"
    then have "\<not> region_field ps (mem h) ?x ns t y" by (auto dest: region_field_bounds)
    then show "tr t y \<longleftrightarrow> (\<exists>i<n. y = x + 1 + i \<and> field_visited ps (mem h (wadr x)) t i)"
      using Cons.prems(6) [of y t] y le by simp
  qed
  then obtain st1 where 1: "scan_object gmem (major_slot hb osz True) (table hb osz) (wadr x) st = (wadr ?x, st1)"
     "young_inv hb osz tr (vp, h) ?x st1" by blast
  obtain st2 where 2: "scan_while (\<lambda>st. if st = None then 0 else wadr (region_end ?x ns))
        (scan_object gmem (major_slot hb osz True) (table hb osz)) (wadr ?x) st1 = Some (wadr (region_end ?x ns), st2)"
     "young_inv hb osz tr (vp, h) (region_end ?x ns) st2"
  proof -
    have "\<exists>st2. scan_while (\<lambda>st. if st = None then 0 else wadr (region_end ?x ns))
        (scan_object gmem (major_slot hb osz True) (table hb osz)) (wadr ?x) st1 = Some (wadr (region_end ?x ns), st2)
      \<and> young_inv hb osz tr (vp, h) (region_end ?x ns) st2"
    proof (rule Cons.IH)
      fix t y assume y: "?x \<le> y" "y < region_end ?x ns"
      then show "tr t y \<longleftrightarrow> region_field ps (mem h) ?x ns t y" using Cons.prems(6) [of y t] by auto
    qed (use Cons.prems 1 in \<open>auto simp: Let_def\<close>)
    then show ?thesis using that by blast
  qed
  have "st \<noteq> None" using Cons.prems(5) by (simp add: young_inv_def)
  moreover have "wadr x < wadr ?e" using le b Cons.prems(3) by simp
  ultimately have "wadr x < (if st = None then 0 else wadr ?e)" by simp
  from scan_while_step [where hi = "\<lambda>st. if st = None then 0 else wadr ?e" and step = "scan_object gmem (major_slot hb osz True) (table hb osz)", OF this 1(1)] show ?case
    using 2 unfolding region_end.simps by metis
qed

text \<open>The roots: those that lead into the vproc heap are moved.\<close>

definition slid :: "Addr_t \<Rightarrow> Addr_t \<Rightarrow> Value_t \<Rightarrow> Value_t" where
  "slid hb osz v = (if isPtr v \<and> inVPHeap hb v then v - osz else v)"

lemma major_roots_fold:
  "distinct locs \<Longrightarrow> (\<forall>loc\<in>set locs. root_valid rt loc \<and> (isPtr (read_root rt loc) \<longrightarrow> \<not> inAddrRange hb osz (read_root rt loc)))
   \<Longrightarrow> \<exists>rt'. fold (major_root hb osz) locs (Some rt) = Some rt' \<and> same_frame rt rt' \<and> rt_heap rt' = rt_heap rt
      \<and> (\<forall>loc\<in>set locs. read_root rt' loc = slid hb osz (read_root rt loc))
      \<and> (\<forall>loc. root_valid rt loc \<longrightarrow> root_valid rt' loc \<and> (loc \<notin> set locs \<longrightarrow> read_root rt' loc = read_root rt loc))"
proof (induction locs arbitrary: rt)
  case Nil
  then show ?case by (simp add: same_frame_refl)
next
  case (Cons l locs)
  let ?p = "read_root rt l"
  let ?rt1 = "if isPtr ?p \<and> inVPHeap hb ?p then write_root l (?p - osz) rt else rt"
  have l: "root_valid rt l" using Cons.prems by simp
  have 1: "major_root hb osz l (Some rt) = Some ?rt1"
    using Cons.prems by (auto simp: major_root_def Let_def)
  have rd: "read_root ?rt1 loc = (if loc = l then slid hb osz ?p else read_root rt loc)" if "root_valid rt loc" for loc
    using that l by (simp add: read_write_root slid_def)
  have val: "root_valid ?rt1 loc = root_valid rt loc" for loc using l by simp
  have fr: "same_frame rt ?rt1" "rt_heap ?rt1 = rt_heap rt"
  proof -
    have "same_frame rt (write_root l v rt)" for v
      unfolding same_frame_def by (cases l) (auto intro!: exI [of _ "mem (rt_heap rt)"] exI [of _ "regs (rt_vp (write_root l v rt))"])
    then show "same_frame rt ?rt1" by (simp add: same_frame_refl)
  qed simp
  have pre: "distinct locs" "\<forall>loc\<in>set locs. root_valid ?rt1 loc \<and> (isPtr (read_root ?rt1 loc) \<longrightarrow> \<not> inAddrRange hb osz (read_root ?rt1 loc))"
    using Cons.prems rd val by auto
  from Cons.IH [OF this] obtain rt2 where 2: "fold (major_root hb osz) locs (Some ?rt1) = Some rt2" "same_frame ?rt1 rt2"
    "rt_heap rt2 = rt_heap ?rt1" "\<forall>loc\<in>set locs. read_root rt2 loc = slid hb osz (read_root ?rt1 loc)"
    "\<forall>loc. root_valid ?rt1 loc \<longrightarrow> root_valid rt2 loc \<and> (loc \<notin> set locs \<longrightarrow> read_root rt2 loc = read_root ?rt1 loc)" by blast
  have "\<forall>loc\<in>set (l # locs). read_root rt2 loc = slid hb osz (read_root rt loc)"
    using 2(4,5) rd val Cons.prems by (metis distinct.simps(2) set_ConsD list.set_intros)
  moreover have "\<forall>loc. root_valid rt loc \<longrightarrow> root_valid rt2 loc \<and> (loc \<notin> set (l # locs) \<longrightarrow> read_root rt2 loc = read_root rt loc)"
    using 2(5) rd val by auto
  moreover have "same_frame rt rt2" by (rule same_frame_trans [OF fr(1) 2(2)])
  ultimately show ?case using 1 2(1,3) fr(2) by auto
qed

lemma ScanGlobalToSpace_empty:
  assumes c: "globAllocChunk vp = Some c" "nxt (chunks h c) = None"
  shows "ScanGlobalToSpace table hb c (globNextW vp - 8) (vp, h)
    = Some (vp, upd_chunk c (\<lambda>ch. ch\<lparr>scanProgress := globNextW vp - 8\<rparr>) h)"
proof -
  have top: "UsedTopOfChunk vp h' c = globNextW vp - 8" for h' using c(1) by (simp add: UsedTopOfChunk_def)
  have "scan_chunk (promote_object table hb) True c (globNextW vp - 8) (globNextW vp - 8) (vp, h)
      = Some (globNextW vp - 8, globNextW vp - 8, vp, upd_chunk c (\<lambda>ch. ch\<lparr>scanProgress := globNextW vp - 8\<rparr>) h)"
    using c(1) by (subst scan_chunk.simps) (simp add: Let_def scan_while_stop)
  then show ?thesis
    unfolding ScanGlobalToSpace_def fst_conv snd_conv top
    using c by (subst scan_chunks.simps) simp
qed

lemma scan_young_slid:
  assumes reg: "region (mem h) x ns" "region_end x ns < 2 ^ 61" and tab: "region_table table ps hb osz (mem h) x ns"
    and ot: "oldTop vp = wadr x"
    and tame: "\<And>t y. region_field ps (mem h) x ns t y \<Longrightarrow> (t \<longrightarrow> isPtr (mem h (wadr y))) \<Longrightarrow> \<not> inAddrRange hb osz (mem h (wadr y))"
  shows "scan_young table hb osz (wadr (region_end x ns)) (vp, h)
    = Some (vp, h\<lparr>mem := slid_mem hb osz (region_field ps (mem h) x ns) (region_end x ns) (mem h)\<rparr>)"
proof -
  let ?tr = "region_field ps (mem h) x ns"
  have "tame hb osz ?tr (mem h)"
    unfolding tame_def
  proof (intro allI impI conjI)
    fix t y assume f: "?tr t y"
    show "y < 2 ^ 61" using region_field_bounds [OF f] reg(2) by simp
    show "t' = t" if "?tr t' y" for t' by (rule region_field_fun [OF that f])
    show "\<not> inAddrRange hb osz (mem h (wadr y))" if "t \<longrightarrow> isPtr (mem h (wadr y))" using tame f that by blast
  qed
  moreover have "young_inv hb osz ?tr (vp, h) x (Some (vp, h))"
  proof -
    have "slid_mem hb osz ?tr x (mem h) = mem h"
      by (auto simp: slid_mem_def fun_eq_iff dest: region_field_bounds)
    then show ?thesis by (simp add: young_inv_def)
  qed
  ultimately have "\<exists>st'. scan_while (\<lambda>st. if st = None then 0 else wadr (region_end x ns))
        (scan_object gmem (major_slot hb osz True) (table hb osz)) (wadr x) (Some (vp, h)) = Some (wadr (region_end x ns), st')
      \<and> young_inv hb osz ?tr (vp, h) (region_end x ns) st'"
    by (intro scan_young_loop [OF reg(1) tab reg(2)]) auto
  then show ?thesis by (auto simp: scan_young_def ot young_inv_def)
qed

lemma memmove_words_at:
  assumes "d \<le> s" "n < 2 ^ 60" "d < 2 ^ 60" "y < 2 ^ 60"
  shows "memmove_words (wadr d) (wadr s) (wadr n) m (wadr y) = (if d \<le> y \<and> y < d + n then m (wadr (s + (y - d))) else m (wadr y))"
proof (cases "d \<le> y")
  case True
  then have "wadr y - wadr d = wadr (y - d)" by (rule wadr_diff)
  moreover have "wadr s + wadr (y - d) = wadr (s + (y - d))" by (rule wadr_plus)
  ultimately show ?thesis using True assms by (auto simp: memmove_words_def)
next
  case False
  have "unat (wadr y - wadr d) = 2 ^ 64 - (8 * d - 8 * y)"
    using False assms by (simp add: unat_sub_if' unat_wadr)
  moreover have "unat (wadr n) = 8 * n" using assms by (intro unat_wadr) simp
  ultimately have "\<not> wadr y - wadr d < wadr n" using assms by (simp add: word_less_nat_alt)
  then show ?thesis using False by (simp add: memmove_words_def)
qed

text \<open>The result of a major collection that finds nothing to copy out of the old region.\<close>

definition slide_done :: "(int \<Rightarrow> nat list) \<Rightarrow> RootLoc list \<Rightarrow> nat \<Rightarrow> nat \<Rightarrow> nat list \<Rightarrow> Rts \<Rightarrow> Rts \<Rightarrow> bool" where
  "slide_done ps roots hb ot ns rt rt' \<longleftrightarrow>
     (let m = mem (rt_heap rt); m' = mem (rt_heap rt'); osz = wadr (ot - hb); e = region_end ot ns; vp = rt_vp rt; vp' = rt_vp rt'
      in oldTop vp' = wadr (hb + (e - ot)) \<and> heapBase vp' = heapBase vp \<and> globNextW vp' = globNextW vp
       \<and> nMajorGCs vp' = nMajorGCs vp + 1
       \<and> nBytesCopied (majorStats vp') = nBytesCopied (majorStats vp) + (16 + wadr (e - ot))
       \<and> (\<forall>loc\<in>set roots. read_root rt' loc = slid (wadr hb) osz (read_root rt loc))
       \<and> (\<forall>y. ot \<le> y \<longrightarrow> y < e \<longrightarrow> m' (wadr (y - (ot - hb)))
            = (if \<exists>t. region_field ps m ot ns t y \<and> \<not> stays (wadr hb) t (m (wadr y)) then m (wadr y) - osz else m (wadr y)))
       \<and> (\<forall>y<2^60. y < hb \<or> e \<le> y \<longrightarrow> m' (wadr y) = m (wadr y)))"

text \<open>The memory: relocated fields first, then the young objects moved down.\<close>

lemma slide_memory:
  fixes m :: mem and hb ot :: nat and ns :: "nat list" and ps :: "int \<Rightarrow> nat list"
  defines "e \<equiv> region_end ot ns" and "tr \<equiv> region_field ps m ot ns"
  defines "m' \<equiv> memmove_words (wadr hb) (wadr ot) (wadr (e - ot)) (slid_mem (wadr hb) (wadr (ot - hb)) tr e m)"
  assumes hb: "hb \<le> ot" "e < 2 ^ 60" "hb < 2 ^ 60"
  shows "ot \<le> y \<Longrightarrow> y < e \<Longrightarrow> m' (wadr (y - (ot - hb)))
      = (if \<exists>t. tr t y \<and> \<not> stays (wadr hb) t (m (wadr y)) then m (wadr y) - wadr (ot - hb) else m (wadr y))"
    and "y < 2 ^ 60 \<Longrightarrow> y < hb \<or> e \<le> y \<Longrightarrow> m' (wadr y) = m (wadr y)"
proof -
  let ?m2 = "slid_mem (wadr hb) (wadr (ot - hb)) tr e m"
  have e: "ot \<le> e" unfolding e_def by (rule region_end_le)
  have mv: "m' (wadr y) = (if hb \<le> y \<and> y < hb + (e - ot) then ?m2 (wadr (ot + (y - hb))) else ?m2 (wadr y))" if "y < 2 ^ 60" for y
    unfolding m'_def using memmove_words_at [of hb ot "e - ot" y ?m2] hb e that by simp
  have m2: "?m2 (wadr y) = (if \<exists>t. tr t y \<and> \<not> stays (wadr hb) t (m (wadr y)) then m (wadr y) - wadr (ot - hb) else m (wadr y))"
    if "y < 2 ^ 60" for y
  proof -
    have "wadr y = wadr z \<longleftrightarrow> y = z" if "z < e" for z using that hb(2) \<open>y < 2 ^ 60\<close> by simp
    then have "(\<exists>z<e. wadr y = wadr z \<and> (\<exists>t. tr t z \<and> \<not> stays (wadr hb) t (m (wadr y))))
        \<longleftrightarrow> (\<exists>t. tr t y \<and> \<not> stays (wadr hb) t (m (wadr y)))"
      unfolding tr_def e_def using region_field_bounds [of ps m ot ns _ y] by metis
    then show ?thesis by (simp only: slid_mem_def)
  qed
  show "m' (wadr (y - (ot - hb)))
      = (if \<exists>t. tr t y \<and> \<not> stays (wadr hb) t (m (wadr y)) then m (wadr y) - wadr (ot - hb) else m (wadr y))"
    if y: "ot \<le> y" "y < e"
  proof -
    have "hb \<le> y - (ot - hb)" "y - (ot - hb) < hb + (e - ot)" "ot + (y - (ot - hb) - hb) = y" "y - (ot - hb) < 2 ^ 60"
      using y hb e by auto
    then show ?thesis using mv [of "y - (ot - hb)"] m2 [of y] y hb(2) by (simp only: if_True simp_thms)
  qed
  show "m' (wadr y) = m (wadr y)" if y: "y < 2 ^ 60" "y < hb \<or> e \<le> y"
  proof -
    have "\<not> tr t y" for t using region_field_bounds [of ps m ot ns t y] y(2) hb(1) by (auto simp: tr_def e_def)
    then show ?thesis using mv [OF y(1)] m2 [OF y(1)] y hb(1) e by auto
  qed
qed

text \<open>The run of the collector, up to the memory it leaves.\<close>

lemma MajorGC_run:
  assumes hb: "131072 dvd hb" "hb < 2 ^ 44" "hb \<le> ot" "region_end ot ns \<le> hb + 131072"
    and vp: "heapBase (rt_vp rt) = wadr hb" "oldTop (rt_vp rt) = wadr ot" "globAllocChunk (rt_vp rt) = Some c"
       "nxt (chunks (rt_heap rt) c) = None"
    and reg: "region (mem (rt_heap rt)) ot ns" "region_table mtable ps (wadr hb) (wadr (ot - hb)) (mem (rt_heap rt)) ot ns"
    and old_dead: "\<forall>t y. region_field ps (mem (rt_heap rt)) ot ns t y \<longrightarrow> (t \<longrightarrow> isPtr (mem (rt_heap rt) (wadr y)))
       \<longrightarrow> \<not> inAddrRange (wadr hb) (wadr (ot - hb)) (mem (rt_heap rt) (wadr y))"
    and roots: "distinct roots" "\<forall>loc\<in>set roots. root_valid rt loc
       \<and> (isPtr (read_root rt loc) \<longrightarrow> \<not> inAddrRange (wadr hb) (wadr (ot - hb)) (read_root rt loc))"
  shows "\<exists>rt'. MajorGC startGlobal mtable ptable roots (wadr (region_end ot ns)) rt
      = (if globalGCPending (rt_vp rt) \<or> ToSpaceLimit (rt_heap rt) \<le> ToSpaceSz (rt_heap rt) then startGlobal roots rt' else Some rt')
    \<and> mem (rt_heap rt') = memmove_words (wadr hb) (wadr ot) (wadr (region_end ot ns - ot))
        (slid_mem (wadr hb) (wadr (ot - hb)) (region_field ps (mem (rt_heap rt)) ot ns) (region_end ot ns) (mem (rt_heap rt)))
    \<and> (\<forall>loc\<in>set roots. read_root rt' loc = slid (wadr hb) (wadr (ot - hb)) (read_root rt loc))
    \<and> oldTop (rt_vp rt') = wadr (hb + (region_end ot ns - ot)) \<and> heapBase (rt_vp rt') = heapBase (rt_vp rt)
    \<and> globNextW (rt_vp rt') = globNextW (rt_vp rt) \<and> nMajorGCs (rt_vp rt') = nMajorGCs (rt_vp rt) + 1
    \<and> nBytesCopied (majorStats (rt_vp rt')) = nBytesCopied (majorStats (rt_vp rt)) + (16 + wadr (region_end ot ns - ot))"
proof -
  let ?e = "region_end ot ns" and ?m = "mem (rt_heap rt)" and ?osz = "wadr (ot - hb)"
  let ?tr = "region_field ps ?m ot ns"
  let ?rt0 = "rt\<lparr>rt_vp := major_stats (wadr ?e) (wadr hb) (rt_vp rt)\<rparr>"
  have rd0: "read_root ?rt0 loc = read_root rt loc" "root_valid ?rt0 loc = root_valid rt loc" for loc
    by (cases loc; simp add: major_stats_def)+
  obtain rt1 where 1: "fold (major_root (wadr hb) ?osz) roots (Some ?rt0) = Some rt1" "same_frame ?rt0 rt1" "rt_heap rt1 = rt_heap rt"
     "\<forall>loc\<in>set roots. read_root rt1 loc = slid (wadr hb) ?osz (read_root rt loc)"
    using major_roots_fold [OF roots(1), of ?rt0 "wadr hb" ?osz] roots(2) rd0 by auto
  obtain r where vp1: "rt_vp rt1 = (major_stats (wadr ?e) (wadr hb) (rt_vp rt))\<lparr>regs := r\<rparr>"
    using 1(2) by (auto simp: same_frame_def)
  let ?vp1 = "rt_vp rt1"
  have v: "oldTop ?vp1 = wadr ot" "heapBase ?vp1 = wadr hb" "globAllocChunk ?vp1 = Some c" "globNextW ?vp1 = globNextW (rt_vp rt)"
     "globalGCPending ?vp1 = globalGCPending (rt_vp rt)"
    using vp by (simp_all add: vp1 major_stats_def)
  let ?m2 = "slid_mem (wadr hb) ?osz ?tr ?e ?m" and ?gs = "globNextW (rt_vp rt) - 8"
  have 2: "scan_young mtable (wadr hb) ?osz (wadr ?e) (?vp1, rt_heap rt) = Some (?vp1, (rt_heap rt)\<lparr>mem := ?m2\<rparr>)"
    by (rule scan_young_slid [OF reg(1) _ reg(2) v(1)]) (use hb old_dead in auto)
  let ?h3 = "upd_chunk c (\<lambda>ch. ch\<lparr>scanProgress := ?gs\<rparr>) ((rt_heap rt)\<lparr>mem := ?m2\<rparr>)"
  have 3: "ScanGlobalToSpace ptable (wadr hb) c ?gs (?vp1, (rt_heap rt)\<lparr>mem := ?m2\<rparr>) = Some (?vp1, ?h3)"
    using ScanGlobalToSpace_empty [of ?vp1 c "(rt_heap rt)\<lparr>mem := ?m2\<rparr>" ptable "wadr hb"] v vp by simp
  have osz: "wadr ot - wadr hb = ?osz" using hb(3) by (rule wadr_diff)
  have esz: "wadr ?e - wadr ot = wadr (?e - ot)" by (intro wadr_diff region_end_le)
  have base: "wadr hb + wadr (?e - ot) = wadr (hb + (?e - ot))" by (rule wadr_plus)
  have bytes: "copied_bytes vp' h' c ?gs = Some 16" if "nxt (chunks h' c) = None" "globNextW vp' = globNextW (rt_vp rt)" for vp' h'
    using that by (simp add: copied_bytes_def) (subst copied_loop.simps, simp)
  have tsz: "ToSpaceLimit (upd_chunk c f h) = ToSpaceLimit h" "ToSpaceSz (upd_chunk c f h) = ToSpaceSz h" for f h
    by (simp_all add: upd_chunk_def)
  let ?h4 = "?h3\<lparr>mem := memmove_words (wadr hb) (wadr ot) (wadr (?e - ot)) ?m2\<rparr>"
  let ?vp5 = "?vp1\<lparr>oldTop := wadr (hb + (?e - ot)),
      majorStats := (majorStats ?vp1)\<lparr>nBytesCopied := nBytesCopied (majorStats ?vp1) + (16 + wadr (?e - ot))\<rparr>,
      globalStats := (globalStats ?vp1)\<lparr>nBytesAlloc := nBytesAlloc (globalStats ?vp1) + 16\<rparr>\<rparr>"
  let ?rt5 = "rt1\<lparr>rt_vp := ?vp5, rt_heap := ?h4\<rparr>"
  have run: "MajorGC startGlobal mtable ptable roots (wadr ?e) rt
      = (if globalGCPending (rt_vp rt) \<or> ToSpaceLimit (rt_heap rt) \<le> ToSpaceSz (rt_heap rt) then startGlobal roots ?rt5 else Some ?rt5)"
    using vp v by (simp add: MajorGC_def Let_def osz 1(1,3) 2 3 esz base bytes PushToSpaceChunks_alone tsz)
  have "read_root ?rt5 loc = read_root rt1 loc" for loc by (cases loc) simp_all
  then show ?thesis using run 1(4) v vp by (intro exI [of _ ?rt5]) (simp add: vp1 major_stats_def del: memmove_words_def)
qed

text \<open>C3: A major collection in which no root and no visited field of a young object leads into the old region ends; it moves
  the young objects word for word to the base of the heap, relocates roots and visited fields that lead into the vproc heap
  by the size of the old region, leaves all other memory alone, sets the old top behind them, and starts a
  global collection exactly when one is pending or to-space has reached its limit.\<close>

lemma MajorGC_slides:
  assumes hb: "131072 dvd hb" "hb < 2 ^ 44" "hb \<le> ot" "region_end ot ns \<le> hb + 131072"
    and vp: "heapBase (rt_vp rt) = wadr hb" "oldTop (rt_vp rt) = wadr ot" "globAllocChunk (rt_vp rt) = Some c"
       "nxt (chunks (rt_heap rt) c) = None"
    and reg: "region (mem (rt_heap rt)) ot ns" "region_table mtable ps (wadr hb) (wadr (ot - hb)) (mem (rt_heap rt)) ot ns"
    and old_dead: "\<And>t y. region_field ps (mem (rt_heap rt)) ot ns t y \<Longrightarrow> (t \<longrightarrow> isPtr (mem (rt_heap rt) (wadr y)))
       \<Longrightarrow> \<not> inAddrRange (wadr hb) (wadr (ot - hb)) (mem (rt_heap rt) (wadr y))"
    and roots: "distinct roots" "\<forall>loc\<in>set roots. root_valid rt loc
       \<and> (isPtr (read_root rt loc) \<longrightarrow> \<not> inAddrRange (wadr hb) (wadr (ot - hb)) (read_root rt loc))"
  shows "\<exists>rt'. MajorGC startGlobal mtable ptable roots (wadr (region_end ot ns)) rt
      = (if globalGCPending (rt_vp rt) \<or> ToSpaceLimit (rt_heap rt) \<le> ToSpaceSz (rt_heap rt) then startGlobal roots rt' else Some rt')
    \<and> slide_done ps roots hb ot ns rt rt'"
proof -
  have dead: "\<forall>t y. region_field ps (mem (rt_heap rt)) ot ns t y \<longrightarrow> (t \<longrightarrow> isPtr (mem (rt_heap rt) (wadr y)))
       \<longrightarrow> \<not> inAddrRange (wadr hb) (wadr (ot - hb)) (mem (rt_heap rt) (wadr y))"
    using old_dead by blast
  obtain rt' where "MajorGC startGlobal mtable ptable roots (wadr (region_end ot ns)) rt
      = (if globalGCPending (rt_vp rt) \<or> ToSpaceLimit (rt_heap rt) \<le> ToSpaceSz (rt_heap rt) then startGlobal roots rt' else Some rt')"
    and mem: "mem (rt_heap rt') = memmove_words (wadr hb) (wadr ot) (wadr (region_end ot ns - ot))
        (slid_mem (wadr hb) (wadr (ot - hb)) (region_field ps (mem (rt_heap rt)) ot ns) (region_end ot ns) (mem (rt_heap rt)))"
    and fs: "\<forall>loc\<in>set roots. read_root rt' loc = slid (wadr hb) (wadr (ot - hb)) (read_root rt loc)"
      "oldTop (rt_vp rt') = wadr (hb + (region_end ot ns - ot))" "heapBase (rt_vp rt') = heapBase (rt_vp rt)"
      "globNextW (rt_vp rt') = globNextW (rt_vp rt)" "nMajorGCs (rt_vp rt') = nMajorGCs (rt_vp rt) + 1"
      "nBytesCopied (majorStats (rt_vp rt')) = nBytesCopied (majorStats (rt_vp rt)) + (16 + wadr (region_end ot ns - ot))"
    using MajorGC_run [OF hb vp reg dead roots, where startGlobal = startGlobal and ptable = ptable] by blast
  moreover have "slide_done ps roots hb ot ns rt rt'"
    unfolding slide_done_def Let_def mem using fs slide_memory [of hb ot ns] hb by auto
  ultimately show ?thesis by blast
qed

subsection \<open>Examples and the chunk switch\<close>

text \<open>When an object does not fit into the rest of the allocation chunk, \<^verbatim>\<open>ForwardObjMajor\<close> takes the
  first free chunk of the node, records the used part of the old one, links the new one behind it, and copies the object
  to its start; nothing else in memory changes except the forwarding pointer.\<close>

lemma ForwardObjMajor_switches:
  assumes hdr: "odd (mem h (wadr (p - 1)))" "GetLength (mem h (wadr (p - 1))) = int n"
    and full: "globNextW vp = wadr d" "globLimit vp = wadr e" "e \<le> d + n" "d + n < 2 ^ 60"
    and free: "chain (chunks h) (freeChunks (NodeHeaps h (LocationNode (location vp)))) (c # fs)" "globAllocChunk vp = Some g"
       "chain (chunks h) (Some g) (xs @ [l])" "distinct (c # fs @ xs @ [l])"
    and b: "baseAddr (chunks h c) = wadr b" "b + 1 + n < 2 ^ 60" "b + 1 + n < p \<or> p + n < b + 1" "0 < p" "p + n < 2 ^ 60"
  shows "\<exists>vp' h'. ForwardObjMajor (wadr p) (vp, h) = Some (wadr (b + 1), vp', h') \<and> forwarded_to (mem h) p n (b + 1) (mem h')
    \<and> globAllocChunk vp' = Some c \<and> globNextW vp' = wadr (b + n + 2) \<and> usedTop (chunks h' g) = globNextW vp - 8
    \<and> chain (chunks h') (Some g) (xs @ [l, c]) \<and> sts (chunks h' c) = TO_SP_CHUNK \<and> ToSpaceSz h' = ToSpaceSz h + HEAP_CHUNK_SZB"
proof -
  let ?vp1 = "vp\<lparr>globAllocChunk := Some c, globNextW := baseAddr (chunks h c) + WORD_SZB,
        globLimit := baseAddr (chunks h c) + szB (chunks h c)\<rparr>"
  obtain h1 where a: "AllocToSpaceChunk vp h = Some (?vp1, h1)" "chain (chunks h1) (Some g) (xs @ [l, c])"
     "sts (chunks h1 c) = TO_SP_CHUNK" "usedTop (chunks h1 g) = globNextW vp - WORD_SZB"
     "ToSpaceSz h1 = ToSpaceSz h + HEAP_CHUNK_SZB" "mem h1 = mem h"
    using AllocToSpaceChunk_free [OF free] by blast
  have "wadr d + 8 * word_of_nat n = wadr (d + n)" by (rule wadr_add)
  then have room: "(if globNextW vp + 8 * word_of_int (int n) \<ge> globLimit vp then AllocToSpaceChunk vp h else Some (vp, h)) = Some (?vp1, h1)"
    using full a(1) by simp
  have g: "globNextW ?vp1 = wadr (b + 1)" using b(1) by (simp add: wadr_Suc)
  obtain m' where "ForwardObjMajor (wadr p) (vp, h) = Some (wadr (b + 1), ?vp1\<lparr>globNextW := wadr (b + 1 + n + 1)\<rparr>, h1\<lparr>mem := m'\<rparr>)"
     "forwarded_to (mem h) p n (b + 1) m'"
    using ForwardObjMajor_copy [OF hdr _ b(4,3,5,2) room a(6) g] by auto
  then show ?thesis using a by auto
qed

definition ex_prom_heap :: Heap where
  "ex_prom_heap = ex_heap\<lparr>mem := (\<lambda>_. 0)(wadr 262149 := RAW_HDR 1, wadr 262150 := 42, wadr 262154 := MIXED_HDR 3 2,
     wadr 262155 := wadr 262158, wadr 262156 := 77, wadr 262157 := RAW_HDR 1, wadr 262158 := 9)\<rparr>"

definition ex_prom_vproc :: VProc where
  "ex_prom_vproc = ex_vproc\<lparr>heapBase := wadr 262144, oldTop := wadr 262154, regs := (\<lambda>_. 1)(StdEnvPtr := wadr 262155),
     globAllocChunk := Some 3, globNextW := wadr 2097153, globLimit := wadr 2621440\<rparr>"

lemma ForwardObjMajor_switches_witness:
  "\<exists>vp' h'. ForwardObjMajor (wadr 262150) (ex_prom_vproc\<lparr>globNextW := wadr 2621440\<rparr>, upd_node 0 (\<lambda>nh. nh\<lparr>freeChunks := Some 4\<rparr>) ex_prom_heap)
      = Some (wadr 2621441, vp', h') \<and> globAllocChunk vp' = Some 4 \<and> chain (chunks h') (Some 3) [3, 4]"
  using ForwardObjMajor_switches [where h = "upd_node 0 (\<lambda>nh. nh\<lparr>freeChunks := Some 4\<rparr>) ex_prom_heap"
    and vp = "ex_prom_vproc\<lparr>globNextW := wadr 2621440\<rparr>" and p = 262150 and n = 1 and d = 2621440 and e = 2621440
    and c = 4 and fs = "[5]" and g = 3 and xs = "[]" and l = 3 and b = 2621440]
  by (auto simp: ex_prom_heap_def ex_prom_vproc_def ex_heap_def InitHeapState_def ex_chunk_def ex_vproc_def LocationNode_def)
    (auto simp: wadr_def)


lemma slide_done_young:
  "slide_done ps roots hb ot ns rt rt' \<Longrightarrow> ot \<le> y \<Longrightarrow> y < region_end ot ns \<Longrightarrow> mem (rt_heap rt') (wadr (y - (ot - hb)))
     = (if \<exists>t. region_field ps (mem (rt_heap rt)) ot ns t y \<and> \<not> stays (wadr hb) t (mem (rt_heap rt) (wadr y))
        then mem (rt_heap rt) (wadr y) - wadr (ot - hb) else mem (rt_heap rt) (wadr y))"
  unfolding slide_done_def Let_def by blast

definition ex_prom_rts :: Rts where
  "ex_prom_rts = \<lparr>rt_vp = ex_prom_vproc, rt_heap = ex_prom_heap, rt_dqs = ex_deques\<rparr>"

lemma MajorGC_slides_witness:
  "\<exists>rt'. MajorGC (\<lambda>_ _. None) (\<lambda>hb osz i. gen_major_scan [0] 2 hb osz) (\<lambda>b i. gen_promote_scan [] 1 b)
       (map VPReg local_root_regs) (wadr 262159) ex_prom_rts = Some rt'
     \<and> oldTop (rt_vp rt') = wadr 262149 \<and> read_root rt' (VPReg StdEnvPtr) = wadr 262145
     \<and> mem (rt_heap rt') (wadr 262145) = wadr 262148"
proof -
  let ?m = "mem ex_prom_heap" and ?ps = "\<lambda>_ :: int. [0 :: nat]" and ?hb = "wadr 262144" and ?roots = "map VPReg local_root_regs"
  have hdr: "?m (wadr 262154) = MIXED_HDR 3 2" "?m (wadr 262157) = RAW_HDR 1" "?m (wadr 262155) = wadr 262158"
    by (simp_all add: ex_prom_heap_def)
  have e: "region_end 262154 [2, 1] = 262159" by simp
  have kind: "\<not> isVectorHdr (MIXED_HDR 3 2)" "\<not> isRawHdr (MIXED_HDR 3 2)" "\<not> isVectorHdr (RAW_HDR 1)" "isRawHdr (RAW_HDR 1)"
    using isRawHdr_RAW_HDR [of 1] by (simp_all add: isVectorHdr_def isRawHdr_def VEC_TAG_BITS_def RAW_TAG_BITS_def)
  have field: "region_field ?ps ?m 262154 [2, 1] t y \<longleftrightarrow> \<not> t \<and> y = 262155" for t y
    by (auto simp: hdr field_visited_def kind)
  have reg: "region ?m 262154 [2, 1]" by (simp add: hdr GetLength_MIXED_HDR)
  have tab: "region_table (\<lambda>hb osz i. gen_major_scan [0] 2 hb osz) ?ps ?hb (wadr (262154 - 262144)) ?m 262154 [2, 1]"
    by (simp add: hdr kind Let_def)
  have old: "\<not> inAddrRange ?hb (wadr (262154 - 262144)) (wadr 262158)" "\<not> inAddrRange ?hb (wadr (262154 - 262144)) (wadr 262155)"
    by (simp_all add: inAddrRange_iff unat_wadr)
  have rd: "read_root ex_prom_rts (VPReg r) = (if r = StdEnvPtr then wadr 262155 else 1)" for r
    by (simp add: ex_prom_rts_def ex_prom_vproc_def)
  have "\<exists>rt'. MajorGC (\<lambda>_ _. None) (\<lambda>hb osz i. gen_major_scan [0] 2 hb osz) (\<lambda>b i. gen_promote_scan [] 1 b)
       ?roots (wadr (region_end 262154 [2, 1])) ex_prom_rts
     = (if globalGCPending (rt_vp ex_prom_rts) \<or> ToSpaceLimit (rt_heap ex_prom_rts) \<le> ToSpaceSz (rt_heap ex_prom_rts)
        then (\<lambda>_ _. None) ?roots rt' else Some rt')
     \<and> slide_done ?ps ?roots 262144 262154 [2, 1] ex_prom_rts rt'"
  proof (rule MajorGC_slides [where c = 3])
    show "distinct ?roots" by (simp add: local_root_regs_def)
    show "\<forall>loc\<in>set ?roots. root_valid ex_prom_rts loc \<and> (isPtr (read_root ex_prom_rts loc)
       \<longrightarrow> \<not> inAddrRange ?hb (wadr (262154 - 262144)) (read_root ex_prom_rts loc))"
    proof
      fix loc assume "loc \<in> set ?roots"
      then obtain r where "loc = VPReg r" by auto
      then show "root_valid ex_prom_rts loc \<and> (isPtr (read_root ex_prom_rts loc)
          \<longrightarrow> \<not> inAddrRange ?hb (wadr (262154 - 262144)) (read_root ex_prom_rts loc))"
        using rd [of r] old by (simp del: read_root.simps add: isPtr_def)
    qed
    show "\<not> inAddrRange ?hb (wadr (262154 - 262144)) (mem (rt_heap ex_prom_rts) (wadr y))"
      if "region_field ?ps (mem (rt_heap ex_prom_rts)) 262154 [2, 1] t y" for t y
    proof -
      have "region_field ?ps ?m 262154 [2, 1] t y" using that by (simp add: ex_prom_rts_def del: region_field.simps)
      then have "y = 262155" by (simp only: field)
      then show ?thesis using old hdr by (simp add: ex_prom_rts_def)
    qed
  qed (use reg tab in \<open>auto simp: ex_prom_rts_def ex_prom_vproc_def simp del: region.simps region_table.simps\<close>,
      simp_all add: ex_prom_heap_def ex_heap_def InitHeapState_def ex_chunk_def)
  then obtain rt' where rt': "MajorGC (\<lambda>_ _. None) (\<lambda>hb osz i. gen_major_scan [0] 2 hb osz) (\<lambda>b i. gen_promote_scan [] 1 b)
       ?roots (wadr 262159) ex_prom_rts = Some rt'" "slide_done ?ps ?roots 262144 262154 [2, 1] ex_prom_rts rt'"
    unfolding e by (auto simp: ex_prom_rts_def ex_prom_vproc_def ex_vproc_def ex_prom_heap_def ex_heap_def InitHeapState_def)
  have st: "\<not> stays ?hb False (wadr 262158)" "inVPHeap ?hb (wadr 262155)"
    by (simp_all add: stays_def inVPHeap_wadr)
  have env: "VPReg StdEnvPtr \<in> set ?roots" by (simp add: local_root_regs_def)
  have "read_root rt' (VPReg StdEnvPtr) = slid ?hb (wadr 10) (wadr 262155)"
    using rt'(2) env rd [of StdEnvPtr] unfolding slide_done_def Let_def by auto
  moreover have "slid ?hb (wadr 10) (wadr 262155) = wadr 262145"
    using st by (simp add: slid_def wadr_diff)
  moreover have "mem (rt_heap rt') (wadr 262145) = wadr 262158 - wadr 10"
  proof -
    have m: "mem (rt_heap ex_prom_rts) = ?m" by (simp add: ex_prom_rts_def)
    have "region_field ?ps ?m 262154 [2, 1] False 262155" unfolding field by simp
    then show ?thesis
      using slide_done_young [OF rt'(2), of 262155, unfolded m e] st hdr by (auto simp del: region_field.simps)
  qed
  ultimately show ?thesis using rt' by (auto simp: slide_done_def Let_def wadr_diff)
qed

end
