(* ===== verification/Global_GC.thy ===== *)
theory Global_GC
  imports Major_Correct
begin

text \<open>
  The global collector, \<^verbatim>\<open>gc/global-gc.c\<close>, as what one vproc does between two
  synchronisations: forwarding with a compare-and-swap on the header, turning the to-space of a node
  into from-space, scanning roots, local heap and to-space chunks, the question for the next chunk to scan,
  and the leader's reclamation of from-space. How several vprocs interact (the rendezvous and the
  end of scanning) is modelled on top of these operations in the next two theories.
\<close>

subsection \<open>Forwarding\<close>

text \<open>\<^verbatim>\<open>CompareAndSwapWord\<close> of \<^verbatim>\<open>atomic-ops.h\<close>: the old content, and the memory after the exchange.\<close>

definition CompareAndSwapWord :: "Addr_t \<Rightarrow> Word_t \<Rightarrow> Word_t \<Rightarrow> mem \<Rightarrow> Word_t \<times> mem" where
  "CompareAndSwapWord a key new_v m = (m a, if m a = key then m(a := new_v) else m)"

text \<open>
  \<open>ForwardObjGlobal\<close> in its two halves, between which other vprocs may run: reading the header and
  reserving room, then the exchange and the copy.
\<close>

datatype FwdPrep = Forwarded Value_t | Reserved Word_t

definition fwd_prepare :: "Value_t \<Rightarrow> VProc \<times> Heap \<Rightarrow> (FwdPrep \<times> VProc \<times> Heap) option" where
  "fwd_prepare v s = (case s of (vp, h) \<Rightarrow>
     let oldHdr = mem h (v - WORD_SZB)
     in if isForwardPtr oldHdr then Some (Forwarded (GetForwardPtr oldHdr), vp, h)
        else map_option (Pair (Reserved oldHdr))
          (if globNextW vp + WORD_SZB * word_of_int (GetLength oldHdr) \<ge> globLimit vp
           then AllocToSpaceChunk vp h else Some (vp, h)))"

definition fwd_install :: "Value_t \<Rightarrow> FwdPrep \<Rightarrow> VProc \<times> Heap \<Rightarrow> Value_t \<times> VProc \<times> Heap" where
  "fwd_install v prep s = (case s of (vp, h) \<Rightarrow> (case prep of
       Forwarded v' \<Rightarrow> (v', vp, h)
     | Reserved oldHdr \<Rightarrow>
         let newObj = globNextW vp; len = GetLength oldHdr;
             (hdr, m1) = CompareAndSwapWord (v - WORD_SZB) oldHdr (MakeForwardPtr oldHdr newObj) (mem h)
         in if oldHdr = hdr
            then (newObj, vp\<lparr>globNextW := newObj + WORD_SZB * word_of_int (len + 1)\<rparr>,
                  h\<lparr>mem := copy_words (nat len) newObj v (m1(newObj - WORD_SZB := hdr))\<rparr>)
            else (GetForwardPtr hdr, vp, h\<lparr>mem := m1\<rparr>)))"

definition ForwardObjGlobal :: "Value_t \<Rightarrow> VProc \<times> Heap \<Rightarrow> (Value_t \<times> VProc \<times> Heap) option" where
  "ForwardObjGlobal v s = map_option (\<lambda>(prep, s'). fwd_install v prep s') (fwd_prepare v s)"

definition global_slot :: "Addr_t \<Rightarrow> gstate \<Rightarrow> gstate" where
  "global_slot scanP st = Option.bind st (\<lambda>(vp, h).
     let v = mem h scanP
     in if isFromSpacePtr h v
        then map_option (\<lambda>(v', vp', h'). (vp', set_word scanP v' h')) (ForwardObjGlobal v (vp, h))
        else Some (vp, h))"

definition global_object :: "gstate scan_table \<Rightarrow> Addr_t \<Rightarrow> gstate \<Rightarrow> Addr_t \<times> gstate" where
  "global_object table = scan_object gmem global_slot table"

definition global_root :: "RootLoc \<Rightarrow> Rts option \<Rightarrow> Rts option" where
  "global_root loc st = Option.bind st (\<lambda>rt.
     let p = read_root rt loc
     in if isFromSpacePtr (rt_heap rt) p
        then map_option (\<lambda>(v', vp', h'). write_root loc v' (rt\<lparr>rt_vp := vp', rt_heap := h'\<rparr>))
               (ForwardObjGlobal p (rt_vp rt, rt_heap rt))
        else Some rt)"

subsection \<open>Setting up: to-space becomes from-space\<close>

partial_function (option) ConvertToSpaceChunks :: "VProc \<Rightarrow> nat option \<Rightarrow> Heap \<Rightarrow> (VProc \<times> Heap) option" where
  "ConvertToSpaceChunks self p h = (case p of None \<Rightarrow> Some (self, h)
     | Some c \<Rightarrow>
         let ch = chunks h c; node = LocationNode (location self);
             used = (ucast (if globAllocChunk self = Some c then globNextW self - WORD_SZB - baseAddr ch
                            else usedTop ch - baseAddr ch) :: 32 word);
             self' = self\<lparr>globalStats := (globalStats self)\<lparr>nBytesCollected :=
                        nBytesCollected (globalStats self) + ucast used\<rparr>\<rparr>;
             h1 = upd_chunk c (\<lambda>ch. ch\<lparr>sts := FROM_SP_CHUNK, scanProgress := 0,
                                        nxt := fromSpace (NodeHeaps h node)\<rparr>) h;
             h2 = upd_node node (\<lambda>nh. nh\<lparr>fromSpace := Some c\<rparr>) h1
         in ConvertToSpaceChunks self' (nxt ch) h2)"

definition global_setup :: "VProc \<Rightarrow> Heap \<Rightarrow> (VProc \<times> Heap) option" where
  "global_setup self h = do {
     let node = LocationNode (location self);
     let h1 = upd_node node (\<lambda>nh. nh\<lparr>completed := False\<rparr>) h;
     let h2 = (case globAllocChunk self of None \<Rightarrow> h1
               | Some c \<Rightarrow> upd_chunk c (\<lambda>ch. ch\<lparr>usedTop := globNextW self - WORD_SZB\<rparr>) h1);
     (self3, h3) \<leftarrow> ConvertToSpaceChunks self (globAllocChunk self) h2;
     (self4, h4) \<leftarrow> ConvertToSpaceChunks self3 (unscannedTo (NodeHeaps h3 node)) h3;
     Some (self4\<lparr>globAllocChunk := None\<rparr>, upd_node node (\<lambda>nh. nh\<lparr>unscannedTo := None\<rparr>) h4) }"

subsection \<open>Scanning\<close>

definition ScanVProcHeap :: "gstate scan_table \<Rightarrow> VProc \<times> Heap \<Rightarrow> (VProc \<times> Heap) option" where
  "ScanVProcHeap table s =
     Option.bind (scan_while (\<lambda>st. if st = None then 0 else oldTop (fst s)) (global_object table) (heapBase (fst s)) (Some s)) snd"

text \<open>
  The next chunk to scan. \<open>TryNext\<close> is one pass of the loop of \<^verbatim>\<open>GetNextScanChunk\<close> under the node's lock,
  \<open>MustWait\<close> says that the vproc blocks on the condition variable; \<open>AfterWait\<close> is what it does when it is woken.
\<close>

datatype ScanNext = ScanThis nat | ScanDone | MustWait

definition TryNext :: "(int \<Rightarrow> int) \<Rightarrow> VProc \<Rightarrow> int \<Rightarrow> Heap \<Rightarrow> ScanNext \<times> Heap" where
  "TryNext NumVProcsPerNode vp node h = (case unscannedTo (NodeHeaps h node) of
       Some c \<Rightarrow> (ScanThis c, upd_chunk c (\<lambda>ch. ch\<lparr>nxt := None\<rparr>)
                    (upd_node node (\<lambda>nh. nh\<lparr>unscannedTo := nxt (chunks h c)\<rparr>) h))
     | None \<Rightarrow>
         let g = the (globAllocChunk vp)
         in if scanProgress (chunks h g) < globNextW vp - WORD_SZB then (ScanThis g, h)
            else let n = numWaiting (NodeHeaps h node) + 1
                 in if n = NumVProcsPerNode node
                    then (ScanDone, upd_node node (\<lambda>nh. nh\<lparr>completed := True, numWaiting := n - 1\<rparr>) h)
                    else if \<not> completed (NodeHeaps h node) then (MustWait, upd_node node (\<lambda>nh. nh\<lparr>numWaiting := n\<rparr>) h)
                    else (ScanDone, upd_node node (\<lambda>nh. nh\<lparr>numWaiting := n - 1\<rparr>) h))"

definition AfterWait :: "(int \<Rightarrow> int) \<Rightarrow> VProc \<Rightarrow> int \<Rightarrow> Heap \<Rightarrow> ScanNext \<times> Heap" where
  "AfterWait NumVProcsPerNode vp node h =
     (let h1 = upd_node node (\<lambda>nh. nh\<lparr>numWaiting := numWaiting nh - 1\<rparr>) h
      in if completed (NodeHeaps h1 node) then (ScanDone, h1) else TryNext NumVProcsPerNode vp node h1)"

definition put_scanned :: "int \<Rightarrow> nat \<Rightarrow> Heap \<Rightarrow> Heap" where
  "put_scanned node c h = upd_node node (\<lambda>nh. nh\<lparr>scannedTo := Some c\<rparr>)
     (upd_chunk c (\<lambda>ch. ch\<lparr>nxt := scannedTo (NodeHeaps h node)\<rparr>) h)"

text \<open>The body of the loop of \<^verbatim>\<open>ScanGlobalToSpace\<close>: scan one chunk and file it.\<close>

definition scan_and_file :: "gstate scan_table \<Rightarrow> int \<Rightarrow> nat \<Rightarrow> VProc \<times> Heap \<Rightarrow> (VProc \<times> Heap) option" where
  "scan_and_file table node c s = (case s of (vp, h) \<Rightarrow> do {
     let scanPtr = (if baseAddr (chunks h c) > scanProgress (chunks h c) then baseAddr (chunks h c) else scanProgress (chunks h c));
     let scanTop = UsedTopOfChunk vp h c;
     let handlingAlloc = (globAllocChunk vp = Some c);
     (_, _, vp1, h1) \<leftarrow> scan_chunk (global_object table) handlingAlloc c scanPtr scanTop s;
     origAlloc \<leftarrow> globAllocChunk vp;
     (if handlingAlloc
      then if globAllocChunk vp1 \<noteq> Some origAlloc
           then do { tmp \<leftarrow> nxt (chunks h1 origAlloc);
                     map_option (\<lambda>(_, h2). (vp1, h2)) (PushToSpaceChunks vp1 tmp True (put_scanned node origAlloc h1)) }
           else Some (vp1, h1)
      else let h2 = put_scanned node c h1
           in if globAllocChunk vp1 \<noteq> Some origAlloc
              then map_option (\<lambda>(_, h3). (vp1, h3)) (PushToSpaceChunks vp1 origAlloc True h2)
              else Some (vp1, h2)) })"

text \<open>The loop of a vproc that is alone on its node: it never has to wait (a wait would block for ever, \<open>None\<close>).\<close>

partial_function (option) ScanGlobalToSpace_alone :: "(int \<Rightarrow> int) \<Rightarrow> gstate scan_table \<Rightarrow> int \<Rightarrow> VProc \<times> Heap
    \<Rightarrow> (VProc \<times> Heap) option" where
  "ScanGlobalToSpace_alone nv table node s =
     (case TryNext nv (fst s) node (snd s) of
        (ScanThis c, h) \<Rightarrow> Option.bind (scan_and_file table node c (fst s, h)) (ScanGlobalToSpace_alone nv table node)
      | (ScanDone, h) \<Rightarrow> Some (fst s, h)
      | (MustWait, h) \<Rightarrow> None)"

text \<open>Roots, local heap, and handing over the filled chunks, up to the scan loop.\<close>

definition GlobalGC_roots :: "gstate scan_table \<Rightarrow> RootLoc list \<Rightarrow> Rts \<Rightarrow> Rts option" where
  "GlobalGC_roots table roots rt0 = do {
     original \<leftarrow> globAllocChunk (rt_vp rt0);
     let allRoots = M_AddDequeEltsToGlobalRoots (vpid (rt_vp rt0)) (rt_dqs rt0) roots;
     rt1 \<leftarrow> fold global_root allRoots (Some rt0);
     (vp2, h2) \<leftarrow> ScanVProcHeap table (rt_vp rt1, rt_heap rt1);
     (_, h3) \<leftarrow> PushToSpaceChunks vp2 original True h2;
     Some (rt1\<lparr>rt_vp := vp2, rt_heap := h3\<rparr>) }"

definition GlobalGC_alone :: "(int \<Rightarrow> int) \<Rightarrow> gstate scan_table \<Rightarrow> RootLoc list \<Rightarrow> Rts \<Rightarrow> Rts option" where
  "GlobalGC_alone nv table roots rt0 = do {
     rt1 \<leftarrow> GlobalGC_roots table roots rt0;
     (vp2, h2) \<leftarrow> ScanGlobalToSpace_alone nv table (LocationNode (location (rt_vp rt1))) (rt_vp rt1, rt_heap rt1);
     Some (rt1\<lparr>rt_vp := vp2, rt_heap := h2\<rparr>) }"

subsection \<open>After the scan: statistics and reclamation\<close>

definition count_copied :: "Addr_t \<Rightarrow> VProc \<Rightarrow> VProc" where
  "count_copied used vp = vp\<lparr>globalStats := (globalStats vp)\<lparr>nBytesCopied :=
     nBytesCopied (globalStats vp) + ucast (ucast used :: 32 word)\<rparr>\<rparr>"

definition own_copied :: "Heap \<Rightarrow> VProc \<Rightarrow> VProc" where
  "own_copied h vp = count_copied (globNextW vp - WORD_SZB - baseAddr (chunks h (the (globAllocChunk vp)))) vp"

partial_function (option) scanned_copied :: "Heap \<Rightarrow> nat option \<Rightarrow> VProc \<Rightarrow> VProc option" where
  "scanned_copied h p vp = (case p of None \<Rightarrow> Some vp
     | Some c \<Rightarrow> scanned_copied h (nxt (chunks h c)) (count_copied (usedTop (chunks h c) - baseAddr (chunks h c)) vp))"

partial_function (option) free_chunks_loop :: "int \<Rightarrow> nat option \<Rightarrow> Heap \<Rightarrow> Heap option" where
  "free_chunks_loop i cp h = (case cp of None \<Rightarrow> Some h
     | Some c \<Rightarrow>
         let h1 = upd_chunk c (\<lambda>ch. ch\<lparr>sts := FREE_CHUNK, usedTop := baseAddr ch, nxt := freeChunks (NodeHeaps h i)\<rparr>) h;
             h2 = upd_node i (\<lambda>nh. nh\<lparr>freeChunks := Some c\<rparr>) h1
         in free_chunks_loop i (nxt (chunks h c)) h2)"

definition reclaim_node :: "int \<Rightarrow> Heap \<Rightarrow> Heap option" where
  "reclaim_node i h = do {
     let h1 = upd_node i (\<lambda>nh. nh\<lparr>unscannedTo := scannedTo nh, scannedTo := None, fromSpace := None\<rparr>) h;
     h2 \<leftarrow> free_chunks_loop i (fromSpace (NodeHeaps h i)) h1;
     Some (upd_node i (\<lambda>nh. nh\<lparr>fromSpace := None\<rparr>) h2) }"

definition reclaim_nodes :: "nat \<Rightarrow> Heap \<Rightarrow> Heap option" where
  "reclaim_nodes nNodes h = fold (\<lambda>i ho. Option.bind ho (reclaim_node (int i))) [0..<nNodes] (Some h)"

definition PER_VPROC_HEAP_SZB :: Addr_t where "PER_VPROC_HEAP_SZB = 32 * ONE_MEG"

record HeapScale =
  HeapScaleNum :: Addr_t
  HeapScaleDenom :: Addr_t

definition new_limit :: "HeapScale \<Rightarrow> nat \<Rightarrow> Addr_t \<Rightarrow> Addr_t" where
  "new_limit sc numVProcs toSz =
     (let baseLimit = HeapScaleNum sc * toSz div HeapScaleDenom sc;
          baseLimit' = (if baseLimit < toSz then toSz else baseLimit)
      in baseLimit' + word_of_nat numVProcs * PER_VPROC_HEAP_SZB)"

definition leader_stats :: "nat \<Rightarrow> Heap \<Rightarrow> VProc \<Rightarrow> VProc option" where
  "leader_stats nNodes h vp =
     fold (\<lambda>i vo. Option.bind vo (scanned_copied h (scannedTo (NodeHeaps h (int i))))) [0..<nNodes] (Some vp)"

definition leader_reclaim :: "HeapScale \<Rightarrow> nat \<Rightarrow> nat \<Rightarrow> Heap \<Rightarrow> Heap option" where
  "leader_reclaim sc nNodes numVProcs h =
     map_option (\<lambda>h'. h'\<lparr>ToSpaceLimit := new_limit sc numVProcs (ToSpaceSz h')\<rparr>) (reclaim_nodes nNodes h)"

text \<open>
  The whole collection when there is a single vproc, which leads it and waits for nobody. Note that the code
  stores the C constant \<^verbatim>\<open>false\<close>, the word 0, into \<^verbatim>\<open>sigPending\<close>.
\<close>

definition StartGlobalGC_alone :: "HeapScale \<Rightarrow> nat \<Rightarrow> (int \<Rightarrow> int) \<Rightarrow> gstate scan_table \<Rightarrow> RootLoc list \<Rightarrow> Rts \<Rightarrow> Rts option" where
  "StartGlobalGC_alone sc nNodes nv table roots rt0 = do {
     let vp0 = (rt_vp rt0)\<lparr>globalGCPending := False, regs := (regs (rt_vp rt0))(SigPending := 0)\<rparr>;
     let h0 = (rt_heap rt0)\<lparr>ToSpaceSz := 0\<rparr>;
     (vp1, h1) \<leftarrow> global_setup vp0 h0;
     (vp2, h2) \<leftarrow> AllocToSpaceChunk vp1 h1;
     rt3 \<leftarrow> GlobalGC_alone nv table roots (rt0\<lparr>rt_vp := vp2, rt_heap := h2\<rparr>);
     vp4 \<leftarrow> leader_stats nNodes (rt_heap rt3) (own_copied (rt_heap rt3) (rt_vp rt3));
     h5 \<leftarrow> leader_reclaim sc nNodes 1 (rt_heap rt3);
     Some (rt3\<lparr>rt_vp := vp4, rt_heap := h5\<rparr>) }"

end
