(* ===== verification/Global_Correct.thy ===== *)
theory Global_Correct
  imports Global_GC
begin

text \<open>
  Correctness of the global collector's parts: the lists that setting up and reclaiming leave, the race of
  two vprocs for one object, and the next to-space limit.
\<close>

subsection \<open>To-space becomes from-space\<close>

definition converted :: "int \<Rightarrow> nat list \<Rightarrow> nat list \<Rightarrow> VProc \<Rightarrow> Heap \<Rightarrow> VProc \<Rightarrow> Heap \<Rightarrow> bool" where
  "converted n xs fs self h self' h' \<longleftrightarrow> chain (chunks h') (fromSpace (NodeHeaps h' n)) (rev xs @ fs)
     \<and> (\<forall>c\<in>set xs. sts (chunks h' c) = FROM_SP_CHUNK \<and> usedTop (chunks h' c) = usedTop (chunks h c))
     \<and> (\<forall>c. c \<notin> set xs \<longrightarrow> chunks h' c = chunks h c) \<and> mem h' = mem h
     \<and> (\<forall>k. k \<noteq> n \<longrightarrow> NodeHeaps h' k = NodeHeaps h k) \<and> unscannedTo (NodeHeaps h' n) = unscannedTo (NodeHeaps h n)
     \<and> completed (NodeHeaps h' n) = completed (NodeHeaps h n)
     \<and> location self' = location self \<and> globAllocChunk self' = globAllocChunk self"

lemma ConvertToSpaceChunks_list:
  "chain (chunks h) p xs \<Longrightarrow> distinct (xs @ fs) \<Longrightarrow> chain (chunks h) (fromSpace (NodeHeaps h n)) fs
   \<Longrightarrow> n = LocationNode (location self)
   \<Longrightarrow> \<exists>self' h'. ConvertToSpaceChunks self p h = Some (self', h') \<and> converted n xs fs self h self' h'"
proof (induction xs arbitrary: p h self fs)
  case Nil
  then show ?case by (subst ConvertToSpaceChunks.simps) (simp add: converted_def)
next
  case (Cons c xs)
  let ?h2 = "upd_node n (\<lambda>nh. nh\<lparr>fromSpace := Some c\<rparr>)
      (upd_chunk c (\<lambda>ch. ch\<lparr>sts := FROM_SP_CHUNK, scanProgress := 0, nxt := fromSpace (NodeHeaps h n)\<rparr>) h)"
  have p: "p = Some c" using Cons.prems(1) by simp
  have "\<exists>st. ConvertToSpaceChunks self p h = ConvertToSpaceChunks (self\<lparr>globalStats := st\<rparr>) (nxt (chunks h c)) ?h2"
    unfolding p Cons.prems(4) by (rule exI, subst ConvertToSpaceChunks.simps, simp only: option.case Let_def)
  then obtain st where run: "ConvertToSpaceChunks self p h = ConvertToSpaceChunks (self\<lparr>globalStats := st\<rparr>) (nxt (chunks h c)) ?h2" ..
  let ?s = "self\<lparr>globalStats := st\<rparr>"
  have c: "c \<notin> set xs" "c \<notin> set fs" "distinct (xs @ c # fs)" using Cons.prems(2) by auto
  have 1: "chain (chunks ?h2) (nxt (chunks h c)) xs" using Cons.prems(1) c by (simp add: chain_upd_other)
  have 2: "chain (chunks ?h2) (fromSpace (NodeHeaps ?h2 n)) (c # fs)" using Cons.prems(3) c by (simp add: chain_upd_other)
  have 3: "n = LocationNode (location ?s)" using Cons.prems(4) by simp
  obtain self' h' where ih: "ConvertToSpaceChunks ?s (nxt (chunks h c)) ?h2 = Some (self', h')" "converted n xs (c # fs) ?s ?h2 self' h'"
    using Cons.IH [OF 1 c(3) 2 3] by blast
  have "converted n (c # xs) fs self h self' h'"
    using ih(2) c(1) by (auto simp: converted_def)
  then show ?case using ih(1) run by auto
qed

text \<open>C35: Phase 1 of a global collection, for one vproc: its allocation chunk and all chunks on its node's list of
  unscanned to-space become from-space, in front of what other vprocs of the node have put there; the vproc has no
  allocation chunk afterwards, no other chunk and no other node is touched.\<close>

lemma global_setup_fromspace:
  fixes h :: Heap and self :: VProc
  defines "n \<equiv> LocationNode (location self)"
  assumes g: "globAllocChunk self = Some g" "nxt (chunks h g) = None"
    and us: "chain (chunks h) (unscannedTo (NodeHeaps h n)) us" and fs: "chain (chunks h) (fromSpace (NodeHeaps h n)) fs"
    and d: "distinct (g # us @ fs)"
  shows "\<exists>self' h'. global_setup self h = Some (self', h') \<and> globAllocChunk self' = None
    \<and> unscannedTo (NodeHeaps h' n) = None \<and> \<not> completed (NodeHeaps h' n)
    \<and> chain (chunks h') (fromSpace (NodeHeaps h' n)) (rev us @ g # fs)
    \<and> (\<forall>c\<in>set (g # us). sts (chunks h' c) = FROM_SP_CHUNK)
    \<and> usedTop (chunks h' g) = globNextW self - WORD_SZB
    \<and> (\<forall>c. c \<notin> set (g # us) \<longrightarrow> chunks h' c = chunks h c)
    \<and> (\<forall>k. k \<noteq> n \<longrightarrow> NodeHeaps h' k = NodeHeaps h k) \<and> mem h' = mem h"
proof -
  let ?h2 = "upd_chunk g (\<lambda>ch. ch\<lparr>usedTop := globNextW self - WORD_SZB\<rparr>) (upd_node n (\<lambda>nh. nh\<lparr>completed := False\<rparr>) h)"
  have cg: "chain (chunks ?h2) (Some g) [g]" using g by simp
  have fs2: "chain (chunks ?h2) (fromSpace (NodeHeaps ?h2 (LocationNode (location self)))) fs"
    using fs d unfolding n_def by (simp add: chain_upd_other)
  have d1: "distinct ([g] @ fs)" using d by simp
  obtain s3 h3 where 3: "ConvertToSpaceChunks self (Some g) ?h2 = Some (s3, h3)" "converted n [g] fs self ?h2 s3 h3"
    using ConvertToSpaceChunks_list [OF cg d1 fs2] n_def by blast
  have us3: "chain (chunks h3) (unscannedTo (NodeHeaps h3 n)) us"
  proof -
    have "unscannedTo (NodeHeaps h3 n) = unscannedTo (NodeHeaps h n)" using 3(2) by (simp add: converted_def)
    moreover have "chain (chunks h3) (unscannedTo (NodeHeaps h n)) us = chain (chunks h) (unscannedTo (NodeHeaps h n)) us"
      using 3(2) d by (intro chain_cong) (auto simp: converted_def)
    ultimately show ?thesis using us by simp
  qed
  have d3: "distinct (us @ g # fs)" using d by auto
  have fs3: "chain (chunks h3) (fromSpace (NodeHeaps h3 n)) (g # fs)" using 3(2) by (simp add: converted_def)
  have l3: "n = LocationNode (location s3)" using 3(2) by (simp add: n_def converted_def)
  obtain s4 h4 where 4: "ConvertToSpaceChunks s3 (unscannedTo (NodeHeaps h3 n)) h3 = Some (s4, h4)"
    "converted n us (g # fs) s3 h3 s4 h4"
    using ConvertToSpaceChunks_list [OF us3 d3 fs3 l3] by blast
  let ?h5 = "upd_node n (\<lambda>nh. nh\<lparr>unscannedTo := None\<rparr>) h4"
  have run: "global_setup self h = Some (s4\<lparr>globAllocChunk := None\<rparr>, ?h5)"
    using 3(1) 4(1) g(1) by (simp add: global_setup_def n_def [symmetric] Let_def)
  have "g \<notin> set us" using d by simp
  then show ?thesis unfolding run using 3(2) 4(2) by (auto simp: converted_def)
qed

text \<open>The leader's reclamation of one node.\<close>

definition freed :: "int \<Rightarrow> nat list \<Rightarrow> nat list \<Rightarrow> Heap \<Rightarrow> Heap \<Rightarrow> bool" where
  "freed i xs fs h h' \<longleftrightarrow> chain (chunks h') (freeChunks (NodeHeaps h' i)) (rev xs @ fs)
     \<and> (\<forall>c\<in>set xs. sts (chunks h' c) = FREE_CHUNK \<and> usedTop (chunks h' c) = baseAddr (chunks h' c))
     \<and> (\<forall>c. c \<notin> set xs \<longrightarrow> chunks h' c = chunks h c) \<and> (\<forall>k. k \<noteq> i \<longrightarrow> NodeHeaps h' k = NodeHeaps h k)
     \<and> (\<exists>f. NodeHeaps h' i = (NodeHeaps h i)\<lparr>freeChunks := f\<rparr>) \<and> mem h' = mem h \<and> ToSpaceSz h' = ToSpaceSz h"

lemma free_chunks_loop_list:
  "chain (chunks h) p xs \<Longrightarrow> distinct (xs @ fs) \<Longrightarrow> chain (chunks h) (freeChunks (NodeHeaps h i)) fs
   \<Longrightarrow> \<exists>h'. free_chunks_loop i p h = Some h' \<and> freed i xs fs h h'"
proof (induction xs arbitrary: p h fs)
  case Nil
  then show ?case by (subst free_chunks_loop.simps) (auto simp: freed_def intro: exI [of _ "freeChunks (NodeHeaps h i)"])
next
  case (Cons c xs)
  let ?h2 = "upd_node i (\<lambda>nh. nh\<lparr>freeChunks := Some c\<rparr>)
      (upd_chunk c (\<lambda>ch. ch\<lparr>sts := FREE_CHUNK, usedTop := baseAddr ch, nxt := freeChunks (NodeHeaps h i)\<rparr>) h)"
  have p: "p = Some c" using Cons.prems(1) by simp
  have run: "free_chunks_loop i p h = free_chunks_loop i (nxt (chunks h c)) ?h2"
    unfolding p by (subst free_chunks_loop.simps) (simp only: option.case Let_def)
  have c: "c \<notin> set xs" "c \<notin> set fs" "distinct (xs @ c # fs)" using Cons.prems(2) by auto
  have 1: "chain (chunks ?h2) (nxt (chunks h c)) xs" using Cons.prems(1) c by (simp add: chain_upd_other)
  have 2: "chain (chunks ?h2) (freeChunks (NodeHeaps ?h2 i)) (c # fs)" using Cons.prems(3) c by (simp add: chain_upd_other)
  obtain h' where ih: "free_chunks_loop i (nxt (chunks h c)) ?h2 = Some h'" "freed i xs (c # fs) ?h2 h'"
    using Cons.IH [OF 1 c(3) 2] by blast
  have sz: "ToSpaceSz ?h2 = ToSpaceSz h" by (simp add: upd_node_def upd_chunk_def)
  have "freed i (c # xs) fs h h'"
    using ih(2) c(1) sz by (auto simp: freed_def)
  then show ?case using ih(1) run by auto
qed

text \<open>The leader's reclamation of a node ends: every from-space chunk becomes free, empty, and part of
  the free list; the scanned chunks become the list of to-space; scanned and from-space lists are empty.\<close>

lemma reclaim_node_frees:
  assumes fr: "chain (chunks h) (fromSpace (NodeHeaps h i)) xs" and fs: "chain (chunks h) (freeChunks (NodeHeaps h i)) fs"
    and sc: "chain (chunks h) (scannedTo (NodeHeaps h i)) us" and d: "distinct (xs @ fs @ us)"
  shows "\<exists>h'. reclaim_node i h = Some h' \<and> chain (chunks h') (freeChunks (NodeHeaps h' i)) (rev xs @ fs)
    \<and> (\<forall>c\<in>set xs. sts (chunks h' c) = FREE_CHUNK \<and> usedTop (chunks h' c) = baseAddr (chunks h' c))
    \<and> chain (chunks h') (unscannedTo (NodeHeaps h' i)) us \<and> scannedTo (NodeHeaps h' i) = None \<and> fromSpace (NodeHeaps h' i) = None
    \<and> (\<forall>c. c \<notin> set xs \<longrightarrow> chunks h' c = chunks h c) \<and> (\<forall>k. k \<noteq> i \<longrightarrow> NodeHeaps h' k = NodeHeaps h k) \<and> mem h' = mem h"
proof -
  let ?h1 = "upd_node i (\<lambda>nh. nh\<lparr>unscannedTo := scannedTo nh, scannedTo := None, fromSpace := None\<rparr>) h"
  obtain h2 where 2: "free_chunks_loop i (fromSpace (NodeHeaps h i)) ?h1 = Some h2" "freed i xs fs ?h1 h2"
    using free_chunks_loop_list [of ?h1 "fromSpace (NodeHeaps h i)" xs fs i] fr fs d by auto
  have "chain (chunks h2) (scannedTo (NodeHeaps h i)) us = chain (chunks h) (scannedTo (NodeHeaps h i)) us"
    using 2(2) d by (intro chain_cong) (auto simp: freed_def)
  then show ?thesis using 2 sc by (auto simp: reclaim_node_def freed_def Let_def)
qed

subsection \<open>Two vprocs forward the same object\<close>

lemma bibop_page_mem [simp]: "mem (bibop_page c a h) = mem h"
  by (simp add: bibop_page_def Let_def)

lemma bibop_loop_mem: "bibop_loop c a hi h = Some h' \<Longrightarrow> mem h' = mem h"
  by (rule bibop_loop.raw_induct [where P = "\<lambda>c a hi h h'. mem h' = mem h"]) (auto split: if_splits)

lemma AllocMemory_mem: "AllocMemory a b c h = (r, h') \<Longrightarrow> mem h' = mem h"
  by (auto simp: AllocMemory_def split: prod.splits option.splits)

lemma new_chunk_mem: "new_chunk n h = Some (c, h') \<Longrightarrow> mem h' = mem h"
  by (auto simp: new_chunk_def Let_def UpdateBIBOP_def split: prod.splits if_splits
      dest!: bibop_loop_mem AllocMemory_mem)

lemma AllocToSpaceChunk_mem: "AllocToSpaceChunk vp h = Some (vp', h') \<Longrightarrow> mem h' = mem h"
  by (auto simp: AllocToSpaceChunk_def Let_def bind_eq_Some_conv split: option.splits dest!: new_chunk_mem)

lemma fwd_prepare_mem: "fwd_prepare v (vp, h) = Some (r, vp', h') \<Longrightarrow> mem h' = mem h"
  by (auto simp: fwd_prepare_def Let_def dest: AllocToSpaceChunk_mem split: if_splits)

lemma fwd_prepare_hdr: "fwd_prepare v (vp, h) = Some (Reserved hdr, vp', h') \<Longrightarrow> hdr = mem h (v - 8) \<and> \<not> isForwardPtr hdr"
  by (auto simp: fwd_prepare_def Let_def split: if_splits)

lemma fwd_install_wins:
  assumes hdr: "mem h (wadr (p - 1)) = hdr" "GetLength hdr = int n"
    and a: "0 < a" "0 < p" "a + n < p \<or> p + n < a" "p + n < 2 ^ 60" "a + n < 2 ^ 60" and nw: "globNextW vp = wadr a"
  shows "\<exists>m'. fwd_install (wadr p) (Reserved hdr) (vp, h) = (wadr a, vp\<lparr>globNextW := wadr (a + n + 1)\<rparr>, h\<lparr>mem := m'\<rparr>)
    \<and> forwarded_to (mem h) p n a m'"
proof -
  let ?m1 = "(mem h)(wadr (p - 1) := MakeForwardPtr hdr (wadr a), wadr (a - 1) := hdr)"
  let ?m2 = "copy_words n (wadr a) (wadr p) ?m1"
  have "fwd_install (wadr p) (Reserved hdr) (vp, h) = (wadr a, vp\<lparr>globNextW := wadr (a + n + 1)\<rparr>, h\<lparr>mem := ?m2\<rparr>)"
    using a hdr wadr_plus_len [of a n]
    by (simp add: fwd_install_def Let_def CompareAndSwapWord_def nw wadr_pred algebra_simps)
  moreover have "forwarded_to (mem h) p n a ?m2"
    unfolding forwarded_to_def
  proof (intro conjI allI impI)
    show "?m2 (wadr (a - 1)) = mem h (wadr (p - 1))" "?m2 (wadr (p - 1)) = MakeForwardPtr (mem h (wadr (p - 1))) (wadr a)"
      using a hdr by (subst copy_words_other; auto)+
    show "?m2 (wadr (a + i)) = mem h (wadr (p + i))" if "i < n" for i
    proof -
      have "?m2 (wadr (a + i)) = ?m1 (wadr (p + i))" using a that by (intro copy_words_copied) auto
      then show ?thesis using a that by auto
    qed
    show "?m2 (wadr x) = mem h (wadr x)" if "x < 2 ^ 61" "x \<noteq> p - 1" "\<not> (a - 1 \<le> x \<and> x < a + n)" for x
    proof -
      have "?m2 (wadr x) = ?m1 (wadr x)" using a that by (intro copy_words_other) auto
      then show ?thesis using a that by auto
    qed
  qed
  ultimately show ?thesis by blast
qed

lemma fwd_install_loses:
  "mem h (v - 8) \<noteq> hdr \<Longrightarrow> fwd_install v (Reserved hdr) (vp, h) = (GetForwardPtr (mem h (v - 8)), vp, h)"
  by (auto simp: fwd_install_def CompareAndSwapWord_def)

text \<open>C8: When two vprocs have both read the header of the same object before either installs a forwarding pointer, the
  first exchange wins and copies the object; the second vproc gets the address of that copy and changes neither the heap
  nor its allocation pointer.\<close>

lemma ForwardObjGlobal_race:
  assumes A: "fwd_prepare (wadr p) (vpA, h) = Some (Reserved hdrA, vpA1, h1)"
    and B: "fwd_prepare (wadr p) (vpB, h1) = Some (Reserved hdrB, vpB1, h2)"
    and len: "GetLength (mem h (wadr (p - 1))) = int n" "odd (mem h (wadr (p - 1)))"
    and a: "globNextW vpA1 = wadr a" "0 < a" "0 < p" "a + n < p \<or> p + n < a" "p + n < 2 ^ 60" "a + n < 2 ^ 45"
  shows "\<exists>vpA2 h3. fwd_install (wadr p) (Reserved hdrA) (vpA1, h2) = (wadr a, vpA2, h3)
    \<and> globNextW vpA2 = wadr (a + n + 1) \<and> forwarded_to (mem h) p n a (mem h3)
    \<and> fwd_install (wadr p) (Reserved hdrB) (vpB1, h3) = (wadr a, vpB1, h3)"
proof -
  have m: "mem h1 = mem h" "mem h2 = mem h" using fwd_prepare_mem A B by metis+
  have p8: "wadr p - 8 = wadr (p - 1)" using a(3) by (rule wadr_pred)
  have hd: "hdrA = mem h (wadr (p - 1))" "hdrB = mem h (wadr (p - 1))"
    using fwd_prepare_hdr [OF A] fwd_prepare_hdr [OF B] m by (simp_all add: p8)
  have len2: "mem h2 (wadr (p - 1)) = hdrA" "GetLength hdrA = int n" using m hd len by simp_all
  have b: "a + n < 2 ^ 60" "a < 2 ^ 45" using a(6) by simp_all
  obtain m' where w: "fwd_install (wadr p) (Reserved hdrA) (vpA1, h2) = (wadr a, vpA1\<lparr>globNextW := wadr (a + n + 1)\<rparr>, h2\<lparr>mem := m'\<rparr>)"
    "forwarded_to (mem h) p n a m'"
    using fwd_install_wins [OF len2 a(2-5) b(1) a(1)] m by auto
  have f: "m' (wadr (p - 1)) = MakeForwardPtr hdrA (wadr a)" using w(2) hd by (simp add: forwarded_to_def)
  have ne: "MakeForwardPtr hdrA (wadr a) \<noteq> hdrB"
  proof -
    have "isForwardPtr (MakeForwardPtr hdrA (wadr a))" using b(2) by (intro isForwardPtr_Make) 
    then show ?thesis using len(2) hd isForwardPtr_even by metis
  qed
  have "fwd_install (wadr p) (Reserved hdrB) (vpB1, h2\<lparr>mem := m'\<rparr>) = (GetForwardPtr (MakeForwardPtr hdrA (wadr a)), vpB1, h2\<lparr>mem := m'\<rparr>)"
    using fwd_install_loses [of "h2\<lparr>mem := m'\<rparr>" "wadr p" hdrB vpB1] f ne by (simp add: p8)
  also have "GetForwardPtr (MakeForwardPtr hdrA (wadr a)) = wadr a" using b(2) by (intro GetForwardPtr_Make wadr_61)
  finally show ?thesis using w by auto
qed

subsection \<open>The next to-space limit\<close>

text \<open>Barring overflow, the next to-space limit is the scaled size of to-space (or its size, if that is larger) plus
  32 megabytes for every vproc; in particular it lies strictly above the current size, so a global collection does not
  at once ask for another one.\<close>

lemma new_limit_progress:
  assumes "unat (HeapScaleNum sc) * unat toSz < 2 ^ 64" "0 < n"
    and "max (unat (HeapScaleNum sc) * unat toSz div unat (HeapScaleDenom sc)) (unat toSz) + n * 2 ^ 25 < 2 ^ 64"
  shows "unat (new_limit sc n toSz) = max (unat (HeapScaleNum sc) * unat toSz div unat (HeapScaleDenom sc)) (unat toSz) + n * 2 ^ 25
    \<and> toSz < new_limit sc n toSz"
proof -
  let ?b = "HeapScaleNum sc * toSz div HeapScaleDenom sc"
  have m: "unat (HeapScaleNum sc * toSz) = unat (HeapScaleNum sc) * unat toSz"
    using assms(1) by (simp add: unat_word_ariths)
  have d: "unat ?b = unat (HeapScaleNum sc) * unat toSz div unat (HeapScaleDenom sc)"
    by (simp add: unat_div m)
  let ?m = "if ?b < toSz then toSz else ?b"
  have mx: "unat ?m = max (unat ?b) (unat toSz)" by (auto simp: word_less_nat_alt max_def)
  have p: "unat (word_of_nat n * PER_VPROC_HEAP_SZB) = n * 2 ^ 25"
    using assms(3) by (simp add: PER_VPROC_HEAP_SZB_def unat_word_ariths unat_of_nat mod_mult_left_eq)
  have "unat ?m + unat (word_of_nat n * PER_VPROC_HEAP_SZB) < 2 ^ LENGTH(64)"
    using assms(3) unfolding mx d p by simp
  then have "unat (new_limit sc n toSz) = unat ?m + n * 2 ^ 25"
    unfolding new_limit_def Let_def p [symmetric] by (simp only: unat_add_lem)
  then show ?thesis using assms(2) by (simp add: mx d word_less_nat_alt)
qed

subsection \<open>Examples\<close>

lemma global_setup_fromspace_witness:
  "\<exists>self' h'. global_setup (ex_vproc\<lparr>globAllocChunk := Some 3\<rparr>) ex_heap = Some (self', h') \<and> globAllocChunk self' = None
     \<and> chain (chunks h') (fromSpace (NodeHeaps h' 0)) [3] \<and> sts (chunks h' 3) = FROM_SP_CHUNK"
  using global_setup_fromspace [where self = "ex_vproc\<lparr>globAllocChunk := Some 3\<rparr>" and h = ex_heap and g = 3 and us = "[]" and fs = "[]"]
  by (auto simp: ex_heap_def InitHeapState_def ex_chunk_def ex_vproc_def LocationNode_def)

lemma reclaim_node_frees_witness:
  "\<exists>h'. reclaim_node 0 (upd_node 0 (\<lambda>nh. nh\<lparr>fromSpace := Some 4\<rparr>) ex_heap) = Some h'
     \<and> chain (chunks h') (freeChunks (NodeHeaps h' 0)) [5, 4] \<and> sts (chunks h' 5) = FREE_CHUNK \<and> fromSpace (NodeHeaps h' 0) = None"
  using reclaim_node_frees [where h = "upd_node 0 (\<lambda>nh. nh\<lparr>fromSpace := Some 4\<rparr>) ex_heap" and i = 0 and xs = "[4, 5]" and fs = "[]" and us = "[]"]
  by (auto simp: ex_heap_def InitHeapState_def ex_chunk_def)

lemma ForwardObjGlobal_race_witness:
  "\<exists>vpA2 h3. fwd_install (wadr 262150) (Reserved (RAW_HDR 1)) (ex_prom_vproc, ex_prom_heap) = (wadr 2097153, vpA2, h3)
     \<and> fwd_install (wadr 262150) (Reserved (RAW_HDR 1)) (ex_prom_vproc\<lparr>globNextW := wadr 2100000\<rparr>, h3)
         = (wadr 2097153, ex_prom_vproc\<lparr>globNextW := wadr 2100000\<rparr>, h3)"
proof -
  have hdr: "mem ex_prom_heap (wadr (262150 - 1)) = RAW_HDR 1" by (simp add: ex_prom_heap_def)
  have nf: "\<not> isForwardPtr (RAW_HDR 1)" using isForwardPtr_even [of "RAW_HDR 1"] by auto
  have prep: "fwd_prepare (wadr 262150) (ex_prom_vproc\<lparr>globNextW := wadr d\<rparr>, ex_prom_heap)
      = Some (Reserved (RAW_HDR 1), ex_prom_vproc\<lparr>globNextW := wadr d\<rparr>, ex_prom_heap)" if "d < 2600000" for d
    using that hdr nf wadr_add [of d 1] by (simp add: fwd_prepare_def Let_def ex_prom_vproc_def wadr_pred)
  have A: "ex_prom_vproc\<lparr>globNextW := wadr 2097153\<rparr> = ex_prom_vproc" by (simp add: ex_prom_vproc_def)
  have gn: "globNextW ex_prom_vproc = wadr 2097153" by (simp add: ex_prom_vproc_def)
  show ?thesis
    using ForwardObjGlobal_race [OF prep [of 2097153] prep [of 2100000], of 1 2097153] hdr gn
    unfolding A by auto
qed

lemma new_limit_progress_witness:
  "new_limit \<lparr>HeapScaleNum = 2, HeapScaleDenom = 1\<rparr> 4 (2 ^ 22) = 2 ^ 23 + 4 * 2 ^ 25
   \<and> 2 ^ 22 < new_limit \<lparr>HeapScaleNum = 2, HeapScaleDenom = 1\<rparr> 4 (2 ^ 22)"
  using new_limit_progress [where sc = "\<lparr>HeapScaleNum = 2, HeapScaleDenom = 1\<rparr>" and n = 4 and toSz = "2 ^ 22"]
  by (simp add: word_unat_eq_iff)

end
