(* ===== verification/Heap_Checks.thy ===== *)
theory Heap_Checks
  imports Global_Correct
begin

text \<open>
  The heap checks of debug builds: \<^verbatim>\<open>gc/gc-debug.c\<close>, and the parts of \<^verbatim>\<open>gc/minor-gc.c\<close> and
  \<^verbatim>\<open>gc/global-gc.c\<close> under \<^verbatim>\<open>#ifndef NDEBUG\<close>. A check gives the list of complaints it prints, and
  \<open>None\<close> is a failed assertion, the dereference of a null chunk, or a walk that does not end. The debug functions of the object table
  are generated with the program and are a parameter. Where an assertion assigns, the model does.

  The lemmas show what a silent check implies, and that the reclamation of from-space leaves a state
  that passes the check of to-space.
\<close>

section \<open>Checks of single pointers\<close>

text \<open>What a check says: the kind of complaint, the pointer, and where it was found.\<close>

datatype DbgKind = FromSpacePtr | RemotePtr | LocalOutOfBounds | BogusLocal | FreeSpacePtr

type_synonym DbgMsg = "DbgKind \<times> Value_t \<times> string"

definition CheckLocalPtrMinor :: "VProc \<Rightarrow> Heap \<Rightarrow> Value_t \<Rightarrow> string \<Rightarrow> DbgMsg list" where
  "CheckLocalPtrMinor self h v w =
    (if isPtr v then
       let s = chunk_sts h (AddrToChunk h v) in
       if s = TO_SP_CHUNK then []
       else if s = FROM_SP_CHUNK then [(FromSpacePtr, v, w)]
       else if IS_VPROC_CHUNK s then
         (if s \<noteq> VPROC_CHUNK (vpid self) then [(RemotePtr, v, w)]
          else if \<not> inAddrRange (heapBase self) (oldTop self - heapBase self) v then [(LocalOutOfBounds, v, w)]
          else [])
       else if s = FREE_CHUNK then [(FreeSpacePtr, v, w)]
       else []
     else [])"

text \<open>The check after a global collection is the same code with other texts.\<close>

definition CheckLocalPtrGlobal :: "VProc \<Rightarrow> Heap \<Rightarrow> Value_t \<Rightarrow> string \<Rightarrow> DbgMsg list" where
  "CheckLocalPtrGlobal self h v w =
    (if isPtr v then
       let s = chunk_sts h (AddrToChunk h v) in
       if s = TO_SP_CHUNK then []
       else if s = FROM_SP_CHUNK then [(FromSpacePtr, v, w)]
       else if IS_VPROC_CHUNK s then
         (if s \<noteq> VPROC_CHUNK (vpid self) then [(RemotePtr, v, w)]
          else if \<not> inAddrRange (heapBase self) (oldTop self - heapBase self) v then [(LocalOutOfBounds, v, w)]
          else [])
       else if s = FREE_CHUNK then [(FreeSpacePtr, v, w)]
       else []
     else [])"

text \<open>A pointer that must lead into the global heap; \<open>vpSz\<close> is the size of the vproc structure. The test of the
  local bounds comes after both cases of its chunk and is never reached.\<close>

definition CheckGlobalAddr :: "Addr_t \<Rightarrow> bool \<Rightarrow> VProc \<Rightarrow> Heap \<Rightarrow> Value_t \<Rightarrow> string \<Rightarrow> DbgMsg list" where
  "CheckGlobalAddr vpSz inProgress self h v w =
    (if isHeapPtr v then
       let c = AddrToChunk h v; s = chunk_sts h c in
       if s = TO_SP_CHUNK then []
       else if s = FROM_SP_CHUNK then (if \<not> inProgress then [(FromSpacePtr, v, w)] else [])
       else if (case c of None \<Rightarrow> False | Some i \<Rightarrow> isLimitPtr v (chunks h i)) then []
       else if IS_VPROC_CHUNK s then
         (if inAddrRange (v AND NOT (VP_HEAP_SZB - 1)) vpSz v then []
          else if s \<noteq> VPROC_CHUNK (vpid self) then [(RemotePtr, v, w)]
          else if s = VPROC_CHUNK (vpid self) then [(BogusLocal, v, w)]
          else if \<not> inAddrRange (heapBase self) (oldTop self - heapBase self) v then [(LocalOutOfBounds, v, w)]
          else [])
       else if s = FREE_CHUNK then [(FreeSpacePtr, v, w)]
       else []
     else [])"

definition CheckGlobalPtr :: "Addr_t \<Rightarrow> bool \<Rightarrow> VProc \<Rightarrow> Heap \<Rightarrow> Value_t \<Rightarrow> string \<Rightarrow> DbgMsg list" where
  "CheckGlobalPtr vpSz inProgress self h v w = CheckGlobalAddr vpSz inProgress self h v w"

text \<open>The assertion fails, or the result is true.\<close>

definition isGlobalHeapPtr :: "Heap \<Rightarrow> Value_t \<Rightarrow> bool option" where
  "isGlobalHeapPtr h v = (if isPtr v \<and> chunk_sts h (AddrToChunk h v) = TO_SP_CHUNK then Some True else None)"

section \<open>Checks of the heap\<close>

text \<open>The debug functions of the object table are generated with the program: a parameter, by the identifier of an
  object and the address of its first field.\<close>

type_synonym debug_table = "VProc \<Rightarrow> Heap \<Rightarrow> int \<Rightarrow> Addr_t \<Rightarrow> DbgMsg list"

text \<open>Walking the objects from \<open>p\<close> to \<open>hi\<close>: \<open>obj\<close> gives the messages of one and the address of the next.\<close>

partial_function (option) check_walk :: "(Addr_t \<Rightarrow> DbgMsg list \<times> Addr_t) \<Rightarrow> Addr_t \<Rightarrow> Addr_t \<Rightarrow> DbgMsg list \<Rightarrow> DbgMsg list option" where
  "check_walk obj hi p msgs =
    (if p < hi then (case obj p of (ms, p') \<Rightarrow> check_walk obj hi p' (msgs @ ms)) else Some msgs)"

definition next_object :: "mem \<Rightarrow> Addr_t \<Rightarrow> Addr_t" where
  "next_object m p = p + WORD_SZB + WORD_SZB * word_of_int (GetLength (m p))"

definition debug_object :: "debug_table \<Rightarrow> VProc \<Rightarrow> Heap \<Rightarrow> Addr_t \<Rightarrow> DbgMsg list \<times> Addr_t" where
  "debug_object dbg self h p = (dbg self h (getID (mem h p)) (p + WORD_SZB), next_object (mem h) p)"

definition minor_debug_object :: "debug_table \<Rightarrow> VProc \<Rightarrow> Heap \<Rightarrow> Addr_t \<Rightarrow> DbgMsg list \<times> Addr_t" where
  "minor_debug_object dbg self h p =
    (let hdr = mem h p in
     if isForwardPtr hdr then
       let fp = GetForwardPtr hdr in
       (CheckLocalPtrMinor self h (mem h fp) ''forward pointer'',
        p + WORD_SZB + WORD_SZB * word_of_int (GetLength (mem h (fp - WORD_SZB))))
     else debug_object dbg self h p)"

definition root_name :: "nat \<Rightarrow> string" where
  "root_name i = ''root['' @ show_nat i @ '']''"

definition check_roots :: "(Value_t \<Rightarrow> string \<Rightarrow> DbgMsg list) \<Rightarrow> Rts \<Rightarrow> RootLoc list \<Rightarrow> DbgMsg list" where
  "check_roots chk rt roots = concat (map (\<lambda>i. chk (read_root rt (roots ! i)) (root_name i)) [0..<length roots])"

text \<open>The check after a minor collection. Its assertion assigns the status of the chunk instead of comparing it.\<close>

definition CheckMinorGC :: "debug_table \<Rightarrow> debug_table \<Rightarrow> RootLoc list \<Rightarrow> Rts \<Rightarrow> (DbgMsg list \<times> Rts) option" where
  "CheckMinorGC dbg dbgGlobal roots rt = do {
     let self = rt_vp rt;
     let h = rt_heap rt;
     let m1 = check_roots (CheckLocalPtrMinor self h) rt roots;
     m2 \<leftarrow> check_walk (minor_debug_object dbg self h) (oldTop self) (heapBase self) m1;
     cp \<leftarrow> globAllocChunk self;
     let h1 = upd_chunk cp (\<lambda>ch. ch\<lparr>sts := TO_SP_CHUNK\<rparr>) h;
     m3 \<leftarrow> check_walk (debug_object dbgGlobal self h1) (UsedTopOfChunk self h1 cp) (baseAddr (chunks h1 cp)) m2;
     Some (m3, rt\<lparr>rt_heap := h1\<rparr>) }"

text \<open>The vproc fields checked after a global collection, in order.\<close>

definition checked_regs :: "(vpReg \<times> string) list" where
  "checked_regs = [(Atomic, ''self->atomic''), (SigPending, ''self->sigPending''), (Sleeping, ''self->sleeping''),
     (CurrentFLS, ''self->currentFLS''), (ActionStk, ''self->actionStk''), (SchedCont, ''self->schedCont''),
     (DummyK, ''self->dummyK''), (WakeupCont, ''self->wakeupCont''), (RdyQHd, ''self->rdyQHd''), (RdyQTl, ''self->rdyQTl''),
     (SndQHd, ''self->sndQHd''), (SndQTl, ''self->sndQTl''), (StdArg, ''self->stdArg''), (StdEnvPtr, ''self->stdEnvPtr''),
     (StdCont, ''self->stdCont''), (StdExnCont, ''self->stdExnCont''), (LandingPad, ''self->landingPad'')]"

definition CheckAfterGlobalGC :: "debug_table \<Rightarrow> debug_table \<Rightarrow> RootLoc list \<Rightarrow> Rts \<Rightarrow> DbgMsg list option" where
  "CheckAfterGlobalGC dbg dbgGlobal roots rt = do {
     let self = rt_vp rt;
     let h = rt_heap rt;
     let m1 = check_roots (CheckLocalPtrGlobal self h) rt roots;
     m2 \<leftarrow> check_walk (debug_object dbg self h) (oldTop self) (heapBase self) m1;
     m3 \<leftarrow> (case globAllocChunk self of
              None \<Rightarrow> Some m2
            | Some cp \<Rightarrow> if sts (chunks h cp) \<noteq> TO_SP_CHUNK then None
                else check_walk (debug_object dbgGlobal self h) (UsedTopOfChunk self h cp) (baseAddr (chunks h cp)) m2);
     Some (m3 @ concat (map (\<lambda>(r, w). CheckLocalPtrGlobal self h (regs self r) w) checked_regs)) }"

text \<open>To-space after the collection: its objects, the lists of every node, and no vproc's chunk among the unscanned.
  A forwarded object is skipped by one word more than its header.\<close>

definition tospace_object :: "debug_table \<Rightarrow> VProc \<Rightarrow> Heap \<Rightarrow> Addr_t \<Rightarrow> DbgMsg list \<times> Addr_t" where
  "tospace_object dbg self h p =
    (if isForwardPtr (mem h p) then ([], p + WORD_SZB + WORD_SZB) else debug_object dbg self h p)"

partial_function (option) unscanned_loop :: "debug_table \<Rightarrow> VProc \<Rightarrow> nat option \<Rightarrow> DbgMsg list \<Rightarrow> Heap \<Rightarrow> (DbgMsg list \<times> Heap) option" where
  "unscanned_loop dbg self cp msgs h =
    (case cp of
       None \<Rightarrow> Some (msgs, h)
     | Some c \<Rightarrow>
         let h1 = upd_chunk c (\<lambda>ch. ch\<lparr>sts := TO_SP_CHUNK\<rparr>) h in
         (case check_walk (tospace_object dbg self h1) (UsedTopOfChunk self h1 c) (baseAddr (chunks h1 c)) msgs of
            None \<Rightarrow> None
          | Some msgs1 \<Rightarrow> unscanned_loop dbg self (nxt (chunks h1 c)) msgs1 h1))"

partial_function (option) chunks_ok :: "(nat \<Rightarrow> MemChunk \<Rightarrow> bool) \<Rightarrow> (nat \<Rightarrow> MemChunk) \<Rightarrow> nat option \<Rightarrow> unit option" where
  "chunks_ok ok cs cp =
    (case cp of None \<Rightarrow> Some () | Some c \<Rightarrow> if ok c (cs c) then chunks_ok ok cs (nxt (cs c)) else None)"

definition check_node :: "debug_table \<Rightarrow> VProc \<Rightarrow> nat \<Rightarrow> (DbgMsg list \<times> Heap) option \<Rightarrow> (DbgMsg list \<times> Heap) option" where
  "check_node dbg self i r = do {
     (msgs, h) \<leftarrow> r;
     let nh = NodeHeaps h (int i);
     (if scannedTo nh \<noteq> None \<or> fromSpace nh \<noteq> None then None else Some ());
     (msgs1, h1) \<leftarrow> unscanned_loop dbg self (unscannedTo nh) msgs h;
     chunks_ok (\<lambda>c ch. sts ch = FREE_CHUNK) (chunks h1) (freeChunks (NodeHeaps h1 (int i)));
     Some (msgs1, h1) }"

definition check_vproc :: "VProc \<Rightarrow> (DbgMsg list \<times> Heap) option \<Rightarrow> (DbgMsg list \<times> Heap) option" where
  "check_vproc vp r = do {
     (msgs, h) \<leftarrow> r;
     chunks_ok (\<lambda>c ch. globAllocChunk vp \<noteq> Some c) (chunks h) (unscannedTo (NodeHeaps h (LocationNode (location vp))));
     Some (msgs, h) }"

definition CheckToSpacesAfterGlobalGC :: "debug_table \<Rightarrow> VProc \<Rightarrow> nat \<Rightarrow> VProc list \<Rightarrow> Heap \<Rightarrow> (DbgMsg list \<times> Heap) option" where
  "CheckToSpacesAfterGlobalGC dbg self nNodes vps h = fold check_vproc vps (fold (check_node dbg self) [0..<nNodes] (Some ([], h)))"

text \<open>\<^verbatim>\<open>LocalHeapConsistencyCheck\<close>: the walk moves by the length of an object, without its header.\<close>

definition consistency_object :: "(mem \<Rightarrow> Addr_t \<Rightarrow> Addr_t \<Rightarrow> int \<Rightarrow> Addr_t \<Rightarrow> DbgMsg list) \<Rightarrow> Addr_t \<Rightarrow> Addr_t \<Rightarrow> mem \<Rightarrow> Addr_t \<Rightarrow> DbgMsg list \<times> Addr_t" where
  "consistency_object dbg base asz m p =
    ((if isForwardPtr (m p) then [] else dbg m base asz (getID (m p)) p), p + WORD_SZB * word_of_int (GetLength (m p)))"

definition LocalHeapConsistencyCheck :: "(mem \<Rightarrow> Addr_t \<Rightarrow> Addr_t \<Rightarrow> int \<Rightarrow> Addr_t \<Rightarrow> DbgMsg list) \<Rightarrow> VProc \<Rightarrow> Heap \<Rightarrow> Addr_t \<Rightarrow> Addr_t \<Rightarrow> DbgMsg list option" where
  "LocalHeapConsistencyCheck dbg vp h beginHeap endHeap =
    check_walk (consistency_object dbg (nurseryBase vp) (allocPtr vp - nurseryBase vp - WORD_SZB) (mem h))
      (endHeap - WORD_SZB) beginHeap []"

text \<open>\<^verbatim>\<open>InitGlobalGC\<close>: no collection is running, and none has been.\<close>

definition InitGlobalGC :: "bool \<times> nat" where "InitGlobalGC = (False, 0)"

section \<open>What silence means\<close>

text \<open>The pointers a vproc may hold after a collection: into to-space, into the used part of its own local heap, or to
  no chunk of the heap at all.\<close>

definition may_hold :: "VProc \<Rightarrow> Heap \<Rightarrow> Value_t \<Rightarrow> bool" where
  "may_hold self h v \<longleftrightarrow> (let s = chunk_sts h (AddrToChunk h v) in
     s = TO_SP_CHUNK
     \<or> s = VPROC_CHUNK (vpid self) \<and> inAddrRange (heapBase self) (oldTop self - heapBase self) v
     \<or> s \<noteq> FROM_SP_CHUNK \<and> s \<noteq> FREE_CHUNK \<and> \<not> IS_VPROC_CHUNK s)"

lemma CheckLocalPtrGlobal_silent: "CheckLocalPtrGlobal self h v w = [] \<Longrightarrow> isPtr v \<Longrightarrow> may_hold self h v"
  by (auto simp: CheckLocalPtrGlobal_def may_hold_def Let_def split: if_splits)

lemma check_walk_extends: "check_walk obj hi p msgs = Some r \<Longrightarrow> \<exists>t. r = msgs @ t"
  by (rule check_walk.raw_induct [where P = "\<lambda>obj hi p msgs r. \<exists>t. r = msgs @ t"]) (auto split: if_splits prod.splits, metis append_assoc)

lemma check_walk_silent: "check_walk obj hi p msgs = Some [] \<Longrightarrow> msgs = []"
  using check_walk_extends by fastforce

lemma check_roots_silent:
  "check_roots chk rt roots = [] \<Longrightarrow> loc \<in> set roots \<Longrightarrow> \<exists>w. chk (read_root rt loc) w = []"
  by (auto simp: check_roots_def in_set_conv_nth)

lemma CheckAfterGlobalGC_silent:
  assumes "CheckAfterGlobalGC dbg dbgGlobal roots rt = Some []"
  shows "(\<forall>loc \<in> set roots. isPtr (read_root rt loc) \<longrightarrow> may_hold (rt_vp rt) (rt_heap rt) (read_root rt loc))
    \<and> (\<forall>r \<in> fst ` set checked_regs. isPtr (regs (rt_vp rt) r) \<longrightarrow> may_hold (rt_vp rt) (rt_heap rt) (regs (rt_vp rt) r))"
proof -
  let ?self = "rt_vp rt" and ?h = "rt_heap rt"
  obtain m2 m3 where m2: "check_walk (debug_object dbg ?self ?h) (oldTop ?self) (heapBase ?self) (check_roots (CheckLocalPtrGlobal ?self ?h) rt roots) = Some m2"
    and m3: "m3 = m2 \<or> (\<exists>hi p. check_walk (debug_object dbgGlobal ?self ?h) hi p m2 = Some m3)"
    and e: "m3 @ concat (map (\<lambda>(r, w). CheckLocalPtrGlobal ?self ?h (regs ?self r) w) checked_regs) = []"
    using assms by (auto simp: CheckAfterGlobalGC_def Let_def bind_eq_Some_conv split: option.splits if_splits)
  have "m2 = []" using m3 e check_walk_silent by auto
  then have "check_roots (CheckLocalPtrGlobal ?self ?h) rt roots = []" using m2 check_walk_silent by blast
  then have "\<forall>loc \<in> set roots. isPtr (read_root rt loc) \<longrightarrow> may_hold ?self ?h (read_root rt loc)"
    using check_roots_silent CheckLocalPtrGlobal_silent by blast
  moreover have "\<forall>(r, w) \<in> set checked_regs. CheckLocalPtrGlobal ?self ?h (regs ?self r) w = []" using e by auto
  then have "\<forall>r \<in> fst ` set checked_regs. isPtr (regs ?self r) \<longrightarrow> may_hold ?self ?h (regs ?self r)"
    using CheckLocalPtrGlobal_silent by fastforce
  ultimately show ?thesis by blast
qed

section \<open>Reclamation passes the check of to-space\<close>

lemma chunks_ok_chain: "chain cs p xs \<Longrightarrow> \<forall>c \<in> set xs. ok c (cs c) \<Longrightarrow> chunks_ok ok cs p = Some ()"
  by (induction cs p xs rule: chain.induct) (simp_all add: chunks_ok.simps)

text \<open>The walk over the objects of a chunk ends: only the headers matter for where it goes.\<close>

definition tospace_next :: "mem \<Rightarrow> Addr_t \<Rightarrow> Addr_t" where
  "tospace_next m p = (if isForwardPtr (m p) then p + WORD_SZB + WORD_SZB else next_object m p)"

inductive walk_ends :: "mem \<Rightarrow> Addr_t \<Rightarrow> Addr_t \<Rightarrow> bool" for m hi where
  ends_here: "\<not> p < hi \<Longrightarrow> walk_ends m hi p"
| ends_next: "walk_ends m hi (tospace_next m p) \<Longrightarrow> walk_ends m hi p"

lemma snd_tospace_object: "snd (tospace_object dbg self h p) = tospace_next (mem h) p"
  by (simp add: tospace_object_def debug_object_def tospace_next_def)

lemma check_walk_ends: "walk_ends m hi p \<Longrightarrow> mem h = m \<Longrightarrow> \<exists>r. check_walk (tospace_object dbg self h) hi p msgs = Some r"
proof (induction p arbitrary: msgs rule: walk_ends.induct)
  case (ends_here p)
  then show ?case by (subst check_walk.simps) simp
next
  case (ends_next p)
  obtain ms p' where o: "tospace_object dbg self h p = (ms, p')" by (cases "tospace_object dbg self h p")
  then have "p' = tospace_next m p" using snd_tospace_object [of dbg self h p] ends_next.prems by simp
  then show ?case using ends_next.IH [of "msgs @ ms"] ends_next.prems by (subst check_walk.simps) (simp add: o)
qed

definition chunk_walks :: "VProc \<Rightarrow> Heap \<Rightarrow> nat \<Rightarrow> bool" where
  "chunk_walks self h c \<longleftrightarrow> walk_ends (mem h) (UsedTopOfChunk self h c) (baseAddr (chunks h c))"

text \<open>Heaps that differ in the status of some chunks only.\<close>

definition same_but_sts :: "nat set \<Rightarrow> Heap \<Rightarrow> Heap \<Rightarrow> bool" where
  "same_but_sts S h h' \<longleftrightarrow> mem h' = mem h \<and> NodeHeaps h' = NodeHeaps h \<and> (\<forall>c. c \<notin> S \<longrightarrow> chunks h' c = chunks h c)
     \<and> (\<forall>c. nxt (chunks h' c) = nxt (chunks h c) \<and> usedTop (chunks h' c) = usedTop (chunks h c) \<and> baseAddr (chunks h' c) = baseAddr (chunks h c))"

lemma same_but_sts_refl [simp]: "same_but_sts S h h"
  by (simp add: same_but_sts_def)

lemma same_but_sts_trans: "same_but_sts S h h1 \<Longrightarrow> same_but_sts T h1 h2 \<Longrightarrow> same_but_sts (S \<union> T) h h2"
  by (auto simp: same_but_sts_def)

lemma same_but_sts_mono: "same_but_sts S h h' \<Longrightarrow> S \<subseteq> T \<Longrightarrow> same_but_sts T h h'"
  by (auto simp: same_but_sts_def)

lemma same_chain: "same_but_sts S h h' \<Longrightarrow> chain (chunks h') p xs = chain (chunks h) p xs"
  by (rule chain_cong) (simp add: same_but_sts_def)

lemma same_walks: "same_but_sts S h h' \<Longrightarrow> chunk_walks self h' c = chunk_walks self h c"
  by (simp add: same_but_sts_def chunk_walks_def UsedTopOfChunk_def)

lemma unscanned_loop_list:
  "\<lbrakk>chain (chunks h) cp us; \<forall>c \<in> set us. chunk_walks self h c\<rbrakk> \<Longrightarrow>
   \<exists>m h'. unscanned_loop dbg self cp msgs h = Some (m, h') \<and> same_but_sts (set us) h h'"
proof (induction us arbitrary: cp h msgs)
  case Nil
  then show ?case by (subst unscanned_loop.simps) simp
next
  case (Cons c us)
  let ?h = "upd_chunk c (\<lambda>ch. ch\<lparr>sts := TO_SP_CHUNK\<rparr>) h"
  have s: "same_but_sts {c} h ?h" by (simp add: same_but_sts_def upd_chunk_def)
  have cp: "cp = Some c" and ch: "chain (chunks ?h) (nxt (chunks ?h c)) us"
    using Cons.prems(1) same_chain [OF s] by (simp_all add: upd_chunk_def)
  have "chunk_walks self ?h c" using Cons.prems(2) same_walks [OF s] by simp
  then obtain m where m: "check_walk (tospace_object dbg self ?h) (UsedTopOfChunk self ?h c) (baseAddr (chunks ?h c)) msgs = Some m"
    using check_walk_ends by (fastforce simp: chunk_walks_def)
  have "\<forall>c \<in> set us. chunk_walks self ?h c" using Cons.prems(2) same_walks [OF s] by simp
  from Cons.IH [OF ch this, of m] obtain m' h' where r: "unscanned_loop dbg self (nxt (chunks ?h c)) m ?h = Some (m', h')" "same_but_sts (set us) ?h h'"
    by blast
  have "same_but_sts (set (c # us)) h h'" using same_but_sts_trans [OF s r(2)] by simp
  then show ?case using r m by (subst unscanned_loop.simps) (simp add: cp Let_def)
qed

text \<open>The state the leader leaves a node in.\<close>

definition node_clean :: "VProc \<Rightarrow> Heap \<Rightarrow> int \<Rightarrow> nat list \<Rightarrow> nat list \<Rightarrow> bool" where
  "node_clean self h i fs us \<longleftrightarrow> scannedTo (NodeHeaps h i) = None \<and> fromSpace (NodeHeaps h i) = None
     \<and> chain (chunks h) (freeChunks (NodeHeaps h i)) fs \<and> (\<forall>c \<in> set fs. sts (chunks h c) = FREE_CHUNK)
     \<and> chain (chunks h) (unscannedTo (NodeHeaps h i)) us \<and> (\<forall>c \<in> set us. chunk_walks self h c)"

lemma node_clean_same:
  assumes "same_but_sts S h h'" "S \<inter> set fs = {}" "node_clean self h i fs us"
  shows "node_clean self h' i fs us"
proof -
  have "NodeHeaps h' = NodeHeaps h" "\<forall>c \<in> set fs. chunks h' c = chunks h c" using assms(1,2) by (auto simp: same_but_sts_def)
  then show ?thesis using assms(3) by (simp add: node_clean_def same_chain [OF assms(1)] same_walks [OF assms(1)])
qed

lemma check_node_clean:
  assumes "node_clean self h (int i) fs us" "set fs \<inter> set us = {}"
  shows "\<exists>m h'. check_node dbg self i (Some (msgs, h)) = Some (m, h') \<and> same_but_sts (set us) h h'"
proof -
  obtain m h' where u: "unscanned_loop dbg self (unscannedTo (NodeHeaps h (int i))) msgs h = Some (m, h')" "same_but_sts (set us) h h'"
    using unscanned_loop_list assms(1) unfolding node_clean_def by blast
  have "node_clean self h' (int i) fs us" using node_clean_same [OF u(2) _ assms(1)] assms(2) by auto
  then have "chunks_ok (\<lambda>c ch. sts ch = FREE_CHUNK) (chunks h') (freeChunks (NodeHeaps h' (int i))) = Some ()"
    by (intro chunks_ok_chain [of _ _ fs]) (auto simp: node_clean_def)
  then show ?thesis using u assms(1) by (simp add: check_node_def node_clean_def Let_def)
qed

lemma check_nodes_clean:
  assumes clean: "\<And>i. i < n \<Longrightarrow> node_clean self h (int i) (fs i) (us i)"
    and d: "\<And>i j. i < n \<Longrightarrow> j < n \<Longrightarrow> set (fs i) \<inter> set (us j) = {}"
  shows "k \<le> n \<Longrightarrow> \<exists>m h'. fold (check_node dbg self) [0..<k] (Some (msgs, h)) = Some (m, h') \<and> same_but_sts (\<Union>j<k. set (us j)) h h'"
proof (induction k)
  case (Suc k)
  then obtain m h1 where 1: "fold (check_node dbg self) [0..<k] (Some (msgs, h)) = Some (m, h1)" "same_but_sts (\<Union>j<k. set (us j)) h h1" by auto
  have "(\<Union>j<k. set (us j)) \<inter> set (fs k) = {}" using d [of k] Suc.prems by (fastforce simp: disjoint_iff)
  then have "node_clean self h1 (int k) (fs k) (us k)" using clean [of k] Suc.prems by (intro node_clean_same [OF 1(2)]) auto
  then obtain m' h' where 2: "check_node dbg self k (Some (m, h1)) = Some (m', h')" "same_but_sts (set (us k)) h1 h'"
    using check_node_clean [of self h1 k "fs k" "us k" dbg m] d [of k k] Suc.prems by auto
  have "(\<Union>j<k. set (us j)) \<union> set (us k) = (\<Union>j<Suc k. set (us j))" by (auto simp: less_Suc_eq)
  then show ?case using 1(1) 2(1) same_but_sts_trans [OF 1(2) 2(2)] by auto
qed simp

lemma check_vprocs_clean:
  "\<lbrakk>\<And>vp. vp \<in> set vps \<Longrightarrow> \<exists>us. chain (chunks h) (unscannedTo (NodeHeaps h (LocationNode (location vp)))) us \<and> globAllocChunk vp \<notin> Some ` set us\<rbrakk>
   \<Longrightarrow> fold check_vproc vps (Some (m, h)) = Some (m, h)"
proof (induction vps)
  case (Cons vp vps)
  then obtain us where "chain (chunks h) (unscannedTo (NodeHeaps h (LocationNode (location vp)))) us" "globAllocChunk vp \<notin> Some ` set us" by fastforce
  then have "chunks_ok (\<lambda>c ch. globAllocChunk vp \<noteq> Some c) (chunks h) (unscannedTo (NodeHeaps h (LocationNode (location vp)))) = Some ()"
    by (intro chunks_ok_chain [of _ _ us]) auto
  then show ?case using Cons by (simp add: check_vproc_def)
qed simp

text \<open>Before the reclamation: the three lists of every node, all of different chunks, the free ones marked free.\<close>

definition nodes_before :: "nat \<Rightarrow> Heap \<Rightarrow> (nat \<Rightarrow> nat list) \<Rightarrow> (nat \<Rightarrow> nat list) \<Rightarrow> (nat \<Rightarrow> nat list) \<Rightarrow> bool" where
  "nodes_before n h xs fs us \<longleftrightarrow>
     distinct (concat (map (\<lambda>i. xs i @ fs i @ us i) [0..<n])) \<and>
     list_all (\<lambda>i. chain (chunks h) (fromSpace (NodeHeaps h (int i))) (xs i) \<and> chain (chunks h) (freeChunks (NodeHeaps h (int i))) (fs i)
       \<and> chain (chunks h) (scannedTo (NodeHeaps h (int i))) (us i) \<and> list_all (\<lambda>c. sts (chunks h c) = FREE_CHUNK) (fs i)) [0..<n]"

lemma distinct_parts:
  assumes "distinct (concat (map f [0..<n]))" "i < n" "j < n" "i \<noteq> j"
  shows "set (f i) \<inter> set (f j) = {}"
proof -
  have d: "i < j \<Longrightarrow> j < n \<Longrightarrow> set (f i) \<inter> set (f j) = {}" for i j
  proof -
    assume "i < j" "j < n"
    then have "[0..<n] = [0..<j] @ j # [Suc j..<n]" using upt_add_eq_append [of 0 j "n - j"] by (simp add: upt_conv_Cons)
    moreover have "i \<in> set [0..<j]" using \<open>i < j\<close> by simp
    ultimately show ?thesis using assms(1) by fastforce
  qed
  show ?thesis using d [of i j] d [of j i] assms(2-4) by (cases "i < j") auto
qed

lemma distinct_part: "distinct (concat (map f [0..<n])) \<Longrightarrow> i < n \<Longrightarrow> distinct (f i)"
  by (auto simp: distinct_concat_iff)

lemma reclaim_nodes_clean:
  assumes before: "nodes_before n h xs fs us"
  shows "k \<le> n \<Longrightarrow> \<exists>h'. reclaim_nodes k h = Some h' \<and> mem h' = mem h
    \<and> (\<forall>i < k. scannedTo (NodeHeaps h' (int i)) = None \<and> fromSpace (NodeHeaps h' (int i)) = None
         \<and> chain (chunks h') (freeChunks (NodeHeaps h' (int i))) (rev (xs i) @ fs i) \<and> (\<forall>c \<in> set (xs i @ fs i). sts (chunks h' c) = FREE_CHUNK)
         \<and> chain (chunks h') (unscannedTo (NodeHeaps h' (int i))) (us i))
    \<and> (\<forall>i. k \<le> i \<longrightarrow> NodeHeaps h' (int i) = NodeHeaps h (int i))
    \<and> (\<forall>c. c \<notin> (\<Union>i<k. set (xs i)) \<longrightarrow> chunks h' c = chunks h c)"
proof (induction k)
  case 0
  then show ?case by (simp add: reclaim_nodes_def)
next
  case (Suc k)
  then obtain h1 where 1: "reclaim_nodes k h = Some h1" "mem h1 = mem h"
    "\<forall>i < k. scannedTo (NodeHeaps h1 (int i)) = None \<and> fromSpace (NodeHeaps h1 (int i)) = None
         \<and> chain (chunks h1) (freeChunks (NodeHeaps h1 (int i))) (rev (xs i) @ fs i) \<and> (\<forall>c \<in> set (xs i @ fs i). sts (chunks h1 c) = FREE_CHUNK)
         \<and> chain (chunks h1) (unscannedTo (NodeHeaps h1 (int i))) (us i)"
    "\<forall>i. k \<le> i \<longrightarrow> NodeHeaps h1 (int i) = NodeHeaps h (int i)"
    "\<forall>c. c \<notin> (\<Union>i<k. set (xs i)) \<longrightarrow> chunks h1 c = chunks h c" by auto
  have k: "k < n" using Suc.prems by simp
  have d: "distinct (concat (map (\<lambda>i. xs i @ fs i @ us i) [0..<n]))" using before by (simp add: nodes_before_def)
  have dis: "i < n \<Longrightarrow> j < n \<Longrightarrow> i \<noteq> j \<Longrightarrow> set (xs i @ fs i @ us i) \<inter> set (xs j @ fs j @ us j) = {}" for i j
    using distinct_parts [OF d] by blast
  have same: "c \<in> set (xs k @ fs k @ us k) \<Longrightarrow> chunks h1 c = chunks h c" for c
  proof -
    assume c: "c \<in> set (xs k @ fs k @ us k)"
    have "c \<notin> (\<Union>i<k. set (xs i))"
    proof
      assume "c \<in> (\<Union>i<k. set (xs i))"
      then obtain i where "i < k" "c \<in> set (xs i)" by auto
      then show False using dis [of i k] k c by auto
    qed
    then show ?thesis using 1(5) by simp
  qed
  have N: "NodeHeaps h1 (int k) = NodeHeaps h (int k)" using 1(4) by simp
  have B: "chain (chunks h) (fromSpace (NodeHeaps h (int k))) (xs k)" "chain (chunks h) (freeChunks (NodeHeaps h (int k))) (fs k)"
    "chain (chunks h) (scannedTo (NodeHeaps h (int k))) (us k)" "list_all (\<lambda>c. sts (chunks h c) = FREE_CHUNK) (fs k)"
    using before k by (auto simp: nodes_before_def list_all_iff)
  have C: "chain (chunks h1) (fromSpace (NodeHeaps h1 (int k))) (xs k)" "chain (chunks h1) (freeChunks (NodeHeaps h1 (int k))) (fs k)"
    "chain (chunks h1) (scannedTo (NodeHeaps h1 (int k))) (us k)"
    using B(1-3) same unfolding N by (auto simp: chain_cong [where cs = "chunks h1" and cs' = "chunks h"])
  obtain h' where 2: "reclaim_node (int k) h1 = Some h'" "chain (chunks h') (freeChunks (NodeHeaps h' (int k))) (rev (xs k) @ fs k)"
    "\<forall>c\<in>set (xs k). sts (chunks h' c) = FREE_CHUNK" "chain (chunks h') (unscannedTo (NodeHeaps h' (int k))) (us k)"
    "scannedTo (NodeHeaps h' (int k)) = None" "fromSpace (NodeHeaps h' (int k)) = None"
    "\<forall>c. c \<notin> set (xs k) \<longrightarrow> chunks h' c = chunks h1 c" "\<forall>j. j \<noteq> int k \<longrightarrow> NodeHeaps h' j = NodeHeaps h1 j" "mem h' = mem h1"
    using reclaim_node_frees [OF C] distinct_part [OF d k] by blast
  have r: "reclaim_nodes (Suc k) h = Some h'" using 1(1) 2(1) by (simp add: reclaim_nodes_def)
  have fk: "\<forall>c \<in> set (fs k). sts (chunks h' c) = FREE_CHUNK"
  proof
    fix c assume c: "c \<in> set (fs k)"
    then have "c \<notin> set (xs k)" using distinct_part [OF d k] by auto
    then show "sts (chunks h' c) = FREE_CHUNK" using 2(7) same [of c] B(4) c by (simp add: list_all_iff)
  qed
  have old: "scannedTo (NodeHeaps h' (int i)) = None \<and> fromSpace (NodeHeaps h' (int i)) = None
         \<and> chain (chunks h') (freeChunks (NodeHeaps h' (int i))) (rev (xs i) @ fs i) \<and> (\<forall>c \<in> set (xs i @ fs i). sts (chunks h' c) = FREE_CHUNK)
         \<and> chain (chunks h') (unscannedTo (NodeHeaps h' (int i))) (us i)" if i: "i < k" for i
  proof -
    have c: "c \<in> set (xs i @ fs i @ us i) \<Longrightarrow> chunks h' c = chunks h1 c" for c using dis [of i k] i k 2(7) by auto
    have "NodeHeaps h' (int i) = NodeHeaps h1 (int i)" using 2(8) i by simp
    moreover have "chain (chunks h') p (rev (xs i) @ fs i) = chain (chunks h1) p (rev (xs i) @ fs i)" for p
      using c by (intro chain_cong) auto
    moreover have "chain (chunks h') p (us i) = chain (chunks h1) p (us i)" for p using c by (intro chain_cong) auto
    ultimately show ?thesis using 1(3) i c by auto
  qed
  have "(\<forall>i < Suc k. scannedTo (NodeHeaps h' (int i)) = None \<and> fromSpace (NodeHeaps h' (int i)) = None
         \<and> chain (chunks h') (freeChunks (NodeHeaps h' (int i))) (rev (xs i) @ fs i) \<and> (\<forall>c \<in> set (xs i @ fs i). sts (chunks h' c) = FREE_CHUNK)
         \<and> chain (chunks h') (unscannedTo (NodeHeaps h' (int i))) (us i))"
    using old 2(2-6) fk by (auto simp: less_Suc_eq)
  moreover have "\<forall>i. Suc k \<le> i \<longrightarrow> NodeHeaps h' (int i) = NodeHeaps h (int i)" using 1(4) 2(8) by simp
  moreover have "\<forall>c. c \<notin> (\<Union>i<Suc k. set (xs i)) \<longrightarrow> chunks h' c = chunks h c" using 1(5) 2(7) by (auto simp: less_Suc_eq)
  ultimately show ?case using r 1(2) 2(9) by (intro exI [of _ h'] conjI) (assumption | simp)+
qed

lemma chunk_walks_reclaimed: "mem h' = mem h \<Longrightarrow> chunks h' c = chunks h c \<Longrightarrow> chunk_walks self h' c = chunk_walks self h c"
  by (simp add: chunk_walks_def UsedTopOfChunk_def)

text \<open>After the leader has reclaimed from-space, the check of to-space passes all its assertions: no node has from-space or scanned chunks left,
  every free chunk is marked free, and no vproc allocates in an unscanned chunk; it ends as long as the objects in the scanned chunks can be walked.\<close>

theorem reclaim_passes_check:
  assumes before: "nodes_before n h xs fs us"
    and walks: "\<And>i c. i < n \<Longrightarrow> c \<in> set (us i) \<Longrightarrow> chunk_walks self h c"
    and own: "\<And>vp. vp \<in> set vps \<Longrightarrow> \<exists>i < n. LocationNode (location vp) = int i \<and> globAllocChunk vp \<notin> Some ` set (us i)"
  shows "\<exists>h' m h''. reclaim_nodes n h = Some h' \<and> CheckToSpacesAfterGlobalGC dbg self n vps h' = Some (m, h'')"
proof -
  obtain h' where r: "reclaim_nodes n h = Some h'" "mem h' = mem h"
    and st: "\<forall>i < n. scannedTo (NodeHeaps h' (int i)) = None \<and> fromSpace (NodeHeaps h' (int i)) = None
         \<and> chain (chunks h') (freeChunks (NodeHeaps h' (int i))) (rev (xs i) @ fs i) \<and> (\<forall>c \<in> set (xs i @ fs i). sts (chunks h' c) = FREE_CHUNK)
         \<and> chain (chunks h') (unscannedTo (NodeHeaps h' (int i))) (us i)"
    and same: "\<forall>c. c \<notin> (\<Union>i<n. set (xs i)) \<longrightarrow> chunks h' c = chunks h c"
    using reclaim_nodes_clean [OF before, of n] by auto
  have d: "distinct (concat (map (\<lambda>i. xs i @ fs i @ us i) [0..<n]))" using before by (simp add: nodes_before_def)
  have dis: "set (rev (xs i) @ fs i) \<inter> set (us j) = {}" if "i < n" "j < n" for i j
    using distinct_parts [OF d that] distinct_part [OF d that(1)] by (cases "i = j") auto
  have clean: "node_clean self h' (int i) (rev (xs i) @ fs i) (us i)" if i: "i < n" for i
  proof -
    have "chunks h' c = chunks h c" if "c \<in> set (us i)" for c using same dis i that by auto
    then have "\<forall>c \<in> set (us i). chunk_walks self h' c" using walks [OF i] chunk_walks_reclaimed [OF r(2)] by auto
    then show ?thesis using st i by (simp add: node_clean_def)
  qed
  obtain m h'' where c: "fold (check_node dbg self) [0..<n] (Some ([], h')) = Some (m, h'')" "same_but_sts (\<Union>j<n. set (us j)) h' h''"
    using check_nodes_clean [OF clean dis] by blast
  have "fold check_vproc vps (Some (m, h'')) = Some (m, h'')"
  proof (rule check_vprocs_clean)
    fix vp assume "vp \<in> set vps"
    then obtain i where "i < n" "LocationNode (location vp) = int i" "globAllocChunk vp \<notin> Some ` set (us i)" using own by blast
    then show "\<exists>us. chain (chunks h'') (unscannedTo (NodeHeaps h'' (LocationNode (location vp)))) us \<and> globAllocChunk vp \<notin> Some ` set us"
      using st same_chain [OF c(2)] c(2) by (intro exI [of _ "us i"]) (simp add: same_but_sts_def)
  qed
  then show ?thesis using r(1) c(1) by (auto simp: CheckToSpacesAfterGlobalGC_def)
qed

theorem reclaim_passes_check_witness:
  "\<exists>h' m h''. reclaim_nodes 1 (upd_node 0 (\<lambda>nh. nh\<lparr>fromSpace := Some 4\<rparr>) ex_heap) = Some h'
     \<and> CheckToSpacesAfterGlobalGC (\<lambda>_ _ _ _. []) ex_vproc 1 [ex_vproc] h' = Some (m, h'')"
  by (rule reclaim_passes_check [where xs = "\<lambda>_. [4, 5]" and fs = "\<lambda>_. []" and us = "\<lambda>_. []"])
    (auto simp: nodes_before_def ex_heap_def InitHeapState_def ex_chunk_def ex_vproc_def LocationNode_def)

text \<open>The assertion in the check after a minor collection changes what it is meant to test.\<close>

lemma CheckMinorGC_assigns:
  assumes "CheckMinorGC dbg dbgGlobal roots rt = Some (msgs, rt')" "globAllocChunk (rt_vp rt) = Some cp"
  shows "sts (chunks (rt_heap rt') cp) = TO_SP_CHUNK"
  using assms by (auto simp: CheckMinorGC_def Let_def bind_eq_Some_conv upd_chunk_def)

text \<open>The walk of the consistency check does not move past an object without fields.\<close>

lemma consistency_object_stuck: "GetLength (m p) = 0 \<Longrightarrow> snd (consistency_object dbg base asz m p) = p"
  by (simp add: consistency_object_def)

end
