(* ===== verification/Scan_Protocol.thy ===== *)
theory Scan_Protocol
  imports Global_GC
begin

text \<open>
  The end of the parallel scan of a global collection, \<^verbatim>\<open>GetNextScanChunk\<close> of \<^verbatim>\<open>gc/global-gc.c\<close>, as a
  step relation over the vprocs of one node: a vproc that finds no chunk waits, the last one to run out
  of work declares the scan complete. The steps use the operations of the theory of the global collector;
  spurious wake-ups are allowed. Shown: the scan is declared complete only when there is nothing left to scan, and it
  cannot deadlock.
\<close>

subsection \<open>The end of scanning on a node\<close>

datatype ScanPc = Busy | Waiting | Finished

record ScanSys =
  sc_heap :: Heap
  sc_vps :: "nat \<Rightarrow> VProc"
  sc_pc :: "nat \<Rightarrow> ScanPc"

primrec after_ask :: "ScanNext \<Rightarrow> ScanPc" where
  "after_ask (ScanThis c) = Busy"
| "after_ask ScanDone = Finished"
| "after_ask MustWait = Waiting"

definition alloc_unscanned :: "Heap \<Rightarrow> VProc \<Rightarrow> bool" where
  "alloc_unscanned h vp \<longleftrightarrow> scanProgress (chunks h (the (globAllocChunk vp))) < globNextW vp - WORD_SZB"

text \<open>
  What a busy vproc \<open>i\<close> (scanning its roots, its heap or a chunk) may do to the state while it does not hold the node's
  lock or pushes chunks under it: anything but changing the waiting count and the completion flag, the registers
  of another vproc, or the scan progress of another vproc's allocation chunk.
\<close>

definition busy_frame :: "int \<Rightarrow> nat \<Rightarrow> (nat \<Rightarrow> VProc) \<Rightarrow> Heap \<Rightarrow> Heap \<Rightarrow> bool" where
  "busy_frame node i vps h h' \<longleftrightarrow> numWaiting (NodeHeaps h' node) = numWaiting (NodeHeaps h node)
     \<and> completed (NodeHeaps h' node) = completed (NodeHeaps h node)
     \<and> (\<forall>j. j \<noteq> i \<longrightarrow> scanProgress (chunks h' (the (globAllocChunk (vps j)))) = scanProgress (chunks h (the (globAllocChunk (vps j)))))"

inductive scan_step :: "(int \<Rightarrow> int) \<Rightarrow> int \<Rightarrow> nat set \<Rightarrow> ScanSys \<Rightarrow> ScanSys \<Rightarrow> bool" for nv node V where
  busy: "i \<in> V \<Longrightarrow> sc_pc s i = Busy \<Longrightarrow> busy_frame node i (sc_vps s) (sc_heap s) h'
    \<Longrightarrow> scan_step nv node V s (s\<lparr>sc_heap := h', sc_vps := (sc_vps s)(i := vp')\<rparr>)"
| ask: "i \<in> V \<Longrightarrow> sc_pc s i = Busy \<Longrightarrow> TryNext nv (sc_vps s i) node (sc_heap s) = (r, h')
    \<Longrightarrow> scan_step nv node V s (s\<lparr>sc_heap := h', sc_pc := (sc_pc s)(i := after_ask r)\<rparr>)"
| wake: "i \<in> V \<Longrightarrow> sc_pc s i = Waiting \<Longrightarrow> AfterWait nv (sc_vps s i) node (sc_heap s) = (r, h')
    \<Longrightarrow> scan_step nv node V s (s\<lparr>sc_heap := h', sc_pc := (sc_pc s)(i := after_ask r)\<rparr>)"

definition scan_start :: "int \<Rightarrow> nat set \<Rightarrow> ScanSys \<Rightarrow> bool" where
  "scan_start node V s \<longleftrightarrow> (\<forall>i\<in>V. sc_pc s i = Busy) \<and> numWaiting (NodeHeaps (sc_heap s) node) = 0
     \<and> \<not> completed (NodeHeaps (sc_heap s) node)"

definition scan_inv :: "(int \<Rightarrow> int) \<Rightarrow> int \<Rightarrow> nat set \<Rightarrow> ScanSys \<Rightarrow> bool" where
  "scan_inv nv node V s \<longleftrightarrow> (let nh = NodeHeaps (sc_heap s) node in
     numWaiting nh = int (card {i\<in>V. sc_pc s i = Waiting})
     \<and> (\<forall>i\<in>V. sc_pc s i \<noteq> Busy \<longrightarrow> \<not> alloc_unscanned (sc_heap s) (sc_vps s i))
     \<and> (\<forall>i\<in>V. sc_pc s i = Finished \<longrightarrow> completed nh)
     \<and> (if completed nh then unscannedTo nh = None \<and> (\<forall>i\<in>V. sc_pc s i \<noteq> Busy) else \<exists>i\<in>V. sc_pc s i = Busy))"

text \<open>One question for the next chunk, by its outcome.\<close>

lemma TryNext_cases:
  assumes "TryNext nv vp node h = (r, h')"
  obtains (This) c where "r = ScanThis c" "numWaiting (NodeHeaps h' node) = numWaiting (NodeHeaps h node)"
      "completed (NodeHeaps h' node) = completed (NodeHeaps h node)" "\<And>c. scanProgress (chunks h' c) = scanProgress (chunks h c)"
  | (Last) "r = ScanDone" "numWaiting (NodeHeaps h node) + 1 = nv node" "completed (NodeHeaps h' node)"
      "unscannedTo (NodeHeaps h' node) = None" "numWaiting (NodeHeaps h' node) = numWaiting (NodeHeaps h node)"
      "\<not> alloc_unscanned h vp" "chunks h' = chunks h"
  | (Wait) "r = MustWait" "numWaiting (NodeHeaps h node) + 1 \<noteq> nv node" "\<not> completed (NodeHeaps h node)"
      "\<not> completed (NodeHeaps h' node)" "numWaiting (NodeHeaps h' node) = numWaiting (NodeHeaps h node) + 1"
      "\<not> alloc_unscanned h vp" "chunks h' = chunks h"
  | (Late) "r = ScanDone" "completed (NodeHeaps h node)" "h' = h" 
proof -
  have late: "upd_node node (\<lambda>nh. nh\<lparr>numWaiting := numWaiting (NodeHeaps h node) + 1 - 1\<rparr>) h = h"
    by (simp add: upd_node_def)
  show thesis
  proof (cases "unscannedTo (NodeHeaps h node)")
    case (Some c)
    show ?thesis by (rule This [of c]) (use assms Some in \<open>auto simp: TryNext_def\<close>)
  next
    case None
    show ?thesis
    proof (cases "alloc_unscanned h vp")
      case True
      then show ?thesis using assms None by (intro This) (auto simp: TryNext_def alloc_unscanned_def Let_def)
    next
      case False
      then show ?thesis
        using assms None Last Wait Late late unfolding TryNext_def alloc_unscanned_def Let_def
        by (auto split: if_splits)
    qed
  qed
qed

lemma card_waiting_upd:
  assumes "finite V" "i \<in> V"
  shows "int (card {j\<in>V. (pc(i := x)) j = Waiting}) = int (card {j\<in>V. pc j = Waiting})
    + (if x = Waiting then 1 else 0) - (if pc i = Waiting then 1 else 0)"
proof -
  let ?W = "{j\<in>V - {i}. pc j = Waiting}"
  have "{j\<in>V. (pc(i := x)) j = Waiting} = (if x = Waiting then insert i ?W else ?W)"
    "{j\<in>V. pc j = Waiting} = (if pc i = Waiting then insert i ?W else ?W)" using assms(2) by auto
  moreover have "finite ?W" "i \<notin> ?W" using assms(1) by auto
  ultimately show ?thesis by auto
qed

lemma all_others_wait:
  assumes "finite V" "i \<in> V" "pc i \<noteq> Waiting" "int (card {j\<in>V. pc j = Waiting}) + 1 = int (card V)" "j \<in> V" "j \<noteq> i"
  shows "pc j = Waiting"
proof (rule ccontr)
  assume "pc j \<noteq> Waiting"
  then have "{j\<in>V. pc j = Waiting} \<subseteq> V - {i, j}" using assms by auto
  then have "card {j\<in>V. pc j = Waiting} \<le> card (V - {i, j})" using assms(1) by (intro card_mono) auto
  also have "\<dots> = card V - 2" using assms by (subst card_Diff_subset) auto
  finally have "card {j\<in>V. pc j = Waiting} \<le> card V - 2" .
  moreover have "2 \<le> card V" using card_mono [of V "{i, j}"] assms by simp
  ultimately show False using assms(4) by linarith
qed

lemma scan_inv_ask:
  assumes V: "finite V" "nv node = int (card V)" and i: "i \<in> V" "pc i = Busy"
    and inv: "scan_inv nv node V \<lparr>sc_heap = h, sc_vps = vps, sc_pc = pc\<rparr>"
    and ask: "TryNext nv (vps i) node h = (r, h')"
  shows "scan_inv nv node V \<lparr>sc_heap = h', sc_vps = vps, sc_pc = pc(i := after_ask r)\<rparr>"
proof -
  let ?w = "\<lambda>pc. int (card {j\<in>V. pc j = Waiting})"
  have I: "numWaiting (NodeHeaps h node) = ?w pc" "\<And>j. j \<in> V \<Longrightarrow> pc j \<noteq> Busy \<Longrightarrow> \<not> alloc_unscanned h (vps j)"
    "\<And>j. j \<in> V \<Longrightarrow> pc j \<noteq> Finished" "\<not> completed (NodeHeaps h node)"
    using inv i by (auto simp: scan_inv_def Let_def split: if_splits)
  note w = card_waiting_upd [OF V(1) i(1), of pc "after_ask r"]
  show ?thesis
  proof (cases rule: TryNext_cases [OF ask])
    case (1 c)
    then have "pc(i := after_ask r) = pc" using i by auto
    then show ?thesis using 1 I i by (auto simp: scan_inv_def Let_def alloc_unscanned_def)
  next
    case 2
    have all: "pc j = Waiting" if "j \<in> V" "j \<noteq> i" for j
      by (rule all_others_wait [OF V(1) i(1) _ _ that]) (use 2 I i V in auto)
    then show ?thesis using 2 I i w by (auto simp: scan_inv_def Let_def alloc_unscanned_def)
  next
    case 3
    have "\<exists>j\<in>V. j \<noteq> i \<and> pc j = Busy"
    proof (rule ccontr)
      assume "\<not> (\<exists>j\<in>V. j \<noteq> i \<and> pc j = Busy)"
      then have "pc j = Waiting" if "j \<in> V" "j \<noteq> i" for j using I(3) that by (cases "pc j") auto
      then have "{j\<in>V. pc j = Waiting} = V - {i}" using i by auto
      moreover have "0 < card V" using V i by (auto simp: card_gt_0_iff)
      ultimately have "?w pc + 1 = int (card V)" using V i by (simp add: card_Diff_singleton)
      then show False using 3(2) V(2) I(1) by simp
    qed
    then show ?thesis using 3 I i w by (auto simp: scan_inv_def Let_def alloc_unscanned_def)
  next
    case 4
    then show ?thesis using I by simp
  qed
qed

lemma scan_inv_step:
  assumes V: "finite V" "nv node = int (card V)" and inv: "scan_inv nv node V s" and step: "scan_step nv node V s s'"
  shows "scan_inv nv node V s'"
  using step
proof cases
  case (busy h' i vp')
  then show ?thesis using inv by (auto simp: scan_inv_def Let_def busy_frame_def alloc_unscanned_def)
next
  case (ask i r h')
  have "scan_inv nv node V \<lparr>sc_heap = sc_heap s, sc_vps = sc_vps s, sc_pc = sc_pc s\<rparr>" using inv by (cases s) simp
  from scan_inv_ask [where nv = nv and node = node and pc = "sc_pc s" and vps = "sc_vps s", OF V ask(2,3) this ask(4)]
  show ?thesis unfolding ask(1) by (cases s) simp
next
  case (wake i r h')
  let ?h1 = "upd_node node (\<lambda>nh. nh\<lparr>numWaiting := numWaiting nh - 1\<rparr>) (sc_heap s)"
  have w: "int (card {j\<in>V. ((sc_pc s)(i := x)) j = Waiting}) = int (card {j\<in>V. sc_pc s j = Waiting})
      + (if x = Waiting then 1 else 0) - 1" for x
    using card_waiting_upd [OF V(1) wake(2), of "sc_pc s" x] wake(3) by simp
  show ?thesis
  proof (cases "completed (NodeHeaps (sc_heap s) node)")
    case True
    then have "r = ScanDone" "h' = ?h1" using wake(4) by (auto simp: AfterWait_def Let_def)
    then show ?thesis using wake inv True w [of Finished]
      by (auto simp: scan_inv_def Let_def alloc_unscanned_def split: if_splits)
  next
    case False
    then have ask: "TryNext nv (sc_vps s i) node ?h1 = (r, h')" using wake(4) by (simp add: AfterWait_def Let_def)
    have "scan_inv nv node V \<lparr>sc_heap = ?h1, sc_vps = sc_vps s, sc_pc = (sc_pc s)(i := Busy)\<rparr>"
      using inv False w [of Busy] wake(2) by (auto simp: scan_inv_def Let_def alloc_unscanned_def)
    from scan_inv_ask [where nv = nv and node = node and pc = "(sc_pc s)(i := Busy)" and vps = "sc_vps s", OF V wake(2) _ this ask]
    show ?thesis unfolding wake(1) by (cases s) simp
  qed
qed

lemma scan_inv_start: "V \<noteq> {} \<Longrightarrow> scan_start node V s \<Longrightarrow> scan_inv nv node V s"
proof -
  assume a: "V \<noteq> {}" "scan_start node V s"
  then have "{i \<in> V. sc_pc s i = Waiting} = {}" by (auto simp: scan_start_def)
  then have "card {i \<in> V. sc_pc s i = Waiting} = 0" by (simp only: card.empty)
  then show "scan_inv nv node V s" using a by (auto simp: scan_inv_def scan_start_def Let_def)
qed

lemma scan_inv_reachable:
  "(scan_step nv node V)\<^sup>*\<^sup>* s0 s \<Longrightarrow> finite V \<Longrightarrow> nv node = int (card V) \<Longrightarrow> V \<noteq> {} \<Longrightarrow> scan_start node V s0
    \<Longrightarrow> scan_inv nv node V s"
  by (induction rule: rtranclp_induct) (auto intro: scan_inv_start scan_inv_step)

text \<open>C9: When some vproc of a node leaves the scan of a global collection, the node has no unscanned chunk, no vproc of
  the node is still scanning, and the allocation chunk of each is scanned to its end.\<close>

lemma scan_end_safe:
  assumes "finite V" "nv node = int (card V)" "i \<in> V" "scan_start node V s0" "(scan_step nv node V)\<^sup>*\<^sup>* s0 s" "sc_pc s i = Finished"
  shows "unscannedTo (NodeHeaps (sc_heap s) node) = None
    \<and> (\<forall>j\<in>V. sc_pc s j \<noteq> Busy \<and> \<not> alloc_unscanned (sc_heap s) (sc_vps s j))"
proof -
  have "V \<noteq> {}" using assms(3) by blast
  then have "scan_inv nv node V s" by (rule scan_inv_reachable [OF assms(5,1,2) _ assms(4)])
  then show ?thesis using assms(3,6) by (auto simp: scan_inv_def Let_def split: if_splits)
qed


definition ex_scan_sys :: ScanSys where
  "ex_scan_sys = \<lparr>sc_heap = ex_heap, sc_vps = (\<lambda>_. ex_vproc\<lparr>globAllocChunk := Some 3, globNextW := 8\<rparr>), sc_pc = (\<lambda>_. Busy)\<rparr>"

lemma ex_scan_start: "scan_start 0 {0} ex_scan_sys"
  by (simp add: scan_start_def ex_scan_sys_def ex_heap_def InitHeapState_def)

lemma scan_end_safe_witness:
  "\<exists>s. (scan_step (\<lambda>_. 1) 0 {0})\<^sup>*\<^sup>* ex_scan_sys s \<and> sc_pc s 0 = Finished \<and> unscannedTo (NodeHeaps (sc_heap s) 0) = None"
proof -
  let ?h' = "upd_node 0 (\<lambda>nh. nh\<lparr>completed := True, numWaiting := 0\<rparr>) ex_heap"
  have ask: "TryNext (\<lambda>_. 1) (sc_vps ex_scan_sys 0) 0 (sc_heap ex_scan_sys) = (ScanDone, ?h')"
    by (simp add: TryNext_def ex_scan_sys_def ex_heap_def InitHeapState_def Let_def)
  let ?s = "ex_scan_sys\<lparr>sc_heap := ?h', sc_pc := (sc_pc ex_scan_sys)(0 := after_ask ScanDone)\<rparr>"
  have "scan_step (\<lambda>_. 1) 0 {0} ex_scan_sys ?s"
    by (rule scan_step.ask) (use ask in \<open>simp_all add: ex_scan_sys_def\<close>)
  then have r: "(scan_step (\<lambda>_. 1) 0 {0})\<^sup>*\<^sup>* ex_scan_sys ?s" by (rule r_into_rtranclp)
  have f: "sc_pc ?s 0 = Finished" by simp
  have "unscannedTo (NodeHeaps (sc_heap ?s) 0) = None"
    using scan_end_safe [OF _ _ _ ex_scan_start r f] by simp
  then show ?thesis by (intro exI [of _ ?s] conjI r f)
qed


end
