(* ===== verification/Options_Parse.thy ===== *)
theory Options_Parse
  imports Rts_Prelude C_Strings
begin

text \<open>
  Command-line options, \<^verbatim>\<open>misc/options.c\<close>: the vector of unconsumed arguments, and the functions that look an
  option up, convert its argument and remove it. \<open>argv\<close> is the array as the code keeps it (it is never
  shortened, only \<open>argc\<close> is), \<open>args\<close> the list of arguments it stands for. Messages to the user are values
  in \<open>msgs\<close>.
\<close>

subsection \<open>The argument vector\<close>

datatype OptMsg = MissingArg string | BogusSize string | PlacementMismatch int int

record Options =
  errors :: bool
  cmd :: string
  argc :: nat
  argv :: "string list"
  msgs :: "OptMsg list"

definition InitOptions :: "string list \<Rightarrow> Options" where
  "InitOptions av = \<lparr>errors = False, cmd = hd av, argc = length av - 1, argv = tl av, msgs = []\<rparr>"

definition NumOptions :: "Options \<Rightarrow> nat" where "NumOptions opts = argc opts"

text \<open>The unconsumed arguments.\<close>

definition args :: "Options \<Rightarrow> string list" where "args opts = take (argc opts) (argv opts)"

definition CompressOpts :: "nat \<Rightarrow> nat \<Rightarrow> Options \<Rightarrow> Options" where
  "CompressOpts i n opts =
     (let ac = argc opts - n
      in opts\<lparr>argc := ac, argv := fold (\<lambda>j a. a[j := a ! (j + n)]) [i..<ac] (argv opts)\<rparr>)"

text \<open>The loop of the lookup functions: the first argument that satisfies the test.\<close>

definition find_arg :: "(string \<Rightarrow> bool) \<Rightarrow> Options \<Rightarrow> nat option" where
  "find_arg p opts = find (\<lambda>i. p (argv opts ! i)) [0..<argc opts]"

definition say :: "OptMsg \<Rightarrow> Options \<Rightarrow> Options" where
  "say e opts = opts\<lparr>msgs := msgs opts @ [e]\<rparr>"

definition missing_arg :: "nat \<Rightarrow> string \<Rightarrow> Options \<Rightarrow> Options" where
  "missing_arg i opt opts = (say (MissingArg opt) (CompressOpts i 1 opts))\<lparr>errors := True\<rparr>"

subsection \<open>Flags, integers, strings\<close>

definition GetFlagOpt :: "Options \<Rightarrow> string \<Rightarrow> bool \<times> Options" where
  "GetFlagOpt opts flg = (case find_arg (strcmp_eq flg) opts of
     None \<Rightarrow> (False, opts) | Some i \<Rightarrow> (True, CompressOpts i 1 opts))"

text \<open>A C \<^verbatim>\<open>long\<close> returned as an \<^verbatim>\<open>int\<close>.\<close>

definition long_to_int :: "int \<Rightarrow> int" where
  "long_to_int n = sint (word_of_int n :: 32 word)"

definition GetIntOpt :: "Options \<Rightarrow> string \<Rightarrow> int \<Rightarrow> int \<times> Options" where
  "GetIntOpt opts opt dflt = (case find_arg (strcmp_eq opt) opts of
     None \<Rightarrow> (dflt, opts)
   | Some i \<Rightarrow> if i + 1 < argc opts
       then (long_to_int (fst (strtol (argv opts ! (i + 1)) 10)), CompressOpts i 2 opts)
       else (dflt, missing_arg i opt opts))"

definition GetStringOpt :: "Options \<Rightarrow> string \<Rightarrow> string option \<Rightarrow> string option \<times> Options" where
  "GetStringOpt opts opt dflt = (case find_arg (strcmp_eq opt) opts of
     None \<Rightarrow> (dflt, opts)
   | Some i \<Rightarrow> if i + 1 < argc opts then (Some (argv opts ! (i + 1)), CompressOpts i 2 opts)
       else (dflt, missing_arg i opt opts))"

text \<open>
  \<^verbatim>\<open>-option[=value]\<close>. When the option is only a prefix of an argument, the argument is removed all the same and
  the loop goes on behind the one that took its place.
\<close>

function eq_loop :: "string \<Rightarrow> string option \<Rightarrow> nat \<Rightarrow> Options \<Rightarrow> string option \<times> Options" where
  "eq_loop opt dflt i opts =
     (if i < argc opts
      then let arg = argv opts ! i
           in if strncmp_eq opt arg (length opt)
              then let opts' = CompressOpts i 1 opts; rest = drop (length opt) arg
                   in if rest \<noteq> [] \<and> hd rest = CHR ''='' then (Some (tl rest), opts')
                      else if rest = [] then (dflt, opts')
                      else eq_loop opt dflt (i + 1) opts'
              else eq_loop opt dflt (i + 1) opts
      else (None, opts))"
  by pat_completeness auto
termination
  by (relation "measure (\<lambda>(opt, dflt, i, opts). argc opts - i)") (auto simp: CompressOpts_def Let_def)

declare eq_loop.simps [simp del]

definition GetStringEqOpt :: "Options \<Rightarrow> string \<Rightarrow> string option \<Rightarrow> string option \<times> Options" where
  "GetStringEqOpt opts opt dflt = eq_loop opt dflt 0 opts"

subsection \<open>Sizes\<close>

definition size_scale :: "string \<Rightarrow> Addr_t \<Rightarrow> Addr_t" where
  "size_scale endp dfltScale = (case endp of [] \<Rightarrow> dfltScale
     | c # _ \<Rightarrow> if c = CHR ''k'' \<or> c = CHR ''K'' then ONE_K
               else if c = CHR ''m'' \<or> c = CHR ''M'' then ONE_MEG
               else if c = CHR ''g'' \<or> c = CHR ''G'' then ONE_K * ONE_MEG else dfltScale)"

text \<open>The value is an \<^verbatim>\<open>int64_t\<close>, -1 for an error; the product is computed in unsigned 64-bit arithmetic.\<close>

definition GetSizeValue :: "string \<Rightarrow> Addr_t \<Rightarrow> int" where
  "GetSizeValue s dfltScale =
     (let (arg, endp) = strtol s 10
      in if arg < 0 \<or> endp = s then - 1 else sint ((word_of_int arg :: Addr_t) * size_scale endp dfltScale))"

definition GetSizeOpt :: "Options \<Rightarrow> string \<Rightarrow> Addr_t \<Rightarrow> Addr_t \<Rightarrow> Addr_t \<times> Options" where
  "GetSizeOpt opts opt dfltScale dflt = (case find_arg (strcmp_eq opt) opts of
     None \<Rightarrow> (dflt, opts)
   | Some i \<Rightarrow> if i + 1 < argc opts
       then let sz = GetSizeValue (argv opts ! (i + 1)) dfltScale; opts' = CompressOpts i 2 opts
            in if sz < 0 then (dflt, say (BogusSize opt) opts')
               else (word_of_int sz * dfltScale, opts')
       else (dflt, missing_arg i opt opts))"

subsection \<open>The placement of vprocs\<close>

definition MAX_NUM_VPROCS :: nat where "MAX_NUM_VPROCS = 64"

text \<open>The tokens behind the first one, as long as there is room for their values.\<close>

function placements :: "nat \<Rightarrow> string option \<Rightarrow> int list" where
  "placements j input = (case input of None \<Rightarrow> []
     | Some s \<Rightarrow> (case strsep (CHR '','') s of (tok, input') \<Rightarrow>
         if j < MAX_NUM_VPROCS then long_to_int (fst (strtol tok 10)) # placements (j + 1) input' else []))"
  by pat_completeness auto
termination
  by (relation "measure (\<lambda>(j, input). MAX_NUM_VPROCS - j)") auto

declare placements.simps [simp del]

text \<open>The second result is \<^verbatim>\<open>*procs\<close>: all of \<^verbatim>\<open>ProcLocations\<close>, unspecified vprocs being -1.\<close>

definition GetVprocsOpt :: "Options \<Rightarrow> int \<Rightarrow> int \<times> int list option \<times> Options" where
  "GetVprocsOpt opts dflt = (case find_arg (strcmp_eq ''-p'') opts of
     None \<Rightarrow> (dflt, None, opts)
   | Some i \<Rightarrow> if i + 1 < argc opts
       then let (tok, input) = strsep (CHR '','') (argv opts ! (i + 1));
                arg = fst (strtol tok 10);
                ps = placements 0 input; j = int (length ps);
                locs = ps @ replicate (MAX_NUM_VPROCS - length ps) (- 1);
                ok = (j > 0 \<and> j = arg);
                opts1 = (if j > 0 \<and> j \<noteq> arg then say (PlacementMismatch arg j) opts else opts)
            in (long_to_int arg, if ok then Some locs else None, CompressOpts i 2 opts1)
       else (dflt, None, missing_arg i ''-p'' opts))"

subsection \<open>Removing and looking up\<close>

lemma compress_fold:
  "k + n \<le> length a \<Longrightarrow> i \<le> k \<Longrightarrow> fold (\<lambda>j a. a[j := a ! (j + n)]) [i..<k] a = take i a @ take (k - i) (drop (i + n) a) @ drop k a"
proof (induction "k - i" arbitrary: i a)
  case 0
  then show ?case by simp
next
  case (Suc d)
  let ?a = "a[i := a ! (i + n)]"
  have i: "i < k" using Suc.hyps by simp
  have "fold (\<lambda>j a. a[j := a ! (j + n)]) [i..<k] a = fold (\<lambda>j a. a[j := a ! (j + n)]) [Suc i..<k] ?a"
    using i by (simp add: upt_conv_Cons)
  also have "\<dots> = take (Suc i) ?a @ take (k - Suc i) (drop (Suc i + n) ?a) @ drop k ?a"
    using Suc.hyps Suc.prems by (intro Suc.hyps(1)) auto
  also have "take (Suc i) ?a = take i a @ [a ! (i + n)]"
    using i Suc.prems by (simp add: take_Suc_conv_app_nth)
  also have "drop (Suc i + n) ?a = drop (Suc i + n) a" by simp
  also have "drop k ?a = drop k a" using i by simp
  also have "(take i a @ [a ! (i + n)]) @ take (k - Suc i) (drop (Suc i + n) a) @ drop k a
      = take i a @ take (k - i) (drop (i + n) a) @ drop k a"
  proof -
    have "drop (i + n) a = a ! (i + n) # drop (Suc i + n) a"
      using i Suc.prems by (subst Cons_nth_drop_Suc [symmetric]) auto
    moreover have "k - i = Suc (k - Suc i)" using i by simp
    ultimately show ?thesis by simp
  qed
  finally show ?case .
qed

definition opts_wf :: "Options \<Rightarrow> bool" where "opts_wf opts \<longleftrightarrow> argc opts \<le> length (argv opts)"

lemma args_CompressOpts:
  "opts_wf opts \<Longrightarrow> i + n \<le> argc opts \<Longrightarrow> args (CompressOpts i n opts) = take i (args opts) @ drop (i + n) (args opts) \<and> opts_wf (CompressOpts i n opts)"
proof -
  assume wf: "opts_wf opts" and le: "i + n \<le> argc opts"
  let ?a = "argv opts" and ?k = "argc opts - n"
  have a: "argc opts \<le> length ?a" using wf by (simp add: opts_wf_def)
  have f: "argv (CompressOpts i n opts) = take i ?a @ take (?k - i) (drop (i + n) ?a) @ drop ?k ?a"
    using a le by (simp add: CompressOpts_def Let_def compress_fold)
  have l: "length (take i ?a @ take (?k - i) (drop (i + n) ?a)) = ?k" using a le by simp
  have "args (CompressOpts i n opts) = take i ?a @ take (?k - i) (drop (i + n) ?a)"
  proof -
    have "argc (CompressOpts i n opts) = ?k" by (simp add: CompressOpts_def Let_def)
    moreover have "take ?k ((take i ?a @ take (?k - i) (drop (i + n) ?a)) @ drop ?k ?a) = take i ?a @ take (?k - i) (drop (i + n) ?a)"
      using l by (metis append_eq_conv_conj)
    ultimately show ?thesis by (simp only: args_def f append_assoc)
  qed
  moreover have "take i (args opts) = take i ?a" using le by (simp add: args_def min_def)
  moreover have "drop (i + n) (args opts) = take (?k - i) (drop (i + n) ?a)" using le by (simp add: args_def drop_take diff_diff_add add.commute)
  moreover have "?k \<le> length (argv (CompressOpts i n opts))" unfolding f using a le by simp
  ultimately show ?thesis by (simp add: opts_wf_def) (simp add: CompressOpts_def Let_def)
qed

subsection \<open>Looking options up\<close>

lemma find_arg_split:
  assumes "opts_wf opts" "args opts = xs @ x # ys" "p x" "\<And>y. y \<in> set xs \<Longrightarrow> \<not> p y"
  shows "find_arg p opts = Some (length xs) \<and> argv opts ! length xs = x \<and> argc opts = length xs + Suc (length ys)"
proof -
  have ac: "argc opts = length xs + Suc (length ys)"
    using assms(1,2) by (simp add: args_def opts_wf_def) (metis add_Suc_right length_append length_Cons length_take min_absorb2)
  have nth: "argv opts ! i = (xs @ x # ys) ! i" if "i < argc opts" for i
    using assms(2) that by (metis args_def nth_take)
  have "find_arg p opts = Some (length xs)"
    unfolding find_arg_def find_Some_iff
    by (rule exI [of _ "length xs"]) (use ac nth assms(3,4) in \<open>auto simp: nth_append\<close>)
  then show ?thesis using ac nth [of "length xs"] by simp
qed

lemma args_after:
  "opts_wf opts \<Longrightarrow> args opts = xs @ zs @ ys \<Longrightarrow> args (CompressOpts (length xs) (length zs) opts) = xs @ ys"
proof -
  assume a: "opts_wf opts" "args opts = xs @ zs @ ys"
  have "length (args opts) = argc opts" using a(1) by (simp add: args_def opts_wf_def)
  then have "length xs + length zs \<le> argc opts" using a(2) by simp
  then show ?thesis using args_CompressOpts [OF a(1)] a(2) by simp
qed

lemma sint_word_of_int_id32: "- (2 ^ 31) \<le> n \<Longrightarrow> n < 2 ^ 31 \<Longrightarrow> sint (word_of_int n :: 32 word) = n"
  by transfer (simp add: signed_take_bit_int_eq_self)

lemma sint_word_of_int_id64: "- (2 ^ 63) \<le> n \<Longrightarrow> n < 2 ^ 63 \<Longrightarrow> sint (word_of_int n :: 64 word) = n"
  by transfer (simp add: signed_take_bit_int_eq_self)

text \<open>Round trip through the command line: if the first occurrence of an option is followed by the decimal rendering of a 32-bit integer, \<^verbatim>\<open>GetIntOpt\<close> returns that integer, removes exactly the two arguments, keeps the others in order and reports no error.\<close>

lemma GetIntOpt_reads:
  fixes n :: int
  assumes wf: "opts_wf opts" and a: "args opts = xs @ [opt, show_int n] @ ys" "opt \<notin> set xs" and n: "- (2 ^ 31) \<le> n" "n < 2 ^ 31"
  shows "\<exists>opts'. GetIntOpt opts opt dflt = (n, opts') \<and> args opts' = xs @ ys \<and> opts_wf opts' \<and> errors opts' = errors opts"
proof -
  have f: "find_arg (strcmp_eq opt) opts = Some (length xs)" "argc opts = length xs + Suc (Suc (length ys))"
    using find_arg_split [of opts xs opt "show_int n # ys" "strcmp_eq opt"] wf a by auto
  have v: "argv opts ! (length xs + 1) = show_int n"
  proof -
    have "args opts ! (length xs + 1) = show_int n" by (simp add: a(1) nth_append)
    then show ?thesis using f(2) by (simp add: args_def)
  qed
  have l: "long_to_int (clamp_long n) = n"
    using n by (simp add: clamp_long_id long_to_int_def sint_word_of_int_id32)
  have "args (CompressOpts (length xs) (Suc (Suc 0)) opts) = xs @ ys" using args_after [OF wf, of xs "[opt, show_int n]" ys] a by simp
  moreover have "opts_wf (CompressOpts (length xs) 2 opts)" using args_CompressOpts [OF wf, of "length xs" 2] f(2) by simp
  ultimately show ?thesis
    using f v l by (simp add: GetIntOpt_def strtol_show_int) (simp add: CompressOpts_def Let_def)
qed

text \<open>The prefix test of \<^verbatim>\<open>GetStringEqOpt\<close> removes an argument that is a different option, and hides the one asked for.\<close>

text \<open>The prefix test removes an argument that merely begins with the option's name, and skips the argument that takes its place.\<close>

lemma GetStringEqOpt_swallows:
  assumes wf: "opts_wf opts" and a: "args opts = [opt @ c # cs, opt]" "c \<noteq> CHR ''=''"
  shows "fst (GetStringEqOpt opts opt dflt) = None \<and> args (snd (GetStringEqOpt opts opt dflt)) = [opt] \<and> opts_wf (snd (GetStringEqOpt opts opt dflt))"
proof -
  have ac: "argc opts = 2" using wf arg_cong [OF a(1), of length] by (simp add: args_def opts_wf_def)
  have h: "argv opts ! 0 = opt @ c # cs"
  proof -
    have "args opts ! 0 = opt @ c # cs" by (simp add: a(1))
    then show ?thesis using ac by (simp add: args_def)
  qed
  have c: "args (CompressOpts 0 1 opts) = [opt] \<and> opts_wf (CompressOpts 0 1 opts)" using args_CompressOpts [OF wf, of 0 1] ac a(1) by simp
  have "eq_loop opt dflt 0 opts = (None, CompressOpts 0 1 opts)"
    using ac a(2) by (subst eq_loop.simps, simp add: h strncmp_eq_def) (subst eq_loop.simps, simp add: CompressOpts_def Let_def)
  then show ?thesis using c by (simp add: GetStringEqOpt_def)
qed

text \<open>A size without a suffix is scaled twice.\<close>

text \<open>\<^verbatim>\<open>GetSizeValue\<close> already multiplies by the default scale, and \<^verbatim>\<open>GetSizeOpt\<close> multiplies again: a size given without a suffix comes back scaled twice.\<close>

lemma GetSizeOpt_scales_twice:
  fixes n :: nat
  assumes wf: "opts_wf opts" and a: "args opts = xs @ [opt, show_nat n] @ ys" "opt \<notin> set xs" and n: "n * unat scale < 2 ^ 63" "n < 2 ^ 63"
  shows "fst (GetSizeOpt opts opt scale dflt) = word_of_nat n * scale * scale"
proof -
  have f: "find_arg (strcmp_eq opt) opts = Some (length xs)" "argc opts = length xs + Suc (Suc (length ys))"
    using find_arg_split [of opts xs opt "show_nat n # ys" "strcmp_eq opt"] wf a by auto
  have v: "argv opts ! (length xs + 1) = show_nat n"
  proof -
    have "args opts ! (length xs + 1) = show_nat n" by (simp add: a(1) nth_append)
    then show ?thesis using f(2) by (simp add: args_def)
  qed
  have s: "strtol (show_nat n) 10 = (int n, [])" using n by (simp add: strtol_show_nat clamp_long_id)
  have p: "(word_of_int (int n) :: Addr_t) * scale = word_of_nat (n * unat scale)" by simp
  have "sint (word_of_nat (n * unat scale) :: Addr_t) = int (n * unat scale)"
  proof -
    have "int (n * unat scale) < 2 ^ 63" using n(1) by (metis of_nat_less_iff of_nat_numeral of_nat_power)
    moreover have "- (2 ^ 63) \<le> int (n * unat scale)" by (rule order_trans [of _ 0]) auto
    ultimately have "sint (word_of_int (int (n * unat scale)) :: 64 word) = int (n * unat scale)" by (intro sint_word_of_int_id64)
    then show ?thesis by simp
  qed
  then have g: "GetSizeValue (show_nat n) scale = int (n * unat scale)"
    using s p show_nat_nonempty [of n, THEN not_sym] by (simp add: GetSizeValue_def size_scale_def)
  moreover have "\<not> int n * uint scale < 0" by (simp add: not_less)
  ultimately show ?thesis using f v p by (simp add: GetSizeOpt_def Let_def)
qed


lemma GetIntOpt_reads_witness:
  "\<exists>opts'. GetIntOpt (InitOptions [''prog'', ''-x'', ''-n'', show_int (- 42), ''-y'']) ''-n'' 7 = (- 42, opts')
      \<and> args opts' = [''-x''] @ [''-y''] \<and> opts_wf opts' \<and> \<not> errors opts'"
  using GetIntOpt_reads [of "InitOptions [''prog'', ''-x'', ''-n'', show_int (- 42), ''-y'']" "[''-x'']" "''-n''" "- 42" "[''-y'']" 7]
  by (simp add: InitOptions_def opts_wf_def args_def)

lemma GetSizeOpt_scales_twice_witness:
  "fst (GetSizeOpt (InitOptions [''prog'', ''-nursery'', show_nat 4]) ''-nursery'' ONE_K ONE_MEG) = word_of_nat 4 * ONE_K * ONE_K"
  using GetSizeOpt_scales_twice [of "InitOptions [''prog'', ''-nursery'', show_nat 4]" "[]" "''-nursery''" 4 "[]" ONE_K ONE_MEG]
  by (simp add: InitOptions_def opts_wf_def args_def)

end
