(* ===== verification/VProc_State.thy ===== *)
theory VProc_State
  imports Global_Correct GC_Rendezvous Options_Parse "HOL-Library.Signed_Division"
begin

text \<open>
  The virtual processors, \<^verbatim>\<open>vproc/vproc.c\<close> and \<^verbatim>\<open>include/vproc.h\<close>: how many there are, on which hardware thread
  each runs, the structure \<^verbatim>\<open>NewVProc\<close> fills in, the landing pad through which vprocs signal each other, and the
  arithmetic of the timed sleep. The lemmas show that every layout without explicit placement uses distinct
  existing hardware threads, that explicit placement never leaves node 0, that the per-node tables count the vprocs
  and name the first of each node, that a signal is pushed on the landing pad without touching what is there, and
  what the sum of two times is.
\<close>

subsection \<open>How many vprocs\<close>

definition DFLT_NUM_VPROCS :: int where "DFLT_NUM_VPROCS = 2"

text \<open>
  The head of \<^verbatim>\<open>VProcInit\<close>: the number of vprocs, the explicit placement and whether the user was warned;
  \<open>None\<close> when it dies. A second \<^verbatim>\<open>-p\<close> overrides the number, not the placement.
\<close>

definition vproc_count :: "bool \<Rightarrow> topology \<Rightarrow> Options \<Rightarrow> ((int \<times> int list option \<times> bool) \<times> Options) option" where
  "vproc_count isSequential t opts =
     (if isSequential then Some ((1, None, False), opts)
      else let (n1, procs, opts1) = GetVprocsOpt opts (if NumHWThreads t = 0 then DFLT_NUM_VPROCS else NumHWThreads t);
               (n, opts2) = GetIntOpt opts1 ''-p'' n1;
               warned = (NumHWThreads t > 0 \<and> n > NumHWThreads t)
           in if int MAX_NUM_VPROCS < n then None else Some ((n, procs, warned), opts2))"

definition dense_layout :: "topology \<Rightarrow> int \<Rightarrow> Options \<Rightarrow> bool \<times> Options" where
  "dense_layout t n opts = (if n \<ge> NumHWThreads t then (True, opts) else GetFlagOpt opts ''-dense'')"

subsection \<open>Where they run\<close>

text \<open>The location of an explicitly placed vproc; C's division truncates towards zero.\<close>

definition placed_location :: "topology \<Rightarrow> int \<Rightarrow> Location_t option" where
  "placed_location t p =
     (if NumHWThreads t = 0 \<or> NumHWCores t = 0 then None
      else let thread = p smod NumHWThreads t;
               package = p sdiv (NumHWThreads t * NumHWCores t);
               core = (p smod (NumHWThreads t * NumHWCores t)) sdiv NumHWCores t
           in Some (Location package core thread))"

text \<open>\<open>None\<close>: the code would divide by zero or read an element of \<^verbatim>\<open>Locations\<close> that was never written.\<close>

definition dense_location :: "topology \<Rightarrow> nat \<Rightarrow> Location_t option" where
  "dense_location t i =
     (if NumHWThreads t \<le> 0 then None
      else let j = i mod nat (NumHWThreads t)
           in if j < length (Locations t) then Some (Locations t ! j) else None)"

fun core_loop :: "topology \<Rightarrow> nat \<Rightarrow> int \<Rightarrow> int \<Rightarrow> Location_t list" where
  "core_loop t 0 nd core = []"
| "core_loop t (Suc n) nd core = Location nd core 0 #
     (if nd + 1 = NumHWNodes t then core_loop t n 0 (core + 1) else core_loop t n (nd + 1) core)"

fun thread_loop :: "topology \<Rightarrow> nat \<Rightarrow> int \<Rightarrow> int \<Rightarrow> int \<Rightarrow> Location_t list" where
  "thread_loop t 0 nd core thd = []"
| "thread_loop t (Suc n) nd core thd = Location nd core thd #
     (if nd + 1 = NumHWNodes t
      then (if core + 1 = NumCoresPerNode t then thread_loop t n 0 0 (thd + 1) else thread_loop t n 0 (core + 1) thd)
      else thread_loop t n (nd + 1) core thd)"

definition assign_locations :: "topology \<Rightarrow> int list option \<Rightarrow> bool \<Rightarrow> nat \<Rightarrow> Location_t list option" where
  "assign_locations t procs dense n =
     (case procs of
        Some ps \<Rightarrow> those (map (\<lambda>i. placed_location t (ps ! i)) [0..<n])
      | None \<Rightarrow>
          if dense then those (map (dense_location t) [0..<n])
          else if int n \<le> NumHWNodes t then Some (map (\<lambda>nd. Location (int nd) 0 0) [0..<n])
          else if int n \<le> NumHWCores t then Some (core_loop t n 0 0)
          else Some (thread_loop t n 0 0 0))"

text \<open>\<^verbatim>\<open>NumVProcsPerNode\<close> and \<^verbatim>\<open>MinVProcPerNode\<close>: one pass over the vprocs.\<close>

record NodeCounts =
  NumVProcsPerNode :: "int list"
  MinVProcPerNode :: "int list"

definition count_vproc :: "nat \<times> Location_t \<Rightarrow> NodeCounts \<Rightarrow> NodeCounts" where
  "count_vproc = (\<lambda>(i, loc) c.
     let node = nat (LocationNode loc)
     in c\<lparr>NumVProcsPerNode := (NumVProcsPerNode c)[node := NumVProcsPerNode c ! node + 1],
          MinVProcPerNode := (if MinVProcPerNode c ! node > int i then (MinVProcPerNode c)[node := int i] else MinVProcPerNode c)\<rparr>)"

definition node_counts :: "topology \<Rightarrow> Location_t list \<Rightarrow> NodeCounts" where
  "node_counts t locs = fold count_vproc (zip [0..<length locs] locs)
     \<lparr>NumVProcsPerNode = replicate (nat (NumHWNodes t)) 0, MinVProcPerNode = replicate (nat (NumHWNodes t)) (int MAX_NUM_VPROCS)\<rparr>"

subsection \<open>Creating a vproc\<close>

fun init_reg :: "vpReg \<Rightarrow> Value_t" where
  "init_reg Atomic = M_TRUE"
| "init_reg SigPending = M_FALSE"
| "init_reg Sleeping = M_FALSE"
| "init_reg ActionStk = M_NIL"
| "init_reg SchedCont = M_NIL"
| "init_reg DummyK = M_NIL"
| "init_reg WakeupCont = M_NIL"
| "init_reg ShutdownCont = M_NIL"
| "init_reg ShutdownPending = M_FALSE"
| "init_reg RdyQHd = M_NIL"
| "init_reg RdyQTl = M_NIL"
| "init_reg SndQHd = M_NIL"
| "init_reg SndQTl = M_NIL"
| "init_reg LandingPad = M_NIL"
| "init_reg StdArg = M_UNIT"
| "init_reg StdEnvPtr = M_UNIT"
| "init_reg StdCont = M_NIL"
| "init_reg StdExnCont = M_UNIT"
| "init_reg CurrentFLS = M_NIL"

definition zero_cntrs :: GCCntrs where
  "zero_cntrs = \<lparr>nBytesAlloc = 0, nBytesCollected = 0, nBytesCopied = 0\<rparr>"

text \<open>
  \<^verbatim>\<open>NewVProc\<close> up to the barrier, in the order of the code; \<open>raw\<close> is the uninitialised structure that the
  allocator returns. \<open>None\<close>: the heap cannot be allocated.
\<close>

definition NewVProc :: "VProc \<Rightarrow> int \<Rightarrow> Location_t \<Rightarrow> Heap \<Rightarrow> (VProc \<times> Heap) option" where
  "NewVProc raw vid loc h = do {
     (vprocHeap, h1) \<leftarrow> AllocVProcMemory vid loc h;
     _ \<leftarrow> (if vprocHeap = 0 then None else Some ());
     let vp = raw\<lparr>vpid := vid, location := loc, heapBase := vprocHeap, oldTop := vprocHeap\<rparr>;
     (vp, h2) \<leftarrow> InitVProcHeap vp h1;
     let vp = vp\<lparr>regs := init_reg\<rparr>;
     let vp = vp\<lparr>limitPtr := LimitPtr vp\<rparr>;
     let vp = SetAllocPtr (MaxNurserySzB h2) vp;
     Some (vp\<lparr>nPromotes := 0, nMinorGCs := 0, nMajorGCs := 0,
              minorStats := zero_cntrs, majorStats := zero_cntrs, globalStats := zero_cntrs, nBytesPromoted := 0\<rparr>, h2) }"

subsection \<open>VProcInit\<close>

record VPSys =
  NumVProcs :: int
  VProcs :: "VProc list"
  vpCounts :: NodeCounts
  ShutdownBarrier :: Barrier
  vpHeap :: Heap

text \<open>
  \<open>None\<close> stands for dying, and for a location outside the per-node arrays. The spawned threads initialise their vprocs and meet the main thread at \<^verbatim>\<open>InitBarrier\<close>; here they run one
  after the other. \<open>spawn i\<close> says whether the \<open>i\<close>-th thread could be created.
\<close>

fun spawn_loop :: "(nat \<Rightarrow> bool) \<Rightarrow> (nat \<Rightarrow> VProc) \<Rightarrow> nat \<Rightarrow> Location_t list \<Rightarrow> Heap \<Rightarrow> (VProc list \<times> Heap) option" where
  "spawn_loop spawn raw i [] h = Some ([], h)"
| "spawn_loop spawn raw i (loc # locs) h =
     (if spawn i then do { (vp, h1) \<leftarrow> NewVProc (raw i) (int i) loc h;
                            (vps, h2) \<leftarrow> spawn_loop spawn raw (i + 1) locs h1;
                            Some (vp # vps, h2) }
      else None)"

definition VProcInit :: "(nat \<Rightarrow> bool) \<Rightarrow> (nat \<Rightarrow> VProc) \<Rightarrow> bool \<Rightarrow> topology \<Rightarrow> Options \<Rightarrow> Heap \<Rightarrow> (VPSys \<times> Options) option" where
  "VProcInit spawn raw isSequential t opts h = do {
     ((n, procs, warned), opts1) \<leftarrow> vproc_count isSequential t opts;
     let (dense, opts2) = dense_layout t n opts1;
     locs \<leftarrow> assign_locations t procs dense (nat n);
     _ \<leftarrow> (if list_all (\<lambda>loc. LocationNode loc < NumHWNodes t) locs then Some () else None);
     let counts = node_counts t locs;
     (vps, h1) \<leftarrow> spawn_loop spawn raw 0 locs h;
     Some (\<lparr>NumVProcs = n, VProcs = vps, vpCounts = counts, ShutdownBarrier = BarrierInit n, vpHeap = h1\<rparr>, opts2) }"

text \<open>What the last vproc to leave does, and what the others do.\<close>

datatype ExitAction = FinalizeAndExit | ExitThread

definition VProcExit :: "VProc \<Rightarrow> VPSys \<Rightarrow> ExitAction \<times> VPSys" where
  "VProcExit vp s = (if vpid vp = 0 then FinalizeAndExit else ExitThread, s\<lparr>ShutdownBarrier := BarrierArrive (ShutdownBarrier s)\<rparr>)"

subsection \<open>Operations for the BOM code\<close>

definition GetNumVProcs :: "VPSys \<Rightarrow> int" where "GetNumVProcs s = NumVProcs s"

definition GetNumHWNodes :: "topology \<Rightarrow> int" where "GetNumHWNodes t = NumHWNodes t"

definition GetNthVProc :: "VPSys \<Rightarrow> nat \<Rightarrow> VProc" where "GetNthVProc s n = VProcs s ! n"

text \<open>\<open>vpAddr i\<close> is the address of the \<open>i\<close>-th vproc's structure; the list is built from its end.\<close>

fun list_vprocs :: "(nat \<Rightarrow> Addr_t) \<Rightarrow> nat \<Rightarrow> Value_t \<Rightarrow> VProc \<Rightarrow> Heap \<Rightarrow> Value_t \<times> VProc \<times> Heap" where
  "list_vprocs vpAddr 0 l self h = (l, self, h)"
| "list_vprocs vpAddr (Suc i) l self h =
     (let (vp, self1, h1) = WrapWord self h (vpAddr i);
          (l', self2, h2) = Cons_cell self1 h1 vp l
      in list_vprocs vpAddr i l' self2 h2)"

definition ListVProcs :: "(nat \<Rightarrow> Addr_t) \<Rightarrow> VPSys \<Rightarrow> VProc \<Rightarrow> Heap \<Rightarrow> Value_t \<times> VProc \<times> Heap" where
  "ListVProcs vpAddr s self h = list_vprocs vpAddr (nat (NumVProcs s)) M_NIL self h"

definition SleepCont :: "Addr_t \<Rightarrow> VProc \<Rightarrow> Heap \<Rightarrow> Value_t \<times> VProc \<times> Heap" where
  "SleepCont asm_VProcSleep self h = WrapWord self h asm_VProcSleep"

text \<open>\<^verbatim>\<open>GetNumCPUs\<close> of this file: the processors that \<^verbatim>\<open>/proc/cpuinfo\<close> lists, 0 if there is no such file.\<close>

definition count_cpus :: "string list option \<Rightarrow> int" where
  "count_cpus cpuinfo = (case cpuinfo of None \<Rightarrow> 0
     | Some ls \<Rightarrow> int (length (filter (\<lambda>l. sscanf_int ''processor : '' l \<noteq> None) ls)))"

subsection \<open>Signals\<close>

text \<open>
  The loop of \<^verbatim>\<open>VProcSendSignal\<close>. \<open>others\<close> is what the other senders do: for every failing exchange, what the
  landing pad holds at the exchange and what it holds when it is read again. Each round allocates a new item.
\<close>

fun push_item :: "Value_t \<Rightarrow> Value_t \<Rightarrow> Value_t \<Rightarrow> (Value_t \<times> Value_t) list \<Rightarrow> VProc \<Rightarrow> Heap \<Rightarrow> alloc_res option" where
  "push_item fls k orig others self h = do {
     (new, self1, h1) \<leftarrow> GlobalAllocUniform self h [fls, k, orig];
     (case others of [] \<Rightarrow> Some (new, self1, h1)
      | (x, reread) # others' \<Rightarrow> if x = orig then Some (new, self1, h1) else push_item fls k reread others' self1 h1) }"

text \<open>The parameter \<open>fls\<close> is not used: the item carries a new fiber-local storage.\<close>

definition VProcSendSignal :: "(Value_t \<times> Value_t) list \<Rightarrow> VProc \<Rightarrow> VProc \<Rightarrow> Value_t \<Rightarrow> Value_t \<Rightarrow> Heap
    \<Rightarrow> ((VProc \<times> Heap) \<times> VProc \<times> bool) option" where
  "VProcSendSignal others self vp fls k h = do {
     (dummyBool, self1, h1) \<leftarrow> GlobalAllocNonUniform self h [INT_arg 3];
     (dummyFLS, self2, h2) \<leftarrow> GlobalAllocNonUniform self1 h1 [INT_arg (- 1), PTR_arg M_NONE, INT_arg 0, PTR_arg M_NIL, PTR_arg dummyBool];
     (new, self3, h3) \<leftarrow> push_item dummyFLS k (regs vp LandingPad) others self2 h2;
     Some ((self3, h3), vp\<lparr>regs := (regs vp)(LandingPad := new)\<rparr>, regs vp Sleeping = M_TRUE) }"

definition VProcPreempt :: "VProc \<Rightarrow> VProc" where
  "VProcPreempt vp = vp\<lparr>limitPtr := 0\<rparr>"

definition VProcGlobalGCInterrupt :: "(Value_t \<times> Value_t) list \<Rightarrow> VProc \<Rightarrow> VProc \<Rightarrow> Heap \<Rightarrow> ((VProc \<times> Heap) \<times> VProc \<times> bool) option" where
  "VProcGlobalGCInterrupt others self vp h =
     (let vp = vp\<lparr>globalGCPending := True\<rparr>
      in map_option (\<lambda>(s, vp', woken). (s, VProcPreempt vp', woken))
           (VProcSendSignal others self vp (regs vp CurrentFLS) (regs vp DummyK) h))"

subsection \<open>Time\<close>

record timespec =
  tv_sec :: int
  tv_nsec :: int

definition ONE_SECOND :: int where "ONE_SECOND = 1000000000"

function carry_nsec :: "timespec \<Rightarrow> timespec" where
  "carry_nsec r = (if tv_nsec r > ONE_SECOND then carry_nsec (r\<lparr>tv_sec := tv_sec r + 1, tv_nsec := tv_nsec r - ONE_SECOND\<rparr>) else r)"
  by pat_completeness auto
termination
  by (relation "measure (\<lambda>r. nat (tv_nsec r))") (auto simp: ONE_SECOND_def)

declare carry_nsec.simps [simp del]

definition TimespecAdd :: "timespec \<Rightarrow> timespec \<Rightarrow> timespec" where
  "TimespecAdd time1 time2 = carry_nsec \<lparr>tv_sec = tv_sec time1 + tv_sec time2, tv_nsec = tv_nsec time1 + tv_nsec time2\<rparr>"

text \<open>The wall-clock time at which \<^verbatim>\<open>VProcNanosleep\<close> gives up; \<open>now\<close> is seconds and microseconds.\<close>

definition time_to_wake :: "64 word \<Rightarrow> int \<times> int \<Rightarrow> timespec" where
  "time_to_wake nsec now =
     TimespecAdd \<lparr>tv_sec = uint nsec div ONE_SECOND, tv_nsec = uint nsec mod ONE_SECOND\<rparr>
       \<lparr>tv_sec = fst now, tv_nsec = snd now * 1000\<rparr>"

subsection \<open>The layouts\<close>

definition topo_wf :: "topology \<Rightarrow> bool" where
  "topo_wf t \<longleftrightarrow> 0 < NumHWNodes t \<and> NumHWNodes t < 2 ^ 10 \<and> 0 < NumCoresPerNode t \<and> 0 < NumThdsPerCore t \<and> NumThdsPerCore t < 2 ^ 8
     \<and> NumHWNodes t * NumCoresPerNode t < 2 ^ 8 \<and> NumHWCores t = NumHWNodes t * NumCoresPerNode t
     \<and> NumHWThreads t = NumHWCores t * NumThdsPerCore t"

text \<open>The \<open>j\<close>-th location when the vprocs are dealt out to nodes first, then to cores, then to threads.\<close>

definition spread_location :: "topology \<Rightarrow> int \<Rightarrow> Location_t" where
  "spread_location t j = Location (j mod NumHWNodes t) (j div NumHWNodes t mod NumCoresPerNode t) (j div NumHWNodes t div NumCoresPerNode t)"

lemma int_div_less: "0 < b \<Longrightarrow> a < c * b \<Longrightarrow> a div b < (c :: int)"
proof (rule ccontr)
  assume a: "0 < b" "a < c * b" "\<not> a div b < c"
  then have "c * b \<le> a div b * b" by (intro mult_right_mono) auto
  moreover have "a div b * b + a mod b = a" by simp
  moreover have "0 \<le> a mod b" using a(1) by simp
  ultimately show False using a(2) by linarith
qed

lemma next_mod_div:
  fixes j :: int
  assumes "0 < n"
  shows "(j + 1) mod n = (if j mod n + 1 = n then 0 else j mod n + 1) \<and> (j + 1) div n = (if j mod n + 1 = n then j div n + 1 else j div n)"
proof (cases "j mod n + 1 = n")
  case True
  have "n * (j div n + 1) + 0 = n * (j div n) + n" by (simp add: distrib_left)
  also have "\<dots> = n * (j div n) + j mod n + 1" using True by linarith
  finally have e: "j + 1 = n * (j div n + 1) + 0" by simp
  show ?thesis using True int_mod_pos_eq [OF e _ assms] int_div_pos_eq [OF e _ assms] by simp
next
  case False
  have "j mod n < n" "0 \<le> j mod n" using assms by simp_all
  then have b: "0 \<le> j mod n + 1" "j mod n + 1 < n" using False by linarith+
  have e: "j + 1 = n * (j div n) + (j mod n + 1)" by simp
  show ?thesis using False int_mod_pos_eq [OF e b] int_div_pos_eq [OF e b] by simp
qed

lemma core_loop_spread:
  assumes "0 < NumHWNodes t"
  shows "core_loop t n (j mod NumHWNodes t) (j div NumHWNodes t)
    = map (\<lambda>i. Location ((j + int i) mod NumHWNodes t) ((j + int i) div NumHWNodes t) 0) [0..<n]"
proof (induction n arbitrary: j)
  case (Suc n)
  let ?N = "NumHWNodes t"
  have "core_loop t (Suc n) (j mod ?N) (j div ?N) = Location (j mod ?N) (j div ?N) 0 # core_loop t n ((j + 1) mod ?N) ((j + 1) div ?N)"
    by (simp add: next_mod_div [OF assms])
  also have "core_loop t n ((j + 1) mod ?N) ((j + 1) div ?N) = map (\<lambda>i. Location ((j + int i) mod ?N) ((j + int i) div ?N) 0) [Suc 0..<Suc n]"
    unfolding Suc.IH map_Suc_upt [symmetric] by (simp add: algebra_simps)
  finally show ?case by (simp add: upt_conv_Cons del: upt_Suc)
qed simp

lemma thread_loop_spread:
  assumes "0 < NumHWNodes t" "0 < NumCoresPerNode t"
  shows "thread_loop t n (j mod NumHWNodes t) (j div NumHWNodes t mod NumCoresPerNode t) (j div NumHWNodes t div NumCoresPerNode t)
    = map (\<lambda>i. spread_location t (j + int i)) [0..<n]"
proof (induction n arbitrary: j)
  case (Suc n)
  let ?N = "NumHWNodes t" and ?C = "NumCoresPerNode t"
  have "thread_loop t (Suc n) (j mod ?N) (j div ?N mod ?C) (j div ?N div ?C)
      = spread_location t j # thread_loop t n ((j + 1) mod ?N) ((j + 1) div ?N mod ?C) ((j + 1) div ?N div ?C)"
    by (simp add: next_mod_div [OF assms(1)] next_mod_div [OF assms(2)] spread_location_def)
  also have "thread_loop t n ((j + 1) mod ?N) ((j + 1) div ?N mod ?C) ((j + 1) div ?N div ?C) = map (\<lambda>i. spread_location t (j + int i)) [Suc 0..<Suc n]"
    unfolding Suc.IH map_Suc_upt [symmetric] by (simp add: algebra_simps)
  finally show ?case by (simp add: upt_conv_Cons del: upt_Suc)
qed simp

lemma assign_spread:
  assumes "topo_wf t" "int n \<le> NumHWThreads t"
  shows "assign_locations t None False n = Some (map (\<lambda>i. spread_location t (int i)) [0..<n])"
proof -
  let ?N = "NumHWNodes t" and ?C = "NumCoresPerNode t"
  have p: "0 < ?N" "0 < ?C" "NumHWCores t = ?N * ?C" using assms(1) by (auto simp: topo_wf_def)
  consider "int n \<le> ?N" | "?N < int n" "int n \<le> NumHWCores t" | "?N < int n" "NumHWCores t < int n" by linarith
  then show ?thesis
  proof cases
    case 1
    then show ?thesis by (auto simp: assign_locations_def spread_location_def)
  next
    case 2
    have "int i div ?N < ?C" if "i < n" for i
      using 2(2) that p by (intro int_div_less) (auto simp: mult.commute mult.left_commute)
    moreover have "0 \<le> int i div ?N" for i using p by (simp add: pos_imp_zdiv_nonneg_iff)
    ultimately show ?thesis using 2 core_loop_spread [OF p(1), of n 0] by (auto simp: assign_locations_def spread_location_def)
  next
    case 3
    then show ?thesis using thread_loop_spread [OF p(1,2), of n 0] p by (auto simp: assign_locations_def)
  qed
qed

lemma spread_bounds:
  assumes "topo_wf t" "0 \<le> j" "j < NumHWThreads t"
  shows "0 \<le> j mod NumHWNodes t" "j mod NumHWNodes t < NumHWNodes t"
    "0 \<le> j div NumHWNodes t mod NumCoresPerNode t" "j div NumHWNodes t mod NumCoresPerNode t < NumCoresPerNode t"
    "0 \<le> j div NumHWNodes t div NumCoresPerNode t" "j div NumHWNodes t div NumCoresPerNode t < NumThdsPerCore t"
proof -
  let ?N = "NumHWNodes t" and ?C = "NumCoresPerNode t"
  have p: "0 < ?N" "0 < ?C" "NumHWThreads t = ?N * ?C * NumThdsPerCore t" using assms(1) by (auto simp: topo_wf_def)
  then show "0 \<le> j mod ?N" "j mod ?N < ?N" "0 \<le> j div ?N mod ?C" "j div ?N mod ?C < ?C" by auto
  show "0 \<le> j div ?N div ?C" using p assms(2) by (simp add: pos_imp_zdiv_nonneg_iff)
  have "j div (?N * ?C) < NumThdsPerCore t"
    using p assms(3) by (intro int_div_less) (auto simp: mult.commute mult.left_commute)
  then show "j div ?N div ?C < NumThdsPerCore t" using p by (simp add: zdiv_zmult2_eq)
qed

lemma topo_core_bound: "topo_wf t \<Longrightarrow> NumCoresPerNode t < 2 ^ 8"
proof -
  assume t: "topo_wf t"
  then have "1 \<le> NumHWNodes t" "0 \<le> NumCoresPerNode t" "NumHWNodes t * NumCoresPerNode t < 2 ^ 8" by (auto simp: topo_wf_def)
  then show ?thesis using mult_right_mono [of 1 "NumHWNodes t" "NumCoresPerNode t"] by linarith
qed

lemma byte_digits: "a1 * 256 + c1 = a2 * 256 + c2 \<Longrightarrow> 0 \<le> c1 \<Longrightarrow> c1 < 256 \<Longrightarrow> 0 \<le> c2 \<Longrightarrow> c2 < 256 \<Longrightarrow> a1 = a2 \<and> c1 = (c2 :: int)"
proof -
  assume a: "a1 * 256 + c1 = a2 * 256 + c2" "0 \<le> c1" "c1 < 256" "0 \<le> c2" "c2 < 256"
  have "(a1 * 256 + c1) mod 256 = c1" "(a2 * 256 + c2) mod 256 = c2" using a(2-5) by simp_all
  then have "c1 = c2" using a(1) by simp
  then show ?thesis using a(1) by simp
qed

lemma spread_uint:
  assumes "topo_wf t" "0 \<le> j" "j < NumHWThreads t"
  shows "uint (spread_location t j) = j mod NumHWNodes t * 2 ^ 16 + j div NumHWNodes t mod NumCoresPerNode t * 2 ^ 8 + j div NumHWNodes t div NumCoresPerNode t"
proof -
  have t: "NumHWNodes t < 2 ^ 10" "NumThdsPerCore t < 2 ^ 8" using assms(1) by (simp_all add: topo_wf_def)
  note b = spread_bounds [OF assms]
  show ?thesis unfolding spread_location_def
    by (rule Location_uint [OF b(1) less_trans [OF b(2) t(1)] b(3) less_trans [OF b(4) topo_core_bound [OF assms(1)]] b(5) less_trans [OF b(6) t(2)]])
qed

lemma spread_inj: "topo_wf t \<Longrightarrow> inj_on (spread_location t) {0..<NumHWThreads t}"
proof (rule inj_onI)
  fix i j
  assume t: "topo_wf t" and ij: "i \<in> {0..<NumHWThreads t}" "j \<in> {0..<NumHWThreads t}" and e: "spread_location t i = spread_location t j"
  let ?N = "NumHWNodes t" and ?C = "NumCoresPerNode t"
  have d: "b1 = b2 \<and> c1 = c2 \<and> a1 = a2" if "a1 * 2 ^ 16 + b1 * 2 ^ 8 + c1 = a2 * 2 ^ 16 + b2 * 2 ^ 8 + c2"
    "0 \<le> b1" "b1 < 2 ^ 8" "0 \<le> b2" "b2 < 2 ^ 8" "0 \<le> c1" "c1 < 2 ^ 8" "0 \<le> c2" "c2 < 2 ^ 8" for a1 a2 b1 b2 c1 c2 :: int
  proof -
    have "(a1 * 256 + b1) * 256 + c1 = (a2 * 256 + b2) * 256 + c2" using that(1) by simp
    then have 1: "a1 * 256 + b1 = a2 * 256 + b2 \<and> c1 = c2" by (rule byte_digits) (use that in auto)
    then have "a1 = a2 \<and> b1 = b2" by (intro byte_digits) (use that in auto)
    with 1 show ?thesis by simp
  qed
  have e2: "i mod ?N * 2 ^ 16 + i div ?N mod ?C * 2 ^ 8 + i div ?N div ?C = j mod ?N * 2 ^ 16 + j div ?N mod ?C * 2 ^ 8 + j div ?N div ?C"
    using spread_uint [OF t, of i] spread_uint [OF t, of j] ij e by auto
  have T: "NumThdsPerCore t < 2 ^ 8" using t by (simp add: topo_wf_def)
  have i: "0 \<le> i" "i < NumHWThreads t" and j: "0 \<le> j" "j < NumHWThreads t" using ij by simp_all
  note bi = spread_bounds [OF t i] and bj = spread_bounds [OF t j]
  note C = topo_core_bound [OF t]
  have "i div ?N mod ?C = j div ?N mod ?C \<and> i div ?N div ?C = j div ?N div ?C \<and> i mod ?N = j mod ?N"
    by (rule d [OF e2 bi(3) less_trans [OF bi(4) C] bj(3) less_trans [OF bj(4) C] bi(5) less_trans [OF bi(6) T] bj(5) less_trans [OF bj(6) T]])
  then show "i = j" by (metis div_mult_mod_eq)
qed

lemma Locations_facts:
  assumes "topo_wf t"
  shows "distinct (Locations t)" "length (Locations t) = nat (NumHWThreads t)"
proof -
  have m: "map (LogicalId t) (Locations t) = [0 .. NumHWThreads t - 1]"
    using map_LogicalId_Locations [of t] assms by (simp add: topo_wf_def)
  have "distinct (map (LogicalId t) (Locations t))" unfolding m by simp
  then show "distinct (Locations t)" by (simp add: distinct_map)
  show "length (Locations t) = nat (NumHWThreads t)" using arg_cong [OF m, of length] by simp
qed

lemma spread_in_Locations:
  assumes "topo_wf t" "0 \<le> j" "j < NumHWThreads t"
  shows "spread_location t j \<in> set (Locations t)"
  using spread_bounds [OF assms] by (fastforce simp: Locations_def spread_location_def)

lemma those_map_Some: "(\<And>i. i \<in> set xs \<Longrightarrow> f i = Some (g i)) \<Longrightarrow> those (map f xs) = Some (map g xs)"
  by (induction xs) auto

lemma assign_dense:
  assumes "topo_wf t" "int n \<le> NumHWThreads t"
  shows "assign_locations t None True n = Some (take n (Locations t))"
proof -
  have l: "length (Locations t) = nat (NumHWThreads t)" using Locations_facts [OF assms(1)] by simp
  have "those (map (dense_location t) [0..<n]) = Some (map (\<lambda>i. Locations t ! i) [0..<n])"
    by (rule those_map_Some) (use assms l in \<open>auto simp: dense_location_def Let_def\<close>)
  also have "map (\<lambda>i. Locations t ! i) [0..<n] = take n (Locations t)" using l assms(2) by (intro nth_equalityI) auto
  finally show ?thesis by (simp add: assign_locations_def)
qed

text \<open>Without explicit placement each layout (dense, one vproc per node, per core, per hardware thread) assigns to up to as many vprocs as there are hardware threads pairwise distinct locations that exist on the machine.\<close>

lemma assign_locations_distinct:
  assumes "topo_wf t" "int n \<le> NumHWThreads t"
  shows "\<exists>locs. assign_locations t None dense n = Some locs \<and> length locs = n \<and> distinct locs \<and> set locs \<subseteq> set (Locations t)"
proof (cases dense)
  case True
  have "n \<le> length (Locations t)" using assms Locations_facts [OF assms(1)] by simp
  then show ?thesis using True assign_dense [OF assms] Locations_facts [OF assms(1)] set_take_subset [of n "Locations t"] by auto
next
  case False
  have "inj_on (\<lambda>i. spread_location t (int i)) {0..<n}"
  proof (rule inj_onI)
    fix i j assume "i \<in> {0..<n}" "j \<in> {0..<n}" "spread_location t (int i) = spread_location t (int j)"
    then show "i = j" using inj_onD [OF spread_inj [OF assms(1)], of "int i" "int j"] assms(2) by simp
  qed
  moreover have "spread_location t (int i) \<in> set (Locations t)" if "i < n" for i
    using spread_in_Locations [OF assms(1)] that assms(2) by simp
  ultimately show ?thesis using False assign_spread [OF assms] by (auto simp: distinct_map)
qed

lemma assign_locations_distinct_witness:
  "\<exists>locs. assign_locations \<lparr>NumHWNodes = 2, NumHWCores = 8, NumHWThreads = 16, NumCoresPerNode = 4, NumThdsPerCore = 2\<rparr> None False 11 = Some locs
     \<and> length locs = 11 \<and> distinct locs
     \<and> set locs \<subseteq> set (Locations \<lparr>NumHWNodes = 2, NumHWCores = 8, NumHWThreads = 16, NumCoresPerNode = 4, NumThdsPerCore = 2\<rparr>)"
  by (rule assign_locations_distinct) (simp_all add: topo_wf_def)

subsection \<open>Explicit placement\<close>

text \<open>The formula for explicit placement divides by the product of threads and cores: every processor number of the machine is mapped to node 0, whatever node it belongs to.\<close>

lemma placed_location_node0:
  assumes "0 < NumHWCores t" "NumHWCores t \<le> NumHWThreads t" "NumHWThreads t < 2 ^ 8" "0 \<le> p" "p < NumHWThreads t"
  shows "\<exists>loc. placed_location t p = Some loc \<and> LocationNode loc = 0"
proof -
  let ?T = "NumHWThreads t" and ?C = "NumHWCores t"
  have "?T * 1 \<le> ?T * ?C" using assms by (intro mult_left_mono) auto
  then have m: "p < ?T * ?C" using assms(5) by linarith
  have "\<bar>?T * ?C\<bar> = ?T * ?C" using assms by simp
  then have "p smod ?T = p" "p sdiv (?T * ?C) = 0" "p smod (?T * ?C) = p" "p sdiv ?C = p div ?C"
    using assms m by (auto simp: signed_divide_int_def signed_modulo_int_def sgn_if)
  then have l: "placed_location t p = Some (Location 0 (p div ?C) p)" using assms by (simp add: placed_location_def Let_def)
  have "0 \<le> p div ?C" using assms by (simp add: pos_imp_zdiv_nonneg_iff)
  moreover have "p div ?C \<le> p" using assms zdiv_mono2 [of p 1 ?C] by simp
  ultimately have "LocationNode (Location 0 (p div ?C) p) = 0"
    using assms by (intro LocationNode_Location) auto
  with l show ?thesis by simp
qed

lemma placed_location_node0_witness:
  "\<exists>loc. placed_location \<lparr>NumHWNodes = 2, NumHWCores = 8, NumHWThreads = 16, NumCoresPerNode = 4, NumThdsPerCore = 2\<rparr> 15 = Some loc \<and> LocationNode loc = 0"
  by (rule placed_location_node0) simp_all

subsection \<open>Counting\<close>

lemma node_counts_snoc: "node_counts t (locs @ [l]) = count_vproc (length locs, l) (node_counts t locs)"
  by (simp add: node_counts_def)

lemma node_counts_lengths:
  "length (NumVProcsPerNode (node_counts t locs)) = nat (NumHWNodes t) \<and> length (MinVProcPerNode (node_counts t locs)) = nat (NumHWNodes t)"
proof (induction locs rule: rev_induct)
  case Nil
  then show ?case by (simp add: node_counts_def)
next
  case (snoc l locs)
  then show ?case by (simp add: node_counts_snoc count_vproc_def Let_def)
qed

definition first_on_node :: "int \<Rightarrow> Location_t list \<Rightarrow> int" where
  "first_on_node nd locs = (if list_all (\<lambda>l. LocationNode l \<noteq> nd) locs then int MAX_NUM_VPROCS
     else int (length (takeWhile (\<lambda>l. LocationNode l \<noteq> nd) locs)))"

lemma first_on_node_snoc:
  "length locs < MAX_NUM_VPROCS \<Longrightarrow> first_on_node nd (locs @ [l])
     = (if LocationNode l = nd \<and> first_on_node nd locs > int (length locs) then int (length locs) else first_on_node nd locs)"
proof -
  assume a: "length locs < MAX_NUM_VPROCS"
  have "length (takeWhile (\<lambda>l. LocationNode l \<noteq> nd) locs) \<le> length locs" by (rule length_takeWhile_le)
  with a show ?thesis by (auto simp: first_on_node_def list_all_iff takeWhile_append)
qed

text \<open>After \<^verbatim>\<open>VProcInit\<close>, \<^verbatim>\<open>NumVProcsPerNode\<close> holds the number of vprocs of each node and \<^verbatim>\<open>MinVProcPerNode\<close> the least vproc of the node (\<^verbatim>\<open>MAX_NUM_VPROCS\<close> for an empty node).\<close>

lemma node_counts_correct:
  assumes "length locs \<le> MAX_NUM_VPROCS" "0 \<le> nd" "nd < NumHWNodes t" "\<forall>l \<in> set locs. LocationNode l < NumHWNodes t"
  shows "NumVProcsPerNode (node_counts t locs) ! nat nd = int (length (filter (\<lambda>l. LocationNode l = nd) locs))
    \<and> MinVProcPerNode (node_counts t locs) ! nat nd = first_on_node nd locs"
  using assms(1,4)
proof (induction locs rule: rev_induct)
  case Nil
  then show ?case using assms(2,3) by (simp add: node_counts_def first_on_node_def)
next
  case (snoc l locs)
  have IH: "NumVProcsPerNode (node_counts t locs) ! nat nd = int (length (filter (\<lambda>l. LocationNode l = nd) locs))"
    "MinVProcPerNode (node_counts t locs) ! nat nd = first_on_node nd locs" using snoc by auto
  have n0: "0 \<le> LocationNode l" by (simp add: LocationNode_def)
  then have n: "nat (LocationNode l) < nat (NumHWNodes t)" "0 \<le> LocationNode l" using snoc.prems by auto
  have e: "nat (LocationNode l) = nat nd \<longleftrightarrow> LocationNode l = nd" using n(2) assms(2) by auto
  have f: "first_on_node nd (locs @ [l]) = (if LocationNode l = nd \<and> first_on_node nd locs > int (length locs) then int (length locs) else first_on_node nd locs)"
    using snoc.prems by (intro first_on_node_snoc) simp
  show ?case using IH n e node_counts_lengths [of t locs]
    by (auto simp: node_counts_snoc count_vproc_def Let_def f nth_list_update)
qed

lemma node_counts_correct_witness:
  "NumVProcsPerNode (node_counts \<lparr>NumHWNodes = 2, NumHWCores = 8, NumHWThreads = 8, NumCoresPerNode = 4, NumThdsPerCore = 1\<rparr> [0, 0x10000, 0x10100]) ! nat 1
      = int (length (filter (\<lambda>l. LocationNode l = 1) [0, 0x10000, 0x10100]))
    \<and> MinVProcPerNode (node_counts \<lparr>NumHWNodes = 2, NumHWCores = 8, NumHWThreads = 8, NumCoresPerNode = 4, NumThdsPerCore = 1\<rparr> [0, 0x10000, 0x10100]) ! nat 1
      = first_on_node 1 [0, 0x10000, 0x10100]"
  by (rule node_counts_correct) (simp_all add: MAX_NUM_VPROCS_def LocationNode_def loc_bits)

lemma carry_nsec_exact:
  "tv_nsec r \<ge> 0 \<Longrightarrow> tv_sec (carry_nsec r) * ONE_SECOND + tv_nsec (carry_nsec r) = tv_sec r * ONE_SECOND + tv_nsec r
     \<and> tv_nsec (carry_nsec r) = (if tv_nsec r = 0 then 0 else (tv_nsec r - 1) mod ONE_SECOND + 1)"
proof (induction r rule: carry_nsec.induct)
  case (1 r)
  have S: "0 < ONE_SECOND" by (simp add: ONE_SECOND_def)
  show ?case
  proof (cases "tv_nsec r > ONE_SECOND")
    case True
    let ?r = "r\<lparr>tv_sec := tv_sec r + 1, tv_nsec := tv_nsec r - ONE_SECOND\<rparr>"
    have c: "carry_nsec r = carry_nsec ?r" using True by (subst carry_nsec.simps) simp
    have "(tv_nsec r - ONE_SECOND - 1) mod ONE_SECOND = (tv_nsec r - 1) mod ONE_SECOND"
      by (metis diff_right_commute minus_mod_self2)
    then show ?thesis using 1(1) [OF True] True S unfolding c by (simp add: algebra_simps)
  next
    case False
    then have "carry_nsec r = r" by (subst carry_nsec.simps) simp
    then show ?thesis using 1(2) False S by (auto simp: mod_pos_pos_trivial)
  qed
qed

text \<open>\<^verbatim>\<open>TimespecAdd\<close> terminates and preserves the total time; its nanoseconds are at most a second, and exactly a second, which is not a valid \<^verbatim>\<open>timespec\<close>, precisely when the sum of the nanoseconds is a positive multiple of a second.\<close>

lemma TimespecAdd_exact:
  assumes "0 \<le> tv_nsec t1" "0 \<le> tv_nsec t2"
  shows "tv_sec (TimespecAdd t1 t2) * ONE_SECOND + tv_nsec (TimespecAdd t1 t2)
      = (tv_sec t1 + tv_sec t2) * ONE_SECOND + (tv_nsec t1 + tv_nsec t2)
    \<and> 0 \<le> tv_nsec (TimespecAdd t1 t2) \<and> tv_nsec (TimespecAdd t1 t2) \<le> ONE_SECOND
    \<and> (tv_nsec (TimespecAdd t1 t2) = ONE_SECOND \<longleftrightarrow> 0 < tv_nsec t1 + tv_nsec t2 \<and> ONE_SECOND dvd tv_nsec t1 + tv_nsec t2)"
proof -
  let ?s = "tv_nsec t1 + tv_nsec t2"
  have S: "0 < ONE_SECOND" by (simp add: ONE_SECOND_def)
  have e: "tv_sec (TimespecAdd t1 t2) * ONE_SECOND + tv_nsec (TimespecAdd t1 t2) = (tv_sec t1 + tv_sec t2) * ONE_SECOND + ?s"
    "tv_nsec (TimespecAdd t1 t2) = (if ?s = 0 then 0 else (?s - 1) mod ONE_SECOND + 1)"
    using carry_nsec_exact [of "\<lparr>tv_sec = tv_sec t1 + tv_sec t2, tv_nsec = ?s\<rparr>"] assms by (simp_all add: TimespecAdd_def)
  have m: "0 \<le> (?s - 1) mod ONE_SECOND" "(?s - 1) mod ONE_SECOND < ONE_SECOND" using S by simp_all
  have "(?s - 1) mod ONE_SECOND + 1 = ONE_SECOND \<longleftrightarrow> ONE_SECOND dvd ?s"
    using next_mod_div [OF S, of "?s - 1"] m by (auto simp: dvd_eq_mod_eq_0 split: if_splits)
  moreover have "0 \<le> tv_nsec (TimespecAdd t1 t2)" unfolding e(2) using m S by (cases "?s = 0") auto
  moreover have "tv_nsec (TimespecAdd t1 t2) \<le> ONE_SECOND"
  proof (cases "?s = 0")
    case False
    then show ?thesis unfolding e(2) using m(2) by simp
  qed (use e(2) S in simp)
  moreover have "0 < ?s \<longleftrightarrow> ?s \<noteq> 0" using assms by linarith
  ultimately show ?thesis using e S by (simp split: if_splits)
qed

lemma TimespecAdd_exact_witness:
  "tv_sec (TimespecAdd \<lparr>tv_sec = 1, tv_nsec = 400000000\<rparr> \<lparr>tv_sec = 2, tv_nsec = 600000000\<rparr>) * ONE_SECOND
      + tv_nsec (TimespecAdd \<lparr>tv_sec = 1, tv_nsec = 400000000\<rparr> \<lparr>tv_sec = 2, tv_nsec = 600000000\<rparr>) = 4 * ONE_SECOND
    \<and> tv_nsec (TimespecAdd \<lparr>tv_sec = 1, tv_nsec = 400000000\<rparr> \<lparr>tv_sec = 2, tv_nsec = 600000000\<rparr>) = ONE_SECOND"
  using TimespecAdd_exact [of "\<lparr>tv_sec = 1, tv_nsec = 400000000\<rparr>" "\<lparr>tv_sec = 2, tv_nsec = 600000000\<rparr>"]
  by (simp add: ONE_SECOND_def)

subsection \<open>The landing pad as a stack\<close>

text \<open>The fibers on a landing pad whose items lie below word \<open>b\<close>, the top first.\<close>

fun pad_at :: "mem \<Rightarrow> nat \<Rightarrow> Value_t \<Rightarrow> Value_t list \<Rightarrow> bool" where
  "pad_at m b v [] \<longleftrightarrow> v = M_NIL"
| "pad_at m b v (k # ks) \<longleftrightarrow> (\<exists>j. v = wadr j \<and> 0 < j \<and> j + 2 < b \<and> m (wadr (j + 1)) = k \<and> pad_at m b (m (wadr (j + 2))) ks)"

lemma pad_at_same:
  "pad_at m b v ks \<Longrightarrow> same_outside m m' b e \<Longrightarrow> b \<le> b' \<Longrightarrow> b < 2 ^ 61 \<Longrightarrow> pad_at m' b' v ks"
proof (induction ks arbitrary: v)
  case (Cons k ks)
  then obtain j where j: "v = wadr j" "0 < j" "j + 2 < b" "m (wadr (j + 1)) = k" "pad_at m b (m (wadr (j + 2))) ks" by auto
  have e: "m' (wadr (j + 1)) = m (wadr (j + 1))" "m' (wadr (j + 2)) = m (wadr (j + 2))"
    using Cons.prems(2,4) j(3) unfolding same_outside_def by auto
  show ?case unfolding pad_at.simps
    by (rule exI [of _ j]) (use j e Cons.IH [OF j(5) Cons.prems(2-4)] Cons.prems(3) in auto)
qed simp

text \<open>The top of the pad that the successful exchange replaced.\<close>

fun replaced_top :: "Value_t \<Rightarrow> (Value_t \<times> Value_t) list \<Rightarrow> Value_t" where
  "replaced_top orig [] = orig"
| "replaced_top orig ((x, reread) # others) = (if x = orig then orig else replaced_top reread others)"

lemma same_outside_trans:
  "same_outside m m1 a b \<Longrightarrow> same_outside m1 m2 a' b' \<Longrightarrow> a \<le> a' \<Longrightarrow> b \<le> b' \<Longrightarrow> same_outside m m2 a b'"
  unfolding same_outside_def by auto

lemma GlobalAllocUniform_room:
  fixes n b :: nat
  assumes "globNextW vp = wadr n" "0 < n" "globLimit vp = wadr b" "n + length flds + 1 < b" "b < 2 ^ 61"
  shows "\<exists>vp' h'. GlobalAllocUniform vp h flds = Some (wadr n, vp', h')
    \<and> object_at (mem h') n (VEC_HDR (int (length flds))) flds \<and> same_outside (mem h) (mem h') (n - 1) (n + length flds)
    \<and> globNextW vp' = wadr (n + length flds + 1) \<and> globLimit vp' = wadr b"
proof -
  let ?m = "store_words ((mem h)(wadr n - WORD_SZB := VEC_HDR (int (length flds)))) (wadr n) flds"
  have "EnsureGlobalSpace vp h (int (length flds)) = Some (vp, h)"
    by (rule EnsureGlobalSpace_stay) (use assms wadr_plus_len [of n "length flds"] in simp)
  moreover have "object_at ?m n (VEC_HDR (int (length flds))) flds" "same_outside (mem h) ?m (n - 1) (n + length flds)"
    by (rule object_at_new; use assms in simp)+
  ultimately show ?thesis
    using assms by (simp add: GlobalAllocUniform_def Let_def bump_global_def set_mem_def wadr_plus_len_simp)
qed

lemma GlobalAllocNonUniform_room:
  fixes n b :: nat
  assumes "globNextW vp = wadr n" "0 < n" "globLimit vp = wadr b" "n + length flds + 1 < b" "b < 2 ^ 61"
    and "nonuniform_hdr (int (length flds)) (tag_bits 0 flds) = Some hdr"
  shows "\<exists>vp' h'. GlobalAllocNonUniform vp h flds = Some (wadr n, vp', h')
    \<and> object_at (mem h') n hdr (map snd flds) \<and> same_outside (mem h) (mem h') (n - 1) (n + length flds)
    \<and> globNextW vp' = wadr (n + length flds + 1) \<and> globLimit vp' = wadr b"
proof -
  let ?m = "(store_words (mem h) (wadr n) (map snd flds))(wadr n - WORD_SZB := hdr)"
  have "EnsureGlobalSpace vp h (int (length flds)) = Some (vp, h)"
    by (rule EnsureGlobalSpace_stay) (use assms wadr_plus_len [of n "length flds"] in simp)
  moreover have "object_at ?m n hdr (map snd flds)" "same_outside (mem h) ?m (n - 1) (n + length flds)"
    using object_at_new(3,4) [of n "map snd flds"] assms by auto
  ultimately show ?thesis
    using assms by (simp add: GlobalAllocNonUniform_def Let_def bump_global_def set_mem_def wadr_plus_len_simp)
qed

lemma push_item_pushes:
  fixes n b :: nat
  assumes "globNextW self = wadr n" "0 < n" "globLimit self = wadr b" "n + 4 * length others + 4 < b" "b < 2 ^ 61"
  shows "\<exists>i self' h'. push_item fls k orig others self h = Some (wadr i, self', h') \<and> n \<le> i \<and> i + 3 \<le> n + 4 * length others + 3
    \<and> object_at (mem h') i (VEC_HDR 3) [fls, k, replaced_top orig others]
    \<and> same_outside (mem h) (mem h') (n - 1) (n + 4 * length others + 3)"
  using assms
proof (induction others arbitrary: n orig self h)
  case Nil
  then show ?case using GlobalAllocUniform_room [of self n b "[fls, k, orig]" h] by (auto simp: numeral_2_eq_2 numeral_3_eq_3)
next
  case (Cons o1 others)
  obtain x reread where o: "o1 = (x, reread)" by (cases o1)
  obtain self1 h1 where a: "GlobalAllocUniform self h [fls, k, orig] = Some (wadr n, self1, h1)"
    "object_at (mem h1) n (VEC_HDR 3) [fls, k, orig]" "same_outside (mem h) (mem h1) (n - 1) (n + 3)"
    "globNextW self1 = wadr (n + 4)" "globLimit self1 = wadr b"
    using GlobalAllocUniform_room [of self n b "[fls, k, orig]" h] Cons.prems by (auto simp: numeral_2_eq_2 numeral_3_eq_3)
  show ?case
  proof (cases "x = orig")
    case True
    have "same_outside (mem h) (mem h1) (n - 1) (n + 4 * length (o1 # others) + 3)"
      using a(3) unfolding same_outside_def by auto
    then show ?thesis using True a(1,2) o by auto
  next
    case False
    obtain i self' h' where r: "push_item fls k reread others self1 h1 = Some (wadr i, self', h')" "n + 4 \<le> i" "i + 3 \<le> n + 4 + 4 * length others + 3"
      "object_at (mem h') i (VEC_HDR 3) [fls, k, replaced_top reread others]"
      "same_outside (mem h1) (mem h') (n + 4 - 1) (n + 4 + 4 * length others + 3)"
      using Cons.IH [OF a(4) _ a(5), of reread h1] Cons.prems by (auto simp: algebra_simps)
    have "same_outside (mem h) (mem h') (n - 1) (n + 4 + 4 * length others + 3)"
      using a(3) r(5) by (rule same_outside_trans) auto
    then show ?thesis using False a(1) r o by auto
  qed
qed

lemma zero_less_two_more: "0 < n + (2 :: nat)" by simp

text \<open>C13: \<^verbatim>\<open>VProcSendSignal\<close> implements a push: whatever other senders do between its attempts, the landing pad afterwards holds the new fiber on top of the fibers that were there when the exchange succeeded, no word outside the room it allocated has changed, the item carries the fiber-local storage allocated here (not the argument \<open>fls\<close>), and the destination is woken exactly if it was marked as sleeping.\<close>

lemma VProcSendSignal_pushes:
  fixes n b :: nat
  assumes "globNextW self = wadr n" "0 < n" "globLimit self = wadr b" "n + 4 * length others + 12 < b" "b < 2 ^ 61"
    and pad: "pad_at (mem h) (n - 1) (replaced_top (regs vp LandingPad) others) ks"
  shows "\<exists>self' h' vp' woken i. VProcSendSignal others self vp fls k h = Some ((self', h'), vp', woken)
    \<and> vp' = vp\<lparr>regs := (regs vp)(LandingPad := wadr i)\<rparr>
    \<and> pad_at (mem h') (n + 4 * length others + 12) (wadr i) (k # ks)
    \<and> mem h' (wadr i) = wadr (n + 2)
    \<and> same_outside (mem h) (mem h') (n - 1) (n + 4 * length others + 12)
    \<and> woken = (regs vp Sleeping = M_TRUE)"
proof -
  obtain s1 h1 where 1: "GlobalAllocNonUniform self h [INT_arg 3] = Some (wadr n, s1, h1)"
    "same_outside (mem h) (mem h1) (n - 1) (n + 1)" "globNextW s1 = wadr (n + 2)" "globLimit s1 = wadr b"
    using GlobalAllocNonUniform_room [of self n b "[INT_arg 3]" "MIXED_HDR predefined 1" h] assms(1-5)
    by (auto simp: nonuniform_hdr_def INT_arg_def RAW_FIELD_def PTR_FIELD_def)
  let ?as = "[INT_arg (- 1), PTR_arg M_NONE, INT_arg 0, PTR_arg M_NIL, PTR_arg (wadr n)]"
  have t: "nonuniform_hdr (int (length ?as)) (tag_bits 0 ?as) = Some (MIXED_HDR (predefined + 3) 5)"
    by (simp add: nonuniform_hdr_def INT_arg_def PTR_arg_def RAW_FIELD_def PTR_FIELD_def)
  obtain s2 h2 where 2: "GlobalAllocNonUniform s1 h1 ?as = Some (wadr (n + 2), s2, h2)"
    "same_outside (mem h1) (mem h2) (n + 1) (n + 7)" "globNextW s2 = wadr (n + 8)" "globLimit s2 = wadr b"
  proof -
    have e: "n + 2 + length ?as = n + 7" "n + 7 + 1 = n + 8" "n + 2 - 1 = n + 1" by simp_all
    have "n + 2 + length ?as + 1 < b" using assms(4) by (simp only: e)
    from GlobalAllocNonUniform_room [OF 1(3) zero_less_two_more 1(4) this assms(5) t, of h1, unfolded e] show ?thesis using that by blast
  qed
  obtain i s3 h3 where 3: "push_item (wadr (n + 2)) k (regs vp LandingPad) others s2 h2 = Some (wadr i, s3, h3)"
    "n + 8 \<le> i" "i + 3 \<le> n + 8 + 4 * length others + 3"
    "object_at (mem h3) i (VEC_HDR 3) [wadr (n + 2), k, replaced_top (regs vp LandingPad) others]"
    "same_outside (mem h2) (mem h3) (n + 8 - 1) (n + 8 + 4 * length others + 3)"
    using push_item_pushes [OF 2(3) _ 2(4) _ assms(5), of others "wadr (n + 2)" k "regs vp LandingPad" h2] assms(4) by auto
  have "same_outside (mem h) (mem h2) (n - 1) (n + 7)" using 1(2) 2(2) by (rule same_outside_trans) auto
  then have so: "same_outside (mem h) (mem h3) (n - 1) (n + 4 * length others + 12)"
    using 3(5) unfolding same_outside_def by auto
  have top: "mem h3 (wadr i) = wadr (n + 2)" using 3(4) unfolding object_at_def by auto
  have "pad_at (mem h3) (n + 4 * length others + 12) (replaced_top (regs vp LandingPad) others) ks"
    using pad_at_same [OF pad so] assms(4,5) by simp
  moreover have "mem h3 (wadr i) = wadr (n + 2)" "mem h3 (wadr (i + 1)) = k" "mem h3 (wadr (i + 2)) = replaced_top (regs vp LandingPad) others"
    using 3(4) unfolding object_at_def by (auto simp: numeral_2_eq_2 numeral_3_eq_3 All_less_Suc)
  ultimately have "pad_at (mem h3) (n + 4 * length others + 12) (wadr i) (k # ks)"
    using 3(2,3) by (auto intro!: exI [of _ i])
  moreover have "VProcSendSignal others self vp fls k h
      = Some ((s3, h3), vp\<lparr>regs := (regs vp)(LandingPad := wadr i)\<rparr>, regs vp Sleeping = M_TRUE)"
    using 3(1) unfolding VProcSendSignal_def 1(1) bind.bind_lunit split 2(1) by (simp only: bind.bind_lunit split)
  ultimately show ?thesis using so top by blast
qed

lemma VProcSendSignal_pushes_witness:
  "\<exists>self' h' vp' woken i. VProcSendSignal [(wadr 900, wadr 900)] (ex_vproc\<lparr>globNextW := wadr 1000, globLimit := wadr 2000\<rparr>)
      (ex_vproc\<lparr>regs := (\<lambda>r. if r = Sleeping then M_TRUE else M_NIL)\<rparr>) 7 9 (ex_heap\<lparr>mem := (\<lambda>a. M_NIL)\<rparr>) = Some ((self', h'), vp', woken)
    \<and> vp' = (ex_vproc\<lparr>regs := (\<lambda>r. if r = Sleeping then M_TRUE else M_NIL)\<rparr>)\<lparr>regs :=
        (regs (ex_vproc\<lparr>regs := (\<lambda>r. if r = Sleeping then M_TRUE else M_NIL)\<rparr>))(LandingPad := wadr i)\<rparr>
    \<and> pad_at (mem h') (1000 + 4 * length [(wadr 900, wadr 900)] + 12) (wadr i) [9, M_NIL]
    \<and> mem h' (wadr i) = wadr (1000 + 2)
    \<and> same_outside (mem (ex_heap\<lparr>mem := (\<lambda>a. M_NIL)\<rparr>)) (mem h') (1000 - 1) (1000 + 4 * length [(wadr 900, wadr 900)] + 12)
    \<and> woken = (regs (ex_vproc\<lparr>regs := (\<lambda>r. if r = Sleeping then M_TRUE else M_NIL)\<rparr>) Sleeping = M_TRUE)"
proof (rule VProcSendSignal_pushes [where b = 2000 and n = 1000])
  have "wadr 900 \<noteq> M_NIL" by (rule wadr_not_NIL) simp
  then have "replaced_top (regs (ex_vproc\<lparr>regs := (\<lambda>r. if r = Sleeping then M_TRUE else M_NIL)\<rparr>) LandingPad) [(wadr 900, wadr 900)] = wadr 900" by simp
  then show "pad_at (mem (ex_heap\<lparr>mem := (\<lambda>a. M_NIL)\<rparr>)) (1000 - 1)
      (replaced_top (regs (ex_vproc\<lparr>regs := (\<lambda>r. if r = Sleeping then M_TRUE else M_NIL)\<rparr>) LandingPad) [(wadr 900, wadr 900)]) [M_NIL]"
    by (simp only:) (auto intro!: exI [of _ "900 :: nat"])
qed simp_all

end
