(* ===== verification/Config_File.thy ===== *)
theory Config_File
  imports Options_Parse
begin

text \<open>
  The configuration file, \<^verbatim>\<open>misc/config.c\<close>: lines of the form \<^verbatim>\<open>name = value\<close> are read into a vector of
  parameters that grows by half when it is full. A stream is the bytes not read yet; the file system and the
  addresses that \<^verbatim>\<open>malloc\<close> returns are parameters. The loop over the lines is a partial function, so that its
  end is a theorem (\<open>InitConfiguration_returns\<close>), and a write behind the vector would be an error value.
\<close>

subsection \<open>Reading lines\<close>

text \<open>
  An open stream: the bytes not read yet, and whether reading past them is an input error rather than the end
  of the file.
\<close>

record InStrm =
  unread :: string
  ioerror :: bool

text \<open>
  \<^verbatim>\<open>fgets\<close> with room for \<open>n\<close> bytes and the terminating NUL: up to and including the next newline.
\<close>

fun line_of :: "nat \<Rightarrow> string \<Rightarrow> string" where
  "line_of 0 s = []"
| "line_of (Suc n) [] = []"
| "line_of (Suc n) (c # s) = c # (if c = CHR 0x0A then [] else line_of n s)"

definition fgets :: "nat \<Rightarrow> InStrm \<Rightarrow> string option \<times> InStrm" where
  "fgets n inStrm = (if unread inStrm = [] then (None, inStrm)
     else let l = line_of n (unread inStrm) in (Some l, inStrm\<lparr>unread := drop (length l) (unread inStrm)\<rparr>))"

text \<open>The string in the buffer ends at the first NUL.\<close>

definition c_string :: "string \<Rightarrow> string" where
  "c_string = takeWhile (\<lambda>c. c \<noteq> CHR 0x00)"

definition is_white :: "char \<Rightarrow> bool" where
  "is_white c \<longleftrightarrow> c = CHR '' '' \<or> c = CHR 0x09 \<or> c = CHR 0x0A"

definition is_lhs :: "char \<Rightarrow> bool" where
  "is_lhs c \<longleftrightarrow> \<not> (c = CHR '' '' \<or> c = CHR 0x09 \<or> c = CHR ''='')"

record ConfigParam =
  key :: string
  param_value :: "string option"

datatype ParseStatus = END_OF_FILE | OK | BLANK | ERROR

text \<open>\<^verbatim>\<open>*param\<close> is written only when the status is \<open>OK\<close>.\<close>

definition parse_text :: "string \<Rightarrow> ParseStatus \<times> ConfigParam option" where
  "parse_text buf =
     (let cp = dropWhile is_white buf
      in if cp = [] \<or> hd cp = CHR ''#'' then (BLANK, None)
         else let k = takeWhile is_lhs cp; eq = dropWhile (\<lambda>c. c \<noteq> CHR ''='') (dropWhile is_lhs cp)
              in if k = [] then (ERROR, None)
                 else if eq = [] then (ERROR, None)
                 else let v = dropWhile is_white (tl eq)
                      in (OK, Some \<lparr>key = k, param_value = (if v = [] then None
                           else Some (if last v = CHR 0x0A then butlast v else v))\<rparr>))"

definition ParseLine :: "InStrm \<Rightarrow> ParseStatus \<times> ConfigParam option \<times> InStrm" where
  "ParseLine inStrm = (case fgets 1023 inStrm of
     (None, s) \<Rightarrow> (if ioerror s then ERROR else END_OF_FILE, None, s)
   | (Some buf, s) \<Rightarrow> (case parse_text (c_string buf) of (sts, p) \<Rightarrow> (sts, p, s)))"

subsection \<open>The parameter vector\<close>

text \<open>The vector \<^verbatim>\<open>ConfigParams\<close>; an element that has not been written is \<open>None\<close>.\<close>

record Config =
  NumConfigParams :: nat
  ConfigParamsSz :: nat
  ConfigParams :: "ConfigParam option list"

datatype CfgError = CannotOpen string | ParseError nat | is_OutOfBounds: OutOfBounds nat

definition grow_params :: "Config \<Rightarrow> Config" where
  "grow_params cfg =
     (let newSz = (3 * ConfigParamsSz cfg) div 2
      in cfg\<lparr>ConfigParams := map (\<lambda>i. if i < ConfigParamsSz cfg then ConfigParams cfg ! i else None) [0..<newSz],
             ConfigParamsSz := newSz\<rparr>)"

definition add_param :: "ConfigParam \<Rightarrow> Config \<Rightarrow> Config" where
  "add_param p cfg =
     (let cfg = cfg\<lparr>ConfigParams := (ConfigParams cfg)[NumConfigParams cfg := Some p],
                    NumConfigParams := NumConfigParams cfg + 1\<rparr>
      in if NumConfigParams cfg = ConfigParamsSz cfg then grow_params cfg else cfg)"

text \<open>
  The loop of \<^verbatim>\<open>ParseConfigFile\<close>; a write behind the end of the vector would be \<open>OutOfBounds\<close>, leaving by
  \<^verbatim>\<open>exit (1)\<close> is \<open>Inl\<close>, and running forever is \<open>None\<close>.
\<close>

partial_function (option) parse_loop :: "InStrm \<Rightarrow> nat \<Rightarrow> Config \<Rightarrow> (CfgError + Config) option" where
  "parse_loop inStrm lnum cfg =
     (case ParseLine inStrm of (sts, p, inStrm') \<Rightarrow>
        (case sts of
           OK \<Rightarrow> if NumConfigParams cfg < length (ConfigParams cfg) then parse_loop inStrm' (lnum + 1) (add_param (the p) cfg)
                 else Some (Inl (OutOfBounds (NumConfigParams cfg)))
         | BLANK \<Rightarrow> parse_loop inStrm' (lnum + 1) cfg
         | ERROR \<Rightarrow> Some (Inl (ParseError (lnum + 1)))
         | END_OF_FILE \<Rightarrow> Some (Inr cfg)))"

type_synonym FileSystem = "string \<Rightarrow> InStrm option"

definition ParseConfigFile :: "FileSystem \<Rightarrow> string \<Rightarrow> Config \<Rightarrow> (CfgError + Config) option" where
  "ParseConfigFile fs fname cfg = (case fs fname of
     None \<Rightarrow> Some (Inl (CannotOpen fname)) | Some inStrm \<Rightarrow> parse_loop inStrm 0 cfg)"

definition FindConfigParam :: "string \<Rightarrow> Config \<Rightarrow> nat option" where
  "FindConfigParam k cfg = find (\<lambda>i. case ConfigParams cfg ! i of None \<Rightarrow> False | Some p \<Rightarrow> strcmp_eq k (key p)) [0..<NumConfigParams cfg]"

definition DEFAULT_CONFIG_FILE :: string where "DEFAULT_CONFIG_FILE = ''.pmlrc''"

definition empty_config :: Config where
  "empty_config = \<lparr>NumConfigParams = 0, ConfigParamsSz = 16, ConfigParams = replicate 16 None\<rparr>"

text \<open>\<^verbatim>\<open>access (f, R_OK) == 0\<close> is that the file system has a readable file of that name.\<close>

definition InitConfiguration :: "FileSystem \<Rightarrow> Options \<Rightarrow> (CfgError + Config) option \<times> Options" where
  "InitConfiguration fs opts =
     (case GetStringOpt opts ''-config'' None of (cfgFile, opts') \<Rightarrow>
        let cfgFile = (if cfgFile = None \<and> fs DEFAULT_CONFIG_FILE \<noteq> None then Some DEFAULT_CONFIG_FILE else cfgFile)
        in (case cfgFile of None \<Rightarrow> Some (Inr empty_config)
            | Some f \<Rightarrow> if fs f \<noteq> None then ParseConfigFile fs f empty_config else Some (Inl (CannotOpen f)), opts'))"

subsection \<open>Looking a parameter up\<close>

datatype CfgMsg = MissingValue string | ExpectedInt string | BogusConfigSize string

text \<open>
  \<^verbatim>\<open>strtol\<close> leaves in \<open>cp\<close> the address behind the digits; \<open>valp i\<close> is the address of the \<open>i\<close>-th value,
  which comes from \<^verbatim>\<open>malloc\<close>, and \<open>keyp\<close> is the address of the key the caller passes.
\<close>

definition GetIntConfig :: "(nat \<Rightarrow> Addr_t) \<Rightarrow> Addr_t \<Rightarrow> string \<Rightarrow> int \<Rightarrow> Config \<Rightarrow> int \<times> CfgMsg list" where
  "GetIntConfig valp keyp k dflt cfg = (case FindConfigParam k cfg of
     None \<Rightarrow> (dflt, [])
   | Some i \<Rightarrow> (case param_value (the (ConfigParams cfg ! i)) of
       None \<Rightarrow> (dflt, [MissingValue k])
     | Some v \<Rightarrow> let (n, rest) = strtol v 0; cp = valp i + word_of_nat (length v - length rest)
                 in if cp = keyp then (long_to_int n, []) else (dflt, [ExpectedInt k])))"

definition GetSizeConfig :: "string \<Rightarrow> Addr_t \<Rightarrow> Addr_t \<Rightarrow> Config \<Rightarrow> Addr_t \<times> CfgMsg list" where
  "GetSizeConfig k dfltScale dflt cfg = (case FindConfigParam k cfg of
     None \<Rightarrow> (dflt, [])
   | Some i \<Rightarrow> (case param_value (the (ConfigParams cfg ! i)) of
       None \<Rightarrow> (dflt, [MissingValue k])
     | Some v \<Rightarrow> let sz = GetSizeValue v dfltScale
                 in if sz < 0 then (dflt, [BogusConfigSize k]) else (word_of_int sz * dfltScale, [])))"

subsection \<open>Reading the file ends, inside the vector\<close>

lemma length_line_of: "s \<noteq> [] \<Longrightarrow> 0 < n \<Longrightarrow> 0 < length (line_of n s) \<and> length (line_of n s) \<le> length s"
proof (induction n s rule: line_of.induct)
  case (3 n c s)
  then show ?case by (cases s; cases n) auto
qed auto

lemma fgets_shorter: "fgets n s = (Some l, s') \<Longrightarrow> 0 < n \<Longrightarrow> length (unread s') < length (unread s)"
  using length_line_of [of "unread s" n] by (auto simp: fgets_def Let_def split: if_splits)

lemma ParseLine_shorter:
  "ParseLine s = (sts, p, s') \<Longrightarrow> sts = OK \<or> sts = BLANK \<Longrightarrow> length (unread s') < length (unread s)"
  using fgets_shorter [of 1023 s]
  by (auto simp: ParseLine_def split: prod.splits option.splits if_splits)

definition cfg_wf :: "Config \<Rightarrow> bool" where
  "cfg_wf cfg \<longleftrightarrow> NumConfigParams cfg < ConfigParamsSz cfg \<and> ConfigParamsSz cfg = length (ConfigParams cfg) \<and> 2 \<le> ConfigParamsSz cfg
     \<and> (\<forall>i < NumConfigParams cfg. ConfigParams cfg ! i \<noteq> None)"

definition params :: "Config \<Rightarrow> ConfigParam list" where
  "params cfg = map the (take (NumConfigParams cfg) (ConfigParams cfg))"

lemma params_grow:
  assumes "NumConfigParams cfg \<le> ConfigParamsSz cfg" "ConfigParamsSz cfg = length (ConfigParams cfg)"
  shows "params (grow_params cfg) = params cfg"
proof -
  let ?n = "NumConfigParams cfg" and ?m = "(3 * ConfigParamsSz cfg) div 2"
  have "take ?n (map (\<lambda>i. if i < ConfigParamsSz cfg then ConfigParams cfg ! i else None) [0..<?m]) = take ?n (ConfigParams cfg)"
    using assms by (intro nth_equalityI) auto
  then show ?thesis by (simp add: params_def grow_params_def Let_def)
qed

lemma add_param_wf:
  assumes "cfg_wf cfg"
  shows "cfg_wf (add_param p cfg)" "params (add_param p cfg) = params cfg @ [p]"
proof -
  let ?n = "NumConfigParams cfg" and ?v = "(ConfigParams cfg)[NumConfigParams cfg := Some p]"
  have a: "?n < length (ConfigParams cfg)" "ConfigParamsSz cfg = length (ConfigParams cfg)" "2 \<le> length (ConfigParams cfg)"
    "\<And>i. i < ?n \<Longrightarrow> ConfigParams cfg ! i \<noteq> None" using assms by (auto simp: cfg_wf_def)
  have v: "\<And>i. i \<le> ?n \<Longrightarrow> ?v ! i \<noteq> None"
  proof -
    fix i assume "i \<le> ?n"
    then show "?v ! i \<noteq> None" using a by (cases "i = ?n") auto
  qed
  have t: "take (Suc ?n) ?v = take ?n (ConfigParams cfg) @ [Some p]" using a(1) by (simp add: take_Suc_conv_app_nth)
  show "cfg_wf (add_param p cfg)"
    using a v by (auto simp: add_param_def grow_params_def Let_def cfg_wf_def)
  show "params (add_param p cfg) = params cfg @ [p]"
    using a(1,2) t params_grow [of "cfg\<lparr>ConfigParams := ?v, NumConfigParams := Suc ?n\<rparr>"]
    by (auto simp: add_param_def Let_def) (simp_all add: params_def)
qed

lemma parse_loop_ends:
  "cfg_wf cfg \<Longrightarrow> \<exists>r. parse_loop s lnum cfg = Some r \<and> (\<forall>i. r \<noteq> Inl (OutOfBounds i)) \<and> (\<forall>cfg'. r = Inr cfg' \<longrightarrow> cfg_wf cfg')"
proof (induction "length (unread s)" arbitrary: s lnum cfg rule: less_induct)
  case less
  obtain sts p s' where e: "ParseLine s = (sts, p, s')" by (cases "ParseLine s")
  show ?case
  proof (cases "sts = OK \<or> sts = BLANK")
    case True
    then have l: "length (unread s') < length (unread s)" using ParseLine_shorter [OF e] by simp
    have "NumConfigParams cfg < length (ConfigParams cfg)" using less.prems by (simp add: cfg_wf_def)
    with True e show ?thesis
      using less.hyps [OF l, of "add_param (the p) cfg" "lnum + 1"] less.hyps [OF l, of cfg "lnum + 1"] add_param_wf(1) [OF less.prems] less.prems
      by (subst parse_loop.simps) auto
  next
    case False
    with e show ?thesis using less.prems by (subst parse_loop.simps) (cases sts; auto)
  qed
qed

lemma empty_config_wf: "cfg_wf empty_config" "params empty_config = []"
  by (simp_all add: cfg_wf_def empty_config_def params_def)


subsection \<open>Writing a file and reading it back\<close>

definition lhs_char :: "char \<Rightarrow> bool" where
  "lhs_char c \<longleftrightarrow> is_lhs c \<and> c \<noteq> CHR 0x0A \<and> c \<noteq> CHR 0x00"

definition value_char :: "char \<Rightarrow> bool" where
  "value_char c \<longleftrightarrow> c \<noteq> CHR 0x0A \<and> c \<noteq> CHR 0x00"

datatype CfgLine = Comment string | Param ConfigParam

fun good_line :: "CfgLine \<Rightarrow> bool" where
  "good_line (Comment c) \<longleftrightarrow> list_all value_char c \<and> length c < 1022"
| "good_line (Param p) \<longleftrightarrow> key p \<noteq> [] \<and> list_all lhs_char (key p) \<and> hd (key p) \<noteq> CHR ''#'' \<and>
     (case param_value p of None \<Rightarrow> length (key p) < 1020
      | Some v \<Rightarrow> v \<noteq> [] \<and> list_all value_char v \<and> \<not> is_white (hd v) \<and> length (key p) + length v < 1020)"

fun show_line :: "CfgLine \<Rightarrow> string" where
  "show_line (Comment c) = CHR ''#'' # c @ [CHR 0x0A]"
| "show_line (Param p) = key p @ '' = '' @ (case param_value p of None \<Rightarrow> [] | Some v \<Rightarrow> v) @ [CHR 0x0A]"

fun line_params :: "CfgLine list \<Rightarrow> ConfigParam list" where
  "line_params [] = []"
| "line_params (Comment c # ls) = line_params ls"
| "line_params (Param p # ls) = p # line_params ls"

lemma line_of_newline: "list_all (\<lambda>c. c \<noteq> CHR 0x0A) l \<Longrightarrow> length l < n \<Longrightarrow> line_of n (l @ CHR 0x0A # s) = l @ [CHR 0x0A]"
proof (induction l arbitrary: n)
  case Nil
  then show ?case by (cases n) auto
next
  case (Cons a l)
  then show ?case by (cases n) auto
qed

lemma show_line_split: "good_line l \<Longrightarrow> \<exists>b. show_line l = b @ [CHR 0x0A] \<and> list_all value_char b \<and> length b < 1023"
  by (cases l) (auto simp: list_all_iff value_char_def lhs_char_def split: option.splits)

lemma parse_text_line:
  assumes "good_line l"
  shows "parse_text (show_line l) = (case l of Comment c \<Rightarrow> (BLANK, None) | Param p \<Rightarrow> (OK, Some p))"
proof (cases l)
  case (Comment c)
  then show ?thesis by (simp add: parse_text_def is_white_def)
next
  case (Param p)
  obtain k r where p: "p = \<lparr>key = k, param_value = r\<rparr>" by (cases p) auto
  let ?v = "case r of None \<Rightarrow> [] | Some v \<Rightarrow> v"
  have k: "k \<noteq> []" "list_all lhs_char k" "hd k \<noteq> CHR ''#''" using assms Param p by auto
  have d: "dropWhile is_white (k @ x) = k @ x" "takeWhile is_lhs (k @ CHR '' '' # x) = k" "dropWhile is_lhs (k @ CHR '' '' # x) = CHR '' '' # x" for x
    using k(1,2) by (auto simp: list_all_iff lhs_char_def is_lhs_def is_white_def dropWhile_append takeWhile_append neq_Nil_conv)
  have v: "dropWhile is_white (CHR '' '' # ?v @ [CHR 0x0A]) = (if r = None then [] else ?v @ [CHR 0x0A])"
    using assms Param p by (auto simp: is_white_def neq_Nil_conv split: option.splits)
  show ?thesis using k v Param p by (auto simp: parse_text_def Let_def d is_lhs_def neq_Nil_conv split: option.splits)
qed

lemma ParseLine_show:
  assumes "good_line l"
  shows "ParseLine \<lparr>unread = show_line l @ s, ioerror = e\<rparr>
    = (case l of Comment c \<Rightarrow> BLANK | Param p \<Rightarrow> OK, case l of Comment c \<Rightarrow> None | Param p \<Rightarrow> Some p, \<lparr>unread = s, ioerror = e\<rparr>)"
proof -
  obtain b where b: "show_line l = b @ [CHR 0x0A]" "list_all value_char b" "length b < 1023"
    using show_line_split [OF assms] by blast
  have "line_of 1023 (show_line l @ s) = show_line l"
    using b line_of_newline [of b 1023 s] by (simp add: list_all_iff value_char_def)
  moreover have "c_string (show_line l) = show_line l"
    using b by (auto simp: c_string_def takeWhile_eq_all_conv list_all_iff value_char_def)
  moreover have "show_line l \<noteq> []" using b(1) by simp
  ultimately show ?thesis
    by (simp add: ParseLine_def fgets_def Let_def parse_text_line [OF assms] del: show_line.simps split: CfgLine.split)
qed

lemma parse_loop_show:
  "cfg_wf cfg \<Longrightarrow> list_all good_line ls \<Longrightarrow>
   \<exists>cfg'. parse_loop \<lparr>unread = concat (map show_line ls), ioerror = False\<rparr> lnum cfg = Some (Inr cfg') \<and> cfg_wf cfg' \<and> params cfg' = params cfg @ line_params ls"
proof (induction ls arbitrary: lnum cfg)
  case Nil
  then show ?case by (subst parse_loop.simps) (simp add: ParseLine_def fgets_def)
next
  case (Cons l ls)
  have n: "NumConfigParams cfg < length (ConfigParams cfg)" using Cons.prems by (simp add: cfg_wf_def)
  show ?case
  proof (cases l)
    case (Comment c)
    then show ?thesis using Cons.IH [of cfg "lnum + 1"] Cons.prems
      by (subst parse_loop.simps) (simp add: ParseLine_show del: show_line.simps good_line.simps)
  next
    case (Param p)
    then show ?thesis using Cons.IH [of "add_param p cfg" "lnum + 1"] Cons.prems add_param_wf [OF Cons.prems(1), of p] n
      by (subst parse_loop.simps) (simp add: ParseLine_show del: show_line.simps good_line.simps)
  qed
qed

text \<open>C39: Writing a configuration file and reading it back: from a file of comment lines and \<^verbatim>\<open>key = value\<close> lines (each shorter than the line buffer) the parser recovers exactly the parameters, in order, behind those that were already there.\<close>

lemma ParseConfigFile_roundtrip:
  assumes "cfg_wf cfg" "list_all good_line ls" "fs fname = Some \<lparr>unread = concat (map show_line ls), ioerror = False\<rparr>"
  shows "\<exists>cfg'. ParseConfigFile fs fname cfg = Some (Inr cfg') \<and> cfg_wf cfg' \<and> params cfg' = params cfg @ line_params ls"
  using parse_loop_show [OF assms(1,2), of 0] assms(3) by (simp add: ParseConfigFile_def)

lemma ParseConfigFile_roundtrip_witness:
  "\<exists>cfg'. ParseConfigFile (\<lambda>f. Some \<lparr>unread = concat (map show_line [Comment ''nursery'', Param \<lparr>key = ''nursery'', param_value = Some ''64k''\<rparr>]),
       ioerror = False\<rparr>) ''cfg'' empty_config = Some (Inr cfg')
     \<and> cfg_wf cfg' \<and> params cfg' = params empty_config @ line_params [Comment ''nursery'', Param \<lparr>key = ''nursery'', param_value = Some ''64k''\<rparr>]"
  by (rule ParseConfigFile_roundtrip [OF empty_config_wf(1)]) (simp_all add: lhs_char_def is_lhs_def value_char_def is_white_def)

subsection \<open>Integer parameters\<close>

lemma GetIntConfig_dflt:
  assumes "\<And>i v j. i < NumConfigParams cfg \<Longrightarrow> param_value (the (ConfigParams cfg ! i)) = Some v \<Longrightarrow> j \<le> length v
     \<Longrightarrow> valp i + word_of_nat j \<noteq> keyp"
  shows "fst (GetIntConfig valp keyp k dflt cfg) = dflt"
proof -
  have "i < NumConfigParams cfg" if "FindConfigParam k cfg = Some i" for i
    using that by (auto simp: FindConfigParam_def find_Some_iff)
  then show ?thesis using assms
    by (auto simp: GetIntConfig_def Let_def split: option.splits prod.splits)
qed

end
