(* ===== verification/Heap_Init.thy ===== *)
theory Heap_Init
  imports VProc_State Config_File
begin

text \<open>
  Starting up the heap: \<^verbatim>\<open>HeapInit\<close>, the options for statistics and the summing up of statistics of \<^verbatim>\<open>gc/heap.c\<close>.
  The lemmas compose the configuration file and the options: every configuration yields sane sizes (but always the
  default scale).
\<close>

subsection \<open>Sizes\<close>

definition BASE_GLOBAL_HEAP_SZB :: Addr_t where "BASE_GLOBAL_HEAP_SZB = ONE_K * ONE_MEG"

record HeapParams =
  heapScale :: HeapScale
  BaseHeapSzB :: Addr_t
  PerVprocHeapSzb :: Addr_t

datatype GCDebugLevel = GC_DEBUG_NONE | GC_DEBUG_GLOBAL | GC_DEBUG_MAJOR | GC_DEBUG_MINOR | GC_DEBUG_ALL

definition ParseGCLevel :: "string \<Rightarrow> GCDebugLevel" where
  "ParseGCLevel debug =
     (if strcmp_eq debug ''none'' then GC_DEBUG_NONE
      else if strcmp_eq debug ''minor'' then GC_DEBUG_MINOR
      else if strcmp_eq debug ''major'' then GC_DEBUG_MAJOR
      else if strcmp_eq debug ''global'' then GC_DEBUG_GLOBAL
      else if strcmp_eq debug ''all'' then GC_DEBUG_ALL
      else GC_DEBUG_NONE)"

record GCStatsFlags =
  ReportStatsFlg :: bool
  DetailStatsFlg :: bool
  CSVStatsFlg :: bool
  SMLStatsFlg :: bool

definition ParseGCStatsOptions :: "Options \<Rightarrow> GCStatsFlags \<times> Options" where
  "ParseGCStatsOptions opts =
     (case GetStringEqOpt opts ''-gcstats'' (Some ''summary'') of (report, opts1) \<Rightarrow>
        (case GetStringEqOpt opts1 ''-gcstatsfile'' (Some ''gcstats'') of (outFileOpt, opts2) \<Rightarrow>
           (case report of None \<Rightarrow> (\<lparr>ReportStatsFlg = False, DetailStatsFlg = False, CSVStatsFlg = False, SMLStatsFlg = False\<rparr>, opts2)
            | Some r \<Rightarrow> (\<lparr>ReportStatsFlg = True, DetailStatsFlg = strstr r ''csv'' \<or> strstr r ''sml'' \<or> strstr r ''all'',
                           CSVStatsFlg = strstr r ''csv'', SMLStatsFlg = strstr r ''sml''\<rparr>, opts2))))"

text \<open>
  \<^verbatim>\<open>HeapInit\<close> in a build without debugging. \<open>valp\<close> and \<open>keyp\<close> are the addresses of the configured values and of
  the keys, \<open>os\<close> the memory, descriptors and answers of the system. \<open>None\<close>: the scale is rejected.
\<close>

record OsEnv =
  os_mem :: mem
  os_chunks :: "nat \<Rightarrow> MemChunk"
  os_malloc :: "nat \<Rightarrow> bool"
  os_mmap :: "nat \<Rightarrow> Addr_t \<Rightarrow> MmapResult"
  os_completed :: "int \<Rightarrow> bool"

definition HeapInit :: "(nat \<Rightarrow> Addr_t) \<Rightarrow> (string \<Rightarrow> Addr_t) \<Rightarrow> OsEnv \<Rightarrow> Config \<Rightarrow> Options
    \<Rightarrow> ((Heap \<times> HeapParams \<times> GCStatsFlags) \<times> CfgMsg list \<times> Options) option" where
  "HeapInit valp keyp os cfg opts =
     (let (n0, e1) = GetSizeConfig ''MAX_NURSERY_SZB'' ONE_K (VP_HEAP_SZB div 2) cfg;
          (n1, opts1) = GetSizeOpt opts ''-nursery'' ONE_K n0;
          maxNursery = (if n1 < MIN_NURSERY_SZB then MIN_NURSERY_SZB else n1);
          (t0, e2) = GetSizeConfig ''MAJOR_GC_THRESHOLD'' ONE_K (VP_HEAP_SZB div 10) cfg;
          threshold = (if t0 < MIN_NURSERY_SZB then MIN_NURSERY_SZB else t0);
          (base, e3) = GetSizeConfig ''BASE_GLOBAL_HEAP_SZB'' ONE_MEG BASE_GLOBAL_HEAP_SZB cfg;
          (per, e4) = GetSizeConfig ''PER_VPROC_HEAP_SZB'' ONE_MEG PER_VPROC_HEAP_SZB cfg;
          (num, e5) = GetIntConfig valp (keyp ''GLOBAL_TOSPACE_SCALE_NUMERATOR'') ''GLOBAL_TOSPACE_SCALE_NUMERATOR'' 5 cfg;
          (denom, e6) = GetIntConfig valp (keyp ''GLOBAL_TOSPACE_SCALE_DENOMINATOR'') ''GLOBAL_TOSPACE_SCALE_DENOMINATOR'' 4 cfg;
          scale = \<lparr>HeapScaleNum = word_of_int num, HeapScaleDenom = word_of_int denom\<rparr>
      in if HeapScaleNum scale < HeapScaleDenom scale then None
         else let (stats, opts2) = ParseGCStatsOptions opts1
              in Some ((InitHeapState (os_mem os) (os_chunks os) (os_malloc os) (os_mmap os) (os_completed os) maxNursery threshold base,
                        \<lparr>heapScale = scale, BaseHeapSzB = base, PerVprocHeapSzb = per\<rparr>, stats),
                       e1 @ e2 @ e3 @ e4 @ e5 @ e6, opts2))"

subsection \<open>Statistics\<close>

record GCSummary =
  nPromotes_tot :: "32 word"
  nMinorGCs_tot :: "32 word"
  nMajorGCs_tot :: "32 word"
  totMinor :: GCCntrs
  totMajor :: GCCntrs
  totGlobal :: GCCntrs
  nBytesPromoted_tot :: "64 word"

definition add_cntrs :: "GCCntrs \<Rightarrow> GCCntrs \<Rightarrow> GCCntrs" where
  "add_cntrs t c = \<lparr>nBytesAlloc = nBytesAlloc t + nBytesAlloc c, nBytesCollected = nBytesCollected t + nBytesCollected c,
     nBytesCopied = nBytesCopied t + nBytesCopied c\<rparr>"

text \<open>The first loop of \<^verbatim>\<open>ReportGCStats\<close>: it also charges what was allocated since the last minor collection.\<close>

definition charge_nursery :: "VProc \<Rightarrow> VProc" where
  "charge_nursery vp = vp\<lparr>minorStats := (minorStats vp)\<lparr>nBytesAlloc := nBytesAlloc (minorStats vp) + (allocPtr vp - nurseryBase vp - WORD_SZB)\<rparr>\<rparr>"

definition add_vproc :: "VProc \<Rightarrow> GCSummary \<Rightarrow> GCSummary" where
  "add_vproc vp s = s\<lparr>nPromotes_tot := nPromotes_tot s + nPromotes vp, nMinorGCs_tot := nMinorGCs_tot s + nMinorGCs vp,
     nMajorGCs_tot := nMajorGCs_tot s + nMajorGCs vp, totMinor := add_cntrs (totMinor s) (minorStats vp),
     totMajor := add_cntrs (totMajor s) (majorStats vp), totGlobal := add_cntrs (totGlobal s) (globalStats vp),
     nBytesPromoted_tot := nBytesPromoted_tot s + nBytesPromoted vp\<rparr>"

definition gc_summary :: "VProc list \<Rightarrow> GCSummary \<times> VProc list" where
  "gc_summary vps = (let vps' = map charge_nursery vps
     in (fold add_vproc vps' \<lparr>nPromotes_tot = 0, nMinorGCs_tot = 0, nMajorGCs_tot = 0, totMinor = zero_cntrs, totMajor = zero_cntrs,
           totGlobal = zero_cntrs, nBytesPromoted_tot = 0\<rparr>, vps'))"

definition pad_left :: "nat \<Rightarrow> string \<Rightarrow> string" where
  "pad_left wid s = replicate (wid - length s) CHR '' '' @ s"

definition PrintNum :: "nat \<Rightarrow> Addr_t \<Rightarrow> string" where
  "PrintNum wid nbytes =
     (if nbytes < 64 * ONE_K then '' '' @ pad_left wid (show_int (sint (ucast nbytes :: 32 word)))
      else if nbytes < 64 * ONE_MEG then '' '' @ pad_left (wid - 1) (show_int (sint (ucast (drop_bit 10 nbytes) :: 32 word))) @ ''k''
      else '' '' @ pad_left (wid - 1) (show_int (sint (ucast (drop_bit 20 nbytes) :: 32 word))) @ ''M'')"

subsection \<open>The state HeapInit leaves\<close>

text \<open>As long as no key lies inside the text of a configured value, \<^verbatim>\<open>HeapInit\<close> accepts every configuration and command line: nursery and threshold are at least the minimum, the page table is empty and well-formed, the limit of to-space is the base size; and, because integer parameters are never read, the scale is always 5/4 whatever the file says.\<close>

lemma HeapInit_total:
  assumes "\<And>i v j k. i < NumConfigParams cfg \<Longrightarrow> param_value (the (ConfigParams cfg ! i)) = Some v \<Longrightarrow> j \<le> length v
     \<Longrightarrow> valp i + word_of_nat j \<noteq> keyp k"
  shows "\<exists>h ps st msgs opts'. HeapInit valp keyp os cfg opts = Some ((h, ps, st), msgs, opts')
    \<and> MIN_NURSERY_SZB \<le> MaxNurserySzB h \<and> MIN_NURSERY_SZB \<le> MajorGCThreshold h
    \<and> heapScale ps = \<lparr>HeapScaleNum = 5, HeapScaleDenom = 4\<rparr>
    \<and> bibop_wf h \<and> (\<forall>a. AddrToChunk h a = None) \<and> ToSpaceLimit h = BaseHeapSzB ps"
proof -
  have d: "fst (GetIntConfig valp (keyp k) k dflt cfg) = dflt" for k dflt
    using assms by (rule GetIntConfig_dflt)
  obtain e5 e6 where g: "GetIntConfig valp (keyp ''GLOBAL_TOSPACE_SCALE_NUMERATOR'') ''GLOBAL_TOSPACE_SCALE_NUMERATOR'' 5 cfg = (5, e5)"
    "GetIntConfig valp (keyp ''GLOBAL_TOSPACE_SCALE_DENOMINATOR'') ''GLOBAL_TOSPACE_SCALE_DENOMINATOR'' 4 cfg = (4, e6)"
    using d by (metis prod.collapse)
  have a: "AddrToChunk (InitHeapState m junk mOK ans cmpl mn mj bh) a = None" for m junk mOK ans cmpl mn mj bh a
    by (simp add: AddrToChunk_def InitHeapState_def)
  show ?thesis
    unfolding HeapInit_def g
    by (simp add: case_prod_unfold Let_def a, simp add: InitHeapState_def not_less)
qed

subsection \<open>A statistics option that hides another\<close>

text \<open>\<^verbatim>\<open>-gcstats\<close> is a prefix of \<^verbatim>\<open>-gcstatsfile\<close>: when both are given in this order, the first is swallowed, the second is skipped, and no statistics are reported.\<close>

lemma gcstats_hidden:
  assumes "opts_wf opts" "args opts = [''-gcstatsfile'' @ f, ''-gcstats'']"
  shows "\<not> ReportStatsFlg (fst (ParseGCStatsOptions opts)) \<and> args (snd (ParseGCStatsOptions opts)) = [''-gcstats'']"
proof -
  have a: "args opts = [''-gcstats'' @ CHR ''f'' # ''ile'' @ f, ''-gcstats'']" using assms(2) by simp
  obtain opts1 where 1: "GetStringEqOpt opts ''-gcstats'' (Some ''summary'') = (None, opts1)" "args opts1 = [''-gcstats'']" "opts_wf opts1"
    using GetStringEqOpt_swallows [OF assms(1) a, of "Some ''summary''"] by (cases "GetStringEqOpt opts ''-gcstats'' (Some ''summary'')") auto
  have "argc opts1 = 1" "argv opts1 ! 0 = ''-gcstats''"
    using 1(2,3) by (auto simp: args_def opts_wf_def) (metis One_nat_def length_Cons length_take list.size(3) min_absorb2, metis nth_take nth_Cons_0 zero_less_one One_nat_def length_Cons length_take list.size(3) min_absorb2)
  then have "GetStringEqOpt opts1 ''-gcstatsfile'' (Some ''gcstats'') = (None, opts1)"
    unfolding GetStringEqOpt_def by (subst eq_loop.simps, simp add: strncmp_eq_def) (subst eq_loop.simps, simp)
  then show ?thesis using 1 by (simp add: ParseGCStatsOptions_def)
qed

lemma HeapInit_total_witness:
  "\<exists>h ps st msgs opts'. HeapInit (\<lambda>_. 0x1000) (\<lambda>_. 0x2000) \<lparr>os_mem = (\<lambda>_. 0), os_chunks = ex_chunk, os_malloc = (\<lambda>_. True),
       os_mmap = (\<lambda>_ _. MapFailed True), os_completed = (\<lambda>_. False)\<rparr>
       (add_param \<lparr>key = ''GLOBAL_TOSPACE_SCALE_NUMERATOR'', param_value = Some ''9''\<rparr> empty_config) (InitOptions [''prog'']) = Some ((h, ps, st), msgs, opts')
    \<and> heapScale ps = \<lparr>HeapScaleNum = 5, HeapScaleDenom = 4\<rparr>"
proof -
  let ?os = "\<lparr>os_mem = (\<lambda>_. 0), os_chunks = ex_chunk, os_malloc = (\<lambda>_. True), os_mmap = (\<lambda>_ _. MapFailed True), os_completed = (\<lambda>_. False)\<rparr>"
  let ?cfg = "add_param \<lparr>key = ''GLOBAL_TOSPACE_SCALE_NUMERATOR'', param_value = Some ''9''\<rparr> empty_config"
  have "(0x1000 :: Addr_t) + word_of_nat j \<noteq> 0x2000"
    if "i < NumConfigParams ?cfg" "param_value (the (ConfigParams ?cfg ! i)) = Some v" "j \<le> length v" for i v j
  proof -
    have "j \<le> 1" using that by (auto simp: add_param_def empty_config_def)
    then consider "j = 0" | "j = 1" by linarith
    then show ?thesis by cases simp_all
  qed
  then have "\<exists>h ps st msgs opts'. HeapInit (\<lambda>_. 0x1000) (\<lambda>_. 0x2000) ?os ?cfg (InitOptions [''prog'']) = Some ((h, ps, st), msgs, opts')
    \<and> MIN_NURSERY_SZB \<le> MaxNurserySzB h \<and> MIN_NURSERY_SZB \<le> MajorGCThreshold h
    \<and> heapScale ps = \<lparr>HeapScaleNum = 5, HeapScaleDenom = 4\<rparr>
    \<and> bibop_wf h \<and> (\<forall>a. AddrToChunk h a = None) \<and> ToSpaceLimit h = BaseHeapSzB ps"
    by (rule HeapInit_total)
  then show ?thesis by blast
qed

lemma gcstats_hidden_witness:
  "\<not> ReportStatsFlg (fst (ParseGCStatsOptions (InitOptions [''prog'', ''-gcstatsfile=out'', ''-gcstats''])))
    \<and> args (snd (ParseGCStatsOptions (InitOptions [''prog'', ''-gcstatsfile=out'', ''-gcstats'']))) = [''-gcstats'']"
  by (rule gcstats_hidden [where f = "''=out''"]) (simp_all add: InitOptions_def opts_wf_def args_def)

end
