(* ===== verification/Crc_Check.thy ===== *)
theory Crc_Check
  imports Rts_Prelude
begin

text \<open>
  The checksum of \<^verbatim>\<open>config/crc.c\<close> and \<^verbatim>\<open>config/crc.h\<close>: the generators of the offset files record the name and the
  low 32 bits of every structure offset and take its checksum as the magic number that the compiler and the runtime
  compare. The lemmas show that the table-driven code computes the bit-serial checksum, and that two lists of
  offsets that differ in one value have different magic numbers.
\<close>


definition POLYNOMIAL :: "32 word" where "POLYNOMIAL = 0xedb88320"

text \<open>The table is filled by doubling: the inner loop runs over the multiples of \<open>2 * i\<close>; it is entered with \<open>i > 0\<close> only.\<close>

function fill_row :: "nat \<Rightarrow> 32 word \<Rightarrow> nat \<Rightarrow> 32 word list \<Rightarrow> 32 word list" where
  "fill_row i h j Tbl = (if i = 0 \<or> 256 \<le> j then Tbl else fill_row i h (j + 2 * i) (Tbl[i + j := Tbl ! j XOR h]))"
  by pat_completeness auto
termination by (relation "measure (\<lambda>(i, h, j, Tbl). 256 - j)") auto

declare fill_row.simps [simp del]

definition next_h :: "32 word \<Rightarrow> 32 word" where
  "next_h h = drop_bit 1 h XOR (if h AND 1 \<noteq> 0 then POLYNOMIAL else 0)"

function fill_table :: "nat \<Rightarrow> 32 word \<Rightarrow> 32 word list \<Rightarrow> 32 word list" where
  "fill_table i h Tbl = (if i = 0 then Tbl else let h' = next_h h in fill_table (i div 2) h' (fill_row i h' 0 Tbl))"
  by pat_completeness auto
termination by (relation "measure (\<lambda>(i, h, Tbl). i)") auto

declare fill_table.simps [simp del]

fun crc_loop :: "32 word list \<Rightarrow> 32 word \<Rightarrow> 8 word list \<Rightarrow> 32 word" where
  "crc_loop Tbl crc [] = crc"
| "crc_loop Tbl crc (b # buf) = crc_loop Tbl (drop_bit 8 crc XOR Tbl ! unat ((crc XOR ucast b) AND 0xff)) buf"

definition Compute :: "32 word list \<Rightarrow> 32 word \<Rightarrow> 8 word list \<Rightarrow> 32 word" where
  "Compute Tbl crc buf = crc_loop Tbl (crc XOR 0xffffffff) buf XOR 0xffffffff"

definition CRC32 :: "8 word list \<Rightarrow> 32 word" where
  "CRC32 buf = (let Tbl = fill_table 128 1 ((replicate 256 0)[0 := 0]);
                    crc = Compute Tbl 0 []
                in Compute Tbl crc buf)"

text \<open>\<^verbatim>\<open>AddCRCData\<close> appends a label and the low 32 bits of its value, high byte first.\<close>

definition AddCRCData :: "8 word list \<Rightarrow> string \<Rightarrow> 64 word \<Rightarrow> 8 word list" where
  "AddCRCData buf lab offset = buf @ map of_char lab
     @ [ucast (drop_bit 24 offset AND 0xff), ucast (drop_bit 16 offset AND 0xff), ucast (drop_bit 8 offset AND 0xff), ucast (offset AND 0xff)]"

fun crc_data :: "8 word list \<Rightarrow> (string \<times> 64 word) list \<Rightarrow> 8 word list" where
  "crc_data buf [] = buf"
| "crc_data buf ((lab, offset) # es) = crc_data (AddCRCData buf lab offset) es"

definition RUNTIME_MAGIC :: "(string \<times> 64 word) list \<Rightarrow> 32 word" where
  "RUNTIME_MAGIC es = CRC32 (crc_data [] es)"

subsection \<open>The reference: one message bit at a time\<close>

definition crc_bit :: "32 word \<Rightarrow> bool \<Rightarrow> 32 word" where
  "crc_bit reg m = (if bit reg 0 \<noteq> m then drop_bit 1 reg XOR 0xedb88320 else drop_bit 1 reg)"

definition message_bits :: "8 word list \<Rightarrow> bool list" where
  "message_bits buf = concat (map (\<lambda>b. map (bit b) [0..<8]) buf)"

definition crc_spec :: "8 word list \<Rightarrow> 32 word" where
  "crc_spec buf = NOT (foldl crc_bit (- 1) (message_bits buf))"

text \<open>The same, a byte at a time.\<close>

definition crc_byte :: "32 word \<Rightarrow> 8 word \<Rightarrow> 32 word" where
  "crc_byte crc b = (next_h ^^ 8) (crc XOR ucast b)"

lemma and_1_bit: "w AND 1 = 0 \<longleftrightarrow> \<not> bit w 0" for w :: "32 word"
  by (simp add: and_one_eq even_iff_mod_2_eq_zero [symmetric] bit_0)

lemma next_h_bit: "next_h h = drop_bit 1 h XOR (if bit h 0 then POLYNOMIAL else 0)"
  by (simp add: next_h_def and_1_bit)

lemma next_h_xor: "next_h (x XOR y) = next_h x XOR next_h y"
proof (cases "bit x 0"; cases "bit y 0")
qed (simp_all add: next_h_bit bit_xor_iff drop_bit_xor xor.left_commute xor.commute xor.assoc)

lemma next_h_0: "next_h 0 = 0" by (simp add: next_h_def)

lemma next_h_top: "bit (next_h x) 31 \<longleftrightarrow> bit x 0"
proof -
  have "\<not> bit x 32" using bit_imp_le_length [of x 32] by auto
  then have "\<not> bit (drop_bit 1 x) 31" by (simp add: bit_drop_bit_eq)
  moreover have "bit POLYNOMIAL 31" by (simp add: POLYNOMIAL_def)
  ultimately show ?thesis by (simp add: next_h_bit bit_xor_iff)
qed

lemma next_h_zero: "next_h x = 0 \<longleftrightarrow> x = 0"
proof
  assume a: "next_h x = 0"
  then have b: "\<not> bit x 0" using next_h_top [of x] by simp
  then have d: "drop_bit 1 x = 0" using a by (simp add: next_h_bit)
  show "x = 0"
  proof (rule bit_word_eqI)
    fix n
    have "bit (drop_bit 1 x) m = bit (0 :: 32 word) m" for m by (simp only: d)
    then show "bit x n = bit 0 n" using b by (cases n) (auto simp: bit_drop_bit_eq)
  qed
qed (simp add: next_h_0)

lemma next_pow_xor: "(next_h ^^ n) (x XOR y) = (next_h ^^ n) x XOR (next_h ^^ n) y"
  by (induction n) (simp_all add: next_h_xor)

lemma next_pow_zero: "(next_h ^^ n) x = 0 \<longleftrightarrow> x = 0"
  by (induction n) (simp_all add: next_h_zero)

lemma xor_zero_iff: "x XOR y = 0 \<longleftrightarrow> x = y" for x y :: "'a::len word"
proof
  assume "x XOR y = 0"
  then have "x XOR (x XOR y) = x" by simp
  then show "x = y" by (simp add: xor.assoc [symmetric])
qed simp

lemma next_pow_inj: "(next_h ^^ n) x = (next_h ^^ n) y \<longleftrightarrow> x = y"
  using next_pow_zero [of n "x XOR y"] by (simp add: next_pow_xor xor_zero_iff)

lemma next_pow_shift: "take_bit n x = 0 \<Longrightarrow> (next_h ^^ n) x = drop_bit n x"
proof (induction n)
  case (Suc n)
  have b: "\<not> bit x k" if "k \<le> n" for k
  proof -
    have "bit (take_bit (Suc n) x) k = False" using Suc.prems by simp
    then show ?thesis using that by (simp add: bit_take_bit_iff)
  qed
  have 1: "take_bit n x = 0" by (rule bit_word_eqI) (use b in \<open>auto simp: bit_take_bit_iff\<close>)
  have "\<not> bit (drop_bit n x) 0" using b by (simp add: bit_drop_bit_eq)
  then show ?case using Suc.IH [OF 1] by (simp add: next_h_bit)
qed simp

lemma crc_bit_next: "crc_bit c m = next_h (c XOR of_bool m)"
proof -
  have "drop_bit 1 (of_bool m :: 32 word) = 0" by (cases m) simp_all
  then have "drop_bit 1 (c XOR of_bool m) = drop_bit 1 c" by (simp add: drop_bit_xor)
  moreover have "bit (c XOR of_bool m) 0 \<longleftrightarrow> bit c 0 \<noteq> m"
    by (cases m) (simp_all add: bit_xor_iff bit_1_iff)
  ultimately show ?thesis by (simp add: crc_bit_def next_h_bit POLYNOMIAL_def)
qed

lemma crc_bits:
  "n \<le> 8 \<Longrightarrow> foldl crc_bit c (map (bit b) [0..<n]) = (next_h ^^ n) (c XOR take_bit n (ucast b))" for b :: "8 word"
proof (induction n)
  case (Suc n)
  let ?b = "push_bit n (of_bool (bit b n)) :: 32 word"
  have t: "take_bit n ?b = 0" by (simp add: take_bit_push_bit)
  have d: "drop_bit n ?b = of_bool (bit b n)"
    by (rule bit_word_eqI) (use Suc.prems in \<open>auto simp: bit_drop_bit_eq bit_push_bit_iff bit_of_bool_iff\<close>)
  have s: "take_bit (Suc n) (ucast b) = take_bit n (ucast b) XOR ?b"
    by (rule bit_word_eqI) (use Suc.prems in \<open>auto simp: bit_take_bit_iff bit_xor_iff bit_push_bit_iff bit_of_bool_iff bit_ucast_iff less_Suc_eq\<close>)
  have "foldl crc_bit c (map (bit b) [0..<Suc n]) = next_h ((next_h ^^ n) (c XOR take_bit n (ucast b)) XOR of_bool (bit b n))"
    using Suc by (simp add: crc_bit_next [of "(next_h ^^ n) (c XOR take_bit n (ucast b))"])
  also have "\<dots> = next_h ((next_h ^^ n) (c XOR take_bit n (ucast b) XOR ?b))"
    by (simp only: next_pow_xor next_pow_shift [OF t] d xor.assoc)
  also have "\<dots> = (next_h ^^ Suc n) (c XOR take_bit (Suc n) (ucast b))"
    by (simp only: s xor.assoc funpow.simps comp_def)
  finally show ?case .
qed simp

lemma crc_byte_bits: "foldl crc_bit c (map (bit b) [0..<8]) = crc_byte c b"
proof -
  have "take_bit 8 (ucast b :: 32 word) = ucast b"
    by (rule bit_word_eqI) (auto simp: bit_take_bit_iff bit_ucast_iff dest: bit_imp_le_length)
  then show ?thesis by (simp only: crc_bits order_refl crc_byte_def)
qed

lemma crc_spec_bytes: "crc_spec buf = NOT (foldl crc_byte (- 1) buf)"
proof -
  have "foldl crc_bit c (message_bits buf) = foldl crc_byte c buf" for c
    by (induction buf arbitrary: c) (simp_all add: message_bits_def crc_byte_bits del: upt_conv_Cons upt_rec_numeral)
  then show ?thesis by (simp add: crc_spec_def)
qed

subsection \<open>The table\<close>

definition table_entry :: "nat \<Rightarrow> 32 word" where "table_entry k = (next_h ^^ 8) (word_of_nat k)"


lemma word_disjoint: "x AND y = 0 \<Longrightarrow> x + y = x XOR y" for x y :: "32 word"
  by (metis disjunctive_add_eq_xor)



lemma pow_disjoint: "m < q \<Longrightarrow> 2 ^ q dvd j \<Longrightarrow> 2 ^ m AND word_of_nat j = (0 :: 32 word)"
proof -
  assume m: "m < q" and "2 ^ q dvd j"
  then obtain k where "j = 2 ^ q * k" by (elim dvdE)
  then have "word_of_nat j = (push_bit q (word_of_nat k) :: 32 word)" by (simp add: push_bit_eq_mult mult.commute)
  then show ?thesis using m by (intro bit_word_eqI) (auto simp: bit_and_iff bit_push_bit_iff bit_exp_iff)
qed

lemma table_entry_add: "2 ^ Suc m dvd j \<Longrightarrow> table_entry (2 ^ m + j) = table_entry (2 ^ m) XOR table_entry j"
  using word_disjoint [OF pow_disjoint [of m "Suc m" j]] by (simp add: table_entry_def next_pow_xor)

lemma table_entry_half: "m < 31 \<Longrightarrow> table_entry (2 ^ m) = next_h (table_entry (2 ^ Suc m))"
proof -
  assume m: "m < 31"
  have e: "bit (2 ^ Suc m :: 32 word) n \<longleftrightarrow> n < 32 \<and> n = Suc m" for n by (auto simp only: bit_exp_iff) auto
  have "next_h (2 ^ Suc m) = 2 ^ m"
    by (rule bit_word_eqI) (use m in \<open>auto simp del: power_Suc simp: next_h_bit e bit_drop_bit_eq bit_exp_iff\<close>)
  then show ?thesis by (simp add: table_entry_def funpow_swap1 [of next_h])
qed

lemma fill_row_ok:
  assumes "i = 2 ^ m" "m < 8" "length Tbl = 256" "2 * i dvd j"
    and "\<And>k. 2 * i dvd k \<Longrightarrow> k < 256 \<Longrightarrow> Tbl ! k = table_entry k"
    and "\<And>k. i dvd k \<Longrightarrow> k < j \<Longrightarrow> k < 256 \<Longrightarrow> Tbl ! k = table_entry k"
  shows "length (fill_row i (table_entry i) j Tbl) = 256
    \<and> (\<forall>k<256. i dvd k \<longrightarrow> fill_row i (table_entry i) j Tbl ! k = table_entry k)"
  using assms
proof (induction i "table_entry i" j Tbl rule: fill_row.induct)
  case (1 i j Tbl)
  show ?case
  proof (cases "256 \<le> j")
    case True then show ?thesis using "1.prems" by (subst (1 2) fill_row.simps) auto
  next
    case False
    let ?T = "Tbl[i + j := Tbl ! j XOR table_entry i]"
    have i0: "0 < i" using "1.prems"(1) by simp
    have "i dvd 2 ^ 7" unfolding "1.prems"(1) by (rule le_imp_power_dvd) (use "1.prems"(2) in simp)
    then obtain b where "2 ^ 7 = i * b" by (elim dvdE)
    then have b: "256 = 2 * i * b" by (simp add: mult.commute)
    obtain a where a: "j = 2 * i * a" using "1.prems"(4) by (elim dvdE)
    have "a < b" using False b i0 by (simp add: a) 
    then have "Suc a \<le> b" by simp
    then have "2 * i * Suc a \<le> 2 * i * b" by (rule mult_le_mono2)
    then have "2 * i * Suc a \<le> 256" unfolding b .
    then have ij: "i + j < 256" using a i0 by simp
    have nd: "\<not> 2 * i dvd i + j"
    proof
      assume "2 * i dvd i + j"
      then have "2 * i dvd i" using "1.prems"(4) dvd_add_left_iff by blast
      then show False using i0 by (auto dest: dvd_imp_le)
    qed
    have new: "?T ! (i + j) = table_entry (i + j)"
      using table_entry_add [of m j] "1.prems"(1,3,4) "1.prems"(5) [of j] False ij by (simp add: xor.commute)
    have old: "?T ! k = Tbl ! k" if "k \<noteq> i + j" for k using that by simp
    have "length (fill_row i (table_entry i) (j + 2 * i) ?T) = 256
      \<and> (\<forall>k<256. i dvd k \<longrightarrow> fill_row i (table_entry i) (j + 2 * i) ?T ! k = table_entry k)"
    proof (rule "1.hyps")
      show "\<not> (i = 0 \<or> 256 \<le> j)" using i0 False by simp
      show "2 * i dvd j + 2 * i" using "1.prems"(4) by simp
      show "?T ! k = table_entry k" if "2 * i dvd k" "k < 256" for k
        using "1.prems"(5) [OF that] old [of k] nd that(1) by (cases "k = i + j") auto
      show "?T ! k = table_entry k" if k: "i dvd k" "k < j + 2 * i" "k < 256" for k
      proof -
        obtain c where c: "k = i * c" using k(1) by (elim dvdE)
        have "i * c < i * (2 * a + 2)" using k(2) a c by (simp add: algebra_simps)
        then have "c < 2 * a + 2" using i0 by (simp only: mult_less_cancel1)
        then consider "c < 2 * a" | "c = 2 * a" | "c = 2 * a + 1" by linarith
        then show ?thesis
        proof cases
          case 1 then have "k < j" using a c i0 by simp
          then show ?thesis using "1.prems"(6) [OF k(1) _ k(3)] old [of k] by simp
        next
          case 2 then have "k = j" using a c by simp
          then show ?thesis using "1.prems"(5) [of j] "1.prems"(4) old [of j] i0 k(3) by simp
        next
          case 3 then have "k = i + j" using a c by (simp add: algebra_simps)
          then show ?thesis using new by simp
        qed
      qed
    qed (use "1.prems" in simp_all)
    then show ?thesis using i0 False by (subst (1 2) fill_row.simps) simp
  qed
qed

lemma fill_table_ok:
  assumes "m \<le> 7" "length Tbl = 256" "\<And>k. 2 ^ Suc m dvd k \<Longrightarrow> k < 256 \<Longrightarrow> Tbl ! k = table_entry k"
  shows "fill_table (2 ^ m) (table_entry (2 ^ Suc m)) Tbl = map table_entry [0..<256]"
  using assms
proof (induction m arbitrary: Tbl)
  case 0
  let ?T = "fill_row 1 (table_entry 1) 0 Tbl"
  have "length ?T = 256 \<and> (\<forall>k<256. 1 dvd k \<longrightarrow> ?T ! k = table_entry k)"
    by (rule fill_row_ok [where m = 0]) (use 0 in auto)
  then have "?T = map table_entry [0..<256]" by (intro nth_equalityI) auto
  then show ?case using table_entry_half [of 0]
    by (subst fill_table.simps, subst fill_table.simps) (simp add: Let_def)
next
  case (Suc m)
  let ?T = "fill_row (2 ^ Suc m) (table_entry (2 ^ Suc m)) 0 Tbl"
  have "length ?T = 256 \<and> (\<forall>k<256. 2 ^ Suc m dvd k \<longrightarrow> ?T ! k = table_entry k)"
    by (rule fill_row_ok [where m = "Suc m"]) (use Suc.prems in auto)
  then have "fill_table (2 ^ m) (table_entry (2 ^ Suc m)) ?T = map table_entry [0..<256]"
    using Suc.prems(1) by (intro Suc.IH) auto
  then show ?case using table_entry_half [of "Suc m"] Suc.prems(1)
    by (subst fill_table.simps) (simp add: Let_def)
qed

lemma table_ok: "fill_table 128 1 (replicate 256 0) = map table_entry [0..<256]"
proof -
  have "table_entry (2 ^ Suc 7) = 1" using next_pow_shift [of 8 256] by (simp add: table_entry_def)
  moreover have "fill_table (2 ^ 7) (table_entry (2 ^ Suc 7)) (replicate 256 0) = map table_entry [0..<256]"
  proof (rule fill_table_ok)
    fix k :: nat assume "2 ^ Suc 7 dvd k" "k < 256"
    then have "k = 0" by (auto dest!: dvd_imp_le)
    then show "replicate 256 0 ! k = table_entry k" by (simp add: table_entry_def next_pow_zero)
  qed simp_all
  ultimately show ?thesis by simp
qed


subsection \<open>The loop\<close>

lemma low_high: "c = (c AND NOT m) XOR (c AND m)" for c m :: "32 word"
  by (rule bit_word_eqI) (auto simp: bit_xor_iff bit_and_iff bit_not_iff)

lemma crc_step: "drop_bit 8 c XOR table_entry (unat (c AND 0xff)) = (next_h ^^ 8) c"
proof -
  have ff: "(0xff :: 32 word) = mask 8" by (simp add: mask_eq_exp_minus_1)
  have t: "take_bit 8 (c AND NOT (mask 8)) = 0"
    by (rule bit_word_eqI) (auto simp: bit_take_bit_iff bit_and_iff bit_not_iff bit_mask_iff)
  have d: "drop_bit 8 (c AND NOT (mask 8)) = drop_bit 8 c"
    by (rule bit_word_eqI) (auto simp: bit_drop_bit_eq bit_and_iff bit_not_iff bit_mask_iff dest: bit_imp_le_length)
  have "(next_h ^^ 8) c = (next_h ^^ 8) (c AND NOT (mask 8)) XOR (next_h ^^ 8) (c AND mask 8)"
    using low_high [of c "mask 8"] by (metis next_pow_xor)
  then show ?thesis by (simp only: ff next_pow_shift [OF t] d table_entry_def of_nat_unat ucast_id)
qed

lemma crc_loop_spec:
  "crc_loop (map table_entry [0..<256]) c buf = foldl crc_byte c buf"
proof (induction buf arbitrary: c)
  case (Cons b buf)
  have "unat (x AND 0xff) < 256" for x :: "32 word"
    using word_and_le1 [of x "0xff"] by (simp add: word_le_nat_alt)
  moreover have "drop_bit 8 c = drop_bit 8 (c XOR ucast b)"
  proof -
    have "drop_bit 8 (ucast b :: 32 word) = 0"
      by (rule bit_word_eqI) (auto simp: bit_drop_bit_eq bit_ucast_iff dest: bit_imp_le_length)
    then show ?thesis by (simp add: drop_bit_xor)
  qed
  ultimately show ?case using crc_step [of "c XOR ucast b"] Cons by (simp add: crc_byte_def)
qed simp

lemma CRC32_bitwise: "CRC32 buf = NOT (foldl crc_byte (- 1) buf)"
proof -
  have z: "(replicate 256 0)[0 := 0] = replicate 256 (0 :: 32 word)" by (rule nth_equalityI) (auto simp: nth_list_update)
  have m: "(0xffffffff :: 32 word) = - 1" by simp
  have x: "w XOR 0xffffffff = NOT w" for w :: "32 word"
    unfolding m by (rule bit_word_eqI) (simp add: bit_xor_iff bit_not_iff)
  show ?thesis by (simp add: CRC32_def Compute_def Let_def table_ok z crc_loop_spec x)
qed

subsection \<open>What a checksum detects\<close>

lemma xor_right_inj: "x XOR z = y XOR z \<longleftrightarrow> x = y" for x y z :: "'a::len word"
  by (metis xor.assoc xor.right_neutral xor_self_eq)

lemma xor_left_inj: "z XOR x = z XOR y \<longleftrightarrow> x = y" for x y z :: "'a::len word"
  using xor_right_inj [of x z y] by (simp add: xor.commute)

lemma crc_byte_inj: "crc_byte c b = crc_byte c' b \<longleftrightarrow> c = c'"
  by (simp add: crc_byte_def next_pow_inj xor_right_inj)

lemma crc_bytes_inj: "foldl crc_byte c bs = foldl crc_byte c' bs \<longleftrightarrow> c = c'"
  by (induction bs arbitrary: c c') (simp_all add: crc_byte_inj)

primrec le_word :: "8 word list \<Rightarrow> 32 word" where
  "le_word [] = 0"
| "le_word (b # bs) = ucast b XOR push_bit 8 (le_word bs)"

lemma le_word_bit:
  "length bs \<le> 4 \<Longrightarrow> bit (le_word bs) n \<longleftrightarrow> n div 8 < length bs \<and> bit (bs ! (n div 8)) (n mod 8)"
proof (induction bs arbitrary: n)
  case (Cons b bs)
  show ?case
  proof (cases "n < 8")
    case True then show ?thesis by (auto simp: bit_xor_iff bit_push_bit_iff bit_ucast_iff)
  next
    case False
    then have "n div 8 = Suc ((n - 8) div 8)" "n mod 8 = (n - 8) mod 8" by (auto simp: le_div_geq le_mod_geq)
    moreover have "\<not> bit b n" using False by (auto dest: bit_imp_le_length)
    moreover have "bit (le_word bs) (n - 8) \<Longrightarrow> n < 32" using Cons False by auto
    ultimately show ?thesis using Cons False by (auto simp: bit_xor_iff bit_push_bit_iff bit_ucast_iff)
  qed
qed simp

lemma le_word_inj:
  assumes "length as = length bs" "length bs \<le> 4" "le_word as = le_word bs"
  shows "as = bs"
proof (rule nth_equalityI [OF assms(1)])
  fix k assume k: "k < length as"
  show "as ! k = bs ! k"
  proof (rule bit_word_eqI)
    fix n :: nat assume "n < LENGTH(8)"
    then have "(8 * k + n) div 8 = k" "(8 * k + n) mod 8 = n" by auto
    then show "bit (as ! k) n = bit (bs ! k) n"
      using le_word_bit [of as "8 * k + n"] le_word_bit [of bs "8 * k + n"] k assms by simp
  qed
qed

lemma crc_burst: "length bs \<le> 4 \<Longrightarrow> foldl crc_byte c bs = (next_h ^^ (8 * length bs)) (c XOR le_word bs)"
proof (induction bs arbitrary: c)
  case (Cons b bs)
  have 3: "length bs \<le> 3" using Cons.prems by simp
  have t: "take_bit 8 (push_bit 8 (le_word bs)) = 0" by (simp add: take_bit_push_bit)
  have "\<not> bit (le_word bs) n" if "24 \<le> n" for n
    using le_word_bit [of bs n] 3 that by auto
  then have h: "bit (le_word bs) n \<Longrightarrow> n < 24" for n by (meson not_le)
  have d: "drop_bit 8 (push_bit 8 (le_word bs)) = le_word bs"
    by (rule bit_word_eqI) (auto simp: bit_drop_bit_eq bit_push_bit_iff dest: h)
  have "foldl crc_byte c (b # bs) = (next_h ^^ (8 * length bs)) ((next_h ^^ 8) (c XOR ucast b) XOR (next_h ^^ 8) (push_bit 8 (le_word bs)))"
    using Cons.IH [of "crc_byte c b"] 3 next_pow_shift [OF t] d by (simp add: crc_byte_def [of c b])
  also have "\<dots> = (next_h ^^ (8 * length bs)) ((next_h ^^ 8) (c XOR le_word (b # bs)))"
    by (simp only: next_pow_xor [symmetric] le_word.simps xor.assoc)
  also have "\<dots> = (next_h ^^ (8 * length (b # bs))) (c XOR le_word (b # bs))"
    by (simp only: funpow_add [symmetric, THEN fun_cong, unfolded comp_def] list.size mult_Suc_right) (simp add: add.commute)
  finally show ?case .
qed simp

lemma CRC32_burst:
  assumes "length ms = length ms'" "length ms \<le> 4" "ms \<noteq> ms'"
  shows "CRC32 (xs @ ms @ ys) \<noteq> CRC32 (xs @ ms' @ ys)"
proof -
  have "le_word ms \<noteq> le_word ms'" using le_word_inj assms by metis
  then have "foldl crc_byte c ms \<noteq> foldl crc_byte c ms'" for c
    using assms by (simp add: crc_burst next_pow_inj xor_left_inj)
  then show ?thesis by (simp add: CRC32_bitwise crc_bytes_inj)
qed

lemma crc_data_append: "crc_data (buf @ buf') es = buf @ crc_data buf' es"
  by (induction es arbitrary: buf') (auto simp: AddCRCData_def)


lemma crc_data_app: "crc_data buf es = buf @ crc_data [] es"
  using crc_data_append [of buf "[]" es] by simp

definition be_bytes :: "64 word \<Rightarrow> 8 word list" where
  "be_bytes v = [ucast (drop_bit 24 v AND 0xff), ucast (drop_bit 16 v AND 0xff), ucast (drop_bit 8 v AND 0xff), ucast (v AND 0xff)]"

lemma ucast_and_ff: "(ucast (w AND 0xff) :: 8 word) = ucast w" for w :: "64 word"
proof -
  have m: "(0xff :: 64 word) = mask 8" by (simp add: mask_eq_exp_minus_1)
  show ?thesis unfolding m by (rule bit_word_eqI) (auto simp: bit_ucast_iff bit_and_iff bit_mask_iff)
qed

lemma be_bytes_inj: "be_bytes v = be_bytes w \<Longrightarrow> (ucast v :: 32 word) = ucast w"
proof (rule bit_word_eqI)
  fix n assume e: "be_bytes v = be_bytes w" and n: "n < LENGTH(32)"
  let ?q = "n div 8" let ?r = "n mod 8"
  have "(ucast (drop_bit (8 * ?q) v) :: 8 word) = ucast (drop_bit (8 * ?q) w)"
  proof -
    have "?q < 4" using n by simp
    then consider "?q = 0" | "?q = 1" | "?q = 2" | "?q = 3" by linarith
    then show ?thesis using e by cases (simp_all add: be_bytes_def ucast_and_ff)
  qed
  then have "bit (ucast (drop_bit (8 * ?q) v) :: 8 word) ?r = bit (ucast (drop_bit (8 * ?q) w) :: 8 word) ?r" by simp
  then have "bit v (8 * ?q + ?r) = bit w (8 * ?q + ?r)" by (simp add: bit_ucast_iff bit_drop_bit_eq)
  then show "bit (ucast v :: 32 word) n = bit (ucast w :: 32 word) n" using n by (simp add: bit_ucast_iff)
qed

text \<open>When the runtime and the compiler record the same names and values except for one value that differs in its low 32 bits, their magic numbers differ, so the mismatch is noticed at startup.\<close>

lemma RUNTIME_MAGIC_detects:
  assumes "(ucast v :: 32 word) \<noteq> ucast w"
  shows "RUNTIME_MAGIC (es @ (lab, v) # fs) \<noteq> RUNTIME_MAGIC (es @ (lab, w) # fs)"
proof -
  have a: "crc_data buf (es @ (lab, u) # fs) = (crc_data buf es @ map of_char lab) @ be_bytes u @ crc_data [] fs" for u buf
    by (induction es arbitrary: buf) (auto simp: AddCRCData_def be_bytes_def crc_data_app [of "_ @ _"])
  have "be_bytes v \<noteq> be_bytes w" using be_bytes_inj assms by blast
  then show ?thesis unfolding RUNTIME_MAGIC_def a by (rule CRC32_burst [rotated 2]) (simp_all add: be_bytes_def)
qed

lemma RUNTIME_MAGIC_detects_witness:
  "RUNTIME_MAGIC ([(''atomic'', 0)] @ (''sleeping'', 8) # [(''id'', 24)]) \<noteq> RUNTIME_MAGIC ([(''atomic'', 0)] @ (''sleeping'', 16) # [(''id'', 24)])"
  by (rule RUNTIME_MAGIC_detects) simp

text \<open>C22: The table-driven \<^verbatim>\<open>CRC32\<close> computes the reflected 32-bit cyclic redundancy check, as the register that takes the message one bit at a time defines it.\<close>

lemma CRC32_computes: "CRC32 buf = crc_spec buf"
  by (simp add: CRC32_bitwise crc_spec_bytes)

text \<open>The published check value of this checksum.\<close>

lemma next_pow_8: "(next_h ^^ 8) c = next_h (next_h (next_h (next_h (next_h (next_h (next_h (next_h c)))))))"
  by (simp add: eval_nat_numeral)

lemma CRC32_check: "CRC32 [0x31, 0x32, 0x33, 0x34, 0x35, 0x36, 0x37, 0x38, 0x39] = 0xCBF43926"
  by (simp add: CRC32_bitwise crc_byte_def next_pow_8 next_h_bit POLYNOMIAL_def)

end
