(* ===== verification/VProc_Start.thy ===== *)
theory VProc_Start
  imports VProc_State
begin

text \<open>
  Starting the vprocs: what \<^verbatim>\<open>NewVProc\<close>, \<^verbatim>\<open>AllocVProcMemory\<close> and \<^verbatim>\<open>AllocToSpaceChunk\<close> do together for all vprocs
  of \<^verbatim>\<open>VProcInit\<close>. A vproc takes two mappings of the system, one for its local heap and one for its first global
  chunk; the lemmas show that every vproc ends up with the structure it needs and that no two share memory.
\<close>

text \<open>What \<^verbatim>\<open>UpdateBIBOP\<close> leaves alone: everything but the tables.\<close>

lemma bibop_loop_frame: "bibop_loop c a hi h = Some h' \<Longrightarrow> \<exists>l1 l2 n. h' = h\<lparr>L1Tbl := l1, L2Tbls := l2, nL2Tbls := n\<rparr>"
proof (rule bibop_loop.raw_induct [where P = "\<lambda>c a hi h h'. \<exists>l1 l2 n. h' = h\<lparr>L1Tbl := l1, L2Tbls := l2, nL2Tbls := n\<rparr>"], goal_cases)
  case (1 loop c a hi h h')
  show ?case
  proof (cases "a < hi")
    case True
    then have "loop c (a + word_of_int BIBOP_PAGE_SZB) hi (bibop_page c a h) = Some h'" using 1(3) by simp
    then obtain l1 l2 n where "h' = (bibop_page c a h)\<lparr>L1Tbl := l1, L2Tbls := l2, nL2Tbls := n\<rparr>" using 1(2) by blast
    then show ?thesis by (auto simp: bibop_page_def Let_def)
  next
    case False
    then have "h' = h\<lparr>L1Tbl := L1Tbl h, L2Tbls := L2Tbls h, nL2Tbls := nL2Tbls h\<rparr>" using 1(3) by simp
    then show ?thesis by blast
  qed
qed simp

lemma UpdateBIBOP_frame: "UpdateBIBOP c h = Some h' \<Longrightarrow> \<exists>l1 l2 n. h' = h\<lparr>L1Tbl := l1, L2Tbls := l2, nL2Tbls := n\<rparr>"
  unfolding UpdateBIBOP_def Let_def by (rule bibop_loop_frame)

text \<open>
  The descriptor \<open>c\<close> is given to a new mapping of \<open>n\<close> pages at \<open>base\<close>: what \<^verbatim>\<open>AllocVProcMemory\<close> and
  \<^verbatim>\<open>AllocToSpaceChunk\<close> have in common.
\<close>

definition maps_pages :: "nat \<Rightarrow> Addr_t \<Rightarrow> nat \<Rightarrow> Heap \<Rightarrow> Heap \<Rightarrow> bool" where
  "maps_pages c base n h h' \<longleftrightarrow> bibop_wf h' \<and> (\<forall>a. AddrToChunk h' a = (if base \<le> a \<and> a < base + word_of_nat (n * 2 ^ 20) then Some c else AddrToChunk h a))
     \<and> nChunks h' = Suc c \<and> mallocOK h' = mallocOK h \<and> mmapAns h' = mmapAns h \<and> nMmaps h' = Suc (nMmaps h) \<and> NodeHeaps h' = NodeHeaps h
     \<and> mem h' = mem h \<and> MaxNurserySzB h' = MaxNurserySzB h \<and> ToSpaceSz h' = ToSpaceSz h \<and> (\<forall>d. d \<noteq> c \<longrightarrow> chunks h' d = chunks h d)"

definition mapped_room :: "Heap \<Rightarrow> nat \<Rightarrow> nat \<Rightarrow> Addr_t \<Rightarrow> bool" where
  "mapped_room h k n a \<longleftrightarrow> mmapAns h k (word_of_int ((int n + 1) * 2 ^ 20)) = Mapped a \<and> unat a + (n + 1) * 2 ^ 20 < 2 ^ 64"

lemma AllocVProcMemory_maps:
  assumes wf: "bibop_wf h" and m: "mapped_room h (nMmaps h) 1 a" and ok: "mallocOK h (nChunks h)"
  shows "\<exists>base h'. AllocVProcMemory vid loc h = Some (base, h') \<and> base \<noteq> 0 \<and> 2 ^ 20 dvd unat base \<and> unat a < unat base
    \<and> unat base + 2 ^ 20 \<le> unat a + 2 * 2 ^ 20 \<and> maps_pages (nChunks h) base 1 h h'
    \<and> sts (chunks h' (nChunks h)) = VPROC_CHUNK vid \<and> whr (chunks h' (nChunks h)) = LocationNode loc"
proof -
  have np: "uint VP_HEAP_SZB div BIBOP_PAGE_SZB = 1" "BIBOP_PAGE_SZB = 2 ^ 20" "uint VP_HEAP_SZB div 1048576 = 1" by (simp_all add: VP_HEAP_SZB_def bibop_consts)
  obtain base where b: "AllocMemory (int 1) (2 ^ 20) (int 1) h = ((base, int 1, a), h\<lparr>nMmaps := Suc (nMmaps h)\<rparr>)"
    "2 ^ 20 dvd unat base" "unat a < unat base" "unat base + 1 * 2 ^ 20 \<le> unat a + (1 + 1) * 2 ^ 20"
    using AllocMemory_block [of h 1 20 a] m unfolding mapped_room_def by auto
  have nz: "base \<noteq> 0" using b(3) by auto
  let ?c = "nChunks h"
  let ?h2 = "upd_chunk ?c (\<lambda>ch. ch\<lparr>allocBase := a, baseAddr := base, szB := VP_HEAP_SZB, sts := VPROC_CHUNK vid, whr := LocationNode loc\<rparr>)
      (h\<lparr>nMmaps := Suc (nMmaps h), nChunks := Suc ?c\<rparr>)"
  obtain q where q: "unat base = q * 2 ^ 20" using b(2) by (metis dvd_def mult.commute)
  have bq: "base = word_of_nat (q * 2 ^ 20)" unfolding q [symmetric] by simp
  have ba: "baseAddr (chunks ?h2 ?c) = word_of_nat (q * 2 ^ 20)" using bq by (simp add: upd_chunk_def)
  have sz: "szB (chunks ?h2 ?c) = word_of_nat (1 * 2 ^ 20)" by (simp add: upd_chunk_def VP_HEAP_SZB_def)
  have lim: "(q + 1) * 2 ^ 20 < 2 ^ 64" using q b(4) m unfolding mapped_room_def by simp
  have "bibop_wf ?h2" using wf by (simp add: bibop_wf_def upd_chunk_def)
  from UpdateBIBOP_maps [OF this ba sz lim] obtain h' where h': "UpdateBIBOP ?c ?h2 = Some h'" "bibop_wf h'" "chunks h' = chunks ?h2"
    "\<forall>x. AddrToChunk h' x = (if baseAddr (chunks ?h2 ?c) \<le> x \<and> x < baseAddr (chunks ?h2 ?c) + szB (chunks ?h2 ?c) then Some ?c else AddrToChunk ?h2 x)"
    by blast
  obtain l1 l2 n where f: "h' = ?h2\<lparr>L1Tbl := l1, L2Tbls := l2, nL2Tbls := n\<rparr>" using UpdateBIBOP_frame [OF h'(1)] by blast
  have fr: "nChunks h' = Suc ?c" "mallocOK h' = mallocOK h" "mmapAns h' = mmapAns h" "nMmaps h' = Suc (nMmaps h)" "NodeHeaps h' = NodeHeaps h"
    "mem h' = mem h" "MaxNurserySzB h' = MaxNurserySzB h" "ToSpaceSz h' = ToSpaceSz h"
    by (simp_all add: f upd_chunk_def)
  have "AddrToChunk ?h2 x = AddrToChunk h x" for x by (simp add: AddrToChunk_def upd_chunk_def)
  then have "maps_pages ?c base 1 h h'"
    unfolding maps_pages_def using h'(2,3,4) fr by (simp add: upd_chunk_def VP_HEAP_SZB_def)
  moreover have "AllocVProcMemory vid loc h = Some (base, h')"
    using b(1) nz ok h'(1) by (simp add: AllocVProcMemory_def np Let_def)
  ultimately show ?thesis using nz b h'(3) by (auto simp: upd_chunk_def)
qed

lemma new_chunk_maps:
  assumes wf: "bibop_wf h" and m: "mapped_room h (nMmaps h) 4 a" and ok: "mallocOK h (nChunks h)"
  shows "\<exists>base h'. new_chunk node h = Some (nChunks h, h') \<and> 2 ^ 20 dvd unat base \<and> unat a < unat base
    \<and> unat base + 4 * 2 ^ 20 \<le> unat a + 5 * 2 ^ 20 \<and> maps_pages (nChunks h) base 4 h h'
    \<and> baseAddr (chunks h' (nChunks h)) = base \<and> szB (chunks h' (nChunks h)) = 0x400000 \<and> whr (chunks h' (nChunks h)) = node"
proof -
  have np: "uint (drop_bit PAGE_BITS HEAP_CHUNK_SZB) = 4" "BIBOP_PAGE_SZB = 2 ^ 20" by (simp_all add: HEAP_CHUNK_SZB_def bibop_consts)
  obtain base where b: "AllocMemory (int 4) (2 ^ 20) (int 4) h = ((base, int 4, a), h\<lparr>nMmaps := Suc (nMmaps h)\<rparr>)"
    "2 ^ 20 dvd unat base" "unat a < unat base" "unat base + 4 * 2 ^ 20 \<le> unat a + (4 + 1) * 2 ^ 20"
    using AllocMemory_block [of h 4 20 a] m unfolding mapped_room_def by auto
  have nz: "base \<noteq> 0" using b(3) by auto
  let ?c = "nChunks h"
  let ?h2 = "upd_chunk ?c (\<lambda>ch. ch\<lparr>allocBase := a, baseAddr := base, szB := word_of_int (4 * BIBOP_PAGE_SZB), whr := node\<rparr>)
      (h\<lparr>nMmaps := Suc (nMmaps h), nChunks := Suc ?c\<rparr>)"
  obtain q where q: "unat base = q * 2 ^ 20" using b(2) by (metis dvd_def mult.commute)
  have bq: "base = word_of_nat (q * 2 ^ 20)" unfolding q [symmetric] by simp
  have ba: "baseAddr (chunks ?h2 ?c) = word_of_nat (q * 2 ^ 20)" using bq by (simp add: upd_chunk_def)
  have sz: "szB (chunks ?h2 ?c) = word_of_nat (4 * 2 ^ 20)" by (simp add: upd_chunk_def np)
  have lim: "(q + 4) * 2 ^ 20 < 2 ^ 64" using q b(4) m unfolding mapped_room_def by simp
  have "bibop_wf ?h2" using wf by (simp add: bibop_wf_def upd_chunk_def)
  from UpdateBIBOP_maps [OF this ba sz lim] obtain h' where h': "UpdateBIBOP ?c ?h2 = Some h'" "bibop_wf h'" "chunks h' = chunks ?h2"
    "\<forall>x. AddrToChunk h' x = (if baseAddr (chunks ?h2 ?c) \<le> x \<and> x < baseAddr (chunks ?h2 ?c) + szB (chunks ?h2 ?c) then Some ?c else AddrToChunk ?h2 x)"
    by blast
  obtain l1 l2 n where f: "h' = ?h2\<lparr>L1Tbl := l1, L2Tbls := l2, nL2Tbls := n\<rparr>" using UpdateBIBOP_frame [OF h'(1)] by blast
  have fr: "nChunks h' = Suc ?c" "mallocOK h' = mallocOK h" "mmapAns h' = mmapAns h" "nMmaps h' = Suc (nMmaps h)" "NodeHeaps h' = NodeHeaps h"
    "mem h' = mem h" "MaxNurserySzB h' = MaxNurserySzB h" "ToSpaceSz h' = ToSpaceSz h"
    by (simp_all add: f upd_chunk_def)
  have "AddrToChunk ?h2 x = AddrToChunk h x" for x by (simp add: AddrToChunk_def upd_chunk_def)
  then have "maps_pages ?c base 4 h h'"
    unfolding maps_pages_def using h'(2,3,4) fr by (simp add: upd_chunk_def np)
  moreover have "new_chunk node h = Some (?c, h')"
    using b(1) nz ok h'(1) by (simp add: new_chunk_def np Let_def)
  moreover have "szB (chunks h' ?c) = 0x400000" using sz h'(3) by simp
  moreover have "baseAddr (chunks h' ?c) = base" "whr (chunks h' ?c) = node" using h'(3) by (simp_all add: upd_chunk_def)
  ultimately show ?thesis using b by auto
qed


text \<open>
  The vproc structure \<open>vp\<close> owns the two mappings at \<open>a1\<close> (two pages) and \<open>a2\<close> (five pages): its local heap lies in the first and is chunk
  \<open>c\<close>, its allocation chunk lies in the second and is chunk \<open>c + 1\<close>.
\<close>

definition in_room :: "Addr_t \<Rightarrow> nat \<Rightarrow> Addr_t \<Rightarrow> bool" where
  "in_room a n x \<longleftrightarrow> unat a \<le> unat x \<and> unat x < unat a + n * 2 ^ 20"

definition vproc_at :: "Heap \<Rightarrow> nat \<Rightarrow> Addr_t \<Rightarrow> Addr_t \<Rightarrow> int \<Rightarrow> Location_t \<Rightarrow> VProc \<Rightarrow> bool" where
  "vproc_at h c a1 a2 vid loc vp \<longleftrightarrow>
     vpid vp = vid \<and> location vp = loc \<and> regs vp = init_reg \<and> \<not> globalGCPending vp
     \<and> 2 ^ 20 dvd unat (heapBase vp) \<and> unat (heapBase vp) + unat VP_HEAP_SZB < 2 ^ 64 \<and> oldTop vp = heapBase vp \<and> limitPtr vp = LimitPtr vp
     \<and> (\<forall>x. heapBase vp \<le> x \<and> x < heapBase vp + VP_HEAP_SZB \<longrightarrow> in_room a1 2 x \<and> AddrToChunk h x = Some c) \<and> sts (chunks h c) = VPROC_CHUNK vid
     \<and> globAllocChunk vp = Some (Suc c) \<and> nxt (chunks h (Suc c)) = None \<and> sts (chunks h (Suc c)) = TO_SP_CHUNK
     \<and> globNextW vp = baseAddr (chunks h (Suc c)) + WORD_SZB \<and> globLimit vp = baseAddr (chunks h (Suc c)) + HEAP_CHUNK_SZB
     \<and> (\<forall>x. baseAddr (chunks h (Suc c)) \<le> x \<and> x < globLimit vp \<longrightarrow> in_room a2 5 x \<and> AddrToChunk h x = Some (Suc c))"

lemma NewVProc_at:
  fixes h :: Heap and raw :: VProc
  defines "k \<equiv> nMmaps h" and "c \<equiv> nChunks h"
  assumes wf: "bibop_wf h" and node: "freeChunks (NodeHeaps h (LocationNode loc)) = None"
    and ok: "mallocOK h c" "mallocOK h (Suc c)"
    and a1: "mapped_room h k 1 a1" and a2: "mapped_room h (Suc k) 4 a2"
    and apart: "\<And>x. \<not> (in_room a1 2 x \<and> in_room a2 5 x)"
  shows "\<exists>vp h'. NewVProc raw vid loc h = Some (vp, h') \<and> vproc_at h' c a1 a2 vid loc vp \<and> bibop_wf h'
    \<and> nChunks h' = c + 2 \<and> nMmaps h' = k + 2 \<and> mallocOK h' = mallocOK h \<and> mmapAns h' = mmapAns h \<and> NodeHeaps h' = NodeHeaps h
    \<and> (\<forall>d. d \<noteq> c \<and> d \<noteq> Suc c \<longrightarrow> chunks h' d = chunks h d)
    \<and> (\<forall>x. \<not> in_room a1 2 x \<and> \<not> in_room a2 5 x \<longrightarrow> AddrToChunk h' x = AddrToChunk h x)"
proof -
  obtain hb h1 where 1: "AllocVProcMemory vid loc h = Some (hb, h1)" "hb \<noteq> 0" "2 ^ 20 dvd unat hb" "unat a1 < unat hb"
    "unat hb + 2 ^ 20 \<le> unat a1 + 2 * 2 ^ 20" "maps_pages c hb 1 h h1" "sts (chunks h1 c) = VPROC_CHUNK vid"
    using AllocVProcMemory_maps [OF wf a1 [unfolded k_def] ok(1) [unfolded c_def]] unfolding c_def by blast
  have m1: "bibop_wf h1" "nChunks h1 = Suc c" "mallocOK h1 (Suc c)" "nMmaps h1 = Suc k" "NodeHeaps h1 = NodeHeaps h" "mapped_room h1 (nMmaps h1) 4 a2"
    using 1(6) ok a2 unfolding maps_pages_def mapped_room_def k_def by simp_all
  obtain gb h2 where 2: "new_chunk (LocationNode loc) h1 = Some (Suc c, h2)" "unat a2 < unat gb" "unat gb + 4 * 2 ^ 20 \<le> unat a2 + 5 * 2 ^ 20"
    "maps_pages (Suc c) gb 4 h1 h2" "baseAddr (chunks h2 (Suc c)) = gb" "szB (chunks h2 (Suc c)) = 0x400000"
    using new_chunk_maps [OF m1(1) m1(6) m1(3) [folded m1(2)], of "LocationNode loc"] unfolding m1(2) by blast
  let ?vp0 = "raw\<lparr>vpid := vid, location := loc, heapBase := hb, oldTop := hb\<rparr>"
  let ?vp1 = "?vp0\<lparr>globAllocChunk := Some (Suc c), globalGCPending := False, globNextW := gb + WORD_SZB, globLimit := gb + 0x400000\<rparr>"
  let ?upd = "\<lambda>ch. ch\<lparr>sts := TO_SP_CHUNK, scanProgress := 0, nxt := None\<rparr>"
  let ?h3 = "upd_chunk (Suc c) ?upd (h2\<lparr>ToSpaceSz := ToSpaceSz h2 + HEAP_CHUNK_SZB\<rparr>)"
  have i: "InitVProcHeap ?vp0 h1 = Some (?vp1, ?h3)"
    using node 2(1,5,6) m1(5) by (simp add: InitVProcHeap_def AllocToSpaceChunk_def upd_chunk_def Let_def)
  let ?vp2 = "?vp1\<lparr>regs := init_reg\<rparr>"
  let ?vp3 = "?vp2\<lparr>limitPtr := LimitPtr ?vp2\<rparr>"
  let ?vp = "(SetAllocPtr (MaxNurserySzB ?h3) ?vp3)\<lparr>nPromotes := 0, nMinorGCs := 0, nMajorGCs := 0,
      minorStats := zero_cntrs, majorStats := zero_cntrs, globalStats := zero_cntrs, nBytesPromoted := 0\<rparr>"
  have run: "NewVProc raw vid loc h = Some (?vp, ?h3)"
    unfolding NewVProc_def 1(1) using 1(2) i by (simp add: Let_def)
  have at: "AddrToChunk ?h3 x = (if gb \<le> x \<and> x < gb + 0x400000 then Some (Suc c) else AddrToChunk h1 x)" for x
    using 2(4) unfolding maps_pages_def by (simp add: AddrToChunk_def upd_chunk_def)
  have at1: "AddrToChunk h1 x = (if hb \<le> x \<and> x < hb + 0x100000 then Some c else AddrToChunk h x)" for x
    using 1(6) unfolding maps_pages_def by simp
  have lim1: "unat hb + 0x100000 < 2 ^ 64" and lim2: "unat gb + 0x400000 < 2 ^ 64"
    using 1(5) 2(3) a1 a2 unfolding mapped_room_def by simp_all
  have ul: "unat (hb + 0x100000) = unat hb + 0x100000" "unat (gb + 0x400000) = unat gb + 0x400000"
    using lim1 lim2 by (simp_all add: unat_word_ariths)
  have r1: "in_room a1 2 x" if "hb \<le> x" "x < hb + 0x100000" for x
    using that 1(4,5) unfolding word_le_nat_alt word_less_nat_alt ul in_room_def by simp
  have r2: "in_room a2 5 x" if "gb \<le> x" "x < gb + 0x400000" for x
    using that 2(2,3) unfolding word_le_nat_alt word_less_nat_alt ul in_room_def by simp
  have local: "AddrToChunk ?h3 x = Some c" if "hb \<le> x" "x < hb + 0x100000" for x
    using r1 [OF that] r2 [of x] apart [of x] at [of x] at1 [of x] that by auto
  have local2: "AddrToChunk ?h3 x = Some (Suc c)" if "gb \<le> x" "x < gb + 0x400000" for x
    using at [of x] that by simp
  have flds: "vpid ?vp = vid" "location ?vp = loc" "regs ?vp = init_reg" "globalGCPending ?vp = False" "heapBase ?vp = hb" "oldTop ?vp = hb"
    "limitPtr ?vp = LimitPtr ?vp" "globAllocChunk ?vp = Some (Suc c)" "globNextW ?vp = gb + WORD_SZB" "globLimit ?vp = gb + HEAP_CHUNK_SZB"
    by (simp_all add: SetAllocPtr_def Let_def LimitPtr_def HEAP_CHUNK_SZB_def)
  have chs: "nxt (chunks ?h3 (Suc c)) = None" "sts (chunks ?h3 (Suc c)) = TO_SP_CHUNK" "baseAddr (chunks ?h3 (Suc c)) = gb"
    "sts (chunks ?h3 c) = VPROC_CHUNK vid"
    using 2(4,5) 1(7) unfolding maps_pages_def by (simp_all add: upd_chunk_def)
  obtain VP where VP: "VP = ?vp" by blast
  obtain H where H: "H = ?h3" by blast
  have lim: "hb + VP_HEAP_SZB = hb + 0x100000" "gb + HEAP_CHUNK_SZB = gb + 0x400000" "unat hb + unat VP_HEAP_SZB < 2 ^ 64"
    using lim1 by (simp_all add: VP_HEAP_SZB_def HEAP_CHUNK_SZB_def)
  have "vproc_at H c a1 a2 vid loc VP"
    unfolding vproc_at_def flds [folded VP] chs [folded H] lim(1,2)
    by (intro conjI allI impI TrueI refl not_False_eq_True [THEN iffD2] 1(3) lim(3) r1 r2 local [folded H] local2 [folded H]; (erule conjunct1 | erule conjunct2)?)
  then have "vproc_at ?h3 c a1 a2 vid loc ?vp" unfolding VP H .
  moreover have "bibop_wf ?h3" "nChunks ?h3 = c + 2" "nMmaps ?h3 = k + 2" "mallocOK ?h3 = mallocOK h" "mmapAns ?h3 = mmapAns h" "NodeHeaps ?h3 = NodeHeaps h"
  proof -
    have m2: "bibop_wf h2" "nChunks h2 = Suc (Suc c)" "nMmaps h2 = Suc (nMmaps h1)" "mallocOK h2 = mallocOK h1" "mmapAns h2 = mmapAns h1" "NodeHeaps h2 = NodeHeaps h1"
      using 2(4) unfolding maps_pages_def by blast+
    have m0: "mallocOK h1 = mallocOK h" "mmapAns h1 = mmapAns h" using 1(6) unfolding maps_pages_def by blast+
    show "bibop_wf ?h3" using m2(1) by (simp add: bibop_wf_def upd_chunk_def)
    show "nChunks ?h3 = c + 2" "nMmaps ?h3 = k + 2" using m2(2,3) m1(4) by (simp_all add: upd_chunk_def)
    show "mallocOK ?h3 = mallocOK h" "mmapAns ?h3 = mmapAns h" "NodeHeaps ?h3 = NodeHeaps h" using m2(4-6) m1(5) m0 by (simp_all add: upd_chunk_def)
  qed
  moreover have "\<forall>d. d \<noteq> c \<and> d \<noteq> Suc c \<longrightarrow> chunks ?h3 d = chunks h d"
    using 2(4) 1(6) unfolding maps_pages_def by (simp add: upd_chunk_def)
  moreover have "\<forall>x. \<not> in_room a1 2 x \<and> \<not> in_room a2 5 x \<longrightarrow> AddrToChunk ?h3 x = AddrToChunk h x"
    using at at1 r1 r2 by auto
  ultimately show ?thesis using run by blast
qed

lemma vproc_at_frame:
  assumes "vproc_at h c a1 a2 vid loc vp" "chunks h' c = chunks h c" "chunks h' (Suc c) = chunks h (Suc c)"
    and "\<And>x. in_room a1 2 x \<or> in_room a2 5 x \<Longrightarrow> AddrToChunk h' x = AddrToChunk h x"
  shows "vproc_at h' c a1 a2 vid loc vp"
  using assms unfolding vproc_at_def by simp

subsection \<open>All vprocs\<close>

text \<open>Which pages the \<open>j\<close>-th mapping of the system covers; a vproc takes two mappings, of two and of five pages.\<close>

definition room_pages :: "nat \<Rightarrow> nat" where "room_pages j = (if even j then 2 else 5)"

definition grants :: "(nat \<Rightarrow> Addr_t) \<Rightarrow> nat \<Rightarrow> Heap \<Rightarrow> bool" where
  "grants A n h \<longleftrightarrow> (\<forall>j<n. mapped_room h j (room_pages j - 1) (A j) \<and> mallocOK h j)
     \<and> (\<forall>j<n. \<forall>k<n. \<forall>x. in_room (A j) (room_pages j) x \<and> in_room (A k) (room_pages k) x \<longrightarrow> j = k)"

lemma spawn_loop_at:
  assumes "bibop_wf h" "nChunks h = 2 * i" "nMmaps h = 2 * i" "grants A (2 * (i + length locs)) h"
    and "\<And>n. freeChunks (NodeHeaps h n) = None" "\<And>j. i \<le> j \<Longrightarrow> j < i + length locs \<Longrightarrow> spawn j"
  shows "\<exists>vps h'. spawn_loop spawn raw i locs h = Some (vps, h') \<and> length vps = length locs \<and> bibop_wf h'
    \<and> (\<forall>j<length locs. vproc_at h' (2 * (i + j)) (A (2 * (i + j))) (A (2 * (i + j) + 1)) (int (i + j)) (locs ! j) (vps ! j))
    \<and> (\<forall>d. d < 2 * i \<longrightarrow> chunks h' d = chunks h d)
    \<and> (\<forall>j<2 * i. \<forall>x. in_room (A j) (room_pages j) x \<longrightarrow> AddrToChunk h' x = AddrToChunk h x)"
  using assms
proof (induction locs arbitrary: i h)
  case Nil then show ?case by simp
next
  case (Cons loc locs)
  note g = Cons.prems(4) [unfolded grants_def]
  have rooms: "mapped_room h (2 * i) 1 (A (2 * i))" "mapped_room h (Suc (2 * i)) 4 (A (Suc (2 * i)))"
    using g [THEN conjunct1, rule_format, of "2 * i"] g [THEN conjunct1, rule_format, of "Suc (2 * i)"] by (simp_all add: room_pages_def)
  have ap: "\<not> (in_room (A j) (room_pages j) x \<and> in_room (A k) (room_pages k) x)"
    if "j \<noteq> k" "j < 2 * i + 2" "k < 2 * i + 2" for j k x
    using g [THEN conjunct2, rule_format, of j k x] that by auto
  have ap1: "\<not> (in_room (A (2 * i)) 2 x \<and> in_room (A (Suc (2 * i))) 5 x)" for x
    using ap [of "2 * i" "Suc (2 * i)" x] by (simp add: room_pages_def)
  have pre: "mallocOK h (nChunks h)" "mallocOK h (Suc (nChunks h))" "mapped_room h (nMmaps h) 1 (A (2 * i))" "mapped_room h (Suc (nMmaps h)) 4 (A (Suc (2 * i)))"
    using rooms g [THEN conjunct1, rule_format, of "2 * i"] g [THEN conjunct1, rule_format, of "Suc (2 * i)"] unfolding Cons.prems(2,3) by simp_all
  obtain vp h1 where 1: "NewVProc (raw i) (int i) loc h = Some (vp, h1)" "vproc_at h1 (2 * i) (A (2 * i)) (A (Suc (2 * i))) (int i) loc vp" "bibop_wf h1"
    "nChunks h1 = 2 * i + 2" "nMmaps h1 = 2 * i + 2" "mallocOK h1 = mallocOK h" "mmapAns h1 = mmapAns h" "NodeHeaps h1 = NodeHeaps h"
    "\<forall>d. d \<noteq> 2 * i \<and> d \<noteq> Suc (2 * i) \<longrightarrow> chunks h1 d = chunks h d"
    "\<forall>x. \<not> in_room (A (2 * i)) 2 x \<and> \<not> in_room (A (Suc (2 * i))) 5 x \<longrightarrow> AddrToChunk h1 x = AddrToChunk h x"
    using NewVProc_at [OF Cons.prems(1) Cons.prems(5) pre ap1, of "raw i" "int i"] unfolding Cons.prems(2,3) by blast
  have p: "nChunks h1 = 2 * Suc i" "nMmaps h1 = 2 * Suc i" "grants A (2 * (Suc i + length locs)) h1" "freeChunks (NodeHeaps h1 n) = None"
    "Suc i \<le> j \<Longrightarrow> j < Suc i + length locs \<Longrightarrow> spawn j" for n j
    using Cons.prems(4-6) 1(4-8) by (simp_all add: grants_def mapped_room_def)
  obtain vps h' where 2: "spawn_loop spawn raw (Suc i) locs h1 = Some (vps, h')" "length vps = length locs" "bibop_wf h'"
    "\<forall>j<length locs. vproc_at h' (2 * (Suc i + j)) (A (2 * (Suc i + j))) (A (2 * (Suc i + j) + 1)) (int (Suc i + j)) (locs ! j) (vps ! j)"
    "\<forall>d. d < 2 * Suc i \<longrightarrow> chunks h' d = chunks h1 d"
    "\<forall>j<2 * Suc i. \<forall>x. in_room (A j) (room_pages j) x \<longrightarrow> AddrToChunk h' x = AddrToChunk h1 x"
    using Cons.IH [OF 1(3) p] by blast
  have r: "room_pages (2 * i) = 2" "room_pages (Suc (2 * i)) = 5" by (simp_all add: room_pages_def)
  have "vproc_at h' (2 * i) (A (2 * i)) (A (Suc (2 * i))) (int i) loc vp"
  proof (rule vproc_at_frame [OF 1(2)])
    show "chunks h' (2 * i) = chunks h1 (2 * i)" "chunks h' (Suc (2 * i)) = chunks h1 (Suc (2 * i))" using 2(5) by simp_all
    show "AddrToChunk h' x = AddrToChunk h1 x" if "in_room (A (2 * i)) 2 x \<or> in_room (A (Suc (2 * i))) 5 x" for x
      using 2(6) [rule_format, of "2 * i" x] 2(6) [rule_format, of "Suc (2 * i)" x] that unfolding r by auto
  qed
  then have all: "vproc_at h' (2 * (i + j)) (A (2 * (i + j))) (A (2 * (i + j) + 1)) (int (i + j)) ((loc # locs) ! j) ((vp # vps) ! j)"
    if "j < length (loc # locs)" for j
    using 2(4) that by (cases j) auto
  have fr: "AddrToChunk h' x = AddrToChunk h x" if "j < 2 * i" "in_room (A j) (room_pages j) x" for j x
  proof -
    have "\<not> in_room (A (2 * i)) 2 x" "\<not> in_room (A (Suc (2 * i))) 5 x"
      using ap [of j "2 * i" x] ap [of j "Suc (2 * i)" x] that unfolding r by auto
    then show ?thesis using 2(6) [rule_format, of j x] 1(10) that by simp
  qed
  have "chunks h' d = chunks h d" if "d < 2 * i" for d using 1(9) 2(5) that by auto
  moreover have "spawn i" using Cons.prems(6) by simp
  ultimately show ?case using 1(1) 2(1,2,3) all fr by auto
qed


text \<open>What a vproc needs to run: initialised registers, an aligned empty local heap that the page table knows as its own, and an allocation chunk.\<close>

definition vproc_ready :: "Heap \<Rightarrow> int \<Rightarrow> Location_t \<Rightarrow> VProc \<Rightarrow> bool" where
  "vproc_ready h vid loc vp \<longleftrightarrow>
     vpid vp = vid \<and> location vp = loc \<and> regs vp = init_reg \<and> \<not> globalGCPending vp
     \<and> 2 ^ 20 dvd unat (heapBase vp) \<and> unat (heapBase vp) + unat VP_HEAP_SZB < 2 ^ 64 \<and> oldTop vp = heapBase vp \<and> limitPtr vp = LimitPtr vp
     \<and> (\<forall>x. heapBase vp \<le> x \<and> x < heapBase vp + VP_HEAP_SZB \<longrightarrow> chunk_sts h (AddrToChunk h x) = VPROC_CHUNK vid)
     \<and> (case globAllocChunk vp of None \<Rightarrow> False
        | Some c \<Rightarrow> nxt (chunks h c) = None \<and> sts (chunks h c) = TO_SP_CHUNK
            \<and> globNextW vp = baseAddr (chunks h c) + WORD_SZB \<and> globLimit vp = baseAddr (chunks h c) + HEAP_CHUNK_SZB
            \<and> (\<forall>x. baseAddr (chunks h c) \<le> x \<and> x < globLimit vp \<longrightarrow> AddrToChunk h x = Some c))"

lemma vproc_at_ready: "vproc_at h c a1 a2 vid loc vp \<Longrightarrow> vproc_ready h vid loc vp"
  unfolding vproc_at_def vproc_ready_def by (auto simp: chunk_sts_def)

text \<open>The local heap of a vproc, as a set of addresses.\<close>

definition local_heap :: "VProc \<Rightarrow> Addr_t set" where
  "local_heap vp = {x. heapBase vp \<le> x \<and> x < heapBase vp + VP_HEAP_SZB}"

lemma vprocs_apart:
  assumes "\<And>j. j < n \<Longrightarrow> vproc_at h (2 * j) (A (2 * j)) (A (2 * j + 1)) (int j) (locs ! j) (vps ! j)" "i < n" "j < n" "i \<noteq> j"
  shows "local_heap (vps ! i) \<inter> local_heap (vps ! j) = {}" "globAllocChunk (vps ! i) \<noteq> globAllocChunk (vps ! j)"
proof -
  note vi = assms(1) [OF assms(2), unfolded vproc_at_def] and vj = assms(1) [OF assms(3), unfolded vproc_at_def]
  show "globAllocChunk (vps ! i) \<noteq> globAllocChunk (vps ! j)" using vi vj assms(4) by simp
  have "AddrToChunk h x = Some (2 * i)" if "x \<in> local_heap (vps ! i)" for x using vi that by (simp add: local_heap_def)
  moreover have "AddrToChunk h x = Some (2 * j)" if "x \<in> local_heap (vps ! j)" for x using vj that by (simp add: local_heap_def)
  ultimately show "local_heap (vps ! i) \<inter> local_heap (vps ! j) = {}" using assms(4) by force
qed

definition own_heaps :: "nat \<Rightarrow> Location_t list \<Rightarrow> VPSys \<Rightarrow> bool" where
  "own_heaps n locs s \<longleftrightarrow> NumVProcs s = int n \<and> length (VProcs s) = n \<and> bibop_wf (vpHeap s)
     \<and> (\<forall>i<n. vproc_ready (vpHeap s) (int i) (locs ! i) (VProcs s ! i))
     \<and> (\<forall>i<n. \<forall>j<n. i \<noteq> j \<longrightarrow> local_heap (VProcs s ! i) \<inter> local_heap (VProcs s ! j) = {} \<and> globAllocChunk (VProcs s ! i) \<noteq> globAllocChunk (VProcs s ! j))"

lemma VProcInit_heaps:
  assumes "vproc_count isSequential t opts = Some ((int n, procs, warned), opts1)" "dense_layout t (int n) opts1 = (dense, opts2)"
    and "assign_locations t procs dense n = Some locs" "length locs = n" "\<And>loc. loc \<in> set locs \<Longrightarrow> LocationNode loc < NumHWNodes t"
    and "bibop_wf h" "nChunks h = 0" "nMmaps h = 0" "grants A (2 * n) h"
    and "\<And>m. freeChunks (NodeHeaps h m) = None" "\<And>j. j < n \<Longrightarrow> spawn j"
  shows "\<exists>s. VProcInit spawn raw isSequential t opts h = Some (s, opts2) \<and> own_heaps n locs s"
proof -
  obtain vps h' where s: "spawn_loop spawn raw 0 locs h = Some (vps, h')" "length vps = n" "bibop_wf h'"
    and v: "\<And>j. j < n \<Longrightarrow> vproc_at h' (2 * j) (A (2 * j)) (A (2 * j + 1)) (int j) (locs ! j) (vps ! j)"
    using spawn_loop_at [of h 0 A locs spawn raw] assms(4,6-11) by auto
  have ready: "vproc_ready h' (int j) (locs ! j) (vps ! j)" if "j < n" for j using v [OF that] by (rule vproc_at_ready)
  let ?s = "\<lparr>NumVProcs = int n, VProcs = vps, vpCounts = node_counts t locs, ShutdownBarrier = BarrierInit (int n), vpHeap = h'\<rparr>"
  have "list_all (\<lambda>loc. LocationNode loc < NumHWNodes t) locs" using assms(5) by (simp add: list_all_iff)
  then have "VProcInit spawn raw isSequential t opts h = Some (?s, opts2)"
    using assms(1-3) s(1) by (simp add: VProcInit_def Let_def)
  moreover have "own_heaps n locs ?s"
    unfolding own_heaps_def using s ready vprocs_apart [of n h' A locs vps, OF v] by simp
  ultimately show ?thesis by blast
qed


lemma Locations_nodes:
  assumes "topo_wf t" "loc \<in> set (Locations t)"
  shows "LocationNode loc < NumHWNodes t"
proof -
  obtain nd core thd where l: "loc = Location nd core thd" "0 \<le> nd" "nd < NumHWNodes t" "0 \<le> core" "core < NumCoresPerNode t" "0 \<le> thd" "thd < NumThdsPerCore t"
    using assms(2) by (auto simp: Locations_def)
  have "LocationNode loc = nd"
    unfolding l(1) using l assms(1) topo_core_bound [OF assms(1)] by (intro LocationNode_Location) (auto simp: topo_wf_def)
  then show ?thesis using l(3) by simp
qed

lemma assign_locations_exist:
  assumes "topo_wf t" "int n \<le> NumHWThreads t"
  shows "\<exists>locs. assign_locations t None dense n = Some locs \<and> length locs = n \<and> set locs \<subseteq> set (Locations t)"
proof (cases dense)
  case True
  have "n \<le> length (Locations t)" using assms Locations_facts [OF assms(1)] by simp
  then show ?thesis using True assign_dense [OF assms] set_take_subset [of n "Locations t"] by auto
next
  case False
  have "spread_location t (int i) \<in> set (Locations t)" if "i < n" for i
    using spread_in_Locations [OF assms(1)] that assms(2) by simp
  then show ?thesis using False assign_spread [OF assms] by auto
qed

text \<open>C17: When the system grants separate mappings, \<^verbatim>\<open>VProcInit\<close> without explicit placement starts the requested number of vprocs, each on a location of the machine and ready to run: registers initialised, an aligned empty local heap of a megabyte whose every address the page table maps to a chunk marked as this vproc's, and a first global chunk; no two vprocs share a local heap or a chunk.\<close>

lemma VProcInit_owns:
  assumes "topo_wf t" "vproc_count isSequential t opts = Some ((int n, None, warned), opts1)" "int n \<le> NumHWThreads t"
    and "grants A (2 * n) (InitHeapState m junk mOK ans cmpl maxNursery threshold base)" "\<And>j. j < n \<Longrightarrow> spawn j"
  shows "\<exists>locs s opts2. VProcInit spawn raw isSequential t opts (InitHeapState m junk mOK ans cmpl maxNursery threshold base) = Some (s, opts2)
    \<and> set locs \<subseteq> set (Locations t) \<and> own_heaps n locs s"
proof -
  obtain dense opts2 where d: "dense_layout t (int n) opts1 = (dense, opts2)" by (cases "dense_layout t (int n) opts1")
  obtain locs where l: "assign_locations t None dense n = Some locs" "length locs = n" "set locs \<subseteq> set (Locations t)"
    using assign_locations_exist [OF assms(1,3)] by blast
  have nd: "loc \<in> set locs \<Longrightarrow> LocationNode loc < NumHWNodes t" for loc using l(3) Locations_nodes [OF assms(1)] by blast
  let ?h = "InitHeapState m junk mOK ans cmpl maxNursery threshold base"
  have i: "bibop_wf ?h" "nChunks ?h = 0" "nMmaps ?h = 0" "freeChunks (NodeHeaps ?h k) = None" for k
    by simp (simp_all add: InitHeapState_def)
  have "\<exists>s. VProcInit spawn raw isSequential t opts ?h = Some (s, opts2) \<and> own_heaps n locs s"
    by (rule VProcInit_heaps [OF assms(2) d l(1,2) _ i(1-3) assms(4) i(4)]) (use nd assms(5) in blast)+
  then show ?thesis using l(3) by blast
qed

lemma ex_grants: "grants (\<lambda>j. word_of_nat (5000 + j * 2 ^ 24)) 4 ex_heap" (is "grants ?A 4 _")
proof -
  have u: "unat (?A j) = 5000 + j * 2 ^ 24" if "j < 4" for j
  proof -
    have "5000 + j * 2 ^ 24 < 2 ^ 64" using that by simp
    then show ?thesis unfolding unat_of_nat by (intro mod_less) simp
  qed
  have "mapped_room ex_heap j (room_pages j - 1) (?A j) \<and> mallocOK ex_heap j" if "j < 4" for j
    unfolding mapped_room_def u [OF that] using that by (simp add: ex_heap_def InitHeapState_def room_pages_def)
  moreover have "j = k" if "j < 4" "k < 4" "in_room (?A j) (room_pages j) x" "in_room (?A k) (room_pages k) x" for j k x
  proof -
    have "5000 + j * 2 ^ 24 \<le> unat x" "unat x < 5000 + j * 2 ^ 24 + 5 * 2 ^ 20" "5000 + k * 2 ^ 24 \<le> unat x" "unat x < 5000 + k * 2 ^ 24 + 5 * 2 ^ 20"
      using that(3,4) unfolding in_room_def u [OF that(1)] u [OF that(2)] by (auto simp: room_pages_def split: if_splits)
    then show ?thesis by simp
  qed
  ultimately show ?thesis unfolding grants_def by blast
qed


lemma VProcInit_owns_witness:
  "\<exists>locs s opts2. VProcInit (\<lambda>_. True) (\<lambda>_. ex_vproc) False \<lparr>NumHWNodes = 1, NumHWCores = 2, NumHWThreads = 2, NumCoresPerNode = 2, NumThdsPerCore = 1\<rparr>
       (InitOptions [''prog'']) ex_heap = Some (s, opts2)
     \<and> set locs \<subseteq> set (Locations \<lparr>NumHWNodes = 1, NumHWCores = 2, NumHWThreads = 2, NumCoresPerNode = 2, NumThdsPerCore = 1\<rparr>) \<and> own_heaps 2 locs s"
proof -
  have h: "ex_heap = InitHeapState (\<lambda>_. 0) ex_chunk (\<lambda>_. True) (\<lambda>k sz. Mapped (5000 + word_of_nat k * 2 ^ 24)) (\<lambda>_. False) 65536 65536 (2 ^ 26)"
    by (simp add: ex_heap_def)
  have "vproc_count False \<lparr>NumHWNodes = 1, NumHWCores = 2, NumHWThreads = 2, NumCoresPerNode = 2, NumThdsPerCore = 1\<rparr> (InitOptions [''prog''])
      = Some ((int 2, None, False), InitOptions [''prog''])"
    by (simp add: vproc_count_def GetVprocsOpt_def GetIntOpt_def find_arg_def InitOptions_def MAX_NUM_VPROCS_def)
  then show ?thesis
    unfolding h by (rule VProcInit_owns [rotated, where A = "\<lambda>j. word_of_nat (5000 + j * 2 ^ 24)"])
      (use ex_grants [unfolded h] in \<open>simp_all add: topo_wf_def\<close>)
qed

end
