(* ===== verification/Main_Loop.thy ===== *)
theory Main_Loop
  imports Heap_Init Crc_Check VProc_Start
begin

text \<open>
  The program's start and its timer loop, \<^verbatim>\<open>misc/main.c\<close>: \<^verbatim>\<open>main\<close> composes the options, the magic number, the
  topology, the heap and the vprocs, then preempts the vprocs in turn for ever. The lemmas show that a start with
  arguments of the program only succeeds with the default sizes and leaves the arguments alone (also \<^verbatim>\<open>-config\<close>,
  because nobody calls \<^verbatim>\<open>InitConfiguration\<close>), that a mismatch of the offsets is noticed, that every running vproc
  is preempted in every round, and how long a round takes.
\<close>

definition MIN_TIMEQ_NS :: int where "MIN_TIMEQ_NS = 1000000"

definition DFLT_TIME_Q_MS :: int where "DFLT_TIME_Q_MS = 100"

subsection \<open>Preempting the vprocs in turn\<close>

text \<open>How many vprocs one timeout preempts; division truncates towards zero as in C.\<close>

function count_pings :: "int \<Rightarrow> int \<Rightarrow> int \<Rightarrow> int" where
  "count_pings ns n nPings =
     (if (nPings * ns) sdiv n < MIN_TIMEQ_NS \<and> nPings < n then count_pings ns n (nPings + 1) else nPings)"
  by pat_completeness auto
termination
  by (relation "measure (\<lambda>(ns, n, nPings). nat (n - nPings))") auto

declare count_pings.simps [simp del]

function whole_seconds :: "int \<Rightarrow> int \<Rightarrow> timespec" where
  "whole_seconds sec nsec = (if nsec \<ge> 1000000000 then whole_seconds (sec + 1) (nsec - 1000000000) else \<lparr>tv_sec = sec, tv_nsec = nsec\<rparr>)"
  by pat_completeness auto
termination
  by (relation "measure (\<lambda>(sec, nsec). nat nsec)") auto

declare whole_seconds.simps [simp del]

text \<open>The head of \<^verbatim>\<open>PingLoop\<close>: the number of pings per timeout and the timeout; \<open>None\<close> is a division by zero.\<close>

definition ping_params :: "int \<Rightarrow> int \<Rightarrow> (int \<times> timespec) option" where
  "ping_params TimeQ n =
     (if n = 0 then None
      else let ns = 1000000 * TimeQ;
               tq = whole_seconds 0 (ns sdiv n)
           in Some (count_pings ns n 1, tq\<lparr>tv_nsec := tv_nsec tq sdiv n\<rparr>))"

text \<open>One round of the loop of \<^verbatim>\<open>Ping\<close>, on the vprocs and the static \<^verbatim>\<open>nextPing\<close>.\<close>

definition ping_one :: "VProc list \<times> nat \<Rightarrow> VProc list \<times> nat" where
  "ping_one = (\<lambda>(vps, nextPing).
     (if regs (vps ! nextPing) Sleeping \<noteq> M_TRUE then vps[nextPing := VProcPreempt (vps ! nextPing)] else vps,
      if nextPing + 1 = length vps then 0 else nextPing + 1))"

definition Ping :: "int \<Rightarrow> VProc list \<times> nat \<Rightarrow> VProc list \<times> nat" where
  "Ping n st = (ping_one ^^ nat n) st"

text \<open>What \<^verbatim>\<open>PingLoop\<close> does when the wait returns: a timeout pings, a signal ends the program.\<close>

datatype WaitResult = Timeout | Received int

fun ping_loop :: "int \<Rightarrow> WaitResult list \<Rightarrow> VProc list \<times> nat \<Rightarrow> (VProc list \<times> nat) \<times> int option" where
  "ping_loop nPings [] st = (st, None)"
| "ping_loop nPings (Timeout # ws) st = ping_loop nPings ws (Ping nPings st)"
| "ping_loop nPings (Received sig # ws) st = (st, Some sig)"

subsection \<open>Starting up\<close>

record MainState =
  mainSys :: VPSys
  mainParams :: HeapParams
  mainStats :: GCStatsFlags
  mainOpts :: Options
  nPings :: int
  pingTimeout :: timespec

datatype MainResult = Usage | Started MainState

text \<open>The configuration before any file is read: static data is zero. \<^verbatim>\<open>InitConfiguration\<close> has no caller.\<close>

definition static_config :: Config where
  "static_config = \<lparr>NumConfigParams = 0, ConfigParamsSz = 0, ConfigParams = []\<rparr>"

record MainEnv =
  mantMagic :: "32 word"
  runtimeMagic :: "32 word"
  SequentialFlag :: int
  cpuinfo :: "string list option"
  osEnv :: OsEnv
  valp :: "nat \<Rightarrow> Addr_t"
  keyp :: "string \<Rightarrow> Addr_t"
  spawnOK :: "nat \<Rightarrow> bool"
  rawVProc :: "nat \<Rightarrow> VProc"

text \<open>\<^verbatim>\<open>main\<close> up to the loop; \<open>None\<close>: it dies.\<close>

definition rt_main :: "MainEnv \<Rightarrow> string list \<Rightarrow> MainResult option" where
  "rt_main env av =
     (let opts0 = InitOptions av;
          (help, opts1) = GetFlagOpt opts0 ''-h'';
          (help', opts2) = (if help then (True, opts1) else GetFlagOpt opts1 ''-?'')
      in if help' then Some Usage
         else let (TimeQ, opts3) = GetIntOpt opts2 ''-q'' DFLT_TIME_Q_MS
              in if mantMagic env \<noteq> runtimeMagic env then None
                 else do {
                   (t, locs) \<leftarrow> DiscoverTopology (cpuinfo env);
                   ((h, ps, st), _, opts4) \<leftarrow> HeapInit (valp env) (keyp env) (osEnv env) static_config opts3;
                   (s, opts5) \<leftarrow> VProcInit (spawnOK env) (rawVProc env) (SequentialFlag env \<noteq> 0) t opts4 h;
                   (n, tq) \<leftarrow> ping_params TimeQ (NumVProcs s);
                   Some (Started \<lparr>mainSys = s, mainParams = ps, mainStats = st, mainOpts = opts5, nPings = n, pingTimeout = tq\<rparr>) })"

subsection \<open>Nobody is forgotten\<close>

lemma ping_one_spec:
  assumes "p < length vps"
  shows "snd (ping_one (vps, p)) = (p + 1) mod length vps \<and> length (fst (ping_one (vps, p))) = length vps
    \<and> (\<forall>i<length vps. fst (ping_one (vps, p)) ! i
         = (if i = p \<and> regs (vps ! i) Sleeping \<noteq> M_TRUE then VProcPreempt (vps ! i) else vps ! i))"
  using assms by (auto simp: ping_one_def nth_list_update)

lemma preempt_idem: "VProcPreempt (VProcPreempt vp) = VProcPreempt vp" "regs (VProcPreempt vp) = regs vp"
  by (simp_all add: VProcPreempt_def)

lemma pings_spec:
  assumes "p < length vps"
  shows "snd ((ping_one ^^ n) (vps, p)) = (p + n) mod length vps \<and> length (fst ((ping_one ^^ n) (vps, p))) = length vps
    \<and> (\<forall>i<length vps. fst ((ping_one ^^ n) (vps, p)) ! i
         = (if (\<exists>k<n. i = (p + k) mod length vps) \<and> regs (vps ! i) Sleeping \<noteq> M_TRUE then VProcPreempt (vps ! i) else vps ! i))"
proof (induction n)
  case 0 then show ?case using assms by simp
next
  case (Suc n)
  obtain vps' p' where st: "(ping_one ^^ n) (vps, p) = (vps', p')" by (cases "(ping_one ^^ n) (vps, p)")
  have p': "p' = (p + n) mod length vps" "length vps' = length vps"
    and v: "\<And>i. i < length vps \<Longrightarrow> vps' ! i
         = (if (\<exists>k<n. i = (p + k) mod length vps) \<and> regs (vps ! i) Sleeping \<noteq> M_TRUE then VProcPreempt (vps ! i) else vps ! i)"
    using Suc st by auto
  have "0 < length vps" using assms by linarith
  then have "p' < length vps'" using p' by simp
  note o = ping_one_spec [OF this]
  have "fst ((ping_one ^^ Suc n) (vps, p)) ! i
      = (if (\<exists>k<Suc n. i = (p + k) mod length vps) \<and> regs (vps ! i) Sleeping \<noteq> M_TRUE then VProcPreempt (vps ! i) else vps ! i)"
    if "i < length vps" for i
  proof -
    have c: "(\<exists>k<Suc n. i = (p + k) mod length vps) \<longleftrightarrow> i = p' \<or> (\<exists>k<n. i = (p + k) mod length vps)" using p'(1) by (auto simp: less_Suc_eq)
    have "fst (ping_one (vps', p')) ! i = (if i = p' \<and> regs (vps' ! i) Sleeping \<noteq> M_TRUE then VProcPreempt (vps' ! i) else vps' ! i)"
      using o that p'(2) by simp
    then show ?thesis unfolding funpow.simps comp_def st c v [OF that] by (auto simp only: preempt_idem split: if_splits)
  qed
  moreover have "snd ((ping_one ^^ Suc n) (vps, p)) = (p + Suc n) mod length vps"
    using o p' by (simp add: st mod_Suc_eq)
  ultimately show ?case using o p' by (simp add: st)
qed

lemma round_covers:
  assumes "i < N" "p < (N :: nat)" "N \<le> n"
  shows "\<exists>k<n. i = (p + k) mod N"
proof (cases "p \<le> i")
  case True then show ?thesis using assms by (intro exI [of _ "i - p"]) auto
next
  case False
  then have "(p + (i + N - p)) mod N = i" using assms by simp
  then show ?thesis using False assms by (intro exI [of _ "i + N - p"]) auto
qed

text \<open>C25: When the wait has timed out often enough for one ping per vproc, every vproc that does not sleep has been preempted (its limit pointer is cleared), the sleeping ones are left alone, and the loop goes on.\<close>

lemma ping_loop_round:
  assumes "p < length vps" "0 < n" "length vps \<le> length ws * nat n" "list_all (\<lambda>w. w = Timeout) ws"
  shows "case ping_loop n ws (vps, p) of ((vps', p'), died) \<Rightarrow>
    died = None \<and> length vps' = length vps
    \<and> list_all (\<lambda>(vp, vp'). vp' = (if regs vp Sleeping = M_TRUE then vp else VProcPreempt vp)) (zip vps vps')"
proof -
  have "ping_loop n ws st = ((ping_one ^^ (length ws * nat n)) st, None)" for st
    using assms(4)
  proof (induction ws arbitrary: st)
    case (Cons w ws)
    then show ?case by (simp add: Ping_def funpow_add [symmetric, THEN fun_cong, unfolded comp_def] add.commute)
  qed simp
  moreover obtain vps' p' where "(ping_one ^^ (length ws * nat n)) (vps, p) = (vps', p')"
    by (cases "(ping_one ^^ (length ws * nat n)) (vps, p)")
  ultimately show ?thesis using pings_spec [OF assms(1), of "length ws * nat n"] round_covers [OF _ assms(1) assms(3)]
    by (auto simp: list_all_length)
qed


lemma whole_seconds_small: "n < 1000000000 \<Longrightarrow> whole_seconds s n = \<lparr>tv_sec = s, tv_nsec = n\<rparr>"
  by (subst whole_seconds.simps) simp

lemma sdiv_pos: "0 \<le> a \<Longrightarrow> 0 < b \<Longrightarrow> a sdiv b = a div (b :: int)"
  by (cases "a = 0") (auto simp: signed_divide_int_def sgn_if)

lemma count_pings_least:
  assumes "0 \<le> ns" "0 < n" "1 \<le> k" "k \<le> n" "\<And>m. 1 \<le> m \<Longrightarrow> m < k \<Longrightarrow> m * ns div n < MIN_TIMEQ_NS"
  shows "1 \<le> count_pings ns n k \<and> count_pings ns n k \<le> n
    \<and> (\<forall>m. 1 \<le> m \<and> m < count_pings ns n k \<longrightarrow> m * ns div n < MIN_TIMEQ_NS)
    \<and> (count_pings ns n k = n \<or> MIN_TIMEQ_NS \<le> count_pings ns n k * ns div n)"
  using assms
proof (induction ns n k rule: count_pings.induct)
  case (1 ns n k)
  have s: "(k * ns) sdiv n = k * ns div n" using 1 by (intro sdiv_pos) auto
  show ?case
  proof (cases "k * ns div n < MIN_TIMEQ_NS \<and> k < n")
    case True
    have "m * ns div n < MIN_TIMEQ_NS" if "1 \<le> m" "m < k + 1" for m
      using 1(6) [of m] True that by (cases "m = k") auto
    then have "1 \<le> count_pings ns n (k + 1) \<and> count_pings ns n (k + 1) \<le> n
      \<and> (\<forall>m. 1 \<le> m \<and> m < count_pings ns n (k + 1) \<longrightarrow> m * ns div n < MIN_TIMEQ_NS)
      \<and> (count_pings ns n (k + 1) = n \<or> MIN_TIMEQ_NS \<le> count_pings ns n (k + 1) * ns div n)"
      using 1(2-4) True s by (intro 1(1)) auto
    moreover have "count_pings ns n k = count_pings ns n (k + 1)" using True s by (subst count_pings.simps) simp
    ultimately show ?thesis by simp
  next
    case False
    then have "count_pings ns n k = k" using s by (subst count_pings.simps) auto
    then show ?thesis using 1(4-6) False by auto
  qed
qed

text \<open>For a time quantum of \<open>q\<close> milliseconds and \<open>n\<close> vprocs, every timeout preempts the least number \<open>k\<close> of vprocs for which \<open>k\<close> shares of the quantum last a millisecond; but the timeout is the quantum divided by \<open>n\<close> twice, so that \<open>n\<close> pings last at most an \<open>n\<close>-th of the quantum.\<close>

lemma ping_timeout:
  assumes "0 < q" "0 < n" "1000000 * q div n < 1000000000"
  shows "\<exists>k. ping_params q n = Some (k, \<lparr>tv_sec = 0, tv_nsec = 1000000 * q div (n * n)\<rparr>)
    \<and> 1 \<le> k \<and> k \<le> n \<and> (\<forall>m. 1 \<le> m \<and> m < k \<longrightarrow> m * (1000000 * q) div n < MIN_TIMEQ_NS)
    \<and> (k = n \<or> MIN_TIMEQ_NS \<le> k * (1000000 * q) div n)
    \<and> n * (1000000 * q div (n * n)) \<le> 1000000 * q div n"
proof -
  let ?ns = "1000000 * q"
  have s: "?ns sdiv n = ?ns div n" "(?ns div n) sdiv n = ?ns div (n * n)"
    using assms by (simp_all add: sdiv_pos zdiv_zmult2_eq pos_imp_zdiv_nonneg_iff)
  have "n * (?ns div n div n) \<le> ?ns div n"
    using mult_div_mod_eq [of n "?ns div n"] pos_mod_sign [OF assms(2), of "?ns div n"] by linarith
  then have r: "n * (?ns div (n * n)) \<le> ?ns div n" using assms(2) by (simp add: zdiv_zmult2_eq)
  show ?thesis
    using count_pings_least [of ?ns n 1] assms r by (auto simp: ping_params_def Let_def s whole_seconds_small)
qed

subsection \<open>A mismatch is noticed\<close>

text \<open>When the compiler and the runtime were built with offsets that differ in the low 32 bits of one value, \<^verbatim>\<open>main\<close> never starts: it prints the usage message or dies.\<close>

lemma rt_main_mismatch:
  assumes "mantMagic env = RUNTIME_MAGIC (es @ (lab, v) # fs)" "runtimeMagic env = RUNTIME_MAGIC (es @ (lab, w) # fs)"
    and "(ucast v :: 32 word) \<noteq> ucast w"
  shows "rt_main env av = None \<or> rt_main env av = Some Usage"
  using RUNTIME_MAGIC_detects [OF assms(3), of es lab fs] assms(1,2)
  by (simp add: rt_main_def Let_def split: prod.split)

subsection \<open>Starting up works\<close>

definition foreign_arg :: "string \<Rightarrow> bool" where
  "foreign_arg a \<longleftrightarrow> a \<notin> {''-h'', ''-?'', ''-q'', ''-nursery'', ''-p''} \<and> take 8 a \<noteq> ''-gcstats''"

lemma argv_in_args: "opts_wf opts \<Longrightarrow> i < argc opts \<Longrightarrow> argv opts ! i \<in> set (args opts)"
  using nth_mem [of i "args opts"] by (simp add: args_def opts_wf_def)

lemma find_arg_none: "opts_wf opts \<Longrightarrow> (\<And>a. a \<in> set (args opts) \<Longrightarrow> \<not> p a) \<Longrightarrow> find_arg p opts = None"
  using argv_in_args [of opts] by (auto simp: find_arg_def find_None_iff)

lemma eq_loop_none:
  assumes "opts_wf opts" "\<And>a. a \<in> set (args opts) \<Longrightarrow> \<not> strncmp_eq opt a (length opt)"
  shows "eq_loop opt dflt i opts = (None, opts)"
proof (induction "argc opts - i" arbitrary: i)
  case 0 then show ?case by (subst eq_loop.simps) simp
next
  case (Suc d)
  have "argv opts ! i \<in> set (args opts)" using Suc.hyps(2) by (intro argv_in_args [OF assms(1)]) simp
  then show ?case using Suc assms(2) by (subst eq_loop.simps) (simp add: Let_def)
qed

lemma static_config_defaults:
  "GetSizeConfig k sc d static_config = (d, [])" "GetIntConfig vp kp k n static_config = (n, [])"
  by (simp_all add: GetSizeConfig_def GetIntConfig_def FindConfigParam_def static_config_def)


lemma foreign_options:
  fixes prog :: string and as :: "string list"
  assumes "list_all foreign_arg as"
  defines "opts \<equiv> InitOptions (prog # as)"
  shows "GetFlagOpt opts ''-h'' = (False, opts)" "GetFlagOpt opts ''-?'' = (False, opts)" "GetIntOpt opts ''-q'' k = (k, opts)"
    "GetSizeOpt opts ''-nursery'' sc d = (d, opts)" "GetVprocsOpt opts k = (k, None, opts)" "GetIntOpt opts ''-p'' k = (k, opts)"
    "GetStringEqOpt opts ''-gcstats'' ds = (None, opts)" "GetStringEqOpt opts ''-gcstatsfile'' ds = (None, opts)" "args opts = as"
proof -
  have w: "opts_wf opts" and a: "args opts = as" by (simp_all add: opts_def InitOptions_def opts_wf_def args_def)
  have f: "foreign_arg x" if "x \<in> set (args opts)" for x using assms(1) that a by (simp add: list_all_iff)
  have n: "find_arg (strcmp_eq s) opts = None" if "s \<in> {''-h'', ''-?'', ''-q'', ''-nursery'', ''-p''}" for s
    by (rule find_arg_none [OF w]) (use f that in \<open>auto simp: foreign_arg_def\<close>)
  have t: "take 8 x = ''-gcstats''" if "take 12 x = ''-gcstatsfile''" for x :: string
  proof -
    have "take 8 x = take 8 (take 12 x)" by (simp add: min_def)
    then show ?thesis using that by simp
  qed
  have l: "length ''-gcstats'' = 8" "length ''-gcstatsfile'' = 12" "take 8 ''-gcstats'' = ''-gcstats''" "take 12 ''-gcstatsfile'' = ''-gcstatsfile''" by simp_all
  have s: "\<not> strncmp_eq ''-gcstats'' x (length ''-gcstats'')" "\<not> strncmp_eq ''-gcstatsfile'' x (length ''-gcstatsfile'')" if "x \<in> set (args opts)" for x
    unfolding strncmp_eq_def l using f [OF that] t [of x] unfolding foreign_arg_def by metis+
  have e: "eq_loop ''-gcstats'' ds 0 opts = (None, opts)" "eq_loop ''-gcstatsfile'' ds 0 opts = (None, opts)"
    using eq_loop_none [OF w s(1)] eq_loop_none [OF w s(2)] by blast+
  show "GetFlagOpt opts ''-h'' = (False, opts)" "GetFlagOpt opts ''-?'' = (False, opts)" "GetIntOpt opts ''-q'' k = (k, opts)"
    "GetSizeOpt opts ''-nursery'' sc d = (d, opts)" "GetVprocsOpt opts k = (k, None, opts)" "GetIntOpt opts ''-p'' k = (k, opts)"
    using n by (simp_all add: GetFlagOpt_def GetIntOpt_def GetSizeOpt_def GetVprocsOpt_def)
  show "GetStringEqOpt opts ''-gcstats'' ds = (None, opts)" "GetStringEqOpt opts ''-gcstatsfile'' ds = (None, opts)" "args opts = as"
    using e a by (simp_all add: GetStringEqOpt_def)
qed

definition default_params :: HeapParams where
  "default_params = \<lparr>heapScale = \<lparr>HeapScaleNum = 5, HeapScaleDenom = 4\<rparr>, BaseHeapSzB = BASE_GLOBAL_HEAP_SZB, PerVprocHeapSzb = PER_VPROC_HEAP_SZB\<rparr>"

text \<open>The heap \<^verbatim>\<open>HeapInit\<close> leaves when neither file nor options say anything.\<close>

definition start_heap :: "OsEnv \<Rightarrow> Heap" where
  "start_heap os = InitHeapState (os_mem os) (os_chunks os) (os_malloc os) (os_mmap os) (os_completed os)
     (VP_HEAP_SZB div 2) (VP_HEAP_SZB div 10) BASE_GLOBAL_HEAP_SZB"

lemma HeapInit_default:
  assumes "list_all foreign_arg as"
  shows "\<exists>st. HeapInit vp kp os static_config (InitOptions (prog # as)) = Some ((start_heap os, default_params, st), [], InitOptions (prog # as))"
  by (simp add: HeapInit_def static_config_defaults foreign_options [OF assms] ParseGCStatsOptions_def default_params_def start_heap_def
      VP_HEAP_SZB_def MIN_NURSERY_SZB_def)

text \<open>C18: Started with arguments that are none of the runtime's own, on a machine whose topology is well-formed, with the magic numbers in agreement and memory granted, \<^verbatim>\<open>main\<close> reaches its loop with one vproc per hardware thread, each with its own heap; the heap parameters are the built-in defaults, whatever a configuration file says, and all arguments, \<^verbatim>\<open>-config\<close> included, are left to the program.\<close>

lemma rt_main_starts:
  assumes "mantMagic env = runtimeMagic env" "SequentialFlag env = 0" "DiscoverTopology (cpuinfo env) = Some (t, locs)"
    and "topo_wf t" "NumHWThreads t \<le> int MAX_NUM_VPROCS" "list_all foreign_arg as"
    and "grants A (2 * nat (NumHWThreads t)) (start_heap (osEnv env))" "\<And>j. j < nat (NumHWThreads t) \<Longrightarrow> spawnOK env j"
  shows "\<exists>m. rt_main env (prog # as) = Some (Started m) \<and> own_heaps (nat (NumHWThreads t)) locs (mainSys m)
    \<and> mainParams m = default_params \<and> args (mainOpts m) = as"
proof -
  let ?n = "nat (NumHWThreads t)" and ?o = "InitOptions (prog # as)"
  note fo = foreign_options [OF assms(6), of prog]
  have T: "0 < NumHWThreads t" using assms(4) by (simp add: topo_wf_def)
  have locs: "locs = Locations t" using assms(3) by (auto simp: DiscoverTopology_def)
  obtain st where hi: "HeapInit (valp env) (keyp env) (osEnv env) static_config ?o = Some ((start_heap (osEnv env), default_params, st), [], ?o)"
    using HeapInit_default [OF assms(6)] by blast
  have vc: "vproc_count False t ?o = Some ((int ?n, None, False), ?o)"
    using T assms(5) by (simp add: vproc_count_def fo)
  have dl: "dense_layout t (int ?n) ?o = (True, ?o)" using T by (simp add: dense_layout_def)
  have al: "assign_locations t None True ?n = Some locs"
    using assign_dense [OF assms(4), of ?n] Locations_facts [OF assms(4)] T locs by simp
  have ll: "length locs = ?n" using Locations_facts [OF assms(4)] locs by simp
  have i: "bibop_wf (start_heap os)" "nChunks (start_heap os) = 0" "nMmaps (start_heap os) = 0" "freeChunks (NodeHeaps (start_heap os) k) = None" for os k
    by (simp_all add: start_heap_def) (simp_all add: InitHeapState_def)
  have "\<exists>s. VProcInit (spawnOK env) (rawVProc env) False t ?o (start_heap (osEnv env)) = Some (s, ?o) \<and> own_heaps ?n locs s"
    by (rule VProcInit_heaps [OF vc dl al ll _ i(1-3) assms(7) i(4)]) (use Locations_nodes [OF assms(4)] locs assms(8) in blast)+
  then obtain s where s: "VProcInit (spawnOK env) (rawVProc env) False t ?o (start_heap (osEnv env)) = Some (s, ?o)" "own_heaps ?n locs s" by blast
  have "NumVProcs s = NumHWThreads t" using s(2) T by (simp add: own_heaps_def)
  then obtain k tq where "ping_params DFLT_TIME_Q_MS (NumVProcs s) = Some (k, tq)" using T by (auto simp: ping_params_def Let_def)
  then show ?thesis using s assms(1-3) hi by (simp add: rt_main_def fo Let_def)
qed


lemma ping_timeout_witness:
  "\<exists>k. ping_params 100 64 = Some (k, \<lparr>tv_sec = 0, tv_nsec = 24414\<rparr>) \<and> 64 * (24414 :: int) \<le> 1562500"
  using ping_timeout [of 100 64] by auto

lemma ping_loop_round_witness:
  "case ping_loop 2 [Timeout, Timeout] ([ex_vproc, ex_vproc\<lparr>regs := (\<lambda>_. M_TRUE)\<rparr>, ex_vproc], 2) of ((vps', p'), died) \<Rightarrow>
     died = None \<and> length vps' = 3 \<and> limitPtr (vps' ! 0) = 0 \<and> limitPtr (vps' ! 1) = 0x1FF000 \<and> limitPtr (vps' ! 2) = 0"
proof -
  let ?vps = "[ex_vproc, ex_vproc\<lparr>regs := (\<lambda>_. M_TRUE)\<rparr>, ex_vproc]"
  have e: "regs ex_vproc Sleeping \<noteq> M_TRUE" "limitPtr ex_vproc = 0x1FF000" by (simp_all add: ex_vproc_def M_TRUE_def)
  have "2 < length ?vps" "0 < (2 :: int)" "length ?vps \<le> length [Timeout, Timeout] * nat 2" "list_all (\<lambda>w. w = Timeout) [Timeout, Timeout]" by simp_all
  from ping_loop_round [OF this] obtain vps' p' where r: "ping_loop 2 [Timeout, Timeout] (?vps, 2) = ((vps', p'), None)" "length vps' = 3"
    "list_all (\<lambda>(vp, vp'). vp' = (if regs vp Sleeping = M_TRUE then vp else VProcPreempt vp)) (zip ?vps vps')"
    by (cases "ping_loop 2 [Timeout, Timeout] (?vps, 2)") auto
  obtain a b c where "vps' = [a, b, c]" using r(2) by (auto simp: numeral_3_eq_3 length_Suc_conv)
  then show ?thesis using r e by (simp add: VProcPreempt_def)
qed

definition ex_env :: MainEnv where
  "ex_env = \<lparr>mantMagic = 7, runtimeMagic = 7, SequentialFlag = 0,
     cpuinfo = Some [''processor : 0'', ''physical id : 0'', ''core id : 0'', ''cpu cores : 2'', ''processor : 1'', ''core id : 1''],
     osEnv = \<lparr>os_mem = (\<lambda>_. 0), os_chunks = ex_chunk, os_malloc = (\<lambda>_. True), os_mmap = (\<lambda>k sz. Mapped (5000 + word_of_nat k * 2 ^ 24)), os_completed = (\<lambda>_. False)\<rparr>,
     valp = (\<lambda>_. 0), keyp = (\<lambda>_. 0), spawnOK = (\<lambda>_. True), rawVProc = (\<lambda>_. ex_vproc)\<rparr>"

lemma ex_env_topology:
  "DiscoverTopology (cpuinfo ex_env) = Some (\<lparr>NumHWNodes = 1, NumHWCores = 2, NumHWThreads = 2, NumCoresPerNode = 2, NumThdsPerCore = 1\<rparr>,
     Locations \<lparr>NumHWNodes = 1, NumHWCores = 2, NumHWThreads = 2, NumCoresPerNode = 2, NumThdsPerCore = 1\<rparr>)"
proof -
  have "GetNumCPUs (cpuinfo ex_env) = Some \<lparr>NumHWNodes = 1, NumHWCores = 2, NumHWThreads = 2, NumCoresPerNode = 2, NumThdsPerCore = 1\<rparr>"
    by code_simp
  then show ?thesis by (simp add: DiscoverTopology_def)
qed

lemma rt_main_starts_witness:
  "\<exists>m. rt_main ex_env [''prog'', ''-config'', ''big.cfg''] = Some (Started m)
     \<and> own_heaps 2 (Locations \<lparr>NumHWNodes = 1, NumHWCores = 2, NumHWThreads = 2, NumCoresPerNode = 2, NumThdsPerCore = 1\<rparr>) (mainSys m)
     \<and> mainParams m = default_params \<and> args (mainOpts m) = [''-config'', ''big.cfg'']"
proof -
  let ?t = "\<lparr>NumHWNodes = 1, NumHWCores = 2, NumHWThreads = 2, NumCoresPerNode = 2, NumThdsPerCore = 1\<rparr>"
  have g: "grants (\<lambda>j. word_of_nat (5000 + j * 2 ^ 24)) (2 * nat (NumHWThreads ?t)) (start_heap (osEnv ex_env))"
    using ex_grants by (simp add: grants_def mapped_room_def ex_env_def start_heap_def ex_heap_def InitHeapState_def)
  have "\<exists>m. rt_main ex_env (''prog'' # [''-config'', ''big.cfg'']) = Some (Started m)
     \<and> own_heaps (nat (NumHWThreads ?t)) (Locations ?t) (mainSys m) \<and> mainParams m = default_params \<and> args (mainOpts m) = [''-config'', ''big.cfg'']"
    by (rule rt_main_starts [OF _ _ ex_env_topology _ _ _ g])
      (simp_all add: ex_env_def topo_wf_def MAX_NUM_VPROCS_def foreign_arg_def)
  then show ?thesis by simp
qed

lemma rt_main_mismatch_witness:
  "case rt_main (ex_env\<lparr>mantMagic := RUNTIME_MAGIC ([(''atomic'', 0)] @ (''sleeping'', 8) # [(''id'', 24)]),
       runtimeMagic := RUNTIME_MAGIC ([(''atomic'', 0)] @ (''sleeping'', 16) # [(''id'', 24)])\<rparr>) [''prog''] of
     None \<Rightarrow> True | Some Usage \<Rightarrow> True | Some (Started m) \<Rightarrow> False"
proof -
  have "(ucast (8 :: 64 word) :: 32 word) \<noteq> ucast (16 :: 64 word)" by simp
  from rt_main_mismatch [OF _ _ this, of "ex_env\<lparr>mantMagic := RUNTIME_MAGIC ([(''atomic'', 0)] @ (''sleeping'', 8) # [(''id'', 24)]),
       runtimeMagic := RUNTIME_MAGIC ([(''atomic'', 0)] @ (''sleeping'', 16) # [(''id'', 24)])\<rparr>" "[(''atomic'', 0)]" "''sleeping''" "[(''id'', 24)]" "[''prog'']"]
  show ?thesis by auto
qed

end
