(* ===== verification/Basis_Strings.thy ===== *)
theory Basis_Strings
  imports Heap_Init
begin

text \<open>
  Services for compiled code, \<^verbatim>\<open>misc/basis.c\<close>: conversions between numbers and strings, comparison, concatenation
  and splitting of strings, the arguments of the program, reading lines, random numbers and counts. A string in the
  heap is a pair of the address of its bytes and its length; the bytes are followed by a NUL. The lemmas relate the
  services to lists of characters: \<open>string_at\<close> says that a value in memory is a string, \<open>heap_list\<close> that it is a
  list of strings. Floating-point conversions, mathematical functions and printing are left out.
\<close>

subsection \<open>Strings in the heap\<close>

text \<open>\<^verbatim>\<open>SequenceHdr_t\<close>: the data pointer, and the length in the low half of the next word.\<close>

definition seq_data :: "mem \<Rightarrow> Value_t \<Rightarrow> Addr_t" where "seq_data m v = m v"

definition seq_len :: "mem \<Rightarrow> Value_t \<Rightarrow> 32 word" where "seq_len m v = ucast (m (v + WORD_SZB))"

definition byte_at :: "mem \<Rightarrow> Addr_t \<Rightarrow> nat \<Rightarrow> char" where "byte_at m p i = char_of (unat (load_byte m p i))"

text \<open>The C string from byte \<open>i\<close> on; reading on without finding a NUL is \<open>None\<close>.\<close>

partial_function (option) c_str :: "mem \<Rightarrow> Addr_t \<Rightarrow> nat \<Rightarrow> string option" where
  "c_str m p i = (if load_byte m p i = 0 then Some [] else do { s \<leftarrow> c_str m p (i + 1); Some (byte_at m p i # s) })"

definition seq_bytes :: "mem \<Rightarrow> Value_t \<Rightarrow> 64 word list" where
  "seq_bytes m v = map (load_byte m (seq_data m v)) [0..<unat (seq_len m v)]"

subsection \<open>Numbers\<close>

definition isHex :: "mem \<Rightarrow> Addr_t \<Rightarrow> nat \<Rightarrow> nat \<Rightarrow> bool" where
  "isHex m p i len \<longleftrightarrow> len \<ge> 3 \<and> byte_at m p i = CHR ''0'' \<and> (byte_at m p (i + 1) = CHR ''x'' \<or> byte_at m p (i + 1) = CHR ''X'')"

text \<open>Skipping leading white space: the bytes left, and the index of the first of them.\<close>

function skip_space :: "mem \<Rightarrow> Addr_t \<Rightarrow> nat \<Rightarrow> nat \<Rightarrow> nat \<times> nat" where
  "skip_space m p len i = (if len > 0 \<and> isspace (byte_at m p i) then skip_space m p (len - 1) (i + 1) else (len, i))"
  by pat_completeness auto
termination
  by (relation "measure (\<lambda>(m, p, len, i). len)") auto

declare skip_space.simps [simp del]

text \<open>\<^verbatim>\<open>sscanf\<close> with \<^verbatim>\<open>%d\<close>, \<^verbatim>\<open>%x\<close>, \<^verbatim>\<open>%li\<close>, which detects the base, and \<^verbatim>\<open>%lu\<close>.\<close>

definition scan_d :: "string \<Rightarrow> 32 word option" where
  "scan_d s = (case strtol s 10 of (v, e) \<Rightarrow> if length e = length s then None else Some (word_of_int v))"

definition scan_x :: "string \<Rightarrow> 32 word option" where
  "scan_x s = (case strtol s 16 of (v, e) \<Rightarrow> if length e = length s then None else Some (word_of_int v))"

definition scan_li :: "string \<Rightarrow> 64 word option" where
  "scan_li s = (case strtol s 0 of (v, e) \<Rightarrow> if length e = length s then None else Some (word_of_int v))"

definition scan_lu :: "string \<Rightarrow> 64 word option" where
  "scan_lu s = (let (neg, s1) = skip_sign (dropWhile isspace s); ds = takeWhile (is_digit 10) s1;
       v = word_of_nat (min (2 ^ 64 - 1) (digits_val 10 0 ds)) :: 64 word
     in if ds = [] then None else Some (if neg then - v else v))"

text \<open>The result of a conversion as an option value in the heap.\<close>

definition some_word :: "VProc \<Rightarrow> Heap \<Rightarrow> Word_t \<Rightarrow> alloc_res" where
  "some_word vp h n = (case WrapWord vp h n of (w, vp1, h1) \<Rightarrow> Some_cell vp1 h1 w)"

definition M_IntFromString :: "VProc \<Rightarrow> Heap \<Rightarrow> Value_t \<Rightarrow> alloc_res option" where
  "M_IntFromString vp h s =
     (let m = mem h; p = seq_data m s; (len, i) = skip_space m p (nat (sint (seq_len m s))) 0
      in if len > 0
         then do {
           str \<leftarrow> c_str m p i;
           Some (case (if isHex m p i len then scan_x str else scan_d str) of
                   None \<Rightarrow> (M_NONE, vp, h)
                 | Some n \<Rightarrow> some_word vp h (scast n)) }
         else Some (M_NONE, vp, h))"

definition M_LongFromString :: "VProc \<Rightarrow> Heap \<Rightarrow> Value_t \<Rightarrow> alloc_res option" where
  "M_LongFromString vp h s =
     (let m = mem h; p = seq_data m s; (len, i) = skip_space m p (nat (sint (seq_len m s))) 0
      in if len > 0
         then do {
           str \<leftarrow> c_str m p i;
           Some (case (if isHex m p i len then scan_lu str else scan_li str) of
                   None \<Rightarrow> (M_NONE, vp, h)
                 | Some n \<Rightarrow> some_word vp h n) }
         else Some (M_NONE, vp, h))"

definition M_IntToString :: "VProc \<Rightarrow> Heap \<Rightarrow> 32 word \<Rightarrow> alloc_res option" where
  "M_IntToString vp h n = AllocString vp h (show_int (sint n))"

definition M_LongToString :: "VProc \<Rightarrow> Heap \<Rightarrow> 64 word \<Rightarrow> alloc_res option" where
  "M_LongToString vp h n = AllocString vp h (show_int (sint n))"

definition M_Word64ToString :: "VProc \<Rightarrow> Heap \<Rightarrow> 64 word \<Rightarrow> alloc_res option" where
  "M_Word64ToString vp h n = AllocString vp h (show_nat (unat n))"

text \<open>The unconsumed arguments as a list of strings, built from the end.\<close>

fun arguments_loop :: "string list \<Rightarrow> VProc \<Rightarrow> Heap \<Rightarrow> Value_t \<Rightarrow> alloc_res option" where
  "arguments_loop [] vp h l = Some (l, vp, h)"
| "arguments_loop (a # as) vp h l = do {
     (s, vp1, h1) \<leftarrow> AllocString vp h a;
     case Cons_cell vp1 h1 s l of (l', vp2, h2) \<Rightarrow> arguments_loop as vp2 h2 l' }"

definition M_Arguments :: "Options \<Rightarrow> VProc \<Rightarrow> Heap \<Rightarrow> alloc_res option" where
  "M_Arguments opts vp h = (if NumOptions opts > 0 then arguments_loop (rev (args opts)) vp h M_NIL else Some (M_NIL, vp, h))"

subsection \<open>Comparing, concatenating, splitting\<close>

definition M_StringSame :: "mem \<Rightarrow> Value_t \<Rightarrow> Value_t \<Rightarrow> bool" where
  "M_StringSame m a b =
     (if seq_len m a \<noteq> seq_len m b then False
      else list_all (\<lambda>i. byte_at m (seq_data m a) i = byte_at m (seq_data m b) i) [0..<unat (seq_len m a)])"

definition M_StringConcat2 :: "VProc \<Rightarrow> Heap \<Rightarrow> Value_t \<Rightarrow> Value_t \<Rightarrow> alloc_res option" where
  "M_StringConcat2 vp h a b =
     (let m = mem h
      in if seq_len m a = 0 then Some (b, vp, h)
         else if seq_len m b = 0 then Some (a, vp, h)
         else let len = seq_len m a + seq_len m b;
                  (data, vp1, h1) = AllocRaw vp h (len + 1);
                  m1 = memcpy_from (mem h1) data 0 (seq_bytes (mem h1) a);
                  m2 = memcpy_from m1 data (unat (seq_len m a)) (seq_bytes m1 b);
                  m3 = store_byte m2 data (unat len) 0
              in AllocNonUniform vp1 (set_mem h1 m3) [PTR_arg data, INT_arg (uint len)])"

partial_function (option) concat_len :: "mem \<Rightarrow> Value_t \<Rightarrow> 32 word \<Rightarrow> 32 word option" where
  "concat_len m l len = (if l = M_NIL then Some len else concat_len m (m (l + WORD_SZB)) (len + seq_len m (m l)))"

partial_function (option) concat_copy :: "Addr_t \<Rightarrow> mem \<Rightarrow> Value_t \<Rightarrow> nat \<Rightarrow> (mem \<times> nat) option" where
  "concat_copy data m l i =
     (if l = M_NIL then Some (m, i)
      else let m1 = memcpy_from m data i (seq_bytes m (m l))
           in concat_copy data m1 (m1 (l + WORD_SZB)) (i + unat (seq_len m (m l))))"

definition M_StringConcatList :: "VProc \<Rightarrow> Heap \<Rightarrow> Value_t \<Rightarrow> alloc_res option" where
  "M_StringConcatList vp h l = do {
     len \<leftarrow> concat_len (mem h) l 0;
     case AllocRaw vp h (len + 1) of (data, vp1, h1) \<Rightarrow> do {
       (m, i) \<leftarrow> concat_copy data (mem h1) l 0;
       AllocNonUniform vp1 (set_mem h1 (store_byte m data i 0)) [PTR_arg data, INT_arg (uint len)] } }"

text \<open>\<^verbatim>\<open>strtok\<close> until it returns null: the tokens in order.\<close>

function strtok_all :: "string \<Rightarrow> string \<Rightarrow> string list" where
  "strtok_all sep s = (let r = dropWhile (\<lambda>c. c \<in> set sep) s
     in if r = [] then [] else takeWhile (\<lambda>c. c \<notin> set sep) r # strtok_all sep (dropWhile (\<lambda>c. c \<notin> set sep) r))"
  by pat_completeness auto
termination
proof (relation "measure (\<lambda>(sep, s). length s)", simp, goal_cases)
  case (1 sep s r)
  obtain c cs where r: "dropWhile (\<lambda>c. c \<in> set sep) s = c # cs" using 1 by (cases "dropWhile (\<lambda>c. c \<in> set sep) s") auto
  have "c \<notin> set sep" using r by (metis dropWhile_eq_Cons_conv)
  then have "length (dropWhile (\<lambda>c. c \<notin> set sep) (c # cs)) \<le> length cs" by (simp add: length_dropWhile_le)
  also have "length (c # cs) \<le> length s" using r length_dropWhile_le [of "\<lambda>c. c \<in> set sep" s] by simp
  ultimately show ?case using 1(1) r by simp
qed

declare strtok_all.simps [simp del]

definition M_StringTokenize :: "VProc \<Rightarrow> Heap \<Rightarrow> Value_t \<Rightarrow> Value_t \<Rightarrow> alloc_res option" where
  "M_StringTokenize vp h str sep = do {
     s \<leftarrow> c_str (mem h) (seq_data (mem h) str) 0;
     d \<leftarrow> c_str (mem h) (seq_data (mem h) sep) 0;
     arguments_loop (strtok_all d s) vp h M_NIL }"

subsection \<open>Other services\<close>

text \<open>The buffer has 1024 bytes, but \<^verbatim>\<open>fgets\<close> is told that it has 1025; \<open>None\<close> is a write outside it.\<close>

definition M_TextIOInputLine :: "VProc \<Rightarrow> Heap \<Rightarrow> InStrm \<Rightarrow> (alloc_res \<times> InStrm) option" where
  "M_TextIOInputLine vp h inStrm = (case fgets 1024 inStrm of
     (None, s) \<Rightarrow> Some ((M_NONE, vp, h), s)
   | (Some buf, s) \<Rightarrow> if length buf + 1 > 1024 then None
       else do { (v, vp1, h1) \<leftarrow> AllocString vp h (c_string buf); Some (Some_cell vp1 h1 v, s) })"

definition M_Test :: "VProc \<Rightarrow> Heap \<Rightarrow> alloc_res" where
  "M_Test vp h = (case AllocUniform vp h [2] of (v, vp1, h1) \<Rightarrow> Some_cell vp1 h1 v)"

definition M_GetTime :: "int \<times> int \<Rightarrow> 64 word" where
  "M_GetTime t = word_of_int (1000000 * fst t + snd t)"

definition M_GetNumProcs :: "topology \<Rightarrow> int" where "M_GetNumProcs t = NumHWThreads t"

definition M_GetNumVProcs :: "VPSys \<Rightarrow> int" where "M_GetNumVProcs s = NumVProcs s"

text \<open>\<open>rnd\<close> is the result of \<^verbatim>\<open>random ()\<close>; the remainder is taken in 64-bit unsigned arithmetic, \<open>None\<close> is a division by zero.\<close>

definition M_Random :: "Word_t \<Rightarrow> Word_t \<Rightarrow> Word_t \<Rightarrow> Word_t option" where
  "M_Random rnd lo hi = (if hi - lo = 0 then None else Some (rnd mod (hi - lo) + lo))"

definition M_RandomInt :: "Word_t \<Rightarrow> 32 word \<Rightarrow> 32 word \<Rightarrow> 32 word option" where
  "M_RandomInt rnd lo hi = map_option ucast (M_Random rnd (scast lo) (scast hi))"

text \<open>The first argument of \<^verbatim>\<open>inVPHeap\<close> should be the base of the heap; the code passes the vproc structure.\<close>

definition M_AssertNotLocalPtr :: "Addr_t \<Rightarrow> Value_t \<Rightarrow> unit option" where
  "M_AssertNotLocalPtr vprocAddr item = (if inVPHeap vprocAddr item then None else Some ())"

subsection \<open>Strings in memory\<close>

text \<open>The string \<open>s\<close> as an object at \<open>v\<close>, with header pair and bytes below the word \<open>b\<close>.\<close>

definition string_at :: "mem \<Rightarrow> nat \<Rightarrow> Value_t \<Rightarrow> string \<Rightarrow> bool" where
  "string_at m b v s \<longleftrightarrow> (\<exists>q d. v = wadr q \<and> 0 < q \<and> q + 1 < b \<and> m (wadr q) = wadr d \<and> m (wadr (q + 1)) = word_of_nat (length s)
     \<and> length s < 2 ^ 31 \<and> d + (length s + 8) div 8 \<le> b
     \<and> (\<forall>k\<le>length s. load_byte m (wadr d) k = (if k < length s then of_char (s ! k) else 0)))"

lemma load_byte_word: "load_byte m (wadr d) k = get_byte (m (wadr (d + k div 8))) (k mod 8)"
proof -
  have "wadr d + word_of_nat (8 * (k div 8)) = wadr (d + k div 8)" using wadr_add [of d "k div 8"] by simp
  then show ?thesis by (simp only: load_byte_def)
qed

lemma string_at_frame:
  assumes "string_at m b v s" "\<And>k. k < b \<Longrightarrow> m' (wadr k) = m (wadr k)"
  shows "string_at m' b v s"
proof -
  obtain q d where q: "v = wadr q" "0 < q" "q + 1 < b" "m (wadr q) = wadr d" "m (wadr (q + 1)) = word_of_nat (length s)"
    "length s < 2 ^ 31" "d + (length s + 8) div 8 \<le> b" "\<forall>k\<le>length s. load_byte m (wadr d) k = (if k < length s then of_char (s ! k) else 0)"
    using assms(1) unfolding string_at_def by blast
  have "load_byte m' (wadr d) k = load_byte m (wadr d) k" if "k \<le> length s" for k
  proof -
    have "k div 8 \<le> length s div 8" using that by (rule div_le_mono)
    then have "d + k div 8 < b" using q(7) by simp
    then show ?thesis using assms(2) by (simp add: load_byte_word)
  qed
  then show ?thesis unfolding string_at_def using q assms(2) by (intro exI [of _ q] exI [of _ d]) auto
qed

lemma string_at_len: "string_at m b v s \<Longrightarrow> seq_len m v = word_of_nat (length s) \<and> unat (seq_len m v) = length s"
proof -
  assume "string_at m b v s"
  then obtain q where q: "v = wadr q" "m (wadr (q + 1)) = word_of_nat (length s)" "length s < 2 ^ 31" unfolding string_at_def by blast
  have u: "seq_len m v = (word_of_nat (length s) :: 32 word)"
    using q by (simp add: seq_len_def wadr_Suc unsigned_of_nat take_bit_nat_eq_self)
  then show ?thesis using q(3) by (simp add: unat_of_nat)
qed

lemma unat_seq_len: "string_at m b v s \<Longrightarrow> unat (seq_len m v) = length s"
  by (rule string_at_len [THEN conjunct2])

lemma sint_seq_len: "string_at m b v s \<Longrightarrow> nat (sint (seq_len m v)) = length s"
proof -
  assume a: "string_at m b v s"
  then have "length s < 2 ^ 31" unfolding string_at_def by blast
  then have "sint (word_of_nat (length s) :: 32 word) = int (length s)"
    by (simp add: signed_of_nat signed_take_bit_int_eq_self)
  then show ?thesis using string_at_len [OF a] by simp
qed

lemma string_at_bytes: "string_at m b v s \<Longrightarrow> seq_bytes m v = map of_char s"
proof -
  assume a: "string_at m b v s"
  have u: "unat (seq_len m v) = length s" by (rule string_at_len [OF a, THEN conjunct2])
  from a obtain q d where q: "v = wadr q" "m (wadr q) = wadr d" "\<forall>k\<le>length s. load_byte m (wadr d) k = (if k < length s then of_char (s ! k) else 0)"
    unfolding string_at_def by blast
  show ?thesis unfolding seq_bytes_def u by (rule nth_equalityI) (use q in \<open>auto simp: seq_data_def\<close>)
qed

lemma of_char_unat: "char_of (unat (of_char c :: 64 word)) = c"
proof -
  have "(of_char c :: 64 word) = of_nat (of_char c)" by (simp only: of_nat_of_char)
  moreover have "(of_char c :: nat) < 2 ^ LENGTH(64)" by (rule less_trans [OF nat_of_char_less_256]) simp
  ultimately have "unat (of_char c :: 64 word) = of_char c" by (simp only: unat_of_nat mod_less)
  then show ?thesis by simp
qed

lemma string_at_byte: "string_at m b v s \<Longrightarrow> i < length s \<Longrightarrow> byte_at m (seq_data m v) i = s ! i"
  unfolding string_at_def by (auto simp: byte_at_def seq_data_def of_char_unat)

lemma of_char_zero: "(of_char c :: 64 word) = 0 \<longleftrightarrow> c = CHR 0x00"
proof
  assume "(of_char c :: 64 word) = 0"
  then have "char_of (unat (of_char c :: 64 word)) = char_of (0 :: nat)" by simp
  moreover have "char_of (0 :: nat) = CHR 0x00" by (simp add: char_of_def)
  ultimately show "c = CHR 0x00" by (simp add: of_char_unat)
qed simp

lemma c_str_at:
  assumes "string_at m b v s" "CHR 0x00 \<notin> set s" "i \<le> length s"
  shows "c_str m (seq_data m v) i = Some (drop i s)"
proof -
  obtain q d where q: "v = wadr q" "m (wadr q) = wadr d" "\<forall>k\<le>length s. load_byte m (wadr d) k = (if k < length s then of_char (s ! k) else 0)"
    using assms(1) unfolding string_at_def by blast
  show ?thesis
    using assms(3)
  proof (induction "length s - i" arbitrary: i)
    case 0
    then have "i = length s" by simp
    then show ?case using q by (subst c_str.simps) (simp add: seq_data_def)
  next
    case (Suc n)
    then have i: "i < length s" by simp
    then have "s ! i \<noteq> CHR 0x00" using assms(2) nth_mem by metis
    then have "load_byte m (seq_data m v) i \<noteq> 0" using q i by (simp add: seq_data_def of_char_zero)
    moreover have "c_str m (seq_data m v) (i + 1) = Some (drop (i + 1) s)" using Suc i by (intro Suc.hyps) auto
    ultimately show ?case using i string_at_byte [OF assms(1) i] by (subst c_str.simps) (simp add: Cons_nth_drop_Suc)
  qed
qed

lemma M_StringSame_eq:
  assumes "string_at m b v s" "string_at m b w t"
  shows "M_StringSame m v w \<longleftrightarrow> s = t"
proof -
  have l: "seq_len m v = seq_len m w \<longleftrightarrow> length s = length t"
    using string_at_len [OF assms(1)] string_at_len [OF assms(2)] by metis
  have "(\<forall>i<length s. s ! i = t ! i) \<longleftrightarrow> s = t" if "length s = length t" using that by (auto intro: nth_equalityI)
  then show ?thesis unfolding M_StringSame_def l
    using string_at_len [OF assms(1)] string_at_byte [OF assms(1)] string_at_byte [OF assms(2)] by (auto simp: list_all_iff)
qed

subsection \<open>Concatenation\<close>

lemma memcpy_append: "memcpy_from m a i (xs @ ys) = memcpy_from (memcpy_from m a i xs) a (i + length xs) ys"
  by (induction xs arbitrary: m i) auto

lemma memcpy_below: "n + (i + length bs) div 8 < 2 ^ 61 \<Longrightarrow> k < n \<Longrightarrow> memcpy_from m (wadr n) i bs (wadr k) = m (wadr k)"
proof (rule memcpy_outside)
  fix j assume a: "n + (i + length bs) div 8 < 2 ^ 61" "k < n" "i \<le> j" "j < i + length bs"
  then have "j div 8 \<le> (i + length bs) div 8" by (intro div_le_mono) simp
  then have "n + j div 8 < 2 ^ 61" "k < 2 ^ 61" using a by linarith+
  then show "wadr k \<noteq> wadr (n + j div 8)" using a by simp
qed

lemma list_at_frame:
  "list_at m b v vs \<Longrightarrow> (\<And>k. k < b \<Longrightarrow> m' (wadr k) = m (wadr k)) \<Longrightarrow> list_at m' b v vs"
proof (induction vs arbitrary: v)
  case (Cons x vs)
  then obtain k where k: "v = wadr k" "0 < k" "k + 1 < b" "m v = x" "list_at m b (m (v + WORD_SZB)) vs" by auto
  have "m' v = x" "m' (v + WORD_SZB) = m (v + WORD_SZB)" using k Cons.prems(2) by (simp_all add: wadr_Suc)
  then show ?case using k Cons.IH [OF k(5) Cons.prems(2)] by auto
qed simp

lemma list_at_not_nil: "list_at m b v (x # vs) \<Longrightarrow> b < 2 ^ 61 \<Longrightarrow> v \<noteq> M_NIL \<and> m v = x \<and> list_at m b (m (v + WORD_SZB)) vs"
  using wadr_not_NIL by auto

lemma concat_len_list:
  "list_at m b v vs \<Longrightarrow> list_all2 (string_at m b) vs ss \<Longrightarrow> b < 2 ^ 61 \<Longrightarrow> concat_len m v acc = Some (acc + word_of_nat (length (concat ss)))"
proof (induction vs arbitrary: v ss acc)
  case Nil then show ?case by (subst concat_len.simps) simp
next
  case (Cons x vs)
  from Cons.prems(2) obtain s ss' where ss: "ss = s # ss'" "string_at m b x s" "list_all2 (string_at m b) vs ss'" by (auto simp: list_all2_Cons1)
  note v = list_at_not_nil [OF Cons.prems(1,3)]
  show ?case using v Cons.IH [OF _ ss(3) Cons.prems(3)] string_at_len [OF ss(2)]
    by (subst concat_len.simps) (simp add: ss(1) add.assoc)
qed

lemma concat_copy_list:
  assumes "list_at m b v vs" "list_all2 (string_at m b) vs ss" "b \<le> n" "n + (i + length (concat ss)) div 8 < 2 ^ 61"
  shows "concat_copy (wadr n) m v i = Some (memcpy_from m (wadr n) i (map of_char (concat ss)), i + length (concat ss))"
  using assms
proof (induction vs arbitrary: m v ss i)
  case Nil then show ?case by (subst concat_copy.simps) simp
next
  case (Cons x vs)
  from Cons.prems(2) obtain s ss' where ss: "ss = s # ss'" "string_at m b x s" "list_all2 (string_at m b) vs ss'" by (auto simp: list_all2_Cons1)
  have b: "b < 2 ^ 61" using Cons.prems(3,4) by linarith
  note v = list_at_not_nil [OF Cons.prems(1) b]
  let ?m = "memcpy_from m (wadr n) i (map of_char s)"
  have "(i + length s) div 8 \<le> (i + length (concat ss)) div 8" by (rule div_le_mono) (simp add: ss(1))
  then have fr: "?m (wadr k) = m (wadr k)" if "k < b" for k
    using that Cons.prems(3,4) by (intro memcpy_below) auto
  have vs: "list_all2 (string_at ?m b) vs ss'"
    using ss(3) by (rule list_all2_mono) (rule string_at_frame, auto simp: fr)
  have ls: "list_at ?m b (m (v + WORD_SZB)) vs" by (rule list_at_frame [OF v [THEN conjunct2, THEN conjunct2]]) (rule fr)
  obtain k where k: "v = wadr k" "k + 1 < b" using Cons.prems(1) by auto
  have nx: "?m (v + WORD_SZB) = m (v + WORD_SZB)" "?m v = m v" using fr [of "Suc k"] fr [of k] k by (simp_all add: wadr_Suc)
  have len: "unat (seq_len ?m x) = length s" by (rule unat_seq_len, rule string_at_frame [OF ss(2) fr])
  have "concat_copy (wadr n) ?m (m (v + WORD_SZB)) (i + length s) = Some (memcpy_from ?m (wadr n) (i + length s) (map of_char (concat ss')), i + length s + length (concat ss'))"
    by (rule Cons.IH [OF ls vs Cons.prems(3)]) (use Cons.prems(4) ss(1) in \<open>simp add: add.assoc\<close>)
  then show ?case using v string_at_bytes [OF ss(2)] nx len unat_seq_len [OF ss(2)]
    by (subst concat_copy.simps) (simp add: ss(1) Let_def memcpy_append add.assoc)
qed

text \<open>Concatenating a list of heap strings is the same, to the last bit of memory and state, as allocating the concatenated string.\<close>

lemma M_StringConcatList_alloc:
  assumes "allocPtr vp = wadr n" "0 < n" "list_at (mem h) (n - 1) l vs" "list_all2 (string_at (mem h) (n - 1)) vs ss"
    and "length (concat ss) < 2 ^ 31 - 1" "n + (length (concat ss) + 8) div 8 + 4 < 2 ^ 61"
  shows "M_StringConcatList vp h l = AllocString vp h (concat ss)"
proof -
  let ?s = "concat ss" let ?L = "length (concat ss)"
  have n1: "n - 1 < 2 ^ 61" using assms(6) by linarith
  have len: "concat_len (mem h) l 0 = Some (word_of_nat ?L)" using concat_len_list [OF assms(3,4) n1, of 0] by simp
  have w: "uint (word_of_nat k :: 32 word) = int k" if "k < 2 ^ 32" for k
    using take_bit_nat_eq_self [of k 32] that by (simp only: unsigned_of_nat len_bit0 len_num1) simp
  have "word_of_nat ?L + 1 = (word_of_nat (?L + 1) :: 32 word)" by simp
  then have u: "uint (word_of_nat ?L + 1 :: 32 word) = int ?L + 1" "uint (word_of_nat ?L :: 32 word) = int ?L"
    using w [of "?L + 1"] w [of ?L] assms(5) by (simp_all only: of_nat_add of_nat_1) simp_all
  let ?m0 = "(mem h)(wadr n - WORD_SZB := RAW_HDR (BYTES_TO_WORDS (int ?L + 1)))"
  have fr: "?m0 (wadr k) = mem h (wadr k)" if "k < n - 1" for k using that assms(2,6) by (simp add: wadr_pred)
  have l0: "list_at ?m0 (n - 1) l vs" by (rule list_at_frame [OF assms(3)]) (rule fr)
  have s0: "list_all2 (string_at ?m0 (n - 1)) vs ss"
    using assms(4) by (rule list_all2_mono) (erule string_at_frame, rule fr)
  have cp: "concat_copy (wadr n) ?m0 l 0 = Some (memcpy_from ?m0 (wadr n) 0 (map of_char ?s), ?L)"
  proof -
    have "(0 + ?L) div 8 \<le> (?L + 8) div 8" by (rule div_le_mono) simp
    then have "n + (0 + ?L) div 8 < 2 ^ 61" using assms(6) by linarith
    then show ?thesis using concat_copy_list [OF l0 s0, of n 0] by simp
  qed
  have "memcpy_from ?m0 (wadr n) 0 (map of_char ?s @ [0]) = store_byte (memcpy_from ?m0 (wadr n) 0 (map of_char ?s)) (wadr n) ?L 0"
    by (simp add: memcpy_append)
  then show ?thesis
    using len cp by (simp add: M_StringConcatList_def AllocString_def AllocRaw_def Let_def u assms(1) set_mem_def)
qed


subsection \<open>Numbers and strings\<close>

lemma AllocString_string:
  fixes n :: nat and s :: string
  defines "w \<equiv> (length s + 8) div 8"
  assumes "allocPtr vp = wadr n" "0 < n" "n + w + 4 < 2 ^ 61" "length s < 2 ^ 31 - 1"
  shows "\<exists>h'. AllocString vp h s = Some (wadr (n + w + 1), vp\<lparr>allocPtr := wadr (n + w + 4)\<rparr>, h') \<and> string_at (mem h') (n + w + 3) (wadr (n + w + 1)) s"
proof -
  obtain h' where h: "AllocString vp h s = Some (wadr (n + w + 1), vp\<lparr>allocPtr := wadr (n + w + 4)\<rparr>, h')"
    "\<forall>k\<le>length s. load_byte (mem h') (wadr n) k = (if k < length s then of_char (s ! k) else 0)"
    "object_at (mem h') (n + w + 1) (MIXED_HDR 4 2) [wadr n, word_of_int (int (length s))]"
    using AllocString_stores [OF assms(2,3), of s] assms(4,5) unfolding w_def by blast
  have "mem h' (wadr (n + w + 1)) = wadr n" "mem h' (wadr (n + w + 1 + 1)) = word_of_nat (length s)"
    using h(3) unfolding object_at_def by (auto simp: numeral_2_eq_2 less_Suc_eq)
  then have "string_at (mem h') (n + w + 3) (wadr (n + w + 1)) s"
    unfolding string_at_def using h(2) assms(5) by (intro exI [of _ "n + w + 1"] exI [of _ n]) (simp add: w_def)
  then show ?thesis using h(1) by blast
qed

lemma some_word_holds:
  assumes "allocPtr vp = wadr n" "0 < n" "n + 5 < 2 ^ 61"
  shows "\<exists>r vp' h'. some_word vp h k = (r, vp', h') \<and> mem h' (mem h' r) = k"
proof -
  let ?h1 = "set_mem h ((mem h)(wadr n - WORD_SZB := RAW_HDR 1, wadr n := k))" and ?vp1 = "vp\<lparr>allocPtr := wadr (n + 2)\<rparr>"
  have w: "WrapWord vp h k = (wadr n, ?vp1, ?h1)" using assms(1) wadr_add [of n 2] by (simp add: WrapWord_def Let_def)
  have pre: "allocPtr ?vp1 = wadr (n + 2)" "0 < n + 2" "n + 2 + length [wadr n] + 1 < 2 ^ 61" "length [wadr n] < 2 ^ 31" using assms(3) by simp_all
  have e: "n + 2 + length [wadr n] + 1 = n + 4" "int (length [wadr n]) = 1" "n + 2 + length [wadr n] = n + 3" "n + 2 - 1 = n + 1" by simp_all
  obtain vp' h' where h: "AllocUniform ?vp1 ?h1 [wadr n] = (wadr (n + 2), vp', h')"
    "object_at (mem h') (n + 2) (VEC_HDR 1) [wadr n]" "same_outside (mem ?h1) (mem h') (n + 1) (n + 3)"
    using AllocUniform_object [OF pre, of ?h1] unfolding e by blast
  have "mem h' (wadr (n + 2)) = wadr n" using h(2) unfolding object_at_def by simp
  moreover have "mem h' (wadr n) = k" using h(3) assms(3) unfolding same_outside_def by (simp add: set_mem_def)
  ultimately show ?thesis using w h(1) by (simp add: some_word_def Some_cell_def)
qed

lemma show_int_shape: "\<exists>c cs. show_int i = c # cs \<and> \<not> isspace c \<and> (\<forall>d\<in>set cs. d \<noteq> CHR ''x'' \<and> d \<noteq> CHR ''X'' \<and> d \<noteq> CHR 0x00) \<and> c \<noteq> CHR 0x00"
proof -
  have d: "c \<noteq> CHR ''x'' \<and> c \<noteq> CHR ''X'' \<and> c \<noteq> CHR 0x00 \<and> \<not> isspace c" if "c \<in> set (show_nat n)" for c n
  proof -
    from bspec [OF show_nat_digits that] obtain e where e: "e < 10" "c = digit_char e" by (elim exE conjE)
    have v: "digit_val c = Some e" using e by simp
    have o: "digit_val CHR ''x'' = Some 33" "digit_val CHR ''X'' = Some 33" "digit_val CHR 0x00 = None" by (simp_all add: digit_val_def)
    have n: "Some e \<noteq> Some 33" using e(1) by simp
    have "c \<noteq> CHR ''x''" "c \<noteq> CHR ''X''" "c \<noteq> CHR 0x00" using v o n by (metis, metis, metis option.distinct(1))
    then show ?thesis using e by simp
  qed
  show ?thesis
  proof (cases "i < 0")
    case True
    then show ?thesis using d [of _ "nat (- i)"] by (auto simp: show_int_def isspace_def)
  next
    case False
    obtain c cs where "show_nat (nat i) = c # cs" by (cases "show_nat (nat i)") auto
    then show ?thesis using d [of _ "nat i"] False by (auto simp: show_int_def)
  qed
qed

lemma show_int_conv:
  assumes "string_at m b v (show_int i)"
  shows "skip_space m (seq_data m v) (nat (sint (seq_len m v))) 0 = (length (show_int i), 0)" "0 < length (show_int i)"
    "c_str m (seq_data m v) 0 = Some (show_int i)" "\<not> isHex m (seq_data m v) 0 (length (show_int i))"
proof -
  obtain c cs where s: "show_int i = c # cs" "\<not> isspace c" "\<forall>d\<in>set cs. d \<noteq> CHR ''x'' \<and> d \<noteq> CHR ''X'' \<and> d \<noteq> CHR 0x00" "c \<noteq> CHR 0x00"
    using show_int_shape by blast
  have b: "byte_at m (seq_data m v) 0 = c" using string_at_byte [OF assms, of 0] s(1) by simp
  show "0 < length (show_int i)" using s(1) by simp
  show "skip_space m (seq_data m v) (nat (sint (seq_len m v))) 0 = (length (show_int i), 0)"
    unfolding sint_seq_len [OF assms] using b s(2) by (subst skip_space.simps) simp
  show "c_str m (seq_data m v) 0 = Some (show_int i)" using c_str_at [OF assms, of 0] s by auto
  show "\<not> isHex m (seq_data m v) 0 (length (show_int i))"
  proof
    assume "isHex m (seq_data m v) 0 (length (show_int i))"
    then have h: "1 < length (show_int i)" "show_int i ! 1 = CHR ''x'' \<or> show_int i ! 1 = CHR ''X''"
      using string_at_byte [OF assms, of 1] by (auto simp: isHex_def)
    then have "cs ! 0 \<in> set cs" "show_int i ! 1 = cs ! 0" using s(1) by auto
    then show False using h s(3) by auto
  qed
qed

lemma clamp_long_sint: "clamp_long (sint (n :: 64 word)) = sint n" "clamp_long (sint (k :: 32 word)) = sint k"
  using sint_range_size [of n] sint_range_size [of k] by (auto simp: clamp_long_def word_size)

lemma length_show_nat: "n < 10 ^ Suc d \<Longrightarrow> length (show_nat n) \<le> Suc d"
proof (induction d arbitrary: n)
  case 0 then show ?case by (subst show_nat.simps) simp
next
  case (Suc d)
  have "length (show_nat (n div 10)) \<le> Suc d" using Suc.prems by (intro Suc.IH) auto
  then show ?case by (subst show_nat.simps) simp
qed

lemma length_show_int: "\<bar>i\<bar> \<le> 2 ^ 63 \<Longrightarrow> length (show_int i) \<le> 20"
proof -
  assume i: "\<bar>i\<bar> \<le> 2 ^ 63"
  have "length (show_nat m) \<le> Suc 18" if "m \<le> 2 ^ 63" for m
    by (rule length_show_nat) (rule le_less_trans [OF that], simp)
  then have "length (show_nat (nat i)) \<le> Suc 18" "length (show_nat (nat (- i))) \<le> Suc 18" using i by simp_all
  then show ?thesis by (simp add: show_int_def)
qed

lemma to_string_from:
  assumes "allocPtr vp = wadr n" "0 < n" "n + 40 < 2 ^ 61" "\<bar>i\<bar> \<le> 2 ^ 63"
  shows "\<exists>v b h' n'. AllocString vp h (show_int i) = Some (v, vp\<lparr>allocPtr := wadr n'\<rparr>, h') \<and> string_at (mem h') b v (show_int i) \<and> 0 < n' \<and> n' + 5 < 2 ^ 61"
proof -
  have l: "length (show_int i) \<le> 20" by (rule length_show_int [OF assms(4)])
  then have "(length (show_int i) + 8) div 8 \<le> 3" by simp
  then have b: "n + (length (show_int i) + 8) div 8 + 4 + 5 < 2 ^ 61" using assms(3) by linarith
  show ?thesis using AllocString_string [OF assms(1,2), of "show_int i" h] b l by fastforce
qed

text \<open>Converting a 32-bit or a 64-bit integer to a string and the string back succeeds and gives the integer back, boxed in an option.\<close>

lemma string_numbers_roundtrip:
  assumes "allocPtr vp = wadr n" "0 < n" "n + 40 < 2 ^ 61"
  shows "(case M_IntToString vp h k of None \<Rightarrow> False | Some (v, vp1, h1) \<Rightarrow>
      (case M_IntFromString vp1 h1 v of None \<Rightarrow> False | Some (r, vp2, h2) \<Rightarrow> mem h2 (mem h2 r) = scast k))
    \<and> (case M_LongToString vp h j of None \<Rightarrow> False | Some (v, vp1, h1) \<Rightarrow>
      (case M_LongFromString vp1 h1 v of None \<Rightarrow> False | Some (r, vp2, h2) \<Rightarrow> mem h2 (mem h2 r) = j))"
proof
  have "\<bar>sint k\<bar> \<le> 2 ^ 63" by (rule abs_leI) (use sint_range_size [of k] in \<open>auto simp: word_size\<close>)
  moreover have "\<bar>sint j\<bar> \<le> 2 ^ 63" by (rule abs_leI) (use sint_range_size [of j] in \<open>auto simp: word_size\<close>)
  moreover note ab = calculation
  have ne: "length (show_int i) \<noteq> 0" for i by (simp add: show_int_def)
  obtain v b h1 m where 1: "AllocString vp h (show_int (sint k)) = Some (v, vp\<lparr>allocPtr := wadr m\<rparr>, h1)" "string_at (mem h1) b v (show_int (sint k))" "0 < m" "m + 5 < 2 ^ 61"
    using to_string_from [OF assms ab(1)] by blast
  have "scan_d (show_int (sint k)) = Some k" using ne by (simp add: scan_d_def strtol_show_int clamp_long_sint)
  then have f: "M_IntFromString (vp\<lparr>allocPtr := wadr m\<rparr>) h1 v = Some (some_word (vp\<lparr>allocPtr := wadr m\<rparr>) h1 (scast k))"
    using show_int_conv [OF 1(2)] by (simp add: M_IntFromString_def Let_def)
  obtain r vp2 h2 where r: "some_word (vp\<lparr>allocPtr := wadr m\<rparr>) h1 (scast k) = (r, vp2, h2)" "mem h2 (mem h2 r) = scast k"
    using some_word_holds [of "vp\<lparr>allocPtr := wadr m\<rparr>" m h1 "scast k"] 1(3,4) by auto
  show "case M_IntToString vp h k of None \<Rightarrow> False | Some (v, vp1, h1) \<Rightarrow>
      (case M_IntFromString vp1 h1 v of None \<Rightarrow> False | Some (r, vp2, h2) \<Rightarrow> mem h2 (mem h2 r) = scast k)"
    unfolding M_IntToString_def 1(1) option.case prod.case f r(1) by (rule r(2))
  obtain v b h1 m where 2: "AllocString vp h (show_int (sint j)) = Some (v, vp\<lparr>allocPtr := wadr m\<rparr>, h1)" "string_at (mem h1) b v (show_int (sint j))" "0 < m" "m + 5 < 2 ^ 61"
    using to_string_from [OF assms ab(2)] by blast
  have "scan_li (show_int (sint j)) = Some j" using ne by (simp add: scan_li_def strtol_show_int_detect clamp_long_sint)
  then have f: "M_LongFromString (vp\<lparr>allocPtr := wadr m\<rparr>) h1 v = Some (some_word (vp\<lparr>allocPtr := wadr m\<rparr>) h1 j)"
    using show_int_conv [OF 2(2)] by (simp add: M_LongFromString_def Let_def)
  obtain r vp2 h2 where r: "some_word (vp\<lparr>allocPtr := wadr m\<rparr>) h1 j = (r, vp2, h2)" "mem h2 (mem h2 r) = j"
    using some_word_holds [of "vp\<lparr>allocPtr := wadr m\<rparr>" m h1 j] 2(3,4) by auto
  show "case M_LongToString vp h j of None \<Rightarrow> False | Some (v, vp1, h1) \<Rightarrow>
      (case M_LongFromString vp1 h1 v of None \<Rightarrow> False | Some (r, vp2, h2) \<Rightarrow> mem h2 (mem h2 r) = j)"
    unfolding M_LongToString_def 2(1) option.case prod.case f r(1) by (rule r(2))
qed

lemma M_LongFromString_hex:
  assumes "string_at (mem h) b v (CHR ''0'' # x # ds)" "x = CHR ''x'' \<or> x = CHR ''X''" "ds \<noteq> []" "CHR 0x00 \<notin> set ds"
  shows "M_LongFromString vp h v = Some (some_word vp h 0)"
proof -
  let ?s = "CHR ''0'' # x # ds" and ?p = "seq_data (mem h) v"
  have b: "byte_at (mem h) ?p 0 = CHR ''0''" "byte_at (mem h) ?p 1 = x"
    using string_at_byte [OF assms(1), of 0] string_at_byte [OF assms(1), of 1] by simp_all
  have sp: "skip_space (mem h) ?p (nat (sint (seq_len (mem h) v))) 0 = (length ?s, 0)"
    unfolding sint_seq_len [OF assms(1)] using b by (subst skip_space.simps) (simp add: isspace_def)
  have c: "c_str (mem h) ?p 0 = Some ?s" using c_str_at [OF assms(1), of 0] assms(2,4) by auto
  have hx: "isHex (mem h) ?p 0 (length ?s)" using b assms(2,3) by (cases ds) (auto simp: isHex_def)
  have "scan_lu ?s = Some 0" using assms(2) by (auto simp: scan_lu_def isspace_def is_digit_def digit_val_def Let_def)
  then show ?thesis using sp c hx by (simp add: M_LongFromString_def Let_def)
qed

subsection \<open>Reading lines\<close>

lemma AllocNonUniform_some: "AllocNonUniform vp h [PTR_arg p, INT_arg i] \<noteq> None"
  by (simp add: AllocNonUniform_def Let_def nonuniform_hdr_def PTR_arg_def INT_arg_def PTR_FIELD_def RAW_FIELD_def)

lemma AllocString_some: "AllocString vp h s \<noteq> None"
  using AllocNonUniform_some by (simp add: AllocString_def Let_def)

lemma length_line_full: "length (line_of n s) = n \<longleftrightarrow> n \<le> length s \<and> CHR 0x0A \<notin> set (take (n - 1) s)"
  by (induction n s rule: line_of.induct) (auto simp: take_Cons' neq_Nil_conv split: nat.splits)

lemma length_line_le: "length (line_of n s) \<le> n"
  by (induction n s rule: line_of.induct) auto

text \<open>\<^verbatim>\<open>M_TextIOInputLine\<close> writes behind its buffer exactly for a line that has no end within its first 1023 characters and goes on: its buffer has 1024 bytes, but \<^verbatim>\<open>fgets\<close> is told that it has 1025.\<close>

lemma M_TextIOInputLine_overflow:
  "M_TextIOInputLine vp h st = None \<longleftrightarrow> 1024 \<le> length (unread st) \<and> CHR 0x0A \<notin> set (take 1023 (unread st))"
proof (cases "unread st = []")
  case True then show ?thesis by (simp add: M_TextIOInputLine_def fgets_def)
next
  case False
  obtain v vp1 h1 where "AllocString vp h (c_string (line_of 1024 (unread st))) = Some (v, vp1, h1)"
    using AllocString_some [of vp h] by (metis not_Some_eq prod_cases3)
  then have "M_TextIOInputLine vp h st = None \<longleftrightarrow> length (line_of 1024 (unread st)) = 1024"
    using False length_line_le [of 1024 "unread st"] by (auto simp: M_TextIOInputLine_def fgets_def Let_def)
  then show ?thesis using length_line_full [of 1024 "unread st"] by simp
qed

lemma M_StringConcat2_alloc:
  assumes "allocPtr vp = wadr n" "0 < n" "string_at (mem h) (n - 1) v s" "string_at (mem h) (n - 1) w t" "s \<noteq> []" "t \<noteq> []"
    and "length (s @ t) < 2 ^ 31 - 1" "n + (length (s @ t) + 8) div 8 + 4 < 2 ^ 61"
  shows "M_StringConcat2 vp h v w = AllocString vp h (s @ t)"
proof -
  let ?S = "s @ t" let ?L = "length (s @ t)"
  have l: "seq_len (mem h) v = word_of_nat (length s)" "seq_len (mem h) w = word_of_nat (length t)"
    using string_at_len [OF assms(3)] string_at_len [OF assms(4)] by blast+
  have W: "uint (word_of_nat k :: 32 word) = int k" if "k < 2 ^ 32" for k
    using take_bit_nat_eq_self [of k 32] that by (simp only: unsigned_of_nat len_bit0 len_num1) simp
  have U: "unat (word_of_nat k :: 32 word) = k" if "k < 2 ^ 32" for k
    using take_bit_nat_eq_self [of k 32] that by (simp only: unsigned_of_nat len_bit0 len_num1) simp
  have b: "length s < 2 ^ 32" "length t < 2 ^ 32" "?L < 2 ^ 32" "?L + 1 < 2 ^ 32" using assms(7) by simp_all
  have nz: "(word_of_nat (length s) :: 32 word) \<noteq> 0" "(word_of_nat (length t) :: 32 word) \<noteq> 0"
    using U [OF b(1)] U [OF b(2)] assms(5,6) by (metis length_0_conv unat_0)+
  have sum: "word_of_nat (length s) + word_of_nat (length t) = (word_of_nat ?L :: 32 word)"
    "word_of_nat ?L + 1 = (word_of_nat (?L + 1) :: 32 word)" by simp_all
  let ?m0 = "(mem h)(wadr n - WORD_SZB := RAW_HDR (BYTES_TO_WORDS (int ?L + 1)))"
  let ?m1 = "memcpy_from ?m0 (wadr n) 0 (map of_char s)"
  have n1: "n - 1 < 2 ^ 61" using assms(8) by linarith
  have fr: "?m0 (wadr k) = mem h (wadr k)" if "k < n - 1" for k using that assms(2,8) by (simp add: wadr_pred)
  have d: "(0 + length (map of_char s :: 64 word list)) div 8 \<le> (?L + 8) div 8" by (rule div_le_mono) simp
  have fr1: "?m1 (wadr k) = mem h (wadr k)" if "k < n - 1" for k
  proof -
    have "n + (0 + length (map of_char s :: 64 word list)) div 8 < 2 ^ 61" "k < n" using d assms(8) that by linarith+
    then have "?m1 (wadr k) = ?m0 (wadr k)" by (rule memcpy_below)
    also have "\<dots> = mem h (wadr k)" by (rule fr [OF that])
    finally show ?thesis .
  qed
  have sv: "seq_bytes ?m0 v = map of_char s" by (rule string_at_bytes, rule string_at_frame [OF assms(3) fr])
  have sw: "seq_bytes ?m1 w = map of_char t" by (rule string_at_bytes, rule string_at_frame [OF assms(4) fr1])
  have lw: "seq_len ?m1 w = word_of_nat (length t)" using string_at_len [OF string_at_frame [OF assms(4) fr1]] by blast
  have "memcpy_from ?m0 (wadr n) 0 (map of_char ?S @ [0]) = store_byte (memcpy_from ?m1 (wadr n) (length s) (map of_char t)) (wadr n) ?L 0"
    by (simp add: memcpy_append)
  moreover have u: "uint (word_of_nat (?L + 1) :: 32 word) = int ?L + 1" "uint (word_of_nat ?L :: 32 word) = int ?L" "unat (word_of_nat ?L :: 32 word) = ?L" "unat (word_of_nat (length s) :: 32 word) = length s"
    using W [OF b(4)] W [OF b(3)] U [OF b(3)] U [OF b(1)] by simp_all
  ultimately show ?thesis
    unfolding M_StringConcat2_def AllocString_def AllocRaw_def Let_def l sum u assms(1)
    using nz sv sw by (simp add: set_mem_def)
qed

subsection \<open>Lists of strings\<close>

definition heap_list :: "mem \<Rightarrow> nat \<Rightarrow> Value_t \<Rightarrow> string list \<Rightarrow> bool" where
  "heap_list m b v ss \<longleftrightarrow> (\<exists>vs. list_at m b v vs \<and> list_all2 (string_at m b) vs ss)"

lemma list_at_mono: "list_at m b v vs \<Longrightarrow> b \<le> b' \<Longrightarrow> list_at m b' v vs"
  by (induction vs arbitrary: v) fastforce+

lemma string_at_mono: "string_at m b v s \<Longrightarrow> b \<le> b' \<Longrightarrow> string_at m b' v s"
  unfolding string_at_def by fastforce

lemma heap_list_grow:
  assumes "heap_list m b v ss" "b \<le> b'" "\<And>k. k < b \<Longrightarrow> m' (wadr k) = m (wadr k)"
  shows "heap_list m' b' v ss"
proof -
  obtain vs where v: "list_at m b v vs" "list_all2 (string_at m b) vs ss" using assms(1) unfolding heap_list_def by blast
  have "list_at m' b' v vs" by (rule list_at_mono [OF list_at_frame [OF v(1) assms(3)] assms(2)])
  moreover have "list_all2 (string_at m' b') vs ss"
    using v(2) by (rule list_all2_mono) (rule string_at_mono, erule string_at_frame, erule assms(3), rule assms(2))
  ultimately show ?thesis unfolding heap_list_def by blast
qed

definition string_words :: "string list \<Rightarrow> nat" where
  "string_words ss = sum_list (map (\<lambda>s. (length s + 8) div 8 + 7) ss)"

lemma arguments_loop_list:
  assumes "allocPtr vp = wadr n" "1 < n" "heap_list (mem h) (n - 1) l ts" "n + string_words ss < 2 ^ 61" "\<And>s. s \<in> set ss \<Longrightarrow> length s < 2 ^ 31 - 1"
  shows "\<exists>v n' h'. arguments_loop ss vp h l = Some (v, vp\<lparr>allocPtr := wadr n'\<rparr>, h') \<and> heap_list (mem h') (n' - 1) v (rev ss @ ts)"
  using assms
proof (induction ss arbitrary: vp n h l ts)
  case Nil
  have "vp = vp\<lparr>allocPtr := wadr n\<rparr>" using Nil(1) by simp
  then show ?case using Nil(3) by (intro exI [of _ l] exI [of _ n] exI [of _ h]) simp
next
  case (Cons s ss)
  let ?w = "(length s + 8) div 8"
  have sz: "n + ?w + 7 + string_words ss < 2 ^ 61" using Cons.prems(4) by (simp add: string_words_def)
  obtain h1 where h1: "AllocString vp h s = Some (wadr (n + ?w + 1), vp\<lparr>allocPtr := wadr (n + ?w + 4)\<rparr>, h1)"
    "string_at (mem h1) (n + ?w + 3) (wadr (n + ?w + 1)) s" "same_outside (mem h) (mem h1) (n - 1) (n + ?w + 3)"
  proof -
    have "0 < n" "n + ?w + 4 < 2 ^ 61" "length s < 2 ^ 31 - 1" using Cons.prems(2,5) sz by simp_all
    then show thesis using that AllocString_stores [OF Cons.prems(1), of s h] AllocString_string [OF Cons.prems(1), of s h] by fastforce
  qed
  let ?vp1 = "vp\<lparr>allocPtr := wadr (n + ?w + 4)\<rparr>" let ?s = "wadr (n + ?w + 1)"
  obtain h2 where h2: "AllocUniform ?vp1 h1 [?s, l] = (wadr (n + ?w + 4), ?vp1\<lparr>allocPtr := wadr (n + ?w + 7)\<rparr>, h2)"
    "object_at (mem h2) (n + ?w + 4) (VEC_HDR 2) [?s, l]" "same_outside (mem h1) (mem h2) (n + ?w + 3) (n + ?w + 6)"
  proof -
    have pre: "allocPtr ?vp1 = wadr (n + ?w + 4)" "0 < n + ?w + 4" "n + ?w + 4 + length [?s, l] + 1 < 2 ^ 61" "length [?s, l] < 2 ^ 31" using sz by simp_all
    have e: "n + ?w + 4 + length [?s, l] + 1 = n + ?w + 7" "int (length [?s, l]) = 2" "n + ?w + 4 + length [?s, l] = n + ?w + 6" "n + ?w + 4 - 1 = n + ?w + 3" by simp_all
    have e7: "n + ?w + 6 + 1 = n + ?w + 7" by simp
    show thesis using that AllocUniform_object [OF pre, of h1] unfolding e e7 by blast
  qed
  let ?b = "n + ?w + 6"
  have fr1: "mem h1 (wadr k) = mem h (wadr k)" if "k < n - 1" for k using h1(3) that sz unfolding same_outside_def by auto
  have fr2: "mem h2 (wadr k) = mem h1 (wadr k)" if "k < n + ?w + 3" for k using h2(3) that sz unfolding same_outside_def by auto
  have tl: "heap_list (mem h2) ?b l ts"
    by (rule heap_list_grow [OF Cons.prems(3)]) (use fr1 fr2 in auto)
  have st: "string_at (mem h2) ?b ?s s"
    by (rule string_at_mono [OF string_at_frame [OF h1(2) fr2]]) (assumption, linarith)
  have c: "mem h2 (wadr (n + ?w + 4)) = ?s" "mem h2 (wadr (n + ?w + 4) + WORD_SZB) = l"
    using h2(2) unfolding object_at_def by (auto simp: numeral_2_eq_2 less_Suc_eq wadr_Suc)
  have hl: "heap_list (mem h2) ?b (wadr (n + ?w + 4)) (s # ts)"
  proof -
    obtain vs where "list_at (mem h2) ?b l vs" "list_all2 (string_at (mem h2) ?b) vs ts" using tl unfolding heap_list_def by blast
    then show ?thesis unfolding heap_list_def using st c
      by (intro exI [of _ "?s # vs"] conjI) (simp_all add: exI [of _ "n + ?w + 4"])
  qed
  have e: "n + ?w + 7 - 1 = ?b" by linarith
  have hl': "heap_list (mem h2) (n + ?w + 7 - 1) (wadr (n + ?w + 4)) (s # ts)" unfolding e by (rule hl)
  let ?vp2 = "?vp1\<lparr>allocPtr := wadr (n + ?w + 7)\<rparr>"
  have "allocPtr ?vp2 = wadr (n + ?w + 7)" "1 < n + ?w + 7" by (simp, linarith)
  then have "\<exists>v n' h'. arguments_loop ss ?vp2 h2 (wadr (n + ?w + 4)) = Some (v, ?vp2\<lparr>allocPtr := wadr n'\<rparr>, h') \<and> heap_list (mem h') (n' - 1) v (rev ss @ s # ts)"
    by (rule Cons.IH [OF _ _ hl' sz]) (use Cons.prems(5) in simp)
  then show ?case using h1(1) h2(1) by (simp add: Cons_cell_def)
qed

text \<open>\<^verbatim>\<open>M_Arguments\<close> returns in the heap the list of all arguments that the runtime has not consumed, in order.\<close>

lemma M_Arguments_list:
  assumes "allocPtr vp = wadr n" "1 < n" "n + string_words (args opts) < 2 ^ 61" "opts_wf opts" "\<And>s. s \<in> set (args opts) \<Longrightarrow> length s < 2 ^ 31 - 1"
  shows "\<exists>v n' h'. M_Arguments opts vp h = Some (v, vp\<lparr>allocPtr := wadr n'\<rparr>, h') \<and> heap_list (mem h') (n' - 1) v (args opts)"
proof -
  have e: "heap_list m b M_NIL []" for m b by (simp add: heap_list_def)
  have w: "string_words (rev ss) = string_words ss" for ss by (simp add: string_words_def rev_map [symmetric])
  have v: "vp = vp\<lparr>allocPtr := wadr n\<rparr>" using assms(1) by simp
  show ?thesis
  proof (cases "NumOptions opts > 0")
    case True
    have "\<exists>v n' h'. arguments_loop (rev (args opts)) vp h M_NIL = Some (v, vp\<lparr>allocPtr := wadr n'\<rparr>, h') \<and> heap_list (mem h') (n' - 1) v (rev (rev (args opts)) @ [])"
      by (rule arguments_loop_list [OF assms(1,2) e]) (use assms w in auto)
    then show ?thesis using True by (simp add: M_Arguments_def)
  next
    case False
    then have "args opts = []" by (simp add: args_def NumOptions_def)
    then show ?thesis using False e v by (intro exI [of _ M_NIL] exI [of _ n] exI [of _ h]) (simp add: M_Arguments_def)
  qed
qed

lemma strtok_all_tokens:
  "concat (strtok_all sep s) = filter (\<lambda>c. c \<notin> set sep) s" "t \<in> set (strtok_all sep s) \<Longrightarrow> t \<noteq> [] \<and> set t \<inter> set sep = {} \<and> set t \<subseteq> set s \<and> length t \<le> length s"
proof (induction sep s rule: strtok_all.induct)
  case (1 sep s)
  let ?r = "dropWhile (\<lambda>c. c \<in> set sep) s"
  have f: "filter (\<lambda>c. c \<notin> set sep) s = filter (\<lambda>c. c \<notin> set sep) ?r"
    by (induction s) auto
  have g: "filter (\<lambda>c. c \<notin> set sep) r = takeWhile (\<lambda>c. c \<notin> set sep) r @ filter (\<lambda>c. c \<notin> set sep) (dropWhile (\<lambda>c. c \<notin> set sep) r)" for r
    by (induction r) auto
  have sub: "set ?r \<subseteq> set s" "length ?r \<le> length s" by (auto dest: set_dropWhileD simp: length_dropWhile_le)
  have e: "strtok_all sep s = (if ?r = [] then [] else takeWhile (\<lambda>c. c \<notin> set sep) ?r # strtok_all sep (dropWhile (\<lambda>c. c \<notin> set sep) ?r))"
    by (subst strtok_all.simps) (simp only: Let_def)
  {
    case 1
    show ?case
    proof (cases "?r = []")
      case True show ?thesis unfolding e if_P [OF True] f unfolding True by simp
    next
      case False
      show ?thesis unfolding e if_not_P [OF False] concat.simps "1.IH"(1) [OF refl False] f g [of ?r, symmetric] ..
    qed
  next
    case 2
    have r: "?r \<noteq> []"
    proof
      assume "?r = []"
      then have "strtok_all sep s = []" unfolding e by (rule if_P)
      then show False using 2 by simp
    qed
    obtain c cs where c: "?r = c # cs" using r by (cases ?r) auto
    have cn: "c \<notin> set sep" using c by (metis dropWhile_eq_Cons_conv)
    have "t = takeWhile (\<lambda>c. c \<notin> set sep) ?r \<or> t \<in> set (strtok_all sep (dropWhile (\<lambda>c. c \<notin> set sep) ?r))"
      using 2 unfolding e if_not_P [OF r] by simp
    then show ?case
    proof
      assume t: "t = takeWhile (\<lambda>c. c \<notin> set sep) ?r"
      then show ?thesis using c cn sub length_takeWhile_le [of "\<lambda>c. c \<notin> set sep" ?r] by (auto dest: set_takeWhileD)
    next
      assume t: "t \<in> set (strtok_all sep (dropWhile (\<lambda>c. c \<notin> set sep) ?r))"
      have "length (dropWhile (\<lambda>c. c \<notin> set sep) ?r) \<le> length ?r" by (rule length_dropWhile_le)
      then show ?thesis using "1.IH"(2) [OF refl r t] sub by (auto dest: set_dropWhileD)
    qed
  }
qed

lemma M_StringTokenize_list:
  assumes "allocPtr vp = wadr n" "1 < n" "string_at (mem h) (n - 1) str s" "string_at (mem h) (n - 1) sep d" "CHR 0x00 \<notin> set s" "CHR 0x00 \<notin> set d"
    and "length s < 2 ^ 31 - 1" "n + string_words (strtok_all d s) < 2 ^ 61"
  shows "\<exists>v n' h' ts. M_StringTokenize vp h str sep = Some (v, vp\<lparr>allocPtr := wadr n'\<rparr>, h') \<and> heap_list (mem h') (n' - 1) v (rev ts)
    \<and> concat ts = filter (\<lambda>c. c \<notin> set d) s \<and> [] \<notin> set ts \<and> set (concat ts) \<inter> set d = {}"
proof -
  let ?ts = "strtok_all d s"
  have e: "heap_list m b M_NIL []" for m b by (simp add: heap_list_def)
  note tk = strtok_all_tokens(1) [of d s] strtok_all_tokens(2) [where sep = d and s = s]
  obtain v n' h' where v: "arguments_loop ?ts vp h M_NIL = Some (v, vp\<lparr>allocPtr := wadr n'\<rparr>, h')" "heap_list (mem h') (n' - 1) v (rev ?ts @ [])"
  proof -
    have l: "length t < 2 ^ 31 - 1" if "t \<in> set ?ts" for t
      by (rule le_less_trans [OF _ assms(7)]) (use tk(2) [OF that] in blast)
    show thesis using arguments_loop_list [OF assms(1,2) e assms(8) l] that by blast
  qed
  have "c_str (mem h) (seq_data (mem h) str) 0 = Some s" "c_str (mem h) (seq_data (mem h) sep) 0 = Some d"
    using c_str_at [OF assms(3,5), of 0] c_str_at [OF assms(4,6), of 0] by simp_all
  then have "M_StringTokenize vp h str sep = Some (v, vp\<lparr>allocPtr := wadr n'\<rparr>, h')" using v(1) by (simp add: M_StringTokenize_def)
  moreover have "[] \<notin> set ?ts" using tk(2) by blast
  moreover have "set (concat ?ts) \<inter> set d = {}" unfolding tk(1) by auto
  ultimately show ?thesis using v(2) tk(1) by (intro exI [of _ v] exI [of _ n'] exI [of _ h'] exI [of _ ?ts]) simp
qed

subsection \<open>Examples\<close>

text \<open>A memory with the string \<open>ab\<close> at word 1, its bytes at word 4, and a list that has it twice at words 5 and 7.\<close>

definition ex_strings :: mem where
  "ex_strings = (\<lambda>_. 0)(wadr 1 := wadr 4, wadr 2 := 2, wadr 4 := 0x6261, wadr 5 := wadr 1, wadr 6 := wadr 7, wadr 7 := wadr 1, wadr 8 := M_NIL)"

lemma ex_string: "string_at ex_strings 9 (wadr 1) ''ab''"
proof -
  have w: "ex_strings (wadr 1) = wadr 4" "ex_strings (wadr 2) = 2" "ex_strings (wadr 4) = 0x6261" by (simp_all add: ex_strings_def)
  have "load_byte ex_strings (wadr 4) k = (if k < length ''ab'' then of_char (''ab'' ! k) else 0)" if "k \<le> length ''ab''" for k
  proof -
    consider "k = 0" | "k = 1" | "k = 2" using \<open>k \<le> length ''ab''\<close> by fastforce
    then show ?thesis by cases (simp_all add: load_byte_word w get_byte_def)
  qed
  moreover have "ex_strings (wadr (Suc (Suc 0))) = 2" using w(2) by (simp add: numeral_2_eq_2)
  ultimately show ?thesis unfolding string_at_def using w
    by (rule_tac x = 1 in exI, rule_tac x = 4 in exI) simp
qed

lemma ex_list: "list_at ex_strings 9 (wadr 5) [wadr 1, wadr 1]"
proof -
  have "ex_strings (wadr 5) = wadr 1" "ex_strings (wadr 6) = wadr 7" "ex_strings (wadr 7) = wadr 1" "ex_strings (wadr 8) = M_NIL" by (simp_all add: ex_strings_def)
  then show ?thesis by (simp add: wadr_Suc exI [of _ 5] exI [of _ 7])
qed

lemma M_StringConcatList_alloc_witness:
  "M_StringConcatList (ex_vproc\<lparr>allocPtr := wadr 10\<rparr>) (ex_heap\<lparr>mem := ex_strings\<rparr>) (wadr 5) = AllocString (ex_vproc\<lparr>allocPtr := wadr 10\<rparr>) (ex_heap\<lparr>mem := ex_strings\<rparr>) ''abab''"
  using M_StringConcatList_alloc [of "ex_vproc\<lparr>allocPtr := wadr 10\<rparr>" 10 "ex_heap\<lparr>mem := ex_strings\<rparr>" "wadr 5" "[wadr 1, wadr 1]" "[''ab'', ''ab'']"] ex_list ex_string
  by simp

lemma string_numbers_roundtrip_witness:
  "(case M_IntToString (ex_vproc\<lparr>allocPtr := wadr 10\<rparr>) ex_heap (- 42) of None \<Rightarrow> False | Some (v, vp1, h1) \<Rightarrow>
      (case M_IntFromString vp1 h1 v of None \<Rightarrow> False | Some (r, vp2, h2) \<Rightarrow> mem h2 (mem h2 r) = scast (- 42 :: 32 word)))
    \<and> (case M_LongToString (ex_vproc\<lparr>allocPtr := wadr 10\<rparr>) ex_heap 5000000000 of None \<Rightarrow> False | Some (v, vp1, h1) \<Rightarrow>
      (case M_LongFromString vp1 h1 v of None \<Rightarrow> False | Some (r, vp2, h2) \<Rightarrow> mem h2 (mem h2 r) = 5000000000))"
  by (rule string_numbers_roundtrip [where n = 10]) simp_all

lemma M_Arguments_list_witness:
  "\<exists>v n' h'. M_Arguments (InitOptions [''prog'', ''-x'', ''file'']) (ex_vproc\<lparr>allocPtr := wadr 10\<rparr>) ex_heap = Some (v, ex_vproc\<lparr>allocPtr := wadr n'\<rparr>, h')
     \<and> heap_list (mem h') (n' - 1) v [''-x'', ''file'']"
proof -
  let ?o = "InitOptions [''prog'', ''-x'', ''file'']"
  have a: "args ?o = [''-x'', ''file'']" "opts_wf ?o" by (simp_all add: InitOptions_def args_def opts_wf_def)
  have "\<exists>v n' h'. M_Arguments ?o (ex_vproc\<lparr>allocPtr := wadr 10\<rparr>) ex_heap = Some (v, ex_vproc\<lparr>allocPtr := wadr 10\<rparr>\<lparr>allocPtr := wadr n'\<rparr>, h')
     \<and> heap_list (mem h') (n' - 1) v (args ?o)"
    by (rule M_Arguments_list [where n = 10]) (use a in \<open>auto simp: string_words_def\<close>)
  then show ?thesis unfolding a by simp
qed

text \<open>The same digits with a leading zero are one number as an int and another as a long.\<close>

lemma scan_leading_zero: "scan_d ''010'' = Some 10" "scan_li ''010'' = Some 8"
  by code_simp+

end
