(* ===== verification/VProc_Sleep.thy ===== *)
theory VProc_Sleep
  imports VProc_State
begin

text \<open>
  Sleeping vprocs, \<^verbatim>\<open>VProcSleep\<close>, \<^verbatim>\<open>VProcNanosleep\<close>, \<^verbatim>\<open>VProcWake\<close> and the end of \<^verbatim>\<open>VProcSendSignal\<close> of
  \<^verbatim>\<open>vproc/vproc.c\<close>, as a step relation of one sleeper and any number of senders. No signal is lost from the landing
  pad and a timed sleep always ends, but an untimed one can miss its wake-up.
\<close>

subsection \<open>Going to sleep and being woken\<close>

text \<open>
  \<^verbatim>\<open>VProcSleep\<close> and \<^verbatim>\<open>VProcNanosleep\<close> against any number of senders. Nobody but the sleeper takes the lock of the
  vproc, so the lock orders nothing; \<^verbatim>\<open>CondWait\<close> blocks until a signal, and a signal when nobody waits is lost.
  The landing pad is the list of the senders whose items are on it. \<open>timed\<close> is \<^verbatim>\<open>VProcNanosleep\<close>, whose wait
  may also end by a timeout or an interrupt; the argument of \<open>Returned\<close> is \<^verbatim>\<open>status == 0\<close>.
\<close>

datatype SleepPc = Awake | Checking | GoingToWait | Blocked | Leaving bool | Returned bool

datatype SendPc = SendStart | Pushing "nat list" | CheckSleep | Waking | SendDone

record SleepSys =
  sleeper :: SleepPc
  sleepFlag :: bool
  pad :: "nat list"
  senders :: "nat \<Rightarrow> SendPc"

definition send_goto :: "nat \<Rightarrow> SendPc \<Rightarrow> SleepSys \<Rightarrow> SleepSys" where
  "send_goto i pc s = s\<lparr>senders := (senders s)(i := pc)\<rparr>"

definition VProcWake :: "SleepSys \<Rightarrow> SleepSys" where
  "VProcWake s = (if sleeper s = Blocked then s\<lparr>sleeper := Checking\<rparr> else s)"

inductive sleep_step :: "bool \<Rightarrow> SleepSys \<Rightarrow> SleepSys \<Rightarrow> bool" for timed where
  enter: "sleeper s = Awake \<Longrightarrow> sleep_step timed s (s\<lparr>sleepFlag := True, sleeper := Checking\<rparr>)"
| empty: "sleeper s = Checking \<Longrightarrow> pad s = [] \<Longrightarrow> sleep_step timed s (s\<lparr>sleeper := GoingToWait\<rparr>)"
| waits: "sleeper s = GoingToWait \<Longrightarrow> sleep_step timed s (s\<lparr>sleeper := Blocked\<rparr>)"
| arrived: "sleeper s = Checking \<Longrightarrow> pad s \<noteq> [] \<Longrightarrow> sleep_step timed s (s\<lparr>sleeper := Leaving True\<rparr>)"
| expired: "timed \<Longrightarrow> sleeper s = Blocked \<Longrightarrow> sleep_step timed s (s\<lparr>sleeper := Leaving False\<rparr>)"
| leave: "sleeper s = Leaving b \<Longrightarrow> sleep_step timed s (s\<lparr>sleepFlag := False, sleeper := Returned b\<rparr>)"
| read_pad: "senders s i = SendStart \<Longrightarrow> sleep_step timed s (send_goto i (Pushing (pad s)) s)"
| push_ok: "senders s i = Pushing orig \<Longrightarrow> pad s = orig \<Longrightarrow> sleep_step timed s (send_goto i CheckSleep (s\<lparr>pad := i # orig\<rparr>))"
| push_fail: "senders s i = Pushing orig \<Longrightarrow> pad s \<noteq> orig \<Longrightarrow> sleep_step timed s (send_goto i SendStart s)"
| is_awake: "senders s i = CheckSleep \<Longrightarrow> \<not> sleepFlag s \<Longrightarrow> sleep_step timed s (send_goto i SendDone s)"
| is_asleep: "senders s i = CheckSleep \<Longrightarrow> sleepFlag s \<Longrightarrow> sleep_step timed s (send_goto i Waking s)"
| wake: "senders s i = Waking \<Longrightarrow> sleep_step timed s (send_goto i SendDone (VProcWake s))"

definition sleep_start :: "nat \<Rightarrow> SleepSys" where
  "sleep_start n = \<lparr>sleeper = Awake, sleepFlag = False, pad = [], senders = (\<lambda>i. if i < n then SendStart else SendDone)\<rparr>"

definition VProcNanosleep_result :: "bool \<Rightarrow> Value_t" where
  "VProcNanosleep_result woken = ManticoreBool woken"

definition pushed :: "SendPc \<Rightarrow> bool" where
  "pushed pc \<longleftrightarrow> pc = CheckSleep \<or> pc = Waking \<or> pc = SendDone"

definition pad_inv :: "nat \<Rightarrow> SleepSys \<Rightarrow> bool" where
  "pad_inv n s \<longleftrightarrow> distinct (pad s) \<and> set (pad s) = {i. i < n \<and> pushed (senders s i)} \<and> (\<forall>i. n \<le> i \<longrightarrow> senders s i = SendDone)"

definition sleeper_inv :: "SleepSys \<Rightarrow> bool" where
  "sleeper_inv s \<longleftrightarrow> (sleeper s \<in> {Leaving True, Returned True} \<longrightarrow> pad s \<noteq> []) \<and> (sleepFlag s \<longleftrightarrow> (case sleeper s of Awake \<Rightarrow> False | Returned b \<Rightarrow> False | _ \<Rightarrow> True))"

lemma sleep_step_inv: "sleep_step timed s s' \<Longrightarrow> pad_inv n s \<Longrightarrow> sleeper_inv s \<Longrightarrow> pad_inv n s' \<and> sleeper_inv s'"
proof (induction rule: sleep_step.induct)
  case (push_ok s i orig)
  then have "i < n" "i \<notin> set (pad s)" by (auto simp: pad_inv_def pushed_def not_less [symmetric])
  then show ?case using push_ok by (auto simp: pad_inv_def sleeper_inv_def send_goto_def pushed_def split: SleepPc.splits)
qed (auto simp: pad_inv_def sleeper_inv_def send_goto_def pushed_def VProcWake_def split: SleepPc.splits if_splits)

lemma sleep_reach_inv: "(sleep_step timed)\<^sup>*\<^sup>* (sleep_start n) s \<Longrightarrow> pad_inv n s \<and> sleeper_inv s"
proof (induction rule: rtranclp_induct)
  case base
  then show ?case by (auto simp: pad_inv_def sleeper_inv_def sleep_start_def pushed_def)
next
  case (step s s')
  then show ?case using sleep_step_inv by blast
qed



text \<open>A timed sleep cannot get stuck: as long as it has not returned, the sleeper itself has a step, whatever the senders have done.\<close>

lemma nanosleep_returns:
  assumes "(sleep_step True)\<^sup>*\<^sup>* (sleep_start n) s" "\<nexists>b. sleeper s = Returned b"
  shows "\<exists>s'. sleep_step True s s' \<and> senders s' = senders s"
proof (cases "sleeper s")
  case Checking
  then show ?thesis by (cases "pad s = []") (force intro: sleep_step.intros)+
qed (use assms in \<open>force intro: sleep_step.intros\<close>)+

lemma nanosleep_returns_witness: "\<exists>s'. sleep_step True (sleep_start 3) s' \<and> senders s' = senders (sleep_start 3)"
  by (rule nanosleep_returns [of 3]) (simp_all add: sleep_start_def)

text \<open>A wake-up can be lost: the sender signals without holding the lock, between the sleeper's test of the landing pad and its wait. Then the signal is on the landing pad, every sender has finished, and the vproc sleeps forever.\<close>

lemma lost_wakeup:
  "\<exists>s. (sleep_step False)\<^sup>*\<^sup>* (sleep_start 1) s \<and> sleeper s = Blocked \<and> pad s = [0] \<and> (\<forall>i. senders s i = SendDone)
     \<and> (\<nexists>s'. sleep_step False s s')"
proof -
  let ?st = "\<lambda>sl fl p pc. \<lparr>sleeper = sl, sleepFlag = fl, pad = p, senders = (\<lambda>i. SendDone)(0 := pc)\<rparr>"
  have start: "sleep_start 1 = ?st Awake False [] SendStart" by (auto simp: sleep_start_def)
  note star = rtranclp.rtrancl_into_rtrancl
  have "(sleep_step False)\<^sup>*\<^sup>* (sleep_start 1) (?st Checking True [] SendStart)"
    unfolding start by (rule r_into_rtranclp) (use enter [of "?st Awake False [] SendStart" False] in simp)
  then have "(sleep_step False)\<^sup>*\<^sup>* (sleep_start 1) (?st GoingToWait True [] SendStart)"
    by (rule star) (use empty [of "?st Checking True [] SendStart" False] in simp)
  then have "(sleep_step False)\<^sup>*\<^sup>* (sleep_start 1) (?st GoingToWait True [] (Pushing []))"
    by (rule star) (use read_pad [of "?st GoingToWait True [] SendStart" 0 False] in \<open>simp add: send_goto_def\<close>)
  then have "(sleep_step False)\<^sup>*\<^sup>* (sleep_start 1) (?st GoingToWait True [0] CheckSleep)"
    by (rule star) (use push_ok [of "?st GoingToWait True [] (Pushing [])" 0 "[]" False] in \<open>simp add: send_goto_def\<close>)
  then have "(sleep_step False)\<^sup>*\<^sup>* (sleep_start 1) (?st GoingToWait True [0] Waking)"
    by (rule star) (use is_asleep [of "?st GoingToWait True [0] CheckSleep" 0 False] in \<open>simp add: send_goto_def\<close>)
  then have "(sleep_step False)\<^sup>*\<^sup>* (sleep_start 1) (?st GoingToWait True [0] SendDone)"
    by (rule star) (use wake [of "?st GoingToWait True [0] Waking" 0 False] in \<open>simp add: send_goto_def VProcWake_def\<close>)
  then have "(sleep_step False)\<^sup>*\<^sup>* (sleep_start 1) (?st Blocked True [0] SendDone)"
    by (rule star) (use waits [of "?st GoingToWait True [0] SendDone" False] in simp)
  moreover have "\<nexists>s'. sleep_step False (?st Blocked True [0] SendDone) s'"
    by (auto elim!: sleep_step.cases split: if_splits)
  ultimately show ?thesis by (intro exI conjI) auto
qed

end
