(* ===== verification/Apply_Loop.thy ===== *)
theory Apply_Loop
  imports VProc_Sleep Minor_Correct
begin

text \<open>
  The request loop, \<^verbatim>\<open>vproc/apply.c\<close>: \<^verbatim>\<open>RunManticore\<close> enters compiled code, which comes back with a request for a
  collection, a shutdown or a sleep, or with a pending signal. The compiled code, the collector and what other
  vprocs do meanwhile are parameters; the loop is bounded by the number of requests served. The lemmas show that a
  signal which arrives is delivered or stays pending, and that a shutdown reaches every vproc.
\<close>

subsection \<open>The state of the loop\<close>

text \<open>The runtime as the vproc \<open>me\<close> sees it, and the local variables of \<^verbatim>\<open>RunManticore\<close>.\<close>

record World =
  me :: nat
  vps :: "VProc list"
  wheap :: Heap
  wdqs :: DequeState
  ShutdownFlg :: bool

record Frame =
  codeP :: Addr_t
  argV :: Value_t
  envP :: Value_t
  retCont :: Value_t
  exnCont :: Value_t

datatype RequestCode = REQ_GC | REQ_Return | REQ_UncaughtExn | REQ_Sleep

fun request_number :: "RequestCode \<Rightarrow> int" where
  "request_number REQ_GC = 1"
| "request_number REQ_Return = 2"
| "request_number REQ_UncaughtExn = 3"
| "request_number REQ_Sleep = 4"

definition self :: "World \<Rightarrow> VProc" where "self w = vps w ! me w"

definition set_self :: "VProc \<Rightarrow> Heap \<Rightarrow> World \<Rightarrow> World" where
  "set_self vp h w = w\<lparr>vps := (vps w)[me w := vp], wheap := h\<rparr>"

definition set_reg :: "vpReg \<Rightarrow> Value_t \<Rightarrow> World \<Rightarrow> World" where
  "set_reg r v w = set_self ((self w)\<lparr>regs := (regs (self w))(r := v)\<rparr>) (wheap w) w"

text \<open>The code pointer is the first word of a closure or continuation, the environment the second of a closure.\<close>

definition closure_cp :: "World \<Rightarrow> Value_t \<Rightarrow> Addr_t" where "closure_cp w f = mem (wheap w) f"

definition closure_ep :: "World \<Rightarrow> Value_t \<Rightarrow> Value_t" where "closure_ep w f = mem (wheap w) (f + WORD_SZB)"

subsection \<open>Before the Manticore code runs\<close>

definition check_shutdown :: "World \<Rightarrow> Frame \<Rightarrow> World \<times> Frame" where
  "check_shutdown w f =
     (if ShutdownFlg w \<and> \<not> regs (self w) ShutdownPending = M_TRUE
      then let ep = regs (self w) ShutdownCont
           in (set_reg ShutdownPending M_TRUE (set_reg SigPending M_FALSE (set_reg Atomic M_TRUE w)),
               \<lparr>codeP = closure_cp w ep, argV = M_UNIT, envP = ep, retCont = M_UNIT, exnCont = M_UNIT\<rparr>)
      else (w, f))"

text \<open>\<^verbatim>\<open>SetLimitPtr (vp, LimitPtr (vp))\<close>: the old limit tells whether a signal has arrived.\<close>

definition reset_limit :: "World \<Rightarrow> Addr_t \<times> World" where
  "reset_limit w = (limitPtr (self w), set_self ((self w)\<lparr>limitPtr := LimitPtr (self w)\<rparr>) (wheap w) w)"

subsection \<open>Requests\<close>

type_synonym Collector = "Rts \<Rightarrow> Rts option"

definition collect :: "Collector \<Rightarrow> World \<Rightarrow> World option" where
  "collect gc w = do {
     rt \<leftarrow> gc \<lparr>rt_vp = self w, rt_heap = wheap w, rt_dqs = wdqs w\<rparr>;
     Some ((set_self (rt_vp rt) (rt_heap rt) w)\<lparr>wdqs := rt_dqs rt\<rparr>) }"

definition handle_GC :: "Addr_t \<Rightarrow> Collector \<Rightarrow> Addr_t \<Rightarrow> World \<Rightarrow> (World \<times> Frame) option" where
  "handle_GC asm_Resume gc oldLimitPtr w0 = do {
     w1 \<leftarrow> (if LimitPtr (self w0) \<le> allocPtr (self w0) \<or> globalGCPending (self w0) then collect gc w0 else Some w0);
     let w2 = (if oldLimitPtr = 0 then set_reg SigPending M_TRUE w1 else w1);
     (if regs (self w2) SigPending = M_TRUE \<and> regs (self w2) Atomic = M_FALSE
      then do {
        (resumeK, vp, h) \<leftarrow> AllocNonUniform (self w2) (wheap w2)
            [(RAW_FIELD, asm_Resume), (RAW_FIELD, regs (self w2) StdCont), PTR_arg (regs (self w2) StdEnvPtr)];
        let w3 = set_self vp h w2;
        let ep = regs (self w3) SchedCont;
        Some (set_reg SigPending M_FALSE (set_reg Atomic M_TRUE w3),
              \<lparr>codeP = closure_cp w3 ep, argV = resumeK, envP = ep, retCont = M_UNIT, exnCont = M_UNIT\<rparr>) }
      else Some (w2, \<lparr>codeP = regs (self w2) StdCont, argV = M_UNIT, envP = regs (self w2) StdEnvPtr,
                      retCont = M_UNIT, exnCont = M_UNIT\<rparr>)) }"

text \<open>
  Signalling and preempting vproc \<open>i\<close>, which may be the host itself; \<open>others\<close> is the interference at its
  landing pad.
\<close>

definition send_preempt :: "(Value_t \<times> Value_t) list \<Rightarrow> nat \<Rightarrow> World \<Rightarrow> World option" where
  "send_preempt others i w = do {
     let wvp = vps w ! i;
     ((vp, h), wvp', woken) \<leftarrow> VProcSendSignal others (self w) wvp (regs wvp CurrentFLS) (regs wvp DummyK) (wheap w);
     let w1 = set_self vp h w;
     let d = vps w1 ! i;
     Some (w1\<lparr>vps := (vps w1)[i := VProcPreempt (d\<lparr>regs := (regs d)(LandingPad := regs wvp' LandingPad)\<rparr>)]\<rparr>) }"

fun interrupt_all :: "(nat \<Rightarrow> (Value_t \<times> Value_t) list) \<Rightarrow> nat list \<Rightarrow> World \<Rightarrow> World option" where
  "interrupt_all others [] w = Some w"
| "interrupt_all others (i # is) w = do { w1 \<leftarrow> send_preempt (others i) i w; interrupt_all others is w1 }"

definition handle_Return :: "(nat \<Rightarrow> (Value_t \<times> Value_t) list) \<Rightarrow> World \<Rightarrow> Frame \<Rightarrow> (World \<times> Frame) option" where
  "handle_Return others w f = map_option (\<lambda>w'. (w', f)) (interrupt_all others [0..<length (vps w)] (w\<lparr>ShutdownFlg := True\<rparr>))"

text \<open>
  The result of the sleep comes from outside: whether another vproc ended it, and the landing pad that the
  vproc finds. The assertion on \<^verbatim>\<open>wakeupCont\<close> is checked.
\<close>

definition handle_Sleep :: "bool \<times> Value_t \<Rightarrow> World \<Rightarrow> (World \<times> Frame) option" where
  "handle_Sleep wakeup w = do {
     let timeToSleep = mem (wheap w) (regs (self w) StdArg);
     let status = (if timeToSleep = 0 then M_TRUE else VProcNanosleep_result (fst wakeup));
     let w1 = set_reg Sleeping M_FALSE (set_reg LandingPad (snd wakeup) w);
     let ep = regs (self w1) WakeupCont;
     _ \<leftarrow> (if ep = M_NIL then None else Some ());
     let code = closure_cp w1 ep;
     (arg, vp, h) \<leftarrow> AllocNonUniform (self w1) (wheap w1) [PTR_arg status];
     Some (set_reg WakeupCont M_NIL (set_self vp h w1),
           \<lparr>codeP = code, argV = arg, envP = ep, retCont = M_UNIT, exnCont = M_UNIT\<rparr>) }"

text \<open>What the loop needs from outside: addresses of assembly entry points, the collector, other vprocs.\<close>

record Env =
  asm_Return :: Addr_t
  asm_UncaughtExn :: Addr_t
  asm_Resume :: Addr_t
  gcollect :: Collector
  interference :: "nat \<Rightarrow> (Value_t \<times> Value_t) list"
  wakeup :: "bool \<times> Value_t"

definition handle_request :: "Env \<Rightarrow> RequestCode option \<Rightarrow> World \<Rightarrow> Frame \<Rightarrow> (World \<times> Frame) option" where
  "handle_request env req w0 f =
     (case reset_limit w0 of (oldLimitPtr, w) \<Rightarrow>
        (case req of
           Some REQ_GC \<Rightarrow> handle_GC (asm_Resume env) (gcollect env) oldLimitPtr w
         | Some REQ_Return \<Rightarrow> handle_Return (interference env) w f
         | Some REQ_UncaughtExn \<Rightarrow> None
         | Some REQ_Sleep \<Rightarrow> handle_Sleep (wakeup env) w
         | None \<Rightarrow> None))"

text \<open>
  The loop of \<^verbatim>\<open>RunManticore\<close>. \<open>asm\<close> is the compiled program: it runs from a frame and comes back with a
  request (\<open>None\<close> for a number that is none of the four) in a new state. The loop never ends by itself, so
  \<open>n\<close> bounds the number of requests served; \<open>env i\<close> is the outside at the \<open>i\<close>-th.
\<close>

fun run_loop :: "(World \<Rightarrow> Frame \<Rightarrow> RequestCode option \<times> World) \<Rightarrow> (nat \<Rightarrow> Env) \<Rightarrow> nat \<Rightarrow> World \<Rightarrow> Frame \<Rightarrow> (World \<times> Frame) option" where
  "run_loop asm env 0 w f = Some (w, f)"
| "run_loop asm env (Suc n) w f =
     (case check_shutdown w f of (w1, f1) \<Rightarrow>
        (case asm w1 f1 of (req, w2) \<Rightarrow> do {
           (w3, f3) \<leftarrow> handle_request (env n) req w2 f1;
           run_loop asm env n w3 f3 }))"

definition RunManticore :: "(World \<Rightarrow> Frame \<Rightarrow> RequestCode option \<times> World) \<Rightarrow> (nat \<Rightarrow> Env) \<Rightarrow> nat
    \<Rightarrow> Addr_t \<Rightarrow> Value_t \<Rightarrow> Value_t \<Rightarrow> World \<Rightarrow> (World \<times> Frame) option" where
  "RunManticore asm env n code arg ep w =
     (let (ret, vp, h) = WrapWord (self w) (wheap w) (asm_Return (env n));
          w1 = set_self vp h w;
          (exn, vp, h) = WrapWord (self w1) (wheap w1) (asm_UncaughtExn (env n))
      in run_loop asm env n (set_self vp h w1)
           \<lparr>codeP = code, argV = arg, envP = ep, retCont = ret, exnCont = exn\<rparr>)"

definition ApplyFun :: "(World \<Rightarrow> Frame \<Rightarrow> RequestCode option \<times> World) \<Rightarrow> (nat \<Rightarrow> Env) \<Rightarrow> nat \<Rightarrow> Value_t \<Rightarrow> Value_t \<Rightarrow> World
    \<Rightarrow> (World \<times> Frame) option" where
  "ApplyFun asm env n f arg w = RunManticore asm env n (closure_cp w f) arg (closure_ep w f) w"

text \<open>The initial functions of the vprocs: the program on vproc 0, the scheduler on the others once woken.\<close>

definition MainVProc :: "(World \<Rightarrow> Frame \<Rightarrow> RequestCode option \<times> World) \<Rightarrow> (nat \<Rightarrow> Env) \<Rightarrow> nat \<Rightarrow> Addr_t \<Rightarrow> Value_t \<Rightarrow> World
    \<Rightarrow> (World \<times> Frame) option" where
  "MainVProc asm env n mantEntry arg w = RunManticore asm env n mantEntry arg M_UNIT (set_reg Sleeping 0 w)"

definition IdleVProc :: "(World \<Rightarrow> Frame \<Rightarrow> RequestCode option \<times> World) \<Rightarrow> (nat \<Rightarrow> Env) \<Rightarrow> nat \<Rightarrow> Value_t \<Rightarrow> World
    \<Rightarrow> (World \<times> Frame) option" where
  "IdleVProc asm env n landingPad w =
     (let w1 = set_reg Sleeping M_FALSE (set_reg LandingPad landingPad w);
          ep = regs (self w1) SchedCont
      in RunManticore asm env n (closure_cp w1 ep) (regs (self w1) DummyK) ep w1)"

subsection \<open>Delivering signals\<close>

lemma self_set_self [simp]: "me w < length (vps w) \<Longrightarrow> self (set_self vp h w) = vp"
  by (simp add: self_def set_self_def)

lemma set_self_simps [simp]:
  "me (set_self vp h w) = me w" "length (vps (set_self vp h w)) = length (vps w)" "wheap (set_self vp h w) = h"
  "ShutdownFlg (set_self vp h w) = ShutdownFlg w" "wdqs (set_self vp h w) = wdqs w"
  by (simp_all add: set_self_def)

lemma set_reg_simps [simp]:
  "me (set_reg r v w) = me w" "length (vps (set_reg r v w)) = length (vps w)" "wheap (set_reg r v w) = wheap w"
  "ShutdownFlg (set_reg r v w) = ShutdownFlg w"
  by (simp_all add: set_reg_def)

lemma regs_set_reg [simp]:
  "me w < length (vps w) \<Longrightarrow> regs (self (set_reg r v w)) = (regs (self w))(r := v)"
  "me w < length (vps w) \<Longrightarrow> allocPtr (self (set_reg r v w)) = allocPtr (self w)"
  by (simp_all add: set_reg_def)

text \<open>The continuation that resumes the interrupted computation: its code, and the registers it will need.\<close>

lemma AllocNonUniform_cont:
  fixes n :: nat
  assumes a: "allocPtr vp = wadr n" and "0 < n" "n + 5 < 2 ^ 61"
  shows "\<exists>m. AllocNonUniform vp h [(RAW_FIELD, R), (RAW_FIELD, x), PTR_arg y]
        = Some (wadr n, vp\<lparr>allocPtr := wadr n + WORD_SZB * word_of_int (3 + 1)\<rparr>, set_mem h m)
    \<and> object_at m n (MIXED_HDR 7 3) [R, x, y] \<and> same_outside (mem h) m (n - 1) (n + 3)"
proof -
  let ?as = "[(RAW_FIELD, R), (RAW_FIELD, x), PTR_arg y]"
  let ?m = "(store_words (mem h) (wadr n) (map snd ?as))(wadr n - WORD_SZB := MIXED_HDR (predefined + 4) 3)"
  have nh: "nonuniform_hdr (int (length ?as)) (tag_bits 0 ?as) = Some (MIXED_HDR (predefined + 4) 3)"
    by (simp add: nonuniform_hdr_def PTR_arg_def RAW_FIELD_def PTR_FIELD_def)
  have l: "n + length (map snd ?as) = n + 3" by simp
  have b: "n + length (map snd ?as) < 2 ^ 61" unfolding l using assms(3) by linarith
  have "object_at ?m n (MIXED_HDR (predefined + 4) 3) (map snd ?as)" "same_outside (mem h) ?m (n - 1) (n + 3)"
    using object_at_new(3,4) [OF assms(2) b] unfolding l by blast+
  moreover have "AllocNonUniform vp h ?as = Some (wadr n, vp\<lparr>allocPtr := wadr n + WORD_SZB * word_of_int (3 + 1)\<rparr>, set_mem h ?m)"
    using nh a by (simp add: AllocNonUniform_def Let_def)
  ultimately show ?thesis by (auto simp: PTR_arg_def predefined_def)
qed

text \<open>C14: No signal is lost by the request loop: when compiled code comes back without needing a collection, an arrived or pending signal is delivered if the vproc is outside an atomic region (the scheduler continuation runs, its argument is an object from which the interrupted computation resumes, and further signals are masked), and otherwise it stays pending while the computation resumes.\<close>

lemma handle_GC_signal:
  fixes n :: nat
  assumes "me w < length (vps w)" "allocPtr (self w) = wadr n" "0 < n" "n + 5 < 2 ^ 61"
    and "allocPtr (self w) < LimitPtr (self w)" "\<not> globalGCPending (self w)"
  shows "\<exists>w' f'. handle_GC R gc oldLimitPtr w = Some (w', f') \<and>
    (if (oldLimitPtr = 0 \<or> regs (self w) SigPending = M_TRUE) \<and> regs (self w) Atomic = M_FALSE
     then f' = \<lparr>codeP = mem (wheap w') (regs (self w) SchedCont), argV = wadr n, envP = regs (self w) SchedCont, retCont = M_UNIT, exnCont = M_UNIT\<rparr>
       \<and> object_at (mem (wheap w')) n (MIXED_HDR 7 3) [R, regs (self w) StdCont, regs (self w) StdEnvPtr]
       \<and> same_outside (mem (wheap w)) (mem (wheap w')) (n - 1) (n + 3)
       \<and> regs (self w') = (regs (self w))(SigPending := M_FALSE, Atomic := M_TRUE)
     else f' = \<lparr>codeP = regs (self w) StdCont, argV = M_UNIT, envP = regs (self w) StdEnvPtr, retCont = M_UNIT, exnCont = M_UNIT\<rparr>
       \<and> regs (self w') = (if oldLimitPtr = 0 then (regs (self w))(SigPending := M_TRUE) else regs (self w)) \<and> wheap w' = wheap w)"
proof -
  let ?w2 = "if oldLimitPtr = 0 then set_reg SigPending M_TRUE w else w"
  have m: "me ?w2 < length (vps ?w2)" using assms(1) by simp
  have r: "regs (self ?w2) = (if oldLimitPtr = 0 then (regs (self w))(SigPending := M_TRUE) else regs (self w))" using assms(1) by simp
  have h: "wheap ?w2 = wheap w" by simp
  let ?vp = "(self ?w2)\<lparr>allocPtr := wadr n + WORD_SZB * word_of_int (3 + 1)\<rparr>"
  have "allocPtr (self ?w2) = wadr n" using assms(1,2) by simp
  from AllocNonUniform_cont [OF this assms(3,4), of "wheap ?w2" R "regs (self ?w2) StdCont" "regs (self ?w2) StdEnvPtr"]
  obtain m' where al: "AllocNonUniform (self ?w2) (wheap ?w2) [(RAW_FIELD, R), (RAW_FIELD, regs (self ?w2) StdCont), PTR_arg (regs (self ?w2) StdEnvPtr)]
      = Some (wadr n, ?vp, set_mem (wheap w) m')"
    and o: "object_at m' n (MIXED_HDR 7 3) [R, regs (self ?w2) StdCont, regs (self ?w2) StdEnvPtr]" "same_outside (mem (wheap w)) m' (n - 1) (n + 3)"
    unfolding h by blast
  have g: "\<not> (LimitPtr (self w) \<le> allocPtr (self w) \<or> globalGCPending (self w))" using assms(5,6) by (simp add: not_le)
  show ?thesis
  proof (cases "regs (self ?w2) SigPending = M_TRUE \<and> regs (self ?w2) Atomic = M_FALSE")
    case True
    let ?w3 = "set_self ?vp (set_mem (wheap w) m') ?w2"
    have e: "handle_GC R gc oldLimitPtr w = Some (set_reg SigPending M_FALSE (set_reg Atomic M_TRUE ?w3),
        \<lparr>codeP = closure_cp ?w3 (regs (self ?w3) SchedCont), argV = wadr n, envP = regs (self ?w3) SchedCont, retCont = M_UNIT, exnCont = M_UNIT\<rparr>)"
      unfolding handle_GC_def if_not_P [OF g] bind.bind_lunit Let_def if_P [OF True] al split ..
    have c: "(oldLimitPtr = 0 \<or> regs (self w) SigPending = M_TRUE) \<and> regs (self w) Atomic = M_FALSE"
      using True unfolding r by (auto split: if_splits)
    have r1: "regs (self ?w2) StdCont = regs (self w) StdCont" "regs (self ?w2) StdEnvPtr = regs (self w) StdEnvPtr"
      "regs (self ?w2) SchedCont = regs (self w) SchedCont" using r by auto
    have r2: "(regs (self ?w2))(Atomic := M_TRUE, SigPending := M_FALSE) = (regs (self w))(SigPending := M_FALSE, Atomic := M_TRUE)"
      unfolding r by auto
    have s3: "self ?w3 = ?vp" using m by (rule self_set_self)
    have m3: "me ?w3 < length (vps ?w3)" using m by simp
    show ?thesis
      unfolding e if_P [OF c]
      by (intro exI conjI, rule refl)
        (use o s3 m3 r1 r2 in \<open>simp_all add: closure_cp_def set_mem_def PTR_arg_def predefined_def del: if_split\<close>)
  next
    case False
    have e: "handle_GC R gc oldLimitPtr w = Some (?w2, \<lparr>codeP = regs (self ?w2) StdCont, argV = M_UNIT, envP = regs (self ?w2) StdEnvPtr, retCont = M_UNIT, exnCont = M_UNIT\<rparr>)"
      unfolding handle_GC_def if_not_P [OF g] bind.bind_lunit Let_def if_not_P [OF False] ..
    have c: "\<not> ((oldLimitPtr = 0 \<or> regs (self w) SigPending = M_TRUE) \<and> regs (self w) Atomic = M_FALSE)"
      using False unfolding r by (auto split: if_splits)
    show ?thesis unfolding e if_not_P [OF c] using r h by (auto split: if_splits)
  qed
qed

subsection \<open>Shutting down\<close>

lemma GlobalAllocUniform_bump:
  "globNextW vp = wadr n \<Longrightarrow> globLimit vp = wadr b \<Longrightarrow> n + length flds + 1 < b \<Longrightarrow> b < 2 ^ 61
   \<Longrightarrow> \<exists>m. GlobalAllocUniform vp h flds = Some (wadr n, bump_global vp (WORD_SZB * word_of_nat (length flds + 1)), set_mem h m)"
  using EnsureGlobalSpace_stay [of vp "int (length flds)" h] wadr_plus_len [of n "length flds"]
  by (auto simp: GlobalAllocUniform_def Let_def add.commute)

lemma GlobalAllocNonUniform_bump:
  "globNextW vp = wadr n \<Longrightarrow> globLimit vp = wadr b \<Longrightarrow> n + length flds + 1 < b \<Longrightarrow> b < 2 ^ 61
   \<Longrightarrow> nonuniform_hdr (int (length flds)) (tag_bits 0 flds) = Some hdr
   \<Longrightarrow> \<exists>m. GlobalAllocNonUniform vp h flds = Some (wadr n, bump_global vp (WORD_SZB * word_of_nat (length flds + 1)), set_mem h m)"
  using EnsureGlobalSpace_stay [of vp "int (length flds)" h] wadr_plus_len [of n "length flds"]
  by (auto simp: GlobalAllocNonUniform_def Let_def add.commute)

text \<open>The vproc will notice: its limit is 0, and the item on top of its landing pad, which lies below word \<open>e\<close>, carries \<open>k\<close>.\<close>

definition interrupted :: "mem \<Rightarrow> nat \<Rightarrow> Value_t \<Rightarrow> VProc \<Rightarrow> bool" where
  "interrupted m e k vp \<longleftrightarrow> limitPtr vp = 0 \<and> (\<exists>j. regs vp LandingPad = wadr j \<and> j + 2 < e \<and> m (wadr (j + 1)) = k)"

lemma interrupted_later:
  "interrupted m e k vp \<Longrightarrow> same_outside m m' (e - 1) x \<Longrightarrow> e \<le> e' \<Longrightarrow> e < 2 ^ 61 \<Longrightarrow> regs vp' = regs vp \<Longrightarrow> limitPtr vp' = limitPtr vp
   \<Longrightarrow> interrupted m' e' k vp'"
proof -
  assume a: "interrupted m e k vp" "same_outside m m' (e - 1) x" "e \<le> e'" "e < 2 ^ 61" "regs vp' = regs vp" "limitPtr vp' = limitPtr vp"
  then obtain j where j: "regs vp LandingPad = wadr j" "j + 2 < e" "m (wadr (j + 1)) = k" unfolding interrupted_def by blast
  have "m' (wadr (j + 1)) = k" using a(2,4) j(2,3) unfolding same_outside_def by auto
  then show ?thesis using a j unfolding interrupted_def by auto
qed

lemma VProcSendSignal_alone:
  fixes n b :: nat
  assumes n: "globNextW slf = wadr n" "0 < n" and b: "globLimit slf = wadr b" "n + 12 < b" "b < 2 ^ 61"
  shows "\<exists>m st woken. VProcSendSignal [] slf vp fls k h
      = Some ((slf\<lparr>globNextW := wadr (n + 12), globalStats := st\<rparr>, set_mem h m), vp\<lparr>regs := (regs vp)(LandingPad := wadr (n + 8))\<rparr>, woken)
    \<and> m (wadr (n + 8 + 1)) = k \<and> same_outside (mem h) m (n - 1) (n + 11)"
proof -
  let ?a1 = "[INT_arg 3]" and ?a2 = "[INT_arg (- 1), PTR_arg M_NONE, INT_arg 0, PTR_arg M_NIL, PTR_arg (wadr n)]"
  have t1: "nonuniform_hdr (int (length ?a1)) (tag_bits 0 ?a1) = Some (MIXED_HDR predefined 1)"
    and t2: "nonuniform_hdr (int (length ?a2)) (tag_bits 0 ?a2) = Some (MIXED_HDR (predefined + 3) 5)"
    by (simp_all add: nonuniform_hdr_def INT_arg_def PTR_arg_def RAW_FIELD_def PTR_FIELD_def)
  have e1: "n + length ?a1 = n + 1" "n + 1 + 1 = n + 2" by simp_all
  have l1: "n + length ?a1 + 1 < b" using b(2) by simp
  obtain s1 h1 m1 where 1: "GlobalAllocNonUniform slf h ?a1 = Some (wadr n, s1, h1)" "same_outside (mem h) (mem h1) (n - 1) (n + 1)"
    "globNextW s1 = wadr (n + 2)" "globLimit s1 = wadr b" "s1 = bump_global slf (WORD_SZB * word_of_nat (length ?a1 + 1))" "h1 = set_mem h m1"
    using GlobalAllocNonUniform_room [OF n b(1) l1 b(3) t1, of h, unfolded e1] GlobalAllocNonUniform_bump [OF n(1) b(1) l1 b(3) t1, of h]
    by (metis option.inject prod.inject)
  have e2: "n + 2 + length ?a2 = n + 7" "n + 7 + 1 = n + 8" "n + 2 - 1 = n + 1" by simp_all
  have l2: "n + 2 + length ?a2 + 1 < b" using b(2) unfolding e2 by simp
  obtain s2 h2 m2 where 2: "GlobalAllocNonUniform s1 h1 ?a2 = Some (wadr (n + 2), s2, h2)" "same_outside (mem h1) (mem h2) (n + 1) (n + 7)"
    "globNextW s2 = wadr (n + 8)" "globLimit s2 = wadr b" "s2 = bump_global s1 (WORD_SZB * word_of_nat (length ?a2 + 1))" "h2 = set_mem h1 m2"
    using GlobalAllocNonUniform_room [OF 1(3) zero_less_two_more 1(4) l2 b(3) t2, of h1, unfolded e2]
      GlobalAllocNonUniform_bump [OF 1(3,4) l2 b(3) t2, of h1]
    by (metis option.inject prod.inject)
  let ?a3 = "[wadr (n + 2), k, regs vp LandingPad]"
  have e3: "n + 8 + length ?a3 = n + 11" "n + 11 + 1 = n + 12" "n + 8 - 1 = n + 7" by simp_all
  have l3: "n + 8 + length ?a3 + 1 < b" "0 < n + 8" using b(2) unfolding e3 by simp_all
  obtain s3 h3 m3 where 3: "GlobalAllocUniform s2 h2 ?a3 = Some (wadr (n + 8), s3, h3)" "same_outside (mem h2) (mem h3) (n + 7) (n + 11)"
    "object_at (mem h3) (n + 8) (VEC_HDR (int (length ?a3))) ?a3"
    "globNextW s3 = wadr (n + 12)" "globLimit s3 = wadr b" "s3 = bump_global s2 (WORD_SZB * word_of_nat (length ?a3 + 1))" "h3 = set_mem h2 m3"
    using GlobalAllocUniform_room [OF 2(3) l3(2) 2(4) l3(1) b(3), of h2, unfolded e3] GlobalAllocUniform_bump [OF 2(3,4) l3(1) b(3), of h2]
    by (metis option.inject prod.inject)
  have run: "VProcSendSignal [] slf vp fls k h = Some ((s3, h3), vp\<lparr>regs := (regs vp)(LandingPad := wadr (n + 8))\<rparr>, regs vp Sleeping = M_TRUE)"
  proof -
    have "push_item (wadr (n + 2)) k (regs vp LandingPad) [] s2 h2 = Some (wadr (n + 8), s3, h3)"
      by (subst push_item.simps) (simp only: 3(1) bind.bind_lunit split list.case)
    then show ?thesis unfolding VProcSendSignal_def 1(1) bind.bind_lunit split 2(1) by (simp only: bind.bind_lunit split)
  qed
  have s: "s3 = slf\<lparr>globNextW := wadr (n + 12), globalStats := globalStats s3\<rparr>"
    using 3(4) unfolding 3(6) 2(5) 1(5) bump_global_def by (cases slf) simp
  have h: "h3 = set_mem h (mem h3)" unfolding 3(7) 2(6) 1(6) by (simp add: set_mem_def)
  have "\<forall>i<length ?a3. mem h3 (wadr (n + 8 + i)) = ?a3 ! i" using 3(3) unfolding object_at_def by blast
  then have "mem h3 (wadr (n + 8 + 1)) = ?a3 ! 1" by (rule allE [of _ 1]) simp
  then have k: "mem h3 (wadr (n + 8 + 1)) = k" by simp
  have so: "same_outside (mem h) (mem h3) (n - 1) (n + 11)"
    by (rule same_outside_trans [OF same_outside_trans [OF 1(2) 2(2)] 3(2)]) auto
  show ?thesis using run k so by (subst (asm) s, subst (asm) h) blast
qed

definition room :: "World \<Rightarrow> nat \<Rightarrow> nat \<Rightarrow> bool" where
  "room w n b \<longleftrightarrow> me w < length (vps w) \<and> globNextW (self w) = wadr n \<and> 0 < n \<and> globLimit (self w) = wadr b \<and> b < 2 ^ 61"

lemma send_preempt_interrupts:
  assumes r: "room w n b" "n + 12 < b" and i: "i < length (vps w)"
  shows "\<exists>w'. send_preempt [] i w = Some w' \<and> me w' = me w \<and> length (vps w') = length (vps w) \<and> ShutdownFlg w' = ShutdownFlg w
    \<and> room w' (n + 12) b \<and> same_outside (mem (wheap w)) (mem (wheap w')) (n - 1) (n + 11)
    \<and> interrupted (mem (wheap w')) (n + 12) (regs (vps w ! i) DummyK) (vps w' ! i)
    \<and> (\<forall>j<length (vps w). j \<noteq> i \<longrightarrow> regs (vps w' ! j) = regs (vps w ! j) \<and> limitPtr (vps w' ! j) = limitPtr (vps w ! j))
    \<and> regs (vps w' ! i) DummyK = regs (vps w ! i) DummyK"
proof -
  have m: "me w < length (vps w)" using r by (simp add: room_def)
  let ?wvp = "vps w ! i"
  obtain mm st woken where s: "VProcSendSignal [] (self w) ?wvp (regs ?wvp CurrentFLS) (regs ?wvp DummyK) (wheap w)
      = Some (((self w)\<lparr>globNextW := wadr (n + 12), globalStats := st\<rparr>, set_mem (wheap w) mm), ?wvp\<lparr>regs := (regs ?wvp)(LandingPad := wadr (n + 8))\<rparr>, woken)"
    "mm (wadr (n + 8 + 1)) = regs ?wvp DummyK" "same_outside (mem (wheap w)) mm (n - 1) (n + 11)"
    using VProcSendSignal_alone [of "self w" n b ?wvp "regs ?wvp CurrentFLS" "regs ?wvp DummyK" "wheap w"] r unfolding room_def by blast
  let ?v1 = "(vps w)[me w := (self w)\<lparr>globNextW := wadr (n + 12), globalStats := st\<rparr>]"
  let ?d = "VProcPreempt ((?v1 ! i)\<lparr>regs := (regs (?v1 ! i))(LandingPad := wadr (n + 8))\<rparr>)"
  let ?w' = "w\<lparr>vps := ?v1[i := ?d], wheap := set_mem (wheap w) mm\<rparr>"
  have run: "send_preempt [] i w = Some ?w'"
    by (simp add: send_preempt_def s(1) set_self_def Let_def)
  have v1: "regs (?v1 ! j) = regs (vps w ! j)" "limitPtr (?v1 ! j) = limitPtr (vps w ! j)" for j
    using m by (cases "j = me w"; simp add: self_def nth_list_update)+
  have "room ?w' (n + 12) b"
    using r m i by (cases "me w = i") (auto simp: room_def self_def VProcPreempt_def)
  moreover have "interrupted mm (n + 12) (regs ?wvp DummyK) ?d"
    using s(2) unfolding interrupted_def VProcPreempt_def by (auto intro!: exI [of _ "n + 8"])
  moreover have "\<forall>j<length (vps w). j \<noteq> i \<longrightarrow> regs (?v1[i := ?d] ! j) = regs (vps w ! j) \<and> limitPtr (?v1[i := ?d] ! j) = limitPtr (vps w ! j)"
    using v1 by simp
  moreover have "regs ?d DummyK = regs ?wvp DummyK" using v1 by (simp add: VProcPreempt_def)
  ultimately show ?thesis using run s(3) i by (simp add: set_mem_def)
qed

lemma interrupt_all_interrupts:
  "room w n b \<Longrightarrow> n + 12 * length is < b \<Longrightarrow> distinct is \<Longrightarrow> set is \<subseteq> {..<length (vps w)} \<Longrightarrow>
   \<exists>w'. interrupt_all (\<lambda>_. []) is w = Some w' \<and> length (vps w') = length (vps w) \<and> ShutdownFlg w' = ShutdownFlg w
    \<and> room w' (n + 12 * length is) b \<and> same_outside (mem (wheap w)) (mem (wheap w')) (n - 1) (n + 12 * length is)
    \<and> (\<forall>i\<in>set is. interrupted (mem (wheap w')) (n + 12 * length is) (regs (vps w ! i) DummyK) (vps w' ! i))
    \<and> (\<forall>j<length (vps w). j \<notin> set is \<longrightarrow> regs (vps w' ! j) = regs (vps w ! j) \<and> limitPtr (vps w' ! j) = limitPtr (vps w ! j))"
proof (induction "is" arbitrary: w n)
  case Nil
  then show ?case by (simp add: same_outside_def)
next
  case (Cons i js)
  have i: "i < length (vps w)" "i \<notin> set js" using Cons.prems by auto
  have b: "b < 2 ^ 61" "n + 12 < b" using Cons.prems by (auto simp: room_def)
  obtain w1 where 1: "send_preempt [] i w = Some w1" "length (vps w1) = length (vps w)" "ShutdownFlg w1 = ShutdownFlg w"
    "room w1 (n + 12) b" "same_outside (mem (wheap w)) (mem (wheap w1)) (n - 1) (n + 11)"
    "interrupted (mem (wheap w1)) (n + 12) (regs (vps w ! i) DummyK) (vps w1 ! i)"
    "\<forall>j<length (vps w). j \<noteq> i \<longrightarrow> regs (vps w1 ! j) = regs (vps w ! j) \<and> limitPtr (vps w1 ! j) = limitPtr (vps w ! j)"
    using send_preempt_interrupts [OF Cons.prems(1) b(2) i(1)] by blast
  have e: "n + 12 + 12 * length js = n + 12 * length (i # js)" by simp
  have p: "n + 12 + 12 * length js < b" "distinct js" "set js \<subseteq> {..<length (vps w1)}" using Cons.prems 1(2) by auto
  obtain w2 where 2: "interrupt_all (\<lambda>_. []) js w1 = Some w2" "length (vps w2) = length (vps w1)" "ShutdownFlg w2 = ShutdownFlg w1"
    "room w2 (n + 12 * length (i # js)) b" "same_outside (mem (wheap w1)) (mem (wheap w2)) (n + 12 - 1) (n + 12 * length (i # js))"
    "\<forall>j\<in>set js. interrupted (mem (wheap w2)) (n + 12 * length (i # js)) (regs (vps w1 ! j) DummyK) (vps w2 ! j)"
    "\<forall>j<length (vps w1). j \<notin> set js \<longrightarrow> regs (vps w2 ! j) = regs (vps w1 ! j) \<and> limitPtr (vps w2 ! j) = limitPtr (vps w1 ! j)"
    using Cons.IH [OF 1(4) p] unfolding e by blast
  have "interrupted (mem (wheap w2)) (n + 12 * length (i # js)) (regs (vps w ! i) DummyK) (vps w2 ! i)"
    using 2(7) i 1(2) b by (intro interrupted_later [OF 1(6) 2(5)]) auto
  moreover have "interrupted (mem (wheap w2)) (n + 12 * length (i # js)) (regs (vps w ! j) DummyK) (vps w2 ! j)" if "j \<in> set js" for j
  proof -
    have "j < length (vps w)" "j \<noteq> i" using that Cons.prems i by auto
    then show ?thesis using 2(6) that 1(7) by auto
  qed
  moreover have "same_outside (mem (wheap w)) (mem (wheap w2)) (n - 1) (n + 12 * length (i # js))"
    by (rule same_outside_trans [OF 1(5) 2(5)]) auto
  moreover have "\<forall>j<length (vps w). j \<notin> set (i # js) \<longrightarrow> regs (vps w2 ! j) = regs (vps w ! j) \<and> limitPtr (vps w2 ! j) = limitPtr (vps w ! j)"
    using 2(7) 1(2,7) by auto
  ultimately show ?case using 1 2 by auto
qed

text \<open>C16: Returning from the main program interrupts every vproc, the caller included: each has its limit pointer cleared and its trivial fiber on top of its landing pad, and the pushes for the others do not disturb it.\<close>

lemma shutdown_interrupts_all:
  assumes w: "room (snd (reset_limit w)) n b" "n + 12 * length (vps w) < b" and e: "interference env = (\<lambda>_. [])"
  shows "\<exists>w'. handle_request env (Some REQ_Return) w f = Some (w', f) \<and> ShutdownFlg w' \<and> length (vps w') = length (vps w)
    \<and> (\<forall>i<length (vps w). interrupted (mem (wheap w')) (n + 12 * length (vps w)) (regs (vps w ! i) DummyK) (vps w' ! i))"
proof -
  let ?w = "(snd (reset_limit w))\<lparr>ShutdownFlg := True\<rparr>"
  have l: "length (vps ?w) = length (vps w)" by (simp add: reset_limit_def)
  have m: "me w < length (vps w)" using w(1) by (simp add: room_def reset_limit_def)
  have r: "room ?w n b" using w(1) by (simp add: room_def self_def)
  have d: "regs (vps ?w ! i) = regs (vps w ! i)" for i
    using m by (cases "i = me w") (simp_all add: reset_limit_def set_self_def self_def)
  obtain w' where w': "interrupt_all (\<lambda>_. []) [0..<length (vps w)] ?w = Some w'" "length (vps w') = length (vps w)" "ShutdownFlg w'"
    "\<forall>i\<in>set [0..<length (vps w)]. interrupted (mem (wheap w')) (n + 12 * length (vps w)) (regs (vps ?w ! i) DummyK) (vps w' ! i)"
  proof -
    have "n + 12 * length [0..<length (vps w)] < b" "distinct [0..<length (vps w)]" "set [0..<length (vps w)] \<subseteq> {..<length (vps ?w)}"
      "ShutdownFlg ?w" using w(2) l by auto
    with interrupt_all_interrupts [OF r this(1-3)] l show ?thesis using that by (auto simp del: set_upt)
  qed
  have "handle_request env (Some REQ_Return) w f = Some (w', f)"
    using w'(1) l e by (simp add: handle_request_def handle_Return_def case_prod_unfold)
  then show ?thesis using w' d by auto
qed

definition ex_world :: World where
  "ex_world = \<lparr>me = 1,
     vps = [ex_vproc\<lparr>regs := (\<lambda>r. if r = DummyK then 77 else M_NIL)\<rparr>,
            ex_vproc\<lparr>regs := (\<lambda>r. if r = DummyK then 99 else if r = StdCont then 0x500 else M_NIL), limitPtr := 0, globalGCPending := False,
              heapBase := 0x1000000, allocPtr := 0x1000100, globNextW := wadr 1000, globLimit := wadr 2000\<rparr>],
     wheap = ex_heap, wdqs = undefined, ShutdownFlg = False\<rparr>"

lemma shutdown_interrupts_all_witness:
  "\<exists>w'. handle_request \<lparr>asm_Return = 0x10, asm_UncaughtExn = 0x20, asm_Resume = 0x30, gcollect = (\<lambda>_. None), interference = (\<lambda>_. []), wakeup = (True, M_NIL)\<rparr>
       (Some REQ_Return) ex_world \<lparr>codeP = 0, argV = M_UNIT, envP = M_UNIT, retCont = M_UNIT, exnCont = M_UNIT\<rparr>
       = Some (w', \<lparr>codeP = 0, argV = M_UNIT, envP = M_UNIT, retCont = M_UNIT, exnCont = M_UNIT\<rparr>)
    \<and> ShutdownFlg w' \<and> interrupted (mem (wheap w')) 1024 77 (vps w' ! 0) \<and> interrupted (mem (wheap w')) 1024 99 (vps w' ! 1)"
proof -
  have r: "room (snd (reset_limit ex_world)) 1000 2000"
    by (simp add: room_def reset_limit_def set_self_def self_def ex_world_def)
  have l: "1000 + 12 * length (vps ex_world) < 2000" by (simp add: ex_world_def)
  let ?env = "\<lparr>asm_Return = 0x10, asm_UncaughtExn = 0x20, asm_Resume = 0x30, gcollect = (\<lambda>_. None), interference = (\<lambda>_. []), wakeup = (True, M_NIL)\<rparr>"
  have e: "interference ?env = (\<lambda>_. [])" by simp
  have n: "length (vps ex_world) = 2" "1000 + 12 * (2 :: nat) = 1024" "regs (vps ex_world ! 0) DummyK = 77" "regs (vps ex_world ! 1) DummyK = 99"
    by (simp_all add: ex_world_def)
  show ?thesis using shutdown_interrupts_all [OF r l e, of "\<lparr>codeP = 0, argV = M_UNIT, envP = M_UNIT, retCont = M_UNIT, exnCont = M_UNIT\<rparr>"]
    unfolding n(1,2) using n(3,4) by (metis zero_less_numeral one_less_numeral_iff semiring_norm(76))
qed

lemma handle_GC_signal_witness:
  "\<exists>w' f'. handle_GC 0x30 (\<lambda>_. None) 0 (set_reg Atomic M_FALSE ex_world) = Some (w', f')
    \<and> argV f' = wadr 0x200020 \<and> object_at (mem (wheap w')) 0x200020 (MIXED_HDR 7 3) [0x30, 0x500, M_NIL]
    \<and> regs (self w') Atomic = M_TRUE \<and> regs (self w') SigPending = M_FALSE"
proof -
  let ?w = "set_reg Atomic M_FALSE ex_world"
  have s: "self ?w = (vps ex_world ! 1)\<lparr>regs := (regs (vps ex_world ! 1))(Atomic := M_FALSE)\<rparr>"
    by (simp add: set_reg_def ex_world_def self_def set_self_def)
  have "me ?w < length (vps ?w)" "allocPtr (self ?w) = wadr 0x200020" "0 < (0x200020 :: nat)" "(0x200020 :: nat) + 5 < 2 ^ 61"
    "allocPtr (self ?w) < LimitPtr (self ?w)" "\<not> globalGCPending (self ?w)"
    unfolding s by (simp_all add: ex_world_def wadr_def LimitPtr_def VP_HEAP_SZB_def ALLOC_BUF_SZB_def)
  from handle_GC_signal [OF this, where R = "0x30" and gc = "\<lambda>_. None" and oldLimitPtr = 0]
  show ?thesis unfolding s by (auto simp: ex_world_def M_TRUE_def M_FALSE_def)
qed

end
