(* ===== verification/Json_Values.thy ===== *)
theory Json_Values
  imports C_Strings
begin

text \<open>
  The JSON values the log tools read their descriptions into: \<^verbatim>\<open>src/tools/log-common/json.c\<close>.
  \<open>DoToken\<close> is the callback the parser runs for every token; it builds values on a stack of
  2048 entries, on which two extra tags mark an open array or object and a field label. The stack is
  a list with the top first, a failed assertion or the overflow message is \<open>Inl\<close>, and
  \<open>mallocs\<close> counts allocated blocks. A pointer that may be null is an option.

  The lemmas show that the tokens of a value, in the order the parser reports them, leave exactly
  that value on the stack (\<open>tokens_build\<close>).
\<close>

section \<open>Values and the parser stack\<close>

datatype ParseState_t = START | IN_OBJ | IN_ARR

text \<open>\<open>MARK_TAG\<close> and \<open>FIELD_TAG\<close> are the two extra tags entries of the parser stack can have.\<close>

datatype JSON_Value_t =
    JSON_null
  | JSON_bool bool
  | JSON_int int
  | JSON_float "64 word"
  | JSON_string string
  | JSON_array "JSON_Value_t list"
  | JSON_object "(string \<times> JSON_Value_t) list"
  | MARK_TAG ParseState_t
  | FIELD_TAG string

datatype JSON_type = JSON_T_NONE | JSON_T_ARRAY_BEGIN | JSON_T_ARRAY_END | JSON_T_OBJECT_BEGIN | JSON_T_OBJECT_END
  | JSON_T_INTEGER | JSON_T_FLOAT | JSON_T_NULL | JSON_T_TRUE | JSON_T_FALSE | JSON_T_STRING | JSON_T_KEY | JSON_T_MAX

text \<open>The union a token carries, by the member that was stored; \<open>V_none\<close> is the null pointer.\<close>

datatype JSON_value = V_none | V_integer int | V_float "64 word" | V_str string

definition STACK_SZ :: nat where "STACK_SZ = 2048"

text \<open>The stack is the list of its entries, the top first, so \<^verbatim>\<open>tsp\<close> is its length less one.
  \<open>mallocs\<close> counts the blocks allocated so far.\<close>

record ParserInfo_t =
  st :: ParseState_t
  stack :: "JSON_Value_t list"
  mallocs :: nat

datatype JsonStop = StackOverflow | AssertFailed

definition PushValue :: "JSON_Value_t \<Rightarrow> ParserInfo_t \<Rightarrow> JsonStop + ParserInfo_t" where
  "PushValue v info = (if length (stack info) < STACK_SZ then Inr (info\<lparr>stack := v # stack info\<rparr>) else Inl StackOverflow)"

text \<open>The entries counted down to the last mark; \<open>None\<close> when the index falls below 0.\<close>

fun count_elems :: "JSON_Value_t list \<Rightarrow> nat option" where
  "count_elems [] = None"
| "count_elems (MARK_TAG s # vs) = Some 0"
| "count_elems (v # vs) = map_option Suc (count_elems vs)"

fun count_fields :: "JSON_Value_t list \<Rightarrow> nat option" where
  "count_fields [] = None"
| "count_fields (MARK_TAG s # vs) = Some 0"
| "count_fields [v] = None"
| "count_fields (v # w # vs) = map_option Suc (count_fields vs)"

text \<open>Popping \<open>n\<close> fields: a value and below it the label.\<close>

fun pop_fields :: "nat \<Rightarrow> JSON_Value_t list \<Rightarrow> (string \<times> JSON_Value_t) list \<Rightarrow> ((string \<times> JSON_Value_t) list \<times> JSON_Value_t list) option" where
  "pop_fields 0 vs acc = Some (acc, vs)"
| "pop_fields (Suc n) (v # FIELD_TAG l # vs) acc = pop_fields n vs ((l, v) # acc)"
| "pop_fields (Suc n) vs acc = None"

definition cstr :: "string \<Rightarrow> string" where
  "cstr s = takeWhile (\<lambda>c. c \<noteq> CHR 0x00) s"

definition str_of :: "JSON_value \<Rightarrow> string" where
  "str_of v = (case v of V_str s \<Rightarrow> cstr s | _ \<Rightarrow> [])"

definition int_of :: "JSON_value \<Rightarrow> int" where
  "int_of v = (case v of V_integer i \<Rightarrow> i | _ \<Rightarrow> 0)"

text \<open>Reading the float member; \<open>pun\<close> is what those bytes hold when a string was stored.\<close>

definition flt_of :: "(string \<Rightarrow> 64 word) \<Rightarrow> JSON_value \<Rightarrow> 64 word" where
  "flt_of pun v = (case v of V_float f \<Rightarrow> f | V_str s \<Rightarrow> pun s | _ \<Rightarrow> 0)"

definition begin_group :: "ParseState_t \<Rightarrow> ParserInfo_t \<Rightarrow> JsonStop + ParserInfo_t" where
  "begin_group s' info = (case PushValue (MARK_TAG (st info)) info of Inl e \<Rightarrow> Inl e | Inr info' \<Rightarrow> Inr (info'\<lparr>st := s'\<rparr>))"

definition end_array :: "ParserInfo_t \<Rightarrow> JsonStop + ParserInfo_t" where
  "end_array info =
    (if st info \<noteq> IN_ARR then Inl AssertFailed
     else case count_elems (stack info) of
       None \<Rightarrow> Inl AssertFailed
     | Some n \<Rightarrow>
       (let values = rev (take n (stack info)) in
        case drop n (stack info) of
          MARK_TAG s # rest \<Rightarrow> Inr (info\<lparr>st := s, stack := JSON_array values # rest, mallocs := mallocs info + 1 + n\<rparr>)
        | _ \<Rightarrow> Inl AssertFailed))"

definition end_object :: "ParserInfo_t \<Rightarrow> JsonStop + ParserInfo_t" where
  "end_object info =
    (if st info \<noteq> IN_OBJ then Inl AssertFailed
     else case count_fields (stack info) of
       None \<Rightarrow> Inl AssertFailed
     | Some n \<Rightarrow>
       (case pop_fields n (stack info) [] of
          Some (fds, MARK_TAG s # rest) \<Rightarrow>
            Inr (info\<lparr>st := s, stack := JSON_object fds # rest, mallocs := mallocs info + 1 + n\<rparr>)
        | _ \<Rightarrow> Inl AssertFailed))"

definition push_string :: "(string \<Rightarrow> JSON_Value_t) \<Rightarrow> JSON_value \<Rightarrow> ParserInfo_t \<Rightarrow> JsonStop + ParserInfo_t" where
  "push_string tag v info =
    (case PushValue (tag (str_of v)) info of Inl e \<Rightarrow> Inl e | Inr info' \<Rightarrow> Inr (info'\<lparr>mallocs := mallocs info' + 1\<rparr>))"

definition DoToken :: "(string \<Rightarrow> 64 word) \<Rightarrow> JSON_type \<Rightarrow> JSON_value \<Rightarrow> ParserInfo_t \<Rightarrow> JsonStop + ParserInfo_t" where
  "DoToken pun ty v info = (case ty of
      JSON_T_ARRAY_BEGIN \<Rightarrow> begin_group IN_ARR info
    | JSON_T_ARRAY_END \<Rightarrow> end_array info
    | JSON_T_OBJECT_BEGIN \<Rightarrow> begin_group IN_OBJ info
    | JSON_T_OBJECT_END \<Rightarrow> end_object info
    | JSON_T_INTEGER \<Rightarrow> PushValue (JSON_int (int_of v)) info
    | JSON_T_FLOAT \<Rightarrow> PushValue (JSON_float (flt_of pun v)) info
    | JSON_T_NULL \<Rightarrow> PushValue JSON_null info
    | JSON_T_TRUE \<Rightarrow> PushValue (JSON_bool True) info
    | JSON_T_FALSE \<Rightarrow> PushValue (JSON_bool False) info
    | JSON_T_KEY \<Rightarrow> if st info \<noteq> IN_OBJ then Inl AssertFailed else push_string FIELD_TAG v info
    | JSON_T_STRING \<Rightarrow> push_string JSON_string v info
    | _ \<Rightarrow> Inl AssertFailed)"

definition PopValue :: "ParserInfo_t \<Rightarrow> (JSON_Value_t \<times> ParserInfo_t) option" where
  "PopValue info = (case stack info of [] \<Rightarrow> None | v # vs \<Rightarrow> Some (v, info\<lparr>stack := vs, mallocs := mallocs info + 1\<rparr>))"

text \<open>\<open>JSON_Free\<close>, as the number of blocks it frees.\<close>

fun JSON_Free :: "JSON_Value_t \<Rightarrow> nat" where
  "JSON_Free (JSON_string s) = 1 + 1"
| "JSON_Free (JSON_array vs) = sum_list (map JSON_Free vs) + 1 + 1"
| "JSON_Free (JSON_object fs) = sum_list (map (\<lambda>f. 1 + JSON_Free (snd f)) fs) + 1 + 1"
| "JSON_Free v = 1"

fun find_field :: "(string \<times> JSON_Value_t) list \<Rightarrow> string \<Rightarrow> JSON_Value_t option" where
  "find_field [] name = None"
| "find_field ((l, v) # fs) name = (if strcasecmp_eq l name then Some v else find_field fs name)"

text \<open>A null pointer is \<open>None\<close>.\<close>

definition JSON_GetField :: "JSON_Value_t option \<Rightarrow> string \<Rightarrow> JSON_Value_t option" where
  "JSON_GetField v name = (case v of Some (JSON_object fs) \<Rightarrow> find_field fs name | _ \<Rightarrow> None)"

definition JSON_GetElem :: "JSON_Value_t option \<Rightarrow> int \<Rightarrow> JSON_Value_t option" where
  "JSON_GetElem v i = (case v of
     Some (JSON_array vs) \<Rightarrow> if i < 0 \<or> int (length vs) \<le> i then None else Some (vs ! nat i)
   | _ \<Rightarrow> None)"

definition JSON_GetString :: "JSON_Value_t option \<Rightarrow> string option" where
  "JSON_GetString v = (case v of Some (JSON_string s) \<Rightarrow> Some s | _ \<Rightarrow> None)"

section \<open>Building a value from its tokens\<close>

text \<open>The token sequence of a value, as the parser reports it.\<close>

fun tokens_of :: "JSON_Value_t \<Rightarrow> (JSON_type \<times> JSON_value) list" where
  "tokens_of JSON_null = [(JSON_T_NULL, V_none)]"
| "tokens_of (JSON_bool b) = [(if b then JSON_T_TRUE else JSON_T_FALSE, V_none)]"
| "tokens_of (JSON_int i) = [(JSON_T_INTEGER, V_integer i)]"
| "tokens_of (JSON_float f) = [(JSON_T_FLOAT, V_float f)]"
| "tokens_of (JSON_string s) = [(JSON_T_STRING, V_str s)]"
| "tokens_of (JSON_array vs) = (JSON_T_ARRAY_BEGIN, V_none) # concat (map tokens_of vs) @ [(JSON_T_ARRAY_END, V_none)]"
| "tokens_of (JSON_object fs) = (JSON_T_OBJECT_BEGIN, V_none)
     # concat (map (\<lambda>f. (JSON_T_KEY, V_str (fst f)) # tokens_of (snd f)) fs) @ [(JSON_T_OBJECT_END, V_none)]"
| "tokens_of v = []"

fun run_tokens :: "(string \<Rightarrow> 64 word) \<Rightarrow> (JSON_type \<times> JSON_value) list \<Rightarrow> ParserInfo_t \<Rightarrow> JsonStop + ParserInfo_t" where
  "run_tokens pun [] info = Inr info"
| "run_tokens pun ((ty, v) # ts) info = (case DoToken pun ty v info of Inl e \<Rightarrow> Inl e | Inr info' \<Rightarrow> run_tokens pun ts info')"

text \<open>Values a JSON text can denote, and the stack slots needed to build one.\<close>

definition no_nul :: "string \<Rightarrow> bool" where "no_nul s \<longleftrightarrow> CHR 0x00 \<notin> set s"

fun json_wf :: "JSON_Value_t \<Rightarrow> bool" where
  "json_wf (JSON_string s) = no_nul s"
| "json_wf (JSON_array vs) = list_all json_wf vs"
| "json_wf (JSON_object fs) = list_all (\<lambda>f. no_nul (fst f) \<and> json_wf (snd f)) fs"
| "json_wf (MARK_TAG s) = False"
| "json_wf (FIELD_TAG l) = False"
| "json_wf v = True"

fun stack_need :: "JSON_Value_t \<Rightarrow> nat" where
  "stack_need (JSON_array vs) = 1 + foldr (\<lambda>v k. max (stack_need v) (1 + k)) vs 0"
| "stack_need (JSON_object fs) = 1 + foldr (\<lambda>f k. max (1 + stack_need (snd f)) (2 + k)) fs 0"
| "stack_need v = 1"

definition built :: "JSON_Value_t \<Rightarrow> ParserInfo_t \<Rightarrow> ParserInfo_t" where
  "built v info = info\<lparr>stack := v # stack info, mallocs := mallocs info + (JSON_Free v - 1)\<rparr>"

definition built_list :: "JSON_Value_t list \<Rightarrow> ParserInfo_t \<Rightarrow> ParserInfo_t" where
  "built_list vs info = info\<lparr>stack := rev vs @ stack info, mallocs := mallocs info + sum_list (map (\<lambda>v. JSON_Free v - 1) vs)\<rparr>"

definition field_stack :: "(string \<times> JSON_Value_t) list \<Rightarrow> JSON_Value_t list" where
  "field_stack fs = concat (map (\<lambda>f. [snd f, FIELD_TAG (fst f)]) (rev fs))"

definition built_fields :: "(string \<times> JSON_Value_t) list \<Rightarrow> ParserInfo_t \<Rightarrow> ParserInfo_t" where
  "built_fields fs info = info\<lparr>stack := field_stack fs @ stack info, mallocs := mallocs info + sum_list (map (\<lambda>f. JSON_Free (snd f)) fs)\<rparr>"

lemma JSON_Free_pos [simp]: "0 < JSON_Free v" by (cases v) simp_all

lemma cstr_no_nul: "no_nul s \<Longrightarrow> cstr s = s"
  unfolding cstr_def no_nul_def by (rule takeWhile_eq_all_conv [THEN iffD2]) auto

lemma json_wf_no_mark: "json_wf v \<Longrightarrow> v \<noteq> MARK_TAG s" by auto

lemma count_elems_values:
  assumes "list_all json_wf vs" shows "count_elems (vs @ MARK_TAG s # rest) = Some (length vs)"
  using assms
proof (induction vs)
  case (Cons v vs)
  then show ?case by (cases v) simp_all
qed simp

lemma field_stack_snoc: "field_stack (fs @ [f]) = snd f # FIELD_TAG (fst f) # field_stack fs"
  by (simp add: field_stack_def)

lemma count_fields_stack:
  assumes "list_all (\<lambda>f. json_wf (snd f)) fs" shows "count_fields (field_stack fs @ MARK_TAG s # rest) = Some (length fs)"
  using assms
proof (induction fs rule: rev_induct)
  case (snoc f fs)
  then show ?case by (cases "snd f") (simp_all add: field_stack_snoc)
qed (simp add: field_stack_def)

lemma pop_fields_stack: "pop_fields (length fs) (field_stack fs @ rest) acc = Some (fs @ acc, rest)"
proof (induction fs arbitrary: acc rule: rev_induct)
  case (snoc f fs)
  then show ?case by (simp add: field_stack_snoc)
qed (simp add: field_stack_def)

lemma PushValue_room: "length (stack info) < STACK_SZ \<Longrightarrow> PushValue v info = Inr (info\<lparr>stack := v # stack info\<rparr>)"
  by (simp add: PushValue_def)

lemma run_tokens_append:
  "run_tokens pun (ts @ us) info = (case run_tokens pun ts info of Inl e \<Rightarrow> Inl e | Inr i \<Rightarrow> run_tokens pun us i)"
  by (induction pun ts info rule: run_tokens.induct) (auto split: sum.splits)

text \<open>The tokens of a list of values, given that those of each value build it.\<close>

definition builds :: "(string \<Rightarrow> 64 word) \<Rightarrow> JSON_Value_t \<Rightarrow> bool" where
  "builds pun v \<longleftrightarrow> (\<forall>info. length (stack info) + stack_need v \<le> STACK_SZ \<longrightarrow> run_tokens pun (tokens_of v) info = Inr (built v info))"

lemma run_list:
  assumes "\<forall>v \<in> set vs. builds pun v" and "length (stack info) + foldr (\<lambda>v k. max (stack_need v) (1 + k)) vs 0 \<le> STACK_SZ"
  shows "run_tokens pun (concat (map tokens_of vs)) info = Inr (built_list vs info)"
  using assms
proof (induction vs arbitrary: info)
  case (Cons v vs)
  have "run_tokens pun (tokens_of v) info = Inr (built v info)" using Cons.prems by (simp add: builds_def)
  moreover have "run_tokens pun (concat (map tokens_of vs)) (built v info) = Inr (built_list vs (built v info))"
    by (rule Cons.IH) (use Cons.prems in \<open>simp_all add: built_def\<close>)
  ultimately show ?case by (simp add: run_tokens_append built_list_def built_def)
qed (simp add: built_list_def)

lemma run_fields:
  assumes "\<forall>f \<in> set fs. builds pun (snd f) \<and> no_nul (fst f)" and "st info = IN_OBJ"
    and "length (stack info) + foldr (\<lambda>f k. max (1 + stack_need (snd f)) (2 + k)) fs 0 \<le> STACK_SZ"
  shows "run_tokens pun (concat (map (\<lambda>f. (JSON_T_KEY, V_str (fst f)) # tokens_of (snd f)) fs)) info = Inr (built_fields fs info)"
  using assms
proof (induction fs arbitrary: info)
  case (Cons f fs)
  let ?i1 = "info\<lparr>stack := FIELD_TAG (fst f) # stack info, mallocs := mallocs info + 1\<rparr>"
  have "length (stack info) < STACK_SZ" using Cons.prems(3) by simp
  then have k: "DoToken pun JSON_T_KEY (V_str (fst f)) info = Inr ?i1"
    using Cons.prems by (simp add: DoToken_def push_string_def str_of_def cstr_no_nul PushValue_room)
  have v: "run_tokens pun (tokens_of (snd f)) ?i1 = Inr (built (snd f) ?i1)" using Cons.prems by (simp add: builds_def)
  have "run_tokens pun (concat (map (\<lambda>f. (JSON_T_KEY, V_str (fst f)) # tokens_of (snd f)) fs)) (built (snd f) ?i1)
      = Inr (built_fields fs (built (snd f) ?i1))"
    by (rule Cons.IH) (use Cons.prems in \<open>simp_all add: built_def\<close>)
  with k v show ?case by (simp add: run_tokens_append built_fields_def built_def field_stack_def)
qed (simp add: built_fields_def field_stack_def)

lemma sum_Free: "sum_list (map JSON_Free vs) = length vs + sum_list (map (\<lambda>v. JSON_Free v - 1) vs)"
proof (induction vs)
  case (Cons v vs)
  have "JSON_Free v = 1 + (JSON_Free v - 1)" using JSON_Free_pos [of v] by linarith
  with Cons show ?case by simp
qed simp

lemma tokens_build: "json_wf v \<Longrightarrow> builds pun v"
proof (induction v rule: tokens_of.induct)
  case (6 vs)
  have b: "\<forall>v \<in> set vs. builds pun v" using 6 by (simp add: list_all_iff)
  show ?case unfolding builds_def
  proof (intro allI impI)
    fix info :: ParserInfo_t
    assume room: "length (stack info) + stack_need (JSON_array vs) \<le> STACK_SZ"
    let ?i1 = "info\<lparr>stack := MARK_TAG (st info) # stack info, st := IN_ARR\<rparr>"
    have 1: "DoToken pun JSON_T_ARRAY_BEGIN V_none info = Inr ?i1"
      using room by (simp add: DoToken_def begin_group_def PushValue_room)
    have 2: "run_tokens pun (concat (map tokens_of vs)) ?i1 = Inr (built_list vs ?i1)"
      by (rule run_list [OF b]) (use room in simp)
    have w: "list_all json_wf (rev vs)" using 6 by (simp add: list_all_iff)
    have 3: "DoToken pun JSON_T_ARRAY_END V_none (built_list vs ?i1) = Inr (built (JSON_array vs) info)"
      using count_elems_values [OF w, of "st info" "stack info"]
      by (simp add: DoToken_def end_array_def built_list_def built_def sum_Free)
    show "run_tokens pun (tokens_of (JSON_array vs)) info = Inr (built (JSON_array vs) info)"
      by (simp add: 1 2 3 run_tokens_append)
  qed
next
  case (7 fs)
  have b: "\<forall>f \<in> set fs. builds pun (snd f) \<and> no_nul (fst f)" using 7 by (auto simp: list_all_iff)
  show ?case unfolding builds_def
  proof (intro allI impI)
    fix info :: ParserInfo_t
    assume room: "length (stack info) + stack_need (JSON_object fs) \<le> STACK_SZ"
    let ?i1 = "info\<lparr>stack := MARK_TAG (st info) # stack info, st := IN_OBJ\<rparr>"
    have 1: "DoToken pun JSON_T_OBJECT_BEGIN V_none info = Inr ?i1"
      using room by (simp add: DoToken_def begin_group_def PushValue_room)
    have 2: "run_tokens pun (concat (map (\<lambda>f. (JSON_T_KEY, V_str (fst f)) # tokens_of (snd f)) fs)) ?i1 = Inr (built_fields fs ?i1)"
      by (rule run_fields [OF b]) (use room in simp_all)
    have w: "list_all (\<lambda>f. json_wf (snd f)) fs" using 7 by (simp add: list_all_iff)
    have 3: "DoToken pun JSON_T_OBJECT_END V_none (built_fields fs ?i1) = Inr (built (JSON_object fs) info)"
      using count_fields_stack [OF w, of "st info" "stack info"] pop_fields_stack [of fs "MARK_TAG (st info) # stack info" "[]"]
      by (simp add: DoToken_def end_object_def built_fields_def built_def sum_list_Suc)
    show "run_tokens pun (tokens_of (JSON_object fs)) info = Inr (built (JSON_object fs) info)"
      by (simp add: 1 2 3 run_tokens_append)
  qed
qed (simp_all add: builds_def DoToken_def PushValue_room built_def int_of_def flt_of_def push_string_def str_of_def cstr_no_nul)

end
