(* ===== verification/Json_Parser.thy ===== *)
theory Json_Parser
  imports Json_Values
begin

text \<open>
  The JSON parser of the log tools: \<^verbatim>\<open>src/tools/log-common/JSON_parser.c\<close>, a push-down
  automaton fed one character at a time, and the driver \<^verbatim>\<open>JSON_ParseFile\<close> of \<^verbatim>\<open>json.c\<close>.

  \<^item> The character classes and the transition table are those of the source, row by row.
  \<^item> An action (\<open>do_action\<close>) is one case of the source's switch; \<open>Reject\<close> is its
    \<^verbatim>\<open>return false\<close> and \<open>Stop\<close> a failed assertion or an exit, in the parser or in
    the callback. The callback is never null here, as in every use in the repository.
  \<^item> The growing of the parse buffer and of an unlimited stack is memory management and left out:
    both are lists.
\<close>

section \<open>Character classes and the transition table\<close>

datatype classes =
    C_SPACE | C_WHITE | C_LCURB | C_RCURB | C_LSQRB | C_RSQRB | C_COLON | C_COMMA
  | C_QUOTE | C_BACKS | C_SLASH | C_PLUS | C_MINUS | C_POINT | C_ZERO | C_DIGIT
  | C_LOW_A | C_LOW_B | C_LOW_C | C_LOW_D | C_LOW_E | C_LOW_F | C_LOW_L | C_LOW_N
  | C_LOW_R | C_LOW_S | C_LOW_T | C_LOW_U | C_ABCDF | C_E | C_ETC | C_STAR

text \<open>The position of a class in a row of the table, which is its value in the enumeration.\<close>

primrec class_ix :: "classes \<Rightarrow> nat" where
  "class_ix C_SPACE = 0"
| "class_ix C_WHITE = 1"
| "class_ix C_LCURB = 2"
| "class_ix C_RCURB = 3"
| "class_ix C_LSQRB = 4"
| "class_ix C_RSQRB = 5"
| "class_ix C_COLON = 6"
| "class_ix C_COMMA = 7"
| "class_ix C_QUOTE = 8"
| "class_ix C_BACKS = 9"
| "class_ix C_SLASH = 10"
| "class_ix C_PLUS = 11"
| "class_ix C_MINUS = 12"
| "class_ix C_POINT = 13"
| "class_ix C_ZERO = 14"
| "class_ix C_DIGIT = 15"
| "class_ix C_LOW_A = 16"
| "class_ix C_LOW_B = 17"
| "class_ix C_LOW_C = 18"
| "class_ix C_LOW_D = 19"
| "class_ix C_LOW_E = 20"
| "class_ix C_LOW_F = 21"
| "class_ix C_LOW_L = 22"
| "class_ix C_LOW_N = 23"
| "class_ix C_LOW_R = 24"
| "class_ix C_LOW_S = 25"
| "class_ix C_LOW_T = 26"
| "class_ix C_LOW_U = 27"
| "class_ix C_ABCDF = 28"
| "class_ix C_E = 29"
| "class_ix C_ETC = 30"
| "class_ix C_STAR = 31"

definition ascii_class :: "classes option list" where
  "ascii_class = [
    None, None, None, None, None, None, None, None,
    None, Some C_WHITE, Some C_WHITE, None, None, Some C_WHITE, None, None,
    None, None, None, None, None, None, None, None,
    None, None, None, None, None, None, None, None,
    Some C_SPACE, Some C_ETC, Some C_QUOTE, Some C_ETC, Some C_ETC, Some C_ETC, Some C_ETC, Some C_ETC,
    Some C_ETC, Some C_ETC, Some C_STAR, Some C_PLUS, Some C_COMMA, Some C_MINUS, Some C_POINT, Some C_SLASH,
    Some C_ZERO, Some C_DIGIT, Some C_DIGIT, Some C_DIGIT, Some C_DIGIT, Some C_DIGIT, Some C_DIGIT, Some C_DIGIT,
    Some C_DIGIT, Some C_DIGIT, Some C_COLON, Some C_ETC, Some C_ETC, Some C_ETC, Some C_ETC, Some C_ETC,
    Some C_ETC, Some C_ABCDF, Some C_ABCDF, Some C_ABCDF, Some C_ABCDF, Some C_E, Some C_ABCDF, Some C_ETC,
    Some C_ETC, Some C_ETC, Some C_ETC, Some C_ETC, Some C_ETC, Some C_ETC, Some C_ETC, Some C_ETC,
    Some C_ETC, Some C_ETC, Some C_ETC, Some C_ETC, Some C_ETC, Some C_ETC, Some C_ETC, Some C_ETC,
    Some C_ETC, Some C_ETC, Some C_ETC, Some C_LSQRB, Some C_BACKS, Some C_RSQRB, Some C_ETC, Some C_ETC,
    Some C_ETC, Some C_LOW_A, Some C_LOW_B, Some C_LOW_C, Some C_LOW_D, Some C_LOW_E, Some C_LOW_F, Some C_ETC,
    Some C_ETC, Some C_ETC, Some C_ETC, Some C_ETC, Some C_LOW_L, Some C_ETC, Some C_LOW_N, Some C_ETC,
    Some C_ETC, Some C_ETC, Some C_LOW_R, Some C_LOW_S, Some C_LOW_T, Some C_LOW_U, Some C_ETC, Some C_ETC,
    Some C_ETC, Some C_ETC, Some C_ETC, Some C_LCURB, Some C_ETC, Some C_RCURB, Some C_ETC, Some C_ETC]"

datatype states =
    GO | OK | OB | KE | CO | VA | AR | ST | ES | U1 | U2 | U3
  | U4 | MI | ZE | IT | FR | E1 | E2 | E3 | T1 | T2 | T3 | F1
  | F2 | F3 | F4 | N1 | N2 | N3 | C1 | C2 | C3 | FX | D1 | D2

text \<open>The actions: the named ones (\<^verbatim>\<open>EX\<close> is \<open>EXC\<close>), and \<open>A2\<close> to \<open>A9\<close> for the numbers -2 to -9.\<close>

datatype actions = CB | CE | FA | TR | NU | DE | DF | SB | MX | ZX | IX | EXC | UC | A2 | A3 | A4 | A5 | A6 | A7 | A8 | A9

text \<open>A table entry: the next state, an action, or the error code.\<close>

datatype entry = To states | Do actions | ER

primrec state_row :: "states \<Rightarrow> entry list" where
  "state_row GO =
    [To GO, To GO, Do A6, ER, Do A5, ER, ER, ER, ER, ER, Do CB, ER, ER, ER, ER, ER,
     ER, ER, ER, ER, ER, ER, ER, ER, ER, ER, ER, ER, ER, ER, ER, ER]"
| "state_row OK =
    [To OK, To OK, ER, Do A8, ER, Do A7, ER, Do A3, ER, ER, Do CB, ER, ER, ER, ER, ER,
     ER, ER, ER, ER, ER, ER, ER, ER, ER, ER, ER, ER, ER, ER, ER, ER]"
| "state_row OB =
    [To OB, To OB, ER, Do A9, ER, ER, ER, ER, Do SB, ER, Do CB, ER, ER, ER, ER, ER,
     ER, ER, ER, ER, ER, ER, ER, ER, ER, ER, ER, ER, ER, ER, ER, ER]"
| "state_row KE =
    [To KE, To KE, ER, ER, ER, ER, ER, ER, Do SB, ER, Do CB, ER, ER, ER, ER, ER,
     ER, ER, ER, ER, ER, ER, ER, ER, ER, ER, ER, ER, ER, ER, ER, ER]"
| "state_row CO =
    [To CO, To CO, ER, ER, ER, ER, Do A2, ER, ER, ER, Do CB, ER, ER, ER, ER, ER,
     ER, ER, ER, ER, ER, ER, ER, ER, ER, ER, ER, ER, ER, ER, ER, ER]"
| "state_row VA =
    [To VA, To VA, Do A6, ER, Do A5, ER, ER, ER, Do SB, ER, Do CB, ER, Do MX, ER, Do ZX, Do IX,
     ER, ER, ER, ER, ER, Do FA, ER, Do NU, ER, ER, Do TR, ER, ER, ER, ER, ER]"
| "state_row AR =
    [To AR, To AR, Do A6, ER, Do A5, Do A7, ER, ER, Do SB, ER, Do CB, ER, Do MX, ER, Do ZX, Do IX,
     ER, ER, ER, ER, ER, Do FA, ER, Do NU, ER, ER, Do TR, ER, ER, ER, ER, ER]"
| "state_row ST =
    [To ST, ER, To ST, To ST, To ST, To ST, To ST, To ST, Do A4, Do EXC, To ST, To ST, To ST, To ST, To ST, To ST,
     To ST, To ST, To ST, To ST, To ST, To ST, To ST, To ST, To ST, To ST, To ST, To ST, To ST, To ST, To ST, To ST]"
| "state_row ES =
    [ER, ER, ER, ER, ER, ER, ER, ER, To ST, To ST, To ST, ER, ER, ER, ER, ER,
     ER, To ST, ER, ER, ER, To ST, ER, To ST, To ST, ER, To ST, To U1, ER, ER, ER, ER]"
| "state_row U1 =
    [ER, ER, ER, ER, ER, ER, ER, ER, ER, ER, ER, ER, ER, ER, To U2, To U2,
     To U2, To U2, To U2, To U2, To U2, To U2, ER, ER, ER, ER, ER, ER, To U2, To U2, ER, ER]"
| "state_row U2 =
    [ER, ER, ER, ER, ER, ER, ER, ER, ER, ER, ER, ER, ER, ER, To U3, To U3,
     To U3, To U3, To U3, To U3, To U3, To U3, ER, ER, ER, ER, ER, ER, To U3, To U3, ER, ER]"
| "state_row U3 =
    [ER, ER, ER, ER, ER, ER, ER, ER, ER, ER, ER, ER, ER, ER, To U4, To U4,
     To U4, To U4, To U4, To U4, To U4, To U4, ER, ER, ER, ER, ER, ER, To U4, To U4, ER, ER]"
| "state_row U4 =
    [ER, ER, ER, ER, ER, ER, ER, ER, ER, ER, ER, ER, ER, ER, Do UC, Do UC,
     Do UC, Do UC, Do UC, Do UC, Do UC, Do UC, ER, ER, ER, ER, ER, ER, Do UC, Do UC, ER, ER]"
| "state_row MI =
    [ER, ER, ER, ER, ER, ER, ER, ER, ER, ER, ER, ER, ER, ER, To ZE, To IT,
     ER, ER, ER, ER, ER, ER, ER, ER, ER, ER, ER, ER, ER, ER, ER, ER]"
| "state_row ZE =
    [To OK, To OK, ER, Do A8, ER, Do A7, ER, Do A3, ER, ER, Do CB, ER, ER, Do DF, ER, ER,
     ER, ER, ER, ER, ER, ER, ER, ER, ER, ER, ER, ER, ER, ER, ER, ER]"
| "state_row IT =
    [To OK, To OK, ER, Do A8, ER, Do A7, ER, Do A3, ER, ER, Do CB, ER, ER, Do DF, To IT, To IT,
     ER, ER, ER, ER, Do DE, ER, ER, ER, ER, ER, ER, ER, ER, Do DE, ER, ER]"
| "state_row FR =
    [To OK, To OK, ER, Do A8, ER, Do A7, ER, Do A3, ER, ER, Do CB, ER, ER, ER, To FR, To FR,
     ER, ER, ER, ER, To E1, ER, ER, ER, ER, ER, ER, ER, ER, To E1, ER, ER]"
| "state_row E1 =
    [ER, ER, ER, ER, ER, ER, ER, ER, ER, ER, ER, To E2, To E2, ER, To E3, To E3,
     ER, ER, ER, ER, ER, ER, ER, ER, ER, ER, ER, ER, ER, ER, ER, ER]"
| "state_row E2 =
    [ER, ER, ER, ER, ER, ER, ER, ER, ER, ER, ER, ER, ER, ER, To E3, To E3,
     ER, ER, ER, ER, ER, ER, ER, ER, ER, ER, ER, ER, ER, ER, ER, ER]"
| "state_row E3 =
    [To OK, To OK, ER, Do A8, ER, Do A7, ER, Do A3, ER, ER, ER, ER, ER, ER, To E3, To E3,
     ER, ER, ER, ER, ER, ER, ER, ER, ER, ER, ER, ER, ER, ER, ER, ER]"
| "state_row T1 =
    [ER, ER, ER, ER, ER, ER, ER, ER, ER, ER, ER, ER, ER, ER, ER, ER,
     ER, ER, ER, ER, ER, ER, ER, ER, To T2, ER, ER, ER, ER, ER, ER, ER]"
| "state_row T2 =
    [ER, ER, ER, ER, ER, ER, ER, ER, ER, ER, ER, ER, ER, ER, ER, ER,
     ER, ER, ER, ER, ER, ER, ER, ER, ER, ER, ER, To T3, ER, ER, ER, ER]"
| "state_row T3 =
    [ER, ER, ER, ER, ER, ER, ER, ER, ER, ER, Do CB, ER, ER, ER, ER, ER,
     ER, ER, ER, ER, To OK, ER, ER, ER, ER, ER, ER, ER, ER, ER, ER, ER]"
| "state_row F1 =
    [ER, ER, ER, ER, ER, ER, ER, ER, ER, ER, ER, ER, ER, ER, ER, ER,
     To F2, ER, ER, ER, ER, ER, ER, ER, ER, ER, ER, ER, ER, ER, ER, ER]"
| "state_row F2 =
    [ER, ER, ER, ER, ER, ER, ER, ER, ER, ER, ER, ER, ER, ER, ER, ER,
     ER, ER, ER, ER, ER, ER, To F3, ER, ER, ER, ER, ER, ER, ER, ER, ER]"
| "state_row F3 =
    [ER, ER, ER, ER, ER, ER, ER, ER, ER, ER, ER, ER, ER, ER, ER, ER,
     ER, ER, ER, ER, ER, ER, ER, ER, ER, To F4, ER, ER, ER, ER, ER, ER]"
| "state_row F4 =
    [ER, ER, ER, ER, ER, ER, ER, ER, ER, ER, Do CB, ER, ER, ER, ER, ER,
     ER, ER, ER, ER, To OK, ER, ER, ER, ER, ER, ER, ER, ER, ER, ER, ER]"
| "state_row N1 =
    [ER, ER, ER, ER, ER, ER, ER, ER, ER, ER, ER, ER, ER, ER, ER, ER,
     ER, ER, ER, ER, ER, ER, ER, ER, ER, ER, ER, To N2, ER, ER, ER, ER]"
| "state_row N2 =
    [ER, ER, ER, ER, ER, ER, ER, ER, ER, ER, ER, ER, ER, ER, ER, ER,
     ER, ER, ER, ER, ER, ER, To N3, ER, ER, ER, ER, ER, ER, ER, ER, ER]"
| "state_row N3 =
    [ER, ER, ER, ER, ER, ER, ER, ER, ER, ER, Do CB, ER, ER, ER, ER, ER,
     ER, ER, ER, ER, ER, ER, To OK, ER, ER, ER, ER, ER, ER, ER, ER, ER]"
| "state_row C1 =
    [ER, ER, ER, ER, ER, ER, ER, ER, ER, ER, ER, ER, ER, ER, ER, ER,
     ER, ER, ER, ER, ER, ER, ER, ER, ER, ER, ER, ER, ER, ER, ER, To C2]"
| "state_row C2 =
    [To C2, To C2, To C2, To C2, To C2, To C2, To C2, To C2, To C2, To C2, To C2, To C2, To C2, To C2, To C2, To C2,
     To C2, To C2, To C2, To C2, To C2, To C2, To C2, To C2, To C2, To C2, To C2, To C2, To C2, To C2, To C2, To C3]"
| "state_row C3 =
    [To C2, To C2, To C2, To C2, To C2, To C2, To C2, To C2, To C2, To C2, Do CE, To C2, To C2, To C2, To C2, To C2,
     To C2, To C2, To C2, To C2, To C2, To C2, To C2, To C2, To C2, To C2, To C2, To C2, To C2, To C2, To C2, To C3]"
| "state_row FX =
    [To OK, To OK, ER, Do A8, ER, Do A7, ER, Do A3, ER, ER, ER, ER, ER, ER, To FR, To FR,
     ER, ER, ER, ER, To E1, ER, ER, ER, ER, ER, ER, ER, ER, To E1, ER, ER]"
| "state_row D1 =
    [ER, ER, ER, ER, ER, ER, ER, ER, ER, To D2, ER, ER, ER, ER, ER, ER,
     ER, ER, ER, ER, ER, ER, ER, ER, ER, ER, ER, ER, ER, ER, ER, ER]"
| "state_row D2 =
    [ER, ER, ER, ER, ER, ER, ER, ER, ER, ER, ER, ER, ER, ER, ER, ER,
     ER, ER, ER, ER, ER, ER, ER, ER, ER, ER, ER, To U1, ER, ER, ER, ER]"

definition state_transition_table :: "states \<Rightarrow> classes \<Rightarrow> entry" where
  "state_transition_table s c = state_row s ! class_ix c"

section \<open>The parser\<close>

datatype modes = MODE_ARRAY | MODE_DONE | MODE_KEY | MODE_OBJECT

record JSON_config =
  cf_depth :: int
  cf_allow_comments :: bool
  cf_handle_floats_manually :: bool

definition JSON_PARSER_STACK_SIZE :: int where "JSON_PARSER_STACK_SIZE = 128"

definition init_JSON_config :: JSON_config where
  "init_JSON_config = \<lparr>cf_depth = JSON_PARSER_STACK_SIZE - 1, cf_allow_comments = False, cf_handle_floats_manually = False\<rparr>"

text \<open>The mode stack is a list with the top first, so \<^verbatim>\<open>top\<close> is its length less one; the parse
  buffer is the string it holds. \<open>ctx\<close> is the callback's state.\<close>

record 'c JSON_parser =
  jp_state :: states
  before_comment_state :: states
  jp_type :: JSON_type
  escaped :: bool
  comment :: bool
  allow_comments :: bool
  handle_floats_manually :: bool
  depth :: int
  modes :: "modes list"
  parse_buffer :: string
  ctx :: 'c

text \<open>The parser and its caller continue, the parser rejects the text, or the program stops in an
  assertion or an exit.\<close>

datatype 'a jresult = Accept 'a | Reject | Stop JsonStop

fun jbind :: "'a jresult \<Rightarrow> ('a \<Rightarrow> 'b jresult) \<Rightarrow> 'b jresult" where
  "jbind (Accept x) f = f x"
| "jbind Reject f = Reject"
| "jbind (Stop e) f = Stop e"

definition jassert :: "bool \<Rightarrow> 'a jresult \<Rightarrow> 'a jresult" where
  "jassert p r = (if p then r else Stop AssertFailed)"

type_synonym 'c callback = "JSON_type \<Rightarrow> JSON_value \<Rightarrow> 'c \<Rightarrow> 'c jresult"

text \<open>With no limit (a negative depth) the stack doubles when it is full; with one, pushing beyond it fails.\<close>

definition push :: "'c JSON_parser \<Rightarrow> modes \<Rightarrow> 'c JSON_parser option" where
  "push jc m = (if depth jc < 0 \<or> int (length (modes jc)) < depth jc then Some (jc\<lparr>modes := m # modes jc\<rparr>) else None)"

definition pop :: "'c JSON_parser \<Rightarrow> modes \<Rightarrow> 'c JSON_parser option" where
  "pop jc m = (case modes jc of [] \<Rightarrow> None | t # ms \<Rightarrow> if t \<noteq> m then None else Some (jc\<lparr>modes := ms\<rparr>))"

definition new_JSON_parser :: "JSON_config \<Rightarrow> 'c \<Rightarrow> 'c JSON_parser" where
  "new_JSON_parser cfg c =
    (let d = (if cf_depth cfg = 0 then 1 else cf_depth cfg) in
     \<lparr>jp_state = GO, before_comment_state = GO, jp_type = JSON_T_NONE, escaped = False, comment = False,
      allow_comments = cf_allow_comments cfg, handle_floats_manually = cf_handle_floats_manually cfg,
      depth = (if 0 < d then d else -1), modes = [MODE_DONE], parse_buffer = [], ctx = c\<rparr>)"

definition parse_buffer_clear :: "'c JSON_parser \<Rightarrow> 'c JSON_parser" where
  "parse_buffer_clear jc = jc\<lparr>parse_buffer := []\<rparr>"

definition parse_buffer_pop_back_char :: "'c JSON_parser \<Rightarrow> 'c JSON_parser jresult" where
  "parse_buffer_pop_back_char jc = jassert (1 \<le> length (parse_buffer jc)) (Accept (jc\<lparr>parse_buffer := butlast (parse_buffer jc)\<rparr>))"

definition parse_buffer_push_back_char :: "'c JSON_parser \<Rightarrow> char \<Rightarrow> 'c JSON_parser" where
  "parse_buffer_push_back_char jc c = jc\<lparr>parse_buffer := parse_buffer jc @ [c]\<rparr>"

definition call :: "'c callback \<Rightarrow> JSON_type \<Rightarrow> JSON_value \<Rightarrow> 'c JSON_parser \<Rightarrow> 'c JSON_parser jresult" where
  "call cb ty v jc = jbind (cb ty v (ctx jc)) (\<lambda>c. Accept (jc\<lparr>ctx := c\<rparr>))"

text \<open>The value passed for the buffered scalar; \<^verbatim>\<open>sscanf("%lld")\<close> is \<open>strtol\<close>, and \<open>scan_float\<close> is
  \<^verbatim>\<open>sscanf("%Lf")\<close>.\<close>

definition buffer_value :: "(string \<Rightarrow> 64 word) \<Rightarrow> 'c JSON_parser \<Rightarrow> JSON_value" where
  "buffer_value scan_float jc = (case jp_type jc of
      JSON_T_FLOAT \<Rightarrow> if handle_floats_manually jc then V_str (parse_buffer jc) else V_float (scan_float (parse_buffer jc))
    | JSON_T_INTEGER \<Rightarrow> V_integer (fst (strtol (parse_buffer jc) 10))
    | JSON_T_STRING \<Rightarrow> V_str (parse_buffer jc)
    | _ \<Rightarrow> V_none)"

definition parse_parse_buffer :: "(string \<Rightarrow> 64 word) \<Rightarrow> 'c callback \<Rightarrow> 'c JSON_parser \<Rightarrow> 'c JSON_parser jresult" where
  "parse_parse_buffer scan_float cb jc =
    jbind (if jp_type jc = JSON_T_NONE then Accept jc
           else jassert (jp_type jc \<in> {JSON_T_NULL, JSON_T_FALSE, JSON_T_TRUE, JSON_T_FLOAT, JSON_T_INTEGER, JSON_T_STRING})
                  (call cb (jp_type jc) (buffer_value scan_float jc) jc))
      (\<lambda>jc1. Accept (parse_buffer_clear jc1))"

definition decode_unicode_char :: bool where "decode_unicode_char = False"

definition lift_mode :: "'c JSON_parser option \<Rightarrow> ('c JSON_parser \<Rightarrow> 'b jresult) \<Rightarrow> 'b jresult" where
  "lift_mode o' f = (case o' of None \<Rightarrow> Reject | Some jc \<Rightarrow> f jc)"

definition set_state :: "JSON_type \<Rightarrow> states \<Rightarrow> 'c JSON_parser \<Rightarrow> 'c JSON_parser" where
  "set_state ty s jc = jc\<lparr>jp_type := ty, jp_state := s\<rparr>"

text \<open>Actions that only start a scalar.\<close>

definition begin_number :: "states \<Rightarrow> 'c JSON_parser \<Rightarrow> 'c JSON_parser jresult" where
  "begin_number s jc = Accept (set_state JSON_T_INTEGER s jc)"

definition begin_float :: "states \<Rightarrow> 'c JSON_parser \<Rightarrow> 'c JSON_parser jresult" where
  "begin_float s jc = jassert (jp_type jc \<noteq> JSON_T_FALSE) (jassert (jp_type jc \<noteq> JSON_T_TRUE)
     (jassert (jp_type jc \<noteq> JSON_T_NULL) (jassert (jp_type jc \<noteq> JSON_T_STRING) (Accept (set_state JSON_T_FLOAT s jc)))))"

definition begin_literal :: "JSON_type \<Rightarrow> states \<Rightarrow> 'c JSON_parser \<Rightarrow> 'c JSON_parser jresult" where
  "begin_literal ty s jc = jassert (jp_type jc = JSON_T_NONE) (Accept (set_state ty s jc))"

definition begin_string :: "'c JSON_parser \<Rightarrow> 'c JSON_parser jresult" where
  "begin_string jc = begin_literal JSON_T_STRING ST (parse_buffer_clear jc)"

text \<open>The opening and the closing of a comment.\<close>

definition open_comment :: "(string \<Rightarrow> 64 word) \<Rightarrow> 'c callback \<Rightarrow> 'c JSON_parser \<Rightarrow> 'c JSON_parser jresult" where
  "open_comment sf cb jc =
    (if \<not> allow_comments jc then Reject
     else jbind (parse_buffer_pop_back_char jc) (\<lambda>jc. jbind (parse_parse_buffer sf cb jc) (\<lambda>jc.
       jassert (parse_buffer jc = []) (jassert (jp_type jc \<noteq> JSON_T_STRING)
       (let b = (if hd (modes jc) = MODE_ARRAY \<or> hd (modes jc) = MODE_OBJECT
                 then (if jp_state jc = VA \<or> jp_state jc = AR then jp_state jc else OK)
                 else jp_state jc)
        in Accept (jc\<lparr>before_comment_state := b, jp_type := JSON_T_NONE, jp_state := C1, comment := True\<rparr>))))))"

definition close_comment :: "'c JSON_parser \<Rightarrow> 'c JSON_parser jresult" where
  "close_comment jc = jassert (parse_buffer jc = []) (jassert (jp_type jc = JSON_T_NONE)
     (Accept (jc\<lparr>comment := False, jp_state := before_comment_state jc\<rparr>)))"

text \<open>Braces and brackets: \<open>A9\<close>, then \<open>A8\<close> and \<open>A7\<close>, then \<open>A6\<close> and \<open>A5\<close>.\<close>

definition end_empty_object :: "'c callback \<Rightarrow> 'c JSON_parser \<Rightarrow> 'c JSON_parser jresult" where
  "end_empty_object cb jc = jbind (call cb JSON_T_OBJECT_END V_none (parse_buffer_clear jc)) (\<lambda>jc.
     lift_mode (pop jc MODE_KEY) (\<lambda>jc. Accept (jc\<lparr>jp_state := OK\<rparr>)))"

definition end_nonempty :: "(string \<Rightarrow> 64 word) \<Rightarrow> 'c callback \<Rightarrow> JSON_type \<Rightarrow> modes \<Rightarrow> 'c JSON_parser \<Rightarrow> 'c JSON_parser jresult" where
  "end_nonempty sf cb ty m jc = jbind (parse_buffer_pop_back_char jc) (\<lambda>jc. jbind (parse_parse_buffer sf cb jc) (\<lambda>jc.
     jbind (call cb ty V_none jc) (\<lambda>jc. lift_mode (pop jc m) (\<lambda>jc. Accept (set_state JSON_T_NONE OK jc)))))"

definition begin_nested :: "'c callback \<Rightarrow> JSON_type \<Rightarrow> modes \<Rightarrow> states \<Rightarrow> 'c JSON_parser \<Rightarrow> 'c JSON_parser jresult" where
  "begin_nested cb ty m s jc = jbind (parse_buffer_pop_back_char jc) (\<lambda>jc. jbind (call cb ty V_none jc) (\<lambda>jc.
     lift_mode (push jc m) (\<lambda>jc. jassert (jp_type jc = JSON_T_NONE) (Accept (jc\<lparr>jp_state := s\<rparr>)))))"

definition end_string :: "(string \<Rightarrow> 64 word) \<Rightarrow> 'c callback \<Rightarrow> 'c JSON_parser \<Rightarrow> 'c JSON_parser jresult" where
  "end_string sf cb jc = jbind (parse_buffer_pop_back_char jc) (\<lambda>jc.
     case hd (modes jc) of
       MODE_KEY \<Rightarrow> jassert (jp_type jc = JSON_T_STRING)
         (jbind (call cb JSON_T_KEY (V_str (parse_buffer jc)) (set_state JSON_T_NONE CO jc)) (\<lambda>jc. Accept (parse_buffer_clear jc)))
     | MODE_DONE \<Rightarrow> Reject
     | _ \<Rightarrow> jassert (jp_type jc = JSON_T_STRING)
         (jbind (parse_parse_buffer sf cb jc) (\<lambda>jc. Accept (set_state JSON_T_NONE OK jc))))"

definition do_comma :: "(string \<Rightarrow> 64 word) \<Rightarrow> 'c callback \<Rightarrow> 'c JSON_parser \<Rightarrow> 'c JSON_parser jresult" where
  "do_comma sf cb jc = jbind (parse_buffer_pop_back_char jc) (\<lambda>jc. jbind (parse_parse_buffer sf cb jc) (\<lambda>jc.
     case hd (modes jc) of
       MODE_OBJECT \<Rightarrow> lift_mode (pop jc MODE_OBJECT) (\<lambda>jc. lift_mode (push jc MODE_KEY) (\<lambda>jc.
         jassert (jp_type jc \<noteq> JSON_T_STRING) (Accept (set_state JSON_T_NONE KE jc))))
     | MODE_ARRAY \<Rightarrow> jassert (jp_type jc \<noteq> JSON_T_STRING) (Accept (set_state JSON_T_NONE VA jc))
     | _ \<Rightarrow> Reject))"

definition do_colon :: "'c JSON_parser \<Rightarrow> 'c JSON_parser jresult" where
  "do_colon jc = jbind (parse_buffer_pop_back_char jc) (\<lambda>jc.
     lift_mode (pop jc MODE_KEY) (\<lambda>jc. lift_mode (push jc MODE_OBJECT) (\<lambda>jc.
       jassert (jp_type jc = JSON_T_NONE) (Accept (jc\<lparr>jp_state := VA\<rparr>)))))"

definition do_action :: "(string \<Rightarrow> 64 word) \<Rightarrow> 'c callback \<Rightarrow> actions \<Rightarrow> 'c JSON_parser \<Rightarrow> 'c JSON_parser jresult" where
  "do_action sf cb a jc = (case a of
      UC \<Rightarrow> if decode_unicode_char then Accept jc else Reject
    | EXC \<Rightarrow> Accept (jc\<lparr>escaped := True, jp_state := ES\<rparr>)
    | MX \<Rightarrow> begin_number MI jc
    | ZX \<Rightarrow> begin_number ZE jc
    | IX \<Rightarrow> begin_number IT jc
    | DE \<Rightarrow> begin_float E1 jc
    | DF \<Rightarrow> begin_float FX jc
    | SB \<Rightarrow> begin_string jc
    | NU \<Rightarrow> begin_literal JSON_T_NULL N1 jc
    | FA \<Rightarrow> begin_literal JSON_T_FALSE F1 jc
    | TR \<Rightarrow> begin_literal JSON_T_TRUE T1 jc
    | CE \<Rightarrow> close_comment jc
    | CB \<Rightarrow> open_comment sf cb jc
    | A9 \<Rightarrow> end_empty_object cb jc
    | A8 \<Rightarrow> end_nonempty sf cb JSON_T_OBJECT_END MODE_OBJECT jc
    | A7 \<Rightarrow> end_nonempty sf cb JSON_T_ARRAY_END MODE_ARRAY jc
    | A6 \<Rightarrow> begin_nested cb JSON_T_OBJECT_BEGIN MODE_KEY OB jc
    | A5 \<Rightarrow> begin_nested cb JSON_T_ARRAY_BEGIN MODE_ARRAY AR jc
    | A4 \<Rightarrow> end_string sf cb jc
    | A3 \<Rightarrow> do_comma sf cb jc
    | A2 \<Rightarrow> do_colon jc)"

text \<open>The character an escape stands for; \<^verbatim>\<open>\u\<close> keeps the backslash.\<close>

definition unescape :: "nat \<Rightarrow> string option" where
  "unescape n =
    (if n = 98 then Some [CHR 0x08] else if n = 102 then Some [CHR 0x0C] else if n = 110 then Some [CHR 0x0A]
     else if n = 114 then Some [CHR 0x0D] else if n = 116 then Some [CHR 0x09] else if n = 34 then Some [CHR 0x22]
     else if n = 92 then Some [CHR 0x5C] else if n = 47 then Some [CHR 0x2F] else if n = 117 then Some [CHR 0x5C, CHR 0x75]
     else None)"

definition char_class :: "int \<Rightarrow> classes option" where
  "char_class c = (if c < 0 then None else if 128 \<le> c then Some C_ETC else ascii_class ! nat c)"

text \<open>What a character does to the buffer before the transition.\<close>

definition buffer_char :: "int \<Rightarrow> classes \<Rightarrow> 'c JSON_parser \<Rightarrow> 'c JSON_parser jresult" where
  "buffer_char ch cl jc =
    (if escaped jc then
       jbind (parse_buffer_pop_back_char (jc\<lparr>escaped := False\<rparr>)) (\<lambda>jc.
         case unescape (nat ch) of
           None \<Rightarrow> Reject
         | Some s \<Rightarrow> Accept (foldl parse_buffer_push_back_char jc s))
     else if \<not> comment jc \<and> (jp_type jc \<noteq> JSON_T_NONE \<or> \<not> (cl = C_SPACE \<or> cl = C_WHITE))
     then Accept (parse_buffer_push_back_char jc (char_of (nat ch)))
     else Accept jc)"

definition JSON_parser_char :: "(string \<Rightarrow> 64 word) \<Rightarrow> 'c callback \<Rightarrow> 'c JSON_parser \<Rightarrow> int \<Rightarrow> 'c JSON_parser jresult" where
  "JSON_parser_char sf cb jc next_char =
    (case char_class next_char of
       None \<Rightarrow> Reject
     | Some cl \<Rightarrow> jbind (buffer_char next_char cl jc) (\<lambda>jc.
         case state_transition_table (jp_state jc) cl of
           To s \<Rightarrow> Accept (jc\<lparr>jp_state := s\<rparr>)
         | Do a \<Rightarrow> do_action sf cb a jc
         | ER \<Rightarrow> Reject))"

definition JSON_parser_done :: "'c JSON_parser \<Rightarrow> bool" where
  "JSON_parser_done jc \<longleftrightarrow> jp_state jc = OK \<and> pop jc MODE_DONE \<noteq> None"

definition JSON_parser_is_legal_white_space_string :: "string option \<Rightarrow> bool" where
  "JSON_parser_is_legal_white_space_string s = (case s of
      None \<Rightarrow> False
    | Some cs \<Rightarrow> list_all (\<lambda>c. (of_char c :: int) < 128 \<and> (char_class (of_char c) = Some C_SPACE \<or> char_class (of_char c) = Some C_WHITE)) (cstr cs))"

section \<open>Parsing a file\<close>

text \<open>\<open>JSON_ParseFile\<close>: the messages before \<^verbatim>\<open>exit(1)\<close>, or the value.\<close>

datatype ParseOutcome = Parsed JSON_Value_t nat | SyntaxError nat int | SyntaxErrorAtEOF | ParseStop JsonStop

definition file_config :: JSON_config where
  "file_config = init_JSON_config\<lparr>cf_depth := 20, cf_allow_comments := True, cf_handle_floats_manually := True\<rparr>"

definition token_callback :: "(string \<Rightarrow> 64 word) \<Rightarrow> ParserInfo_t callback" where
  "token_callback pun ty v info = (case DoToken pun ty v info of Inl e \<Rightarrow> Stop e | Inr info' \<Rightarrow> Accept info')"

text \<open>The loop over the characters, to the end of the file or a NUL; \<open>Inr\<close> is the offset of a syntax error.\<close>

fun feed_chars :: "(string \<Rightarrow> 64 word) \<Rightarrow> 'c callback \<Rightarrow> nat \<Rightarrow> string \<Rightarrow> 'c JSON_parser \<Rightarrow> ('c JSON_parser jresult) \<times> nat \<times> int" where
  "feed_chars sf cb count [] jc = (Accept jc, count, -1)"
| "feed_chars sf cb count (c # cs) jc =
    (if c = CHR 0x00 then (Accept jc, count, 0)
     else case JSON_parser_char sf cb jc (of_char c) of
       Accept jc' \<Rightarrow> feed_chars sf cb (count + 1) cs jc'
     | r \<Rightarrow> (r, count, of_char c))"

definition JSON_ParseFile :: "(string \<Rightarrow> 64 word) \<Rightarrow> (string \<Rightarrow> 64 word) \<Rightarrow> string option \<Rightarrow> ParseOutcome" where
  "JSON_ParseFile sf pun file =
    (let info = \<lparr>st = START, stack = [], mallocs = 0\<rparr>;
         r = feed_chars sf (token_callback pun) 0 (case file of None \<Rightarrow> [] | Some s \<Rightarrow> s) (new_JSON_parser file_config info)
     in case fst r of
          Stop e \<Rightarrow> ParseStop e
        | Reject \<Rightarrow> SyntaxError (fst (snd r)) (snd (snd r))
        | Accept jc \<Rightarrow>
            if \<not> JSON_parser_done jc then SyntaxErrorAtEOF
            else if \<not> (length (stack (ctx jc)) = 1 \<and> st (ctx jc) = START) then ParseStop AssertFailed
            else (case PopValue (ctx jc) of None \<Rightarrow> ParseStop AssertFailed | Some (v, info') \<Rightarrow> Parsed v (mallocs info')))"

end
