(* ===== verification/Json_Safe.thy ===== *)
theory Json_Safe
  imports Json_Parser
begin

text \<open>
  The JSON parser keeps its own assertions. \<open>jp_inv\<close> ties the state of the automaton to the type of the scalar
  being read, the mode on top of the stack, the escape and comment flags and the parse buffer; it holds
  of a new parser, every action of the table keeps it, and under it no assertion of
  \<^verbatim>\<open>src/tools/log-common/JSON_parser.c\<close> fails.
\<close>

section \<open>The parser's own assertions\<close>

text \<open>The type of the scalar being read in a state.\<close>

fun scalar_type :: "states \<Rightarrow> JSON_type" where
  "scalar_type s =
    (if s \<in> {ST, ES, U1, U2, U3, U4} then JSON_T_STRING
     else if s \<in> {MI, ZE, IT} then JSON_T_INTEGER
     else if s \<in> {FR, E1, E2, E3, FX} then JSON_T_FLOAT
     else if s \<in> {T1, T2, T3} then JSON_T_TRUE
     else if s \<in> {F1, F2, F3, F4} then JSON_T_FALSE
     else if s \<in> {N1, N2, N3} then JSON_T_NULL
     else JSON_T_NONE)"

definition comment_states :: "states set" where "comment_states = {C1, C2, C3}"

definition value_modes :: "modes set" where "value_modes = {MODE_ARRAY, MODE_OBJECT}"

text \<open>The states a comment can return to, by mode.\<close>

definition gap_for :: "modes \<Rightarrow> states \<Rightarrow> bool" where
  "gap_for m s \<longleftrightarrow> (case m of MODE_DONE \<Rightarrow> s \<in> {GO, OK} | MODE_KEY \<Rightarrow> s \<in> {OB, KE, CO} | MODE_ARRAY \<Rightarrow> s \<in> {VA, AR, OK} | MODE_OBJECT \<Rightarrow> s \<in> {VA, OK})"

definition modes_ok :: "modes list \<Rightarrow> bool" where
  "modes_ok ms \<longleftrightarrow> ms \<noteq> [] \<and> last ms = MODE_DONE \<and> MODE_KEY \<notin> set (tl ms)"

definition jp_inv :: "'c JSON_parser \<Rightarrow> bool" where
  "jp_inv jc \<longleftrightarrow> modes_ok (modes jc) \<and> jp_state jc \<notin> {D1, D2} \<and>
    (if jp_state jc \<in> comment_states then
       comment jc \<and> \<not> escaped jc \<and> jp_type jc = JSON_T_NONE \<and> parse_buffer jc = [] \<and> gap_for (hd (modes jc)) (before_comment_state jc)
     else \<not> comment jc \<and>
       (escaped jc \<longleftrightarrow> jp_state jc = ES) \<and> (escaped jc \<longrightarrow> parse_buffer jc \<noteq> []) \<and>
       (if jp_state jc = OK then
          jp_type jc = JSON_T_NONE \<and> parse_buffer jc = [] \<and> gap_for (hd (modes jc)) OK
          \<or> jp_type jc \<in> {JSON_T_INTEGER, JSON_T_FLOAT, JSON_T_NULL, JSON_T_TRUE, JSON_T_FALSE} \<and> hd (modes jc) \<in> value_modes
        else jp_type jc = scalar_type (jp_state jc) \<and>
          (if jp_type jc = JSON_T_NONE then parse_buffer jc = [] \<and> gap_for (hd (modes jc)) (jp_state jc)
           else if jp_type jc = JSON_T_STRING then hd (modes jc) \<noteq> MODE_DONE
           else hd (modes jc) \<in> value_modes)))"

text \<open>Which transitions and actions the table has.\<close>

definition white_class :: "classes \<Rightarrow> bool" where "white_class c \<longleftrightarrow> c = C_SPACE \<or> c = C_WHITE"

definition legal_to :: "states \<Rightarrow> classes \<Rightarrow> states \<Rightarrow> bool" where
  "legal_to s c s' \<longleftrightarrow>
    (if s \<in> {GO, OK, OB, KE, CO, VA, AR} then s' = s \<and> white_class c
     else if s \<in> {C1, C2, C3} then s' \<in> {C2, C3}
     else s' \<notin> {ES, D1, D2, GO, OB, KE, CO, VA, AR, C1, C2, C3} \<and>
       (if s' = OK then scalar_type s \<noteq> JSON_T_STRING else scalar_type s' = scalar_type s))"

definition legal_do :: "states \<Rightarrow> classes \<Rightarrow> actions \<Rightarrow> bool" where
  "legal_do s c a \<longleftrightarrow> \<not> white_class c \<and>
    (case a of UC \<Rightarrow> s = U4 | EXC \<Rightarrow> s = ST | A4 \<Rightarrow> s = ST | A2 \<Rightarrow> s = CO | A9 \<Rightarrow> s = OB | CE \<Rightarrow> s = C3
      | MX \<Rightarrow> s \<in> {VA, AR} | ZX \<Rightarrow> s \<in> {VA, AR} | IX \<Rightarrow> s \<in> {VA, AR} | NU \<Rightarrow> s \<in> {VA, AR} | FA \<Rightarrow> s \<in> {VA, AR} | TR \<Rightarrow> s \<in> {VA, AR}
      | SB \<Rightarrow> s \<in> {OB, KE, VA, AR} | DE \<Rightarrow> s = IT | DF \<Rightarrow> s \<in> {ZE, IT}
      | CB \<Rightarrow> s \<in> {GO, OK, OB, KE, CO, VA, AR, ZE, IT, FR, T3, F4, N3}
      | A6 \<Rightarrow> s \<in> {GO, VA, AR} | A5 \<Rightarrow> s \<in> {GO, VA, AR}
      | A7 \<Rightarrow> s \<in> {AR, OK, ZE, IT, FR, E3, FX} | A8 \<Rightarrow> s \<in> {OK, ZE, IT, FR, E3, FX} | A3 \<Rightarrow> s \<in> {OK, ZE, IT, FR, E3, FX})"

definition all_states :: "states list" where
  "all_states = [GO, OK, OB, KE, CO, VA, AR, ST, ES, U1, U2, U3, U4, MI, ZE, IT, FR, E1, E2, E3, T1, T2, T3, F1, F2, F3, F4, N1, N2, N3, C1, C2, C3, FX]"

definition all_classes :: "classes list" where
  "all_classes = [C_SPACE, C_WHITE, C_LCURB, C_RCURB, C_LSQRB, C_RSQRB, C_COLON, C_COMMA, C_QUOTE, C_BACKS, C_SLASH, C_PLUS, C_MINUS,
     C_POINT, C_ZERO, C_DIGIT, C_LOW_A, C_LOW_B, C_LOW_C, C_LOW_D, C_LOW_E, C_LOW_F, C_LOW_L, C_LOW_N, C_LOW_R, C_LOW_S, C_LOW_T, C_LOW_U,
     C_ABCDF, C_E, C_ETC, C_STAR]"

definition table_legal :: bool where
  "table_legal \<longleftrightarrow> list_all (\<lambda>s. list_all (\<lambda>c. case state_transition_table s c of
     To s' \<Rightarrow> legal_to s c s' | Do a \<Rightarrow> legal_do s c a | ER \<Rightarrow> True) all_classes) all_states"

lemma table_legal: table_legal
  by code_simp

text \<open>\<open>wp r P\<close>: the program does not stop, and what it continues with satisfies \<open>P\<close>.\<close>

definition wp :: "'a jresult \<Rightarrow> ('a \<Rightarrow> bool) \<Rightarrow> bool" where
  "wp r P = (case r of Accept x \<Rightarrow> P x | Reject \<Rightarrow> True | Stop _ \<Rightarrow> False)"

lemma wp_simps [simp]: "wp (Accept x) P = P x" "wp Reject P" "\<not> wp (Stop e) P"
  by (simp_all add: wp_def)

lemma wp_bind [simp]: "wp (jbind r f) P = wp r (\<lambda>x. wp (f x) P)"
  by (cases r) (simp_all add: wp_def)

lemma wp_assert [simp]: "wp (jassert p r) P = (p \<and> wp r P)"
  by (simp add: jassert_def)

lemma wp_lift_mode [simp]: "wp (lift_mode o' f) P = (case o' of None \<Rightarrow> True | Some jc \<Rightarrow> wp (f jc) P)"
  by (simp add: lift_mode_def split: option.splits)

definition never_stops :: "'c callback \<Rightarrow> bool" where
  "never_stops cb \<longleftrightarrow> (\<forall>ty v c e. cb ty v c \<noteq> Stop e)"

lemma wp_call: "\<lbrakk>never_stops cb; \<And>c'. P (jc\<lparr>ctx := c'\<rparr>)\<rbrakk> \<Longrightarrow> wp (call cb ty v jc) P"
  by (cases "cb ty v (ctx jc)") (auto simp: call_def never_stops_def)

lemma wp_pop_back [simp]:
  "wp (parse_buffer_pop_back_char jc) P = (parse_buffer jc \<noteq> [] \<and> P (jc\<lparr>parse_buffer := butlast (parse_buffer jc)\<rparr>))"
  by (cases "parse_buffer jc") (auto simp: parse_buffer_pop_back_char_def)

definition scalar_types :: "JSON_type set" where
  "scalar_types = {JSON_T_NONE, JSON_T_NULL, JSON_T_FALSE, JSON_T_TRUE, JSON_T_FLOAT, JSON_T_INTEGER, JSON_T_STRING}"

lemma wp_parse_parse_buffer:
  assumes "never_stops cb" "jp_type jc \<in> scalar_types"
    "\<And>c'. P (jc\<lparr>ctx := c', parse_buffer := []\<rparr>)"
  shows "wp (parse_parse_buffer sf cb jc) P"
proof (cases "jp_type jc = JSON_T_NONE")
  case True
  moreover have "P (jc\<lparr>parse_buffer := []\<rparr>)" using assms(3) [of "ctx jc"] by simp
  ultimately show ?thesis by (simp add: parse_parse_buffer_def parse_buffer_clear_def)
next
  case False
  then show ?thesis using assms by (auto simp: parse_parse_buffer_def parse_buffer_clear_def scalar_types_def intro!: wp_call)
qed

text \<open>The parser when the transition is taken: the character is in the buffer unless it is blank or in a comment.\<close>

definition jp_mid :: "classes \<Rightarrow> 'c JSON_parser \<Rightarrow> bool" where
  "jp_mid cl jc \<longleftrightarrow> modes_ok (modes jc) \<and> jp_state jc \<notin> {D1, D2} \<and> \<not> escaped jc \<and>
    (if jp_state jc \<in> comment_states then
       comment jc \<and> jp_type jc = JSON_T_NONE \<and> parse_buffer jc = [] \<and> gap_for (hd (modes jc)) (before_comment_state jc)
     else \<not> comment jc \<and> (\<not> white_class cl \<longrightarrow> parse_buffer jc \<noteq> []) \<and>
       (if jp_state jc = OK then
          jp_type jc = JSON_T_NONE \<and> (white_class cl \<longrightarrow> parse_buffer jc = []) \<and> butlast (parse_buffer jc) = [] \<and> gap_for (hd (modes jc)) OK
          \<or> jp_type jc \<in> {JSON_T_INTEGER, JSON_T_FLOAT, JSON_T_NULL, JSON_T_TRUE, JSON_T_FALSE} \<and> hd (modes jc) \<in> value_modes
        else jp_type jc = scalar_type (jp_state jc) \<and>
          (if jp_type jc = JSON_T_NONE then (white_class cl \<longrightarrow> parse_buffer jc = []) \<and> butlast (parse_buffer jc) = [] \<and> gap_for (hd (modes jc)) (jp_state jc)
           else if jp_type jc = JSON_T_STRING then hd (modes jc) \<noteq> MODE_DONE
           else hd (modes jc) \<in> value_modes)))"

lemma wp_mono: "\<lbrakk>wp r P; \<And>x. P x \<Longrightarrow> Q x\<rbrakk> \<Longrightarrow> wp r Q"
  by (cases r) auto

lemma escape_states: "escaped jc \<Longrightarrow> jp_inv jc \<Longrightarrow> jp_state jc = ES \<and> \<not> comment jc \<and> parse_buffer jc \<noteq> []"
  by (auto simp: jp_inv_def comment_states_def split: if_splits)

lemma push_back_list: "foldl parse_buffer_push_back_char jc s = jc\<lparr>parse_buffer := parse_buffer jc @ s\<rparr>"
  by (induction s arbitrary: jc) (simp_all add: parse_buffer_push_back_char_def)

lemma unescape_nonempty: "unescape n = Some s \<Longrightarrow> s \<noteq> []"
  by (auto simp: unescape_def split: if_splits)

lemma buffer_char_mid:
  assumes inv: "jp_inv jc"
  shows "wp (buffer_char ch cl jc) (\<lambda>jc1. jp_mid cl jc1 \<and> jp_state jc1 = jp_state jc)"
proof (cases "escaped jc")
  case True
  note st = escape_states [OF True inv]
  have "jp_type jc = JSON_T_STRING" "hd (modes jc) \<noteq> MODE_DONE" "modes_ok (modes jc)"
    using inv st by (auto simp: jp_inv_def comment_states_def)
  then show ?thesis using True st
    by (auto simp: buffer_char_def push_back_list jp_mid_def comment_states_def unescape_nonempty split: option.splits)
next
  case False
  show ?thesis
  proof (cases "comment jc")
    case True
    then have "jp_state jc \<in> comment_states" using inv by (auto simp: jp_inv_def split: if_splits)
    then show ?thesis using True False inv by (auto simp: buffer_char_def jp_mid_def jp_inv_def)
  next
    case nc: False
    then have n: "jp_state jc \<notin> comment_states" using inv by (auto simp: jp_inv_def split: if_splits)
    show ?thesis
    proof (cases "jp_type jc = JSON_T_NONE \<and> white_class cl")
      case True
      have "modes_ok (modes jc)" "jp_state jc \<notin> {D1, D2}" using inv by (auto simp: jp_inv_def)
      moreover have "parse_buffer jc = []" using inv n True by (auto simp: jp_inv_def split: if_splits)
      moreover have "gap_for (hd (modes jc)) (jp_state jc)" using inv n True by (auto simp: jp_inv_def split: if_splits)
      moreover have "jp_state jc \<noteq> OK \<longrightarrow> jp_type jc = scalar_type (jp_state jc)" using inv n by (simp add: jp_inv_def)
      ultimately show ?thesis using True False nc n
        by (auto simp: buffer_char_def white_class_def jp_mid_def simp del: scalar_type.simps)
    next
      case False2: False
      let ?j = "parse_buffer_push_back_char jc (char_of (nat ch))"
      have b: "buffer_char ch cl jc = Accept ?j"
        using False nc False2 by (auto simp: buffer_char_def white_class_def)
      have "jp_mid cl ?j"
        using inv n nc False False2 unfolding jp_inv_def jp_mid_def
        by (simp add: parse_buffer_push_back_char_def del: scalar_type.simps split: if_splits) blast?
      then show ?thesis by (simp add: b parse_buffer_push_back_char_def)
    qed
  qed
qed

lemma transition_legal:
  assumes "s \<notin> {D1, D2}"
  shows "case state_transition_table s c of To s' \<Rightarrow> legal_to s c s' | Do a \<Rightarrow> legal_do s c a | ER \<Rightarrow> True"
proof -
  have "s \<in> set all_states" using assms by (cases s) (simp_all add: all_states_def)
  moreover have "c \<in> set all_classes" by (cases c) (simp_all add: all_classes_def)
  ultimately show ?thesis using table_legal by (simp add: table_legal_def list_all_iff)
qed

lemma legal_to_D1: "legal_to s c s' \<Longrightarrow> s \<notin> {D1, D2} \<Longrightarrow> s' \<notin> {D1, D2}"
  by (auto simp: legal_to_def split: if_splits)

lemma to_inv:
  assumes mid: "jp_mid cl jc" and leg: "legal_to (jp_state jc) cl s'"
  shows "jp_inv (jc\<lparr>jp_state := s'\<rparr>)"
proof (cases "jp_state jc \<in> comment_states")
  case True
  then show ?thesis using mid leg by (auto simp: jp_mid_def jp_inv_def legal_to_def comment_states_def)
next
  case nc: False
  show ?thesis
  proof (cases "jp_state jc \<in> {GO, OK, OB, KE, CO, VA, AR}")
    case True
    then have s: "s' = jp_state jc" and w: "white_class cl" using leg by (auto simp: legal_to_def)
    have j: "jc\<lparr>jp_state := s'\<rparr> = jc" using s by simp
    show ?thesis unfolding j using True nc w mid by (auto simp: jp_mid_def jp_inv_def)
  next
    case False
    have e: "jp_type jc = scalar_type (jp_state jc)" using mid nc False by (auto simp: jp_mid_def)
    have ty: "jp_type jc \<noteq> JSON_T_NONE" unfolding e using mid nc False by (cases "jp_state jc") (auto simp: jp_mid_def comment_states_def)
    have m: "if jp_type jc = JSON_T_STRING then hd (modes jc) \<noteq> MODE_DONE else hd (modes jc) \<in> value_modes"
      using mid nc False ty by (auto simp: jp_mid_def simp del: scalar_type.simps)
    have leg': "s' \<notin> {ES, D1, D2, GO, OB, KE, CO, VA, AR, C1, C2, C3}"
      "if s' = OK then jp_type jc \<noteq> JSON_T_STRING else scalar_type s' = jp_type jc"
      using leg nc False by (auto simp: legal_to_def comment_states_def e simp del: scalar_type.simps)
    have ty2: "jp_type jc \<in> {JSON_T_STRING, JSON_T_INTEGER, JSON_T_FLOAT, JSON_T_NULL, JSON_T_TRUE, JSON_T_FALSE}"
      using ty unfolding e by (auto split: if_splits)
    have base: "modes_ok (modes jc)" "\<not> escaped jc" "\<not> comment jc" using mid nc by (auto simp: jp_mid_def)
    show ?thesis using base leg' m ty2
      by (auto simp: jp_inv_def comment_states_def simp del: scalar_type.simps)
  qed
qed

text \<open>The facts every action needs of the parser it is taken in.\<close>

lemma mid_ok_type: "jp_mid cl jc \<Longrightarrow>jp_type jc \<in> scalar_types"
  by (auto simp: jp_mid_def scalar_types_def split: if_splits)

lemma mid_buffer: "\<lbrakk>jp_mid cl jc; jp_state jc \<notin> comment_states; \<not> white_class cl\<rbrakk> \<Longrightarrow> parse_buffer jc \<noteq> []"
  by (auto simp: jp_mid_def)

lemma mid_base: "jp_mid cl jc \<Longrightarrow> modes_ok (modes jc) \<and> \<not> escaped jc \<and> (comment jc \<longleftrightarrow> jp_state jc \<in> comment_states)"
  by (auto simp: jp_mid_def split: if_splits)

lemma mid_gap:
  assumes "jp_mid cl jc" "jp_state jc \<in> {GO, OB, KE, CO, VA, AR}"
  shows "jp_type jc = JSON_T_NONE \<and> butlast (parse_buffer jc) = [] \<and> gap_for (hd (modes jc)) (jp_state jc)"
  using assms by (auto simp: jp_mid_def comment_states_def)

lemma mid_scalar:
  assumes "jp_mid cl jc" "jp_state jc \<in> {OK, ZE, IT, FR, E3, FX, T3, F4, N3}"
  shows "jp_type jc \<noteq> JSON_T_STRING \<and> (hd (modes jc) \<in> value_modes \<or> hd (modes jc) = MODE_DONE \<and> jp_state jc = OK \<and> jp_type jc = JSON_T_NONE)"
  using assms by (auto simp: jp_mid_def comment_states_def gap_for_def value_modes_def split: modes.splits)

lemma modes_ok_cons: "modes_ok ms \<Longrightarrow> hd ms \<noteq> MODE_KEY \<Longrightarrow> modes_ok (m # ms)"
  by (cases ms) (auto simp: modes_ok_def)

lemma modes_ok_pop: "modes_ok (m # ms) \<Longrightarrow> m \<noteq> MODE_DONE \<Longrightarrow> modes_ok ms \<and> hd ms \<noteq> MODE_KEY"
  by (cases ms) (auto simp: modes_ok_def)

lemma pop_SomeD: "pop jc m = Some jc' \<Longrightarrow> \<exists>ms. modes jc = m # ms \<and> jc' = jc\<lparr>modes := ms\<rparr>"
  by (auto simp: pop_def split: list.splits if_splits)

lemma push_SomeD: "push jc m = Some jc' \<Longrightarrow> jc' = jc\<lparr>modes := m # modes jc\<rparr>"
  by (auto simp: push_def split: if_splits)

lemma gap_OK: "gap_for m OK \<longleftrightarrow> m \<noteq> MODE_KEY"
  by (cases m) (auto simp: gap_for_def)

section \<open>Actions\<close>

lemma number_inv:
  assumes "jp_mid cl jc" "jp_state jc \<in> {VA, AR}" "s \<in> {MI, ZE, IT}"
  shows "wp (begin_number s jc) jp_inv"
  using mid_gap [OF assms(1)] mid_base [OF assms(1)] assms(2,3)
  by (auto simp: begin_number_def set_state_def jp_inv_def comment_states_def gap_for_def value_modes_def split: modes.splits)

lemma literal_inv:
  assumes "jp_mid cl jc" "jp_state jc \<in> {VA, AR}" "(ty, s) \<in> {(JSON_T_NULL, N1), (JSON_T_FALSE, F1), (JSON_T_TRUE, T1)}"
  shows "wp (begin_literal ty s jc) jp_inv"
  using mid_gap [OF assms(1)] mid_base [OF assms(1)] assms(2,3)
  by (auto simp: begin_literal_def set_state_def jp_inv_def comment_states_def gap_for_def value_modes_def split: modes.splits)

lemma string_inv:
  assumes "jp_mid cl jc" "jp_state jc \<in> {OB, KE, VA, AR}"
  shows "wp (begin_string jc) jp_inv"
  using mid_gap [OF assms(1)] mid_base [OF assms(1)] assms(2)
  by (auto simp: begin_string_def begin_literal_def parse_buffer_clear_def set_state_def jp_inv_def comment_states_def gap_for_def value_modes_def split: modes.splits)

lemma float_inv:
  assumes "jp_mid cl jc" "jp_state jc \<in> {ZE, IT}" "s \<in> {E1, FX}"
  shows "wp (begin_float s jc) jp_inv"
proof -
  have "jp_type jc = JSON_T_INTEGER" "hd (modes jc) \<in> value_modes" using assms(1,2) by (auto simp: jp_mid_def comment_states_def)
  then show ?thesis using mid_base [OF assms(1)] assms(2,3)
    by (auto simp: begin_float_def set_state_def jp_inv_def comment_states_def)
qed

lemma escape_inv:
  assumes "jp_mid cl jc" "jp_state jc = ST" "\<not> white_class cl"
  shows "jp_inv (jc\<lparr>escaped := True, jp_state := ES\<rparr>)"
  using mid_base [OF assms(1)] mid_buffer [OF assms(1)] assms by (auto simp: jp_inv_def jp_mid_def comment_states_def)

lemma close_comment_inv:
  assumes "jp_mid cl jc" "jp_state jc = C3"
  shows "wp (close_comment jc) jp_inv"
proof -
  have g: "comment jc" "jp_type jc = JSON_T_NONE" "parse_buffer jc = []" "gap_for (hd (modes jc)) (before_comment_state jc)"
    "modes_ok (modes jc)" "\<not> escaped jc"
    using assms by (auto simp: jp_mid_def comment_states_def)
  have "before_comment_state jc \<in> {GO, OK, OB, KE, CO, VA, AR}" using g(4) by (auto simp: gap_for_def split: modes.splits)
  then show ?thesis using g by (auto simp: close_comment_def jp_inv_def comment_states_def)
qed

text \<open>Between two tokens: the parser a closing bracket, a comma or a colon leaves.\<close>

lemma gap_inv:
  assumes "modes_ok (modes jc)" "gap_for (hd (modes jc)) (jp_state jc)"
    "jp_type jc = JSON_T_NONE" "\<not> escaped jc" "\<not> comment jc" "parse_buffer jc = []"
  shows "jp_inv jc"
proof -
  have "jp_state jc \<in> {GO, OK, OB, KE, CO, VA, AR}" using assms(2) by (auto simp: gap_for_def split: modes.splits)
  then show ?thesis using assms by (auto simp: jp_inv_def comment_states_def)
qed

lemma open_comment_inv:
  assumes cb: "never_stops cb" and mid: "jp_mid cl jc" and w: "\<not> white_class cl"
    and s: "jp_state jc \<in> {GO, OK, OB, KE, CO, VA, AR, ZE, IT, FR, T3, F4, N3}"
  shows "wp (open_comment sf cb jc) jp_inv"
proof -
  have n: "jp_state jc \<notin> comment_states" using s by (auto simp: comment_states_def)
  have t: "jp_type jc \<noteq> JSON_T_STRING" using mid_gap [OF mid] mid_scalar [OF mid] s by auto
  let ?b = "if hd (modes jc) = MODE_ARRAY \<or> hd (modes jc) = MODE_OBJECT
            then (if jp_state jc = VA \<or> jp_state jc = AR then jp_state jc else OK) else jp_state jc"
  have "gap_for (hd (modes jc)) ?b"
    using mid_gap [OF mid] mid_scalar [OF mid] s by (auto simp: gap_for_def value_modes_def split: modes.splits)
  then have g: "\<lbrakk>hd (modes jc) \<in> value_modes; jp_state jc \<in> {VA, AR}\<rbrakk> \<Longrightarrow> gap_for (hd (modes jc)) (jp_state jc)"
    "\<lbrakk>hd (modes jc) \<in> value_modes; jp_state jc \<notin> {VA, AR}\<rbrakk> \<Longrightarrow> gap_for (hd (modes jc)) OK"
    "hd (modes jc) \<notin> value_modes \<Longrightarrow> gap_for (hd (modes jc)) (jp_state jc)"
    by (auto simp: value_modes_def)
  show ?thesis
  proof (cases "allow_comments jc")
    case True
    show ?thesis unfolding open_comment_def Let_def using True
      apply (simp only: wp_bind wp_pop_back wp_assert wp_simps if_False not_True_eq_False)
      apply (intro conjI mid_buffer [OF mid n w] wp_parse_parse_buffer [OF cb])
      using mid_base [OF mid] n t g by (auto simp: mid_ok_type [OF mid] jp_inv_def comment_states_def value_modes_def)
  qed (simp add: open_comment_def)
qed

lemma empty_object_inv:
  assumes cb: "never_stops cb" and mid: "jp_mid cl jc" and s: "jp_state jc = OB"
  shows "wp (end_empty_object cb jc) jp_inv"
  using mid_base [OF mid] mid_gap [OF mid] s
  by (auto simp: end_empty_object_def parse_buffer_clear_def comment_states_def gap_OK intro!: wp_call [OF cb] gap_inv
      split: option.splits dest!: pop_SomeD modes_ok_pop)

lemma nonempty_inv:
  assumes cb: "never_stops cb" and mid: "jp_mid cl jc" and w: "\<not> white_class cl"
    and s: "jp_state jc \<in> {AR, OK, ZE, IT, FR, E3, FX}" and m: "m \<noteq> MODE_DONE"
  shows "wp (end_nonempty sf cb ty m jc) jp_inv"
proof -
  have n: "jp_state jc \<notin> comment_states" using s by (auto simp: comment_states_def)
  show ?thesis using mid_base [OF mid] mid_buffer [OF mid n w] n m
    by (auto simp: end_nonempty_def set_state_def gap_OK mid_ok_type [OF mid] intro!: wp_parse_parse_buffer [OF cb] wp_call [OF cb] gap_inv
      split: option.splits dest!: pop_SomeD modes_ok_pop)
qed

lemma nested_inv:
  assumes cb: "never_stops cb" and mid: "jp_mid cl jc" and w: "\<not> white_class cl"
    and s: "jp_state jc \<in> {GO, VA, AR}" and m: "(m, s') \<in> {(MODE_KEY, OB), (MODE_ARRAY, AR)}"
  shows "wp (begin_nested cb ty m s' jc) jp_inv"
proof -
  have b: "parse_buffer jc \<noteq> []" using mid_buffer [OF mid _ w] s by (auto simp: comment_states_def)
  have k: "hd (modes jc) \<noteq> MODE_KEY" using mid_gap [OF mid] s by (auto simp: gap_for_def)
  have "gap_for m s'" using m by (auto simp: gap_for_def)
  then show ?thesis using b k mid_base [OF mid] mid_gap [OF mid] s
    by (auto simp: begin_nested_def comment_states_def intro!: wp_call [OF cb] gap_inv
        split: option.splits dest!: push_SomeD intro: modes_ok_cons)
qed

lemma end_string_inv:
  assumes cb: "never_stops cb" and mid: "jp_mid cl jc" and w: "\<not> white_class cl" and s: "jp_state jc = ST"
  shows "wp (end_string sf cb jc) jp_inv"
proof -
  have b: "parse_buffer jc \<noteq> []" using mid_buffer [OF mid _ w] s by (auto simp: comment_states_def)
  have t: "jp_type jc = JSON_T_STRING" using mid s by (auto simp: jp_mid_def comment_states_def)
  then show ?thesis using b mid_base [OF mid] s
    by (cases "hd (modes jc)") (auto simp: end_string_def set_state_def parse_buffer_clear_def comment_states_def scalar_types_def gap_for_def
      intro!: wp_parse_parse_buffer [OF cb] wp_call [OF cb] gap_inv)
qed

lemma comma_inv:
  assumes cb: "never_stops cb" and mid: "jp_mid cl jc" and w: "\<not> white_class cl"
    and s: "jp_state jc \<in> {OK, ZE, IT, FR, E3, FX}"
  shows "wp (do_comma sf cb jc) jp_inv"
proof -
  have n: "jp_state jc \<notin> comment_states" using s by (auto simp: comment_states_def)
  have "jp_type jc \<noteq> JSON_T_STRING" using mid_scalar [OF mid] s by auto
  then show ?thesis using mid_base [OF mid] mid_buffer [OF mid n w] n
    by (cases "hd (modes jc)") (auto simp: do_comma_def set_state_def gap_for_def mid_ok_type [OF mid]
      intro!: wp_parse_parse_buffer [OF cb] gap_inv modes_ok_cons split: option.splits dest!: pop_SomeD push_SomeD modes_ok_pop)
qed

lemma colon_inv:
  assumes mid: "jp_mid cl jc" and w: "\<not> white_class cl" and s: "jp_state jc = CO"
  shows "wp (do_colon jc) jp_inv"
proof -
  have b: "parse_buffer jc \<noteq> []" using mid_buffer [OF mid _ w] s by (auto simp: comment_states_def)
  then show ?thesis using mid_base [OF mid] mid_gap [OF mid] s
    by (auto simp: do_colon_def comment_states_def gap_for_def intro!: gap_inv
        split: option.splits dest!: pop_SomeD push_SomeD modes_ok_pop intro: modes_ok_cons)
qed

lemma action_inv:
  assumes cb: "never_stops cb" and mid: "jp_mid cl jc" and leg: "legal_do (jp_state jc) cl a"
  shows "wp (do_action sf cb a jc) jp_inv"
proof -
  have w: "\<not> white_class cl" using leg by (simp add: legal_do_def)
  show ?thesis
    using leg number_inv [OF mid] literal_inv [OF mid] string_inv [OF mid] float_inv [OF mid] escape_inv [OF mid _ w]
      close_comment_inv [OF mid] open_comment_inv [OF cb mid w] empty_object_inv [OF cb mid] nonempty_inv [OF cb mid w]
      nested_inv [OF cb mid w] end_string_inv [OF cb mid w] comma_inv [OF cb mid w] colon_inv [OF mid w]
    by (cases a) (auto simp: do_action_def legal_do_def decode_unicode_char_def)
qed

lemma char_inv:
  assumes cb: "never_stops cb" and inv: "jp_inv jc"
  shows "wp (JSON_parser_char sf cb jc ch) jp_inv"
proof (cases "char_class ch")
  case None
  then show ?thesis by (simp add: JSON_parser_char_def)
next
  case (Some cl)
  have "wp (case state_transition_table (jp_state j) cl of To s \<Rightarrow> Accept (j\<lparr>jp_state := s\<rparr>) | Do a \<Rightarrow> do_action sf cb a j | ER \<Rightarrow> Reject) jp_inv"
    if "jp_mid cl j" for j
  proof -
    have "jp_state j \<notin> {D1, D2}" using that by (auto simp: jp_mid_def)
    from transition_legal [OF this, of cl] show ?thesis
      using to_inv [OF that] action_inv [OF cb that] by (cases "state_transition_table (jp_state j) cl") auto
  qed
  then show ?thesis using buffer_char_mid [OF inv, of ch cl] Some
    by (auto simp: JSON_parser_char_def elim!: wp_mono)
qed

lemma new_inv: "jp_inv (new_JSON_parser cfg c)"
  by (auto simp: jp_inv_def new_JSON_parser_def Let_def comment_states_def gap_for_def modes_ok_def)

lemma feed_inv:
  assumes cb: "never_stops cb"
  shows "jp_inv jc \<Longrightarrow> wp (fst (feed_chars sf cb n s jc)) jp_inv"
proof (induction s arbitrary: n jc)
  case (Cons c s)
  then show ?case using char_inv [OF cb Cons.prems, of sf "of_char c"]
    by (cases "JSON_parser_char sf cb jc (of_char c)") auto
qed simp

text \<open>C11: Fed any characters, with any configuration, the JSON parser never fails one of its own assertions, so the program
  stops only where the callback does.\<close>

theorem JSON_parser_no_assert:
  assumes "\<And>ty v c e. cb ty v c \<noteq> Stop e"
  shows "fst (feed_chars sf cb n s (new_JSON_parser cfg c)) \<noteq> Stop e"
proof -
  have "never_stops cb" using assms by (simp add: never_stops_def)
  from feed_inv [OF this new_inv, of sf n s cfg c] show ?thesis by auto
qed

theorem JSON_parser_no_assert_witness:
  "fst (feed_chars (\<lambda>_. 0) (\<lambda>ty v c. if ty = JSON_T_NULL then Reject else Accept (c + 1 :: nat)) 0 ''[1, {}]'' (new_JSON_parser init_JSON_config 0)) \<noteq> Stop AssertFailed"
  by (rule JSON_parser_no_assert) simp

end
