(* ===== verification/Json_Correct.thy ===== *)
theory Json_Correct
  imports Json_Parser
begin

text \<open>
  What the JSON parser reads. \<open>json_text v t\<close> is the grammar of the texts of a value, with white space and
  comments between the lexical elements; \<open>file_text\<close> is a file. The lemmas follow the automaton over one
  lexical element at a time (blanks, strings, numbers, literals), then over the elements of arrays and members of
  objects, up to a whole file, where the value built by the callback of
  \<^verbatim>\<open>src/tools/log-common/json.c\<close> is the one the text stands for.
  Floats are left out of the grammar: the parser passes them as text and the callback reads a number.
\<close>

section \<open>Texts of values\<close>

text \<open>The JSON texts the parser is meant to read, with white space and comments between the lexical elements.\<close>

definition json_white :: "char \<Rightarrow> bool" where
  "json_white c \<longleftrightarrow> c \<in> {CHR 0x20, CHR 0x09, CHR 0x0A, CHR 0x0D}"

fun no_close :: "string \<Rightarrow> bool" where
  "no_close (a # b # s) \<longleftrightarrow> \<not> (a = CHR 0x2A \<and> b = CHR 0x2F) \<and> no_close (b # s)"
| "no_close s \<longleftrightarrow> True"

definition readable :: "char \<Rightarrow> bool" where "readable c \<longleftrightarrow> char_class (of_char c) \<noteq> None"

inductive blank :: "string \<Rightarrow> bool" where
  blank_nil: "blank []"
| blank_white: "json_white c \<Longrightarrow> blank s \<Longrightarrow> blank (c # s)"
| blank_comment: "list_all readable b \<Longrightarrow> no_close b \<Longrightarrow> blank s \<Longrightarrow> blank (CHR 0x2F # CHR 0x2A # b @ CHR 0x2A # CHR 0x2F # s)"

text \<open>The characters of a string: plain ones, and the escapes without \<^verbatim>\<open>\u\<close>.\<close>

definition plain_char :: "char \<Rightarrow> bool" where
  "plain_char c \<longleftrightarrow> 32 \<le> (of_char c :: nat) \<and> c \<noteq> CHR 0x22 \<and> c \<noteq> CHR 0x5C"

inductive string_chars :: "string \<Rightarrow> string \<Rightarrow> bool" where
  chars_nil: "string_chars [] []"
| chars_plain: "plain_char c \<Longrightarrow> string_chars s t \<Longrightarrow> string_chars (c # s) (c # t)"
| chars_escape: "unescape (of_char e) = Some [c] \<Longrightarrow> string_chars s t \<Longrightarrow> string_chars (c # s) (CHR 0x5C # e # t)"

definition quoted :: "string \<Rightarrow> string" where "quoted t = CHR 0x22 # t @ [CHR 0x22]"

definition int64 :: "int \<Rightarrow> bool" where "int64 i \<longleftrightarrow> - (2 ^ 63) \<le> i \<and> i < 2 ^ 63"

inductive json_text :: "JSON_Value_t \<Rightarrow> string \<Rightarrow> bool"
  and elems_text :: "JSON_Value_t list \<Rightarrow> string \<Rightarrow> bool"
  and members_text :: "(string \<times> JSON_Value_t) list \<Rightarrow> string \<Rightarrow> bool" where
  text_null: "json_text JSON_null ''null''"
| text_true: "json_text (JSON_bool True) ''true''"
| text_false: "json_text (JSON_bool False) ''false''"
| text_int: "int64 i \<Longrightarrow> json_text (JSON_int i) (show_int i)"
| text_string: "string_chars s t \<Longrightarrow> json_text (JSON_string s) (quoted t)"
| text_array0: "blank b \<Longrightarrow> json_text (JSON_array []) (CHR 0x5B # b @ [CHR 0x5D])"
| text_array: "elems_text vs e \<Longrightarrow> json_text (JSON_array vs) (CHR 0x5B # e)"
| text_object0: "blank b \<Longrightarrow> json_text (JSON_object []) (CHR 0x7B # b @ [CHR 0x7D])"
| text_object: "members_text fs m \<Longrightarrow> json_text (JSON_object fs) (CHR 0x7B # m)"
| elems_last: "blank b1 \<Longrightarrow> json_text v t \<Longrightarrow> blank b2 \<Longrightarrow> elems_text [v] (b1 @ t @ b2 @ [CHR 0x5D])"
| elems_more: "blank b1 \<Longrightarrow> json_text v t \<Longrightarrow> blank b2 \<Longrightarrow> elems_text vs e \<Longrightarrow> elems_text (v # vs) (b1 @ t @ b2 @ CHR 0x2C # e)"
| members_last: "blank b1 \<Longrightarrow> string_chars k kt \<Longrightarrow> blank b2 \<Longrightarrow> blank b3 \<Longrightarrow> json_text v t \<Longrightarrow> blank b4
    \<Longrightarrow> members_text [(k, v)] (b1 @ quoted kt @ b2 @ CHR 0x3A # b3 @ t @ b4 @ [CHR 0x7D])"
| members_more: "blank b1 \<Longrightarrow> string_chars k kt \<Longrightarrow> blank b2 \<Longrightarrow> blank b3 \<Longrightarrow> json_text v t \<Longrightarrow> blank b4 \<Longrightarrow> members_text fs m
    \<Longrightarrow> members_text ((k, v) # fs) (b1 @ quoted kt @ b2 @ CHR 0x3A # b3 @ t @ b4 @ CHR 0x2C # m)"

text \<open>A file: one array or object between blanks.\<close>

definition is_container :: "JSON_Value_t \<Rightarrow> bool" where
  "is_container v \<longleftrightarrow> (case v of JSON_array _ \<Rightarrow> True | JSON_object _ \<Rightarrow> True | _ \<Rightarrow> False)"

inductive file_text :: "JSON_Value_t \<Rightarrow> string \<Rightarrow> bool" where
  "blank b1 \<Longrightarrow> json_text v t \<Longrightarrow> is_container v \<Longrightarrow> blank b2 \<Longrightarrow> file_text v (b1 @ t @ b2)"

fun nesting :: "JSON_Value_t \<Rightarrow> nat" where
  "nesting (JSON_array vs) = 1 + foldr (\<lambda>v k. max (nesting v) k) vs 0"
| "nesting (JSON_object fs) = 1 + foldr (\<lambda>f k. max (nesting (snd f)) k) fs 0"
| "nesting v = 0"

section \<open>Single characters\<close>

definition jstep :: "(string \<Rightarrow> 64 word) \<Rightarrow> 'c callback \<Rightarrow> 'c JSON_parser \<Rightarrow> char \<Rightarrow> 'c JSON_parser jresult" where
  "jstep sf cb jc c = JSON_parser_char sf cb jc (of_char c)"

fun jfeed :: "(string \<Rightarrow> 64 word) \<Rightarrow> 'c callback \<Rightarrow> string \<Rightarrow> 'c JSON_parser \<Rightarrow> 'c JSON_parser jresult" where
  "jfeed sf cb [] jc = Accept jc"
| "jfeed sf cb (c # cs) jc = jbind (jstep sf cb jc c) (jfeed sf cb cs)"

lemma jfeed_append: "jfeed sf cb (s @ t) jc = jbind (jfeed sf cb s jc) (jfeed sf cb t)"
proof (induction s arbitrary: jc)
  case (Cons c s)
  then show ?case by (cases "jstep sf cb jc c") simp_all
qed simp

lemma ascii_classes:
  "char_class 32 = Some C_SPACE" "char_class 9 = Some C_WHITE" "char_class 10 = Some C_WHITE" "char_class 13 = Some C_WHITE"
  "char_class 34 = Some C_QUOTE" "char_class 42 = Some C_STAR" "char_class 44 = Some C_COMMA" "char_class 45 = Some C_MINUS"
  "char_class 47 = Some C_SLASH" "char_class 48 = Some C_ZERO" "char_class 49 = Some C_DIGIT" "char_class 50 = Some C_DIGIT" "char_class 51 = Some C_DIGIT"
  "char_class 52 = Some C_DIGIT" "char_class 53 = Some C_DIGIT" "char_class 54 = Some C_DIGIT" "char_class 55 = Some C_DIGIT"
  "char_class 56 = Some C_DIGIT" "char_class 57 = Some C_DIGIT" "char_class 58 = Some C_COLON"
  "char_class 91 = Some C_LSQRB" "char_class 92 = Some C_BACKS" "char_class 93 = Some C_RSQRB"
  "char_class 97 = Some C_LOW_A" "char_class 98 = Some C_LOW_B" "char_class 101 = Some C_LOW_E" "char_class 102 = Some C_LOW_F"
  "char_class 108 = Some C_LOW_L" "char_class 110 = Some C_LOW_N" "char_class 114 = Some C_LOW_R" "char_class 115 = Some C_LOW_S"
  "char_class 116 = Some C_LOW_T" "char_class 117 = Some C_LOW_U" "char_class 123 = Some C_LCURB" "char_class 125 = Some C_RCURB"
  by (simp_all add: char_class_def ascii_class_def)

lemma table_string: "state_transition_table ST c = (case c of C_WHITE \<Rightarrow> ER | C_QUOTE \<Rightarrow> Do A4 | C_BACKS \<Rightarrow> Do EXC | _ \<Rightarrow> To ST)"
  by (cases c) (simp_all add: state_transition_table_def)

lemma table_C2: "state_transition_table C2 c = (case c of C_STAR \<Rightarrow> To C3 | _ \<Rightarrow> To C2)"
  by (cases c) (simp_all add: state_transition_table_def)

lemma table_C3: "state_transition_table C3 c = (case c of C_STAR \<Rightarrow> To C3 | C_SLASH \<Rightarrow> Do CE | _ \<Rightarrow> To C2)"
  by (cases c) (simp_all add: state_transition_table_def)

text \<open>The states between lexical elements: white space leaves them alone, a slash opens a comment.\<close>

definition gap_state :: "states \<Rightarrow> bool" where "gap_state s \<longleftrightarrow> s \<in> {GO, OK, OB, KE, CO, VA, AR}"

lemma table_gap:
  "gap_state s \<Longrightarrow> state_transition_table s C_SPACE = To s"
  "gap_state s \<Longrightarrow> state_transition_table s C_WHITE = To s"
  "gap_state s \<Longrightarrow> state_transition_table s C_SLASH = Do CB"
  by (auto simp: gap_state_def state_transition_table_def)

lemma table_number_end:
  "s \<in> {OK, ZE, IT} \<Longrightarrow> state_transition_table s C_SPACE = To OK"
  "s \<in> {OK, ZE, IT} \<Longrightarrow> state_transition_table s C_WHITE = To OK"
  "s \<in> {OK, ZE, IT} \<Longrightarrow> state_transition_table s C_SLASH = Do CB"
  "s \<in> {OK, ZE, IT} \<Longrightarrow> state_transition_table s C_COMMA = Do A3"
  "s \<in> {OK, ZE, IT} \<Longrightarrow> state_transition_table s C_RSQRB = Do A7"
  "s \<in> {OK, ZE, IT} \<Longrightarrow> state_transition_table s C_RCURB = Do A8"
  by (auto simp: state_transition_table_def)

lemma table_value:
  "s \<in> {VA, AR} \<Longrightarrow> state_transition_table s C_QUOTE = Do SB"
  "s \<in> {VA, AR} \<Longrightarrow> state_transition_table s C_MINUS = Do MX"
  "s \<in> {VA, AR} \<Longrightarrow> state_transition_table s C_ZERO = Do ZX"
  "s \<in> {VA, AR} \<Longrightarrow> state_transition_table s C_DIGIT = Do IX"
  "s \<in> {VA, AR} \<Longrightarrow> state_transition_table s C_LOW_F = Do FA"
  "s \<in> {VA, AR} \<Longrightarrow> state_transition_table s C_LOW_N = Do NU"
  "s \<in> {VA, AR} \<Longrightarrow> state_transition_table s C_LOW_T = Do TR"
  "s \<in> {VA, AR, GO} \<Longrightarrow> state_transition_table s C_LCURB = Do A6"
  "s \<in> {VA, AR, GO} \<Longrightarrow> state_transition_table s C_LSQRB = Do A5"
  by (auto simp: state_transition_table_def)

lemma table_rest:
  "state_transition_table AR C_RSQRB = Do A7" "state_transition_table OB C_RCURB = Do A9"
  "state_transition_table OB C_QUOTE = Do SB" "state_transition_table KE C_QUOTE = Do SB"
  "state_transition_table CO C_COLON = Do A2" "state_transition_table C1 C_STAR = To C2"
  "state_transition_table MI C_ZERO = To ZE" "state_transition_table MI C_DIGIT = To IT"
  "state_transition_table IT C_ZERO = To IT" "state_transition_table IT C_DIGIT = To IT"
  "state_transition_table T1 C_LOW_R = To T2" "state_transition_table T2 C_LOW_U = To T3" "state_transition_table T3 C_LOW_E = To OK"
  "state_transition_table F1 C_LOW_A = To F2" "state_transition_table F2 C_LOW_L = To F3" "state_transition_table F3 C_LOW_S = To F4"
  "state_transition_table F4 C_LOW_E = To OK"
  "state_transition_table N1 C_LOW_U = To N2" "state_transition_table N2 C_LOW_L = To N3" "state_transition_table N3 C_LOW_L = To OK"
  by (simp_all add: state_transition_table_def)

lemmas jsteps = jstep_def JSON_parser_char_def buffer_char_def parse_buffer_push_back_char_def ascii_classes

text \<open>A parser between two elements: nothing buffered, no scalar begun.\<close>

definition clean :: "'c JSON_parser \<Rightarrow> bool" where
  "clean jc \<longleftrightarrow> jp_type jc = JSON_T_NONE \<and> parse_buffer jc = [] \<and> \<not> escaped jc \<and> \<not> comment jc \<and> allow_comments jc \<and> modes jc \<noteq> []"

text \<open>The modes in which a state between elements can occur.\<close>

definition at_gap :: "'c JSON_parser \<Rightarrow> bool" where
  "at_gap jc \<longleftrightarrow> (case hd (modes jc) of
      MODE_KEY \<Rightarrow> jp_state jc \<in> {OB, KE, CO}
    | MODE_DONE \<Rightarrow> jp_state jc \<in> {GO, OK}
    | _ \<Rightarrow> jp_state jc \<in> {VA, AR, OK})"

lemma at_gap_state: "at_gap jc \<Longrightarrow> gap_state (jp_state jc)"
  by (auto simp: at_gap_def gap_state_def split: modes.splits)

lemma at_gap_update [simp]: "at_gap (jc\<lparr>before_comment_state := bc\<rparr>) \<longleftrightarrow> at_gap jc"
  by (cases "hd (modes jc)") (simp_all add: at_gap_def)

lemma clean_update [simp]: "clean (jc\<lparr>before_comment_state := bc\<rparr>) \<longleftrightarrow> clean jc"
  by (simp add: clean_def)

lemma step_white: "clean jc \<Longrightarrow> gap_state (jp_state jc) \<Longrightarrow> json_white c \<Longrightarrow> jstep sf cb jc c = Accept jc"
  by (auto simp: json_white_def jsteps clean_def table_gap)

lemma char_class_of_char: "char_class (of_char c) = (if (of_char c :: nat) < 128 then ascii_class ! of_char c else Some C_ETC)"
proof -
  have "char_class (int (of_char c)) = (if (of_char c :: nat) < 128 then ascii_class ! of_char c else Some C_ETC)"
    unfolding char_class_def nat_int by simp
  then show ?thesis by (simp only: of_nat_of_char)
qed

lemma ascii_class_inverse:
  assumes "n < 128"
  shows "(ascii_class ! n = Some C_SLASH \<longleftrightarrow> n = 47) \<and> (ascii_class ! n = Some C_STAR \<longleftrightarrow> n = 42)
    \<and> (ascii_class ! n = Some C_QUOTE \<longleftrightarrow> n = 34) \<and> (ascii_class ! n = Some C_BACKS \<longleftrightarrow> n = 92)
    \<and> (ascii_class ! n \<in> {None, Some C_WHITE} \<longleftrightarrow> n < 32)"
proof -
  have "list_all (\<lambda>n. (ascii_class ! n = Some C_SLASH \<longleftrightarrow> n = 47) \<and> (ascii_class ! n = Some C_STAR \<longleftrightarrow> n = 42)
    \<and> (ascii_class ! n = Some C_QUOTE \<longleftrightarrow> n = 34) \<and> (ascii_class ! n = Some C_BACKS \<longleftrightarrow> n = 92)
    \<and> (ascii_class ! n \<in> {None, Some C_WHITE} \<longleftrightarrow> n < 32)) [0..<128]"
    by code_simp
  with assms show ?thesis by (simp add: list_all_iff)
qed

lemma of_char_nat_eq: "(of_char c :: nat) = of_char d \<longleftrightarrow> c = d" by (rule of_char_eq_iff)

lemma class_char_iff:
  "char_class (of_char c) = Some C_SLASH \<longleftrightarrow> c = CHR 0x2F" "char_class (of_char c) = Some C_STAR \<longleftrightarrow> c = CHR 0x2A"
  "char_class (of_char c) = Some C_QUOTE \<longleftrightarrow> c = CHR 0x22" "char_class (of_char c) = Some C_BACKS \<longleftrightarrow> c = CHR 0x5C"
  "char_class (of_char c) \<in> {None, Some C_WHITE} \<longleftrightarrow> (of_char c :: nat) < 32"
  using ascii_class_inverse [of "of_char c"] of_char_nat_eq [of c "CHR 0x2F"] of_char_nat_eq [of c "CHR 0x2A"]
    of_char_nat_eq [of c "CHR 0x22"] of_char_nat_eq [of c "CHR 0x5C"]
  by (auto simp: char_class_of_char)

section \<open>Blanks\<close>

lemma step_comment_body:
  assumes "jp_state jc \<in> {C2, C3}" and "comment jc" and "\<not> escaped jc" and "readable c" and "\<not> (jp_state jc = C3 \<and> c = CHR 0x2F)"
  shows "jstep sf cb jc c = Accept (jc\<lparr>jp_state := if c = CHR 0x2A then C3 else C2\<rparr>)"
proof -
  obtain cl where cl: "char_class (of_char c) = Some cl" using assms(4) by (auto simp: readable_def)
  have s: "cl = C_SLASH \<longleftrightarrow> c = CHR 0x2F" "cl = C_STAR \<longleftrightarrow> c = CHR 0x2A" using class_char_iff(1,2) [of c] cl by simp_all
  have u: "jstep sf cb jc c = (case state_transition_table (jp_state jc) cl of
      To s \<Rightarrow> Accept (jc\<lparr>jp_state := s\<rparr>) | Do a \<Rightarrow> do_action sf cb a jc | ER \<Rightarrow> Reject)"
    using assms(2,3) by (simp add: jstep_def JSON_parser_char_def cl buffer_char_def)
  show ?thesis unfolding u using assms(1,5) s by (cases cl) (auto simp: table_C2 table_C3)
qed

lemma feed_comment_body:
  assumes "list_all readable b" and "no_close b" and "comment jc" and "\<not> escaped jc" and "jp_state jc \<in> {C2, C3}"
    and "jp_state jc = C3 \<longrightarrow> (case b of [] \<Rightarrow> True | c # _ \<Rightarrow> c \<noteq> CHR 0x2F)"
  shows "\<exists>s \<in> {C2, C3}. jfeed sf cb b jc = Accept (jc\<lparr>jp_state := s\<rparr>)"
  using assms
proof (induction b arbitrary: jc)
  case Nil
  then show ?case by (intro bexI [of _ "jp_state jc"]) simp_all
next
  case (Cons c b)
  let ?jc = "jc\<lparr>jp_state := if c = CHR 0x2A then C3 else C2\<rparr>"
  have st: "jstep sf cb jc c = Accept ?jc" using Cons.prems by (intro step_comment_body) auto
  have "no_close b" using Cons.prems(2) by (cases b) simp_all
  moreover have "jp_state ?jc = C3 \<longrightarrow> (case b of [] \<Rightarrow> True | c # _ \<Rightarrow> c \<noteq> CHR 0x2F)"
    using Cons.prems(2) by (cases b) auto
  ultimately have "\<exists>s \<in> {C2, C3}. jfeed sf cb b ?jc = Accept (?jc\<lparr>jp_state := s\<rparr>)"
    using Cons.prems by (intro Cons.IH) auto
  with st show ?case by auto
qed

text \<open>A whole comment from the state \<open>C1\<close> on.\<close>

lemma feed_comment:
  assumes "list_all readable b" and "no_close b" and "comment jc" and "\<not> escaped jc" and "jp_state jc = C1"
    and "parse_buffer jc = []" and "jp_type jc = JSON_T_NONE"
  shows "jfeed sf cb (CHR 0x2A # b @ [CHR 0x2A, CHR 0x2F]) jc = Accept (jc\<lparr>comment := False, jp_state := before_comment_state jc\<rparr>)"
proof -
  let ?jc = "jc\<lparr>jp_state := C2\<rparr>"
  have 1: "jstep sf cb jc (CHR 0x2A) = Accept ?jc" using assms by (simp add: jsteps table_rest)
  obtain s where s: "s \<in> {C2, C3}" "jfeed sf cb b ?jc = Accept (?jc\<lparr>jp_state := s\<rparr>)"
    using feed_comment_body [OF assms(1,2), of ?jc sf cb] assms by auto
  have "jfeed sf cb [CHR 0x2A, CHR 0x2F] (?jc\<lparr>jp_state := s\<rparr>) = Accept (jc\<lparr>comment := False, jp_state := before_comment_state jc\<rparr>)"
    using s(1) assms by (auto simp: jsteps table_C2 table_C3 do_action_def close_comment_def jassert_def)
  with 1 s(2) show ?thesis by (simp add: jfeed_append)
qed

lemma butlast_snoc_op [simp]: "butlast (xs @ [x]) = xs" by simp

lemma step_open_comment:
  assumes "clean jc" and "at_gap jc"
  shows "jstep sf cb jc (CHR 0x2F) = Accept (jc\<lparr>before_comment_state := jp_state jc, jp_state := C1, comment := True\<rparr>)"
  using assms at_gap_state [OF assms(2)]
  by (auto simp: jsteps clean_def table_gap do_action_def open_comment_def parse_buffer_pop_back_char_def jassert_def
      parse_parse_buffer_def parse_buffer_clear_def Let_def at_gap_def split: modes.splits)

lemma feed_blank:
  assumes "blank b" and "clean jc" and "at_gap jc"
  shows "\<exists>bc. jfeed sf cb b jc = Accept (jc\<lparr>before_comment_state := bc\<rparr>)"
  using assms
proof (induction arbitrary: jc rule: blank.induct)
  case blank_nil
  then show ?case by (intro exI [of _ "before_comment_state jc"]) simp
next
  case (blank_white c s)
  then show ?case using step_white [of jc c sf cb] at_gap_state [of jc] by simp
next
  case (blank_comment b s)
  let ?j1 = "jc\<lparr>before_comment_state := jp_state jc, jp_state := C1, comment := True\<rparr>"
  let ?j2 = "jc\<lparr>before_comment_state := jp_state jc\<rparr>"
  have o': "jstep sf cb jc (CHR 0x2F) = Accept ?j1" by (rule step_open_comment [OF blank_comment.prems])
  have c: "jfeed sf cb (CHR 0x2A # b @ [CHR 0x2A, CHR 0x2F]) ?j1 = Accept ?j2"
    using feed_comment [OF blank_comment.hyps(1,2), of ?j1 sf cb] blank_comment.prems(1) by (simp add: clean_def)
  obtain bc where r: "jfeed sf cb s ?j2 = Accept (?j2\<lparr>before_comment_state := bc\<rparr>)"
    using blank_comment.IH [of ?j2] blank_comment.prems by auto
  have e: "CHR 0x2F # CHR 0x2A # b @ CHR 0x2A # CHR 0x2F # s = [CHR 0x2F] @ (CHR 0x2A # b @ [CHR 0x2A, CHR 0x2F]) @ s" by simp
  show ?case unfolding e jfeed_append using o' c r by (intro exI [of _ bc]) simp
qed

section \<open>Strings\<close>

lemma step_plain:
  assumes "plain_char c" and "jp_state jc = ST" and "jp_type jc = JSON_T_STRING" and "\<not> escaped jc" and "\<not> comment jc"
  shows "jstep sf cb jc c = Accept (jc\<lparr>parse_buffer := parse_buffer jc @ [c]\<rparr>)"
proof -
  have "char_class (of_char c) \<notin> {None, Some C_WHITE}" "char_class (of_char c) \<noteq> Some C_QUOTE" "char_class (of_char c) \<noteq> Some C_BACKS"
    using assms(1) class_char_iff(3-5) [of c] by (simp_all add: plain_char_def)
  then obtain cl where cl: "char_class (of_char c) = Some cl" "cl \<notin> {C_WHITE, C_QUOTE, C_BACKS}" by auto
  have c: "(char_of (nat (of_char c)) :: char) = c" by (metis char_of_char nat_of_char)
  have t: "state_transition_table ST cl = To ST" using cl(2) by (cases cl) (simp_all add: table_string)
  show ?thesis using assms(2-5)
    by (simp add: jstep_def JSON_parser_char_def cl(1) buffer_char_def parse_buffer_push_back_char_def c t)
qed

lemma char_codes:
  "char_of (92 :: nat) = CHR 0x5C" "char_of (45 :: nat) = CHR 0x2D" "char_of (97 :: nat) = CHR 0x61" "char_of (101 :: nat) = CHR 0x65"
  "char_of (102 :: nat) = CHR 0x66" "char_of (108 :: nat) = CHR 0x6C" "char_of (110 :: nat) = CHR 0x6E" "char_of (114 :: nat) = CHR 0x72"
  "char_of (115 :: nat) = CHR 0x73" "char_of (116 :: nat) = CHR 0x74" "char_of (117 :: nat) = CHR 0x75"
  using char_of_char [of "CHR 0x5C", where 'a = nat] char_of_char [of "CHR 0x2D", where 'a = nat] char_of_char [of "CHR 0x61", where 'a = nat]
    char_of_char [of "CHR 0x65", where 'a = nat] char_of_char [of "CHR 0x66", where 'a = nat] char_of_char [of "CHR 0x6C", where 'a = nat]
    char_of_char [of "CHR 0x6E", where 'a = nat] char_of_char [of "CHR 0x72", where 'a = nat] char_of_char [of "CHR 0x73", where 'a = nat]
    char_of_char [of "CHR 0x74", where 'a = nat] char_of_char [of "CHR 0x75", where 'a = nat]
  by simp_all

lemma unescape_cases:
  assumes "unescape (of_char e) = Some [c]"
  shows "e \<in> {CHR 0x62, CHR 0x66, CHR 0x6E, CHR 0x72, CHR 0x74, CHR 0x22, CHR 0x5C, CHR 0x2F}"
proof -
  have e: "(of_char e :: nat) \<in> {98, 102, 110, 114, 116, 34, 92, 47}"
    using assms by (auto simp: unescape_def split: if_splits)
  have "(of_char e :: nat) = of_char d \<Longrightarrow> e = d" for d by (simp only: of_char_eq_iff)
  from this [of "CHR 0x62"] this [of "CHR 0x66"] this [of "CHR 0x6E"] this [of "CHR 0x72"] this [of "CHR 0x74"]
    this [of "CHR 0x22"] this [of "CHR 0x5C"] this [of "CHR 0x2F"] e
  show ?thesis by auto
qed

lemma table_escape:
  "state_transition_table ES C_LOW_B = To ST" "state_transition_table ES C_LOW_F = To ST" "state_transition_table ES C_LOW_N = To ST"
  "state_transition_table ES C_LOW_R = To ST" "state_transition_table ES C_LOW_T = To ST" "state_transition_table ES C_QUOTE = To ST"
  "state_transition_table ES C_BACKS = To ST" "state_transition_table ES C_SLASH = To ST"
  by (simp_all add: state_transition_table_def)

lemma feed_escape:
  assumes "unescape (of_char e) = Some [c]" and "jp_state jc = ST" and "jp_type jc = JSON_T_STRING" and "\<not> escaped jc" and "\<not> comment jc"
  shows "jfeed sf cb [CHR 0x5C, e] jc = Accept (jc\<lparr>parse_buffer := parse_buffer jc @ [c]\<rparr>)"
proof -
  let ?j1 = "jc\<lparr>parse_buffer := parse_buffer jc @ [CHR 0x5C], escaped := True, jp_state := ES\<rparr>"
  have 1: "jstep sf cb jc (CHR 0x5C) = Accept ?j1"
    using assms(2-5) by (simp add: jsteps table_string do_action_def char_codes)
  have n: "nat (of_char e) = (of_char e :: nat)" by simp
  have 2: "jstep sf cb ?j1 e = Accept (jc\<lparr>parse_buffer := parse_buffer jc @ [c]\<rparr>)"
    using unescape_cases [OF assms(1)] assms
    by (auto simp: jsteps table_escape parse_buffer_pop_back_char_def jassert_def unescape_def)
  show ?thesis by (simp add: 1 2)
qed

lemma feed_string_chars:
  assumes "string_chars s t" and "jp_state jc = ST" and "jp_type jc = JSON_T_STRING" and "\<not> escaped jc" and "\<not> comment jc"
  shows "jfeed sf cb t jc = Accept (jc\<lparr>parse_buffer := parse_buffer jc @ s\<rparr>)"
  using assms
proof (induction arbitrary: jc rule: string_chars.induct)
  case chars_nil
  then show ?case by simp
next
  case (chars_plain c s t)
  then show ?case by (simp add: step_plain)
next
  case (chars_escape e c s t)
  let ?j1 = "jc\<lparr>parse_buffer := parse_buffer jc @ [c]\<rparr>"
  have "jfeed sf cb ([CHR 0x5C, e] @ t) jc = jfeed sf cb t ?j1"
    unfolding jfeed_append using feed_escape [OF chars_escape.hyps(1) chars_escape.prems] by simp
  then show ?case using chars_escape.IH [of ?j1] chars_escape.prems by simp
qed

text \<open>The opening quote and the characters; the closing quote is the caller's.\<close>

lemma feed_open_string:
  assumes "string_chars s t" and "clean jc" and "jp_state jc \<in> {VA, AR, OB, KE}"
  shows "jfeed sf cb (CHR 0x22 # t) jc = Accept (jc\<lparr>jp_type := JSON_T_STRING, jp_state := ST, parse_buffer := s\<rparr>)"
proof -
  let ?j1 = "jc\<lparr>jp_type := JSON_T_STRING, jp_state := ST\<rparr>"
  have "jstep sf cb jc (CHR 0x22) = Accept ?j1"
    using assms(2,3) by (auto simp: jsteps clean_def table_value table_rest do_action_def begin_string_def begin_literal_def
        jassert_def parse_buffer_clear_def set_state_def)
  then show ?thesis using feed_string_chars [OF assms(1), of ?j1 sf cb] assms(2) by (simp add: clean_def)
qed

lemma feed_key:
  assumes "string_chars s t" and "clean jc" and "jp_state jc \<in> {OB, KE}" and "hd (modes jc) = MODE_KEY"
    and "cb JSON_T_KEY (V_str s) (ctx jc) = Accept c'"
  shows "jfeed sf cb (quoted t) jc = Accept (jc\<lparr>jp_state := CO, ctx := c'\<rparr>)"
proof -
  let ?j1 = "jc\<lparr>jp_type := JSON_T_STRING, jp_state := ST, parse_buffer := s\<rparr>"
  have 1: "jfeed sf cb (CHR 0x22 # t) jc = Accept ?j1" by (rule feed_open_string) (use assms in auto)
  have 2: "jstep sf cb ?j1 (CHR 0x22) = Accept (jc\<lparr>jp_state := CO, ctx := c'\<rparr>)"
    using assms(2,4,5) by (simp add: jsteps clean_def table_string do_action_def end_string_def parse_buffer_pop_back_char_def
        jassert_def call_def set_state_def parse_buffer_clear_def)
  have "jfeed sf cb ((CHR 0x22 # t) @ [CHR 0x22]) jc = Accept (jc\<lparr>jp_state := CO, ctx := c'\<rparr>)"
    unfolding jfeed_append 1 by (simp add: 2)
  then show ?thesis by (simp add: quoted_def)
qed

lemma feed_string:
  assumes "string_chars s t" and "clean jc" and "jp_state jc \<in> {VA, AR}" and "hd (modes jc) \<in> {MODE_ARRAY, MODE_OBJECT}"
    and "cb JSON_T_STRING (V_str s) (ctx jc) = Accept c'"
  shows "jfeed sf cb (quoted t) jc = Accept (jc\<lparr>jp_state := OK, ctx := c'\<rparr>)"
proof -
  let ?j1 = "jc\<lparr>jp_type := JSON_T_STRING, jp_state := ST, parse_buffer := s\<rparr>"
  have 1: "jfeed sf cb (CHR 0x22 # t) jc = Accept ?j1" by (rule feed_open_string) (use assms in auto)
  have 2: "jstep sf cb ?j1 (CHR 0x22) = Accept (jc\<lparr>jp_state := OK, ctx := c'\<rparr>)"
    using assms(2,4,5) by (auto simp: jsteps clean_def table_string do_action_def end_string_def parse_buffer_pop_back_char_def
        jassert_def call_def set_state_def parse_buffer_clear_def parse_parse_buffer_def buffer_value_def)
  have "jfeed sf cb ((CHR 0x22 # t) @ [CHR 0x22]) jc = Accept (jc\<lparr>jp_state := OK, ctx := c'\<rparr>)"
    unfolding jfeed_append 1 by (simp add: 2)
  then show ?thesis by (simp add: quoted_def)
qed

section \<open>Numbers and literals\<close>

text \<open>A scalar that is complete but not yet reported: the parser reports it at the next delimiter.\<close>

definition pending_scalar :: "(string \<Rightarrow> 64 word) \<Rightarrow> JSON_type \<times> JSON_value \<Rightarrow> 'c JSON_parser \<Rightarrow> 'c JSON_parser \<Rightarrow> bool" where
  "pending_scalar sf tok jc0 jc \<longleftrightarrow>
     (\<exists>bc buf s. jc = jc0\<lparr>before_comment_state := bc, jp_type := fst tok, parse_buffer := buf, jp_state := s\<rparr>
        \<and> (fst tok \<in> {JSON_T_NULL, JSON_T_FALSE, JSON_T_TRUE} \<and> snd tok = V_none \<and> s = OK
           \<or> fst tok = JSON_T_INTEGER \<and> s \<in> {OK, ZE, IT}
             \<and> (\<exists>i w. int64 i \<and> snd tok = V_integer i \<and> buf = show_int i @ w \<and> list_all json_white w)))"

lemma char_of_back: "(char_of (nat (of_char c)) :: char) = c"
  by (metis char_of_char nat_of_char)

lemma strtol_white:
  assumes "int64 i" and "list_all json_white w" shows "fst (strtol (show_int i @ w) 10) = i"
proof -
  have nd: "\<not> is_digit 10 c" if "json_white c" for c
    using that by (auto simp: json_white_def is_digit_def digit_val_def)
  have tw: "takeWhile (is_digit 10) w = []"
    using assms(2) nd by (cases w) auto
  have sn: "takeWhile (is_digit 10) (show_nat n @ w) = show_nat n" for n
  proof -
    have "\<forall>c \<in> set (show_nat n). is_digit 10 c" using takeWhile_show_nat [of n] by (metis set_takeWhileD)
    then show ?thesis using tw by (simp add: takeWhile_append2)
  qed
  have c: "clamp_long i = i" using assms(1) by (intro clamp_long_id) (simp_all add: int64_def)
  show ?thesis
  proof (cases "i < 0")
    case True
    then have s: "show_int i = CHR ''-'' # show_nat (nat (- i))" by (simp add: show_int_def)
    show ?thesis using True c by (simp add: s strtol_def isspace_def strip_base_def sn digits_val_show_nat Let_def)
  next
    case False
    then have s: "show_int i = show_nat (nat i)" by (simp add: show_int_def)
    obtain d ds where d: "d < 10" "show_nat (nat i) = digit_char d # ds" using show_nat_hd by blast
    have sk: "skip_sign (dropWhile isspace (show_nat (nat i) @ w)) = (False, show_nat (nat i) @ w)"
      using d digit_char_not_space digit_char_no_sign [OF d(1)] by (simp add: skip_sign_plain)
    show ?thesis using False c by (simp add: s strtol_def sk strip_base_def sn digits_val_show_nat Let_def)
  qed
qed

text \<open>What the parser does with a pending scalar at white space, a comment and a delimiter.\<close>

lemma pending_value:
  assumes "pending_scalar sf tok jc0 jc" shows "buffer_value sf jc = snd tok"
proof -
  from assms obtain buf s bc where jc: "jc = jc0\<lparr>before_comment_state := bc, jp_type := fst tok, parse_buffer := buf, jp_state := s\<rparr>"
    and k: "fst tok \<in> {JSON_T_NULL, JSON_T_FALSE, JSON_T_TRUE} \<and> snd tok = V_none \<and> s = OK
           \<or> fst tok = JSON_T_INTEGER \<and> s \<in> {OK, ZE, IT} \<and> (\<exists>i w. int64 i \<and> snd tok = V_integer i \<and> buf = show_int i @ w \<and> list_all json_white w)"
    unfolding pending_scalar_def by blast
  from k show ?thesis
  proof
    assume "fst tok \<in> {JSON_T_NULL, JSON_T_FALSE, JSON_T_TRUE} \<and> snd tok = V_none \<and> s = OK"
    then show ?thesis by (auto simp: jc buffer_value_def)
  next
    assume "fst tok = JSON_T_INTEGER \<and> s \<in> {OK, ZE, IT} \<and> (\<exists>i w. int64 i \<and> snd tok = V_integer i \<and> buf = show_int i @ w \<and> list_all json_white w)"
    then show ?thesis using strtol_white by (auto simp: jc buffer_value_def)
  qed
qed

lemma pending_scalarE:
  assumes "pending_scalar sf tok jc0 jc"
  obtains bc buf s where "jc = jc0\<lparr>before_comment_state := bc, jp_type := fst tok, parse_buffer := buf, jp_state := s\<rparr>"
    and "fst tok \<in> {JSON_T_NULL, JSON_T_FALSE, JSON_T_TRUE, JSON_T_INTEGER}" and "s \<in> {OK, ZE, IT}"
  using assms unfolding pending_scalar_def by (elim exE conjE disjE) auto

lemma pending_white:
  assumes "pending_scalar sf tok jc0 jc" and "clean jc0" and "json_white c"
  shows "\<exists>jc'. jstep sf cb jc c = Accept jc' \<and> pending_scalar sf tok jc0 jc'"
proof -
  obtain bc buf s where jc: "jc = jc0\<lparr>before_comment_state := bc, jp_type := fst tok, parse_buffer := buf, jp_state := s\<rparr>"
    and k: "fst tok \<in> {JSON_T_NULL, JSON_T_FALSE, JSON_T_TRUE} \<and> snd tok = V_none \<and> s = OK
           \<or> fst tok = JSON_T_INTEGER \<and> s \<in> {OK, ZE, IT} \<and> (\<exists>i w. int64 i \<and> snd tok = V_integer i \<and> buf = show_int i @ w \<and> list_all json_white w)"
    using assms(1) unfolding pending_scalar_def by blast
  have s: "s \<in> {OK, ZE, IT}" and ty: "fst tok \<noteq> JSON_T_NONE" using k by auto
  let ?jc' = "jc0\<lparr>before_comment_state := bc, jp_type := fst tok, parse_buffer := buf @ [c], jp_state := OK\<rparr>"
  have cl: "char_class (of_char c) \<in> {Some C_SPACE, Some C_WHITE}" using assms(3) by (auto simp: json_white_def ascii_classes)
  have "jstep sf cb jc c = Accept ?jc'"
    using s ty assms(2) cl table_number_end(1,2) [OF s]
    by (auto simp: jc jstep_def JSON_parser_char_def buffer_char_def parse_buffer_push_back_char_def char_of_back clean_def)
  moreover have "pending_scalar sf tok jc0 ?jc'"
    using k
  proof
    assume "fst tok \<in> {JSON_T_NULL, JSON_T_FALSE, JSON_T_TRUE} \<and> snd tok = V_none \<and> s = OK"
    then show ?thesis unfolding pending_scalar_def by blast
  next
    assume "fst tok = JSON_T_INTEGER \<and> s \<in> {OK, ZE, IT} \<and> (\<exists>i w. int64 i \<and> snd tok = V_integer i \<and> buf = show_int i @ w \<and> list_all json_white w)"
    then obtain i w where i: "fst tok = JSON_T_INTEGER" "int64 i" "snd tok = V_integer i" "buf @ [c] = show_int i @ (w @ [c])" "list_all json_white (w @ [c])"
      using assms(3) by auto
    then show ?thesis unfolding pending_scalar_def by blast
  qed
  ultimately show ?thesis by blast
qed

lemma pending_report:
  assumes "pending_scalar sf tok jc0 jc" and "clean jc0" and "cb (fst tok) (snd tok) (ctx jc0) = Accept c'"
  shows "parse_parse_buffer sf cb jc = Accept (jc\<lparr>ctx := c', parse_buffer := []\<rparr>)"
proof -
  obtain bc buf s where jc: "jc = jc0\<lparr>before_comment_state := bc, jp_type := fst tok, parse_buffer := buf, jp_state := s\<rparr>"
    and ty: "fst tok \<in> {JSON_T_NULL, JSON_T_FALSE, JSON_T_TRUE, JSON_T_INTEGER}" using assms(1) by (rule pending_scalarE)
  have "jp_type jc = fst tok" "ctx jc = ctx jc0" by (simp_all add: jc)
  then show ?thesis using ty pending_value [OF assms(1)] assms(3)
    by (auto simp: parse_parse_buffer_def jassert_def call_def parse_buffer_clear_def)
qed

section \<open>Numbers and literals, continued\<close>

lemma digit_class:
  assumes "d < 10" shows "char_class (of_char (digit_char d)) = Some (if d = 0 then C_ZERO else C_DIGIT)"
proof -
  have "d \<in> {0, 1, 2, 3, 4, 5, 6, 7, 8, 9}" using assms by auto
  moreover have "(of_char (digit_char d) :: nat) = 48 + d" using assms by (simp add: digit_char_def)
  ultimately show ?thesis by (auto simp: char_class_of_char ascii_class_def)
qed

lemma show_nat_pos: "0 < n \<Longrightarrow> \<exists>d ds. 0 < d \<and> d < 10 \<and> show_nat n = digit_char d # ds"
proof (induction n rule: less_induct)
  case (less n)
  show ?case
  proof (cases "n < 10")
    case True
    then show ?thesis using less.prems by (subst show_nat.simps) auto
  next
    case False
    then have "n div 10 < n" "0 < n div 10" by (simp_all add: div_greater_zero_iff)
    then obtain d ds where "0 < d \<and> d < 10 \<and> show_nat (n div 10) = digit_char d # ds" using less.IH [of "n div 10"] by blast
    then show ?thesis using False by (subst show_nat.simps) auto
  qed
qed

lemma feed_digits:
  assumes "\<forall>c \<in> set ds. \<exists>d < 10. c = digit_char d" and "jp_state jc = IT" and "jp_type jc = JSON_T_INTEGER" and "\<not> escaped jc" and "\<not> comment jc"
  shows "jfeed sf cb ds jc = Accept (jc\<lparr>parse_buffer := parse_buffer jc @ ds\<rparr>)"
  using assms
proof (induction ds arbitrary: jc)
  case (Cons c ds)
  obtain d where d: "d < 10" "c = digit_char d" using Cons.prems(1) by auto
  have "jstep sf cb jc c = Accept (jc\<lparr>parse_buffer := parse_buffer jc @ [c]\<rparr>)"
    using Cons.prems(2-5) digit_class [OF d(1)] unfolding d(2)
    by (simp add: jstep_def JSON_parser_char_def buffer_char_def parse_buffer_push_back_char_def char_of_back table_rest)
  then show ?case using Cons.IH [of "jc\<lparr>parse_buffer := parse_buffer jc @ [c]\<rparr>"] Cons.prems by simp
qed simp

text \<open>An unsigned number in a state whose row sends 0 to \<open>ZE\<close> and the other digits to \<open>IT\<close>.\<close>

lemma feed_nat:
  assumes z: "jstep sf cb jc (digit_char 0) = Accept (j0\<lparr>parse_buffer := pre @ [digit_char 0], jp_state := ZE\<rparr>)"
    and d: "\<And>d. 0 < d \<Longrightarrow> d < 10 \<Longrightarrow> jstep sf cb jc (digit_char d) = Accept (j0\<lparr>parse_buffer := pre @ [digit_char d], jp_state := IT\<rparr>)"
    and j0: "jp_type j0 = JSON_T_INTEGER" "\<not> escaped j0" "\<not> comment j0"
  shows "\<exists>s \<in> {ZE, IT}. jfeed sf cb (show_nat n) jc = Accept (j0\<lparr>parse_buffer := pre @ show_nat n, jp_state := s\<rparr>)"
proof (cases "n = 0")
  case True
  then have "show_nat n = [digit_char 0]" by (simp add: show_nat.simps)
  with z show ?thesis by simp
next
  case False
  then obtain e ds where e: "0 < e" "e < 10" "show_nat n = digit_char e # ds" using show_nat_pos by blast
  have "\<forall>c \<in> set ds. \<exists>d < 10. c = digit_char d" using show_nat_digits [of n] e(3) by auto
  with feed_digits [of ds "j0\<lparr>parse_buffer := pre @ [digit_char e], jp_state := IT\<rparr>" sf cb] j0 d [OF e(1,2)] e(3)
  show ?thesis by (intro bexI [of _ IT]) simp_all
qed

lemma step_first_digit:
  assumes "clean jc" and "jp_state jc \<in> {VA, AR}" and "d < 10"
  shows "jstep sf cb jc (digit_char d) = Accept (jc\<lparr>jp_type := JSON_T_INTEGER, parse_buffer := [digit_char d], jp_state := if d = 0 then ZE else IT\<rparr>)"
  using assms digit_class [OF assms(3)]
  by (auto simp: jstep_def JSON_parser_char_def buffer_char_def parse_buffer_push_back_char_def char_of_back clean_def table_value
      do_action_def begin_number_def set_state_def)

lemma step_minus_digit:
  assumes "jp_state jc = MI" and "jp_type jc = JSON_T_INTEGER" and "\<not> escaped jc" and "\<not> comment jc" and "d < 10"
  shows "jstep sf cb jc (digit_char d) = Accept (jc\<lparr>parse_buffer := parse_buffer jc @ [digit_char d], jp_state := if d = 0 then ZE else IT\<rparr>)"
  using assms digit_class [OF assms(5)]
  by (auto simp: jstep_def JSON_parser_char_def buffer_char_def parse_buffer_push_back_char_def char_of_back table_rest)

lemma feed_int:
  assumes "clean jc" and "jp_state jc \<in> {VA, AR}"
  shows "\<exists>s \<in> {ZE, IT}. jfeed sf cb (show_int i) jc = Accept (jc\<lparr>jp_type := JSON_T_INTEGER, parse_buffer := show_int i, jp_state := s\<rparr>)"
proof (cases "i < 0")
  case True
  let ?j1 = "jc\<lparr>jp_type := JSON_T_INTEGER, parse_buffer := [CHR 0x2D], jp_state := MI\<rparr>"
  have 1: "jstep sf cb jc (CHR 0x2D) = Accept ?j1"
    using assms by (auto simp: jsteps clean_def table_value do_action_def begin_number_def set_state_def char_codes)
  have "\<exists>s \<in> {ZE, IT}. jfeed sf cb (show_nat (nat (- i))) ?j1 = Accept (?j1\<lparr>parse_buffer := [CHR 0x2D] @ show_nat (nat (- i)), jp_state := s\<rparr>)"
    by (rule feed_nat) (use assms in \<open>simp_all add: step_minus_digit clean_def\<close>)
  then show ?thesis using 1 True by (auto simp: show_int_def)
next
  case False
  let ?j0 = "jc\<lparr>jp_type := JSON_T_INTEGER\<rparr>"
  have "\<exists>s \<in> {ZE, IT}. jfeed sf cb (show_nat (nat i)) jc = Accept (?j0\<lparr>parse_buffer := [] @ show_nat (nat i), jp_state := s\<rparr>)"
    by (rule feed_nat) (use assms in \<open>simp_all add: step_first_digit clean_def\<close>)
  then show ?thesis using False by (simp add: show_int_def)
qed

lemma feed_literals:
  assumes "clean jc" and "jp_state jc \<in> {VA, AR}"
  shows "jfeed sf cb ''true'' jc = Accept (jc\<lparr>jp_type := JSON_T_TRUE, parse_buffer := ''true'', jp_state := OK\<rparr>)"
    and "jfeed sf cb ''false'' jc = Accept (jc\<lparr>jp_type := JSON_T_FALSE, parse_buffer := ''false'', jp_state := OK\<rparr>)"
    and "jfeed sf cb ''null'' jc = Accept (jc\<lparr>jp_type := JSON_T_NULL, parse_buffer := ''null'', jp_state := OK\<rparr>)"
  using assms
  by (auto simp: jsteps clean_def table_value table_rest do_action_def begin_literal_def jassert_def set_state_def char_codes)

section \<open>After a value\<close>

definition after_value :: "(string \<Rightarrow> 64 word) \<Rightarrow> 'c callback \<Rightarrow> 'c JSON_parser \<Rightarrow> 'c \<Rightarrow> 'c JSON_parser \<Rightarrow> bool" where
  "after_value sf cb jc0 c' jc \<longleftrightarrow>
     (\<exists>bc. jc = jc0\<lparr>before_comment_state := bc, jp_state := OK, ctx := c'\<rparr>)
   \<or> (\<exists>tok. pending_scalar sf tok jc0 jc \<and> cb (fst tok) (snd tok) (ctx jc0) = Accept c')"

lemma after_doneI: "after_value sf cb jc0 c' (jc0\<lparr>before_comment_state := bc, jp_state := OK, ctx := c'\<rparr>)"
  by (auto simp: after_value_def)

lemma after_value_cases:
  assumes "after_value sf cb jc0 c' jc"
  obtains (finished) bc where "jc = jc0\<lparr>before_comment_state := bc, jp_state := OK, ctx := c'\<rparr>"
  | (waiting) tok where "pending_scalar sf tok jc0 jc" and "cb (fst tok) (snd tok) (ctx jc0) = Accept c'"
  using assms unfolding after_value_def by blast

lemma after_report:
  assumes "after_value sf cb jc0 c' jc" and "clean jc0"
  shows "\<exists>bc ty s. parse_parse_buffer sf cb jc = Accept (jc0\<lparr>before_comment_state := bc, jp_type := ty, jp_state := s, ctx := c'\<rparr>)
    \<and> ty \<noteq> JSON_T_STRING \<and> s \<in> {OK, ZE, IT}"
  using assms(1)
proof (cases rule: after_value_cases)
  case (finished bc)
  then have "parse_parse_buffer sf cb jc = Accept (jc0\<lparr>before_comment_state := bc, jp_type := JSON_T_NONE, jp_state := OK, ctx := c'\<rparr>)"
    using assms(2) by (simp add: parse_parse_buffer_def parse_buffer_clear_def clean_def)
  then show ?thesis by blast
next
  case (waiting tok)
  obtain bc buf s where jc: "jc = jc0\<lparr>before_comment_state := bc, jp_type := fst tok, parse_buffer := buf, jp_state := s\<rparr>"
    and ty: "fst tok \<in> {JSON_T_NULL, JSON_T_FALSE, JSON_T_TRUE, JSON_T_INTEGER}" and "s \<in> {OK, ZE, IT}"
    using waiting(1) by (rule pending_scalarE)
  have "parse_parse_buffer sf cb jc = Accept (jc0\<lparr>before_comment_state := bc, jp_type := fst tok, jp_state := s, ctx := c'\<rparr>)"
    using pending_report [OF waiting(1) assms(2), of cb c'] waiting(2) assms(2) by (simp add: jc clean_def)
  moreover have "fst tok \<noteq> JSON_T_STRING" using ty by auto
  ultimately show ?thesis using \<open>s \<in> {OK, ZE, IT}\<close> by blast
qed

lemma after_value_flags:
  assumes "after_value sf cb jc0 c' jc" and "clean jc0"
  shows "\<not> escaped jc" "\<not> comment jc" "modes jc = modes jc0" "depth jc = depth jc0" "allow_comments jc" "jp_state jc \<in> {OK, ZE, IT}" "parse_buffer jc = [] \<or> jp_type jc \<noteq> JSON_T_NONE"
  using assms(1)
  by (cases rule: after_value_cases; use assms(2) in \<open>auto simp: clean_def elim!: pending_scalarE\<close>)+

text \<open>A delimiter after a value performs its action on a buffer that ends with the delimiter.\<close>

lemma after_delimiter:
  assumes "after_value sf cb jc0 c' jc" and "clean jc0" and "char_class (of_char d) = Some cl"
    and "(cl, a) \<in> {(C_COMMA, A3), (C_RSQRB, A7), (C_RCURB, A8), (C_SLASH, CB)}"
  shows "jstep sf cb jc d = do_action sf cb a (jc\<lparr>parse_buffer := parse_buffer jc @ [d]\<rparr>)"
  using after_value_flags [OF assms(1,2)] assms(3,4) table_number_end(3-6) [of "jp_state jc"]
  by (auto simp: jstep_def JSON_parser_char_def buffer_char_def parse_buffer_push_back_char_def char_of_back)

lemma pop_pushed: "parse_buffer_pop_back_char (jc\<lparr>parse_buffer := parse_buffer jc @ [d]\<rparr>) = Accept jc"
  by (simp add: parse_buffer_pop_back_char_def jassert_def)

lemma after_blank:
  assumes "blank b" and "after_value sf cb jc0 c' jc" and c0: "clean jc0" and m: "hd (modes jc0) \<in> {MODE_ARRAY, MODE_OBJECT}"
  shows "\<exists>jc'. jfeed sf cb b jc = Accept jc' \<and> after_value sf cb jc0 c' jc'"
proof -
  have fin: "\<exists>jc'. jfeed sf cb b (jc0\<lparr>before_comment_state := bc, jp_state := OK, ctx := c'\<rparr>) = Accept jc' \<and> after_value sf cb jc0 c' jc'"
    if "blank b" for b bc
  proof -
    let ?j = "jc0\<lparr>before_comment_state := bc, jp_state := OK, ctx := c'\<rparr>"
    have "clean ?j" "at_gap ?j" using c0 m by (auto simp: clean_def at_gap_def)
    from feed_blank [OF that this, of sf cb] obtain bc' where f: "jfeed sf cb b ?j = Accept (?j\<lparr>before_comment_state := bc'\<rparr>)" by blast
    have "?j\<lparr>before_comment_state := bc'\<rparr> = jc0\<lparr>before_comment_state := bc', jp_state := OK, ctx := c'\<rparr>" by simp
    then have "after_value sf cb jc0 c' (?j\<lparr>before_comment_state := bc'\<rparr>)" unfolding after_value_def by blast
    with f show ?thesis by blast
  qed
  from assms(1,2) show ?thesis
  proof (induction arbitrary: jc rule: blank.induct)
    case blank_nil
    then show ?case by simp
  next
    case (blank_white c s)
    from blank_white.prems show ?case
    proof (cases rule: after_value_cases)
      case (finished bc)
      have "blank (c # s)" using blank_white.hyps by (intro blank.blank_white)
      then show ?thesis unfolding finished by (rule fin)
    next
      case (waiting tok)
      then obtain j where j: "jstep sf cb jc c = Accept j" "pending_scalar sf tok jc0 j"
        using pending_white [OF waiting(1) c0 blank_white.hyps(1)] by blast
      then have "after_value sf cb jc0 c' j" using waiting(2) unfolding after_value_def by blast
      from blank_white.IH [OF this] j(1) show ?thesis by simp
    qed
  next
    case (blank_comment b s)
    have st: "jstep sf cb jc (CHR 0x2F) = do_action sf cb CB (jc\<lparr>parse_buffer := parse_buffer jc @ [CHR 0x2F]\<rparr>)"
      by (rule after_delimiter [OF blank_comment.prems c0, where cl = C_SLASH]) (simp_all add: ascii_classes)
    obtain bc ty s' where r: "parse_parse_buffer sf cb jc = Accept (jc0\<lparr>before_comment_state := bc, jp_type := ty, jp_state := s', ctx := c'\<rparr>)"
      "ty \<noteq> JSON_T_STRING" "s' \<in> {OK, ZE, IT}" using after_report [OF blank_comment.prems c0] by blast
    let ?j1 = "jc0\<lparr>before_comment_state := OK, jp_type := JSON_T_NONE, jp_state := C1, ctx := c', comment := True\<rparr>"
    have o': "jstep sf cb jc (CHR 0x2F) = Accept ?j1"
      unfolding st using r c0 m after_value_flags(5) [OF blank_comment.prems c0]
      by (auto simp: do_action_def open_comment_def pop_pushed clean_def jassert_def Let_def)
    have c: "jfeed sf cb (CHR 0x2A # b @ [CHR 0x2A, CHR 0x2F]) ?j1 = Accept (jc0\<lparr>before_comment_state := OK, jp_state := OK, ctx := c'\<rparr>)"
      using feed_comment [OF blank_comment.hyps(1,2), of ?j1 sf cb] c0 by (simp add: clean_def)
    have e: "CHR 0x2F # CHR 0x2A # b @ CHR 0x2A # CHR 0x2F # s = [CHR 0x2F] @ (CHR 0x2A # b @ [CHR 0x2A, CHR 0x2F]) @ s" by simp
    show ?case unfolding e jfeed_append using o' c fin [OF blank_comment.hyps(3), of OK] by simp
  qed
qed

section \<open>Reading a text\<close>

fun run_cb :: "'c callback \<Rightarrow> (JSON_type \<times> JSON_value) list \<Rightarrow> 'c \<Rightarrow> 'c option" where
  "run_cb cb [] c = Some c"
| "run_cb cb ((ty, v) # ts) c = (case cb ty v c of Accept c' \<Rightarrow> run_cb cb ts c' | _ \<Rightarrow> None)"

lemma run_cb_append: "run_cb cb (xs @ ys) c = Option.bind (run_cb cb xs c) (run_cb cb ys)"
  by (induction cb xs c rule: run_cb.induct) (auto split: jresult.splits)

lemma run_cb_ConsE:
  assumes "run_cb cb ((ty, v) # ts) c = Some c'"
  obtains c1 where "cb ty v c = Accept c1" and "run_cb cb ts c1 = Some c'"
  using assms by (auto split: jresult.splits)

lemma run_cb_snocE:
  assumes "run_cb cb (ts @ [(ty, v)]) c = Some c'"
  obtains c1 where "run_cb cb ts c = Some c1" and "cb ty v c1 = Accept c'"
  using assms by (auto simp: run_cb_append split: jresult.splits elim!: bind_eq_Some_conv [THEN iffD1, elim_format])

text \<open>What reading a value, the rest of an array and the rest of an object do.\<close>

definition value_read :: "(string \<Rightarrow> 64 word) \<Rightarrow> 'c callback \<Rightarrow> JSON_Value_t \<Rightarrow> string \<Rightarrow> bool" where
  "value_read sf cb v t \<longleftrightarrow> (\<forall>jc c'. clean jc \<longrightarrow>
     (jp_state jc \<in> {VA, AR} \<and> hd (modes jc) \<in> {MODE_ARRAY, MODE_OBJECT}) \<or> (jp_state jc = GO \<and> is_container v) \<longrightarrow>
     int (length (modes jc) + nesting v) \<le> depth jc \<longrightarrow> run_cb cb (tokens_of v) (ctx jc) = Some c' \<longrightarrow>
     (\<exists>jc'. jfeed sf cb t jc = Accept jc' \<and> after_value sf cb jc c' jc'
        \<and> (is_container v \<longrightarrow> (\<exists>bc. jc' = jc\<lparr>before_comment_state := bc, jp_state := OK, ctx := c'\<rparr>))))"

definition elems_read :: "(string \<Rightarrow> 64 word) \<Rightarrow> 'c callback \<Rightarrow> JSON_Value_t list \<Rightarrow> string \<Rightarrow> bool" where
  "elems_read sf cb vs e \<longleftrightarrow> (\<forall>jc c' ms. clean jc \<longrightarrow> jp_state jc \<in> {VA, AR} \<longrightarrow> modes jc = MODE_ARRAY # ms \<longrightarrow>
     int (length (modes jc) + foldr (\<lambda>v k. max (nesting v) k) vs 0) \<le> depth jc \<longrightarrow>
     run_cb cb (concat (map tokens_of vs) @ [(JSON_T_ARRAY_END, V_none)]) (ctx jc) = Some c' \<longrightarrow>
     (\<exists>bc. jfeed sf cb e jc = Accept (jc\<lparr>before_comment_state := bc, jp_state := OK, modes := ms, ctx := c'\<rparr>)))"

definition field_tokens :: "(string \<times> JSON_Value_t) list \<Rightarrow> (JSON_type \<times> JSON_value) list" where
  "field_tokens fs = concat (map (\<lambda>f. (JSON_T_KEY, V_str (fst f)) # tokens_of (snd f)) fs)"

definition members_read :: "(string \<Rightarrow> 64 word) \<Rightarrow> 'c callback \<Rightarrow> (string \<times> JSON_Value_t) list \<Rightarrow> string \<Rightarrow> bool" where
  "members_read sf cb fs m \<longleftrightarrow> (\<forall>jc c' ms. clean jc \<longrightarrow> jp_state jc \<in> {OB, KE} \<longrightarrow> modes jc = MODE_KEY # ms \<longrightarrow>
     int (length (modes jc) + foldr (\<lambda>f k. max (nesting (snd f)) k) fs 0) \<le> depth jc \<longrightarrow>
     run_cb cb (field_tokens fs @ [(JSON_T_OBJECT_END, V_none)]) (ctx jc) = Some c' \<longrightarrow>
     (\<exists>bc. jfeed sf cb m jc = Accept (jc\<lparr>before_comment_state := bc, jp_state := OK, modes := ms, ctx := c'\<rparr>)))"

lemma pending_literalI:
  "jc = jc0\<lparr>before_comment_state := bc, jp_type := fst tok, parse_buffer := buf, jp_state := s\<rparr> \<Longrightarrow>
   fst tok \<in> {JSON_T_NULL, JSON_T_FALSE, JSON_T_TRUE} \<Longrightarrow> snd tok = V_none \<Longrightarrow> s = OK \<Longrightarrow> pending_scalar sf tok jc0 jc"
  unfolding pending_scalar_def by blast

lemma pending_intI:
  "jc = jc0\<lparr>before_comment_state := bc, jp_type := fst tok, parse_buffer := buf, jp_state := s\<rparr> \<Longrightarrow>
   fst tok = JSON_T_INTEGER \<Longrightarrow> s \<in> {OK, ZE, IT} \<Longrightarrow> int64 i \<Longrightarrow> snd tok = V_integer i \<Longrightarrow> buf = show_int i @ w \<Longrightarrow> list_all json_white w
   \<Longrightarrow> pending_scalar sf tok jc0 jc"
  unfolding pending_scalar_def by blast

lemma pending_now:
  assumes "jc' = jc\<lparr>jp_type := ty, parse_buffer := buf, jp_state := OK\<rparr>" and "ty \<in> {JSON_T_NULL, JSON_T_FALSE, JSON_T_TRUE}"
  shows "pending_scalar sf (ty, V_none) jc jc'"
  by (rule pending_literalI [where bc = "before_comment_state jc" and buf = buf and s = OK]) (use assms in simp_all)

lemma read_literal:
  assumes "\<And>jc. clean jc \<Longrightarrow> jp_state jc \<in> {VA, AR} \<Longrightarrow> jfeed sf cb t jc = Accept (jc\<lparr>jp_type := ty, parse_buffer := t, jp_state := OK\<rparr>)"
    and "ty \<in> {JSON_T_NULL, JSON_T_FALSE, JSON_T_TRUE}" and "tokens_of v = [(ty, V_none)]" and "\<not> is_container v"
  shows "value_read sf cb v t"
  unfolding value_read_def
proof (intro allI impI)
  fix jc c'
  assume c: "clean jc" and s: "(jp_state jc \<in> {VA, AR} \<and> hd (modes jc) \<in> {MODE_ARRAY, MODE_OBJECT}) \<or> (jp_state jc = GO \<and> is_container v)"
    and r: "run_cb cb (tokens_of v) (ctx jc) = Some c'"
  let ?j = "jc\<lparr>jp_type := ty, parse_buffer := t, jp_state := OK\<rparr>"
  have "cb ty V_none (ctx jc) = Accept c'" using r by (simp add: assms(3) split: jresult.splits)
  moreover have "pending_scalar sf (ty, V_none) jc ?j" using assms(2) by (intro pending_now) simp_all
  ultimately have "after_value sf cb jc c' ?j" unfolding after_value_def by force
  moreover have "jfeed sf cb t jc = Accept ?j" using s assms(1) [OF c] assms(4) by blast
  ultimately show "\<exists>jc'. jfeed sf cb t jc = Accept jc' \<and> after_value sf cb jc c' jc'
        \<and> (is_container v \<longrightarrow> (\<exists>bc. jc' = jc\<lparr>before_comment_state := bc, jp_state := OK, ctx := c'\<rparr>))"
    using assms(4) by blast
qed

lemma read_int:
  assumes "int64 i" shows "value_read sf cb (JSON_int i) (show_int i)"
  unfolding value_read_def
proof (intro allI impI)
  fix jc c'
  assume c: "clean jc" and s: "(jp_state jc \<in> {VA, AR} \<and> hd (modes jc) \<in> {MODE_ARRAY, MODE_OBJECT}) \<or> (jp_state jc = GO \<and> is_container (JSON_int i))"
    and r: "run_cb cb (tokens_of (JSON_int i)) (ctx jc) = Some c'"
  from s have "jp_state jc \<in> {VA, AR}" by (simp add: is_container_def)
  then obtain st where st: "st \<in> {ZE, IT}" "jfeed sf cb (show_int i) jc = Accept (jc\<lparr>jp_type := JSON_T_INTEGER, parse_buffer := show_int i, jp_state := st\<rparr>)"
    using feed_int [OF c] by blast
  let ?j = "jc\<lparr>jp_type := JSON_T_INTEGER, parse_buffer := show_int i, jp_state := st\<rparr>"
  have "pending_scalar sf (JSON_T_INTEGER, V_integer i) jc ?j"
    by (rule pending_intI [where bc = "before_comment_state jc" and s = st and w = "[]" and i = i]) (use assms st(1) in auto)
  moreover have "cb JSON_T_INTEGER (V_integer i) (ctx jc) = Accept c'" using r by (simp split: jresult.splits)
  ultimately have "after_value sf cb jc c' ?j" unfolding after_value_def by force
  with st(2) show "\<exists>jc'. jfeed sf cb (show_int i) jc = Accept jc' \<and> after_value sf cb jc c' jc'
        \<and> (is_container (JSON_int i) \<longrightarrow> (\<exists>bc. jc' = jc\<lparr>before_comment_state := bc, jp_state := OK, ctx := c'\<rparr>))"
    by (auto simp: is_container_def)
qed

lemma read_string:
  assumes "string_chars s t" shows "value_read sf cb (JSON_string s) (quoted t)"
  unfolding value_read_def
proof (intro allI impI)
  fix jc c'
  assume c: "clean jc" and st: "(jp_state jc \<in> {VA, AR} \<and> hd (modes jc) \<in> {MODE_ARRAY, MODE_OBJECT}) \<or> (jp_state jc = GO \<and> is_container (JSON_string s))"
    and r: "run_cb cb (tokens_of (JSON_string s)) (ctx jc) = Some c'"
  let ?j = "jc\<lparr>jp_state := OK, ctx := c'\<rparr>"
  have "cb JSON_T_STRING (V_str s) (ctx jc) = Accept c'" using r by (simp split: jresult.splits)
  with st have "jfeed sf cb (quoted t) jc = Accept ?j" by (intro feed_string [OF assms c]) (auto simp: is_container_def)
  moreover have "?j = jc\<lparr>before_comment_state := before_comment_state jc, jp_state := OK, ctx := c'\<rparr>" by simp
  then have "after_value sf cb jc c' ?j" unfolding after_value_def by blast
  ultimately show "\<exists>jc'. jfeed sf cb (quoted t) jc = Accept jc' \<and> after_value sf cb jc c' jc'
        \<and> (is_container (JSON_string s) \<longrightarrow> (\<exists>bc. jc' = jc\<lparr>before_comment_state := bc, jp_state := OK, ctx := c'\<rparr>))"
    by (auto simp: is_container_def)
qed

section \<open>Arrays and objects\<close>

text \<open>Opening a bracket or a brace.\<close>

lemma step_open:
  assumes "clean jc" and "jp_state jc \<in> {VA, AR, GO}" and "int (length (modes jc)) < depth jc"
  shows "cb JSON_T_ARRAY_BEGIN V_none (ctx jc) = Accept c1 \<Longrightarrow>
      jstep sf cb jc (CHR 0x5B) = Accept (jc\<lparr>jp_state := AR, modes := MODE_ARRAY # modes jc, ctx := c1\<rparr>)"
    and "cb JSON_T_OBJECT_BEGIN V_none (ctx jc) = Accept c1 \<Longrightarrow>
      jstep sf cb jc (CHR 0x7B) = Accept (jc\<lparr>jp_state := OB, modes := MODE_KEY # modes jc, ctx := c1\<rparr>)"
  using assms
  by (auto simp: jsteps clean_def table_value do_action_def begin_nested_def parse_buffer_pop_back_char_def jassert_def
      call_def push_def lift_mode_def)

text \<open>The delimiters after a value.\<close>

lemma step_comma:
  assumes a: "after_value sf cb jc0 c' jc" and c: "clean jc0"
  shows "modes jc0 = MODE_ARRAY # ms \<Longrightarrow> \<exists>bc. jstep sf cb jc (CHR 0x2C) = Accept (jc0\<lparr>before_comment_state := bc, jp_state := VA, ctx := c'\<rparr>)"
    and "modes jc0 = MODE_OBJECT # ms \<Longrightarrow> int (length (modes jc0)) \<le> depth jc0 \<Longrightarrow>
      \<exists>bc. jstep sf cb jc (CHR 0x2C) = Accept (jc0\<lparr>before_comment_state := bc, jp_state := KE, modes := MODE_KEY # ms, ctx := c'\<rparr>)"
proof -
  have st: "jstep sf cb jc (CHR 0x2C) = do_action sf cb A3 (jc\<lparr>parse_buffer := parse_buffer jc @ [CHR 0x2C]\<rparr>)"
    by (rule after_delimiter [OF a c, where cl = C_COMMA]) (simp_all add: ascii_classes)
  obtain bc ty s where r: "parse_parse_buffer sf cb jc = Accept (jc0\<lparr>before_comment_state := bc, jp_type := ty, jp_state := s, ctx := c'\<rparr>)"
    "ty \<noteq> JSON_T_STRING" using after_report [OF a c] by blast
  show "\<exists>bc. jstep sf cb jc (CHR 0x2C) = Accept (jc0\<lparr>before_comment_state := bc, jp_state := VA, ctx := c'\<rparr>)"
    if "modes jc0 = MODE_ARRAY # ms"
    unfolding st using r that c by (intro exI [of _ bc]) (simp add: do_action_def do_comma_def pop_pushed jassert_def set_state_def clean_def)
  show "\<exists>bc. jstep sf cb jc (CHR 0x2C) = Accept (jc0\<lparr>before_comment_state := bc, jp_state := KE, modes := MODE_KEY # ms, ctx := c'\<rparr>)"
    if "modes jc0 = MODE_OBJECT # ms" "int (length (modes jc0)) \<le> depth jc0"
    unfolding st using r that c
    by (intro exI [of _ bc]) (simp add: do_action_def do_comma_def pop_pushed jassert_def set_state_def clean_def pop_def push_def lift_mode_def)
qed

lemma step_close:
  assumes a: "after_value sf cb jc0 c' jc" and c: "clean jc0" and cb: "cb ty V_none c' = Accept c''"
    and k: "(ty, m, d, cl, ac) \<in> {(JSON_T_ARRAY_END, MODE_ARRAY, CHR 0x5D, C_RSQRB, A7), (JSON_T_OBJECT_END, MODE_OBJECT, CHR 0x7D, C_RCURB, A8)}"
    and m: "modes jc0 = m # ms"
  shows "\<exists>bc. jstep sf cb jc d = Accept (jc0\<lparr>before_comment_state := bc, jp_state := OK, modes := ms, ctx := c''\<rparr>)"
proof -
  have st: "jstep sf cb jc d = do_action sf cb ac (jc\<lparr>parse_buffer := parse_buffer jc @ [d]\<rparr>)"
    by (rule after_delimiter [OF a c, where cl = cl]) (use k in \<open>auto simp: ascii_classes\<close>)
  obtain bc t s where r: "parse_parse_buffer sf cb jc = Accept (jc0\<lparr>before_comment_state := bc, jp_type := t, jp_state := s, ctx := c'\<rparr>)"
    using after_report [OF a c] by blast
  have "do_action sf cb ac (jc\<lparr>parse_buffer := parse_buffer jc @ [d]\<rparr>) = end_nonempty sf cb ty m (jc\<lparr>parse_buffer := parse_buffer jc @ [d]\<rparr>)"
    using k by (auto simp: do_action_def)
  then show ?thesis unfolding st using r m cb c
    by (intro exI [of _ bc]) (simp add: end_nonempty_def pop_pushed call_def pop_def lift_mode_def set_state_def clean_def)
qed

lemma clean_push: "clean jc \<Longrightarrow> clean (jc\<lparr>jp_state := s, modes := m # ms, ctx := c\<rparr>)"
  by (simp add: clean_def)

lemma read_finished:
  assumes "jfeed sf cb t jc = Accept (jc\<lparr>before_comment_state := bc, jp_state := OK, ctx := c'\<rparr>)"
  shows "\<exists>jc'. jfeed sf cb t jc = Accept jc' \<and> after_value sf cb jc c' jc'
    \<and> (p \<longrightarrow> (\<exists>bc. jc' = jc\<lparr>before_comment_state := bc, jp_state := OK, ctx := c'\<rparr>))"
proof (intro exI conjI impI)
  show "after_value sf cb jc c' (jc\<lparr>before_comment_state := bc, jp_state := OK, ctx := c'\<rparr>)" by (rule after_doneI)
qed (rule assms, rule refl)

lemma read_array0:
  assumes "blank b" shows "value_read sf cb (JSON_array []) (CHR 0x5B # b @ [CHR 0x5D])"
  unfolding value_read_def
proof (intro allI impI)
  fix jc c'
  assume c: "clean jc" and s: "(jp_state jc \<in> {VA, AR} \<and> hd (modes jc) \<in> {MODE_ARRAY, MODE_OBJECT}) \<or> (jp_state jc = GO \<and> is_container (JSON_array []))"
    and d: "int (length (modes jc) + nesting (JSON_array [])) \<le> depth jc" and r: "run_cb cb (tokens_of (JSON_array [])) (ctx jc) = Some c'"
  obtain c1 where c1: "cb JSON_T_ARRAY_BEGIN V_none (ctx jc) = Accept c1" "cb JSON_T_ARRAY_END V_none c1 = Accept c'"
    using r by (auto split: jresult.splits)
  have js: "jp_state jc \<in> {VA, AR, GO}" using s by blast
  have dd: "int (length (modes jc)) < depth jc" using d by simp
  let ?j1 = "jc\<lparr>jp_state := AR, modes := MODE_ARRAY # modes jc, ctx := c1\<rparr>"
  have 1: "jstep sf cb jc (CHR 0x5B) = Accept ?j1" by (rule step_open(1) [where cb = cb, OF c js dd c1(1)])
  have cj: "clean ?j1" using c by (rule clean_push)
  have "at_gap ?j1" by (simp add: at_gap_def)
  from feed_blank [OF assms cj this, of sf cb] obtain bc where 2: "jfeed sf cb b ?j1 = Accept (?j1\<lparr>before_comment_state := bc\<rparr>)" by blast
  let ?j2 = "jc\<lparr>before_comment_state := bc, jp_state := OK, ctx := c'\<rparr>"
  have 3: "jstep sf cb (?j1\<lparr>before_comment_state := bc\<rparr>) (CHR 0x5D) = Accept ?j2"
    using c c1(2) by (simp add: jsteps clean_def table_rest do_action_def end_nonempty_def parse_buffer_pop_back_char_def jassert_def
        parse_parse_buffer_def parse_buffer_clear_def call_def pop_def lift_mode_def set_state_def)
  have "jfeed sf cb (CHR 0x5B # b @ [CHR 0x5D]) jc = Accept ?j2" by (simp add: 1 2 3 jfeed_append)
  then show "\<exists>jc'. jfeed sf cb (CHR 0x5B # b @ [CHR 0x5D]) jc = Accept jc' \<and> after_value sf cb jc c' jc'
        \<and> (is_container (JSON_array []) \<longrightarrow> (\<exists>bc. jc' = jc\<lparr>before_comment_state := bc, jp_state := OK, ctx := c'\<rparr>))"
    by (rule read_finished)
qed

lemma read_object0:
  assumes "blank b" shows "value_read sf cb (JSON_object []) (CHR 0x7B # b @ [CHR 0x7D])"
  unfolding value_read_def
proof (intro allI impI)
  fix jc c'
  assume c: "clean jc" and s: "(jp_state jc \<in> {VA, AR} \<and> hd (modes jc) \<in> {MODE_ARRAY, MODE_OBJECT}) \<or> (jp_state jc = GO \<and> is_container (JSON_object []))"
    and d: "int (length (modes jc) + nesting (JSON_object [])) \<le> depth jc" and r: "run_cb cb (tokens_of (JSON_object [])) (ctx jc) = Some c'"
  obtain c1 where c1: "cb JSON_T_OBJECT_BEGIN V_none (ctx jc) = Accept c1" "cb JSON_T_OBJECT_END V_none c1 = Accept c'"
    using r by (auto split: jresult.splits)
  have js: "jp_state jc \<in> {VA, AR, GO}" using s by blast
  have dd: "int (length (modes jc)) < depth jc" using d by simp
  let ?j1 = "jc\<lparr>jp_state := OB, modes := MODE_KEY # modes jc, ctx := c1\<rparr>"
  have 1: "jstep sf cb jc (CHR 0x7B) = Accept ?j1" by (rule step_open(2) [where cb = cb, OF c js dd c1(1)])
  have cj: "clean ?j1" using c by (rule clean_push)
  have "at_gap ?j1" by (simp add: at_gap_def)
  from feed_blank [OF assms cj this, of sf cb] obtain bc where 2: "jfeed sf cb b ?j1 = Accept (?j1\<lparr>before_comment_state := bc\<rparr>)" by blast
  let ?j2 = "jc\<lparr>before_comment_state := bc, jp_state := OK, ctx := c'\<rparr>"
  have 3: "jstep sf cb (?j1\<lparr>before_comment_state := bc\<rparr>) (CHR 0x7D) = Accept ?j2"
    using c c1(2) by (simp add: jsteps clean_def table_rest do_action_def end_empty_object_def
        parse_buffer_clear_def call_def pop_def lift_mode_def)
  have "jfeed sf cb (CHR 0x7B # b @ [CHR 0x7D]) jc = Accept ?j2" by (simp add: 1 2 3 jfeed_append)
  then show "\<exists>jc'. jfeed sf cb (CHR 0x7B # b @ [CHR 0x7D]) jc = Accept jc' \<and> after_value sf cb jc c' jc'
        \<and> (is_container (JSON_object []) \<longrightarrow> (\<exists>bc. jc' = jc\<lparr>before_comment_state := bc, jp_state := OK, ctx := c'\<rparr>))"
    by (rule read_finished)
qed

lemma read_array:
  assumes "elems_read sf cb vs e" shows "value_read sf cb (JSON_array vs) (CHR 0x5B # e)"
  unfolding value_read_def
proof (intro allI impI)
  fix jc c'
  assume c: "clean jc" and s: "(jp_state jc \<in> {VA, AR} \<and> hd (modes jc) \<in> {MODE_ARRAY, MODE_OBJECT}) \<or> (jp_state jc = GO \<and> is_container (JSON_array vs))"
    and d: "int (length (modes jc) + nesting (JSON_array vs)) \<le> depth jc" and r: "run_cb cb (tokens_of (JSON_array vs)) (ctx jc) = Some c'"
  obtain c1 where c1: "cb JSON_T_ARRAY_BEGIN V_none (ctx jc) = Accept c1"
    "run_cb cb (concat (map tokens_of vs) @ [(JSON_T_ARRAY_END, V_none)]) c1 = Some c'"
    using r by (auto split: jresult.splits)
  have js: "jp_state jc \<in> {VA, AR, GO}" using s by blast
  have dd: "int (length (modes jc)) < depth jc" using d by simp
  let ?j1 = "jc\<lparr>jp_state := AR, modes := MODE_ARRAY # modes jc, ctx := c1\<rparr>"
  have 1: "jstep sf cb jc (CHR 0x5B) = Accept ?j1" by (rule step_open(1) [where cb = cb, OF c js dd c1(1)])
  have cj: "clean ?j1" using c by (rule clean_push)
  have "\<exists>bc. jfeed sf cb e ?j1 = Accept (?j1\<lparr>before_comment_state := bc, jp_state := OK, modes := modes jc, ctx := c'\<rparr>)"
    by (rule assms [unfolded elems_read_def, rule_format, OF cj]) (use d c1(2) in simp_all)
  then obtain bc where "jfeed sf cb e ?j1 = Accept (jc\<lparr>before_comment_state := bc, jp_state := OK, ctx := c'\<rparr>)" by auto
  with 1 have "jfeed sf cb (CHR 0x5B # e) jc = Accept (jc\<lparr>before_comment_state := bc, jp_state := OK, ctx := c'\<rparr>)" by simp
  then show "\<exists>jc'. jfeed sf cb (CHR 0x5B # e) jc = Accept jc' \<and> after_value sf cb jc c' jc'
        \<and> (is_container (JSON_array vs) \<longrightarrow> (\<exists>bc. jc' = jc\<lparr>before_comment_state := bc, jp_state := OK, ctx := c'\<rparr>))"
    by (rule read_finished)
qed

lemma read_object:
  assumes "members_read sf cb fs m" shows "value_read sf cb (JSON_object fs) (CHR 0x7B # m)"
  unfolding value_read_def
proof (intro allI impI)
  fix jc c'
  assume c: "clean jc" and s: "(jp_state jc \<in> {VA, AR} \<and> hd (modes jc) \<in> {MODE_ARRAY, MODE_OBJECT}) \<or> (jp_state jc = GO \<and> is_container (JSON_object fs))"
    and d: "int (length (modes jc) + nesting (JSON_object fs)) \<le> depth jc" and r: "run_cb cb (tokens_of (JSON_object fs)) (ctx jc) = Some c'"
  obtain c1 where c1: "cb JSON_T_OBJECT_BEGIN V_none (ctx jc) = Accept c1"
    "run_cb cb (field_tokens fs @ [(JSON_T_OBJECT_END, V_none)]) c1 = Some c'"
    using r by (auto simp: field_tokens_def split: jresult.splits)
  have js: "jp_state jc \<in> {VA, AR, GO}" using s by blast
  have dd: "int (length (modes jc)) < depth jc" using d by simp
  let ?j1 = "jc\<lparr>jp_state := OB, modes := MODE_KEY # modes jc, ctx := c1\<rparr>"
  have 1: "jstep sf cb jc (CHR 0x7B) = Accept ?j1" by (rule step_open(2) [where cb = cb, OF c js dd c1(1)])
  have cj: "clean ?j1" using c by (rule clean_push)
  have "\<exists>bc. jfeed sf cb m ?j1 = Accept (?j1\<lparr>before_comment_state := bc, jp_state := OK, modes := modes jc, ctx := c'\<rparr>)"
    by (rule assms [unfolded members_read_def, rule_format, OF cj]) (use d c1(2) in simp_all)
  then obtain bc where "jfeed sf cb m ?j1 = Accept (jc\<lparr>before_comment_state := bc, jp_state := OK, ctx := c'\<rparr>)" by auto
  with 1 have "jfeed sf cb (CHR 0x7B # m) jc = Accept (jc\<lparr>before_comment_state := bc, jp_state := OK, ctx := c'\<rparr>)" by simp
  then show "\<exists>jc'. jfeed sf cb (CHR 0x7B # m) jc = Accept jc' \<and> after_value sf cb jc c' jc'
        \<and> (is_container (JSON_object fs) \<longrightarrow> (\<exists>bc. jc' = jc\<lparr>before_comment_state := bc, jp_state := OK, ctx := c'\<rparr>))"
    by (rule read_finished)
qed

text \<open>One element: blank, value, blank; then a comma or the end.\<close>

lemma read_blank_value:
  assumes b1: "blank b1" and v: "value_read sf cb v t" and b2: "blank b2" and c: "clean jc" and s: "jp_state jc \<in> {VA, AR}"
    and m: "hd (modes jc) \<in> {MODE_ARRAY, MODE_OBJECT}" and d: "int (length (modes jc) + nesting v) \<le> depth jc"
    and r: "run_cb cb (tokens_of v) (ctx jc) = Some c1"
  shows "\<exists>bc j. jfeed sf cb (b1 @ t @ b2) jc = Accept j \<and> after_value sf cb (jc\<lparr>before_comment_state := bc\<rparr>) c1 j"
proof -
  have "at_gap jc" using s m by (auto simp: at_gap_def)
  from feed_blank [OF b1 c this, of sf cb] obtain bc where 1: "jfeed sf cb b1 jc = Accept (jc\<lparr>before_comment_state := bc\<rparr>)" by blast
  let ?j1 = "jc\<lparr>before_comment_state := bc\<rparr>"
  have c1: "clean ?j1" using c by simp
  have "(jp_state ?j1 \<in> {VA, AR} \<and> hd (modes ?j1) \<in> {MODE_ARRAY, MODE_OBJECT}) \<or> (jp_state ?j1 = GO \<and> is_container v)" using s m by simp
  moreover have "int (length (modes ?j1) + nesting v) \<le> depth ?j1" "run_cb cb (tokens_of v) (ctx ?j1) = Some c1" using d r by simp_all
  ultimately obtain j where 2: "jfeed sf cb t ?j1 = Accept j" "after_value sf cb ?j1 c1 j"
    using v [unfolded value_read_def, rule_format, OF c1] by blast
  have m1: "hd (modes ?j1) \<in> {MODE_ARRAY, MODE_OBJECT}" using m by simp
  from after_blank [OF b2 2(2) c1 m1] obtain j' where 3: "jfeed sf cb b2 j = Accept j'" "after_value sf cb ?j1 c1 j'" by blast
  show ?thesis using 1 2(1) 3 by (intro exI [of _ bc] exI [of _ j']) (simp add: jfeed_append)
qed

lemma read_elems_last:
  assumes b1: "blank b1" and v: "value_read sf cb v t" and b2: "blank b2"
  shows "elems_read sf cb [v] (b1 @ t @ b2 @ [CHR 0x5D])"
  unfolding elems_read_def
proof (intro allI impI)
  fix jc c' ms
  assume c: "clean jc" and s: "jp_state jc \<in> {VA, AR}" and m: "modes jc = MODE_ARRAY # ms"
    and d: "int (length (modes jc) + foldr (\<lambda>v k. max (nesting v) k) [v] 0) \<le> depth jc"
    and r: "run_cb cb (concat (map tokens_of [v]) @ [(JSON_T_ARRAY_END, V_none)]) (ctx jc) = Some c'"
  obtain c1 where c1: "run_cb cb (tokens_of v) (ctx jc) = Some c1" "cb JSON_T_ARRAY_END V_none c1 = Accept c'"
    using r by (auto elim!: run_cb_snocE)
  have "hd (modes jc) \<in> {MODE_ARRAY, MODE_OBJECT}" "int (length (modes jc) + nesting v) \<le> depth jc" using m d by simp_all
  from read_blank_value [OF b1 v b2 c s this c1(1)] obtain bc j
    where 1: "jfeed sf cb (b1 @ t @ b2) jc = Accept j" "after_value sf cb (jc\<lparr>before_comment_state := bc\<rparr>) c1 j" by blast
  obtain bc' where 2: "jstep sf cb j (CHR 0x5D) = Accept (jc\<lparr>before_comment_state := bc', jp_state := OK, modes := ms, ctx := c'\<rparr>)"
    using step_close [OF 1(2), where ty = JSON_T_ARRAY_END and m = MODE_ARRAY and d = "CHR 0x5D" and cl = C_RSQRB and ac = A7 and ms = ms, of c'] c c1(2) m
    by auto
  have e: "b1 @ t @ b2 @ [CHR 0x5D] = (b1 @ t @ b2) @ [CHR 0x5D]" by simp
  show "\<exists>bc. jfeed sf cb (b1 @ t @ b2 @ [CHR 0x5D]) jc = Accept (jc\<lparr>before_comment_state := bc, jp_state := OK, modes := ms, ctx := c'\<rparr>)"
    unfolding e jfeed_append [of sf cb "b1 @ t @ b2"] 1(1) by (intro exI [of _ bc']) (simp add: 2)
qed

lemma read_elems_more:
  assumes b1: "blank b1" and v: "value_read sf cb v t" and b2: "blank b2" and vs: "elems_read sf cb vs e"
  shows "elems_read sf cb (v # vs) (b1 @ t @ b2 @ CHR 0x2C # e)"
  unfolding elems_read_def
proof (intro allI impI)
  fix jc c' ms
  assume c: "clean jc" and s: "jp_state jc \<in> {VA, AR}" and m: "modes jc = MODE_ARRAY # ms"
    and d: "int (length (modes jc) + foldr (\<lambda>v k. max (nesting v) k) (v # vs) 0) \<le> depth jc"
    and r: "run_cb cb (concat (map tokens_of (v # vs)) @ [(JSON_T_ARRAY_END, V_none)]) (ctx jc) = Some c'"
  obtain c1 where c1: "run_cb cb (tokens_of v) (ctx jc) = Some c1"
    "run_cb cb (concat (map tokens_of vs) @ [(JSON_T_ARRAY_END, V_none)]) c1 = Some c'"
    using r by (cases "run_cb cb (tokens_of v) (ctx jc)") (simp_all add: run_cb_append)
  have "hd (modes jc) \<in> {MODE_ARRAY, MODE_OBJECT}" "int (length (modes jc) + nesting v) \<le> depth jc" using m d by simp_all
  from read_blank_value [OF b1 v b2 c s this c1(1)] obtain bc j
    where 1: "jfeed sf cb (b1 @ t @ b2) jc = Accept j" "after_value sf cb (jc\<lparr>before_comment_state := bc\<rparr>) c1 j" by blast
  obtain bc' where 2: "jstep sf cb j (CHR 0x2C) = Accept (jc\<lparr>before_comment_state := bc', jp_state := VA, ctx := c1\<rparr>)"
    using step_comma(1) [OF 1(2), where ms = ms] c m by auto
  let ?j2 = "jc\<lparr>before_comment_state := bc', jp_state := VA, ctx := c1\<rparr>"
  have cj: "clean ?j2" using c by (simp add: clean_def)
  have "\<exists>bc. jfeed sf cb e ?j2 = Accept (?j2\<lparr>before_comment_state := bc, jp_state := OK, modes := ms, ctx := c'\<rparr>)"
    by (rule vs [unfolded elems_read_def, rule_format, OF cj]) (use m d c1(2) in simp_all)
  then obtain bc'' where 3: "jfeed sf cb e ?j2 = Accept (jc\<lparr>before_comment_state := bc'', jp_state := OK, modes := ms, ctx := c'\<rparr>)" by auto
  have e: "b1 @ t @ b2 @ CHR 0x2C # e = (b1 @ t @ b2) @ CHR 0x2C # e" by simp
  show "\<exists>bc. jfeed sf cb (b1 @ t @ b2 @ CHR 0x2C # e) jc = Accept (jc\<lparr>before_comment_state := bc, jp_state := OK, modes := ms, ctx := c'\<rparr>)"
    unfolding e jfeed_append [of sf cb "b1 @ t @ b2"] 1(1) by (intro exI [of _ bc'']) (simp add: 2 3)
qed

text \<open>One member, up to the delimiter after its value.\<close>

lemma read_member:
  assumes b1: "blank b1" and k: "string_chars k kt" and b2: "blank b2" and b3: "blank b3" and v: "value_read sf cb v t" and b4: "blank b4"
    and c: "clean jc" and s: "jp_state jc \<in> {OB, KE}" and m: "modes jc = MODE_KEY # ms" and d: "int (length (modes jc) + nesting v) \<le> depth jc"
    and r: "run_cb cb ((JSON_T_KEY, V_str k) # tokens_of v) (ctx jc) = Some c1"
  shows "\<exists>bc c0 j. jfeed sf cb (b1 @ quoted kt @ b2 @ CHR 0x3A # b3 @ t @ b4) jc = Accept j
    \<and> after_value sf cb (jc\<lparr>jp_state := VA, modes := MODE_OBJECT # ms, ctx := c0, before_comment_state := bc\<rparr>) c1 j"
proof -
  obtain c0 where c0: "cb JSON_T_KEY (V_str k) (ctx jc) = Accept c0" "run_cb cb (tokens_of v) c0 = Some c1"
    using r by (rule run_cb_ConsE)
  have "at_gap jc" using s m by (auto simp: at_gap_def)
  from feed_blank [OF b1 c this, of sf cb] obtain bc1 where 1: "jfeed sf cb b1 jc = Accept (jc\<lparr>before_comment_state := bc1\<rparr>)" by blast
  have 2: "jfeed sf cb (quoted kt) (jc\<lparr>before_comment_state := bc1\<rparr>) = Accept (jc\<lparr>before_comment_state := bc1, jp_state := CO, ctx := c0\<rparr>)"
    using feed_key [OF k, of "jc\<lparr>before_comment_state := bc1\<rparr>" cb c0 sf] c s m c0(1) by simp
  let ?j2 = "jc\<lparr>before_comment_state := bc1, jp_state := CO, ctx := c0\<rparr>"
  have "clean ?j2" "at_gap ?j2" using c m by (simp_all add: clean_def at_gap_def)
  from feed_blank [OF b2 this, of sf cb] obtain bc2 where 3: "jfeed sf cb b2 ?j2 = Accept (?j2\<lparr>before_comment_state := bc2\<rparr>)" by blast
  let ?j4 = "jc\<lparr>jp_state := VA, modes := MODE_OBJECT # ms, ctx := c0, before_comment_state := bc2\<rparr>"
  have 4: "jstep sf cb (?j2\<lparr>before_comment_state := bc2\<rparr>) (CHR 0x3A) = Accept ?j4"
    using c m d by (simp add: jsteps clean_def table_rest do_action_def do_colon_def parse_buffer_pop_back_char_def jassert_def pop_def push_def lift_mode_def)
  have c4: "clean ?j4" "jp_state ?j4 \<in> {VA, AR}" "hd (modes ?j4) \<in> {MODE_ARRAY, MODE_OBJECT}" "int (length (modes ?j4) + nesting v) \<le> depth ?j4"
    "run_cb cb (tokens_of v) (ctx ?j4) = Some c1" using c m d c0(2) by (simp_all add: clean_def)
  obtain bc j where 5: "jfeed sf cb (b3 @ t @ b4) ?j4 = Accept j" "after_value sf cb (?j4\<lparr>before_comment_state := bc\<rparr>) c1 j"
    using read_blank_value [OF b3 v b4 c4] by blast
  have "?j4\<lparr>before_comment_state := bc\<rparr> = jc\<lparr>jp_state := VA, modes := MODE_OBJECT # ms, ctx := c0, before_comment_state := bc\<rparr>" by simp
  with 5(2) have a: "after_value sf cb (jc\<lparr>jp_state := VA, modes := MODE_OBJECT # ms, ctx := c0, before_comment_state := bc\<rparr>) c1 j" by (simp only:)
  have e: "b1 @ quoted kt @ b2 @ CHR 0x3A # b3 @ t @ b4 = b1 @ quoted kt @ b2 @ [CHR 0x3A] @ (b3 @ t @ b4)" by simp
  have "jfeed sf cb (b1 @ quoted kt @ b2 @ CHR 0x3A # b3 @ t @ b4) jc = Accept j"
    unfolding e jfeed_append [of sf cb b1] jfeed_append [of sf cb "quoted kt"] jfeed_append [of sf cb b2] jfeed_append [of sf cb "[CHR 0x3A]"]
    by (simp only: 1 2 3 4 5(1) jfeed.simps jbind.simps)
  with a show ?thesis by blast
qed

lemma read_members_last:
  assumes b: "blank b1" "string_chars k kt" "blank b2" "blank b3" "value_read sf cb v t" "blank b4"
  shows "members_read sf cb [(k, v)] (b1 @ quoted kt @ b2 @ CHR 0x3A # b3 @ t @ b4 @ [CHR 0x7D])"
  unfolding members_read_def
proof (intro allI impI)
  fix jc c' ms
  assume c: "clean jc" and s: "jp_state jc \<in> {OB, KE}" and m: "modes jc = MODE_KEY # ms"
    and d: "int (length (modes jc) + foldr (\<lambda>f k. max (nesting (snd f)) k) [(k, v)] 0) \<le> depth jc"
    and r: "run_cb cb (field_tokens [(k, v)] @ [(JSON_T_OBJECT_END, V_none)]) (ctx jc) = Some c'"
  obtain c1 where c1: "run_cb cb ((JSON_T_KEY, V_str k) # tokens_of v) (ctx jc) = Some c1" "cb JSON_T_OBJECT_END V_none c1 = Accept c'"
    using r by (auto simp: field_tokens_def elim!: run_cb_snocE [of cb "(JSON_T_KEY, V_str k) # tokens_of v", simplified])
  have d1: "int (length (modes jc) + nesting v) \<le> depth jc" using d by simp
  from read_member [OF b c s m d1 c1(1)] obtain bc c0 j
    where 1: "jfeed sf cb (b1 @ quoted kt @ b2 @ CHR 0x3A # b3 @ t @ b4) jc = Accept j"
      "after_value sf cb (jc\<lparr>jp_state := VA, modes := MODE_OBJECT # ms, ctx := c0, before_comment_state := bc\<rparr>) c1 j" by blast
  let ?j0 = "jc\<lparr>jp_state := VA, modes := MODE_OBJECT # ms, ctx := c0, before_comment_state := bc\<rparr>"
  have "clean ?j0" using c by (simp add: clean_def)
  from step_close [OF 1(2) this c1(2), where m = MODE_OBJECT and d = "CHR 0x7D" and cl = C_RCURB and ac = A8 and ms = ms]
  obtain bc' where 2: "jstep sf cb j (CHR 0x7D) = Accept (jc\<lparr>before_comment_state := bc', jp_state := OK, modes := ms, ctx := c'\<rparr>)" by auto
  have e: "b1 @ quoted kt @ b2 @ CHR 0x3A # b3 @ t @ b4 @ [CHR 0x7D] = (b1 @ quoted kt @ b2 @ CHR 0x3A # b3 @ t @ b4) @ [CHR 0x7D]" by simp
  show "\<exists>bc. jfeed sf cb (b1 @ quoted kt @ b2 @ CHR 0x3A # b3 @ t @ b4 @ [CHR 0x7D]) jc
      = Accept (jc\<lparr>before_comment_state := bc, jp_state := OK, modes := ms, ctx := c'\<rparr>)"
    unfolding e jfeed_append [of sf cb "b1 @ quoted kt @ b2 @ CHR 0x3A # b3 @ t @ b4"] 1(1) by (intro exI [of _ bc']) (simp add: 2)
qed

lemma read_members_more:
  assumes b: "blank b1" "string_chars k kt" "blank b2" "blank b3" "value_read sf cb v t" "blank b4" and fs: "members_read sf cb fs e"
  shows "members_read sf cb ((k, v) # fs) (b1 @ quoted kt @ b2 @ CHR 0x3A # b3 @ t @ b4 @ CHR 0x2C # e)"
  unfolding members_read_def
proof (intro allI impI)
  fix jc c' ms
  assume c: "clean jc" and s: "jp_state jc \<in> {OB, KE}" and m: "modes jc = MODE_KEY # ms"
    and d: "int (length (modes jc) + foldr (\<lambda>f k. max (nesting (snd f)) k) ((k, v) # fs) 0) \<le> depth jc"
    and r: "run_cb cb (field_tokens ((k, v) # fs) @ [(JSON_T_OBJECT_END, V_none)]) (ctx jc) = Some c'"
  have "run_cb cb (((JSON_T_KEY, V_str k) # tokens_of v) @ (field_tokens fs @ [(JSON_T_OBJECT_END, V_none)])) (ctx jc) = Some c'"
    using r by (simp add: field_tokens_def)
  then obtain c1 where c1: "run_cb cb ((JSON_T_KEY, V_str k) # tokens_of v) (ctx jc) = Some c1"
    "run_cb cb (field_tokens fs @ [(JSON_T_OBJECT_END, V_none)]) c1 = Some c'"
    unfolding run_cb_append [of cb "(JSON_T_KEY, V_str k) # tokens_of v"] by (meson bind_eq_Some_conv)
  have d1: "int (length (modes jc) + nesting v) \<le> depth jc" using d by simp
  from read_member [OF b c s m d1 c1(1)] obtain bc c0 j
    where 1: "jfeed sf cb (b1 @ quoted kt @ b2 @ CHR 0x3A # b3 @ t @ b4) jc = Accept j"
      "after_value sf cb (jc\<lparr>jp_state := VA, modes := MODE_OBJECT # ms, ctx := c0, before_comment_state := bc\<rparr>) c1 j" by blast
  let ?j0 = "jc\<lparr>jp_state := VA, modes := MODE_OBJECT # ms, ctx := c0, before_comment_state := bc\<rparr>"
  have cj: "clean ?j0" using c by (simp add: clean_def)
  have "modes ?j0 = MODE_OBJECT # ms" "int (length (modes ?j0)) \<le> depth ?j0" using m d by simp_all
  from step_comma(2) [OF 1(2) cj this] obtain bc' where
    2: "jstep sf cb j (CHR 0x2C) = Accept (jc\<lparr>before_comment_state := bc', jp_state := KE, modes := MODE_KEY # ms, ctx := c1\<rparr>)" by auto
  let ?j2 = "jc\<lparr>before_comment_state := bc', jp_state := KE, modes := MODE_KEY # ms, ctx := c1\<rparr>"
  have c2: "clean ?j2" using c by (simp add: clean_def)
  have "\<exists>bc. jfeed sf cb e ?j2 = Accept (?j2\<lparr>before_comment_state := bc, jp_state := OK, modes := ms, ctx := c'\<rparr>)"
    by (rule fs [unfolded members_read_def, rule_format, OF c2]) (use m d c1(2) in simp_all)
  then obtain bc'' where 3: "jfeed sf cb e ?j2 = Accept (jc\<lparr>before_comment_state := bc'', jp_state := OK, modes := ms, ctx := c'\<rparr>)" by auto
  have e: "b1 @ quoted kt @ b2 @ CHR 0x3A # b3 @ t @ b4 @ CHR 0x2C # e = (b1 @ quoted kt @ b2 @ CHR 0x3A # b3 @ t @ b4) @ CHR 0x2C # e" by simp
  show "\<exists>bc. jfeed sf cb (b1 @ quoted kt @ b2 @ CHR 0x3A # b3 @ t @ b4 @ CHR 0x2C # e) jc
      = Accept (jc\<lparr>before_comment_state := bc, jp_state := OK, modes := ms, ctx := c'\<rparr>)"
    unfolding e jfeed_append [of sf cb "b1 @ quoted kt @ b2 @ CHR 0x3A # b3 @ t @ b4"] 1(1) by (intro exI [of _ bc'']) (simp add: 2 3)
qed

text \<open>Every text of the grammar is read as its value.\<close>

lemma text_read:
  "json_text v t \<Longrightarrow> value_read sf cb v t"
  "elems_text vs e \<Longrightarrow> elems_read sf cb vs e"
  "members_text fs m \<Longrightarrow> members_read sf cb fs m"
proof (induction rule: json_text_elems_text_members_text.inducts)
  case text_null
  show ?case by (rule read_literal [OF feed_literals(3)]) (simp_all add: is_container_def)
next
  case text_true
  show ?case by (rule read_literal [OF feed_literals(1)]) (simp_all add: is_container_def)
next
  case text_false
  show ?case by (rule read_literal [OF feed_literals(2)]) (simp_all add: is_container_def)
qed (rule read_int read_string read_array0 read_array read_object0 read_object read_elems_last read_elems_more
      read_members_last read_members_more; assumption)+

lemma feed_chars_jfeed:
  assumes "CHR 0x00 \<notin> set s"
  shows "fst (feed_chars sf cb n s jc) = jfeed sf cb s jc"
  using assms
proof (induction s arbitrary: n jc)
  case (Cons c s)
  then have "c \<noteq> CHR 0x00" by auto
  with Cons show ?case by (cases "jstep sf cb jc c") (simp_all add: jstep_def)
qed simp

text \<open>A text the parser accepts has no NUL.\<close>

lemma nul_rejected: "jstep sf cb jc (CHR 0x00) = Reject"
  by (simp add: jstep_def JSON_parser_char_def char_class_def ascii_class_def)

lemma accepted_no_nul: "jfeed sf cb s jc = Accept jc' \<Longrightarrow> CHR 0x00 \<notin> set s"
proof (induction s arbitrary: jc)
  case (Cons c s)
  then show ?case using nul_rejected [of sf cb jc] by (cases "jstep sf cb jc c") auto
qed simp

lemma run_cb_tokens: "run_tokens pun ts info = Inr info' \<Longrightarrow> run_cb (token_callback pun) ts info = Some info'"
  by (induction pun ts info rule: run_tokens.induct) (auto simp: token_callback_def split: sum.splits)

lemma string_chars_no_nul: "string_chars s t \<Longrightarrow> no_nul s"
  by (induction rule: string_chars.induct) (auto simp: no_nul_def plain_char_def unescape_def split: if_splits)

lemma text_wf:
  "json_text v t \<Longrightarrow> json_wf v"
  "elems_text vs e \<Longrightarrow> list_all json_wf vs"
  "members_text fs m \<Longrightarrow> list_all (\<lambda>f. no_nul (fst f) \<and> json_wf (snd f)) fs"
  by (induction rule: json_text_elems_text_members_text.inducts) (simp_all add: string_chars_no_nul)

lemma file_read:
  assumes "file_text v s" and "nesting v \<le> 19" and "stack_need v \<le> STACK_SZ"
  shows "JSON_ParseFile sf pun (Some s) = Parsed v (JSON_Free v)"
  using assms(1)
proof cases
  case (1 b1 t b2)
  let ?cb = "token_callback pun"
  let ?i0 = "\<lparr>st = START, stack = [], mallocs = 0\<rparr>"
  let ?jc = "new_JSON_parser file_config ?i0"
  have c: "clean ?jc" by (simp add: clean_def new_JSON_parser_def file_config_def init_JSON_config_def Let_def)
  have g: "at_gap ?jc" "jp_state ?jc = GO" by (simp_all add: at_gap_def new_JSON_parser_def Let_def)
  from feed_blank [OF 1(2) c g(1), of sf ?cb] obtain bc where f1: "jfeed sf ?cb b1 ?jc = Accept (?jc\<lparr>before_comment_state := bc\<rparr>)" by blast
  let ?j1 = "?jc\<lparr>before_comment_state := bc\<rparr>"
  have c1: "clean ?j1" using c by simp
  let ?i1 = "built v ?i0"
  have "run_tokens pun (tokens_of v) ?i0 = Inr ?i1"
    using tokens_build [OF text_wf(1) [OF 1(3)], of pun] assms(3) by (simp add: builds_def)
  then have r: "run_cb ?cb (tokens_of v) (ctx ?j1) = Some ?i1" by (simp add: run_cb_tokens new_JSON_parser_def Let_def)
  have d: "int (length (modes ?j1) + nesting v) \<le> depth ?j1"
    using assms(2) by (simp add: new_JSON_parser_def file_config_def init_JSON_config_def Let_def)
  have s: "(jp_state ?j1 \<in> {VA, AR} \<and> hd (modes ?j1) \<in> {MODE_ARRAY, MODE_OBJECT}) \<or> (jp_state ?j1 = GO \<and> is_container v)"
    using g(2) 1(4) by simp
  obtain bc2 where f2: "jfeed sf ?cb t ?j1 = Accept (?j1\<lparr>before_comment_state := bc2, jp_state := OK, ctx := ?i1\<rparr>)"
    using text_read(1) [OF 1(3), of sf ?cb, unfolded value_read_def, rule_format, OF c1 s d r] 1(4) by auto
  let ?j2 = "?j1\<lparr>before_comment_state := bc2, jp_state := OK, ctx := ?i1\<rparr>"
  have "clean ?j2" "at_gap ?j2" using c by (simp_all add: clean_def at_gap_def new_JSON_parser_def Let_def)
  from feed_blank [OF 1(5) this, of sf ?cb] obtain bc3 where f3: "jfeed sf ?cb b2 ?j2 = Accept (?j2\<lparr>before_comment_state := bc3\<rparr>)" by blast
  have f: "jfeed sf ?cb s ?jc = Accept (?j2\<lparr>before_comment_state := bc3\<rparr>)" unfolding 1(1) jfeed_append f1 jbind.simps f2 f3 ..
  have "fst (feed_chars sf ?cb 0 s ?jc) = Accept (?j2\<lparr>before_comment_state := bc3\<rparr>)"
    unfolding feed_chars_jfeed [OF accepted_no_nul [OF f]] by (rule f)
  moreover have "JSON_parser_done (?j2\<lparr>before_comment_state := bc3\<rparr>)"
    by (simp add: JSON_parser_done_def pop_def new_JSON_parser_def Let_def)
  ultimately show ?thesis by (simp add: JSON_ParseFile_def Let_def PopValue_def built_def)
qed

section \<open>Reading a file\<close>

text \<open>C7: A file that holds the text of an array or object, in any layout of white space and comments, nested at most 19 deep and
  needing at most the parser's value stack, parses to exactly that value, and its memory accounting is the one its release expects.\<close>

theorem JSON_ParseFile_reads:
  assumes "file_text v s" and "nesting v \<le> 19" and "stack_need v \<le> STACK_SZ"
  shows "JSON_ParseFile sf pun (Some s) = Parsed v (JSON_Free v)"
  using assms by (rule file_read)

definition sample_value :: JSON_Value_t where
  "sample_value = JSON_object [(''a'', JSON_array [JSON_bool True, JSON_null])]"

lemma sample_text: "file_text sample_value ''{ \"a\" : [true,null] } ''"
proof -
  have e: "elems_text [JSON_bool True, JSON_null] ''true,null]''"
    using elems_more [OF blank_nil text_true blank_nil elems_last [OF blank_nil text_null blank_nil]] by simp
  have b: "blank '' ''" by (intro blank_white blank_nil) (simp add: json_white_def)
  have k: "string_chars ''a'' ''a''" by (intro chars_plain chars_nil) (simp add: plain_char_def)
  from text_object [OF members_last [OF b k b b text_array [OF e] b]]
  have t: "json_text sample_value ''{ \"a\" : [true,null] }''" by (simp add: sample_value_def quoted_def)
  from file_text.intros [OF blank_nil t _ b] show ?thesis by (simp add: sample_value_def is_container_def)
qed

theorem JSON_ParseFile_reads_witness:
  "JSON_ParseFile (\<lambda>_. 0) (\<lambda>_. 0) (Some ''{ \"a\" : [true,null] } '') = Parsed sample_value (JSON_Free sample_value)"
  by (rule JSON_ParseFile_reads [OF sample_text]) (simp_all add: sample_value_def STACK_SZ_def)

lemma mismatched_bracket_aborts: "JSON_ParseFile sf pun (Some ''[1}'') = ParseStop AssertFailed"
  by code_simp

end
