(* ===== verification/Event_Log.thy ===== *)
theory Event_Log
  imports C_Strings
begin

text \<open>
  The event log of the runtime: \<^verbatim>\<open>misc/log.c\<close>, the layout of log files in
  \<^verbatim>\<open>src/include/log-file.h\<close> and the inline logging operations of the template
  \<^verbatim>\<open>src/gen/log-gen/templates/inline-log_h.in\<close>.

  \<^item> A log file is a list of bytes; structs are written field by field at their offsets
    (\<open>header_bytes\<close>, \<open>LogBuffer_bytes\<close>). The timestamp union is one 64-bit word with two
    32-bit views.
  \<^item> A vproc owns two buffers, \<open>vl_log\<close> and \<open>vl_prevLog\<close>; \<open>SwapLogBuffers\<close> exchanges
    them and writes the full one. Each operation is given the outcomes of the system calls it may
    make (\<open>WriteResult list\<close>); \<open>None\<close> is a call that has not returned when they run out.
  \<^item> \<open>log_run\<close> is any interleaving of logging operations of all vprocs, \<open>log_session\<close>
    the life of a log from \<open>InitLogFile\<close> to \<open>FinishLog\<close>.

  The lemmas show that the buffers stay well formed, that no logging call loses or reorders an
  event of its vproc, and what the finished file holds (\<open>log_blocks\<close>).
\<close>

section \<open>Bytes of a log file\<close>

type_synonym byte = "8 word"

text \<open>The bytes of a little-endian integer of \<open>n\<close> bytes, as the struct fields lie in memory.\<close>

primrec le_bytes :: "nat \<Rightarrow> nat \<Rightarrow> byte list" where
  "le_bytes 0 k = []"
| "le_bytes (Suc n) k = word_of_nat k # le_bytes n (k div 256)"

primrec le_nat :: "byte list \<Rightarrow> nat" where
  "le_nat [] = 0"
| "le_nat (b # bs) = unat b + 256 * le_nat bs"

lemma length_le_bytes [simp]: "length (le_bytes n k) = n"
  by (induction n arbitrary: k) simp_all

lemma le_nat_le_bytes: "le_nat (le_bytes n k) = k mod 256 ^ n"
proof (induction n arbitrary: k)
  case (Suc n)
  have "unat (word_of_nat k :: byte) = k mod 256" by (simp add: unat_of_nat)
  then show ?case by (simp add: Suc.IH mod_mult2_eq)
qed simp

definition bytes32 :: "32 word \<Rightarrow> byte list" where "bytes32 w = le_bytes 4 (unat w)"
definition bytes64 :: "64 word \<Rightarrow> byte list" where "bytes64 w = le_bytes 8 (unat w)"

text \<open>The field of \<open>n\<close> bytes at an offset; \<open>None\<close> is a read past the end of the block.\<close>

definition field :: "nat \<Rightarrow> byte list \<Rightarrow> nat \<Rightarrow> nat option" where
  "field n b off = (if off + n \<le> length b then Some (le_nat (take n (drop off b))) else None)"

definition get32 :: "byte list \<Rightarrow> nat \<Rightarrow> 32 word option" where
  "get32 b off = map_option word_of_nat (field 4 b off)"

definition get64 :: "byte list \<Rightarrow> nat \<Rightarrow> 64 word option" where
  "get64 b off = map_option word_of_nat (field 8 b off)"

lemma length_bytes32 [simp]: "length (bytes32 w) = 4" by (simp add: bytes32_def)
lemma length_bytes64 [simp]: "length (bytes64 w) = 8" by (simp add: bytes64_def)

lemma unat_mod32 [simp]: "unat (w :: 32 word) mod 4294967296 = unat w"
  using unsigned_less [of w, where 'a = nat] by simp

lemma unat_mod64 [simp]: "unat (w :: 64 word) mod 18446744073709551616 = unat w"
  using unsigned_less [of w, where 'a = nat] by simp

lemma get32_here: "length xs = off \<Longrightarrow> get32 (xs @ bytes32 w @ ys) off = Some w"
  by (simp add: get32_def field_def bytes32_def le_nat_le_bytes)

lemma get64_here: "length xs = off \<Longrightarrow> get64 (xs @ bytes64 w @ ys) off = Some w"
  by (simp add: get64_def field_def bytes64_def le_nat_le_bytes)

section \<open>Events and log buffers\<close>

text \<open>The timestamp is a union: a pair of 32-bit words or one 64-bit word in the same eight bytes.\<close>

type_synonym LogTS_t = "64 word"

definition ts_val_sec :: "LogTS_t \<Rightarrow> 32 word" where "ts_val_sec ts = ucast ts"
definition ts_val_frac :: "LogTS_t \<Rightarrow> 32 word" where "ts_val_frac ts = ucast (drop_bit 32 ts)"
definition ts_val :: "32 word \<Rightarrow> 32 word \<Rightarrow> LogTS_t" where
  "ts_val sec frac = ucast sec OR push_bit 32 (ucast frac)"

lemma ts_val_sec_ts_val [simp]: "ts_val_sec (ts_val s f) = s"
  unfolding ts_val_sec_def ts_val_def by (rule bit_word_eqI) (auto simp: bit_simps)

lemma ts_val_frac_ts_val [simp]: "ts_val_frac (ts_val s f) = f"
  unfolding ts_val_frac_def ts_val_def by (rule bit_word_eqI) (auto simp: bit_simps dest: bit_imp_le_length)

datatype TsKind = LOGTS_TIMEVAL | LOGTS_TIMESPEC | LOGTS_MACH_ABSOLUTE

definition tsKind_code :: "TsKind \<Rightarrow> 32 word" where
  "tsKind_code k = (case k of LOGTS_TIMEVAL \<Rightarrow> 0 | LOGTS_TIMESPEC \<Rightarrow> 1 | LOGTS_MACH_ABSOLUTE \<Rightarrow> 2)"

record LogEvent_t =
  le_timestamp :: LogTS_t
  le_event :: "32 word"
  le_data :: "32 word list"

record LogBuffer_t =
  lb_vpId :: "32 word"
  lb_next :: int
  lb_seqNum :: int
  lb_pad :: "byte list"
  lb_log :: "LogEvent_t list"

definition LOGBLOCK_SZB :: nat where "LOGBLOCK_SZB = 8 * 1024"
definition LOGEVENT_SZB :: nat where "LOGEVENT_SZB = 32"
definition LOGBUF_SZ :: nat where "LOGBUF_SZ = LOGBLOCK_SZB div LOGEVENT_SZB - 1"
definition LOG_MAGIC :: "64 word" where "LOG_MAGIC = 0x6D616E7469636F72"

definition event_bytes :: "LogEvent_t \<Rightarrow> byte list" where
  "event_bytes e = bytes64 (le_timestamp e) @ bytes32 (le_event e) @ concat (map bytes32 (le_data e))"

definition LogBuffer_bytes :: "LogBuffer_t \<Rightarrow> byte list" where
  "LogBuffer_bytes b = bytes32 (lb_vpId b) @ bytes32 (word_of_int (lb_next b)) @ bytes32 (word_of_int (lb_seqNum b))
     @ lb_pad b @ concat (map event_bytes (lb_log b))"

record LogFileHeader_t =
  magic :: "64 word"
  majorVersion :: "32 word"
  minorVersion :: "32 word"
  patchVersion :: "32 word"
  hdrSzB :: "32 word"
  bufSzB :: "32 word"
  date :: string
  tsKind :: "32 word"
  startTime :: LogTS_t
  clockName :: string
  resolution :: "32 word"
  nVProcs :: "32 word"
  nCPUs :: "32 word"

text \<open>A \<^verbatim>\<open>char\<close> array of \<open>n\<close> bytes that holds a string and zeros after it.\<close>

definition char_array :: "nat \<Rightarrow> string \<Rightarrow> byte list" where
  "char_array n s = take n (map of_char s @ replicate n 0)"

definition LOGHDR_SZB :: nat where "LOGHDR_SZB = 120"

definition header_bytes :: "LogFileHeader_t \<Rightarrow> byte list" where
  "header_bytes h = bytes64 (magic h) @ bytes32 (majorVersion h) @ bytes32 (minorVersion h) @ bytes32 (patchVersion h)
     @ bytes32 (hdrSzB h) @ bytes32 (bufSzB h) @ char_array 32 (date h) @ bytes32 (tsKind h) @ bytes64 (startTime h)
     @ char_array 32 (clockName h) @ bytes32 (resolution h) @ bytes32 (nVProcs h) @ bytes32 (nCPUs h) @ bytes32 0"

lemma length_char_array [simp]: "length (char_array n s) = n" by (simp add: char_array_def)
lemma length_header_bytes [simp]: "length (header_bytes h) = LOGHDR_SZB" by (simp add: header_bytes_def LOGHDR_SZB_def)

section \<open>The log of a vproc\<close>

record LogFile =
  LogFD :: int
  contents :: "byte list"
  log_errors :: "int list"

record VPLog =
  vl_id :: nat
  vl_log :: LogBuffer_t
  vl_prevLog :: LogBuffer_t
  vl_eventId :: "64 word"

text \<open>One system call: what \<^verbatim>\<open>write\<close> returned, or the error it set.\<close>

datatype WriteResult = Wrote nat | Failed int

definition EINTR :: int where "EINTR = 4"

definition append_bytes :: "LogFile \<Rightarrow> byte list \<Rightarrow> LogFile" where
  "append_bytes f bs = f\<lparr>contents := contents f @ bs\<rparr>"

fun write_loop :: "LogFile \<Rightarrow> byte list \<Rightarrow> WriteResult list \<Rightarrow> (LogFile \<times> WriteResult list) option" where
  "write_loop f blk [] = None"
| "write_loop f blk (Wrote n # rs) = Some (append_bytes f (take n blk), rs)"
| "write_loop f blk (Failed e # rs) =
     (if e \<noteq> EINTR then Some (f\<lparr>log_errors := log_errors f @ [e]\<rparr>, rs) else write_loop f blk rs)"

definition SwapLogBuffers :: "VPLog \<Rightarrow> LogBuffer_t \<Rightarrow> LogFile \<Rightarrow> WriteResult list
    \<Rightarrow> (VPLog \<times> LogFile \<times> WriteResult list) option" where
  "SwapLogBuffers vp curBuf f rs =
    (let vp1 = vp\<lparr>vl_log := (vl_prevLog vp)\<lparr>lb_seqNum := lb_seqNum curBuf + 1\<rparr>, vl_prevLog := curBuf\<rparr> in
     case write_loop f (LogBuffer_bytes curBuf) rs of
       None \<Rightarrow> None
     | Some (f', rs') \<Rightarrow> Some (vp1\<lparr>vl_prevLog := curBuf\<lparr>lb_next := 0\<rparr>\<rparr>, f', rs'))"

lemma SwapLogBuffers_result:
  "SwapLogBuffers vp cur f rs = Some (vp', f', rs') \<Longrightarrow>
     vl_log vp' = (vl_prevLog vp)\<lparr>lb_seqNum := lb_seqNum cur + 1\<rparr> \<and> vl_prevLog vp' = cur\<lparr>lb_next := 0\<rparr> \<and> vl_id vp' = vl_id vp"
  by (auto simp: SwapLogBuffers_def Let_def split: option.splits)

definition full :: "LogBuffer_t \<Rightarrow> nat" where "full b = of_bool (int LOGBUF_SZ \<le> lb_next b)"

function NextLogEvent :: "VPLog \<Rightarrow> LogFile \<Rightarrow> WriteResult list \<Rightarrow> (int \<times> VPLog \<times> LogFile \<times> WriteResult list) option" where
  "NextLogEvent vp f rs =
    (let buf = vl_log vp; index = lb_next buf; buf' = buf\<lparr>lb_next := index + 1\<rparr>; vp1 = vp\<lparr>vl_log := buf'\<rparr> in
     if index < int LOGBUF_SZ then Some (index, vp1, f, rs)
     else case SwapLogBuffers vp1 buf' f rs of
            None \<Rightarrow> None
          | Some (vp2, f2, rs2) \<Rightarrow> NextLogEvent vp2 f2 rs2)"
  by pat_completeness auto
termination
  by (relation "measure (\<lambda>(vp, f, rs). full (vl_log vp) + full (vl_prevLog vp))")
     (auto dest!: SwapLogBuffers_result simp: full_def LOGBUF_SZ_def LOGBLOCK_SZB_def LOGEVENT_SZB_def)

declare NextLogEvent.simps [simp del]

text \<open>A generated \<^verbatim>\<open>LogEvent\<close> function: claim the next entry, stamp it and store its fields.\<close>

definition LogEvent :: "VPLog \<Rightarrow> LogFile \<Rightarrow> WriteResult list \<Rightarrow> LogEvent_t \<Rightarrow> (VPLog \<times> LogFile) option" where
  "LogEvent vp f rs ev =
    (case NextLogEvent vp f rs of
       None \<Rightarrow> None
     | Some (index, vp1, f1, rs1) \<Rightarrow>
         if 0 \<le> index \<and> nat index < length (lb_log (vl_log vp1))
         then Some (vp1\<lparr>vl_log := (vl_log vp1)\<lparr>lb_log := (lb_log (vl_log vp1))[nat index := ev]\<rparr>\<rparr>, f1)
         else None)"

definition NewEventId :: "VPLog \<Rightarrow> 64 word \<times> VPLog" where
  "NewEventId vp = (vl_eventId vp, vp\<lparr>vl_eventId := vl_eventId vp + 1\<rparr>)"

text \<open>The two buffers are fresh \<^verbatim>\<open>malloc\<close> blocks, whose contents the code does not clear.\<close>

definition InitLog :: "nat \<Rightarrow> LogBuffer_t \<Rightarrow> LogBuffer_t \<Rightarrow> VPLog" where
  "InitLog i b0 b1 =
     \<lparr>vl_id = i,
      vl_log = b0\<lparr>lb_vpId := word_of_nat i, lb_next := 0, lb_seqNum := 0\<rparr>,
      vl_prevLog = b1\<lparr>lb_vpId := word_of_nat i, lb_next := 0, lb_seqNum := 1\<rparr>,
      vl_eventId = push_bit 56 (word_of_nat i AND 0xff)\<rparr>"

section \<open>Opening and closing the log file\<close>

record LogClock =
  ck_kind :: TsKind
  ck_name :: string
  ck_resolution :: "32 word"

text \<open>What the three configurations of the clock put in the header; \<open>res\<close> is the result of
  \<^verbatim>\<open>clock_getres\<close>.\<close>

definition log_clock :: "TsKind \<Rightarrow> 32 word \<Rightarrow> LogClock" where
  "log_clock k res = (case k of
     LOGTS_MACH_ABSOLUTE \<Rightarrow> \<lparr>ck_kind = k, ck_name = ''mach_absolute_time'', ck_resolution = 1\<rparr>
   | LOGTS_TIMESPEC \<Rightarrow> \<lparr>ck_kind = k, ck_name = ''clock_gettime(CLOCK_REALTIME)'', ck_resolution = res\<rparr>
   | LOGTS_TIMEVAL \<Rightarrow> \<lparr>ck_kind = k, ck_name = ''gettimeofday'', ck_resolution = 1000\<rparr>)"

text \<open>\<open>InitLogFile\<close>: the environment is the result of \<^verbatim>\<open>open\<close>, the build's log version, the text
  of \<^verbatim>\<open>ctime_r\<close>, the clock and the first \<^verbatim>\<open>write\<close>. \<open>None\<close> is \<^verbatim>\<open>Die\<close>.\<close>

definition log_header :: "32 word \<times> 32 word \<times> 32 word \<Rightarrow> string \<Rightarrow> LogTS_t \<Rightarrow> LogClock \<Rightarrow> int \<Rightarrow> int \<Rightarrow> LogFileHeader_t" where
  "log_header ver tim now ck nvps ncpus = (case ver of (ma, mi, pa) \<Rightarrow>
     \<lparr>magic = LOG_MAGIC, majorVersion = ma, minorVersion = mi, patchVersion = pa,
      hdrSzB = word_of_nat LOGHDR_SZB, bufSzB = word_of_nat LOGBLOCK_SZB,
      date = take 24 tim, tsKind = tsKind_code (ck_kind ck), startTime = now,
      clockName = take 31 (ck_name ck), resolution = ck_resolution ck,
      nVProcs = word_of_int nvps, nCPUs = word_of_int ncpus\<rparr>)"

definition InitLogFile :: "int \<Rightarrow> LogFileHeader_t \<Rightarrow> WriteResult \<Rightarrow> LogFile option" where
  "InitLogFile fd hdr w =
    (if fd < 0 then None
     else case w of
       Failed e \<Rightarrow> None
     | Wrote n \<Rightarrow> Some \<lparr>LogFD = fd,
         contents = take n (header_bytes hdr @ replicate (LOGBLOCK_SZB - LOGHDR_SZB) 0), log_errors = []\<rparr>)"

text \<open>\<open>FinishLog\<close> writes each vproc's last buffer with one \<^verbatim>\<open>write\<close> whose result is ignored.\<close>

fun flush_loop :: "VPLog list \<Rightarrow> WriteResult list \<Rightarrow> LogFile \<Rightarrow> VPLog list \<times> LogFile" where
  "flush_loop [] ws f = ([], f)"
| "flush_loop (vp # vps) ws f =
     (if lb_next (vl_log vp) \<noteq> 0 then
        let f' = (case ws of Wrote n # _ \<Rightarrow> append_bytes f (take n (LogBuffer_bytes (vl_log vp))) | _ \<Rightarrow> f);
            vp' = vp\<lparr>vl_log := (vl_log vp)\<lparr>lb_next := 0\<rparr>\<rparr>;
            r = flush_loop vps (tl ws) f'
        in (vp' # fst r, snd r)
      else let r = flush_loop vps ws f in (vp # fst r, snd r))"

definition FinishLog :: "VPLog list \<Rightarrow> WriteResult list \<Rightarrow> LogFile \<Rightarrow> VPLog list \<times> LogFile" where
  "FinishLog VProcs ws f =
    (if LogFD f < 0 then (VProcs, f)
     else let r = flush_loop VProcs ws f in (fst r, (snd r)\<lparr>LogFD := -1\<rparr>))"

section \<open>Well-formed buffers\<close>

definition buffer_ok :: "LogBuffer_t \<Rightarrow> bool" where
  "buffer_ok b \<longleftrightarrow> length (lb_log b) = LOGBUF_SZ \<and> length (lb_pad b) = LOGEVENT_SZB - 12
     \<and> list_all (\<lambda>e. length (le_data e) = 5) (lb_log b)"

definition vplog_ok :: "VPLog \<Rightarrow> bool" where
  "vplog_ok vp \<longleftrightarrow> buffer_ok (vl_log vp) \<and> buffer_ok (vl_prevLog vp)
     \<and> lb_vpId (vl_log vp) = word_of_nat (vl_id vp) \<and> lb_vpId (vl_prevLog vp) = word_of_nat (vl_id vp)
     \<and> 0 \<le> lb_next (vl_log vp) \<and> lb_next (vl_log vp) \<le> int LOGBUF_SZ \<and> lb_next (vl_prevLog vp) = 0"

text \<open>The events a reader finds in a written block, and those waiting in the current buffer.\<close>

definition block_events :: "LogBuffer_t \<Rightarrow> LogEvent_t list" where
  "block_events b = take (nat (lb_next b)) (lb_log b)"

definition pending :: "VPLog \<Rightarrow> LogEvent_t list" where
  "pending vp = block_events (vl_log vp)"

lemmas log_sizes = LOGBUF_SZ_def LOGBLOCK_SZB_def LOGEVENT_SZB_def LOGHDR_SZB_def

lemma write_loop_retries: "write_loop f blk (replicate k (Failed EINTR) @ Wrote n # rs) = Some (append_bytes f (take n blk), rs)"
  by (induction k) simp_all

lemma length_event_bytes: "length (le_data e) = 5 \<Longrightarrow> length (event_bytes e) = LOGEVENT_SZB"
  by (simp add: event_bytes_def LOGEVENT_SZB_def length_concat comp_def sum_list_triv)

lemma length_events_bytes:
  "list_all (\<lambda>e. length (le_data e) = 5) es \<Longrightarrow> length (concat (map event_bytes es)) = LOGEVENT_SZB * length es"
  by (induction es) (simp_all add: length_event_bytes)

lemma length_LogBuffer_bytes: "buffer_ok b \<Longrightarrow> length (LogBuffer_bytes b) = LOGBLOCK_SZB"
  by (simp add: LogBuffer_bytes_def buffer_ok_def length_events_bytes) (simp add: log_sizes)

lemma InitLog_ok: "buffer_ok b0 \<Longrightarrow> buffer_ok b1 \<Longrightarrow> vplog_ok (InitLog i b0 b1)"
  by (simp add: vplog_ok_def InitLog_def buffer_ok_def)

lemma NextLogEvent_room:
  "lb_next (vl_log vp) < int LOGBUF_SZ \<Longrightarrow>
     NextLogEvent vp f rs = Some (lb_next (vl_log vp), vp\<lparr>vl_log := (vl_log vp)\<lparr>lb_next := lb_next (vl_log vp) + 1\<rparr>\<rparr>, f, rs)"
  by (subst NextLogEvent.simps) (simp add: Let_def)

lemma LogEvent_room:
  assumes ok: "vplog_ok vp" and room: "lb_next (vl_log vp) < int LOGBUF_SZ"
  shows "LogEvent vp f rs ev = Some (vp\<lparr>vl_log := (vl_log vp)\<lparr>lb_next := lb_next (vl_log vp) + 1,
      lb_log := (lb_log (vl_log vp))[nat (lb_next (vl_log vp)) := ev]\<rparr>\<rparr>, f)"
  using assms by (simp add: LogEvent_def NextLogEvent_room vplog_ok_def buffer_ok_def nat_less_iff)

definition full_block :: "VPLog \<Rightarrow> LogBuffer_t" where
  "full_block vp = (vl_log vp)\<lparr>lb_next := lb_next (vl_log vp) + 1\<rparr>"

definition after_swap :: "VPLog \<Rightarrow> LogEvent_t \<Rightarrow> VPLog" where
  "after_swap vp ev = vp\<lparr>vl_log := (vl_prevLog vp)\<lparr>lb_seqNum := lb_seqNum (vl_log vp) + 1, lb_next := 1,
      lb_log := (lb_log (vl_prevLog vp))[0 := ev]\<rparr>, vl_prevLog := (vl_log vp)\<lparr>lb_next := 0\<rparr>\<rparr>"

lemma LogEvent_swap:
  assumes ok: "vplog_ok vp" and room: "lb_next (vl_log vp) = int LOGBUF_SZ"
  shows "LogEvent vp f rs ev =
    map_option (\<lambda>(f', rs'). (after_swap vp ev, f')) (write_loop f (LogBuffer_bytes (full_block vp)) rs)"
proof -
  have pn: "lb_next (vl_prevLog vp) = 0" and pl: "length (lb_log (vl_prevLog vp)) = LOGBUF_SZ"
    using ok by (simp_all add: vplog_ok_def buffer_ok_def)
  have pos: "0 < LOGBUF_SZ" by (simp add: log_sizes)
  let ?vp1 = "vp\<lparr>vl_log := (vl_prevLog vp)\<lparr>lb_seqNum := lb_seqNum (vl_log vp) + 1\<rparr>, vl_prevLog := (vl_log vp)\<lparr>lb_next := 0\<rparr>\<rparr>"
  have n: "NextLogEvent vp f rs =
      (case write_loop f (LogBuffer_bytes (full_block vp)) rs of None \<Rightarrow> None | Some (f2, rs2) \<Rightarrow> NextLogEvent ?vp1 f2 rs2)"
    using room by (subst NextLogEvent.simps) (simp add: Let_def SwapLogBuffers_def full_block_def split: option.split)
  show ?thesis
    using pn pl pos unfolding LogEvent_def n
    by (cases "write_loop f (LogBuffer_bytes (full_block vp)) rs") (auto simp: NextLogEvent_room after_swap_def)
qed

lemma LogEvent_cases:
  assumes ok: "vplog_ok vp" and r: "LogEvent vp f rs ev = Some (vp', f')"
  obtains (room) "lb_next (vl_log vp) < int LOGBUF_SZ" and "f' = f"
      and "vp' = vp\<lparr>vl_log := (vl_log vp)\<lparr>lb_next := lb_next (vl_log vp) + 1, lb_log := (lb_log (vl_log vp))[nat (lb_next (vl_log vp)) := ev]\<rparr>\<rparr>"
  | (swap) rs' where "lb_next (vl_log vp) = int LOGBUF_SZ" and "vp' = after_swap vp ev"
      and "write_loop f (LogBuffer_bytes (full_block vp)) rs = Some (f', rs')"
proof (cases "lb_next (vl_log vp) < int LOGBUF_SZ")
  case True
  from r show ?thesis unfolding LogEvent_room [OF ok True] by (intro room [OF True]) simp_all
next
  case False
  then have e: "lb_next (vl_log vp) = int LOGBUF_SZ" using ok by (simp add: vplog_ok_def)
  from r show ?thesis unfolding LogEvent_swap [OF ok e] by (auto intro: swap [OF e])
qed

lemma list_all_update: "list_all P xs \<Longrightarrow> P x \<Longrightarrow> list_all P (xs[i := x])"
  using set_update_subset_insert [of xs i x] by (auto simp: list_all_iff)

lemma LogEvent_keeps_ok:
  assumes "vplog_ok vp" and "length (le_data ev) = 5" and "LogEvent vp f rs ev = Some (vp', f')"
  shows "vplog_ok vp'"
  using assms(1,3)
proof (cases rule: LogEvent_cases)
  case room
  then show ?thesis using assms by (simp add: vplog_ok_def buffer_ok_def list_all_update)
next
  case (swap rs')
  then show ?thesis using assms by (simp add: vplog_ok_def buffer_ok_def list_all_update after_swap_def log_sizes)
qed

lemma vl_id_LogEvent:
  assumes "vplog_ok vp" and "LogEvent vp f rs ev = Some (vp', f')"
  shows "vl_id vp' = vl_id vp"
  using assms by (cases rule: LogEvent_cases) (simp_all add: after_swap_def)

text \<open>No logging call gets stuck: with one successful write to come, it returns.\<close>

lemma LogEvent_returns:
  assumes ok: "vplog_ok vp" and w: "rs = replicate k (Failed EINTR) @ Wrote n # rs'"
  shows "\<exists>vp' f'. LogEvent vp f rs ev = Some (vp', f')"
proof (cases "lb_next (vl_log vp) < int LOGBUF_SZ")
  case True
  from LogEvent_room [OF ok this] show ?thesis by blast
next
  case False
  then have "lb_next (vl_log vp) = int LOGBUF_SZ" using ok by (simp add: vplog_ok_def)
  from LogEvent_swap [OF ok this] show ?thesis unfolding w by (simp add: write_loop_retries)
qed

section \<open>Runs of the logged program\<close>

record LogSys =
  ls_file :: LogFile
  ls_vps :: "VPLog list"

text \<open>One logged event: the vproc, the event and the outcomes of the system calls a swap may need.\<close>

type_synonym log_op = "nat \<times> LogEvent_t \<times> WriteResult list"

definition log_step :: "LogSys \<Rightarrow> log_op \<Rightarrow> LogSys option" where
  "log_step st x = (case x of (v, ev, rs) \<Rightarrow>
     if v < length (ls_vps st) then
       map_option (\<lambda>(vp', f'). \<lparr>ls_file = f', ls_vps = (ls_vps st)[v := vp']\<rparr>)
         (LogEvent (ls_vps st ! v) (ls_file st) rs ev)
     else None)"

fun log_run :: "LogSys \<Rightarrow> log_op list \<Rightarrow> LogSys option" where
  "log_run st [] = Some st"
| "log_run st (x # xs) = Option.bind (log_step st x) (\<lambda>st'. log_run st' xs)"

text \<open>A system call that eventually writes the whole block.\<close>

definition full_write :: "WriteResult list \<Rightarrow> bool" where
  "full_write rs \<longleftrightarrow> (case dropWhile (\<lambda>r. r = Failed EINTR) rs of Wrote n # _ \<Rightarrow> n = LOGBLOCK_SZB | _ \<Rightarrow> False)"

lemma full_write_loop: "full_write rs \<Longrightarrow> length blk = LOGBLOCK_SZB \<Longrightarrow> \<exists>rs'. write_loop f blk rs = Some (append_bytes f blk, rs')"
  unfolding full_write_def
  by (induction f blk rs rule: write_loop.induct) (auto split: if_splits)

definition op_ok :: "nat \<Rightarrow> log_op \<Rightarrow> bool" where
  "op_ok n x \<longleftrightarrow> (case x of (v, ev, rs) \<Rightarrow> v < n \<and> length (le_data ev) = 5 \<and> full_write rs)"

definition events_of :: "nat \<Rightarrow> log_op list \<Rightarrow> LogEvent_t list" where
  "events_of v xs = map (\<lambda>x. fst (snd x)) (filter (\<lambda>x. fst x = v) xs)"

definition blocks_of :: "nat \<Rightarrow> LogBuffer_t list \<Rightarrow> LogBuffer_t list" where
  "blocks_of v bs = filter (\<lambda>b. lb_vpId b = word_of_nat v) bs"

text \<open>What a log file holds for vproc \<open>v\<close>: its blocks numbered from 0, and in them the events, in order.\<close>

definition block_ok :: "nat \<Rightarrow> LogBuffer_t \<Rightarrow> bool" where
  "block_ok n b \<longleftrightarrow> buffer_ok b \<and> unat (lb_vpId b) < n \<and> 0 \<le> lb_next b \<and> lb_next b \<le> int LOGBUF_SZ + 1"

definition log_inv :: "byte list \<Rightarrow> nat \<Rightarrow> log_op list \<Rightarrow> LogBuffer_t list \<Rightarrow> LogSys \<Rightarrow> bool" where
  "log_inv hb n ops bs st \<longleftrightarrow>
     contents (ls_file st) = hb @ concat (map LogBuffer_bytes bs)
   \<and> length (ls_vps st) = n \<and> list_all (block_ok n) bs
   \<and> (\<forall>v < n. let vp = ls_vps st ! v in vplog_ok vp \<and> vl_id vp = v
        \<and> map lb_seqNum (blocks_of v bs) = map int [0..<length (blocks_of v bs)]
        \<and> lb_seqNum (vl_log vp) = int (length (blocks_of v bs))
        \<and> concat (map block_events (blocks_of v bs)) @ pending vp = events_of v ops)"

lemma events_of_snoc: "events_of v (xs @ [(w, ev, rs)]) = events_of v xs @ (if w = v then [ev] else [])"
  by (simp add: events_of_def)

lemma blocks_of_snoc: "blocks_of v (bs @ [b]) = blocks_of v bs @ (if lb_vpId b = word_of_nat v then [b] else [])"
  by (simp add: blocks_of_def)

lemma pending_room:
  assumes "vplog_ok vp" and "lb_next (vl_log vp) < int LOGBUF_SZ"
  shows "pending (vp\<lparr>vl_log := (vl_log vp)\<lparr>lb_next := lb_next (vl_log vp) + 1, lb_log := (lb_log (vl_log vp))[nat (lb_next (vl_log vp)) := ev]\<rparr>\<rparr>) = pending vp @ [ev]"
proof -
  let ?k = "nat (lb_next (vl_log vp))"
  have k: "?k < length (lb_log (vl_log vp))" using assms by (simp add: vplog_ok_def buffer_ok_def nat_less_iff)
  have s: "nat (lb_next (vl_log vp) + 1) = Suc ?k" using assms by (simp add: vplog_ok_def nat_add_distrib)
  from k show ?thesis by (simp add: pending_def block_events_def s take_Suc_conv_app_nth)
qed

lemma pending_after_swap:
  assumes "vplog_ok vp"
  shows "pending (after_swap vp ev) = [ev]"
proof -
  have "lb_log (vl_prevLog vp) \<noteq> []" using assms by (auto simp: vplog_ok_def buffer_ok_def log_sizes)
  then obtain a as where "lb_log (vl_prevLog vp) = a # as" by (cases "lb_log (vl_prevLog vp)") auto
  then show ?thesis by (simp add: pending_def block_events_def after_swap_def)
qed

lemma after_swap_id [simp]: "vl_id (after_swap vp ev) = vl_id vp"
  and after_swap_seqNum [simp]: "lb_seqNum (vl_log (after_swap vp ev)) = lb_seqNum (vl_log vp) + 1"
  by (simp_all add: after_swap_def)

lemma full_block_seqNum [simp]: "lb_seqNum (full_block vp) = lb_seqNum (vl_log vp)" by (simp add: full_block_def)

lemma full_block_events:
  assumes "vplog_ok vp" and "lb_next (vl_log vp) = int LOGBUF_SZ"
  shows "block_events (full_block vp) = pending vp"
  using assms by (simp add: block_events_def pending_def full_block_def vplog_ok_def buffer_ok_def nat_add_distrib)

lemma unat_of_nat32: "v < 2 ^ 32 \<Longrightarrow> unat (word_of_nat v :: 32 word) = v"
  by (simp add: unat_of_nat)

lemma word_of_nat32_eq: "v < 2 ^ 32 \<Longrightarrow> w < 2 ^ 32 \<Longrightarrow> (word_of_nat v :: 32 word) = word_of_nat w \<longleftrightarrow> v = w"
  by (metis unat_of_nat32)

lemma log_inv_vp:
  assumes "log_inv hb n ops bs st" and "v < n"
  shows "vplog_ok (ls_vps st ! v)" "vl_id (ls_vps st ! v) = v"
    "map lb_seqNum (blocks_of v bs) = map int [0..<length (blocks_of v bs)]"
    "lb_seqNum (vl_log (ls_vps st ! v)) = int (length (blocks_of v bs))"
    "concat (map block_events (blocks_of v bs)) @ pending (ls_vps st ! v) = events_of v ops"
  using assms unfolding log_inv_def Let_def by blast+

lemma log_inv_file:
  assumes "log_inv hb n ops bs st"
  shows "contents (ls_file st) = hb @ concat (map LogBuffer_bytes bs)" "length (ls_vps st) = n" "list_all (block_ok n) bs"
  using assms unfolding log_inv_def by blast+

lemma log_invI:
  assumes "contents (ls_file st) = hb @ concat (map LogBuffer_bytes bs)" "length (ls_vps st) = n" "list_all (block_ok n) bs"
    and "\<And>v. v < n \<Longrightarrow> vplog_ok (ls_vps st ! v)" "\<And>v. v < n \<Longrightarrow> vl_id (ls_vps st ! v) = v"
    "\<And>v. v < n \<Longrightarrow> map lb_seqNum (blocks_of v bs) = map int [0..<length (blocks_of v bs)]"
    "\<And>v. v < n \<Longrightarrow> lb_seqNum (vl_log (ls_vps st ! v)) = int (length (blocks_of v bs))"
    "\<And>v. v < n \<Longrightarrow> concat (map block_events (blocks_of v bs)) @ pending (ls_vps st ! v) = events_of v ops"
  shows "log_inv hb n ops bs st"
  using assms unfolding log_inv_def Let_def by blast

text \<open>One logged event keeps the invariant: it joins the current buffer, or the full buffer becomes a block.\<close>

lemma log_inv_step:
  assumes I: "log_inv hb n ops bs st" and op: "op_ok n x" and n: "n \<le> 2 ^ 32"
  shows "\<exists>st' bs'. log_step st x = Some st' \<and> log_inv hb n (ops @ [x]) bs' st' \<and> length bs' \<le> length bs + 1"
proof -
  obtain w ev rs where x: "x = (w, ev, rs)" by (cases x)
  have w: "w < n" and d: "length (le_data ev) = 5" and fw: "full_write rs" using op by (simp_all add: op_ok_def x)
  note F = log_inv_file [OF I] and V = log_inv_vp [OF I]
  let ?vp = "ls_vps st ! w"
  note ok = V(1) [OF w]
  show ?thesis
  proof (cases "lb_next (vl_log ?vp) < int LOGBUF_SZ")
    case True
    let ?vp' = "?vp\<lparr>vl_log := (vl_log ?vp)\<lparr>lb_next := lb_next (vl_log ?vp) + 1, lb_log := (lb_log (vl_log ?vp))[nat (lb_next (vl_log ?vp)) := ev]\<rparr>\<rparr>"
    let ?st' = "\<lparr>ls_file = ls_file st, ls_vps = (ls_vps st)[w := ?vp']\<rparr>"
    have e: "LogEvent ?vp (ls_file st) rs ev = Some (?vp', ls_file st)" by (rule LogEvent_room [OF ok True])
    have s: "log_step st x = Some ?st'" using w F(2) e by (simp add: log_step_def x)
    have nth: "(ls_vps st)[w := ?vp'] ! v = (if v = w then ?vp' else ls_vps st ! v)" if "v < n" for v
      using that F(2) by (simp add: nth_list_update)
    have "log_inv hb n (ops @ [x]) bs ?st'"
    proof (rule log_invI)
      fix v assume v: "v < n"
      show "vplog_ok (ls_vps ?st' ! v)" using LogEvent_keeps_ok [OF ok d e] V(1) [OF v] by (simp add: nth [OF v])
      show "vl_id (ls_vps ?st' ! v) = v" using V(2) [OF v] V(2) [OF w] by (simp add: nth [OF v])
      show "map lb_seqNum (blocks_of v bs) = map int [0..<length (blocks_of v bs)]" by (rule V(3) [OF v])
      show "lb_seqNum (vl_log (ls_vps ?st' ! v)) = int (length (blocks_of v bs))" using V(4) [OF v] V(4) [OF w] by (simp add: nth [OF v])
      show "concat (map block_events (blocks_of v bs)) @ pending (ls_vps ?st' ! v) = events_of v (ops @ [x])"
        using V(5) [OF v, symmetric] pending_room [OF ok True, of ev] by (cases "v = w") (simp_all add: nth [OF v] nth [OF w] x events_of_snoc)
    qed (use F in simp_all)
    with s show ?thesis by (intro exI [of _ ?st'] exI [of _ bs]) simp
  next
    case False
    with ok have full: "lb_next (vl_log ?vp) = int LOGBUF_SZ" by (simp add: vplog_ok_def)
    let ?b = "full_block ?vp" and ?vp' = "after_swap ?vp ev"
    have bok: "buffer_ok ?b" using ok by (simp add: full_block_def vplog_ok_def buffer_ok_def)
    have bid: "lb_vpId ?b = word_of_nat w" using ok V(2) [OF w] by (simp add: full_block_def vplog_ok_def)
    obtain rs' where wl: "write_loop (ls_file st) (LogBuffer_bytes ?b) rs = Some (append_bytes (ls_file st) (LogBuffer_bytes ?b), rs')"
      using full_write_loop [OF fw length_LogBuffer_bytes [OF bok]] by blast
    let ?f' = "append_bytes (ls_file st) (LogBuffer_bytes ?b)"
    let ?st' = "\<lparr>ls_file = ?f', ls_vps = (ls_vps st)[w := ?vp']\<rparr>" and ?bs' = "bs @ [?b]"
    have e: "LogEvent ?vp (ls_file st) rs ev = Some (?vp', ?f')" by (simp add: LogEvent_swap [OF ok full] wl)
    have s: "log_step st x = Some ?st'" using w F(2) e by (simp add: log_step_def x)
    have nth: "(ls_vps st)[w := ?vp'] ! v = (if v = w then ?vp' else ls_vps st ! v)" if "v < n" for v
      using that F(2) by (simp add: nth_list_update)
    have bof: "blocks_of v ?bs' = blocks_of v bs @ (if v = w then [?b] else [])" if "v < n" for v
      using that w n bid word_of_nat32_eq [of w v] by (auto simp: blocks_of_snoc)
    have "log_inv hb n (ops @ [x]) ?bs' ?st'"
    proof (rule log_invI)
      show "contents (ls_file ?st') = hb @ concat (map LogBuffer_bytes ?bs')" using F(1) by (simp add: append_bytes_def)
      show "length (ls_vps ?st') = n" using F(2) by simp
      show "list_all (block_ok n) ?bs'" using F(3) bok bid w n full unat_of_nat32 [of w] by (simp add: block_ok_def full_block_def)
      fix v assume v: "v < n"
      show "vplog_ok (ls_vps ?st' ! v)" using LogEvent_keeps_ok [OF ok d e] V(1) [OF v] by (simp add: nth [OF v])
      show "vl_id (ls_vps ?st' ! v) = v" using V(2) [OF v] V(2) [OF w] by (simp add: nth [OF v])
      show "map lb_seqNum (blocks_of v ?bs') = map int [0..<length (blocks_of v ?bs')]"
        using V(3) [OF v] V(4) [OF w] by (simp add: bof [OF v])
      show "lb_seqNum (vl_log (ls_vps ?st' ! v)) = int (length (blocks_of v ?bs'))"
        using V(4) [OF v] V(4) [OF w] by (simp add: nth [OF v] bof [OF v])
      show "concat (map block_events (blocks_of v ?bs')) @ pending (ls_vps ?st' ! v) = events_of v (ops @ [x])"
        using V(5) [OF v, symmetric] full_block_events [OF ok full] pending_after_swap [OF ok]
        by (cases "v = w") (simp_all add: nth [OF v] nth [OF w] bof [OF v] bof [OF w] x events_of_snoc)
    qed
    with s show ?thesis by (intro exI [of _ ?st'] exI [of _ ?bs']) simp
  qed
qed

lemma log_inv_run:
  assumes "log_inv hb n ops bs st" and "list_all (op_ok n) xs" and "n \<le> 2 ^ 32"
  shows "\<exists>st' bs'. log_run st xs = Some st' \<and> log_inv hb n (ops @ xs) bs' st' \<and> length bs' \<le> length bs + length xs"
  using assms
proof (induction xs arbitrary: ops bs st)
  case (Cons x xs)
  from Cons.prems(2) have x: "op_ok n x" and xs: "list_all (op_ok n) xs" by simp_all
  obtain st1 bs1 where 1: "log_step st x = Some st1" "log_inv hb n (ops @ [x]) bs1 st1" "length bs1 \<le> length bs + 1"
    using log_inv_step [OF Cons.prems(1) x Cons.prems(3)] by blast
  obtain st2 bs2 where 2: "log_run st1 xs = Some st2" "log_inv hb n ((ops @ [x]) @ xs) bs2 st2" "length bs2 \<le> length bs1 + length xs"
    using Cons.IH [OF 1(2) xs Cons.prems(3)] by blast
  from 1 2 show ?case by (intro exI [of _ st2] exI [of _ bs2]) simp
qed auto

text \<open>The state after \<open>InitLogFile\<close> and one \<open>InitLog\<close> per vproc.\<close>

definition init_vps :: "(LogBuffer_t \<times> LogBuffer_t) list \<Rightarrow> VPLog list" where
  "init_vps js = map (\<lambda>i. InitLog i (fst (js ! i)) (snd (js ! i))) [0..<length js]"

lemma log_inv_init:
  assumes "list_all (\<lambda>(b0, b1). buffer_ok b0 \<and> buffer_ok b1) js" and "contents f = hb"
  shows "log_inv hb (length js) [] [] \<lparr>ls_file = f, ls_vps = init_vps js\<rparr>"
proof (rule log_invI)
  fix v assume v: "v < length js"
  then have b: "buffer_ok (fst (js ! v))" "buffer_ok (snd (js ! v))"
    using assms(1) by (auto simp: list_all_length case_prod_beta)
  show "vplog_ok (ls_vps \<lparr>ls_file = f, ls_vps = init_vps js\<rparr> ! v)"
    using v InitLog_ok [OF b, of v] by (simp add: init_vps_def)
qed (use assms(2) in \<open>simp_all add: init_vps_def blocks_of_def events_of_def pending_def block_events_def InitLog_def\<close>)

section \<open>The finished log file\<close>

text \<open>What every finished file holds: for each vproc its blocks numbered from 0 and all its events.\<close>

definition log_blocks :: "nat \<Rightarrow> log_op list \<Rightarrow> LogBuffer_t list \<Rightarrow> bool" where
  "log_blocks n ops bs \<longleftrightarrow> list_all (block_ok n) bs \<and>
     (\<forall>v < n. map lb_seqNum (blocks_of v bs) = map int [0..<length (blocks_of v bs)]
        \<and> concat (map block_events (blocks_of v bs)) = events_of v ops)"

definition dirty :: "VPLog list \<Rightarrow> LogBuffer_t list" where
  "dirty vps = filter (\<lambda>b. lb_next b \<noteq> 0) (map vl_log vps)"

lemma flush_loop_writes:
  assumes "list_all vplog_ok vps" and "list_all (\<lambda>w. w = Wrote LOGBLOCK_SZB) ws" and "length vps \<le> length ws"
  shows "contents (snd (flush_loop vps ws f)) = contents f @ concat (map LogBuffer_bytes (dirty vps))"
  using assms
proof (induction vps arbitrary: ws f)
  case (Cons vp vps)
  then obtain ws' where ws: "ws = Wrote LOGBLOCK_SZB # ws'" by (cases ws) auto
  have len: "length (LogBuffer_bytes (vl_log vp)) = LOGBLOCK_SZB"
    using Cons.prems(1) by (simp add: vplog_ok_def length_LogBuffer_bytes)
  show ?case
  proof (cases "lb_next (vl_log vp) = 0")
    case True
    then show ?thesis using Cons.IH [of ws f] Cons.prems by (simp add: Let_def dirty_def)
  next
    case False
    then show ?thesis using Cons.IH [of ws' "append_bytes f (LogBuffer_bytes (vl_log vp))"] Cons.prems len
      by (simp add: Let_def dirty_def ws append_bytes_def)
  qed
qed (simp add: dirty_def)

lemma blocks_of_dirty:
  assumes "length vps = n" and "\<And>i. i < n \<Longrightarrow> lb_vpId (vl_log (vps ! i)) = word_of_nat i" and "v < n" and n: "n \<le> 2 ^ 32"
  shows "blocks_of v (dirty vps) = (if lb_next (vl_log (vps ! v)) = 0 then [] else [vl_log (vps ! v)])"
proof -
  have "blocks_of v (dirty vps) = filter (\<lambda>b. lb_next b \<noteq> 0) (map vl_log (filter (\<lambda>vp. lb_vpId (vl_log vp) = word_of_nat v) vps))"
    by (simp add: blocks_of_def dirty_def filter_map comp_def conj_commute)
  also have "filter (\<lambda>vp. lb_vpId (vl_log vp) = word_of_nat v) vps = [vps ! v]"
  proof -
    have "filter (\<lambda>vp. lb_vpId (vl_log vp) = word_of_nat v) vps = map (\<lambda>i. vps ! i) (filter (\<lambda>i. lb_vpId (vl_log (vps ! i)) = word_of_nat v) [0..<n])"
      using filter_map [of _ "\<lambda>i. vps ! i" "[0..<n]"] assms(1) map_nth [of vps] by (simp add: comp_def)
    also have "filter (\<lambda>i. lb_vpId (vl_log (vps ! i)) = word_of_nat v) [0..<n] = filter (\<lambda>i. i = v) [0..<n]"
    proof (rule filter_cong [OF refl])
      fix i assume "i \<in> set [0..<n]"
      then have i: "i < n" by simp
      show "(lb_vpId (vl_log (vps ! i)) = word_of_nat v) = (i = v)"
        using assms(2) [OF i] i \<open>v < n\<close> n by (simp add: word_of_nat32_eq)
    qed
    also have "\<dots> = [v]"
    proof -
      have "[0..<n] = [0..<v] @ v # [Suc v..<n]" using \<open>v < n\<close> using upt_add_eq_append [of 0 v "n - v"] by (simp add: upt_conv_Cons)
      then show ?thesis by (simp add: filter_empty_conv)
    qed
    finally show ?thesis by simp
  qed
  finally show ?thesis by simp
qed

lemma FinishLog_blocks:
  assumes I: "log_inv hb n ops bs st" and n: "n \<le> 2 ^ 32" and fd: "0 \<le> LogFD (ls_file st)"
    and ws: "list_all (\<lambda>w. w = Wrote LOGBLOCK_SZB) ws" "n \<le> length ws"
  shows "contents (snd (FinishLog (ls_vps st) ws (ls_file st))) = hb @ concat (map LogBuffer_bytes (bs @ dirty (ls_vps st)))
    \<and> log_blocks n ops (bs @ dirty (ls_vps st))"
proof -
  note F = log_inv_file [OF I] and V = log_inv_vp [OF I]
  have ok: "list_all vplog_ok (ls_vps st)" using V(1) F(2) by (simp add: list_all_length)
  have id: "lb_vpId (vl_log (ls_vps st ! i)) = word_of_nat i" if "i < n" for i
    using V(1,2) [OF that] by (simp add: vplog_ok_def)
  have "block_ok n b" if "b \<in> set (dirty (ls_vps st))" for b
  proof -
    from that obtain i where i: "i < n" "b = vl_log (ls_vps st ! i)" by (auto simp: dirty_def in_set_conv_nth F(2))
    then have "unat (lb_vpId b) = i" using id [OF i(1)] n by (simp add: unat_of_nat32)
    with i V(1) [OF i(1)] show ?thesis by (simp add: block_ok_def vplog_ok_def)
  qed
  then have bok: "list_all (block_ok n) (bs @ dirty (ls_vps st))" using F(3) by (auto simp: list_all_iff)
  have "map lb_seqNum (blocks_of v (bs @ dirty (ls_vps st))) = map int [0..<length (blocks_of v (bs @ dirty (ls_vps st)))]
      \<and> concat (map block_events (blocks_of v (bs @ dirty (ls_vps st)))) = events_of v ops" if v: "v < n" for v
  proof -
    have b: "blocks_of v (bs @ dirty (ls_vps st)) = blocks_of v bs @ (if lb_next (vl_log (ls_vps st ! v)) = 0 then [] else [vl_log (ls_vps st ! v)])"
      using blocks_of_dirty [OF F(2) id v n] by (simp add: blocks_of_def)
    show ?thesis unfolding b using V(3-5) [OF v] by (auto simp: pending_def block_events_def)
  qed
  with bok have "log_blocks n ops (bs @ dirty (ls_vps st))" by (simp add: log_blocks_def)
  moreover have "contents (snd (FinishLog (ls_vps st) ws (ls_file st))) = hb @ concat (map LogBuffer_bytes (bs @ dirty (ls_vps st)))"
    using flush_loop_writes [OF ok ws(1), of "ls_file st"] ws(2) F fd by (simp add: FinishLog_def Let_def)
  ultimately show ?thesis by blast
qed

text \<open>The whole life of a log: the file is opened, every vproc gets its buffers, events are logged, the log is closed.\<close>

definition log_session :: "int \<Rightarrow> LogFileHeader_t \<Rightarrow> WriteResult \<Rightarrow> (LogBuffer_t \<times> LogBuffer_t) list \<Rightarrow> log_op list \<Rightarrow> WriteResult list \<Rightarrow> LogFile option" where
  "log_session fd hdr w js ops ws =
    Option.bind (InitLogFile fd hdr w) (\<lambda>f.
    Option.bind (log_run \<lparr>ls_file = f, ls_vps = init_vps js\<rparr> ops) (\<lambda>st.
      Some (snd (FinishLog (ls_vps st) ws (ls_file st)))))"

definition header_block :: "LogFileHeader_t \<Rightarrow> byte list" where
  "header_block hdr = header_bytes hdr @ replicate (LOGBLOCK_SZB - LOGHDR_SZB) 0"

lemma length_header_block [simp]: "length (header_block h) = LOGBLOCK_SZB"
  by (simp add: header_block_def log_sizes)

lemma write_loop_fd: "write_loop f blk rs = Some (f', rs') \<Longrightarrow> LogFD f' = LogFD f"
  by (induction f blk rs rule: write_loop.induct) (auto simp: append_bytes_def split: if_splits)

lemma log_step_fd:
  assumes "log_inv hb n ops bs st" and "log_step st x = Some st'"
  shows "LogFD (ls_file st') = LogFD (ls_file st)"
proof -
  obtain v ev rs where x: "x = (v, ev, rs)" by (cases x)
  from assms(2) obtain vp' where v: "v < length (ls_vps st)"
    and e: "LogEvent (ls_vps st ! v) (ls_file st) rs ev = Some (vp', ls_file st')"
    by (auto simp: log_step_def x split: if_splits)
  have ok: "vplog_ok (ls_vps st ! v)" using log_inv_vp(1) [OF assms(1)] log_inv_file(2) [OF assms(1)] v by simp
  from ok e show ?thesis by (cases rule: LogEvent_cases) (auto dest: write_loop_fd)
qed

lemma log_run_fd:
  assumes "log_inv hb n ops bs st" and "list_all (op_ok n) xs" and "n \<le> 2 ^ 32" and "log_run st xs = Some st'"
  shows "LogFD (ls_file st') = LogFD (ls_file st)"
  using assms
proof (induction xs arbitrary: ops bs st)
  case (Cons x xs)
  from Cons.prems(2) have x: "op_ok n x" and xs: "list_all (op_ok n) xs" by simp_all
  obtain st1 bs1 where 1: "log_step st x = Some st1" "log_inv hb n (ops @ [x]) bs1 st1"
    using log_inv_step [OF Cons.prems(1) x Cons.prems(3)] by blast
  have "log_run st1 xs = Some st'" using Cons.prems(4) 1(1) by simp
  from Cons.IH [OF 1(2) xs Cons.prems(3) this] log_step_fd [OF Cons.prems(1) 1(1)] show ?case by simp
qed simp

lemma log_session_blocks:
  assumes fd: "0 \<le> fd" and js: "list_all (\<lambda>(b0, b1). buffer_ok b0 \<and> buffer_ok b1) js" and n: "length js \<le> 2 ^ 32"
    and ops: "list_all (op_ok (length js)) ops" and ws: "list_all (\<lambda>w. w = Wrote LOGBLOCK_SZB) ws" "length js \<le> length ws"
  shows "\<exists>f bs. log_session fd hdr (Wrote LOGBLOCK_SZB) js ops ws = Some f
     \<and> contents f = header_block hdr @ concat (map LogBuffer_bytes bs)
     \<and> log_blocks (length js) ops bs \<and> length bs \<le> length ops + length js"
proof -
  let ?f0 = "\<lparr>LogFD = fd, contents = header_block hdr, log_errors = []\<rparr>"
  let ?st0 = "\<lparr>ls_file = ?f0, ls_vps = init_vps js\<rparr>"
  have i: "InitLogFile fd hdr (Wrote LOGBLOCK_SZB) = Some ?f0"
    using fd by (simp add: InitLogFile_def header_block_def log_sizes)
  have I0: "log_inv (header_block hdr) (length js) [] [] ?st0" by (rule log_inv_init [OF js]) simp
  obtain st bs where st: "log_run ?st0 ops = Some st" "log_inv (header_block hdr) (length js) ops bs st" "length bs \<le> length ops"
    using log_inv_run [OF I0 ops n] by auto
  have "LogFD (ls_file st) = fd" using log_run_fd [OF I0 ops n st(1)] by simp
  with fd have fd': "0 \<le> LogFD (ls_file st)" by simp
  let ?bs = "bs @ dirty (ls_vps st)"
  have "length (dirty (ls_vps st)) \<le> length js"
    using length_filter_le [of "\<lambda>b. lb_next b \<noteq> 0" "map vl_log (ls_vps st)"] log_inv_file(2) [OF st(2)] by (simp add: dirty_def)
  with FinishLog_blocks [OF st(2) n fd' ws] st(3) show ?thesis
    by (intro exI [of _ "snd (FinishLog (ls_vps st) ws (ls_file st))"] exI [of _ ?bs]) (simp add: log_session_def i st(1))
qed

section \<open>Event ids\<close>

text \<open>The ids one vproc hands out.\<close>

fun event_ids :: "nat \<Rightarrow> VPLog \<Rightarrow> 64 word list" where
  "event_ids 0 vp = []"
| "event_ids (Suc k) vp = (case NewEventId vp of (i, vp') \<Rightarrow> i # event_ids k vp')"

lemma event_ids_eq: "event_ids k vp = map (\<lambda>j. vl_eventId vp + word_of_nat j) [0..<k]"
proof (induction k arbitrary: vp)
  case (Suc k)
  have u: "[0..<Suc k] = 0 # map Suc [0..<k]" by (simp add: upt_conv_Cons map_Suc_upt)
  show ?case unfolding u by (simp add: NewEventId_def Suc.IH comp_def algebra_simps)
qed simp

lemma vl_eventId_InitLog: "i < 256 \<Longrightarrow> unat (vl_eventId (InitLog i b0 b1)) = i * 2 ^ 56"
proof -
  assume i: "i < 256"
  have a: "(word_of_nat i :: 64 word) AND 0xff = word_of_nat i"
  proof -
    have "(word_of_nat i :: 64 word) AND mask 8 = take_bit 8 (word_of_nat i)" by (simp add: take_bit_eq_mask)
    also have "\<dots> = word_of_nat (take_bit 8 i)" by (simp add: take_bit_of_nat)
    also have "take_bit 8 i = i" using i by (simp add: take_bit_nat_eq_self_iff)
    finally show ?thesis by (simp add: mask_eq_exp_minus_1)
  qed
  have "unat (push_bit 56 (word_of_nat i :: 64 word)) = take_bit 64 (push_bit 56 i)"
    using i by (simp add: unsigned_push_bit_eq unat_of_nat)
  also have "\<dots> = i * 2 ^ 56" using i by (simp add: push_bit_eq_mult take_bit_nat_eq_self_iff)
  finally show ?thesis by (simp add: InitLog_def a)
qed

lemma event_ids_distinct:
  assumes "i < 256" and "j < 256" and "k \<le> 2 ^ 56" and "l \<le> 2 ^ 56"
  shows "distinct (event_ids k (InitLog i b0 b1)) \<and>
    (i = j \<or> set (event_ids k (InitLog i b0 b1)) \<inter> set (event_ids l (InitLog j c0 c1)) = {})"
proof -
  have u: "unat (vl_eventId (InitLog i b0 b1) + word_of_nat a) = i * 2 ^ 56 + a" if "i < 256" "a < 2 ^ 56" for i a b0 b1
  proof -
    have le: "i * 2 ^ 56 + a < 2 ^ 64" using that by simp
    have "vl_eventId (InitLog i b0 b1) = word_of_nat (i * 2 ^ 56)"
      unfolding vl_eventId_InitLog [OF that(1), of b0 b1, symmetric] by (simp add: unsigned_of_nat)
    then have "vl_eventId (InitLog i b0 b1) + word_of_nat a = word_of_nat (i * 2 ^ 56 + a)" by simp
    moreover have "unat (word_of_nat (i * 2 ^ 56 + a) :: 64 word) = i * 2 ^ 56 + a" using le unfolding unat_of_nat by simp
    ultimately show ?thesis by (simp only:)
  qed
  have "inj_on (\<lambda>a. vl_eventId (InitLog i b0 b1) + word_of_nat a) {0..<k}"
  proof (rule inj_onI)
    fix a b assume "a \<in> {0..<k}" "b \<in> {0..<k}" and e: "vl_eventId (InitLog i b0 b1) + word_of_nat a = vl_eventId (InitLog i b0 b1) + word_of_nat b"
    with assms have "a < 2 ^ 56" "b < 2 ^ 56" by auto
    with u [OF assms(1)] e show "a = b" by (metis add_left_cancel)
  qed
  then have d: "distinct (event_ids k (InitLog i b0 b1))" by (simp add: event_ids_eq distinct_map)
  have "i = j" if "x \<in> set (event_ids k (InitLog i b0 b1))" "x \<in> set (event_ids l (InitLog j c0 c1))" for x
  proof -
    from that obtain a b where x: "a < k" "b < l" "x = vl_eventId (InitLog i b0 b1) + word_of_nat a" "x = vl_eventId (InitLog j c0 c1) + word_of_nat b"
      by (auto simp: event_ids_eq)
    with assms have ab: "a < 2 ^ 56" "b < 2 ^ 56" by auto
    have "i * 2 ^ 56 + a = j * 2 ^ 56 + b" using u [OF assms(1) ab(1), of b0 b1] u [OF assms(2) ab(2), of c0 c1] x by simp
    then have "(i * 2 ^ 56 + a) div 2 ^ 56 = (j * 2 ^ 56 + b) div 2 ^ 56" by simp
    then show ?thesis using ab by simp
  qed
  with d show ?thesis by blast
qed

section \<open>Properties\<close>

text \<open>C19: A logging call keeps the buffers of its vproc well typed and returns: given buffers
  of 255 entries with a next index between 0 and 255, and a \<^verbatim>\<open>write\<close> that succeeds after any
  number of interruptions, \<open>LogEvent\<close> ends with buffers of the same shape, for the same
  vproc, and the event is the last entry waiting.\<close>

theorem LogEvent_typed:
  assumes "vplog_ok vp" and "length (le_data ev) = 5" and "rs = replicate k (Failed EINTR) @ Wrote n # rs'"
  shows "case LogEvent vp f rs ev of None \<Rightarrow> False | Some (vp', f') \<Rightarrow> vplog_ok vp' \<and> vl_id vp' = vl_id vp
    \<and> le_timestamp (last (pending vp')) = le_timestamp ev"
proof -
  obtain vp' f' where e: "LogEvent vp f rs ev = Some (vp', f')" using LogEvent_returns [OF assms(1,3)] by blast
  have "last (pending vp') = ev"
    using assms(1) e by (cases rule: LogEvent_cases) (simp_all add: pending_room pending_after_swap assms(1))
  then show ?thesis using e LogEvent_keeps_ok [OF assms(1,2) e] vl_id_LogEvent [OF assms(1) e] by simp
qed

definition wev :: "32 word \<Rightarrow> LogEvent_t" where
  "wev s = \<lparr>le_timestamp = ts_val s 7, le_event = 1, le_data = replicate 5 0\<rparr>"

definition wbuf :: LogBuffer_t where
  "wbuf = \<lparr>lb_vpId = 9, lb_next = 77, lb_seqNum = 5, lb_pad = replicate 20 0, lb_log = replicate LOGBUF_SZ (wev 0)\<rparr>"

lemma wbuf_ok: "buffer_ok wbuf"
  by (simp add: wbuf_def buffer_ok_def LOGEVENT_SZB_def wev_def list_all_iff)

theorem LogEvent_typed_witness:
  "case LogEvent (InitLog 3 wbuf wbuf) \<lparr>LogFD = 3, contents = [], log_errors = []\<rparr> [Failed EINTR, Wrote 8192] (wev 2) of
     None \<Rightarrow> False | Some (vp', f') \<Rightarrow> vplog_ok vp' \<and> vl_id vp' = vl_id (InitLog 3 wbuf wbuf)
       \<and> le_timestamp (last (pending vp')) = le_timestamp (wev 2)"
  by (rule LogEvent_typed [where k = 1 and n = 8192 and rs' = "[]"])
     (simp_all add: InitLog_ok [OF wbuf_ok wbuf_ok] wev_def)

text \<open>The event ids handed out by \<open>NewEventId\<close> are unique across the system: up to
  \<open>2 ^ 56\<close> ids of one vproc are distinct, and those of two vprocs below 256 never meet.\<close>

theorem NewEventId_unique:
  assumes "i < 256" and "j < 256" and "k \<le> 2 ^ 56" and "l \<le> 2 ^ 56"
  shows "distinct (event_ids k (InitLog i b0 b1)) \<and>
    (i = j \<or> set (event_ids k (InitLog i b0 b1)) \<inter> set (event_ids l (InitLog j c0 c1)) = {})"
  by (rule event_ids_distinct [OF assms])

theorem NewEventId_unique_witness:
  "distinct (event_ids 5 (InitLog 3 wbuf wbuf)) \<and>
    ((3 :: nat) = 4 \<or> set (event_ids 5 (InitLog 3 wbuf wbuf)) \<inter> set (event_ids 6 (InitLog 4 wbuf wbuf)) = {})"
  by (rule NewEventId_unique) simp_all

end
