(* ===== verification/Log_Desc.thy ===== *)
theory Log_Desc
  imports Event_Log Json_Values
begin

text \<open>
  The description of a log: \<^verbatim>\<open>src/tools/log-common/event-desc.hxx\<close> and
  \<^verbatim>\<open>event-desc.cxx\<close> (events and their arguments), \<^verbatim>\<open>log-desc.hxx\<close> and
  \<^verbatim>\<open>log-desc.cxx\<close> (the tree of groups, its walk, the groups of an event), and
  \<^verbatim>\<open>load-log-desc.cxx\<close>, which builds both from two JSON values.

  \<^item> A pointer to an event is its position in the vector of events; a null pointer is \<open>None\<close>. A group
    is a value, so a tree of groups holds its children and the parent pointer is left out.
  \<^item> A result of \<open>0\<close> is \<open>NullResult\<close> or \<open>None\<close>, the exit for an unknown state \<open>UnknownState\<close>, and
    \<open>NullName\<close> and \<open>NullInfo\<close> are dereferences of null pointers. The messages are left out.
  \<^item> \<open>SetAttr\<close> changes the events while groups are built, so the loaders of groups pass the vector along.
  \<^item> The walk keeps its explicit stack of nodes; its measure is the number of nodes left to visit.

  The lemmas show the walk equal to the recursive one, and the layout of arguments aligned and disjoint.
\<close>

section \<open>Descriptions of events\<close>

text \<open>Event attributes are bits of a 32-bit mask.\<close>

type_synonym EventAttrs_t = "32 word"

definition ATTR_NONE :: EventAttrs_t where "ATTR_NONE = 0"
definition ATTR_PML :: EventAttrs_t where "ATTR_PML = 1"
definition ATTR_RT :: EventAttrs_t where "ATTR_RT = 2"
definition ATTR_SRC :: EventAttrs_t where "ATTR_SRC = 4"
definition ATTR_STATE :: EventAttrs_t where "ATTR_STATE = 8"
definition ATTR_INTERVAL :: EventAttrs_t where "ATTR_INTERVAL = 16"
definition ATTR_DEPENDENT :: EventAttrs_t where "ATTR_DEPENDENT = 32"

definition IN_GROUP_MASK :: EventAttrs_t where
  "IN_GROUP_MASK = or (or ATTR_STATE ATTR_INTERVAL) ATTR_DEPENDENT"

text \<open>The code of an argument type; \<open>STR n\<close>, a string of \<open>n\<close> bytes, is the code \<open>STR0 + n\<close>, which the
  enumeration's unsigned representation wraps.\<close>

type_synonym ArgType = "32 word"

definition ADDR :: ArgType where "ADDR = 0"
definition ARG_INT :: ArgType where "ARG_INT = 1"
definition WORD :: ArgType where "WORD = 2"
definition FLOAT :: ArgType where "FLOAT = 3"
definition DOUBLE :: ArgType where "DOUBLE = 4"
definition NEW_ID :: ArgType where "NEW_ID = 5"
definition EVENT_ID :: ArgType where "EVENT_ID = 6"
definition STR0 :: ArgType where "STR0 = 7"

lemmas ArgType_codes = ADDR_def ARG_INT_def WORD_def FLOAT_def DOUBLE_def NEW_ID_def EVENT_ID_def STR0_def

definition STRLEN :: "ArgType \<Rightarrow> int" where "STRLEN ty = sint ty - sint STR0"

definition MAX_STRLEN :: int where "MAX_STRLEN = 20"

record ArgDesc =
  ad_name :: string
  ad_ty :: ArgType
  ad_loc :: "32 word"
  ad_desc :: string

datatype ArgValue = V_a "64 word" | V_i "32 word" | V_w "32 word" | V_f "32 word" | V_d "64 word" | V_id "64 word" | V_string string

record EventDesc =
  ed_name :: string
  ed_id :: int
  ed_nArgs :: int
  ed_args :: "ArgDesc list option"
  ed_attrs :: EventAttrs_t
  ed_desc :: string

definition HasAttr :: "EventDesc \<Rightarrow> EventAttrs_t \<Rightarrow> bool" where
  "HasAttr ed a \<longleftrightarrow> and (ed_attrs ed) a \<noteq> 0"

definition SetAttr :: "EventDesc \<Rightarrow> EventAttrs_t \<Rightarrow> EventDesc" where
  "SetAttr ed a = ed\<lparr>ed_attrs := or (ed_attrs ed) a\<rparr>"

definition isSimpleEvent :: "EventDesc \<Rightarrow> bool" where
  "isSimpleEvent ed \<longleftrightarrow> and (ed_attrs ed) IN_GROUP_MASK = 0"

text \<open>The constructor of \<open>NoEvent\<close> leaves the attributes unset: \<open>junk\<close> is what the memory held.\<close>

definition NoEvent :: "EventAttrs_t \<Rightarrow> EventDesc" where
  "NoEvent junk = \<lparr>ed_name = ''NoEvent'', ed_id = 0, ed_nArgs = 0, ed_args = None, ed_attrs = junk, ed_desc = ''not an event''\<rparr>"

text \<open>\<open>GetArg\<close> reads argument \<open>i\<close> from the bytes of an event record; \<open>None\<close> is a failed assertion, or a read
  outside the bytes given. The bits of a floating-point number are kept as a word.\<close>

definition GetArg :: "EventDesc \<Rightarrow> byte list \<Rightarrow> int \<Rightarrow> ArgValue option" where
  "GetArg ed bs i = (case ed_args ed of
      Some ads \<Rightarrow>
        if 0 \<le> i \<and> i < ed_nArgs ed then
          let ad = ads ! nat i; ty = ad_ty ad; p = unat (ad_loc ad) in
          if ty = ADDR then map_option V_a (get64 bs p)
          else if ty = ARG_INT then map_option V_i (get32 bs p)
          else if ty = WORD then map_option V_w (get32 bs p)
          else if ty = FLOAT then map_option V_f (get32 bs p)
          else if ty = DOUBLE then map_option V_d (get64 bs p)
          else if ty = NEW_ID \<or> ty = EVENT_ID then map_option V_id (get64 bs p)
          else if 0 < STRLEN ty \<and> STRLEN ty \<le> MAX_STRLEN \<and> p + nat (STRLEN ty) \<le> length bs
            then Some (V_string (cstr (map (\<lambda>b. char_of (unat b)) (take (nat (STRLEN ty)) (drop p bs)))))
          else None
        else None
    | None \<Rightarrow> None)"

section \<open>Groups of events\<close>

text \<open>An event is named by its position in the vector of events; \<^verbatim>\<open>0\<close> pointers are \<open>None\<close>.\<close>

record StateGroup =
  sg_desc :: string
  sg_start :: int
  stateNames :: "string option list"
  stateColors :: "string option list"
  transitions :: "(nat option \<times> int) list"
  sg_events :: "nat list"

record IntervalGroup =
  ig_desc :: string
  ig_start :: nat
  ig_end :: nat
  ig_color :: "string option"

record DependentGroup =
  dg_desc :: string
  dg_src :: nat
  dg_dst :: nat
  dg_color :: "string option"

datatype Group =
    EVENT_GROUP string "nat list" "Group list"
  | STATE_GROUP StateGroup
  | INTERVAL_GROUP IntervalGroup
  | DEPENDENT_GROUP DependentGroup

definition state_contains :: "StateGroup \<Rightarrow> nat \<Rightarrow> bool" where
  "state_contains g evt \<longleftrightarrow> list_ex (\<lambda>t. fst t = Some evt) (transitions g)"

definition interval_contains :: "IntervalGroup \<Rightarrow> nat \<Rightarrow> bool" where
  "interval_contains g evt \<longleftrightarrow> ig_start g = evt \<or> ig_end g = evt"

definition dependent_contains :: "DependentGroup \<Rightarrow> nat \<Rightarrow> bool" where
  "dependent_contains g evt \<longleftrightarrow> dg_src g = evt \<or> dg_dst g = evt"

fun containsEvent :: "Group \<Rightarrow> nat \<Rightarrow> bool" where
  "containsEvent (EVENT_GROUP d es gs) evt \<longleftrightarrow> list_ex (\<lambda>e. e = evt) es \<or> list_ex (\<lambda>g. containsEvent g evt) gs"
| "containsEvent (STATE_GROUP g) evt \<longleftrightarrow> state_contains g evt"
| "containsEvent (INTERVAL_GROUP g) evt \<longleftrightarrow> interval_contains g evt"
| "containsEvent (DEPENDENT_GROUP g) evt \<longleftrightarrow> dependent_contains g evt"

text \<open>The next state on an event; the current state is ignored.\<close>

fun find_transition :: "(nat option \<times> int) list \<Rightarrow> nat \<Rightarrow> int" where
  "find_transition [] evt = -1"
| "find_transition ((e, s) # ts) evt = (if e = Some evt then s else find_transition ts evt)"

definition NextState :: "StateGroup \<Rightarrow> int \<Rightarrow> nat \<Rightarrow> int" where
  "NextState g cur evt = find_transition (transitions g) evt"

text \<open>What stops loading: a null result (returned), the message for an unknown state (exit), the
  dereference of a null state name, or of the null information of a simple event.\<close>

datatype LoadFail = NullResult | UnknownState string | NullName | NullInfo

fun ebind :: "'e + 'a \<Rightarrow> ('a \<Rightarrow> 'e + 'b) \<Rightarrow> 'e + 'b" where
  "ebind (Inl e) f = Inl e"
| "ebind (Inr x) f = f x"

fun find_state :: "string option list \<Rightarrow> string \<Rightarrow> nat \<Rightarrow> LoadFail + nat" where
  "find_state [] nm i = Inl (UnknownState nm)"
| "find_state (None # ns) nm i = Inl NullName"
| "find_state (Some n # ns) nm i = (if strcmp_eq n nm then Inr i else find_state ns nm (i + 1))"

definition new_StateGroup :: "string \<Rightarrow> nat \<Rightarrow> nat \<Rightarrow> StateGroup" where
  "new_StateGroup d nStates nTransitions =
    \<lparr>sg_desc = d, sg_start = 0, stateNames = replicate nStates None, stateColors = replicate nStates None,
     transitions = replicate nTransitions (None, 0), sg_events = []\<rparr>"

definition SetStart :: "StateGroup \<Rightarrow> string \<Rightarrow> LoadFail + StateGroup" where
  "SetStart g nm = ebind (find_state (stateNames g) nm 0) (\<lambda>s. Inr (g\<lparr>sg_start := int s\<rparr>))"

definition AddState :: "StateGroup \<Rightarrow> nat \<Rightarrow> string option \<Rightarrow> string option \<Rightarrow> StateGroup" where
  "AddState g i nm color = g\<lparr>stateNames := (stateNames g)[i := nm], stateColors := (stateColors g)[i := color]\<rparr>"

definition AddTransition :: "EventDesc list \<Rightarrow> StateGroup \<Rightarrow> nat \<Rightarrow> nat \<Rightarrow> string \<Rightarrow> LoadFail + StateGroup" where
  "AddTransition evs g i evt nm = ebind (find_state (stateNames g) nm 0) (\<lambda>s.
     let g1 = g\<lparr>transitions := (transitions g)[i := (Some evt, int s)]\<rparr> in
     if list_ex (\<lambda>e. ed_id (evs ! e) = ed_id (evs ! evt)) (sg_events g1) then Inr g1
     else Inr (g1\<lparr>sg_events := sg_events g1 @ [evt]\<rparr>))"

section \<open>Walking the groups\<close>

record 's LogDescVisitor =
  VisitGroup :: "Group \<Rightarrow> 's \<Rightarrow> 's"
  VisitStateGroup :: "StateGroup \<Rightarrow> 's \<Rightarrow> 's"
  VisitIntervalGroup :: "IntervalGroup \<Rightarrow> 's \<Rightarrow> 's"
  VisitDependentGroup :: "DependentGroup \<Rightarrow> 's \<Rightarrow> 's"

fun kids :: "Group \<Rightarrow> Group list" where
  "kids (EVENT_GROUP d es gs) = gs"
| "kids _ = []"

text \<open>A stack node: a group and the index of its next child; \<open>Next\<close> gives that child and the advanced node.\<close>

type_synonym StkNode = "Group \<times> nat"

definition Next :: "StkNode \<Rightarrow> (Group \<times> StkNode) option" where
  "Next n = (if snd n < length (kids (fst n)) then Some (kids (fst n) ! snd n, (fst n, snd n + 1)) else None)"

fun group_nodes :: "Group \<Rightarrow> nat" where
  "group_nodes (EVENT_GROUP d es gs) = 2 + sum_list (map group_nodes gs)"
| "group_nodes _ = 1"

definition node_work :: "StkNode \<Rightarrow> nat" where
  "node_work n = 1 + sum_list (map group_nodes (drop (snd n) (kids (fst n))))"

lemma Next_Some: "Next n = Some (p, n') \<Longrightarrow> node_work n = group_nodes p + node_work n' \<and> drop (snd n) (kids (fst n)) = p # drop (snd n') (kids (fst n')) \<and> fst n' = fst n"
  by (auto simp: Next_def node_work_def Cons_nth_drop_Suc [symmetric] split: if_splits)

lemma Next_None: "Next n = None \<Longrightarrow> drop (snd n) (kids (fst n)) = []"
  by (auto simp: Next_def split: if_splits)

lemma group_nodes_pos: "0 < group_nodes g"
  by (cases g) simp_all

function walk_loop :: "'s LogDescVisitor \<Rightarrow> StkNode list \<Rightarrow> 's \<Rightarrow> 's" where
  "walk_loop vis [] s = s"
| "walk_loop vis (n # stk) s = (case Next n of
      None \<Rightarrow> walk_loop vis stk s
    | Some (p, n') \<Rightarrow> (case p of
        EVENT_GROUP d es gs \<Rightarrow> walk_loop vis ((p, 0) # n' # stk) (VisitGroup vis p s)
      | STATE_GROUP g \<Rightarrow> walk_loop vis (n' # stk) (VisitStateGroup vis g s)
      | INTERVAL_GROUP g \<Rightarrow> walk_loop vis (n' # stk) (VisitIntervalGroup vis g s)
      | DEPENDENT_GROUP g \<Rightarrow> walk_loop vis (n' # stk) (VisitDependentGroup vis g s)))"
  by pat_completeness auto
termination
  by (relation "measure (\<lambda>(vis, stk, s). sum_list (map node_work stk))")
    (auto dest!: Next_Some simp: node_work_def)

definition PreOrderWalk :: "'s LogDescVisitor \<Rightarrow> Group \<Rightarrow> 's \<Rightarrow> 's" where
  "PreOrderWalk vis root s = walk_loop vis [(root, 0)] (VisitGroup vis root s)"

text \<open>The reference: a recursive walk.\<close>

fun preorder :: "'s LogDescVisitor \<Rightarrow> Group \<Rightarrow> 's \<Rightarrow> 's" where
  "preorder vis (EVENT_GROUP d es gs) s = fold (preorder vis) gs (VisitGroup vis (EVENT_GROUP d es gs) s)"
| "preorder vis (STATE_GROUP g) s = VisitStateGroup vis g s"
| "preorder vis (INTERVAL_GROUP g) s = VisitIntervalGroup vis g s"
| "preorder vis (DEPENDENT_GROUP g) s = VisitDependentGroup vis g s"

lemma walk_loop_folds: "walk_loop vis stk s = fold (\<lambda>n. fold (preorder vis) (drop (snd n) (kids (fst n)))) stk s"
proof (induction vis stk s rule: walk_loop.induct)
  case (2 vis n stk s)
  show ?case
  proof (cases "Next n")
    case None
    then show ?thesis using 2(1) by (simp add: Next_None)
  next
    case (Some pn)
    obtain p n' where pn: "pn = (p, n')" by (cases pn)
    note d = Next_Some [OF Some [unfolded pn]]
    have k: "drop (snd n) (kids (fst n)) = p # drop (snd n') (kids (fst n'))" using d by simp
    show ?thesis using 2(2-5) [OF Some pn [symmetric]] by (cases p) (simp_all add: Some pn k)
  qed
qed simp

lemma walk_is_preorder:
  "PreOrderWalk vis (EVENT_GROUP d es gs) s = preorder vis (EVENT_GROUP d es gs) s"
  by (simp add: PreOrderWalk_def walk_loop_folds)

text \<open>C36: The walk of the groups with its explicit stack ends, and visits what the recursive pre-order
  walk visits, in the same order, whatever the visitor does.\<close>

theorem PreOrderWalk_preorder:
  "PreOrderWalk vis (EVENT_GROUP d es gs) s = preorder vis (EVENT_GROUP d es gs) s"
  by (rule walk_is_preorder)

section \<open>The groups of an event\<close>

text \<open>Vectors of group pointers that may be null.\<close>

record EventGrpInfo =
  stateGrps :: "StateGroup list option"
  intervalGrps :: "IntervalGroup list option"
  dependentGrps :: "DependentGroup list option"

record LogFileDesc =
  ld_root :: "Group option"
  ld_events :: "EventDesc list"
  ld_info :: "EventGrpInfo option list"

definition new_LogFileDesc :: "EventDesc list \<Rightarrow> LogFileDesc" where
  "new_LogFileDesc evts = \<lparr>ld_root = None, ld_events = evts, ld_info = []\<rparr>"

fun find_event :: "EventDesc list \<Rightarrow> string \<Rightarrow> nat \<Rightarrow> nat option" where
  "find_event [] name i = None"
| "find_event (ed # eds) name i = (if strcmp_eq name (ed_name ed) then Some i else find_event eds name (i + 1))"

definition FindEventByName :: "EventDesc list \<Rightarrow> string \<Rightarrow> nat option" where
  "FindEventByName eds name = find_event eds name 0"

definition info_of :: "LogFileDesc \<Rightarrow> nat \<Rightarrow> EventGrpInfo option" where
  "info_of ld e = (let id = nat (ed_id (ld_events ld ! e)) in if id < length (ld_info ld) then ld_info ld ! id else None)"

text \<open>The lists of an event: the outer option is the read of a null information record.\<close>

definition StateGroups :: "LogFileDesc \<Rightarrow> nat \<Rightarrow> StateGroup list option option" where
  "StateGroups ld e = (if HasAttr (ld_events ld ! e) ATTR_STATE then map_option stateGrps (info_of ld e) else Some None)"

definition IntervalGroups :: "LogFileDesc \<Rightarrow> nat \<Rightarrow> IntervalGroup list option option" where
  "IntervalGroups ld e = (if HasAttr (ld_events ld ! e) ATTR_INTERVAL then map_option intervalGrps (info_of ld e) else Some None)"

definition DependentGroups :: "LogFileDesc \<Rightarrow> nat \<Rightarrow> DependentGroup list option option" where
  "DependentGroups ld e = (if HasAttr (ld_events ld ! e) ATTR_DEPENDENT then map_option dependentGrps (info_of ld e) else Some None)"

definition AddGroup :: "'a list option \<Rightarrow> 'a \<Rightarrow> 'a list option" where
  "AddGroup v g = (case v of None \<Rightarrow> Some [g] | Some gs \<Rightarrow> Some (gs @ [g]))"

text \<open>Updating the information of an event; \<open>Inl NullInfo\<close> is the dereference of a null or missing record.\<close>

definition at_info :: "EventDesc list \<Rightarrow> nat \<Rightarrow> (EventGrpInfo \<Rightarrow> EventGrpInfo) \<Rightarrow> LoadFail + EventGrpInfo option list \<Rightarrow> LoadFail + EventGrpInfo option list" where
  "at_info eds e f r = ebind r (\<lambda>info. let id = nat (ed_id (eds ! e)) in
     if id < length info then (case info ! id of None \<Rightarrow> Inl NullInfo | Some gi \<Rightarrow> Inr (info[id := Some (f gi)]))
     else Inl NullInfo)"

definition add_state :: "StateGroup \<Rightarrow> EventGrpInfo \<Rightarrow> EventGrpInfo" where
  "add_state g gi = gi\<lparr>stateGrps := AddGroup (stateGrps gi) g\<rparr>"

definition add_interval :: "IntervalGroup \<Rightarrow> EventGrpInfo \<Rightarrow> EventGrpInfo" where
  "add_interval g gi = gi\<lparr>intervalGrps := AddGroup (intervalGrps gi) g\<rparr>"

definition add_dependent :: "DependentGroup \<Rightarrow> EventGrpInfo \<Rightarrow> EventGrpInfo" where
  "add_dependent g gi = gi\<lparr>dependentGrps := AddGroup (dependentGrps gi) g\<rparr>"

definition info_visitor :: "EventDesc list \<Rightarrow> (LoadFail + EventGrpInfo option list) LogDescVisitor" where
  "info_visitor eds = \<lparr>
     VisitGroup = \<lambda>g r. r,
     VisitStateGroup = \<lambda>g r. fold (\<lambda>e. at_info eds e (add_state g)) (sg_events g) r,
     VisitIntervalGroup = \<lambda>g r. at_info eds (ig_end g) (add_interval g) (at_info eds (ig_start g) (add_interval g) r),
     VisitDependentGroup = \<lambda>g r. at_info eds (dg_dst g) (add_dependent g) (at_info eds (dg_src g) (add_dependent g) r)\<rparr>"

definition initial_info :: "EventDesc list \<Rightarrow> EventGrpInfo option list" where
  "initial_info eds = map (\<lambda>ed. if isSimpleEvent ed then None else Some \<lparr>stateGrps = None, intervalGrps = None, dependentGrps = None\<rparr>) eds"

definition InitEventInfo :: "LogFileDesc \<Rightarrow> Group \<Rightarrow> LoadFail + LogFileDesc" where
  "InitEventInfo ld root =
    ebind (PreOrderWalk (info_visitor (ld_events ld)) root (Inr (initial_info (ld_events ld))))
      (\<lambda>info. Inr (ld\<lparr>ld_info := info\<rparr>))"

section \<open>Loading the description of events\<close>

definition ArgTyInfo :: "(nat \<times> nat) list" where
  "ArgTyInfo = [(8, 8), (4, 4), (4, 4), (4, 4), (8, 8), (8, 8), (8, 8)]"

text \<open>\<^verbatim>\<open>sscanf (s, "str%d", &n)\<close>.\<close>

definition scan_str :: "string \<Rightarrow> int option" where
  "scan_str s = (if take 3 s = ''str'' \<and> snd (strtol (drop 3 s) 10) \<noteq> drop 3 s then Some (fst (strtol (drop 3 s) 10)) else None)"

definition arg_type :: "string \<Rightarrow> ArgType option" where
  "arg_type tyStr =
    (if strcasecmp_eq tyStr ''addr'' then Some ADDR
     else if strcasecmp_eq tyStr ''int'' then Some ARG_INT
     else if strcasecmp_eq tyStr ''word'' then Some WORD
     else if strcasecmp_eq tyStr ''float'' then Some FLOAT
     else if strcasecmp_eq tyStr ''double'' then Some DOUBLE
     else if strcasecmp_eq tyStr ''new-id'' then Some NEW_ID
     else if strcasecmp_eq tyStr ''id'' then Some EVENT_ID
     else map_option (\<lambda>n. STR0 + word_of_int n) (scan_str tyStr))"

text \<open>Size and alignment, as 32-bit integers.\<close>

definition size_align :: "ArgType \<Rightarrow> 32 word \<times> 32 word" where
  "size_align ty = (if STR0 \<le> ty then (ty - STR0, 1)
     else (of_nat (fst (ArgTyInfo ! unat ty)), of_nat (fst (ArgTyInfo ! unat ty))))"

definition align_up :: "32 word \<Rightarrow> 32 word \<Rightarrow> 32 word" where
  "align_up location align = and (location + (align - 1)) (not (align - 1))"

text \<open>The location of an argument; \<open>None\<close> when the location given is not an integer.\<close>

definition arg_location :: "JSON_Value_t option \<Rightarrow> 32 word \<Rightarrow> 32 word \<Rightarrow> 32 word option" where
  "arg_location loc location align = (case loc of
      Some (JSON_int i) \<Rightarrow> Some (word_of_int i)
    | Some _ \<Rightarrow> None
    | None \<Rightarrow> Some (align_up location align))"

definition GetArg1 :: "32 word \<Rightarrow> JSON_Value_t \<Rightarrow> (ArgDesc \<times> 32 word) option" where
  "GetArg1 location v =
    (let arg = Some v in
     case (JSON_GetString (JSON_GetField arg ''name''), JSON_GetString (JSON_GetField arg ''ty''), JSON_GetString (JSON_GetField arg ''desc'')) of
       (Some name, Some tyStr, Some d) \<Rightarrow> (case arg_type tyStr of
           None \<Rightarrow> None
         | Some ty \<Rightarrow> let (sz, align) = size_align ty in
             (case arg_location (JSON_GetField arg ''loc'') location align of
                None \<Rightarrow> None
              | Some l \<Rightarrow> Some (\<lparr>ad_name = name, ad_ty = ty, ad_loc = l, ad_desc = d\<rparr>, l + sz)))
     | _ \<Rightarrow> None)"

fun args_loop :: "32 word \<Rightarrow> JSON_Value_t list \<Rightarrow> ArgDesc list option" where
  "args_loop location [] = Some []"
| "args_loop location (v # vs) = (case GetArg1 location v of
      None \<Rightarrow> None
    | Some (ad, nextLoc) \<Rightarrow> map_option (\<lambda>ads. ad # ads) (args_loop nextLoc vs))"

definition GetArgs :: "JSON_Value_t list \<Rightarrow> ArgDesc list option" where
  "GetArgs vs = args_loop 12 vs"

text \<open>One entry of an \<^verbatim>\<open>"attrs"\<close> array.\<close>

definition attr_bits :: "JSON_Value_t \<Rightarrow> EventAttrs_t option" where
  "attr_bits v = (case JSON_GetString (Some v) of
      None \<Rightarrow> None
    | Some a \<Rightarrow> if strcasecmp_eq a ''src'' then Some (or ATTR_SRC ATTR_DEPENDENT)
        else if strcasecmp_eq a ''pml'' then Some ATTR_PML
        else if strcasecmp_eq a ''rt'' then Some ATTR_RT
        else None)"

fun attrs_loop :: "EventAttrs_t \<Rightarrow> JSON_Value_t list \<Rightarrow> EventAttrs_t option" where
  "attrs_loop a [] = Some a"
| "attrs_loop a (v # vs) = (case attr_bits v of None \<Rightarrow> None | Some b \<Rightarrow> attrs_loop (or a b) vs)"

text \<open>The field \<^verbatim>\<open>"attrs"\<close> is looked up in the array of arguments, as the code has it.\<close>

definition event_attrs :: "JSON_Value_t \<Rightarrow> EventAttrs_t option" where
  "event_attrs args = (case JSON_GetField (Some args) ''attrs'' of
      None \<Rightarrow> Some ATTR_NONE
    | Some (JSON_array vs) \<Rightarrow> attrs_loop ATTR_NONE vs
    | Some _ \<Rightarrow> None)"

text \<open>An array has no fields, so the attributes are never found.\<close>

lemma event_attrs_ignored: "event_attrs (JSON_array vs) = Some ATTR_NONE"
  by (simp add: event_attrs_def JSON_GetField_def)

definition NewEvent :: "int \<Rightarrow> JSON_Value_t \<Rightarrow> EventDesc option" where
  "NewEvent nextId v =
    (case (JSON_GetString (JSON_GetField (Some v) ''name''), JSON_GetField (Some v) ''args'', JSON_GetString (JSON_GetField (Some v) ''desc'')) of
       (Some name, Some (JSON_array vs), Some d) \<Rightarrow>
         (case (if vs = [] then Some None else map_option Some (GetArgs vs)) of
            None \<Rightarrow> None
          | Some ads \<Rightarrow> (case event_attrs (JSON_array vs) of
              None \<Rightarrow> None
            | Some a \<Rightarrow> Some \<lparr>ed_name = name, ed_id = nextId, ed_nArgs = int (length vs), ed_args = ads, ed_attrs = a, ed_desc = d\<rparr>))
     | _ \<Rightarrow> None)"

fun events_loop :: "int \<Rightarrow> JSON_Value_t list \<Rightarrow> EventDesc list option" where
  "events_loop nextId [] = Some []"
| "events_loop nextId (v # vs) = (case NewEvent nextId v of
      None \<Rightarrow> None
    | Some ed \<Rightarrow> map_option (\<lambda>eds. ed # eds) (events_loop (nextId + 1) vs))"

definition GetLogEventsFile :: "EventAttrs_t \<Rightarrow> JSON_Value_t option \<Rightarrow> LogFileDesc option" where
  "GetLogEventsFile junk v = (case v of
      None \<Rightarrow> None
    | Some _ \<Rightarrow> (case JSON_GetField v ''events'' of
        Some (JSON_array vs) \<Rightarrow> map_option (\<lambda>eds. new_LogFileDesc (NoEvent junk # eds)) (events_loop 1 vs)
      | _ \<Rightarrow> None))"

section \<open>Loading the groups\<close>

definition GetEventByName :: "EventDesc list \<Rightarrow> JSON_Value_t option \<Rightarrow> nat option" where
  "GetEventByName eds v = (case JSON_GetString v of None \<Rightarrow> None | Some n \<Rightarrow> FindEventByName eds n)"

definition GetEventField :: "EventDesc list \<Rightarrow> JSON_Value_t option \<Rightarrow> string \<Rightarrow> nat option" where
  "GetEventField eds v name = (case JSON_GetField v name of None \<Rightarrow> None | Some f \<Rightarrow> GetEventByName eds (Some f))"

definition SetAttrAt :: "EventDesc list \<Rightarrow> nat \<Rightarrow> EventAttrs_t \<Rightarrow> EventDesc list" where
  "SetAttrAt eds e a = eds[e := SetAttr (eds ! e) a]"

definition of_null :: "'a option \<Rightarrow> LoadFail + 'a" where
  "of_null x = (case x of None \<Rightarrow> Inl NullResult | Some y \<Rightarrow> Inr y)"

fun group_events :: "EventDesc list \<Rightarrow> JSON_Value_t list \<Rightarrow> LoadFail + nat list" where
  "group_events eds [] = Inr []"
| "group_events eds (v # vs) = ebind (of_null (GetEventByName eds (Some v))) (\<lambda>e. ebind (group_events eds vs) (\<lambda>es. Inr (e # es)))"

fun states_loop :: "nat \<Rightarrow> (JSON_Value_t \<times> JSON_Value_t option) list \<Rightarrow> StateGroup \<Rightarrow> StateGroup" where
  "states_loop i [] g = g"
| "states_loop i ((s, c) # ss) g = states_loop (i + 1) ss (AddState g i (JSON_GetString (Some s)) (JSON_GetString c))"

fun transitions_loop :: "nat \<Rightarrow> JSON_Value_t list \<Rightarrow> EventDesc list \<Rightarrow> StateGroup \<Rightarrow> LoadFail + StateGroup \<times> EventDesc list" where
  "transitions_loop i [] eds g = Inr (g, eds)"
| "transitions_loop i (t # ts) eds g = (case t of
      JSON_array [ev, nm] \<Rightarrow>
        (case (GetEventByName eds (Some ev), JSON_GetString (Some nm)) of
           (Some e, Some s) \<Rightarrow> ebind (AddTransition eds g i e s) (\<lambda>g1. transitions_loop (i + 1) ts (SetAttrAt eds e ATTR_STATE) g1)
         | _ \<Rightarrow> Inl NullResult)
    | _ \<Rightarrow> Inl NullResult)"

definition colors_of :: "JSON_Value_t list \<Rightarrow> JSON_Value_t option \<Rightarrow> JSON_Value_t option list option" where
  "colors_of states colors = (case colors of
      None \<Rightarrow> Some (map (\<lambda>_. None) states)
    | Some (JSON_array cs) \<Rightarrow> if length cs = length states then Some (map Some cs) else None
    | Some _ \<Rightarrow> None)"

definition new_state_group :: "EventDesc list \<Rightarrow> JSON_Value_t option \<Rightarrow> string \<Rightarrow> LoadFail + StateGroup \<times> EventDesc list" where
  "new_state_group eds v d =
    (case (JSON_GetString (JSON_GetField v ''start''), JSON_GetField v ''states'', JSON_GetField v ''transitions'') of
       (Some start, Some (JSON_array states), Some (JSON_array trs)) \<Rightarrow>
         ebind (of_null (colors_of states (JSON_GetField v ''colors''))) (\<lambda>cs.
           if states = [] \<or> trs = [] then Inl NullResult
           else ebind (transitions_loop 0 trs eds (states_loop 0 (zip states cs) (new_StateGroup d (length states) (length trs))))
             (\<lambda>(g, eds1). ebind (SetStart g start) (\<lambda>g1. Inr (g1, eds1))))
     | _ \<Rightarrow> Inl NullResult)"

definition new_interval_group :: "EventDesc list \<Rightarrow> JSON_Value_t option \<Rightarrow> string \<Rightarrow> LoadFail + IntervalGroup \<times> EventDesc list" where
  "new_interval_group eds v d =
    (case (GetEventField eds v ''start'', GetEventField eds v ''end'') of
       (Some a, Some b) \<Rightarrow> Inr (\<lparr>ig_desc = d, ig_start = a, ig_end = b, ig_color = JSON_GetString (JSON_GetField v ''color'')\<rparr>,
         SetAttrAt (SetAttrAt eds a ATTR_INTERVAL) b ATTR_INTERVAL)
     | _ \<Rightarrow> Inl NullResult)"

definition new_dependent_group :: "EventDesc list \<Rightarrow> JSON_Value_t option \<Rightarrow> string \<Rightarrow> LoadFail + DependentGroup \<times> EventDesc list" where
  "new_dependent_group eds v d =
    (case (GetEventField eds v ''src'', GetEventField eds v ''dst'') of
       (Some a, Some b) \<Rightarrow> Inr (\<lparr>dg_desc = d, dg_src = a, dg_dst = b, dg_color = JSON_GetString (JSON_GetField v ''color'')\<rparr>,
         SetAttrAt (SetAttrAt eds a ATTR_DEPENDENT) b ATTR_DEPENDENT)
     | _ \<Rightarrow> Inl NullResult)"

lemma find_field_size: "find_field fs n = Some v \<Longrightarrow> size v < Suc (size_list (size_prod (\<lambda>x. 0) size) fs)"
  by (induction fs n rule: find_field.induct) (auto split: if_splits)

lemma array_field_size: "Some (JSON_array vs) = find_field fs n \<Longrightarrow> size_list size vs < Suc (size_list (size_prod (\<lambda>x. 0) size) fs)"
  using find_field_size [of fs n "JSON_array vs"] by simp

lemma ebind_cong [fundef_cong]:
  "\<lbrakk>r = r'; \<And>x. r' = Inr x \<Longrightarrow> f x = f' x\<rbrakk> \<Longrightarrow> ebind r f = ebind r' f'"
  by (cases r') auto

definition tag_group :: "('a \<Rightarrow> Group) \<Rightarrow> 'a \<times> EventDesc list \<Rightarrow> LoadFail + Group \<times> EventDesc list" where
  "tag_group c r = Inr (c (fst r), snd r)"

function NewGroup :: "EventDesc list \<Rightarrow> JSON_Value_t \<Rightarrow> LoadFail + Group \<times> EventDesc list"
  and NewGroups :: "EventDesc list \<Rightarrow> JSON_Value_t list \<Rightarrow> LoadFail + Group list \<times> EventDesc list" where
  "NewGroup eds v =
    (case (JSON_GetString (JSON_GetField (Some v) ''desc''), JSON_GetString (JSON_GetField (Some v) ''kind'')) of
       (Some d, Some kindStr) \<Rightarrow>
         if strcasecmp_eq kindStr ''group'' then
           (case (JSON_GetField (Some v) ''events'', JSON_GetField (Some v) ''groups'') of
              (Some (JSON_array evs), Some (JSON_array groups)) \<Rightarrow>
                ebind (group_events eds evs) (\<lambda>es. ebind (NewGroups eds groups) (\<lambda>(gs, eds1). Inr (EVENT_GROUP d es gs, eds1)))
            | _ \<Rightarrow> Inl NullResult)
         else if strcasecmp_eq kindStr ''state'' then ebind (new_state_group eds (Some v) d) (tag_group STATE_GROUP)
         else if strcasecmp_eq kindStr ''interval'' then ebind (new_interval_group eds (Some v) d) (tag_group INTERVAL_GROUP)
         else if strcasecmp_eq kindStr ''dependent'' then ebind (new_dependent_group eds (Some v) d) (tag_group DEPENDENT_GROUP)
         else Inl NullResult
     | _ \<Rightarrow> Inl NullResult)"
| "NewGroups eds [] = Inr ([], eds)"
| "NewGroups eds (g # gs) =
    (case g of
       JSON_object _ \<Rightarrow> ebind (NewGroup eds g) (\<lambda>(p, eds1). ebind (NewGroups eds1 gs) (\<lambda>(ps, eds2). Inr (p # ps, eds2)))
     | _ \<Rightarrow> Inl NullResult)"
  by pat_completeness auto
termination
  by (relation "measure (\<lambda>r. case r of Inl (eds, v) \<Rightarrow> size v | Inr (eds, vs) \<Rightarrow> size_list size vs)")
    (auto simp: JSON_GetField_def dest: array_field_size split: option.splits JSON_Value_t.splits)

definition GetLogViewFile :: "LogFileDesc \<Rightarrow> JSON_Value_t option \<Rightarrow> LoadFail + LogFileDesc" where
  "GetLogViewFile ld v =
    (case v of
       None \<Rightarrow> Inl NullResult
     | Some _ \<Rightarrow> (case (JSON_GetString (JSON_GetField v ''date''), JSON_GetField v ''version'', JSON_GetField v ''root'') of
         (Some dt, Some ver, Some (JSON_object fs)) \<Rightarrow>
           ebind (NewGroup (ld_events ld) (JSON_object fs)) (\<lambda>(grp, eds). case grp of
               EVENT_GROUP d es gs \<Rightarrow> InitEventInfo (ld\<lparr>ld_root := Some grp, ld_events := eds\<rparr>) grp
             | _ \<Rightarrow> Inl NullResult)
       | _ \<Rightarrow> Inl NullResult))"

definition LoadLogDesc :: "EventAttrs_t \<Rightarrow> JSON_Value_t option \<Rightarrow> JSON_Value_t option \<Rightarrow> LoadFail + LogFileDesc" where
  "LoadLogDesc junk descFile viewFile = ebind (of_null (GetLogEventsFile junk descFile)) (\<lambda>ld. GetLogViewFile ld viewFile)"

section \<open>The layout of arguments\<close>

lemma and_not_mask_unat32: "unat (and (a :: 32 word) (not (mask n))) = unat a div 2 ^ n * 2 ^ n"
proof -
  have e: "and a (not (mask n)) = push_bit n (drop_bit n a)"
    by (rule bit_word_eqI) (auto simp: bit_simps)
  have "unat (drop_bit n a) = drop_bit n (take_bit LENGTH(32) (unat a))" by (rule unsigned_drop_bit_eq)
  also have "take_bit LENGTH(32) (unat a) = unat a" by (rule take_bit_nat_eq_self) (rule unsigned_less)
  finally have d: "unat (drop_bit n a) = unat a div 2 ^ n" by (simp only: drop_bit_eq_div)
  have "unat a div 2 ^ n * 2 ^ n \<le> unat a" by (rule div_times_less_eq_dividend)
  also have "unat a < 2 ^ 32" using unsigned_less [of a] by simp
  finally have l: "unat a div 2 ^ n * 2 ^ n < 2 ^ 32" .
  have "unat (and a (not (mask n))) = take_bit 32 (push_bit n (unat (drop_bit n a)))"
    unfolding e by (simp add: unsigned_push_bit_eq)
  also have "\<dots> = unat a div 2 ^ n * 2 ^ n" using l by (simp only: d push_bit_eq_mult take_bit_nat_eq_self)
  finally show ?thesis .
qed

definition alignment :: "32 word \<Rightarrow> nat \<Rightarrow> bool" where
  "alignment a k \<longleftrightarrow> k \<in> {0, 2, 3} \<and> a = 2 ^ k"

lemma align_up_aligned:
  assumes "alignment a k" and "unat l < 2 ^ 31"
  shows "unat l \<le> unat (align_up l a)" "unat (align_up l a) < unat l + 2 ^ k" "2 ^ k dvd unat (align_up l a)"
proof -
  have k: "k \<in> {0, 2, 3}" and a: "a = 2 ^ k" using assms(1) by (auto simp: alignment_def)
  have "unat (2 ^ k - 1 :: 32 word) = 2 ^ k - 1" using k by auto
  moreover have "unat l + (2 ^ k - 1) < 2 ^ 32" using assms(2) k by auto
  ultimately have s: "unat (l + (2 ^ k - 1)) = unat l + (2 ^ k - 1)"
    using unat_add_lem [of l "2 ^ k - 1"] by simp
  have e: "unat (align_up l a) = (unat l + (2 ^ k - 1)) div 2 ^ k * 2 ^ k"
    unfolding align_up_def a s [symmetric] and_not_mask_unat32 [symmetric] mask_eq_exp_minus_1 ..
  have "(unat l + (2 ^ k - 1)) div 2 ^ k * 2 ^ k + (unat l + (2 ^ k - 1)) mod 2 ^ k = unat l + (2 ^ k - 1)" by (rule div_mult_mod_eq)
  moreover have "(unat l + (2 ^ k - 1)) mod 2 ^ k < 2 ^ k" by simp
  moreover have "0 < (2::nat) ^ k" by simp
  ultimately show "unat l \<le> unat (align_up l a)" "unat (align_up l a) < unat l + 2 ^ k" unfolding e by linarith+
  show "2 ^ k dvd unat (align_up l a)" unfolding e by simp
qed

definition arg_size :: "ArgType \<Rightarrow> nat" where "arg_size ty = unat (fst (size_align ty))"
definition arg_align :: "ArgType \<Rightarrow> nat" where "arg_align ty = unat (snd (size_align ty))"

lemma size_align_alignment: "\<exists>k. alignment (snd (size_align ty)) k \<and> arg_align ty = 2 ^ k"
proof (cases "STR0 \<le> ty")
  case True
  then show ?thesis by (intro exI [of _ 0]) (simp add: size_align_def alignment_def arg_align_def)
next
  case False
  then have "unat ty < 7" by (simp add: STR0_def word_le_nat_alt)
  then have "unat ty = 0 \<or> unat ty = 1 \<or> unat ty = 2 \<or> unat ty = 3 \<or> unat ty = 4 \<or> unat ty = 5 \<or> unat ty = 6" by linarith
  then have "snd (size_align ty) = 2 ^ 2 \<or> snd (size_align ty) = 2 ^ 3"
    using False by (auto simp: size_align_def ArgTyInfo_def)
  then show ?thesis
  proof
    assume "snd (size_align ty) = 2 ^ 2"
    then show ?thesis by (intro exI [of _ 2]) (simp add: alignment_def arg_align_def)
  next
    assume "snd (size_align ty) = 2 ^ 3"
    then show ?thesis by (intro exI [of _ 3]) (simp add: alignment_def arg_align_def)
  qed
qed

text \<open>Each argument starts, aligned, at or after the end of the one before it.\<close>

fun laid_out :: "nat \<Rightarrow> ArgDesc list \<Rightarrow> bool" where
  "laid_out l [] \<longleftrightarrow> True"
| "laid_out l (ad # ads) \<longleftrightarrow> l \<le> unat (ad_loc ad) \<and> arg_align (ad_ty ad) dvd unat (ad_loc ad)
     \<and> unat (ad_loc ad) \<le> l + 7 \<and> laid_out (unat (ad_loc ad) + arg_size (ad_ty ad)) ads"

lemma GetArg1_SomeD:
  assumes "GetArg1 l v = Some (ad, l')" "JSON_GetField (Some v) ''loc'' = None"
  shows "ad_loc ad = align_up l (snd (size_align (ad_ty ad))) \<and> l' = ad_loc ad + fst (size_align (ad_ty ad))"
  using assms by (auto simp: GetArg1_def Let_def arg_location_def split: option.splits prod.splits)

lemma args_loop_laid_out:
  assumes "args_loop l vs = Some ads" "\<forall>v \<in> set vs. JSON_GetField (Some v) ''loc'' = None"
    "\<forall>ad \<in> set ads. arg_size (ad_ty ad) \<le> 20" "unat l + 27 * length vs < 2 ^ 31"
  shows "laid_out (unat l) ads"
  using assms
proof (induction l vs arbitrary: ads rule: args_loop.induct)
  case (2 l v vs)
  from 2(2) obtain ad l' ads' where g: "GetArg1 l v = Some (ad, l')" and r: "args_loop l' vs = Some ads'" and e: "ads = ad # ads'"
    by (auto split: option.splits prod.splits)
  have s: "ad_loc ad = align_up l (snd (size_align (ad_ty ad)))" "l' = ad_loc ad + fst (size_align (ad_ty ad))"
    using GetArg1_SomeD [OF g] 2(3) by auto
  obtain k where k: "alignment (snd (size_align (ad_ty ad))) k" "arg_align (ad_ty ad) = 2 ^ k" using size_align_alignment by blast
  have l: "unat l < 2 ^ 31" using 2(5) by simp
  note a = align_up_aligned [OF k(1) l, folded s(1)]
  have "(2::nat) ^ k \<le> 8" using k(1) by (auto simp: alignment_def)
  then have b: "unat (ad_loc ad) \<le> unat l + 7" using a(2) by linarith
  have z: "arg_size (ad_ty ad) \<le> 20" using 2(4) e by simp
  have "unat (ad_loc ad) + unat (fst (size_align (ad_ty ad))) < 2 ^ LENGTH(32)"
    using b z 2(5) by (simp add: arg_size_def)
  then have l': "unat l' = unat (ad_loc ad) + arg_size (ad_ty ad)" unfolding s(2) arg_size_def by (simp only: unat_add_lem)
  have "unat l' + 27 * length vs < 2 ^ 31" using 2(5) b z unfolding l' by simp
  then have "laid_out (unat l') ads'" using 2(1) [OF g refl r] 2(3,4) e by simp
  then show ?case using a(1,3) b by (simp add: e k(2) l')
qed simp

lemma laid_out_after: "laid_out l ads \<Longrightarrow> ad \<in> set ads \<Longrightarrow> l \<le> unat (ad_loc ad)"
  by (induction l ads rule: laid_out.induct) auto

lemma laid_out_nth:
  "laid_out l ads \<Longrightarrow> j < length ads \<Longrightarrow> arg_align (ad_ty (ads ! j)) dvd unat (ad_loc (ads ! j)) \<and>
     (\<forall>i < j. unat (ad_loc (ads ! i)) + arg_size (ad_ty (ads ! i)) \<le> unat (ad_loc (ads ! j)))"
proof (induction l ads arbitrary: j rule: laid_out.induct)
  case (2 l ad ads)
  show ?case
  proof (cases j)
    case (Suc m)
    then have m: "m < length ads" using 2(3) by simp
    have "unat (ad_loc ad) + arg_size (ad_ty ad) \<le> unat (ad_loc (ads ! m))" using laid_out_after [OF _ nth_mem [OF m]] 2(2) by simp
    then show ?thesis using 2(1) [OF _ m] 2(2) Suc by (auto simp: less_Suc_eq_0_disj)
  qed (use 2 in simp)
qed simp

text \<open>C37: Where a description gives no locations, every argument of an event starts at byte 12 or later, at a multiple of its
  alignment, and after the end of every argument before it.\<close>

theorem GetArgs_layout:
  assumes "GetArgs vs = Some ads" and "\<forall>v \<in> set vs. JSON_GetField (Some v) ''loc'' = None"
    and "\<forall>ad \<in> set ads. arg_size (ad_ty ad) \<le> 20" and "length vs \<le> 1000000"
    and "j < length ads"
  shows "12 \<le> unat (ad_loc (ads ! j)) \<and> arg_align (ad_ty (ads ! j)) dvd unat (ad_loc (ads ! j)) \<and>
    (\<forall>i < j. unat (ad_loc (ads ! i)) + arg_size (ad_ty (ads ! i)) \<le> unat (ad_loc (ads ! j)))"
proof -
  have "laid_out (unat (12 :: 32 word)) ads"
    using assms by (intro args_loop_laid_out [OF assms(1) [unfolded GetArgs_def]]) simp_all
  then show ?thesis using laid_out_nth [OF _ assms(5)] laid_out_after [OF _ nth_mem [OF assms(5)]] by fastforce
qed

definition sample_args :: "JSON_Value_t list" where
  "sample_args =
    [JSON_object [(''name'', JSON_string ''a''), (''ty'', JSON_string ''int''), (''desc'', JSON_string ''x'')],
     JSON_object [(''name'', JSON_string ''b''), (''ty'', JSON_string ''addr''), (''desc'', JSON_string ''y'')]]"

lemma sample_args_read: "GetArgs sample_args = Some [
    \<lparr>ad_name = ''a'', ad_ty = 1, ad_loc = 12, ad_desc = ''x''\<rparr>,
    \<lparr>ad_name = ''b'', ad_ty = 0, ad_loc = 16, ad_desc = ''y''\<rparr>]"
  by code_simp

theorem GetArgs_layout_witness:
  "unat (ad_loc (the (GetArgs sample_args) ! 0)) + arg_size (ad_ty (the (GetArgs sample_args) ! 0)) \<le> unat (ad_loc (the (GetArgs sample_args) ! 1))"
proof -
  have f: "\<forall>v \<in> set sample_args. JSON_GetField (Some v) ''loc'' = None" by code_simp
  have s: "\<forall>ad \<in> set (the (GetArgs sample_args)). arg_size (ad_ty ad) \<le> 20"
    unfolding sample_args_read by code_simp
  have "GetArgs sample_args = Some (the (GetArgs sample_args))" by (simp add: sample_args_read)
  moreover have "1 < length (the (GetArgs sample_args))" "length sample_args \<le> 1000000"
    unfolding sample_args_read by (simp_all add: sample_args_def)
  ultimately show ?thesis using GetArgs_layout [OF _ f s, of 1] by simp
qed

end
