(* ===== verification/Log_Desc_Correct.thy ===== *)
theory Log_Desc_Correct
  imports Log_Desc
begin

text \<open>
  What loading a log description gives. \<open>group_ok\<close> states that the events of a group have the attribute of
  its kind, and \<open>NewGroup\<close> establishes it while it keeps the identifiers and the attributes of the events
  (\<open>attrs_le\<close>); under it the visitor of \<^verbatim>\<open>_InitEventInfo\<close>
  (\<^verbatim>\<open>src/tools/log-common/log-desc.cxx\<close>) adds every group to the lists of its events, and never
  reads the null information of an event without groups.
\<close>

section \<open>The information kept for events\<close>

lemma ebind_Inr: "ebind r f = Inr y \<longleftrightarrow> (\<exists>x. r = Inr x \<and> f x = Inr y)"
  by (cases r) auto

lemma ebind_Inl: "ebind r f = Inl e \<longleftrightarrow> r = Inl e \<or> (\<exists>x. r = Inr x \<and> f x = Inl e)"
  by (cases r) auto

text \<open>An event's identifier is its position.\<close>

definition ids_ok :: "EventDesc list \<Rightarrow> bool" where
  "ids_ok eds \<longleftrightarrow> (\<forall>i < length eds. ed_id (eds ! i) = int i)"

text \<open>The same events with more attributes.\<close>

definition attrs_le :: "EventDesc list \<Rightarrow> EventDesc list \<Rightarrow> bool" where
  "attrs_le a b \<longleftrightarrow> length a = length b \<and> (\<forall>i < length a. ed_id (a ! i) = ed_id (b ! i) \<and> (\<forall>m. HasAttr (a ! i) m \<longrightarrow> HasAttr (b ! i) m))"

lemma attrs_le_refl [simp]: "attrs_le a a"
  by (simp add: attrs_le_def)

lemma attrs_le_trans: "attrs_le a b \<Longrightarrow> attrs_le b c \<Longrightarrow> attrs_le a c"
  by (simp add: attrs_le_def)

lemma attrs_le_ids: "attrs_le a b \<Longrightarrow> ids_ok a \<Longrightarrow> ids_ok b"
  by (simp add: attrs_le_def ids_ok_def)

lemma attrs_le_length: "attrs_le a b \<Longrightarrow> length b = length a"
  by (simp add: attrs_le_def)

lemma attrs_le_has: "attrs_le a b \<Longrightarrow> e < length a \<Longrightarrow> HasAttr (a ! e) m \<Longrightarrow> HasAttr (b ! e) m"
  by (simp add: attrs_le_def)

lemma or_has:
  assumes "HasAttr ed m"
  shows "HasAttr (SetAttr ed a) m"
proof -
  obtain k where "k < 32" "bit (ed_attrs ed) k" "bit m k" using assms by (auto simp: HasAttr_def bit_eq_iff bit_simps)
  then show ?thesis by (auto simp: HasAttr_def SetAttr_def bit_eq_iff bit_simps)
qed

lemma or_sets:
  assumes "a \<noteq> 0"
  shows "HasAttr (SetAttr ed a) a"
proof -
  obtain k where "k < 32" "bit a k" using assms by (auto simp: bit_eq_iff)
  then show ?thesis by (auto simp: HasAttr_def SetAttr_def bit_eq_iff bit_simps)
qed

lemma id_SetAttr [simp]: "ed_id (SetAttr ed a) = ed_id ed"
  by (simp add: SetAttr_def)

lemma SetAttrAt_le: "attrs_le eds (SetAttrAt eds e a)"
  by (cases "e < length eds") (auto simp: attrs_le_def SetAttrAt_def nth_list_update or_has)

lemma SetAttrAt_has: "e < length eds \<Longrightarrow> a \<noteq> 0 \<Longrightarrow> HasAttr (SetAttrAt eds e a ! e) a"
  by (simp add: SetAttrAt_def or_sets)

lemma length_SetAttrAt [simp]: "length (SetAttrAt eds e a) = length eds"
  by (simp add: SetAttrAt_def)

text \<open>A state group lists each of its events once, and exactly those.\<close>

definition state_ok :: "EventDesc list \<Rightarrow> StateGroup \<Rightarrow> bool" where
  "state_ok eds g \<longleftrightarrow> distinct (sg_events g) \<and> (\<forall>e. state_contains g e \<longleftrightarrow> e \<in> set (sg_events g))
    \<and> (\<forall>e \<in> set (sg_events g). e < length eds \<and> HasAttr (eds ! e) ATTR_STATE)"

definition event_in :: "EventDesc list \<Rightarrow> EventAttrs_t \<Rightarrow> nat \<Rightarrow> bool" where
  "event_in eds a e \<longleftrightarrow> e < length eds \<and> HasAttr (eds ! e) a"

fun group_ok :: "EventDesc list \<Rightarrow> Group \<Rightarrow> bool" where
  "group_ok eds (EVENT_GROUP d es gs) \<longleftrightarrow> list_all (group_ok eds) gs"
| "group_ok eds (STATE_GROUP g) \<longleftrightarrow> state_ok eds g"
| "group_ok eds (INTERVAL_GROUP g) \<longleftrightarrow> event_in eds ATTR_INTERVAL (ig_start g) \<and> event_in eds ATTR_INTERVAL (ig_end g)"
| "group_ok eds (DEPENDENT_GROUP g) \<longleftrightarrow> event_in eds ATTR_DEPENDENT (dg_src g) \<and> event_in eds ATTR_DEPENDENT (dg_dst g)"

lemma event_in_le: "attrs_le a b \<Longrightarrow> event_in a m e \<Longrightarrow> event_in b m e"
  by (simp add: event_in_def attrs_le_def)

lemma state_ok_le: "attrs_le a b \<Longrightarrow> state_ok a g \<Longrightarrow> state_ok b g"
  by (auto simp: state_ok_def attrs_le_def)

lemma group_ok_le: "attrs_le a b \<Longrightarrow> group_ok a g \<Longrightarrow> group_ok b g"
proof (induction g)
  case (EVENT_GROUP d es gs)
  then show ?case by (auto simp: list_all_iff)
qed (auto simp: state_ok_le event_in_le)

lemma FindEventByName_bound: "find_event eds n i = Some e \<Longrightarrow> e < i + length eds"
  by (induction eds n i rule: find_event.induct) (auto split: if_splits)

lemma GetEventByName_bound: "GetEventByName eds v = Some e \<Longrightarrow> e < length eds"
  using FindEventByName_bound [of eds _ 0] by (auto simp: GetEventByName_def FindEventByName_def split: option.splits)

lemma GetEventField_bound: "GetEventField eds v n = Some e \<Longrightarrow> e < length eds"
  by (auto simp: GetEventField_def GetEventByName_bound split: option.splits)

subsection \<open>State groups\<close>

lemma states_loop_fields:
  "transitions (states_loop i ss g) = transitions g \<and> sg_events (states_loop i ss g) = sg_events g"
  by (induction i ss g rule: states_loop.induct) (simp_all add: AddState_def)

definition partial_ok :: "nat \<Rightarrow> EventDesc list \<Rightarrow> StateGroup \<Rightarrow> bool" where
  "partial_ok i eds g \<longleftrightarrow> state_ok eds g \<and> (\<forall>j. i \<le> j \<longrightarrow> j < length (transitions g) \<longrightarrow> fst (transitions g ! j) = None)"

lemma contains_update:
  assumes "i < length ts" "fst (ts ! i) = None"
  shows "list_ex (\<lambda>t. fst t = Some e) (ts[i := (Some evt, s)]) \<longleftrightarrow> e = evt \<or> list_ex (\<lambda>t. fst t = Some e) ts"
proof -
  have "(\<exists>k < length ts. fst (ts[i := (Some evt, s)] ! k) = Some e) \<longleftrightarrow> e = evt \<or> (\<exists>k < length ts. fst (ts ! k) = Some e)"
    using assms by (auto simp: nth_list_update) (metis option.distinct(1))
  then show ?thesis by (simp add: list_ex_length)
qed

lemma AddTransition_ok:
  assumes a: "AddTransition eds g i evt nm = Inr g1" and p: "partial_ok i eds g" and ids: "ids_ok eds"
    and e: "evt < length eds" and i: "i < length (transitions g)"
  shows "partial_ok (Suc i) (SetAttrAt eds evt ATTR_STATE) g1 \<and> length (transitions g1) = length (transitions g)"
proof -
  obtain s where s: "find_state (stateNames g) nm 0 = Inr s" using a by (auto simp: AddTransition_def ebind_Inr)
  have g1: "g1 = (let g1 = g\<lparr>transitions := (transitions g)[i := (Some evt, int s)]\<rparr> in
     if list_ex (\<lambda>e. ed_id (eds ! e) = ed_id (eds ! evt)) (sg_events g1) then g1 else g1\<lparr>sg_events := sg_events g1 @ [evt]\<rparr>)"
    using a by (simp add: AddTransition_def s Let_def split: if_splits)
  have st: "state_ok eds g" and none: "fst (transitions g ! i) = None" using p i by (auto simp: partial_ok_def)
  have "ed_id (eds ! e') = ed_id (eds ! evt) \<longleftrightarrow> e' = evt" if "e' \<in> set (sg_events g)" for e'
    using st ids e that by (auto simp: state_ok_def ids_ok_def)
  then have dup: "list_ex (\<lambda>e. ed_id (eds ! e) = ed_id (eds ! evt)) (sg_events g) \<longleftrightarrow> evt \<in> set (sg_events g)"
    by (auto simp: list_ex_iff)
  have ev: "distinct (sg_events g1) \<and> set (sg_events g1) = insert evt (set (sg_events g))"
    using st by (auto simp: g1 Let_def dup state_ok_def)
  have tr: "transitions g1 = (transitions g)[i := (Some evt, int s)]" by (simp add: g1 Let_def)
  have "state_contains g1 e' \<longleftrightarrow> e' = evt \<or> state_contains g e'" for e'
    unfolding state_contains_def tr by (rule contains_update [OF i none])
  then have "state_ok (SetAttrAt eds evt ATTR_STATE) g1"
    using st ev attrs_le_has [OF SetAttrAt_le] SetAttrAt_has [OF e, of ATTR_STATE] e
    by (auto simp: state_ok_def ATTR_STATE_def)
  moreover have "\<forall>j. Suc i \<le> j \<longrightarrow> j < length (transitions g1) \<longrightarrow> fst (transitions g1 ! j) = None"
    using p by (simp add: partial_ok_def tr)
  ultimately show ?thesis by (simp add: partial_ok_def tr)
qed

lemma transitions_loop_ok:
  "\<lbrakk>transitions_loop i ts eds g = Inr (g1, eds1); partial_ok i eds g; ids_ok eds; i + length ts = length (transitions g)\<rbrakk>
   \<Longrightarrow> attrs_le eds eds1 \<and> state_ok eds1 g1"
proof (induction ts arbitrary: i eds g)
  case (Cons t ts)
  from Cons.prems(1) obtain ev nm e s g2 where t: "t = JSON_array [ev, nm]" "GetEventByName eds (Some ev) = Some e"
    "JSON_GetString (Some nm) = Some s" "AddTransition eds g i e s = Inr g2"
    and r: "transitions_loop (i + 1) ts (SetAttrAt eds e ATTR_STATE) g2 = Inr (g1, eds1)"
    by (auto split: JSON_Value_t.splits list.splits option.splits simp: ebind_Inr)
  have "partial_ok (Suc i) (SetAttrAt eds e ATTR_STATE) g2 \<and> length (transitions g2) = length (transitions g)"
    using AddTransition_ok [OF t(4) Cons.prems(2,3) GetEventByName_bound [OF t(2)]] Cons.prems(4) by simp
  then have "attrs_le (SetAttrAt eds e ATTR_STATE) eds1 \<and> state_ok eds1 g1"
    using Cons.IH [OF r] Cons.prems(4) attrs_le_ids [OF SetAttrAt_le Cons.prems(3)] by simp
  then show ?case using attrs_le_trans [OF SetAttrAt_le] by blast
qed (simp add: partial_ok_def)

lemma state_group_ok:
  assumes "new_state_group eds v d = Inr (g, eds1)" "ids_ok eds"
  shows "attrs_le eds eds1 \<and> state_ok eds1 g"
proof -
  obtain n ts ss g1 start where l: "transitions_loop 0 ts eds (states_loop 0 ss (new_StateGroup d n (length ts))) = Inr (g1, eds1)"
    and s: "SetStart g1 start = Inr g"
    using assms(1) by (auto simp: new_state_group_def ebind_Inr of_null_def split: option.splits JSON_Value_t.splits if_splits)
  let ?g = "states_loop 0 ss (new_StateGroup d n (length ts))"
  have f: "transitions ?g = replicate (length ts) (None, 0)" "sg_events ?g = []"
    by (simp_all add: states_loop_fields) (simp_all add: new_StateGroup_def)
  have "partial_ok 0 eds ?g" using f by (simp add: partial_ok_def state_ok_def state_contains_def list_ex_iff)
  then have "attrs_le eds eds1 \<and> state_ok eds1 g1" using transitions_loop_ok [OF l _ assms(2)] f by simp
  then show ?thesis using s by (auto simp: SetStart_def ebind_Inr state_ok_def state_contains_def)
qed

lemma interval_group_ok:
  "new_interval_group eds v d = Inr (g, eds1) \<Longrightarrow> attrs_le eds eds1 \<and> event_in eds1 ATTR_INTERVAL (ig_start g) \<and> event_in eds1 ATTR_INTERVAL (ig_end g)"
  by (auto simp: new_interval_group_def event_in_def ATTR_INTERVAL_def SetAttrAt_has GetEventField_bound
      intro: attrs_le_trans [OF SetAttrAt_le SetAttrAt_le] attrs_le_has [OF SetAttrAt_le] split: option.splits)

lemma dependent_group_ok:
  "new_dependent_group eds v d = Inr (g, eds1) \<Longrightarrow> attrs_le eds eds1 \<and> event_in eds1 ATTR_DEPENDENT (dg_src g) \<and> event_in eds1 ATTR_DEPENDENT (dg_dst g)"
  by (auto simp: new_dependent_group_def event_in_def ATTR_DEPENDENT_def SetAttrAt_has GetEventField_bound
      intro: attrs_le_trans [OF SetAttrAt_le SetAttrAt_le] attrs_le_has [OF SetAttrAt_le] split: option.splits)

declare NewGroup.simps [simp del]

lemma NewGroup_cases:
  assumes "NewGroup eds v = Inr (g, eds1)"
  obtains (group) d es gs groups where "NewGroups eds groups = Inr (gs, eds1)" "g = EVENT_GROUP d es gs"
      "\<exists>evs k. JSON_GetString (JSON_GetField (Some v) ''desc'') = Some d \<and> JSON_GetString (JSON_GetField (Some v) ''kind'') = Some k
         \<and> strcasecmp_eq k ''group'' \<and> JSON_GetField (Some v) ''events'' = Some (JSON_array evs)
         \<and> JSON_GetField (Some v) ''groups'' = Some (JSON_array groups) \<and> group_events eds evs = Inr es"
    | (state) d sg where "new_state_group eds (Some v) d = Inr (sg, eds1)" "g = STATE_GROUP sg"
    | (interval) d ig where "new_interval_group eds (Some v) d = Inr (ig, eds1)" "g = INTERVAL_GROUP ig"
    | (dependent) d dg where "new_dependent_group eds (Some v) d = Inr (dg, eds1)" "g = DEPENDENT_GROUP dg"
  using assms unfolding NewGroup.simps [of eds v]
  by (auto simp: ebind_Inr tag_group_def split: option.splits JSON_Value_t.splits if_splits)

lemma NewGroup_ok:
  "NewGroup eds v = Inr (g, eds1) \<Longrightarrow> ids_ok eds \<Longrightarrow> attrs_le eds eds1 \<and> group_ok eds1 g"
  "NewGroups eds vs = Inr (gs, eds2) \<Longrightarrow> ids_ok eds \<Longrightarrow> attrs_le eds eds2 \<and> list_all (group_ok eds2) gs"
proof (induction eds v and eds vs arbitrary: g eds1 and gs eds2 rule: NewGroup_NewGroups.induct)
  case (1 eds v)
  from 1(2) show ?case
  proof (cases rule: NewGroup_cases)
    case (group d es gs groups)
    obtain evs k where k: "JSON_GetString (JSON_GetField (Some v) ''desc'') = Some d" "JSON_GetString (JSON_GetField (Some v) ''kind'') = Some k"
      "strcasecmp_eq k ''group''" "JSON_GetField (Some v) ''events'' = Some (JSON_array evs)"
      "JSON_GetField (Some v) ''groups'' = Some (JSON_array groups)" "group_events eds evs = Inr es" using group(3) by blast
    have "attrs_le eds eds1 \<and> list_all (group_ok eds1) gs"
      using group(1) 1(3) by (intro 1(1)) (use k in auto)
    then show ?thesis using group(2) by simp
  next
    case (state d sg)
    then show ?thesis using state_group_ok 1(3) by auto
  qed (auto dest: interval_group_ok dependent_group_ok)
next
  case (3 eds g gs ps)
  from 3(3) obtain fs p eds3 ps' where g: "g = JSON_object fs" "NewGroup eds g = Inr (p, eds3)" "NewGroups eds3 gs = Inr (ps', eds2)" "ps = p # ps'"
    by (auto simp: ebind_Inr split: JSON_Value_t.splits)
  have a: "attrs_le eds eds3 \<and> group_ok eds3 p" using 3(1) [OF g(1,2) 3(4)] .
  then have "attrs_le eds3 eds2 \<and> list_all (group_ok eds2) ps'" using attrs_le_ids 3(4) g(1) by (intro 3(2)) (use g in auto)
  then show ?case using a g(4) attrs_le_trans group_ok_le by auto
qed simp

subsection \<open>The visitor\<close>

fun state_groups :: "Group \<Rightarrow> StateGroup list" where
  "state_groups (EVENT_GROUP d es gs) = concat (map state_groups gs)"
| "state_groups (STATE_GROUP g) = [g]"
| "state_groups _ = []"

fun interval_groups :: "Group \<Rightarrow> IntervalGroup list" where
  "interval_groups (EVENT_GROUP d es gs) = concat (map interval_groups gs)"
| "interval_groups (INTERVAL_GROUP g) = [g]"
| "interval_groups _ = []"

fun dependent_groups :: "Group \<Rightarrow> DependentGroup list" where
  "dependent_groups (EVENT_GROUP d es gs) = concat (map dependent_groups gs)"
| "dependent_groups (DEPENDENT_GROUP g) = [g]"
| "dependent_groups _ = []"

text \<open>The groups of an event, in the order of the walk; a group whose two events are the same is listed twice.\<close>

definition states_of :: "nat \<Rightarrow> Group \<Rightarrow> StateGroup list" where
  "states_of e g = filter (\<lambda>g. state_contains g e) (state_groups g)"

definition intervals_of :: "nat \<Rightarrow> Group \<Rightarrow> IntervalGroup list" where
  "intervals_of e g = concat (map (\<lambda>g. (if ig_start g = e then [g] else []) @ (if ig_end g = e then [g] else [])) (interval_groups g))"

definition dependents_of :: "nat \<Rightarrow> Group \<Rightarrow> DependentGroup list" where
  "dependents_of e g = concat (map (\<lambda>g. (if dg_src g = e then [g] else []) @ (if dg_dst g = e then [g] else [])) (dependent_groups g))"

definition AddGroups :: "'a list option \<Rightarrow> 'a list \<Rightarrow> 'a list option" where
  "AddGroups v gs = (if gs = [] then v else Some (case v of None \<Rightarrow> gs | Some hs \<Rightarrow> hs @ gs))"

lemma AddGroups_simps [simp]:
  "AddGroups v [] = v" "AddGroups (AddGroups v gs) hs = AddGroups v (gs @ hs)"
  by (auto simp: AddGroups_def split: option.splits)

lemma AddGroup_AddGroups: "AddGroup v g = AddGroups v [g]"
  by (simp add: AddGroup_def AddGroups_def split: option.splits)

definition info_after :: "StateGroup list \<Rightarrow> IntervalGroup list \<Rightarrow> DependentGroup list \<Rightarrow> EventGrpInfo \<Rightarrow> EventGrpInfo" where
  "info_after ss is ds gi = \<lparr>stateGrps = AddGroups (stateGrps gi) ss, intervalGrps = AddGroups (intervalGrps gi) is, dependentGrps = AddGroups (dependentGrps gi) ds\<rparr>"

lemma info_after_simps [simp]:
  "info_after [] [] [] gi = gi"
  "info_after ss2 is2 ds2 (info_after ss is ds gi) = info_after (ss @ ss2) (is @ is2) (ds @ ds2) gi"
  by (simp_all add: info_after_def)

lemma adds_info_after:
  "add_state g = info_after [g] [] []" "add_interval ig = info_after [] [ig] []" "add_dependent dg = info_after [] [] [dg]"
  by (simp_all add: fun_eq_iff info_after_def add_state_def add_interval_def add_dependent_def AddGroup_AddGroups)

definition info_rel :: "EventDesc list \<Rightarrow> EventGrpInfo option list \<Rightarrow> bool" where
  "info_rel eds info \<longleftrightarrow> length info = length eds \<and> (\<forall>i < length eds. info ! i = None \<longleftrightarrow> isSimpleEvent (eds ! i))"

definition info_step :: "(nat \<Rightarrow> EventGrpInfo \<Rightarrow> EventGrpInfo) \<Rightarrow> EventGrpInfo option list \<Rightarrow> EventGrpInfo option list" where
  "info_step f info = map (\<lambda>i. map_option (f i) (info ! i)) [0..<length info]"

lemma info_step_length [simp]: "length (info_step f info) = length info"
  by (simp add: info_step_def)

lemma info_step_nth [simp]: "i < length info \<Longrightarrow> info_step f info ! i = map_option (f i) (info ! i)"
  by (simp add: info_step_def)

lemma info_step_rel: "info_rel eds info \<Longrightarrow> info_rel eds (info_step f info)"
  by (simp add: info_rel_def)

lemma info_step_step: "info_step g (info_step f info) = info_step (\<lambda>i. g i \<circ> f i) info"
  by (rule nth_equalityI) (simp_all add: option.map_comp)

lemma info_step_cong: "(\<And>i gi. i < length info \<Longrightarrow> f i gi = g i gi) \<Longrightarrow> info_step f info = info_step g info"
  by (rule nth_equalityI) (auto simp: map_option_case split: option.splits)

lemma info_step_id: "info_step (\<lambda>i gi. gi) info = info"
  by (rule nth_equalityI) (simp_all add: option.map_ident)

lemma HasAttr_not_simple: "HasAttr ed a \<Longrightarrow> a \<in> {ATTR_STATE, ATTR_INTERVAL, ATTR_DEPENDENT} \<Longrightarrow> \<not> isSimpleEvent ed"
proof -
  assume "HasAttr ed a" and a: "a \<in> {ATTR_STATE, ATTR_INTERVAL, ATTR_DEPENDENT}"
  then obtain k where k: "k < 32" "bit (ed_attrs ed) k" "bit a k" by (auto simp: HasAttr_def bit_eq_iff bit_simps)
  have "bit IN_GROUP_MASK k" using a k(3) by (auto simp: IN_GROUP_MASK_def bit_simps)
  then show ?thesis using k by (auto simp: isSimpleEvent_def bit_eq_iff bit_simps)
qed

lemma at_info_step:
  assumes "info_rel eds info" "ids_ok eds" "event_in eds a e" "a \<in> {ATTR_STATE, ATTR_INTERVAL, ATTR_DEPENDENT}"
  shows "at_info eds e f (Inr info) = Inr (info_step (\<lambda>i. if i = e then f else (\<lambda>gi. gi)) info)"
proof -
  have e: "e < length eds" "HasAttr (eds ! e) a" using assms(3) by (auto simp: event_in_def)
  have "info ! e \<noteq> None" using assms(1) e HasAttr_not_simple [OF e(2) assms(4)] by (simp add: info_rel_def)
  then obtain gi where gi: "info ! e = Some gi" by blast
  have "info[e := Some (f gi)] = info_step (\<lambda>i. if i = e then f else (\<lambda>gi. gi)) info"
    by (rule nth_equalityI) (auto simp: nth_list_update gi option.map_ident)
  then show ?thesis using assms(1,2) e gi by (simp add: at_info_def Let_def ids_ok_def info_rel_def)
qed

lemma state_fold:
  assumes "ids_ok eds"
  shows "\<lbrakk>info_rel eds info; distinct es; \<forall>e \<in> set es. event_in eds ATTR_STATE e\<rbrakk> \<Longrightarrow>
    fold (\<lambda>e. at_info eds e f) es (Inr info) = Inr (info_step (\<lambda>i. if i \<in> set es then f else (\<lambda>gi. gi)) info)"
proof (induction es arbitrary: info)
  case Nil
  then show ?case by (simp add: info_step_id)
next
  case (Cons e es)
  have a: "at_info eds e f (Inr info) = Inr (info_step (\<lambda>i. if i = e then f else (\<lambda>gi. gi)) info)"
    using Cons.prems by (intro at_info_step [OF Cons.prems(1) assms]) auto
  show ?case using Cons.IH [OF info_step_rel [OF Cons.prems(1)]] Cons.prems(2,3)
    by (auto simp: a info_step_step intro!: info_step_cong)
qed

lemma visit_group:
  assumes "ids_ok eds"
  shows "\<lbrakk>group_ok eds g; info_rel eds info\<rbrakk> \<Longrightarrow> preorder (info_visitor eds) g (Inr info) =
    Inr (info_step (\<lambda>e. info_after (states_of e g) (intervals_of e g) (dependents_of e g)) info)"
proof (induction g arbitrary: info)
  case (EVENT_GROUP d es gs)
  have "\<forall>g \<in> set gs. group_ok eds g" using EVENT_GROUP.prems(1) by (simp add: list_all_iff)
  then have "fold (preorder (info_visitor eds)) gs (Inr info) =
      Inr (info_step (\<lambda>e. info_after (concat (map (states_of e) gs)) (concat (map (intervals_of e) gs)) (concat (map (dependents_of e) gs))) info)"
    using EVENT_GROUP.IH EVENT_GROUP.prems(2)
  proof (induction gs arbitrary: info)
    case Nil
    then show ?case by (simp add: info_step_id)
  next
    case (Cons g gs)
    have "preorder (info_visitor eds) g (Inr info) = Inr (info_step (\<lambda>e. info_after (states_of e g) (intervals_of e g) (dependents_of e g)) info)"
      using Cons.prems by simp
    moreover have "fold (preorder (info_visitor eds)) gs (Inr info') =
      Inr (info_step (\<lambda>e. info_after (concat (map (states_of e) gs)) (concat (map (intervals_of e) gs)) (concat (map (dependents_of e) gs))) info')"
      if "info_rel eds info'" for info' using Cons.IH [OF _ _ that] Cons.prems(1,2) by auto
    ultimately show ?case using info_step_rel [OF Cons.prems(3)]
      by (auto simp: info_step_step intro!: info_step_cong)
  qed
  moreover have "states_of e (EVENT_GROUP d es hs) = concat (map (states_of e) hs)
      \<and> intervals_of e (EVENT_GROUP d es hs) = concat (map (intervals_of e) hs)
      \<and> dependents_of e (EVENT_GROUP d es hs) = concat (map (dependents_of e) hs)" for e hs
    by (induction hs) (simp_all add: states_of_def intervals_of_def dependents_of_def)
  ultimately show ?case by (simp add: info_visitor_def)
next
  case (STATE_GROUP sg)
  then have "distinct (sg_events sg)" "\<forall>e \<in> set (sg_events sg). event_in eds ATTR_STATE e" and c: "\<And>e. state_contains sg e \<longleftrightarrow> e \<in> set (sg_events sg)"
    by (auto simp: state_ok_def event_in_def)
  from state_fold [OF assms STATE_GROUP.prems(2) this(1,2)] show ?case
    by (auto simp: info_visitor_def states_of_def intervals_of_def dependents_of_def c adds_info_after intro!: info_step_cong)
next
  case (INTERVAL_GROUP ig)
  have "at_info eds e (add_interval ig) (Inr info') = Inr (info_step (\<lambda>i. if i = e then add_interval ig else (\<lambda>gi. gi)) info')"
    if "event_in eds ATTR_INTERVAL e" "info_rel eds info'" for e info'
    using at_info_step [OF that(2) assms that(1)] by simp
  then show ?case using INTERVAL_GROUP.prems info_step_rel [OF INTERVAL_GROUP.prems(2)]
    by (auto simp: info_visitor_def states_of_def intervals_of_def dependents_of_def adds_info_after info_step_step intro!: info_step_cong)
next
  case (DEPENDENT_GROUP dg)
  have "at_info eds e (add_dependent dg) (Inr info') = Inr (info_step (\<lambda>i. if i = e then add_dependent dg else (\<lambda>gi. gi)) info')"
    if "event_in eds ATTR_DEPENDENT e" "info_rel eds info'" for e info'
    using at_info_step [OF that(2) assms that(1)] by simp
  then show ?case using DEPENDENT_GROUP.prems info_step_rel [OF DEPENDENT_GROUP.prems(2)]
    by (auto simp: info_visitor_def states_of_def intervals_of_def dependents_of_def adds_info_after info_step_step intro!: info_step_cong)
qed

subsection \<open>Loading\<close>

lemma events_loop_ids: "events_loop n vs = Some eds \<Longrightarrow> i < length eds \<Longrightarrow> ed_id (eds ! i) = n + int i"
proof (induction n vs arbitrary: eds i rule: events_loop.induct)
  case (2 n v vs)
  from 2(2) obtain ed eds' where e: "NewEvent n v = Some ed" "events_loop (n + 1) vs = Some eds'" "eds = ed # eds'"
    by (auto split: option.splits)
  have "ed_id ed = n" using e(1) by (auto simp: NewEvent_def split: option.splits JSON_Value_t.splits if_splits)
  then show ?case using 2(1) [OF e(1,2)] 2(3) e(3) by (cases i) auto
qed simp

lemma loaded_ids: "GetLogEventsFile junk v = Some ld \<Longrightarrow> ids_ok (ld_events ld)"
proof -
  assume "GetLogEventsFile junk v = Some ld"
  then obtain vs eds where "events_loop 1 vs = Some eds" "ld = new_LogFileDesc (NoEvent junk # eds)"
    by (auto simp: GetLogEventsFile_def split: option.splits JSON_Value_t.splits)
  then show ?thesis using events_loop_ids [of 1 vs eds]
    by (auto simp: ids_ok_def new_LogFileDesc_def NoEvent_def nth_Cons split: nat.splits)
qed

lemma initial_rel: "info_rel eds (initial_info eds)"
  by (simp add: info_rel_def initial_info_def)

lemma InitEventInfo_computes:
  assumes "ids_ok (ld_events ld)" "group_ok (ld_events ld) (EVENT_GROUP d es gs)"
  shows "InitEventInfo ld (EVENT_GROUP d es gs) = Inr (ld\<lparr>ld_info := info_step (\<lambda>e. info_after (states_of e (EVENT_GROUP d es gs))
    (intervals_of e (EVENT_GROUP d es gs)) (dependents_of e (EVENT_GROUP d es gs))) (initial_info (ld_events ld))\<rparr>)"
  unfolding InitEventInfo_def walk_is_preorder visit_group [OF assms initial_rel] by simp

lemma GetLogViewFile_cases:
  assumes "GetLogViewFile ld v = r" "r \<noteq> Inl NullResult"
  obtains fs d es gs eds where "NewGroup (ld_events ld) (JSON_object fs) = Inr (EVENT_GROUP d es gs, eds)"
      "r = InitEventInfo (ld\<lparr>ld_root := Some (EVENT_GROUP d es gs), ld_events := eds\<rparr>) (EVENT_GROUP d es gs)"
    | fs f where "NewGroup (ld_events ld) (JSON_object fs) = Inl f" "r = Inl f"
proof -
  obtain fs where r: "r = ebind (NewGroup (ld_events ld) (JSON_object fs)) (\<lambda>(grp, eds). case grp of
               EVENT_GROUP d es gs \<Rightarrow> InitEventInfo (ld\<lparr>ld_root := Some grp, ld_events := eds\<rparr>) grp
             | _ \<Rightarrow> Inl NullResult)"
    using assms by (auto simp: GetLogViewFile_def split: option.splits JSON_Value_t.splits)
  show ?thesis
  proof (cases "NewGroup (ld_events ld) (JSON_object fs)")
    case (Inl f)
    then show ?thesis using r that(2) [of fs f] by simp
  next
    case (Inr p)
    obtain g eds where p: "p = (g, eds)" by (cases p)
    show ?thesis
    proof (cases g)
      case (EVENT_GROUP d es gs)
      then show ?thesis using that(1) [of fs d es gs eds] r Inr p by simp
    qed (use r assms(2) Inr p in simp_all)
  qed
qed

lemma has_attr_groups:
  assumes "group_ok eds g"
  shows "states_of e g \<noteq> [] \<Longrightarrow> HasAttr (eds ! e) ATTR_STATE"
    and "intervals_of e g \<noteq> [] \<Longrightarrow> HasAttr (eds ! e) ATTR_INTERVAL"
    and "dependents_of e g \<noteq> [] \<Longrightarrow> HasAttr (eds ! e) ATTR_DEPENDENT"
proof -
  have "(\<forall>sg \<in> set (state_groups g). state_ok eds sg)
     \<and> (\<forall>ig \<in> set (interval_groups g). event_in eds ATTR_INTERVAL (ig_start ig) \<and> event_in eds ATTR_INTERVAL (ig_end ig))
     \<and> (\<forall>dg \<in> set (dependent_groups g). event_in eds ATTR_DEPENDENT (dg_src dg) \<and> event_in eds ATTR_DEPENDENT (dg_dst dg))"
    using assms by (induction g) (auto simp: list_all_iff)
  then show "states_of e g \<noteq> [] \<Longrightarrow> HasAttr (eds ! e) ATTR_STATE"
    "intervals_of e g \<noteq> [] \<Longrightarrow> HasAttr (eds ! e) ATTR_INTERVAL"
    "dependents_of e g \<noteq> [] \<Longrightarrow> HasAttr (eds ! e) ATTR_DEPENDENT"
    by (auto simp: states_of_def intervals_of_def dependents_of_def filter_empty_conv state_ok_def event_in_def split: if_splits)
qed

text \<open>C12: After a description is loaded, the lists of state, interval and dependent groups looked up for an event are
  exactly the groups of the tree that mention it, in pre-order, and are null when there are none.\<close>

theorem LoadLogDesc_groups:
  assumes "LoadLogDesc junk v1 v2 = Inr ld" and "ld_root ld = Some root" and "e < length (ld_events ld)"
  shows "StateGroups ld e = Some (if states_of e root = [] then None else Some (states_of e root))
    \<and> IntervalGroups ld e = Some (if intervals_of e root = [] then None else Some (intervals_of e root))
    \<and> DependentGroups ld e = Some (if dependents_of e root = [] then None else Some (dependents_of e root))"
proof -
  obtain ld0 where g: "GetLogEventsFile junk v1 = Some ld0" and v: "GetLogViewFile ld0 v2 = Inr ld"
    using assms(1) by (auto simp: LoadLogDesc_def of_null_def ebind_Inr split: option.splits)
  from GetLogViewFile_cases [OF v] obtain fs d es gs eds where n: "NewGroup (ld_events ld0) (JSON_object fs) = Inr (EVENT_GROUP d es gs, eds)"
    and i: "InitEventInfo (ld0\<lparr>ld_root := Some (EVENT_GROUP d es gs), ld_events := eds\<rparr>) (EVENT_GROUP d es gs) = Inr ld"
    by (metis sum.distinct(1))
  have ok: "attrs_le (ld_events ld0) eds" "group_ok eds (EVENT_GROUP d es gs)" using NewGroup_ok(1) [OF n loaded_ids [OF g]] by auto
  have ids: "ids_ok eds" using attrs_le_ids [OF ok(1) loaded_ids [OF g]] .
  let ?r = "EVENT_GROUP d es gs"
  have ld: "ld = ld0\<lparr>ld_root := Some ?r, ld_events := eds,
      ld_info := info_step (\<lambda>e. info_after (states_of e ?r) (intervals_of e ?r) (dependents_of e ?r)) (initial_info eds)\<rparr>"
    using i InitEventInfo_computes [of "ld0\<lparr>ld_root := Some ?r, ld_events := eds\<rparr>" d es gs] ids ok(2) by simp
  have root: "root = ?r" using assms(2) ld by simp
  have e: "e < length eds" using assms(3) ld by simp
  have "info_of ld e = map_option (info_after (states_of e root) (intervals_of e root) (dependents_of e root)) (initial_info eds ! e)"
    using ids e by (simp add: info_of_def ld root ids_ok_def initial_info_def)
  then have info: "info_of ld e = Some (info_after (states_of e root) (intervals_of e root) (dependents_of e root)
      \<lparr>stateGrps = None, intervalGrps = None, dependentGrps = None\<rparr>)" if "HasAttr (eds ! e) a" "a \<in> {ATTR_STATE, ATTR_INTERVAL, ATTR_DEPENDENT}" for a
    using HasAttr_not_simple [OF that] e by (simp add: initial_info_def)
  note h = has_attr_groups [OF ok(2), of e, folded root]
  have ev: "ld_events ld = eds" by (simp add: ld)
  show ?thesis
    using info [of ATTR_STATE] info [of ATTR_INTERVAL] info [of ATTR_DEPENDENT] h
    by (auto simp: StateGroups_def IntervalGroups_def DependentGroups_def ev info_after_def AddGroups_def)
qed

text \<open>Nothing but the initialisation reads the information, and it reads none that is null.\<close>

lemma find_state_fails: "find_state ns s i \<noteq> Inl NullInfo"
  by (induction ns s i rule: find_state.induct) auto

lemma transitions_loop_fails: "transitions_loop i ts eds g \<noteq> Inl NullInfo"
  by (induction i ts eds g rule: transitions_loop.induct)
    (auto simp: ebind_Inl AddTransition_def Let_def find_state_fails split: JSON_Value_t.splits list.splits option.splits if_splits)

lemma group_events_fails: "group_events eds vs \<noteq> Inl NullInfo"
  by (induction eds vs rule: group_events.induct) (auto simp: ebind_Inl of_null_def split: option.splits)

lemma kinds_fail:
  "new_state_group eds v d \<noteq> Inl NullInfo" "new_interval_group eds v d \<noteq> Inl NullInfo" "new_dependent_group eds v d \<noteq> Inl NullInfo"
  by (auto simp: new_state_group_def new_interval_group_def new_dependent_group_def ebind_Inl of_null_def transitions_loop_fails
      SetStart_def find_state_fails split: option.splits JSON_Value_t.splits if_splits prod.splits)

lemma NewGroup_fails: "NewGroup eds v \<noteq> Inl NullInfo" "NewGroups eds vs \<noteq> Inl NullInfo"
proof (induction eds v and eds vs rule: NewGroup_NewGroups.induct)
  case (1 eds v)
  show ?case
  proof
    assume "NewGroup eds v = Inl NullInfo"
    then obtain d k evs groups es where k: "JSON_GetString (JSON_GetField (Some v) ''desc'') = Some d" "JSON_GetString (JSON_GetField (Some v) ''kind'') = Some k"
      "strcasecmp_eq k ''group''" "JSON_GetField (Some v) ''events'' = Some (JSON_array evs)"
      "JSON_GetField (Some v) ''groups'' = Some (JSON_array groups)" "group_events eds evs = Inr es" and n: "NewGroups eds groups = Inl NullInfo"
      unfolding NewGroup.simps [of eds v]
      by (auto simp: ebind_Inl tag_group_def group_events_fails kinds_fail split: option.splits JSON_Value_t.splits if_splits)
    have "NewGroups eds groups \<noteq> Inl NullInfo" by (intro 1) (use k in auto)
    then show False using n by simp
  qed
next
  case (3 eds g gs)
  then show ?case by (auto simp: ebind_Inl split: JSON_Value_t.splits)
qed simp

text \<open>Whatever two JSON values it is given, loading never dereferences the null information record of an event that belongs
  to no group.\<close>

theorem LoadLogDesc_no_null_info: "LoadLogDesc junk v1 v2 \<noteq> Inl NullInfo"
proof
  assume "LoadLogDesc junk v1 v2 = Inl NullInfo"
  then obtain ld where g: "GetLogEventsFile junk v1 = Some ld" and v: "GetLogViewFile ld v2 = Inl NullInfo"
    by (auto simp: LoadLogDesc_def of_null_def ebind_Inl split: option.splits)
  show False using v
  proof (rule GetLogViewFile_cases)
    fix fs d es gs eds
    assume n: "NewGroup (ld_events ld) (JSON_object fs) = Inr (EVENT_GROUP d es gs, eds)"
      and i: "Inl NullInfo = InitEventInfo (ld\<lparr>ld_root := Some (EVENT_GROUP d es gs), ld_events := eds\<rparr>) (EVENT_GROUP d es gs)"
    have "attrs_le (ld_events ld) eds" "group_ok eds (EVENT_GROUP d es gs)" using NewGroup_ok(1) [OF n loaded_ids [OF g]] by auto
    then show False using i InitEventInfo_computes [of "ld\<lparr>ld_root := Some (EVENT_GROUP d es gs), ld_events := eds\<rparr>" d es gs]
      attrs_le_ids loaded_ids [OF g] by auto
  qed (simp_all add: NewGroup_fails)
qed

definition sample_events :: JSON_Value_t where
  "sample_events = JSON_object [(''events'', JSON_array
     [JSON_object [(''name'', JSON_string ''a''), (''args'', JSON_array []), (''desc'', JSON_string ''d'')]])]"

definition sample_view :: JSON_Value_t where
  "sample_view = JSON_object [(''date'', JSON_string ''t''), (''version'', JSON_null), (''root'', JSON_object
     [(''desc'', JSON_string ''r''), (''kind'', JSON_string ''group''), (''events'', JSON_array []), (''groups'', JSON_array
       [JSON_object [(''desc'', JSON_string ''i''), (''kind'', JSON_string ''interval''), (''start'', JSON_string ''a''), (''end'', JSON_string ''a'')]])])]"

definition sample_interval :: IntervalGroup where
  "sample_interval = \<lparr>ig_desc = ''i'', ig_start = 1, ig_end = 1, ig_color = None\<rparr>"

definition sample_desc :: LogFileDesc where
  "sample_desc = \<lparr>ld_root = Some (EVENT_GROUP ''r'' [] [INTERVAL_GROUP sample_interval]),
     ld_events = [NoEvent 0, \<lparr>ed_name = ''a'', ed_id = 1, ed_nArgs = 0, ed_args = None, ed_attrs = 16, ed_desc = ''d''\<rparr>],
     ld_info = [None, Some \<lparr>stateGrps = None, intervalGrps = Some [sample_interval, sample_interval], dependentGrps = None\<rparr>]\<rparr>"

lemma sample_loads: "LoadLogDesc 0 (Some sample_events) (Some sample_view) = Inr sample_desc"
  by code_simp

theorem LoadLogDesc_groups_witness: "IntervalGroups sample_desc 1 = Some (Some [sample_interval, sample_interval])"
proof -
  have "intervals_of 1 (EVENT_GROUP ''r'' [] [INTERVAL_GROUP sample_interval]) = [sample_interval, sample_interval]"
    by (simp add: intervals_of_def sample_interval_def)
  moreover have "ld_root sample_desc = Some (EVENT_GROUP ''r'' [] [INTERVAL_GROUP sample_interval])" "1 < length (ld_events sample_desc)"
    by (simp_all add: sample_desc_def)
  ultimately show ?thesis using LoadLogDesc_groups [OF sample_loads] by simp
qed

end
