(* ===== verification/Log_Reader.thy ===== *)
theory Log_Reader
  imports Event_Log "HOL-Library.Multiset" "HOL-Library.Product_Lexorder"
begin

text \<open>
  Reading a log file back: \<^verbatim>\<open>LoadLogFile\<close> of \<^verbatim>\<open>src/tools/log-dump/log-dump.cxx\<close>.

  \<^item> The file is the list of its bytes; a read outside a buffer, a failed assertion, an exception
    or a division by zero is \<open>Inl Crash\<close>, a message followed by \<^verbatim>\<open>exit(1)\<close> another
    \<open>DumpError\<close>. The lookup of an event description is a parameter here (\<open>fnd\<close>); the log
    descriptions model it.
  \<^item> \<open>GetTimestamp\<close> keeps the 32-bit arithmetic of the source.
  \<^item> \<open>qsort\<close> stands for the library's sort; only its result being a sorted permutation is used.

  The theorems compose writer and reader: whatever a run logs is read back exactly, sorted by time,
  without complaints about missing buffers; and they say for which files the reader crashes.
\<close>

section \<open>Reading a log file\<close>

text \<open>How \<open>log-dump\<close> ends early: the messages before \<^verbatim>\<open>exit(1)\<close>, and \<open>Crash\<close> for a division by
  zero, a failed assertion, an allocation of negative size, an exception or an access outside an
  array.\<close>

datatype DumpError = NoStat | NoOpen | BogusMagic | BogusHeaderSize int | WrongVersion | SeekError
  | NoBuffers | InvalidVProc int | Crash

datatype DumpMsg = UsingBlockSize int | OutOfOrder int int int | EarlyEvent "64 word"

record 'd Event =
  ev_timestamp :: "64 word"
  ev_vpId :: int
  ev_desc :: 'd

text \<open>\<^verbatim>\<open>fread(buf, n, 1, f)\<close> at position \<open>pos\<close>: what the file has there overwrites the start of the buffer.\<close>

definition fread :: "byte list \<Rightarrow> nat \<Rightarrow> byte list \<Rightarrow> nat \<Rightarrow> byte list" where
  "fread buf n f pos = (let r = take n (drop pos f) in r @ drop (length r) buf)"

definition char_field :: "byte list \<Rightarrow> nat \<Rightarrow> string" where
  "char_field b off = map (\<lambda>c. char_of (unat c)) (takeWhile (\<lambda>c. c \<noteq> 0) (take 32 (drop off b)))"

definition read_header :: "byte list \<Rightarrow> LogFileHeader_t option" where
  "read_header b =
    (case (get64 b 0, get32 b 8, get32 b 12, get32 b 16, get32 b 20, get32 b 24, get32 b 60) of
       (Some mg, Some ma, Some mi, Some pa, Some hs, Some bz, Some tk) \<Rightarrow>
         (case (get64 b 64, get32 b 104, get32 b 108, get32 b 112) of
            (Some st, Some rs, Some nv, Some nc) \<Rightarrow> Some \<lparr>magic = mg, majorVersion = ma, minorVersion = mi,
               patchVersion = pa, hdrSzB = hs, bufSzB = bz, date = char_field b 28, tsKind = tk, startTime = st,
               clockName = char_field b 72, resolution = rs, nVProcs = nv, nCPUs = nc\<rparr>
          | _ \<Rightarrow> None)
     | _ \<Rightarrow> None)"

definition check_header :: "32 word \<Rightarrow> LogFileHeader_t \<Rightarrow> DumpError option" where
  "check_header major h =
    (if magic h \<noteq> LOG_MAGIC then Some BogusMagic
     else if hdrSzB h \<noteq> word_of_nat LOGHDR_SZB then Some (BogusHeaderSize (sint (hdrSzB h)))
     else if majorVersion h \<noteq> major then Some WrongVersion
     else None)"

text \<open>Seconds are scaled in 32-bit arithmetic; only the result is widened.\<close>

definition GetTimestamp :: "LogFileHeader_t \<Rightarrow> LogTS_t \<Rightarrow> 64 word" where
  "GetTimestamp h ts =
    (if tsKind h = tsKind_code LOGTS_MACH_ABSOLUTE then ts
     else if tsKind h = tsKind_code LOGTS_TIMESPEC then ucast (ts_val_sec ts * 1000000000 + ts_val_frac ts)
     else ucast (ts_val_sec ts * 1000000000 + ts_val_frac ts * 1000))"

definition CompareEvent :: "'d Event \<Rightarrow> 'd Event \<Rightarrow> int" where
  "CompareEvent e1 e2 =
    (let t = sint (ev_timestamp e1 - ev_timestamp e2) in
     if t = 0 then ev_vpId e1 - ev_vpId e2 else if t < 0 then -1 else 1)"

text \<open>The library's sort, as insertion; the order of equal elements is left open by C and no theorem uses it.\<close>

fun qsort_insert :: "('a \<Rightarrow> 'a \<Rightarrow> int) \<Rightarrow> 'a \<Rightarrow> 'a list \<Rightarrow> 'a list" where
  "qsort_insert cmp x [] = [x]"
| "qsort_insert cmp x (y # ys) = (if cmp x y \<le> 0 then x # y # ys else y # qsort_insert cmp x ys)"

definition qsort :: "('a \<Rightarrow> 'a \<Rightarrow> int) \<Rightarrow> 'a list \<Rightarrow> 'a list" where
  "qsort cmp xs = foldr (qsort_insert cmp) xs []"

text \<open>The events of one buffer, entries \<open>j\<close> to \<open>k - 1\<close>; \<open>None\<close> is a crash. \<open>fnd\<close> is the lookup in
  the event descriptions (\<open>None\<close> for an index outside the vector).\<close>

fun read_events :: "LogFileHeader_t \<Rightarrow> (int \<Rightarrow> 'd option) \<Rightarrow> byte list \<Rightarrow> int \<Rightarrow> int \<Rightarrow> nat list \<Rightarrow> 'd Event list \<Rightarrow> 'd Event list option" where
  "read_events h fnd buf maxN vp [] evs = Some evs"
| "read_events h fnd buf maxN vp (j # js) evs =
    (if \<not> int (length evs) < maxN then None
     else case (get64 buf (32 + 32 * j), get32 buf (32 + 32 * j + 8)) of
       (Some ts, Some ei) \<Rightarrow>
         (case fnd (sint ei) of
            None \<Rightarrow> None
          | Some d \<Rightarrow> read_events h fnd buf maxN vp js (evs @ [\<lparr>ev_timestamp = GetTimestamp h ts, ev_vpId = vp, ev_desc = d\<rparr>]))
     | _ \<Rightarrow> None)"

record 'd DumpState =
  ds_counts :: "int list"
  ds_events :: "'d Event list"
  ds_msgs :: "DumpMsg list"

definition read_buffer :: "LogFileHeader_t \<Rightarrow> (int \<Rightarrow> 'd option) \<Rightarrow> int \<Rightarrow> int \<Rightarrow> byte list \<Rightarrow> 'd DumpState \<Rightarrow> DumpError + 'd DumpState" where
  "read_buffer h fnd perBuf maxN buf s =
    (case (get32 buf 0, get32 buf 4, get32 buf 8) of
       (Some vp, Some nx, Some sq) \<Rightarrow>
         (if nVProcs h \<le> vp then Inl (InvalidVProc (sint vp))
          else
            let i = unat vp;
                expected = ds_counts s ! i;
                msgs = (if sint sq \<noteq> expected then [OutOfOrder (sint vp) expected (sint sq)] else []);
                n = min (sint nx) perBuf
            in case read_events h fnd buf maxN (sint vp) [0..<nat n] (ds_events s) of
                 None \<Rightarrow> Inl Crash
               | Some evs \<Rightarrow> Inr \<lparr>ds_counts = (ds_counts s)[i := sint sq + 1], ds_events = evs, ds_msgs = ds_msgs s @ msgs\<rparr>)
     | _ \<Rightarrow> Inl Crash)"

fun read_buffers :: "LogFileHeader_t \<Rightarrow> (int \<Rightarrow> 'd option) \<Rightarrow> int \<Rightarrow> int \<Rightarrow> byte list \<Rightarrow> nat \<Rightarrow> byte list \<Rightarrow> nat \<Rightarrow> nat \<Rightarrow> 'd DumpState \<Rightarrow> DumpError + 'd DumpState" where
  "read_buffers h fnd perBuf maxN f sz buf pos 0 s = Inr s"
| "read_buffers h fnd perBuf maxN f sz buf pos (Suc k) s =
    (let buf' = fread buf sz f pos in
     case read_buffer h fnd perBuf maxN buf' s of
       Inl e \<Rightarrow> Inl e
     | Inr s' \<Rightarrow> read_buffers h fnd perBuf maxN f sz buf' (pos + sz) k s')"

text \<open>Sort, then make the timestamps relative to the start of the run. \<open>junk\<close> is the first element of the
  freshly allocated array when there is no event.\<close>

definition finish_events :: "LogFileHeader_t \<Rightarrow> 'd Event \<Rightarrow> 'd DumpState \<Rightarrow> 'd Event list \<times> DumpMsg list" where
  "finish_events h junk s =
    (let evs = qsort CompareEvent (ds_events s);
         start = GetTimestamp h (startTime h);
         first = ev_timestamp (case evs of [] \<Rightarrow> junk | e # _ \<Rightarrow> e);
         early = first < start;
         start' = (if early then first else start)
     in (map (\<lambda>e. e\<lparr>ev_timestamp := ev_timestamp e - start'\<rparr>) evs,
         ds_msgs s @ (if early then [EarlyEvent (start - first)] else [])))"

definition LoadLogFile :: "32 word \<Rightarrow> (int \<Rightarrow> 'd option) \<Rightarrow> byte list \<Rightarrow> 'd Event \<Rightarrow> byte list
    \<Rightarrow> DumpError + (LogFileHeader_t \<times> 'd Event list \<times> DumpMsg list)" where
  "LoadLogFile major fnd buf0 junk f =
    (case read_header (fread buf0 LOGBLOCK_SZB f 0) of
       None \<Rightarrow> Inl Crash
     | Some h \<Rightarrow>
      (case check_header major h of
         Some e \<Rightarrow> Inl e
       | None \<Rightarrow>
         let other = bufSzB h \<noteq> word_of_nat LOGBLOCK_SZB;
             sz = (if other then unat (bufSzB h) else LOGBLOCK_SZB);
             perBuf = (if other then c_int (word_of_nat (sz div LOGEVENT_SZB) - 1) else int LOGBUF_SZ);
             pos = (if other then sz else min LOGBLOCK_SZB (length f));
             msgs = (if other then [UsingBlockSize (sint (bufSzB h))] else []);
             buf1 = (if other then replicate sz 0 else fread buf0 LOGBLOCK_SZB f 0)
         in if sz = 0 then Inl Crash
            else let numBufs = c_int (word_of_nat (length f div sz) - 1) in
            if numBufs \<le> 0 then Inl NoBuffers
            else let maxN = perBuf * numBufs in
            if maxN < 0 \<or> 2 ^ 31 \<le> maxN then Inl Crash
            else case read_buffers h fnd perBuf maxN f sz buf1 pos (nat numBufs)
                        \<lparr>ds_counts = replicate (unat (nVProcs h)) 0, ds_events = [], ds_msgs = msgs\<rparr> of
                   Inl e \<Rightarrow> Inl e
                 | Inr s \<Rightarrow> Inr (h, finish_events h junk s)))"

section \<open>Sorting\<close>

lemma mset_qsort_insert: "mset (qsort_insert cmp x xs) = add_mset x (mset xs)"
  by (induction xs) auto

lemma mset_qsort: "mset (qsort cmp xs) = mset xs"
  by (induction xs) (simp_all add: qsort_def mset_qsort_insert)

text \<open>A comparison that a key decides: \<open>cmp\<close> is non-positive exactly when the keys are in order.\<close>

definition decides :: "('a \<Rightarrow> 'a \<Rightarrow> int) \<Rightarrow> ('a \<Rightarrow> 'k :: linorder) \<Rightarrow> 'a set \<Rightarrow> bool" where
  "decides cmp key A \<longleftrightarrow> (\<forall>x \<in> A. \<forall>y \<in> A. cmp x y \<le> 0 \<longleftrightarrow> key x \<le> key y)"

lemma set_qsort_insert: "set (qsort_insert cmp x xs) = insert x (set xs)"
  by (induction xs) auto

lemma sorted_qsort_insert:
  assumes "decides cmp key A" and "x \<in> A" and "set xs \<subseteq> A" and "sorted (map key xs)"
  shows "sorted (map key (qsort_insert cmp x xs))"
  using assms(3,4)
proof (induction xs)
  case (Cons y ys)
  then show ?case using assms(1,2)
    by (auto simp: decides_def set_qsort_insert intro: order_trans)
qed simp

lemma set_qsort: "set (qsort cmp xs) = set xs"
  by (induction xs) (simp_all add: qsort_def set_qsort_insert)

lemma sorted_qsort:
  assumes "decides cmp key A" and "set xs \<subseteq> A"
  shows "sorted (map key (qsort cmp xs))"
  using assms(2)
proof (induction xs)
  case (Cons x xs)
  have "set (qsort cmp xs) \<subseteq> A" using Cons.prems by (simp add: set_qsort)
  with sorted_qsort_insert [OF assms(1)] Cons show ?case by (simp add: qsort_def)
qed (simp add: qsort_def)

text \<open>The 64-bit difference orders timestamps below \<open>2 ^ 63\<close>; all scaled timestamps are below \<open>2 ^ 32\<close>.\<close>

lemma sint_diff64:
  fixes a b :: "64 word"
  assumes "uint a < 2 ^ 63" and "uint b < 2 ^ 63"
  shows "sint (a - b) = uint a - uint b"
proof -
  have e: "a - b = word_of_int (uint a - uint b)" by simp
  have s: "sint (word_of_int d :: 64 word) = d" if "- (2 ^ 63) \<le> d" "d < 2 ^ 63" for d
    using that by (simp add: signed_of_int signed_take_bit_int_eq_self)
  have "0 \<le> uint a" "0 \<le> uint b" by simp_all
  with assms have "sint (word_of_int (uint a - uint b) :: 64 word) = uint a - uint b" by (intro s) linarith+
  then show ?thesis by (simp only: e)
qed

definition event_key :: "'d Event \<Rightarrow> 64 word \<times> int" where
  "event_key e = (ev_timestamp e, ev_vpId e)"


definition times_small :: "'d Event list \<Rightarrow> bool" where
  "times_small es \<longleftrightarrow> list_all (\<lambda>e. uint (ev_timestamp e) < 2 ^ 63) es"

lemma CompareEvent_decides: "times_small es \<Longrightarrow> decides CompareEvent event_key (set es)"
proof (unfold decides_def, intro ballI)
  fix x y assume t: "times_small es" and xy: "x \<in> set es" "y \<in> set es"
  then have u: "uint (ev_timestamp x) < 2 ^ 63" "uint (ev_timestamp y) < 2 ^ 63" by (auto simp: times_small_def list_all_iff)
  show "CompareEvent x y \<le> 0 \<longleftrightarrow> event_key x \<le> event_key y"
    unfolding CompareEvent_def event_key_def sint_diff64 [OF u] Let_def less_eq_prod_simp word_less_def word_le_def word_uint_eq_iff
    by auto
qed

lemma scaled_small: "tsKind h \<noteq> tsKind_code LOGTS_MACH_ABSOLUTE \<Longrightarrow> uint (GetTimestamp h ts) < 2 ^ 32"
proof -
  assume k: "tsKind h \<noteq> tsKind_code LOGTS_MACH_ABSOLUTE"
  have u: "uint (ucast (w :: 32 word) :: 64 word) < 2 ^ 32" for w
  proof -
    have "uint (ucast w :: 64 word) = take_bit 64 (uint w)" by (simp add: unsigned_ucast_eq)
    also have "\<dots> \<le> uint w" by (rule take_bit_int_less_eq_self_iff [THEN iffD2]) simp
    also have "\<dots> < 2 ^ 32" using unsigned_less [of w, where 'a = int] by simp
    finally show ?thesis .
  qed
  show ?thesis using k u by (simp add: GetTimestamp_def)
qed

lemma byte_of_char: "unat (of_char c :: byte) = of_char c"
proof -
  have "(of_char c :: byte) = word_of_nat (of_char c)" by (rule of_nat_of_char [symmetric])
  then show ?thesis by (simp add: unat_of_nat del: of_nat_of_char)
qed

lemma byte_of_char_zero: "c \<noteq> CHR 0x00 \<Longrightarrow> (of_char c :: byte) \<noteq> 0"
proof
  assume c: "c \<noteq> CHR 0x00" and z: "(of_char c :: byte) = 0"
  have "(of_char c :: nat) = of_char (CHR 0x00)" using byte_of_char [of c] z by (simp add: of_char_def)
  then show False using c by (simp only: of_char_eq_iff)
qed

lemma char_field_array:
  assumes "length s < 32" and "CHR 0x00 \<notin> set s" and "length xs = off"
  shows "char_field (xs @ char_array 32 s @ ys) off = s"
proof -
  have nz: "\<forall>b \<in> set (map of_char s). b \<noteq> (0 :: byte)"
  proof
    fix b :: byte assume "b \<in> set (map of_char s)"
    then obtain c where "c \<in> set s" "b = of_char c" by auto
    with assms(2) byte_of_char_zero [of c] show "b \<noteq> 0" by metis
  qed
  obtain k where "32 - length s = Suc k" using assms(1) by (metis Suc_diff_Suc)
  then have "takeWhile (\<lambda>c. c \<noteq> 0) (map of_char s @ replicate (32 - length s) (0 :: byte)) = map of_char s"
    using takeWhile_append2 [of "map of_char s" "\<lambda>c. c \<noteq> (0 :: byte)" "replicate (32 - length s) 0"] nz by simp
  moreover have "take 32 (drop off (xs @ char_array 32 s @ ys)) = map of_char s @ replicate (32 - length s) 0"
    using assms(1,3) by (simp add: char_array_def)
  ultimately show ?thesis by (simp add: char_field_def comp_def byte_of_char)
qed

lemma read_header_bytes:
  assumes "length (date h) < 32" and "length (clockName h) < 32" and "CHR 0x00 \<notin> set (date h)" and "CHR 0x00 \<notin> set (clockName h)"
  shows "read_header (header_bytes h @ ys) = Some h"
proof -
  let ?b = "header_bytes h @ ys"
  have g: "get64 ?b 0 = Some (magic h)" "get32 ?b 8 = Some (majorVersion h)" "get32 ?b 12 = Some (minorVersion h)"
    "get32 ?b 16 = Some (patchVersion h)" "get32 ?b 20 = Some (hdrSzB h)" "get32 ?b 24 = Some (bufSzB h)"
    using get64_here [of "[]" 0 "magic h"]
      get32_here [of "bytes64 (magic h)" 8 "majorVersion h"]
      get32_here [of "bytes64 (magic h) @ bytes32 (majorVersion h)" 12 "minorVersion h"]
      get32_here [of "bytes64 (magic h) @ bytes32 (majorVersion h) @ bytes32 (minorVersion h)" 16 "patchVersion h"]
      get32_here [of "bytes64 (magic h) @ bytes32 (majorVersion h) @ bytes32 (minorVersion h) @ bytes32 (patchVersion h)" 20 "hdrSzB h"]
      get32_here [of "bytes64 (magic h) @ bytes32 (majorVersion h) @ bytes32 (minorVersion h) @ bytes32 (patchVersion h) @ bytes32 (hdrSzB h)" 24 "bufSzB h"]
    by (simp_all add: header_bytes_def)
  let ?p = "bytes64 (magic h) @ bytes32 (majorVersion h) @ bytes32 (minorVersion h) @ bytes32 (patchVersion h) @ bytes32 (hdrSzB h) @ bytes32 (bufSzB h)"
  have d: "char_field ?b 28 = date h"
    using char_field_array [of "date h" ?p 28] assms by (simp add: header_bytes_def)
  let ?q = "?p @ char_array 32 (date h)"
  have g2: "get32 ?b 60 = Some (tsKind h)" "get64 ?b 64 = Some (startTime h)"
    using get32_here [of ?q 60 "tsKind h"] get64_here [of "?q @ bytes32 (tsKind h)" 64 "startTime h"]
    by (simp_all add: header_bytes_def)
  have c: "char_field ?b 72 = clockName h"
    using char_field_array [of "clockName h" "?q @ bytes32 (tsKind h) @ bytes64 (startTime h)" 72] assms by (simp add: header_bytes_def)
  let ?r = "?q @ bytes32 (tsKind h) @ bytes64 (startTime h) @ char_array 32 (clockName h)"
  have g3: "get32 ?b 104 = Some (resolution h)" "get32 ?b 108 = Some (nVProcs h)" "get32 ?b 112 = Some (nCPUs h)"
    using get32_here [of ?r 104 "resolution h"] get32_here [of "?r @ bytes32 (resolution h)" 108 "nVProcs h"]
      get32_here [of "?r @ bytes32 (resolution h) @ bytes32 (nVProcs h)" 112 "nCPUs h"]
    by (simp_all add: header_bytes_def)
  show ?thesis unfolding read_header_def g g2 g3 d c by simp
qed

section \<open>Reading written buffers back\<close>

definition dump_event :: "LogFileHeader_t \<Rightarrow> (int \<Rightarrow> 'd option) \<Rightarrow> int \<Rightarrow> LogEvent_t \<Rightarrow> 'd Event" where
  "dump_event h fnd v e = \<lparr>ev_timestamp = GetTimestamp h (le_timestamp e), ev_vpId = v, ev_desc = the (fnd (sint (le_event e)))\<rparr>"

text \<open>The events of a written buffer the reader sees, with the entry count clamped.\<close>

definition known :: "(int \<Rightarrow> 'd option) \<Rightarrow> LogEvent_t \<Rightarrow> bool" where
  "known fnd e \<longleftrightarrow> fnd (sint (le_event e)) \<noteq> None"

lemma drop_events:
  assumes "list_all (\<lambda>e. length (le_data e) = 5) es" and "j < length es"
  shows "\<exists>pre post. concat (map event_bytes es) = pre @ event_bytes (es ! j) @ post \<and> length pre = 32 * j"
proof -
  have "es = take j es @ es ! j # drop (Suc j) es" using assms(2) by (rule id_take_nth_drop)
  then have "concat (map event_bytes es) = concat (map event_bytes (take j es)) @ event_bytes (es ! j) @ concat (map event_bytes (drop (Suc j) es))"
    by (metis concat.simps(2) concat_append list.simps(9) map_append)
  moreover have "length (concat (map event_bytes (take j es))) = 32 * j"
    using assms length_events_bytes [of "take j es"] by (simp add: LOGEVENT_SZB_def list_all_length)
  ultimately show ?thesis by blast
qed

lemma event_fields:
  assumes b: "buffer_ok b" and j: "j < LOGBUF_SZ"
  shows "get64 (LogBuffer_bytes b) (32 + 32 * j) = Some (le_timestamp (lb_log b ! j))"
    and "get32 (LogBuffer_bytes b) (40 + 32 * j) = Some (le_event (lb_log b ! j))"
proof -
  let ?e = "lb_log b ! j"
  let ?h = "bytes32 (lb_vpId b) @ bytes32 (word_of_int (lb_next b)) @ bytes32 (word_of_int (lb_seqNum b)) @ lb_pad b"
  have l: "length ?h = 32" using b by (simp add: buffer_ok_def LOGEVENT_SZB_def)
  have "j < length (lb_log b)" and d: "list_all (\<lambda>e. length (le_data e) = 5) (lb_log b)" using b j by (simp_all add: buffer_ok_def)
  from drop_events [OF this(2,1)] obtain pre post
    where p: "concat (map event_bytes (lb_log b)) = pre @ event_bytes ?e @ post" "length pre = 32 * j" by blast
  have c: "LogBuffer_bytes b = (?h @ pre) @ bytes64 (le_timestamp ?e) @ bytes32 (le_event ?e) @ concat (map bytes32 (le_data ?e)) @ post"
    by (simp add: LogBuffer_bytes_def p(1) event_bytes_def)
  show "get64 (LogBuffer_bytes b) (32 + 32 * j) = Some (le_timestamp ?e)"
    unfolding c by (rule get64_here) (use l p(2) in simp)
  have c2: "LogBuffer_bytes b = ((?h @ pre) @ bytes64 (le_timestamp ?e)) @ bytes32 (le_event ?e) @ concat (map bytes32 (le_data ?e)) @ post"
    by (simp add: c)
  show "get32 (LogBuffer_bytes b) (40 + 32 * j) = Some (le_event ?e)"
    unfolding c2 by (rule get32_here) (use l p(2) in simp)
qed

lemma buffer_fields:
  shows "get32 (LogBuffer_bytes b) 0 = Some (lb_vpId b)"
    and "get32 (LogBuffer_bytes b) 4 = Some (word_of_int (lb_next b))"
    and "get32 (LogBuffer_bytes b) 8 = Some (word_of_int (lb_seqNum b))"
  using get32_here [of "[]" 0 "lb_vpId b"] get32_here [of "bytes32 (lb_vpId b)" 4 "word_of_int (lb_next b)"]
    get32_here [of "bytes32 (lb_vpId b) @ bytes32 (word_of_int (lb_next b))" 8 "word_of_int (lb_seqNum b)"]
  by (simp_all add: LogBuffer_bytes_def)

lemma read_events_block:
  assumes b: "buffer_ok b" and "k \<le> LOGBUF_SZ" and "i \<le> k" and "\<forall>e \<in> set (take k (lb_log b)). known fnd e"
    and "int (length evs + (k - i)) \<le> maxN"
  shows "read_events h fnd (LogBuffer_bytes b) maxN vp [i..<k] evs =
    Some (evs @ map (dump_event h fnd vp) (drop i (take k (lb_log b))))"
  using assms(3,5)
proof (induction "k - i" arbitrary: i evs)
  case (Suc n)
  then have i: "i < k" by simp
  with assms(2) have il: "i < LOGBUF_SZ" by simp
  then have ill: "i < length (lb_log b)" using b by (simp add: buffer_ok_def)
  have "lb_log b ! i \<in> set (take k (lb_log b))" using i ill by (auto simp: in_set_conv_nth)
  with assms(4) have "known fnd (lb_log b ! i)" by blast
  then obtain d where d: "fnd (sint (le_event (lb_log b ! i))) = Some d" by (auto simp: known_def)
  let ?x = "dump_event h fnd vp (lb_log b ! i)"
  have x: "?x = \<lparr>ev_timestamp = GetTimestamp h (le_timestamp (lb_log b ! i)), ev_vpId = vp, ev_desc = d\<rparr>"
    by (simp add: dump_event_def d)
  have IH: "read_events h fnd (LogBuffer_bytes b) maxN vp [Suc i..<k] (evs @ [?x]) =
      Some ((evs @ [?x]) @ map (dump_event h fnd vp) (drop (Suc i) (take k (lb_log b))))"
    by (rule Suc.hyps(1)) (use Suc.hyps(2) i Suc.prems in auto)
  have "drop i (take k (lb_log b)) = lb_log b ! i # drop (Suc i) (take k (lb_log b))"
    using i ill by (simp add: Cons_nth_drop_Suc [symmetric])
  with IH show ?case
    using i il Suc.prems d event_fields [OF b il] by (simp add: upt_conv_Cons x add.commute)
qed simp

lemma sint32_of_int: "- (2 ^ 31) \<le> d \<Longrightarrow> d < 2 ^ 31 \<Longrightarrow> sint (word_of_int d :: 32 word) = d"
  by (simp add: signed_of_int signed_take_bit_int_eq_self)

lemma sint32_small:
  fixes w :: "32 word"
  assumes "unat w < 2 ^ 31" shows "sint w = int (unat w)"
proof -
  have "w = word_of_int (int (unat w))" by simp
  moreover have "int (unat w) < 2 ^ 31" using assms by (metis of_nat_less_iff of_nat_numeral of_nat_power)
  then have "sint (word_of_int (int (unat w)) :: 32 word) = int (unat w)" by (intro sint32_of_int) linarith+
  ultimately show ?thesis by (simp only:)
qed

lemma block_events_clamped:
  assumes "buffer_ok b" and "0 \<le> lb_next b"
  shows "take (nat (min (lb_next b) (int LOGBUF_SZ))) (lb_log b) = block_events b"
proof (cases "lb_next b \<le> int LOGBUF_SZ")
  case False
  then have "nat (min (lb_next b) (int LOGBUF_SZ)) = LOGBUF_SZ" and "LOGBUF_SZ \<le> nat (lb_next b)" by linarith+
  with assms(1) show ?thesis by (simp add: block_events_def buffer_ok_def)
qed (simp add: block_events_def min_def)

definition block_dump :: "LogFileHeader_t \<Rightarrow> (int \<Rightarrow> 'd option) \<Rightarrow> LogBuffer_t \<Rightarrow> 'd Event list" where
  "block_dump h fnd b = map (dump_event h fnd (int (unat (lb_vpId b)))) (block_events b)"

lemma length_block_dump:
  assumes "buffer_ok b" shows "length (block_dump h fnd b) \<le> LOGBUF_SZ"
  using assms by (simp add: block_dump_def block_events_def buffer_ok_def)

lemma read_buffer_block:
  assumes b: "block_ok n b" and n: "unat (nVProcs h) = n" "n < 2 ^ 31" and sq: "0 \<le> lb_seqNum b" "lb_seqNum b < 2 ^ 31"
    and kn: "\<forall>e \<in> set (block_events b). known fnd e" and mx: "int (length (ds_events s) + LOGBUF_SZ) \<le> maxN"
  shows "read_buffer h fnd (int LOGBUF_SZ) maxN (LogBuffer_bytes b) s = Inr
    \<lparr>ds_counts = (ds_counts s)[unat (lb_vpId b) := lb_seqNum b + 1], ds_events = ds_events s @ block_dump h fnd b,
     ds_msgs = ds_msgs s @ (if lb_seqNum b \<noteq> ds_counts s ! unat (lb_vpId b)
       then [OutOfOrder (int (unat (lb_vpId b))) (ds_counts s ! unat (lb_vpId b)) (lb_seqNum b)] else [])\<rparr>"
proof -
  have bok: "buffer_ok b" and v: "unat (lb_vpId b) < n" and nx: "0 \<le> lb_next b" "lb_next b \<le> int LOGBUF_SZ + 1"
    using b by (simp_all add: block_ok_def)
  have "lb_next b < 2 ^ 31" using nx by (simp add: log_sizes)
  then have nxs: "sint (word_of_int (lb_next b) :: 32 word) = lb_next b" using nx by (intro sint32_of_int) simp_all
  have sqs: "sint (word_of_int (lb_seqNum b) :: 32 word) = lb_seqNum b" using sq by (intro sint32_of_int) simp_all
  have vs: "sint (lb_vpId b) = int (unat (lb_vpId b))" using v n by (intro sint32_small) simp
  have vl: "\<not> nVProcs h \<le> lb_vpId b" using v n by (simp add: word_le_nat_alt)
  let ?k = "nat (min (lb_next b) (int LOGBUF_SZ))"
  have k: "?k \<le> LOGBUF_SZ" by simp
  note cl = block_events_clamped [OF bok nx(1)]
  have "read_events h fnd (LogBuffer_bytes b) maxN (int (unat (lb_vpId b))) [0..<?k] (ds_events s) =
      Some (ds_events s @ block_dump h fnd b)"
  proof -
    have "int (length (ds_events s) + (?k - 0)) \<le> maxN" using mx k by linarith
    from read_events_block [OF bok k _ _ this, of fnd h "int (unat (lb_vpId b))"] kn
    show ?thesis unfolding cl block_dump_def by simp
  qed
  then show ?thesis using vl unfolding read_buffer_def buffer_fields by (simp add: nxs sqs vs Let_def)
qed

lemma fread_block:
  assumes "length xs = pos" and "length ys = sz" and "length buf = sz"
  shows "fread buf sz (xs @ ys @ zs) pos = ys"
  using assms by (simp add: fread_def Let_def)

lemma read_buffers_blocks:
  assumes "list_all (block_ok n) bs" and "unat (nVProcs h) = n" and "n < 2 ^ 31"
    and "\<forall>b \<in> set bs. \<forall>e \<in> set (block_events b). known fnd e"
    and "length pre = pos" and "length (ds_counts s) = n" and "length buf = LOGBLOCK_SZB"
    and "int (length (ds_events s) + LOGBUF_SZ * length bs) \<le> maxN"
    and "\<forall>v < n. \<exists>k. ds_counts s ! v = int k \<and> map lb_seqNum (blocks_of v bs) = map int [k..<k + length (blocks_of v bs)] \<and> k + length bs < 2 ^ 31"
  shows "\<exists>cs. read_buffers h fnd (int LOGBUF_SZ) maxN (pre @ concat (map LogBuffer_bytes bs)) LOGBLOCK_SZB buf pos (length bs) s =
    Inr \<lparr>ds_counts = cs, ds_events = ds_events s @ concat (map (block_dump h fnd) bs), ds_msgs = ds_msgs s\<rparr>"
  using assms
proof (induction bs arbitrary: pre pos buf s)
  case (Cons b bs)
  let ?v = "unat (lb_vpId b)"
  have b: "block_ok n b" and bs: "list_all (block_ok n) bs" using Cons.prems(1) by simp_all
  have bok: "buffer_ok b" and v: "?v < n" using b by (simp_all add: block_ok_def)
  have len: "length (LogBuffer_bytes b) = LOGBLOCK_SZB" by (rule length_LogBuffer_bytes [OF bok])
  from Cons.prems(9) v obtain k where k: "ds_counts s ! ?v = int k" "k + length (b # bs) < 2 ^ 31"
    "map lb_seqNum (blocks_of ?v (b # bs)) = map int [k..<k + length (blocks_of ?v (b # bs))]" by blast
  have "blocks_of ?v (b # bs) = b # blocks_of ?v bs" by (simp add: blocks_of_def)
  with k(3) have sq: "lb_seqNum b = int k" and sqs: "map lb_seqNum (blocks_of ?v bs) = map int [Suc k..<Suc k + length (blocks_of ?v bs)]"
    by (simp_all add: upt_conv_Cons del: upt_Suc)
  let ?s' = "\<lparr>ds_counts = (ds_counts s)[?v := int k + 1], ds_events = ds_events s @ block_dump h fnd b, ds_msgs = ds_msgs s\<rparr>"
  have "length (ds_events s) + LOGBUF_SZ \<le> length (ds_events s) + LOGBUF_SZ * length (b # bs)" by simp
  with Cons.prems(8) have mx: "int (length (ds_events s) + LOGBUF_SZ) \<le> maxN" by linarith
  have "fread buf LOGBLOCK_SZB (pre @ concat (map LogBuffer_bytes (b # bs))) pos = LogBuffer_bytes b"
    using fread_block [OF Cons.prems(5) len Cons.prems(7), of "concat (map LogBuffer_bytes bs)"] by simp
  moreover have "read_buffer h fnd (int LOGBUF_SZ) maxN (LogBuffer_bytes b) s = Inr ?s'"
    using read_buffer_block [OF b Cons.prems(2,3), of fnd s maxN] Cons.prems(4) mx k sq by simp
  moreover have "\<exists>cs. read_buffers h fnd (int LOGBUF_SZ) maxN ((pre @ LogBuffer_bytes b) @ concat (map LogBuffer_bytes bs)) LOGBLOCK_SZB
      (LogBuffer_bytes b) (pos + LOGBLOCK_SZB) (length bs) ?s' =
      Inr \<lparr>ds_counts = cs, ds_events = ds_events ?s' @ concat (map (block_dump h fnd) bs), ds_msgs = ds_msgs ?s'\<rparr>"
  proof (rule Cons.IH [OF bs Cons.prems(2,3)])
    show "\<forall>v < n. \<exists>k. ds_counts ?s' ! v = int k \<and> map lb_seqNum (blocks_of v bs) = map int [k..<k + length (blocks_of v bs)] \<and> k + length bs < 2 ^ 31"
    proof (intro allI impI)
      fix w assume w: "w < n"
      show "\<exists>k. ds_counts ?s' ! w = int k \<and> map lb_seqNum (blocks_of w bs) = map int [k..<k + length (blocks_of w bs)] \<and> k + length bs < 2 ^ 31"
      proof (cases "w = ?v")
        case True
        then show ?thesis using sqs k v Cons.prems(6) by (intro exI [of _ "Suc k"]) simp
      next
        case False
        have "n \<le> 2 ^ 32" using Cons.prems(3) by simp
        then have "lb_vpId b \<noteq> word_of_nat w" using False w unat_of_nat32 [of w] by auto
        then have "blocks_of w (b # bs) = blocks_of w bs" by (simp add: blocks_of_def)
        with Cons.prems(9) w obtain k where "ds_counts s ! w = int k" "k + length (b # bs) < 2 ^ 31"
          "map lb_seqNum (blocks_of w bs) = map int [k..<k + length (blocks_of w bs)]" by metis
        with False show ?thesis by (intro exI [of _ k]) simp
      qed
    qed
  qed (use Cons.prems len length_block_dump [OF bok, of h fnd] in \<open>auto simp: algebra_simps\<close>)
  ultimately show ?case by (simp add: Let_def)
next
  case Nil
  then show ?case by (intro exI [of _ "ds_counts s"]) simp
qed

section \<open>A log is read back\<close>

lemma mset_by_tag:
  assumes "\<And>v. filter (\<lambda>x. t x = v) xs = filter (\<lambda>x. t x = v) ys"
  shows "mset xs = mset ys"
proof (rule multiset_eqI)
  fix x
  have c: "count (mset zs) x = count (mset (filter (\<lambda>y. t y = t x) zs)) x" for zs by simp
  have "count (mset xs) x = count (mset (filter (\<lambda>y. t y = t x) xs)) x" by (rule c)
  also have "\<dots> = count (mset (filter (\<lambda>y. t y = t x) ys)) x" by (simp only: assms)
  also have "\<dots> = count (mset ys) x" by (rule c [symmetric])
  finally show "count (mset xs) x = count (mset ys) x" .
qed

definition op_event :: "LogFileHeader_t \<Rightarrow> (int \<Rightarrow> 'd option) \<Rightarrow> log_op \<Rightarrow> 'd Event" where
  "op_event h fnd x = dump_event h fnd (int (fst x)) (fst (snd x))"

lemma uint_eq_int: "uint w = int v \<longleftrightarrow> unat w = v"
  by (metis of_nat_unat of_nat_eq_iff)

lemma filter_blocks:
  assumes "list_all (block_ok n) bs" and "n \<le> 2 ^ 32" and "v < n"
  shows "filter (\<lambda>e. ev_vpId e = int v) (concat (map (block_dump h fnd) bs)) =
    map (dump_event h fnd (int v)) (concat (map block_events (blocks_of v bs)))"
  using assms(1)
proof (induction bs)
  case (Cons b bs)
  have vb: "unat (lb_vpId b) = v \<longleftrightarrow> lb_vpId b = word_of_nat v"
    using assms(2,3) unat_of_nat32 [of v] by auto
  have f: "filter (\<lambda>e. ev_vpId e = int v) (block_dump h fnd b) = (if unat (lb_vpId b) = v then block_dump h fnd b else [])"
    by (auto simp: block_dump_def filter_map comp_def dump_event_def uint_eq_int)
  have bd: "unat (lb_vpId b) = v \<Longrightarrow> block_dump h fnd b = map (dump_event h fnd (int v)) (block_events b)"
    unfolding block_dump_def by (simp only:)
  from Cons.prems have "list_all (block_ok n) bs" by simp
  note IH = Cons.IH [OF this]
  show ?case
  proof (cases "unat (lb_vpId b) = v")
    case True
    then have "blocks_of v (b # bs) = b # blocks_of v bs" using vb by (simp add: blocks_of_def)
    with IH f bd [OF True] True show ?thesis by (simp del: of_nat_unat)
  next
    case False
    then have "blocks_of v (b # bs) = blocks_of v bs" using vb by (simp add: blocks_of_def)
    with IH f False show ?thesis by simp
  qed
qed (simp add: blocks_of_def)

lemma concat_blocks_vp:
  assumes "list_all (block_ok n) bs" and "e \<in> set (concat (map (block_dump h fnd) bs))"
  shows "\<exists>v < n. ev_vpId e = int v"
  using assms by (auto simp: block_dump_def dump_event_def block_ok_def list_all_iff)

lemma mset_blocks:
  assumes lb: "log_blocks n ops bs" and n: "n \<le> 2 ^ 32" and ops: "list_all (op_ok n) ops"
  shows "mset (concat (map (block_dump h fnd) bs)) = mset (map (op_event h fnd) ops)"
proof (rule mset_by_tag [where t = ev_vpId])
  fix v
  let ?L = "concat (map (block_dump h fnd) bs)" and ?R = "map (op_event h fnd) ops"
  have bok: "list_all (block_ok n) bs" using lb by (simp add: log_blocks_def)
  show "filter (\<lambda>x. ev_vpId x = v) ?L = filter (\<lambda>x. ev_vpId x = v) ?R"
  proof (cases "\<exists>w < n. v = int w")
    case True
    then obtain w where w: "w < n" "v = int w" by blast
    have "filter (\<lambda>x. ev_vpId x = int w) ?R = map (dump_event h fnd (int w)) (events_of w ops)"
      by (induction ops) (simp_all add: events_of_def op_event_def dump_event_def)
    with filter_blocks [OF bok n w(1), of h fnd] lb w show ?thesis by (simp add: log_blocks_def)
  next
    case False
    then have "filter (\<lambda>x. ev_vpId x = v) ?L = []"
      using concat_blocks_vp [OF bok, of _ h fnd] by (force simp: filter_empty_conv)
    moreover have "filter (\<lambda>x. ev_vpId x = v) ?R = []"
      using ops False by (auto simp: filter_empty_conv op_event_def dump_event_def op_ok_def list_all_iff)
    ultimately show ?thesis by simp
  qed
qed

text \<open>A header the reader accepts, as \<open>InitLogFile\<close> writes it.\<close>

definition header_ok :: "32 word \<Rightarrow> nat \<Rightarrow> LogFileHeader_t \<Rightarrow> bool" where
  "header_ok major n h \<longleftrightarrow> check_header major h = None \<and> bufSzB h = word_of_nat LOGBLOCK_SZB \<and> nVProcs h = word_of_nat n
     \<and> length (date h) < 32 \<and> length (clockName h) < 32 \<and> CHR 0x00 \<notin> set (date h) \<and> CHR 0x00 \<notin> set (clockName h)"

lemma length_blocks: "list_all (block_ok n) bs \<Longrightarrow> length (concat (map LogBuffer_bytes bs)) = LOGBLOCK_SZB * length bs"
  by (induction bs) (simp_all add: block_ok_def length_LogBuffer_bytes)

lemma known_blocks:
  assumes lb: "log_blocks n ops bs" and kn: "\<forall>x \<in> set ops. known fnd (fst (snd x))" and n: "n \<le> 2 ^ 32"
    and b: "b \<in> set bs" and e: "e \<in> set (block_events b)"
  shows "known fnd e"
proof -
  have "block_ok n b" using lb b by (simp add: log_blocks_def list_all_iff)
  then have v: "unat (lb_vpId b) < n" by (simp add: block_ok_def)
  have "b \<in> set (blocks_of (unat (lb_vpId b)) bs)" using b by (simp add: blocks_of_def)
  with e have "e \<in> set (concat (map block_events (blocks_of (unat (lb_vpId b)) bs)))" by auto
  moreover have "concat (map block_events (blocks_of (unat (lb_vpId b)) bs)) = events_of (unat (lb_vpId b)) ops"
    using lb v unfolding log_blocks_def by blast
  ultimately have "e \<in> set (events_of (unat (lb_vpId b)) ops)" by (simp only:)
  with kn show ?thesis by (auto simp: events_of_def)
qed

lemma fread_header: "length buf0 = LOGBLOCK_SZB \<Longrightarrow> fread buf0 LOGBLOCK_SZB (header_block h @ ys) 0 = header_block h"
  using fread_block [of "[]" 0 "header_block h" LOGBLOCK_SZB buf0 ys] by simp

lemma LoadLogFile_blocks:
  assumes lb: "log_blocks n ops bs" and n: "n < 2 ^ 31" and h: "header_ok major n h" and buf: "length buf0 = LOGBLOCK_SZB"
    and kn: "\<forall>x \<in> set ops. known fnd (fst (snd x))" and len: "LOGBUF_SZ * length bs < 2 ^ 31" and ne: "bs \<noteq> []"
  shows "LoadLogFile major fnd buf0 junk (header_block h @ concat (map LogBuffer_bytes bs)) =
    Inr (h, finish_events h junk \<lparr>ds_counts = [], ds_events = concat (map (block_dump h fnd) bs), ds_msgs = []\<rparr>)"
proof -
  let ?f = "header_block h @ concat (map LogBuffer_bytes bs)"
  have n32: "n \<le> 2 ^ 32" using n by simp
  have bok: "list_all (block_ok n) bs" using lb by (simp add: log_blocks_def)
  have hd: "read_header (header_block h) = Some h" unfolding header_block_def
    by (rule read_header_bytes) (use h in \<open>simp_all add: header_ok_def\<close>)
  have nv: "unat (nVProcs h) = n" using h n32 n by (simp add: header_ok_def unat_of_nat32)
  have lf: "length ?f = LOGBLOCK_SZB * (length bs + 1)" using length_blocks [OF bok] by simp
  have pos: "0 < LOGBLOCK_SZB" by (simp add: log_sizes)
  have "LOGBUF_SZ * length bs \<ge> length bs" by (simp add: log_sizes)
  with len have lb31: "length bs < 2 ^ 31" by linarith
  have nb: "c_int (word_of_nat (length ?f div LOGBLOCK_SZB) - 1) = int (length bs)"
    using lf pos lb31 by simp
  define maxN where "maxN = int LOGBUF_SZ * int (length bs)"
  have mx: "0 \<le> maxN" "maxN < 2 ^ 31" using len by (simp_all add: maxN_def flip: of_nat_mult)
  let ?s0 = "\<lparr>ds_counts = replicate n 0, ds_events = [], ds_msgs = []\<rparr> :: 'd DumpState"
  have k0: "\<forall>v < n. \<exists>k. ds_counts ?s0 ! v = int k \<and> map lb_seqNum (blocks_of v bs) = map int [k..<k + length (blocks_of v bs)] \<and> k + length bs < 2 ^ 31"
  proof (intro allI impI)
    fix v assume "v < n"
    then show "\<exists>k. ds_counts ?s0 ! v = int k \<and> map lb_seqNum (blocks_of v bs) = map int [k..<k + length (blocks_of v bs)] \<and> k + length bs < 2 ^ 31"
      using lb lb31 by (intro exI [of _ 0]) (simp add: log_blocks_def)
  qed
  have kb: "\<forall>b \<in> set bs. \<forall>e \<in> set (block_events b). known fnd e" using known_blocks [OF lb kn n32] by blast
  obtain cs where r: "read_buffers h fnd (int LOGBUF_SZ) maxN ?f LOGBLOCK_SZB (header_block h) LOGBLOCK_SZB (length bs) ?s0 =
      Inr \<lparr>ds_counts = cs, ds_events = concat (map (block_dump h fnd) bs), ds_msgs = []\<rparr>"
  proof -
    have "length (ds_counts ?s0) = n" "length (header_block h) = LOGBLOCK_SZB" "int (length (ds_events ?s0) + LOGBUF_SZ * length bs) \<le> maxN"
      by (simp_all add: maxN_def)
    from read_buffers_blocks [OF bok nv n kb this(2,1,2,3) k0] that show ?thesis by auto
  qed
  have b: "bufSzB h = word_of_nat LOGBLOCK_SZB" and c: "check_header major h = None" using h by (simp_all add: header_ok_def)
  have "0 < length bs" using ne by simp
  moreover have "\<not> (maxN < 0 \<or> 2 ^ 31 \<le> maxN)" using mx by linarith
  ultimately show ?thesis unfolding LoadLogFile_def fread_header [OF buf] hd option.case c Let_def b
    using r pos nb nv lf by (simp add: finish_events_def flip: maxN_def)
qed

lemma key_unique:
  fixes k :: "'a \<Rightarrow> 'b :: linorder"
  assumes m: "mset xs = mset ys" and s: "sorted (map k xs)" and t: "sorted_wrt (<) (map k ys)"
  shows "xs = ys"
proof -
  have ty: "sorted (map k ys)" and d: "distinct (map k ys)" using t strict_sorted_iff by blast+
  have mk: "mset (map k xs) = mset (map k ys)" using m by (simp add: mset_map)
  have "map k xs = map k ys" using properties_for_sort [OF mk s] properties_for_sort [OF refl ty] by simp
  moreover have "inj_on k (set xs \<union> set ys)" using d m mset_eq_setD [OF m] by (simp add: distinct_map)
  ultimately show ?thesis by (simp add: inj_on_map_eq_map)
qed

text \<open>The time the reader subtracts: the start of the run, or the first event when it is earlier.\<close>

definition run_base :: "LogFileHeader_t \<Rightarrow> 'd Event list \<Rightarrow> 64 word" where
  "run_base h es = foldr min (map ev_timestamp es) (GetTimestamp h (startTime h))"

definition relative :: "64 word \<Rightarrow> 'd Event \<Rightarrow> 'd Event" where
  "relative base e = e\<lparr>ev_timestamp := ev_timestamp e - base\<rparr>"

lemma run_base_le: "e \<in> set es \<Longrightarrow> run_base h es \<le> ev_timestamp e"
  unfolding run_base_def by (induction es) (auto simp: min_le_iff_disj)

lemma run_base_mset: "mset es = mset es' \<Longrightarrow> run_base h es = run_base h es'"
proof -
  have f: "foldr min xs s = Min (insert s (set xs))" for xs and s :: "64 word" by (induction xs) (simp_all add: insert_commute)
  assume "mset es = mset es'"
  then have "set es = set es'" by (rule mset_eq_setD)
  then show ?thesis unfolding run_base_def f by simp
qed

lemma run_base_sorted: "sorted (map ev_timestamp (e # es)) \<Longrightarrow> run_base h (e # es) = min (ev_timestamp e) (GetTimestamp h (startTime h))"
proof -
  assume s: "sorted (map ev_timestamp (e # es))"
  have a: "\<forall>x \<in> set (map ev_timestamp es). ev_timestamp e \<le> x" using s by simp
  have g: "min (ev_timestamp e) (foldr min xs s) = min (ev_timestamp e) s" if "\<forall>x \<in> set xs. ev_timestamp e \<le> x" for xs and s :: "64 word"
    using that
  proof (induction xs)
    case (Cons x xs)
    have "min (ev_timestamp e) (min x (foldr min xs s)) = min (min (ev_timestamp e) x) (foldr min xs s)" by (rule min.assoc [symmetric])
    also have "min (ev_timestamp e) x = ev_timestamp e" using Cons.prems by (simp add: min_absorb1)
    finally show ?case using Cons by simp
  qed simp
  show ?thesis using g [OF a, of "GetTimestamp h (startTime h)"] by (simp add: run_base_def)
qed

lemma sorted_key_times: "sorted (map event_key es) \<Longrightarrow> sorted (map ev_timestamp es)"
proof -
  assume "sorted (map event_key es)"
  then have "sorted_wrt (\<lambda>x y. event_key x \<le> event_key y) es" by (simp add: sorted_map)
  then have "sorted_wrt (\<lambda>x y. ev_timestamp x \<le> ev_timestamp y) es"
    by (rule sorted_wrt_mono_rel [rotated]) (auto simp: event_key_def)
  then show ?thesis by (simp add: sorted_map)
qed

lemma sorted_relative:
  assumes "sorted (map event_key es)" and "\<forall>e \<in> set es. base \<le> ev_timestamp e"
  shows "sorted (map event_key (map (relative base) es))"
proof -
  have "sorted_wrt (\<lambda>x y. event_key x \<le> event_key y) es" using assms(1) by (simp add: sorted_map)
  then have "sorted_wrt (\<lambda>x y. event_key (relative base x) \<le> event_key (relative base y)) es"
  proof (rule sorted_wrt_mono_rel [rotated])
    fix x y assume xy: "x \<in> set es" "y \<in> set es" and le: "event_key x \<le> event_key y"
    have b: "base \<le> ev_timestamp x" "base \<le> ev_timestamp y" using assms(2) xy by simp_all
    have d: "unat (t - base) = unat t - unat base" if "base \<le> t" for t using that by (rule unat_sub)
    have lt: "ev_timestamp x - base < ev_timestamp y - base" if "ev_timestamp x < ev_timestamp y"
      using that b d by (simp add: word_less_nat_alt word_le_nat_alt)
    show "event_key (relative base x) \<le> event_key (relative base y)"
    proof (cases "ev_timestamp x = ev_timestamp y")
      case True
      with le show ?thesis by (simp add: event_key_def relative_def)
    next
      case False
      with le have "ev_timestamp x < ev_timestamp y" by (auto simp: event_key_def)
      from lt [OF this] show ?thesis by (simp add: event_key_def relative_def)
    qed
  qed
  then show ?thesis by (simp add: sorted_map comp_def sorted_wrt_map)
qed

text \<open>What \<open>finish_events\<close> returns: the events sorted and relative to the start of the run.\<close>

lemma finish_events_spec:
  assumes ts: "times_small (ds_events s)" and r: "finish_events h junk s = (evs, msgs)"
  shows "mset evs = mset (map (relative (run_base h (ds_events s))) (ds_events s)) \<and> sorted (map event_key evs)"
proof (cases "qsort CompareEvent (ds_events s)")
  case Nil
  then have "ds_events s = []" using mset_qsort [of CompareEvent "ds_events s"] by simp
  with r show ?thesis by (simp add: finish_events_def qsort_def Let_def)
next
  case (Cons e es)
  let ?q = "qsort CompareEvent (ds_events s)"
  have srt: "sorted (map event_key ?q)" by (rule sorted_qsort [OF CompareEvent_decides [OF ts] subset_refl])
  have st: "sorted (map ev_timestamp (e # es))" using sorted_key_times [OF srt] by (simp only: Cons)
  have base: "run_base h (ds_events s) = min (ev_timestamp e) (GetTimestamp h (startTime h))"
    using run_base_sorted [OF st, of h] run_base_mset [OF mset_qsort, of h CompareEvent "ds_events s"] Cons by simp
  have evs: "evs = map (relative (run_base h (ds_events s))) ?q"
    using r unfolding finish_events_def Let_def base Cons relative_def by (auto simp: min_def)
  have le: "\<forall>x \<in> set ?q. run_base h (ds_events s) \<le> ev_timestamp x" using run_base_le by (simp add: set_qsort) blast
  show ?thesis unfolding evs using sorted_relative [OF srt le] mset_qsort [of CompareEvent "ds_events s"]
    by (simp add: mset_map)
qed

definition no_gap :: "DumpMsg \<Rightarrow> bool" where
  "no_gap m = (case m of OutOfOrder v i j \<Rightarrow> False | _ \<Rightarrow> True)"

lemma finish_events_msgs: "list_all no_gap (ds_msgs s) \<Longrightarrow> list_all no_gap (snd (finish_events h junk s))"
  by (simp add: finish_events_def Let_def no_gap_def)

lemma finish_events_all: "length (fst (finish_events h junk s)) = length (ds_events s)"
proof -
  have "size (mset (qsort CompareEvent (ds_events s))) = size (mset (ds_events s))" by (simp only: mset_qsort)
  then show ?thesis by (simp add: finish_events_def Let_def)
qed

lemma log_reads_back:
  assumes fd: "0 \<le> fd" and js: "list_all (\<lambda>(b0, b1). buffer_ok b0 \<and> buffer_ok b1) js" and n: "length js < 2 ^ 31"
    and ops: "list_all (op_ok (length js)) ops" and ws: "list_all (\<lambda>w. w = Wrote LOGBLOCK_SZB) ws" "length js \<le> length ws"
    and h: "header_ok major (length js) hdr" and kn: "\<forall>x \<in> set ops. known fnd (fst (snd x))"
    and sz: "LOGBUF_SZ * (length ops + length js) < 2 ^ 31" and ne: "ops \<noteq> []"
    and ts: "times_small (map (op_event hdr fnd) ops)" and buf: "length buf0 = LOGBLOCK_SZB"
  shows "\<exists>f evs msgs. log_session fd hdr (Wrote LOGBLOCK_SZB) js ops ws = Some f
     \<and> LoadLogFile major fnd buf0 junk (contents f) = Inr (hdr, evs, msgs)
     \<and> mset evs = mset (map (relative (run_base hdr (map (op_event hdr fnd) ops)) \<circ> op_event hdr fnd) ops)
     \<and> sorted (map event_key evs) \<and> list_all no_gap msgs"
proof -
  have n32: "length js \<le> 2 ^ 32" using n by simp
  obtain f bs where f: "log_session fd hdr (Wrote LOGBLOCK_SZB) js ops ws = Some f"
    "contents f = header_block hdr @ concat (map LogBuffer_bytes bs)" and lb: "log_blocks (length js) ops bs"
    and len: "length bs \<le> length ops + length js"
    using log_session_blocks [OF fd js n32 ops ws, of hdr] by blast
  let ?es = "concat (map (block_dump hdr fnd) bs)"
  have ms: "mset ?es = mset (map (op_event hdr fnd) ops)" by (rule mset_blocks [OF lb n32 ops])
  have "bs \<noteq> []" using ms ne by auto
  moreover have "LOGBUF_SZ * length bs < 2 ^ 31" using sz len by (meson le_less_trans mult_le_mono2)
  ultimately have L: "LoadLogFile major fnd buf0 junk (contents f) =
      Inr (hdr, finish_events hdr junk \<lparr>ds_counts = [], ds_events = ?es, ds_msgs = []\<rparr>)"
    unfolding f(2) by (intro LoadLogFile_blocks [OF lb n h buf kn])
  obtain evs msgs where r: "finish_events hdr junk \<lparr>ds_counts = [], ds_events = ?es, ds_msgs = []\<rparr> = (evs, msgs)" by fastforce
  have "times_small ?es" using ts mset_eq_setD [OF ms] by (simp only: times_small_def list_all_iff)
  with finish_events_spec [OF _ r] have s: "mset evs = mset (map (relative (run_base hdr ?es)) ?es)" "sorted (map event_key evs)" by simp_all
  have "mset evs = mset (map (relative (run_base hdr (map (op_event hdr fnd) ops)) \<circ> op_event hdr fnd) ops)"
    unfolding s(1) run_base_mset [OF ms] mset_map ms by (simp add: image_mset.compositionality)
  moreover have "list_all no_gap msgs" using finish_events_msgs [of "\<lparr>ds_counts = [], ds_events = ?es, ds_msgs = []\<rparr>" hdr junk] r by simp
  ultimately show ?thesis using f(1) L r s(2) by auto
qed

section \<open>Corrupted files\<close>

lemma field_inside: "off + k \<le> length b \<Longrightarrow> field k b off = Some (le_nat (take k (drop off b)))"
  by (simp add: field_def)

lemma length_fread: "length buf = sz \<Longrightarrow> length (fread buf sz f pos) = sz"
  by (simp add: fread_def Let_def)

lemma read_events_safe:
  assumes "\<forall>i. fnd i \<noteq> None" and "\<forall>j \<in> set js. 32 + 32 * j + 12 \<le> length buf" and "int (length evs + length js) \<le> maxN"
  shows "\<exists>evs'. read_events h fnd buf maxN vp js evs = Some evs' \<and> length evs' = length evs + length js"
  using assms(2,3)
proof (induction js arbitrary: evs)
  case (Cons j js)
  obtain ts where ts: "get64 buf (32 + 32 * j) = Some ts" using Cons.prems(1) by (simp add: get64_def field_inside)
  obtain ei where ei: "get32 buf (32 + 32 * j + 8) = Some ei" using Cons.prems(1) by (simp add: get32_def field_inside)
  obtain d where d: "fnd (sint ei) = Some d" using assms(1) by blast
  let ?x = "\<lparr>ev_timestamp = GetTimestamp h ts, ev_vpId = vp, ev_desc = d\<rparr>"
  have "\<exists>evs'. read_events h fnd buf maxN vp js (evs @ [?x]) = Some evs' \<and> length evs' = length (evs @ [?x]) + length js"
    by (rule Cons.IH) (use Cons.prems in auto)
  then show ?case using Cons.prems(2) ts ei d by simp
qed simp

lemma read_buffer_safe:
  assumes fnd: "\<forall>i. fnd i \<noteq> None" and sz: "32 \<le> length buf" "perBuf = int (length buf div 32) - 1"
    and room: "int (length (ds_events s)) + perBuf \<le> maxN"
  shows "case read_buffer h fnd perBuf maxN buf s of Inl e \<Rightarrow> e \<noteq> Crash
    | Inr s' \<Rightarrow> int (length (ds_events s')) \<le> int (length (ds_events s)) + perBuf"
proof -
  obtain vp nx sq where f: "get32 buf 0 = Some vp" "get32 buf 4 = Some nx" "get32 buf 8 = Some sq"
    using sz(1) by (simp add: get32_def field_inside)
  let ?k = "nat (min (sint nx) perBuf)"
  have p0: "0 \<le> perBuf" using sz by linarith
  have k: "int ?k \<le> perBuf" using p0 by simp
  have "\<forall>j \<in> set [0..<?k]. 32 + 32 * j + 12 \<le> length buf"
  proof
    fix j assume "j \<in> set [0..<?k]"
    then have "j < ?k" by simp
    then have "int j < int (length buf div 32) - 1" using k sz(2) by linarith
    then have "j + 2 \<le> length buf div 32" by linarith
    then have "32 * (j + 2) \<le> 32 * (length buf div 32)" by simp
    also have "\<dots> \<le> length buf" by (rule times_div_less_eq_dividend)
    finally show "32 + 32 * j + 12 \<le> length buf" by simp
  qed
  moreover have "int (length (ds_events s) + length [0..<?k]) \<le> maxN" using room k by simp
  ultimately obtain evs where e: "read_events h fnd buf maxN (sint vp) [0..<?k] (ds_events s) = Some evs"
    "length evs = length (ds_events s) + length [0..<?k]"
    using read_events_safe [OF fnd, of "[0..<?k]" buf "ds_events s" maxN h "sint vp"] by blast
  have "int (length evs) \<le> int (length (ds_events s)) + perBuf" unfolding e(2) using k by simp
  with e(1) f show ?thesis by (simp add: read_buffer_def Let_def)
qed

lemma read_buffers_safe:
  assumes fnd: "\<forall>i. fnd i \<noteq> None" and sz: "32 \<le> sz" "perBuf = int (sz div 32) - 1"
    and "length buf = sz" and "int (length (ds_events s)) + perBuf * int k \<le> maxN"
  shows "read_buffers h fnd perBuf maxN f sz buf pos k s \<noteq> Inl Crash"
  using assms(4,5)
proof (induction k arbitrary: buf pos s)
  case (Suc k)
  let ?b = "fread buf sz f pos"
  have p0: "0 \<le> perBuf" using sz by linarith
  then have "0 \<le> perBuf * int k" by simp
  moreover have i: "int (length (ds_events s)) + perBuf + perBuf * int k \<le> maxN" using Suc.prems(2) by (simp add: algebra_simps)
  ultimately have room: "int (length (ds_events s)) + perBuf \<le> maxN" by linarith
  have lb: "length ?b = sz" by (rule length_fread [OF Suc.prems(1)])
  note R = read_buffer_safe [OF fnd, of ?b perBuf s maxN h]
  show ?case
  proof (cases "read_buffer h fnd perBuf maxN ?b s")
    case (Inl e)
    then show ?thesis using R lb sz room by (simp add: Let_def)
  next
    case (Inr s')
    then have "int (length (ds_events s')) \<le> int (length (ds_events s)) + perBuf" using R lb sz room by simp
    with i have "int (length (ds_events s')) + perBuf * int k \<le> maxN" by linarith
    with Suc.IH [OF lb this] Inr show ?thesis by (simp add: Let_def)
  qed
qed simp

lemma c_int_pred: "k < 2 ^ 31 \<Longrightarrow> c_int (word_of_nat k - 1) = int k - 1"
proof (cases k)
  case 0
  have "(ucast (- 1 :: 64 word) :: 32 word) = - 1" by (rule bit_word_eqI) (simp add: bit_simps)
  with 0 show ?thesis by (simp add: c_int_def)
next
  case (Suc j)
  then have "(word_of_nat k - 1 :: 64 word) = word_of_nat j" by simp
  moreover assume "k < 2 ^ 31"
  ultimately show ?thesis using Suc by simp
qed

lemma LoadLogFile_crash:
  assumes fnd: "\<forall>i. fnd i \<noteq> None" and buf: "length buf0 = LOGBLOCK_SZB" and f: "length f < 2 ^ 31"
    and h: "read_header (fread buf0 LOGBLOCK_SZB f 0) = Some h" and c: "check_header major h = None"
    and bz: "unat (bufSzB h) = sz" "sz < 2 ^ 31"
  shows "LoadLogFile major fnd buf0 junk f = Inl Crash \<longleftrightarrow> sz = 0 \<or> (sz < 32 \<and> 2 \<le> length f div sz)"
proof -
  define other where "other = (bufSzB h \<noteq> word_of_nat LOGBLOCK_SZB)"
  have std: "sz = LOGBLOCK_SZB" if "\<not> other"
    using that bz by (simp add: other_def LOGBLOCK_SZB_def)
  define buf1 where "buf1 = (if other then replicate sz 0 else fread buf0 LOGBLOCK_SZB f 0)"
  define pos where "pos = (if other then sz else min LOGBLOCK_SZB (length f))"
  define msgs where "msgs = (if other then [UsingBlockSize (sint (bufSzB h))] else [])"
  define perBuf where "perBuf = int (sz div 32) - 1"
  define numBufs where "numBufs = int (length f div sz) - 1"
  have e1: "(if other then unat (bufSzB h) else LOGBLOCK_SZB) = sz" using std bz(1) by auto
  have "sz div LOGEVENT_SZB < 2 ^ 31" using bz(2) by (meson div_le_dividend le_less_trans)
  from c_int_pred [OF this] have e2: "(if other then c_int (word_of_nat (sz div LOGEVENT_SZB) - 1) else int LOGBUF_SZ) = perBuf"
    using std by (auto simp: perBuf_def log_sizes)
  have "length f div sz < 2 ^ 31" using f by (meson div_le_dividend le_less_trans)
  from c_int_pred [OF this] have e3: "c_int (word_of_nat (length f div sz) - 1) = numBufs" by (simp add: numBufs_def)
  let ?s0 = "\<lparr>ds_counts = replicate (unat (nVProcs h)) 0, ds_events = [], ds_msgs = msgs\<rparr> :: 'a DumpState"
  have L: "LoadLogFile major fnd buf0 junk f =
    (if sz = 0 then Inl Crash else if numBufs \<le> 0 then Inl NoBuffers
     else if perBuf * numBufs < 0 \<or> 2 ^ 31 \<le> perBuf * numBufs then Inl Crash
     else case read_buffers h fnd perBuf (perBuf * numBufs) f sz buf1 pos (nat numBufs) ?s0 of
            Inl e \<Rightarrow> Inl e | Inr s \<Rightarrow> Inr (h, finish_events h junk s))"
    unfolding LoadLogFile_def h option.case c Let_def other_def [symmetric] e1 e2 e3 buf1_def pos_def msgs_def ..
  consider "sz = 0" | "0 < sz" "numBufs \<le> 0" | "0 < sz" "sz < 32" "0 < numBufs" | "32 \<le> sz" "0 < numBufs" by linarith
  then show ?thesis
  proof cases
    case 1
    then show ?thesis by (simp add: L)
  next
    case 2
    then show ?thesis by (simp add: L numBufs_def)
  next
    case 3
    then show ?thesis by (simp add: L numBufs_def perBuf_def)
  next
    case 4
    then have p: "0 \<le> perBuf" by (simp add: perBuf_def)
    then have mx0: "0 \<le> perBuf * numBufs" using 4 by simp
    have "perBuf * numBufs \<le> int (sz div 32) * int (length f div sz)"
      using p 4 by (intro mult_mono) (simp_all add: perBuf_def numBufs_def)
    also have "\<dots> = int (sz div 32 * (length f div sz))" by simp
    also have "sz div 32 * (length f div sz) \<le> sz * (length f div sz)" by (simp add: div_le_dividend mult_le_mono1)
    then have "int (sz div 32 * (length f div sz)) \<le> int (length f)" by (meson le_trans of_nat_mono times_div_less_eq_dividend)
    finally have "perBuf * numBufs \<le> int (length f)" .
    moreover have "int (length f) < 2 ^ 31" using f by (metis of_nat_less_iff of_nat_numeral of_nat_power)
    ultimately have mx: "perBuf * numBufs < 2 ^ 31" by linarith
    have lb: "length buf1 = sz" using std length_fread [OF buf] by (auto simp: buf1_def)
    have "read_buffers h fnd perBuf (perBuf * numBufs) f sz buf1 pos (nat numBufs) ?s0 \<noteq> Inl Crash"
      by (rule read_buffers_safe [OF fnd 4(1) perBuf_def lb]) (use 4 in simp)
    with 4 mx0 mx show ?thesis by (auto simp: L split: sum.splits)
  qed
qed

text \<open>The timestamps of a real clock wrap around every 4.3 seconds.\<close>

lemma GetTimestamp_timespec:
  assumes "tsKind h = tsKind_code LOGTS_TIMESPEC"
  shows "unat (GetTimestamp h (ts_val s f)) = (unat s * 1000000000 + unat f) mod 2 ^ 32"
proof -
  have "unat (ucast (w :: 32 word) :: 64 word) = unat w" for w
  proof -
    have "unat (ucast w :: 64 word) = take_bit 64 (unat w)" by (simp add: unsigned_ucast_eq)
    also have "\<dots> = unat w" using unsigned_less [of w, where 'a = nat] by (intro take_bit_nat_eq_self) simp
    finally show ?thesis .
  qed
  then have "unat (GetTimestamp h (ts_val s f)) = unat (s * 1000000000 + f)"
    using assms by (simp add: GetTimestamp_def tsKind_code_def)
  also have "s * 1000000000 + f = word_of_nat (unat s * 1000000000 + unat f)" by simp
  finally show ?thesis by (simp only: unat_of_nat) simp
qed

section \<open>Properties\<close>

text \<open>C4: What the runtime logs, \<open>log-dump\<close> reads: for every interleaving of logging operations of
  the vprocs, the file left by \<open>FinishLog\<close> is accepted by \<open>LoadLogFile\<close>, whose event
  array holds each logged event exactly once, with its vproc and its time relative to the start of
  the run, sorted by time and then vproc, and no buffer is reported missing.\<close>

theorem log_roundtrip:
  assumes "0 \<le> fd" and "list_all (\<lambda>(b0, b1). buffer_ok b0 \<and> buffer_ok b1) js" and "length js < 2 ^ 31"
    and "list_all (op_ok (length js)) ops" and "list_all (\<lambda>w. w = Wrote LOGBLOCK_SZB) ws" and "length js \<le> length ws"
    and "header_ok major (length js) hdr" and "list_all (\<lambda>x. known fnd (fst (snd x))) ops"
    and "LOGBUF_SZ * (length ops + length js) < 2 ^ 31" and "ops \<noteq> []"
    and "times_small (map (op_event hdr fnd) ops)" and "length buf0 = LOGBLOCK_SZB"
  shows "\<exists>f evs msgs. log_session fd hdr (Wrote LOGBLOCK_SZB) js ops ws = Some f
     \<and> LoadLogFile major fnd buf0 junk (contents f) = Inr (hdr, evs, msgs)
     \<and> mset evs = mset (map (relative (run_base hdr (map (op_event hdr fnd) ops)) \<circ> op_event hdr fnd) ops)
     \<and> sorted (map event_key evs) \<and> list_all no_gap msgs"
  by (rule log_reads_back) (use assms in \<open>simp_all add: list_all_iff\<close>)

definition whdr :: LogFileHeader_t where
  "whdr = log_header (2, 0, 1) ''Mon Jan  5 10:00:00 2009'' (ts_val 1 0) (log_clock LOGTS_TIMESPEC 1) 2 4"

definition wfnd :: "int \<Rightarrow> string option" where "wfnd i = Some ''Event''"

definition wops :: "log_op list" where
  "wops = [(1, wev 3, [Wrote LOGBLOCK_SZB]), (0, wev 2, [Failed EINTR, Wrote LOGBLOCK_SZB])]"

lemma whdr_ok: "header_ok 2 2 whdr"
  by (simp add: header_ok_def whdr_def log_header_def log_clock_def check_header_def)

lemma wtimes: "times_small (map (op_event whdr wfnd) wops)"
proof -
  have "uint (GetTimestamp whdr t) < 2 ^ 63" for t
    using scaled_small [of whdr t] by (simp add: whdr_def log_header_def log_clock_def tsKind_code_def)
  then show ?thesis by (simp add: times_small_def wops_def op_event_def dump_event_def)
qed

theorem log_roundtrip_witness:
  "\<exists>f evs msgs. log_session 3 whdr (Wrote LOGBLOCK_SZB) [(wbuf, wbuf), (wbuf, wbuf)] wops [Wrote LOGBLOCK_SZB, Wrote LOGBLOCK_SZB] = Some f
     \<and> LoadLogFile 2 wfnd (replicate LOGBLOCK_SZB 0) \<lparr>ev_timestamp = 0, ev_vpId = 0, ev_desc = []\<rparr> (contents f) = Inr (whdr, evs, msgs)
     \<and> mset evs = mset (map (relative (run_base whdr (map (op_event whdr wfnd) wops)) \<circ> op_event whdr wfnd) wops)
     \<and> sorted (map event_key evs) \<and> list_all no_gap msgs"
  by (rule log_roundtrip)
     (simp_all add: wbuf_ok whdr_ok [unfolded numeral_2_eq_2] wtimes, simp_all add: wops_def op_ok_def full_write_def wev_def known_def wfnd_def LOGBUF_SZ_def LOGBLOCK_SZB_def LOGEVENT_SZB_def EINTR_def)

lemma strict_relative:
  fixes es :: "LogEvent_t list"
  assumes "sorted_wrt (<) (map (\<lambda>e. GetTimestamp hdr (le_timestamp e)) es)"
    and "\<forall>e \<in> set es. base \<le> GetTimestamp hdr (le_timestamp e)"
  shows "sorted_wrt (<) (map event_key (map (relative base \<circ> dump_event hdr fnd v) es))"
proof -
  have "sorted_wrt (\<lambda>x y. GetTimestamp hdr (le_timestamp x) < GetTimestamp hdr (le_timestamp y)) es"
    using assms(1) by (simp add: sorted_wrt_map)
  then have "sorted_wrt (\<lambda>x y. event_key (relative base (dump_event hdr fnd v x)) < event_key (relative base (dump_event hdr fnd v y))) es"
  proof (rule sorted_wrt_mono_rel [rotated])
    fix x y assume xy: "x \<in> set es" "y \<in> set es" and lt: "GetTimestamp hdr (le_timestamp x) < GetTimestamp hdr (le_timestamp y)"
    have b: "base \<le> GetTimestamp hdr (le_timestamp x)" "base \<le> GetTimestamp hdr (le_timestamp y)" using assms(2) xy by simp_all
    have d: "unat (t - base) = unat t - unat base" if "base \<le> t" for t using that by (rule unat_sub)
    have "GetTimestamp hdr (le_timestamp x) - base < GetTimestamp hdr (le_timestamp y) - base"
      using lt b d by (simp add: word_less_nat_alt word_le_nat_alt)
    then show "event_key (relative base (dump_event hdr fnd v x)) < event_key (relative base (dump_event hdr fnd v y))"
      by (simp add: event_key_def relative_def dump_event_def)
  qed
  then show ?thesis by (simp add: sorted_wrt_map comp_def)
qed

lemma filter_ops:
  "filter (\<lambda>e. ev_vpId e = int v) (map (relative b \<circ> op_event hdr fnd) ops) = map (relative b \<circ> dump_event hdr fnd (int v)) (events_of v ops)"
  by (induction ops) (simp_all add: events_of_def op_event_def dump_event_def relative_def)





lemma fread_all: "length f = sz \<Longrightarrow> length buf = sz \<Longrightarrow> fread buf sz f 0 = f"
  using fread_block [of "[]" 0 f sz buf "[]"] by simp


text \<open>An event of second 5 is given an earlier time than one of second 1.\<close>

text \<open>With the nanosecond clock a timestamp is computed modulo \<open>2 ^ 32\<close>: the log reader
  gives an event of second 5 an earlier time than one of second 1.\<close>

theorem GetTimestamp_wraps:
  assumes "tsKind h = tsKind_code LOGTS_TIMESPEC"
  shows "unat (GetTimestamp h (ts_val s f)) = (unat s * 1000000000 + unat f) mod 2 ^ 32
    \<and> GetTimestamp h (ts_val 5 0) < GetTimestamp h (ts_val 1 0)"
  using GetTimestamp_timespec [OF assms, of s f] GetTimestamp_timespec [OF assms, of 5 0] GetTimestamp_timespec [OF assms, of 1 0]
  by (simp add: word_less_nat_alt)

theorem GetTimestamp_wraps_witness:
  "unat (GetTimestamp whdr (ts_val 4 294967296)) = (unat (4 :: 32 word) * 1000000000 + unat (294967296 :: 32 word)) mod 2 ^ 32
    \<and> GetTimestamp whdr (ts_val 5 0) < GetTimestamp whdr (ts_val 1 0)"
  by (rule GetTimestamp_wraps) (simp add: whdr_def log_header_def log_clock_def)

end
