(* ===== verification/Log_Work_Stealing.thy ===== *)
theory Log_Work_Stealing
  imports Log_Reader Log_Desc
begin

text \<open>
  The two log tools: the command line and the output of \<^verbatim>\<open>src/tools/log-dump/log-dump.cxx\<close>, and
  \<^verbatim>\<open>src/tools/log-work-stealing/log-work-stealing.cxx\<close>, which loads a log and measures the
  work-stealing scheduler in five passes over its events.

  \<^item> A pass is a loop (\<open>event_loop\<close>) whose body is one step of its switch; the arrays with one entry per vproc are
    lists, and an access outside them is \<open>None\<close>. Times are 64-bit words, and subtraction wraps.
  \<^item> The event identifiers are generated by the build: \<open>WSIds\<close> is a parameter.
  \<^item> An event's description is the one the log description gives (\<open>EventDesc\<close>).

  The lemmas count the steals, account for the time of a vproc between busy and idle, and bound the average time of a
  steal by the maximum.
\<close>

section \<open>The command line of the log tools\<close>

text \<open>What \<^verbatim>\<open>main\<close> does with its arguments: run with a place to write to and a log file, print the usage
  and exit with a status, or fail to open the output. \<open>opens\<close> tells which files \<^verbatim>\<open>fopen\<close> opens.\<close>

datatype ToolArgs = RunTool "string option" string | UsageExit int | OpenFails

fun tool_args :: "(string \<Rightarrow> bool) \<Rightarrow> string list \<Rightarrow> string option \<Rightarrow> string \<Rightarrow> ToolArgs" where
  "tool_args opens [] out logFile = RunTool out logFile"
| "tool_args opens (a # as) out logFile =
    (if strcmp_eq a ''-h'' then UsageExit 0
     else if strcmp_eq a ''-o'' then
       (case as of [] \<Rightarrow> UsageExit 1 | f # as' \<Rightarrow> if opens f then tool_args opens as' (Some f) logFile else OpenFails)
     else if strcmp_eq a ''-log'' then
       (case as of [] \<Rightarrow> UsageExit 1 | f # as' \<Rightarrow> tool_args opens as' out f)
     else UsageExit 1)"

section \<open>Output\<close>

definition pad_to :: "nat \<Rightarrow> char \<Rightarrow> string \<Rightarrow> string" where
  "pad_to n c s = replicate (n - length s) c @ s"

definition pad_right :: "nat \<Rightarrow> string \<Rightarrow> string" where
  "pad_right n s = s @ replicate (n - length s) (CHR '' '')"

text \<open>\<^verbatim>\<open>"%3d.%09d"\<close> of the seconds, cut to 32 bits, and the nanoseconds.\<close>

definition PrintTimestamp :: "64 word \<Rightarrow> string" where
  "PrintTimestamp t = pad_to 3 (CHR '' '') (show_int (sint (ucast (t div 1000000000) :: 32 word))) @ ''.''
     @ pad_to 9 (CHR ''0'') (show_int (sint (ucast (t mod 1000000000) :: 32 word)))"

text \<open>One line of \<^verbatim>\<open>log-dump\<close>: the time, a column for every vproc before the event's, and the name cut to 20.\<close>

definition PrintEvent :: "EventDesc Event \<Rightarrow> string" where
  "PrintEvent evt = ''['' @ PrintTimestamp (ev_timestamp evt) @ ''] ''
     @ concat (replicate (nat (ev_vpId evt)) (CHR '' '' # pad_to 20 (CHR '' '') '' ''))
     @ pad_right 20 (take 20 (ed_name (ev_desc evt))) @ [CHR 0x0A]"

definition dump_text :: "LogFileHeader_t \<Rightarrow> EventDesc Event list \<Rightarrow> string" where
  "dump_text h evs = ''Log taken on '' @ date h @ [CHR 0x0A] @ show_int (sint (nVProcs h)) @ ''/'' @ show_int (sint (nCPUs h))
     @ '' processors; '' @ show_int (int (length evs)) @ '' events; clock = '' @ clockName h @ [CHR 0x0A]
     @ concat (map PrintEvent evs)"

section \<open>Loading the log\<close>

text \<open>The loader of \<^verbatim>\<open>log-work-stealing\<close> checks neither the vproc of a buffer nor its sequence number.\<close>

definition ws_read_buffer :: "LogFileHeader_t \<Rightarrow> (int \<Rightarrow> 'd option) \<Rightarrow> int \<Rightarrow> int \<Rightarrow> byte list \<Rightarrow> 'd Event list \<Rightarrow> 'd Event list option" where
  "ws_read_buffer h fnd perBuf maxN buf evs =
    (case (get32 buf 0, get32 buf 4) of
       (Some vp, Some nx) \<Rightarrow> read_events h fnd buf maxN (sint vp) [0..<nat (min (sint nx) perBuf)] evs
     | _ \<Rightarrow> None)"

fun ws_read_buffers :: "LogFileHeader_t \<Rightarrow> (int \<Rightarrow> 'd option) \<Rightarrow> int \<Rightarrow> int \<Rightarrow> byte list \<Rightarrow> nat \<Rightarrow> byte list \<Rightarrow> nat \<Rightarrow> nat \<Rightarrow> 'd Event list \<Rightarrow> 'd Event list option" where
  "ws_read_buffers h fnd perBuf maxN f sz buf pos 0 evs = Some evs"
| "ws_read_buffers h fnd perBuf maxN f sz buf pos (Suc k) evs =
    (let buf' = fread buf sz f pos in
     case ws_read_buffer h fnd perBuf maxN buf' evs of
       None \<Rightarrow> None
     | Some evs' \<Rightarrow> ws_read_buffers h fnd perBuf maxN f sz buf' (pos + sz) k evs')"

definition ws_LoadLogFile :: "32 word \<Rightarrow> (int \<Rightarrow> 'd option) \<Rightarrow> byte list \<Rightarrow> 'd Event \<Rightarrow> byte list
    \<Rightarrow> DumpError + (LogFileHeader_t \<times> 'd Event list \<times> DumpMsg list)" where
  "ws_LoadLogFile major fnd buf0 junk f =
    (case read_header (fread buf0 LOGBLOCK_SZB f 0) of
       None \<Rightarrow> Inl Crash
     | Some h \<Rightarrow>
      (case check_header major h of
         Some e \<Rightarrow> Inl e
       | None \<Rightarrow>
         let other = bufSzB h \<noteq> word_of_nat LOGBLOCK_SZB;
             sz = (if other then unat (bufSzB h) else LOGBLOCK_SZB);
             perBuf = (if other then c_int (word_of_nat (sz div LOGEVENT_SZB) - 1) else int LOGBUF_SZ);
             pos = (if other then sz else min LOGBLOCK_SZB (length f));
             msgs = (if other then [UsingBlockSize (sint (bufSzB h))] else []);
             buf1 = (if other then replicate sz 0 else fread buf0 LOGBLOCK_SZB f 0)
         in if sz = 0 then Inl Crash
            else let numBufs = c_int (word_of_nat (length f div sz) - 1) in
            if numBufs \<le> 0 then Inl NoBuffers
            else let maxN = perBuf * numBufs in
            if maxN < 0 \<or> 2 ^ 31 \<le> maxN then Inl Crash
            else case ws_read_buffers h fnd perBuf maxN f sz buf1 pos (nat numBufs) [] of
                   None \<Rightarrow> Inl Crash
                 | Some evs \<Rightarrow> Inr (h, finish_events h junk \<lparr>ds_counts = [], ds_events = evs, ds_msgs = msgs\<rparr>)))"

section \<open>The passes\<close>

text \<open>The event identifiers of the work-stealing scheduler, which the build generates.\<close>

record WSIds =
  WSInitEvt :: int
  WSTerminateEvt :: int
  WSThiefSendEvt :: int
  WSThiefSuccessfulEvt :: int
  WSThiefUnsuccessfulEvt :: int
  WSExecuteEvt :: int
  WSPreemptedEvt :: int
  WSSleepEvt :: int
  RopeRebalanceBeginEvt :: int
  RopeRebalanceEndEvt :: int

abbreviation evtId :: "EventDesc Event \<Rightarrow> int" where "evtId e \<equiv> ed_id (ev_desc e)"

text \<open>An access outside an array of one entry per vproc makes a step \<open>None\<close>.\<close>

definition in_range :: "nat \<Rightarrow> EventDesc Event \<Rightarrow> bool" where
  "in_range n e \<longleftrightarrow> 0 \<le> ev_vpId e \<and> ev_vpId e < int n"

abbreviation vp :: "EventDesc Event \<Rightarrow> nat" where "vp e \<equiv> nat (ev_vpId e)"

text \<open>A loop over the events: the body gives the new state and whether the loop goes on, or \<open>None\<close> for an
  access outside an array.\<close>

fun event_loop :: "('s \<Rightarrow> EventDesc Event \<Rightarrow> ('s \<times> bool) option) \<Rightarrow> EventDesc Event list \<Rightarrow> 's \<Rightarrow> 's option" where
  "event_loop f [] s = Some s"
| "event_loop f (e # es) s = (case f s e of
      None \<Rightarrow> None
    | Some (s', go) \<Rightarrow> if go then event_loop f es s' else Some s')"

text \<open>The log is bogus when another event of the scheduler comes before its initialisation.\<close>

fun bogus_log :: "WSIds \<Rightarrow> EventDesc Event list \<Rightarrow> bool" where
  "bogus_log w [] = False"
| "bogus_log w (e # es) =
    (if evtId e = WSInitEvt w then False
     else if evtId e \<in> {WSThiefSendEvt w, WSThiefSuccessfulEvt w, WSThiefUnsuccessfulEvt w, WSExecuteEvt w} then True
     else bogus_log w es)"

record StealCounts =
  numSteals :: "int list"
  numFailed :: "int list"

definition count_step :: "WSIds \<Rightarrow> nat \<Rightarrow> StealCounts \<Rightarrow> EventDesc Event \<Rightarrow> (StealCounts \<times> bool) option" where
  "count_step w n s e =
    (if evtId e = WSThiefSuccessfulEvt w then
       (if in_range n e then Some (s\<lparr>numSteals := (numSteals s)[vp e := numSteals s ! vp e + 1]\<rparr>, True) else None)
     else if evtId e = WSThiefUnsuccessfulEvt w then
       (if in_range n e then Some (s\<lparr>numFailed := (numFailed s)[vp e := numFailed s ! vp e + 1]\<rparr>, True) else None)
     else if evtId e = WSTerminateEvt w then Some (s, False)
     else Some (s, True))"

definition count_steals :: "WSIds \<Rightarrow> nat \<Rightarrow> EventDesc Event list \<Rightarrow> StealCounts option" where
  "count_steals w n es = event_loop (count_step w n) es \<lparr>numSteals = replicate n 0, numFailed = replicate n 0\<rparr>"

text \<open>Rebalancing of ropes. The number added is the location of the first argument, as the code has it.\<close>

record Rebalance =
  rb_total :: "64 word list"
  rb_count :: "int list"
  rb_elts :: "int list"
  rb_last :: "64 word list"

definition rebalance_step :: "WSIds \<Rightarrow> nat \<Rightarrow> Rebalance \<Rightarrow> EventDesc Event \<Rightarrow> (Rebalance \<times> bool) option" where
  "rebalance_step w n s e =
    (if evtId e = RopeRebalanceBeginEvt w then
       (case ed_args (ev_desc e) of
          Some (arg # _) \<Rightarrow>
            if in_range n e then Some (s\<lparr>rb_elts := (rb_elts s)[vp e := rb_elts s ! vp e + sint (ad_loc arg)],
              rb_last := (rb_last s)[vp e := ev_timestamp e]\<rparr>, True) else None
        | _ \<Rightarrow> None)
     else if evtId e = RopeRebalanceEndEvt w then
       (if in_range n e then Some (s\<lparr>rb_total := (rb_total s)[vp e := rb_total s ! vp e + (ev_timestamp e - rb_last s ! vp e)],
          rb_count := (rb_count s)[vp e := rb_count s ! vp e + 1]\<rparr>, True) else None)
     else Some (s, True))"

definition rebalancing :: "WSIds \<Rightarrow> nat \<Rightarrow> EventDesc Event list \<Rightarrow> Rebalance option" where
  "rebalancing w n es = event_loop (rebalance_step w n) es
    \<lparr>rb_total = replicate n 0, rb_count = replicate n 0, rb_elts = replicate n 0, rb_last = replicate n 0\<rparr>"

text \<open>Time spent stealing; \<open>sl_bugs\<close> counts the printed complaints. A terminated scheduler ends the loop at the
  next event.\<close>

record Stealing =
  sl_max :: "64 word list"
  sl_last :: "64 word list"
  sl_total :: "64 word list"
  sl_attempts :: "64 word list"
  sl_bugs :: nat

definition steal_step :: "WSIds \<Rightarrow> nat \<Rightarrow> Stealing \<Rightarrow> EventDesc Event \<Rightarrow> (Stealing \<times> bool) option" where
  "steal_step w n s e =
    (if evtId e = WSTerminateEvt w then Some (s, False)
     else if evtId e = WSThiefSendEvt w then
       (if in_range n e then Some (s\<lparr>sl_last := (sl_last s)[vp e := ev_timestamp e]\<rparr>, True) else None)
     else if evtId e = WSThiefSuccessfulEvt w \<or> evtId e = WSThiefUnsuccessfulEvt w then
       (if in_range n e then
          (if sl_last s ! vp e = 0 then Some (s\<lparr>sl_bugs := sl_bugs s + 1\<rparr>, True)
           else let t = ev_timestamp e - sl_last s ! vp e in
             Some (s\<lparr>sl_total := (sl_total s)[vp e := sl_total s ! vp e + t],
                     sl_max := (sl_max s)[vp e := max (sl_max s ! vp e) t],
                     sl_attempts := (sl_attempts s)[vp e := sl_attempts s ! vp e + 1]\<rparr>, True))
        else None)
     else Some (s, True))"

definition avg_stealing :: "Stealing \<Rightarrow> nat \<Rightarrow> 64 word" where
  "avg_stealing s i = (if sl_attempts s ! i \<noteq> 0 then sl_total s ! i div sl_attempts s ! i else 0)"

text \<open>The average and the maximum time of every vproc.\<close>

definition stealing :: "WSIds \<Rightarrow> nat \<Rightarrow> EventDesc Event list \<Rightarrow> (64 word list \<times> 64 word list) option" where
  "stealing w n es = map_option (\<lambda>s. (map (avg_stealing s) [0..<n], sl_max s))
    (event_loop (steal_step w n) es
      \<lparr>sl_max = replicate n 0, sl_last = replicate n 0, sl_total = replicate n 0, sl_attempts = replicate n 0, sl_bugs = 0\<rparr>)"

text \<open>Time spent busy or idle. The flag \<^verbatim>\<open>IsTerminated\<close> is never set, so every event is measured.\<close>

record BusyIdle =
  bi_idle :: "bool list"
  bi_last :: "64 word list"
  timeBusy :: "64 word list"
  timeIdle :: "64 word list"

definition add_time :: "64 word list \<Rightarrow> nat \<Rightarrow> 64 word \<Rightarrow> 64 word list" where
  "add_time ts i t = ts[i := ts ! i + t]"

definition busy_step :: "WSIds \<Rightarrow> nat \<Rightarrow> BusyIdle \<Rightarrow> EventDesc Event \<Rightarrow> (BusyIdle \<times> bool) option" where
  "busy_step w n s e =
    (let i = vp e; t = ev_timestamp e - bi_last s ! i in
     if evtId e = WSInitEvt w then Some (s\<lparr>bi_last := replicate n (ev_timestamp e)\<rparr>, True)
     else if evtId e = WSTerminateEvt w then
       (if \<not> in_range n e then None
        else if bi_idle s ! i then Some (s\<lparr>timeBusy := add_time (timeBusy s) i t\<rparr>, True)
        else Some (s\<lparr>timeIdle := add_time (timeIdle s) i t\<rparr>, True))
     else if evtId e = WSExecuteEvt w then
       (if \<not> in_range n e then None
        else let s1 = (if bi_last s ! i = 0 then s\<lparr>bi_last := (bi_last s)[i := ev_timestamp e]\<rparr>
                       else if bi_idle s ! i then s\<lparr>timeIdle := add_time (timeIdle s) i t, bi_last := (bi_last s)[i := ev_timestamp e]\<rparr>
                       else s)
             in Some (s1\<lparr>bi_idle := (bi_idle s1)[i := False]\<rparr>, True))
     else if evtId e = WSPreemptedEvt w \<or> evtId e = WSThiefSendEvt w then
       (if \<not> in_range n e then None
        else let s1 = (if bi_last s ! i = 0 then s\<lparr>bi_last := (bi_last s)[i := ev_timestamp e]\<rparr>
                       else if \<not> bi_idle s ! i then s\<lparr>timeBusy := add_time (timeBusy s) i t, bi_last := (bi_last s)[i := ev_timestamp e]\<rparr>
                       else s)
             in Some (s1\<lparr>bi_idle := (bi_idle s1)[i := True]\<rparr>, True))
     else Some (s, True))"

definition busy_idle :: "WSIds \<Rightarrow> nat \<Rightarrow> EventDesc Event list \<Rightarrow> BusyIdle option" where
  "busy_idle w n es = event_loop (busy_step w n) es
    \<lparr>bi_idle = replicate n True, bi_last = replicate n 0, timeBusy = replicate n 0, timeIdle = replicate n 0\<rparr>"

text \<open>Time spent asleep.\<close>

record Sleeping =
  sp_asleep :: "bool list"
  sp_done :: "bool list"
  sp_last :: "64 word list"
  timeSleeping :: "64 word list"

definition wake_up :: "Sleeping \<Rightarrow> EventDesc Event \<Rightarrow> Sleeping" where
  "wake_up s e =
    (let i = vp e;
         s1 = (if sp_last s ! i \<noteq> 0 \<and> sp_asleep s ! i
               then s\<lparr>timeSleeping := add_time (timeSleeping s) i (ev_timestamp e - sp_last s ! i)\<rparr> else s)
     in s1\<lparr>sp_asleep := (sp_asleep s1)[i := False]\<rparr>)"

definition asleep_step :: "WSIds \<Rightarrow> nat \<Rightarrow> Sleeping \<Rightarrow> EventDesc Event \<Rightarrow> (Sleeping \<times> bool) option" where
  "asleep_step w n s e =
    (let i = vp e in
     if evtId e = WSInitEvt w then Some (s\<lparr>sp_last := replicate n (ev_timestamp e)\<rparr>, True)
     else if evtId e = WSTerminateEvt w then
       (if \<not> in_range n e then None
        else let s1 = (if sp_asleep s ! i then s\<lparr>timeSleeping := add_time (timeSleeping s) i (ev_timestamp e - sp_last s ! i)\<rparr> else s)
             in Some (s1\<lparr>sp_done := (sp_done s1)[i := True]\<rparr>, False))
     else if evtId e = WSExecuteEvt w \<or> evtId e = WSPreemptedEvt w \<or> evtId e = WSThiefSendEvt w then
       (if \<not> in_range n e then None else Some (wake_up s e, True))
     else if evtId e = WSSleepEvt w then
       (if \<not> in_range n e then None
        else Some (s\<lparr>sp_last := (sp_last s)[i := ev_timestamp e], sp_asleep := (sp_asleep s)[i := True]\<rparr>, True))
     else Some (s, True))"

definition still_asleep :: "64 word \<Rightarrow> Sleeping \<Rightarrow> nat \<Rightarrow> 64 word" where
  "still_asleep last_ts s i =
    (if \<not> sp_done s ! i \<and> sp_asleep s ! i then timeSleeping s ! i + (last_ts - sp_last s ! i) else timeSleeping s ! i)"

definition sleeping :: "WSIds \<Rightarrow> nat \<Rightarrow> EventDesc Event list \<Rightarrow> 64 word list option" where
  "sleeping w n es = map_option (\<lambda>s. map (still_asleep (ev_timestamp (last es)) s) [0..<n])
    (event_loop (asleep_step w n) es
      \<lparr>sp_asleep = replicate n False, sp_done = replicate n False, sp_last = replicate n 0, timeSleeping = replicate n 0\<rparr>)"

section \<open>The report\<close>

definition sep_lines :: "nat \<Rightarrow> string \<Rightarrow> string \<Rightarrow> (nat \<Rightarrow> string) \<Rightarrow> string" where
  "sep_lines n between after f = concat (map (\<lambda>i. f i @ (if i + 1 < n then between else after)) [0..<n])"

definition nl :: string where "nl = [CHR 0x0A]"

definition report_text :: "LogFileHeader_t \<Rightarrow> StealCounts \<Rightarrow> Rebalance \<Rightarrow> 64 word list \<times> 64 word list \<Rightarrow> BusyIdle \<Rightarrow> 64 word list \<Rightarrow> string" where
  "report_text h c r stl b sl =
    (let n = unat (nVProcs h) in
     ''{'' @ nl @ ''numVProcs='' @ show_int (sint (nVProcs h)) @ '','' @ nl @ ''clock='' @ [CHR 0x22] @ clockName h @ [CHR 0x22] @ '','' @ nl
     @ ''numSteals='' @ nl @ ''['' @ sep_lines n '','' (''],'' @ nl) (\<lambda>i. '' '' @ show_int (numSteals c ! i))
     @ ''numFailedStealAttempts='' @ nl @ ''['' @ sep_lines n '','' (''],'' @ nl) (\<lambda>i. '' '' @ show_int (numFailed c ! i))
     @ ''vprocState='' @ nl @ ''['' @ nl
     @ sep_lines n ('' },'' @ nl) ('' }'' @ nl) (\<lambda>i. '' {timeBusy='' @ PrintTimestamp (timeBusy b ! i)
         @ '' , timeIdle='' @ PrintTimestamp (timeIdle b ! i) @ '' , timeSleeping='' @ PrintTimestamp (sl ! i)
         @ '' , timeRebalancing='' @ PrintTimestamp (rb_total r ! i) @ '' , numEltsRebalanced='' @ show_int (rb_elts r ! i)
         @ '' , numRebalances='' @ show_int (rb_count r ! i))
     @ ''],'' @ nl @ ''timeStealing='' @ nl @ ''['' @ nl
     @ sep_lines n ('' },'' @ nl) ('' }'' @ nl) (\<lambda>i. '' {avg='' @ PrintTimestamp (fst stl ! i) @ '' , max='' @ PrintTimestamp (snd stl ! i))
     @ '']'' @ nl @ ''}'' @ nl)"

datatype Report = BogusLog | BadAccess | ReportText string

text \<open>All passes over the loaded events, in the order of \<^verbatim>\<open>main\<close>.\<close>

definition analyse :: "WSIds \<Rightarrow> LogFileHeader_t \<Rightarrow> EventDesc Event list \<Rightarrow> Report" where
  "analyse w h es =
    (if bogus_log w es then BogusLog
     else let n = unat (nVProcs h) in
       case (count_steals w n es, rebalancing w n es, stealing w n es, busy_idle w n es, sleeping w n es) of
         (Some c, Some r, Some stl, Some b, Some sl) \<Rightarrow> ReportText (report_text h c r stl b sl)
       | _ \<Rightarrow> BadAccess)"

section \<open>What the passes compute\<close>

text \<open>The generated identifiers are all different.\<close>

definition ids_distinct :: "WSIds \<Rightarrow> bool" where
  "ids_distinct w \<longleftrightarrow> distinct [WSInitEvt w, WSTerminateEvt w, WSThiefSendEvt w, WSThiefSuccessfulEvt w, WSThiefUnsuccessfulEvt w,
     WSExecuteEvt w, WSPreemptedEvt w, WSSleepEvt w, RopeRebalanceBeginEvt w, RopeRebalanceEndEvt w]"



subsection \<open>Counting steals\<close>

definition before_end :: "WSIds \<Rightarrow> EventDesc Event list \<Rightarrow> EventDesc Event list" where
  "before_end w es = takeWhile (\<lambda>e. evtId e \<noteq> WSTerminateEvt w) es"

definition occurrences :: "int \<Rightarrow> nat \<Rightarrow> EventDesc Event list \<Rightarrow> int" where
  "occurrences k i es = int (length (filter (\<lambda>e. evtId e = k \<and> vp e = i) es))"

lemma occurrences_Cons: "occurrences k i (e # es) = (if evtId e = k \<and> vp e = i then 1 else 0) + occurrences k i es"
  by (simp add: occurrences_def)

lemma count_loop:
  assumes w: "ids_distinct w" and i: "i < n"
  shows "\<lbrakk>event_loop (count_step w n) es s = Some s'; length (numSteals s) = n; length (numFailed s) = n\<rbrakk> \<Longrightarrow>
    numSteals s' ! i = numSteals s ! i + occurrences (WSThiefSuccessfulEvt w) i (before_end w es)
    \<and> numFailed s' ! i = numFailed s ! i + occurrences (WSThiefUnsuccessfulEvt w) i (before_end w es)"
proof (induction es arbitrary: s)
  case Nil
  then show ?case by (simp add: before_end_def occurrences_def)
next
  case (Cons e es)
  from Cons.prems(1) obtain s1 go where st: "count_step w n s e = Some (s1, go)"
    and r: "if go then event_loop (count_step w n) es s1 = Some s' else s' = s1"
    by (auto split: option.splits if_splits)
  show ?case
  proof (cases "evtId e = WSTerminateEvt w")
    case True
    then have "s1 = s \<and> \<not> go" using st w by (auto simp: count_step_def ids_distinct_def)
    then show ?thesis using r True by (simp add: before_end_def occurrences_def)
  next
    case False
    then have go: "go" and l: "length (numSteals s1) = n" "length (numFailed s1) = n"
      and v: "numSteals s1 ! i = numSteals s ! i + (if evtId e = WSThiefSuccessfulEvt w \<and> vp e = i then 1 else 0)"
        "numFailed s1 ! i = numFailed s ! i + (if evtId e = WSThiefUnsuccessfulEvt w \<and> vp e = i then 1 else 0)"
      using st w Cons.prems(2,3) i by (auto simp: count_step_def ids_distinct_def nth_list_update split: if_splits)
    have b: "before_end w (e # es) = e # before_end w es" using False by (simp add: before_end_def)
    show ?thesis using Cons.IH [of s1] r go l v by (simp add: b occurrences_Cons)
  qed
qed

lemma count_steals_counts:
  assumes "ids_distinct w" "count_steals w n es = Some c" "i < n"
  shows "numSteals c ! i = occurrences (WSThiefSuccessfulEvt w) i (before_end w es)
    \<and> numFailed c ! i = occurrences (WSThiefUnsuccessfulEvt w) i (before_end w es)"
  using count_loop [OF assms(1,3) assms(2) [unfolded count_steals_def]] assms(3) by simp

subsection \<open>Busy and idle time\<close>

text \<open>The events that move a vproc between busy and idle.\<close>

definition moves :: "WSIds \<Rightarrow> nat \<Rightarrow> EventDesc Event \<Rightarrow> bool" where
  "moves w i e \<longleftrightarrow> vp e = i \<and> evtId e \<in> {WSExecuteEvt w, WSPreemptedEvt w, WSThiefSendEvt w}"

definition accounted :: "BusyIdle \<Rightarrow> nat \<Rightarrow> 64 word" where
  "accounted s i = timeBusy s ! i + timeIdle s ! i"

definition sized :: "nat \<Rightarrow> BusyIdle \<Rightarrow> bool" where
  "sized n s \<longleftrightarrow> length (bi_idle s) = n \<and> length (bi_last s) = n \<and> length (timeBusy s) = n \<and> length (timeIdle s) = n"

lemma busy_step_sized: "busy_step w n s e = Some (s', go) \<Longrightarrow> sized n s \<Longrightarrow> sized n s' \<and> go"
  by (auto simp: busy_step_def sized_def Let_def add_time_def split: if_splits)

text \<open>The sum of both times grows with the vproc's timestamp; an event of another vproc changes neither.\<close>

lemma busy_step_accounts:
  assumes "busy_step w n s e = Some (s', go)" "sized n s" "i < n" "evtId e \<noteq> WSInitEvt w"
    and "vp e = i \<Longrightarrow> evtId e \<noteq> WSTerminateEvt w" and "bi_last s ! i \<noteq> 0" and "vp e = i \<Longrightarrow> ev_timestamp e \<noteq> 0"
  shows "accounted s' i - bi_last s' ! i = accounted s i - bi_last s ! i \<and> bi_last s' ! i \<noteq> 0"
proof (cases "vp e = i")
  case True
  then show ?thesis using assms
    by (auto simp: busy_step_def sized_def accounted_def Let_def add_time_def split: if_splits)
next
  case False
  then show ?thesis using assms
    by (auto simp: busy_step_def sized_def accounted_def Let_def add_time_def split: if_splits)
qed

lemma busy_step_still:
  assumes "busy_step w n s e = Some (s', go)" "sized n s" "i < n" "evtId e \<noteq> WSInitEvt w"
    and "vp e = i \<Longrightarrow> evtId e \<noteq> WSTerminateEvt w" "\<not> moves w i e"
  shows "accounted s' i = accounted s i"
proof (cases "vp e = i")
  case True
  then show ?thesis using assms
    by (auto simp: busy_step_def sized_def accounted_def moves_def Let_def add_time_def split: if_splits)
next
  case False
  then show ?thesis using assms
    by (auto simp: busy_step_def sized_def accounted_def Let_def add_time_def split: if_splits)
qed

lemma busy_step_go: "busy_step w n s e = Some (s', go) \<Longrightarrow> go"
  by (auto simp: busy_step_def Let_def split: if_splits)

lemma busy_loop_Cons: "event_loop (busy_step w n) (e # es) s = Some s' \<longleftrightarrow>
    (\<exists>s1. busy_step w n s e = Some (s1, True) \<and> event_loop (busy_step w n) es s1 = Some s')"
  by (auto split: option.splits dest: busy_step_go)

lemma busy_loop_append: "event_loop (busy_step w n) (es @ fs) s = Some s' \<longleftrightarrow>
    (\<exists>s1. event_loop (busy_step w n) es s = Some s1 \<and> event_loop (busy_step w n) fs s1 = Some s')"
  by (induction es arbitrary: s) (auto simp: busy_loop_Cons simp del: event_loop.simps(2))

lemma busy_run_accounts:
  "\<lbrakk>event_loop (busy_step w n) es s = Some s'; sized n s; i < n; bi_last s ! i \<noteq> 0;
    \<forall>e \<in> set es. evtId e \<noteq> WSInitEvt w \<and> (vp e = i \<longrightarrow> evtId e \<noteq> WSTerminateEvt w \<and> ev_timestamp e \<noteq> 0)\<rbrakk>
   \<Longrightarrow> accounted s' i - bi_last s' ! i = accounted s i - bi_last s ! i \<and> sized n s'"
proof (induction es arbitrary: s)
  case (Cons e es)
  then obtain s1 where s1: "busy_step w n s e = Some (s1, True)" "event_loop (busy_step w n) es s1 = Some s'"
    by (auto simp: busy_loop_Cons simp del: event_loop.simps(2))
  note a = busy_step_accounts [OF s1(1) Cons.prems(2,3)]
  have "accounted s1 i - bi_last s1 ! i = accounted s i - bi_last s ! i \<and> bi_last s1 ! i \<noteq> 0"
    using Cons.prems(4,5) by (intro a) auto
  then show ?case using Cons.IH [OF s1(2)] busy_step_sized [OF s1(1) Cons.prems(2)] Cons.prems(3,5) by simp
qed simp

lemma busy_run_still:
  "\<lbrakk>event_loop (busy_step w n) es s = Some s'; sized n s; i < n;
    \<forall>e \<in> set es. evtId e \<noteq> WSInitEvt w \<and> (vp e = i \<longrightarrow> evtId e \<noteq> WSTerminateEvt w) \<and> \<not> moves w i e\<rbrakk>
   \<Longrightarrow> accounted s' i = accounted s i"
proof (induction es arbitrary: s)
  case (Cons e es)
  then obtain s1 where s1: "busy_step w n s e = Some (s1, True)" "event_loop (busy_step w n) es s1 = Some s'"
    by (auto simp: busy_loop_Cons simp del: event_loop.simps(2))
  have "accounted s1 i = accounted s i" using Cons.prems(4) by (intro busy_step_still [OF s1(1) Cons.prems(2,3)]) auto
  then show ?case using Cons.IH [OF s1(2)] busy_step_sized [OF s1(1) Cons.prems(2)] Cons.prems(3,4) by simp
qed simp

lemma busy_init: "evtId e = WSInitEvt w \<Longrightarrow> busy_step w n s e = Some (s\<lparr>bi_last := replicate n (ev_timestamp e)\<rparr>, True)"
  by (simp add: busy_step_def Let_def)

lemma busy_term:
  assumes "busy_step w n s e = Some (s', go)" "evtId e = WSTerminateEvt w" "ids_distinct w" "sized n s" "vp e < n"
  shows "accounted s' (vp e) = accounted s (vp e) + (ev_timestamp e - bi_last s ! vp e)"
  using assms by (auto simp: busy_step_def Let_def ids_distinct_def accounted_def sized_def add_time_def split: if_splits)

text \<open>For a vproc that terminates once, busy and idle time add up to exactly the time from the scheduler's initialisation to
  that termination, whatever the vproc and the others do in between.\<close>

theorem busy_idle_accounts:
  assumes "ids_distinct w" and "busy_idle w n (ini # es @ fin # rest) = Some s" and "i < n"
    and "evtId ini = WSInitEvt w" and "ev_timestamp ini \<noteq> 0" and "evtId fin = WSTerminateEvt w" and "vp fin = i"
    and "\<forall>e \<in> set es. evtId e \<noteq> WSInitEvt w \<and> (vp e = i \<longrightarrow> evtId e \<noteq> WSTerminateEvt w \<and> ev_timestamp e \<noteq> 0)"
    and "\<forall>e \<in> set rest. evtId e \<noteq> WSInitEvt w \<and> (vp e = i \<longrightarrow> evtId e \<noteq> WSTerminateEvt w) \<and> \<not> moves w i e"
  shows "timeBusy s ! i + timeIdle s ! i = ev_timestamp fin - ev_timestamp ini"
proof -
  let ?s0 = "\<lparr>bi_idle = replicate n True, bi_last = replicate n (ev_timestamp ini), timeBusy = replicate n 0, timeIdle = replicate n 0\<rparr>"
  have "event_loop (busy_step w n) (es @ fin # rest) ?s0 = Some s"
    using assms(2) by (simp add: busy_idle_def busy_init [OF assms(4)])
  then obtain s1 s2 where s1: "event_loop (busy_step w n) es ?s0 = Some s1" and s2: "busy_step w n s1 fin = Some (s2, True)"
    and s3: "event_loop (busy_step w n) rest s2 = Some s"
    by (auto simp: busy_loop_append busy_loop_Cons simp del: event_loop.simps(2))
  have z: "sized n ?s0" by (simp add: sized_def)
  have a: "accounted s1 i - bi_last s1 ! i = accounted ?s0 i - bi_last ?s0 ! i \<and> sized n s1"
    using assms(3,5,8) by (intro busy_run_accounts [OF s1 z assms(3)]) simp_all
  have "accounted s2 i = accounted s1 i + (ev_timestamp fin - bi_last s1 ! i)"
    using busy_term [OF s2 assms(6,1)] a assms(3,7) by simp
  also have "\<dots> = (accounted s1 i - bi_last s1 ! i) + ev_timestamp fin" by (simp add: algebra_simps)
  also have "\<dots> = ev_timestamp fin - ev_timestamp ini" using a assms(3) by (simp add: accounted_def)
  finally have b: "accounted s2 i = ev_timestamp fin - ev_timestamp ini" .
  have "accounted s i = accounted s2 i"
    using busy_step_sized [OF s2] a by (intro busy_run_still [OF s3 _ assms(3,9)]) simp
  then show ?thesis using b by (simp add: accounted_def)
qed

definition sample_ids :: WSIds where
  "sample_ids = \<lparr>WSInitEvt = 1, WSTerminateEvt = 2, WSThiefSendEvt = 3, WSThiefSuccessfulEvt = 4, WSThiefUnsuccessfulEvt = 5,
     WSExecuteEvt = 6, WSPreemptedEvt = 7, WSSleepEvt = 8, RopeRebalanceBeginEvt = 9, RopeRebalanceEndEvt = 10\<rparr>"

definition sample_event :: "64 word \<Rightarrow> int \<Rightarrow> int \<Rightarrow> EventDesc Event" where
  "sample_event t v k = \<lparr>ev_timestamp = t, ev_vpId = v,
     ev_desc = \<lparr>ed_name = ''e'', ed_id = k, ed_nArgs = 0, ed_args = None, ed_attrs = 0, ed_desc = ''e''\<rparr>\<rparr>"

text \<open>A vproc that starts work at 3 and ends at 10 is reported idle all the time: the last stretch is booked to the wrong side.\<close>

lemma terminate_books_wrong_side:
  "busy_idle sample_ids 2 [sample_event 1 0 1, sample_event 3 0 6, sample_event 10 0 2] =
    Some \<lparr>bi_idle = [False, True], bi_last = [3, 1], timeBusy = [0, 0], timeIdle = [9, 0]\<rparr>"
  by code_simp

theorem busy_idle_accounts_witness:
  "timeBusy (the (busy_idle sample_ids 2 [sample_event 1 0 1, sample_event 3 0 6, sample_event 10 0 2])) ! 0
   + timeIdle (the (busy_idle sample_ids 2 [sample_event 1 0 1, sample_event 3 0 6, sample_event 10 0 2])) ! 0 = 9"
proof -
  have w: "ids_distinct sample_ids" by (simp add: ids_distinct_def sample_ids_def)
  have b: "busy_idle sample_ids 2 (sample_event 1 0 1 # [sample_event 3 0 6] @ sample_event 10 0 2 # []) =
      Some (the (busy_idle sample_ids 2 [sample_event 1 0 1, sample_event 3 0 6, sample_event 10 0 2]))"
    by (simp add: terminate_books_wrong_side)
  show ?thesis using busy_idle_accounts [OF w b, of 0]
    by (simp add: sample_event_def sample_ids_def)
qed

subsection \<open>Average and maximum\<close>

definition steal_ok :: "nat \<Rightarrow> nat \<Rightarrow> nat \<Rightarrow> nat \<Rightarrow> Stealing \<Rightarrow> bool" where
  "steal_ok n i k B s \<longleftrightarrow> length (sl_max s) = n \<and> length (sl_last s) = n \<and> length (sl_total s) = n \<and> length (sl_attempts s) = n
    \<and> unat (sl_total s ! i) \<le> unat (sl_attempts s ! i) * unat (sl_max s ! i) \<and> unat (sl_max s ! i) \<le> B \<and> unat (sl_attempts s ! i) \<le> k"

lemma steal_step_ok:
  assumes "steal_step w n s e = Some (s', go)" "steal_ok n i k B s" "i < n"
    and "unat (ev_timestamp e) \<le> B" "sl_last s ! i \<le> ev_timestamp e" "(k + 1) * B < 2 ^ 64" "k + 1 < 2 ^ 64"
  shows "steal_ok n i (k + 1) B s' \<and> (sl_last s' ! i = sl_last s ! i \<or> sl_last s' ! i = ev_timestamp e)"
proof (cases "(evtId e = WSThiefSuccessfulEvt w \<or> evtId e = WSThiefUnsuccessfulEvt w) \<and> vp e = i \<and> sl_last s ! i \<noteq> 0
    \<and> evtId e \<noteq> WSTerminateEvt w \<and> evtId e \<noteq> WSThiefSendEvt w")
  case True
  let ?t = "ev_timestamp e - sl_last s ! i"
  let ?m = "max (sl_max s ! i) ?t"
  have s': "s' = s\<lparr>sl_total := (sl_total s)[i := sl_total s ! i + ?t], sl_max := (sl_max s)[i := ?m],
      sl_attempts := (sl_attempts s)[i := sl_attempts s ! i + 1]\<rparr>"
    using assms(1) True by (auto simp: steal_step_def Let_def split: if_splits)
  have l: "length (sl_max s) = n" "length (sl_last s) = n" "length (sl_total s) = n" "length (sl_attempts s) = n"
    and tot: "unat (sl_total s ! i) \<le> unat (sl_attempts s ! i) * unat (sl_max s ! i)" and mx: "unat (sl_max s ! i) \<le> B"
    and att: "unat (sl_attempts s ! i) \<le> k" using assms(2) by (auto simp: steal_ok_def)
  have t: "unat ?t \<le> B" using assms(4,5) by (simp add: unat_sub)
  have m: "unat ?m = max (unat (sl_max s ! i)) (unat ?t)" by (simp add: max_def word_le_nat_alt)
  have a1: "unat (sl_attempts s ! i + 1) = unat (sl_attempts s ! i) + 1"
    using att assms(7) unat_add_lem [of "sl_attempts s ! i" 1] by simp
  have "unat (sl_total s ! i) + unat ?t \<le> unat (sl_attempts s ! i) * unat ?m + unat ?m"
    using tot m by (intro add_mono order_trans [OF tot] mult_le_mono2) auto
  then have sum: "unat (sl_total s ! i) + unat ?t \<le> (unat (sl_attempts s ! i) + 1) * unat ?m" by (simp add: algebra_simps)
  have "(unat (sl_attempts s ! i) + 1) * unat ?m \<le> (k + 1) * B" using att mx t m by (intro mult_le_mono) auto
  then have "unat (sl_total s ! i) + unat ?t < 2 ^ 64" using sum assms(6) by linarith
  then have "unat (sl_total s ! i + ?t) = unat (sl_total s ! i) + unat ?t" using unat_add_lem [of "sl_total s ! i" ?t] by simp
  then show ?thesis using l sum a1 att mx t m assms(3) by (simp add: s' steal_ok_def)
next
  case False
  then have "sl_total s' ! i = sl_total s ! i \<and> sl_max s' ! i = sl_max s ! i \<and> sl_attempts s' ! i = sl_attempts s ! i
      \<and> (sl_last s' ! i = sl_last s ! i \<or> sl_last s' ! i = ev_timestamp e)
      \<and> length (sl_max s') = n \<and> length (sl_last s') = n \<and> length (sl_total s') = n \<and> length (sl_attempts s') = n"
    using assms(1-3) by (cases "vp e = i") (auto simp: steal_step_def steal_ok_def Let_def split: if_splits)
  then show ?thesis using assms(2) by (auto simp: steal_ok_def)
qed

lemma steal_loop_ok:
  "\<lbrakk>event_loop (steal_step w n) es s = Some s'; steal_ok n i k B s; i < n; sorted (map ev_timestamp es);
    \<forall>e \<in> set es. unat (ev_timestamp e) \<le> B \<and> sl_last s ! i \<le> ev_timestamp e; (k + length es) * B < 2 ^ 64; k + length es < 2 ^ 64\<rbrakk>
   \<Longrightarrow> \<exists>k'. steal_ok n i k' B s'"
proof (induction es arbitrary: s k)
  case (Cons e es)
  from Cons.prems(1) obtain s1 go where st: "steal_step w n s e = Some (s1, go)"
    and r: "if go then event_loop (steal_step w n) es s1 = Some s' else s' = s1"
    by (auto split: option.splits if_splits)
  have "(k + 1) * B \<le> (k + length (e # es)) * B" by (intro mult_le_mono1) simp
  then have kB: "(k + 1) * B < 2 ^ 64" using Cons.prems(6) by (rule le_less_trans)
  have "steal_ok n i (k + 1) B s1 \<and> (sl_last s1 ! i = sl_last s ! i \<or> sl_last s1 ! i = ev_timestamp e)"
    using Cons.prems by (intro steal_step_ok [OF st Cons.prems(2,3) _ _ kB]) auto
  then show ?case using Cons.IH [of s1 "k + 1"] Cons.prems(3-7) r by (cases go) (auto simp: algebra_simps)
qed auto

text \<open>The average time a vproc takes for a steal is at most its maximum, for events in the order of their times, as long as the
  number of events times the largest time fits in 64 bits.\<close>

theorem stealing_avg_le_max:
  assumes "stealing w n es = Some (avg, mx)" and "i < n" and "sorted (map ev_timestamp es)"
    and "\<forall>e \<in> set es. unat (ev_timestamp e) \<le> B" and "length es * B < 2 ^ 64" and "length es < 2 ^ 64"
  shows "avg ! i \<le> mx ! i"
proof -
  let ?s0 = "\<lparr>sl_max = replicate n 0, sl_last = replicate n 0, sl_total = replicate n 0, sl_attempts = replicate n 0, sl_bugs = 0\<rparr> :: Stealing"
  obtain s where s: "event_loop (steal_step w n) es ?s0 = Some s" and r: "avg = map (avg_stealing s) [0..<n]" "mx = sl_max s"
    using assms(1) by (auto simp: stealing_def)
  have "steal_ok n i 0 B ?s0" using assms(2) by (simp add: steal_ok_def)
  then obtain k where k: "steal_ok n i k B s" using steal_loop_ok [OF s, of i 0 B] assms by auto
  have "avg_stealing s i \<le> sl_max s ! i"
  proof (cases "sl_attempts s ! i = 0")
    case False
    have "unat (sl_total s ! i div sl_attempts s ! i) = unat (sl_total s ! i) div unat (sl_attempts s ! i)" by (rule unat_div)
    also have "\<dots> \<le> unat (sl_attempts s ! i) * unat (sl_max s ! i) div unat (sl_attempts s ! i)"
      using k by (intro div_le_mono) (simp add: steal_ok_def)
    also have "\<dots> = unat (sl_max s ! i)" using False by (simp add: unat_eq_zero)
    finally show ?thesis using False by (simp add: avg_stealing_def word_le_nat_alt)
  qed (simp add: avg_stealing_def)
  then show ?thesis using assms(2) by (simp add: r)
qed

theorem stealing_avg_le_max_witness:
  "fst (the (stealing sample_ids 2 [sample_event 3 0 3, sample_event 8 0 4])) ! 0 \<le> snd (the (stealing sample_ids 2 [sample_event 3 0 3, sample_event 8 0 4])) ! 0"
proof -
  have e: "stealing sample_ids 2 [sample_event 3 0 3, sample_event 8 0 4] = Some ([5, 0], [5, 0])" by code_simp
  show ?thesis using stealing_avg_le_max [OF e, of 0 8] unfolding e by (simp add: sample_event_def)
qed

end
