(* ===== verification/Atomic_Ops.thy ===== *)
theory Atomic_Ops
  imports Global_GC "HOL-Library.Multiset"
begin

text \<open>
The atomic operations (include/atomic-ops.h). The header has two versions of every operation: one on builtins of the
compiler, one in x86 assembly. Both are modelled, the assembly on a small machine of registers and memory cells, with
the registers the compiler may choose as parameters. Lemmas: both versions agree (compare-and-swap, the swap at zero,
the exchange, the additions), except where the compiler uses a register that \<^verbatim>\<open>TestAndSwap\<close> changes without saying so;
additions of many vprocs give one sum in any order, and increments return distinct tickets.
\<close>

section \<open>The operations of the compiler\<close>

text \<open>A store of cells of one width. Every operation gives the old value of the cell and the store after it. The
  builtins of the compiler, by their documentation.\<close>

type_synonym 'c cells = "Addr_t \<Rightarrow> 'c"

definition sync_val_compare_and_swap :: "Addr_t \<Rightarrow> 'w word \<Rightarrow> 'w word \<Rightarrow> 'w::len word cells \<Rightarrow> 'w word \<times> 'w::len word cells" where
  "sync_val_compare_and_swap p ov nv m = (m p, if m p = ov then m(p := nv) else m)"

definition sync_fetch_and_add :: "Addr_t \<Rightarrow> 'w::len word \<Rightarrow> 'w::len word cells \<Rightarrow> 'w word \<times> 'w::len word cells" where
  "sync_fetch_and_add p n m = (m p, m(p := m p + n))"

definition sync_fetch_and_sub :: "Addr_t \<Rightarrow> 'w::len word \<Rightarrow> 'w::len word cells \<Rightarrow> 'w word \<times> 'w::len word cells" where
  "sync_fetch_and_sub p n m = (m p, m(p := m p - n))"

definition CompareAndSwapValue :: "Addr_t \<Rightarrow> Value_t \<Rightarrow> Value_t \<Rightarrow> 64 word cells \<Rightarrow> Value_t \<times> 64 word cells" where
  "CompareAndSwapValue ptr key nv m = sync_val_compare_and_swap ptr key nv m"

definition CompareAndSwapPtr :: "Addr_t \<Rightarrow> Addr_t \<Rightarrow> Addr_t \<Rightarrow> 64 word cells \<Rightarrow> Addr_t \<times> 64 word cells" where
  "CompareAndSwapPtr ptr key nv m = sync_val_compare_and_swap ptr key nv m"

definition TestAndSwap :: "Addr_t \<Rightarrow> 32 word \<Rightarrow> 32 word cells \<Rightarrow> 32 word \<times> 32 word cells" where
  "TestAndSwap ptr nv m = sync_val_compare_and_swap ptr 0 nv m"

definition FetchAndInc :: "Addr_t \<Rightarrow> 32 word cells \<Rightarrow> 32 word \<times> 32 word cells" where
  "FetchAndInc ptr m = sync_fetch_and_add ptr 1 m"

definition FetchAndDec :: "Addr_t \<Rightarrow> 32 word cells \<Rightarrow> 32 word \<times> 32 word cells" where
  "FetchAndDec ptr m = sync_fetch_and_sub ptr 1 m"

definition FetchAndAdd64 :: "Addr_t \<Rightarrow> 64 word \<Rightarrow> 64 word cells \<Rightarrow> 64 word \<times> 64 word cells" where
  "FetchAndAdd64 ptr n m = sync_fetch_and_add ptr n m"

definition FetchAndAddU64 :: "Addr_t \<Rightarrow> 64 word \<Rightarrow> 64 word cells \<Rightarrow> 64 word \<times> 64 word cells" where
  "FetchAndAddU64 ptr n m = sync_fetch_and_add ptr n m"

section \<open>The operations in assembly\<close>

text \<open>The registers, the cells, and the instructions the assembly uses. An operand of constraint \<^verbatim>\<open>g\<close> is an immediate
  or a register; the compiler chooses the registers of operands and addresses.\<close>

datatype reg = RAX | RCX | RDX | RSI | RDI | R8

record 'c cpu =
  rg :: "reg \<Rightarrow> 64 word"
  cells :: "'c cells"

datatype 'c opd = Imm 'c | In reg

datatype 'c instr =
    MOV "'c opd" reg
  | XORR reg reg
  | CMPXCHG reg reg
  | XADD reg reg
  | XCHG reg reg

definition rd :: "reg \<Rightarrow> 'w::len word cpu \<Rightarrow> 'w word" where
  "rd r c = ucast (rg c r)"

definition wr :: "reg \<Rightarrow> 'w::len word \<Rightarrow> 'w::len word cpu \<Rightarrow> 'w::len word cpu" where
  "wr r v c = c\<lparr>rg := (rg c)(r := ucast v)\<rparr>"

definition opd_val :: "'w::len word opd \<Rightarrow> 'w::len word cpu \<Rightarrow> 'w word" where
  "opd_val a c = (case a of Imm v \<Rightarrow> v | In r \<Rightarrow> rd r c)"

definition store_cell :: "Addr_t \<Rightarrow> 'w::len word \<Rightarrow> 'w::len word cpu \<Rightarrow> 'w::len word cpu" where
  "store_cell p v c = c\<lparr>cells := (cells c)(p := v)\<rparr>"

fun exec1 :: "'w::len word instr \<Rightarrow> 'w::len word cpu \<Rightarrow> 'w::len word cpu" where
  "exec1 (MOV a r) c = wr r (opd_val a c) c"
| "exec1 (XORR a r) c = wr r (rd a c XOR rd r c) c"
| "exec1 (CMPXCHG r a) c =
    (let p = rg c a; ov = cells c p
     in if rd RAX c = ov then store_cell p (rd r c) c else wr RAX ov c)"
| "exec1 (XADD r a) c = (let p = rg c a; ov = cells c p in wr r ov (store_cell p (ov + rd r c) c))"
| "exec1 (XCHG r a) c = (let p = rg c a; ov = cells c p in wr r ov (store_cell p (rd r c) c))"

definition exec :: "'w::len word instr list \<Rightarrow> 'w::len word cpu \<Rightarrow> 'w::len word cpu" where
  "exec is c = fold exec1 is c"

text \<open>The assembly of the operations: operands first, then the register that holds the address, then the register of
  the result.\<close>

definition CompareAndSwapValue_asm :: "64 word opd \<Rightarrow> 64 word opd \<Rightarrow> reg \<Rightarrow> reg \<Rightarrow> 64 word instr list" where
  "CompareAndSwapValue_asm ov nv a r = [MOV nv RCX, MOV ov RAX, CMPXCHG RCX a, MOV (In RAX) r]"

definition CompareAndSwapWord_asm :: "64 word opd \<Rightarrow> 64 word opd \<Rightarrow> reg \<Rightarrow> reg \<Rightarrow> 64 word instr list" where
  "CompareAndSwapWord_asm ov nv a r = [MOV nv RCX, MOV ov RAX, CMPXCHG RCX a, MOV (In RAX) r]"

definition CompareAndSwapPtr_asm :: "64 word opd \<Rightarrow> 64 word opd \<Rightarrow> reg \<Rightarrow> reg \<Rightarrow> 64 word instr list" where
  "CompareAndSwapPtr_asm ov nv a r = [MOV nv RCX, MOV ov RAX, CMPXCHG RCX a, MOV (In RAX) r]"

definition TestAndSwap_asm :: "32 word opd \<Rightarrow> reg \<Rightarrow> reg \<Rightarrow> 32 word instr list" where
  "TestAndSwap_asm nv a r = [MOV nv RCX, XORR RAX RAX, CMPXCHG RCX a, MOV (In RAX) r]"

definition AtomicExchangeValue_asm :: "reg \<Rightarrow> reg \<Rightarrow> 64 word instr list" where
  "AtomicExchangeValue_asm a r = [XCHG r a]"

definition Fetch_asm :: "reg \<Rightarrow> reg \<Rightarrow> 'w::len word instr list" where
  "Fetch_asm a r = [XADD r a]"

text \<open>Running an operation: the address is in \<open>a\<close>, the result is read from \<open>r\<close>. The exchange and the additions hold
  their operand in the register of the result.\<close>

definition run_asm :: "'w::len word instr list \<Rightarrow> reg \<Rightarrow> reg \<Rightarrow> Addr_t \<Rightarrow> 'w::len word cpu \<Rightarrow> 'w word \<times> 'w::len word cells" where
  "run_asm is a r p c = (let c' = exec is (c\<lparr>rg := (rg c)(a := p)\<rparr>) in (rd r c', cells c'))"

definition AtomicExchangeValue :: "reg \<Rightarrow> reg \<Rightarrow> Addr_t \<Rightarrow> Value_t \<Rightarrow> 64 word cpu \<Rightarrow> Value_t \<times> 64 word cells" where
  "AtomicExchangeValue a r ptr nv c = run_asm (AtomicExchangeValue_asm a r) a r ptr (wr r nv c)"

definition AtomicWriteValue :: "reg \<Rightarrow> reg \<Rightarrow> Addr_t \<Rightarrow> Value_t \<Rightarrow> 64 word cpu \<Rightarrow> 64 word cells" where
  "AtomicWriteValue a r ptr nv c = snd (AtomicExchangeValue a r ptr nv c)"

definition FetchAndInc_x86 :: "reg \<Rightarrow> reg \<Rightarrow> Addr_t \<Rightarrow> 32 word cpu \<Rightarrow> 32 word \<times> 32 word cells" where
  "FetchAndInc_x86 a r ptr c = run_asm (Fetch_asm a r) a r ptr (wr r 1 c)"

definition FetchAndDec_x86 :: "reg \<Rightarrow> reg \<Rightarrow> Addr_t \<Rightarrow> 32 word cpu \<Rightarrow> 32 word \<times> 32 word cells" where
  "FetchAndDec_x86 a r ptr c = run_asm (Fetch_asm a r) a r ptr (wr r (- 1) c)"

definition FetchAndAdd64_x86 :: "reg \<Rightarrow> reg \<Rightarrow> Addr_t \<Rightarrow> 64 word \<Rightarrow> 64 word cpu \<Rightarrow> 64 word \<times> 64 word cells" where
  "FetchAndAdd64_x86 a r ptr n c = run_asm (Fetch_asm a r) a r ptr (wr r n c)"

definition FetchAndAddU64_x86 :: "reg \<Rightarrow> reg \<Rightarrow> Addr_t \<Rightarrow> 64 word \<Rightarrow> 64 word cpu \<Rightarrow> 64 word \<times> 64 word cells" where
  "FetchAndAddU64_x86 a r ptr n c = run_asm (Fetch_asm a r) a r ptr (wr r n c)"

section \<open>Both agree\<close>

lemmas asm_defs = CompareAndSwapValue_asm_def CompareAndSwapWord_asm_def CompareAndSwapPtr_asm_def TestAndSwap_asm_def
  AtomicExchangeValue_asm_def Fetch_asm_def run_asm_def exec_def

lemmas builtin_defs = CompareAndSwapValue_def CompareAndSwapPtr_def TestAndSwap_def FetchAndInc_def FetchAndDec_def
  FetchAndAdd64_def FetchAndAddU64_def sync_val_compare_and_swap_def sync_fetch_and_add_def sync_fetch_and_sub_def

lemma CompareAndSwapWord_builtin: "CompareAndSwapWord p ov nv m = sync_val_compare_and_swap p ov nv m"
  by (simp add: CompareAndSwapWord_def sync_val_compare_and_swap_def)

lemma rg_simps [simp]:
  "rg (wr r v c) = (rg c)(r := ucast v)" "cells (wr r v c) = cells c"
  "rg (store_cell p v c) = rg c" "cells (store_cell p v c) = (cells c)(p := v)"
  by (simp_all add: wr_def store_cell_def)

lemma narrow_back:
  fixes v :: "'w::len word"
  assumes "LENGTH('w) \<le> 64"
  shows "ucast (ucast v :: 64 word) = v"
  using assms by (intro bit_word_eqI) (auto simp: bit_simps)

text \<open>An operand the compiler may choose: not one of the registers \<open>rs\<close> the assembly is declared to change.\<close>

definition outside :: "reg set \<Rightarrow> 'w::len word opd \<Rightarrow> bool" where
  "outside rs x \<longleftrightarrow> (case x of Imm v \<Rightarrow> True | In r \<Rightarrow> r \<notin> rs)"

text \<open>Every compare-and-swap is the same: two moves of 64 or 32 bits, the exchange, and the move of the result.\<close>

lemma CAS_asm:
  fixes c :: "'w::len word cpu"
  assumes w: "LENGTH('w) \<le> 64" and "outside {RAX, RCX} ov" and "outside {RAX, RCX} nv" and "a \<notin> {RAX, RCX}"
    and "x = opd_val ov (c\<lparr>rg := (rg c)(a := p)\<rparr>)" and "y = opd_val nv (c\<lparr>rg := (rg c)(a := p)\<rparr>)"
  shows "run_asm [MOV nv RCX, MOV ov RAX, CMPXCHG RCX a, MOV (In RAX) r] a r p c = sync_val_compare_and_swap p x y (cells c)"
  using assms narrow_back [OF w]
  by (cases ov; cases nv)
    (auto simp: run_asm_def exec_def Let_def opd_val_def outside_def sync_val_compare_and_swap_def rd_def)

text \<open>C30: The three compare-and-swaps in assembly do what the ones on the builtins do: they return the old value
  and store the new one exactly when the old one was as expected, whatever registers the compiler chooses outside those
  the assembly declares to change.\<close>

theorem compare_and_swap_agrees:
  fixes c :: "64 word cpu"
  assumes "outside {RAX, RCX} ov" and "outside {RAX, RCX} nv" and "a \<notin> {RAX, RCX}"
    and "x = opd_val ov (c\<lparr>rg := (rg c)(a := p)\<rparr>)" and "y = opd_val nv (c\<lparr>rg := (rg c)(a := p)\<rparr>)"
  shows "run_asm (CompareAndSwapValue_asm ov nv a r) a r p c = CompareAndSwapValue p x y (cells c) \<and>
    run_asm (CompareAndSwapWord_asm ov nv a r) a r p c = CompareAndSwapWord p x y (cells c) \<and>
    run_asm (CompareAndSwapPtr_asm ov nv a r) a r p c = CompareAndSwapPtr p x y (cells c)"
  using CAS_asm [OF _ assms] by (simp_all add: asm_defs builtin_defs CompareAndSwapWord_def)

theorem compare_and_swap_agrees_witness:
  "run_asm (CompareAndSwapWord_asm (Imm 5) (In RDX) RDI RSI) RDI RSI 64 \<lparr>rg = (\<lambda>r. 9), cells = (\<lambda>p. 5)\<rparr> =
    (5, (\<lambda>p. 5)(64 := 9))"
  using compare_and_swap_agrees [of "Imm 5" "In RDX" RDI 5 "\<lparr>rg = (\<lambda>r. 9), cells = (\<lambda>p. 5)\<rparr>" 64 9 RSI]
  by (simp add: outside_def opd_val_def rd_def CompareAndSwapWord_def)

lemma TestAndSwap_agrees:
  assumes "a \<notin> {RAX, RCX}" and "outside {RAX} nv" and "y = opd_val nv (c\<lparr>rg := (rg c)(a := p)\<rparr>)"
  shows "run_asm (TestAndSwap_asm nv a r) a r p c = TestAndSwap p y (cells c)"
  using assms narrow_back [where 'w = 32]
  by (cases nv) (auto simp: asm_defs builtin_defs Let_def opd_val_def outside_def rd_def)

text \<open>The assembly of \<^verbatim>\<open>TestAndSwap\<close> does not say that it changes \<^verbatim>\<open>%ecx\<close>. A compiler that keeps the address there
  gets a swap at the address \<open>new\<close>.\<close>

lemma TestAndSwap_clobbered:
  "run_asm (TestAndSwap_asm (Imm v) RCX r) RCX r p c = TestAndSwap (ucast v) v (cells c)"
  by (auto simp: asm_defs builtin_defs Let_def opd_val_def rd_def narrow_back)

lemma xadd_agrees:
  fixes c :: "'w::len word cpu"
  assumes w: "LENGTH('w) \<le> 64" and "a \<noteq> r"
  shows "run_asm (Fetch_asm a r) a r p (wr r n c) = sync_fetch_and_add p n (cells c)"
  using assms narrow_back [OF w] by (simp add: asm_defs sync_fetch_and_add_def Let_def rd_def)

lemma xchg_agrees:
  "a \<noteq> r \<Longrightarrow> AtomicExchangeValue a r p v c = (cells c p, (cells c)(p := v))"
  by (simp add: AtomicExchangeValue_def asm_defs Let_def rd_def)

text \<open>The additions in assembly do what the ones on the builtins do: they return the old value and
  store the sum, for both widths, as long as address and operand are in different registers.\<close>

theorem fetch_ops_agree:
  assumes "a \<noteq> r"
  shows "FetchAndInc_x86 a r p c = FetchAndInc p (cells c) \<and>
    FetchAndDec_x86 a r p c = FetchAndDec p (cells c) \<and>
    FetchAndAdd64_x86 a r p n d = FetchAndAdd64 p n (cells d) \<and>
    FetchAndAddU64_x86 a r p n d = FetchAndAddU64 p n (cells d)"
  using assms
  by (simp_all add: FetchAndInc_x86_def FetchAndDec_x86_def FetchAndAdd64_x86_def FetchAndAddU64_x86_def xadd_agrees
      builtin_defs)

theorem fetch_ops_agree_witness:
  "FetchAndDec_x86 RDI RAX 64 \<lparr>rg = (\<lambda>r. 9), cells = (\<lambda>p. 5 :: 32 word)\<rparr> = (5, (\<lambda>p. 5)(64 := 4)) \<and>
    FetchAndAdd64_x86 RDI RAX 64 7 \<lparr>rg = (\<lambda>r. 9), cells = (\<lambda>p. 5 :: 64 word)\<rparr> = (5, (\<lambda>p. 5)(64 := 12))"
  using fetch_ops_agree [of RDI RAX 64 "\<lparr>rg = (\<lambda>r. 9), cells = (\<lambda>p. 5)\<rparr>" 7 "\<lparr>rg = (\<lambda>r. 9), cells = (\<lambda>p. 5)\<rparr>"]
  by (simp add: builtin_defs)

section \<open>Counters that many vprocs add to\<close>

lemma FetchAndAddU64_run: "fold (\<lambda>n m. snd (FetchAndAddU64 p n m)) ns m = m(p := m p + sum_list ns)"
  by (induction ns arbitrary: m) (simp_all add: builtin_defs algebra_simps)

text \<open>Whatever the interleaving of the vprocs that add, the counter ends with the same value.\<close>

lemma FetchAndAddU64_any_order:
  assumes "mset ns = mset ns'"
  shows "fold (\<lambda>n m. snd (FetchAndAddU64 p n m)) ns m = fold (\<lambda>n m. snd (FetchAndAddU64 p n m)) ns' m"
  using assms by (simp add: FetchAndAddU64_run sum_mset_sum_list [symmetric])

text \<open>Each of up to \<open>2 ^ 32\<close> increments, by whichever thread, returns a value of its own.\<close>

primrec tickets :: "nat \<Rightarrow> Addr_t \<Rightarrow> 32 word cells \<Rightarrow> 32 word list" where
  "tickets 0 p m = []"
| "tickets (Suc n) p m = (case FetchAndInc p m of (t, m') \<Rightarrow> t # tickets n p m')"

lemma tickets_count: "tickets n p m = map (\<lambda>i. m p + word_of_nat i) [0..<n]"
proof (induction n arbitrary: m)
  case (Suc n)
  have "[0..<Suc n] = 0 # map Suc [0..<n]" by (simp add: upt_conv_Cons map_Suc_upt)
  then show ?case by (simp add: Suc builtin_defs algebra_simps del: upt_Suc)
qed simp

lemma tickets_distinct:
  assumes "n \<le> 2 ^ 32"
  shows "distinct (tickets n p m)"
proof -
  have "inj_on (\<lambda>i. m p + word_of_nat i :: 32 word) {0..<n}"
    using assms by (intro inj_onI) (auto simp: word_of_nat_eq_iff take_bit_nat_eq_self)
  then show ?thesis by (simp add: tickets_count distinct_map)
qed

end
