(* ===== verification/Os_Threads.thy ===== *)
theory Os_Threads
  imports GC_Rendezvous
begin

text \<open>
Threads (include/os-threads.h): mutexes, condition variables, and the barrier that is built from them when the threads
library has none. \<^verbatim>\<open>GC_Rendezvous\<close> uses barriers whose waiting is two atomic steps, arriving and going on; here waiting
is the code, with the mutex, the loop around the condition and spurious wake-ups. Lemmas: the code refines the atomic
barrier; nobody passes before all have arrived, and exactly one thread is told it was the last; no wake-up is lost; a
barrier works once only.
\<close>

section \<open>Mutexes, condition variables and barriers of the threads library\<close>

text \<open>A mutex is free or held by a thread; locking one that is held waits (\<open>None\<close>).\<close>

type_synonym Mutex_t = "nat option"

definition MutexInit :: Mutex_t where "MutexInit = None"

definition MutexLock :: "nat \<Rightarrow> Mutex_t \<Rightarrow> Mutex_t option" where
  "MutexLock i mu = (if mu = None then Some (Some i) else None)"

definition MutexUnlock :: "Mutex_t \<Rightarrow> Mutex_t" where "MutexUnlock mu = None"

text \<open>A condition variable: who waits for it. A broadcast wakes them all; each then has to lock the mutex again.\<close>

type_synonym Cond_t = "nat set"

definition CondInit :: Cond_t where "CondInit = {}"
definition CondWait :: "nat \<Rightarrow> Cond_t \<Rightarrow> Cond_t" where "CondWait i c = insert i c"
definition CondBroadcast :: "Cond_t \<Rightarrow> Cond_t" where "CondBroadcast c = {}"

section \<open>Waiting at a barrier\<close>

text \<open>Where a thread is in \<^verbatim>\<open>BarrierWait\<close>: outside, before the lock, with the lock before the increment, at the test of
  the loop, before the wait, waiting for the condition or for the mutex after it, before the unlock with its result, and
  past the barrier.\<close>

datatype BarPc = Outside | Entering | Holding | Testing | ToSleep | Waiting | Leaving bool | Passed bool

record BarSys =
  bar :: Barrier
  bar_lock :: Mutex_t
  bar_wait :: Cond_t
  bar_pc :: "nat \<Rightarrow> BarPc"

definition bar_goto :: "nat \<Rightarrow> BarPc \<Rightarrow> BarSys \<Rightarrow> BarSys" where
  "bar_goto i p s = s\<lparr>bar_pc := (bar_pc s)(i := p)\<rparr>"

inductive bar_step :: "nat \<Rightarrow> BarSys \<Rightarrow> BarSys \<Rightarrow> bool" for n where
  call: "i < n \<Longrightarrow> bar_pc s i = Outside \<Longrightarrow> bar_step n s (bar_goto i Entering s)"
| lock: "i < n \<Longrightarrow> bar_pc s i = Entering \<Longrightarrow> MutexLock i (bar_lock s) = Some mu
    \<Longrightarrow> bar_step n s (bar_goto i Holding (s\<lparr>bar_lock := mu\<rparr>))"
| last: "i < n \<Longrightarrow> bar_pc s i = Holding \<Longrightarrow> nWaiting (BarrierArrive (bar s)) = nProcs (bar s)
    \<Longrightarrow> bar_step n s (bar_goto i (Leaving True) (s\<lparr>bar := BarrierArrive (bar s), bar_wait := CondBroadcast (bar_wait s)\<rparr>))"
| more: "i < n \<Longrightarrow> bar_pc s i = Holding \<Longrightarrow> nWaiting (BarrierArrive (bar s)) \<noteq> nProcs (bar s)
    \<Longrightarrow> bar_step n s (bar_goto i Testing (s\<lparr>bar := BarrierArrive (bar s)\<rparr>))"
| stay: "i < n \<Longrightarrow> bar_pc s i = Testing \<Longrightarrow> nWaiting (bar s) < nProcs (bar s) \<Longrightarrow> bar_step n s (bar_goto i ToSleep s)"
| go: "i < n \<Longrightarrow> bar_pc s i = Testing \<Longrightarrow> \<not> nWaiting (bar s) < nProcs (bar s)
    \<Longrightarrow> bar_step n s (bar_goto i (Leaving False) s)"
| sleep: "i < n \<Longrightarrow> bar_pc s i = ToSleep
    \<Longrightarrow> bar_step n s (bar_goto i Waiting (s\<lparr>bar_lock := MutexUnlock (bar_lock s), bar_wait := CondWait i (bar_wait s)\<rparr>))"
| signal: "i < n \<Longrightarrow> bar_pc s i = Waiting \<Longrightarrow> bar_step n s (s\<lparr>bar_wait := bar_wait s - {i}\<rparr>)"
| wake: "i < n \<Longrightarrow> bar_pc s i = Waiting \<Longrightarrow> i \<notin> bar_wait s \<Longrightarrow> MutexLock i (bar_lock s) = Some mu
    \<Longrightarrow> bar_step n s (bar_goto i Testing (s\<lparr>bar_lock := mu\<rparr>))"
| unlock: "i < n \<Longrightarrow> bar_pc s i = Leaving r
    \<Longrightarrow> bar_step n s (bar_goto i (Passed r) (s\<lparr>bar_lock := MutexUnlock (bar_lock s)\<rparr>))"

definition bar_start :: "nat \<Rightarrow> BarSys" where
  "bar_start n = \<lparr>bar = BarrierInit (int n), bar_lock = MutexInit, bar_wait = CondInit, bar_pc = (\<lambda>i. Outside)\<rparr>"

section \<open>The atomic barrier\<close>

text \<open>The barrier the rendezvous is built on: a thread arrives in one step, and goes on in another one once the barrier is
  open.\<close>

datatype AtomPc = Before | At | Through

fun atom_of :: "BarPc \<Rightarrow> AtomPc" where
  "atom_of Outside = Before" | "atom_of Entering = Before" | "atom_of Holding = Before"
| "atom_of Testing = At" | "atom_of ToSleep = At" | "atom_of Waiting = At"
| "atom_of (Leaving r) = Through" | "atom_of (Passed r) = Through"

inductive atom_step :: "nat \<Rightarrow> Barrier \<times> (nat \<Rightarrow> AtomPc) \<Rightarrow> Barrier \<times> (nat \<Rightarrow> AtomPc) \<Rightarrow> bool" for n where
  arrive: "i < n \<Longrightarrow> pc i = Before \<Longrightarrow> atom_step n (b, pc) (BarrierArrive b, pc(i := At))"
| leave: "i < n \<Longrightarrow> pc i = At \<Longrightarrow> BarrierOpen b \<Longrightarrow> atom_step n (b, pc) (b, pc(i := Through))"

definition atomic :: "BarSys \<Rightarrow> Barrier \<times> (nat \<Rightarrow> AtomPc)" where
  "atomic s = (bar s, \<lambda>i. atom_of (bar_pc s i))"

lemma atomic_goto: "atomic (bar_goto i p s) = (bar s, (\<lambda>j. atom_of (bar_pc s j))(i := atom_of p))"
  by (auto simp: atomic_def bar_goto_def)

lemma atomic_wait: "atomic (s\<lparr>bar_wait := c\<rparr>) = (bar s, \<lambda>i. atom_of (bar_pc s i))"
  by (simp add: atomic_def)

text \<open>C24: Every step of the code of BarrierWait, over a mutex and a condition variable, is none, one or two steps of
  the atomic barrier that the rendezvous of the global collection is built on.\<close>

theorem barrier_refines:
  assumes "bar_step n s s'"
  shows "(atom_step n)\<^sup>*\<^sup>* (atomic s) (atomic s')"
  using assms
proof cases
  case (last i)
  let ?pc = "\<lambda>i. atom_of (bar_pc s i)"
  have "atom_step n (bar s, ?pc) (BarrierArrive (bar s), ?pc(i := At))" using last by (intro arrive) auto
  moreover have "BarrierOpen (BarrierArrive (bar s))" using last by (simp add: BarrierOpen_def BarrierArrive_def)
  then have "atom_step n (BarrierArrive (bar s), ?pc(i := At)) (BarrierArrive (bar s), (?pc(i := At))(i := Through))"
    using last by (intro leave) auto
  ultimately show ?thesis using last by (simp add: atomic_goto atomic_def [of s])
next
  case (more i)
  then have "atom_step n (bar s, \<lambda>i. atom_of (bar_pc s i)) (BarrierArrive (bar s), (\<lambda>i. atom_of (bar_pc s i))(i := At))"
    by (intro arrive) auto
  then show ?thesis using more by (simp add: atomic_goto atomic_def [of s])
next
  case (go i)
  then have "atom_step n (bar s, \<lambda>i. atom_of (bar_pc s i)) (bar s, (\<lambda>i. atom_of (bar_pc s i))(i := Through))"
    by (intro leave) (auto simp: BarrierOpen_def)
  then show ?thesis using go by (simp add: atomic_goto atomic_def [of s])
qed (simp_all add: atomic_goto atomic_def [of s] atomic_wait fun_upd_idem)

theorem barrier_refines_witness:
  "(atom_step 1)\<^sup>*\<^sup>* (atomic (bar_goto 0 Holding (bar_start 1)))
     (atomic (bar_goto 0 (Leaving True) ((bar_goto 0 Holding (bar_start 1))\<lparr>bar := BarrierArrive (BarrierInit 1), bar_wait := {}\<rparr>)))"
proof -
  have "bar_step 1 (bar_goto 0 Holding (bar_start 1))
     (bar_goto 0 (Leaving True) ((bar_goto 0 Holding (bar_start 1))\<lparr>bar := BarrierArrive (BarrierInit 1), bar_wait := {}\<rparr>))"
    using bar_step.last [of 0 1 "bar_goto 0 Holding (bar_start 1)"]
    by (simp add: bar_goto_def bar_start_def BarrierArrive_def BarrierInit_def CondBroadcast_def)
  then show ?thesis by (rule barrier_refines)
qed

section \<open>What a barrier gives\<close>

definition holds_lock :: "BarPc \<Rightarrow> bool" where
  "holds_lock p \<longleftrightarrow> p = Holding \<or> p = Testing \<or> p = ToSleep \<or> (\<exists>r. p = Leaving r)"

definition arrived :: "BarPc \<Rightarrow> bool" where
  "arrived p \<longleftrightarrow> p \<noteq> Outside \<and> p \<noteq> Entering \<and> p \<noteq> Holding"

definition through :: "BarPc \<Rightarrow> bool" where
  "through p \<longleftrightarrow> (\<exists>r. p = Leaving r \<or> p = Passed r)"

definition won :: "BarPc \<Rightarrow> bool" where
  "won p \<longleftrightarrow> p = Leaving True \<or> p = Passed True"

lemmas pc_preds = holds_lock_def arrived_def through_def won_def

definition bar_inv :: "nat \<Rightarrow> BarSys \<Rightarrow> bool" where
  "bar_inv n s \<longleftrightarrow> nProcs (bar s) = int n \<and> nWaiting (bar s) = count_pc n arrived (bar_pc s)
     \<and> (\<forall>i. bar_lock s = Some i \<longleftrightarrow> i < n \<and> holds_lock (bar_pc s i))
     \<and> (\<forall>i<n. bar_pc s i = ToSleep \<or> bar_pc s i = Waiting \<and> i \<in> bar_wait s \<longrightarrow> nWaiting (bar s) < int n)
     \<and> (\<forall>i<n. through (bar_pc s i) \<longrightarrow> \<not> nWaiting (bar s) < int n)
     \<and> count_pc n won (bar_pc s) = (if nWaiting (bar s) = int n then 1 else 0)"

lemma bar_goto_simps [simp]: "bar (bar_goto i p s) = bar s" "bar_lock (bar_goto i p s) = bar_lock s"
  "bar_wait (bar_goto i p s) = bar_wait s" "bar_pc (bar_goto i p s) = (bar_pc s)(i := p)"
  by (simp_all add: bar_goto_def)

lemmas thread_ops = MutexLock_def MutexUnlock_def CondBroadcast_def CondWait_def BarrierArrive_def

lemma lock_holder:
  "bar_inv n s \<Longrightarrow> i < n \<Longrightarrow> holds_lock (bar_pc s i) \<Longrightarrow> j < n \<Longrightarrow> holds_lock (bar_pc s j) \<Longrightarrow> i = j"
  unfolding bar_inv_def by (metis option.inject)

lemma bar_inv_start: "0 < n \<Longrightarrow> bar_inv n (bar_start n)"
  by (simp add: bar_inv_def bar_start_def BarrierInit_def MutexInit_def pc_preds count_pc_none)

text \<open>Steps that do not change the count of arrivals: what is left to show of each.\<close>

lemma bar_inv_move:
  assumes "bar_inv n s" and "i < n" and "arrived p = arrived (bar_pc s i)" and "won p = won (bar_pc s i)"
    and "bar s' = bar s" and "bar_pc s' = (bar_pc s)(i := p)" and "bar_wait s' \<subseteq> insert i (bar_wait s)"
    and "p = ToSleep \<or> p = Waiting \<Longrightarrow> nWaiting (bar s) < int n" and "through p \<Longrightarrow> \<not> nWaiting (bar s) < int n"
    and "bar_lock s' = (if holds_lock p then Some i else if holds_lock (bar_pc s i) then None else bar_lock s)"
    and "holds_lock p \<Longrightarrow> holds_lock (bar_pc s i) \<or> bar_lock s = None"
  shows "bar_inv n s'"
proof -
  have "bar_lock s' = Some j \<longleftrightarrow> j < n \<and> holds_lock (bar_pc s' j)" for j
  proof (cases "j = i")
    case False
    then have "bar_lock s = Some j \<longleftrightarrow> j < n \<and> holds_lock (bar_pc s j)" using assms(1) by (simp add: bar_inv_def)
    moreover have "holds_lock (bar_pc s i) \<Longrightarrow> bar_lock s = Some i" using assms(1,2) by (simp add: bar_inv_def)
    ultimately show ?thesis using False assms(6,10,11) by auto
  next
    case True
    have "bar_lock s = Some i \<longleftrightarrow> holds_lock (bar_pc s i)" using assms(1,2) by (simp add: bar_inv_def)
    then show ?thesis using True assms(2,6,10) by auto
  qed
  moreover have "nWaiting (bar s) < int n" if "j < n" "bar_pc s' j = ToSleep \<or> bar_pc s' j = Waiting \<and> j \<in> bar_wait s'" for j
    using that assms(1,6,7,8) by (cases "j = i") (auto simp: bar_inv_def)
  moreover have "\<not> nWaiting (bar s) < int n" if "j < n" "through (bar_pc s' j)" for j
    using that assms(1,6,9) by (cases "j = i") (auto simp: bar_inv_def)
  ultimately show ?thesis using assms(1-6)
    by (simp add: bar_inv_def count_pc_upd)
qed

lemma lock_free: "bar_inv n s \<Longrightarrow> MutexLock i (bar_lock s) = Some mu \<Longrightarrow> mu = Some i \<and> bar_lock s = None"
  by (simp add: MutexLock_def split: if_splits)

text \<open>Arrivals: the thread holds the lock, so that no other is between the test and the wait.\<close>

lemma bar_inv_arrive:
  assumes inv: "bar_inv n s" and i: "i < n" "bar_pc s i = Holding"
    and p: "p = (if full then Leaving True else Testing)" and l: "full \<longleftrightarrow> nWaiting (bar s) + 1 = int n"
  shows "bar_inv n (bar_goto i p (s\<lparr>bar := BarrierArrive (bar s), bar_wait := if full then {} else bar_wait s\<rparr>))"
proof -
  have na: "\<not> arrived (bar_pc s i)" "\<not> won (bar_pc s i)" "holds_lock (bar_pc s i)" using i by (simp_all add: pc_preds)
  then have w: "nWaiting (bar s) < int n" using count_pc_full [of n arrived "bar_pc s" i] inv i(1) by (auto simp: bar_inv_def)
  have hp: "holds_lock p" "arrived p" "won p = full" "through p = full" "p \<noteq> ToSleep" "p \<noteq> Waiting"
    using p by (auto simp: pc_preds)
  have lock: "bar_lock s = Some j \<longleftrightarrow> j < n \<and> holds_lock (((bar_pc s)(i := p)) j)" for j
    using inv i(1) na(3) hp(1) by (auto simp: bar_inv_def)
  have sleep: "bar_pc s j \<noteq> ToSleep" if "j < n" for j
    using lock_holder [OF inv i(1) na(3) that] i(2) by (auto simp: pc_preds)
  have gone: "\<not> through (bar_pc s j)" if "j < n" for j using inv w that by (auto simp: bar_inv_def)
  show ?thesis
    using inv i(1) w na hp lock sleep gone l by (auto simp: bar_inv_def BarrierArrive_def count_pc_upd)
qed

lemma bar_inv_step:
  assumes "bar_step n s s'" and inv: "bar_inv n s"
  shows "bar_inv n s'"
  using assms(1)
proof cases
  case (call i)
  then show ?thesis by (intro bar_inv_move [OF inv, of i Entering]) (auto simp: pc_preds)
next
  case (lock i mu)
  then show ?thesis using lock_free [OF inv lock(4)] by (intro bar_inv_move [OF inv, of i Holding]) (auto simp: pc_preds)
next
  case (last i)
  then have "s' = bar_goto i (Leaving True) (s\<lparr>bar := BarrierArrive (bar s), bar_wait := if True then {} else bar_wait s\<rparr>)"
    by (simp add: CondBroadcast_def)
  then show ?thesis using inv last(4)
    by (simp only:) (rule bar_inv_arrive [OF inv last(2,3)], simp_all add: BarrierArrive_def bar_inv_def)
next
  case (more i)
  then have "s' = bar_goto i Testing (s\<lparr>bar := BarrierArrive (bar s), bar_wait := if False then {} else bar_wait s\<rparr>)"
    by simp
  then show ?thesis using inv more(4)
    by (simp only:) (rule bar_inv_arrive [OF inv more(2,3)], simp_all add: BarrierArrive_def bar_inv_def)
next
  case (stay i)
  then show ?thesis using inv by (intro bar_inv_move [OF inv, of i ToSleep]) (auto simp: pc_preds bar_inv_def)
next
  case (go i)
  then show ?thesis using inv by (intro bar_inv_move [OF inv, of i "Leaving False"]) (auto simp: pc_preds bar_inv_def)
next
  case (sleep i)
  then show ?thesis using inv
    by (intro bar_inv_move [OF inv, of i Waiting]) (auto simp: pc_preds bar_inv_def thread_ops)
next
  case (signal i)
  have "nWaiting (bar s) < int n" if "j < n" "bar_pc s j = ToSleep \<or> bar_pc s j = Waiting \<and> j \<in> bar_wait s - {i}" for j
    using inv that unfolding bar_inv_def by blast
  moreover have "\<not> nWaiting (bar s) < int n" if "j < n" "through (bar_pc s j)" for j
    using inv that unfolding bar_inv_def by blast
  ultimately show ?thesis using inv by (simp add: signal(1) bar_inv_def)
next
  case (wake i mu)
  then show ?thesis using lock_free [OF inv wake(5)] by (intro bar_inv_move [OF inv, of i Testing]) (auto simp: pc_preds)
next
  case (unlock i r)
  then show ?thesis using inv
    by (intro bar_inv_move [OF inv, of i "Passed r"]) (auto simp: pc_preds bar_inv_def thread_ops)
qed

lemma bar_inv_reachable:
  assumes "(bar_step n)\<^sup>*\<^sup>* (bar_start n) s" and "0 < n"
  shows "bar_inv n s"
  using assms(1) by induction (auto intro: bar_inv_step bar_inv_start assms(2))

text \<open>Nobody is past the barrier before all have arrived; one thread, and only one, is told that it was the last.\<close>

text \<open>C28: When a thread has passed a barrier, all have arrived at it, and exactly one of them is told that it was the
  last.\<close>

theorem barrier_wait_spec:
  assumes "(bar_step n)\<^sup>*\<^sup>* (bar_start n) s" and "i < n" and "bar_pc s i = Passed r"
  shows "(\<forall>j<n. arrived (bar_pc s j)) \<and> (\<exists>!j. j < n \<and> won (bar_pc s j))"
proof -
  have inv: "bar_inv n s" using bar_inv_reachable [OF assms(1)] assms(2) by simp
  have w: "\<not> nWaiting (bar s) < int n" using inv assms(2,3) by (auto simp: bar_inv_def pc_preds)
  then have a: "arrived (bar_pc s j)" if "j < n" for j
    using inv count_pc_full [OF _ that] by (simp add: bar_inv_def)
  then have "nWaiting (bar s) = int n" using inv count_pc_all [of n arrived "bar_pc s"] by (simp add: bar_inv_def)
  then have "card {j. j < n \<and> won (bar_pc s j)} = 1" using inv by (simp add: bar_inv_def count_pc_def)
  then obtain l where "{j. j < n \<and> won (bar_pc s j)} = {l}" by (rule card_1_singletonE)
  then have "j < n \<and> won (bar_pc s j) \<longleftrightarrow> j = l" for j by (simp add: set_eq_iff)
  then have "\<exists>!j. j < n \<and> won (bar_pc s j)" by simp
  with a show ?thesis by blast
qed

theorem barrier_wait_spec_witness:
  "arrived (bar_pc (bar_goto 0 (Passed True) (bar_start 1)\<lparr>bar := BarrierArrive (BarrierInit 1)\<rparr>) 0)"
proof -
  let ?s = "bar_start 1"
  let ?b = "BarrierArrive (BarrierInit 1)"
  have "bar_step 1 ?s (bar_goto 0 Entering ?s)"
    "bar_step 1 (bar_goto 0 Entering ?s) (bar_goto 0 Holding (?s\<lparr>bar_lock := Some 0\<rparr>))"
    using call [of 0 1 ?s] lock [of 0 1 "bar_goto 0 Entering ?s" "Some 0"]
    by (simp_all add: bar_start_def bar_goto_def MutexLock_def MutexInit_def)
  moreover have "bar_step 1 (bar_goto 0 Holding (?s\<lparr>bar_lock := Some 0\<rparr>)) (bar_goto 0 (Leaving True) (?s\<lparr>bar_lock := Some 0, bar := ?b\<rparr>))"
    using bar_step.last [of 0 1 "bar_goto 0 Holding (?s\<lparr>bar_lock := Some 0\<rparr>)"]
    by (simp add: bar_start_def bar_goto_def thread_ops BarrierInit_def CondInit_def)
  moreover have "bar_step 1 (bar_goto 0 (Leaving True) (?s\<lparr>bar_lock := Some 0, bar := ?b\<rparr>)) (bar_goto 0 (Passed True) (?s\<lparr>bar := ?b\<rparr>))"
    using unlock [of 0 1 "bar_goto 0 (Leaving True) (?s\<lparr>bar_lock := Some 0, bar := ?b\<rparr>)" True]
    by (simp add: bar_start_def bar_goto_def MutexUnlock_def MutexInit_def)
  ultimately have "(bar_step 1)\<^sup>*\<^sup>* ?s (bar_goto 0 (Passed True) (?s\<lparr>bar := ?b\<rparr>))"
    by (meson rtranclp.rtrancl_into_rtrancl rtranclp.rtrancl_refl)
  from barrier_wait_spec [OF this, of 0 True] show ?thesis by (simp add: bar_goto_def)
qed

lemma step_moves:
  "bar_step n s (bar_goto j p t) \<Longrightarrow> bar_pc t = bar_pc s \<Longrightarrow> p \<noteq> bar_pc s j \<Longrightarrow> \<exists>s'. bar_step n s s' \<and> bar_pc s' \<noteq> bar_pc s"
  by (metis bar_goto_simps(4) fun_upd_same)

lemma holder_moves:
  assumes "j < n" and "holds_lock (bar_pc s j)"
  shows "\<exists>s'. bar_step n s s' \<and> bar_pc s' \<noteq> bar_pc s"
proof -
  consider "bar_pc s j = Holding" "nWaiting (BarrierArrive (bar s)) = nProcs (bar s)"
    | "bar_pc s j = Holding" "nWaiting (BarrierArrive (bar s)) \<noteq> nProcs (bar s)"
    | "bar_pc s j = Testing" "nWaiting (bar s) < nProcs (bar s)" | "bar_pc s j = Testing" "\<not> nWaiting (bar s) < nProcs (bar s)"
    | "bar_pc s j = ToSleep" | r where "bar_pc s j = Leaving r"
    using assms(2) by (auto simp: holds_lock_def)
  then show ?thesis
  proof cases
    case 1 then show ?thesis by (intro step_moves [OF bar_step.last [OF assms(1) 1]]) auto
  next
    case 2 then show ?thesis by (intro step_moves [OF more [OF assms(1) 2]]) auto
  next
    case 3 then show ?thesis by (intro step_moves [OF stay [OF assms(1) 3]]) auto
  next
    case 4 then show ?thesis by (intro step_moves [OF go [OF assms(1) 4]]) auto
  next
    case 5 then show ?thesis by (intro step_moves [OF sleep [OF assms(1) 5]]) auto
  next
    case 6 then show ?thesis by (intro step_moves [OF unlock [OF assms(1) 6]]) auto
  qed
qed

text \<open>No wake-up is lost: while a thread has not passed, some thread can go on.\<close>

text \<open>C29: Whatever the interleaving and the spurious wake-ups, no wake-up at a barrier is lost: while one of its
  threads has not passed, some thread can go on.\<close>

theorem barrier_progress:
  assumes "(bar_step n)\<^sup>*\<^sup>* (bar_start n) s" and "i < n" and "\<And>r. bar_pc s i \<noteq> Passed r"
  shows "\<exists>s'. bar_step n s s' \<and> bar_pc s' \<noteq> bar_pc s"
proof (cases "bar_lock s")
  case (Some j)
  have inv: "bar_inv n s" using bar_inv_reachable [OF assms(1)] assms(2) by simp
  then show ?thesis using Some holder_moves [of j n s] by (auto simp: bar_inv_def)
next
  case None
  have inv: "bar_inv n s" using bar_inv_reachable [OF assms(1)] assms(2) by simp
  have free: "\<not> holds_lock (bar_pc s j)" if "j < n" for j using inv None that by (auto simp: bar_inv_def)
  have l: "MutexLock j (bar_lock s) = Some (Some j)" for j using None by (simp add: MutexLock_def)
  show ?thesis
  proof (cases "\<exists>j<n. bar_pc s j = Outside \<or> bar_pc s j = Entering")
    case True
    then obtain j where "j < n" "bar_pc s j = Outside \<or> bar_pc s j = Entering" by blast
    then show ?thesis using step_moves [OF call [of j n s]] step_moves [OF lock [of j n s, OF _ _ l]] by auto
  next
    case False
    then have "arrived (bar_pc s j)" if "j < n" for j using free [OF that] that by (auto simp: pc_preds)
    then have "nWaiting (bar s) = int n" using inv count_pc_all [of n arrived "bar_pc s"] by (simp add: bar_inv_def)
    moreover have w: "bar_pc s i = Waiting" using False free [OF assms(2)] assms(2,3) by (cases "bar_pc s i") (auto simp: pc_preds)
    ultimately have "i \<notin> bar_wait s" using inv assms(2) by (auto simp: bar_inv_def)
    from step_moves [OF wake [OF assms(2) w this l]] show ?thesis using w by auto
  qed
qed

theorem barrier_progress_witness: "\<exists>s'. bar_step 2 (bar_start 2) s' \<and> bar_pc s' \<noteq> bar_pc (bar_start 2)"
  by (rule barrier_progress [of 2 "bar_start 2" 0]) (simp_all add: bar_start_def)

text \<open>A barrier is good for one use: nothing counts the waiting threads down, so a thread that comes later is not the last,
  does not wait, and the check when the barrier is destroyed fails.\<close>

definition BarrierDestroy :: "bool \<Rightarrow> Barrier \<Rightarrow> Barrier option" where
  "BarrierDestroy dbg b = (if dbg \<and> nWaiting b \<noteq> 0 then None else Some (b\<lparr>nProcs := 0\<rparr>))"

lemma barrier_used_once:
  assumes "nWaiting b = nProcs b" and "0 < nProcs b"
  shows "nWaiting (BarrierArrive b) \<noteq> nProcs b" and "BarrierOpen (BarrierArrive b)" and "BarrierDestroy True b = None"
  using assms by (simp_all add: BarrierArrive_def BarrierOpen_def BarrierDestroy_def)

end
