(* ===== verification/Cpu_Ident.thy ===== *)
theory Cpu_Ident
  imports C_Strings
begin

text \<open>
The program that prints the caches of the processor (cpu/cpuid.c). The instruction CPUID is a parameter, a function of
leaf and index; the layouts of its answers are bit fields of the registers. Lemmas: the loop over the caches of Intel
ends after at most 256 rounds; the bit fields of each layout determine the word; the program always returns, but calls
an Intel processor unknown; which rows of the table of caches are wrong.
\<close>

section \<open>Tables\<close>

datatype Vendor_t = UnknownVendor | Intel | AMD

record CacheInfo_t =
  ci_level :: int
  ci_assoc :: int
  ci_lineSzB :: int
  ci_szKB :: int

text \<open>The rows of the table of cache descriptors: descriptor, level, associativity, line size, size.\<close>

definition cache_rows :: "(int \<times> int \<times> int \<times> int \<times> int) list" where
  "cache_rows =
    [(0x00, 0, 0, 0, 0), (0x01, 0, 0, 0, 0), (0x02, 0, 0, 0, 0), (0x03, 0, 0, 0, 0), (0x04, 0, 0, 0, 0),
     (0x05, 0, 0, 0, 0), (0x06, 1, 4, 32, 8), (0x08, 1, 4, 32, 16), (0x09, 1, 4, 32, 32), (0x0a, 1, 4, 64, 32),
     (0x0b, 0, 0, 0, 0), (0x0c, 1, 4, 32, 16), (0x0d, 1, 4, 64, 16), (0x0e, 1, 4, 64, 24), (0x21, 2, 8, 64, 256),
     (0x22, 3, 4, 64, 512), (0x23, 3, 8, 64, 1024), (0x25, 3, 8, 64, 2048), (0x29, 3, 8, 64, 4096), (0x2c, 1, 8, 64, 32),
     (0x30, 1, 8, 64, 32), (0x40, 0, 0, 0, 0), (0x41, 2, 4, 32, 128), (0x42, 2, 4, 32, 256), (0x43, 2, 4, 32, 512),
     (0x44, 2, 4, 32, 1024), (0x45, 2, 4, 32, 2096), (0x46, 3, 4, 64, 4096), (0x47, 3, 8, 64, 8192), (0x48, 2, 12, 64, 3072),
     (0x49, 2, 16, 64, 4096), (0x4a, 3, 12, 64, 6144), (0x4b, 3, 16, 64, 8192), (0x4c, 3, 12, 64, 12288), (0x4d, 3, 16, 64, 16384),
     (0x4e, 2, 24, 64, 6144), (0x4f, 0, 0, 0, 0), (0x50, 0, 0, 0, 0), (0x51, 0, 0, 0, 0), (0x52, 0, 0, 0, 0),
     (0x55, 0, 0, 0, 0), (0x56, 0, 0, 0, 0), (0x57, 0, 0, 0, 0), (0x59, 0, 0, 0, 0), (0x5a, 0, 0, 0, 0),
     (0x5b, 0, 0, 0, 0), (0x5c, 0, 0, 0, 0), (0x5d, 0, 0, 0, 0), (0x60, 1, 4, 64, 16), (0x66, 1, 4, 64, 8),
     (0x67, 1, 4, 64, 16), (0x68, 1, 4, 64, 32), (0x70, 0, 0, 0, 0), (0x71, 0, 0, 0, 0), (0x72, 0, 0, 0, 0),
     (0x78, 2, 4, 64, 1024), (0x79, 2, 8, 64, 128), (0x7a, 2, 8, 64, 256), (0x7b, 2, 8, 64, 512), (0x7c, 2, 8, 64, 1024),
     (0x7d, 2, 8, 64, 2096), (0x7f, 2, 2, 64, 512), (0x80, 2, 8, 64, 512), (0x82, 2, 8, 32, 256), (0x83, 2, 8, 32, 512),
     (0x84, 2, 8, 32, 1024), (0x85, 2, 8, 32, 2096), (0x86, 2, 4, 64, 512), (0x87, 2, 8, 64, 1024), (0xb0, 0, 0, 0, 0),
     (0xb1, 0, 0, 0, 0), (0xb2, 0, 0, 0, 0), (0xb3, 0, 0, 0, 0), (0xb4, 0, 0, 0, 0), (0xba, 0, 0, 0, 0),
     (0xc0, 0, 0, 0, 0), (0xca, 0, 0, 0, 0), (0xe4, 3, 16, 64, 16384), (0xf0, 0, 0, 0, 0), (0xf1, 0, 0, 0, 0),
     (0xff, 0, 0, 0, 0)]"

definition CacheInfoTbl :: "int \<Rightarrow> CacheInfo_t" where
  "CacheInfoTbl d = (case map_of cache_rows d of
      None \<Rightarrow> \<lparr>ci_level = 0, ci_assoc = 0, ci_lineSzB = 0, ci_szKB = 0\<rparr>
    | Some (l, a, ln, sz) \<Rightarrow> \<lparr>ci_level = l, ci_assoc = a, ci_lineSzB = ln, ci_szKB = sz\<rparr>)"

definition AssocTable :: "nat \<Rightarrow> nat" where
  "AssocTable i = (case map_of [(0x0, 0), (0x1, 1), (0x2, 2), (0x4, 4), (0x6, 8), (0x8, 16), (0xa, 32), (0xb, 48), (0xc, 64),
      (0xd, 96), (0xe, 128), (0xf, 0xffff)] i of None \<Rightarrow> 0 | Some n \<Rightarrow> n)"

section \<open>The instruction and its answers\<close>

record CPUID_Regs_t =
  eax :: "32 word"
  ebx :: "32 word"
  ecx :: "32 word"
  edx :: "32 word"

text \<open>What the instruction answers for a leaf and a secondary operation is a parameter, \<open>cpu\<close>. The answer is read in
  one of several layouts of the same 16 bytes.\<close>

type_synonym cpu_answers = "32 word \<Rightarrow> 32 word \<Rightarrow> CPUID_Regs_t"

record CPUID_t =
  cpuid_op :: "32 word"
  cpuid_regs :: CPUID_Regs_t

definition CPUID :: "cpu_answers \<Rightarrow> 32 word \<Rightarrow> 32 word \<Rightarrow> CPUID_t" where
  "CPUID cpu leaf op2 = \<lparr>cpuid_op = leaf, cpuid_regs = cpu leaf op2\<rparr>"

definition bitfield :: "nat \<Rightarrow> nat \<Rightarrow> 32 word \<Rightarrow> nat" where
  "bitfield i n w = unat (take_bit n (drop_bit i w))"

definition reg_chars :: "32 word \<Rightarrow> string" where
  "reg_chars w = map (\<lambda>i. char_of (bitfield (8 * i) 8 w)) [0..<4]"

record CPUID_Leaf0_t =
  leaf_max :: "32 word"
  vendor_id :: string

definition basicInfo :: "CPUID_Regs_t \<Rightarrow> CPUID_Leaf0_t" where
  "basicInfo r = \<lparr>leaf_max = eax r, vendor_id = reg_chars (ebx r) @ reg_chars (ecx r) @ reg_chars (edx r)\<rparr>"

record CPUID_Leaf2_t =
  eax_bytes :: string
  ebx_bytes :: string
  ecx_bytes :: string
  edx_bytes :: string

definition cacheInfo :: "CPUID_Regs_t \<Rightarrow> CPUID_Leaf2_t" where
  "cacheInfo r = \<lparr>eax_bytes = reg_chars (eax r), ebx_bytes = reg_chars (ebx r), ecx_bytes = reg_chars (ecx r),
     edx_bytes = reg_chars (edx r)\<rparr>"

record CPUID_Intel_Leaf4_t =
  cacheType :: nat
  cache_level :: nat
  selfInit :: nat
  fullAssoc :: nat
  maxThdId :: nat
  maxCoreId :: nat
  sysLineSz :: nat
  lineSz :: nat
  ways :: nat
  numSets :: "32 word"
  wrinvd :: nat
  inclusive :: nat

definition intelCacheParams :: "CPUID_Regs_t \<Rightarrow> CPUID_Intel_Leaf4_t" where
  "intelCacheParams r = \<lparr>cacheType = bitfield 0 5 (eax r), cache_level = bitfield 5 3 (eax r), selfInit = bitfield 8 1 (eax r),
     fullAssoc = bitfield 9 1 (eax r), maxThdId = bitfield 14 12 (eax r), maxCoreId = bitfield 26 6 (eax r),
     sysLineSz = bitfield 0 12 (ebx r), lineSz = bitfield 12 10 (ebx r), ways = bitfield 22 10 (ebx r), numSets = ecx r,
     wrinvd = bitfield 0 1 (edx r), inclusive = bitfield 1 1 (edx r)\<rparr>"

record CPUID_AMD_X6_t =
  tlb1 :: "32 word"
  tlb2 :: "32 word"
  l2LineSz :: nat
  l2LinesPerTag :: nat
  l2Assoc :: nat
  l2SizeKB :: nat
  l3LineSz :: nat
  l3LinesPerTag :: nat
  l3Assoc :: nat
  l3Size :: nat

definition amdCacheParams :: "CPUID_Regs_t \<Rightarrow> CPUID_AMD_X6_t" where
  "amdCacheParams r = \<lparr>tlb1 = eax r, tlb2 = ebx r, l2LineSz = bitfield 0 8 (ecx r), l2LinesPerTag = bitfield 8 4 (ecx r),
     l2Assoc = bitfield 12 4 (ecx r), l2SizeKB = bitfield 16 16 (ecx r), l3LineSz = bitfield 0 8 (edx r),
     l3LinesPerTag = bitfield 8 4 (edx r), l3Assoc = bitfield 12 4 (edx r), l3Size = bitfield 18 14 (edx r)\<rparr>"

text \<open>Both comparisons are with the same text, that of AMD.\<close>

definition Vendor :: "cpu_answers \<Rightarrow> Vendor_t" where
  "Vendor cpu =
    (let id = vendor_id (basicInfo (cpuid_regs (CPUID cpu 0 0)))
     in if strncmp_eq id ''AuthcAMDenti'' 12 then AMD
        else if strncmp_eq id ''AuthcAMDenti'' 12 then Intel
        else UnknownVendor)"

section \<open>The program\<close>

definition show_d :: "32 word \<Rightarrow> string" where "show_d w = show_int (sint w)"

definition cache_lines :: "nat \<Rightarrow> CPUID_Intel_Leaf4_t \<Rightarrow> string list" where
  "cache_lines i p =
    [''***** '' @ show_nat i @ '' *****'',
     ''  max cores      = '' @ show_nat (maxCoreId p + 1),
     ''  max threads    = '' @ show_nat (maxThdId p + 1),
     ''  cache type     = level '' @ show_nat (cache_level p) @ '' '' @
       (if cacheType p = 1 then ''data'' else if cacheType p = 2 then ''instruction'' else ''unified'') @
       (if inclusive p \<noteq> 0 then '' (inclusive)'' else []),
     ''  associativity  = '' @ show_nat (ways p + 1) @ '' way'',
     ''  line size      = '' @ show_nat (sysLineSz p + 1),
     ''  num partitions = '' @ show_nat (lineSz p + 1),
     ''  num sets       = '' @ show_d (numSets p + 1)]"

partial_function (option) intel_loop :: "cpu_answers \<Rightarrow> nat \<Rightarrow> string list \<Rightarrow> string list option" where
  "intel_loop cpu i out =
    (let p = intelCacheParams (cpuid_regs (CPUID cpu 4 (word_of_nat i)))
     in if cacheType p \<noteq> 0 then intel_loop cpu (i + 1) (out @ cache_lines i p) else Some out)"

text \<open>The sizes printed are the sizes of a line.\<close>

definition amd_lines :: "CPUID_AMD_X6_t \<Rightarrow> string list" where
  "amd_lines p =
    (if l2Assoc p \<noteq> 0 then
      [''L2 cache:'', ''  size           = '' @ show_nat (l2LineSz p) @ ''KB'',
       ''  associativity  = '' @ show_nat (AssocTable (l2Assoc p)) @ '' way'',
       ''  line size      = '' @ show_nat (l2LineSz p), ''  lines/tag      = '' @ show_nat (l2LinesPerTag p)] else []) @
    (if l3Assoc p \<noteq> 0 then
      [''L3 cache:'', ''  size           = '' @ show_nat (l3LineSz p * 512) @ ''KB'',
       ''  associativity  = '' @ show_nat (AssocTable (l3Assoc p)) @ '' way'',
       ''  line size      = '' @ show_nat (l3LineSz p), ''  lines/tag      = '' @ show_nat (l3LinesPerTag p)] else [])"

definition cpuid_main :: "cpu_answers \<Rightarrow> string list option" where
  "cpuid_main cpu =
    (case Vendor cpu of
       Intel \<Rightarrow> intel_loop cpu 0 []
     | AMD \<Rightarrow> Some (amd_lines (amdCacheParams (cpuid_regs (CPUID cpu 0x80000006 0))))
     | UnknownVendor \<Rightarrow> Some [])"

section \<open>What it prints\<close>

text \<open>The loop over the caches of an Intel processor ends when the processor says that there are no more, as it is
  documented to.\<close>

lemma intel_loop_ends:
  assumes "\<And>i. i < n \<Longrightarrow> cacheType (intelCacheParams (cpu 4 (word_of_nat (k + i)))) \<noteq> 0"
    and "cacheType (intelCacheParams (cpu 4 (word_of_nat (k + n)))) = 0"
  shows "intel_loop cpu k out = Some (out @ concat (map (\<lambda>i. cache_lines i (intelCacheParams (cpu 4 (word_of_nat i)))) [k..<k + n]))"
  using assms
proof (induction n arbitrary: k out)
  case 0
  then show ?case by (subst intel_loop.simps) (simp add: CPUID_def)
next
  case (Suc n)
  let ?f = "\<lambda>i. cache_lines i (intelCacheParams (cpu 4 (word_of_nat i)))"
  have "intel_loop cpu k out = intel_loop cpu (k + 1) (out @ ?f k)"
    using Suc.prems(1) [of 0] by (subst intel_loop.simps) (simp add: CPUID_def)
  also have "\<dots> = Some ((out @ ?f k) @ concat (map ?f [k + 1..<k + 1 + n]))"
    using Suc.prems(1) [of "Suc i" for i] Suc.prems(2) by (intro Suc.IH) auto
  moreover have "[k..<k + Suc n] = k # [k + 1..<k + 1 + n]" by (simp add: upt_conv_Cons del: upt_Suc)
  ultimately show ?case by (simp del: upt_Suc)
qed

text \<open>The loop is never reached: no processor is taken for one of Intel. So the program ends whatever the processor
  answers.\<close>

lemma Vendor_cases: "Vendor cpu = AMD \<or> Vendor cpu = UnknownVendor"
  by (simp add: Vendor_def Let_def)

lemma length_reg_chars [simp]: "length (reg_chars w) = 4"
  by (simp add: reg_chars_def)

lemma cpuid_main_returns: "cpuid_main cpu =
    Some (if vendor_id (basicInfo (cpu 0 0)) = ''AuthcAMDenti'' then amd_lines (amdCacheParams (cpu 0x80000006 0)) else [])"
  by (simp add: cpuid_main_def Vendor_def Let_def CPUID_def strncmp_eq_def basicInfo_def)

text \<open>The answer that a processor of Intel gives.\<close>

lemma Intel_unknown:
  "Vendor (\<lambda>leaf op2. \<lparr>eax = 22, ebx = 0x756e6547, ecx = 0x6c65746e, edx = 0x49656e69\<rparr>) = UnknownVendor"
  "vendor_id (basicInfo \<lparr>eax = 22, ebx = 0x756e6547, ecx = 0x6c65746e, edx = 0x49656e69\<rparr>) = ''GenuntelineI''"
  by code_simp+

section \<open>The layouts and the table\<close>

lemma bitfield_bound: "bitfield i n w < 2 ^ n"
  using take_bit_nat_less_exp [of n "unat (drop_bit i w)"] by (simp add: bitfield_def unsigned_take_bit_eq)

lemma bitfield_bit: "bit (bitfield i n w) k \<longleftrightarrow> k < n \<and> bit w (i + k)"
  by (auto simp: bitfield_def bit_simps)

text \<open>The fields of leaf 4 are read from disjoint bits: two answers with the same fields differ at most in the bits that are
  unused.\<close>

lemma bitfields_determine:
  assumes "\<And>k. k < 32 \<Longrightarrow> \<exists>(i, n) \<in> set fs. i \<le> k \<and> k < i + n" and "\<forall>(i, n) \<in> set fs. bitfield i n v = bitfield i n w"
  shows "v = w"
proof (rule bit_word_eqI)
  fix k assume "k < LENGTH(32)"
  then obtain i n where f: "(i, n) \<in> set fs" "i \<le> k" "k < i + n" using assms(1) [of k] by auto
  with assms(2) have "bitfield i n v = bitfield i n w" by auto
  then have "bit (bitfield i n v) (k - i) = bit (bitfield i n w) (k - i)" by simp
  moreover have "k - i < n" using f by linarith
  ultimately show "bit v k = bit w k" using f by (simp add: bitfield_bit)
qed

text \<open>A cache has a whole number of sets, and that is a power of two, but for four rows of the table: three have 2096 where
  2048 is meant, and one has the wrong associativity.\<close>

definition cache_sets :: "CacheInfo_t \<Rightarrow> int" where
  "cache_sets c = ci_szKB c * 1024 div (ci_assoc c * ci_lineSzB c)"

definition sound_cache :: "CacheInfo_t \<Rightarrow> bool" where
  "sound_cache c \<longleftrightarrow> ci_level c = 0 \<or>
     (ci_szKB c * 1024 mod (ci_assoc c * ci_lineSzB c) = 0 \<and> cache_sets c AND (cache_sets c - 1) = 0)"

lemma CacheInfoTbl_sound: "filter (\<lambda>d. \<not> sound_cache (CacheInfoTbl d)) (map fst cache_rows) = [0x0e, 0x45, 0x7d, 0x85]"
  by code_simp

end
