(* ===== verification/Basis_Services.thy ===== *)
theory Basis_Services
  imports Basis_Strings Deque_Roots VProc_State
begin

text \<open>
More of the services for compiled code (misc/basis.c, misc/main.c): messages and the end of the program, printing,
files, floating-point numbers as strings, and logarithms; values written for debugging (gc/alloc.c). Text formatted by the C library for floating-point numbers is
a parameter. Lemmas: the floor of the binary logarithm computed from the exponent of a double is the one the deques
compute by bits; the ceiling likewise; strings written to a file are appended; what the conversion to a string of
sixty-four characters loses.
\<close>

section \<open>Messages\<close>

text \<open>What the program has written: standard output, standard error, and the debug file. Every message is written with the
  print lock held, so messages are never mixed.\<close>

record Console =
  con_out :: string
  con_err :: string
  con_debug :: string

definition Say :: "string \<Rightarrow> Console \<Rightarrow> Console" where
  "Say msg c = c\<lparr>con_out := con_out c @ msg\<rparr>"

definition SayDebug :: "string \<Rightarrow> Console \<Rightarrow> Console" where
  "SayDebug msg c = c\<lparr>con_debug := con_debug c @ msg\<rparr>"

definition pad2 :: "int \<Rightarrow> string" where
  "pad2 n = (let s = show_int n in replicate (2 - length s) CHR '' '' @ s)"

definition vp_tag :: "int \<Rightarrow> string" where "vp_tag i = ''['' @ pad2 i @ '']''"

text \<open>Errors and warnings name the vproc when the thread has one; \<open>Die\<close> ends the process.\<close>

definition err_prefix :: "string \<Rightarrow> int option \<Rightarrow> string" where
  "err_prefix what vp = (case vp of None \<Rightarrow> what | Some i \<Rightarrow> vp_tag i @ '' '' @ what) @ '' -- ''"

definition Error :: "int option \<Rightarrow> string \<Rightarrow> Console \<Rightarrow> Console" where
  "Error vp msg c = c\<lparr>con_err := con_err c @ err_prefix ''Error'' vp @ msg\<rparr>"

definition Warning :: "int option \<Rightarrow> string \<Rightarrow> Console \<Rightarrow> Console" where
  "Warning vp msg c = c\<lparr>con_err := con_err c @ err_prefix ''Warning'' vp @ msg\<rparr>"

datatype Exit = Exited int Console

definition Die :: "int option \<Rightarrow> string \<Rightarrow> Console \<Rightarrow> Exit" where
  "Die vp msg c = Exited 1 (c\<lparr>con_err := con_err c @ err_prefix ''Fatal error'' vp @ msg @ [CHR 0x0A]\<rparr>)"

section \<open>Printing for compiled code\<close>

text \<open>\<open>dbg\<close>: a build with assertions; \<open>i\<close> is the number of the vproc.\<close>

definition M_Print :: "bool \<Rightarrow> int \<Rightarrow> string \<Rightarrow> Console \<Rightarrow> Console" where
  "M_Print dbg i s c = Say (if dbg then vp_tag i @ '' '' @ s else s) c"

definition M_PrintOrd :: "bool \<Rightarrow> int \<Rightarrow> 32 word \<Rightarrow> Console \<Rightarrow> Console" where
  "M_PrintOrd dbg i n c =
    (let ch = char_of (uint n)
     in if dbg then Say (vp_tag i @ '' '' @ [ch]) c else c\<lparr>con_out := con_out c @ [ch]\<rparr>)"

text \<open>A format of the program with its arguments: the prefix and the format go to a buffer of 100 bytes (\<open>None\<close>: they do not
  fit), which is then the format of the call.\<close>

definition long_format :: "int \<Rightarrow> string \<Rightarrow> string option" where
  "long_format i s = (let str = ''['' @ show_int i @ '']: '' @ s in if length str + 1 > 100 then None else Some str)"

definition M_Print_Long :: "int \<Rightarrow> string \<Rightarrow> 64 word \<Rightarrow> (string \<times> 64 word list) option" where
  "M_Print_Long i s addr = map_option (\<lambda>f. (f, [addr])) (long_format i s)"

definition M_Print_Long_Long :: "int \<Rightarrow> string \<Rightarrow> 64 word \<Rightarrow> 64 word \<Rightarrow> (string \<times> 64 word list) option" where
  "M_Print_Long_Long i s addr v = map_option (\<lambda>f. (f, [addr, v])) (long_format i s)"

definition M_Print_Long_Int :: "int \<Rightarrow> string \<Rightarrow> 64 word \<Rightarrow> 32 word \<Rightarrow> (string \<times> 64 word list) option" where
  "M_Print_Long_Int i s addr v = map_option (\<lambda>f. (f, [addr, ucast v])) (long_format i s)"

definition M_Print_Long_Byte :: "int \<Rightarrow> string \<Rightarrow> 64 word \<Rightarrow> 8 word \<Rightarrow> (string \<times> 64 word list) option" where
  "M_Print_Long_Byte i s addr v = map_option (\<lambda>f. (f, [addr, ucast v])) (long_format i s)"

definition M_Print_Long_Short :: "int \<Rightarrow> string \<Rightarrow> 64 word \<Rightarrow> 16 word \<Rightarrow> (string \<times> 64 word list) option" where
  "M_Print_Long_Short i s addr v = map_option (\<lambda>f. (f, [addr, ucast v])) (long_format i s)"

definition M_PrintLong :: "64 word \<Rightarrow> Console \<Rightarrow> Console" where
  "M_PrintLong n = Say (show_int (sint n))"

definition M_PrintInt :: "32 word \<Rightarrow> Console \<Rightarrow> Console" where
  "M_PrintInt n = Say (show_int (sint n) @ [CHR 0x09])"

definition M_PrintDebug :: "bool \<Rightarrow> bool \<Rightarrow> int \<Rightarrow> string \<Rightarrow> Console \<Rightarrow> Console" where
  "M_PrintDebug dbg DebugFlg i s c = (if dbg \<and> DebugFlg then SayDebug (vp_tag i @ '' '' @ s) c else c)"

definition at_place :: "string \<Rightarrow> string \<Rightarrow> int \<Rightarrow> string" where
  "at_place msg file line = ''\"'' @ msg @ ''\" at '' @ file @ '':'' @ show_int line @ [CHR 0x0A]"

definition M_PrintDebugMsg :: "bool \<Rightarrow> bool \<Rightarrow> int \<Rightarrow> Value_t \<Rightarrow> string \<Rightarrow> string \<Rightarrow> int \<Rightarrow> Console \<Rightarrow> Console" where
  "M_PrintDebugMsg dbg DebugFlg i alwaysPrint msg file line c =
    (if dbg \<and> (DebugFlg \<or> alwaysPrint = M_TRUE) then SayDebug (vp_tag i @ '' '' @ at_place msg file line) c else c)"

definition M_PrintTestingMsg :: "int \<Rightarrow> string \<Rightarrow> string \<Rightarrow> int \<Rightarrow> Console \<Rightarrow> Console" where
  "M_PrintTestingMsg i msg file line = Say (vp_tag i @ '' Test failed: '' @ at_place msg file line)"

definition DebugThrow :: "bool \<Rightarrow> int \<Rightarrow> string \<Rightarrow> Console \<Rightarrow> Console" where
  "DebugThrow dbg i loc c = (if dbg then SayDebug (vp_tag i @ '' '' @ loc @ [CHR 0x0A]) c else c)"

definition M_Die :: "int option \<Rightarrow> string \<Rightarrow> Console \<Rightarrow> Exit" where
  "M_Die vp message c = Die vp (message @ [CHR 0x0A]) c"

text \<open>The texts of a failed assertion may be missing: the compiler passes \<^verbatim>\<open>nil\<close> for them.\<close>

definition M_AssertFail :: "int option \<Rightarrow> string option \<Rightarrow> string option \<Rightarrow> int \<Rightarrow> Console \<Rightarrow> Exit" where
  "M_AssertFail vp check file line c =
    (case (check, file) of
       (Some ck, Some f) \<Rightarrow> Die vp (''Assert failed at '' @ f @ '':'' @ show_int line @ '' ('' @ ck @ '').'' @ [CHR 0x0A]) c
     | _ \<Rightarrow> Die vp (''Assert failed with corrupted diagnostic information.'' @ [CHR 0x0A]) c)"

definition M_NewArray :: "Console \<Rightarrow> Value_t \<times> Console" where
  "M_NewArray c = (0, Say (''M_NewArray: fail'' @ [CHR 0x0A]) c)"

text \<open>\<^verbatim>\<open>scanf\<close> with a number and white space: the number (\<open>None\<close>: the variable is left as it was) and the input left.\<close>

definition M_ReadInt :: "InStrm \<Rightarrow> 32 word option \<times> InStrm" where
  "M_ReadInt st = (case strtol (unread st) 10 of (v, rest) \<Rightarrow>
     if length rest = length (unread st) then (None, st\<lparr>unread := dropWhile isspace (unread st)\<rparr>)
     else (Some (word_of_int v), st\<lparr>unread := dropWhile isspace rest\<rparr>))"

text \<open>The text of the option \<^verbatim>\<open>-h\<close>.\<close>

definition usage :: "string \<Rightarrow> string" where
  "usage prog = concat (map (\<lambda>l. l @ [CHR 0x0A])
    [''usage: '' @ prog @ '' [options]'',
     [],
     ''options:'',
     ''  -d             Enable debugging output'',
     ''  -q n           Default time quantum (in milliseconds)'',
     ''  -perf typ      Generate a performance log of the specified type'',
     ''  -gcstats typ   Generate garbage collection statics in specified type'',
     ''  -gcstatsfile f Write gcstats output to a non-default file name'',
     ''  -config file   Use an alternative runtime-system configuration file'',
     ''  -p n[,procs]   Use n vprocs, with optional processor layout'',
     ''  -dense         Allocate vprocs on the same package first'',
     ''  -log [f]       Write log events, optionally to file f'',
     ''  -nursery size  Set GC nursery size (debug build only)'',
     ''  -gcdebug       Enable GC debugging output (debug build only)'',
     ''  -heapcheck typ Turn on additional heap property checking'',
     ''  -h             Print this information'',
     ''  -?             Print this information'',
     [],
     ''typ:'',
     ''  summary        Textual summary of perf data, printed to STDOUT'',
     ''  csv            Comma-separated value performance log'',
     ''  sml            A Standard-ML representation of the performance data'',
     [],
     ''size:'',
     ''  nK             n KB'',
     ''  nM             n MB'',
     ''  nG             n GB'',
     [],
     ''file:  Path to a file of \"name = value\" pairs:'',
     ''  GLOBAL_TOSPACE_SCALE_NUMERATOR=n'',
     ''  GLOBAL_TOSPACE_SCALE_DENOMINATOR=n'',
     ''  MAX_NURSERY_SZB=size'',
     ''  MAJOR_GC_THRESHOLD=size'',
     ''  BASE_GLOBAL_HEAP_SZB=size'',
     ''  PER_VPROC_HEAP_SZB=size'',
     [],
     ''procs:'',
     ''  Comma-separated list of numbers corresponding to procesors for'',
     ''  each vproc to run on. Numbers can be -1 for unassigned or'',
     ''  between 0 and (nProcs-1). SMT threads are the fastest axis, then'',
     ''  cores, then packages.'',
     ''  Example: -p 4,0,3,5,-1'',
     ''  Runs the program with four vprocs. Assuming a dual dual-core machine'',
     ''  with SMT enabled, the vprocs are assigned as followed:'',
     ''  vproc 0: thread 0, core 0, package 0'',
     ''  vproc 1: thread 1, core 1, package 0'',
     ''  vproc 2: thread 1, core 0, package 1'',
     ''  vproc 3: unpinned''])"

text \<open>A signal without a handler of its own ends the program.\<close>

definition SigHandler_main :: "int option \<Rightarrow> int \<Rightarrow> Console \<Rightarrow> Exit" where
  "SigHandler_main vp sig c = Exited 0 (Error vp (''Received signal '' @ show_int sig @ [CHR 0x0A]) c)"

text \<open>A value: the fields of an object, or the number. \<open>print_p\<close> is the text of an address.\<close>

definition M_PrintPtr :: "(Addr_t \<Rightarrow> string) \<Rightarrow> int \<Rightarrow> string \<Rightarrow> Addr_t \<Rightarrow> Console \<Rightarrow> Console" where
  "M_PrintPtr print_p i name p = Say (vp_tag i @ '' &'' @ name @ ''='' @ print_p p @ [CHR 0x0A])"

definition SayValue :: "(Addr_t \<Rightarrow> string) \<Rightarrow> mem \<Rightarrow> Value_t \<Rightarrow> Console \<Rightarrow> Console" where
  "SayValue print_p m v c =
    (if ValueIsBoxed v \<and> v \<noteq> 0 then
       let n = nat (GetLength (m (v - WORD_SZB)));
           items = map (\<lambda>i. (if i = 0 then [] else '', '') @ print_p (m (v + word_of_nat (8 * i)))) [0..<n]
       in Say '']'' (fold Say items (Say ''['' c))
     else Say (show_int (sint (ValueToWord v))) c)"

section \<open>Files\<close>

text \<open>\<open>opn\<close> is the answer of \<^verbatim>\<open>fopen\<close> for a name and a mode. A closed stream is \<open>None\<close>.\<close>

definition M_TextIOOpenIn :: "(string \<Rightarrow> string \<Rightarrow> 'f option) \<Rightarrow> mem \<Rightarrow> Value_t \<Rightarrow> 'f option option" where
  "M_TextIOOpenIn opn m filename = map_option (\<lambda>s. opn s ''r'') (c_str m (seq_data m filename) 0)"

definition M_TextIOOpenOut :: "(string \<Rightarrow> string \<Rightarrow> 'f option) \<Rightarrow> mem \<Rightarrow> Value_t \<Rightarrow> 'f option option" where
  "M_TextIOOpenOut opn m filename = map_option (\<lambda>s. opn s ''w'') (c_str m (seq_data m filename) 0)"

definition M_TextIOCloseIn :: "InStrm option \<Rightarrow> InStrm option" where "M_TextIOCloseIn f = None"
definition M_TextIOCloseOut :: "string option \<Rightarrow> string option" where "M_TextIOCloseOut f = None"

text \<open>Output, to the end of what the stream has got so far; both write the string up to its first NUL and nothing else.\<close>

definition M_TextIOOutput :: "mem \<Rightarrow> string \<Rightarrow> Value_t \<Rightarrow> string option" where
  "M_TextIOOutput m out ws = map_option (\<lambda>s. out @ s) (c_str m (seq_data m ws) 0)"

definition M_TextIOOutputLine :: "mem \<Rightarrow> Value_t \<Rightarrow> string \<Rightarrow> string option" where
  "M_TextIOOutputLine m ws out = map_option (\<lambda>s. out @ s) (c_str m (seq_data m ws) 0)"

section \<open>Floating-point numbers as strings\<close>

text \<open>The conversions of the C library between numbers and text are parameters; the buffer has 64 bytes, and
  \<^verbatim>\<open>snprintf\<close> cuts the text to fit. Reading replaces a leading tilde in the string itself.\<close>

definition M_FloatToString :: "(32 word \<Rightarrow> string) \<Rightarrow> VProc \<Rightarrow> Heap \<Rightarrow> 32 word \<Rightarrow> alloc_res option" where
  "M_FloatToString print_f vp h f = AllocString vp h (take 63 (print_f f))"

definition M_DoubleToString :: "(64 word \<Rightarrow> string) \<Rightarrow> VProc \<Rightarrow> Heap \<Rightarrow> 64 word \<Rightarrow> alloc_res option" where
  "M_DoubleToString print_f10 vp h d = AllocString vp h (take 63 (print_f10 d))"

definition untilde :: "mem \<Rightarrow> Addr_t \<Rightarrow> mem" where
  "untilde m p = (if byte_at m p 0 = CHR ''~'' then store_byte m p 0 (of_char CHR ''-'') else m)"

definition some_raw :: "VProc \<Rightarrow> Heap \<Rightarrow> Word_t \<Rightarrow> alloc_res option" where
  "some_raw vp h w = do { (v, vp1, h1) \<leftarrow> AllocNonUniform vp h [(RAW_FIELD, w)]; Some (Some_cell vp1 h1 v) }"

definition M_FloatFromString :: "(string \<Rightarrow> 32 word option) \<Rightarrow> VProc \<Rightarrow> Heap \<Rightarrow> Value_t \<Rightarrow> alloc_res option" where
  "M_FloatFromString scan_f vp h str =
    (if sint (seq_len (mem h) str) < 1 then Some (M_NONE, vp, h)
     else let p = seq_data (mem h) str; h1 = set_mem h (untilde (mem h) p)
       in do { s \<leftarrow> c_str (mem h1) p 0;
               case scan_f s of None \<Rightarrow> Some (M_NONE, vp, h1) | Some f \<Rightarrow> some_raw vp h1 (ucast f) })"

definition M_DoubleFromString :: "(string \<Rightarrow> 64 word option) \<Rightarrow> VProc \<Rightarrow> Heap \<Rightarrow> Value_t \<Rightarrow> alloc_res option" where
  "M_DoubleFromString scan_lf vp h str =
    (if sint (seq_len (mem h) str) < 1 then Some (M_NONE, vp, h)
     else let p = seq_data (mem h) str; h1 = set_mem h (untilde (mem h) p)
       in do { s \<leftarrow> c_str (mem h1) p 0;
               case scan_lf s of None \<Rightarrow> Some (M_NONE, vp, h1) | Some d \<Rightarrow> some_raw vp h1 d })"

section \<open>Logarithms by floating point\<close>

text \<open>Doubles that stand for integers: the value of a positive one whose exponent is at least 52, the encoding of an integer
  below \<open>2 ^ 53\<close>. The difference of two doubles that is such an integer is exact.\<close>

fun lg :: "nat \<Rightarrow> nat" where
  "lg n = (if n < 2 then 0 else Suc (lg (n div 2)))"

declare lg.simps [simp del]

definition dbl_int :: "64 word \<Rightarrow> nat" where
  "dbl_int w = (2 ^ 52 + unat (take_bit 52 w)) * 2 ^ (unat (drop_bit 52 w) - 1075)"

definition int_dbl :: "nat \<Rightarrow> 64 word" where
  "int_dbl n = (if n = 0 then 0
     else push_bit 52 (word_of_nat (1023 + lg n)) OR push_bit (52 - lg n) (word_of_nat (n - 2 ^ lg n)))"

definition dbl_diff :: "64 word \<Rightarrow> 64 word \<Rightarrow> 64 word" where
  "dbl_diff a b = int_dbl (dbl_int a - dbl_int b)"

text \<open>The union: the high half of the double is \<open>u[1]\<close>, the low half \<open>u[0]\<close>.\<close>

definition M_FloorLg :: "32 word \<Rightarrow> 32 word" where
  "M_FloorLg v =
    (let t = push_bit 32 (0x43300000 :: 64 word) OR ucast v;
         t' = dbl_diff t 0x4330000000000000
     in drop_bit 20 (ucast (drop_bit 32 t') :: 32 word) - 0x3FF)"

definition M_CeilingLg :: "32 word \<Rightarrow> 32 word" where
  "M_CeilingLg v = (let l = M_FloorLg v in l + (if 0 <s v - push_bit (unat l) 1 then 1 else 0))"

lemma lg_bounds: "0 < n \<Longrightarrow> 2 ^ lg n \<le> n \<and> n < 2 ^ (lg n + 1)"
proof (induction n rule: lg.induct)
  case (1 n)
  show ?case
  proof (cases "n < 2")
    case True then show ?thesis using 1 by (simp add: lg.simps)
  next
    case False
    then have "2 ^ lg (n div 2) \<le> n div 2 \<and> n div 2 < 2 ^ (lg (n div 2) + 1)" using 1 by simp
    then show ?thesis using False by (subst (1 2) lg.simps) auto
  qed
qed

lemma lg_unique: "2 ^ k \<le> n \<Longrightarrow> n < 2 ^ (k + 1) \<Longrightarrow> lg n = k"
  using lg_bounds [of n] by (metis (no_types) le_antisym less_Suc_eq_le Suc_eq_plus1 le_less_trans not_less
      one_less_numeral_iff power_strict_increasing_iff semiring_norm(76) zero_less_numeral zero_less_power gr0I)

lemma dbl_bias:
  "dbl_int (push_bit 32 (0x43300000 :: 64 word) OR ucast v) = 2 ^ 52 + unat v" for v :: "32 word"
proof -
  let ?t = "push_bit 32 (0x43300000 :: 64 word) OR ucast v"
  have v: "n < 32" if "bit v n" for n using bit_imp_le_length [OF that] by simp
  have d: "drop_bit 52 ?t = 0x433"
    by (rule bit_word_eqI) (auto simp: bit_simps dest: v)
  have k: "take_bit 52 ?t = ucast v"
    by (rule bit_word_eqI) (auto simp: bit_simps dest: v)
  have "unat v < 2 ^ 32" using unsigned_less [of v] by simp
  then have "unat v < 2 ^ 64" by simp
  then have "unat (ucast v :: 64 word) = unat v" by (simp add: unsigned_ucast_eq take_bit_nat_eq_self)
  then show ?thesis unfolding dbl_int_def d k by simp
qed

lemma dbl_bias_0: "dbl_int 0x4330000000000000 = 2 ^ 52"
  by (simp add: dbl_int_def)

lemma exponent_field:
  assumes "m < 2 ^ e" and "e < 32" and "x < 2 ^ 12"
  shows "drop_bit 20 (ucast (drop_bit 32 (push_bit 52 (word_of_nat x) OR push_bit (52 - e) (word_of_nat m) :: 64 word)) :: 32 word)
    = word_of_nat x"
proof (rule bit_word_eqI)
  fix k assume k: "k < LENGTH(32)"
  have "m < 2 ^ (e + k)" using assms(1) by (meson le_add1 less_le_trans one_le_numeral power_increasing)
  then have "\<not> bit m (k + e)" by (simp add: bit_iff_odd add.commute)
  then have m: "\<not> bit (word_of_nat m :: 64 word) (k + e)" by (simp add: bit_of_nat_iff)
  have h: "\<not> bit x k" if "\<not> k < 12"
  proof -
    have "(2 :: nat) ^ 12 \<le> 2 ^ k" using that by (intro power_increasing) auto
    then show ?thesis using assms(3) by (simp add: bit_iff_odd)
  qed
  have "52 + k - (52 - e) = k + e" using assms(2) by simp
  then show "bit (drop_bit 20 (ucast (drop_bit 32 (push_bit 52 (word_of_nat x) OR push_bit (52 - e) (word_of_nat m) :: 64 word)) :: 32 word)) k
      = bit (word_of_nat x :: 32 word) k"
    using m h k by (cases "k < 12") (auto simp: bit_simps)
qed

lemma M_FloorLg_lg:
  assumes "v \<noteq> 0"
  shows "M_FloorLg v = word_of_nat (lg (unat v))"
proof -
  let ?n = "unat v"
  have n: "0 < ?n" "?n < 2 ^ 32" using assms unsigned_less [of v] by (simp_all add: unat_gt_0)
  have b: "2 ^ lg ?n \<le> ?n" "?n < 2 ^ (lg ?n + 1)" using lg_bounds [OF n(1)] by auto
  have e: "lg ?n < 32" using b(1) n(2) by (meson le_less_trans one_less_numeral_iff power_less_imp_less_exp semiring_norm(76))
  have "?n - 2 ^ lg ?n < 2 ^ lg ?n" using b by simp
  from exponent_field [OF this e, of "1023 + lg ?n"] e show ?thesis
    unfolding M_FloorLg_def Let_def dbl_diff_def dbl_bias dbl_bias_0 int_dbl_def using n(1) by simp
qed

lemma FloorLg_lg:
  assumes "v \<noteq> 0"
  shows "FloorLg v = word_of_nat (lg (unat v))"
proof -
  note b = FloorLg_bounds [OF assms]
  then have "lg (unat v) = unat (FloorLg v)" by (intro lg_unique) auto
  then show ?thesis by simp
qed

text \<open>C31: The logarithm computed from the bits of a double is, for every positive number of 32 bits, the one
  that the work-stealing deques compute by shifting.\<close>

theorem FloorLg_agree:
  assumes "v \<noteq> 0"
  shows "M_FloorLg v = FloorLg v \<and> 2 ^ unat (M_FloorLg v) \<le> unat v \<and> unat v < 2 ^ (unat (M_FloorLg v) + 1)"
  using FloorLg_lg [OF assms] M_FloorLg_lg [OF assms] FloorLg_bounds [OF assms] by simp

theorem FloorLg_agree_witness: "M_FloorLg 1000 = FloorLg 1000 \<and> unat (M_FloorLg 1000) = 9"
  using FloorLg_agree [of 1000] by (simp add: M_FloorLg_lg lg.simps)

text \<open>For zero the exponent field is zero, and the result is far from that of the search.\<close>

lemma M_FloorLg_0: "M_FloorLg 0 = - 1023" "FloorLg 0 = - 1"
  unfolding M_FloorLg_def Let_def dbl_diff_def dbl_bias dbl_bias_0 int_dbl_def by (simp_all add: FloorLg_def)

text \<open>For positive arguments the ceiling is that of the work-stealing deques too.\<close>

lemma M_CeilingLg_deque:
  assumes "0 < sint v"
  shows "M_CeilingLg v = CeilingLg v"
proof -
  have nz: "v \<noteq> 0" using assms by auto
  have f: "M_FloorLg v = FloorLg v" using FloorLg_lg [OF nz] M_FloorLg_lg [OF nz] by simp
  let ?p = "push_bit (unat (FloorLg v)) 1 :: 32 word"
  note b = FloorLg_bounds [OF nz]
  have p: "unat ?p = 2 ^ unat (FloorLg v)"
  proof -
    have "(2 :: nat) ^ unat (FloorLg v) < 2 ^ 32" using b by (intro power_strict_increasing) auto
    then show ?thesis using unat_of_nat [where 'a = 32, of "2 ^ unat (FloorLg v)"] by (simp add: push_bit_eq_mult)
  qed
  have "\<not> bit (uint v) 31"
    using assms signed_take_bit_negative_iff [of 31 "uint v"] by (simp add: sint_uint del: signed_take_bit_negative_iff)
  then have "even (uint v div 2 ^ 31)" by (simp only: bit_iff_odd not_not)
  moreover have "uint v div 2 ^ 31 < 2" "0 \<le> uint v div 2 ^ 31"
    using uint_lt2p [of v] by (auto simp: pos_imp_zdiv_nonneg_iff)
  moreover have "q = 0" if "even q" "q < 2" "0 \<le> q" for q :: int using that by presburger
  ultimately have "uint v div 2 ^ 31 = 0" by blast
  then have "uint v < 2 ^ 31" by (metis add_0 div_mult_mod_eq mult_zero_left pos_mod_bound zero_less_numeral zero_less_power)
  then have "unat v < 2 ^ 31" by (metis of_nat_less_iff of_nat_numeral of_nat_power uint_nat)
  then have u: "unat (v - ?p) = unat v - unat ?p" "unat (v - ?p) < 2 ^ 31"
    using b p by (auto simp: unat_sub word_le_nat_alt)
  have "sint w = int (unat w)" if "unat w < 2 ^ 31" for w :: "32 word"
  proof -
    have "uint w < 2 ^ 31" using that by (metis of_nat_less_iff of_nat_numeral of_nat_power uint_nat)
    moreover have "- (2 ^ 31) \<le> uint w" by (rule order_trans [OF _ uint_ge_0]) simp
    ultimately have "signed_take_bit 31 (uint w) = uint w" by (intro signed_take_bit_int_eq_self)
    then show ?thesis by (simp add: sint_uint)
  qed
  then have "sint (v - ?p) = int (unat (v - ?p))" using u(2) .
  then have z: "0 <s v - ?p \<longleftrightarrow> 0 < v - ?p" by (simp add: word_sless_alt word_less_def)
  show ?thesis unfolding M_CeilingLg_def CeilingLg_def Let_def f z ..
qed

section \<open>Writing strings and numbers\<close>

text \<open>Output appends the string, up to its first NUL.\<close>

lemma M_TextIOOutput_appends:
  assumes "string_at m b ws s" and "CHR 0x00 \<notin> set s"
  shows "M_TextIOOutput m out ws = Some (out @ s)" and "M_TextIOOutputLine m ws out = Some (out @ s)"
  using c_str_at [OF assms, of 0] by (simp_all add: M_TextIOOutput_def M_TextIOOutputLine_def)

lemma take_show_nat:
  "0 < k \<Longrightarrow> k \<le> length (show_nat n) \<Longrightarrow> take k (show_nat n) = show_nat (n div 10 ^ (length (show_nat n) - k))"
proof (induction n rule: show_nat.induct)
  case (1 n)
  show ?case
  proof (cases "n < 10 \<or> k = length (show_nat n)")
    case True
    then show ?thesis using 1(2,3) by (auto simp: show_nat.simps [of n])
  next
    case False
    have l: "show_nat n = show_nat (n div 10) @ [digit_char (n mod 10)]" using False by (subst show_nat.simps) simp
    then have k: "k \<le> length (show_nat (n div 10))" using 1(3) False by simp
    then have "take k (show_nat n) = show_nat (n div 10 div 10 ^ (length (show_nat (n div 10)) - k))"
      using 1 False l by simp
    also have "n div 10 div 10 ^ (length (show_nat (n div 10)) - k) = n div 10 ^ (length (show_nat n) - k)"
      using k l by (simp add: div_mult2_eq Suc_diff_le)
    finally show ?thesis .
  qed
qed

text \<open>A number with more than 63 digits before the point loses digits, and with them its magnitude: the string is
  that of a much smaller number.\<close>

lemma M_DoubleToString_cuts:
  assumes "print_f10 d = show_nat n @ ''.0000000000''" and "63 \<le> length (show_nat n)"
  shows "M_DoubleToString print_f10 vp h d = AllocString vp h (show_nat (n div 10 ^ (length (show_nat n) - 63)))"
  using assms take_show_nat [of 63 n] by (simp add: M_DoubleToString_def)

end
