(* ===== verification/Hw_Affinity.thy ===== *)
theory Hw_Affinity
  imports Hw_Topology Basis_Services "HOL-Library.Signed_Division"
begin

text \<open>
Topology on systems other than plain Linux, and threads bound to a location (cpu/topology.c). What the system answers is
a parameter. Lemmas: the locations always fit in the array that is allocated for them; a thread that cannot be bound runs
all the same.
\<close>

section \<open>Counting processors on other systems\<close>

text \<open>What the system knows of a name: a number, nothing, or another error.\<close>

datatype Sysctl = Known int | UnknownName | SysctlError

text \<open>The divisions of C; they trap when there are no nodes or no cores.\<close>

definition mk_topology :: "int \<Rightarrow> int \<Rightarrow> int \<Rightarrow> topology option" where
  "mk_topology nodes cores threads =
    (if nodes = 0 \<or> cores = 0 then None
     else Some \<lparr>NumHWNodes = nodes, NumHWCores = cores, NumHWThreads = threads, NumCoresPerNode = cores sdiv nodes,
            NumThdsPerCore = threads sdiv cores\<rparr>)"

text \<open>Darwin: a name that is not known stands for one node, and for one thread per core.\<close>

definition GetNumCPUs_darwin :: "(string \<Rightarrow> Sysctl) \<Rightarrow> topology option" where
  "GetNumCPUs_darwin sysctl = do {
     nodes \<leftarrow> (case sysctl ''hw.packages'' of Known n \<Rightarrow> Some n | UnknownName \<Rightarrow> Some 1 | SysctlError \<Rightarrow> None);
     cores \<leftarrow> (case sysctl ''hw.physicalcpu'' of Known n \<Rightarrow> Some n | _ \<Rightarrow> None);
     threads \<leftarrow> (case sysctl ''hw.logicalcpu'' of Known n \<Rightarrow> Some n | UnknownName \<Rightarrow> Some cores | SysctlError \<Rightarrow> None);
     mk_topology nodes cores threads }"

text \<open>Linux with the NUMA library, which says how many nodes there are; a core is a thread then.\<close>

definition GetNumCPUs_numa :: "int \<Rightarrow> string list option \<Rightarrow> topology option" where
  "GetNumCPUs_numa numa_max_node cpuinfo = (case cpuinfo of None \<Rightarrow> None
     | Some ls \<Rightarrow>
        (let n = maxProcId (fold (\<lambda>l st. cpuinfo_line st l) ls \<lparr>maxProcId = 0, maxNodeId = 0, maxCoreId = 0, nCores = 0\<rparr>) + 1;
             nodes = numa_max_node + 1
         in if nodes = 0 then None
            else Some \<lparr>NumHWNodes = nodes, NumHWCores = n, NumHWThreads = n, NumCoresPerNode = n sdiv nodes, NumThdsPerCore = 1\<rparr>))"

section \<open>Threads bound to a location\<close>

text \<open>What the system offers to bind a thread: nodes, single processors, or nothing; the predicates say whether binding to
  a node or processor succeeds.\<close>

datatype Affinity = LibNuma "int \<Rightarrow> bool" | SetAffinity "int \<Rightarrow> bool" | NoAffinity

record ('a, 'r) LocArg =
  loc_arg :: 'a
  loc_init :: "'a \<Rightarrow> Console \<Rightarrow> 'r \<times> Console"
  loc_loc :: Location_t

text \<open>A thread that cannot be bound says so, and runs all the same. It has no vproc yet.\<close>

definition bind_thread :: "Affinity \<Rightarrow> topology \<Rightarrow> Location_t \<Rightarrow> Console \<Rightarrow> Console" where
  "bind_thread aff t loc c = (case aff of
      LibNuma ok \<Rightarrow> if ok (LocationNode loc) then c
        else Warning None (''unable to set affinity to virtual processor '' @ show_int (LogicalId t loc) @ '', node ''
               @ show_int (LocationNode loc) @ [CHR 0x0A]) c
    | SetAffinity ok \<Rightarrow> if ok (LogicalId t loc) then c
        else Warning None (''unable to set affinity to processor '' @ show_int (LogicalId t loc) @ [CHR 0x0A]) c
    | NoAffinity \<Rightarrow> c)"

definition InitWithLocation :: "Affinity \<Rightarrow> topology \<Rightarrow> ('a, 'r) LocArg \<Rightarrow> Console \<Rightarrow> 'r \<times> Console" where
  "InitWithLocation aff t la c = loc_init la (loc_arg la) (bind_thread aff t (loc_loc la) c)"

text \<open>The function the new thread runs; \<open>None\<close>: the thread cannot be created.\<close>

definition SpawnAt :: "Affinity \<Rightarrow> topology \<Rightarrow> bool \<Rightarrow> ('a \<Rightarrow> Console \<Rightarrow> 'r \<times> Console) \<Rightarrow> 'a \<Rightarrow> Location_t \<Rightarrow> (Console \<Rightarrow> 'r \<times> Console) option" where
  "SpawnAt aff t created f arg loc =
    (if created then Some (InitWithLocation aff t \<lparr>loc_arg = arg, loc_init = f, loc_loc = loc\<rparr>) else None)"

section \<open>The locations fit\<close>

text \<open>The array of locations has a place for every hardware thread; whatever the system says, no more are written.\<close>

lemma length_Locations: "length (Locations t) = nat (NumHWNodes t) * (nat (NumCoresPerNode t) * nat (NumThdsPerCore t))"
  by (simp add: Locations_def length_concat comp_def sum_list_triv)

lemma sdiv_nonneg: "0 \<le> a \<Longrightarrow> 0 < b \<Longrightarrow> a sdiv b = a div b" for a b :: int
  by (simp add: signed_divide_int_def sgn_if)

lemma product_fits:
  assumes "0 < nodes" and "0 \<le> cores" and "0 \<le> threads" and "cores * thds \<le> threads" and "0 \<le> thds"
  shows "nat nodes * (nat (cores div nodes) * nat thds) \<le> nat threads"
proof -
  have "nodes * (cores div nodes) \<le> cores" using mult_div_mod_eq [of nodes cores] pos_mod_sign [of nodes cores] assms(1) by linarith
  then have "nodes * (cores div nodes) * thds \<le> cores * thds" using assms(5) by (rule mult_right_mono)
  moreover have "0 \<le> cores div nodes" using assms(1,2) by (simp add: pos_imp_zdiv_nonneg_iff)
  ultimately have "nat (nodes * ((cores div nodes) * thds)) \<le> nat threads" using assms(4) by (simp add: mult.assoc)
  then show ?thesis using \<open>0 \<le> cores div nodes\<close> assms(1,5) by (simp add: nat_mult_distrib)
qed

lemma mk_topology_fits:
  assumes "mk_topology nodes cores threads = Some t" and "0 < nodes" and "0 < cores" and "0 \<le> threads"
  shows "length (Locations t) \<le> nat (NumHWThreads t)"
proof -
  have t: "NumHWNodes t = nodes" "NumHWThreads t = threads" "NumCoresPerNode t = cores div nodes" "NumThdsPerCore t = threads div cores"
    using assms by (auto simp: mk_topology_def sdiv_nonneg split: if_splits)
  have "cores * (threads div cores) \<le> threads" using mult_div_mod_eq [of cores threads] pos_mod_sign [of cores threads] assms(3) by linarith
  moreover have "0 \<le> threads div cores" using assms(3,4) by (simp add: pos_imp_zdiv_nonneg_iff)
  ultimately show ?thesis unfolding length_Locations t using assms by (intro product_fits) auto
qed

lemma numa_fits:
  assumes "GetNumCPUs_numa mx (Some ls) = Some t" and "0 \<le> mx" and "0 \<le> NumHWThreads t"
  shows "length (Locations t) \<le> nat (NumHWThreads t)"
proof -
  define n where "n = maxProcId (fold (\<lambda>l st. cpuinfo_line st l) ls \<lparr>maxProcId = 0, maxNodeId = 0, maxCoreId = 0, nCores = 0\<rparr>) + 1"
  have "t = \<lparr>NumHWNodes = mx + 1, NumHWCores = n, NumHWThreads = n, NumCoresPerNode = n sdiv (mx + 1), NumThdsPerCore = 1\<rparr>"
    using assms(1,2) by (simp add: GetNumCPUs_numa_def Let_def flip: n_def)
  then show ?thesis using assms(2,3) product_fits [of "mx + 1" n n 1] by (simp add: length_Locations sdiv_nonneg)
qed

text \<open>A thread is never lost for want of a binding: binding only writes to the standard error.\<close>

lemma bind_thread_only_warns: "con_out (bind_thread aff t loc c) = con_out c" "\<exists>w. con_err (bind_thread aff t loc c) = con_err c @ w"
  by (auto simp: bind_thread_def Warning_def split: Affinity.splits)

end
