(* ===== verification/Perf_Timers.thy ===== *)
theory Perf_Timers
  imports Options_Parse Hw_Topology
begin

text \<open>
Timers (include/timer.h) and performance counters (include/perf.h, misc/perf.c, the fields of
include/linux/perf-counter.h that are used). The clock and the counters of the kernel are parameters: the reading at
every call. Lemmas: a timer records exactly the time between its starts and stops, without overflow; the counters split
the events of a vproc between the collector and the rest, and lose none; disabled counters are never touched.
\<close>

section \<open>Timers\<close>

record Timer_t =
  startTime :: "64 word"
  totalTime :: "64 word"

definition US_PER_NANOSECOND :: "64 word" where "US_PER_NANOSECOND = 1000"
definition MS_PER_SECOND :: "64 word" where "MS_PER_SECOND = 1000"
definition US_PER_SECOND :: "64 word" where "US_PER_SECOND = 1000 * MS_PER_SECOND"
definition NS_PER_SECOND :: "64 word" where "NS_PER_SECOND = 1000 * US_PER_SECOND"
definition TIMER_STOPPED :: "64 word" where "TIMER_STOPPED = 0"

lemmas timer_consts = US_PER_NANOSECOND_def MS_PER_SECOND_def US_PER_SECOND_def NS_PER_SECOND_def TIMER_STOPPED_def

text \<open>The clock, by what the system has: Mach's time, \<^verbatim>\<open>clock_gettime\<close> or \<^verbatim>\<open>gettimeofday\<close>.\<close>

datatype ClockReading = MachTime "64 word" | Timespec "64 word" "64 word" | Timeval "64 word" "64 word"

fun TIMER_Now :: "ClockReading \<Rightarrow> 64 word" where
  "TIMER_Now (MachTime t) = t"
| "TIMER_Now (Timespec sec nsec) = NS_PER_SECOND * sec + nsec"
| "TIMER_Now (Timeval sec usec) = NS_PER_SECOND * sec + US_PER_NANOSECOND * usec"

text \<open>\<open>dbg\<close>: is this a build with assertions? A build without them leaves the start time alone.\<close>

definition TIMER_Init :: "bool \<Rightarrow> Timer_t \<Rightarrow> Timer_t" where
  "TIMER_Init dbg t = (if dbg then t\<lparr>startTime := TIMER_STOPPED\<rparr> else t)\<lparr>totalTime := 0\<rparr>"

definition TIMER_Start :: "bool \<Rightarrow> ClockReading \<Rightarrow> Timer_t \<Rightarrow> Timer_t option" where
  "TIMER_Start dbg now t = (if dbg \<and> startTime t \<noteq> TIMER_STOPPED then None else Some (t\<lparr>startTime := TIMER_Now now\<rparr>))"

definition TIMER_Stop :: "bool \<Rightarrow> ClockReading \<Rightarrow> Timer_t \<Rightarrow> Timer_t option" where
  "TIMER_Stop dbg now t =
    (if dbg \<and> startTime t = TIMER_STOPPED then None
     else let t1 = t\<lparr>totalTime := totalTime t + (TIMER_Now now - startTime t)\<rparr>
       in Some (if dbg then t1\<lparr>startTime := TIMER_STOPPED\<rparr> else t1))"

section \<open>Performance counters\<close>

record PerfCntrs_t =
  nonGC :: "64 word"
  GC :: "64 word"
  last_count :: "64 word"
  inGC :: bool
  fd :: int
  enabled :: bool

definition initCounter :: "PerfCntrs_t \<Rightarrow> PerfCntrs_t" where
  "initCounter p = p\<lparr>nonGC := 0, GC := 0, last_count := 0, inGC := False, fd := - 1\<rparr>"

text \<open>\<open>count\<close> is what the read leaves in the local variable: the counter of the kernel, or whatever was there when the
  read fails, for its result is ignored.\<close>

definition PERF_StartGC :: "bool \<Rightarrow> 64 word \<Rightarrow> PerfCntrs_t \<Rightarrow> PerfCntrs_t option" where
  "PERF_StartGC dbg count p =
    (if \<not> enabled p then Some p
     else if dbg \<and> inGC p then None
     else Some (p\<lparr>nonGC := nonGC p + (count - last_count p), last_count := count, inGC := True\<rparr>))"

definition PERF_StopGC :: "bool \<Rightarrow> 64 word \<Rightarrow> PerfCntrs_t \<Rightarrow> PerfCntrs_t option" where
  "PERF_StopGC dbg count p =
    (if \<not> enabled p then Some p
     else if dbg \<and> \<not> inGC p then None
     else Some (p\<lparr>GC := GC p + (count - last_count p), last_count := count, inGC := False\<rparr>))"

definition stopCounter :: "bool \<Rightarrow> 64 word \<Rightarrow> PerfCntrs_t \<Rightarrow> PerfCntrs_t option" where
  "stopCounter dbg count p =
    (if \<not> enabled p then Some p
     else map_option (\<lambda>p'. p'\<lparr>fd := - 1\<rparr>) (if inGC p then PERF_StopGC dbg count p else PERF_StartGC dbg count p))"

text \<open>The attributes of a counter.\<close>

record perf_counter_attr =
  attr_type :: "32 word"
  attr_size :: "32 word"
  attr_config :: "64 word"
  sample_period :: "64 word"
  sample_type :: "64 word"
  read_format :: "64 word"
  attr_disabled :: bool
  attr_inherit :: bool
  attr_pinned :: bool
  attr_exclusive :: bool
  attr_exclude_user :: bool
  attr_exclude_kernel :: bool
  attr_exclude_hv :: bool
  attr_exclude_idle :: bool
  attr_mmap :: bool
  attr_comm :: bool
  attr_freq :: bool
  attr_inherit_stat :: bool
  attr_enable_on_exec :: bool
  attr_task :: bool
  wakeup_events :: "32 word"

definition PERF_TYPE_RAW :: "32 word" where "PERF_TYPE_RAW = 4"
definition PERF_SAMPLE_IP :: "64 word" where "PERF_SAMPLE_IP = push_bit 0 1"
definition PERF_SAMPLE_TID :: "64 word" where "PERF_SAMPLE_TID = push_bit 1 1"

text \<open>Its size: two words of 32 bits, four of 64, one that holds the flags, two words of 32 bits and one of 64.\<close>

definition perf_counter_attr_szb :: "32 word" where
  "perf_counter_attr_szb = 2 * 4 + 4 * 8 + 8 + 2 * 4 + 8"

definition zero_attr :: perf_counter_attr where
  "zero_attr = \<lparr>attr_type = 0, attr_size = 0, attr_config = 0, sample_period = 0, sample_type = 0, read_format = 0,
     attr_disabled = False, attr_inherit = False, attr_pinned = False, attr_exclusive = False, attr_exclude_user = False,
     attr_exclude_kernel = False, attr_exclude_hv = False, attr_exclude_idle = False, attr_mmap = False, attr_comm = False,
     attr_freq = False, attr_inherit_stat = False, attr_enable_on_exec = False, attr_task = False, wakeup_events = 0\<rparr>"

definition raw_attr :: "64 word \<Rightarrow> perf_counter_attr" where
  "raw_attr config = zero_attr\<lparr>sample_type := PERF_SAMPLE_IP OR PERF_SAMPLE_TID, attr_freq := False, attr_type := PERF_TYPE_RAW,
     attr_config := config, attr_inherit := False, attr_size := perf_counter_attr_szb\<rparr>"

text \<open>The two counters of a vproc. Only the vproc on the first thread of the first core of a node counts; \<open>open\<close> is
  the system call, by its attributes, process, processor, group and flags.\<close>

record VPCounters =
  reads :: PerfCntrs_t
  misses :: PerfCntrs_t

definition counts_for_node :: "Location_t \<Rightarrow> bool" where
  "counts_for_node loc \<longleftrightarrow> loc = Location (LocationNode loc) 0 0"

definition InitPerfCounters ::
  "(perf_counter_attr \<Rightarrow> int \<Rightarrow> int \<Rightarrow> int \<Rightarrow> 64 word \<Rightarrow> int) \<Rightarrow> Location_t \<Rightarrow> VPCounters \<Rightarrow> VPCounters" where
  "InitPerfCounters perf_counter_open loc c =
    (if counts_for_node loc then
       let r = (initCounter ((reads c)\<lparr>enabled := True\<rparr>))\<lparr>fd := perf_counter_open (raw_attr 0xF74E0) 0 (- 1) (- 1) 0\<rparr>;
           ms = (initCounter ((misses c)\<lparr>enabled := True\<rparr>))\<lparr>fd := perf_counter_open (raw_attr 0xF74E1) 0 (- 1) (fd r) 0\<rparr>
       in \<lparr>reads = r, misses = ms\<rparr>
     else \<lparr>reads = (reads c)\<lparr>enabled := False\<rparr>, misses = (misses c)\<lparr>enabled := False\<rparr>\<rparr>)"

record PerfFlags =
  PerfReport :: bool
  PerfCSV :: bool
  PerfSML :: bool

definition ParsePerfOptions :: "Options \<Rightarrow> PerfFlags \<times> Options" where
  "ParsePerfOptions opts =
    (case GetStringEqOpt opts ''-perf'' (Some ''summary'') of
       (None, opts') \<Rightarrow> (\<lparr>PerfReport = False, PerfCSV = False, PerfSML = False\<rparr>, opts')
     | (Some report, opts') \<Rightarrow> (\<lparr>PerfReport = True, PerfCSV = strstr report ''csv'', PerfSML = strstr report ''sml''\<rparr>, opts'))"

section \<open>The report\<close>

definition show_i64 :: "64 word \<Rightarrow> string" where
  "show_i64 w = show_int (sint w)"

definition newline :: char where "newline = CHR 0x0A"

definition csv_line :: "nat \<Rightarrow> VPCounters \<Rightarrow> string" where
  "csv_line i c = show_nat i @ '', '' @ show_i64 (nonGC (misses c)) @ '', '' @ show_i64 (GC (misses c)) @ '', ''
     @ show_i64 (nonGC (reads c)) @ '', '' @ show_i64 (GC (reads c)) @ [newline]"

definition sml_line :: "nat \<Rightarrow> VPCounters \<Rightarrow> string" where
  "sml_line i c = ''PST{processor='' @ show_nat i @ '', '' @ [newline]
     @ ''                      nonGCmiss='' @ show_i64 (nonGC (misses c)) @ '', GCmiss='' @ show_i64 (GC (misses c)) @ '','' @ [newline]
     @ ''                                          nonGCreferences='' @ show_i64 (nonGC (reads c))
     @ '', GCreferences='' @ show_i64 (GC (reads c)) @ ''} ::'' @ [newline]"

definition summary_line :: "nat \<Rightarrow> VPCounters \<Rightarrow> string" where
  "summary_line i c = ''vproc '' @ show_nat i @ '', '' @ show_i64 (nonGC (misses c)) @ '' nonGC misses, ''
     @ show_i64 (GC (misses c)) @ '' GC misses, '' @ show_i64 (nonGC (reads c)) @ '' nonGC reads, ''
     @ show_i64 (GC (reads c)) @ '' GC reads'' @ [newline]"

text \<open>The lines of the vprocs that count.\<close>

definition counter_lines :: "(nat \<Rightarrow> VPCounters \<Rightarrow> string) \<Rightarrow> VPCounters list \<Rightarrow> string" where
  "counter_lines line vps = concat (map (\<lambda>i. if enabled (misses (vps ! i)) then line i (vps ! i) else '''') [0..<length vps])"

definition stop_vproc :: "bool \<Rightarrow> 64 word \<times> 64 word \<Rightarrow> VPCounters \<Rightarrow> VPCounters option" where
  "stop_vproc dbg counts c = do {
     r \<leftarrow> stopCounter dbg (fst counts) (reads c);
     ms \<leftarrow> stopCounter dbg (snd counts) (misses c);
     Some \<lparr>reads = r, misses = ms\<rparr> }"

primrec stop_all :: "bool \<Rightarrow> (64 word \<times> 64 word) list \<Rightarrow> VPCounters list \<Rightarrow> VPCounters list option" where
  "stop_all dbg counts [] = Some []"
| "stop_all dbg counts (c # cs) = do {
     c' \<leftarrow> stop_vproc dbg (hd counts) c; cs' \<leftarrow> stop_all dbg (tl counts) cs; Some (c' # cs') }"

text \<open>The file the report goes to (\<open>opens\<close>: can it be created?), its text, and the counters afterwards; \<open>counts\<close> are the
  last readings of every vproc. A report that has no file goes to the standard error, which is then closed.\<close>

definition report_file :: "bool \<Rightarrow> string \<Rightarrow> string" where
  "report_file opens name = (if opens then name else ''stderr'')"

definition ReportPerfCounters ::
  "bool \<Rightarrow> PerfFlags \<Rightarrow> bool \<Rightarrow> (64 word \<times> 64 word) list \<Rightarrow> VPCounters list \<Rightarrow> ((string \<times> string) option \<times> VPCounters list) option" where
  "ReportPerfCounters dbg fl opens counts vps =
    (if \<not> PerfReport fl then Some (None, vps)
     else map_option (\<lambda>vps'.
       (Some (if PerfCSV fl then (report_file opens ''perf.csv'', counter_lines csv_line vps')
              else if PerfSML fl then (report_file opens ''perf.sml'', counter_lines sml_line vps' @ ''nil'' @ [newline])
              else (''stderr'', counter_lines summary_line vps')), vps')) (stop_all dbg counts vps))"

section \<open>What a timer records\<close>

primrec timed :: "bool \<Rightarrow> (ClockReading \<times> ClockReading) list \<Rightarrow> Timer_t \<Rightarrow> Timer_t option" where
  "timed dbg [] t = Some t"
| "timed dbg (iv # ivs) t = do { t1 \<leftarrow> TIMER_Start dbg (fst iv) t; t2 \<leftarrow> TIMER_Stop dbg (snd iv) t1; timed dbg ivs t2 }"

primrec clocks_in_order :: "64 word \<Rightarrow> (ClockReading \<times> ClockReading) list \<Rightarrow> 64 word \<Rightarrow> bool" where
  "clocks_in_order b [] e \<longleftrightarrow> b \<le> e"
| "clocks_in_order b (iv # ivs) e \<longleftrightarrow> b \<le> TIMER_Now (fst iv) \<and> TIMER_Now (fst iv) \<le> TIMER_Now (snd iv) \<and>
     clocks_in_order (TIMER_Now (snd iv)) ivs e"

definition elapsed :: "(ClockReading \<times> ClockReading) list \<Rightarrow> nat" where
  "elapsed ivs = sum_list (map (\<lambda>iv. unat (TIMER_Now (snd iv)) - unat (TIMER_Now (fst iv))) ivs)"

lemma clocks_in_order_le: "clocks_in_order b ivs e \<Longrightarrow> b \<le> e"
  by (induction ivs arbitrary: b) (auto intro: order_trans)

lemma elapsed_bound: "clocks_in_order b ivs e \<Longrightarrow> elapsed ivs \<le> unat e - unat b"
proof (induction ivs arbitrary: b)
  case (Cons iv ivs)
  then show ?case using clocks_in_order_le [of "TIMER_Now (snd iv)" ivs e]
    by (fastforce simp: elapsed_def word_le_nat_alt)
qed (simp add: elapsed_def)

lemma timed_total:
  assumes "clocks_in_order b ivs e" and "dbg \<longrightarrow> 0 < b \<and> startTime t = TIMER_STOPPED"
  shows "\<exists>t'. timed dbg ivs t = Some t' \<and> totalTime t' = totalTime t + word_of_nat (elapsed ivs) \<and>
    (dbg \<longrightarrow> startTime t' = TIMER_STOPPED)"
  using assms
proof (induction ivs arbitrary: b t)
  case (Cons iv ivs)
  let ?b = "TIMER_Now (fst iv)" and ?e = "TIMER_Now (snd iv)"
  let ?t = "t\<lparr>startTime := if dbg then TIMER_STOPPED else ?b, totalTime := totalTime t + (?e - ?b)\<rparr>"
  have o: "clocks_in_order ?e ivs e" "b \<le> ?b" "?b \<le> ?e" using Cons.prems by auto
  have d: "dbg \<longrightarrow> 0 < ?e \<and> startTime ?t = TIMER_STOPPED" using o Cons.prems by auto
  have "dbg \<longrightarrow> ?b \<noteq> TIMER_STOPPED" using o Cons.prems by (auto simp: TIMER_STOPPED_def)
  then have s: "timed dbg (iv # ivs) t = timed dbg ivs ?t"
    using Cons.prems by (cases t) (auto simp: TIMER_Start_def TIMER_Stop_def Let_def)
  obtain t' where "timed dbg ivs ?t = Some t'" "totalTime t' = totalTime ?t + word_of_nat (elapsed ivs)"
    "dbg \<longrightarrow> startTime t' = TIMER_STOPPED" using Cons.IH [OF o(1) d] by blast
  moreover have "?e - ?b = word_of_nat (unat ?e - unat ?b)"
    using o(3) by (simp add: word_le_nat_alt of_nat_diff)
  ultimately show ?case using s by (simp add: elapsed_def)
qed (simp add: elapsed_def)

text \<open>A timer that is started and stopped in turn, on a clock that does not go backwards, never runs into
  its assertions and records exactly the sum of the intervals, which never exceeds the time that passed.\<close>

theorem timer_records:
  assumes "clocks_in_order b ivs e" and "0 < b"
  shows "\<exists>t'. timed dbg ivs (TIMER_Init dbg t) = Some t' \<and> unat (totalTime t') = elapsed ivs \<and>
    unat (totalTime t') \<le> unat e - unat b"
proof -
  have d: "dbg \<longrightarrow> 0 < b \<and> startTime (TIMER_Init dbg t) = TIMER_STOPPED" using assms by (simp add: TIMER_Init_def)
  obtain t' where "timed dbg ivs (TIMER_Init dbg t) = Some t'" "totalTime t' = word_of_nat (elapsed ivs)"
    using timed_total [OF assms(1) d] by (auto simp: TIMER_Init_def)
  moreover have "elapsed ivs \<le> unat e - unat b" "unat e < 2 ^ 64"
    using elapsed_bound [OF assms(1)] unsigned_less [of e] by simp_all
  ultimately show ?thesis by (auto simp: unat_of_nat)
qed

theorem timer_records_witness:
  "\<exists>t'. timed True [(Timespec 1 5, Timespec 1 9), (Timespec 2 0, Timespec 2 1)] (TIMER_Init True \<lparr>startTime = 7, totalTime = 8\<rparr>) = Some t' \<and>
    unat (totalTime t') = 5"
  using timer_records [of 1 "[(Timespec 1 5, Timespec 1 9), (Timespec 2 0, Timespec 2 1)]" 3000000000 True]
  by (fastforce simp: timer_consts elapsed_def)

section \<open>What the counters record\<close>

text \<open>Collections of a vproc: the readings at the start and the end of each.\<close>

primrec collections :: "bool \<Rightarrow> (64 word \<times> 64 word) list \<Rightarrow> PerfCntrs_t \<Rightarrow> PerfCntrs_t option" where
  "collections dbg [] p = Some p"
| "collections dbg (g # gs) p = do { p1 \<leftarrow> PERF_StartGC dbg (fst g) p; p2 \<leftarrow> PERF_StopGC dbg (snd g) p1; collections dbg gs p2 }"

primrec rising :: "64 word \<Rightarrow> (64 word \<times> 64 word) list \<Rightarrow> 64 word \<Rightarrow> bool" where
  "rising b [] e \<longleftrightarrow> b \<le> e"
| "rising b (g # gs) e \<longleftrightarrow> b \<le> fst g \<and> fst g \<le> snd g \<and> rising (snd g) gs e"

definition in_collections :: "(64 word \<times> 64 word) list \<Rightarrow> nat" where
  "in_collections gs = sum_list (map (\<lambda>g. unat (snd g) - unat (fst g)) gs)"

lemma in_collections_bound: "rising b gs e \<Longrightarrow> in_collections gs + unat b \<le> unat e"
  by (induction gs arbitrary: b) (force simp: in_collections_def word_le_nat_alt)+

lemma collections_returns:
  assumes "\<not> inGC p" and "enabled p"
  shows "\<exists>p'. collections dbg gs p = Some p' \<and> enabled p' \<and> \<not> inGC p' \<and> nonGC p' + GC p' - last_count p' = nonGC p + GC p - last_count p \<and>
    (\<forall>e. rising (last_count p) gs e \<longrightarrow> GC p' = GC p + word_of_nat (in_collections gs) \<and> last_count p' \<le> e)"
  using assms
proof (induction gs arbitrary: p)
  case (Cons g gs)
  let ?p = "p\<lparr>nonGC := nonGC p + (fst g - last_count p), GC := GC p + (snd g - fst g), last_count := snd g, inGC := False\<rparr>"
  obtain p' where p': "collections dbg gs ?p = Some p'" "enabled p'" "\<not> inGC p'"
    "nonGC p' + GC p' - last_count p' = nonGC ?p + GC ?p - last_count ?p"
    "\<forall>e. rising (last_count ?p) gs e \<longrightarrow> GC p' = GC ?p + word_of_nat (in_collections gs) \<and> last_count p' \<le> e"
    using Cons.IH [of ?p] Cons.prems by auto
  have "collections dbg (g # gs) p = Some p'" using p'(1) Cons.prems by (simp add: PERF_StartGC_def PERF_StopGC_def)
  moreover have "snd g - fst g = word_of_nat (unat (snd g) - unat (fst g))" if "fst g \<le> snd g"
    using that by (simp add: word_le_nat_alt of_nat_diff)
  ultimately show ?case using p' by (auto simp: in_collections_def)
qed (simp add: in_collections_def)

text \<open>C32: A counter that is read at the start and the end of every collection and stopped at the end of the
  program has in GC the events inside collections and in nonGC all the others.\<close>

theorem counters_account:
  assumes "enabled p" and "rising 0 gs e"
  shows "\<exists>p1 p2. collections dbg gs (initCounter p) = Some p1 \<and> stopCounter dbg e p1 = Some p2 \<and>
    unat (GC p2) = in_collections gs \<and> unat (nonGC p2) = unat e - in_collections gs \<and> fd p2 = - 1"
proof -
  obtain p1 where p1: "collections dbg gs (initCounter p) = Some p1" "enabled p1" "\<not> inGC p1"
      "nonGC p1 + GC p1 = last_count p1" "GC p1 = word_of_nat (in_collections gs)"
    using collections_returns [of "initCounter p" dbg gs] assms by (auto simp: initCounter_def)
  let ?p2 = "p1\<lparr>nonGC := nonGC p1 + (e - last_count p1), last_count := e, inGC := True, fd := - 1\<rparr>"
  have "stopCounter dbg e p1 = Some ?p2" using p1 by (simp add: stopCounter_def PERF_StartGC_def)
  moreover have b: "in_collections gs \<le> unat e" using in_collections_bound [OF assms(2)] by simp
  moreover have "unat e < 2 ^ 64" using unsigned_less [of e] by simp
  with b have g: "unat (GC ?p2) = in_collections gs" using p1(5) by (simp add: unat_of_nat)
  moreover have "nonGC ?p2 = e - GC ?p2" using p1(4) by (simp add: algebra_simps)
  then have "unat (nonGC ?p2) = unat e - in_collections gs" using b g by (metis unat_sub word_le_nat_alt)
  ultimately show ?thesis using p1(1) by auto
qed

theorem counters_account_witness:
  "\<exists>p1 p2. collections True [(10, 14), (20, 21)] (initCounter \<lparr>nonGC = 3, GC = 3, last_count = 3, inGC = True, fd = 3, enabled = True\<rparr>) = Some p1 \<and>
    stopCounter True 30 p1 = Some p2 \<and> unat (GC p2) = 5 \<and> unat (nonGC p2) = 25"
  using counters_account [of "\<lparr>nonGC = 3, GC = 3, last_count = 3, inGC = True, fd = 3, enabled = True\<rparr>" "[(10, 14), (20, 21)]" 30 True]
  by (fastforce simp: in_collections_def)

text \<open>A counter that is not enabled is not even initialised, and no operation looks at it.\<close>

lemma disabled_counter:
  assumes "\<not> counts_for_node loc"
  shows "InitPerfCounters opn loc c = \<lparr>reads = (reads c)\<lparr>enabled := False\<rparr>, misses = (misses c)\<lparr>enabled := False\<rparr>\<rparr>"
    and "\<not> enabled p \<Longrightarrow> PERF_StartGC dbg n p = Some p \<and> PERF_StopGC dbg n p = Some p \<and> stopCounter dbg n p = Some p"
  using assms by (simp_all add: InitPerfCounters_def PERF_StartGC_def PERF_StopGC_def stopCounter_def)

end
