(* ===== verification/Basis_Math.thy ===== *)
theory Basis_Math
  imports Basis_Strings Complex_Main
begin

text \<open>
The services for compiled code that compute with floating-point numbers (misc/basis.c): the mathematical library, time
and random numbers, and their input and output. The formats and the functions of the C library are parameters. Lemmas:
with exact arithmetic a random number lies between its bounds; rounded to single precision it can be the upper one.
\<close>

section \<open>Arithmetic and the mathematical library\<close>

text \<open>The operations of a floating-point format: the conversion of integers, and the four operations, each with its own
  rounding; and the functions of the mathematical library, for numbers of one format.\<close>

record 'f arith =
  f_of :: "int \<Rightarrow> 'f"
  f_add :: "'f \<Rightarrow> 'f \<Rightarrow> 'f"
  f_sub :: "'f \<Rightarrow> 'f \<Rightarrow> 'f"
  f_mul :: "'f \<Rightarrow> 'f \<Rightarrow> 'f"
  f_div :: "'f \<Rightarrow> 'f \<Rightarrow> 'f"

record 'f libm =
  m_log :: "'f \<Rightarrow> 'f"
  m_pow :: "'f \<Rightarrow> 'f \<Rightarrow> 'f"
  m_cos :: "'f \<Rightarrow> 'f"
  m_sin :: "'f \<Rightarrow> 'f"
  m_tan :: "'f \<Rightarrow> 'f"
  m_atan :: "'f \<Rightarrow> 'f"
  m_atan2 :: "'f \<Rightarrow> 'f \<Rightarrow> 'f"
  m_lround :: "'f \<Rightarrow> 64 word"

definition M_log :: "'f libm \<Rightarrow> 'f \<Rightarrow> 'f" where "M_log L d = m_log L d"
definition M_Powf :: "'f libm \<Rightarrow> 'f \<Rightarrow> 'f \<Rightarrow> 'f" where "M_Powf L x y = m_pow L x y"
definition M_Cosf :: "'f libm \<Rightarrow> 'f \<Rightarrow> 'f" where "M_Cosf L x = m_cos L x"
definition M_Sinf :: "'f libm \<Rightarrow> 'f \<Rightarrow> 'f" where "M_Sinf L x = m_sin L x"
definition M_Tanf :: "'f libm \<Rightarrow> 'f \<Rightarrow> 'f" where "M_Tanf L x = m_tan L x"
definition M_Pow :: "'f libm \<Rightarrow> 'f \<Rightarrow> 'f \<Rightarrow> 'f" where "M_Pow L x y = m_pow L x y"
definition M_Cos :: "'f libm \<Rightarrow> 'f \<Rightarrow> 'f" where "M_Cos L x = m_cos L x"
definition M_Sin :: "'f libm \<Rightarrow> 'f \<Rightarrow> 'f" where "M_Sin L x = m_sin L x"
definition M_Tan :: "'f libm \<Rightarrow> 'f \<Rightarrow> 'f" where "M_Tan L x = m_tan L x"
definition M_Atan :: "'f libm \<Rightarrow> 'f \<Rightarrow> 'f" where "M_Atan L x = m_atan L x"
definition M_Atan2 :: "'f libm \<Rightarrow> 'f \<Rightarrow> 'f \<Rightarrow> 'f" where "M_Atan2 L x y = m_atan2 L x y"
definition M_Lround :: "'f libm \<Rightarrow> 'f \<Rightarrow> 64 word" where "M_Lround L x = m_lround L x"

section \<open>Time and random numbers\<close>

text \<open>\<open>micro\<close> is the constant 0.000001 of the format.\<close>

definition M_GetTimeOfDay :: "'f arith \<Rightarrow> 'f \<Rightarrow> int \<Rightarrow> int \<Rightarrow> 'f" where
  "M_GetTimeOfDay F micro sec usec = f_add F (f_of F sec) (f_mul F micro (f_of F usec))"

definition CLOCKS_PER_SEC :: int where "CLOCKS_PER_SEC = 1000000"

definition M_GetCPUTime :: "'f arith \<Rightarrow> int \<Rightarrow> 'f" where
  "M_GetCPUTime F clock = f_div F (f_of F clock) (f_of F CLOCKS_PER_SEC)"

definition RAND_MAX :: int where "RAND_MAX = 2147483647"

text \<open>\<open>r\<close> is the number \<^verbatim>\<open>rand\<close> returns.\<close>

definition M_DRand :: "'f arith \<Rightarrow> int \<Rightarrow> 'f \<Rightarrow> 'f \<Rightarrow> 'f" where
  "M_DRand F r lo hi =
    f_add F (f_mul F (f_div F (f_of F r) (f_add F (f_of F RAND_MAX) (f_of F 1))) (f_sub F hi lo)) lo"

definition M_FRand :: "'f arith \<Rightarrow> int \<Rightarrow> 'f \<Rightarrow> 'f \<Rightarrow> 'f" where
  "M_FRand F r lo hi =
    f_add F (f_mul F (f_div F (f_of F r) (f_add F (f_of F RAND_MAX) (f_of F 1))) (f_sub F hi lo)) lo"

definition M_SeedRand :: "int \<Rightarrow> 32 word" where
  "M_SeedRand time = word_of_int time"

text \<open>With exact arithmetic a random number is at least the lower bound and below the upper one.\<close>

definition exact :: "real arith" where
  "exact = \<lparr>f_of = of_int, f_add = (+), f_sub = (-), f_mul = (*), f_div = (/)\<rparr>"

lemma M_DRand_range:
  assumes "0 \<le> r" and "r \<le> RAND_MAX" and "lo < hi"
  shows "lo \<le> M_DRand exact r lo hi" and "M_DRand exact r lo hi < hi"
proof -
  let ?q = "real_of_int r / (real_of_int RAND_MAX + 1)"
  have q: "0 \<le> ?q" "?q < 1" using assms(1,2) by (simp_all add: RAND_MAX_def)
  have e: "M_DRand exact r lo hi = ?q * (hi - lo) + lo" by (simp add: M_DRand_def exact_def)
  have "0 \<le> ?q * (hi - lo)" using q(1) assms(3) by (intro mult_nonneg_nonneg) auto
  then show "lo \<le> M_DRand exact r lo hi" by (simp add: e)
  have "?q * (hi - lo) < 1 * (hi - lo)" using q(2) assms(3) by (intro mult_strict_right_mono) auto
  then show "M_DRand exact r lo hi < hi" by (simp add: e)
qed

text \<open>In single precision the largest numbers of \<^verbatim>\<open>rand\<close> are converted to \<open>2 ^ 31\<close>, which is also what \<open>RAND_MAX + 1\<close>
  becomes: the result is the upper bound itself. \<open>single\<close> converts a small number, and rounds one between \<open>2 ^ 30\<close> and
  \<open>2 ^ 31\<close> to 24 significant bits, a multiple of 128.\<close>

definition single :: "int \<Rightarrow> real" where
  "single n = (if n < 2 ^ 24 then of_int n else of_int (128 * ((n + 64) div 128)))"

lemma single_top: "single (2 ^ 31 - 64) = 2 ^ 31" "single RAND_MAX = 2 ^ 31" "single 1 = 1"
  by (simp_all add: single_def RAND_MAX_def)

definition single_arith :: "real arith" where
  "single_arith = exact\<lparr>f_of := single, f_add := (\<lambda>a b. if a = 2 ^ 31 \<and> b = 1 then 2 ^ 31 else a + b)\<rparr>"

lemma M_FRand_reaches_hi: "M_FRand single_arith (2 ^ 31 - 64) 0 hi = hi"
  using single_top by (simp add: M_FRand_def single_arith_def exact_def)

section \<open>Numbers as text\<close>

text \<open>What the C library makes of a number, and reads, is a parameter. Reading (\<open>None\<close>: there is no number) leaves the
  variable as it was.\<close>

definition M_PrintFloat :: "('f \<Rightarrow> string) \<Rightarrow> 'f \<Rightarrow> string \<Rightarrow> string" where
  "M_PrintFloat print_f f out = out @ print_f f @ [CHR 0x0A]"

definition M_ReadFloat :: "(string \<Rightarrow> ('f \<times> string) option) \<Rightarrow> 'f \<Rightarrow> InStrm \<Rightarrow> 'f \<times> InStrm" where
  "M_ReadFloat scan junk st = (case scan (unread st) of None \<Rightarrow> (junk, st\<lparr>unread := dropWhile isspace (unread st)\<rparr>)
     | Some (f, rest) \<Rightarrow> (f, st\<lparr>unread := rest\<rparr>))"

definition M_ReadDouble :: "(string \<Rightarrow> ('f \<times> string) option) \<Rightarrow> 'f \<Rightarrow> InStrm \<Rightarrow> 'f \<times> InStrm" where
  "M_ReadDouble scan junk st = (case scan (unread st) of None \<Rightarrow> (junk, st\<lparr>unread := dropWhile isspace (unread st)\<rparr>)
     | Some (d, rest) \<Rightarrow> (d, st\<lparr>unread := rest\<rparr>))"

end
