(* ===== verification/Gc_Report.thy ===== *)
theory Gc_Report
  imports Heap_Init Perf_Timers Basis_Math
begin

text \<open>
The report of collections (\<^verbatim>\<open>ReportGCStats\<close> in gc/heap.c, \<^verbatim>\<open>TIMER_GetTime\<close> in include/timer.h): lines of
comma-separated values, records of Standard ML, or a table. Floating-point numbers and their text are parameters. Lemmas:
the totals are the sums of the rows; every line of values has 21 fields; numbers keep to their column.
\<close>

section \<open>Numbers of the report\<close>

text \<open>Doubles: besides their arithmetic, comparison, the constants of the program by their text, and the conversion of
  one number by a conversion specification of \<^verbatim>\<open>printf\<close>.\<close>

record 'f dbl = "'f arith" +
  f_lt :: "'f \<Rightarrow> 'f \<Rightarrow> bool"
  f_lit :: "string \<Rightarrow> 'f"
  f_fmt :: "string \<Rightarrow> 'f \<Rightarrow> string"

definition TIMER_GetTime :: "'f dbl \<Rightarrow> Timer_t \<Rightarrow> 'f" where
  "TIMER_GetTime F t = f_mul F (f_lit F ''1.0e-9'') (f_of F (uint (totalTime t)))"

definition PrintPct :: "'f dbl \<Rightarrow> 64 word \<Rightarrow> 64 word \<Rightarrow> string" where
  "PrintPct F n m = (if m = 0 then ''( na )''
     else let pct = f_div F (f_mul F (f_lit F ''100.0'') (f_of F (uint n))) (f_of F (uint m))
       in if f_lt F pct (f_lit F ''1.0'') then ''('' @ f_fmt F ''%3.1f'' pct @ ''%)''
          else if f_lt F pct (f_lit F ''100.0'') then ''('' @ f_fmt F ''%2.0f'' pct @ ''%) ''
          else ''(100%)'')"

definition PrintTime :: "'f dbl \<Rightarrow> 'f \<Rightarrow> string" where
  "PrintTime F t = (if f_lt F t (f_lit F ''0.001'') then ''   0.0  ''
     else if f_lt F t (f_lit F ''1.0'') then ''   '' @ f_fmt F ''%5.3f'' t
     else if f_lt F t (f_lit F ''10.0'') then ''  '' @ f_fmt F ''%5.2f'' t @ '' ''
     else if f_lt F t (f_lit F ''100.0'') then '' '' @ f_fmt F ''%5.1f'' t @ ''  ''
     else '' '' @ f_fmt F ''%3.0f'' t @ ''  '')"

definition show_02 :: "nat \<Rightarrow> string" where
  "show_02 i = replicate (2 - length (show_nat i)) CHR ''0'' @ show_nat i"

definition d32 :: "32 word \<Rightarrow> string" where "d32 w = show_int (sint w)"
definition d64 :: "64 word \<Rightarrow> string" where "d64 w = show_int (sint w)"

section \<open>The statistics of a vproc\<close>

text \<open>A vproc with its timers: since its start, in minor and major collections, in promotions, in global collections.\<close>

record StatVP =
  sv_vp :: VProc
  sv_timer :: Timer_t
  sv_minor :: Timer_t
  sv_major :: Timer_t
  sv_promote :: Timer_t
  sv_global :: Timer_t

definition gc_time :: "'f dbl \<Rightarrow> StatVP \<Rightarrow> 'f" where
  "gc_time F v = f_add F (f_add F (f_add F (TIMER_GetTime F (sv_minor v)) (TIMER_GetTime F (sv_major v)))
     (TIMER_GetTime F (sv_promote v))) (TIMER_GetTime F (sv_global v))"

record 'f TimeSummary =
  maxTime :: 'f
  time_minor :: 'f
  time_major :: 'f
  time_promote :: 'f
  time_global :: 'f

definition add_times :: "'f dbl \<Rightarrow> StatVP \<Rightarrow> 'f TimeSummary \<Rightarrow> 'f TimeSummary" where
  "add_times F v s =
    (let t = TIMER_GetTime F (sv_timer v)
     in \<lparr>maxTime = if f_lt F (maxTime s) t then t else maxTime s,
         time_minor = f_add F (time_minor s) (TIMER_GetTime F (sv_minor v)),
         time_major = f_add F (time_major s) (TIMER_GetTime F (sv_major v)),
         time_promote = f_add F (time_promote s) (TIMER_GetTime F (sv_promote v)),
         time_global = f_add F (time_global s) (TIMER_GetTime F (sv_global v))\<rparr>)"

definition time_summary :: "'f dbl \<Rightarrow> StatVP list \<Rightarrow> 'f TimeSummary" where
  "time_summary F vs = (let z = f_lit F ''0.0'' in fold (add_times F) vs \<lparr>maxTime = z, time_minor = z, time_major = z, time_promote = z, time_global = z\<rparr>)"

definition summed :: "StatVP list \<Rightarrow> GCSummary \<times> StatVP list" where
  "summed vs = (case gc_summary (map sv_vp vs) of (s, vps) \<Rightarrow> (s, map2 (\<lambda>v vp. v\<lparr>sv_vp := vp\<rparr>) vs vps))"

section \<open>Comma-separated values\<close>

definition commas :: "string list \<Rightarrow> string" where
  "commas fs = (case fs of [] \<Rightarrow> '''' | f # rest \<Rightarrow> f @ concat (map (\<lambda>g. '', '' @ g) rest))"

definition cntr_fields :: "'f dbl \<Rightarrow> GCCntrs \<Rightarrow> Timer_t \<Rightarrow> string list" where
  "cntr_fields F c t = [d64 (nBytesAlloc c), d64 (nBytesCollected c), d64 (nBytesCopied c), f_fmt F ''%f'' (TIMER_GetTime F t)]"

definition gc_csv_fields :: "'f dbl \<Rightarrow> int \<Rightarrow> nat \<Rightarrow> StatVP \<Rightarrow> string list" where
  "gc_csv_fields F nGlobal i v =
    [''p'' @ show_02 i, f_fmt F ''%f'' (TIMER_GetTime F (sv_timer v)), f_fmt F ''%f'' (gc_time F v)]
    @ d32 (nMinorGCs (sv_vp v)) # cntr_fields F (minorStats (sv_vp v)) (sv_minor v)
    @ d32 (nMajorGCs (sv_vp v)) # cntr_fields F (majorStats (sv_vp v)) (sv_major v)
    @ [d32 (nPromotes (sv_vp v)), d64 (nBytesPromoted (sv_vp v)), f_fmt F ''%f'' (TIMER_GetTime F (sv_promote v))]
    @ show_int nGlobal # cntr_fields F (globalStats (sv_vp v)) (sv_global v)"

definition gc_csv_line :: "'f dbl \<Rightarrow> int \<Rightarrow> nat \<Rightarrow> StatVP \<Rightarrow> string" where
  "gc_csv_line F nGlobal i v = commas (gc_csv_fields F nGlobal i v) @ [newline]"

section \<open>Records of Standard ML\<close>

definition sml_gc :: "'f dbl \<Rightarrow> string \<Rightarrow> string \<Rightarrow> GCCntrs \<Rightarrow> Timer_t \<Rightarrow> string" where
  "sml_gc F name num c t = ''    '' @ name @ ''=GC{num='' @ num @ '', alloc='' @ d64 (nBytesAlloc c) @ '', collected='' @ d64 (nBytesCollected c)
     @ '', copied='' @ d64 (nBytesCopied c) @ '', time='' @ f_fmt F ''%f'' (TIMER_GetTime F t) @ ''}''"

definition gc_sml_record :: "'f dbl \<Rightarrow> int \<Rightarrow> nat \<Rightarrow> StatVP \<Rightarrow> string" where
  "gc_sml_record F nGlobal i v =
    ''GCST{'' @ [newline]
    @ ''    processor='' @ show_nat i @ '','' @ [newline]
    @ ''    time='' @ f_fmt F ''%f'' (TIMER_GetTime F (sv_timer v)) @ '','' @ [newline]
    @ sml_gc F ''minor'' (d32 (nMinorGCs (sv_vp v))) (minorStats (sv_vp v)) (sv_minor v) @ '','' @ [newline]
    @ sml_gc F ''major'' (d32 (nMajorGCs (sv_vp v))) (majorStats (sv_vp v)) (sv_major v) @ '','' @ [newline]
    @ ''    promotion={num='' @ d32 (nPromotes (sv_vp v)) @ '', bytes='' @ d64 (nBytesPromoted (sv_vp v))
    @ '', time='' @ f_fmt F ''%f'' (TIMER_GetTime F (sv_promote v)) @ ''}, '' @ [newline]
    @ sml_gc F ''global'' (show_int nGlobal) (globalStats (sv_vp v)) (sv_global v) @ [newline]
    @ ''  } ::'' @ [newline]"

section \<open>The table\<close>

definition report_header :: string where
  "report_header = concat (map (\<lambda>l. l @ [newline])
    [''         Time                    Minor GCs                          Major GCs                      Promotions                    Global GCs'',
     ''     total    gc      num   alloc     copied      time    num   alloc      copied     time     num    bytes   time    num   alloc     copied      time'',
     ''--- ------- ------- ------ ------- ------------- ------- ----- ------- ------------- ------- ------- ------- ------- ----- ------- ------------- -------''])"

text \<open>A group of columns: the number of collections, bytes allocated and copied, the part that was copied, and the time.\<close>

definition gc_columns :: "'f dbl \<Rightarrow> nat \<Rightarrow> string \<Rightarrow> GCCntrs \<Rightarrow> 'f \<Rightarrow> string" where
  "gc_columns F wid num c t = '' '' @ pad_left wid num @ PrintNum 7 (nBytesAlloc c) @ PrintNum 7 (nBytesCopied c)
     @ PrintPct F (nBytesCopied c) (nBytesCollected c) @ PrintTime F t"

definition detail_line :: "'f dbl \<Rightarrow> int \<Rightarrow> nat \<Rightarrow> StatVP \<Rightarrow> string" where
  "detail_line F nGlobal i v =
    ''p'' @ show_02 i @ PrintTime F (TIMER_GetTime F (sv_timer v)) @ PrintTime F (gc_time F v)
    @ gc_columns F 6 (d32 (nMinorGCs (sv_vp v))) (minorStats (sv_vp v)) (TIMER_GetTime F (sv_minor v))
    @ gc_columns F 5 (d32 (nMajorGCs (sv_vp v))) (majorStats (sv_vp v)) (TIMER_GetTime F (sv_major v))
    @ PrintNum 7 (ucast (nPromotes (sv_vp v))) @ PrintNum 7 (nBytesPromoted (sv_vp v)) @ PrintTime F (TIMER_GetTime F (sv_promote v))
    @ gc_columns F 5 (show_int nGlobal) (globalStats (sv_vp v)) (TIMER_GetTime F (sv_global v)) @ [newline]"

definition total_line :: "'f dbl \<Rightarrow> int \<Rightarrow> nat \<Rightarrow> GCSummary \<Rightarrow> 'f TimeSummary \<Rightarrow> string" where
  "total_line F nGlobal nvps s t =
    (let timeScale = f_div F (f_lit F ''1.0'') (f_of F (int nvps))
     in ''TOT'' @ PrintTime F (maxTime t)
        @ PrintTime F (f_mul F timeScale (f_add F (f_add F (f_add F (time_minor t) (time_major t)) (time_promote t)) (time_global t)))
        @ gc_columns F 6 (d32 (nMinorGCs_tot s)) (totMinor s) (f_mul F timeScale (time_minor t))
        @ gc_columns F 5 (d32 (nMajorGCs_tot s)) (totMajor s) (f_mul F timeScale (time_major t))
        @ PrintNum 7 (ucast (nPromotes_tot s)) @ PrintNum 7 (nBytesPromoted_tot s) @ PrintTime F (f_mul F timeScale (time_promote t))
        @ gc_columns F 5 (show_int nGlobal) (totGlobal s) (f_mul F timeScale (time_global t)) @ [newline])"

definition each_vproc :: "(nat \<Rightarrow> StatVP \<Rightarrow> string) \<Rightarrow> StatVP list \<Rightarrow> string" where
  "each_vproc line vs = concat (map2 line [0..<length vs] vs)"

text \<open>The report, and the vprocs with what they allocated since their last collection charged.\<close>

definition ReportGCStats :: "'f dbl \<Rightarrow> GCStatsFlags \<Rightarrow> int \<Rightarrow> StatVP list \<Rightarrow> string \<times> StatVP list" where
  "ReportGCStats F fl nGlobal vs =
    (if \<not> ReportStatsFlg fl then ('''', vs)
     else case summed vs of (s, vs') \<Rightarrow>
       (if CSVStatsFlg fl then each_vproc (gc_csv_line F nGlobal) vs'
        else if SMLStatsFlg fl then each_vproc (gc_sml_record F nGlobal) vs' @ ''nil'' @ [newline]
        else report_header
          @ (if DetailStatsFlg fl \<and> 1 < length vs then each_vproc (detail_line F nGlobal) vs' else '''')
          @ total_line F nGlobal (length vs) s (time_summary F vs'), vs'))"

section \<open>Shape and sums\<close>

lemma gc_csv_fields_21: "length (gc_csv_fields F n i v) = 21"
  by (simp add: gc_csv_fields_def cntr_fields_def)

lemma length_summed [simp]: "length (snd (summed vs)) = length vs"
  by (simp add: summed_def gc_summary_def Let_def)

text \<open>The totals are the sums of the rows.\<close>

lemma add_vproc_sums:
  "totMinor (fold add_vproc vps s) = fold (\<lambda>vp t. add_cntrs t (minorStats vp)) vps (totMinor s)"
  "totMajor (fold add_vproc vps s) = fold (\<lambda>vp t. add_cntrs t (majorStats vp)) vps (totMajor s)"
  "totGlobal (fold add_vproc vps s) = fold (\<lambda>vp t. add_cntrs t (globalStats vp)) vps (totGlobal s)"
  by (induction vps arbitrary: s) (simp_all add: add_vproc_def)

lemma add_cntrs_fold:
  "nBytesAlloc (fold (\<lambda>vp t. add_cntrs t (c vp)) vps t) = nBytesAlloc t + sum_list (map (\<lambda>vp. nBytesAlloc (c vp)) vps)"
  "nBytesCollected (fold (\<lambda>vp t. add_cntrs t (c vp)) vps t) = nBytesCollected t + sum_list (map (\<lambda>vp. nBytesCollected (c vp)) vps)"
  "nBytesCopied (fold (\<lambda>vp t. add_cntrs t (c vp)) vps t) = nBytesCopied t + sum_list (map (\<lambda>vp. nBytesCopied (c vp)) vps)"
  by (induction vps arbitrary: t) (simp_all add: add_cntrs_def add.assoc)

lemma summed_vps: "map sv_vp (snd (summed vs)) = map charge_nursery (map sv_vp vs)"
  by (simp add: summed_def gc_summary_def Let_def comp_def) (induction vs, simp_all)

lemma report_totals:
  assumes "summed vs = (s, vs')" and "c = minorStats \<and> tot = totMinor \<or> c = majorStats \<and> tot = totMajor \<or> c = globalStats \<and> tot = totGlobal"
  shows "nBytesAlloc (tot s) = sum_list (map (\<lambda>v. nBytesAlloc (c (sv_vp v))) vs')"
    and "nBytesCollected (tot s) = sum_list (map (\<lambda>v. nBytesCollected (c (sv_vp v))) vs')"
    and "nBytesCopied (tot s) = sum_list (map (\<lambda>v. nBytesCopied (c (sv_vp v))) vs')"
proof -
  have v: "map charge_nursery (map sv_vp vs) = map sv_vp vs'" using summed_vps [of vs] assms(1) by simp
  have "s = fst (gc_summary (map sv_vp vs))" using assms(1) by (auto simp: summed_def split: prod.splits)
  then have s: "tot s = fold (\<lambda>vp t. add_cntrs t (c vp)) (map sv_vp vs') zero_cntrs"
    using assms(2) by (auto simp: gc_summary_def Let_def v add_vproc_sums simp del: map_map)
  show "nBytesAlloc (tot s) = sum_list (map (\<lambda>v. nBytesAlloc (c (sv_vp v))) vs')"
    "nBytesCollected (tot s) = sum_list (map (\<lambda>v. nBytesCollected (c (sv_vp v))) vs')"
    "nBytesCopied (tot s) = sum_list (map (\<lambda>v. nBytesCopied (c (sv_vp v))) vs')"
    unfolding s add_cntrs_fold by (simp_all add: zero_cntrs_def comp_def)
qed

text \<open>A number of the table takes seven columns after its space, in bytes, kilobytes or megabytes, up to a million
  megabytes.\<close>

lemma show_nat_length: "n < 10 ^ k \<Longrightarrow> 0 < k \<Longrightarrow> length (show_nat n) \<le> k"
proof (induction k arbitrary: n)
  case (Suc k)
  show ?case
  proof (cases "n < 10")
    case True
    then show ?thesis using Suc by (simp add: show_nat.simps)
  next
    case False
    then have "0 < k" using Suc.prems by (cases k) auto
    moreover have "n div 10 < 10 ^ k" using Suc.prems by (simp add: less_mult_imp_div_less mult.commute)
    ultimately have "length (show_nat (n div 10)) \<le> k" by (intro Suc.IH) auto
    then show ?thesis using False by (subst show_nat.simps) simp
  qed
qed simp

lemma show_word_length:
  fixes w :: "64 word"
  assumes "unat w < 10 ^ k" and "10 ^ k \<le> (2 ^ 31 :: nat)" and "0 < k"
  shows "length (show_int (sint (ucast w :: 32 word))) \<le> k"
proof -
  have "unat w < 2 ^ 31" using assms(1,2) by simp
  moreover have "sint (word_of_nat n :: 32 word) = int n" if "n < 2 ^ 31" for n
    using that by (simp add: signed_of_nat signed_take_bit_int_eq_self)
  moreover have "(ucast w :: 32 word) = word_of_nat (unat w)" by simp
  ultimately have "sint (ucast w :: 32 word) = int (unat w)" by (metis)
  then show ?thesis using show_nat_length [OF assms(1,3)] by (simp add: show_int_def)
qed

lemma PrintNum_width:
  assumes "nbytes < 1000000 * ONE_MEG"
  shows "length (PrintNum 7 nbytes) = 8"
proof -
  have k: "unat (drop_bit j nbytes) = unat nbytes div 2 ^ j" for j by (subst unat_drop_bit_eq) (simp add: drop_bit_eq_div)
  have b: "unat nbytes < 1000000 * 2 ^ 20" using assms by (simp add: word_less_nat_alt)
  have "length (show_int (sint (ucast nbytes :: 32 word))) \<le> 5" if "nbytes < 64 * ONE_K"
    using that by (intro show_word_length) (simp_all add: word_less_nat_alt)
  moreover have "length (show_int (sint (ucast (drop_bit 10 nbytes) :: 32 word))) \<le> 5" if "nbytes < 64 * ONE_MEG"
    using that by (intro show_word_length) (simp_all add: k word_less_nat_alt less_mult_imp_div_less)
  moreover have "length (show_int (sint (ucast (drop_bit 20 nbytes) :: 32 word))) \<le> 6"
    using b by (intro show_word_length) (simp_all add: k less_mult_imp_div_less)
  moreover have "nbytes < 64 * ONE_MEG" if "nbytes < 64 * ONE_K" using that by (simp add: word_less_nat_alt)
  ultimately show ?thesis by (auto simp: PrintNum_def pad_left_def)
qed

end
