(* ===== verification/Gen_Offsets.thy ===== *)
theory Gen_Offsets
  imports Main_Loop Apply_Loop Event_Log
begin

text \<open>
The generators of offsets (config/gen-asm-offsets.c, gen-basis-offsets.c, gen-runtime-constants.c and the lists
vproc-offsets-ins.c and include/x86_64/sizes.h). Each prints offsets of the runtime's structures in the syntax of one
consumer and takes a checksum of labels and values. The layout of the vproc structure, the C compiler's choice, is a
parameter (vp_layout). Lemmas: the three generators and the runtime record the same bytes, so all compute one checksum;
a runtime whose structure differs in one field has another checksum and refuses the program.
\<close>

section \<open>The fields the compiler reads\<close>

text \<open>Name of the constant and label of the field, for every field of the vproc that the compiler or the assembly use.\<close>

definition vproc_offsets :: "(string \<times> string) list" where
  "vproc_offsets =
    [(''ATOMIC'', ''atomic''), (''SIG_PENDING'', ''sigPending''), (''VP_SLEEPING'', ''sleeping''), (''CURRENT_FLS'', ''currentFLS''), (''VP_ACTION_STK'', ''actionStk''),
     (''VP_SCHED_CONT'', ''schedCont''), (''VP_DUMMYK'', ''dummyK''), (''VP_WAKEUP_CONT'', ''wakeupCont''), (''VP_SHUTDOWN_CONT'', ''shutdownCont''), (''VP_RDYQ_HD'', ''rdyQHd''),
     (''VP_RDYQ_TL'', ''rdyQTl''), (''VP_SNDQ_HD'', ''sndQHd''), (''VP_SNDQ_TL'', ''sndQTl''), (''STD_ARG'', ''stdArg''), (''STD_EP'', ''stdEnvPtr''),
     (''STD_CONT'', ''stdCont''), (''STD_EXH'', ''stdExnCont''), (''ALLOC_PTR'', ''allocPtr''), (''EVENT_ID'', ''eventId''), (''LOG'', ''log''),
     (''EVENT_LOG'', ''event_log''), (''NURSERY_BASE'', ''nurseryBase''), (''OLD_TOP'', ''oldTop''), (''GLOB_NEXT_W'', ''globNextW''), (''GLOB_LIMIT'', ''globLimit''),
     (''VPROC_ID'', ''id''), (''VP_LANDING_PAD'', ''landingPad''), (''LIMIT_PTR'', ''limitPtr''), (''ALLOC_POLY_VEC_N'', ''eventId''), (''NODE_ID'', ''nodeID'')]"

text \<open>Sizes of a stack frame.\<close>

definition SPILL_SZB :: "64 word" where "SPILL_SZB = 2048"
definition SAVE_AREA :: "64 word" where "SAVE_AREA = 6 * 8"
definition PAD_SZB :: "64 word" where "PAD_SZB = 8"
definition FRAME_SZB :: "64 word" where "FRAME_SZB = SPILL_SZB + SAVE_AREA + PAD_SZB"

section \<open>The generators\<close>

text \<open>What a generator does, in order: print lines, print a constant, print a value and record it under its tag, the same
  for a field of the vproc, print the magic number of what was recorded so far. The offset of a field depends on the compiler of the
  runtime, and is a parameter.\<close>

datatype gen_item =
    Note "string list"
  | Define string "64 word"
  | Val string string "64 word"
  | VpOff "string \<times> string"
  | Magic string

type_synonym vp_layout = "string \<Rightarrow> 32 word"

definition hex_digit :: "nat \<Rightarrow> char" where
  "hex_digit d = ''0123456789abcdef'' ! d"

fun show_hex :: "nat \<Rightarrow> string" where
  "show_hex n = (if n < 16 then [hex_digit n] else show_hex (n div 16) @ [hex_digit (n mod 16)])"

definition pr_hex :: "64 word \<Rightarrow> string" where
  "pr_hex w = (if w = 0 then ''0'' else ''0x'' @ show_hex (unat w))"

definition recorded :: "vp_layout \<Rightarrow> gen_item \<Rightarrow> (string \<times> 64 word) list" where
  "recorded vpo i = (case i of Val tag var v \<Rightarrow> [(tag, v)] | VpOff (var, lab) \<Rightarrow> [(lab, ucast (vpo lab))] | _ \<Rightarrow> [])"

definition record_item :: "vp_layout \<Rightarrow> 8 word list \<Rightarrow> gen_item \<Rightarrow> 8 word list" where
  "record_item vpo bp i = crc_data bp (recorded vpo i)"

definition print_item :: "(string \<Rightarrow> string \<Rightarrow> string) \<Rightarrow> vp_layout \<Rightarrow> (gen_item \<Rightarrow> string) \<Rightarrow> 8 word list \<Rightarrow> gen_item \<Rightarrow> string list" where
  "print_item PR_DEFINE vpo PR_VP bp i = (case i of
      Note ls \<Rightarrow> ls
    | Define var v \<Rightarrow> [PR_DEFINE var (pr_hex v)]
    | Val tag var v \<Rightarrow> [PR_DEFINE var (pr_hex v)]
    | VpOff (var, lab) \<Rightarrow> [PR_DEFINE (PR_VP i) (pr_hex (ucast (vpo lab)))]
    | Magic var \<Rightarrow> [PR_DEFINE var (pr_hex (ucast (CRC32 bp)))])"

text \<open>A generator prints its items from left to right; what it has recorded is in a buffer of 8 KB.\<close>

fun generate :: "(string \<Rightarrow> string \<Rightarrow> string) \<Rightarrow> vp_layout \<Rightarrow> (gen_item \<Rightarrow> string) \<Rightarrow> 8 word list \<Rightarrow> gen_item list \<Rightarrow> string list \<times> 8 word list" where
  "generate PR_DEFINE vpo PR_VP bp [] = ([], bp)"
| "generate PR_DEFINE vpo PR_VP bp (i # is) =
    (case generate PR_DEFINE vpo PR_VP (record_item vpo bp i) is of (ls, bp') \<Rightarrow> (print_item PR_DEFINE vpo PR_VP bp i @ ls, bp'))"

definition c_define :: "string \<Rightarrow> string \<Rightarrow> string" where
  "c_define symb v = ''#define '' @ symb @ '' '' @ v"

definition sml_val :: "string \<Rightarrow> string \<Rightarrow> string" where
  "sml_val symb v = ''    val '' @ symb @ '' : IntInf.int = '' @ v"

text \<open>The C headers name the offset of a field by its constant, the SML structure by its label.\<close>

definition vp_symb :: "gen_item \<Rightarrow> string" where
  "vp_symb i = (case i of VpOff (var, lab) \<Rightarrow> var | _ \<Rightarrow> [])"

definition vp_lab :: "gen_item \<Rightarrow> string" where
  "vp_lab i = (case i of VpOff (var, lab) \<Rightarrow> lab | _ \<Rightarrow> [])"

definition asm_items :: "gen_item list" where
  "asm_items =
    [Note [''#ifndef _ASM_OFFSETS_H_''],
     Note [''#define _ASM_OFFSETS_H_''],
     Note [[], ''#ifdef NOT_C_SOURCE''],
     Note [[], ''/* offsets into the VProc_t structure */'']] @
    map VpOff vproc_offsets @
    [Note [[], ''/* mask to get address of VProc from alloc pointer */''],
     Val ''vpMask'' ''VP_MASK'' (NOT (VP_HEAP_SZB - 1)),
     Note [[], ''/* offsets into the log buffer */''],
     Val ''logBufferSz'' ''LOGBUF_SZ'' (word_of_nat LOGBUF_SZ),
     Val ''next'' ''LOGBUF_NEXT_OFFSET'' (4),
     Val ''log'' ''LOGBUF_START_OFFSET'' (word_of_nat LOGEVENT_SZB),
     Note [[], ''/* offsets into a log event */''],
     Val ''logEventSzB'' ''LOG_EVENT_SZB'' (word_of_nat LOGEVENT_SZB),
     Val ''event'' ''LOG_EVENT_KIND_OFFSET'' (8),
     Val ''data'' ''LOG_EVENT_DATA_OFFSET'' (12),
     Note [[], ''/* constants for the scheduler-action stack elements */''],
     Define ''ACTCONS_HDR'' (VEC_HDR 2),
     Define ''ACTCONS_SZB'' (2 * WORD_SZB + WORD_SZB),
     Define ''ACTCONS_ACT'' (0),
     Define ''ACTCONS_LINK'' (8),
     Note [[], ''/* Stack-frame size */''],
     Define ''FRAME_SZB'' (FRAME_SZB),
     Note [[], ''/* request codes for when Manticore returns to C */''],
     Define ''REQ_GC'' (word_of_int (request_number REQ_GC)),
     Define ''REQ_Return'' (word_of_int (request_number REQ_Return)),
     Define ''REQ_UncaughtExn'' (word_of_int (request_number REQ_UncaughtExn)),
     Define ''REQ_Sleep'' (word_of_int (request_number REQ_Sleep)),
     Note [[], ''/* common Manticore unboxed values */''],
     Define ''M_UNIT'' (M_UNIT),
     Define ''M_FALSE'' (M_FALSE),
     Define ''M_TRUE'' (M_TRUE),
     Define ''M_NIL'' (M_NIL),
     Note [[], ''#endif /* NOT_C_SOURCE */''],
     Note [[], ''/* magic number */''],
     Magic ''RUNTIME_MAGIC'',
     Note [[], ''#endif'']]"

definition basis_items :: "gen_item list" where
  "basis_items =
    [Note [''/* runtime-offsets.def''],
     Note ['' *''],
     Note ['' * WARNING: this file is generated; do not edit!!!''],
     Note ['' */''],
     Note [[], ''#ifndef _RUNTIME_OFFSETS_DEF_''],
     Note [[], ''#define _RUNTIME_OFFSETS_DEF_'']] @
    map VpOff vproc_offsets @
    [Note [[], ''/* mask to get address of VProc from alloc pointer */''],
     Val ''vpMask'' ''VP_MASK'' (NOT (VP_HEAP_SZB - 1)),
     Note [[], ''/* offsets into the log buffer */''],
     Val ''logBufferSz'' ''LOGBUF_SZ'' (word_of_nat LOGBUF_SZ),
     Val ''next'' ''LOGBUF_NEXT_OFFSET'' (4),
     Val ''log'' ''LOGBUF_START_OFFSET'' (word_of_nat LOGEVENT_SZB),
     Note [[], ''/* offsets into a log event */''],
     Val ''logEventSzB'' ''LOG_EVENT_SZB'' (word_of_nat LOGEVENT_SZB),
     Val ''event'' ''LOG_EVENT_KIND_OFFSET'' (8),
     Val ''data'' ''LOG_EVENT_DATA_OFFSET'' (12),
     Note [[], ''/* magic number */''],
     Magic ''MAGIC'',
     Note [''#endif /* !_RUNTIME_OFFSETS_DEF_ */'']]"

definition constants_items :: "gen_item list" where
  "constants_items =
    [Note [''structure RuntimeConstants : RUNTIME_CONSTANTS =''],
     Note [''  struct''],
     Note [[], ''  (* word size and alignment *)''],
     Define ''wordSzB'' (8),
     Define ''wordAlignB'' (8),
     Define ''boolSzB'' (8),
     Define ''extendedAlignB'' (8),
     Note [[], ''  (* stack size and heap size info *)''],
     Define ''spillAreaSzB'' (SPILL_SZB),
     Define ''spillAreaOffB'' (SAVE_AREA + PAD_SZB),
     Define ''maxObjectSzB'' ((2 ^ (64 - TABLE_LEN_ID - TABLE_TAG_BITS) - 1) * 8),
     Note [[], ''  (* allocation slop in nursery *)''],
     Define ''nurseryAllocSlopSzb'' (ALLOC_BUF_SZB),
     Note [[], ''  (* minimum size of the nursery *)''],
     Define ''nurseryMinSzb'' (MIN_NURSERY_SZB),
     Note [[], ''  (* offsets into the VProc_t structure *)'']] @
    map VpOff vproc_offsets @
    [Note [[], ''  (* mask to get address of VProc from alloc pointer *)''],
     Val ''vpMask'' ''vpMask'' (NOT (VP_HEAP_SZB - 1)),
     Note [[], ''  (* offsets into the log buffer *)''],
     Val ''logBufferSz'' ''logBufferSz'' (word_of_nat LOGBUF_SZ),
     Val ''next'' ''logBufNext'' (4),
     Val ''log'' ''logBufLog'' (word_of_nat LOGEVENT_SZB),
     Note [[], ''  (* offsets into a log event *)''],
     Val ''logEventSzB'' ''logEventSzB'' (word_of_nat LOGEVENT_SZB),
     Val ''event'' ''logEventEvent'' (8),
     Val ''data'' ''logEventData'' (12),
     Note [[], ''  (* magic number *)''],
     Magic ''magic'',
     Note [[], ''  end (* RuntimeConstants *)'']]"

definition gen_asm_offsets :: "vp_layout \<Rightarrow> string list \<times> 8 word list" where
  "gen_asm_offsets vpo = generate c_define vpo vp_symb [] asm_items"

definition gen_basis_offsets :: "vp_layout \<Rightarrow> string list \<times> 8 word list" where
  "gen_basis_offsets vpo = generate c_define vpo vp_symb [] basis_items"

definition gen_runtime_constants :: "vp_layout \<Rightarrow> string list \<times> 8 word list" where
  "gen_runtime_constants vpo = generate sml_val vpo vp_lab [] constants_items"

section \<open>All three record the same\<close>

text \<open>What is recorded after the fields of the vproc.\<close>

definition log_entries :: "(string \<times> 64 word) list" where
  "log_entries = [(''vpMask'', NOT (VP_HEAP_SZB - 1)), (''logBufferSz'', word_of_nat LOGBUF_SZ), (''next'', 4),
     (''log'', word_of_nat LOGEVENT_SZB), (''logEventSzB'', word_of_nat LOGEVENT_SZB), (''event'', 8), (''data'', 12)]"

definition runtime_entries :: "vp_layout \<Rightarrow> (string \<times> 64 word) list" where
  "runtime_entries vpo = map (\<lambda>(var, lab). (lab, ucast (vpo lab))) vproc_offsets @ log_entries"

lemma crc_data_concat: "crc_data buf (es @ fs) = crc_data (crc_data buf es) fs"
  by (induction es arbitrary: buf) auto

lemma generate_records: "snd (generate D vpo V bp is) = crc_data bp (concat (map (recorded vpo) is))"
  by (induction "is" arbitrary: bp) (auto simp: record_item_def crc_data_concat case_prod_unfold)

lemma recorded_vp: "concat (map (recorded vpo) (map VpOff es)) = map (\<lambda>(var, lab). (lab, ucast (vpo lab))) es"
  by (induction es) (auto simp: recorded_def)

lemma items_record:
  "concat (map (recorded vpo) asm_items) = runtime_entries vpo"
  "concat (map (recorded vpo) basis_items) = runtime_entries vpo"
  "concat (map (recorded vpo) constants_items) = runtime_entries vpo"
  by (simp_all only: asm_items_def basis_items_def constants_items_def map_append concat_append recorded_vp runtime_entries_def)
    (simp_all add: recorded_def log_entries_def)

lemma length_crc_data: "length (crc_data buf es) = length buf + sum_list (map (\<lambda>(lab, v). length lab + 4) es)"
  by (induction es arbitrary: buf) (auto simp: AddCRCData_def)

lemma generators_record:
  "snd (gen_asm_offsets vpo) = crc_data [] (runtime_entries vpo)"
  "snd (gen_basis_offsets vpo) = crc_data [] (runtime_entries vpo)"
  "snd (gen_runtime_constants vpo) = crc_data [] (runtime_entries vpo)"
  by (simp_all add: gen_asm_offsets_def gen_basis_offsets_def gen_runtime_constants_def generate_records items_record)

text \<open>The three generators take the checksum of the same bytes, so the assembly code, the compiler's basis and
  the runtime constants all carry the magic number the runtime itself computes.\<close>

theorem generators_agree:
  "snd (gen_asm_offsets vpo) = crc_data [] (runtime_entries vpo) \<and>
   snd (gen_basis_offsets vpo) = snd (gen_asm_offsets vpo) \<and>
   snd (gen_runtime_constants vpo) = snd (gen_asm_offsets vpo) \<and>
   length (snd (gen_asm_offsets vpo)) \<le> 8 * 1024"
  by (simp add: generators_record length_crc_data) (simp add: runtime_entries_def vproc_offsets_def log_entries_def)

text \<open>The offsets into a log buffer and an event are where the bytes of the two are.\<close>

lemma log_offsets:
  "get32 (LogBuffer_bytes b) 4 = Some (word_of_int (lb_next b))"
  "length (lb_pad b) = LOGEVENT_SZB - 12 \<Longrightarrow> drop LOGEVENT_SZB (LogBuffer_bytes b) = concat (map event_bytes (lb_log b))"
  "get32 (event_bytes e) 8 = Some (le_event e)"
  "drop 12 (event_bytes e) = concat (map bytes32 (le_data e))"
proof -
  have "length (bytes32 (lb_vpId b)) = 4" "length (bytes64 (le_timestamp e)) = 8" by simp_all
  from get32_here [OF this(1)] get32_here [OF this(2)] show
    "get32 (LogBuffer_bytes b) 4 = Some (word_of_int (lb_next b))" "get32 (event_bytes e) 8 = Some (le_event e)"
    by (simp_all add: LogBuffer_bytes_def event_bytes_def)
qed (simp_all add: LogBuffer_bytes_def LOGEVENT_SZB_def event_bytes_def)

section \<open>What the magic number detects\<close>

definition layout_magic :: "vp_layout \<Rightarrow> 32 word" where
  "layout_magic vpo = CRC32 (snd (gen_asm_offsets vpo))"

lemma layout_magic_RUNTIME_MAGIC: "layout_magic vpo = RUNTIME_MAGIC (runtime_entries vpo)"
  by (simp add: layout_magic_def RUNTIME_MAGIC_def gen_asm_offsets_def generate_records items_record)

lemma entries_change:
  assumes "lab \<notin> snd ` set es" and "lab \<notin> snd ` set fs"
  shows "map (\<lambda>(var, l). (l, ucast ((vpo(lab := v)) l))) (es @ (c, lab) # fs) =
    map (\<lambda>(var, l). (l, ucast (vpo l))) es @ (lab, ucast v) # map (\<lambda>(var, l). (l, ucast (vpo l) :: 64 word)) fs"
  using assms by (force intro!: map_cong)

lemma ucast_up_down: "(ucast (ucast w :: 64 word) :: 32 word) = w" for w :: "32 word"
  by (rule bit_word_eqI) (simp add: bit_simps)

definition recorded_once :: "string \<Rightarrow> bool" where
  "recorded_once lab \<longleftrightarrow> length (filter (\<lambda>l. l = lab) (map snd vproc_offsets)) = 1"

lemma once_split:
  "length (filter (\<lambda>l. l = lab) (map snd xs)) = 1 \<Longrightarrow>
   \<exists>es c fs. xs = es @ (c, lab) # fs \<and> lab \<notin> snd ` set es \<and> lab \<notin> snd ` set fs"
proof (induction xs)
  case (Cons x xs)
  show ?case
  proof (cases "snd x = lab")
    case True
    then have "lab \<notin> snd ` set xs" using Cons.prems by (force simp: filter_empty_conv)
    then show ?thesis using True by (intro exI [of _ "[]"]) (cases x, auto)
  next
    case False
    then obtain es c fs where "xs = es @ (c, lab) # fs" "lab \<notin> snd ` set es" "lab \<notin> snd ` set fs"
      using Cons by auto
    then show ?thesis using False by (intro exI [of _ "x # es"]) auto
  qed
qed simp

text \<open>C23: A program compiled against a structure of the vproc in which one field, recorded once, is at another
  offset is refused at start-up: the runtime of the changed layout computes another magic number.\<close>

theorem layout_change_detected:
  assumes "recorded_once lab" and "v \<noteq> vpo lab"
    and "mantMagic env = CRC32 (snd (gen_runtime_constants vpo))" and "runtimeMagic env = CRC32 (snd (gen_asm_offsets (vpo(lab := v))))"
  shows "rt_main env av = None \<or> rt_main env av = Some Usage"
proof -
  obtain es c fs where x: "vproc_offsets = es @ (c, lab) # fs" "lab \<notin> snd ` set es" "lab \<notin> snd ` set fs"
    using once_split [OF assms(1) [unfolded recorded_once_def]] by blast
  let ?e = "\<lambda>xs. map (\<lambda>(var, l). (l, ucast (vpo l) :: 64 word)) xs"
  have r: "runtime_entries (vpo(lab := u)) = ?e es @ (lab, ucast u) # (?e fs @ log_entries)" for u
    unfolding runtime_entries_def x(1) entries_change [OF x(2,3)] by simp
  have m: "CRC32 (snd (gen_asm_offsets (vpo(lab := u)))) = RUNTIME_MAGIC (?e es @ (lab, ucast u) # (?e fs @ log_entries))" for u
    using layout_magic_RUNTIME_MAGIC [of "vpo(lab := u)"] unfolding r layout_magic_def .
  have "snd (gen_runtime_constants vpo) = snd (gen_asm_offsets (vpo(lab := vpo lab)))"
    unfolding fun_upd_triv generators_record ..
  then have "mantMagic env = RUNTIME_MAGIC (?e es @ (lab, ucast (vpo lab)) # (?e fs @ log_entries))"
    unfolding assms(3) by (simp only: m)
  moreover have "runtimeMagic env = RUNTIME_MAGIC (?e es @ (lab, ucast v) # (?e fs @ log_entries))"
    unfolding assms(4) by (rule m)
  moreover have "(ucast (ucast (vpo lab) :: 64 word) :: 32 word) \<noteq> ucast (ucast v :: 64 word)"
    unfolding ucast_up_down using assms(2) by (rule not_sym)
  ultimately have "mantMagic env \<noteq> runtimeMagic env"
    by (simp only: RUNTIME_MAGIC_detects not_False_eq_True)
  then show ?thesis by (simp add: rt_main_def Let_def split: prod.split)
qed

theorem layout_change_detected_witness:
  "rt_main (ex_env\<lparr>mantMagic := CRC32 (snd (gen_runtime_constants (\<lambda>lab. 8))),
      runtimeMagic := CRC32 (snd (gen_asm_offsets ((\<lambda>lab. 8)(''limitPtr'' := 16))))\<rparr>) [''prog''] \<in> {None, Some Usage}"
proof -
  have "recorded_once ''limitPtr''" by (simp add: recorded_once_def vproc_offsets_def)
  from layout_change_detected [OF this, of 16 "\<lambda>lab. 8"] show ?thesis by simp
qed

end
