(* ===== verification/Picture_Output.thy ===== *)
theory Picture_Output
  imports Event_Log C_Strings
begin

text \<open>
Pictures for the benchmark programs (include/image.h, misc/image.c, misc/image-sock.c). Conversions between floating
point and bytes are parameters. Lemmas: a new image has a pixel per point and an update with coordinates in range stays
in bounds; the image server gets every pixel of a square image, by columns, and code that indexes outside the pixels of
an image wider than high.
\<close>

section \<open>Images\<close>

definition MAX_SZ :: int where "MAX_SZ = 4096"

text \<open>A pixel is 8 bytes, of which the first four are used.\<close>

type_synonym Pixel_t = "8 word list"

record Image_t =
  wid :: "32 word"
  ht :: "32 word"
  pixels :: "Pixel_t list"

text \<open>The colours are floating-point numbers, single or double; their type and the operations on them are parameters.\<close>

record 'f float_ops =
  flt :: "'f \<Rightarrow> 'f \<Rightarrow> bool"
  fzero :: 'f
  fone :: 'f
  fbyte :: "'f \<Rightarrow> 8 word"

definition clampf :: "'f float_ops \<Rightarrow> 'f \<Rightarrow> 'f" where
  "clampf F f = (if flt F f (fzero F) then fzero F else if flt F (fone F) f then fone F else f)"

definition clampd :: "'f float_ops \<Rightarrow> 'f \<Rightarrow> 'f" where
  "clampd F d = (if flt F d (fzero F) then fzero F else if flt F (fone F) d then fone F else d)"

text \<open>\<open>img_ok\<close> and \<open>raw\<close> are the answers of the allocator: is there a header, and the memory for the pixels.\<close>

definition M_NewImage :: "bool \<Rightarrow> (nat \<Rightarrow> Pixel_t list option) \<Rightarrow> int \<Rightarrow> int \<Rightarrow> Image_t option" where
  "M_NewImage img_ok raw wd h =
    (if wd \<le> 0 \<or> MAX_SZ < wd \<or> h \<le> 0 \<or> MAX_SZ < h then None
     else if \<not> img_ok then None
     else map_option (\<lambda>px. \<lparr>wid = word_of_int wd, ht = word_of_int h, pixels = px\<rparr>) (raw (nat (wd * h))))"

definition M_FreeImage :: "Image_t option \<Rightarrow> Image_t option" where
  "M_FreeImage img = None"

definition set_pixel :: "8 word \<Rightarrow> 8 word \<Rightarrow> 8 word \<Rightarrow> Pixel_t \<Rightarrow> Pixel_t" where
  "set_pixel r g b px = [r, g, b, 255] @ drop 4 px"

definition update_image :: "('f \<Rightarrow> 8 word) \<Rightarrow> Image_t option \<Rightarrow> 32 word \<Rightarrow> 32 word \<Rightarrow> 'f \<Rightarrow> 'f \<Rightarrow> 'f \<Rightarrow> Image_t option" where
  "update_image chan img row col r g b = (case img of
      None \<Rightarrow> None
    | Some im \<Rightarrow> if wid im \<le> col \<or> ht im \<le> row then Some im
        else let i = nat (sint (wid im * row + col))
          in Some (im\<lparr>pixels := (pixels im)[i := set_pixel (chan r) (chan g) (chan b) (pixels im ! i)]\<rparr>))"

definition M_UpdateImage3f :: "'f float_ops \<Rightarrow> Image_t option \<Rightarrow> 32 word \<Rightarrow> 32 word \<Rightarrow> 'f \<Rightarrow> 'f \<Rightarrow> 'f \<Rightarrow> Image_t option" where
  "M_UpdateImage3f F = update_image (\<lambda>f. fbyte F (clampf F f))"

definition M_UpdateImage3d :: "'f float_ops \<Rightarrow> Image_t option \<Rightarrow> 32 word \<Rightarrow> 32 word \<Rightarrow> 'f \<Rightarrow> 'f \<Rightarrow> 'f \<Rightarrow> Image_t option" where
  "M_UpdateImage3d F = update_image (\<lambda>d. fbyte F (clampd F d))"

text \<open>The file: a header and three bytes per pixel.\<close>

definition ppm_header :: "Image_t \<Rightarrow> byte list" where
  "ppm_header im = map of_char (''P6'' @ [CHR 0x0A] @ show_int (sint (wid im)) @ '' '' @ show_int (sint (ht im)) @ '' 255'' @ [CHR 0x0A])"

definition rgb :: "Pixel_t \<Rightarrow> byte list" where "rgb px = take 3 px"

definition M_OutputImage :: "Image_t \<Rightarrow> byte list" where
  "M_OutputImage im = ppm_header im @ concat (map (\<lambda>i. rgb (pixels im ! i)) [0..<unat (wid im * ht im)])"

section \<open>The image server\<close>

text \<open>Opening a connection: the answers of the calls are arguments; the result, and what is printed.\<close>

definition M_OpenSocket :: "bool \<Rightarrow> int \<Rightarrow> int \<Rightarrow> int \<times> string" where
  "M_OpenSocket host fd conn =
    (if \<not> host then (- 1, ''ghbn failed'')
     else if fd = - 1 then (- 2, ''socket failed'')
     else if conn = - 1 then (- 3, ''connect failed'')
     else (fd, ''win-open''))"

datatype Events_t = RENDER | QUIT

definition EAGAIN :: int where "EAGAIN = 11"

text \<open>The event received, \<open>None\<close> when there is none. \<open>evt\<close> is what is in the variable after the call, whatever number of bytes came.\<close>

definition M_ReadEvent :: "int \<Rightarrow> Events_t \<Rightarrow> Events_t option" where
  "M_ReadEvent result evt = (if result = EAGAIN \<or> result < 0 then None else Some evt)"

text \<open>Three bytes per pixel in a buffer whose bytes start undefined; \<open>None\<close>: an access outside the buffer or the pixels.\<close>

definition copy_pixel :: "Image_t \<Rightarrow> nat \<Rightarrow> nat \<Rightarrow> byte option list option \<Rightarrow> byte option list option" where
  "copy_pixel im i j buf = do {
     b \<leftarrow> buf;
     let k = i * unat (wid im) * 3 + j * 3;
     let s = i * unat (wid im) + j;
     if k + 2 < length b \<and> s < length (pixels im)
       then Some (b[k := Some (pixels im ! s ! 0), k + 1 := Some (pixels im ! s ! 1), k + 2 := Some (pixels im ! s ! 2)]) else None }"

definition copy_column :: "Image_t \<Rightarrow> nat \<Rightarrow> byte option list option \<Rightarrow> byte option list option" where
  "copy_column im i buf = fold (copy_pixel im i) [0..<unat (ht im)] buf"

definition copy_image :: "Image_t \<Rightarrow> byte option list option" where
  "copy_image im = fold (copy_column im) [0..<unat (wid im)] (Some (replicate (unat (wid im) * unat (ht im) * 3) None))"

definition M_WriteImage :: "Image_t \<Rightarrow> byte option list option" where
  "M_WriteImage im = map_option (\<lambda>b. map Some (bytes32 (wid im) @ bytes32 (ht im)) @ b) (copy_image im)"

section \<open>Pixels stay in bounds\<close>

definition image_ok :: "Image_t \<Rightarrow> bool" where
  "image_ok im \<longleftrightarrow> 0 < unat (wid im) \<and> unat (wid im) \<le> 4096 \<and> 0 < unat (ht im) \<and> unat (ht im) \<le> 4096 \<and>
     length (pixels im) = unat (wid im) * unat (ht im) \<and> list_all (\<lambda>px. length px = 8) (pixels im)"

lemma M_NewImage_ok:
  assumes "M_NewImage ok raw wd h = Some im" and "\<And>n px. raw n = Some px \<Longrightarrow> length px = n \<and> list_all (\<lambda>p. length p = 8) px"
  shows "image_ok im"
proof -
  have r: "0 < wd" "wd \<le> 4096" "0 < h" "h \<le> 4096" and px: "raw (nat (wd * h)) = Some (pixels im)"
    and im: "wid im = word_of_int wd" "ht im = word_of_int h"
    using assms(1) by (auto simp: M_NewImage_def MAX_SZ_def split: if_splits)
  have "unat (word_of_int i :: 32 word) = nat i" if "0 < i" "i \<le> 4096" for i
    using that word_of_nat_eq_iff [where 'a = 32] unat_of_nat [where 'a = 32, of "nat i"] by simp
  then show ?thesis using r im assms(2) [OF px] by (simp add: image_ok_def nat_mult_distrib nat_le_iff)
qed

lemma pixel_index:
  assumes "image_ok im" and "col < wid im" and "row < ht im"
  shows "nat (sint (wid im * row + col)) = unat (wid im) * unat row + unat col"
    and "unat (wid im) * unat row + unat col < length (pixels im)"
proof -
  have c: "unat col < unat (wid im)" "unat row < unat (ht im)" using assms by (simp_all add: word_less_nat_alt)
  then have "unat (wid im) * unat row + unat (wid im) \<le> unat (wid im) * unat (ht im)"
    by (metis Suc_leI add.commute mult_Suc_right mult_le_mono2)
  then show b: "unat (wid im) * unat row + unat col < length (pixels im)"
    using c(1) assms(1) by (simp add: image_ok_def)
  have "unat (wid im) * unat (ht im) \<le> 4096 * 4096" using assms(1) by (intro mult_le_mono) (simp_all add: image_ok_def)
  then have l: "unat (wid im) * unat row + unat col < 2 ^ 31" using b assms(1) by (simp add: image_ok_def)
  have "wid im * row + col = word_of_nat (unat (wid im) * unat row + unat col)" by simp
  moreover have "sint (word_of_nat n :: 32 word) = int n" if "n < 2 ^ 31" for n
    using that by (simp add: signed_of_nat signed_take_bit_int_eq_self)
  ultimately show "nat (sint (wid im * row + col)) = unat (wid im) * unat row + unat col" using l by (metis nat_int)
qed

lemma update_image_ok:
  assumes "image_ok im"
  shows "\<exists>im'. update_image chan (Some im) row col r g b = Some im' \<and> image_ok im'"
proof (cases "col < wid im \<and> row < ht im")
  case True
  let ?i = "unat (wid im) * unat row + unat col"
  have "length (pixels im ! ?i) = 8"
    using assms pixel_index(2) [OF assms] True by (auto simp: image_ok_def list_all_length)
  then show ?thesis using assms True pixel_index [OF assms]
    by (auto simp: update_image_def Let_def not_le image_ok_def set_pixel_def list_all_length nth_list_update)
next
  case False
  then show ?thesis using assms by (auto simp: update_image_def not_le)
qed

section \<open>What the image server gets\<close>

definition copied :: "Image_t \<Rightarrow> nat \<Rightarrow> byte option list" where
  "copied im s = map Some (concat (map (\<lambda>s. rgb (pixels im ! s)) [0..<s])) @ replicate (3 * (length (pixels im) - s)) None"

lemma length_rgb: "image_ok im \<Longrightarrow> s < length (pixels im) \<Longrightarrow> length (rgb (pixels im ! s)) = 3"
  by (simp add: rgb_def image_ok_def list_all_length)

lemma length_copied_part:
  "image_ok im \<Longrightarrow> s \<le> length (pixels im) \<Longrightarrow> length (concat (map (\<lambda>s. rgb (pixels im ! s)) [0..<s])) = 3 * s"
  by (induction s) (simp_all add: length_rgb)

lemma three_bytes: "length px = 8 \<Longrightarrow> rgb px = [px ! 0, px ! 1, px ! 2]"
  by (auto simp: rgb_def numeral_eq_Suc length_Suc_conv)

lemma write_three: "(xs @ replicate (Suc (Suc (Suc n))) z)[length xs := a, length xs + 1 := b, length xs + 2 := c] = xs @ [a, b, c] @ replicate n z"
  by (simp add: list_update_append numeral_2_eq_2)

lemma copy_pixel_copied:
  assumes "image_ok im" and "s < length (pixels im)" and "s = i * unat (wid im) + j"
  shows "copy_pixel im i j (Some (copied im s)) = Some (copied im (Suc s))"
proof -
  let ?done = "map Some (concat (map (\<lambda>s. rgb (pixels im ! s)) [0..<s]))"
  obtain n where n: "length (pixels im) - s = Suc n" using assms(2) by (metis Suc_diff_Suc)
  have l: "length ?done = 3 * s" using length_copied_part [OF assms(1)] assms(2) by simp
  have k: "i * unat (wid im) * 3 + j * 3 = 3 * s" using assms(3) by simp
  have c: "copied im s = ?done @ replicate (Suc (Suc (Suc (3 * n)))) None" by (simp add: copied_def n numeral_3_eq_3)
  have r: "rgb (pixels im ! s) = [pixels im ! s ! 0, pixels im ! s ! 1, pixels im ! s ! 2]"
    using assms(1,2) by (intro three_bytes) (simp add: image_ok_def list_all_length)
  have "length (pixels im) - Suc s = n" using n by simp
  then have "copied im (Suc s) = ?done @ map Some (rgb (pixels im ! s)) @ replicate (3 * n) None"
    by (simp add: copied_def)
  then show ?thesis unfolding copy_pixel_def c k assms(3) [symmetric] r
    using assms(2) l write_three [of ?done "3 * n" None] by (simp add: Let_def)
qed

lemma M_WriteImage_square:
  assumes "image_ok im" and "wid im = ht im"
  shows "M_WriteImage im =
    Some (map Some (bytes32 (wid im) @ bytes32 (ht im) @ concat (map (\<lambda>s. rgb (pixels im ! s)) [0..<length (pixels im)])))"
proof -
  let ?w = "unat (wid im)"
  have n: "length (pixels im) = ?w * ?w" using assms by (simp add: image_ok_def)
  have row: "i < ?w \<Longrightarrow> j \<le> ?w \<Longrightarrow> fold (copy_pixel im i) [0..<j] (Some (copied im (i * ?w))) = Some (copied im (i * ?w + j))" for i j
  proof (induction j)
    case (Suc j)
    have "i * ?w + j < (i + 1) * ?w" using Suc.prems by simp
    also have "\<dots> \<le> ?w * ?w" using Suc.prems by (intro mult_le_mono1) simp
    finally show ?case using Suc copy_pixel_copied [OF assms(1)] n by simp
  qed simp
  have "i \<le> ?w \<Longrightarrow> fold (copy_column im) [0..<i] (Some (copied im 0)) = Some (copied im (i * ?w))" for i
  proof (induction i)
    case (Suc i)
    then show ?case using row [of i ?w] assms(2) by (simp add: copy_column_def add.commute)
  qed simp
  from this [of ?w] have "copy_image im = Some (copied im (?w * ?w))"
    using n assms(2) by (simp add: copy_image_def copied_def mult.commute)
  then show ?thesis using n by (simp add: M_WriteImage_def copied_def)
qed

text \<open>A picture that is wider than high makes the server write and read outside its buffers.\<close>

lemma copy_pixel_length: "buf = None \<or> length (the buf) = n \<Longrightarrow> copy_pixel im i j buf = None \<or> length (the (copy_pixel im i j buf)) = n"
  by (cases buf) (auto simp: copy_pixel_def Let_def)

lemma fold_length:
  assumes "\<And>x buf. buf = None \<or> length (the buf) = (n :: nat) \<Longrightarrow> f x buf = None \<or> length (the (f x buf)) = n"
  shows "buf = None \<or> length (the buf) = n \<Longrightarrow> fold f xs buf = None \<or> length (the (fold f xs buf)) = n"
  using assms by (induction xs arbitrary: buf) (auto simp del: not_None_eq)

lemma M_WriteImage_wide:
  assumes "image_ok im" and "ht im < wid im"
  shows "M_WriteImage im = None"
proof -
  let ?w = "unat (wid im)" and ?h = "unat (ht im)"
  have h: "0 < ?h" "?h < ?w" using assms by (simp_all add: image_ok_def word_less_nat_alt)
  obtain w h' where wh: "?w = Suc w" "?h = Suc h'" using h by (metis gr0_conv_Suc less_trans)
  have cp: "buf = None \<or> length (the buf) = n \<Longrightarrow> fold (copy_pixel im i) xs buf = None \<or> length (the (fold (copy_pixel im i) xs buf)) = n"
    for i xs buf n by (rule fold_length [OF copy_pixel_length])
  have cl: "buf = None \<or> length (the buf) = n \<Longrightarrow> copy_column im i buf = None \<or> length (the (copy_column im i buf)) = n" for i buf n
    unfolding copy_column_def by (rule cp)
  let ?b = "fold (copy_column im) [0..<w] (Some (replicate (?w * ?h * 3) None))"
  have "?b = None \<or> length (the ?b) = ?w * ?h * 3" by (rule fold_length [OF cl]) auto
  then have "fold (copy_pixel im w) [0..<h'] ?b = None \<or> length (the (fold (copy_pixel im w) [0..<h'] ?b)) = ?w * ?h * 3"
    by (rule cp)
  moreover have "?w * ?h \<le> w * ?w + h'"
  proof -
    obtain d where "w = ?h + d" using h wh by (metis Suc_leI add.commute le_iff_add less_Suc_eq_le)
    then show ?thesis by (simp add: wh algebra_simps)
  qed
  then have "\<not> w * ?w * 3 + h' * 3 + 2 < ?w * ?h * 3" by linarith
  ultimately have "copy_pixel im w h' (fold (copy_pixel im w) [0..<h'] ?b) = None"
    by (cases "fold (copy_pixel im w) [0..<h'] ?b") (simp_all add: copy_pixel_def Let_def)
  then have "copy_column im w ?b = None" by (simp add: copy_column_def wh)
  then have "copy_image im = None" by (simp add: copy_image_def wh)
  then show ?thesis by (simp add: M_WriteImage_def)
qed

end
