(* ===== verification/Log_View.thy ===== *)
theory Log_View
  imports Log_Reader Log_Desc
begin

text \<open>
The log file of the viewer (tools/log-view/src/log-file.hxx, log-file.cxx): attributes of events, time stamps, traces
of the vprocs, loading a file. The description of the events is that of \<^verbatim>\<open>Log_Desc\<close>; the kinds of events, which that
description no longer has, are a parameter. The bytes of the file are those of \<^verbatim>\<open>Log_Reader\<close>. Lemmas: no file is ever
loaded, since the attributes of the sentinels are asked for with a null event; time stamps do not wrap; an identifier is
taken apart into vproc and index.
\<close>

section \<open>Events in memory\<close>

text \<open>The kinds of events the viewer tells apart. The description of an event has no such field in this repository, so
  the kind of a description is a parameter.\<close>

datatype EventKind = LOG_EVENT | LOG_START | LOG_END | LOG_SRC | LOG_DST

datatype EventAttrs =
    SimpleEventAttrs EventDesc
  | WithArgsAttrs EventDesc "ArgValue list"
  | IntervalEventAttrs EventDesc "64 word" "64 word"
  | IntervalWithArgsAttrs EventDesc "ArgValue list" "64 word" "64 word"
  | DependentEventAttrs EventDesc "ArgValue list" "64 word option" "64 word"

definition attrs_desc :: "EventAttrs \<Rightarrow> EventDesc" where
  "attrs_desc a = (case a of SimpleEventAttrs d \<Rightarrow> d | WithArgsAttrs d _ \<Rightarrow> d | IntervalEventAttrs d _ _ \<Rightarrow> d
     | IntervalWithArgsAttrs d _ _ _ \<Rightarrow> d | DependentEventAttrs d _ _ _ \<Rightarrow> d)"

definition attrs_args :: "EventAttrs \<Rightarrow> ArgValue list" where
  "attrs_args a = (case a of SimpleEventAttrs d \<Rightarrow> [] | WithArgsAttrs d as \<Rightarrow> as | IntervalEventAttrs d _ _ \<Rightarrow> []
     | IntervalWithArgsAttrs d as _ _ \<Rightarrow> as | DependentEventAttrs d as _ _ \<Rightarrow> as)"

text \<open>The arguments of a raw event, given as the bytes of the event; \<open>None\<close>: reading one fails.\<close>

fun all_args :: "EventDesc \<Rightarrow> byte list \<Rightarrow> nat \<Rightarrow> ArgValue list option" where
  "all_args d bs 0 = Some []"
| "all_args d bs (Suc n) = do { as \<leftarrow> all_args d bs n; a \<leftarrow> GetArg d bs (int n); Some (as @ [a]) }"

definition raw_args :: "EventDesc \<Rightarrow> byte list \<Rightarrow> ArgValue list option" where
  "raw_args d bs = all_args d bs (nat (ed_nArgs d))"

definition arg_types :: "EventDesc \<Rightarrow> ArgType list" where
  "arg_types d = (case ed_args d of None \<Rightarrow> [] | Some ads \<Rightarrow> map ad_ty (take (nat (ed_nArgs d)) ads))"

text \<open>The identifier of a dependent event: the first argument of the type; without one it is left as it was.\<close>

fun event_id_arg :: "ArgType list \<Rightarrow> ArgValue list \<Rightarrow> 64 word option" where
  "event_id_arg (ty # tys) (a # as) =
    (if ty = EVENT_ID then (case a of V_id w \<Rightarrow> Some w | _ \<Rightarrow> None) else event_id_arg tys as)"
| "event_id_arg _ _ = None"

definition new_IntervalEventAttrs :: "EventDesc \<Rightarrow> EventAttrs" where
  "new_IntervalEventAttrs d = IntervalEventAttrs d 0 0"

definition new_IntervalWithArgsAttrs :: "EventDesc \<Rightarrow> byte list \<Rightarrow> EventAttrs option" where
  "new_IntervalWithArgsAttrs d bs = map_option (\<lambda>as. IntervalWithArgsAttrs d as 0 0) (raw_args d bs)"

definition new_WithArgsAttrs :: "EventDesc \<Rightarrow> byte list \<Rightarrow> EventAttrs option" where
  "new_WithArgsAttrs d bs = map_option (WithArgsAttrs d) (raw_args d bs)"

definition new_DependentEventAttrs :: "EventDesc \<Rightarrow> byte list \<Rightarrow> EventAttrs option" where
  "new_DependentEventAttrs d bs =
    map_option (\<lambda>as. DependentEventAttrs d as (event_id_arg (arg_types d) as) 0) (raw_args d bs)"

text \<open>The argument of an event: its description and its value. Events without arguments have one that is empty.\<close>

definition attrs_Arg :: "EventAttrs \<Rightarrow> nat \<Rightarrow> (ArgDesc option \<times> ArgValue) option" where
  "attrs_Arg a i = (if attrs_args a = [] then Some (None, V_a 0)
     else if i < length (attrs_args a)
       then (case ed_args (attrs_desc a) of Some ads \<Rightarrow> if i < length ads then Some (Some (ads ! i), attrs_args a ! i) else None | None \<Rightarrow> None)
     else None)"

text \<open>The attributes of a raw event; the event is a pointer, which may be null, and everything starts with reading its code
  (\<open>None\<close>: the program crashes). Sharing the attributes of simple events does not change their values.\<close>

definition EventAttrsFactory :: "(EventDesc \<Rightarrow> EventKind) \<Rightarrow> LogFileDesc \<Rightarrow> byte list option \<Rightarrow> EventAttrs option" where
  "EventAttrsFactory kind lfd rawEvt = do {
     bs \<leftarrow> rawEvt;
     e \<leftarrow> get32 bs 8;
     desc \<leftarrow> (if 0 \<le> sint e \<and> nat (sint e) < length (ld_events lfd) then Some (ld_events lfd ! nat (sint e)) else None);
     case kind desc of
       LOG_EVENT \<Rightarrow> if ed_nArgs desc = 0 then Some (SimpleEventAttrs desc) else new_WithArgsAttrs desc bs
     | LOG_START \<Rightarrow> if ed_nArgs desc = 0 then Some (new_IntervalEventAttrs desc) else new_IntervalWithArgsAttrs desc bs
     | LOG_END \<Rightarrow> if ed_nArgs desc = 0 then Some (new_IntervalEventAttrs desc) else new_IntervalWithArgsAttrs desc bs
     | LOG_SRC \<Rightarrow> new_DependentEventAttrs desc bs
     | LOG_DST \<Rightarrow> new_DependentEventAttrs desc bs }"

section \<open>Time stamps\<close>

definition TimevalCvt :: "LogTS_t \<Rightarrow> 64 word" where
  "TimevalCvt t = 1000000000 * ucast (ts_val_sec t) + 1000 * ucast (ts_val_frac t)"

definition TimespecCvt :: "LogTS_t \<Rightarrow> 64 word" where
  "TimespecCvt t = 1000000000 * ucast (ts_val_sec t) + ucast (ts_val_frac t)"

definition MachAbsoluteCvt :: "LogTS_t \<Rightarrow> 64 word" where
  "MachAbsoluteCvt t = t"

definition convertTime :: "LogFileHeader_t \<Rightarrow> LogTS_t \<Rightarrow> 64 word" where
  "convertTime h = (if tsKind h = tsKind_code LOGTS_TIMEVAL then TimevalCvt
     else if tsKind h = tsKind_code LOGTS_TIMESPEC then TimespecCvt else MachAbsoluteCvt)"

section \<open>The log file\<close>

record TraceEvent =
  te_ts :: "64 word"
  te_attrs :: EventAttrs

definition Event_Desc :: "TraceEvent \<Rightarrow> EventDesc" where "Event_Desc e = attrs_desc (te_attrs e)"
definition EventCode :: "TraceEvent \<Rightarrow> 32 word" where "EventCode e = word_of_int (ed_id (Event_Desc e))"
definition Event_Kind :: "(EventDesc \<Rightarrow> EventKind) \<Rightarrow> TraceEvent \<Rightarrow> EventKind" where "Event_Kind kind e = kind (Event_Desc e)"

text \<open>The events of a vproc: an array, of which a prefix is set, with room for \<open>tr_room\<close> events.\<close>

record VProcTrace =
  tr_vprocId :: nat
  tr_cpuId :: nat
  tr_numEvents :: "64 word"
  tr_room :: nat
  tr_events :: "TraceEvent list"

text \<open>The first event after the sentinel, and the last one before the other.\<close>

definition TimeOfFirstEvent :: "VProcTrace \<Rightarrow> 64 word option" where
  "TimeOfFirstEvent tr = (if 1 < length (tr_events tr) then Some (te_ts (tr_events tr ! 1)) else None)"

definition TimeOfLastEvent :: "VProcTrace \<Rightarrow> 64 word option" where
  "TimeOfLastEvent tr = (let n = unat (tr_numEvents tr) in if n < length (tr_events tr) then Some (te_ts (tr_events tr ! n)) else None)"

record ViewLogFile =
  lf_nVProcs :: int
  lf_startTime :: "64 word"
  lf_endTime :: "64 word"
  lf_traces :: "VProcTrace list"

definition new_LogFile :: "bool \<Rightarrow> ViewLogFile option" where
  "new_LogFile init_ok = (if init_ok then Some \<lparr>lf_nVProcs = 0, lf_startTime = 0, lf_endTime = 0, lf_traces = []\<rparr> else None)"

datatype ViewError = AlreadyLoaded | CannotStat | CannotOpen | BadHeader DumpError | NoBuffersIn | CannotMap | ViewCrash

text \<open>A buffer of the mapped file: buffers are 8 KB apart, whatever the header says. The number of events in one is at most
  \<open>per\<close>.\<close>

definition buf_field :: "byte list \<Rightarrow> nat \<Rightarrow> nat \<Rightarrow> 32 word option" where
  "buf_field f i off = get32 f (LOGBLOCK_SZB * i + off)"

definition buf_count :: "int \<Rightarrow> byte list \<Rightarrow> nat \<Rightarrow> int option" where
  "buf_count per f i = map_option (\<lambda>nx. if sint nx > per then per else sint nx) (buf_field f i 4)"

text \<open>Counting the events of every vproc; \<open>None\<close>: the number of a vproc is outside the array.\<close>

definition count_buffer :: "int \<Rightarrow> byte list \<Rightarrow> nat \<Rightarrow> 64 word list option \<Rightarrow> 64 word list option" where
  "count_buffer per f i nEvents = do {
     ns \<leftarrow> nEvents; n \<leftarrow> buf_count per f i; vp \<leftarrow> buf_field f i 0;
     if unat vp < length ns then Some (ns[unat vp := ns ! unat vp + word_of_int n]) else None }"

definition count_events :: "int \<Rightarrow> byte list \<Rightarrow> nat \<Rightarrow> nat \<Rightarrow> 64 word list option" where
  "count_events per f numBufs nvps = fold (count_buffer per f) [0..<numBufs] (Some (replicate nvps 0))"

text \<open>The traces are set up after the count of each has been cleared again.\<close>

definition new_trace :: "nat \<Rightarrow> VProcTrace" where
  "new_trace i = \<lparr>tr_vprocId = i, tr_cpuId = i, tr_numEvents = 0, tr_room = unat (0 + 2 :: 64 word), tr_events = []\<rparr>"

definition put_event :: "TraceEvent \<Rightarrow> nat \<Rightarrow> VProcTrace list option \<Rightarrow> VProcTrace list option" where
  "put_event e i trs = do {
     ts \<leftarrow> trs;
     if i < length ts \<and> length (tr_events (ts ! i)) < tr_room (ts ! i)
       then Some (ts[i := (ts ! i)\<lparr>tr_events := tr_events (ts ! i) @ [e]\<rparr>]) else None }"

text \<open>The events of buffer \<open>i\<close> go to trace number \<open>i\<close>, though the buffer belongs to another vproc.\<close>

definition fill_event :: "(byte list option \<Rightarrow> EventAttrs option) \<Rightarrow> (LogTS_t \<Rightarrow> 64 word) \<Rightarrow> 64 word \<Rightarrow> byte list \<Rightarrow> nat \<Rightarrow> nat
    \<Rightarrow> VProcTrace list option \<Rightarrow> VProcTrace list option" where
  "fill_event factory cvt start f i j trs = do {
     let p = LOGBLOCK_SZB * i + LOGEVENT_SZB + LOGEVENT_SZB * j;
     ts \<leftarrow> get64 f p;
     a \<leftarrow> factory (Some (take LOGEVENT_SZB (drop p f)));
     put_event \<lparr>te_ts = cvt ts - start, te_attrs = a\<rparr> i trs }"

definition fill_buffer :: "(byte list option \<Rightarrow> EventAttrs option) \<Rightarrow> (LogTS_t \<Rightarrow> 64 word) \<Rightarrow> 64 word \<Rightarrow> int \<Rightarrow> byte list \<Rightarrow> nat
    \<Rightarrow> VProcTrace list option \<Rightarrow> VProcTrace list option" where
  "fill_buffer factory cvt start per f i trs = do {
     n \<leftarrow> buf_count per f i;
     fold (fill_event factory cvt start f i) [0..<nat n] trs }"

text \<open>The end of the run is the largest time stamp at index \<open>numEvents\<close> of a trace.\<close>

definition trace_end :: "VProcTrace \<Rightarrow> 64 word option \<Rightarrow> 64 word option" where
  "trace_end t e = do {
     m \<leftarrow> e;
     if unat (tr_numEvents t) < length (tr_events t)
       then Some (max m (te_ts (tr_events t ! unat (tr_numEvents t)))) else None }"

definition fill_traces :: "(byte list option \<Rightarrow> EventAttrs option) \<Rightarrow> (LogTS_t \<Rightarrow> 64 word) \<Rightarrow> 64 word \<Rightarrow> int \<Rightarrow> byte list \<Rightarrow> nat \<Rightarrow> nat
    \<Rightarrow> VProcTrace list option" where
  "fill_traces factory cvt start per f numBufs nvps = do {
     count_events per f numBufs nvps;
     noEventAttrs \<leftarrow> factory None;
     trs1 \<leftarrow> fold (put_event \<lparr>te_ts = 0, te_attrs = noEventAttrs\<rparr>) [0..<nvps] (Some (map new_trace [0..<nvps]));
     trs2 \<leftarrow> fold (fill_buffer factory cvt start per f) [0..<numBufs] (Some trs1);
     end \<leftarrow> fold trace_end trs2 (Some 0);
     fold (put_event \<lparr>te_ts = end, te_attrs = noEventAttrs\<rparr>) [0..<nvps] (Some trs2) }"

text \<open>Loading: the file (\<open>None\<close>: it does not exist), whether it can be opened and mapped, and the header read into
  \<open>junk\<close>. The number of vprocs and the times of the log are not set.\<close>

definition LoadFile :: "(EventDesc \<Rightarrow> EventKind) \<Rightarrow> LogFileDesc \<Rightarrow> 32 word \<Rightarrow> bool \<Rightarrow> bool \<Rightarrow> byte list \<Rightarrow> byte list option \<Rightarrow> ViewLogFile
    \<Rightarrow> ViewError + ViewLogFile" where
  "LoadFile kind lfd major open_ok map_ok junk file lf =
    (if lf_nVProcs lf \<noteq> 0 then Inl AlreadyLoaded
     else case file of
       None \<Rightarrow> Inl CannotStat
     | Some f \<Rightarrow>
       if \<not> open_ok then Inl CannotOpen
       else case read_header (fread junk LOGHDR_SZB f 0) of
         None \<Rightarrow> Inl ViewCrash
       | Some h \<Rightarrow> (case check_header major h of
           Some e \<Rightarrow> Inl (BadHeader e)
         | None \<Rightarrow>
           let sz = (if bufSzB h \<noteq> word_of_nat LOGBLOCK_SZB then unat (bufSzB h) else LOGBLOCK_SZB);
               per = (if bufSzB h \<noteq> word_of_nat LOGBLOCK_SZB then c_int (word_of_nat (sz div LOGEVENT_SZB) - 1) else int LOGBUF_SZ)
           in if sz = 0 then Inl ViewCrash
              else let numBufs = c_int (word_of_nat (length f div sz) - 1)
                in if numBufs \<le> 0 then Inl NoBuffersIn
                   else if \<not> map_ok then Inl CannotMap
                   else (case fill_traces (EventAttrsFactory kind lfd) (convertTime h) (convertTime h (startTime h)) per (drop sz f)
                               (nat numBufs) (unat (nVProcs h)) of
                           None \<Rightarrow> Inl ViewCrash
                         | Some trs \<Rightarrow> Inr (lf\<lparr>lf_traces := trs\<rparr>))))"

text \<open>Finding an event by its vproc and index, or by an identifier that holds both.\<close>

definition LOG_MAX_NVPROCS :: nat where "LOG_MAX_NVPROCS = 8"
definition LOG_MAX_NEVENTS :: nat where "LOG_MAX_NEVENTS = 64 - LOG_MAX_NVPROCS"
definition MAX_NEVENTS :: "64 word" where "MAX_NEVENTS = push_bit LOG_MAX_NEVENTS 1"

definition GetEvent :: "ViewLogFile \<Rightarrow> 32 word \<Rightarrow> 64 word \<Rightarrow> TraceEvent option" where
  "GetEvent lf vpID index =
    (if unat vpID < length (lf_traces lf) \<and> unat index < length (tr_events (lf_traces lf ! unat vpID))
       then Some (tr_events (lf_traces lf ! unat vpID) ! unat index) else None)"

definition GetEventId :: "ViewLogFile \<Rightarrow> 64 word \<Rightarrow> TraceEvent option" where
  "GetEventId lf eid = GetEvent lf (ucast (drop_bit LOG_MAX_NEVENTS eid)) (eid AND (MAX_NEVENTS - 1))"

definition NumVProcs_of :: "ViewLogFile \<Rightarrow> int" where "NumVProcs_of lf = lf_nVProcs lf"
definition Duration :: "ViewLogFile \<Rightarrow> 64 word" where "Duration lf = lf_endTime lf - lf_startTime lf"

section \<open>No log is ever loaded\<close>

text \<open>The attributes of the sentinels are asked for with a null event, whose code is read.\<close>

lemma no_attrs_for_null: "EventAttrsFactory kind lfd None = None"
  by (simp add: EventAttrsFactory_def)

lemma fill_traces_crashes: "fill_traces (EventAttrsFactory kind lfd) cvt start per f numBufs nvps = None"
  by (simp add: fill_traces_def no_attrs_for_null split: Option.bind_split)

text \<open>No log file is ever loaded: whatever its bytes, loading ends in an error, at the latest in the null
  event that stands for the start of a trace.\<close>

theorem LoadFile_never_loads: "\<exists>e. LoadFile kind lfd major open_ok map_ok junk file lf = Inl e"
  by (auto simp: LoadFile_def fill_traces_crashes Let_def split: option.split)

section \<open>Times and identifiers\<close>

lemma ucast32_uint: "uint (ucast w :: 64 word) = uint w" for w :: "32 word"
proof -
  have "uint w < 2 ^ 32" using uint_lt2p [of w] by simp
  then have "uint w < 2 ^ 64" by simp
  then show ?thesis by (simp add: unsigned_ucast_eq take_bit_int_eq_self)
qed

text \<open>In 64 bits nothing wraps, in contrast to the two other tools.\<close>

lemma scaled_sum:
  fixes a b :: "32 word" and k l :: "64 word"
  assumes "uint k \<le> 1000000000" and "uint l \<le> 1000"
  shows "uint (k * ucast a + l * ucast b) = uint k * uint a + uint l * uint b"
proof -
  have a: "uint a < 2 ^ 32" "uint b < 2 ^ 32" using uint_lt2p [of a] uint_lt2p [of b] by simp_all
  have "uint k * uint a \<le> 1000000000 * 2 ^ 32" using assms(1) a(1) by (intro mult_mono) auto
  moreover have "uint l * uint b \<le> 1000 * 2 ^ 32" using assms(2) a(2) by (intro mult_mono) auto
  ultimately have "uint k * uint a + uint l * uint b < 2 ^ 64" by simp
  then have "(uint k * uint a + uint l * uint b) mod 2 ^ 64 = uint k * uint a + uint l * uint b"
    by (simp add: mod_pos_pos_trivial)
  then show ?thesis
    by (simp add: uint_word_arith_bintrs(1,3) ucast32_uint take_bit_eq_mod mod_add_eq)
qed

lemma cvt_exact:
  "uint (TimespecCvt t) = 1000000000 * uint (ts_val_sec t) + uint (ts_val_frac t)"
  "uint (TimevalCvt t) = 1000000000 * uint (ts_val_sec t) + 1000 * uint (ts_val_frac t)"
  using scaled_sum [of 1000000000 1 "ts_val_sec t" "ts_val_frac t"] scaled_sum [of 1000000000 1000 "ts_val_sec t" "ts_val_frac t"]
  by (simp_all add: TimespecCvt_def TimevalCvt_def)

text \<open>An identifier made of a vproc and an index is taken apart into the two.\<close>

lemma GetEventId_parts:
  assumes "vp < 2 ^ 8" and "ix < MAX_NEVENTS"
  shows "GetEventId lf (push_bit LOG_MAX_NEVENTS (ucast vp) OR ix) = GetEvent lf vp ix"
proof -
  have x: "n < 56" if "bit ix n" for n
  proof (rule ccontr)
    assume "\<not> n < 56"
    then show False using bit_small_word [of ix 56 n] assms(2) that
      by (simp add: MAX_NEVENTS_def LOG_MAX_NEVENTS_def LOG_MAX_NVPROCS_def)
  qed
  have v: "n < 8" if "bit vp n" for n
  proof -
    have "vp = take_bit 8 vp" using assms(1) by (simp add: take_bit_eq_mask less_mask_eq)
    then have "bit vp n = bit (take_bit 8 vp) n" by simp
    then show ?thesis using that by (simp add: bit_take_bit_iff)
  qed
  have m: "MAX_NEVENTS - 1 = mask 56" by (simp add: MAX_NEVENTS_def LOG_MAX_NEVENTS_def LOG_MAX_NVPROCS_def mask_eq_exp_minus_1)
  have "ucast (drop_bit LOG_MAX_NEVENTS (push_bit LOG_MAX_NEVENTS (ucast vp) OR ix)) = vp"
    by (rule bit_word_eqI) (use x v in \<open>fastforce simp: bit_simps LOG_MAX_NEVENTS_def LOG_MAX_NVPROCS_def\<close>)
  moreover have "(push_bit LOG_MAX_NEVENTS (ucast vp) OR ix) AND (MAX_NEVENTS - 1) = ix"
    unfolding m by (rule bit_word_eqI) (use x in \<open>auto simp: bit_simps LOG_MAX_NEVENTS_def LOG_MAX_NVPROCS_def not_less\<close>)
  ultimately show ?thesis by (simp add: GetEventId_def)
qed

end
