(* ===== verification/Event_Stream.thy ===== *)
theory Event_Stream
  imports Event_Log
begin

text \<open>
  The writer of the event log in the format of ThreadScope: the template
  \<^verbatim>\<open>src/gen/log-gen/templates/event-log_c.in\<close> from which \<^verbatim>\<open>misc/event-log.c\<close> is generated, the
  buffer of \<^verbatim>\<open>include/event-log-file.h\<close> and what \<^verbatim>\<open>gen-event-log-c.sml\<close> puts in for the
  placeholders.

  \<^item> An \<open>EventsBuf\<close> is an array of \<open>LOGBLOCK_SZB\<close> bytes with positions in it; a store outside
    the array is \<open>None\<close>, and then the error \<open>Overrun\<close>. Integers are posted with the high byte first.
  \<^item> \<open>EvEnv\<close> holds the generated tables of descriptions and sizes, the number of the block event
    and the answers of the system: the readings of the clock and the results of \<open>write\<close>.
    \<open>Died\<close> stands for a call of \<open>Die\<close>, and for the division by zero of a bad time base.
  \<^item> \<open>LogEventSig\<close> is the generated function for a signature; \<open>ev_session\<close> is a whole log:
    the file is opened, the vprocs initialise, log in any interleaving, and vproc 0 finishes. The
    logging calls of different vprocs touch different buffers, and one \<open>write\<close> in append mode is
    one step.

  \<open>sanity\<close>, which checks a buffer and is never called, is left out.
\<close>

section \<open>The event buffer\<close>

text \<open>
  A buffer of \<open>LOGBLOCK_SZB\<close> bytes; positions count bytes from \<open>begin\<close>. A store past the array is
  \<open>None\<close>.
\<close>

record EventsBuf =
  eb_pos :: nat
  eb_marker :: "nat option"
  eb_end :: nat
  eb_begin :: "byte list"

definition postWord8 :: "EventsBuf \<Rightarrow> 8 word \<Rightarrow> EventsBuf option" where
  "postWord8 eb i = (if eb_pos eb < length (eb_begin eb)
     then Some (eb\<lparr>eb_begin := (eb_begin eb)[eb_pos eb := i], eb_pos := eb_pos eb + 1\<rparr>) else None)"

definition postWord16 :: "EventsBuf \<Rightarrow> 16 word \<Rightarrow> EventsBuf option" where
  "postWord16 eb i = Option.bind (postWord8 eb (ucast (drop_bit 8 i))) (\<lambda>eb. postWord8 eb (ucast i))"

definition postWord32 :: "EventsBuf \<Rightarrow> 32 word \<Rightarrow> EventsBuf option" where
  "postWord32 eb i = Option.bind (postWord16 eb (ucast (drop_bit 16 i))) (\<lambda>eb. postWord16 eb (ucast i))"

definition postWord64 :: "EventsBuf \<Rightarrow> 64 word \<Rightarrow> EventsBuf option" where
  "postWord64 eb i = Option.bind (postWord32 eb (ucast (drop_bit 32 i))) (\<lambda>eb. postWord32 eb (ucast i))"

text \<open>The same integers as big-endian lists of bytes, and a run of bytes posted in order.\<close>

definition be16 :: "16 word \<Rightarrow> byte list" where "be16 i = [ucast (drop_bit 8 i), ucast i]"
definition be32 :: "32 word \<Rightarrow> byte list" where "be32 i = be16 (ucast (drop_bit 16 i)) @ be16 (ucast i)"
definition be64 :: "64 word \<Rightarrow> byte list" where "be64 i = be32 (ucast (drop_bit 32 i)) @ be32 (ucast i)"

fun put :: "EventsBuf \<Rightarrow> byte list \<Rightarrow> EventsBuf option" where
  "put eb [] = Some eb"
| "put eb (b # bs) = Option.bind (postWord8 eb b) (\<lambda>eb. put eb bs)"

lemma put_append: "put eb (xs @ ys) = Option.bind (put eb xs) (\<lambda>eb. put eb ys)"
  by (induction eb xs rule: put.induct) (auto split: Option.bind_splits)

lemma postWord8_put: "postWord8 eb i = put eb [i]" by (cases "postWord8 eb i") simp_all
lemma postWord16_put: "postWord16 eb i = put eb (be16 i)"
  by (cases "postWord8 eb (ucast (drop_bit 8 i))") (simp_all add: postWord16_def be16_def postWord8_put [symmetric])
lemma postWord32_put: "postWord32 eb i = put eb (be32 i)"
  by (simp add: postWord32_def be32_def postWord16_put put_append)
lemma postWord64_put: "postWord64 eb i = put eb (be64 i)"
  by (simp add: postWord64_def be64_def postWord32_put put_append)

lemmas posts = postWord16_put postWord32_put postWord64_put

lemma length_be [simp]: "length (be16 a) = 2" "length (be32 b) = 4" "length (be64 c) = 8"
  by (simp_all add: be16_def be32_def be64_def)

text \<open>What the buffer holds: its bytes up to \<open>pos\<close>.\<close>

definition holds :: "EventsBuf \<Rightarrow> byte list \<Rightarrow> bool" where
  "holds eb bs \<longleftrightarrow> eb_pos eb = length bs \<and> take (length bs) (eb_begin eb) = bs
     \<and> length (eb_begin eb) = LOGBLOCK_SZB \<and> eb_end eb = LOGBLOCK_SZB"

lemma holds_bound: "holds eb bs \<Longrightarrow> length bs \<le> LOGBLOCK_SZB"
  by (metis holds_def length_take min.absorb_iff2 nle_le)

lemma take_update_snoc: "p < length xs \<Longrightarrow> take (Suc p) (xs[p := b]) = take p xs @ [b]"
  by (simp add: take_Suc_conv_app_nth)

lemma put_holds:
  "holds eb bs \<Longrightarrow> length bs + length cs \<le> LOGBLOCK_SZB \<Longrightarrow>
   \<exists>eb'. put eb cs = Some eb' \<and> holds eb' (bs @ cs) \<and> eb_marker eb' = eb_marker eb"
proof (induction eb cs arbitrary: bs rule: put.induct)
  case (2 eb c cs)
  let ?eb = "eb\<lparr>eb_begin := (eb_begin eb)[eb_pos eb := c], eb_pos := eb_pos eb + 1\<rparr>"
  have p: "postWord8 eb c = Some ?eb" using 2(2,3) by (simp add: postWord8_def holds_def)
  have "holds ?eb (bs @ [c])" using 2(2,3) by (simp add: holds_def take_update_snoc)
  from 2(1) [OF p this] 2(3) p show ?case by simp
qed simp

lemma put_inside:
  "p + length cs \<le> length (eb_begin eb) \<Longrightarrow>
   put (eb\<lparr>eb_pos := p\<rparr>) cs = Some (eb\<lparr>eb_pos := p + length cs, eb_begin := take p (eb_begin eb) @ cs @ drop (p + length cs) (eb_begin eb)\<rparr>)"
proof (induction cs arbitrary: eb p)
  case (Cons c cs)
  have "put (eb\<lparr>eb_pos := p\<rparr>) (c # cs) = put ((eb\<lparr>eb_begin := (eb_begin eb)[p := c]\<rparr>)\<lparr>eb_pos := Suc p\<rparr>) cs"
    using Cons.prems by (simp add: postWord8_def)
  also have "\<dots> = Some (eb\<lparr>eb_pos := Suc p + length cs, eb_begin := take (Suc p) ((eb_begin eb)[p := c]) @ cs @ drop (Suc p + length cs) ((eb_begin eb)[p := c])\<rparr>)"
    using Cons.IH [of "Suc p" "eb\<lparr>eb_begin := (eb_begin eb)[p := c]\<rparr>"] Cons.prems by simp
  finally show ?case using Cons.prems by (simp add: take_update_snoc)
qed simp

lemma put_twice: "put eb xs = Some e1 \<Longrightarrow> put e1 ys = Some e2 \<Longrightarrow> put eb (xs @ ys) = Some e2"
  by (simp add: put_append)

section \<open>The clock and the file\<close>

datatype EvError = Overrun | Died | NoReturn

definition bindE :: "'e + 'a \<Rightarrow> ('a \<Rightarrow> 'e + 'b) \<Rightarrow> 'e + 'b" where
  "bindE m f = (case m of Inl e \<Rightarrow> Inl e | Inr x \<Rightarrow> f x)"

lemma bindE_simps [simp]: "bindE (Inl e) f = Inl e" "bindE (Inr x) f = f x"
  by (simp_all add: bindE_def)

definition in_buf :: "'a option \<Rightarrow> EvError + 'a" where
  "in_buf r = (case r of None \<Rightarrow> Inl Overrun | Some x \<Rightarrow> Inr x)"

lemma in_buf_simps [simp]: "in_buf None = Inl Overrun" "in_buf (Some x) = Inr x"
  by (simp_all add: in_buf_def)

text \<open>A reading of the clock, by the configuration the runtime was built with.\<close>

datatype ProcClock =
    ClockGettime int "64 word" "64 word"
  | MachAbsolute "64 word" "64 word" "64 word"
  | TimeOfDay "64 word" "64 word"

fun getProcessElapsedTime :: "ProcClock \<Rightarrow> 64 word option" where
  "getProcessElapsedTime (ClockGettime res sec nsec) = (if res \<noteq> 0 then None else Some (sec * 1000000000 + nsec))"
| "getProcessElapsedTime (MachAbsolute time numer denom) = (if denom = 0 then None else Some (time * numer div denom))"
| "getProcessElapsedTime (TimeOfDay sec usec) = Some (sec * 1000000000 + usec * 1000)"

text \<open>
  The generated tables, indexed by event, and the answers of the system: the \<open>n\<close>-th reading of the
  clock and the result of the \<open>n\<close>-th \<open>write\<close>.
\<close>

record EvEnv =
  EventDescArr :: "string list"
  EventSizesArr :: "16 word list"
  EventBlock :: nat
  clock_reads :: "nat \<Rightarrow> ProcClock"
  write_results :: "nat \<Rightarrow> WriteResult"

record EvOut =
  eo_LogFD :: int
  eo_file :: "byte list"
  eo_start_ts :: "64 word"
  eo_ticks :: nat
  eo_writes :: nat

record EvVProc =
  ev_id :: nat
  event_log :: EventsBuf
  ev_eventId :: "64 word"

definition read_clock :: "EvEnv \<Rightarrow> EvOut \<Rightarrow> EvError + 64 word \<times> EvOut" where
  "read_clock E f = (case getProcessElapsedTime (clock_reads E (eo_ticks f)) of
     None \<Rightarrow> Inl Died | Some t \<Rightarrow> Inr (t, f\<lparr>eo_ticks := eo_ticks f + 1\<rparr>))"

definition get_elapsed_time :: "EvEnv \<Rightarrow> EvOut \<Rightarrow> EvError + 64 word \<times> EvOut" where
  "get_elapsed_time E f = bindE (read_clock E f) (\<lambda>(t, f). Inr (t - eo_start_ts f, f))"

definition initElapsedTS :: "EvEnv \<Rightarrow> EvOut \<Rightarrow> EvError + EvOut" where
  "initElapsedTS E f = bindE (read_clock E f) (\<lambda>(t, f). Inr (f\<lparr>eo_start_ts := t\<rparr>))"

definition LogTimestamp :: "EvEnv \<Rightarrow> EventsBuf \<times> EvOut \<Rightarrow> EvError + EventsBuf \<times> EvOut" where
  "LogTimestamp E x = (case x of (eb, f) \<Rightarrow>
     bindE (get_elapsed_time E f) (\<lambda>(t, f). bindE (in_buf (postWord64 eb t)) (\<lambda>eb. Inr (eb, f))))"

text \<open>One \<open>write\<close>: a descriptor that is not open fails, any other count of bytes is accepted.\<close>

definition write_log :: "EvEnv \<Rightarrow> EvOut \<Rightarrow> byte list \<Rightarrow> EvError + EvOut" where
  "write_log E f bs = (if eo_LogFD f < 0 then Inl Died else
     case write_results E (eo_writes f) of
       Failed e \<Rightarrow> Inl Died
     | Wrote n \<Rightarrow> Inr (f\<lparr>eo_file := eo_file f @ take n bs, eo_writes := eo_writes f + 1\<rparr>))"

section \<open>Blocks\<close>

definition closeBlockMarker :: "EvEnv \<Rightarrow> EventsBuf \<times> EvOut \<Rightarrow> EvError + EventsBuf \<times> EvOut" where
  "closeBlockMarker E x = (case x of (eb, f) \<Rightarrow>
     case eb_marker eb of
       None \<Rightarrow> Inr (eb, f)
     | Some marker \<Rightarrow>
         bindE (in_buf (postWord32 (eb\<lparr>eb_pos := marker + 2 + 8\<rparr>) (word_of_int (int (eb_pos eb) - int marker)))) (\<lambda>eb1.
         bindE (LogTimestamp E (eb1, f)) (\<lambda>(eb2, f2).
         Inr (eb2\<lparr>eb_pos := eb_pos eb, eb_marker := None\<rparr>, f2))))"

definition ensureRoom_with ::
    "EvEnv \<Rightarrow> (EvVProc \<times> EvOut \<Rightarrow> EvError + EvVProc \<times> EvOut) \<Rightarrow> nat \<Rightarrow> EvVProc \<times> EvOut \<Rightarrow> EvError + EvVProc \<times> EvOut" where
  "ensureRoom_with E clear tag x =
     (if tag < length (EventSizesArr E) then
        (let eb = event_log (fst x); size = EventSizesArr E ! tag + 10 in
         if eb_end eb < eb_pos eb + unat size then clear x else Inr x)
      else Inl Overrun)"

definition postBlock_with ::
    "EvEnv \<Rightarrow> (EvVProc \<times> EvOut \<Rightarrow> EvError + EvVProc \<times> EvOut) \<Rightarrow> EvVProc \<times> EvOut \<Rightarrow> EvError + EvVProc \<times> EvOut" where
  "postBlock_with E clear x =
     bindE (ensureRoom_with E clear (EventBlock E) x) (\<lambda>(vp, f).
     bindE (closeBlockMarker E (event_log vp, f)) (\<lambda>(eb, f).
     bindE (in_buf (postWord16 (eb\<lparr>eb_marker := Some (eb_pos eb)\<rparr>) (word_of_nat (EventBlock E)))) (\<lambda>eb.
     bindE (LogTimestamp E (eb, f)) (\<lambda>(eb, f).
     bindE (in_buf (Option.bind (postWord32 eb 0) (\<lambda>eb. Option.bind (postWord64 eb 0) (\<lambda>eb. postWord16 eb (word_of_nat (ev_id vp)))))) (\<lambda>eb.
     Inr (vp\<lparr>event_log := eb\<rparr>, f))))))"

text \<open>
  \<open>printAndClearEventBuf\<close> and \<open>postBlockMarker\<close> call each other; \<open>clear_levels\<close> below shows that
  two levels are all there are, so that \<open>NoReturn\<close> is never the result.
\<close>

primrec printAndClear_n :: "nat \<Rightarrow> EvEnv \<Rightarrow> EvVProc \<times> EvOut \<Rightarrow> EvError + EvVProc \<times> EvOut" where
  "printAndClear_n 0 E x = Inl NoReturn"
| "printAndClear_n (Suc n) E x =
     bindE (closeBlockMarker E (event_log (fst x), snd x)) (\<lambda>(eb, f).
       if eb_pos eb \<noteq> 0 then
         bindE (write_log E f (take (eb_pos eb) (eb_begin eb))) (\<lambda>f.
         postBlock_with E (printAndClear_n n E) ((fst x)\<lparr>event_log := eb\<lparr>eb_pos := 0, eb_marker := None\<rparr>\<rparr>, f))
       else Inr ((fst x)\<lparr>event_log := eb\<rparr>, f))"

definition printAndClearEventBuf :: "EvEnv \<Rightarrow> EvVProc \<times> EvOut \<Rightarrow> EvError + EvVProc \<times> EvOut" where
  "printAndClearEventBuf = printAndClear_n 2"
definition postBlockMarker :: "EvEnv \<Rightarrow> EvVProc \<times> EvOut \<Rightarrow> EvError + EvVProc \<times> EvOut" where
  "postBlockMarker E = postBlock_with E (printAndClearEventBuf E)"
definition ensureRoomForEvent :: "EvEnv \<Rightarrow> nat \<Rightarrow> EvVProc \<times> EvOut \<Rightarrow> EvError + EvVProc \<times> EvOut" where
  "ensureRoomForEvent E = ensureRoom_with E (printAndClearEventBuf E)"

lemma clear_empty:
  assumes "eb_pos (event_log vp) = 0" and "eb_marker (event_log vp) = None"
  shows "printAndClear_n (Suc n) E (vp, f) = Inr (vp, f)"
  using assms by (simp add: closeBlockMarker_def)

lemma postBlock_empty:
  assumes "eb_pos (event_log vp) = 0" and "eb_marker (event_log vp) = None"
  shows "postBlock_with E (printAndClear_n (Suc n) E) (vp, f) = postBlock_with E (\<lambda>x. Inr x) (vp, f)"
  by (simp add: postBlock_with_def ensureRoom_with_def clear_empty [OF assms] Let_def del: printAndClear_n.simps)

lemma clear_step:
  "printAndClear_n (Suc (Suc n)) E x = bindE (closeBlockMarker E (event_log (fst x), snd x)) (\<lambda>(eb, f).
       if eb_pos eb \<noteq> 0 then
         bindE (write_log E f (take (eb_pos eb) (eb_begin eb))) (\<lambda>f.
         postBlock_with E (\<lambda>x. Inr x) ((fst x)\<lparr>event_log := eb\<lparr>eb_pos := 0, eb_marker := None\<rparr>\<rparr>, f))
       else Inr ((fst x)\<lparr>event_log := eb\<rparr>, f))"
  by (subst printAndClear_n.simps(2)) (simp add: postBlock_empty del: printAndClear_n.simps cong: if_cong)

lemma clear_levels: "printAndClear_n (Suc (Suc n)) E x = printAndClearEventBuf E x"
  by (simp only: printAndClearEventBuf_def numeral_2_eq_2 clear_step)

section \<open>The header: the types of events\<close>

definition EVENT_HEADER_BEGIN :: "32 word" where "EVENT_HEADER_BEGIN = 0x68647262"
definition EVENT_HEADER_END :: "32 word" where "EVENT_HEADER_END = 0x68647265"
definition EVENT_DATA_BEGIN :: "32 word" where "EVENT_DATA_BEGIN = 0x64617462"
definition EVENT_DATA_END :: "16 word" where "EVENT_DATA_END = 0xffff"
definition EVENT_HET_BEGIN :: "32 word" where "EVENT_HET_BEGIN = 0x68657462"
definition EVENT_HET_END :: "32 word" where "EVENT_HET_END = 0x68657465"
definition EVENT_ET_BEGIN :: "32 word" where "EVENT_ET_BEGIN = 0x65746200"
definition EVENT_ET_END :: "32 word" where "EVENT_ET_END = 0x65746500"

lemmas markers = EVENT_HEADER_BEGIN_def EVENT_HEADER_END_def EVENT_DATA_BEGIN_def EVENT_DATA_END_def
  EVENT_HET_BEGIN_def EVENT_HET_END_def EVENT_ET_BEGIN_def EVENT_ET_END_def

text \<open>
  The loop over a description counts in eight bits: past 255 it starts again at 0, and only the end
  of the buffer stops it.
\<close>

lemma postWord8_room: "postWord8 eb b = Some eb' \<Longrightarrow> length (eb_begin eb') - eb_pos eb' < length (eb_begin eb) - eb_pos eb"
  by (auto simp: postWord8_def split: if_splits)

function postDesc :: "EventsBuf \<Rightarrow> string \<Rightarrow> 8 word \<Rightarrow> EventsBuf option" where
  "postDesc eb desc d =
     (if unat d < length desc then
        (case postWord8 eb (of_char (desc ! unat d)) of
           None \<Rightarrow> None
         | Some eb' \<Rightarrow> postDesc eb' desc (d + 1))
      else Some eb)"
  by pat_completeness auto
termination
  by (relation "measure (\<lambda>(eb, desc, d). length (eb_begin eb) - eb_pos eb)") (auto dest: postWord8_room)

declare postDesc.simps [simp del]

definition postEventType :: "EvEnv \<Rightarrow> EventsBuf \<Rightarrow> nat \<Rightarrow> EventsBuf option" where
  "postEventType E eb i = (let desc = EventDescArr E ! i in
     Option.bind (postWord32 eb EVENT_ET_BEGIN) (\<lambda>eb.
     Option.bind (postWord16 eb (word_of_nat i)) (\<lambda>eb.
     Option.bind (postWord16 eb (EventSizesArr E ! i)) (\<lambda>eb.
     Option.bind (postWord32 eb (word_of_nat (length desc))) (\<lambda>eb.
     Option.bind (postDesc eb desc 0) (\<lambda>eb.
     Option.bind (postWord32 eb 0) (\<lambda>eb.
     postWord32 eb EVENT_ET_END)))))))"

fun postTypes :: "EvEnv \<Rightarrow> nat list \<Rightarrow> EventsBuf \<Rightarrow> EventsBuf option" where
  "postTypes E [] eb = Some eb"
| "postTypes E (i # is) eb = Option.bind (postEventType E eb i) (\<lambda>eb. postTypes E is eb)"

definition NumLogEvents :: "EvEnv \<Rightarrow> nat" where "NumLogEvents E = length (EventSizesArr E)"

definition postEventTypes :: "EvEnv \<Rightarrow> EventsBuf \<Rightarrow> EventsBuf option" where
  "postEventTypes E eb =
     Option.bind (postWord32 eb EVENT_HEADER_BEGIN) (\<lambda>eb.
     Option.bind (postWord32 eb EVENT_HET_BEGIN) (\<lambda>eb.
     Option.bind (postTypes E [1..<NumLogEvents E] eb) (\<lambda>eb.
     Option.bind (postWord32 eb EVENT_HET_END) (\<lambda>eb.
     Option.bind (postWord32 eb EVENT_HEADER_END) (\<lambda>eb.
     postWord32 eb EVENT_DATA_BEGIN)))))"

definition type_bytes :: "EvEnv \<Rightarrow> nat \<Rightarrow> byte list" where
  "type_bytes E i = be32 EVENT_ET_BEGIN @ be16 (word_of_nat i) @ be16 (EventSizesArr E ! i)
     @ be32 (word_of_nat (length (EventDescArr E ! i))) @ map of_char (EventDescArr E ! i) @ be32 0 @ be32 EVENT_ET_END"

definition types_bytes :: "EvEnv \<Rightarrow> byte list" where
  "types_bytes E = be32 EVENT_HEADER_BEGIN @ be32 EVENT_HET_BEGIN @ concat (map (type_bytes E) [1..<NumLogEvents E])
     @ be32 EVENT_HET_END @ be32 EVENT_HEADER_END @ be32 EVENT_DATA_BEGIN"

lemma postDesc_put:
  "length desc < 256 \<Longrightarrow> unat d \<le> length desc \<Longrightarrow> postDesc eb desc d = put eb (map of_char (drop (unat d) desc))"
proof (induction eb desc d rule: postDesc.induct)
  case (1 eb desc d)
  show ?case
  proof (cases "unat d < length desc")
    case True
    have s: "unat (d + 1) = Suc (unat d)" using True 1(2) by (simp add: unat_word_ariths)
    have e: "drop (unat d) desc = desc ! unat d # drop (Suc (unat d)) desc" using True by (simp add: Cons_nth_drop_Suc)
    show ?thesis
    proof (cases "postWord8 eb (of_char (desc ! unat d))")
      case None
      with True show ?thesis by (subst postDesc.simps) (simp add: e)
    next
      case (Some eb')
      with True have "postDesc eb desc d = postDesc eb' desc (d + 1)" by (subst postDesc.simps) simp
      also have "\<dots> = put eb' (map of_char (drop (Suc (unat d)) desc))" using 1(1) [OF True Some 1(2)] True by (simp add: s)
      finally show ?thesis using Some by (simp add: e)
    qed
  qed (use 1(3) in \<open>subst postDesc.simps, simp\<close>)
qed

text \<open>A description of 256 characters or more runs off the end of the buffer.\<close>

lemma postDesc_long: "256 \<le> length desc \<Longrightarrow> postDesc eb desc d = None"
proof (induction eb desc d rule: postDesc.induct)
  case (1 eb desc d)
  have "unat d < length desc" using unsigned_less [of d, where 'a = nat] 1(2) by simp
  with 1 show ?case by (subst postDesc.simps) (auto split: option.splits)
qed

lemma postEventType_put:
  "length (EventDescArr E ! i) < 256 \<Longrightarrow> postEventType E eb i = put eb (type_bytes E i)"
  by (simp add: postEventType_def type_bytes_def posts postDesc_put put_append Let_def)

lemma postTypes_put:
  "\<forall>i \<in> set is. length (EventDescArr E ! i) < 256 \<Longrightarrow> postTypes E is eb = put eb (concat (map (type_bytes E) is))"
  by (induction E "is" eb rule: postTypes.induct) (simp_all add: postEventType_put put_append cong: Option.bind_cong)

lemma postEventTypes_put:
  assumes "\<forall>i < NumLogEvents E. length (EventDescArr E ! i) < 256"
  shows "postEventTypes E eb = put eb (types_bytes E)"
proof -
  have "\<forall>i \<in> set [1..<NumLogEvents E]. length (EventDescArr E ! i) < 256" using assms by simp
  then show ?thesis by (simp add: postEventTypes_def types_bytes_def posts put_append postTypes_put del: set_upt)
qed

section \<open>Logging functions\<close>

datatype SigTy = S_ADDR | S_INT | S_WORD | S_FLOAT | S_DOUBLE | S_NEW_ID | S_EVENT_ID | S_STR nat | S_WORD8 | S_WORD16

fun strSizeofTy :: "SigTy \<Rightarrow> nat" where
  "strSizeofTy S_INT = 4" | "strSizeofTy S_WORD = 4" | "strSizeofTy S_FLOAT = 4" | "strSizeofTy (S_STR n) = n"
| "strSizeofTy S_WORD16 = 2" | "strSizeofTy S_WORD8 = 1" | "strSizeofTy _ = 8"

fun computeSize :: "SigTy list \<Rightarrow> nat" where
  "computeSize [] = 0"
| "computeSize (ty # args) = strSizeofTy ty + computeSize args"

definition NewEventId_ev :: "EvVProc \<Rightarrow> 64 word \<times> EvVProc" where
  "NewEventId_ev vp = (ev_eventId vp, vp\<lparr>ev_eventId := ev_eventId vp + 1\<rparr>)"

text \<open>What the generated function posts for an argument; any other type is cast to 64 bits.\<close>

fun postArg :: "EventsBuf \<Rightarrow> SigTy \<Rightarrow> 64 word \<Rightarrow> EventsBuf option" where
  "postArg eb S_INT a = postWord32 eb (ucast a)"
| "postArg eb S_WORD a = postWord32 eb (ucast a)"
| "postArg eb S_WORD16 a = postWord16 eb (ucast a)"
| "postArg eb S_WORD8 a = postWord8 eb (ucast a)"
| "postArg eb _ a = postWord64 eb a"

fun genPosts :: "SigTy list \<Rightarrow> 64 word list \<Rightarrow> EvVProc \<Rightarrow> EvVProc option" where
  "genPosts [] as vp = Some vp"
| "genPosts (S_NEW_ID # tys) as vp =
     (case NewEventId_ev vp of (newId, vp) \<Rightarrow>
        Option.bind (postWord64 (event_log vp) newId) (\<lambda>eb. genPosts tys as (vp\<lparr>event_log := eb\<rparr>)))"
| "genPosts (ty # tys) (a # as) vp =
     Option.bind (postArg (event_log vp) ty a) (\<lambda>eb. genPosts tys as (vp\<lparr>event_log := eb\<rparr>))"
| "genPosts (ty # tys) [] vp = None"

definition LogEventSig :: "EvEnv \<Rightarrow> nat \<Rightarrow> SigTy list \<Rightarrow> 64 word list \<Rightarrow> EvVProc \<times> EvOut \<Rightarrow> EvError + EvVProc \<times> EvOut" where
  "LogEventSig E evt tys as x =
     bindE (ensureRoomForEvent E evt x) (\<lambda>(vp, f).
     bindE (in_buf (postWord16 (event_log vp) (word_of_nat evt))) (\<lambda>eb.
     bindE (LogTimestamp E (eb, f)) (\<lambda>(eb, f).
     bindE (in_buf (genPosts tys as (vp\<lparr>event_log := eb\<rparr>))) (\<lambda>vp.
     Inr (vp, f)))))"

section \<open>Start and end of the log\<close>

definition InitEventLogFile :: "int \<Rightarrow> EvOut \<Rightarrow> EvError + EvOut" where
  "InitEventLogFile fd f = (if fd < 0 then Inl Died
     else Inr (f\<lparr>eo_LogFD := fd, eo_file := []\<rparr>))"

text \<open>\<open>garbage\<close> is what the new buffer holds.\<close>

definition InitEventLog :: "EvEnv \<Rightarrow> byte list \<Rightarrow> EvVProc \<times> EvOut \<Rightarrow> EvError + EvVProc \<times> EvOut" where
  "InitEventLog E garbage x = (case x of (vp, f) \<Rightarrow>
     let eb = \<lparr>eb_pos = 0, eb_marker = None, eb_end = LOGBLOCK_SZB, eb_begin = garbage\<rparr> in
     if ev_id vp = 0 then
       bindE (initElapsedTS E f) (\<lambda>f.
       bindE (in_buf (postEventTypes E eb)) (\<lambda>eb.
       printAndClearEventBuf E (vp\<lparr>event_log := eb\<rparr>, f)))
     else postBlockMarker E (vp\<lparr>event_log := eb\<rparr>, f))"

record EvSys =
  es_vps :: "EvVProc list"
  es_out :: EvOut

text \<open>An operation of one vproc of the system.\<close>

definition at_log_vproc :: "nat \<Rightarrow> (EvVProc \<times> EvOut \<Rightarrow> EvError + EvVProc \<times> EvOut) \<Rightarrow> EvSys \<Rightarrow> EvError + EvSys" where
  "at_log_vproc v g s = bindE (g (es_vps s ! v, es_out s)) (\<lambda>(vp, f). Inr \<lparr>es_vps = (es_vps s)[v := vp], es_out = f\<rparr>)"

primrec each_log_vproc :: "(nat \<Rightarrow> EvVProc \<times> EvOut \<Rightarrow> EvError + EvVProc \<times> EvOut) \<Rightarrow> nat list \<Rightarrow> EvSys \<Rightarrow> EvError + EvSys" where
  "each_log_vproc g [] s = Inr s"
| "each_log_vproc g (v # vs) s = bindE (at_log_vproc v (g v) s) (each_log_vproc g vs)"

definition end_of_data :: "EvEnv \<Rightarrow> EvVProc \<times> EvOut \<Rightarrow> EvError + EvVProc \<times> EvOut" where
  "end_of_data E x = (case x of (vp, f) \<Rightarrow>
     bindE (in_buf (postWord16 ((event_log vp)\<lparr>eb_pos := 0, eb_marker := None\<rparr>) EVENT_DATA_END)) (\<lambda>eb.
     printAndClearEventBuf E (vp\<lparr>event_log := eb\<rparr>, f)))"

definition FinishEventLog :: "EvEnv \<Rightarrow> nat \<Rightarrow> EvSys \<Rightarrow> EvError + EvSys" where
  "FinishEventLog E main s =
     (if eo_LogFD (es_out s) < 0 then Inr s
      else
        bindE (each_log_vproc (\<lambda>v. printAndClearEventBuf E) [0..<length (es_vps s)] s) (\<lambda>s.
        bindE (at_log_vproc main (end_of_data E) s) (\<lambda>s.
        Inr (s\<lparr>es_out := (es_out s)\<lparr>eo_LogFD := - 1\<rparr>\<rparr>))))"

text \<open>
  A log: the file is opened, the vprocs initialise their logs in some order, then log events in any
  interleaving, and vproc 0 finishes the log.
\<close>

type_synonym ev_op = "nat \<times> nat \<times> SigTy list \<times> 64 word list"

fun ev_run :: "EvEnv \<Rightarrow> ev_op list \<Rightarrow> EvSys \<Rightarrow> EvError + EvSys" where
  "ev_run E [] s = Inr s"
| "ev_run E ((v, evt, tys, as) # ops) s = bindE (at_log_vproc v (LogEventSig E evt tys as) s) (ev_run E ops)"

definition ev_session :: "EvEnv \<Rightarrow> int \<Rightarrow> (nat \<Rightarrow> byte list) \<Rightarrow> nat list \<Rightarrow> ev_op list \<Rightarrow> EvSys \<Rightarrow> EvError + EvSys" where
  "ev_session E fd garbage order ops s =
     bindE (InitEventLogFile fd (es_out s)) (\<lambda>f.
     bindE (each_log_vproc (\<lambda>v. InitEventLog E (garbage v)) order (s\<lparr>es_out := f\<rparr>)) (\<lambda>s.
     bindE (ev_run E ops s) (FinishEventLog E 0)))"

end
