(* ===== verification/Event_Stream_Correct.thy ===== *)
theory Event_Stream_Correct
  imports Event_Stream
begin

text \<open>
  The event log of \<open>Event_Stream\<close> is correct: an open block keeps the bytes of its events
  (\<open>opened\<close>), closing it fills in the size and the time (\<open>closeBlock_closes\<close>), every operation
  only adds events and whole blocks (\<open>grows\<close>), and so a finished file is the header, the blocks
  and the end mark, with all events of every vproc in order (\<open>event_log_file\<close>). The types of
  arguments whose size in the table is not the size posted are shown to overrun the buffer
  (\<open>LogEventSig_float_overruns\<close>).
\<close>

section \<open>The blocks of the file\<close>

record EvBlock =
  bk_vp :: nat
  bk_start :: "64 word"
  bk_end :: "64 word"
  bk_events :: "byte list list"

definition open_bytes :: "EvEnv \<Rightarrow> nat \<Rightarrow> 64 word \<Rightarrow> byte list \<Rightarrow> byte list" where
  "open_bytes E v t0 body = be16 (word_of_nat (EventBlock E)) @ be64 t0 @ be32 0 @ be64 0 @ be16 (word_of_nat v) @ body"

definition closed_bytes :: "EvEnv \<Rightarrow> nat \<Rightarrow> 64 word \<Rightarrow> 64 word \<Rightarrow> byte list \<Rightarrow> byte list" where
  "closed_bytes E v t0 t1 body = be16 (word_of_nat (EventBlock E)) @ be64 t0
     @ be32 (word_of_nat (24 + length body)) @ be64 t1 @ be16 (word_of_nat v) @ body"

definition block_bytes :: "EvEnv \<Rightarrow> EvBlock \<Rightarrow> byte list" where
  "block_bytes E b = closed_bytes E (bk_vp b) (bk_start b) (bk_end b) (concat (bk_events b))"

lemma length_open_bytes [simp]: "length (open_bytes E v t0 body) = 24 + length body"
  and length_closed_bytes [simp]: "length (closed_bytes E v t0 t1 body) = 24 + length body"
  by (simp_all add: open_bytes_def closed_bytes_def)

text \<open>A vproc whose buffer is an open block with the given events.\<close>

definition opened :: "EvEnv \<Rightarrow> EvVProc \<Rightarrow> 64 word \<Rightarrow> byte list list \<Rightarrow> bool" where
  "opened E vp t0 evs \<longleftrightarrow> eb_marker (event_log vp) = Some 0
     \<and> holds (event_log vp) (open_bytes E (ev_id vp) t0 (concat evs))"

text \<open>What the system is relied upon: the clock can be read, and a \<open>write\<close> takes a whole buffer.\<close>

definition clock_works :: "EvEnv \<Rightarrow> bool" where
  "clock_works E \<longleftrightarrow> (\<forall>n. getProcessElapsedTime (clock_reads E n) \<noteq> None)"

definition writes_whole :: "EvEnv \<Rightarrow> bool" where
  "writes_whole E \<longleftrightarrow> (\<forall>n. write_results E n = Wrote LOGBLOCK_SZB)"

text \<open>The tables: the size of a block marker, and a header that fits the buffer.\<close>

definition tables_ok :: "EvEnv \<Rightarrow> bool" where
  "tables_ok E \<longleftrightarrow> EventBlock E < length (EventSizesArr E) \<and> EventSizesArr E ! EventBlock E = 14
     \<and> (\<forall>i < NumLogEvents E. length (EventDescArr E ! i) < 256) \<and> length (types_bytes E) \<le> LOGBLOCK_SZB"

lemma block_szb: "LOGBLOCK_SZB = 8192" by (simp add: LOGBLOCK_SZB_def)

lemma clock_tick:
  assumes "clock_works E"
  obtains t where "read_clock E f = Inr (t, f\<lparr>eo_ticks := eo_ticks f + 1\<rparr>)"
  using assms by (fastforce simp: clock_works_def read_clock_def split: option.splits)

lemma LogTimestamp_put:
  assumes "clock_works E"
  shows "\<exists>t. \<forall>eb. LogTimestamp E (eb, f) = bindE (in_buf (put eb (be64 t))) (\<lambda>eb. Inr (eb, f\<lparr>eo_ticks := eo_ticks f + 1\<rparr>))"
proof -
  obtain t where "read_clock E f = Inr (t, f\<lparr>eo_ticks := eo_ticks f + 1\<rparr>)" using clock_tick [OF assms] .
  then show ?thesis by (intro exI [of _ "t - eo_start_ts f"]) (simp add: LogTimestamp_def get_elapsed_time_def posts)
qed

text \<open>A marker posted into an empty buffer opens a block.\<close>

lemma postBlock_opens:
  assumes T: "tables_ok E" and C: "clock_works E"
    and h: "holds (event_log vp) []" and m: "eb_marker (event_log vp) = None"
  shows "\<exists>eb t. postBlock_with E (\<lambda>x. Inr x) (vp, f) = Inr (vp\<lparr>event_log := eb\<rparr>, f\<lparr>eo_ticks := eo_ticks f + 1\<rparr>)
    \<and> opened E (vp\<lparr>event_log := eb\<rparr>) t []"
proof -
  let ?eb = "(event_log vp)\<lparr>eb_marker := Some (eb_pos (event_log vp))\<rparr>"
  obtain t where t: "\<forall>eb. LogTimestamp E (eb, f) = bindE (in_buf (put eb (be64 t))) (\<lambda>eb. Inr (eb, f\<lparr>eo_ticks := eo_ticks f + 1\<rparr>))"
    using LogTimestamp_put [OF C, of f] by blast
  have h0: "holds ?eb []" using h by (simp add: holds_def)
  obtain e1 where e1: "put ?eb (be16 (word_of_nat (EventBlock E))) = Some e1" "holds e1 ([] @ be16 (word_of_nat (EventBlock E)))" "eb_marker e1 = eb_marker ?eb"
    using put_holds [OF h0, of "be16 (word_of_nat (EventBlock E))"] by (auto simp: block_szb)
  obtain e2 where e2: "put e1 (be64 t) = Some e2" "holds e2 (([] @ be16 (word_of_nat (EventBlock E))) @ be64 t)" "eb_marker e2 = eb_marker e1"
    using put_holds [OF e1(2), of "be64 t"] by (auto simp: block_szb)
  obtain e3 where e3: "put e2 (be32 0 @ be64 0 @ be16 (word_of_nat (ev_id vp))) = Some e3"
      "holds e3 ((([] @ be16 (word_of_nat (EventBlock E))) @ be64 t) @ be32 0 @ be64 0 @ be16 (word_of_nat (ev_id vp)))" "eb_marker e3 = eb_marker e2"
    using put_holds [OF e2(2), of "be32 0 @ be64 0 @ be16 (word_of_nat (ev_id vp))"] by (auto simp: block_szb)
  have r: "ensureRoom_with E (\<lambda>x. Inr x) (EventBlock E) (vp, f) = Inr (vp, f)"
    using T by (simp add: ensureRoom_with_def tables_ok_def Let_def)
  have "postBlock_with E (\<lambda>x. Inr x) (vp, f) = Inr (vp\<lparr>event_log := e3\<rparr>, f\<lparr>eo_ticks := eo_ticks f + 1\<rparr>)"
    using e1(1) e2(1) e3(1) by (simp add: postBlock_with_def r closeBlockMarker_def m posts t put_append)
  moreover have "opened E (vp\<lparr>event_log := e3\<rparr>) t []"
    using e1(3) e2(3) e3(2,3) h by (simp add: opened_def open_bytes_def holds_def)
  ultimately show ?thesis by blast
qed

text \<open>Closing a block fills in its size and the time of its end.\<close>

lemma closeBlock_closes:
  assumes C: "clock_works E" and o: "opened E vp t0 evs"
  shows "\<exists>eb t1. closeBlockMarker E (event_log vp, f) = Inr (eb, f\<lparr>eo_ticks := eo_ticks f + 1\<rparr>)
    \<and> eb_marker eb = None \<and> holds eb (closed_bytes E (ev_id vp) t0 t1 (concat evs))"
proof -
  let ?eb = "event_log vp" and ?v = "ev_id vp" and ?body = "concat evs"
  obtain t1 where t: "\<forall>eb. LogTimestamp E (eb, f) = bindE (in_buf (put eb (be64 t1))) (\<lambda>eb. Inr (eb, f\<lparr>eo_ticks := eo_ticks f + 1\<rparr>))"
    using LogTimestamp_put [OF C, of f] by blast
  have m: "eb_marker ?eb = Some 0" and h: "holds ?eb (open_bytes E ?v t0 ?body)" using o by (simp_all add: opened_def)
  let ?len = "word_of_nat (24 + length ?body) :: 32 word"
  let ?new = "be32 ?len @ be64 t1"
  let ?b = "eb_begin ?eb"
  have len: "length ?b = LOGBLOCK_SZB" and pos: "eb_pos ?eb = 24 + length ?body" and fits: "24 + length ?body \<le> LOGBLOCK_SZB"
    and tk: "take (24 + length ?body) ?b = open_bytes E ?v t0 ?body"
    using h holds_bound [OF h] by (simp_all add: holds_def)
  have in10: "10 + length ?new \<le> length ?b" using fits by (simp add: len)
  let ?e = "?eb\<lparr>eb_pos := 10 + length ?new, eb_begin := take 10 ?b @ ?new @ drop (10 + length ?new) ?b\<rparr>"
  have p: "put (?eb\<lparr>eb_pos := 10\<rparr>) ?new = Some ?e" by (rule put_inside [OF in10])
  let ?eb' = "?e\<lparr>eb_pos := eb_pos ?eb, eb_marker := None\<rparr>"
  have "closeBlockMarker E (?eb, f) = Inr (?eb', f\<lparr>eo_ticks := eo_ticks f + 1\<rparr>)"
  proof (cases "put (?eb\<lparr>eb_pos := 10\<rparr>) (be32 ?len)")
    case (Some e1)
    with p have "put e1 (be64 t1) = Some ?e" by (simp add: put_append)
    with Some show ?thesis by (simp add: closeBlockMarker_def m posts t pos)
  qed (use p in \<open>simp add: put_append\<close>)
  moreover have "holds ?eb' (closed_bytes E ?v t0 t1 ?body)"
  proof -
    have a: "take 10 ?b = be16 (word_of_nat (EventBlock E)) @ be64 t0"
      using arg_cong [OF tk, of "take 10"] by (simp add: open_bytes_def min_def)
    have "drop 22 (take (24 + length ?body) ?b) = be16 (word_of_nat ?v) @ ?body"
      by (simp add: tk open_bytes_def)
    then have d: "take (2 + length ?body) (drop 22 ?b) = be16 (word_of_nat ?v) @ ?body"
      by (simp add: take_drop add.commute)
    have "take (24 + length ?body) (take 10 ?b @ ?new @ drop 22 ?b) = take 10 ?b @ ?new @ take (2 + length ?body) (drop 22 ?b)"
      using fits by (simp add: len min_def)
    then show ?thesis using fits h by (simp add: holds_def pos len a d [simplified] closed_bytes_def block_szb)
  qed
  ultimately show ?thesis by (intro exI [of _ ?eb'] exI [of _ t1]) simp
qed

text \<open>Clearing an open buffer writes one block and opens the next.\<close>

lemma clear_opened:
  assumes T: "tables_ok E" and C: "clock_works E" and W: "writes_whole E" and fd: "0 \<le> eo_LogFD f" and o: "opened E vp t0 evs"
  shows "\<exists>eb t t1 f'. printAndClearEventBuf E (vp, f) = Inr (vp\<lparr>event_log := eb\<rparr>, f')
    \<and> opened E (vp\<lparr>event_log := eb\<rparr>) t [] \<and> eo_LogFD f' = eo_LogFD f
    \<and> eo_file f' = eo_file f @ block_bytes E \<lparr>bk_vp = ev_id vp, bk_start = t0, bk_end = t1, bk_events = evs\<rparr>"
proof -
  obtain eb t1 where c: "closeBlockMarker E (event_log vp, f) = Inr (eb, f\<lparr>eo_ticks := eo_ticks f + 1\<rparr>)"
    and m: "eb_marker eb = None" and h: "holds eb (closed_bytes E (ev_id vp) t0 t1 (concat evs))"
    using closeBlock_closes [OF C o] by blast
  let ?bs = "closed_bytes E (ev_id vp) t0 t1 (concat evs)"
  let ?f1 = "f\<lparr>eo_ticks := eo_ticks f + 1\<rparr>"
  let ?f2 = "?f1\<lparr>eo_file := eo_file f @ ?bs, eo_writes := eo_writes f + 1\<rparr>"
  have pos: "eb_pos eb = 24 + length (concat evs)" and tk: "take (eb_pos eb) (eb_begin eb) = ?bs" using h by (simp_all add: holds_def)
  have pos0: "eb_pos eb \<noteq> 0" using pos by simp
  have w: "write_log E ?f1 ?bs = Inr ?f2"
    using fd W holds_bound [OF h] by (simp add: write_log_def writes_whole_def)
  let ?vp = "vp\<lparr>event_log := eb\<lparr>eb_pos := 0, eb_marker := None\<rparr>\<rparr>"
  have "holds (event_log ?vp) []" using h by (simp add: holds_def)
  then obtain eb' t where b: "postBlock_with E (\<lambda>x. Inr x) (?vp, ?f2) = Inr (?vp\<lparr>event_log := eb'\<rparr>, ?f2\<lparr>eo_ticks := eo_ticks ?f2 + 1\<rparr>)"
    and ob: "opened E (?vp\<lparr>event_log := eb'\<rparr>) t []"
    using postBlock_opens [OF T C, of ?vp ?f2] by auto
  have "printAndClearEventBuf E (vp, f) = Inr (vp\<lparr>event_log := eb'\<rparr>, ?f2\<lparr>eo_ticks := eo_ticks ?f2 + 1\<rparr>)"
    using b by (simp add: printAndClearEventBuf_def numeral_2_eq_2 clear_step c tk w [simplified] pos0 [simplified] del: printAndClear_n.simps)
  then show ?thesis using ob by (intro exI conjI) (assumption, auto simp: block_bytes_def)
qed

section \<open>Logged events\<close>

fun arg_bytes :: "SigTy \<Rightarrow> 64 word \<Rightarrow> byte list" where
  "arg_bytes S_INT a = be32 (ucast a)"
| "arg_bytes S_WORD a = be32 (ucast a)"
| "arg_bytes S_WORD16 a = be16 (ucast a)"
| "arg_bytes S_WORD8 a = [ucast a]"
| "arg_bytes _ a = be64 a"

fun args_bytes :: "SigTy list \<Rightarrow> 64 word list \<Rightarrow> 64 word \<Rightarrow> byte list" where
  "args_bytes [] as newId = []"
| "args_bytes (S_NEW_ID # tys) as newId = be64 newId @ args_bytes tys as (newId + 1)"
| "args_bytes (ty # tys) (a # as) newId = arg_bytes ty a @ args_bytes tys as newId"
| "args_bytes (ty # tys) [] newId = []"

definition arg_count :: "SigTy list \<Rightarrow> nat" where "arg_count tys = length (filter (\<lambda>ty. ty \<noteq> S_NEW_ID) tys)"

lemma arg_count_simps [simp]:
  "arg_count [] = 0" "arg_count (S_NEW_ID # tys) = arg_count tys" "ty \<noteq> S_NEW_ID \<Longrightarrow> arg_count (ty # tys) = Suc (arg_count tys)"
  by (simp_all add: arg_count_def)

text \<open>The types whose posted size is the size in the table: \<open>FLOAT\<close> and \<open>STR\<close> are posted in eight bytes.\<close>

fun posted_as_sized :: "SigTy \<Rightarrow> bool" where
  "posted_as_sized S_FLOAT = False" | "posted_as_sized (S_STR n) = False" | "posted_as_sized _ = True"

lemma postArg_put: "postArg eb ty a = put eb (arg_bytes ty a)"
  by (cases ty) (simp_all add: posts)

lemma length_arg_bytes: "posted_as_sized ty \<Longrightarrow> length (arg_bytes ty a) = strSizeofTy ty"
  by (cases ty) simp_all

lemma length_args_bytes:
  "list_all posted_as_sized tys \<Longrightarrow> length as = arg_count tys \<Longrightarrow> length (args_bytes tys as newId) = computeSize tys"
  by (induction tys as newId rule: args_bytes.induct) (simp_all add: length_arg_bytes)

lemma genPosts_arg: "ty \<noteq> S_NEW_ID \<Longrightarrow> genPosts (ty # tys) (a # as) vp =
    Option.bind (put (event_log vp) (arg_bytes ty a)) (\<lambda>eb. genPosts tys as (vp\<lparr>event_log := eb\<rparr>))"
  by (cases ty) (simp_all add: posts)

lemma args_bytes_arg: "ty \<noteq> S_NEW_ID \<Longrightarrow> args_bytes (ty # tys) (a # as) newId = arg_bytes ty a @ args_bytes tys as newId"
  by (cases ty) simp_all

lemma genPosts_holds:
  "length as = arg_count tys \<Longrightarrow> holds (event_log vp) bs \<Longrightarrow> length bs + length (args_bytes tys as (ev_eventId vp)) \<le> LOGBLOCK_SZB \<Longrightarrow>
   \<exists>eb k. genPosts tys as vp = Some (vp\<lparr>event_log := eb, ev_eventId := k\<rparr>)
     \<and> holds eb (bs @ args_bytes tys as (ev_eventId vp)) \<and> eb_marker eb = eb_marker (event_log vp)"
proof (induction tys arbitrary: as vp bs)
  case Nil
  show ?case using Nil.prems by (intro exI [of _ "event_log vp"] exI [of _ "ev_eventId vp"]) simp
next
  case (Cons ty tys)
  show ?case
  proof (cases "ty = S_NEW_ID")
    case True
    let ?x = "be64 (ev_eventId vp)"
    obtain e1 where e1: "put (event_log vp) ?x = Some e1" "holds e1 (bs @ ?x)" "eb_marker e1 = eb_marker (event_log vp)"
      using put_holds [OF Cons.prems(2), of ?x] Cons.prems(3) by (auto simp: True)
    let ?vp = "vp\<lparr>ev_eventId := ev_eventId vp + 1, event_log := e1\<rparr>"
    have len: "length as = arg_count tys" and fits: "length (bs @ ?x) + length (args_bytes tys as (ev_eventId ?vp)) \<le> LOGBLOCK_SZB"
      and h: "holds (event_log ?vp) (bs @ ?x)" using Cons.prems(1,3) e1(2) by (simp_all add: True)
    from Cons.IH [OF len h fits] e1(1,3) show ?thesis by (auto simp: True NewEventId_ev_def posts)
  next
    case False
    then obtain a as' where as: "as = a # as'" using Cons.prems(1) by (cases as) auto
    let ?x = "arg_bytes ty a"
    obtain e1 where e1: "put (event_log vp) ?x = Some e1" "holds e1 (bs @ ?x)" "eb_marker e1 = eb_marker (event_log vp)"
      using put_holds [OF Cons.prems(2), of ?x] Cons.prems(3) by (auto simp: as args_bytes_arg [OF False])
    let ?vp = "vp\<lparr>event_log := e1\<rparr>"
    have len: "length as' = arg_count tys" and fits: "length (bs @ ?x) + length (args_bytes tys as' (ev_eventId ?vp)) \<le> LOGBLOCK_SZB"
      and h: "holds (event_log ?vp) (bs @ ?x)" using Cons.prems(1,3) e1(2) False by (simp_all add: as args_bytes_arg [OF False])
    from Cons.IH [OF len h fits] e1(1,3) show ?thesis by (auto simp: as args_bytes_arg [OF False] genPosts_arg [OF False])
  qed
qed

definition event_size :: "SigTy list \<Rightarrow> nat" where "event_size tys = 10 + computeSize tys"

definition ev_op_ok :: "EvEnv \<Rightarrow> nat \<Rightarrow> ev_op \<Rightarrow> bool" where
  "ev_op_ok E n x = (case x of (v, evt, tys, as) \<Rightarrow>
     v < n \<and> evt < length (EventSizesArr E) \<and> EventSizesArr E ! evt = word_of_nat (computeSize tys)
   \<and> list_all posted_as_sized tys \<and> length as = arg_count tys \<and> 24 + event_size tys \<le> LOGBLOCK_SZB)"

text \<open>The bytes of a logged event, for some time and some new identifier.\<close>

definition ev_bytes :: "ev_op \<Rightarrow> 64 word \<Rightarrow> 64 word \<Rightarrow> byte list" where
  "ev_bytes x t newId = (case x of (v, evt, tys, as) \<Rightarrow> be16 (word_of_nat evt) @ be64 t @ args_bytes tys as newId)"

definition logged :: "ev_op \<Rightarrow> byte list \<Rightarrow> bool" where
  "logged x bs \<longleftrightarrow> (\<exists>t newId. bs = ev_bytes x t newId)"

lemma post_event:
  assumes C: "clock_works E" and n: "length as = arg_count tys" and s: "list_all posted_as_sized tys"
    and o: "opened E vp t0 evs" and room: "24 + length (concat evs) + event_size tys \<le> LOGBLOCK_SZB"
  shows "\<exists>eb k e. bindE (in_buf (postWord16 (event_log vp) (word_of_nat evt))) (\<lambda>eb.
       bindE (LogTimestamp E (eb, f)) (\<lambda>(eb, f).
       bindE (in_buf (genPosts tys as (vp\<lparr>event_log := eb\<rparr>))) (\<lambda>vp. Inr (vp, f))))
     = Inr (vp\<lparr>event_log := eb, ev_eventId := k\<rparr>, f\<lparr>eo_ticks := eo_ticks f + 1\<rparr>)
     \<and> opened E (vp\<lparr>event_log := eb, ev_eventId := k\<rparr>) t0 (evs @ [e]) \<and> logged (v, evt, tys, as) e"
proof -
  let ?o = "open_bytes E (ev_id vp) t0 (concat evs)" and ?tag = "be16 (word_of_nat evt)" and ?nid = "ev_eventId vp"
  obtain t where t: "\<forall>eb. LogTimestamp E (eb, f) = bindE (in_buf (put eb (be64 t))) (\<lambda>eb. Inr (eb, f\<lparr>eo_ticks := eo_ticks f + 1\<rparr>))"
    using LogTimestamp_put [OF C, of f] by blast
  have m: "eb_marker (event_log vp) = Some 0" and h: "holds (event_log vp) ?o" using o by (simp_all add: opened_def)
  have len: "length (args_bytes tys as ?nid) = computeSize tys" by (rule length_args_bytes [OF s n])
  obtain e1 where e1: "put (event_log vp) ?tag = Some e1" "holds e1 (?o @ ?tag)" "eb_marker e1 = Some 0"
    using put_holds [OF h, of ?tag] room by (auto simp: event_size_def m)
  obtain e2 where e2: "put e1 (be64 t) = Some e2" "holds e2 ((?o @ ?tag) @ be64 t)" "eb_marker e2 = Some 0"
    using put_holds [OF e1(2), of "be64 t"] room e1(3) by (auto simp: event_size_def)
  obtain eb k where e3: "genPosts tys as (vp\<lparr>event_log := e2\<rparr>) = Some (vp\<lparr>event_log := eb, ev_eventId := k\<rparr>)"
      "holds eb (((?o @ ?tag) @ be64 t) @ args_bytes tys as ?nid)" "eb_marker eb = Some 0"
    using genPosts_holds [OF n, of "vp\<lparr>event_log := e2\<rparr>" "(?o @ ?tag) @ be64 t"] e2(2,3) room len by (auto simp: event_size_def)
  let ?e = "?tag @ be64 t @ args_bytes tys as ?nid"
  have "opened E (vp\<lparr>event_log := eb, ev_eventId := k\<rparr>) t0 (evs @ [?e])"
    using e3(2,3) by (simp add: opened_def open_bytes_def)
  moreover have "logged (v, evt, tys, as) ?e" by (auto simp: logged_def ev_bytes_def)
  ultimately show ?thesis using e1(1) e2(1) e3(1) by (intro exI conjI) (auto simp: posts t)
qed

text \<open>
  One logged event joins the open block, which was written out first when it had no room: the blocks
  \<open>bs\<close> written (at most one) and the open block hold the old events and then the new one.
\<close>

definition grows :: "EvEnv \<Rightarrow> (EvVProc \<times> EvOut \<Rightarrow> EvError + EvVProc \<times> EvOut) \<Rightarrow> (byte list list \<Rightarrow> byte list list \<Rightarrow> bool) \<Rightarrow> bool" where
  "grows E g P \<longleftrightarrow> (\<forall>vp f t0 evs. opened E vp t0 evs \<and> 0 \<le> eo_LogFD f \<longrightarrow>
     (\<exists>vp' f' t evs' bs new. g (vp, f) = Inr (vp', f') \<and> opened E vp' t evs' \<and> ev_id vp' = ev_id vp \<and> eo_LogFD f' = eo_LogFD f
        \<and> eo_file f' = eo_file f @ concat (map (block_bytes E) bs)
        \<and> (\<forall>b \<in> set bs. bk_vp b = ev_id vp \<and> length (block_bytes E b) \<le> LOGBLOCK_SZB)
        \<and> concat (map bk_events bs) @ evs' = evs @ new \<and> P new evs'))"

lemma opened_length: "opened E vp t0 evs \<Longrightarrow> 24 + length (concat evs) \<le> LOGBLOCK_SZB"
  using holds_bound by (fastforce simp: opened_def)

lemma clear_grows:
  assumes "tables_ok E" and "clock_works E" and "writes_whole E"
  shows "grows E (printAndClearEventBuf E) (\<lambda>new rest. new = [] \<and> rest = [])"
  unfolding grows_def
proof (intro allI impI, elim conjE)
  fix vp :: EvVProc and f :: EvOut and t0 evs assume o: "opened E vp t0 evs" and fd: "0 \<le> eo_LogFD f"
  obtain eb t t1 f' where c: "printAndClearEventBuf E (vp, f) = Inr (vp\<lparr>event_log := eb\<rparr>, f')"
      "opened E (vp\<lparr>event_log := eb\<rparr>) t []" "eo_LogFD f' = eo_LogFD f"
      "eo_file f' = eo_file f @ block_bytes E \<lparr>bk_vp = ev_id vp, bk_start = t0, bk_end = t1, bk_events = evs\<rparr>"
    using clear_opened [OF assms fd o] by blast
  show "\<exists>vp' f' t evs' bs new. printAndClearEventBuf E (vp, f) = Inr (vp', f') \<and> opened E vp' t evs' \<and> ev_id vp' = ev_id vp \<and> eo_LogFD f' = eo_LogFD f
        \<and> eo_file f' = eo_file f @ concat (map (block_bytes E) bs)
        \<and> (\<forall>b \<in> set bs. bk_vp b = ev_id vp \<and> length (block_bytes E b) \<le> LOGBLOCK_SZB)
        \<and> concat (map bk_events bs) @ evs' = evs @ new \<and> new = [] \<and> evs' = []"
    using c opened_length [OF o]
    by (intro exI [of _ "vp\<lparr>event_log := eb\<rparr>"] exI [of _ f'] exI [of _ t] exI [of _ "[]"]
          exI [of _ "[\<lparr>bk_vp = ev_id vp, bk_start = t0, bk_end = t1, bk_events = evs\<rparr>]"]) (simp add: block_bytes_def)
qed

lemma LogEvent_grows:
  assumes T: "tables_ok E" and C: "clock_works E" and W: "writes_whole E" and ok: "ev_op_ok E n (v, evt, tys, as)"
  shows "grows E (LogEventSig E evt tys as) (\<lambda>new rest. \<exists>e. new = [e] \<and> logged (v, evt, tys, as) e)"
  unfolding grows_def
proof (intro allI impI, elim conjE)
  fix vp :: EvVProc and f :: EvOut and t0 evs assume o: "opened E vp t0 evs" and fd: "0 \<le> eo_LogFD f"
  have tag: "evt < length (EventSizesArr E)" and sz: "EventSizesArr E ! evt = word_of_nat (computeSize tys)"
    and s: "list_all posted_as_sized tys" and n: "length as = arg_count tys" and fits: "24 + event_size tys \<le> LOGBLOCK_SZB"
    using ok by (simp_all add: ev_op_ok_def)
  have need: "unat (EventSizesArr E ! evt + 10) = event_size tys"
    using fits by (simp add: sz event_size_def block_szb unat_word_ariths unat_of_nat)
  have pos: "eb_pos (event_log vp) = 24 + length (concat evs)" and fin: "eb_end (event_log vp) = LOGBLOCK_SZB"
    using o by (simp_all add: opened_def holds_def)
  show "\<exists>vp' f' t evs' bs new. LogEventSig E evt tys as (vp, f) = Inr (vp', f') \<and> opened E vp' t evs' \<and> ev_id vp' = ev_id vp \<and> eo_LogFD f' = eo_LogFD f
        \<and> eo_file f' = eo_file f @ concat (map (block_bytes E) bs)
        \<and> (\<forall>b \<in> set bs. bk_vp b = ev_id vp \<and> length (block_bytes E b) \<le> LOGBLOCK_SZB)
        \<and> concat (map bk_events bs) @ evs' = evs @ new \<and> (\<exists>e. new = [e] \<and> logged (v, evt, tys, as) e)"
  proof (cases "24 + length (concat evs) + event_size tys \<le> LOGBLOCK_SZB")
    case True
    then have r: "ensureRoomForEvent E evt (vp, f) = Inr (vp, f)"
      by (simp add: ensureRoomForEvent_def ensureRoom_with_def tag Let_def need pos fin)
    obtain eb k e where p: "LogEventSig E evt tys as (vp, f) = Inr (vp\<lparr>event_log := eb, ev_eventId := k\<rparr>, f\<lparr>eo_ticks := eo_ticks f + 1\<rparr>)"
        "opened E (vp\<lparr>event_log := eb, ev_eventId := k\<rparr>) t0 (evs @ [e])" "logged (v, evt, tys, as) e"
      using post_event [OF C n s o True, of evt f v] by (auto simp: LogEventSig_def r)
    show ?thesis
      using p by (intro exI [of _ "vp\<lparr>event_log := eb, ev_eventId := k\<rparr>"] exI [of _ "f\<lparr>eo_ticks := eo_ticks f + 1\<rparr>"]
          exI [of _ t0] exI [of _ "evs @ [e]"] exI [of _ "[]"] exI [of _ "[e]"]) simp
  next
    case False
    obtain eb t t1 f1 where c: "printAndClearEventBuf E (vp, f) = Inr (vp\<lparr>event_log := eb\<rparr>, f1)"
        "opened E (vp\<lparr>event_log := eb\<rparr>) t []" "eo_LogFD f1 = eo_LogFD f"
        "eo_file f1 = eo_file f @ block_bytes E \<lparr>bk_vp = ev_id vp, bk_start = t0, bk_end = t1, bk_events = evs\<rparr>"
      using clear_opened [OF T C W fd o] by blast
    have r: "ensureRoomForEvent E evt (vp, f) = Inr (vp\<lparr>event_log := eb\<rparr>, f1)"
      using False by (simp add: ensureRoomForEvent_def ensureRoom_with_def tag Let_def need pos fin c(1))
    have room: "24 + length (concat []) + event_size tys \<le> LOGBLOCK_SZB" using fits by simp
    obtain eb' k e where p: "LogEventSig E evt tys as (vp, f) = Inr (vp\<lparr>event_log := eb', ev_eventId := k\<rparr>, f1\<lparr>eo_ticks := eo_ticks f1 + 1\<rparr>)"
        "opened E (vp\<lparr>event_log := eb', ev_eventId := k\<rparr>) t [e]" "logged (v, evt, tys, as) e"
      using post_event [OF C n s c(2) room, of evt f1 v] by (auto simp: LogEventSig_def r)
    show ?thesis
      using p c(3,4) opened_length [OF o]
      by (intro exI [of _ "vp\<lparr>event_log := eb', ev_eventId := k\<rparr>"] exI [of _ "f1\<lparr>eo_ticks := eo_ticks f1 + 1\<rparr>"]
          exI [of _ t] exI [of _ "[e]"] exI [of _ "[\<lparr>bk_vp = ev_id vp, bk_start = t0, bk_end = t1, bk_events = evs\<rparr>]"] exI [of _ "[e]"])
        (simp add: block_bytes_def)
  qed
qed

section \<open>A whole log\<close>

definition vproc_events :: "nat \<Rightarrow> EvBlock list \<Rightarrow> byte list list" where
  "vproc_events v bs = concat (map bk_events (filter (\<lambda>b. bk_vp b = v) bs))"

definition ops_of :: "nat \<Rightarrow> ev_op list \<Rightarrow> ev_op list" where "ops_of v ops = filter (\<lambda>x. fst x = v) ops"

lemma vproc_events_append [simp]: "vproc_events v (bs @ cs) = vproc_events v bs @ vproc_events v cs"
  by (simp add: vproc_events_def)

lemma vproc_events_own: "\<forall>b \<in> set bs. bk_vp b = w \<Longrightarrow> vproc_events v bs = (if v = w then concat (map bk_events bs) else [])"
  by (induction bs) (auto simp: vproc_events_def)

text \<open>The file after \<open>hdr\<close> is a list of blocks, and every vproc of \<open>D\<close> has an open one.\<close>

definition ev_block_ok :: "EvEnv \<Rightarrow> nat \<Rightarrow> EvBlock \<Rightarrow> bool" where
  "ev_block_ok E n b \<longleftrightarrow> bk_vp b < n \<and> length (block_bytes E b) \<le> LOGBLOCK_SZB"

definition ev_inv :: "EvEnv \<Rightarrow> nat \<Rightarrow> nat set \<Rightarrow> byte list \<Rightarrow> EvBlock list \<Rightarrow> (nat \<Rightarrow> byte list list) \<Rightarrow> EvSys \<Rightarrow> bool" where
  "ev_inv E n D hdr bs pend s \<longleftrightarrow> length (es_vps s) = n \<and> 0 \<le> eo_LogFD (es_out s)
     \<and> eo_file (es_out s) = hdr @ concat (map (block_bytes E) bs) \<and> list_all (ev_block_ok E n) bs
     \<and> (\<forall>v < n. ev_id (es_vps s ! v) = v \<and> (v \<in> D \<longrightarrow> (\<exists>t. opened E (es_vps s ! v) t (pend v))))"

lemma ev_inv_step:
  assumes I: "ev_inv E n D hdr bs pend s" and g: "grows E g P" and v: "v < n" "v \<in> D"
  shows "\<exists>s' cs new rest. at_log_vproc v g s = Inr s' \<and> ev_inv E n D hdr (bs @ cs) (pend(v := rest)) s' \<and> P new rest
     \<and> vproc_events v cs @ rest = pend v @ new \<and> (\<forall>w. w \<noteq> v \<longrightarrow> vproc_events w cs = [])"
proof -
  let ?vp = "es_vps s ! v" and ?f = "es_out s"
  have len: "length (es_vps s) = n" and fd: "0 \<le> eo_LogFD ?f"
    and fl: "eo_file ?f = hdr @ concat (map (block_bytes E) bs)" and ok: "list_all (ev_block_ok E n) bs"
    and V: "\<And>w. w < n \<Longrightarrow> ev_id (es_vps s ! w) = w" "\<And>w. w < n \<Longrightarrow> w \<in> D \<Longrightarrow> \<exists>t. opened E (es_vps s ! w) t (pend w)"
    using I unfolding ev_inv_def by blast+
  obtain t0 where o: "opened E ?vp t0 (pend v)" using V(2) [OF v] by blast
  obtain vp' f' t rest cs new where 1: "g (?vp, ?f) = Inr (vp', f')" and 2: "opened E vp' t rest" "ev_id vp' = ev_id ?vp"
      "eo_LogFD f' = eo_LogFD ?f" "eo_file f' = eo_file ?f @ concat (map (block_bytes E) cs)"
    and 3: "\<forall>b \<in> set cs. bk_vp b = ev_id ?vp \<and> length (block_bytes E b) \<le> LOGBLOCK_SZB"
    and 4: "concat (map bk_events cs) @ rest = pend v @ new" and 5: "P new rest"
    using g o fd unfolding grows_def by blast
  let ?s = "\<lparr>es_vps = (es_vps s)[v := vp'], es_out = f'\<rparr>"
  have own: "vproc_events w cs = (if w = v then concat (map bk_events cs) else [])" for w
    using 3 V(1) [OF v(1)] by (intro vproc_events_own) simp
  have "ev_inv E n D hdr (bs @ cs) (pend(v := rest)) ?s"
    unfolding ev_inv_def
  proof (intro conjI allI impI)
    show "list_all (ev_block_ok E n) (bs @ cs)" using ok 3 v V(1) [OF v(1)] by (auto simp: list_all_iff ev_block_ok_def)
    fix w assume w: "w < n"
    show "ev_id (es_vps ?s ! w) = w" using v w len V(1) [OF w] V(1) [OF v(1)] 2(2) by (simp add: nth_list_update)
    assume "w \<in> D"
    show "\<exists>t. opened E (es_vps ?s ! w) t ((pend(v := rest)) w)"
    proof (cases "w = v")
      case True
      with 2(1) len v show ?thesis by (intro exI [of _ t]) simp
    next
      case False
      with V(2) [OF w \<open>w \<in> D\<close>] show ?thesis by simp
    qed
  qed (use len fd fl 2(3,4) in simp_all)
  moreover have "at_log_vproc v g s = Inr ?s" by (simp add: at_log_vproc_def 1)
  ultimately show ?thesis using 4 5 own by (intro exI conjI) auto
qed

lemma ev_inv_run:
  assumes "tables_ok E" "clock_works E" "writes_whole E"
  shows "ev_inv E n {..<n} hdr bs pend s \<Longrightarrow> list_all (ev_op_ok E n) ops \<Longrightarrow>
    \<exists>s' cs pend'. ev_run E ops s = Inr s' \<and> ev_inv E n {..<n} hdr (bs @ cs) pend' s'
      \<and> (\<forall>v < n. \<exists>new. vproc_events v cs @ pend' v = pend v @ new \<and> list_all2 logged (ops_of v ops) new)"
proof (induction ops arbitrary: bs pend s)
  case Nil
  then show ?case by (intro exI [of _ s] exI [of _ "[]"] exI [of _ pend]) (simp add: vproc_events_def ops_of_def)
next
  case (Cons x ops)
  obtain v evt tys as where x: "x = (v, evt, tys, as)" by (cases x) auto
  have ok: "ev_op_ok E n (v, evt, tys, as)" and oks: "list_all (ev_op_ok E n) ops" using Cons.prems(2) by (simp_all add: x)
  have v: "v < n" "v \<in> {..<n}" using ok by (simp_all add: ev_op_ok_def)
  obtain s1 c1 new1 rest where 1: "at_log_vproc v (LogEventSig E evt tys as) s = Inr s1" "ev_inv E n {..<n} hdr (bs @ c1) (pend(v := rest)) s1"
      "\<exists>e. new1 = [e] \<and> logged (v, evt, tys, as) e" "vproc_events v c1 @ rest = pend v @ new1" "\<forall>w. w \<noteq> v \<longrightarrow> vproc_events w c1 = []"
    using ev_inv_step [OF Cons.prems(1) LogEvent_grows [OF assms ok] v] by blast
  obtain s2 c2 pend2 where 2: "ev_run E ops s1 = Inr s2" "ev_inv E n {..<n} hdr ((bs @ c1) @ c2) pend2 s2"
      "\<forall>w < n. \<exists>new. vproc_events w c2 @ pend2 w = (pend(v := rest)) w @ new \<and> list_all2 logged (ops_of w ops) new"
    using Cons.IH [OF 1(2) oks] by blast
  have "\<exists>new. vproc_events w (c1 @ c2) @ pend2 w = pend w @ new \<and> list_all2 logged (ops_of w (x # ops)) new" if w: "w < n" for w
  proof -
    obtain new where n2: "vproc_events w c2 @ pend2 w = (pend(v := rest)) w @ new" "list_all2 logged (ops_of w ops) new"
      using 2(3) w by blast
    show ?thesis
    proof (cases "w = v")
      case True
      have "vproc_events v (c1 @ c2) @ pend2 v = vproc_events v c1 @ rest @ new" using n2(1) by (simp add: True)
      also have "\<dots> = pend v @ new1 @ new" using 1(4) by (metis append_assoc)
      finally show ?thesis using n2(2) 1(3) by (intro exI [of _ "new1 @ new"]) (auto simp: True ops_of_def x)
    next
      case False
      then show ?thesis using n2 1(5) by (intro exI [of _ new]) (simp add: ops_of_def x)
    qed
  qed
  with 1(1) 2(1,2) show ?case by (intro exI [of _ s2] exI [of _ "c1 @ c2"] exI [of _ pend2]) (simp add: x)
qed

lemma ev_inv_clear:
  assumes "tables_ok E" "clock_works E" "writes_whole E"
  shows "ev_inv E n {..<n} hdr bs pend s \<Longrightarrow> set vs \<subseteq> {..<n} \<Longrightarrow>
    \<exists>s' cs. each_log_vproc (\<lambda>v. printAndClearEventBuf E) vs s = Inr s'
      \<and> ev_inv E n {..<n} hdr (bs @ cs) (\<lambda>v. if v \<in> set vs then [] else pend v) s'
      \<and> (\<forall>v. vproc_events v cs = (if v \<in> set vs then pend v else []))"
proof (induction vs arbitrary: bs pend s)
  case Nil
  then show ?case by (intro exI [of _ s] exI [of _ "[]"]) (simp add: vproc_events_def)
next
  case (Cons v vs)
  have v: "v < n" "v \<in> {..<n}" and vs: "set vs \<subseteq> {..<n}" using Cons.prems(2) by simp_all
  obtain s1 c1 new1 rest where 1: "at_log_vproc v (printAndClearEventBuf E) s = Inr s1" "ev_inv E n {..<n} hdr (bs @ c1) (pend(v := rest)) s1"
      "new1 = [] \<and> rest = []" "vproc_events v c1 @ rest = pend v @ new1" "\<forall>w. w \<noteq> v \<longrightarrow> vproc_events w c1 = []"
    using ev_inv_step [OF Cons.prems(1) clear_grows [OF assms] v] by blast
  obtain s2 c2 where 2: "each_log_vproc (\<lambda>v. printAndClearEventBuf E) vs s1 = Inr s2"
      "ev_inv E n {..<n} hdr ((bs @ c1) @ c2) (\<lambda>w. if w \<in> set vs then [] else (pend(v := rest)) w) s2"
      "\<forall>w. vproc_events w c2 = (if w \<in> set vs then (pend(v := rest)) w else [])"
    using Cons.IH [OF 1(2) vs] by blast
  have "(\<lambda>w. if w \<in> set vs then [] else (pend(v := rest)) w) = (\<lambda>w. if w \<in> set (v # vs) then [] else pend w)"
    using 1(3) by auto
  moreover have "\<forall>w. vproc_events w (c1 @ c2) = (if w \<in> set (v # vs) then pend w else [])"
    using 1(3,4,5) 2(3) by auto
  ultimately show ?case using 1(1) 2(1,2) by (intro exI [of _ s2] exI [of _ "c1 @ c2"]) simp
qed

text \<open>Writing out a buffer that is not a block.\<close>

lemma clear_unmarked:
  assumes T: "tables_ok E" and C: "clock_works E" and W: "writes_whole E" and fd: "0 \<le> eo_LogFD f"
    and h: "holds (event_log vp) bs" and m: "eb_marker (event_log vp) = None" and ne: "bs \<noteq> []"
  shows "\<exists>eb t f'. printAndClearEventBuf E (vp, f) = Inr (vp\<lparr>event_log := eb\<rparr>, f')
    \<and> opened E (vp\<lparr>event_log := eb\<rparr>) t [] \<and> eo_LogFD f' = eo_LogFD f \<and> eo_file f' = eo_file f @ bs"
proof -
  let ?f2 = "f\<lparr>eo_file := eo_file f @ bs, eo_writes := eo_writes f + 1\<rparr>"
  have pos0: "eb_pos (event_log vp) \<noteq> 0" and tk: "take (eb_pos (event_log vp)) (eb_begin (event_log vp)) = bs"
    using h ne by (simp_all add: holds_def)
  have w: "write_log E f bs = Inr ?f2"
    using fd W holds_bound [OF h] by (simp add: write_log_def writes_whole_def)
  let ?vp = "vp\<lparr>event_log := (event_log vp)\<lparr>eb_pos := 0, eb_marker := None\<rparr>\<rparr>"
  have "holds (event_log ?vp) []" using h by (simp add: holds_def)
  then obtain eb' t where b: "postBlock_with E (\<lambda>x. Inr x) (?vp, ?f2) = Inr (?vp\<lparr>event_log := eb'\<rparr>, ?f2\<lparr>eo_ticks := eo_ticks ?f2 + 1\<rparr>)"
    and ob: "opened E (?vp\<lparr>event_log := eb'\<rparr>) t []"
    using postBlock_opens [OF T C, of ?vp ?f2] by auto
  have "printAndClearEventBuf E (vp, f) = Inr (vp\<lparr>event_log := eb'\<rparr>, ?f2\<lparr>eo_ticks := eo_ticks ?f2 + 1\<rparr>)"
    using b by (simp add: printAndClearEventBuf_def numeral_2_eq_2 clear_step closeBlockMarker_def m tk w [simplified] pos0 [simplified] del: printAndClear_n.simps)
  then show ?thesis using ob by (intro exI conjI) (assumption, auto)
qed

lemma types_bytes_ne: "types_bytes E \<noteq> []" by (simp add: types_bytes_def be32_def be16_def)

text \<open>\<open>InitEventLog\<close> opens a block; that of vproc 0 first writes the header.\<close>

lemma InitEventLog_opens:
  assumes T: "tables_ok E" and C: "clock_works E" and W: "writes_whole E" and fd: "0 \<le> eo_LogFD f" and g: "length garbage = LOGBLOCK_SZB"
  shows "\<exists>vp' f' t. InitEventLog E garbage (vp, f) = Inr (vp', f') \<and> opened E vp' t [] \<and> ev_id vp' = ev_id vp
    \<and> eo_LogFD f' = eo_LogFD f \<and> eo_file f' = eo_file f @ (if ev_id vp = 0 then types_bytes E else [])"
proof -
  let ?eb = "\<lparr>eb_pos = 0, eb_marker = None, eb_end = LOGBLOCK_SZB, eb_begin = garbage\<rparr>"
  have h: "holds ?eb []" using g by (simp add: holds_def)
  show ?thesis
  proof (cases "ev_id vp = 0")
    case True
    obtain t where t: "read_clock E f = Inr (t, f\<lparr>eo_ticks := eo_ticks f + 1\<rparr>)" using clock_tick [OF C] .
    have short: "\<forall>i < NumLogEvents E. length (EventDescArr E ! i) < 256" using T by (simp add: tables_ok_def)
    obtain eb where e: "put ?eb (types_bytes E) = Some eb" "holds eb (types_bytes E)" "eb_marker eb = None"
      using put_holds [OF h, of "types_bytes E"] T by (auto simp: tables_ok_def)
    let ?f = "f\<lparr>eo_ticks := eo_ticks f + 1, eo_start_ts := t\<rparr>"
    obtain eb' t' f' where "printAndClearEventBuf E (vp\<lparr>event_log := eb\<rparr>, ?f) = Inr (vp\<lparr>event_log := eb, event_log := eb'\<rparr>, f')"
        "opened E (vp\<lparr>event_log := eb, event_log := eb'\<rparr>) t' []" "eo_LogFD f' = eo_LogFD f" "eo_file f' = eo_file f @ types_bytes E"
      using clear_unmarked [OF T C W, of ?f "vp\<lparr>event_log := eb\<rparr>" "types_bytes E"] fd e(2,3) types_bytes_ne by auto
    with e(1) show ?thesis
      by (intro exI [of _ "vp\<lparr>event_log := eb'\<rparr>"] exI [of _ f'] exI [of _ t'])
         (simp add: InitEventLog_def True initElapsedTS_def t postEventTypes_put [OF short])
  next
    case False
    have "postBlockMarker E (vp\<lparr>event_log := ?eb\<rparr>, f) = postBlock_with E (\<lambda>x. Inr x) (vp\<lparr>event_log := ?eb\<rparr>, f)"
      using postBlock_empty [of "vp\<lparr>event_log := ?eb\<rparr>" E 1 f]
      by (simp add: postBlockMarker_def printAndClearEventBuf_def numeral_2_eq_2 del: printAndClear_n.simps)
    with False postBlock_opens [OF T C, of "vp\<lparr>event_log := ?eb\<rparr>" f] h show ?thesis
      by (fastforce simp: InitEventLog_def)
  qed
qed

lemma ev_inv_init:
  assumes "tables_ok E" "clock_works E" "writes_whole E" and g: "\<forall>v. length (garbage v) = LOGBLOCK_SZB"
  shows "ev_inv E n D (if 0 \<in> D then types_bytes E else []) [] (\<lambda>v. []) s \<Longrightarrow> set vs \<subseteq> {..<n} \<Longrightarrow> distinct vs \<Longrightarrow> set vs \<inter> D = {} \<Longrightarrow>
    \<exists>s'. each_log_vproc (\<lambda>v. InitEventLog E (garbage v)) vs s = Inr s'
      \<and> ev_inv E n (D \<union> set vs) (if 0 \<in> D \<union> set vs then types_bytes E else []) [] (\<lambda>v. []) s'"
proof (induction vs arbitrary: D s)
  case (Cons v vs)
  let ?vp = "es_vps s ! v" and ?f = "es_out s"
  have v: "v < n" and vD: "v \<notin> D" using Cons.prems(2,4) by auto
  have I: "length (es_vps s) = n" "0 \<le> eo_LogFD ?f" "eo_file ?f = (if 0 \<in> D then types_bytes E else [])"
      "\<And>w. w < n \<Longrightarrow> ev_id (es_vps s ! w) = w" "\<And>w. w < n \<Longrightarrow> w \<in> D \<Longrightarrow> \<exists>t. opened E (es_vps s ! w) t []"
    using Cons.prems(1) unfolding ev_inv_def by auto
  obtain vp' f' t where 1: "InitEventLog E (garbage v) (?vp, ?f) = Inr (vp', f')" "opened E vp' t []" "ev_id vp' = v"
      "eo_LogFD f' = eo_LogFD ?f" "eo_file f' = eo_file ?f @ (if v = 0 then types_bytes E else [])"
    using InitEventLog_opens [OF assms(1-3) I(2), of "garbage v" ?vp] g I(4) [OF v] by auto
  let ?s = "\<lparr>es_vps = (es_vps s)[v := vp'], es_out = f'\<rparr>"
  have "ev_inv E n (insert v D) (if 0 \<in> insert v D then types_bytes E else []) [] (\<lambda>v. []) ?s"
    using I 1(2-5) vD v by (auto simp: ev_inv_def nth_list_update)
  then have "\<exists>s'. each_log_vproc (\<lambda>v. InitEventLog E (garbage v)) vs ?s = Inr s'
      \<and> ev_inv E n (insert v D \<union> set vs) (if 0 \<in> insert v D \<union> set vs then types_bytes E else []) [] (\<lambda>v. []) s'"
    using Cons.prems(2-4) by (intro Cons.IH) auto
  then show ?case by (auto simp: at_log_vproc_def 1(1))
qed (use assms in simp)

lemma end_of_data_writes:
  assumes T: "tables_ok E" and C: "clock_works E" and W: "writes_whole E" and fd: "0 \<le> eo_LogFD f" and o: "opened E vp t0 evs"
  shows "\<exists>vp' f'. end_of_data E (vp, f) = Inr (vp', f') \<and> eo_file f' = eo_file f @ [0xff, 0xff]"
proof -
  let ?eb = "(event_log vp)\<lparr>eb_pos := 0, eb_marker := None\<rparr>"
  have h: "holds ?eb []" using o by (simp add: opened_def holds_def)
  obtain eb where e: "put ?eb (be16 EVENT_DATA_END) = Some eb" "holds eb (be16 EVENT_DATA_END)" "eb_marker eb = None"
    using put_holds [OF h, of "be16 EVENT_DATA_END"] by (auto simp: block_szb)
  have b: "be16 EVENT_DATA_END = [0xff, 0xff]" by (simp add: be16_def EVENT_DATA_END_def)
  obtain eb' f' where "printAndClearEventBuf E (vp\<lparr>event_log := eb\<rparr>, f) = Inr (vp\<lparr>event_log := eb'\<rparr>, f')" "eo_file f' = eo_file f @ [0xff, 0xff]"
    using clear_unmarked [OF T C W fd, of "vp\<lparr>event_log := eb\<rparr>" "[0xff, 0xff]"] e(2,3) by (auto simp: b)
  with e(1) show ?thesis by (simp add: end_of_data_def posts)
qed

text \<open>The size field of a block, at its offset 10, is the number of its bytes.\<close>

lemma block_size_field: "take 4 (drop 10 (block_bytes E b)) = be32 (word_of_nat (length (block_bytes E b)))"
  by (simp add: block_bytes_def) (simp add: closed_bytes_def)

text \<open>C21: whatever the interleaving of the vprocs' logging calls, the finished event log is the header, then
  blocks of at most \<open>LOGBLOCK_SZB\<close> bytes that carry their own size, then the end mark; the blocks of a
  vproc hold the events it logged, all of them and in order; and no call overruns its buffer. It
  relies on a clock that can be read and on writes that take the whole buffer.\<close>

theorem event_log_file:
  assumes "tables_ok E" and "clock_works E" and "writes_whole E" and "0 \<le> fd"
    and "\<forall>v. length (garbage v) = LOGBLOCK_SZB" and "distinct order" and "set order = {..<n}" and "0 < n"
    and "map ev_id (es_vps s) = [0..<n]" and "list_all (ev_op_ok E n) ops"
  shows "\<exists>s' bs. ev_session E fd garbage order ops s = Inr s'
    \<and> eo_file (es_out s') = types_bytes E @ concat (map (block_bytes E) bs) @ [0xff, 0xff]
    \<and> list_all (ev_block_ok E n) bs
    \<and> (\<forall>b \<in> set bs. take 4 (drop 10 (block_bytes E b)) = be32 (word_of_nat (length (block_bytes E b))))
    \<and> (\<forall>v < n. list_all2 logged (ops_of v ops) (vproc_events v bs))"
proof -
  let ?f = "(es_out s)\<lparr>eo_LogFD := fd, eo_file := []\<rparr>" and ?s = "s\<lparr>es_out := (es_out s)\<lparr>eo_LogFD := fd, eo_file := []\<rparr>\<rparr>"
  have len: "length (es_vps s) = n" using arg_cong [OF assms(9), of length] by simp
  have ids: "v < n \<Longrightarrow> ev_id (es_vps s ! v) = v" for v
    using arg_cong [OF assms(9), of "\<lambda>xs. xs ! v"] len by simp
  have "ev_inv E n {} (if 0 \<in> ({} :: nat set) then types_bytes E else []) [] (\<lambda>v. []) ?s"
    using len ids assms(4) by (simp add: ev_inv_def)
  from ev_inv_init [OF assms(1-3,5) this, of order] assms(6-8)
  obtain s1 where 1: "each_log_vproc (\<lambda>v. InitEventLog E (garbage v)) order ?s = Inr s1" "ev_inv E n {..<n} (types_bytes E) [] (\<lambda>v. []) s1"
    by auto
  obtain s2 bs pend where 2: "ev_run E ops s1 = Inr s2" "ev_inv E n {..<n} (types_bytes E) ([] @ bs) pend s2"
      "\<forall>v < n. \<exists>new. vproc_events v bs @ pend v = [] @ new \<and> list_all2 logged (ops_of v ops) new"
    using ev_inv_run [OF assms(1-3) 1(2) assms(10)] by blast
  have len2: "length (es_vps s2) = n" and fd2: "0 \<le> eo_LogFD (es_out s2)" using 2(2) by (simp_all add: ev_inv_def)
  have sub: "set [0..<length (es_vps s2)] \<subseteq> {..<n}" by (auto simp: len2)
  obtain s3 cs where 3: "each_log_vproc (\<lambda>v. printAndClearEventBuf E) [0..<length (es_vps s2)] s2 = Inr s3"
      "ev_inv E n {..<n} (types_bytes E) (([] @ bs) @ cs) (\<lambda>v. if v \<in> set [0..<length (es_vps s2)] then [] else pend v) s3"
      "\<forall>v. vproc_events v cs = (if v \<in> set [0..<length (es_vps s2)] then pend v else [])"
    using ev_inv_clear [OF assms(1-3) 2(2) sub] by blast
  have 30: "0 \<le> eo_LogFD (es_out s3)" "eo_file (es_out s3) = types_bytes E @ concat (map (block_bytes E) (bs @ cs))" "list_all (ev_block_ok E n) (bs @ cs)"
    using 3(2) unfolding ev_inv_def by (simp_all del: set_upt)
  have "\<forall>v < n. \<exists>t. opened E (es_vps s3 ! v) t (if v \<in> set [0..<length (es_vps s2)] then [] else pend v)"
    using 3(2) unfolding ev_inv_def by blast
  with assms(8) obtain t evs where o: "opened E (es_vps s3 ! 0) t evs" by blast
  obtain vp' f' where 4: "end_of_data E (es_vps s3 ! 0, es_out s3) = Inr (vp', f')" "eo_file f' = eo_file (es_out s3) @ [0xff, 0xff]"
    using end_of_data_writes [OF assms(1-3) 30(1) o] by blast
  let ?s' = "\<lparr>es_vps = (es_vps s3)[0 := vp'], es_out = f'\<lparr>eo_LogFD := - 1\<rparr>\<rparr>"
  have "ev_session E fd garbage order ops s = Inr ?s'"
    using 1(1) 2(1) 3(1) 4(1) assms(4) fd2 by (simp add: ev_session_def InitEventLogFile_def FinishEventLog_def at_log_vproc_def del: upt_Suc)
  moreover have "\<forall>v < n. list_all2 logged (ops_of v ops) (vproc_events v (bs @ cs))"
    using 2(3) 3(3) by (fastforce simp: len2)
  ultimately show ?thesis using 4(2) 30 block_size_field by (intro exI [of _ ?s'] exI [of _ "bs @ cs"]) simp
qed

definition wenv :: EvEnv where
  "wenv = \<lparr>EventDescArr = [[], ''start'', ''sent'', ''block''], EventSizesArr = [0, 4, 12, 14], EventBlock = 3,
     clock_reads = (\<lambda>n. ClockGettime 0 1 (word_of_nat n)), write_results = (\<lambda>n. Wrote LOGBLOCK_SZB)\<rparr>"

definition wsys :: EvSys where
  "wsys = \<lparr>es_vps = map (\<lambda>v. \<lparr>ev_id = v, event_log = \<lparr>eb_pos = 0, eb_marker = None, eb_end = 0, eb_begin = []\<rparr>, ev_eventId = 0\<rparr>) [0, 1],
     es_out = \<lparr>eo_LogFD = - 1, eo_file = [], eo_start_ts = 0, eo_ticks = 0, eo_writes = 0\<rparr>\<rparr>"

definition wev_ops :: "ev_op list" where
  "wev_ops = [(0, 1, [S_INT], [7]), (1, 2, [S_NEW_ID, S_WORD], [9]), (0, 2, [S_NEW_ID, S_WORD], [8])]"

lemma event_log_file_witness:
  "\<exists>s' bs. ev_session wenv 3 (\<lambda>v. replicate LOGBLOCK_SZB 0) [1, 0] wev_ops wsys = Inr s'
    \<and> eo_file (es_out s') = types_bytes wenv @ concat (map (block_bytes wenv) bs) @ [0xff, 0xff]
    \<and> list_all (ev_block_ok wenv 2) bs
    \<and> (\<forall>b \<in> set bs. take 4 (drop 10 (block_bytes wenv b)) = be32 (word_of_nat (length (block_bytes wenv b))))
    \<and> (\<forall>v < 2. list_all2 logged (ops_of v wev_ops) (vproc_events v bs))"
proof (rule event_log_file)
  show "tables_ok wenv"
    by (simp add: tables_ok_def wenv_def NumLogEvents_def types_bytes_def type_bytes_def upt_rec All_less_Suc numeral_nat block_szb)
  show "clock_works wenv" by (simp add: clock_works_def wenv_def)
  show "writes_whole wenv" by (simp add: writes_whole_def wenv_def)
  show "map ev_id (es_vps wsys) = [0..<2]" by (simp add: wsys_def upt_rec)
  show "list_all (ev_op_ok wenv 2) wev_ops" by (simp add: wev_ops_def wenv_def ev_op_ok_def event_size_def block_szb)
qed auto

text \<open>
  A \<open>FLOAT\<close> argument counts four bytes in the table and is posted in eight: at the end of the buffer
  such an event is stored past it.
\<close>

lemma put_over: "length (eb_begin eb) < eb_pos eb + length cs \<Longrightarrow> eb_pos eb \<le> length (eb_begin eb) \<Longrightarrow> put eb cs = None"
  by (induction eb cs rule: put.induct) (auto simp: postWord8_def)

lemma LogEventSig_float_overruns:
  assumes "EventSizesArr E ! evt = 4" "evt < length (EventSizesArr E)" and C: "clock_works E"
    and h: "holds (event_log vp) bs" and full: "length bs + 14 = LOGBLOCK_SZB"
  shows "LogEventSig E evt [S_FLOAT] [a] (vp, f) = Inl Overrun"
proof -
  have r: "ensureRoomForEvent E evt (vp, f) = Inr (vp, f)"
    using assms(1,2) h full by (simp add: ensureRoomForEvent_def ensureRoom_with_def holds_def Let_def)
  obtain t where t: "\<forall>eb. LogTimestamp E (eb, f) = bindE (in_buf (put eb (be64 t))) (\<lambda>eb. Inr (eb, f\<lparr>eo_ticks := eo_ticks f + 1\<rparr>))"
    using LogTimestamp_put [OF C, of f] by blast
  obtain e1 where e1: "put (event_log vp) (be16 (word_of_nat evt)) = Some e1" "holds e1 (bs @ be16 (word_of_nat evt))"
    using put_holds [OF h, of "be16 (word_of_nat evt)"] full by auto
  obtain e2 where e2: "put e1 (be64 t) = Some e2" "holds e2 ((bs @ be16 (word_of_nat evt)) @ be64 t)"
    using put_holds [OF e1(2), of "be64 t"] full by auto
  have "put e2 (be64 a) = None" using e2(2) full by (intro put_over) (simp_all add: holds_def)
  then show ?thesis by (simp add: LogEventSig_def r posts t e1(1) e2(1))
qed

end
